(* ===== verification/Gift_Prelude.thy ===== *)
theory Gift_Prelude
  imports Main "HOL-Library.Word" "HOL-Library.Sublist"
begin

text \<open>
  What every component of the development shares: the vocabulary of a gRPC result, the
  fault schedule of an external store, Go's \<open>int64\<close> arithmetic on durations, and the
  functions of Go's packages \<open>strings\<close> and \<open>encoding/base64\<close> that the services call, with
  the lemmas about them.

  Conventions. A Go string is a list of bytes (\<open>string\<close>, a list of 8-bit \<open>char\<close>). An instant
  (\<open>time.Time\<close>) is the number of nanoseconds since the Unix epoch and a \<open>time.Duration\<close> a
  number of nanoseconds; both are \<open>int\<close>, and \<open>int64\<close> wrap-around is written out
  (\<open>wrap64\<close>) where the source multiplies unbounded input. A call that returns \<open>(T, error)\<close>
  returns a sum, \<open>Inl\<close> for the error.
\<close>

named_theorems go_defs \<open>definitions that evaluate on concrete input\<close>

type_synonym time = int
type_synonym duration = int

section \<open>gRPC results\<close>

datatype grpc_code =
    OK | Canceled | Unknown | InvalidArgument | DeadlineExceeded | NotFound | AlreadyExists
  | PermissionDenied | ResourceExhausted | FailedPrecondition | Aborted | OutOfRange
  | Unimplemented | Internal | Unavailable | DataLoss | Unauthenticated

text \<open>A gRPC status: the code, and the message or the structured error it renders.\<close>

datatype 'd status = Status (scode: grpc_code) (sdetail: 'd)

section \<open>Faults of external stores\<close>

text \<open>
  Every statement sent to Postgres or Valkey may fail. A store's state carries a schedule
  of booleans; each statement consumes one, and \<open>True\<close> means that statement fails. An
  exhausted schedule never fails. Theorems quantify over the whole state, hence over every
  pattern of failures.
\<close>

fun next_fault :: "bool list \<Rightarrow> bool \<times> bool list" where
  "next_fault [] = (False, [])"
| "next_fault (b # bs) = (b, bs)"

section \<open>int64 arithmetic\<close>

definition wrap64 :: "int \<Rightarrow> int" where
  "wrap64 x = sint (word_of_int x :: 64 word)"

definition ns_per_sec :: int where
  "ns_per_sec = 1000000000"

lemma wrap64_id: "- (2 ^ 63) \<le> x \<Longrightarrow> x < 2 ^ 63 \<Longrightarrow> wrap64 x = x"
  by (simp add: wrap64_def signed_take_bit_int_eq_self sint_sbintrunc')

lemma wrap64_bounds: "- (2 ^ 63) \<le> wrap64 x \<and> wrap64 x < 2 ^ 63"
  using sint_greater_eq [of "word_of_int x :: 64 word"] sint_lt [of "word_of_int x :: 64 word"]
  by (simp add: wrap64_def)

section \<open>Package strings\<close>

text \<open>
  \<open>trim_with ps s\<close> removes, as long as one matches, a prefix from the list \<open>ps\<close> of
  non-empty byte sequences.
\<close>

function trim_with :: "string list \<Rightarrow> string \<Rightarrow> string" where
  "trim_with ps s =
     (case find (\<lambda>p. p \<noteq> [] \<and> prefix p s) ps of
        None \<Rightarrow> s
      | Some p \<Rightarrow> trim_with ps (drop (length p) s))"
  by pat_completeness auto
termination
proof (relation "measure (\<lambda>(ps, s). length s)")
  show "wf (measure (\<lambda>(ps, s). length s))" by simp
next
  fix ps :: "string list" and s p
  assume "find (\<lambda>p. p \<noteq> [] \<and> prefix p s) ps = Some p"
  then have "p \<noteq> []" and "prefix p s"
    by (auto simp: find_Some_iff)
  then have "0 < length p" and "length p \<le> length s"
    by (simp_all add: prefix_length_le)
  then have "length (drop (length p) s) < length s"
    unfolding length_drop by linarith
  then show "((ps, drop (length p) s), ps, s) \<in> measure (\<lambda>(ps, s). length s)"
    by simp
qed

declare trim_with.simps [simp del]

text \<open>
  The runes of Unicode's \<open>White_Space\<close> property in UTF-8, which is what
  \<open>unicode.IsSpace\<close> tests: tab, newline, vertical tab, form feed, carriage return, space,
  U+0085, U+00A0, U+1680, U+2000 to U+200A, U+2028, U+2029, U+202F, U+205F and U+3000.
\<close>

definition space_runes :: "string list" where
  "space_runes =
     [[CHR 0x20], [CHR 0x09], [CHR 0x0A], [CHR 0x0B], [CHR 0x0C], [CHR 0x0D],
      [CHR 0xC2, CHR 0x85], [CHR 0xC2, CHR 0xA0], [CHR 0xE1, CHR 0x9A, CHR 0x80],
      [CHR 0xE2, CHR 0x80, CHR 0x80], [CHR 0xE2, CHR 0x80, CHR 0x81],
      [CHR 0xE2, CHR 0x80, CHR 0x82], [CHR 0xE2, CHR 0x80, CHR 0x83],
      [CHR 0xE2, CHR 0x80, CHR 0x84], [CHR 0xE2, CHR 0x80, CHR 0x85],
      [CHR 0xE2, CHR 0x80, CHR 0x86], [CHR 0xE2, CHR 0x80, CHR 0x87],
      [CHR 0xE2, CHR 0x80, CHR 0x88], [CHR 0xE2, CHR 0x80, CHR 0x89],
      [CHR 0xE2, CHR 0x80, CHR 0x8A], [CHR 0xE2, CHR 0x80, CHR 0xA8],
      [CHR 0xE2, CHR 0x80, CHR 0xA9], [CHR 0xE2, CHR 0x80, CHR 0xAF],
      [CHR 0xE2, CHR 0x81, CHR 0x9F], [CHR 0xE3, CHR 0x80, CHR 0x80]]"

definition TrimSpace :: "string \<Rightarrow> string" where
  "TrimSpace s =
     rev (trim_with (map rev space_runes) (rev (trim_with space_runes s)))"

definition TrimRight1 :: "string \<Rightarrow> char \<Rightarrow> string" where
  "TrimRight1 s c = rev (trim_with [[c]] (rev s))"

text \<open>\<open>strings.IndexByte\<close>; the source's -1 is \<open>None\<close>.\<close>

fun IndexByte :: "string \<Rightarrow> char \<Rightarrow> nat option" where
  "IndexByte [] c = None"
| "IndexByte (x # xs) c = (if x = c then Some 0 else map_option Suc (IndexByte xs c))"

text \<open>\<open>strings.Split\<close> at a one-byte separator.\<close>

fun Split :: "string \<Rightarrow> char \<Rightarrow> string list" where
  "Split [] c = [[]]"
| "Split (x # xs) c =
     (if x = c then [] # Split xs c
      else case Split xs c of [] \<Rightarrow> [[x]] | y # ys \<Rightarrow> (x # y) # ys)"

text \<open>\<open>strings.Join\<close>.\<close>

fun Join :: "string list \<Rightarrow> string \<Rightarrow> string" where
  "Join [] sep = []"
| "Join [x] sep = x"
| "Join (x # y # ys) sep = x @ sep @ Join (y # ys) sep"

text \<open>\<open>strings.Replace\<close> with count 1: the first occurrence of a non-empty pattern.\<close>

fun Replace1 :: "string \<Rightarrow> string \<Rightarrow> string \<Rightarrow> string" where
  "Replace1 s old new =
     (if prefix old s then new @ drop (length old) s
      else case s of [] \<Rightarrow> [] | x # xs \<Rightarrow> x # Replace1 xs old new)"

declare Replace1.simps [simp del]

text \<open>
  \<open>strings.ToLower\<close> and \<open>strings.ToUpper\<close> on ASCII letters; other bytes are kept (Go also
  maps non-ASCII letters, which no statement below depends on).
\<close>

definition lower_char :: "char \<Rightarrow> char" where
  "lower_char c =
     (if 65 \<le> (of_char c :: nat) \<and> (of_char c :: nat) \<le> 90 then char_of (of_char c + 32 :: nat) else c)"

definition upper_char :: "char \<Rightarrow> char" where
  "upper_char c =
     (if 97 \<le> (of_char c :: nat) \<and> (of_char c :: nat) \<le> 122 then char_of (of_char c - 32 :: nat) else c)"

definition ToLower :: "string \<Rightarrow> string" where
  "ToLower s = map lower_char s"

definition ToUpper :: "string \<Rightarrow> string" where
  "ToUpper s = map upper_char s"

definition EqualFold :: "string \<Rightarrow> string \<Rightarrow> bool" where
  "EqualFold a b \<longleftrightarrow> ToLower a = ToLower b"

definition HasPrefix :: "string \<Rightarrow> string \<Rightarrow> bool" where
  "HasPrefix s p \<longleftrightarrow> prefix p s"

fun Contains :: "string \<Rightarrow> string \<Rightarrow> bool" where
  "Contains [] p = (p = [])"
| "Contains (x # xs) p = (prefix p (x # xs) \<or> Contains xs p)"

subsection \<open>Lemmas about the string functions\<close>

lemma trim_with_Nil [simp]: "trim_with ps [] = []"
  by (subst trim_with.simps) (auto split: option.splits simp: find_Some_iff)

lemma length_trim_with: "length (trim_with ps s) \<le> length s"
proof (induction ps s rule: trim_with.induct)
  case (1 ps s)
  show ?case
  proof (cases "find (\<lambda>p. p \<noteq> [] \<and> prefix p s) ps")
    case None
    then show ?thesis by (subst trim_with.simps) simp
  next
    case (Some p)
    with 1 have "length (trim_with ps (drop (length p) s)) \<le> length s"
      by (metis le_trans length_drop diff_le_self)
    with Some show ?thesis by (subst trim_with.simps) simp
  qed
qed

lemma TrimSpace_Nil [simp]: "TrimSpace [] = []"
  by (simp add: TrimSpace_def)

lemma length_TrimSpace: "length (TrimSpace s) \<le> length s"
  using length_trim_with [of "map rev space_runes" "rev (trim_with space_runes s)"]
    length_trim_with [of space_runes s]
  by (simp add: TrimSpace_def)

lemma TrimSpace_keep:
  "find (\<lambda>p. p \<noteq> [] \<and> prefix p s) space_runes = None \<Longrightarrow>
   find (\<lambda>p. p \<noteq> [] \<and> prefix p (rev s)) (map rev space_runes) = None \<Longrightarrow> TrimSpace s = s"
  unfolding TrimSpace_def by (simp add: trim_with.simps)

lemma TrimSpace_nonempty: "TrimSpace s \<noteq> [] \<Longrightarrow> s \<noteq> []"
  by auto

lemma Split_nonempty [simp]: "Split s c \<noteq> []"
  by (induction s) (auto split: list.splits)

lemma Join_Split: "Join (Split s c) [c] = s"
proof (induction s)
  case Nil
  then show ?case by simp
next
  case (Cons x xs)
  obtain y ys where "Split xs c = y # ys"
    by (cases "Split xs c") auto
  with Cons show ?case
    by (cases ys) auto
qed

lemma Split_no_sep: "c \<notin> set s \<Longrightarrow> Split s c = [s]"
  by (induction s) auto

lemma Split_append: "c \<notin> set s \<Longrightarrow> Split (s @ c # t) c = s # Split t c"
  by (induction s) auto

lemma Split_Join: "xs \<noteq> [] \<Longrightarrow> \<forall>x \<in> set xs. c \<notin> set x \<Longrightarrow> Split (Join xs [c]) c = xs"
  by (induction xs "[c]" rule: Join.induct) (simp_all add: Split_no_sep Split_append)

lemma set_Join: "set (Join xs sep) \<subseteq> set (concat xs) \<union> set sep"
  by (induction xs sep rule: Join.induct) auto

lemma IndexByte_None_iff: "IndexByte s c = None \<longleftrightarrow> c \<notin> set s"
  by (induction s) auto

lemma IndexByte_append: "c \<notin> set s \<Longrightarrow> IndexByte (s @ c # t) c = Some (length s)"
  by (induction s) auto

lemma IndexByte_Some: "IndexByte s c = Some i \<Longrightarrow> i < length s \<and> s ! i = c \<and> c \<notin> set (take i s)"
  by (induction s arbitrary: i) (auto split: if_splits)

lemma ToLower_idem [simp]: "ToLower (ToLower s) = ToLower s"
proof -
  have "lower_char (lower_char c) = lower_char c" for c
    by (auto simp: lower_char_def of_char_of)
  then show ?thesis by (simp add: ToLower_def)
qed

lemma EqualFold_refl [simp]: "EqualFold a a"
  by (simp add: EqualFold_def)

section \<open>Package fmt on integers\<close>

text \<open>The verb \<open>%d\<close>.\<close>

function fmt_nat :: "nat \<Rightarrow> string" where
  "fmt_nat n = (if n < 10 then [char_of (48 + n)] else fmt_nat (n div 10) @ [char_of (48 + n mod 10)])"
  by auto
termination by (relation "measure id") auto

declare fmt_nat.simps [simp del]

definition fmt_int :: "int \<Rightarrow> string" where
  "fmt_int i = (if i < 0 then CHR ''-'' # fmt_nat (nat (- i)) else fmt_nat (nat i))"

lemma fmt_nat_value: "foldl (\<lambda>n c. n * 10 + (of_char c - 48)) 0 (fmt_nat n) = (n :: nat)"
proof (induction n rule: fmt_nat.induct)
  case (1 n)
  have d: "of_char (char_of (48 + n mod 10 :: nat)) = 48 + n mod 10"
    by (simp add: of_char_of)
  show ?case
  proof (cases "n < 10")
    case True
    then show ?thesis by (simp add: fmt_nat.simps [of n])
  next
    case False
    then show ?thesis using 1 d by (simp add: fmt_nat.simps [of n])
  qed
qed

lemma fmt_nat_inj: "fmt_nat m = fmt_nat n \<longleftrightarrow> m = n"
  using fmt_nat_value by metis

lemma fmt_nat_digits: "c \<in> set (fmt_nat n) \<Longrightarrow> 48 \<le> (of_char c :: nat) \<and> (of_char c :: nat) \<le> 57"
proof (induction n rule: fmt_nat.induct)
  case (1 n)
  show ?case
  proof (cases "n < 10")
    case True
    with 1(2) show ?thesis by (auto simp: fmt_nat.simps [of n] of_char_of)
  next
    case False
    with 1 show ?thesis by (auto simp: fmt_nat.simps [of n] of_char_of)
  qed
qed

lemma fmt_int_chars: "c \<in> set (fmt_int i) \<Longrightarrow> c = CHR ''-'' \<or> 48 \<le> (of_char c :: nat)"
  using fmt_nat_digits by (fastforce simp: fmt_int_def split: if_splits)

lemma fmt_int_inj: "fmt_int i = fmt_int j \<longleftrightarrow> i = j"
proof -
  have "fmt_nat m \<noteq> CHR ''-'' # xs" for m xs
    using fmt_nat_digits [of "CHR ''-''" m] by auto
  then show ?thesis by (auto simp: fmt_int_def fmt_nat_inj dest: sym split: if_splits)
qed

section \<open>Lists\<close>

lemma all_same_key_le1:
  assumes "distinct (map f xs)" and "\<And>x y. x \<in> set xs \<Longrightarrow> y \<in> set xs \<Longrightarrow> f x = f y"
  shows "length xs \<le> 1"
proof (cases xs)
  case (Cons a ys)
  have "ys = []"
  proof (cases ys)
    case (Cons b zs)
    with \<open>xs = a # ys\<close> assms(1) assms(2) [of a b] show ?thesis by simp
  qed simp
  with Cons show ?thesis by simp
qed simp

section \<open>Maps kept as Go maps\<close>

text \<open>A Go \<open>map[K]V\<close> is a partial function; \<open>map[string]bool\<close> used as a set is a set.\<close>

type_synonym ('k, 'v) gomap = "'k \<Rightarrow> 'v option"

section \<open>gRPC metadata\<close>

text \<open>
  \<open>metadata.MD\<close> maps lower-case keys to lists of values; \<open>metadata.FromIncomingContext\<close>
  yields none when the call carries no metadata, and \<open>md.Get\<close> of a missing key is empty.
\<close>

type_synonym md = "(string \<times> string list) list"

definition md_get :: "md \<Rightarrow> string \<Rightarrow> string list" where
  "md_get m k = (case map_of m k of None \<Rightarrow> [] | Some vs \<Rightarrow> vs)"

section \<open>Uuid parameters of statements\<close>

text \<open>
  What the driver's parse of a uuid promises: the canonical text of a uuid parses to itself.
\<close>

definition uuid_parse_ok :: "(string \<Rightarrow> string option) \<Rightarrow> bool" where
  "uuid_parse_ok up \<longleftrightarrow> (\<forall>x y. up x = Some y \<longrightarrow> up y = Some y)"

section \<open>Sorting\<close>

lemma map_insort_key: "map f (insort_key (\<lambda>x. k (f x)) x xs) = insort_key k (f x) (map f xs)"
  by (induction xs) auto

lemma map_sort_key: "map f (sort_key (\<lambda>x. k (f x)) xs) = sort_key k (map f xs)"
  by (induction xs) (simp_all add: map_insort_key)

section \<open>Lists as tables\<close>

lemma notin_image: "y \<notin> f ` S \<longleftrightarrow> (\<forall>x \<in> S. f x \<noteq> y)"
  by auto

lemma find_None_filter: "find P xs = None \<longleftrightarrow> filter P xs = []"
  by (induction xs) auto

lemma find_append: "find P (xs @ ys) = (case find P xs of None \<Rightarrow> find P ys | Some x \<Rightarrow> Some x)"
  by (induction xs) auto

lemma find_SomeD: "find P xs = Some x \<Longrightarrow> x \<in> set xs \<and> P x"
  by (induction xs) (auto split: if_splits)

lemma find_NoneD: "find P xs = None \<Longrightarrow> x \<in> set xs \<Longrightarrow> \<not> P x"
  by (induction xs) (auto split: if_splits)

lemma find_map_update:
  assumes "\<And>x. P (f x) = P x"
  shows "find P (map f xs) = map_option f (find P xs)"
  using assms by (induction xs) auto

lemma find_unique:
  assumes "distinct (map f xs)" and "x \<in> set xs"
  shows "find (\<lambda>y. f y = f x) xs = Some x"
  using assms
proof (induction xs)
  case Nil
  then show ?case by simp
next
  case (Cons a xs)
  then show ?case by (cases "a = x") (auto simp: image_iff)
qed

section \<open>Statements that may fail\<close>

text \<open>
  \<open>guarded tick e k\<close> sends a statement (consuming one entry of the schedule), fails with \<open>e\<close> if
  it fails and goes on with \<open>k\<close> otherwise.
\<close>

definition guarded ::
  "('s \<Rightarrow> bool \<times> 's) \<Rightarrow> 'e \<Rightarrow> ('s \<Rightarrow> ('e + 'a) \<times> 's) \<Rightarrow> 's \<Rightarrow> ('e + 'a) \<times> 's" where
  "guarded tick e k s = (let (f, s1) = tick s in if f then (Inl e, s1) else k s1)"

lemma guarded_cases:
  assumes "guarded tick e k s = (r, s')"
  shows "(\<exists>t. tick s = (True, s') \<and> r = Inl e) \<or> (\<exists>t. tick s = (False, t) \<and> k t = (r, s'))"
  using assms by (auto simp: guarded_def split: prod.splits if_splits)

end
