(* ===== verification/Poll_Model.thy ===== *)
theory Poll_Model
  imports Gift_Prelude
begin

text \<open>
  The Poll service's domain package \<open>services/backend/poll/internal/domain/model\<close>: polls,
  questions and answers (\<open>model.go\<close>), the check of a poll definition (\<open>questions.go\<close>) and
  the check of a submission (\<open>validate.go\<close>). The loops of the source are recursions over
  the lists; the main lemmas characterise both checks by declarative predicates.
\<close>

section \<open>Data (model.go)\<close>

text \<open>\<open>QuestionType\<close> is a Go string; every value but the three constants is \<open>TypeOther\<close>.\<close>

datatype question_type = TypeText | TypeSingleChoice | TypeMultiChoice | TypeOther string

datatype poll_status = StatusDraft | StatusActive | StatusCompleted | StatusExpired

record poll_option =
  o_ID :: string
  o_Label :: string

record question =
  q_ID :: string
  q_Prompt :: string
  q_Type :: question_type
  q_Options :: "poll_option list"
  q_Required :: bool

record answer =
  a_QuestionID :: string
  a_Text :: string
  a_ChoiceIDs :: "string list"

record poll =
  p_ID :: string
  p_OwnerUserID :: string
  p_SurpriseRequestID :: string
  p_Title :: string
  p_Questions :: "question list"
  p_Status :: poll_status
  p_ExpiresAt :: time
  p_CreatedAt :: time

record response =
  r_ID :: string
  r_Answers :: "answer list"
  r_SubmittedAt :: time

section \<open>ValidateQuestions (questions.go)\<close>

text \<open>Each \<open>fmt.Errorf\<close> of the source is a constructor with the values it formats.\<close>

datatype question_error =
    NeedsQuestion
  | EmptyQuestionID
  | DuplicateQuestionID string
  | BlankPrompt string
  | NeedsOptions string
  | EmptyOptionID string
  | DuplicateOptionID string string
  | UnknownType string question_type

fun validate_options :: "string \<Rightarrow> string set \<Rightarrow> poll_option list \<Rightarrow> question_error + unit" where
  "validate_options qid optSeen [] = Inr ()"
| "validate_options qid optSeen (opt # opts) =
     (if TrimSpace (o_ID opt) = [] then Inl (EmptyOptionID qid)
      else if o_ID opt \<in> optSeen then Inl (DuplicateOptionID qid (o_ID opt))
      else validate_options qid (insert (o_ID opt) optSeen) opts)"

fun validate_questions_loop :: "string set \<Rightarrow> question list \<Rightarrow> question_error + unit" where
  "validate_questions_loop seen [] = Inr ()"
| "validate_questions_loop seen (q # qs) =
     (if TrimSpace (q_ID q) = [] then Inl EmptyQuestionID
      else if q_ID q \<in> seen then Inl (DuplicateQuestionID (q_ID q))
      else if TrimSpace (q_Prompt q) = [] then Inl (BlankPrompt (q_ID q))
      else case q_Type q of
        TypeText \<Rightarrow> validate_questions_loop (insert (q_ID q) seen) qs
      | TypeOther t \<Rightarrow> Inl (UnknownType (q_ID q) (TypeOther t))
      | _ \<Rightarrow>
          (if q_Options q = [] then Inl (NeedsOptions (q_ID q))
           else case validate_options (q_ID q) {} (q_Options q) of
             Inl e \<Rightarrow> Inl e
           | Inr _ \<Rightarrow> validate_questions_loop (insert (q_ID q) seen) qs))"

definition ValidateQuestions :: "question list \<Rightarrow> question_error + unit" where
  "ValidateQuestions questions =
     (if questions = [] then Inl NeedsQuestion else validate_questions_loop {} questions)"

section \<open>ValidateAnswers (validate.go)\<close>

datatype answer_error =
    UnknownQuestion string
  | DuplicateAnswer string
  | ChoicesNotAllowed string
  | TextNotAllowed string
  | SingleChoiceOnly string
  | InvalidOption string string
  | UnknownQuestionType string question_type
  | RequiredUnanswered string

text \<open>\<open>byID\<close>: a later question with the same id overwrites an earlier one.\<close>

definition byID_map :: "question list \<Rightarrow> (string, question) gomap" where
  "byID_map questions = fold (\<lambda>q m. m(q_ID q \<mapsto> q)) questions Map.empty"

definition optionSet :: "question \<Rightarrow> string set" where
  "optionSet q = set (map o_ID (q_Options q))"

fun check_choices :: "question \<Rightarrow> string list \<Rightarrow> answer_error + unit" where
  "check_choices q [] = Inr ()"
| "check_choices q (c # cs) =
     (if c \<notin> optionSet q then Inl (InvalidOption (q_ID q) c) else check_choices q cs)"

definition check_answer :: "question \<Rightarrow> answer \<Rightarrow> answer_error + unit" where
  "check_answer q a =
     (case q_Type q of
        TypeText \<Rightarrow>
          (if 0 < length (a_ChoiceIDs a) then Inl (ChoicesNotAllowed (q_ID q)) else Inr ())
      | TypeOther t \<Rightarrow> Inl (UnknownQuestionType (q_ID q) (TypeOther t))
      | _ \<Rightarrow>
          (if TrimSpace (a_Text a) \<noteq> [] then Inl (TextNotAllowed (q_ID q))
           else if q_Type q = TypeSingleChoice \<and> 1 < length (a_ChoiceIDs a)
             then Inl (SingleChoiceOnly (q_ID q))
           else check_choices q (a_ChoiceIDs a)))"

fun validate_answers_loop ::
  "(string, question) gomap \<Rightarrow> string set \<Rightarrow> answer list \<Rightarrow> answer_error + unit" where
  "validate_answers_loop byID answered [] = Inr ()"
| "validate_answers_loop byID answered (a # as) =
     (case byID (a_QuestionID a) of
        None \<Rightarrow> Inl (UnknownQuestion (a_QuestionID a))
      | Some q \<Rightarrow>
          (if a_QuestionID a \<in> answered then Inl (DuplicateAnswer (a_QuestionID a))
           else case check_answer q a of
             Inl e \<Rightarrow> Inl e
           | Inr _ \<Rightarrow> validate_answers_loop byID (insert (a_QuestionID a) answered) as))"

text \<open>\<open>requireAnswered\<close> looks at the first answer to the question only.\<close>

fun requireAnswered :: "question \<Rightarrow> answer list \<Rightarrow> answer_error + unit" where
  "requireAnswered q [] = Inl (RequiredUnanswered (q_ID q))"
| "requireAnswered q (a # as) =
     (if a_QuestionID a \<noteq> q_ID q then requireAnswered q as
      else case q_Type q of
        TypeText \<Rightarrow>
          (if TrimSpace (a_Text a) = [] then Inl (RequiredUnanswered (q_ID q)) else Inr ())
      | _ \<Rightarrow>
          (if length (a_ChoiceIDs a) = 0 then Inl (RequiredUnanswered (q_ID q)) else Inr ()))"

fun require_loop :: "question list \<Rightarrow> answer list \<Rightarrow> answer_error + unit" where
  "require_loop [] answers = Inr ()"
| "require_loop (q # qs) answers =
     (if \<not> q_Required q then require_loop qs answers
      else case requireAnswered q answers of
        Inl e \<Rightarrow> Inl e
      | Inr _ \<Rightarrow> require_loop qs answers)"

definition ValidateAnswers :: "question list \<Rightarrow> answer list \<Rightarrow> answer_error + unit" where
  "ValidateAnswers questions answers =
     (case validate_answers_loop (byID_map questions) {} answers of
        Inl e \<Rightarrow> Inl e
      | Inr _ \<Rightarrow> require_loop questions answers)"

section \<open>What a valid poll definition is\<close>

definition choice_type :: "question_type \<Rightarrow> bool" where
  "choice_type t \<longleftrightarrow> t = TypeSingleChoice \<or> t = TypeMultiChoice"

definition wf_question :: "question \<Rightarrow> bool" where
  "wf_question q \<longleftrightarrow>
     TrimSpace (q_ID q) \<noteq> [] \<and> TrimSpace (q_Prompt q) \<noteq> [] \<and>
     (q_Type q = TypeText \<or>
      choice_type (q_Type q) \<and> q_Options q \<noteq> [] \<and> distinct (map o_ID (q_Options q)) \<and>
      (\<forall>opt \<in> set (q_Options q). TrimSpace (o_ID opt) \<noteq> []))"

definition wf_questions :: "question list \<Rightarrow> bool" where
  "wf_questions qs \<longleftrightarrow> qs \<noteq> [] \<and> distinct (map q_ID qs) \<and> (\<forall>q \<in> set qs. wf_question q)"

lemma validate_options_ok:
  "validate_options qid seen opts = Inr () \<longleftrightarrow>
     distinct (map o_ID opts) \<and> (\<forall>opt \<in> set opts. TrimSpace (o_ID opt) \<noteq> [] \<and> o_ID opt \<notin> seen)"
  by (induction qid seen opts rule: validate_options.induct) (auto simp: notin_image)

lemma validate_questions_loop_ok:
  "validate_questions_loop seen qs = Inr () \<longleftrightarrow>
     distinct (map q_ID qs) \<and> (\<forall>q \<in> set qs. wf_question q \<and> q_ID q \<notin> seen)"
proof (induction seen qs rule: validate_questions_loop.induct)
  case (1 seen)
  then show ?case by simp
next
  case (2 seen q qs)
  show ?case
  proof (cases "q_Type q")
    case (TypeOther t)
    then show ?thesis by (auto simp: wf_question_def choice_type_def)
  next
    case TypeText
    with 2 show ?thesis by (auto simp: wf_question_def choice_type_def notin_image)
  next
    case TypeSingleChoice
    with 2 show ?thesis
      using validate_options_ok [of "q_ID q" "{}" "q_Options q"]
      by (auto simp: wf_question_def choice_type_def notin_image split: sum.splits)
  next
    case TypeMultiChoice
    with 2 show ?thesis
      using validate_options_ok [of "q_ID q" "{}" "q_Options q"]
      by (auto simp: wf_question_def choice_type_def notin_image split: sum.splits)
  qed
qed

lemma questions_accepted: "ValidateQuestions qs = Inr () \<Longrightarrow> wf_questions qs"
  by (simp add: ValidateQuestions_def wf_questions_def validate_questions_loop_ok split: if_splits)

text \<open>A poll definition is accepted exactly when it has at least one question, the question
  ids are distinct and not blank, no prompt is blank, every type is known, and every choice
  question has options with distinct ids that are not blank.\<close>

theorem ValidateQuestions_iff: "ValidateQuestions qs = Inr () \<longleftrightarrow> wf_questions qs"
  by (simp add: ValidateQuestions_def wf_questions_def validate_questions_loop_ok)

section \<open>What a valid submission is\<close>

text \<open>An answer fits its question: choices for a choice question (at most one for a single
  choice, all offered, no text), no choices for a text question.\<close>

definition answer_fits :: "question \<Rightarrow> answer \<Rightarrow> bool" where
  "answer_fits q a \<longleftrightarrow>
     (q_Type q = TypeText \<and> a_ChoiceIDs a = []) \<or>
     (choice_type (q_Type q) \<and> TrimSpace (a_Text a) = [] \<and>
      (q_Type q = TypeSingleChoice \<longrightarrow> length (a_ChoiceIDs a) \<le> 1) \<and>
      set (a_ChoiceIDs a) \<subseteq> set (map o_ID (q_Options q)))"

definition answer_given :: "question \<Rightarrow> answer \<Rightarrow> bool" where
  "answer_given q a \<longleftrightarrow>
     (if q_Type q = TypeText then TrimSpace (a_Text a) \<noteq> [] else a_ChoiceIDs a \<noteq> [])"

definition valid_submission :: "question list \<Rightarrow> answer list \<Rightarrow> bool" where
  "valid_submission qs as \<longleftrightarrow>
     distinct (map a_QuestionID as) \<and>
     (\<forall>a \<in> set as. \<exists>q \<in> set qs. q_ID q = a_QuestionID a \<and> answer_fits q a) \<and>
     (\<forall>q \<in> set qs. q_Required q \<longrightarrow> (\<exists>a \<in> set as. a_QuestionID a = q_ID q \<and> answer_given q a))"

lemma byID_fold:
  "fold (\<lambda>q m. m(q_ID q \<mapsto> q)) qs m k =
     (case find (\<lambda>q. q_ID q = k) (rev qs) of None \<Rightarrow> m k | Some q \<Rightarrow> Some q)"
  by (induction qs arbitrary: m) (auto simp: find_append split: option.splits)

lemma byID_map_distinct:
  assumes "distinct (map q_ID qs)"
  shows "byID_map qs k = Some q \<longleftrightarrow> q \<in> set qs \<and> q_ID q = k"
proof -
  have d: "distinct (map q_ID (rev qs))"
    using assms by (simp add: rev_map [symmetric])
  have "find (\<lambda>q. q_ID q = k) (rev qs) = Some q \<longleftrightarrow> q \<in> set qs \<and> q_ID q = k"
    using find_unique [OF d, of q] find_SomeD [of "\<lambda>q. q_ID q = k" "rev qs" q] by auto
  then show ?thesis
    by (auto simp: byID_map_def byID_fold split: option.splits)
qed

lemma check_choices_ok: "check_choices q cs = Inr () \<longleftrightarrow> set cs \<subseteq> optionSet q"
  by (induction cs) auto

lemma check_answer_ok: "check_answer q a = Inr () \<longleftrightarrow> answer_fits q a"
  by (cases "q_Type q")
    (auto simp: check_answer_def answer_fits_def choice_type_def check_choices_ok optionSet_def)

lemma validate_answers_loop_ok:
  "validate_answers_loop byID answered as = Inr () \<longleftrightarrow>
     distinct (map a_QuestionID as) \<and>
     (\<forall>a \<in> set as. a_QuestionID a \<notin> answered \<and>
        (\<exists>q. byID (a_QuestionID a) = Some q \<and> answer_fits q a))"
proof (induction byID answered as rule: validate_answers_loop.induct)
  case (1 byID answered)
  then show ?case by simp
next
  case (2 byID answered a as)
  show ?case
  proof (cases "byID (a_QuestionID a)")
    case None
    then show ?thesis by simp
  next
    case (Some q)
    then show ?thesis
      using 2 check_answer_ok [of q a] by (auto simp: notin_image split: sum.splits)
  qed
qed

lemma requireAnswered_ok:
  "distinct (map a_QuestionID as) \<Longrightarrow>
   requireAnswered q as = Inr () \<longleftrightarrow> (\<exists>a \<in> set as. a_QuestionID a = q_ID q \<and> answer_given q a)"
proof (induction q as rule: requireAnswered.induct)
  case (1 q)
  then show ?case by simp
next
  case (2 q a as)
  show ?case
  proof (cases "a_QuestionID a = q_ID q")
    case False
    with 2 show ?thesis by auto
  next
    case True
    with "2.prems" have "\<forall>b \<in> set as. a_QuestionID b \<noteq> q_ID q" by (auto simp: image_iff)
    with True show ?thesis
      by (cases "q_Type q") (auto simp: answer_given_def)
  qed
qed

lemma require_loop_ok:
  "distinct (map a_QuestionID as) \<Longrightarrow>
   require_loop qs as = Inr () \<longleftrightarrow>
     (\<forall>q \<in> set qs. q_Required q \<longrightarrow> (\<exists>a \<in> set as. a_QuestionID a = q_ID q \<and> answer_given q a))"
proof (induction qs)
  case Nil
  then show ?case by simp
next
  case (Cons q qs)
  then show ?case
    using requireAnswered_ok [OF Cons.prems, of q] by (auto split: sum.splits)
qed

text \<open>Against a poll whose question ids are distinct, a submission is accepted exactly when
  every answer targets its own question of the poll and fits its type and options, and every
  required question has a non-blank answer.\<close>

theorem ValidateAnswers_iff:
  assumes "distinct (map q_ID qs)"
  shows "ValidateAnswers qs as = Inr () \<longleftrightarrow> valid_submission qs as"
proof (cases "validate_answers_loop (byID_map qs) {} as")
  case (Inl e)
  moreover have "\<not> valid_submission qs as"
    using Inl validate_answers_loop_ok [of "byID_map qs" "{}" as] byID_map_distinct [OF assms]
    by (fastforce simp: valid_submission_def)
  ultimately show ?thesis by (simp add: ValidateAnswers_def)
next
  case (Inr u)
  then have loop: "distinct (map a_QuestionID as)"
      "\<forall>a \<in> set as. \<exists>q. byID_map qs (a_QuestionID a) = Some q \<and> answer_fits q a"
    using validate_answers_loop_ok [of "byID_map qs" "{}" as] by auto
  then show ?thesis
    using Inr require_loop_ok [OF loop(1), of qs] byID_map_distinct [OF assms]
    by (auto simp: ValidateAnswers_def valid_submission_def)
qed

text \<open>The example poll of the package's own tests.\<close>

definition example_questions :: "question list" where
  "example_questions =
     [\<lparr>q_ID = ''q_txt'', q_Prompt = ''Favourite memory?'', q_Type = TypeText, q_Options = [],
       q_Required = True\<rparr>,
      \<lparr>q_ID = ''q_one'', q_Prompt = ''Pick one'', q_Type = TypeSingleChoice,
       q_Options = [\<lparr>o_ID = ''a'', o_Label = ''A''\<rparr>, \<lparr>o_ID = ''b'', o_Label = ''B''\<rparr>],
       q_Required = True\<rparr>]"

definition example_answers :: "answer list" where
  "example_answers =
     [\<lparr>a_QuestionID = ''q_txt'', a_Text = ''the beach'', a_ChoiceIDs = []\<rparr>,
      \<lparr>a_QuestionID = ''q_one'', a_Text = [], a_ChoiceIDs = [''a'']\<rparr>]"

lemma example_texts [simp]:
  "TrimSpace ''q_txt'' = ''q_txt''" "TrimSpace ''q_one'' = ''q_one''"
  "TrimSpace ''Favourite memory?'' = ''Favourite memory?''" "TrimSpace ''Pick one'' = ''Pick one''"
  "TrimSpace ''a'' = ''a''" "TrimSpace ''b'' = ''b''" "TrimSpace ''the beach'' = ''the beach''"
  by (rule TrimSpace_keep; simp add: space_runes_def)+

lemma example_valid: "ValidateAnswers example_questions example_answers = Inr ()"
  by (simp add: ValidateAnswers_def byID_map_def example_questions_def example_answers_def
      check_answer_def optionSet_def)

lemma ValidateAnswers_iff_witness:
  "distinct (map q_ID example_questions) \<and> valid_submission example_questions example_answers"
proof -
  have d: "distinct (map q_ID example_questions)"
    by (simp add: example_questions_def)
  show ?thesis
    using d ValidateAnswers_iff [OF d, of example_answers] example_valid by blast
qed

end
