(* ===== verification/Base64.thy ===== *)
theory Base64
  imports Gift_Prelude
begin

text \<open>
  \<open>base64.RawURLEncoding\<close> of Go's standard library, which the services use for link tokens,
  refresh secrets, key ids and JWT segments: six bits per character, no padding, carriage
  return and newline skipped when decoding, unused trailing bits ignored.
\<close>

definition b64_alphabet :: string where
  "b64_alphabet = ''ABCDEFGHIJKLMNOPQRSTUVWXYZabcdefghijklmnopqrstuvwxyz0123456789-_''"

fun index_of :: "'a list \<Rightarrow> 'a \<Rightarrow> nat option" where
  "index_of [] x = None"
| "index_of (y # ys) x = (if y = x then Some 0 else map_option Suc (index_of ys x))"

definition enc6 :: "nat \<Rightarrow> char" where
  "enc6 n = b64_alphabet ! n"

definition dec6 :: "char \<Rightarrow> nat option" where
  "dec6 c = index_of b64_alphabet c"

fun bytes_to_sextets :: "nat list \<Rightarrow> nat list" where
  "bytes_to_sextets [] = []"
| "bytes_to_sextets [a] = [a div 4, (a mod 4) * 16]"
| "bytes_to_sextets [a, b] = [a div 4, (a mod 4) * 16 + b div 16, (b mod 16) * 4]"
| "bytes_to_sextets (a # b # c # r) =
     a div 4 # ((a mod 4) * 16 + b div 16) # ((b mod 16) * 4 + c div 64) # c mod 64 # bytes_to_sextets r"

fun sextets_to_bytes :: "nat list \<Rightarrow> nat list option" where
  "sextets_to_bytes [] = Some []"
| "sextets_to_bytes [x] = None"
| "sextets_to_bytes [x, y] = Some [x * 4 + y div 16]"
| "sextets_to_bytes [x, y, z] = Some [x * 4 + y div 16, (y mod 16) * 16 + z div 4]"
| "sextets_to_bytes (x # y # z # w # r) =
     map_option (\<lambda>bs. (x * 4 + y div 16) # ((y mod 16) * 16 + z div 4) # ((z mod 4) * 64 + w) # bs)
       (sextets_to_bytes r)"

fun all_some :: "'a option list \<Rightarrow> 'a list option" where
  "all_some [] = Some []"
| "all_some (None # xs) = None"
| "all_some (Some x # xs) = map_option ((#) x) (all_some xs)"

definition RawURLEncode :: "string \<Rightarrow> string" where
  "RawURLEncode s = map enc6 (bytes_to_sextets (map of_char s))"

definition RawURLDecode :: "string \<Rightarrow> string option" where
  "RawURLDecode t =
     (case all_some (map dec6 (filter (\<lambda>c. c \<noteq> CHR 0x0D \<and> c \<noteq> CHR 0x0A) t)) of
        None \<Rightarrow> None
      | Some xs \<Rightarrow> map_option (map char_of) (sextets_to_bytes xs))"

lemma index_of_nth: "distinct ys \<Longrightarrow> n < length ys \<Longrightarrow> index_of ys (ys ! n) = Some n"
proof (induction ys arbitrary: n)
  case Nil
  then show ?case by simp
next
  case (Cons y ys)
  then show ?case by (cases n) auto
qed

lemma b64_alphabet_facts: "distinct b64_alphabet" "length b64_alphabet = 64"
  "CHR 0x0D \<notin> set b64_alphabet" "CHR 0x0A \<notin> set b64_alphabet" "CHR ''.'' \<notin> set b64_alphabet"
  by (simp_all add: b64_alphabet_def)

lemma dec6_enc6: "n < 64 \<Longrightarrow> dec6 (enc6 n) = Some n"
  by (simp add: dec6_def enc6_def index_of_nth b64_alphabet_facts)

lemma enc6_in: "n < 64 \<Longrightarrow> enc6 n \<in> set b64_alphabet"
  by (simp add: enc6_def b64_alphabet_facts)

lemma sextets_bounded: "\<forall>b \<in> set bs. b < 256 \<Longrightarrow> \<forall>x \<in> set (bytes_to_sextets bs). x < 64"
  by (induction bs rule: bytes_to_sextets.induct) (auto simp: less_mult_imp_div_less)

lemma bytes_sextets: "\<forall>b \<in> set bs. b < 256 \<Longrightarrow> sextets_to_bytes (bytes_to_sextets bs) = Some bs"
proof (induction bs rule: bytes_to_sextets.induct)
  case (4 a b c r)
  then have "a div 4 * 4 + ((a mod 4) * 16 + b div 16) div 16 = a"
      "((a mod 4) * 16 + b div 16) mod 16 * 16 + ((b mod 16) * 4 + c div 64) div 4 = b"
      "((b mod 16) * 4 + c div 64) mod 4 * 64 + c mod 64 = c"
    by auto
  with 4 show ?case by simp
qed auto

lemma all_some_map_Some: "all_some (map Some xs) = Some xs"
  by (induction xs) auto

lemma RawURLEncode_alphabet: "set (RawURLEncode s) \<subseteq> set b64_alphabet"
  using sextets_bounded [of "map of_char s"] by (auto simp: RawURLEncode_def enc6_in)

text \<open>Encoded text holds no dot, so it can be joined with dots and split again.\<close>

lemma RawURLEncode_no_dot [simp]: "CHR ''.'' \<notin> set (RawURLEncode s)"
  using RawURLEncode_alphabet [of s] b64_alphabet_facts(5) by blast

lemma RawURLEncode_Nil_iff [simp]: "RawURLEncode s = [] \<longleftrightarrow> s = []"
proof -
  have "bytes_to_sextets bs = [] \<longleftrightarrow> bs = []" for bs
    by (cases bs rule: bytes_to_sextets.cases) auto
  then show ?thesis by (simp add: RawURLEncode_def)
qed

lemma RawURLDecode_Encode: "RawURLDecode (RawURLEncode s) = Some s"
proof -
  let ?xs = "bytes_to_sextets (map of_char s)"
  have lt: "\<forall>x \<in> set ?xs. x < 64"
    by (rule sextets_bounded) auto
  have f: "filter (\<lambda>c. c \<noteq> CHR 0x0D \<and> c \<noteq> CHR 0x0A) (map enc6 ?xs) = map enc6 ?xs"
    using lt b64_alphabet_facts(3,4) by (auto simp: filter_id_conv dest!: enc6_in)
  have d: "map dec6 (map enc6 ?xs) = map Some ?xs"
    using lt by (auto simp: dec6_enc6)
  have b: "sextets_to_bytes ?xs = Some (map of_char s)"
    by (rule bytes_sextets) auto
  have m: "map char_of (map (of_char :: char \<Rightarrow> nat) s) = s"
    by (induction s) auto
  show ?thesis
    unfolding RawURLDecode_def RawURLEncode_def f d all_some_map_Some option.case b option.map m ..
qed

lemma RawURLEncode_inj: "RawURLEncode a = RawURLEncode b \<Longrightarrow> a = b"
  by (metis RawURLDecode_Encode option.inject)

end
