(* ===== verification/Poll_Store.thy ===== *)
theory Poll_Store
  imports Poll_Model Base64
begin

text \<open>
  The Poll service's persistence: the port \<open>ports.Repo\<close>
  (\<open>services/backend/poll/internal/ports/ports.go\<close>) as a record of operations, its contract
  as the locale \<open>poll_repo_contract\<close>, and the Postgres implementation
  (\<open>internal/domain/postgres/postgres.go\<close>) as functions on three tables, which interprets
  the contract. A column of JSON holds the decoded value. Each statement may fail
  (\<open>pg_faults\<close>), and a transaction that does not commit leaves the tables as they were.
  \<open>up\<close> is the driver's parse of a uuid parameter: the canonical text, or none for a
  malformed one, which the statement then rejects.
\<close>

section \<open>The port (ports.go)\<close>

datatype repo_error = ErrNotFound | ErrAlreadyCompleted | ErrOther

record linked_poll =
  lp_Poll :: poll
  lp_LinkRevoked :: bool
  lp_LinkExpiresAt :: time

record 's poll_repo =
  repo_CreatePoll :: "poll \<Rightarrow> string \<Rightarrow> time \<Rightarrow> 's \<Rightarrow> (repo_error + unit) \<times> 's"
  repo_GetByTokenHash :: "string \<Rightarrow> 's \<Rightarrow> (repo_error + linked_poll) \<times> 's"
  repo_CompleteWithResponse ::
    "string \<Rightarrow> answer list \<Rightarrow> string \<Rightarrow> time \<Rightarrow> 's \<Rightarrow> (repo_error + string) \<times> 's"
  repo_GetPollByID :: "string \<Rightarrow> 's \<Rightarrow> (repo_error + poll) \<times> 's"
  repo_GetResponses :: "string \<Rightarrow> 's \<Rightarrow> (repo_error + response list) \<times> 's"

record poll_completed =
  ev_PollID :: string
  ev_SurpriseRequestID :: string
  ev_OwnerUserID :: string
  ev_CompletedAt :: time

section \<open>Link tokens (token.go)\<close>

text \<open>
  \<open>bytes\<close> is what \<open>rand.Read\<close> filled in, none when it failed; \<open>H\<close> is the hex form of SHA-256.
\<close>

definition token_Hash :: "(string \<Rightarrow> string) \<Rightarrow> string \<Rightarrow> string" where
  "token_Hash H raw = H raw"

definition token_New :: "(string \<Rightarrow> string) \<Rightarrow> string option \<Rightarrow> (string \<times> string) option" where
  "token_New H bytes =
     (case bytes of
        None \<Rightarrow> None
      | Some b \<Rightarrow> (let raw = RawURLEncode b in Some (raw, token_Hash H raw)))"

section \<open>The contract of the port\<close>

record poll_ledger =
  lg_polls :: "(string, poll) gomap"
  lg_links :: "(string, string \<times> bool \<times> time) gomap"
  lg_resps :: "string \<Rightarrow> response list"

text \<open>The ledger after one submission to the active poll \<open>i\<close>.\<close>

definition ledger_complete :: "string \<Rightarrow> poll \<Rightarrow> response \<Rightarrow> poll_ledger \<Rightarrow> poll_ledger" where
  "ledger_complete i p r l = l
     \<lparr>lg_polls := (lg_polls l)(i \<mapsto> p\<lparr>p_Status := StatusCompleted\<rparr>),
      lg_resps := (lg_resps l)(i := [r])\<rparr>"

locale poll_repo_contract =
  fixes repo :: "'s poll_repo"
    and ledger :: "'s \<Rightarrow> poll_ledger"
    and inv :: "'s \<Rightarrow> bool"
    and canon :: "string \<Rightarrow> string option"
  assumes create_ok: "inv s \<Longrightarrow> repo_CreatePoll repo p h e s = (Inr u, s') \<Longrightarrow>
      \<exists>i. canon (p_ID p) = Some i \<and> lg_polls (ledger s) i = None \<and> lg_links (ledger s) h = None \<and>
        ledger s' = (ledger s)\<lparr>lg_polls := (lg_polls (ledger s))(i \<mapsto> p\<lparr>p_ID := i\<rparr>),
          lg_links := (lg_links (ledger s))(h \<mapsto> (i, False, e))\<rparr>"
    and create_err: "inv s \<Longrightarrow> repo_CreatePoll repo p h e s = (Inl er, s') \<Longrightarrow> ledger s' = ledger s"
    and create_inv: "inv s \<Longrightarrow> p_Status p = StatusActive \<Longrightarrow> repo_CreatePoll repo p h e s = (c, s') \<Longrightarrow> inv s'"
    and token_read: "inv s \<Longrightarrow> repo_GetByTokenHash repo h s = (t, s') \<Longrightarrow> ledger s' = ledger s \<and> inv s'"
    and token_ok: "inv s \<Longrightarrow> repo_GetByTokenHash repo h s = (Inr lp, s') \<Longrightarrow>
      \<exists>i. lg_links (ledger s) h = Some (i, lp_LinkRevoked lp, lp_LinkExpiresAt lp) \<and>
        lg_polls (ledger s) i = Some (lp_Poll lp)"
    and token_miss: "inv s \<Longrightarrow> repo_GetByTokenHash repo h s = (Inl ErrNotFound, s') \<Longrightarrow>
      lg_links (ledger s) h = None"
    and complete_ok: "inv s \<Longrightarrow> repo_CompleteWithResponse repo pid as fp at s = (Inr rid, s') \<Longrightarrow>
      \<exists>i p. canon pid = Some i \<and> lg_polls (ledger s) i = Some p \<and> p_Status p = StatusActive \<and>
        ledger s' = ledger_complete i p \<lparr>r_ID = rid, r_Answers = as, r_SubmittedAt = at\<rparr> (ledger s)"
    and complete_err: "inv s \<Longrightarrow> repo_CompleteWithResponse repo pid as fp at s = (Inl er, s') \<Longrightarrow>
      ledger s' = ledger s"
    and complete_inv: "inv s \<Longrightarrow> repo_CompleteWithResponse repo pid as fp at s = (d, s') \<Longrightarrow> inv s'"
    and poll_read: "inv s \<Longrightarrow> repo_GetPollByID repo pid s = (g, s') \<Longrightarrow> ledger s' = ledger s \<and> inv s'"
    and poll_ok: "inv s \<Longrightarrow> repo_GetPollByID repo pid s = (Inr p, s') \<Longrightarrow>
      \<exists>i. canon pid = Some i \<and> lg_polls (ledger s) i = Some p"
    and poll_miss: "inv s \<Longrightarrow> repo_GetPollByID repo pid s = (Inl ErrNotFound, s') \<Longrightarrow>
      \<exists>i. canon pid = Some i \<and> lg_polls (ledger s) i = None"
    and resp_read: "inv s \<Longrightarrow> repo_GetResponses repo pid s = (v, s') \<Longrightarrow> ledger s' = ledger s \<and> inv s'"
    and resp_ok: "inv s \<Longrightarrow> repo_GetResponses repo pid s = (Inr rs, s') \<Longrightarrow>
      \<exists>i. canon pid = Some i \<and> rs = lg_resps (ledger s) i"
    and poll_ids: "inv s \<Longrightarrow> lg_polls (ledger s) i = Some p \<Longrightarrow> p_ID p = i \<and> canon i = Some i"
    and one_link: "inv s \<Longrightarrow> lg_links (ledger s) h = Some (i, a, b) \<Longrightarrow>
      lg_links (ledger s) h' = Some (i, a', b') \<Longrightarrow> h' = h"
    and one_response: "inv s \<Longrightarrow> length (lg_resps (ledger s) i) \<le> 1"
    and response_completed: "inv s \<Longrightarrow> lg_resps (ledger s) i \<noteq> [] \<Longrightarrow>
      \<exists>p. lg_polls (ledger s) i = Some p \<and> p_Status p = StatusCompleted"

section \<open>Postgres (postgres.go)\<close>

record poll_row =
  pr_id :: string
  pr_owner_user_id :: string
  pr_surprise_request_id :: "string option"
  pr_title :: string
  pr_questions :: "question list"
  pr_status :: poll_status
  pr_expires_at :: time
  pr_created_at :: time

record link_row =
  lr_id :: string
  lr_poll_id :: string
  lr_token_hash :: string
  lr_expires_at :: time
  lr_revoked :: bool
  lr_created_at :: time

record resp_row =
  rr_id :: string
  rr_poll_id :: string
  rr_answers :: "answer list"
  rr_submitted_at :: time
  rr_client_fingerprint :: "string option"

text \<open>\<open>pg_uuids\<close> is the supply \<open>uuid.NewString\<close> draws from inside the store.\<close>

record poll_pg =
  pg_polls :: "poll_row list"
  pg_links :: "link_row list"
  pg_resps :: "resp_row list"
  pg_uuids :: "string list"
  pg_faults :: "bool list"

definition pg_tick :: "poll_pg \<Rightarrow> bool \<times> poll_pg" where
  "pg_tick s = (let (f, fs) = next_fault (pg_faults s) in (f, s\<lparr>pg_faults := fs\<rparr>))"

definition pg_uuid :: "poll_pg \<Rightarrow> string \<times> poll_pg" where
  "pg_uuid s = (case pg_uuids s of [] \<Rightarrow> ([], s) | u # us \<Rightarrow> (u, s\<lparr>pg_uuids := us\<rparr>))"

definition nullable :: "string \<Rightarrow> string option" where
  "nullable s = (if s = [] then None else Some s)"

definition coalesce_empty :: "string option \<Rightarrow> string" where
  "coalesce_empty x = (case x of None \<Rightarrow> [] | Some s \<Rightarrow> s)"

definition row_to_poll :: "poll_row \<Rightarrow> poll" where
  "row_to_poll r =
     \<lparr>p_ID = pr_id r, p_OwnerUserID = pr_owner_user_id r,
      p_SurpriseRequestID = coalesce_empty (pr_surprise_request_id r), p_Title = pr_title r,
      p_Questions = pr_questions r, p_Status = pr_status r, p_ExpiresAt = pr_expires_at r,
      p_CreatedAt = pr_created_at r\<rparr>"

text \<open>
  Begin, the two INSERTs and Commit. The polls row is refused when its id is malformed or
  taken, the links row when its id or its token hash is taken.
\<close>

definition pg_CreatePoll ::
  "(string \<Rightarrow> string option) \<Rightarrow> poll \<Rightarrow> string \<Rightarrow> time \<Rightarrow> poll_pg \<Rightarrow> (repo_error + unit) \<times> poll_pg" where
  "pg_CreatePoll up p tokenHash linkExpiresAt s =
     (let (f1, s1) = pg_tick s in
      if f1 then (Inl ErrOther, s1) else
      let (f2, s2) = pg_tick s1 in
      if f2 then (Inl ErrOther, s2) else
      case up (p_ID p) of
        None \<Rightarrow> (Inl ErrOther, s2)
      | Some i \<Rightarrow>
          if find (\<lambda>r. pr_id r = i) (pg_polls s2) \<noteq> None then (Inl ErrOther, s2) else
          let row = \<lparr>pr_id = i, pr_owner_user_id = p_OwnerUserID p,
                pr_surprise_request_id = nullable (p_SurpriseRequestID p), pr_title = p_Title p,
                pr_questions = p_Questions p, pr_status = p_Status p,
                pr_expires_at = p_ExpiresAt p, pr_created_at = p_CreatedAt p\<rparr>;
              (lid, s3) = pg_uuid s2;
              (f3, s4) = pg_tick s3 in
          if f3 then (Inl ErrOther, s4) else
          if find (\<lambda>l. lr_id l = lid \<or> lr_token_hash l = tokenHash) (pg_links s4) \<noteq> None
          then (Inl ErrOther, s4) else
          let link = \<lparr>lr_id = lid, lr_poll_id = i, lr_token_hash = tokenHash,
                lr_expires_at = linkExpiresAt, lr_revoked = False, lr_created_at = p_CreatedAt p\<rparr>;
              (f4, s5) = pg_tick s4 in
          if f4 then (Inl ErrOther, s5) else
          (Inr (), s5\<lparr>pg_polls := pg_polls s5 @ [row], pg_links := pg_links s5 @ [link]\<rparr>))"

definition pg_GetByTokenHash :: "string \<Rightarrow> poll_pg \<Rightarrow> (repo_error + linked_poll) \<times> poll_pg" where
  "pg_GetByTokenHash tokenHash s =
     (let (f1, s1) = pg_tick s in
      if f1 then (Inl ErrOther, s1) else
      case find (\<lambda>l. lr_token_hash l = tokenHash) (pg_links s1) of
        None \<Rightarrow> (Inl ErrNotFound, s1)
      | Some l \<Rightarrow>
          (case find (\<lambda>r. pr_id r = lr_poll_id l) (pg_polls s1) of
             None \<Rightarrow> (Inl ErrNotFound, s1)
           | Some r \<Rightarrow>
               (Inr \<lparr>lp_Poll = row_to_poll r, lp_LinkRevoked = lr_revoked l,
                     lp_LinkExpiresAt = lr_expires_at l\<rparr>, s1)))"

definition complete_row :: "string \<Rightarrow> poll_row \<Rightarrow> poll_row" where
  "complete_row i r =
     (if pr_id r = i \<and> pr_status r = StatusActive then r\<lparr>pr_status := StatusCompleted\<rparr> else r)"

definition pg_CompleteWithResponse ::
  "(string \<Rightarrow> string option) \<Rightarrow> string \<Rightarrow> answer list \<Rightarrow> string \<Rightarrow> time \<Rightarrow> poll_pg \<Rightarrow>
   (repo_error + string) \<times> poll_pg" where
  "pg_CompleteWithResponse up pollID answers fingerprint at s =
     (let (f1, s1) = pg_tick s in
      if f1 then (Inl ErrOther, s1) else
      let (f2, s2) = pg_tick s1 in
      if f2 then (Inl ErrOther, s2) else
      case up pollID of
        None \<Rightarrow> (Inl ErrOther, s2)
      | Some i \<Rightarrow>
          if filter (\<lambda>r. pr_id r = i \<and> pr_status r = StatusActive) (pg_polls s2) = []
          then (Inl ErrAlreadyCompleted, s2) else
          let (respID, s3) = pg_uuid s2;
              (f3, s4) = pg_tick s3 in
          if f3 then (Inl ErrOther, s4) else
          if find (\<lambda>r. rr_id r = respID) (pg_resps s4) \<noteq> None then (Inl ErrOther, s4) else
          let resp = \<lparr>rr_id = respID, rr_poll_id = i, rr_answers = answers, rr_submitted_at = at,
                rr_client_fingerprint = nullable fingerprint\<rparr>;
              (f4, s5) = pg_tick s4 in
          if f4 then (Inl ErrOther, s5) else
          (Inr respID, s5\<lparr>pg_polls := map (complete_row i) (pg_polls s5),
             pg_resps := pg_resps s5 @ [resp]\<rparr>))"

definition pg_GetPollByID ::
  "(string \<Rightarrow> string option) \<Rightarrow> string \<Rightarrow> poll_pg \<Rightarrow> (repo_error + poll) \<times> poll_pg" where
  "pg_GetPollByID up pollID s =
     (let (f1, s1) = pg_tick s in
      if f1 then (Inl ErrOther, s1) else
      case up pollID of
        None \<Rightarrow> (Inl ErrOther, s1)
      | Some i \<Rightarrow>
          (case find (\<lambda>r. pr_id r = i) (pg_polls s1) of
             None \<Rightarrow> (Inl ErrNotFound, s1)
           | Some r \<Rightarrow> (Inr (row_to_poll r), s1)))"

text \<open>The rows of a query are read one by one; the schedule's entry decides for the whole read.\<close>

definition row_to_response :: "resp_row \<Rightarrow> response" where
  "row_to_response r = \<lparr>r_ID = rr_id r, r_Answers = rr_answers r, r_SubmittedAt = rr_submitted_at r\<rparr>"

definition pg_GetResponses ::
  "(string \<Rightarrow> string option) \<Rightarrow> string \<Rightarrow> poll_pg \<Rightarrow> (repo_error + response list) \<times> poll_pg" where
  "pg_GetResponses up pollID s =
     (let (f1, s1) = pg_tick s in
      if f1 then (Inl ErrOther, s1) else
      case up pollID of
        None \<Rightarrow> (Inl ErrOther, s1)
      | Some i \<Rightarrow>
          (Inr (map row_to_response
             (sort_key rr_submitted_at (filter (\<lambda>r. rr_poll_id r = i) (pg_resps s1)))), s1))"

definition pg_repo :: "(string \<Rightarrow> string option) \<Rightarrow> poll_pg poll_repo" where
  "pg_repo up =
     \<lparr>repo_CreatePoll = pg_CreatePoll up, repo_GetByTokenHash = pg_GetByTokenHash,
      repo_CompleteWithResponse = pg_CompleteWithResponse up, repo_GetPollByID = pg_GetPollByID up,
      repo_GetResponses = pg_GetResponses up\<rparr>"

section \<open>Postgres keeps the contract\<close>

definition pg_ledger :: "poll_pg \<Rightarrow> poll_ledger" where
  "pg_ledger s =
     \<lparr>lg_polls = (\<lambda>i. map_option row_to_poll (find (\<lambda>r. pr_id r = i) (pg_polls s))),
      lg_links = (\<lambda>h. map_option (\<lambda>l. (lr_poll_id l, lr_revoked l, lr_expires_at l))
        (find (\<lambda>l. lr_token_hash l = h) (pg_links s))),
      lg_resps = (\<lambda>i. map row_to_response
        (sort_key rr_submitted_at (filter (\<lambda>r. rr_poll_id r = i) (pg_resps s))))\<rparr>"

text \<open>
  The schema's key \<open>polls.id\<close>, its foreign keys, and what the statements keep beyond them: a
  poll has at most one link, and a poll with a response is completed and has only that one.
\<close>

definition pg_inv :: "(string \<Rightarrow> string option) \<Rightarrow> poll_pg \<Rightarrow> bool" where
  "pg_inv up s \<longleftrightarrow>
     uuid_parse_ok up \<and> (\<forall>r \<in> set (pg_polls s). up (pr_id r) = Some (pr_id r)) \<and>
     distinct (map pr_id (pg_polls s)) \<and> distinct (map lr_poll_id (pg_links s)) \<and>
     (\<forall>l \<in> set (pg_links s). find (\<lambda>r. pr_id r = lr_poll_id l) (pg_polls s) \<noteq> None) \<and>
     (\<forall>q \<in> set (pg_resps s). \<exists>r \<in> set (pg_polls s). pr_id r = rr_poll_id q \<and> pr_status r = StatusCompleted) \<and>
     distinct (map rr_poll_id (pg_resps s))"

definition same_tables :: "poll_pg \<Rightarrow> poll_pg \<Rightarrow> bool" where
  "same_tables s s' \<longleftrightarrow>
     pg_polls s' = pg_polls s \<and> pg_links s' = pg_links s \<and> pg_resps s' = pg_resps s"

lemma same_tables_ledger: "same_tables s s' \<Longrightarrow> pg_ledger s' = pg_ledger s"
  by (simp add: same_tables_def pg_ledger_def)

lemma same_tables_inv: "same_tables s s' \<Longrightarrow> pg_inv up s' = pg_inv up s"
  by (simp add: same_tables_def pg_inv_def)

lemma same_tables_trans: "same_tables s t \<Longrightarrow> same_tables t u \<Longrightarrow> same_tables s u"
  by (simp add: same_tables_def)

lemma same_tables_refl [simp]: "same_tables s s"
  by (simp add: same_tables_def)

lemma pg_tick_same: "pg_tick s = (f, s') \<Longrightarrow> same_tables s s'"
  by (auto simp: pg_tick_def same_tables_def split: prod.splits)

lemma pg_uuid_same: "pg_uuid s = (u, s') \<Longrightarrow> same_tables s s'"
  by (auto simp: pg_uuid_def same_tables_def split: list.splits)

lemmas pg_steps = pg_tick_same pg_uuid_same same_tables_trans

text \<open>What an outcome of each operation did to the tables.\<close>

lemma pg_CreatePoll_shape:
  assumes "pg_CreatePoll up p h e s = (c, s')"
  shows "(\<exists>er. c = Inl er) \<and> same_tables s s' \<or>
    (\<exists>i row link t. c = Inr () \<and> up (p_ID p) = Some i \<and> same_tables s t \<and>
       find (\<lambda>r. pr_id r = i) (pg_polls s) = None \<and>
       find (\<lambda>l. lr_token_hash l = h) (pg_links s) = None \<and>
       row_to_poll row = p\<lparr>p_ID := i\<rparr> \<and> pr_id row = i \<and>
       lr_poll_id link = i \<and> lr_token_hash link = h \<and> lr_expires_at link = e \<and> \<not> lr_revoked link \<and>
       s' = t\<lparr>pg_polls := pg_polls s @ [row], pg_links := pg_links s @ [link]\<rparr>)"
proof -
  obtain f1 s1 where 1: "pg_tick s = (f1, s1)" by fastforce
  obtain f2 s2 where 2: "pg_tick s1 = (f2, s2)" by fastforce
  obtain lid s3 where 3: "pg_uuid s2 = (lid, s3)" by fastforce
  obtain f3 s4 where 4: "pg_tick s3 = (f3, s4)" by fastforce
  obtain f4 s5 where 5: "pg_tick s4 = (f4, s5)" by fastforce
  note t = 1 [THEN pg_tick_same] 2 [THEN pg_tick_same] 3 [THEN pg_uuid_same]
    4 [THEN pg_tick_same] 5 [THEN pg_tick_same]
  have null: "coalesce_empty (nullable x) = x" for x
    by (simp add: coalesce_empty_def nullable_def)
  show ?thesis
  proof (cases "f1 \<or> f2 \<or> up (p_ID p) = None \<or>
      find (\<lambda>r. pr_id r = the (up (p_ID p))) (pg_polls s2) \<noteq> None \<or> f3 \<or>
      find (\<lambda>l. lr_id l = lid \<or> lr_token_hash l = h) (pg_links s4) \<noteq> None \<or> f4")
    case True
    with assms 1 2 3 4 5 have "(\<exists>er. c = Inl er) \<and> s' \<in> {s1, s2, s4, s5}"
      by (auto simp: pg_CreatePoll_def Let_def split: if_splits option.splits)
    with t show ?thesis by (auto simp: same_tables_def)
  next
    case False
    then obtain i where i: "up (p_ID p) = Some i" by auto
    from False have l: "find (\<lambda>l. lr_token_hash l = h) (pg_links s4) = None"
      by (auto simp: find_None_iff)
    let ?row = "\<lparr>pr_id = i, pr_owner_user_id = p_OwnerUserID p,
      pr_surprise_request_id = nullable (p_SurpriseRequestID p), pr_title = p_Title p,
      pr_questions = p_Questions p, pr_status = p_Status p,
      pr_expires_at = p_ExpiresAt p, pr_created_at = p_CreatedAt p\<rparr>"
    let ?link = "\<lparr>lr_id = lid, lr_poll_id = i, lr_token_hash = h,
      lr_expires_at = e, lr_revoked = False, lr_created_at = p_CreatedAt p\<rparr>"
    have "c = Inr () \<and> up (p_ID p) = Some i \<and> same_tables s s5 \<and>
       find (\<lambda>r. pr_id r = i) (pg_polls s) = None \<and>
       find (\<lambda>l. lr_token_hash l = h) (pg_links s) = None \<and>
       row_to_poll ?row = p\<lparr>p_ID := i\<rparr> \<and> pr_id ?row = i \<and>
       lr_poll_id ?link = i \<and> lr_token_hash ?link = h \<and> lr_expires_at ?link = e \<and> \<not> lr_revoked ?link \<and>
       s' = s5\<lparr>pg_polls := pg_polls s @ [?row], pg_links := pg_links s @ [?link]\<rparr>"
      using assms False 1 2 3 4 5 i l t
      by (auto simp: pg_CreatePoll_def Let_def row_to_poll_def null same_tables_def)
    then show ?thesis by blast
  qed
qed

lemma pg_Complete_shape:
  assumes "pg_CompleteWithResponse up pid as fp at s = (d, s')"
  shows "(\<exists>er. d = Inl er) \<and> same_tables s s' \<or>
    (\<exists>i rid r t. d = Inr rid \<and> up pid = Some i \<and> same_tables s t \<and>
       (\<exists>p \<in> set (pg_polls s). pr_id p = i \<and> pr_status p = StatusActive) \<and>
       rr_id r = rid \<and> rr_poll_id r = i \<and> rr_answers r = as \<and> rr_submitted_at r = at \<and>
       s' = t\<lparr>pg_polls := map (complete_row i) (pg_polls s), pg_resps := pg_resps s @ [r]\<rparr>)"
proof -
  obtain f1 s1 where 1: "pg_tick s = (f1, s1)" by fastforce
  obtain f2 s2 where 2: "pg_tick s1 = (f2, s2)" by fastforce
  obtain rid s3 where 3: "pg_uuid s2 = (rid, s3)" by fastforce
  obtain f3 s4 where 4: "pg_tick s3 = (f3, s4)" by fastforce
  obtain f4 s5 where 5: "pg_tick s4 = (f4, s5)" by fastforce
  note t = 1 [THEN pg_tick_same] 2 [THEN pg_tick_same] 3 [THEN pg_uuid_same]
    4 [THEN pg_tick_same] 5 [THEN pg_tick_same]
  show ?thesis
  proof (cases "f1 \<or> f2 \<or> up pid = None \<or>
      filter (\<lambda>r. pr_id r = the (up pid) \<and> pr_status r = StatusActive) (pg_polls s2) = [] \<or> f3 \<or>
      find (\<lambda>r. rr_id r = rid) (pg_resps s4) \<noteq> None \<or> f4")
    case True
    with assms 1 2 3 4 5 have "(\<exists>er. d = Inl er) \<and> s' \<in> {s1, s2, s4, s5}"
      by (auto simp: pg_CompleteWithResponse_def Let_def split: if_splits option.splits)
    with t show ?thesis by (auto simp: same_tables_def)
  next
    case False
    then obtain i where i: "up pid = Some i" by auto
    from False have "filter (\<lambda>r. pr_id r = i \<and> pr_status r = StatusActive) (pg_polls s) \<noteq> []"
      using i t by (simp add: same_tables_def)
    then have a: "\<exists>p \<in> set (pg_polls s). pr_id p = i \<and> pr_status p = StatusActive"
      by (simp add: filter_empty_conv)
    let ?r = "\<lparr>rr_id = rid, rr_poll_id = i, rr_answers = as, rr_submitted_at = at,
      rr_client_fingerprint = nullable fp\<rparr>"
    have "d = Inr rid \<and> up pid = Some i \<and> same_tables s s5 \<and>
       rr_id ?r = rid \<and> rr_poll_id ?r = i \<and> rr_answers ?r = as \<and> rr_submitted_at ?r = at \<and>
       s' = s5\<lparr>pg_polls := map (complete_row i) (pg_polls s), pg_resps := pg_resps s @ [?r]\<rparr>"
      using assms False 1 2 3 4 5 i t
      by (auto simp: pg_CompleteWithResponse_def Let_def same_tables_def)
    with a show ?thesis by blast
  qed
qed

lemma pg_reads_same:
  "pg_GetByTokenHash h s = (t, s') \<Longrightarrow> same_tables s s'"
  "pg_GetPollByID up pid s = (g, s') \<Longrightarrow> same_tables s s'"
  "pg_GetResponses up pid s = (v, s') \<Longrightarrow> same_tables s s'"
  by (auto simp: pg_GetByTokenHash_def pg_GetPollByID_def pg_GetResponses_def Let_def
      split: prod.splits if_splits option.splits intro: pg_tick_same)

lemma complete_row_id [simp]: "pr_id (complete_row i r) = pr_id r"
  by (simp add: complete_row_def)

lemma find_complete_row:
  "find (\<lambda>r. pr_id r = j) (map (complete_row i) rs) =
     map_option (complete_row i) (find (\<lambda>r. pr_id r = j) rs)"
  by (rule find_map_update) simp

lemma pg_Create_inv:
  assumes "pg_inv up s" and "find (\<lambda>r. pr_id r = i) (pg_polls s) = None"
    and "up x = Some i" and "pr_id row = i" and "lr_poll_id link = i" and "same_tables s t"
  shows "pg_inv up (t\<lparr>pg_polls := pg_polls s @ [row], pg_links := pg_links s @ [link]\<rparr>)"
proof -
  have "lr_poll_id l \<noteq> i" if "l \<in> set (pg_links s)" for l
    using assms(1,2) that by (metis pg_inv_def)
  then show ?thesis
    using assms
    by (auto simp: pg_inv_def uuid_parse_ok_def same_tables_def find_append find_None_iff notin_image
        split: option.splits)
qed

lemma pg_Complete_inv:
  assumes inv: "pg_inv up s" and p: "p \<in> set (pg_polls s)" "pr_id p = i" "pr_status p = StatusActive"
    and r: "rr_poll_id r = i" and t: "same_tables s t"
  shows "pg_inv up (t\<lparr>pg_polls := map (complete_row i) (pg_polls s), pg_resps := pg_resps s @ [r]\<rparr>)"
proof -
  have d: "distinct (map pr_id (pg_polls s))" using inv by (simp add: pg_inv_def)
  have other: "q \<in> set (pg_polls s) \<Longrightarrow> pr_id q = i \<Longrightarrow> q = p" for q
    using d p by (metis find_unique option.inject)
  have "map pr_id (map (complete_row i) (pg_polls s)) = map pr_id (pg_polls s)"
    by simp
  moreover have "\<forall>q \<in> set (pg_resps s). rr_poll_id q \<noteq> i"
    using inv other p by (fastforce simp: pg_inv_def)
  moreover have "complete_row i q \<in> complete_row i ` set (pg_polls s)" if "q \<in> set (pg_polls s)" for q
    using that by simp
  moreover have "pr_status (complete_row i p) = StatusCompleted"
    using p by (simp add: complete_row_def)
  moreover have "pr_status (complete_row i q) = StatusCompleted" if "pr_status q = StatusCompleted" for q
    using that by (simp add: complete_row_def)
  ultimately show ?thesis
    using inv p r t
    apply (auto simp: pg_inv_def same_tables_def find_complete_row notin_image comp_def)
     apply (metis complete_row_id)+
    done
qed

lemma pg_Create_ledger:
  assumes "find (\<lambda>r. pr_id r = i) (pg_polls s) = None"
    and "find (\<lambda>l. lr_token_hash l = h) (pg_links s) = None"
    and "row_to_poll row = p\<lparr>p_ID := i\<rparr>" and "pr_id row = i"
    and "lr_poll_id link = i" and "lr_token_hash link = h" and "lr_expires_at link = e"
    and "\<not> lr_revoked link" and "same_tables s t"
  shows "pg_ledger (t\<lparr>pg_polls := pg_polls s @ [row], pg_links := pg_links s @ [link]\<rparr>) =
    (pg_ledger s)\<lparr>lg_polls := (lg_polls (pg_ledger s))(i \<mapsto> p\<lparr>p_ID := i\<rparr>),
      lg_links := (lg_links (pg_ledger s))(h \<mapsto> (i, False, e))\<rparr>"
proof -
  have "map_option row_to_poll (find (\<lambda>r. pr_id r = j) (pg_polls s @ [row])) =
      ((\<lambda>j. map_option row_to_poll (find (\<lambda>r. pr_id r = j) (pg_polls s)))(i \<mapsto> p\<lparr>p_ID := i\<rparr>)) j" for j
    using assms(1,3,4) by (cases "find (\<lambda>r. pr_id r = j) (pg_polls s)") (auto simp: find_append)
  moreover have "map_option (\<lambda>l. (lr_poll_id l, lr_revoked l, lr_expires_at l))
        (find (\<lambda>l. lr_token_hash l = g) (pg_links s @ [link])) =
      ((\<lambda>g. map_option (\<lambda>l. (lr_poll_id l, lr_revoked l, lr_expires_at l))
        (find (\<lambda>l. lr_token_hash l = g) (pg_links s)))(h \<mapsto> (i, False, e))) g" for g
    using assms(2,5-8) by (cases "find (\<lambda>l. lr_token_hash l = g) (pg_links s)") (auto simp: find_append)
  ultimately show ?thesis
    using assms(9) by (simp add: pg_ledger_def same_tables_def fun_upd_def)
qed

lemma pg_active_row:
  assumes "pg_inv up s" and "p \<in> set (pg_polls s)" and "pr_id p = i"
  shows "find (\<lambda>r. pr_id r = i) (pg_polls s) = Some p"
  using assms find_unique [of pr_id "pg_polls s" p] by (simp add: pg_inv_def)

lemma pg_active_no_resp:
  assumes "pg_inv up s" and "p \<in> set (pg_polls s)" and "pr_id p = i" and "pr_status p = StatusActive"
  shows "filter (\<lambda>r. rr_poll_id r = i) (pg_resps s) = []"
proof -
  have "rr_poll_id q \<noteq> i" if "q \<in> set (pg_resps s)" for q
  proof
    assume "rr_poll_id q = i"
    with that assms obtain r where "r \<in> set (pg_polls s)" "pr_id r = i" "pr_status r = StatusCompleted"
      unfolding pg_inv_def by metis
    with pg_active_row [OF assms(1) assms(2,3)] pg_active_row [OF assms(1), of r i] assms(4)
    show False by simp
  qed
  then show ?thesis by (simp add: filter_empty_conv)
qed

lemma row_to_poll_status [simp]: "p_Status (row_to_poll r) = pr_status r"
  by (simp add: row_to_poll_def)

lemma complete_row_to_poll:
  "pr_id r = i \<Longrightarrow> pr_status r = StatusActive \<Longrightarrow>
   row_to_poll (complete_row i r) = (row_to_poll r)\<lparr>p_Status := StatusCompleted\<rparr>"
  "pr_id r \<noteq> i \<Longrightarrow> complete_row i r = r"
  by (simp_all add: complete_row_def row_to_poll_def)

lemma pg_Complete_ledger:
  assumes inv: "pg_inv up s" and p: "p \<in> set (pg_polls s)" "pr_id p = i" "pr_status p = StatusActive"
    and r: "rr_id r = rid" "rr_poll_id r = i" "rr_answers r = as" "rr_submitted_at r = at"
    and t: "same_tables s t"
  shows "pg_ledger (t\<lparr>pg_polls := map (complete_row i) (pg_polls s), pg_resps := pg_resps s @ [r]\<rparr>) =
    ledger_complete i (row_to_poll p) \<lparr>r_ID = rid, r_Answers = as, r_SubmittedAt = at\<rparr> (pg_ledger s)"
proof -
  note f = pg_active_row [OF inv p(1,2)] and n = pg_active_no_resp [OF inv p]
  have "map_option row_to_poll (map_option (complete_row i) (find (\<lambda>r. pr_id r = j) (pg_polls s))) =
      (if j = i then Some ((row_to_poll p)\<lparr>p_Status := StatusCompleted\<rparr>)
       else map_option row_to_poll (find (\<lambda>r. pr_id r = j) (pg_polls s)))" for j
    using f p
    by (cases "find (\<lambda>r. pr_id r = j) (pg_polls s)")
      (auto simp: complete_row_to_poll dest: find_SomeD)
  then show ?thesis
    using n r t
    by (auto simp: pg_ledger_def ledger_complete_def same_tables_def find_complete_row
        fun_eq_iff row_to_response_def)
qed

lemma pg_one_response:
  assumes "pg_inv up s"
  shows "length (filter (\<lambda>r. rr_poll_id r = i) (pg_resps s)) \<le> 1"
proof -
  have "distinct (map rr_poll_id rs) \<Longrightarrow> length (filter (\<lambda>r. rr_poll_id r = i) rs) \<le> 1" for rs
  proof (induction rs)
    case Nil
    then show ?case by simp
  next
    case (Cons a rs)
    then have "rr_poll_id a = i \<Longrightarrow> filter (\<lambda>r. rr_poll_id r = i) rs = []"
      by (auto simp: filter_empty_conv notin_image)
    with Cons show ?case by auto
  qed
  from this [of "pg_resps s"] assms show ?thesis by (simp add: pg_inv_def)
qed

lemma pg_resp_completed:
  assumes "pg_inv up s" and "filter (\<lambda>r. rr_poll_id r = i) (pg_resps s) \<noteq> []"
  shows "\<exists>p. find (\<lambda>r. pr_id r = i) (pg_polls s) = Some p \<and> pr_status p = StatusCompleted"
proof -
  from assms(2) obtain q where "q \<in> set (pg_resps s)" "rr_poll_id q = i"
    by (auto simp: filter_empty_conv)
  with assms(1) obtain r where "r \<in> set (pg_polls s)" "pr_id r = i" "pr_status r = StatusCompleted"
    unfolding pg_inv_def by metis
  with pg_active_row [OF assms(1)] show ?thesis by auto
qed

lemmas pg_repo_defs = pg_repo_def pg_GetByTokenHash_def pg_GetPollByID_def pg_GetResponses_def

lemma pg_read_results:
  "pg_GetByTokenHash h s = (Inr lp, s') \<Longrightarrow>
   \<exists>l r. find (\<lambda>l. lr_token_hash l = h) (pg_links s) = Some l \<and>
     find (\<lambda>r. pr_id r = lr_poll_id l) (pg_polls s) = Some r \<and> lp_Poll lp = row_to_poll r \<and>
     lp_LinkRevoked lp = lr_revoked l \<and> lp_LinkExpiresAt lp = lr_expires_at l"
  "pg_inv up s \<Longrightarrow> pg_GetByTokenHash h s = (Inl ErrNotFound, s') \<Longrightarrow>
   find (\<lambda>l. lr_token_hash l = h) (pg_links s) = None"
  "pg_GetPollByID up pid s = (Inr p, s') \<Longrightarrow>
   \<exists>i r. up pid = Some i \<and> find (\<lambda>r. pr_id r = i) (pg_polls s) = Some r \<and> p = row_to_poll r"
  "pg_GetPollByID up pid s = (Inl ErrNotFound, s') \<Longrightarrow>
   \<exists>i. up pid = Some i \<and> find (\<lambda>r. pr_id r = i) (pg_polls s) = None"
  "pg_GetResponses up pid s = (Inr rs, s') \<Longrightarrow>
   \<exists>i. up pid = Some i \<and> rs = map row_to_response
     (sort_key rr_submitted_at (filter (\<lambda>r. rr_poll_id r = i) (pg_resps s)))"
proof -
  obtain f t where ft: "pg_tick s = (f, t)" by fastforce
  note same = pg_tick_same [OF ft, unfolded same_tables_def]
  show "pg_GetByTokenHash h s = (Inr lp, s') \<Longrightarrow>
   \<exists>l r. find (\<lambda>l. lr_token_hash l = h) (pg_links s) = Some l \<and>
     find (\<lambda>r. pr_id r = lr_poll_id l) (pg_polls s) = Some r \<and> lp_Poll lp = row_to_poll r \<and>
     lp_LinkRevoked lp = lr_revoked l \<and> lp_LinkExpiresAt lp = lr_expires_at l"
    using ft same by (auto simp: pg_GetByTokenHash_def split: if_splits option.splits)
  show "pg_inv up s \<Longrightarrow> pg_GetByTokenHash h s = (Inl ErrNotFound, s') \<Longrightarrow>
   find (\<lambda>l. lr_token_hash l = h) (pg_links s) = None"
    using ft same
    by (auto simp: pg_GetByTokenHash_def pg_inv_def split: if_splits option.splits)
      (metis find_SomeD option.distinct(1))
  show "pg_GetPollByID up pid s = (Inr p, s') \<Longrightarrow>
   \<exists>i r. up pid = Some i \<and> find (\<lambda>r. pr_id r = i) (pg_polls s) = Some r \<and> p = row_to_poll r"
    "pg_GetPollByID up pid s = (Inl ErrNotFound, s') \<Longrightarrow>
   \<exists>i. up pid = Some i \<and> find (\<lambda>r. pr_id r = i) (pg_polls s) = None"
    "pg_GetResponses up pid s = (Inr rs, s') \<Longrightarrow>
   \<exists>i. up pid = Some i \<and> rs = map row_to_response
     (sort_key rr_submitted_at (filter (\<lambda>r. rr_poll_id r = i) (pg_resps s)))"
    using ft same
    by (auto simp: pg_GetPollByID_def pg_GetResponses_def split: if_splits option.splits)
qed

lemma pg_repo_sel [simp]:
  "repo_CreatePoll (pg_repo up) = pg_CreatePoll up"
  "repo_GetByTokenHash (pg_repo up) = pg_GetByTokenHash"
  "repo_CompleteWithResponse (pg_repo up) = pg_CompleteWithResponse up"
  "repo_GetPollByID (pg_repo up) = pg_GetPollByID up"
  "repo_GetResponses (pg_repo up) = pg_GetResponses up"
  by (simp_all add: pg_repo_def)

interpretation pg: poll_repo_contract "pg_repo up" pg_ledger "pg_inv up" up
  for up :: "string \<Rightarrow> string option"
proof unfold_locales
  fix s s' p h e u
  assume inv: "pg_inv up s" and c: "repo_CreatePoll (pg_repo up) p h e s = (Inr u, s')"
  from c have "pg_CreatePoll up p h e s = (Inr u, s')" by (simp add: pg_repo_def)
  from pg_CreatePoll_shape [OF this] obtain i row link t where
    sh: "up (p_ID p) = Some i" "same_tables s t" "find (\<lambda>r. pr_id r = i) (pg_polls s) = None"
      "find (\<lambda>l. lr_token_hash l = h) (pg_links s) = None"
      "row_to_poll row = p\<lparr>p_ID := i\<rparr>" "pr_id row = i" "lr_poll_id link = i" "lr_token_hash link = h"
      "lr_expires_at link = e" "\<not> lr_revoked link"
      "s' = t\<lparr>pg_polls := pg_polls s @ [row], pg_links := pg_links s @ [link]\<rparr>"
    by auto
  from pg_Create_ledger [OF sh(3-10,2)] sh(1,3,4,11)
  show "\<exists>i. up (p_ID p) = Some i \<and> lg_polls (pg_ledger s) i = None \<and> lg_links (pg_ledger s) h = None \<and>
      pg_ledger s' = (pg_ledger s)\<lparr>lg_polls := (lg_polls (pg_ledger s))(i \<mapsto> p\<lparr>p_ID := i\<rparr>),
        lg_links := (lg_links (pg_ledger s))(h \<mapsto> (i, False, e))\<rparr>"
    by (intro exI [of _ i]) (simp add: pg_ledger_def)
next
  fix s s' p h e er
  assume "repo_CreatePoll (pg_repo up) p h e s = (Inl er, s')"
  then have "pg_CreatePoll up p h e s = (Inl er, s')" by (simp add: pg_repo_def)
  from pg_CreatePoll_shape [OF this] show "pg_ledger s' = pg_ledger s"
    by (auto intro: same_tables_ledger)
next
  fix s s' p h e c
  assume inv: "pg_inv up s" and "repo_CreatePoll (pg_repo up) p h e s = (c, s')"
  then have "pg_CreatePoll up p h e s = (c, s')" by (simp add: pg_repo_def)
  from pg_CreatePoll_shape [OF this] inv show "pg_inv up s'"
    by (auto simp: same_tables_inv intro: pg_Create_inv)
next
  fix s s' h t
  assume "pg_inv up s" and "repo_GetByTokenHash (pg_repo up) h s = (t, s')"
  then show "pg_ledger s' = pg_ledger s \<and> pg_inv up s'"
    by (metis pg_reads_same(1) same_tables_ledger same_tables_inv pg_repo_sel)
next
  fix s s' h lp
  assume "repo_GetByTokenHash (pg_repo up) h s = (Inr lp, s')"
  then have "pg_GetByTokenHash h s = (Inr lp, s')" by (simp add: pg_repo_def)
  from pg_read_results(1) [OF this]
  show "\<exists>i. lg_links (pg_ledger s) h = Some (i, lp_LinkRevoked lp, lp_LinkExpiresAt lp) \<and>
      lg_polls (pg_ledger s) i = Some (lp_Poll lp)"
    by (auto simp: pg_ledger_def)
next
  fix s s' h
  assume "pg_inv up s" and "repo_GetByTokenHash (pg_repo up) h s = (Inl ErrNotFound, s')"
  then show "lg_links (pg_ledger s) h = None"
    using pg_read_results(2) by (simp add: pg_repo_def pg_ledger_def)
next
  fix s s' pid as fp at rid
  assume inv: "pg_inv up s" and "repo_CompleteWithResponse (pg_repo up) pid as fp at s = (Inr rid, s')"
  then have "pg_CompleteWithResponse up pid as fp at s = (Inr rid, s')" by (simp add: pg_repo_def)
  from pg_Complete_shape [OF this] obtain i r t p where
    sh: "up pid = Some i" "same_tables s t" "p \<in> set (pg_polls s)" "pr_id p = i"
      "pr_status p = StatusActive" "rr_id r = rid" "rr_poll_id r = i" "rr_answers r = as"
      "rr_submitted_at r = at"
      "s' = t\<lparr>pg_polls := map (complete_row i) (pg_polls s), pg_resps := pg_resps s @ [r]\<rparr>"
    by auto
  from pg_Complete_ledger [OF inv sh(3-9,2)] pg_active_row [OF inv sh(3,4)] sh(1,5,10)
  show "\<exists>i p. up pid = Some i \<and> lg_polls (pg_ledger s) i = Some p \<and> p_Status p = StatusActive \<and>
      pg_ledger s' = ledger_complete i p \<lparr>r_ID = rid, r_Answers = as, r_SubmittedAt = at\<rparr> (pg_ledger s)"
    by (intro exI [of _ i] exI [of _ "row_to_poll p"]) (simp add: pg_ledger_def)
next
  fix s s' pid as fp at er
  assume "repo_CompleteWithResponse (pg_repo up) pid as fp at s = (Inl er, s')"
  then have "pg_CompleteWithResponse up pid as fp at s = (Inl er, s')" by (simp add: pg_repo_def)
  from pg_Complete_shape [OF this] show "pg_ledger s' = pg_ledger s"
    by (auto intro: same_tables_ledger)
next
  fix s s' pid as fp at d
  assume inv: "pg_inv up s" and "repo_CompleteWithResponse (pg_repo up) pid as fp at s = (d, s')"
  then have "pg_CompleteWithResponse up pid as fp at s = (d, s')" by (simp add: pg_repo_def)
  from pg_Complete_shape [OF this] inv show "pg_inv up s'"
    by (auto simp: same_tables_inv intro: pg_Complete_inv)
next
  fix s s' pid g
  assume "pg_inv up s" and "repo_GetPollByID (pg_repo up) pid s = (g, s')"
  then show "pg_ledger s' = pg_ledger s \<and> pg_inv up s'"
    by (metis pg_reads_same(2) same_tables_ledger same_tables_inv pg_repo_sel)
next
  fix s s' pid p
  assume "repo_GetPollByID (pg_repo up) pid s = (Inr p, s')"
  then show "\<exists>i. up pid = Some i \<and> lg_polls (pg_ledger s) i = Some p"
    using pg_read_results(3) by (fastforce simp: pg_repo_def pg_ledger_def)
next
  fix s s' pid
  assume "repo_GetPollByID (pg_repo up) pid s = (Inl ErrNotFound, s')"
  then show "\<exists>i. up pid = Some i \<and> lg_polls (pg_ledger s) i = None"
    using pg_read_results(4) by (fastforce simp: pg_repo_def pg_ledger_def)
next
  fix s s' pid v
  assume "pg_inv up s" and "repo_GetResponses (pg_repo up) pid s = (v, s')"
  then show "pg_ledger s' = pg_ledger s \<and> pg_inv up s'"
    by (metis pg_reads_same(3) same_tables_ledger same_tables_inv pg_repo_sel)
next
  fix s s' pid rs
  assume "repo_GetResponses (pg_repo up) pid s = (Inr rs, s')"
  then show "\<exists>i. up pid = Some i \<and> rs = lg_resps (pg_ledger s) i"
    using pg_read_results(5) by (fastforce simp: pg_repo_def pg_ledger_def)
next
  fix s i p
  assume "pg_inv up s" and "lg_polls (pg_ledger s) i = Some p"
  then show "p_ID p = i \<and> up i = Some i"
    by (auto simp: pg_ledger_def pg_inv_def row_to_poll_def dest!: find_SomeD)
next
  fix s h i a b h' a' b'
  assume inv: "pg_inv up s" and "lg_links (pg_ledger s) h = Some (i, a, b)"
    and "lg_links (pg_ledger s) h' = Some (i, a', b')"
  then obtain l l' where "l \<in> set (pg_links s)" "lr_token_hash l = h" "lr_poll_id l = i"
      "l' \<in> set (pg_links s)" "lr_token_hash l' = h'" "lr_poll_id l' = i"
    by (auto simp: pg_ledger_def dest!: find_SomeD)
  moreover have "distinct (map lr_poll_id (pg_links s))" using inv by (simp add: pg_inv_def)
  ultimately show "h' = h"
    using find_unique [of lr_poll_id "pg_links s" l] find_unique [of lr_poll_id "pg_links s" l'] by simp
next
  fix s i
  assume "pg_inv up s"
  then show "length (lg_resps (pg_ledger s) i) \<le> 1"
    using pg_one_response by (simp add: pg_ledger_def)
next
  fix s i
  assume inv: "pg_inv up s" and ne: "lg_resps (pg_ledger s) i \<noteq> []"
  have "filter (\<lambda>r. rr_poll_id r = i) (pg_resps s) \<noteq> []"
  proof
    assume "filter (\<lambda>r. rr_poll_id r = i) (pg_resps s) = []"
    with ne show False by (simp add: pg_ledger_def)
  qed
  from pg_resp_completed [OF inv this]
  show "\<exists>p. lg_polls (pg_ledger s) i = Some p \<and> p_Status p = StatusCompleted"
    by (auto simp: pg_ledger_def)
qed

end
