(* ===== verification/Valkey.thy ===== *)
theory Valkey
  imports Gift_Prelude
begin

text \<open>
  The commands the services send to Valkey: GET, SET with EX and with NX, DEL, INCR and
  EXPIRE, as their documentation describes them. A key holds a counter (\<open>Num\<close>) or a stored
  value (\<open>Val\<close>, the decoded JSON the service wrote) and an optional expiry instant; a key
  whose expiry has passed is absent. Each command consumes one entry of the fault schedule,
  and a failed command changes nothing else.
\<close>

datatype 'v vval = Num int | Val 'v

datatype vk_error = ConnFault | CmdError

record 'v valkey =
  vk_keys :: "(string, 'v vval \<times> time option) gomap"
  vk_faults :: "bool list"

definition vk_live :: "'v valkey \<Rightarrow> time \<Rightarrow> string \<Rightarrow> 'v vval option" where
  "vk_live s now k =
     (case vk_keys s k of
        None \<Rightarrow> None
      | Some (v, None) \<Rightarrow> Some v
      | Some (v, Some e) \<Rightarrow> (if now < e then Some v else None))"

definition vk_tick :: "'v valkey \<Rightarrow> bool \<times> 'v valkey" where
  "vk_tick s = (let (f, fs) = next_fault (vk_faults s) in (f, s\<lparr>vk_faults := fs\<rparr>))"

definition vk_INCR :: "string \<Rightarrow> time \<Rightarrow> 'v valkey \<Rightarrow> (vk_error + int) \<times> 'v valkey" where
  "vk_INCR k now s0 =
     (let (f, s) = vk_tick s0 in
      if f then (Inl ConnFault, s)
      else case vk_live s now k of
        None \<Rightarrow> (Inr 1, s\<lparr>vk_keys := (vk_keys s)(k \<mapsto> (Num 1, None))\<rparr>)
      | Some (Val v) \<Rightarrow> (Inl CmdError, s)
      | Some (Num n) \<Rightarrow>
          (Inr (n + 1),
           s\<lparr>vk_keys := (vk_keys s)(k \<mapsto> (Num (n + 1), Option.bind (vk_keys s k) snd))\<rparr>))"

definition vk_EXPIRE :: "string \<Rightarrow> int \<Rightarrow> time \<Rightarrow> 'v valkey \<Rightarrow> (vk_error + unit) \<times> 'v valkey" where
  "vk_EXPIRE k secs now s0 =
     (let (f, s) = vk_tick s0 in
      if f then (Inl ConnFault, s)
      else case vk_live s now k of
        None \<Rightarrow> (Inr (), s)
      | Some v \<Rightarrow>
          (if secs \<le> 0 then (Inr (), s\<lparr>vk_keys := (vk_keys s)(k := None)\<rparr>)
           else (Inr (), s\<lparr>vk_keys := (vk_keys s)(k \<mapsto> (v, Some (now + secs * ns_per_sec)))\<rparr>)))"

definition vk_SETEX :: "string \<Rightarrow> 'v \<Rightarrow> int \<Rightarrow> time \<Rightarrow> 'v valkey \<Rightarrow> (vk_error + unit) \<times> 'v valkey" where
  "vk_SETEX k v secs now s0 =
     (let (f, s) = vk_tick s0 in
      if f then (Inl ConnFault, s)
      else if secs \<le> 0 then (Inl CmdError, s)
      else (Inr (), s\<lparr>vk_keys := (vk_keys s)(k \<mapsto> (Val v, Some (now + secs * ns_per_sec)))\<rparr>))"

text \<open>\<open>SET k v NX EX secs\<close>: \<open>Inr False\<close> is the nil reply of a key that already exists.\<close>

definition vk_SETNXEX :: "string \<Rightarrow> 'v \<Rightarrow> int \<Rightarrow> time \<Rightarrow> 'v valkey \<Rightarrow> (vk_error + bool) \<times> 'v valkey" where
  "vk_SETNXEX k v secs now s0 =
     (let (f, s) = vk_tick s0 in
      if f then (Inl ConnFault, s)
      else if secs \<le> 0 then (Inl CmdError, s)
      else if vk_live s now k \<noteq> None then (Inr False, s)
      else (Inr True, s\<lparr>vk_keys := (vk_keys s)(k \<mapsto> (Val v, Some (now + secs * ns_per_sec)))\<rparr>))"

text \<open>\<open>GET\<close>: \<open>Inr None\<close> is the nil reply; a counter is not a value of the service's type.\<close>

definition vk_GET :: "string \<Rightarrow> time \<Rightarrow> 'v valkey \<Rightarrow> (vk_error + 'v option) \<times> 'v valkey" where
  "vk_GET k now s0 =
     (let (f, s) = vk_tick s0 in
      if f then (Inl ConnFault, s)
      else case vk_live s now k of
        None \<Rightarrow> (Inr None, s)
      | Some (Val v) \<Rightarrow> (Inr (Some v), s)
      | Some (Num n) \<Rightarrow> (Inl CmdError, s))"

definition vk_DEL :: "string \<Rightarrow> time \<Rightarrow> 'v valkey \<Rightarrow> (vk_error + unit) \<times> 'v valkey" where
  "vk_DEL k now s0 =
     (let (f, s) = vk_tick s0 in
      if f then (Inl ConnFault, s)
      else (Inr (), s\<lparr>vk_keys := (vk_keys s)(k := None)\<rparr>))"

lemmas vk_defs [go_defs] =
  vk_INCR_def vk_EXPIRE_def vk_SETEX_def vk_SETNXEX_def vk_GET_def vk_DEL_def vk_tick_def

lemma vk_tick_keys [simp]: "vk_keys (snd (vk_tick s)) = vk_keys s"
  by (simp add: vk_tick_def Let_def split: prod.split)

lemma vk_tick_eq: "vk_tick s = (f, s') \<Longrightarrow> vk_keys s' = vk_keys s"
  using vk_tick_keys [of s] by simp

lemma vk_live_keys: "vk_keys s' k = vk_keys s k \<Longrightarrow> vk_live s' now k = vk_live s now k"
  by (simp add: vk_live_def)

text \<open>No command touches another key.\<close>

lemma vk_frame:
  "vk_INCR k now s = (r1, s1) \<Longrightarrow> k' \<noteq> k \<Longrightarrow> vk_keys s1 k' = vk_keys s k'"
  "vk_EXPIRE k secs now s = (r2, s2) \<Longrightarrow> k' \<noteq> k \<Longrightarrow> vk_keys s2 k' = vk_keys s k'"
  "vk_SETEX k v secs now s = (r3, s3) \<Longrightarrow> k' \<noteq> k \<Longrightarrow> vk_keys s3 k' = vk_keys s k'"
  "vk_SETNXEX k v secs now s = (r4, s4) \<Longrightarrow> k' \<noteq> k \<Longrightarrow> vk_keys s4 k' = vk_keys s k'"
  "vk_DEL k now s = (r5, s5) \<Longrightarrow> k' \<noteq> k \<Longrightarrow> vk_keys s5 k' = vk_keys s k'"
  by (auto simp: vk_defs Let_def split: prod.splits if_splits option.splits vval.splits)

lemma vk_GET_keys: "vk_GET k now s = (r, s') \<Longrightarrow> vk_keys s' = vk_keys s"
  by (auto simp: vk_defs Let_def split: prod.splits if_splits option.splits vval.splits)

lemma vk_GET_Some: "vk_GET k now s = (Inr x, s') \<Longrightarrow> vk_live s now k = map_option Val x"
  by (auto simp: vk_defs vk_live_def Let_def split: prod.splits if_splits option.splits vval.splits)

lemma vk_SETEX_ok:
  "vk_SETEX k v secs now s = (Inr u, s') \<Longrightarrow>
   0 < secs \<and> vk_keys s' = (vk_keys s)(k \<mapsto> (Val v, Some (now + secs * ns_per_sec)))"
  by (auto simp: vk_defs Let_def split: prod.splits if_splits)

lemma vk_SETEX_err: "vk_SETEX k v secs now s = (Inl e, s') \<Longrightarrow> vk_keys s' = vk_keys s"
  by (auto simp: vk_defs Let_def split: prod.splits if_splits)

lemma vk_DEL_ok: "vk_DEL k now s = (Inr u, s') \<Longrightarrow> vk_keys s' = (vk_keys s)(k := None)"
  by (auto simp: vk_defs Let_def split: prod.splits if_splits)

lemma vk_DEL_err: "vk_DEL k now s = (Inl e, s') \<Longrightarrow> vk_keys s' = vk_keys s"
  by (auto simp: vk_defs Let_def split: prod.splits if_splits)

lemma vk_SETNXEX_stored:
  "vk_SETNXEX k v secs now s = (Inr True, s') \<Longrightarrow>
   vk_live s now k = None \<and> vk_keys s' = (vk_keys s)(k \<mapsto> (Val v, Some (now + secs * ns_per_sec)))"
  by (auto simp: vk_defs vk_live_def Let_def split: prod.splits if_splits option.splits)

lemma vk_SETNXEX_kept:
  "vk_SETNXEX k v secs now s = (Inr False, s') \<Longrightarrow> vk_live s now k \<noteq> None \<and> vk_keys s' = vk_keys s"
  by (auto simp: vk_defs vk_live_def Let_def split: prod.splits if_splits option.splits)

lemma vk_SETNXEX_err: "vk_SETNXEX k v secs now s = (Inl e, s') \<Longrightarrow> vk_keys s' = vk_keys s"
  by (auto simp: vk_defs Let_def split: prod.splits if_splits option.splits)

end
