(* ===== verification/Rate_Limit.thy ===== *)
theory Rate_Limit
  imports Gift_Prelude
begin

text \<open>
  The contract of a fixed-window rate limiter, as the Poll server, the Identity server and
  the API gateway rely on it. \<open>used k t s\<close> is what the window of key \<open>k\<close> counts at instant
  \<open>t\<close>, \<open>holds k d s\<close> says that the window open for \<open>k\<close> lasts at least until \<open>d\<close>. The locale
  is interpreted on the Valkey limiters of Poll and Identity and on the gateway's
  in-process \<open>Window\<close>.
\<close>

fun limiter_run ::
  "(string \<Rightarrow> time \<Rightarrow> 's \<Rightarrow> ('e + bool) \<times> 's) \<Rightarrow> (string \<times> time) list \<Rightarrow> 's \<Rightarrow> ('e + bool) list \<times> 's" where
  "limiter_run allow [] s = ([], s)"
| "limiter_run allow ((k, t) # calls) s =
     (case allow k t s of
        (r, s') \<Rightarrow> (case limiter_run allow calls s' of (rs, s'') \<Rightarrow> (r # rs, s'')))"

text \<open>How many of the calls for key \<open>k\<close> were admitted.\<close>

definition admitted :: "string \<Rightarrow> (string \<times> time) list \<Rightarrow> ('e + bool) list \<Rightarrow> int" where
  "admitted k calls rs = int (length (filter (\<lambda>(c, r). fst c = k \<and> r = Inr True) (zip calls rs)))"

lemma admitted_simps [simp]:
  "admitted k [] rs = 0"
  "admitted k (c # calls) (r # rs) = (if fst c = k \<and> r = Inr True then 1 else 0) + admitted k calls rs"
  by (auto simp: admitted_def)

lemma admitted_nonneg: "0 \<le> admitted k calls rs"
  by (simp add: admitted_def)

locale rate_limiter =
  fixes allow :: "string \<Rightarrow> time \<Rightarrow> 's \<Rightarrow> ('e + bool) \<times> 's"
    and used :: "string \<Rightarrow> time \<Rightarrow> 's \<Rightarrow> int"
    and holds :: "string \<Rightarrow> time \<Rightarrow> 's \<Rightarrow> bool"
    and budget :: int
    and span :: duration
    and inv :: "'s \<Rightarrow> bool"
  assumes inv_allow: "inv s \<Longrightarrow> allow k t s = (r, s') \<Longrightarrow> inv s'"
    and admit: "inv s \<Longrightarrow> allow k t s = (Inr True, s') \<Longrightarrow> used k t s < budget \<and> used k t s' = used k t s + 1"
    and used_mono: "inv s \<Longrightarrow> allow k t s = (r, s') \<Longrightarrow> used k t s \<le> used k t s'"
    and frame: "inv s \<Longrightarrow> allow k t s = (r, s') \<Longrightarrow> k' \<noteq> k \<Longrightarrow> used k' t' s' = used k' t' s"
    and window: "inv s \<Longrightarrow> holds k d s \<Longrightarrow> t \<le> t' \<Longrightarrow> t' \<le> d \<Longrightarrow> used k t s \<le> used k t' s"
    and holds_allow: "inv s \<Longrightarrow> holds k d s \<Longrightarrow> t \<le> d \<Longrightarrow> allow k' t s = (r, s') \<Longrightarrow> holds k d s'"
    and opens: "inv s \<Longrightarrow> used k t s = 0 \<Longrightarrow> allow k t s = (Inr True, s') \<Longrightarrow> holds k (t + span) s'"
begin

text \<open>Inside an open window the admissions and what was used before stay within the budget.\<close>

lemma burst_within_budget:
  assumes "inv s" and "holds k d s" and "limiter_run allow calls s = (rs, s')"
    and "sorted (map snd calls)" and "\<forall>c \<in> set calls. t0 \<le> snd c \<and> snd c \<le> d"
  shows "admitted k calls rs = 0 \<or> admitted k calls rs + used k t0 s \<le> budget"
  using assms
proof (induction calls arbitrary: s rs t0)
  case Nil
  then show ?case by simp
next
  case (Cons c calls)
  obtain kc t where c: "c = (kc, t)" by (cases c)
  obtain r s1 where a: "allow kc t s = (r, s1)" by (cases "allow kc t s")
  obtain rs' where run: "limiter_run allow calls s1 = (rs', s')" and rs: "rs = r # rs'"
    using Cons.prems(3) by (auto simp: c a split: prod.splits)
  have t: "t0 \<le> t" "t \<le> d" using Cons.prems(5) by (auto simp: c)
  have inv1: "inv s1" using inv_allow [OF Cons.prems(1) a] .
  have h1: "holds k d s1" using holds_allow [OF Cons.prems(1,2) t(2) a] .
  have IH: "admitted k calls rs' = 0 \<or> admitted k calls rs' + used k t s1 \<le> budget"
    using Cons.prems(4,5) by (intro Cons.IH [OF inv1 h1 run]) (auto simp: c)
  have u: "used k t0 s \<le> used k t s"
    using window [OF Cons.prems(1,2) t] .
  show ?case
  proof (cases "kc = k \<and> r = Inr True")
    case True
    then have "used k t s < budget" "used k t s1 = used k t s + 1"
      using admit [OF Cons.prems(1)] a by auto
    with IH u True show ?thesis by (auto simp: rs c)
  next
    case False
    have "used k t s \<le> used k t s1"
      using used_mono [OF Cons.prems(1)] frame [OF Cons.prems(1) a, of k t] a by (cases "kc = k") auto
    with IH u False show ?thesis by (auto simp: rs c)
  qed
qed

text \<open>From the call that opens a window, at most \<open>budget\<close> calls are admitted inside it.\<close>

lemma window_admits_at_most_budget:
  assumes "inv s" and "used k t s = 0" and "0 \<le> budget"
    and run: "limiter_run allow ((k, t) # calls) s = (rs, s')"
    and first: "fst (allow k t s) = Inr True"
    and "sorted (map snd calls)" and "\<forall>c \<in> set calls. t \<le> snd c \<and> snd c \<le> t + span"
  shows "admitted k ((k, t) # calls) rs \<le> budget"
proof -
  obtain s1 where a: "allow k t s = (Inr True, s1)"
    using first by (cases "allow k t s") auto
  obtain rs' where r1: "limiter_run allow calls s1 = (rs', s')" and rs: "rs = Inr True # rs'"
    using run by (auto simp: a split: prod.splits)
  have i1: "inv s1" and h: "holds k (t + span) s1"
    using inv_allow [OF assms(1) a] opens [OF assms(1,2) a] .
  have u: "used k t s < budget" "used k t s1 = 1"
    using admit [OF assms(1) a] assms(2) by auto
  have "admitted k calls rs' = 0 \<or> admitted k calls rs' + used k t s1 \<le> budget"
    by (rule burst_within_budget [OF i1 h r1]) (use assms in auto)
  with u assms(2) show ?thesis by (auto simp: rs)
qed

text \<open>A key whose budget is used up is refused (or the limiter fails); it is never admitted.\<close>

lemma exhausted_never_admitted:
  "inv s \<Longrightarrow> budget \<le> used k t s \<Longrightarrow> fst (allow k t s) \<noteq> Inr True"
  using admit by (metis prod.collapse not_le)

end

end
