(* ===== verification/Poll_Valkey.thy ===== *)
theory Poll_Valkey
  imports Valkey Rate_Limit
begin

text \<open>
  The Poll service's rate limiter, \<open>services/backend/poll/internal/domain/valkey/valkey.go\<close>:
  a fixed-window counter in Valkey. The first increment of a window sets the TTL. The
  limiter satisfies the contract of \<open>Rate_Limit\<close>; the last theorem shows what one failed
  EXPIRE does to it.
\<close>

definition poll_Allow ::
  "int \<Rightarrow> duration \<Rightarrow> string \<Rightarrow> time \<Rightarrow> 'v valkey \<Rightarrow> (vk_error + bool) \<times> 'v valkey" where
  "poll_Allow budget window key now s =
     (case vk_INCR key now s of
        (Inl e, s1) \<Rightarrow> (Inl e, s1)
      | (Inr n, s1) \<Rightarrow>
          (if n = 1 then
             (let secs = window div ns_per_sec;
                  secs = (if secs < 1 then 1 else secs)
              in case vk_EXPIRE key secs now s1 of
                   (Inl e, s2) \<Rightarrow> (Inl e, s2)
                 | (Inr _, s2) \<Rightarrow> (Inr (n \<le> budget), s2))
           else (Inr (n \<le> budget), s1)))"

section \<open>The counter as a fixed window\<close>

definition vk_used :: "string \<Rightarrow> time \<Rightarrow> 'v valkey \<Rightarrow> int" where
  "vk_used k t s = (case vk_live s t k of Some (Num n) \<Rightarrow> n | _ \<Rightarrow> 0)"

definition vk_holds :: "string \<Rightarrow> time \<Rightarrow> 'v valkey \<Rightarrow> bool" where
  "vk_holds k d s \<longleftrightarrow> (\<exists>n e. vk_keys s k = Some (Num n, e) \<and> (e = None \<or> (\<exists>x. e = Some x \<and> d < x)))"

definition vk_counters_ok :: "'v valkey \<Rightarrow> bool" where
  "vk_counters_ok s \<longleftrightarrow> (\<forall>k n e. vk_keys s k = Some (Num n, e) \<longrightarrow> 1 \<le> n)"

definition poll_span :: "duration \<Rightarrow> duration" where
  "poll_span window = max 1 (window div ns_per_sec) * ns_per_sec - 1"

text \<open>What one call does: the counter of the key after it, and nothing else.\<close>

lemma poll_Allow_frame:
  "poll_Allow budget window k t s = (r, s') \<Longrightarrow> k' \<noteq> k \<Longrightarrow> vk_keys s' k' = vk_keys s k'"
  by (auto simp: poll_Allow_def Let_def split: prod.splits sum.splits if_splits
      dest!: vk_frame(1,2) [where k' = k'])

lemma poll_Allow_shape:
  assumes "poll_Allow budget window k t s = (r, s')"
  shows "(\<exists>e. r = Inl e) \<and> vk_keys s' = vk_keys s \<or>
    vk_live s t k = None \<and> r = Inr (1 \<le> budget) \<and>
      vk_keys s' = (vk_keys s)(k \<mapsto> (Num 1, Some (t + max 1 (window div ns_per_sec) * ns_per_sec))) \<or>
    vk_live s t k = None \<and> vk_keys s' = (vk_keys s)(k \<mapsto> (Num 1, None)) \<and> r = Inl ConnFault \<or>
    (\<exists>n. vk_live s t k = Some (Num n) \<and> n \<noteq> 0 \<and> r = Inr (n + 1 \<le> budget) \<and>
      vk_keys s' = (vk_keys s)(k \<mapsto> (Num (n + 1), Option.bind (vk_keys s k) snd))) \<or>
    vk_live s t k = Some (Num 0)"
proof (cases "vk_live s t k")
  case None
  obtain f fs where f: "next_fault (vk_faults s) = (f, fs)" by fastforce
  obtain g gs where g: "next_fault fs = (g, gs)" by fastforce
  show ?thesis
    using assms f g None
    by (cases f; cases g)
      (auto simp: poll_Allow_def vk_defs vk_live_def Let_def max_def)
next
  case (Some v)
  obtain f fs where f: "next_fault (vk_faults s) = (f, fs)" by fastforce
  have l: "vk_live (s\<lparr>vk_faults := fs\<rparr>) t k = Some v"
    using Some by (simp add: vk_live_def)
  show ?thesis
    using assms f Some l
    by (cases f; cases v) (auto simp: poll_Allow_def vk_INCR_def vk_tick_def)
qed

lemma poll_Allow_cases:
  assumes "poll_Allow budget window k t s = (r, s')"
  obtains
    (failed) e where "r = Inl e" "vk_keys s' = vk_keys s"
  | (fresh) secs where "vk_live s t k = None" "secs = max 1 (window div ns_per_sec)"
      "vk_keys s' = (vk_keys s)(k \<mapsto> (Num 1, Some (t + secs * ns_per_sec)))" "r = Inr (1 \<le> budget)"
  | (lost) "vk_live s t k = None" "vk_keys s' = (vk_keys s)(k \<mapsto> (Num 1, None))" "r = Inl ConnFault"
  | (again) n where "vk_live s t k = Some (Num n)" "n \<noteq> 0" "r = Inr (n + 1 \<le> budget)"
      "vk_keys s' = (vk_keys s)(k \<mapsto> (Num (n + 1), Option.bind (vk_keys s k) snd))"
  | (zero) "vk_live s t k = Some (Num 0)"
  using poll_Allow_shape [OF assms] by metis

lemma vk_live_Num: "vk_live s t k = Some (Num n) \<Longrightarrow> \<exists>e. vk_keys s k = Some (Num n, e) \<and> (e = None \<or> (\<exists>x. e = Some x \<and> t < x))"
  by (auto simp: vk_live_def split: option.splits if_splits)

lemma counters_live: "vk_counters_ok s \<Longrightarrow> vk_live s t k = Some (Num n) \<Longrightarrow> 1 \<le> n"
  by (fastforce simp: vk_counters_ok_def dest: vk_live_Num)

text \<open>The limiter laws, one lemma each.\<close>

lemma poll_inv:
  assumes "vk_counters_ok s" and "poll_Allow budget window k t s = (r, s')"
  shows "vk_counters_ok s'"
  using assms(2)
proof (cases rule: poll_Allow_cases)
  case (again n)
  then show ?thesis
    using assms(1) counters_live [OF assms(1), of t k n] by (auto simp: vk_counters_ok_def)
next
  case zero
  then show ?thesis using counters_live [OF assms(1)] by fastforce
qed (use assms(1) in \<open>auto simp: vk_counters_ok_def\<close>)

lemma poll_admit:
  assumes "vk_counters_ok s" and "poll_Allow budget window k t s = (Inr True, s')"
  shows "vk_used k t s < budget \<and> vk_used k t s' = vk_used k t s + 1"
  using assms(2)
proof (cases rule: poll_Allow_cases)
  case (fresh secs)
  then have "0 < secs * ns_per_sec" by (simp add: ns_per_sec_def)
  with fresh show ?thesis by (auto simp: vk_used_def vk_live_def)
next
  case (again n)
  then show ?thesis
    using vk_live_Num [OF again(1)] by (auto simp: vk_used_def vk_live_def)
next
  case zero
  then show ?thesis using counters_live [OF assms(1)] by fastforce
qed simp_all

lemma poll_used_mono:
  assumes "vk_counters_ok s" and "poll_Allow budget window k t s = (r, s')"
  shows "vk_used k t s \<le> vk_used k t s'"
  using assms(2)
proof (cases rule: poll_Allow_cases)
  case (failed e)
  then show ?thesis by (simp add: vk_used_def vk_live_def)
next
  case (fresh secs)
  then show ?thesis by (simp add: vk_used_def vk_live_def)
next
  case lost
  then show ?thesis by (simp add: vk_used_def vk_live_def)
next
  case (again n)
  then show ?thesis
    using vk_live_Num [OF again(1)] by (auto simp: vk_used_def vk_live_def)
next
  case zero
  then show ?thesis using counters_live [OF assms(1)] by fastforce
qed

lemma vk_holds_window:
  assumes "vk_counters_ok s" "vk_holds k d s" "t \<le> t'" "t' \<le> d"
  shows "vk_used k t s \<le> vk_used k t' s"
proof -
  from assms(2) obtain n e where k: "vk_keys s k = Some (Num n, e)"
      and e: "e = None \<or> (\<exists>x. e = Some x \<and> d < x)"
    by (auto simp: vk_holds_def)
  have "1 \<le> n" using assms(1) k by (auto simp: vk_counters_ok_def)
  with k e assms(3,4) show ?thesis
    by (auto simp: vk_used_def vk_live_def)
qed

lemma poll_holds:
  assumes "vk_counters_ok s" "vk_holds k d s" "t \<le> d" "poll_Allow budget window k' t s = (r, s')"
  shows "vk_holds k d s'"
proof (cases "k' = k")
  case False
  with assms(2,4) show ?thesis
    using poll_Allow_frame [OF assms(4), of k] by (auto simp: vk_holds_def)
next
  case True
  from assms(2,3) have live: "\<exists>n. vk_live s t k = Some (Num n)"
    by (auto simp: vk_holds_def vk_live_def)
  from assms(4) show ?thesis
  proof (cases rule: poll_Allow_cases)
    case (again n)
    with assms(2) True show ?thesis by (auto simp: vk_holds_def)
  next
    case zero
    then show ?thesis using counters_live [OF assms(1)] by fastforce
  qed (use live True assms(2) in \<open>auto simp: vk_holds_def\<close>)
qed

lemma poll_opens:
  assumes "vk_counters_ok s" "vk_used k t s = 0" "poll_Allow budget window k t s = (Inr True, s')"
  shows "vk_holds k (t + poll_span window) s'"
  using assms(3)
proof (cases rule: poll_Allow_cases)
  case (again n)
  with assms(2) show ?thesis by (auto simp: vk_used_def)
next
  case zero
  then show ?thesis using counters_live [OF assms(1)] by fastforce
qed (auto simp: vk_holds_def poll_span_def)

interpretation poll_rl: rate_limiter
  "poll_Allow budget window" vk_used vk_holds budget "poll_span window" vk_counters_ok
  for budget window
proof
  fix s :: "'a valkey" and k t r s' k' t'
  assume "poll_Allow budget window k t s = (r, s')" and "k' \<noteq> k"
  then show "vk_used k' t' s' = vk_used k' t' s"
    by (auto simp: vk_used_def vk_live_def dest: poll_Allow_frame)
qed (blast intro: poll_inv poll_admit poll_used_mono vk_holds_window poll_holds poll_opens dest: poll_admit)+

text \<open>Once a call opens the window of a key, Valkey admits at most \<open>budget\<close> of the calls for
  that key that come before the TTL runs out, whatever other keys and faults come in between.\<close>

theorem poll_Allow_budget:
  assumes "vk_counters_ok s" and "vk_used k t s = 0" and "0 \<le> budget"
    and "limiter_run (poll_Allow budget window) ((k, t) # calls) s = (rs, s')"
    and "fst (poll_Allow budget window k t s) = Inr True"
    and "sorted (map snd calls)" and "\<forall>c \<in> set calls. t \<le> snd c \<and> snd c \<le> t + poll_span window"
  shows "admitted k ((k, t) # calls) rs \<le> budget"
  using assms by (rule poll_rl.window_admits_at_most_budget)

definition empty_vk :: "bool list \<Rightarrow> 'v valkey" where
  "empty_vk fs = \<lparr>vk_keys = Map.empty, vk_faults = fs\<rparr>"

lemmas poll_eval = poll_Allow_def vk_defs vk_live_def empty_vk_def ns_per_sec_def

theorem poll_Allow_budget_witness:
  "admitted ''k'' [(''k'', 0), (''k'', 1), (''x'', 1), (''k'', 2)]
     (fst (limiter_run (poll_Allow 2 ns_per_sec)
        [(''k'', 0), (''k'', 1), (''x'', 1), (''k'', 2)] (empty_vk [] :: unit valkey))) \<le> 2"
proof -
  obtain rs s' where run: "limiter_run (poll_Allow 2 ns_per_sec)
      ((''k'', 0) # [(''k'', 1), (''x'', 1), (''k'', 2)]) (empty_vk [] :: unit valkey) = (rs, s')"
    by fastforce
  have "admitted ''k'' ((''k'', 0) # [(''k'', 1), (''x'', 1), (''k'', 2)]) rs \<le> 2"
    by (rule poll_Allow_budget [OF _ _ _ run])
      (simp_all add: vk_counters_ok_def vk_used_def poll_span_def poll_eval)
  with run show ?thesis by simp
qed

text \<open>If EXPIRE fails right after the INCR that opened a window, the counter keeps no TTL and
  the key never gets another window: over all later time, however long, fewer than \<open>budget\<close>
  calls for it are ever admitted again.\<close>

theorem poll_Allow_lost_ttl:
  assumes "vk_counters_ok s" and "vk_live s t k = None" and "vk_faults s = [False, True]"
    and "poll_Allow budget window k t s = (r, s1)"
    and "limiter_run (poll_Allow budget window) calls s1 = (rs, s2)"
    and "sorted (map snd calls)" and "\<forall>c \<in> set calls. t \<le> snd c" and "1 \<le> budget"
  shows "r = Inl ConnFault \<and> admitted k calls rs < budget"
proof -
  have r: "r = Inl ConnFault" and k1: "vk_keys s1 = (vk_keys s)(k \<mapsto> (Num 1, None))"
    using assms(2-4) by (auto simp: poll_Allow_def vk_defs vk_live_def Let_def split: option.splits if_splits)
  have i1: "vk_counters_ok s1" using poll_inv [OF assms(1,4)] .
  obtain d where d: "\<forall>c \<in> set calls. snd c \<le> d"
    using Max_ge [of "snd ` set calls"] by (metis List.finite_set finite_imageI imageI)
  have h: "vk_holds k d s1" by (simp add: vk_holds_def k1)
  have "vk_used k t s1 = 1" by (simp add: vk_used_def vk_live_def k1)
  moreover have "admitted k calls rs = 0 \<or> admitted k calls rs + vk_used k t s1 \<le> budget"
    by (rule poll_rl.burst_within_budget [OF i1 h assms(5)]) (use assms(6,7) d in auto)
  ultimately show ?thesis using r assms(8) by auto
qed

theorem poll_Allow_lost_ttl_witness:
  "fst (poll_Allow 1 ns_per_sec ''k'' 0 (empty_vk [False, True] :: unit valkey)) = Inl ConnFault \<and>
   admitted ''k'' [(''k'', 10 ^ 18)]
     (fst (limiter_run (poll_Allow 1 ns_per_sec) [(''k'', 10 ^ 18)]
       (snd (poll_Allow 1 ns_per_sec ''k'' 0 (empty_vk [False, True] :: unit valkey))))) < 1"
proof -
  obtain r s1 where a: "poll_Allow 1 ns_per_sec ''k'' 0 (empty_vk [False, True] :: unit valkey) = (r, s1)"
    by fastforce
  obtain rs s2 where run: "limiter_run (poll_Allow 1 ns_per_sec) [(''k'', 10 ^ 18)] s1 = (rs, s2)"
    by fastforce
  have "r = Inl ConnFault \<and> admitted ''k'' [(''k'', 10 ^ 18)] rs < 1"
    by (rule poll_Allow_lost_ttl [OF _ _ _ a run])
      (simp_all add: vk_counters_ok_def vk_live_def empty_vk_def)
  with a run show ?thesis by simp
qed

end
