(* ===== verification/Poll_Server.thy ===== *)
theory Poll_Server
  imports Poll_Store Poll_Valkey
begin

text \<open>
  The Poll service's RPC handlers (\<open>services/backend/poll/internal/app/poll_server.go\<close>) and
  its conversions from and to the wire types (\<open>mapping.go\<close>). The ports the server is built
  from are fields of \<open>poll_server\<close>; what they keep is \<open>poll_world\<close>. A call's context
  (\<open>poll_ctx\<close>) carries the subject the interceptor resolved, the metadata, the peer address,
  the clock readings the handler takes in their order, and what the random sources yield.
  A reply renders an instant with RFC 3339, that is to the whole second.
\<close>

section \<open>The wire types and their conversions (mapping.go)\<close>

datatype pb_question_type =
  QT_UNSPECIFIED | QT_TEXT | QT_SINGLE_CHOICE | QT_MULTI_CHOICE | QT_OTHER int

record pb_option =
  pbo_id :: string
  pbo_label :: string

record pb_question =
  pbq_id :: string
  pbq_prompt :: string
  pbq_type :: pb_question_type
  pbq_options :: "pb_option list"
  pbq_required :: bool

record pb_answer =
  pba_question_id :: string
  pba_text :: string
  pba_choice_ids :: "string list"

fun questionTypeFromProto :: "pb_question_type \<Rightarrow> question_type" where
  "questionTypeFromProto QT_TEXT = TypeText"
| "questionTypeFromProto QT_SINGLE_CHOICE = TypeSingleChoice"
| "questionTypeFromProto QT_MULTI_CHOICE = TypeMultiChoice"
| "questionTypeFromProto _ = TypeOther ''''"

fun questionTypeToProto :: "question_type \<Rightarrow> pb_question_type" where
  "questionTypeToProto TypeText = QT_TEXT"
| "questionTypeToProto TypeSingleChoice = QT_SINGLE_CHOICE"
| "questionTypeToProto TypeMultiChoice = QT_MULTI_CHOICE"
| "questionTypeToProto (TypeOther t) = QT_UNSPECIFIED"

definition questionsFromProto :: "pb_question list \<Rightarrow> question list" where
  "questionsFromProto = map (\<lambda>q.
     \<lparr>q_ID = pbq_id q, q_Prompt = pbq_prompt q, q_Type = questionTypeFromProto (pbq_type q),
      q_Options = map (\<lambda>o'. \<lparr>o_ID = pbo_id o', o_Label = pbo_label o'\<rparr>) (pbq_options q),
      q_Required = pbq_required q\<rparr>)"

definition questionsToProto :: "question list \<Rightarrow> pb_question list" where
  "questionsToProto = map (\<lambda>q.
     \<lparr>pbq_id = q_ID q, pbq_prompt = q_Prompt q, pbq_type = questionTypeToProto (q_Type q),
      pbq_options = map (\<lambda>o'. \<lparr>pbo_id = o_ID o', pbo_label = o_Label o'\<rparr>) (q_Options q),
      pbq_required = q_Required q\<rparr>)"

definition answersFromProto :: "pb_answer list \<Rightarrow> answer list" where
  "answersFromProto = map (\<lambda>a.
     \<lparr>a_QuestionID = pba_question_id a, a_Text = pba_text a, a_ChoiceIDs = pba_choice_ids a\<rparr>)"

definition answersToProto :: "answer list \<Rightarrow> pb_answer list" where
  "answersToProto = map (\<lambda>a.
     \<lparr>pba_question_id = a_QuestionID a, pba_text = a_Text a, pba_choice_ids = a_ChoiceIDs a\<rparr>)"

section \<open>The server\<close>

record tuning =
  tn_DefaultTTL :: duration
  tn_PerTokenBudget :: int
  tn_PerTokenWindow :: duration
  tn_PerIPBudget :: int
  tn_PerIPWindow :: duration
  tn_AllowedOrigin :: string
  tn_LinkPath :: string

type_synonym 'r poll_limiter = "int \<Rightarrow> duration \<Rightarrow> string \<Rightarrow> time \<Rightarrow> 'r \<Rightarrow> (vk_error + bool) \<times> 'r"

text \<open>\<open>sv_pub\<close> yields whether publishing failed; \<open>sv_H\<close> is the hex form of SHA-256.\<close>

record ('s, 'r, 'p) poll_server =
  sv_repo :: "'s poll_repo"
  sv_rl :: "'r poll_limiter"
  sv_pub :: "poll_completed \<Rightarrow> 'p \<Rightarrow> bool \<times> 'p"
  sv_tune :: tuning
  sv_H :: "string \<Rightarrow> string"

record ('s, 'r, 'p) poll_world =
  pw_repo :: 's
  pw_rl :: 'r
  pw_pub :: 'p

record poll_ctx =
  cx_subject :: "string option"
  cx_md :: "md option"
  cx_peer :: "string option"
  cx_now :: time
  cx_now2 :: time
  cx_rl_now :: time
  cx_rand :: "string option"
  cx_uuid :: string

definition poll_NewServer ::
  "'s poll_repo \<Rightarrow> 'r poll_limiter \<Rightarrow> (poll_completed \<Rightarrow> 'p \<Rightarrow> bool \<times> 'p) \<Rightarrow> (string \<Rightarrow> string) \<Rightarrow>
   tuning \<Rightarrow> ('s, 'r, 'p) poll_server" where
  "poll_NewServer repo rl pub H tune =
     (let t1 = (if tn_DefaultTTL tune \<le> 0
                then tune\<lparr>tn_DefaultTTL := 7 * 24 * 3600 * ns_per_sec\<rparr> else tune);
          t2 = (if tn_PerTokenBudget t1 \<le> 0 then t1\<lparr>tn_PerTokenBudget := 5\<rparr> else t1);
          t3 = (if tn_PerTokenWindow t2 \<le> 0 then t2\<lparr>tn_PerTokenWindow := 3600 * ns_per_sec\<rparr> else t2);
          t4 = (if tn_PerIPBudget t3 \<le> 0 then t3\<lparr>tn_PerIPBudget := 30\<rparr> else t3);
          t5 = (if tn_PerIPWindow t4 \<le> 0 then t4\<lparr>tn_PerIPWindow := 3600 * ns_per_sec\<rparr> else t4);
          t6 = (if tn_LinkPath t5 = [] then t5\<lparr>tn_LinkPath := ''/p/{token}''\<rparr> else t5)
      in \<lparr>sv_repo = repo, sv_rl = rl, sv_pub = pub, sv_tune = t6, sv_H = H\<rparr>)"

datatype poll_detail = Text string | QuestionErr question_error | AnswerErr answer_error

section \<open>Helpers\<close>

definition poll_notFound :: "poll_detail status" where
  "poll_notFound = Status NotFound (Text ''not found'')"

definition SubjectFrom :: "poll_ctx \<Rightarrow> string option" where
  "SubjectFrom cx = (case cx_subject cx of Some s \<Rightarrow> if s \<noteq> [] then Some s else None | None \<Rightarrow> None)"

definition fetchable :: "time \<Rightarrow> linked_poll \<Rightarrow> bool" where
  "fetchable now lp =
     (if lp_LinkRevoked lp then False
      else if lp_LinkExpiresAt lp < now then False
      else if p_Status (lp_Poll lp) \<noteq> StatusActive then False
      else if p_ExpiresAt (lp_Poll lp) < now then False
      else True)"

definition poll_limit ::
  "('s, 'r, 'p) poll_server \<Rightarrow> time \<Rightarrow> string \<Rightarrow> int \<Rightarrow> duration \<Rightarrow> ('s, 'r, 'p) poll_world \<Rightarrow>
   (poll_detail status + unit) \<times> ('s, 'r, 'p) poll_world" where
  "poll_limit sv now key budget window w =
     (let (r, rl') = sv_rl sv budget window key now (pw_rl w);
          w' = w\<lparr>pw_rl := rl'\<rparr>
      in case r of
           Inl e \<Rightarrow> (Inl (Status Internal (Text ''rate limiter unavailable'')), w')
         | Inr allowed \<Rightarrow>
             (if \<not> allowed then (Inl (Status ResourceExhausted (Text ''rate limit exceeded'')), w')
              else (Inr (), w')))"

definition buildLinkURL :: "tuning \<Rightarrow> string \<Rightarrow> string" where
  "buildLinkURL tune raw =
     (let path = Replace1 (tn_LinkPath tune) ''{token}'' raw
      in TrimRight1 (tn_AllowedOrigin tune) (CHR ''/'') @ path)"

definition firstHeader :: "md \<Rightarrow> string \<Rightarrow> string" where
  "firstHeader m key = (case md_get m key of [] \<Rightarrow> [] | v # _ \<Rightarrow> v)"

definition peer_ip :: "poll_ctx \<Rightarrow> string" where
  "peer_ip cx = (case cx_peer cx of Some a \<Rightarrow> a | None \<Rightarrow> ''unknown'')"

definition clientIP :: "poll_ctx \<Rightarrow> string" where
  "clientIP cx =
     (case cx_md cx of
        None \<Rightarrow> peer_ip cx
      | Some m \<Rightarrow>
          (let v = firstHeader m ''x-forwarded-for'' in
           if v \<noteq> [] then
             (case IndexByte v (CHR '','') of Some i \<Rightarrow> TrimSpace (take i v) | None \<Rightarrow> TrimSpace v)
           else let v = firstHeader m ''x-real-ip'' in
           if v \<noteq> [] then v else peer_ip cx))"

definition fingerprint :: "(string \<Rightarrow> string) \<Rightarrow> poll_ctx \<Rightarrow> string \<Rightarrow> string" where
  "fingerprint H cx ip =
     (let ua = (case cx_md cx of
                  None \<Rightarrow> []
                | Some m \<Rightarrow>
                    (let ua = firstHeader m ''grpcgateway-user-agent''
                     in if ua = [] then firstHeader m ''user-agent'' else ua))
      in take 16 (H (ip @ ''|'' @ ua)))"

text \<open>The whole second an RFC 3339 rendering shows.\<close>

definition rfc3339_second :: "time \<Rightarrow> int" where
  "rfc3339_second t = t div ns_per_sec"

section \<open>CreatePoll\<close>

record create_req =
  cr_title :: string
  cr_surprise_request_id :: string
  cr_questions :: "pb_question list"
  cr_ttl_seconds :: int

record create_rsp =
  cs_poll_id :: string
  cs_link_token :: string
  cs_link_url :: string
  cs_expires_at :: int

definition poll_ttl :: "tuning \<Rightarrow> int \<Rightarrow> duration" where
  "poll_ttl tune ttl_seconds =
     (if 0 < ttl_seconds then wrap64 (ttl_seconds * ns_per_sec) else tn_DefaultTTL tune)"

definition CreatePoll ::
  "('s, 'r, 'p) poll_server \<Rightarrow> poll_ctx \<Rightarrow> create_req \<Rightarrow> ('s, 'r, 'p) poll_world \<Rightarrow>
   (poll_detail status + create_rsp) \<times> ('s, 'r, 'p) poll_world" where
  "CreatePoll sv cx rq w =
     (case SubjectFrom cx of
        None \<Rightarrow> (Inl (Status Unauthenticated (Text ''authentication required'')), w)
      | Some owner \<Rightarrow>
        if TrimSpace (cr_title rq) = []
        then (Inl (Status InvalidArgument (Text ''title is required'')), w) else
        let questions = questionsFromProto (cr_questions rq) in
        case ValidateQuestions questions of
          Inl e \<Rightarrow> (Inl (Status InvalidArgument (QuestionErr e)), w)
        | Inr _ \<Rightarrow>
          let ttl = poll_ttl (sv_tune sv) (cr_ttl_seconds rq);
              now = cx_now cx;
              expires = now + ttl in
          case token_New (sv_H sv) (cx_rand cx) of
            None \<Rightarrow> (Inl (Status Internal (Text ''could not mint token'')), w)
          | Some (raw, hash) \<Rightarrow>
            let p = \<lparr>p_ID = cx_uuid cx, p_OwnerUserID = owner,
                     p_SurpriseRequestID = cr_surprise_request_id rq, p_Title = cr_title rq,
                     p_Questions = questions, p_Status = StatusActive, p_ExpiresAt = expires,
                     p_CreatedAt = now\<rparr>;
                (c, s') = repo_CreatePoll (sv_repo sv) p hash expires (pw_repo w);
                w' = w\<lparr>pw_repo := s'\<rparr> in
            case c of
              Inl e \<Rightarrow> (Inl (Status Internal (Text ''could not create poll'')), w')
            | Inr _ \<Rightarrow>
                (Inr \<lparr>cs_poll_id = p_ID p, cs_link_token = raw,
                      cs_link_url = buildLinkURL (sv_tune sv) raw,
                      cs_expires_at = rfc3339_second expires\<rparr>, w'))"

section \<open>GetPollByToken\<close>

record fetch_rsp =
  fs_poll_id :: string
  fs_title :: string
  fs_questions :: "pb_question list"

definition repo_status :: "repo_error \<Rightarrow> poll_detail status" where
  "repo_status e =
     (if e = ErrNotFound then poll_notFound else Status Internal (Text ''lookup failed''))"

definition GetPollByToken ::
  "('s, 'r, 'p) poll_server \<Rightarrow> poll_ctx \<Rightarrow> string \<Rightarrow> ('s, 'r, 'p) poll_world \<Rightarrow>
   (poll_detail status + fetch_rsp) \<times> ('s, 'r, 'p) poll_world" where
  "GetPollByToken sv cx raw w =
     (if raw = [] then (Inl poll_notFound, w) else
      case poll_limit sv (cx_rl_now cx) (''rl:fetch:ip:'' @ clientIP cx)
             (tn_PerIPBudget (sv_tune sv)) (tn_PerIPWindow (sv_tune sv)) w of
        (Inl e, w1) \<Rightarrow> (Inl e, w1)
      | (Inr _, w1) \<Rightarrow>
        (case repo_GetByTokenHash (sv_repo sv) (token_Hash (sv_H sv) raw) (pw_repo w1) of
           (Inl e, s') \<Rightarrow> (Inl (repo_status e), w1\<lparr>pw_repo := s'\<rparr>)
         | (Inr lp, s') \<Rightarrow>
             (if \<not> fetchable (cx_now cx) lp then (Inl poll_notFound, w1\<lparr>pw_repo := s'\<rparr>)
              else (Inr \<lparr>fs_poll_id = p_ID (lp_Poll lp), fs_title = p_Title (lp_Poll lp),
                         fs_questions = questionsToProto (p_Questions (lp_Poll lp))\<rparr>,
                    w1\<lparr>pw_repo := s'\<rparr>))))"

section \<open>SubmitResponse\<close>

text \<open>The first clock reading is the one of \<open>fetchable\<close>, the second the completion time.\<close>

definition SubmitResponse ::
  "('s, 'r, 'p) poll_server \<Rightarrow> poll_ctx \<Rightarrow> string \<Rightarrow> pb_answer list \<Rightarrow> ('s, 'r, 'p) poll_world \<Rightarrow>
   (poll_detail status + unit) \<times> ('s, 'r, 'p) poll_world" where
  "SubmitResponse sv cx raw pbas w =
     (if raw = [] then (Inl poll_notFound, w) else
      let th = token_Hash (sv_H sv) raw;
          ip = clientIP cx in
      case poll_limit sv (cx_rl_now cx) (''rl:submit:token:'' @ th)
             (tn_PerTokenBudget (sv_tune sv)) (tn_PerTokenWindow (sv_tune sv)) w of
        (Inl e, w1) \<Rightarrow> (Inl e, w1)
      | (Inr _, w1) \<Rightarrow>
        (case poll_limit sv (cx_rl_now cx) (''rl:submit:ip:'' @ ip)
                (tn_PerIPBudget (sv_tune sv)) (tn_PerIPWindow (sv_tune sv)) w1 of
           (Inl e, w2) \<Rightarrow> (Inl e, w2)
         | (Inr _, w2) \<Rightarrow>
           (case repo_GetByTokenHash (sv_repo sv) th (pw_repo w2) of
              (Inl e, s3) \<Rightarrow> (Inl (repo_status e), w2\<lparr>pw_repo := s3\<rparr>)
            | (Inr lp, s3) \<Rightarrow>
                if \<not> fetchable (cx_now cx) lp then (Inl poll_notFound, w2\<lparr>pw_repo := s3\<rparr>) else
                let answers = answersFromProto pbas in
                case ValidateAnswers (p_Questions (lp_Poll lp)) answers of
                  Inl e \<Rightarrow> (Inl (Status InvalidArgument (AnswerErr e)), w2\<lparr>pw_repo := s3\<rparr>)
                | Inr _ \<Rightarrow>
                  let now = cx_now2 cx in
                  case repo_CompleteWithResponse (sv_repo sv) (p_ID (lp_Poll lp)) answers
                         (fingerprint (sv_H sv) cx ip) now s3 of
                    (Inl e, s4) \<Rightarrow>
                      (Inl (if e = ErrAlreadyCompleted then poll_notFound
                            else Status Internal (Text ''could not record response'')),
                       w2\<lparr>pw_repo := s4\<rparr>)
                  | (Inr rid, s4) \<Rightarrow>
                      let ev = \<lparr>ev_PollID = p_ID (lp_Poll lp),
                                ev_SurpriseRequestID = p_SurpriseRequestID (lp_Poll lp),
                                ev_OwnerUserID = p_OwnerUserID (lp_Poll lp), ev_CompletedAt = now\<rparr>
                      in (Inr (), w2\<lparr>pw_repo := s4, pw_pub := snd (sv_pub sv ev (pw_pub w2))\<rparr>))))"

section \<open>GetResponses\<close>

record pb_response =
  pbr_id :: string
  pbr_answers :: "pb_answer list"
  pbr_submitted_at :: int

definition responsesToProto :: "response list \<Rightarrow> pb_response list" where
  "responsesToProto = map (\<lambda>r.
     \<lparr>pbr_id = r_ID r, pbr_answers = answersToProto (r_Answers r),
      pbr_submitted_at = rfc3339_second (r_SubmittedAt r)\<rparr>)"

definition GetResponses ::
  "('s, 'r, 'p) poll_server \<Rightarrow> poll_ctx \<Rightarrow> string \<Rightarrow> ('s, 'r, 'p) poll_world \<Rightarrow>
   (poll_detail status + pb_response list) \<times> ('s, 'r, 'p) poll_world" where
  "GetResponses sv cx poll_id w =
     (case SubjectFrom cx of
        None \<Rightarrow> (Inl (Status Unauthenticated (Text ''authentication required'')), w)
      | Some owner \<Rightarrow>
        if poll_id = [] then (Inl (Status InvalidArgument (Text ''poll_id is required'')), w) else
        case repo_GetPollByID (sv_repo sv) poll_id (pw_repo w) of
          (Inl e, s1) \<Rightarrow> (Inl (repo_status e), w\<lparr>pw_repo := s1\<rparr>)
        | (Inr p, s1) \<Rightarrow>
          (if p_OwnerUserID p \<noteq> owner then (Inl poll_notFound, w\<lparr>pw_repo := s1\<rparr>) else
           case repo_GetResponses (sv_repo sv) poll_id s1 of
             (Inl e, s2) \<Rightarrow> (Inl (Status Internal (Text ''could not read responses'')), w\<lparr>pw_repo := s2\<rparr>)
           | (Inr rs, s2) \<Rightarrow> (Inr (responsesToProto rs), w\<lparr>pw_repo := s2\<rparr>)))"

section \<open>Sequences of calls\<close>

datatype poll_call =
    CallCreate poll_ctx create_req
  | CallFetch poll_ctx string
  | CallSubmit poll_ctx string "pb_answer list"
  | CallResponses poll_ctx string

datatype poll_outcome =
    OutCreate "poll_detail status + create_rsp"
  | OutFetch "poll_detail status + fetch_rsp"
  | OutSubmit "poll_detail status + unit"
  | OutResponses "poll_detail status + pb_response list"

fun poll_step ::
  "('s, 'r, 'p) poll_server \<Rightarrow> poll_call \<Rightarrow> ('s, 'r, 'p) poll_world \<Rightarrow>
   poll_outcome \<times> ('s, 'r, 'p) poll_world" where
  "poll_step sv (CallCreate cx rq) w = (let (r, w') = CreatePoll sv cx rq w in (OutCreate r, w'))"
| "poll_step sv (CallFetch cx raw) w = (let (r, w') = GetPollByToken sv cx raw w in (OutFetch r, w'))"
| "poll_step sv (CallSubmit cx raw as) w = (let (r, w') = SubmitResponse sv cx raw as w in (OutSubmit r, w'))"
| "poll_step sv (CallResponses cx pid) w = (let (r, w') = GetResponses sv cx pid w in (OutResponses r, w'))"

fun poll_run ::
  "('s, 'r, 'p) poll_server \<Rightarrow> poll_call list \<Rightarrow> ('s, 'r, 'p) poll_world \<Rightarrow>
   poll_outcome list \<times> ('s, 'r, 'p) poll_world" where
  "poll_run sv [] w = ([], w)"
| "poll_run sv (c # cs) w =
     (let (r, w1) = poll_step sv c w; (rs, w2) = poll_run sv cs w1 in (r # rs, w2))"

text \<open>A call that recorded a submission through the link whose hash is \<open>h\<close>.\<close>

fun submitted :: "(string \<Rightarrow> string) \<Rightarrow> string \<Rightarrow> poll_call \<times> poll_outcome \<Rightarrow> bool" where
  "submitted H h (CallSubmit cx raw as, OutSubmit (Inr u)) = (H raw = h)"
| "submitted H h _ = False"

section \<open>What the handlers do to the ledger\<close>

text \<open>The poll a link of hash \<open>h\<close> leads to at \<open>now\<close>, if it may be answered.\<close>

definition open_poll :: "poll_ledger \<Rightarrow> time \<Rightarrow> string \<Rightarrow> poll option" where
  "open_poll l now h =
     (case lg_links l h of
        None \<Rightarrow> None
      | Some (i, revoked, e) \<Rightarrow>
          (case lg_polls l i of
             None \<Rightarrow> None
           | Some p \<Rightarrow>
               if \<not> revoked \<and> now \<le> e \<and> p_Status p = StatusActive \<and> now \<le> p_ExpiresAt p
               then Some p else None))"

text \<open>The link leads to a completed poll.\<close>

definition consumed :: "poll_ledger \<Rightarrow> string \<Rightarrow> bool" where
  "consumed l h \<longleftrightarrow> (\<exists>i a b p. lg_links l h = Some (i, a, b) \<and> lg_polls l i = Some p \<and>
     p_Status p = StatusCompleted)"

text \<open>The link leads to poll \<open>p\<close> under id \<open>i\<close>.\<close>

definition leads_to :: "poll_ledger \<Rightarrow> string \<Rightarrow> string \<Rightarrow> bool \<times> time \<Rightarrow> poll \<Rightarrow> bool" where
  "leads_to l h i ab p \<longleftrightarrow> lg_links l h = Some (i, ab) \<and> lg_polls l i = Some p"

text \<open>
  The specification as a state machine on the ledger: a call reads, opens a new poll behind a
  new link, or consumes the link \<open>h\<close> by completing the active poll it leads to.
\<close>

inductive ledger_moves :: "string option \<Rightarrow> poll_ledger \<Rightarrow> poll_ledger \<Rightarrow> bool" where
  reads: "ledger_moves None l l"
| opens: "lg_polls l i = None \<Longrightarrow> lg_links l h = None \<Longrightarrow>
    ledger_moves None l (l\<lparr>lg_polls := (lg_polls l)(i \<mapsto> p), lg_links := (lg_links l)(h \<mapsto> (i, False, e))\<rparr>)"
| consumes: "lg_links l h = Some (p_ID p, False, b) \<Longrightarrow> lg_polls l (p_ID p) = Some p \<Longrightarrow>
    p_Status p = StatusActive \<Longrightarrow> ledger_moves (Some h) l (ledger_complete (p_ID p) p r l)"

lemma consumed_moves:
  "ledger_moves m l l' \<Longrightarrow> consumed l h \<Longrightarrow> consumed l' h \<and> m \<noteq> Some h"
proof (induction rule: ledger_moves.induct)
  case (opens l i h' p e)
  then obtain j a b q where "lg_links l h = Some (j, a, b)" "lg_polls l j = Some q"
    "p_Status q = StatusCompleted" by (auto simp: consumed_def)
  moreover from this opens have "h \<noteq> h'" "j \<noteq> i" by auto
  ultimately show ?case by (simp add: consumed_def)
qed (auto simp: consumed_def ledger_complete_def)

lemma moves_consume: "ledger_moves (Some h) l l' \<Longrightarrow> consumed l' h"
  by (erule ledger_moves.cases) (auto simp: consumed_def ledger_complete_def)

lemma leads_to_moves:
  "ledger_moves m l l' \<Longrightarrow> leads_to l h i ab p \<Longrightarrow> m \<noteq> Some h \<Longrightarrow>
   (\<And>g j a b. lg_links l g = Some (i, a, b) \<Longrightarrow> g = h) \<Longrightarrow> leads_to l' h i ab p"
  by (induction rule: ledger_moves.induct) (auto simp: leads_to_def ledger_complete_def)

lemma open_poll_fetchable:
  "lg_links l h = Some (i, lp_LinkRevoked lp, lp_LinkExpiresAt lp) \<Longrightarrow> lg_polls l i = Some (lp_Poll lp) \<Longrightarrow>
   open_poll l now h = (if fetchable now lp then Some (lp_Poll lp) else None)"
  by (auto simp: open_poll_def fetchable_def)

lemma poll_limit_cases:
  "poll_limit sv now key b win w = (r, w') \<Longrightarrow>
   pw_repo w' = pw_repo w \<and> pw_pub w' = pw_pub w \<and>
   (r = Inr () \<or> r = Inl (Status Internal (Text ''rate limiter unavailable'')) \<or>
    r = Inl (Status ResourceExhausted (Text ''rate limit exceeded'')))"
  by (auto simp: poll_limit_def Let_def split: prod.splits sum.splits if_splits)

lemma repo_status_cases [simp]:
  "repo_status e = poll_notFound \<longleftrightarrow> e = ErrNotFound"
  "scode (repo_status e) = OK \<longleftrightarrow> False"
  by (auto simp: repo_status_def poll_notFound_def)

context poll_repo_contract
begin

lemma fetch_refines:
  assumes inv: "inv (pw_repo w)" and sv: "sv_repo sv = repo"
    and run: "GetPollByToken sv cx raw w = (r, w')"
  shows "inv (pw_repo w') \<and> ledger (pw_repo w') = ledger (pw_repo w) \<and> pw_pub w' = pw_pub w \<and>
    (case r of
       Inr f \<Rightarrow> raw \<noteq> [] \<and> (\<exists>p. open_poll (ledger (pw_repo w)) (cx_now cx) (sv_H sv raw) = Some p \<and>
         f = \<lparr>fs_poll_id = p_ID p, fs_title = p_Title p, fs_questions = questionsToProto (p_Questions p)\<rparr>)
     | Inl st \<Rightarrow>
         st = poll_notFound \<and>
           (raw = [] \<or> open_poll (ledger (pw_repo w)) (cx_now cx) (sv_H sv raw) = None) \<or>
         scode st \<in> {Internal, ResourceExhausted})"
proof (cases "raw = []")
  case True
  with run inv show ?thesis by (auto simp: GetPollByToken_def)
next
  case raw: False
  obtain l w1 where l: "poll_limit sv (cx_rl_now cx) (''rl:fetch:ip:'' @ clientIP cx)
      (tn_PerIPBudget (sv_tune sv)) (tn_PerIPWindow (sv_tune sv)) w = (l, w1)" by fastforce
  note lim = poll_limit_cases [OF l]
  obtain g s' where g: "repo_GetByTokenHash repo (sv_H sv raw) (pw_repo w1) = (g, s')" by fastforce
  have same: "ledger s' = ledger (pw_repo w) \<and> inv s'"
    using token_read [OF _ g] inv lim by auto
  show ?thesis
  proof (cases l)
    case (Inl st)
    with run raw l lim inv show ?thesis by (auto simp: GetPollByToken_def)
  next
    case l': (Inr u)
    show ?thesis
    proof (cases g)
      case (Inl e)
      have "e = ErrNotFound \<Longrightarrow> lg_links (ledger (pw_repo w)) (sv_H sv raw) = None"
        using token_miss [of "pw_repo w1"] g Inl lim inv by auto
      with run raw l l' g Inl same lim sv show ?thesis
        by (auto simp: GetPollByToken_def token_Hash_def open_poll_def repo_status_def)
    next
      case (Inr lp)
      have "inv (pw_repo w1)" using lim inv by simp
      from token_ok [OF this g [unfolded Inr]] obtain i where
        "lg_links (ledger (pw_repo w)) (sv_H sv raw) = Some (i, lp_LinkRevoked lp, lp_LinkExpiresAt lp)"
        "lg_polls (ledger (pw_repo w)) i = Some (lp_Poll lp)"
        using lim by auto
      from open_poll_fetchable [OF this] run raw l l' g Inr same lim sv show ?thesis
        by (auto simp: GetPollByToken_def token_Hash_def split: if_splits)
    qed
  qed
qed

lemma submit_refines:
  assumes inv: "inv (pw_repo w)" and sv: "sv_repo sv = repo"
    and run: "SubmitResponse sv cx raw pbas w = (r, w')"
  shows "inv (pw_repo w') \<and>
    (case r of
       Inr _ \<Rightarrow> (\<exists>p rid b. open_poll (ledger (pw_repo w)) (cx_now cx) (sv_H sv raw) = Some p \<and>
         lg_links (ledger (pw_repo w)) (sv_H sv raw) = Some (p_ID p, False, b) \<and>
         lg_polls (ledger (pw_repo w)) (p_ID p) = Some p \<and> p_Status p = StatusActive \<and>
         ValidateAnswers (p_Questions p) (answersFromProto pbas) = Inr () \<and>
         ledger (pw_repo w') = ledger_complete (p_ID p) p
           \<lparr>r_ID = rid, r_Answers = answersFromProto pbas, r_SubmittedAt = cx_now2 cx\<rparr> (ledger (pw_repo w)) \<and>
         pw_pub w' = snd (sv_pub sv \<lparr>ev_PollID = p_ID p, ev_SurpriseRequestID = p_SurpriseRequestID p,
           ev_OwnerUserID = p_OwnerUserID p, ev_CompletedAt = cx_now2 cx\<rparr> (pw_pub w)))
     | Inl st \<Rightarrow> ledger (pw_repo w') = ledger (pw_repo w) \<and> pw_pub w' = pw_pub w)"
proof (cases "raw = []")
  case True
  with run inv show ?thesis by (auto simp: SubmitResponse_def)
next
  case raw: False
  let ?h = "sv_H sv raw"
  obtain l w1 where l: "poll_limit sv (cx_rl_now cx) (''rl:submit:token:'' @ ?h)
      (tn_PerTokenBudget (sv_tune sv)) (tn_PerTokenWindow (sv_tune sv)) w = (l, w1)" by fastforce
  obtain m w2 where m: "poll_limit sv (cx_rl_now cx) (''rl:submit:ip:'' @ clientIP cx)
      (tn_PerIPBudget (sv_tune sv)) (tn_PerIPWindow (sv_tune sv)) w1 = (m, w2)" by fastforce
  note lim = poll_limit_cases [OF l] poll_limit_cases [OF m]
  obtain g s3 where g: "repo_GetByTokenHash repo ?h (pw_repo w2) = (g, s3)" by fastforce
  have inv2: "inv (pw_repo w2)" using lim inv by simp
  from token_read [OF this g] lim have same: "ledger s3 = ledger (pw_repo w)" "inv s3" by auto
  show ?thesis
  proof (cases "\<exists>lp. l = Inr () \<and> m = Inr () \<and> g = Inr lp \<and> fetchable (cx_now cx) lp \<and>
      ValidateAnswers (p_Questions (lp_Poll lp)) (answersFromProto pbas) = Inr ()")
    case False
    with run raw l m g lim sv inv same show ?thesis
      by (auto simp: SubmitResponse_def token_Hash_def Let_def split: sum.splits if_splits)
  next
    case True
    then obtain lp where lp: "l = Inr ()" "m = Inr ()" "g = Inr lp" "fetchable (cx_now cx) lp"
      "ValidateAnswers (p_Questions (lp_Poll lp)) (answersFromProto pbas) = Inr ()" by blast
    obtain d s4 where d: "repo_CompleteWithResponse repo (p_ID (lp_Poll lp)) (answersFromProto pbas)
        (fingerprint (sv_H sv) cx (clientIP cx)) (cx_now2 cx) s3 = (d, s4)" by fastforce
    from token_ok [OF inv2 g [unfolded lp(3)]] lim obtain i where
      i: "lg_links (ledger (pw_repo w)) ?h = Some (i, lp_LinkRevoked lp, lp_LinkExpiresAt lp)"
        "lg_polls (ledger (pw_repo w)) i = Some (lp_Poll lp)" by auto
    have op: "open_poll (ledger (pw_repo w)) (cx_now cx) ?h = Some (lp_Poll lp)"
      using open_poll_fetchable [OF i] lp(4) by simp
    have id: "p_ID (lp_Poll lp) = i" "canon i = Some i" using poll_ids [OF inv i(2)] by auto
    have act: "p_Status (lp_Poll lp) = StatusActive" and "\<not> lp_LinkRevoked lp"
      using lp(4) by (auto simp: fetchable_def split: if_splits)
    have w': "w' = w2\<lparr>pw_repo := s4\<rparr> \<and> (\<exists>st. r = Inl st)" if "d = Inl e" for e
      using run raw l m g lp d that sv
      by (auto simp: SubmitResponse_def token_Hash_def Let_def)
    show ?thesis
    proof (cases d)
      case (Inl e)
      with w' complete_err [OF same(2) d [unfolded Inl]] complete_inv [OF same(2) d] same lim
      show ?thesis by auto
    next
      case (Inr rid)
      then have "r = Inr () \<and> pw_repo w' = s4 \<and> pw_pub w' = snd (sv_pub sv
          \<lparr>ev_PollID = p_ID (lp_Poll lp), ev_SurpriseRequestID = p_SurpriseRequestID (lp_Poll lp),
           ev_OwnerUserID = p_OwnerUserID (lp_Poll lp), ev_CompletedAt = cx_now2 cx\<rparr> (pw_pub w))"
        using run raw l m g lp d sv lim
        by (auto simp: SubmitResponse_def token_Hash_def Let_def)
      with complete_ok [OF same(2) d [unfolded Inr]] complete_inv [OF same(2) d] same id i op lp(5) act
      show ?thesis
        using \<open>\<not> lp_LinkRevoked lp\<close> by auto
    qed
  qed
qed

lemma responses_refines:
  assumes inv: "inv (pw_repo w)" and sv: "sv_repo sv = repo"
    and run: "GetResponses sv cx pid w = (r, w')"
  shows "inv (pw_repo w') \<and> ledger (pw_repo w') = ledger (pw_repo w) \<and> pw_pub w' = pw_pub w \<and>
    (case r of
       Inr rs \<Rightarrow> (\<exists>i p. canon pid = Some i \<and> lg_polls (ledger (pw_repo w)) i = Some p \<and>
         cx_subject cx = Some (p_OwnerUserID p) \<and> p_OwnerUserID p \<noteq> [] \<and>
         rs = responsesToProto (lg_resps (ledger (pw_repo w)) i))
     | Inl st \<Rightarrow> st = poll_notFound \<longrightarrow> (\<exists>i. canon pid = Some i \<and>
         (\<forall>p. lg_polls (ledger (pw_repo w)) i = Some p \<longrightarrow> cx_subject cx \<noteq> Some (p_OwnerUserID p))))"
proof (cases "SubjectFrom cx = None \<or> pid = []")
  case True
  with run inv show ?thesis
    by (cases "SubjectFrom cx") (auto simp: GetResponses_def poll_notFound_def)
next
  case False
  then obtain owner where o: "SubjectFrom cx = Some owner" "pid \<noteq> []" by auto
  then have sub: "cx_subject cx = Some owner" "owner \<noteq> []"
    by (auto simp: SubjectFrom_def split: option.splits if_splits)
  obtain g s1 where g: "repo_GetPollByID repo pid (pw_repo w) = (g, s1)" by fastforce
  obtain v s2 where v: "repo_GetResponses repo pid s1 = (v, s2)" by fastforce
  note r1 = poll_read [OF inv g]
  then have r2: "ledger s2 = ledger s1 \<and> inv s2" using resp_read [OF _ v] by simp
  show ?thesis
  proof (cases g)
    case (Inl e)
    have "e = ErrNotFound \<Longrightarrow> \<exists>i. canon pid = Some i \<and> lg_polls (ledger (pw_repo w)) i = None"
      using poll_miss [OF inv] g Inl by simp
    with run o g Inl r1 sv show ?thesis by (auto simp: GetResponses_def)
  next
    case (Inr p)
    from poll_ok [OF inv g [unfolded Inr]] obtain i where
      i: "canon pid = Some i" "lg_polls (ledger (pw_repo w)) i = Some p" by auto
    have "v = Inr rs \<Longrightarrow> rs = lg_resps (ledger (pw_repo w)) i" for rs
      using resp_ok [of s1 pid rs s2] v r1 i by auto
    with run o sub g Inr r1 r2 sv v i show ?thesis
      by (cases v; cases "p_OwnerUserID p = owner") (auto simp: GetResponses_def poll_notFound_def)
  qed
qed

lemma create_refines:
  assumes inv: "inv (pw_repo w)" and sv: "sv_repo sv = repo"
    and run: "CreatePoll sv cx rq w = (r, w')"
  shows "inv (pw_repo w') \<and> pw_pub w' = pw_pub w \<and>
    (case r of
       Inr c \<Rightarrow> (\<exists>i b p. canon (cx_uuid cx) = Some i \<and> cx_rand cx = Some b \<and>
         cs_poll_id c = cx_uuid cx \<and> cs_link_token c = RawURLEncode b \<and>
         lg_polls (ledger (pw_repo w)) i = None \<and>
         lg_links (ledger (pw_repo w)) (sv_H sv (cs_link_token c)) = None \<and>
         wf_questions (questionsFromProto (cr_questions rq)) \<and>
         cx_subject cx = Some (p_OwnerUserID p) \<and> p_ID p = i \<and> p_Title p = cr_title rq \<and>
         p_Questions p = questionsFromProto (cr_questions rq) \<and> p_Status p = StatusActive \<and>
         p_ExpiresAt p = cx_now cx + poll_ttl (sv_tune sv) (cr_ttl_seconds rq) \<and>
         ledger (pw_repo w') = (ledger (pw_repo w))
           \<lparr>lg_polls := (lg_polls (ledger (pw_repo w)))(i \<mapsto> p),
            lg_links := (lg_links (ledger (pw_repo w)))
              (sv_H sv (cs_link_token c) \<mapsto> (i, False, p_ExpiresAt p))\<rparr>)
     | Inl st \<Rightarrow> ledger (pw_repo w') = ledger (pw_repo w) \<and> st \<noteq> poll_notFound)"
proof (cases "\<exists>owner b. SubjectFrom cx = Some owner \<and> TrimSpace (cr_title rq) \<noteq> [] \<and>
    ValidateQuestions (questionsFromProto (cr_questions rq)) = Inr () \<and> cx_rand cx = Some b")
  case False
  with run inv show ?thesis
    by (auto simp: CreatePoll_def Let_def token_New_def poll_notFound_def
        split: option.splits if_splits sum.splits)
next
  case True
  then obtain owner b where c: "SubjectFrom cx = Some owner" "TrimSpace (cr_title rq) \<noteq> []"
    "ValidateQuestions (questionsFromProto (cr_questions rq)) = Inr ()" "cx_rand cx = Some b" by blast
  have sub: "cx_subject cx = Some owner"
    using c(1) by (auto simp: SubjectFrom_def split: option.splits if_splits)
  let ?e = "cx_now cx + poll_ttl (sv_tune sv) (cr_ttl_seconds rq)"
  let ?p = "\<lparr>p_ID = cx_uuid cx, p_OwnerUserID = owner,
     p_SurpriseRequestID = cr_surprise_request_id rq, p_Title = cr_title rq,
     p_Questions = questionsFromProto (cr_questions rq), p_Status = StatusActive,
     p_ExpiresAt = ?e, p_CreatedAt = cx_now cx\<rparr>"
  obtain d s1 where d: "repo_CreatePoll repo ?p (sv_H sv (RawURLEncode b)) ?e (pw_repo w) = (d, s1)"
    by fastforce
  have wf: "wf_questions (questionsFromProto (cr_questions rq))"
    using c(3) by (rule questions_accepted)
  have inv1: "inv s1" using create_inv [OF inv _ d] by simp
  show ?thesis
  proof (cases d)
    case (Inl e)
    with create_err [OF inv d [unfolded Inl]] run c d sv inv1 show ?thesis
      by (auto simp: CreatePoll_def Let_def token_New_def token_Hash_def poll_notFound_def)
  next
    case (Inr u)
    from create_ok [OF inv d [unfolded Inr]] obtain i where
      i: "canon (cx_uuid cx) = Some i" "lg_polls (ledger (pw_repo w)) i = None"
        "lg_links (ledger (pw_repo w)) (sv_H sv (RawURLEncode b)) = None"
        "ledger s1 = (ledger (pw_repo w))\<lparr>lg_polls := (lg_polls (ledger (pw_repo w)))(i \<mapsto> ?p\<lparr>p_ID := i\<rparr>),
          lg_links := (lg_links (ledger (pw_repo w)))(sv_H sv (RawURLEncode b) \<mapsto> (i, False, ?e))\<rparr>"
      by auto
    have "r = Inr \<lparr>cs_poll_id = cx_uuid cx, cs_link_token = RawURLEncode b,
        cs_link_url = buildLinkURL (sv_tune sv) (RawURLEncode b),
        cs_expires_at = rfc3339_second ?e\<rparr>" and w': "w' = w\<lparr>pw_repo := s1\<rparr>"
      using run c d Inr sv by (auto simp: CreatePoll_def Let_def token_New_def token_Hash_def)
    with i inv1 sub wf c(4) show ?thesis
      by (auto intro!: exI [of _ "?p\<lparr>p_ID := i\<rparr>"])
  qed
qed

text \<open>Every call is a move of the specification, and the outcome says which.\<close>

lemma step_moves:
  assumes inv: "inv (pw_repo w)" and sv: "sv_repo sv = repo" and run: "poll_step sv c w = (out, w')"
  shows "inv (pw_repo w') \<and> (\<exists>m. ledger_moves m (ledger (pw_repo w)) (ledger (pw_repo w')) \<and>
    (\<forall>h. submitted (sv_H sv) h (c, out) \<longleftrightarrow> m = Some h))"
proof (cases c)
  case (CallCreate cx rq)
  obtain r w1 where r: "CreatePoll sv cx rq w = (r, w1)" by fastforce
  with run CallCreate have o: "out = OutCreate r" "w' = w1" by auto
  note cr = create_refines [OF inv sv r]
  have "ledger_moves None (ledger (pw_repo w)) (ledger (pw_repo w'))"
  proof (cases r)
    case (Inl st)
    with cr o show ?thesis by (auto intro: reads)
  next
    case (Inr k)
    with cr o show ?thesis by (auto intro: opens)
  qed
  with cr o CallCreate show ?thesis by auto
next
  case (CallFetch cx raw)
  obtain r w1 where r: "GetPollByToken sv cx raw w = (r, w1)" by fastforce
  with fetch_refines [OF inv sv r] run CallFetch show ?thesis by (auto intro: reads)
next
  case (CallSubmit cx raw as)
  obtain r w1 where r: "SubmitResponse sv cx raw as w = (r, w1)" by fastforce
  with run CallSubmit have o: "out = OutSubmit r" "w' = w1" by auto
  note sr = submit_refines [OF inv sv r]
  show ?thesis
  proof (cases r)
    case (Inl st)
    with sr o CallSubmit show ?thesis by (auto intro: reads)
  next
    case (Inr k)
    with sr o have "ledger_moves (Some (sv_H sv raw)) (ledger (pw_repo w)) (ledger (pw_repo w'))"
      by (auto intro: consumes)
    with sr o CallSubmit Inr show ?thesis by auto
  qed
next
  case (CallResponses cx pid)
  obtain r w1 where r: "GetResponses sv cx pid w = (r, w1)" by fastforce
  with responses_refines [OF inv sv r] run CallResponses show ?thesis by (auto intro: reads)
qed

lemma consumed_step:
  assumes "inv (pw_repo w)" and "sv_repo sv = repo" and "poll_step sv c w = (out, w')"
  shows "consumed (ledger (pw_repo w)) h \<Longrightarrow>
      consumed (ledger (pw_repo w')) h \<and> \<not> submitted (sv_H sv) h (c, out)"
    and "submitted (sv_H sv) h (c, out) \<Longrightarrow> consumed (ledger (pw_repo w')) h"
proof -
  obtain m where m: "ledger_moves m (ledger (pw_repo w)) (ledger (pw_repo w'))"
      "submitted (sv_H sv) h (c, out) \<longleftrightarrow> m = Some h"
    using step_moves [OF assms] by blast
  show "consumed (ledger (pw_repo w)) h \<Longrightarrow>
      consumed (ledger (pw_repo w')) h \<and> \<not> submitted (sv_H sv) h (c, out)"
    using consumed_moves [OF m(1)] m(2) by blast
  show "submitted (sv_H sv) h (c, out) \<Longrightarrow> consumed (ledger (pw_repo w')) h"
    using m moves_consume by simp
qed

lemma consumed_run:
  "inv (pw_repo w) \<Longrightarrow> sv_repo sv = repo \<Longrightarrow> poll_run sv cs w = (outs, w') \<Longrightarrow>
   consumed (ledger (pw_repo w)) h \<Longrightarrow> filter (submitted (sv_H sv) h) (zip cs outs) = []"
proof (induction cs arbitrary: w outs)
  case Nil
  then show ?case by simp
next
  case (Cons c cs)
  obtain o1 w1 where s1: "poll_step sv c w = (o1, w1)" by fastforce
  obtain os w2 where s2: "poll_run sv cs w1 = (os, w2)" by fastforce
  from Cons.prems s1 s2 have "outs = o1 # os" "w2 = w'" by auto
  with Cons.IH [OF _ Cons.prems(2), of w1 os] Cons.prems s2
    step_moves [OF Cons.prems(1,2) s1] consumed_step(1) [OF Cons.prems(1,2) s1]
  show ?case by auto
qed

lemma submitted_at_most_once:
  "inv (pw_repo w) \<Longrightarrow> sv_repo sv = repo \<Longrightarrow> poll_run sv cs w = (outs, w') \<Longrightarrow>
   length (filter (submitted (sv_H sv) h) (zip cs outs)) \<le> 1"
proof (induction cs arbitrary: w outs)
  case Nil
  then show ?case by simp
next
  case (Cons c cs)
  obtain o1 w1 where s1: "poll_step sv c w = (o1, w1)" by fastforce
  obtain os w2 where s2: "poll_run sv cs w1 = (os, w2)" by fastforce
  from Cons.prems s1 s2 have o: "outs = o1 # os" "w2 = w'" by auto
  have inv1: "inv (pw_repo w1)" using step_moves [OF Cons.prems(1,2) s1] by simp
  show ?case
  proof (cases "submitted (sv_H sv) h (c, o1)")
    case True
    from consumed_run [OF inv1 Cons.prems(2) s2 consumed_step(2) [OF Cons.prems(1,2) s1 True]] o True
    show ?thesis by simp
  next
    case False
    with Cons.IH [OF inv1 Cons.prems(2) s2 [unfolded o(2)]] o show ?thesis by simp
  qed
qed

lemma leads_to_step:
  assumes "inv (pw_repo w)" and "sv_repo sv = repo" and "poll_step sv c w = (out, w')"
    and "leads_to (ledger (pw_repo w)) h i ab p" and "\<not> submitted (sv_H sv) h (c, out)"
  shows "leads_to (ledger (pw_repo w')) h i ab p"
proof -
  from assms(4) obtain a b where ab: "lg_links (ledger (pw_repo w)) h = Some (i, a, b)"
      "lg_polls (ledger (pw_repo w)) i = Some p"
    by (cases ab) (auto simp: leads_to_def)
  have "\<And>g j a' b'. lg_links (ledger (pw_repo w)) g = Some (i, a', b') \<Longrightarrow> g = h"
    using one_link [OF assms(1) ab(1)] by blast
  with step_moves [OF assms(1-3)] leads_to_moves assms(4,5) show ?thesis by blast
qed

lemma leads_to_run:
  "inv (pw_repo w) \<Longrightarrow> sv_repo sv = repo \<Longrightarrow> poll_run sv cs w = (outs, w') \<Longrightarrow>
   leads_to (ledger (pw_repo w)) h i ab p \<Longrightarrow> filter (submitted (sv_H sv) h) (zip cs outs) = [] \<Longrightarrow>
   inv (pw_repo w') \<and> leads_to (ledger (pw_repo w')) h i ab p"
proof (induction cs arbitrary: w outs)
  case Nil
  then show ?case by simp
next
  case (Cons c cs)
  obtain o1 w1 where s1: "poll_step sv c w = (o1, w1)" by fastforce
  obtain os w2 where s2: "poll_run sv cs w1 = (os, w2)" by fastforce
  from Cons.prems s1 s2 have o: "outs = o1 # os" "w2 = w'" by auto
  have "\<not> submitted (sv_H sv) h (c, o1)" and f: "filter (submitted (sv_H sv) h) (zip cs os) = []"
    using Cons.prems(5) o by (auto split: if_splits)
  with leads_to_step [OF Cons.prems(1,2) s1 Cons.prems(4)] step_moves [OF Cons.prems(1,2) s1]
  show ?case using Cons.IH [OF _ Cons.prems(2) s2 [unfolded o(2)] _ f] by blast
qed

text \<open>A link just created is served, whatever happens, until it is consumed or expires.\<close>

lemma created_then_served:
  assumes inv: "inv (pw_repo w)" and sv: "sv_repo sv = repo"
    and create: "CreatePoll sv cx rq w = (Inr k, w1)" and tok: "cs_link_token k \<noteq> []"
    and run: "poll_run sv cs w1 = (outs, w2)"
    and unused: "filter (submitted (sv_H sv) (sv_H sv (cs_link_token k))) (zip cs outs) = []"
    and fetch: "GetPollByToken sv cx' (cs_link_token k) w2 = (r, w3)"
    and time: "cx_now cx' \<le> cx_now cx + poll_ttl (sv_tune sv) (cr_ttl_seconds rq)"
  shows "case r of
      Inr f \<Rightarrow> canon (cs_poll_id k) = Some (fs_poll_id f) \<and> fs_title f = cr_title rq \<and>
        wf_questions (questionsFromProto (cr_questions rq)) \<and>
        fs_questions f = questionsToProto (questionsFromProto (cr_questions rq))
    | Inl st \<Rightarrow> scode st \<in> {Internal, ResourceExhausted}"
proof -
  from create_refines [OF inv sv create] obtain i p where
    inv1: "inv (pw_repo w1)" and k: "canon (cx_uuid cx) = Some i" "cs_poll_id k = cx_uuid cx" and
    p: "p_ID p = i" "p_Title p = cr_title rq" "p_Questions p = questionsFromProto (cr_questions rq)"
      "p_Status p = StatusActive" "p_ExpiresAt p = cx_now cx + poll_ttl (sv_tune sv) (cr_ttl_seconds rq)"
      "wf_questions (questionsFromProto (cr_questions rq))" and
    led: "ledger (pw_repo w1) = (ledger (pw_repo w))
      \<lparr>lg_polls := (lg_polls (ledger (pw_repo w)))(i \<mapsto> p),
       lg_links := (lg_links (ledger (pw_repo w)))(sv_H sv (cs_link_token k) \<mapsto> (i, False, p_ExpiresAt p))\<rparr>"
    by auto
  have "leads_to (ledger (pw_repo w1)) (sv_H sv (cs_link_token k)) i (False, p_ExpiresAt p) p"
    by (simp add: leads_to_def led)
  from leads_to_run [OF inv1 sv run this unused]
  have inv2: "inv (pw_repo w2)"
    and "leads_to (ledger (pw_repo w2)) (sv_H sv (cs_link_token k)) i (False, p_ExpiresAt p) p" by auto
  then have "open_poll (ledger (pw_repo w2)) (cx_now cx') (sv_H sv (cs_link_token k)) = Some p"
    using p time by (simp add: leads_to_def open_poll_def)
  with fetch_refines [OF inv2 sv fetch] tok k p show ?thesis
    by (cases r) auto
qed

text \<open>A poll created with a lifetime that wrapped round is never served.\<close>

lemma created_expired:
  assumes inv: "inv (pw_repo w)" and sv: "sv_repo sv = repo"
    and create: "CreatePoll sv cx rq w = (Inr k, w1)"
    and late: "poll_ttl (sv_tune sv) (cr_ttl_seconds rq) < 0" and after: "cx_now cx \<le> cx_now cx'"
  shows "\<forall>f. fst (GetPollByToken sv cx' (cs_link_token k) w1) \<noteq> Inr f"
proof -
  obtain r w2 where r: "GetPollByToken sv cx' (cs_link_token k) w1 = (r, w2)" by fastforce
  from create_refines [OF inv sv create] have inv1: "inv (pw_repo w1)"
    and "open_poll (ledger (pw_repo w1)) (cx_now cx') (sv_H sv (cs_link_token k)) = None"
    using late after by (auto simp: open_poll_def)
  with fetch_refines [OF inv1 sv r] r show ?thesis by (cases r) auto
qed

end

lemma question_roundtrip:
  assumes "questionTypeFromProto t \<noteq> TypeOther ''''"
  shows "questionTypeToProto (questionTypeFromProto t) = t"
  using assms by (cases t) auto

lemma questions_roundtrip:
  assumes "wf_questions (questionsFromProto qs)"
  shows "questionsToProto (questionsFromProto qs) = qs"
proof -
  have "questionTypeToProto (questionTypeFromProto (pbq_type q)) = pbq_type q" if "q \<in> set qs" for q
    by (rule question_roundtrip)
      (use assms that in \<open>auto simp: wf_questions_def questionsFromProto_def wf_question_def choice_type_def\<close>)
  moreover have "map (\<lambda>x. \<lparr>pbo_id = pbo_id x, pbo_label = pbo_label x\<rparr>) os = os" for os :: "pb_option list"
    by (induction os) simp_all
  ultimately show ?thesis
    by (auto simp: questionsToProto_def questionsFromProto_def comp_def intro!: map_idI pb_question.equality)
qed

section \<open>An example\<close>

definition ex_up :: "string \<Rightarrow> string option" where
  "ex_up x = (if x = [] then None else Some x)"

definition ex_tuning :: tuning where
  "ex_tuning = \<lparr>tn_DefaultTTL = 100, tn_PerTokenBudget = 5, tn_PerTokenWindow = ns_per_sec,
     tn_PerIPBudget = 30, tn_PerIPWindow = ns_per_sec, tn_AllowedOrigin = ''https://w'',
     tn_LinkPath = ''/p/{token}''\<rparr>"

definition ex_server :: "(poll_pg, unit valkey, poll_completed list) poll_server" where
  "ex_server = poll_NewServer (pg_repo ex_up) poll_Allow (\<lambda>ev evs. (False, evs @ [ev])) (\<lambda>x. x) ex_tuning"

definition ex_world :: "(poll_pg, unit valkey, poll_completed list) poll_world" where
  "ex_world = \<lparr>pw_repo = \<lparr>pg_polls = [], pg_links = [], pg_resps = [], pg_uuids = [''l1'', ''r1''],
       pg_faults = []\<rparr>, pw_rl = empty_vk [], pw_pub = []\<rparr>"

definition ex_ctx :: "time \<Rightarrow> poll_ctx" where
  "ex_ctx t = \<lparr>cx_subject = Some ''u'', cx_md = None, cx_peer = Some ''ip'', cx_now = t, cx_now2 = t,
     cx_rl_now = t, cx_rand = Some ''abc'', cx_uuid = ''P''\<rparr>"

definition ex_create :: "int \<Rightarrow> create_req" where
  "ex_create ttl = \<lparr>cr_title = ''a'', cr_surprise_request_id = [],
     cr_questions = [\<lparr>pbq_id = ''q_txt'', pbq_prompt = ''Pick one'', pbq_type = QT_TEXT,
       pbq_options = [], pbq_required = True\<rparr>], cr_ttl_seconds = ttl\<rparr>"

definition ex_answers :: "pb_answer list" where
  "ex_answers = [\<lparr>pba_question_id = ''q_txt'', pba_text = ''the beach'', pba_choice_ids = []\<rparr>]"

lemma ex_server_sel [simp]:
  "sv_repo ex_server = pg_repo ex_up" "sv_rl ex_server = poll_Allow" "sv_H ex_server = (\<lambda>x. x)"
  "sv_tune ex_server = ex_tuning" "sv_pub ex_server = (\<lambda>ev evs. (False, evs @ [ev]))"
  by (simp_all add: ex_server_def poll_NewServer_def ex_tuning_def ns_per_sec_def)

lemma ex_world_inv [simp]: "pg_inv ex_up (pw_repo ex_world)"
  by (simp add: pg_inv_def ex_world_def uuid_parse_ok_def ex_up_def)

definition ex_token :: string where
  "ex_token = RawURLEncode ''abc''"

lemma ex_token_ne [simp]: "ex_token \<noteq> []"
  by (simp add: ex_token_def)

definition ex_row :: "time \<Rightarrow> poll_row" where
  "ex_row e = \<lparr>pr_id = ''P'', pr_owner_user_id = ''u'', pr_surprise_request_id = None, pr_title = ''a'',
     pr_questions = questionsFromProto (cr_questions (ex_create 0)), pr_status = StatusActive,
     pr_expires_at = e, pr_created_at = 0\<rparr>"

definition ex_link :: "time \<Rightarrow> link_row" where
  "ex_link e = \<lparr>lr_id = ''l1'', lr_poll_id = ''P'', lr_token_hash = ex_token, lr_expires_at = e,
     lr_revoked = False, lr_created_at = 0\<rparr>"

definition ex_created :: "time \<Rightarrow> (poll_pg, unit valkey, poll_completed list) poll_world" where
  "ex_created e = ex_world\<lparr>pw_repo := \<lparr>pg_polls = [ex_row e], pg_links = [ex_link e], pg_resps = [],
     pg_uuids = [''r1''], pg_faults = []\<rparr>\<rparr>"

lemmas ex_defs = ex_ctx_def ex_create_def ex_row_def ex_link_def ex_created_def ex_world_def
  ex_up_def ex_tuning_def

lemma ex_create_ok:
  "CreatePoll ex_server (ex_ctx 0) (ex_create ttl) ex_world =
     (Inr \<lparr>cs_poll_id = ''P'', cs_link_token = ex_token, cs_link_url = buildLinkURL ex_tuning ex_token,
        cs_expires_at = rfc3339_second (poll_ttl ex_tuning ttl)\<rparr>, ex_created (poll_ttl ex_tuning ttl))"
  by (simp add: CreatePoll_def SubjectFrom_def ex_ctx_def ex_create_def questionsFromProto_def
      ValidateQuestions_def token_New_def token_Hash_def pg_CreatePoll_def pg_tick_def pg_uuid_def
      ex_world_def ex_created_def ex_row_def ex_link_def ex_up_def nullable_def ex_token_def Let_def)

lemma ex_created_inv [simp]: "pg_inv ex_up (pw_repo (ex_created e))"
  by (simp add: pg_inv_def ex_created_def uuid_parse_ok_def ex_up_def ex_row_def ex_link_def)

lemma ex_fetch_ok:
  "fst (GetPollByToken ex_server (ex_ctx 1) ex_token (ex_created 100)) =
     Inr \<lparr>fs_poll_id = ''P'', fs_title = ''a'', fs_questions = cr_questions (ex_create 0)\<rparr>"
  by (simp add: GetPollByToken_def poll_limit_def poll_eval clientIP_def peer_ip_def ex_ctx_def
      ex_created_def ex_row_def ex_link_def ex_tuning_def ex_world_def pg_GetByTokenHash_def pg_tick_def
      token_Hash_def fetchable_def row_to_poll_def coalesce_empty_def ex_create_def questionsFromProto_def
      questionsToProto_def)

lemma ex_submit_ok:
  "fst (SubmitResponse ex_server (ex_ctx 1) ex_token ex_answers (ex_created 100)) = Inr ()"
  by (simp add: SubmitResponse_def poll_limit_def poll_eval clientIP_def peer_ip_def ex_ctx_def
      ex_created_def ex_row_def ex_link_def ex_tuning_def ex_world_def pg_GetByTokenHash_def pg_tick_def
      token_Hash_def fetchable_def row_to_poll_def coalesce_empty_def ex_create_def questionsFromProto_def
      ex_answers_def answersFromProto_def ValidateAnswers_def byID_map_def check_answer_def optionSet_def
      pg_CompleteWithResponse_def ex_up_def pg_uuid_def Let_def)

section \<open>The service on Postgres\<close>

text \<open>Reading a poll through its link is what the ledger says. The poll's content is served
  only through an existing link, not revoked and not past its expiry, to a poll that is still
  active and not expired; a missing, revoked, expired or used link all get the very same NotFound;
  any other refusal is the limiter's or an internal error; and nothing changes in the store.\<close>

theorem poll_fetch_refines:
  assumes "pg_inv up (pw_repo w)" and "sv_repo sv = pg_repo up"
    and "GetPollByToken sv cx raw w = (r, w')"
  shows "pg_ledger (pw_repo w') = pg_ledger (pw_repo w) \<and>
    (case r of
       Inr f \<Rightarrow> (\<exists>p. open_poll (pg_ledger (pw_repo w)) (cx_now cx) (sv_H sv raw) = Some p \<and>
         f = \<lparr>fs_poll_id = p_ID p, fs_title = p_Title p, fs_questions = questionsToProto (p_Questions p)\<rparr>)
     | Inl st \<Rightarrow> st = poll_notFound \<and>
           (raw = [] \<or> open_poll (pg_ledger (pw_repo w)) (cx_now cx) (sv_H sv raw) = None) \<or>
         scode st \<in> {Internal, ResourceExhausted})"
  using pg.fetch_refines [OF assms] by (auto split: sum.splits)

theorem poll_fetch_refines_witness:
  "open_poll (pg_ledger (pw_repo (ex_created 100))) 1 ex_token \<noteq> None"
proof -
  obtain w' where "GetPollByToken ex_server (ex_ctx 1) ex_token (ex_created 100) =
      (Inr \<lparr>fs_poll_id = ''P'', fs_title = ''a'', fs_questions = cr_questions (ex_create 0)\<rparr>, w')"
    using ex_fetch_ok by (metis prod.collapse)
  from poll_fetch_refines [OF ex_created_inv _ this] show ?thesis
    by (auto simp: ex_ctx_def)
qed

text \<open>C21: a submission either leaves the polls, links and responses as they were and publishes
  nothing, or it went through an open link with answers that pass \<open>ValidateAnswers\<close>, completed
  that poll, stored exactly those answers as its only response at the handler's clock reading, and
  handed the matching PollCompleted event to the publisher. No fault of the store or of the
  limiter leaves anything in between.\<close>

theorem poll_submit_refines:
  assumes "pg_inv up (pw_repo w)" and "sv_repo sv = pg_repo up"
    and "SubmitResponse sv cx raw pbas w = (r, w')"
  shows "case r of
      Inr _ \<Rightarrow> (\<exists>p rid. open_poll (pg_ledger (pw_repo w)) (cx_now cx) (sv_H sv raw) = Some p \<and>
         ValidateAnswers (p_Questions p) (answersFromProto pbas) = Inr () \<and>
         pg_ledger (pw_repo w') = ledger_complete (p_ID p) p
           \<lparr>r_ID = rid, r_Answers = answersFromProto pbas, r_SubmittedAt = cx_now2 cx\<rparr> (pg_ledger (pw_repo w)) \<and>
         pw_pub w' = snd (sv_pub sv \<lparr>ev_PollID = p_ID p, ev_SurpriseRequestID = p_SurpriseRequestID p,
           ev_OwnerUserID = p_OwnerUserID p, ev_CompletedAt = cx_now2 cx\<rparr> (pw_pub w)))
    | Inl _ \<Rightarrow> pg_ledger (pw_repo w') = pg_ledger (pw_repo w) \<and> pw_pub w' = pw_pub w"
  using pg.submit_refines [OF assms] by (auto split: sum.splits)

theorem poll_submit_refines_witness:
  "\<exists>w'. SubmitResponse ex_server (ex_ctx 1) ex_token ex_answers (ex_created 100) = (Inr (), w') \<and>
     map ev_PollID (pw_pub w') = [''P'']"
proof -
  obtain w' where w': "SubmitResponse ex_server (ex_ctx 1) ex_token ex_answers (ex_created 100) = (Inr (), w')"
    using ex_submit_ok by (metis prod.collapse)
  from poll_submit_refines [OF ex_created_inv _ this]
  have "\<exists>p. open_poll (pg_ledger (pw_repo (ex_created 100))) 1 ex_token = Some p \<and>
      map ev_PollID (pw_pub w') = [p_ID p]"
    by (auto simp: ex_ctx_def ex_created_def ex_world_def)
  moreover have "\<forall>p. open_poll (pg_ledger (pw_repo (ex_created 100))) 1 ex_token = Some p \<longrightarrow> p_ID p = ''P''"
    by (auto simp: open_poll_def pg_ledger_def ex_created_def ex_row_def ex_link_def row_to_poll_def)
  ultimately show ?thesis using w' by auto
qed

text \<open>C17: whatever calls are served in whatever order, with whatever failures, a link records at
  most one submission.\<close>

theorem poll_submitted_once:
  assumes "pg_inv up (pw_repo w)" and "sv_repo sv = pg_repo up"
    and "poll_run sv calls w = (outs, w')"
  shows "length (filter (submitted (sv_H sv) h) (zip calls outs)) \<le> 1"
  using assms by (rule pg.submitted_at_most_once)

theorem poll_submitted_once_witness:
  "length (filter (submitted (\<lambda>x. x) ex_token)
     (zip [CallSubmit (ex_ctx 1) ex_token ex_answers, CallSubmit (ex_ctx 2) ex_token ex_answers]
        (fst (poll_run ex_server [CallSubmit (ex_ctx 1) ex_token ex_answers,
           CallSubmit (ex_ctx 2) ex_token ex_answers] (ex_created 100))))) = 1"
proof -
  let ?cs = "[CallSubmit (ex_ctx 1) ex_token ex_answers, CallSubmit (ex_ctx 2) ex_token ex_answers]"
  obtain outs w' where run: "poll_run ex_server ?cs (ex_created 100) = (outs, w')" by fastforce
  have "length (filter (submitted (sv_H ex_server) ex_token) (zip ?cs outs)) \<le> 1"
    by (rule poll_submitted_once [OF ex_created_inv _ run]) simp
  moreover have "1 \<le> length (filter (submitted (\<lambda>x. x) ex_token) (zip ?cs outs))"
    using run ex_submit_ok by (auto split: prod.splits)
  ultimately show ?thesis using run by simp
qed

text \<open>C30: a poll just created can be read. As long as nobody has answered it through the link
  returned by CreatePoll and until the lifetime is over, a fetch with that token returns the title
  and the questions exactly as they were sent, or an internal or rate limit error, but never
  NotFound, whatever other calls were served in between.\<close>

theorem poll_created_then_served:
  assumes "pg_inv up (pw_repo w)" and "sv_repo sv = pg_repo up"
    and "CreatePoll sv cx rq w = (Inr k, w1)" and "cs_link_token k \<noteq> []"
    and "poll_run sv calls w1 = (outs, w2)"
    and "filter (submitted (sv_H sv) (sv_H sv (cs_link_token k))) (zip calls outs) = []"
    and "GetPollByToken sv cx' (cs_link_token k) w2 = (r, w3)"
    and "cx_now cx' \<le> cx_now cx + poll_ttl (sv_tune sv) (cr_ttl_seconds rq)"
  shows "case r of
      Inr f \<Rightarrow> up (cs_poll_id k) = Some (fs_poll_id f) \<and> fs_title f = cr_title rq \<and>
        fs_questions f = cr_questions rq
    | Inl st \<Rightarrow> scode st \<in> {Internal, ResourceExhausted}"
  using pg.created_then_served [OF assms] by (auto simp: questions_roundtrip split: sum.splits)

theorem poll_created_then_served_witness:
  "case fst (GetPollByToken ex_server (ex_ctx 50) ex_token (ex_created 100)) of
      Inr f \<Rightarrow> fs_questions f = cr_questions (ex_create 0)
    | Inl st \<Rightarrow> scode st \<in> {Internal, ResourceExhausted}"
proof -
  have c: "CreatePoll ex_server (ex_ctx 0) (ex_create 0) ex_world =
     (Inr \<lparr>cs_poll_id = ''P'', cs_link_token = ex_token, cs_link_url = buildLinkURL ex_tuning ex_token,
        cs_expires_at = rfc3339_second 100\<rparr>, ex_created 100)"
    using ex_create_ok [of 0] by (simp add: poll_ttl_def ex_tuning_def)
  obtain r w3 where f: "GetPollByToken ex_server (ex_ctx 50)
      (cs_link_token \<lparr>cs_poll_id = ''P'', cs_link_token = ex_token,
        cs_link_url = buildLinkURL ex_tuning ex_token, cs_expires_at = rfc3339_second 100\<rparr>)
      (ex_created 100) = (r, w3)" by fastforce
  have "case r of
      Inr f \<Rightarrow> ex_up ''P'' = Some (fs_poll_id f) \<and> fs_title f = cr_title (ex_create 0) \<and>
        fs_questions f = cr_questions (ex_create 0)
    | Inl st \<Rightarrow> scode st \<in> {Internal, ResourceExhausted}"
    using poll_created_then_served [OF ex_world_inv _ c _ _ _ f, of "[]"]
    by (cases r) (auto simp: poll_ttl_def ex_create_def ex_ctx_def ex_tuning_def)
  with f show ?thesis by (auto split: sum.splits)
qed

text \<open>C31: only the owner reads responses, and nobody else can probe for a poll. GetResponses answers a caller
  without a subject Unauthenticated. The owner of a poll gets exactly the responses recorded for it, of which
  there is at most one, or Internal when a statement fails, and never NotFound. Everybody else gets the same
  answer for a poll of another user as for a poll that does not exist, whatever is stored: NotFound, or
  Internal when the lookup fails (which an id that is not a uuid makes certain).\<close>

theorem poll_responses_owner_only:
  assumes "pg_inv up (pw_repo w)" and "sv_repo sv = pg_repo up"
    and "GetResponses sv cx pid w = (r, w')"
  shows "case SubjectFrom cx of
      None \<Rightarrow> r = Inl (Status Unauthenticated (Text ''authentication required''))
    | Some u \<Rightarrow>
        if pid = [] then r = Inl (Status InvalidArgument (Text ''poll_id is required''))
        else case up pid of
          None \<Rightarrow> r = Inl (Status Internal (Text ''lookup failed''))
        | Some i \<Rightarrow>
            if \<exists>p. lg_polls (pg_ledger (pw_repo w)) i = Some p \<and> p_OwnerUserID p = u then
              (\<exists>m. r = Inl (Status Internal (Text m)) \<and> True \<in> set (pg_faults (pw_repo w))) \<or>
              r = Inr (responsesToProto (lg_resps (pg_ledger (pw_repo w)) i)) \<and>
                length (lg_resps (pg_ledger (pw_repo w)) i) \<le> 1
            else r = Inl (if fst (pg_tick (pw_repo w)) then Status Internal (Text ''lookup failed'') else poll_notFound)"
proof -
  obtain f s1 where 1: "pg_tick (pw_repo w) = (f, s1)" by fastforce
  obtain f2 s2 where 2: "pg_tick s1 = (f2, s2)" by fastforce
  have flt: "f \<longrightarrow> True \<in> set (pg_faults (pw_repo w))" "f2 \<longrightarrow> True \<in> set (pg_faults (pw_repo w))"
    using 1 2 by (auto simp: pg_tick_def elim!: next_fault.elims split: prod.splits)
  have same: "pg_polls s1 = pg_polls (pw_repo w)" using pg_tick_same [OF 1] by (simp add: same_tables_def)
  show ?thesis
  proof (cases "SubjectFrom cx")
    case None
    then show ?thesis using assms(3) by (simp add: GetResponses_def)
  next
    case (Some u)
    show ?thesis
    proof (cases "pid = []")
      case True
      then show ?thesis using assms(3) Some by (simp add: GetResponses_def)
    next
      case False
      show ?thesis
      proof (cases "up pid")
        case None
        then have "repo_GetPollByID (sv_repo sv) pid (pw_repo w) = (Inl ErrOther, s1)"
          by (simp add: assms(2) pg_GetPollByID_def 1)
        then show ?thesis using assms(3) Some False None by (simp add: GetResponses_def repo_status_def)
      next
        case i: (Some i)
        let ?own = "\<exists>p. lg_polls (pg_ledger (pw_repo w)) i = Some p \<and> p_OwnerUserID p = u"
        have l: "lg_polls (pg_ledger (pw_repo w)) i = map_option row_to_poll (find (\<lambda>r. pr_id r = i) (pg_polls (pw_repo w)))"
          by (simp add: pg_ledger_def)
        obtain g t where g: "repo_GetPollByID (sv_repo sv) pid (pw_repo w) = (g, t)" by fastforce
        have gt: "t = s1" "g = (if f then Inl ErrOther else case lg_polls (pg_ledger (pw_repo w)) i of
            None \<Rightarrow> Inl ErrNotFound | Some p \<Rightarrow> Inr p)"
          using g i by (auto simp: assms(2) pg_GetPollByID_def 1 l same split: option.splits if_splits)
        show ?thesis
        proof (cases ?own)
          case False
          have "r = Inl (if f then Status Internal (Text ''lookup failed'') else poll_notFound)"
          proof (cases g)
            case (Inl e)
            then have "e = (if f then ErrOther else ErrNotFound)" using gt(2) by (auto split: if_splits option.splits)
            then show ?thesis using assms(3) Some \<open>pid \<noteq> []\<close> g Inl by (auto simp: GetResponses_def repo_status_def)
          next
            case (Inr p)
            then have "\<not> f" "p_OwnerUserID p \<noteq> u" using gt(2) False by (auto split: if_splits option.splits)
            then show ?thesis using assms(3) Some \<open>pid \<noteq> []\<close> g Inr by (auto simp: GetResponses_def)
          qed
          then show ?thesis using Some \<open>pid \<noteq> []\<close> i False 1 by auto
        next
          case True
          show ?thesis
          proof (cases r)
            case (Inr rs)
            with pg.responses_refines [OF assms] i have "rs = responsesToProto (lg_resps (pg_ledger (pw_repo w)) i)" by auto
            moreover have "length (lg_resps (pg_ledger (pw_repo w)) i) \<le> 1" by (rule pg.one_response [OF assms(1)])
            ultimately show ?thesis using Some \<open>pid \<noteq> []\<close> i True Inr by simp
          next
            case (Inl st)
            from True obtain p where p: "lg_polls (pg_ledger (pw_repo w)) i = Some p" "p_OwnerUserID p = u" by blast
            have "(f \<or> f2) \<and> (\<exists>m. st = Status Internal (Text m))"
            proof (cases f)
              case True
              then show ?thesis using assms(3) Some \<open>pid \<noteq> []\<close> g gt Inl by (auto simp: GetResponses_def repo_status_def)
            next
              case f: False
              obtain v t2 where v: "repo_GetResponses (sv_repo sv) pid s1 = (v, t2)" by fastforce
              have "r = (case v of Inl e \<Rightarrow> Inl (Status Internal (Text ''could not read responses'')) | Inr rs \<Rightarrow> Inr (responsesToProto rs))"
                using assms(3) Some \<open>pid \<noteq> []\<close> g gt p f v by (cases v) (auto simp: GetResponses_def)
              moreover have "f2 = isl v" using v i by (auto simp: assms(2) pg_GetResponses_def 2 split: if_splits)
              ultimately show ?thesis using Inl by (cases v) auto
            qed
            then show ?thesis using Some \<open>pid \<noteq> []\<close> i True Inl flt by auto
          qed
        qed
      qed
    qed
  qed
qed

text \<open>The owner reads, and a stranger is answered for this poll as for one that does not exist.\<close>

theorem poll_responses_owner_only_witness:
  "(\<exists>rs. fst (GetResponses ex_server (ex_ctx 1) ''P'' (ex_created 100)) = Inr rs \<and> length rs \<le> 1) \<and>
   fst (GetResponses ex_server ((ex_ctx 1)\<lparr>cx_subject := Some ''eve''\<rparr>) ''P'' (ex_created 100)) = Inl poll_notFound"
proof -
  obtain r w' where r: "GetResponses ex_server (ex_ctx 1) ''P'' (ex_created 100) = (r, w')" by fastforce
  obtain q v where q: "GetResponses ex_server ((ex_ctx 1)\<lparr>cx_subject := Some ''eve''\<rparr>) ''P'' (ex_created 100) = (q, v)" by fastforce
  have f: "pg_faults (pw_repo (ex_created 100)) = []" by (simp add: ex_created_def)
  have u: "ex_up ''P'' = Some ''P''" by (simp add: ex_up_def)
  have s: "SubjectFrom (ex_ctx 1) = Some ''u''" "SubjectFrom ((ex_ctx 1)\<lparr>cx_subject := Some ''eve''\<rparr>) = Some ''eve''"
    by (simp_all add: SubjectFrom_def ex_ctx_def)
  have p: "lg_polls (pg_ledger (pw_repo (ex_created 100))) ''P'' = Some (row_to_poll (ex_row 100))" "p_OwnerUserID (row_to_poll (ex_row 100)) = ''u''"
    by (simp_all add: pg_ledger_def ex_created_def ex_row_def row_to_poll_def)
  from poll_responses_owner_only [OF ex_created_inv _ r] have "\<exists>rs. r = Inr rs \<and> length rs \<le> 1"
    by (auto simp: s u p f responsesToProto_def)
  moreover from poll_responses_owner_only [OF ex_created_inv _ q] have "q = Inl poll_notFound"
    by (simp add: s u p f pg_tick_def)
  ultimately show ?thesis by (simp add: r q)
qed

text \<open>\<open>ttl_seconds\<close> is multiplied by a second in int64 without a bound. When the product wraps
  to a negative duration, CreatePoll still succeeds and returns the link, and no fetch at or after
  the creation ever serves the poll.\<close>

theorem poll_ttl_wraps:
  assumes "pg_inv up (pw_repo w)" and "sv_repo sv = pg_repo up"
    and "CreatePoll sv cx rq w = (Inr k, w1)" and "0 < cr_ttl_seconds rq"
    and "wrap64 (cr_ttl_seconds rq * ns_per_sec) < 0" and "cx_now cx \<le> cx_now cx'"
  shows "\<forall>f. fst (GetPollByToken sv cx' (cs_link_token k) w1) \<noteq> Inr f"
  using pg.created_expired [OF assms(1-3) _ assms(6)] assms(4,5) by (simp add: poll_ttl_def)

lemma wrap64_example: "wrap64 (9223372037 * ns_per_sec) = - 9223372036709551616"
  by (simp add: wrap64_def ns_per_sec_def)

theorem poll_ttl_wraps_witness:
  "(\<exists>k w1. CreatePoll ex_server (ex_ctx 0) (ex_create 9223372037) ex_world = (Inr k, w1)) \<and>
   (\<forall>f. fst (GetPollByToken ex_server (ex_ctx 0) ex_token
      (ex_created (- 9223372036709551616))) \<noteq> Inr f)"
proof -
  have t: "poll_ttl ex_tuning 9223372037 = - 9223372036709551616"
    by (simp add: poll_ttl_def wrap64_example)
  note c = ex_create_ok [of 9223372037, unfolded t]
  show ?thesis
    using poll_ttl_wraps [OF ex_world_inv _ c, of "ex_ctx 0"] c
    by (simp add: ex_create_def wrap64_example)
qed

end
