(* ===== verification/Identity_Store.thy ===== *)
theory Identity_Store
  imports Poll_Valkey
begin

text \<open>
  The Identity service's state (\<open>services/backend/identity/internal/domain\<close>): login sessions
  and sign-in counters in Valkey (\<open>valkey/valkey.go\<close>), which share one store and keep apart by
  the prefixes of their keys, and users, credentials and links in Postgres
  (\<open>postgres/postgres.go\<close>). The ports \<open>Sessions\<close>, \<open>RateLimiter\<close> and \<open>Users\<close> of
  \<open>internal/app/identity_server.go\<close> are records of operations; the contract of the first two is
  the locale \<open>session_store\<close>, interpreted on the Valkey model.
\<close>

section \<open>Data (model.go) and the session port\<close>

record user =
  us_ID :: string
  us_Email :: string
  us_DisplayName :: string
  us_Status :: string
  us_CreatedAt :: time

record session =
  ss_ID :: string
  ss_UserID :: string
  ss_RefreshHash :: string
  ss_Device :: string
  ss_IssuedAt :: time
  ss_ExpiresAt :: time

record 's session_ops =
  so_Create :: "session \<Rightarrow> time \<Rightarrow> 's \<Rightarrow> (vk_error + unit) \<times> 's"
  so_Get :: "string \<Rightarrow> time \<Rightarrow> 's \<Rightarrow> (vk_error + session option) \<times> 's"
  so_Update :: "session \<Rightarrow> time \<Rightarrow> 's \<Rightarrow> (vk_error + unit) \<times> 's"
  so_Delete :: "string \<Rightarrow> time \<Rightarrow> 's \<Rightarrow> (vk_error + unit) \<times> 's"
  so_Allow :: "string \<Rightarrow> time \<Rightarrow> 's \<Rightarrow> (vk_error + bool) \<times> 's"

text \<open>\<open>sess s t i\<close> is the session \<open>i\<close> names at \<open>t\<close> if nothing more is written.\<close>

locale session_store =
  fixes ops :: "'s session_ops"
    and sess :: "'s \<Rightarrow> time \<Rightarrow> string \<Rightarrow> session option"
  assumes get_ok: "so_Get ops i t s = (Inr xo, s') \<Longrightarrow> xo = sess s t i"
    and get_frame: "so_Get ops i t s = (g, s') \<Longrightarrow> sess s' = sess s"
    and update_ok: "so_Update ops x t s = (Inr u, s') \<Longrightarrow>
      \<exists>e > t. sess s' = (\<lambda>t' i. if i = ss_ID x then (if t' < e then Some x else None) else sess s t' i)"
    and update_err: "so_Update ops x t s = (Inl e, s') \<Longrightarrow> sess s' = sess s"
    and create_ok: "so_Create ops x t s = (Inr u, s') \<Longrightarrow>
      \<exists>e > t. sess s' = (\<lambda>t' i. if i = ss_ID x then (if t' < e then Some x else None) else sess s t' i)"
    and create_err: "so_Create ops x t s = (Inl e, s') \<Longrightarrow> sess s' = sess s"
    and delete_ok: "so_Delete ops i t s = (Inr u, s') \<Longrightarrow>
      sess s' = (\<lambda>t' j. if j = i then None else sess s t' j)"
    and delete_err: "so_Delete ops i t s = (Inl e, s') \<Longrightarrow> sess s' = sess s"
    and allow_frame: "so_Allow ops k t s = (r, s') \<Longrightarrow> sess s' = sess s"
    and sess_id: "sess s t i = Some x \<Longrightarrow> ss_ID x = i"
    and sess_mono: "sess s t' i = Some x \<Longrightarrow> t \<le> t' \<Longrightarrow> sess s t i = Some x"

section \<open>Sessions and counters in Valkey (valkey.go)\<close>

definition sessionKey :: "string \<Rightarrow> string" where
  "sessionKey i = ''identity:session:'' @ i"

definition rateKey :: "string \<Rightarrow> string" where
  "rateKey k = ''identity:ratelimit:'' @ k"

record stored_session =
  st_UserID :: string
  st_RefreshHash :: string
  st_Device :: string
  st_IssuedAt :: time
  st_ExpiresAt :: time

definition idv_put :: "session \<Rightarrow> time \<Rightarrow> stored_session valkey \<Rightarrow> (vk_error + unit) \<times> stored_session valkey" where
  "idv_put x now s =
     (let body = \<lparr>st_UserID = ss_UserID x, st_RefreshHash = ss_RefreshHash x, st_Device = ss_Device x,
                  st_IssuedAt = ss_IssuedAt x, st_ExpiresAt = ss_ExpiresAt x\<rparr>;
          ttl = ss_ExpiresAt x - now;
          ttl = (if ttl \<le> 0 then ns_per_sec else ttl)
      in vk_SETEX (sessionKey (ss_ID x)) body (ttl div ns_per_sec) now s)"

definition idv_Create :: "session \<Rightarrow> time \<Rightarrow> stored_session valkey \<Rightarrow> (vk_error + unit) \<times> stored_session valkey" where
  "idv_Create x now s = idv_put x now s"

definition idv_Update :: "session \<Rightarrow> time \<Rightarrow> stored_session valkey \<Rightarrow> (vk_error + unit) \<times> stored_session valkey" where
  "idv_Update x now s = idv_put x now s"

definition to_session :: "string \<Rightarrow> stored_session \<Rightarrow> session" where
  "to_session i st =
     \<lparr>ss_ID = i, ss_UserID = st_UserID st, ss_RefreshHash = st_RefreshHash st, ss_Device = st_Device st,
      ss_IssuedAt = st_IssuedAt st, ss_ExpiresAt = st_ExpiresAt st\<rparr>"

definition idv_Get ::
  "string \<Rightarrow> time \<Rightarrow> stored_session valkey \<Rightarrow> (vk_error + session option) \<times> stored_session valkey" where
  "idv_Get i now s =
     (case vk_GET (sessionKey i) now s of
        (Inl e, s') \<Rightarrow> (Inl e, s')
      | (Inr None, s') \<Rightarrow> (Inr None, s')
      | (Inr (Some st), s') \<Rightarrow> (Inr (Some (to_session i st)), s'))"

definition idv_Delete :: "string \<Rightarrow> time \<Rightarrow> stored_session valkey \<Rightarrow> (vk_error + unit) \<times> stored_session valkey" where
  "idv_Delete i now s = vk_DEL (sessionKey i) now s"

text \<open>Unlike Poll's limiter, the window is not raised to a second: a shorter one makes \<open>EXPIRE\<close>
  delete the counter.\<close>

definition idv_Allow :: "int \<Rightarrow> duration \<Rightarrow> string \<Rightarrow> time \<Rightarrow> 'v valkey \<Rightarrow> (vk_error + bool) \<times> 'v valkey" where
  "idv_Allow rlMax rlWindow key now s =
     (let k = rateKey key in
      case vk_INCR k now s of
        (Inl e, s1) \<Rightarrow> (Inl e, s1)
      | (Inr n, s1) \<Rightarrow>
          (if n = 1 then
             (case vk_EXPIRE k (rlWindow div ns_per_sec) now s1 of
                (Inl e, s2) \<Rightarrow> (Inl e, s2)
              | (Inr _, s2) \<Rightarrow> (Inr (n \<le> rlMax), s2))
           else (Inr (n \<le> rlMax), s1)))"

definition idv_ops :: "int \<Rightarrow> duration \<Rightarrow> stored_session valkey session_ops" where
  "idv_ops rlMax rlWindow =
     \<lparr>so_Create = idv_Create, so_Get = idv_Get, so_Update = idv_Update, so_Delete = idv_Delete,
      so_Allow = idv_Allow rlMax rlWindow\<rparr>"

definition idv_session :: "stored_session valkey \<Rightarrow> time \<Rightarrow> string \<Rightarrow> session option" where
  "idv_session s t i =
     (case vk_live s t (sessionKey i) of Some (Val st) \<Rightarrow> Some (to_session i st) | _ \<Rightarrow> None)"

lemma sessionKey_inj [simp]: "sessionKey i = sessionKey j \<longleftrightarrow> i = j"
  by (simp add: sessionKey_def)

lemma session_rate_keys [simp]: "sessionKey i \<noteq> rateKey k" "rateKey k \<noteq> sessionKey i"
  by (auto simp: sessionKey_def rateKey_def)

lemma idv_session_keys: "vk_keys s' = vk_keys s \<Longrightarrow> idv_session s' = idv_session s"
  by (simp add: idv_session_def vk_live_def fun_eq_iff)

lemma idv_session_frame:
  "(\<And>i. vk_keys s' (sessionKey i) = vk_keys s (sessionKey i)) \<Longrightarrow> idv_session s' = idv_session s"
  by (simp add: idv_session_def vk_live_def fun_eq_iff)

lemma idv_put_ok:
  assumes "idv_put x t s = (Inr u, s')"
  shows "\<exists>e > t. idv_session s' =
    (\<lambda>t' i. if i = ss_ID x then (if t' < e then Some x else None) else idv_session s t' i)"
proof -
  let ?secs = "(if ss_ExpiresAt x - t \<le> 0 then ns_per_sec else ss_ExpiresAt x - t) div ns_per_sec"
  let ?body = "\<lparr>st_UserID = ss_UserID x, st_RefreshHash = ss_RefreshHash x, st_Device = ss_Device x,
                  st_IssuedAt = ss_IssuedAt x, st_ExpiresAt = ss_ExpiresAt x\<rparr>"
  have "vk_SETEX (sessionKey (ss_ID x)) ?body ?secs t s = (Inr u, s')"
    using assms by (simp add: idv_put_def Let_def)
  from vk_SETEX_ok [OF this] have "0 < ?secs"
    and k: "vk_keys s' = (vk_keys s)(sessionKey (ss_ID x) \<mapsto> (Val ?body, Some (t + ?secs * ns_per_sec)))"
    by auto
  then have "t < t + ?secs * ns_per_sec" by (simp add: ns_per_sec_def)
  moreover have "idv_session s' = (\<lambda>t' i. if i = ss_ID x then
      (if t' < t + ?secs * ns_per_sec then Some x else None) else idv_session s t' i)"
    by (simp add: idv_session_def vk_live_def k to_session_def fun_eq_iff)
  ultimately show ?thesis by blast
qed

lemma idv_Allow_frame: "idv_Allow m w k t s = (r, s') \<Longrightarrow> k' \<noteq> rateKey k \<Longrightarrow> vk_keys s' k' = vk_keys s k'"
  by (auto simp: idv_Allow_def Let_def split: prod.splits sum.splits if_splits
      dest!: vk_frame(1,2) [where k' = k'])

interpretation idv: session_store "idv_ops m w" idv_session for m w
proof
  fix i t s x s'
  assume "so_Get (idv_ops m w) i t s = (Inr x, s')"
  then show "x = idv_session s t i"
    by (auto simp: idv_ops_def idv_Get_def idv_session_def split: prod.splits sum.splits option.splits
        dest!: vk_GET_Some)
next
  fix i t s r s'
  assume "so_Get (idv_ops m w) i t s = (r, s')"
  then show "idv_session s' = idv_session s"
    by (auto simp: idv_ops_def idv_Get_def split: prod.splits sum.splits option.splits
        intro!: idv_session_keys dest: vk_GET_keys)
next
  fix x t s u s'
  assume "so_Update (idv_ops m w) x t s = (Inr u, s')"
  then show "\<exists>e > t. idv_session s' =
    (\<lambda>t' i. if i = ss_ID x then (if t' < e then Some x else None) else idv_session s t' i)"
    by (simp add: idv_ops_def idv_Update_def idv_put_ok)
next
  fix x t s e s'
  assume "so_Update (idv_ops m w) x t s = (Inl e, s')"
  then show "idv_session s' = idv_session s"
    by (auto simp: idv_ops_def idv_Update_def idv_put_def Let_def intro: idv_session_keys vk_SETEX_err)
next
  fix x t s u s'
  assume "so_Create (idv_ops m w) x t s = (Inr u, s')"
  then show "\<exists>e > t. idv_session s' =
    (\<lambda>t' i. if i = ss_ID x then (if t' < e then Some x else None) else idv_session s t' i)"
    by (simp add: idv_ops_def idv_Create_def idv_put_ok)
next
  fix x t s e s'
  assume "so_Create (idv_ops m w) x t s = (Inl e, s')"
  then show "idv_session s' = idv_session s"
    by (auto simp: idv_ops_def idv_Create_def idv_put_def Let_def intro: idv_session_keys vk_SETEX_err)
next
  fix i t s u s'
  assume "so_Delete (idv_ops m w) i t s = (Inr u, s')"
  then have "vk_keys s' = (vk_keys s)(sessionKey i := None)"
    by (auto simp: idv_ops_def idv_Delete_def dest: vk_DEL_ok)
  then show "idv_session s' = (\<lambda>t' j. if j = i then None else idv_session s t' j)"
    by (auto simp: idv_session_def vk_live_def fun_eq_iff)
next
  fix i t s e s'
  assume "so_Delete (idv_ops m w) i t s = (Inl e, s')"
  then show "idv_session s' = idv_session s"
    by (auto simp: idv_ops_def idv_Delete_def intro: idv_session_keys vk_DEL_err)
next
  fix k t s r s'
  assume "so_Allow (idv_ops m w) k t s = (r, s')"
  then show "idv_session s' = idv_session s"
    by (intro idv_session_frame) (simp add: idv_ops_def idv_Allow_frame)
next
  fix s t i x
  assume "idv_session s t i = Some x"
  then show "ss_ID x = i"
    by (auto simp: idv_session_def to_session_def split: option.splits vval.splits)
next
  fix s t' i x t
  assume "idv_session s t' i = Some x" and "t \<le> t'"
  then show "idv_session s t i = Some x"
    by (auto simp: idv_session_def vk_live_def split: option.splits vval.splits if_splits)
qed

section \<open>The sign-in limiter as a fixed window\<close>

text \<open>With a window of at least a second the limiter is Poll's on the prefixed key.\<close>

lemma idv_Allow_eq: "ns_per_sec \<le> w \<Longrightarrow> idv_Allow m w k t s = poll_Allow m w (rateKey k) t s"
proof -
  assume "ns_per_sec \<le> w"
  then have "\<not> w div ns_per_sec < 1"
    by (simp add: ns_per_sec_def)
  then show ?thesis
    by (auto simp: idv_Allow_def poll_Allow_def Let_def split: prod.split sum.split)
qed

definition idv_span :: "nat \<Rightarrow> duration" where
  "idv_span n = poll_span ((int n + 1) * ns_per_sec)"

lemma rateKey_inj [simp]: "rateKey k = rateKey k' \<longleftrightarrow> k = k'"
  by (simp add: rateKey_def)

interpretation idv_rl: rate_limiter
  "idv_Allow m ((int n + 1) * ns_per_sec)" "\<lambda>k. vk_used (rateKey k)" "\<lambda>k. vk_holds (rateKey k)" m
  "idv_span n" vk_counters_ok for m n
proof -
  have w: "idv_Allow m ((int n + 1) * ns_per_sec) k t s =
      poll_Allow m ((int n + 1) * ns_per_sec) (rateKey k) t s" for k t and s :: "'v valkey"
    by (rule idv_Allow_eq) (simp add: ns_per_sec_def)
  show "rate_limiter (idv_Allow m ((int n + 1) * ns_per_sec)) (\<lambda>k. vk_used (rateKey k))
      (\<lambda>k. vk_holds (rateKey k)) m (idv_span n) (vk_counters_ok :: 'v valkey \<Rightarrow> bool)"
    unfolding w idv_span_def
    apply unfold_locales
    using poll_rl.inv_allow poll_rl.admit poll_rl.used_mono poll_rl.frame poll_rl.window poll_rl.holds_allow
      poll_rl.opens
    by (blast | metis rateKey_inj)+
qed

end
