(* ===== verification/Identity_Users.thy ===== *)
theory Identity_Users
  imports Identity_Store
begin

text \<open>
  Identity's users, password credentials and external links in Postgres,
  \<open>services/backend/identity/internal/domain/postgres/postgres.go\<close> with the tables of its
  migration. A transaction that fails at any statement leaves the tables as they were
  (\<open>BeginFunc\<close>). Emails are \<open>citext\<close>: they compare without regard to case. \<open>up\<close> is the
  driver's parse of a uuid parameter.
\<close>

datatype user_error = UserNotFound | UserOther

text \<open>The port \<open>Users\<close> of the server; the database clock is a parameter of the inserts.\<close>

record 'u users_ops =
  uo_UpsertOAuthUser :: "time \<Rightarrow> string \<Rightarrow> string \<Rightarrow> string \<Rightarrow> string \<Rightarrow> 'u \<Rightarrow> (user_error + user) \<times> 'u"
  uo_GetByID :: "string \<Rightarrow> 'u \<Rightarrow> (user_error + user) \<times> 'u"
  uo_GetByEmail :: "string \<Rightarrow> 'u \<Rightarrow> (user_error + user option) \<times> 'u"
  uo_CreateEmailUser :: "time \<Rightarrow> string \<Rightarrow> string \<Rightarrow> string \<Rightarrow> 'u \<Rightarrow> (user_error + user) \<times> 'u"
  uo_GetPasswordHash :: "string \<Rightarrow> 'u \<Rightarrow> (user_error + string option) \<times> 'u"

section \<open>Tables\<close>

record user_row =
  ur_id :: string
  ur_email :: "string option"
  ur_display_name :: string
  ur_status :: string
  ur_created_at :: time

record cred_row =
  cd_user_id :: string
  cd_type :: string
  cd_password_hash :: string

record oauth_row =
  ol_user_id :: string
  ol_provider :: string
  ol_subject :: string

record id_pg =
  ip_users :: "user_row list"
  ip_creds :: "cred_row list"
  ip_links :: "oauth_row list"
  ip_uuids :: "string list"
  ip_faults :: "bool list"

definition ip_tick :: "id_pg \<Rightarrow> bool \<times> id_pg" where
  "ip_tick s = (let (f, fs) = next_fault (ip_faults s) in (f, s\<lparr>ip_faults := fs\<rparr>))"

definition ip_uuid :: "id_pg \<Rightarrow> string \<times> id_pg" where
  "ip_uuid s = (case ip_uuids s of [] \<Rightarrow> ([], s) | u # us \<Rightarrow> (u, s\<lparr>ip_uuids := us\<rparr>))"

definition ip_rollback :: "id_pg \<Rightarrow> id_pg \<Rightarrow> id_pg" where
  "ip_rollback base s =
     s\<lparr>ip_users := ip_users base, ip_creds := ip_creds base, ip_links := ip_links base\<rparr>"

definition BeginFunc ::
  "(id_pg \<Rightarrow> (user_error + 'a) \<times> id_pg) \<Rightarrow> id_pg \<Rightarrow> (user_error + 'a) \<times> id_pg" where
  "BeginFunc body = guarded ip_tick UserOther (\<lambda>s1.
     case body s1 of
       (Inl e, s2) \<Rightarrow> (Inl e, ip_rollback s1 s2)
     | (Inr x, s2) \<Rightarrow>
         (let (f, s3) = ip_tick s2 in if f then (Inl UserOther, ip_rollback s1 s3) else (Inr x, s3)))"

section \<open>Operations\<close>

definition scanUser :: "user_row \<Rightarrow> user" where
  "scanUser r =
     \<lparr>us_ID = ur_id r, us_Email = (case ur_email r of None \<Rightarrow> [] | Some e \<Rightarrow> e),
      us_DisplayName = ur_display_name r, us_Status = ur_status r, us_CreatedAt = ur_created_at r\<rparr>"

definition has_email :: "string \<Rightarrow> user_row \<Rightarrow> bool" where
  "has_email email r \<longleftrightarrow> (case ur_email r of None \<Rightarrow> False | Some e \<Rightarrow> EqualFold e email)"

definition idp_getByID :: "(string \<Rightarrow> string option) \<Rightarrow> string \<Rightarrow> id_pg \<Rightarrow> (user_error + user) \<times> id_pg" where
  "idp_getByID up i = guarded ip_tick UserOther (\<lambda>s.
     case up i of
       None \<Rightarrow> (Inl UserOther, s)
     | Some i \<Rightarrow>
         (case find (\<lambda>r. ur_id r = i) (ip_users s) of
            None \<Rightarrow> (Inl UserNotFound, s)
          | Some r \<Rightarrow> (Inr (scanUser r), s)))"

definition idp_insertUser ::
  "(string \<Rightarrow> string option) \<Rightarrow> time \<Rightarrow> string \<Rightarrow> string option \<Rightarrow> string \<Rightarrow> id_pg \<Rightarrow>
   (user_error + unit) \<times> id_pg" where
  "idp_insertUser up now i email display = guarded ip_tick UserOther (\<lambda>s.
     if up i = None \<or> find (\<lambda>r. ur_id r = i) (ip_users s) \<noteq> None \<or>
        (case email of None \<Rightarrow> False | Some e \<Rightarrow> find (has_email e) (ip_users s) \<noteq> None)
     then (Inl UserOther, s)
     else (Inr (), s\<lparr>ip_users := ip_users s @
        [\<lparr>ur_id = i, ur_email = email, ur_display_name = display, ur_status = ''active'',
          ur_created_at = now\<rparr>]\<rparr>))"

definition idp_userIDByEmail :: "string \<Rightarrow> id_pg \<Rightarrow> (user_error + string) \<times> id_pg" where
  "idp_userIDByEmail email s =
     (if email \<noteq> [] then
        guarded ip_tick UserOther (\<lambda>s. case find (has_email email) (ip_users s) of
            Some r \<Rightarrow> (Inr (ur_id r), s)
          | None \<Rightarrow> (Inr [], s)) s
      else (Inr [], s))"

definition idp_UpsertOAuthUser ::
  "(string \<Rightarrow> string option) \<Rightarrow> time \<Rightarrow> string \<Rightarrow> string \<Rightarrow> string \<Rightarrow> string \<Rightarrow> id_pg \<Rightarrow>
   (user_error + user) \<times> id_pg" where
  "idp_UpsertOAuthUser up now provider subject email displayName =
     BeginFunc (guarded ip_tick UserOther (\<lambda>s.
       case find (\<lambda>l. ol_provider l = provider \<and> ol_subject l = subject) (ip_links s) of
         Some l \<Rightarrow> idp_getByID up (ol_user_id l) s
       | None \<Rightarrow>
         (case idp_userIDByEmail email s of
            (Inl e, s1) \<Rightarrow> (Inl e, s1)
          | (Inr existingID, s1) \<Rightarrow>
            (case (if existingID = [] then
                     (let (i, s2) = ip_uuid s1;
                          (r, s3) = idp_insertUser up now i (if email \<noteq> [] then Some email else None) displayName s2
                      in (case r of Inl e \<Rightarrow> (Inl e, s3) | Inr _ \<Rightarrow> (Inr i, s3)))
                   else (Inr existingID, s1)) of
               (Inl e, s4) \<Rightarrow> (Inl e, s4)
             | (Inr userID, s4) \<Rightarrow>
                 guarded ip_tick UserOther (\<lambda>s5.
                   idp_getByID up userID
                     (s5\<lparr>ip_links := ip_links s5 @
                        [\<lparr>ol_user_id = userID, ol_provider = provider, ol_subject = subject\<rparr>]\<rparr>)) s4))))"

definition idp_CreateEmailUser ::
  "(string \<Rightarrow> string option) \<Rightarrow> time \<Rightarrow> string \<Rightarrow> string \<Rightarrow> string \<Rightarrow> id_pg \<Rightarrow> (user_error + user) \<times> id_pg" where
  "idp_CreateEmailUser up now email displayName passwordHash =
     BeginFunc (\<lambda>s.
       let (i, s1) = ip_uuid s in
       case idp_insertUser up now i (Some email) displayName s1 of
         (Inl e, s2) \<Rightarrow> (Inl e, s2)
       | (Inr _, s2) \<Rightarrow>
           guarded ip_tick UserOther (\<lambda>s3.
             if find (\<lambda>c. cd_user_id c = i) (ip_creds s3) \<noteq> None then (Inl UserOther, s3) else
             idp_getByID up i
               (s3\<lparr>ip_creds := ip_creds s3 @
                  [\<lparr>cd_user_id = i, cd_type = ''password'', cd_password_hash = passwordHash\<rparr>]\<rparr>)) s2)"

definition idp_GetByID :: "(string \<Rightarrow> string option) \<Rightarrow> string \<Rightarrow> id_pg \<Rightarrow> (user_error + user) \<times> id_pg" where
  "idp_GetByID up i s = idp_getByID up i s"

definition idp_GetByEmail :: "string \<Rightarrow> id_pg \<Rightarrow> (user_error + user option) \<times> id_pg" where
  "idp_GetByEmail email = guarded ip_tick UserOther (\<lambda>s.
     case find (has_email email) (ip_users s) of
       None \<Rightarrow> (Inr None, s)
     | Some r \<Rightarrow> (Inr (Some (scanUser r)), s))"

definition idp_GetPasswordHash ::
  "(string \<Rightarrow> string option) \<Rightarrow> string \<Rightarrow> id_pg \<Rightarrow> (user_error + string option) \<times> id_pg" where
  "idp_GetPasswordHash up i = guarded ip_tick UserOther (\<lambda>s.
     case up i of
       None \<Rightarrow> (Inl UserOther, s)
     | Some i \<Rightarrow>
         (case find (\<lambda>c. cd_user_id c = i \<and> cd_type c = ''password'') (ip_creds s) of
            None \<Rightarrow> (Inr None, s)
          | Some c \<Rightarrow> (Inr (Some (cd_password_hash c)), s)))"

definition idp_ops :: "(string \<Rightarrow> string option) \<Rightarrow> id_pg users_ops" where
  "idp_ops up =
     \<lparr>uo_UpsertOAuthUser = idp_UpsertOAuthUser up, uo_GetByID = idp_GetByID up,
      uo_GetByEmail = idp_GetByEmail, uo_CreateEmailUser = idp_CreateEmailUser up,
      uo_GetPasswordHash = idp_GetPasswordHash up\<rparr>"

section \<open>What the operations keep\<close>

definition same_users :: "id_pg \<Rightarrow> id_pg \<Rightarrow> bool" where
  "same_users s s' \<longleftrightarrow> ip_users s' = ip_users s \<and> ip_creds s' = ip_creds s \<and> ip_links s' = ip_links s"

lemma ip_tick_same: "ip_tick s = (f, s') \<Longrightarrow> same_users s s' \<and> ip_uuids s' = ip_uuids s"
  by (auto simp: ip_tick_def same_users_def split: prod.splits)

lemma ip_uuid_same: "ip_uuid s = (u, s') \<Longrightarrow> same_users s s'"
  by (auto simp: ip_uuid_def same_users_def split: list.splits)

lemma BeginFunc_err: "BeginFunc body s = (Inl e, s') \<Longrightarrow> same_users s s'"
  by (auto simp: BeginFunc_def guarded_def ip_rollback_def same_users_def Let_def
      split: prod.splits sum.splits if_splits dest!: ip_tick_same)

lemma BeginFunc_ok:
  "BeginFunc body s = (Inr x, s') \<Longrightarrow> \<exists>s1 s2. same_users s s1 \<and> ip_uuids s1 = ip_uuids s \<and>
     body s1 = (Inr x, s2) \<and> same_users s2 s' \<and> ip_uuids s' = ip_uuids s2"
  by (auto simp: BeginFunc_def guarded_def Let_def split: prod.splits sum.splits if_splits dest!: ip_tick_same)

text \<open>The driver refuses the empty string and keeps the canonical text of the ids it is given.
  The schema: unique ids, emails unique without regard to case, links keyed by provider and
  subject and pointing to users.\<close>

definition id_inv :: "(string \<Rightarrow> string option) \<Rightarrow> id_pg \<Rightarrow> bool" where
  "id_inv up s \<longleftrightarrow>
     up [] = None \<and> (\<forall>i \<in> set (ip_uuids s). up i = Some i) \<and>
     distinct (map ur_id (ip_users s)) \<and> (\<forall>r \<in> set (ip_users s). up (ur_id r) = Some (ur_id r)) \<and>
     (\<forall>r \<in> set (ip_users s). \<forall>q \<in> set (ip_users s). \<forall>e. ur_email r = Some e \<longrightarrow> has_email e q \<longrightarrow> r = q) \<and>
     distinct (map (\<lambda>l. (ol_provider l, ol_subject l)) (ip_links s)) \<and>
     (\<forall>l \<in> set (ip_links s). \<exists>r \<in> set (ip_users s). ur_id r = ol_user_id l)"

text \<open>The user an external identity belongs to.\<close>

definition linked_user :: "id_pg \<Rightarrow> string \<Rightarrow> string \<Rightarrow> string option" where
  "linked_user s provider subject =
     map_option ol_user_id (find (\<lambda>l. ol_provider l = provider \<and> ol_subject l = subject) (ip_links s))"

lemma guarded_ok:
  "guarded ip_tick UserOther k s = (Inr x, s') \<Longrightarrow>
   \<exists>t. same_users s t \<and> ip_uuids t = ip_uuids s \<and> k t = (Inr x, s')"
  by (auto simp: guarded_def split: prod.splits if_splits dest!: ip_tick_same)

lemma getByID_ok:
  assumes "idp_getByID up i s = (Inr u, s')"
  shows "same_users s s' \<and> ip_uuids s' = ip_uuids s \<and>
    (\<exists>j r. up i = Some j \<and> r \<in> set (ip_users s) \<and> ur_id r = j \<and> u = scanUser r)"
proof -
  from guarded_ok [OF assms [unfolded idp_getByID_def]] obtain t where
    t: "same_users s t" "ip_uuids t = ip_uuids s"
      "(case up i of None \<Rightarrow> (Inl UserOther, t)
        | Some i \<Rightarrow> (case find (\<lambda>r. ur_id r = i) (ip_users t) of None \<Rightarrow> (Inl UserNotFound, t)
           | Some r \<Rightarrow> (Inr (scanUser r), t))) = (Inr u, s')" by blast
  show ?thesis
  proof (cases "up i")
    case None
    with t(3) show ?thesis by simp
  next
    case (Some j)
    show ?thesis
    proof (cases "find (\<lambda>r. ur_id r = j) (ip_users t)")
      case None
      with t(3) Some show ?thesis by simp
    next
      case (Some r)
      with t \<open>up i = Some j\<close> have "u = scanUser r" "s' = t" by simp_all
      with t(1,2) Some \<open>up i = Some j\<close> find_SomeD [OF Some] show ?thesis
        by (simp add: same_users_def) blast
    qed
  qed
qed

lemma same_users_inv: "same_users s t \<Longrightarrow> set (ip_uuids t) \<subseteq> set (ip_uuids s) \<Longrightarrow> id_inv up s \<Longrightarrow> id_inv up t"
  by (auto simp: id_inv_def same_users_def)

text \<open>A user found by email, the new user, or the owner of an earlier link.\<close>

definition found_by_email :: "id_pg \<Rightarrow> string \<Rightarrow> user_row option" where
  "found_by_email s email = (if email = [] then None else find (has_email email) (ip_users s))"

lemma userIDByEmail_ok:
  assumes "idp_userIDByEmail email s = (Inr i, s')"
  shows "same_users s s' \<and> ip_uuids s' = ip_uuids s \<and>
    i = (case found_by_email s email of None \<Rightarrow> [] | Some r \<Rightarrow> ur_id r)"
proof (cases "email = []")
  case True
  with assms show ?thesis by (simp add: idp_userIDByEmail_def found_by_email_def same_users_def)
next
  case False
  then have "guarded ip_tick UserOther (\<lambda>s. case find (has_email email) (ip_users s) of
            Some r \<Rightarrow> (Inr (ur_id r), s) | None \<Rightarrow> (Inr [], s)) s = (Inr i, s')"
    using assms by (simp add: idp_userIDByEmail_def)
  from guarded_ok [OF this] False show ?thesis
    by (auto simp: found_by_email_def same_users_def split: option.splits)
qed

lemma insertUser_ok:
  assumes "idp_insertUser up now i email d s = (Inr w, s')"
  shows "up i \<noteq> None \<and> find (\<lambda>r. ur_id r = i) (ip_users s) = None \<and>
    (\<forall>e. email = Some e \<longrightarrow> find (has_email e) (ip_users s) = None) \<and>
    ip_users s' = ip_users s @ [\<lparr>ur_id = i, ur_email = email, ur_display_name = d, ur_status = ''active'',
          ur_created_at = now\<rparr>] \<and>
    ip_creds s' = ip_creds s \<and> ip_links s' = ip_links s \<and> ip_uuids s' = ip_uuids s"
proof -
  from guarded_ok [OF assms [unfolded idp_insertUser_def]] show ?thesis
    by (auto simp: same_users_def split: if_splits option.splits)
qed

lemma EqualFold_sym: "EqualFold a b = EqualFold b a"
  by (auto simp: EqualFold_def)

lemma has_email_fold: "ur_email r = Some e \<Longrightarrow> has_email f r \<longleftrightarrow> EqualFold e f"
  by (simp add: has_email_def)

lemma insertUser_inv:
  assumes inv: "id_inv up s" and up: "up i = Some i" and ok: "idp_insertUser up now i email d s = (Inr w, s')"
  shows "id_inv up s'"
proof -
  note i = insertUser_ok [OF ok]
  have new: "ur_id r \<noteq> i" if "r \<in> set (ip_users s)" for r
    using i that find_NoneD [of "\<lambda>r. ur_id r = i" "ip_users s" r] by simp
  have em: "\<not> has_email e r" if "r \<in> set (ip_users s)" "email = Some e" for r e
    using i that find_NoneD [of "has_email e" "ip_users s" r] by simp
  have em2: "\<not> EqualFold e f" if "r \<in> set (ip_users s)" "ur_email r = Some e" "email = Some f" for r e f
    using em [OF that(1,3)] that by (simp add: has_email_fold)
  have uniq: "r = q" if "r \<in> set (ip_users s')" "q \<in> set (ip_users s')" "ur_email r = Some e" "has_email e q" for r q e
  proof (cases "r \<in> set (ip_users s)")
    case True
    with that i em2 [OF True that(3)] inv show ?thesis
      by (auto simp: id_inv_def has_email_def EqualFold_sym split: option.splits)
  next
    case False
    with that(1,3) i have r: "r = \<lparr>ur_id = i, ur_email = email, ur_display_name = d, ur_status = ''active'',
          ur_created_at = now\<rparr>" "email = Some e" by auto
    with em that(2,4) i show ?thesis by auto
  qed
  have "distinct (map ur_id (ip_users s'))" using inv i new by (auto simp: id_inv_def notin_image)
  moreover have "\<forall>r \<in> set (ip_users s'). up (ur_id r) = Some (ur_id r)" using inv i up by (auto simp: id_inv_def)
  ultimately show ?thesis
    using inv i uniq unfolding id_inv_def by auto
qed

section \<open>Resolving an external identity\<close>

definition upsert_body ::
  "(string \<Rightarrow> string option) \<Rightarrow> time \<Rightarrow> string \<Rightarrow> string \<Rightarrow> string \<Rightarrow> string \<Rightarrow> id_pg \<Rightarrow>
   (user_error + user) \<times> id_pg" where
  "upsert_body up now provider subject email displayName = guarded ip_tick UserOther (\<lambda>s.
       case find (\<lambda>l. ol_provider l = provider \<and> ol_subject l = subject) (ip_links s) of
         Some l \<Rightarrow> idp_getByID up (ol_user_id l) s
       | None \<Rightarrow>
         (case idp_userIDByEmail email s of
            (Inl e, s1) \<Rightarrow> (Inl e, s1)
          | (Inr existingID, s1) \<Rightarrow>
            (case (if existingID = [] then
                     (let (i, s2) = ip_uuid s1;
                          (r, s3) = idp_insertUser up now i (if email \<noteq> [] then Some email else None) displayName s2
                      in (case r of Inl e \<Rightarrow> (Inl e, s3) | Inr _ \<Rightarrow> (Inr i, s3)))
                   else (Inr existingID, s1)) of
               (Inl e, s4) \<Rightarrow> (Inl e, s4)
             | (Inr userID, s4) \<Rightarrow>
                 guarded ip_tick UserOther (\<lambda>s5.
                   idp_getByID up userID
                     (s5\<lparr>ip_links := ip_links s5 @
                        [\<lparr>ol_user_id = userID, ol_provider = provider, ol_subject = subject\<rparr>]\<rparr>)) s4)))"

lemma Upsert_body: "idp_UpsertOAuthUser up now p sub email d = BeginFunc (upsert_body up now p sub email d)"
  by (simp add: idp_UpsertOAuthUser_def upsert_body_def)

text \<open>The step that makes sure the user exists: found by email, or inserted.\<close>

lemma ensure_user:
  assumes inv: "id_inv up s"
    and ex: "idp_userIDByEmail email s = (Inr x, s1)"
    and run: "(if x = [] then
         (let (i, s2) = ip_uuid s1;
              (r, s3) = idp_insertUser up now i (if email \<noteq> [] then Some email else None) d s2
          in (case r of Inl e \<Rightarrow> (Inl e, s3) | Inr _ \<Rightarrow> (Inr i, s3)))
       else (Inr x, s1)) = (Inr i, s4)"
  shows "id_inv up s4 \<and> ip_links s4 = ip_links s \<and> ip_creds s4 = ip_creds s \<and>
    (\<exists>r \<in> set (ip_users s4). ur_id r = i) \<and>
    (case found_by_email s email of
       Some r \<Rightarrow> i = ur_id r \<and> ip_users s4 = ip_users s
     | None \<Rightarrow> i \<notin> ur_id ` set (ip_users s) \<and> set (ip_users s) \<subseteq> set (ip_users s4))"
proof (cases "found_by_email s email")
  case (Some r)
  note x = userIDByEmail_ok [OF ex, unfolded Some]
  have r: "r \<in> set (ip_users s)"
    using Some by (auto simp: found_by_email_def split: if_splits dest: find_SomeD)
  then have "ur_id r \<noteq> []" using inv by (auto simp: id_inv_def)
  with x run have "i = ur_id r" "s4 = s1" by auto
  with x r Some inv same_users_inv [of s s1 up] show ?thesis by (auto simp: same_users_def)
next
  case None
  note x = userIDByEmail_ok [OF ex, unfolded None]
  obtain j s2 where j: "ip_uuid s1 = (j, s2)" by fastforce
  obtain rr s3 where rr: "idp_insertUser up now j (if email \<noteq> [] then Some email else None) d s2 = (rr, s3)"
    by fastforce
  from run x j rr obtain w where w: "rr = Inr w" "i = j" "s4 = s3"
    by (auto split: sum.splits)
  note ins = insertUser_ok [OF rr [unfolded w(1)]]
  have s2: "same_users s s2" using x ip_uuid_same [OF j] by (simp add: same_users_def)
  have n: "find (\<lambda>r. ur_id r = j) (ip_users s) = None" using ins s2 by (simp add: same_users_def)
  have u2: "set (ip_uuids s2) \<subseteq> set (ip_uuids s)"
    using x j by (auto simp: ip_uuid_def split: list.splits)
  have inv2: "id_inv up s2" using same_users_inv [OF s2 u2 inv] .
  have "up j = Some j"
  proof (cases "ip_uuids s1")
    case (Cons a as)
    with j have "j = a" by (simp add: ip_uuid_def)
    with Cons x inv show ?thesis by (simp add: id_inv_def)
  next
    case Nil
    with j have "j = []" by (simp add: ip_uuid_def)
    with ins inv show ?thesis by (simp add: id_inv_def)
  qed
  from insertUser_inv [OF inv2 this rr [unfolded w(1)]] w ins s2 n None show ?thesis
    by (auto simp: same_users_def find_None_iff)
qed

text \<open>What a successful resolution did.\<close>

lemma Upsert_ok:
  assumes inv: "id_inv up s" and run: "idp_UpsertOAuthUser up now p sub email d s = (Inr u, s')"
  shows "id_inv up s' \<and> set (ip_users s) \<subseteq> set (ip_users s') \<and> ip_creds s' = ip_creds s \<and>
    (\<exists>r \<in> set (ip_users s'). u = scanUser r) \<and>
    (case linked_user s p sub of
       Some i \<Rightarrow> us_ID u = i \<and> ip_links s' = ip_links s
     | None \<Rightarrow> ip_links s' = ip_links s @ [\<lparr>ol_user_id = us_ID u, ol_provider = p, ol_subject = sub\<rparr>] \<and>
         (case found_by_email s email of
            Some r \<Rightarrow> us_ID u = ur_id r
          | None \<Rightarrow> us_ID u \<notin> ur_id ` set (ip_users s)))"
proof -
  from BeginFunc_ok [OF run [unfolded Upsert_body]] obtain s1 s2 where
    s1: "same_users s s1" "ip_uuids s1 = ip_uuids s" and body: "upsert_body up now p sub email d s1 = (Inr u, s2)"
    and s2: "same_users s2 s'" "ip_uuids s' = ip_uuids s2" by blast
  from guarded_ok [OF body [unfolded upsert_body_def]] obtain t where
    t: "same_users s1 t" "ip_uuids t = ip_uuids s1" and
    k: "(case find (\<lambda>l. ol_provider l = p \<and> ol_subject l = sub) (ip_links t) of
         Some l \<Rightarrow> idp_getByID up (ol_user_id l) t
       | None \<Rightarrow>
         (case idp_userIDByEmail email t of
            (Inl e, s1) \<Rightarrow> (Inl e, s1)
          | (Inr existingID, s1) \<Rightarrow>
            (case (if existingID = [] then
                     (let (i, s2) = ip_uuid s1;
                          (r, s3) = idp_insertUser up now i (if email \<noteq> [] then Some email else None) d s2
                      in (case r of Inl e \<Rightarrow> (Inl e, s3) | Inr _ \<Rightarrow> (Inr i, s3)))
                   else (Inr existingID, s1)) of
               (Inl e, s4) \<Rightarrow> (Inl e, s4)
             | (Inr userID, s4) \<Rightarrow>
                 guarded ip_tick UserOther (\<lambda>s5.
                   idp_getByID up userID
                     (s5\<lparr>ip_links := ip_links s5 @
                        [\<lparr>ol_user_id = userID, ol_provider = p, ol_subject = sub\<rparr>]\<rparr>)) s4))) = (Inr u, s2)"
    by blast
  have st: "same_users s t" using s1 t by (simp add: same_users_def)
  have invt: "id_inv up t" using same_users_inv [OF st _ inv] s1 t by simp
  show ?thesis
  proof (cases "find (\<lambda>l. ol_provider l = p \<and> ol_subject l = sub) (ip_links t)")
    case (Some l)
    with k have "idp_getByID up (ol_user_id l) t = (Inr u, s2)" by simp
    note g = getByID_ok [OF this]
    from find_SomeD [OF Some] invt obtain r where "r \<in> set (ip_users t)" "ur_id r = ol_user_id l"
      by (auto simp: id_inv_def)
    with invt have "up (ol_user_id l) = Some (ol_user_id l)" by (auto simp: id_inv_def)
    with g have id: "us_ID u = ol_user_id l" "\<exists>r \<in> set (ip_users t). u = scanUser r"
      by (auto simp: scanUser_def)
    have "same_users s s'" using st g s2 by (auto simp: same_users_def)
    moreover have "id_inv up s'" using same_users_inv [OF _ _ inv, of s'] st g s1 t s2
      by (simp add: same_users_def)
    moreover have "linked_user s p sub = Some (us_ID u)"
      using Some st id by (simp add: linked_user_def same_users_def)
    ultimately show ?thesis using id(2) st by (simp add: same_users_def)
  next
    case None
    obtain x sa where x: "idp_userIDByEmail email t = (Inr x, sa)"
      using k None by (auto split: prod.splits sum.splits)
    obtain i s4 where e: "(if x = [] then
                     (let (i, s2) = ip_uuid sa;
                          (r, s3) = idp_insertUser up now i (if email \<noteq> [] then Some email else None) d s2
                      in (case r of Inl e \<Rightarrow> (Inl e, s3) | Inr _ \<Rightarrow> (Inr i, s3)))
                   else (Inr x, sa)) = (Inr i, s4)" (is "?E = _")
      using k None x by (cases ?E) (auto split: sum.splits)
    with k None x have "guarded ip_tick UserOther (\<lambda>s5. idp_getByID up i
                     (s5\<lparr>ip_links := ip_links s5 @
                        [\<lparr>ol_user_id = i, ol_provider = p, ol_subject = sub\<rparr>]\<rparr>)) s4 = (Inr u, s2)"
      by simp
    from guarded_ok [OF this] obtain s5 where s5: "same_users s4 s5" "ip_uuids s5 = ip_uuids s4" and
      "idp_getByID up i (s5\<lparr>ip_links := ip_links s5 @
         [\<lparr>ol_user_id = i, ol_provider = p, ol_subject = sub\<rparr>]\<rparr>) = (Inr u, s2)" (is "idp_getByID up i ?s6 = _")
      by blast
    note g = getByID_ok [OF this(3)]
    note en = ensure_user [OF invt x e]
    from en have "up i = Some i" by (auto simp: id_inv_def)
    with g have id: "us_ID u = i" "\<exists>r \<in> set (ip_users s5). u = scanUser r" by (auto simp: scanUser_def)
    have inv5: "id_inv up s5" using same_users_inv [OF s5(1)] s5(2) en by simp
    have new: "(ol_provider l, ol_subject l) \<noteq> (p, sub)" if "l \<in> set (ip_links s5)" for l
      using find_NoneD [OF None] that en s5 by (auto simp: same_users_def)
    have inv6: "id_inv up ?s6"
      using inv5 en s5 new by (auto simp: id_inv_def same_users_def notin_image)
    have "id_inv up s2" by (rule same_users_inv [OF _ _ inv6]) (use g in simp_all)
    then have inv': "id_inv up s'" using same_users_inv [OF s2(1)] s2(2) by simp
    have l: "ip_links s' = ip_links s @ [\<lparr>ol_user_id = i, ol_provider = p, ol_subject = sub\<rparr>]"
      using g s2 s5 en st by (simp add: same_users_def)
    have un: "linked_user s p sub = None" using None st by (simp add: linked_user_def same_users_def)
    have fe: "found_by_email t email = found_by_email s email"
      using st by (simp add: found_by_email_def same_users_def)
    have us: "ip_users s' = ip_users s4" "ip_creds s' = ip_creds s"
      using g s2 s5 en st by (auto simp: same_users_def)
    show ?thesis
    proof (cases "found_by_email s email")
      case None
      with inv' l un fe us en id st s5 show ?thesis by (auto simp: same_users_def)
    next
      case (Some r)
      with inv' l un fe us en id st s5 show ?thesis by (auto simp: same_users_def)
    qed
  qed
qed

lemma linked_user_append:
  "linked_user s p sub = None \<Longrightarrow> ip_links s' = ip_links s @ [\<lparr>ol_user_id = i, ol_provider = p, ol_subject = sub\<rparr>] \<Longrightarrow>
   linked_user s' p sub = Some i"
  "linked_user s p' sub' = Some j \<Longrightarrow> ip_links s' = ip_links s @ ls \<Longrightarrow> linked_user s' p' sub' = Some j"
  by (auto simp: linked_user_def find_append)

text \<open>A call that fails leaves the tables as they were; it may have used up some of the ids that the
  database would draw.\<close>

lemma ip_uuids_less:
  "ip_tick s = (f, s') \<Longrightarrow> set (ip_uuids s') \<subseteq> set (ip_uuids s)"
  "ip_uuid s = (u, s') \<Longrightarrow> set (ip_uuids s') \<subseteq> set (ip_uuids s)"
  by (auto simp: ip_tick_def ip_uuid_def split: prod.splits list.splits)

definition draws :: "(id_pg \<Rightarrow> (user_error + 'a) \<times> id_pg) \<Rightarrow> bool" where
  "draws f \<longleftrightarrow> (\<forall>s. set (ip_uuids (snd (f s))) \<subseteq> set (ip_uuids s))"

lemma drawsD: "draws f \<Longrightarrow> f s = (r, s') \<Longrightarrow> set (ip_uuids s') \<subseteq> set (ip_uuids s)"
  unfolding draws_def by (metis snd_conv)

lemma drawsI: "(\<And>s r s'. f s = (r, s') \<Longrightarrow> set (ip_uuids s') \<subseteq> set (ip_uuids s)) \<Longrightarrow> draws f"
  unfolding draws_def by (metis prod.collapse)

lemma draws_guarded: "draws k \<Longrightarrow> draws (guarded ip_tick UserOther k)"
  by (rule drawsI) (auto simp: guarded_def split: prod.splits if_splits dest!: ip_uuids_less(1) drawsD)

lemma draws_BeginFunc: "draws b \<Longrightarrow> draws (BeginFunc b)"
  unfolding BeginFunc_def
  by (rule draws_guarded, rule drawsI)
    (auto simp: ip_rollback_def Let_def split: prod.splits sum.splits if_splits dest!: ip_uuids_less(1) drawsD)

lemma draws_ops: "draws (idp_getByID up i)" "draws (idp_insertUser up now i em d)" "draws (idp_userIDByEmail e)"
proof -
  show "draws (idp_getByID up i)" unfolding idp_getByID_def
    by (rule draws_guarded, rule drawsI) (auto split: option.splits)
  show "draws (idp_insertUser up now i em d)" unfolding idp_insertUser_def
    by (rule draws_guarded, rule drawsI) (auto split: if_splits)
  have "draws (guarded ip_tick UserOther (\<lambda>s. case find (has_email e) (ip_users s) of
            Some r \<Rightarrow> (Inr (ur_id r), s) | None \<Rightarrow> (Inr [], s)))"
    by (rule draws_guarded, rule drawsI) (auto split: option.splits)
  then show "draws (idp_userIDByEmail e)" by (simp add: draws_def idp_userIDByEmail_def)
qed

lemma draws_link: "draws (guarded ip_tick UserOther (\<lambda>s5. idp_getByID up i (s5\<lparr>ip_links := ls s5\<rparr>)))"
  by (rule draws_guarded, rule drawsI) (auto dest!: drawsD [OF draws_ops(1)])

lemma draws_ensure: "(if x = [] then
      (let (i, s2) = ip_uuid s1; (r, s3) = idp_insertUser up now i em d s2
       in (case r of Inl e \<Rightarrow> (Inl e, s3) | Inr _ \<Rightarrow> (Inr i, s3))) else (Inr x, s1)) = (q, s4) \<Longrightarrow>
    set (ip_uuids s4) \<subseteq> set (ip_uuids s1)"
  by (cases "x = []") (auto split: prod.splits sum.splits dest!: ip_uuids_less(2) drawsD [OF draws_ops(2)])

lemma draws_Upsert: "draws (idp_UpsertOAuthUser up now p sub email d)"
  unfolding Upsert_body upsert_body_def
proof (rule draws_BeginFunc, rule draws_guarded, rule drawsI)
  fix s r s'
  let ?ensure = "\<lambda>x s1. if x = [] then
      (let (i, s2) = ip_uuid s1; (r, s3) = idp_insertUser up now i (if email \<noteq> [] then Some email else None) d s2
       in (case r of Inl e \<Rightarrow> (Inl e, s3) | Inr _ \<Rightarrow> (Inr i, s3))) else (Inr x, s1)"
  let ?link = "\<lambda>i. guarded ip_tick UserOther (\<lambda>s5. idp_getByID up i
      (s5\<lparr>ip_links := ip_links s5 @ [\<lparr>ol_user_id = i, ol_provider = p, ol_subject = sub\<rparr>]\<rparr>))"
  assume a: "(case find (\<lambda>l. ol_provider l = p \<and> ol_subject l = sub) (ip_links s) of
      Some l \<Rightarrow> idp_getByID up (ol_user_id l) s
    | None \<Rightarrow> (case idp_userIDByEmail email s of (Inl e, s1) \<Rightarrow> (Inl e, s1)
        | (Inr x, s1) \<Rightarrow> (case ?ensure x s1 of (Inl e, s4) \<Rightarrow> (Inl e, s4) | (Inr i, s4) \<Rightarrow> ?link i s4))) = (r, s')"
  show "set (ip_uuids s') \<subseteq> set (ip_uuids s)"
  proof (cases "find (\<lambda>l. ol_provider l = p \<and> ol_subject l = sub) (ip_links s)")
    case (Some l)
    then show ?thesis using a drawsD [OF draws_ops(1)] by simp
  next
    case None
    obtain q s1 where q: "idp_userIDByEmail email s = (q, s1)" by fastforce
    note s1 = drawsD [OF draws_ops(3) q]
    show ?thesis
    proof (cases q)
      case (Inl e)
      then show ?thesis using a None q s1 by simp
    next
      case (Inr x)
      obtain y s4 where y: "?ensure x s1 = (y, s4)" by (cases "?ensure x s1") auto
      have s4: "set (ip_uuids s4) \<subseteq> set (ip_uuids s1)" by (rule draws_ensure [OF y])
      show ?thesis
      proof (cases y)
        case (Inl e)
        then show ?thesis using a None q y s1 s4 \<open>q = Inr x\<close> by auto
      next
        case (Inr i)
        then have "?link i s4 = (r, s')" using a None q y \<open>q = Inr x\<close> by simp
        from drawsD [OF draws_link this] s1 s4 show ?thesis by blast
      qed
    qed
  qed
qed

lemma draws_Create: "draws (idp_CreateEmailUser up now email d h)"
  unfolding idp_CreateEmailUser_def
proof (rule draws_BeginFunc, rule drawsI)
  fix s r s'
  let ?cred = "\<lambda>i. guarded ip_tick UserOther (\<lambda>s3.
      if find (\<lambda>c. cd_user_id c = i) (ip_creds s3) \<noteq> None then (Inl UserOther, s3) else
      idp_getByID up i (s3\<lparr>ip_creds := ip_creds s3 @ [\<lparr>cd_user_id = i, cd_type = ''password'', cd_password_hash = h\<rparr>]\<rparr>))"
  assume a: "(let (i, s1) = ip_uuid s in case idp_insertUser up now i (Some email) d s1 of
      (Inl e, s2) \<Rightarrow> (Inl e, s2) | (Inr _, s2) \<Rightarrow> ?cred i s2) = (r, s')"
  have c: "draws (?cred i)" for i
    by (rule draws_guarded, rule drawsI) (auto split: if_splits dest!: drawsD [OF draws_ops(1)])
  obtain i s1 where i: "ip_uuid s = (i, s1)" by fastforce
  obtain q s2 where q: "idp_insertUser up now i (Some email) d s1 = (q, s2)" by fastforce
  have "set (ip_uuids s2) \<subseteq> set (ip_uuids s)" using ip_uuids_less(2) [OF i] drawsD [OF draws_ops(2) q] by blast
  moreover have "set (ip_uuids s') \<subseteq> set (ip_uuids s2)"
  proof (cases q)
    case (Inl e)
    then show ?thesis using a i q by simp
  next
    case (Inr u)
    then have "?cred i s2 = (r, s')" using a i q by simp
    from drawsD [OF c this] show ?thesis .
  qed
  ultimately show "set (ip_uuids s') \<subseteq> set (ip_uuids s)" by blast
qed

lemma failed_call:
  assumes "BeginFunc b s = (Inl e, s')" and "draws (BeginFunc b)" and "id_inv up s"
  shows "same_users s s' \<and> id_inv up s'"
  using same_users_inv [OF BeginFunc_err [OF assms(1)] drawsD [OF assms(2,1)] assms(3)] BeginFunc_err [OF assms(1)] by blast

text \<open>What a successful registration did.\<close>

lemma Create_ok:
  assumes inv: "id_inv up s" and run: "idp_CreateEmailUser up now email d h s = (Inr u, s')"
  shows "id_inv up s' \<and> ip_links s' = ip_links s \<and> found_by_email s email = None \<and>
    us_ID u \<notin> ur_id ` set (ip_users s) \<and> (\<exists>r. ip_users s' = ip_users s @ [r] \<and> u = scanUser r) \<and>
    ip_creds s' = ip_creds s @ [\<lparr>cd_user_id = us_ID u, cd_type = ''password'', cd_password_hash = h\<rparr>]"
proof -
  from BeginFunc_ok [OF run [unfolded idp_CreateEmailUser_def]] obtain t s2 where
    t: "same_users s t" "ip_uuids t = ip_uuids s" and s2: "same_users s2 s'" "ip_uuids s' = ip_uuids s2" and
    body: "(let (i, s1) = ip_uuid t in case idp_insertUser up now i (Some email) d s1 of
        (Inl e, s2) \<Rightarrow> (Inl e, s2) | (Inr _, s2) \<Rightarrow> guarded ip_tick UserOther (\<lambda>s3.
      if find (\<lambda>c. cd_user_id c = i) (ip_creds s3) \<noteq> None then (Inl UserOther, s3) else
      idp_getByID up i (s3\<lparr>ip_creds := ip_creds s3 @ [\<lparr>cd_user_id = i, cd_type = ''password'', cd_password_hash = h\<rparr>]\<rparr>)) s2) = (Inr u, s2)"
    by blast
  obtain i s1 where i: "ip_uuid t = (i, s1)" by fastforce
  obtain q s3 where q: "idp_insertUser up now i (Some email) d s1 = (q, s3)" by fastforce
  from body i q obtain v where v: "q = Inr v" and
    g: "guarded ip_tick UserOther (\<lambda>s3. if find (\<lambda>c. cd_user_id c = i) (ip_creds s3) \<noteq> None then (Inl UserOther, s3) else
      idp_getByID up i (s3\<lparr>ip_creds := ip_creds s3 @ [\<lparr>cd_user_id = i, cd_type = ''password'', cd_password_hash = h\<rparr>]\<rparr>)) s3 = (Inr u, s2)"
    by (cases q) auto
  from guarded_ok [OF g] obtain s4 where s4: "same_users s3 s4" "ip_uuids s4 = ip_uuids s3" and
    get: "idp_getByID up i (s4\<lparr>ip_creds := ip_creds s4 @ [\<lparr>cd_user_id = i, cd_type = ''password'', cd_password_hash = h\<rparr>]\<rparr>) = (Inr u, s2)"
    by (auto split: if_splits)
  note ins = insertUser_ok [OF q [unfolded v]]
  have st1: "same_users s s1" using t(1) ip_uuid_same [OF i] by (simp add: same_users_def)
  have inv1: "id_inv up s1" using same_users_inv [OF st1 _ inv] ip_uuids_less(2) [OF i] t(2) by simp
  have "up i = Some i"
  proof (cases "ip_uuids t")
    case (Cons a as)
    with i have "i = a" by (simp add: ip_uuid_def)
    with Cons t(2) inv show ?thesis by (simp add: id_inv_def)
  next
    case Nil
    with i have "i = []" by (simp add: ip_uuid_def)
    with ins inv show ?thesis by (simp add: id_inv_def)
  qed
  note inv3 = insertUser_inv [OF inv1 this q [unfolded v]]
  from getByID_ok [OF get] \<open>up i = Some i\<close> obtain r where r: "r \<in> set (ip_users s4)" "ur_id r = i" "u = scanUser r"
    and sm: "same_users (s4\<lparr>ip_creds := ip_creds s4 @ [\<lparr>cd_user_id = i, cd_type = ''password'', cd_password_hash = h\<rparr>]\<rparr>) s2"
      "ip_uuids s2 = ip_uuids s4" by auto
  let ?new = "\<lparr>ur_id = i, ur_email = Some email, ur_display_name = d, ur_status = ''active'', ur_created_at = now\<rparr>"
  have us: "ip_users s' = ip_users s @ [?new]" "ip_users s4 = ip_users s @ [?new]"
    "ip_links s' = ip_links s" "ip_creds s' = ip_creds s @ [\<lparr>cd_user_id = i, cd_type = ''password'', cd_password_hash = h\<rparr>]"
    using ins st1 s4(1) sm(1) s2(1) by (simp_all add: same_users_def)
  have fresh: "i \<notin> ur_id ` set (ip_users s)"
    using find_NoneD [of "\<lambda>r. ur_id r = i" "ip_users s1"] ins st1 by (auto simp: same_users_def)
  with r us(2) have "r = ?new" by auto
  moreover have "found_by_email s email = None" using ins st1 by (simp add: found_by_email_def same_users_def)
  moreover have "id_inv up s'"
    using inv3 s4 sm s2 by (auto simp: id_inv_def same_users_def)
  ultimately show ?thesis using us fresh r(2,3) by (auto simp: scanUser_def)
qed

text \<open>Calls that write users, with their outcomes.\<close>

datatype user_call =
    UserUpsert time string string string string
  | UserCreate time string string string

fun user_step :: "(string \<Rightarrow> string option) \<Rightarrow> user_call \<Rightarrow> id_pg \<Rightarrow> (user_error + user) \<times> id_pg" where
  "user_step up (UserUpsert now p sub email d) s = idp_UpsertOAuthUser up now p sub email d s"
| "user_step up (UserCreate now email d h) s = idp_CreateEmailUser up now email d h s"

fun user_run :: "(string \<Rightarrow> string option) \<Rightarrow> user_call list \<Rightarrow> id_pg \<Rightarrow> (user_error + user) list \<times> id_pg" where
  "user_run up [] s = ([], s)"
| "user_run up (c # cs) s = (let (r, s1) = user_step up c s; (rs, s2) = user_run up cs s1 in (r # rs, s2))"

lemma user_step_keeps:
  assumes "id_inv up s" and "user_step up c s = (r, s')"
  shows "id_inv up s' \<and> (\<forall>p sub i. linked_user s p sub = Some i \<longrightarrow> linked_user s' p sub = Some i)"
proof (cases r)
  case (Inl e)
  have "same_users s s' \<and> id_inv up s'"
  proof (cases c)
    case (UserUpsert now p sub email d)
    then have "BeginFunc (upsert_body up now p sub email d) s = (Inl e, s')" using assms(2) Inl by (simp add: Upsert_body)
    from failed_call [OF this draws_Upsert [unfolded Upsert_body] assms(1)] show ?thesis .
  next
    case (UserCreate now email d h)
    then have "idp_CreateEmailUser up now email d h s = (Inl e, s')" using assms(2) Inl by simp
    from failed_call [OF this [unfolded idp_CreateEmailUser_def]
        draws_Create [of up now email d h, unfolded idp_CreateEmailUser_def] assms(1)] show ?thesis .
  qed
  then show ?thesis by (simp add: same_users_def linked_user_def)
next
  case (Inr u)
  show ?thesis
  proof (cases c)
    case (UserUpsert now p sub email d)
    then have "idp_UpsertOAuthUser up now p sub email d s = (Inr u, s')" using assms(2) Inr by simp
    note U = Upsert_ok [OF assms(1) this]
    have "linked_user s' q z = Some i" if "linked_user s q z = Some i" for q z i
    proof (cases "linked_user s p sub")
      case (Some j)
      with U that show ?thesis by (auto simp: linked_user_def)
    next
      case None
      with U linked_user_append(2) [OF that] show ?thesis by auto
    qed
    with U show ?thesis by blast
  next
    case (UserCreate now email d h)
    then have "idp_CreateEmailUser up now email d h s = (Inr u, s')" using assms(2) Inr by simp
    from Create_ok [OF assms(1) this] show ?thesis by (simp add: linked_user_def)
  qed
qed

lemma user_run_keeps:
  assumes "id_inv up s" and "user_run up cs s = (rs, s')"
  shows "id_inv up s' \<and> (\<forall>p sub i. linked_user s p sub = Some i \<longrightarrow> linked_user s' p sub = Some i) \<and>
    (\<forall>k u now p sub email d. k < length cs \<longrightarrow> cs ! k = UserUpsert now p sub email d \<longrightarrow> rs ! k = Inr u \<longrightarrow>
       linked_user s' p sub = Some (us_ID u))"
  using assms
proof (induction cs arbitrary: s rs)
  case Nil
  then show ?case by simp
next
  case (Cons c cs)
  obtain r s1 where 1: "user_step up c s = (r, s1)" by fastforce
  obtain rs' s2 where 2: "user_run up cs s1 = (rs', s2)" by fastforce
  have o: "rs = r # rs'" "s2 = s'" using Cons.prems(2) 1 2 by simp_all
  note st = user_step_keeps [OF Cons.prems(1) 1]
  note IH = Cons.IH [OF conjunct1 [OF st] 2 [unfolded o(2)]]
  have "linked_user s' p sub = Some (us_ID u)"
    if k: "k < length (c # cs)" "(c # cs) ! k = UserUpsert now p sub email d" "rs ! k = Inr u" for k u now p sub email d
  proof (cases k)
    case (Suc m)
    with k IH show ?thesis by (simp add: o)
  next
    case 0
    then have "idp_UpsertOAuthUser up now p sub email d s = (Inr u, s1)" using k 1 by (simp add: o)
    note U = Upsert_ok [OF Cons.prems(1) this]
    have "linked_user s1 p sub = Some (us_ID u)"
    proof (cases "linked_user s p sub")
      case (Some i)
      with U show ?thesis by (auto simp: linked_user_def)
    next
      case None
      with U show ?thesis by (auto intro: linked_user_append)
    qed
    with IH show ?thesis by blast
  qed
  with IH st show ?case by blast
qed

text \<open>C20: an external identity always signs in to the same account. Over any run of social sign-ins
  (\<open>UpsertOAuthUser\<close>) and registrations (\<open>CreateEmailUser\<close>), whatever statements fail, no link from a
  provider's subject to a user changes or is lost; every sign-in that succeeds resolves to the user its
  identity was linked to before, if it was, and stays linked to; so two of them with the same identity give
  the same user; and the tables stay well formed (unique ids, unique emails, one link per identity, to
  an existing user).\<close>

theorem oauth_identity_stable:
  assumes "id_inv up s" and "user_run up cs s = (rs, s')"
  shows "id_inv up s' \<and>
    (\<forall>p sub i. linked_user s p sub = Some i \<longrightarrow> linked_user s' p sub = Some i) \<and>
    (\<forall>k u now p sub email d. k < length cs \<longrightarrow> cs ! k = UserUpsert now p sub email d \<longrightarrow> rs ! k = Inr u \<longrightarrow>
       linked_user s' p sub = Some (us_ID u) \<and> (\<forall>i. linked_user s p sub = Some i \<longrightarrow> us_ID u = i) \<and>
       (\<forall>k' u' now' email' d'. k' < length cs \<longrightarrow> cs ! k' = UserUpsert now' p sub email' d' \<longrightarrow> rs ! k' = Inr u' \<longrightarrow>
          us_ID u' = us_ID u))"
proof -
  note run = user_run_keeps [OF assms]
  have same: "us_ID u' = us_ID u" if "k < length cs" "cs ! k = UserUpsert now p sub email d" "rs ! k = Inr u"
    "k' < length cs" "cs ! k' = UserUpsert now' p sub email' d'" "rs ! k' = Inr u'" for k k' u u' now now' p sub email email' d d'
  proof -
    from run that have "linked_user s' p sub = Some (us_ID u)" "linked_user s' p sub = Some (us_ID u')" by blast+
    then show ?thesis by simp
  qed
  have before: "us_ID u = i" if "k < length cs" "cs ! k = UserUpsert now p sub email d" "rs ! k = Inr u"
    "linked_user s p sub = Some i" for k u now p sub email d i
  proof -
    from run that have "linked_user s' p sub = Some (us_ID u)" "linked_user s' p sub = Some i" by blast+
    then show ?thesis by simp
  qed
  show ?thesis
    by (intro conjI allI impI)
      (use run in blast, use run in blast, use run in blast, use before in blast, use same in blast)
qed

definition ex_idpg :: id_pg where
  "ex_idpg = \<lparr>ip_users = [\<lparr>ur_id = ''a'', ur_email = Some ''M@x'', ur_display_name = ''A'', ur_status = ''active'',
      ur_created_at = 0\<rparr>], ip_creds = [\<lparr>cd_user_id = ''a'', cd_type = ''password'', cd_password_hash = ''h''\<rparr>],
     ip_links = [], ip_uuids = [''b''], ip_faults = []\<rparr>"

definition ex_uuid :: "string \<Rightarrow> string option" where
  "ex_uuid x = (if x = [] then None else Some x)"

lemma ex_idpg_inv [simp]: "id_inv ex_uuid ex_idpg"
  by (simp add: id_inv_def ex_idpg_def ex_uuid_def)

lemma ex_fold [simp]: "EqualFold ''M@x'' ''m@x''"
  by code_simp

lemma ex_upsert:
  "\<exists>s'. idp_UpsertOAuthUser ex_uuid 0 ''google'' ''g1'' ''m@x'' ''Z'' ex_idpg =
     (Inr (scanUser (hd (ip_users ex_idpg))), s')"
  by (simp add: idp_UpsertOAuthUser_def BeginFunc_def guarded_def ip_tick_def ex_idpg_def ex_uuid_def
      idp_userIDByEmail_def has_email_def idp_getByID_def)

text \<open>Two sign-ins of one identity, the second with another email and after a registration that fails.\<close>

definition ex_user_calls :: "user_call list" where
  "ex_user_calls = [UserUpsert 0 ''google'' ''g1'' ''m@x'' ''Z'', UserCreate 1 ''M@x'' ''Y'' ''h2'',
     UserUpsert 2 ''google'' ''g1'' ''new@x'' ''Z'']"

theorem oauth_identity_stable_witness:
  "\<exists>u u' s'. user_run ex_uuid ex_user_calls ex_idpg = ([Inr u, Inl UserOther, Inr u'], s') \<and>
     us_ID u' = us_ID u \<and> linked_user s' ''google'' ''g1'' = Some ''a'' \<and> id_inv ex_uuid s'"
proof -
  obtain rs s' where run: "user_run ex_uuid ex_user_calls ex_idpg = (rs, s')" by fastforce
  have "map (\<lambda>r. case r of Inl e \<Rightarrow> None | Inr u \<Rightarrow> Some (us_ID u)) (fst (user_run ex_uuid ex_user_calls ex_idpg)) =
      [Some ''a'', None, Some ''a''] \<and> fst (user_run ex_uuid ex_user_calls ex_idpg) ! 1 = Inl UserOther"
    by code_simp
  then have v: "map (\<lambda>r. case r of Inl e \<Rightarrow> None | Inr u \<Rightarrow> Some (us_ID u)) rs = [Some ''a'', None, Some ''a'']"
    "rs ! 1 = Inl UserOther" by (simp_all add: run)
  then obtain r0 r1 r2 where rs: "rs = [r0, r1, r2]" by (auto simp: map_eq_Cons_conv)
  with v obtain u u' where u: "rs = [Inr u, Inl UserOther, Inr u']" "us_ID u = ''a''" "us_ID u' = ''a''"
    by (cases r0; cases r2; simp)
  note t = oauth_identity_stable [OF ex_idpg_inv run]
  have k: "0 < length ex_user_calls" "ex_user_calls ! 0 = UserUpsert 0 ''google'' ''g1'' ''m@x'' ''Z''" "rs ! 0 = Inr u"
    by (simp_all add: ex_user_calls_def u)
  have l: "linked_user s' ''google'' ''g1'' = Some (us_ID u)"
    by (rule conjunct1 [OF conjunct2 [OF conjunct2 [OF t], rule_format, OF k]])
  show ?thesis by (intro exI [of _ u] exI [of _ u'] exI [of _ s'] conjI) (simp_all add: run u l [unfolded u] conjunct1 [OF t])
qed

end
