(* ===== verification/Jwt_Verifier.thy ===== *)
theory Jwt_Verifier
  imports Base64
begin

text \<open>
  The local verification of access tokens, \<open>services/backend/poll/internal/infra/auth\<close>
  (\<open>verifier.go\<close>, \<open>auth.go\<close>); the API gateway carries the same verifier
  (\<open>api-gateway/internal/auth/verifier.go\<close>). A cached key set is refreshed from the JWKS
  source, the signature is checked against it, then the claims.

  The JSON decoder and the two signature schemes are not code of the repository; they are the
  fields of \<open>jwt_lib\<close>. A call reads the clock three times at most (\<open>vc_now1\<close> for the age of
  the cache, \<open>vc_now2\<close> after a fetch, \<open>vc_now3\<close> for the claims), and \<open>vc_fetch\<close> is what the
  source would answer. A Go run-time panic is the result \<open>None\<close>.
\<close>

section \<open>Data\<close>

record claims =
  cl_Subject :: string
  cl_Issuer :: string
  cl_JTI :: string

record jwk =
  jk_Kty :: string
  jk_Kid :: string
  jk_N :: string
  jk_E :: string
  jk_Crv :: string
  jk_X :: string

text \<open>An RSA key is its modulus (big-endian bytes) and exponent, an Ed25519 key its 32 bytes.\<close>

datatype public_key = RSAKey string int | EdKey string

datatype jwt_error =
  ErrMalformedToken | ErrUnknownKey | ErrBadSignature | ErrExpired | ErrClaims string | ErrNoKeys

record verifier =
  vf_issuer :: string
  vf_audience :: string
  vf_ttl :: duration
  vf_keys :: "(string, public_key) gomap"
  vf_fetchedAt :: time
  vf_haveKeys :: bool

text \<open>
  \<open>jl_header\<close> decodes a header to (alg, kid), \<open>jl_object\<close> a payload to its members, and
  \<open>jl_num\<close>, \<open>jl_str\<close>, \<open>jl_strs\<close> decode a member as a number (already converted to int64), a
  string and a list of strings.
\<close>

record 'j jwt_lib =
  jl_header :: "string \<Rightarrow> (string \<times> string) option"
  jl_object :: "string \<Rightarrow> (string \<Rightarrow> 'j option) option"
  jl_num :: "'j \<Rightarrow> int option"
  jl_str :: "'j \<Rightarrow> string option"
  jl_strs :: "'j \<Rightarrow> string list option"
  jl_rsa :: "string \<Rightarrow> int \<Rightarrow> string \<Rightarrow> string \<Rightarrow> bool"
  jl_ed :: "string \<Rightarrow> string \<Rightarrow> string \<Rightarrow> bool"

record verify_call =
  vc_now1 :: time
  vc_now2 :: time
  vc_now3 :: time
  vc_fetch :: "jwk list option"

definition NewVerifier :: "string \<Rightarrow> string \<Rightarrow> duration \<Rightarrow> verifier" where
  "NewVerifier issuer audience refreshTTL =
     \<lparr>vf_issuer = issuer, vf_audience = audience,
      vf_ttl = (if refreshTTL = 0 then 600 * ns_per_sec else refreshTTL),
      vf_keys = Map.empty, vf_fetchedAt = 0, vf_haveKeys = False\<rparr>"

section \<open>JWK to public key\<close>

definition be_uint :: "string \<Rightarrow> int" where
  "be_uint s = fold (\<lambda>c n. n * 256 + of_char c) s 0"

text \<open>
  \<open>copy(padded[8-len(eBytes):], eBytes)\<close>: with more than eight bytes the slice bound is
  negative, a panic. The result is \<open>None\<close> for a panic, \<open>Some None\<close> for an error.
\<close>

definition publicKey :: "jwk \<Rightarrow> public_key option option" where
  "publicKey j =
     (if jk_Kty j = ''RSA'' then
        (case RawURLDecode (TrimRight1 (jk_N j) (CHR ''='')) of
           None \<Rightarrow> Some None
         | Some nBytes \<Rightarrow>
             (case RawURLDecode (TrimRight1 (jk_E j) (CHR ''='')) of
                None \<Rightarrow> Some None
              | Some eBytes \<Rightarrow>
                  if eBytes = [] then Some None
                  else if 8 < length eBytes then None
                  else Some (Some (RSAKey nBytes (wrap64 (be_uint eBytes))))))
      else if jk_Kty j = ''OKP'' then
        (if jk_Crv j \<noteq> ''Ed25519'' then Some None
         else case RawURLDecode (TrimRight1 (jk_X j) (CHR ''='')) of
           None \<Rightarrow> Some None
         | Some xBytes \<Rightarrow> if length xBytes \<noteq> 32 then Some None else Some (Some (EdKey xBytes)))
      else Some None)"

section \<open>The key cache\<close>

text \<open>The parsed keys, the latest first, so that a repeated kid reads as the last one.\<close>

fun parse_keys :: "jwk list \<Rightarrow> (string \<times> public_key) list \<Rightarrow> (string \<times> public_key) list option" where
  "parse_keys [] m = Some m"
| "parse_keys (j # js) m =
     (case publicKey j of
        None \<Rightarrow> None
      | Some None \<Rightarrow> parse_keys js m
      | Some (Some pk) \<Rightarrow> parse_keys js ((jk_Kid j, pk) # m))"

text \<open>The boolean says that the refresh succeeded.\<close>

definition refreshLocked :: "verify_call \<Rightarrow> verifier \<Rightarrow> (bool \<times> verifier) option" where
  "refreshLocked vc v =
     (case vc_fetch vc of
        None \<Rightarrow> Some (False, v)
      | Some keys \<Rightarrow>
          (case parse_keys keys [] of
             None \<Rightarrow> None
           | Some parsed \<Rightarrow>
               if parsed = [] then Some (False, v)
               else Some (True, v\<lparr>vf_keys := map_of parsed, vf_fetchedAt := vc_now2 vc, vf_haveKeys := True\<rparr>)))"

definition keyFor :: "verify_call \<Rightarrow> string \<Rightarrow> verifier \<Rightarrow> ((jwt_error + public_key) \<times> verifier) option" where
  "keyFor vc kid v =
     (let stale = (\<not> vf_haveKeys v \<or> vf_ttl v \<le> vc_now1 vc - vf_fetchedAt v);
          lookup = (\<lambda>v. case vf_keys v kid of None \<Rightarrow> Inl ErrUnknownKey | Some k \<Rightarrow> Inr k)
      in if stale \<or> vf_keys v kid = None then
           (case refreshLocked vc v of
              None \<Rightarrow> None
            | Some (ok, v') \<Rightarrow>
                if \<not> ok \<and> \<not> vf_haveKeys v' then Some (Inl ErrNoKeys, v') else Some (lookup v', v'))
         else Some (lookup v, v))"

section \<open>Signature and claims\<close>

definition verifySignature :: "'j jwt_lib \<Rightarrow> string \<Rightarrow> public_key \<Rightarrow> string \<Rightarrow> string \<Rightarrow> jwt_error + unit" where
  "verifySignature L alg key signingInput sig =
     (if alg = ''RS256'' then
        (case key of
           RSAKey n e \<Rightarrow> if jl_rsa L n e signingInput sig then Inr () else Inl ErrBadSignature
         | EdKey x \<Rightarrow> Inl ErrBadSignature)
      else if alg = ''EdDSA'' then
        (case key of
           EdKey x \<Rightarrow> if jl_ed L x signingInput sig then Inr () else Inl ErrBadSignature
         | RSAKey n e \<Rightarrow> Inl ErrBadSignature)
      else Inl ErrBadSignature)"

definition numericClaim :: "'j jwt_lib \<Rightarrow> (string \<Rightarrow> 'j option) \<Rightarrow> string \<Rightarrow> int option" where
  "numericClaim L raw k = Option.bind (raw k) (jl_num L)"

definition stringClaim :: "'j jwt_lib \<Rightarrow> (string \<Rightarrow> 'j option) \<Rightarrow> string \<Rightarrow> string" where
  "stringClaim L raw k =
     (case raw k of None \<Rightarrow> [] | Some v \<Rightarrow> (case jl_str L v of None \<Rightarrow> [] | Some s \<Rightarrow> s))"

definition audienceContains :: "'j jwt_lib \<Rightarrow> (string \<Rightarrow> 'j option) \<Rightarrow> string \<Rightarrow> bool" where
  "audienceContains L raw want =
     (case raw ''aud'' of
        None \<Rightarrow> False
      | Some v \<Rightarrow>
          (case jl_str L v of
             Some single \<Rightarrow> single = want
           | None \<Rightarrow> (case jl_strs L v of Some many \<Rightarrow> want \<in> set many | None \<Rightarrow> False)))"

definition validateClaims :: "'j jwt_lib \<Rightarrow> verifier \<Rightarrow> time \<Rightarrow> string \<Rightarrow> jwt_error + claims" where
  "validateClaims L v now payload =
     (case jl_object L payload of
        None \<Rightarrow> Inl ErrMalformedToken
      | Some raw \<Rightarrow>
        (case numericClaim L raw ''exp'' of
           None \<Rightarrow> Inl (ErrClaims ''missing exp'')
         | Some exp \<Rightarrow>
           if exp * ns_per_sec < now then Inl ErrExpired
           else if (case numericClaim L raw ''nbf'' of
                      None \<Rightarrow> False
                    | Some nbf \<Rightarrow> now + 30 * ns_per_sec < nbf * ns_per_sec)
             then Inl (ErrClaims ''token not yet valid'')
           else if vf_issuer v \<noteq> [] \<and> stringClaim L raw ''iss'' \<noteq> vf_issuer v
             then Inl (ErrClaims ''issuer mismatch'')
           else if vf_audience v \<noteq> [] \<and> \<not> audienceContains L raw (vf_audience v)
             then Inl (ErrClaims ''audience mismatch'')
           else let sub = stringClaim L raw ''sub'' in
             if sub = [] then Inl (ErrClaims ''missing sub'')
             else Inr \<lparr>cl_Subject = sub, cl_Issuer = stringClaim L raw ''iss'',
                       cl_JTI = stringClaim L raw ''jti''\<rparr>))"

section \<open>Verify\<close>

definition Verify ::
  "'j jwt_lib \<Rightarrow> verify_call \<Rightarrow> string \<Rightarrow> verifier \<Rightarrow> ((jwt_error + claims) \<times> verifier) option" where
  "Verify L vc token v =
     (case Split token (CHR ''.'') of
        [p0, p1, p2] \<Rightarrow>
          if p0 = [] \<or> p1 = [] \<or> p2 = [] then Some (Inl ErrMalformedToken, v) else
          (case RawURLDecode p0 of
             None \<Rightarrow> Some (Inl ErrMalformedToken, v)
           | Some hdrBytes \<Rightarrow>
             (case jl_header L hdrBytes of
                None \<Rightarrow> Some (Inl ErrMalformedToken, v)
              | Some (alg, kid) \<Rightarrow>
                (case keyFor vc kid v of
                   None \<Rightarrow> None
                 | Some (Inl e, v') \<Rightarrow> Some (Inl e, v')
                 | Some (Inr key, v') \<Rightarrow>
                   (case RawURLDecode p2 of
                      None \<Rightarrow> Some (Inl ErrMalformedToken, v')
                    | Some sig \<Rightarrow>
                      (case verifySignature L alg key (p0 @ ''.'' @ p1) sig of
                         Inl e \<Rightarrow> Some (Inl e, v')
                       | Inr _ \<Rightarrow>
                         (case RawURLDecode p1 of
                            None \<Rightarrow> Some (Inl ErrMalformedToken, v')
                          | Some payload \<Rightarrow> Some (validateClaims L v' (vc_now3 vc) payload, v')))))))
      | _ \<Rightarrow> Some (Inl ErrMalformedToken, v))"

section \<open>The interceptor (auth.go)\<close>

definition bearer_prefix :: string where
  "bearer_prefix = ''Bearer ''"

definition bearerFromMetadata :: "md option \<Rightarrow> string" where
  "bearerFromMetadata m =
     (case m of
        None \<Rightarrow> []
      | Some m \<Rightarrow>
          (case md_get m ''authorization'' of
             [] \<Rightarrow> []
           | v # _ \<Rightarrow>
               if length bearer_prefix < length v \<and> take (length bearer_prefix) v = bearer_prefix
               then drop (length bearer_prefix) v else v))"

text \<open>The subject the interceptor leaves in the handler's context, if the call does not panic.\<close>

definition Unary :: "'j jwt_lib \<Rightarrow> verify_call \<Rightarrow> md option \<Rightarrow> verifier \<Rightarrow> (string option \<times> verifier) option" where
  "Unary L vc m v =
     (let raw = bearerFromMetadata m in
      if raw \<noteq> [] then
        (case Verify L vc raw v of
           None \<Rightarrow> None
         | Some (Inl e, v') \<Rightarrow> Some (None, v')
         | Some (Inr c, v') \<Rightarrow> Some (Some (cl_Subject c), v'))
      else Some (None, v))"

section \<open>What an accepted token is\<close>

definition alg_fits :: "string \<Rightarrow> public_key \<Rightarrow> bool" where
  "alg_fits alg key \<longleftrightarrow> (case key of RSAKey n e \<Rightarrow> alg = ''RS256'' | EdKey x \<Rightarrow> alg = ''EdDSA'')"

definition sig_valid :: "'j jwt_lib \<Rightarrow> public_key \<Rightarrow> string \<Rightarrow> string \<Rightarrow> bool" where
  "sig_valid L key inp sig = (case key of RSAKey n e \<Rightarrow> jl_rsa L n e inp sig | EdKey x \<Rightarrow> jl_ed L x inp sig)"

text \<open>The claims a verifier expecting \<open>issuer\<close> and \<open>audience\<close> accepts at \<open>now\<close>.\<close>

definition claims_hold ::
  "'j jwt_lib \<Rightarrow> string \<Rightarrow> string \<Rightarrow> time \<Rightarrow> (string \<Rightarrow> 'j option) \<Rightarrow> claims \<Rightarrow> bool" where
  "claims_hold L issuer audience now raw c \<longleftrightarrow>
     (\<exists>exp. numericClaim L raw ''exp'' = Some exp \<and> now \<le> exp * ns_per_sec) \<and>
     (\<forall>nbf. numericClaim L raw ''nbf'' = Some nbf \<longrightarrow> nbf * ns_per_sec \<le> now + 30 * ns_per_sec) \<and>
     (issuer = [] \<or> stringClaim L raw ''iss'' = issuer) \<and>
     (audience = [] \<or> audienceContains L raw audience) \<and>
     stringClaim L raw ''sub'' \<noteq> [] \<and>
     c = \<lparr>cl_Subject = stringClaim L raw ''sub'', cl_Issuer = stringClaim L raw ''iss'',
          cl_JTI = stringClaim L raw ''jti''\<rparr>"

lemma verifySignature_iff: "verifySignature L alg key inp sig = Inr u \<longleftrightarrow> alg_fits alg key \<and> sig_valid L key inp sig"
  by (cases key) (auto simp: verifySignature_def alg_fits_def sig_valid_def)

lemma validateClaims_iff:
  "validateClaims L v now payload = Inr c \<longleftrightarrow>
   (\<exists>raw. jl_object L payload = Some raw \<and> claims_hold L (vf_issuer v) (vf_audience v) now raw c)"
  by (auto simp: validateClaims_def claims_hold_def Let_def not_less not_le split: option.splits if_splits)

lemma Split_three:
  "Split s c = [x, y, z] \<longleftrightarrow> s = x @ c # y @ c # z \<and> c \<notin> set x \<and> c \<notin> set y \<and> c \<notin> set z"
proof
  assume a: "Split s c = [x, y, z]"
  have no: "\<forall>p \<in> set (Split s c). c \<notin> set p" for s
    by (induction s) (auto split: list.splits)
  have "s = Join [x, y, z] [c]" using Join_Split [of s c] a by simp
  with no [of s] a show "s = x @ c # y @ c # z \<and> c \<notin> set x \<and> c \<notin> set y \<and> c \<notin> set z" by simp
next
  assume "s = x @ c # y @ c # z \<and> c \<notin> set x \<and> c \<notin> set y \<and> c \<notin> set z"
  then show "Split s c = [x, y, z]" by (simp add: Split_append Split_no_sep)
qed

lemma parse_keys_panic: "parse_keys js m = None \<longleftrightarrow> (\<exists>j \<in> set js. publicKey j = None)"
proof (induction js arbitrary: m)
  case Nil
  then show ?case by simp
next
  case (Cons j js)
  then show ?case by (cases "publicKey j") (auto split: option.split simp del: fun_upd_apply)
qed

lemma parse_keys_source:
  "parse_keys js m = Some m' \<Longrightarrow> map_of m' kid = Some k \<Longrightarrow>
   map_of m kid = Some k \<or> (\<exists>j \<in> set js. jk_Kid j = kid \<and> publicKey j = Some (Some k))"
  by (induction js m rule: parse_keys.induct) (auto split: option.splits if_splits)

lemma keyFor_result:
  "keyFor vc kid v = Some (r, v') \<Longrightarrow>
   vf_issuer v' = vf_issuer v \<and> vf_audience v' = vf_audience v \<and> vf_ttl v' = vf_ttl v \<and>
   (r = Inl ErrNoKeys \<or> r = Inl ErrUnknownKey \<or> (\<exists>k. r = Inr k \<and> vf_keys v' kid = Some k)) \<and>
   (v' = v \<or> (\<exists>js m. vc_fetch vc = Some js \<and> parse_keys js [] = Some m \<and> m \<noteq> [] \<and>
      v' = v\<lparr>vf_keys := map_of m, vf_fetchedAt := vc_now2 vc, vf_haveKeys := True\<rparr>))"
  by (auto simp: keyFor_def refreshLocked_def Let_def split: if_splits option.splits)

lemma Verify_cases:
  assumes "Verify L vc token v = Some (r, v')"
  shows "(\<exists>e. r = Inl e) \<and> v' = v \<or>
    (\<exists>p0 p1 p2 h alg kid k. Split token (CHR ''.'') = [p0, p1, p2] \<and> p0 \<noteq> [] \<and> p1 \<noteq> [] \<and> p2 \<noteq> [] \<and>
      RawURLDecode p0 = Some h \<and> jl_header L h = Some (alg, kid) \<and> keyFor vc kid v = Some (k, v') \<and>
      ((\<exists>e. r = Inl e) \<or>
       (\<exists>key sig payload. k = Inr key \<and> RawURLDecode p2 = Some sig \<and>
          verifySignature L alg key (p0 @ ''.'' @ p1) sig = Inr () \<and>
          RawURLDecode p1 = Some payload \<and> r = validateClaims L v' (vc_now3 vc) payload)))"
proof (cases "\<exists>p0 p1 p2 h alg kid. Split token (CHR ''.'') = [p0, p1, p2] \<and> p0 \<noteq> [] \<and> p1 \<noteq> [] \<and> p2 \<noteq> [] \<and>
      RawURLDecode p0 = Some h \<and> jl_header L h = Some (alg, kid)")
  case False
  with assms have "(\<exists>e. r = Inl e) \<and> v' = v"
    by (auto simp: Verify_def split: list.splits if_splits option.splits)
  then show ?thesis by blast
next
  case True
  then obtain p0 p1 p2 h alg kid where s: "Split token (CHR ''.'') = [p0, p1, p2]" "p0 \<noteq> []" "p1 \<noteq> []"
    "p2 \<noteq> []" "RawURLDecode p0 = Some h" "jl_header L h = Some (alg, kid)" by blast
  then obtain k where k: "keyFor vc kid v = Some (k, v')"
    using assms by (auto simp: Verify_def split: option.splits prod.splits sum.splits)
  have "(\<exists>e. r = Inl e) \<or>
       (\<exists>key sig payload. k = Inr key \<and> RawURLDecode p2 = Some sig \<and>
          verifySignature L alg key (p0 @ ''.'' @ p1) sig = Inr () \<and>
          RawURLDecode p1 = Some payload \<and> r = validateClaims L v' (vc_now3 vc) payload)"
    using assms s k by (auto simp: Verify_def split: option.splits sum.splits)
  with s k show ?thesis by blast
qed

text \<open>C19: only authentic tokens are accepted. A token Verify accepts has exactly three segments; the
  key is the one cached for its \<open>kid\<close> and fits its \<open>alg\<close> (an unsigned token or one that names
  another scheme never passes); the signature over the first two segments verifies under that key;
  and expiry, not-before with its 30 s of leeway, issuer, audience and subject all hold for the
  payload the claims are read from.\<close>

theorem verify_sound:
  assumes "Verify L vc token v = Some (Inr c, v')"
  shows "\<exists>p0 p1 p2 h alg kid key sig payload raw.
    token = p0 @ ''.'' @ p1 @ ''.'' @ p2 \<and> CHR ''.'' \<notin> set p0 \<union> set p1 \<union> set p2 \<and>
    RawURLDecode p0 = Some h \<and> jl_header L h = Some (alg, kid) \<and>
    vf_keys v' kid = Some key \<and> alg_fits alg key \<and>
    RawURLDecode p2 = Some sig \<and> sig_valid L key (p0 @ ''.'' @ p1) sig \<and>
    RawURLDecode p1 = Some payload \<and> jl_object L payload = Some raw \<and>
    claims_hold L (vf_issuer v) (vf_audience v) (vc_now3 vc) raw c"
proof -
  from Verify_cases [OF assms] obtain p0 p1 p2 h alg kid key sig payload where
    s: "Split token (CHR ''.'') = [p0, p1, p2]" "RawURLDecode p0 = Some h" "jl_header L h = Some (alg, kid)"
    and k: "keyFor vc kid v = Some (Inr key, v')"
    and r: "RawURLDecode p2 = Some sig" "verifySignature L alg key (p0 @ ''.'' @ p1) sig = Inr ()"
      "RawURLDecode p1 = Some payload" "validateClaims L v' (vc_now3 vc) payload = Inr c"
    by auto
  from keyFor_result [OF k] have "vf_keys v' kid = Some key"
    and "vf_issuer v' = vf_issuer v" "vf_audience v' = vf_audience v" by auto
  moreover from r(4) obtain raw where "jl_object L payload = Some raw"
    "claims_hold L (vf_issuer v') (vf_audience v') (vc_now3 vc) raw c"
    by (auto simp: validateClaims_iff)
  ultimately show ?thesis
    using s r
    by - (rule exI [of _ p0], rule exI [of _ p1], rule exI [of _ p2],
      auto simp: Split_three verifySignature_iff)
qed

text \<open>A library for the examples: JSON objects are the member lists themselves.\<close>

definition ex_lib :: "string jwt_lib" where
  "ex_lib = \<lparr>jl_header = (\<lambda>h. if h = ''h'' then Some (''EdDSA'', ''k'') else None),
     jl_object = (\<lambda>p. if p = ''p'' then Some (map_of [(''exp'', ''9''), (''sub'', ''u'')]) else None),
     jl_num = (\<lambda>v. if v = ''9'' then Some 9 else None), jl_str = Some, jl_strs = (\<lambda>_. None),
     jl_rsa = (\<lambda>_ _ _ _. False), jl_ed = (\<lambda>k inp sig. sig = ''s'')\<rparr>"

definition ex_key :: string where
  "ex_key = replicate 32 (CHR ''x'')"

definition ex_verifier :: verifier where
  "ex_verifier = \<lparr>vf_issuer = [], vf_audience = [], vf_ttl = 600 * ns_per_sec,
     vf_keys = Map.empty(''k'' \<mapsto> EdKey ex_key), vf_fetchedAt = 0, vf_haveKeys = True\<rparr>"

definition ex_call :: "time \<Rightarrow> jwk list option \<Rightarrow> verify_call" where
  "ex_call t f = \<lparr>vc_now1 = t, vc_now2 = t, vc_now3 = t, vc_fetch = f\<rparr>"

text \<open>The compact serialisation an issuer produces.\<close>

definition compact_jwt :: "string \<Rightarrow> string \<Rightarrow> string \<Rightarrow> string" where
  "compact_jwt h p sig = RawURLEncode h @ ''.'' @ RawURLEncode p @ ''.'' @ RawURLEncode sig"

lemma Split_compact:
  "Split (compact_jwt h p sig) (CHR ''.'') = [RawURLEncode h, RawURLEncode p, RawURLEncode sig]"
  by (simp add: compact_jwt_def Split_three)

lemma Verify_compact:
  assumes "h \<noteq> []" "p \<noteq> []" "sig \<noteq> []" and "jl_header L h = Some (alg, kid)"
    and "keyFor vc kid v = Some (Inr key, v')"
    and "alg_fits alg key" and "sig_valid L key (RawURLEncode h @ ''.'' @ RawURLEncode p) sig"
    and "jl_object L p = Some raw" and "claims_hold L (vf_issuer v) (vf_audience v) (vc_now3 vc) raw c"
  shows "Verify L vc (compact_jwt h p sig) v = Some (Inr c, v')"
proof -
  have "verifySignature L alg key (RawURLEncode h @ ''.'' @ RawURLEncode p) sig = Inr ()"
    using assms by (simp add: verifySignature_iff)
  moreover have "validateClaims L v' (vc_now3 vc) p = Inr c"
    using assms keyFor_result [OF assms(5)] by (simp add: validateClaims_iff)
  ultimately show ?thesis
    using assms by (simp add: Verify_def Split_compact RawURLDecode_Encode)
qed

lemma ex_verify:
  assumes "t \<le> 9 * ns_per_sec"
  shows "Verify ex_lib (ex_call t None) (compact_jwt ''h'' ''p'' ''s'') ex_verifier =
    Some (Inr \<lparr>cl_Subject = ''u'', cl_Issuer = [], cl_JTI = []\<rparr>, ex_verifier)"
proof (rule Verify_compact)
  show "jl_header ex_lib ''h'' = Some (''EdDSA'', ''k'')" by (simp add: ex_lib_def)
  show "keyFor (ex_call t None) ''k'' ex_verifier = Some (Inr (EdKey ex_key), ex_verifier)"
    by (simp add: keyFor_def refreshLocked_def ex_verifier_def ex_call_def Let_def)
  show "jl_object ex_lib ''p'' = Some (map_of [(''exp'', ''9''), (''sub'', ''u'')])"
    by (simp add: ex_lib_def)
  show "claims_hold ex_lib (vf_issuer ex_verifier) (vf_audience ex_verifier) (vc_now3 (ex_call t None))
      (map_of [(''exp'', ''9''), (''sub'', ''u'')]) \<lparr>cl_Subject = ''u'', cl_Issuer = [], cl_JTI = []\<rparr>"
    using assms
    by (simp add: claims_hold_def numericClaim_def stringClaim_def ex_lib_def ex_verifier_def ex_call_def)
qed (simp_all add: alg_fits_def sig_valid_def ex_lib_def)

theorem verify_sound_witness:
  "\<exists>v' kid key. Verify ex_lib (ex_call 0 None) (compact_jwt ''h'' ''p'' ''s'') ex_verifier =
      Some (Inr \<lparr>cl_Subject = ''u'', cl_Issuer = [], cl_JTI = []\<rparr>, v') \<and> vf_keys v' kid = Some key"
  using verify_sound [OF ex_verify [of 0]] ex_verify [of 0] by (auto simp: ns_per_sec_def)

text \<open>C35: tokens of the issuer are accepted. The compact serialisation of a header naming a cached
  key, a payload whose claims hold and a signature valid under that key verifies to those claims,
  whatever is in the segments.\<close>

theorem verify_accepts_issued:
  assumes "h \<noteq> []" "p \<noteq> []" "sig \<noteq> []" and "jl_header L h = Some (alg, kid)"
    and "vf_haveKeys v" and "vc_now1 vc - vf_fetchedAt v < vf_ttl v" and "vf_keys v kid = Some key"
    and "alg_fits alg key" and "sig_valid L key (RawURLEncode h @ ''.'' @ RawURLEncode p) sig"
    and "jl_object L p = Some raw" and "claims_hold L (vf_issuer v) (vf_audience v) (vc_now3 vc) raw c"
  shows "Verify L vc (compact_jwt h p sig) v = Some (Inr c, v)"
proof -
  have "keyFor vc kid v = Some (Inr key, v)"
    using assms(5-7) by (simp add: keyFor_def)
  from Verify_compact [OF assms(1-4) this assms(8-11)] show ?thesis .
qed

theorem verify_accepts_issued_witness:
  "Verify ex_lib (ex_call 0 None) (compact_jwt ''h'' ''p'' ''s'') ex_verifier =
    Some (Inr \<lparr>cl_Subject = ''u'', cl_Issuer = [], cl_JTI = []\<rparr>, ex_verifier)"
  by (rule verify_accepts_issued [where key = "EdKey ex_key" and alg = "''EdDSA''" and kid = "''k''"
        and raw = "map_of [(''exp'', ''9''), (''sub'', ''u'')]"])
    (simp_all add: claims_hold_def numericClaim_def stringClaim_def ex_lib_def ex_verifier_def ex_call_def
      alg_fits_def sig_valid_def ns_per_sec_def)

text \<open>A JWKS outage does not lock callers out. Once a key set was fetched, a failing source
  leaves the cache as it is, and the verdict on every token is the one a fresh cache would give.\<close>

theorem verify_fail_soft:
  assumes "vf_haveKeys v" and "vc_fetch vc = None" and "0 < vf_ttl v"
  shows "\<exists>r. Verify L vc token v = Some (r, v) \<and>
    Verify L (vc\<lparr>vc_now1 := vf_fetchedAt v\<rparr>) token v = Some (r, v) \<and> r \<noteq> Inl ErrNoKeys"
proof -
  have k: "keyFor vc kid v = Some (case vf_keys v kid of None \<Rightarrow> Inl ErrUnknownKey | Some k \<Rightarrow> Inr k, v)"
    "keyFor (vc\<lparr>vc_now1 := vf_fetchedAt v\<rparr>) kid v =
      Some (case vf_keys v kid of None \<Rightarrow> Inl ErrUnknownKey | Some k \<Rightarrow> Inr k, v)" for kid
    using assms by (auto simp: keyFor_def refreshLocked_def Let_def split: option.splits)
  have s: "verifySignature L alg key inp sig \<noteq> Inl ErrNoKeys" for alg key inp sig
    by (cases key) (auto simp: verifySignature_def)
  have c: "validateClaims L v t p \<noteq> Inl ErrNoKeys" for t p
    by (auto simp: validateClaims_def Let_def split: option.splits if_splits)
  have n: "vc_now3 (vc\<lparr>vc_now1 := vf_fetchedAt v\<rparr>) = vc_now3 vc" by simp
  have "Verify L (vc\<lparr>vc_now1 := vf_fetchedAt v\<rparr>) token v = Verify L vc token v"
    unfolding Verify_def k n by (rule refl)
  moreover have "\<exists>r. Verify L vc token v = Some (r, v) \<and> r \<noteq> Inl ErrNoKeys"
    using s c by (auto simp: Verify_def k split: list.splits option.splits sum.splits)
  ultimately show ?thesis by auto
qed

theorem verify_fail_soft_witness:
  "Verify ex_lib (ex_call (700 * ns_per_sec) None) (compact_jwt ''h'' ''p'' ''s'') ex_verifier =
    Verify ex_lib ((ex_call (700 * ns_per_sec) None)\<lparr>vc_now1 := 0\<rparr>) (compact_jwt ''h'' ''p'' ''s'') ex_verifier"
  using verify_fail_soft [of ex_verifier "ex_call (700 * ns_per_sec) None" ex_lib "compact_jwt ''h'' ''p'' ''s''"]
  by (auto simp: ex_verifier_def ex_call_def ns_per_sec_def)

text \<open>One RSA key whose exponent decodes to more than eight bytes, anywhere in the key set, makes
  every verification that refreshes the cache panic, for any well-formed token.\<close>

theorem verify_panics_on_long_exponent:
  assumes "j \<in> set js" and "jk_Kty j = ''RSA''"
    and "RawURLDecode (TrimRight1 (jk_N j) (CHR ''='')) = Some n"
    and "RawURLDecode (TrimRight1 (jk_E j) (CHR ''='')) = Some e" and "8 < length e"
    and "vc_fetch vc = Some js" and "\<not> vf_haveKeys v"
    and "h \<noteq> []" "p \<noteq> []" "sig \<noteq> []" and "jl_header L h = Some (alg, kid)"
  shows "Verify L vc (compact_jwt h p sig) v = None"
proof -
  have "publicKey j = None" using assms(2-5) by (auto simp: publicKey_def)
  then have "parse_keys js [] = None" using assms(1) by (auto simp: parse_keys_panic)
  then have "keyFor vc kid v = None" using assms(6,7) by (simp add: keyFor_def refreshLocked_def)
  then show ?thesis
    using assms(8-11) by (simp add: Verify_def Split_compact RawURLDecode_Encode)
qed

lemma ex_decode:
  "RawURLDecode (TrimRight1 ''AQAB'' (CHR ''='')) = Some [CHR 0x01, CHR 0x00, CHR 0x01]"
  "RawURLDecode (TrimRight1 ''AAAAAAAAAQAB'' (CHR ''='')) =
     Some [CHR 0x00, CHR 0x00, CHR 0x00, CHR 0x00, CHR 0x00, CHR 0x00, CHR 0x01, CHR 0x00, CHR 0x01]"
  by code_simp+

theorem verify_panics_on_long_exponent_witness:
  "Verify ex_lib (ex_call 0 (Some [\<lparr>jk_Kty = ''RSA'', jk_Kid = ''r'', jk_N = ''AQAB'',
       jk_E = ''AAAAAAAAAQAB'', jk_Crv = [], jk_X = []\<rparr>])) (compact_jwt ''h'' ''p'' ''s'')
     (NewVerifier [] [] 0) = None"
  by (rule verify_panics_on_long_exponent [where j = "\<lparr>jk_Kty = ''RSA'', jk_Kid = ''r'', jk_N = ''AQAB'',
       jk_E = ''AAAAAAAAAQAB'', jk_Crv = [], jk_X = []\<rparr>" and n = "[CHR 0x01, CHR 0x00, CHR 0x01]"
          and e = "[CHR 0x00, CHR 0x00, CHR 0x00, CHR 0x00, CHR 0x00, CHR 0x00, CHR 0x01, CHR 0x00, CHR 0x01]"])
    (simp_all add: ex_call_def NewVerifier_def ex_lib_def ex_decode)

end
