(* ===== verification/Identity_Token.thy ===== *)
theory Identity_Token
  imports Jwt_Verifier
begin

text \<open>
  Identity's token manager, \<open>services/backend/identity/internal/token/token.go\<close>: it signs
  access tokens with the current key, verifies them with the current or the previous one, rotates
  the keys and publishes both as a JWK set. Signing and parsing are golang-jwt's, the two
  operations of \<open>token_lib\<close>; \<open>token_lib_ok\<close> says what the manager relies on. The last section
  joins the manager to the verifier of the other services (\<open>Jwt_Verifier\<close>).
\<close>

section \<open>Data\<close>

record token_claims =
  tc_Subject :: string
  tc_SessionID :: string
  tc_Issuer :: string
  tc_Audience :: string
  tc_IssuedAt :: time
  tc_ExpiresAt :: time
  tc_JTI :: string

record token_jwk =
  tj_Kty :: string
  tj_Crv :: string
  tj_X :: string
  tj_Kid :: string
  tj_Use :: string
  tj_Alg :: string

record key_pair =
  kp_kid :: string
  kp_priv :: string
  kp_pub :: string

record manager =
  mg_current :: key_pair
  mg_previous :: "key_pair option"
  mg_issuer :: string
  mg_audience :: string
  mg_ttl :: duration

record jwt_claims =
  jc_Sid :: string
  jc_Subject :: string
  jc_Issuer :: string
  jc_Audience :: "string list"
  jc_IssuedAt :: "time option"
  jc_ExpiresAt :: "time option"
  jc_ID :: string

text \<open>
  \<open>tl_SignedString kid priv c\<close> is the EdDSA token over \<open>c\<close> with \<open>kid\<close> in its header.
  \<open>tl_Parse keyfunc issuer audience now raw\<close> is \<open>ParseWithClaims\<close> with the options the manager
  passes: EdDSA only, that issuer and audience, expiry required, that clock.
\<close>

record token_lib =
  tl_SignedString :: "string \<Rightarrow> string \<Rightarrow> jwt_claims \<Rightarrow> string option"
  tl_Parse :: "(string \<Rightarrow> string option) \<Rightarrow> string \<Rightarrow> string \<Rightarrow> time \<Rightarrow> string \<Rightarrow> jwt_claims option"

text \<open>
  What the library documents: a token it signed parses to its claims when the key function yields
  the matching public key for its key id, issuer and audience match and it has not expired, and
  fails when the key function knows no such key or the token has expired.
\<close>

definition token_lib_ok :: "token_lib \<Rightarrow> (string \<Rightarrow> string \<Rightarrow> bool) \<Rightarrow> bool" where
  "token_lib_ok L pair \<longleftrightarrow>
     (\<forall>kid priv pub c tok kf iss aud now e.
        pair priv pub \<longrightarrow> tl_SignedString L kid priv c = Some tok \<longrightarrow> jc_ExpiresAt c = Some e \<longrightarrow>
        (kf kid = Some pub \<and> jc_Issuer c = iss \<and> aud \<in> set (jc_Audience c) \<and> now < e \<longrightarrow>
           tl_Parse L kf iss aud now tok = Some c) \<and>
        (kf kid = None \<or> e \<le> now \<longrightarrow> tl_Parse L kf iss aud now tok = None))"

section \<open>Operations\<close>

text \<open>\<open>NewNumericDate\<close> keeps whole seconds; \<open>int(d.Seconds())\<close> truncates towards zero.\<close>

definition numeric_date :: "time \<Rightarrow> time" where
  "numeric_date t = t div ns_per_sec * ns_per_sec"

definition whole_seconds :: "duration \<Rightarrow> int" where
  "whole_seconds d = (if d < 0 then - ((- d) div ns_per_sec) else d div ns_per_sec)"

text \<open>\<open>gen\<close> is what \<open>GenerateKey\<close> yields (public, private); \<open>sha\<close> is SHA-256.\<close>

definition newKeyPair :: "(string \<Rightarrow> string) \<Rightarrow> (string \<times> string) option \<Rightarrow> key_pair option" where
  "newKeyPair sha gen =
     (case gen of
        None \<Rightarrow> None
      | Some (pub, priv) \<Rightarrow>
          Some \<lparr>kp_kid = RawURLEncode (take 16 (sha pub)), kp_priv = priv, kp_pub = pub\<rparr>)"

definition NewManager ::
  "(string \<Rightarrow> string) \<Rightarrow> (string \<times> string) option \<Rightarrow> string \<Rightarrow> string \<Rightarrow> duration \<Rightarrow> manager option" where
  "NewManager sha gen issuer audience ttl =
     (case newKeyPair sha gen of
        None \<Rightarrow> None
      | Some kp \<Rightarrow> Some \<lparr>mg_current = kp, mg_previous = None, mg_issuer = issuer, mg_audience = audience,
                        mg_ttl = ttl\<rparr>)"

definition randomID :: "string option \<Rightarrow> string option" where
  "randomID bytes = map_option RawURLEncode bytes"

definition Issue ::
  "token_lib \<Rightarrow> manager \<Rightarrow> time \<Rightarrow> string option \<Rightarrow> string \<Rightarrow> string \<Rightarrow> (string \<times> int) option" where
  "Issue L m now rnd subject sessionID =
     (let kp = mg_current m;
          exp = now + mg_ttl m in
      case randomID rnd of
        None \<Rightarrow> None
      | Some jti \<Rightarrow>
        (let c = \<lparr>jc_Sid = sessionID, jc_Subject = subject, jc_Issuer = mg_issuer m,
                  jc_Audience = [mg_audience m], jc_IssuedAt = Some (numeric_date now),
                  jc_ExpiresAt = Some (numeric_date exp), jc_ID = jti\<rparr>
         in case tl_SignedString L (kp_kid kp) (kp_priv kp) c of
              None \<Rightarrow> None
            | Some tok \<Rightarrow> Some (tok, whole_seconds (mg_ttl m))))"

definition publicKeyByKid :: "manager \<Rightarrow> string \<Rightarrow> string option" where
  "publicKeyByKid m kid =
     (if kp_kid (mg_current m) = kid then Some (kp_pub (mg_current m))
      else case mg_previous m of
        None \<Rightarrow> None
      | Some p \<Rightarrow> if kp_kid p = kid then Some (kp_pub p) else None)"

definition zero_time :: time where
  "zero_time = -62135596800 * ns_per_sec"

definition TokenVerify :: "token_lib \<Rightarrow> manager \<Rightarrow> time \<Rightarrow> string \<Rightarrow> token_claims option" where
  "TokenVerify L m now raw =
     (case tl_Parse L (publicKeyByKid m) (mg_issuer m) (mg_audience m) now raw of
        None \<Rightarrow> None
      | Some c \<Rightarrow> Some
          \<lparr>tc_Subject = jc_Subject c, tc_SessionID = jc_Sid c, tc_Issuer = jc_Issuer c,
           tc_Audience = (case jc_Audience c of [] \<Rightarrow> [] | a # _ \<Rightarrow> a),
           tc_IssuedAt = (case jc_IssuedAt c of None \<Rightarrow> zero_time | Some t \<Rightarrow> t),
           tc_ExpiresAt = (case jc_ExpiresAt c of None \<Rightarrow> zero_time | Some t \<Rightarrow> t),
           tc_JTI = jc_ID c\<rparr>)"

definition jwkFor :: "key_pair \<Rightarrow> token_jwk" where
  "jwkFor kp =
     \<lparr>tj_Kty = ''OKP'', tj_Crv = ''Ed25519'', tj_X = RawURLEncode (kp_pub kp), tj_Kid = kp_kid kp,
      tj_Use = ''sig'', tj_Alg = ''EdDSA''\<rparr>"

definition JWKS :: "manager \<Rightarrow> token_jwk list" where
  "JWKS m = jwkFor (mg_current m) # (case mg_previous m of None \<Rightarrow> [] | Some p \<Rightarrow> [jwkFor p])"

text \<open>A failed key generation leaves the manager as it is.\<close>

definition Rotate :: "(string \<Rightarrow> string) \<Rightarrow> (string \<times> string) option \<Rightarrow> manager \<Rightarrow> bool \<times> manager" where
  "Rotate sha gen m =
     (case newKeyPair sha gen of
        None \<Rightarrow> (False, m)
      | Some kp \<Rightarrow> (True, m\<lparr>mg_previous := Some (mg_current m), mg_current := kp\<rparr>))"

fun rotations :: "(string \<Rightarrow> string) \<Rightarrow> (string \<times> string) option list \<Rightarrow> manager \<Rightarrow> manager" where
  "rotations sha [] m = m"
| "rotations sha (g # gs) m = rotations sha gs (snd (Rotate sha g m))"

section \<open>Issued tokens across rotations\<close>

lemma Rotate_frame [simp]:
  "mg_issuer (snd (Rotate sha g m)) = mg_issuer m" "mg_audience (snd (Rotate sha g m)) = mg_audience m"
  "mg_ttl (snd (Rotate sha g m)) = mg_ttl m"
  by (simp_all add: Rotate_def split: option.splits)

lemma rotations_frame [simp]:
  "mg_issuer (rotations sha gs m) = mg_issuer m" "mg_audience (rotations sha gs m) = mg_audience m"
  by (induction gs arbitrary: m) simp_all

lemma Issue_ok:
  "Issue L m now rnd sub sid = Some (tok, s) \<Longrightarrow>
   \<exists>jti. tl_SignedString L (kp_kid (mg_current m)) (kp_priv (mg_current m))
     \<lparr>jc_Sid = sid, jc_Subject = sub, jc_Issuer = mg_issuer m, jc_Audience = [mg_audience m],
      jc_IssuedAt = Some (numeric_date now), jc_ExpiresAt = Some (numeric_date (now + mg_ttl m)),
      jc_ID = jti\<rparr> = Some tok \<and> s = whole_seconds (mg_ttl m)"
  by (auto simp: Issue_def Let_def split: option.splits)

lemma issued_verifies:
  assumes L: "token_lib_ok L pair" and pair: "pair (kp_priv (mg_current m)) (kp_pub (mg_current m))"
    and tok: "Issue L m t0 rnd sub sid = Some (tok, s)"
    and m': "mg_issuer m' = mg_issuer m" "mg_audience m' = mg_audience m"
  shows "publicKeyByKid m' (kp_kid (mg_current m)) = Some (kp_pub (mg_current m)) \<Longrightarrow>
      t1 < numeric_date (t0 + mg_ttl m) \<Longrightarrow>
      \<exists>c. TokenVerify L m' t1 tok = Some c \<and> tc_Subject c = sub \<and> tc_SessionID c = sid \<and>
        tc_ExpiresAt c = numeric_date (t0 + mg_ttl m)"
    and "publicKeyByKid m' (kp_kid (mg_current m)) = None \<or> numeric_date (t0 + mg_ttl m) \<le> t1 \<Longrightarrow>
      TokenVerify L m' t1 tok = None"
proof -
  from Issue_ok [OF tok] obtain jti where j: "tl_SignedString L (kp_kid (mg_current m)) (kp_priv (mg_current m))
     \<lparr>jc_Sid = sid, jc_Subject = sub, jc_Issuer = mg_issuer m, jc_Audience = [mg_audience m],
      jc_IssuedAt = Some (numeric_date t0), jc_ExpiresAt = Some (numeric_date (t0 + mg_ttl m)),
      jc_ID = jti\<rparr> = Some tok" (is "tl_SignedString _ _ _ ?c = _") by blast
  have e: "jc_ExpiresAt ?c = Some (numeric_date (t0 + mg_ttl m))" by simp
  note lib = L [unfolded token_lib_ok_def, rule_format, OF pair j e]
  show "\<exists>c. TokenVerify L m' t1 tok = Some c \<and> tc_Subject c = sub \<and> tc_SessionID c = sid \<and>
        tc_ExpiresAt c = numeric_date (t0 + mg_ttl m)"
    if "publicKeyByKid m' (kp_kid (mg_current m)) = Some (kp_pub (mg_current m))"
      "t1 < numeric_date (t0 + mg_ttl m)"
  proof -
    have "tl_Parse L (publicKeyByKid m') (mg_issuer m') (mg_audience m') t1 tok = Some ?c"
      using lib that m' by simp
    then show ?thesis by (simp add: TokenVerify_def)
  qed
  show "TokenVerify L m' t1 tok = None"
    if "publicKeyByKid m' (kp_kid (mg_current m)) = None \<or> numeric_date (t0 + mg_ttl m) \<le> t1"
  proof -
    have "tl_Parse L (publicKeyByKid m') (mg_issuer m') (mg_audience m') t1 tok = None"
      using lib that by blast
    then show ?thesis by (simp add: TokenVerify_def)
  qed
qed

text \<open>The keys in force after rotations: the last two generated.\<close>

lemma rotations_snoc: "rotations sha (gs @ [g]) m = snd (Rotate sha g (rotations sha gs m))"
  by (induction gs arbitrary: m) simp_all

lemma rotate_once_key:
  "publicKeyByKid (snd (Rotate sha g m)) (kp_kid (mg_current m)) = Some (kp_pub (mg_current m)) \<or>
   (\<exists>kp. newKeyPair sha g = Some kp \<and> kp_kid kp = kp_kid (mg_current m))"
proof (cases "newKeyPair sha g")
  case None
  then show ?thesis by (simp add: Rotate_def publicKeyByKid_def)
next
  case (Some kp)
  then show ?thesis by (simp add: Rotate_def publicKeyByKid_def)
qed

text \<open>C32: an access token outlives one key rotation and no more. A token issued by the manager
  verifies, with its subject, session and expiry, until its lifetime is over, before and after one
  rotation; after a second successful rotation, and in any case from its expiry on, it is refused.
  New key ids are assumed not to repeat the signing key's.\<close>

theorem issued_token_lifetime:
  assumes "token_lib_ok L pair" and "pair (kp_priv (mg_current m)) (kp_pub (mg_current m))"
    and "Issue L m t0 rnd sub sid = Some (tok, s)"
    and "\<forall>g \<in> {g1, g2}. \<forall>kp. newKeyPair sha g = Some kp \<longrightarrow> kp_kid kp \<noteq> kp_kid (mg_current m)"
  shows "(t1 < numeric_date (t0 + mg_ttl m) \<longrightarrow>
      (\<forall>m' \<in> {m, snd (Rotate sha g1 m)}. \<exists>c. TokenVerify L m' t1 tok = Some c \<and>
         tc_Subject c = sub \<and> tc_SessionID c = sid \<and> tc_ExpiresAt c = numeric_date (t0 + mg_ttl m))) \<and>
    (newKeyPair sha g1 \<noteq> None \<and> newKeyPair sha g2 \<noteq> None \<longrightarrow>
      TokenVerify L (rotations sha [g1, g2] m) t1 tok = None) \<and>
    (numeric_date (t0 + mg_ttl m) \<le> t1 \<longrightarrow>
      (\<forall>gs. TokenVerify L (rotations sha gs m) t1 tok = None))"
proof -
  note iv = issued_verifies [OF assms(1-3)]
  have k0: "publicKeyByKid m (kp_kid (mg_current m)) = Some (kp_pub (mg_current m))"
    by (simp add: publicKeyByKid_def)
  have k1: "publicKeyByKid (snd (Rotate sha g1 m)) (kp_kid (mg_current m)) = Some (kp_pub (mg_current m))"
    using rotate_once_key [of sha g1 m] assms(4) by auto
  have k2: "publicKeyByKid (rotations sha [g1, g2] m) (kp_kid (mg_current m)) = None"
    if "newKeyPair sha g1 \<noteq> None" "newKeyPair sha g2 \<noteq> None"
    using that assms(4) by (auto simp: Rotate_def publicKeyByKid_def)
  show ?thesis
  proof (intro conjI impI ballI allI)
    fix m' assume "t1 < numeric_date (t0 + mg_ttl m)" and "m' \<in> {m, snd (Rotate sha g1 m)}"
    then show "\<exists>c. TokenVerify L m' t1 tok = Some c \<and>
         tc_Subject c = sub \<and> tc_SessionID c = sid \<and> tc_ExpiresAt c = numeric_date (t0 + mg_ttl m)"
      using iv(1) [of m'] k0 k1 by auto
  next
    assume "newKeyPair sha g1 \<noteq> None \<and> newKeyPair sha g2 \<noteq> None"
    then show "TokenVerify L (rotations sha [g1, g2] m) t1 tok = None"
      using k2 by (intro iv(2)) simp_all
  next
    fix gs assume "numeric_date (t0 + mg_ttl m) \<le> t1"
    then show "TokenVerify L (rotations sha gs m) t1 tok = None"
      by (intro iv(2)) simp_all
  qed
qed

text \<open>A library for the examples: the token is the claims' subject, session and expiry and the key id.\<close>

definition ex_token_lib :: token_lib where
  "ex_token_lib = \<lparr>tl_SignedString = (\<lambda>kid priv c. if c = \<lparr>jc_Sid = ''s'', jc_Subject = ''u'',
       jc_Issuer = ''i'', jc_Audience = [''a''], jc_IssuedAt = Some 0, jc_ExpiresAt = Some (60 * ns_per_sec),
       jc_ID = RawURLEncode ''r''\<rparr> then Some kid else None),
     tl_Parse = (\<lambda>kf iss aud now tok. if kf tok \<noteq> None \<and> iss = ''i'' \<and> aud = ''a'' \<and> now < 60 * ns_per_sec
       then Some \<lparr>jc_Sid = ''s'', jc_Subject = ''u'',
       jc_Issuer = ''i'', jc_Audience = [''a''], jc_IssuedAt = Some 0, jc_ExpiresAt = Some (60 * ns_per_sec),
       jc_ID = RawURLEncode ''r''\<rparr> else None)\<rparr>"

definition ex_manager :: manager where
  "ex_manager = \<lparr>mg_current = \<lparr>kp_kid = ''k'', kp_priv = ''p'', kp_pub = replicate 32 (CHR ''q'')\<rparr>,
     mg_previous = None, mg_issuer = ''i'', mg_audience = ''a'', mg_ttl = 60 * ns_per_sec\<rparr>"

lemma ex_token_lib_ok: "token_lib_ok ex_token_lib (\<lambda>priv pub. True)"
  by (auto simp: token_lib_ok_def ex_token_lib_def split: if_splits)

lemma ex_Issue: "Issue ex_token_lib ex_manager 0 (Some ''r'') ''u'' ''s'' = Some (''k'', 60)"
  by (simp add: Issue_def randomID_def ex_token_lib_def ex_manager_def numeric_date_def ns_per_sec_def
      whole_seconds_def)

theorem issued_token_lifetime_witness:
  "(\<exists>c. TokenVerify ex_token_lib ex_manager 5 ''k'' = Some c \<and> tc_Subject c = ''u'') \<and>
   TokenVerify ex_token_lib ex_manager (60 * ns_per_sec) ''k'' = None"
proof -
  note w = issued_token_lifetime [OF ex_token_lib_ok _ ex_Issue, of None None "\<lambda>x. x"]
  have "(5::int) < numeric_date (0 + mg_ttl ex_manager)"
    "numeric_date (0 + mg_ttl ex_manager) = 60 * ns_per_sec"
    by (simp_all add: numeric_date_def ex_manager_def ns_per_sec_def)
  with w [of 5] w [of "60 * ns_per_sec"] show ?thesis
    by (fastforce simp: newKeyPair_def dest: spec [of _ "[]"])
qed

section \<open>The published keys and the verifiers of the other services\<close>

text \<open>The JSON of a published key, as \<open>Jwt_Verifier\<close> decodes it.\<close>

definition wire_jwk :: "token_jwk \<Rightarrow> jwk" where
  "wire_jwk j = \<lparr>jk_Kty = tj_Kty j, jk_Kid = tj_Kid j, jk_N = [], jk_E = [], jk_Crv = tj_Crv j, jk_X = tj_X j\<rparr>"

definition key_sizes_ok :: "manager \<Rightarrow> bool" where
  "key_sizes_ok m \<longleftrightarrow> length (kp_pub (mg_current m)) = 32 \<and>
     (case mg_previous m of None \<Rightarrow> True | Some p \<Rightarrow> length (kp_pub p) = 32)"

lemma TrimRight1_no: "c \<notin> set s \<Longrightarrow> TrimRight1 s c = s"
  by (cases "rev s") (auto simp: TrimRight1_def trim_with.simps dest: arg_cong [where f = set])

lemma b64_no_pad: "CHR ''='' \<notin> set (RawURLEncode s)"
proof
  assume "CHR ''='' \<in> set (RawURLEncode s)"
  with RawURLEncode_alphabet [of s] have "CHR ''='' \<in> set b64_alphabet" by blast
  then show False by (simp add: b64_alphabet_def)
qed

lemma publicKey_jwkFor:
  "length (kp_pub kp) = 32 \<Longrightarrow> publicKey (wire_jwk (jwkFor kp)) = Some (Some (EdKey (kp_pub kp)))"
  by (simp add: publicKey_def wire_jwk_def jwkFor_def TrimRight1_no b64_no_pad RawURLDecode_Encode)

lemma kid_jwkFor [simp]: "jk_Kid (wire_jwk (jwkFor kp)) = kp_kid kp"
  by (simp add: wire_jwk_def jwkFor_def)

text \<open>C33: what Identity publishes is what the other services check against. After a verifier that
  fetched the published set refreshes its cache, it holds for every key id exactly the key the
  manager itself would use, so both sides accept and refuse the same signatures.\<close>

theorem jwks_serves_verifiers:
  assumes "key_sizes_ok m" and "vc_fetch vc = Some (map wire_jwk (JWKS m))"
    and "\<forall>p. mg_previous m = Some p \<longrightarrow> kp_kid p \<noteq> kp_kid (mg_current m)"
  shows "\<exists>v'. refreshLocked vc v = Some (True, v') \<and> vf_haveKeys v' \<and>
    (\<forall>kid. vf_keys v' kid = map_option EdKey (publicKeyByKid m kid))"
  using assms
  by (cases "mg_previous m")
    (auto simp: refreshLocked_def JWKS_def publicKey_jwkFor key_sizes_ok_def publicKeyByKid_def)

theorem jwks_serves_verifiers_witness:
  "\<exists>v'. refreshLocked (ex_call 0 (Some (map wire_jwk (JWKS ex_manager)))) ex_verifier = Some (True, v') \<and>
     vf_keys v' ''k'' = Some (EdKey (replicate 32 (CHR ''q'')))"
  using jwks_serves_verifiers [of ex_manager "ex_call 0 (Some (map wire_jwk (JWKS ex_manager)))" ex_verifier]
  by (auto simp: key_sizes_ok_def ex_manager_def ex_call_def publicKeyByKid_def)

end
