(* ===== verification/Identity_Password.thy ===== *)
theory Identity_Password
  imports Base64
begin

text \<open>
  Password hashes of the Identity service,
  \<open>services/backend/identity/internal/password/password.go\<close>: Argon2id with a random salt,
  written as a PHC string and read back field by field. \<open>IDKey\<close> is the library's key
  derivation (password, salt, time, memory, threads, key length); \<open>Sscanf\<close> reads a prefix and
  ignores what follows.
\<close>

section \<open>Package fmt on numbers\<close>

definition is_digit :: "char \<Rightarrow> bool" where
  "is_digit c \<longleftrightarrow> 48 \<le> (of_char c :: nat) \<and> (of_char c :: nat) \<le> 57"

definition skip_space :: "string \<Rightarrow> string" where
  "skip_space s = dropWhile (\<lambda>c. c = CHR '' '' \<or> c = CHR 0x09 \<or> c = CHR 0x0D) s"

text \<open>The verb \<open>%d\<close> into an unsigned value of \<open>bits\<close> bits, or (with \<open>sign\<close>) a signed one:
  the value and the rest of the input.\<close>

definition scan_digits :: "string \<Rightarrow> (nat \<times> string) option" where
  "scan_digits s =
     (let ds = takeWhile is_digit s in
      if ds = [] then None
      else Some (foldl (\<lambda>n c. n * 10 + (of_char c - 48)) 0 ds, dropWhile is_digit s))"

definition scan_uint :: "nat \<Rightarrow> string \<Rightarrow> (nat \<times> string) option" where
  "scan_uint bits s =
     (case scan_digits (skip_space s) of
        None \<Rightarrow> None
      | Some (n, r) \<Rightarrow> if n < 2 ^ bits then Some (n, r) else None)"

definition scan_int :: "string \<Rightarrow> (int \<times> string) option" where
  "scan_int s =
     (let s1 = skip_space s;
          (neg, s2) = (case s1 of c # r \<Rightarrow> if c = CHR ''-'' then (True, r) else if c = CHR ''+'' then (False, r)
                         else (False, s1) | [] \<Rightarrow> (False, s1))
      in case scan_digits s2 of
           None \<Rightarrow> None
         | Some (n, r) \<Rightarrow>
             (let v = (if neg then - int n else int n)
              in if - (2 ^ 63) \<le> v \<and> v < 2 ^ 63 then Some (v, r) else None))"

definition scan_lit :: "string \<Rightarrow> string \<Rightarrow> string option" where
  "scan_lit lit s = (if prefix lit s then Some (drop (length lit) s) else None)"

section \<open>RawStdEncoding\<close>

definition std_char :: "char \<Rightarrow> char" where
  "std_char c = (if c = CHR ''-'' then CHR ''+'' else if c = CHR ''_'' then CHR ''/'' else c)"

definition url_char :: "char \<Rightarrow> char" where
  "url_char c = (if c = CHR ''+'' then CHR ''-'' else if c = CHR ''/'' then CHR ''_'' else c)"

definition RawStdEncode :: "string \<Rightarrow> string" where
  "RawStdEncode s = map std_char (RawURLEncode s)"

definition RawStdDecode :: "string \<Rightarrow> string option" where
  "RawStdDecode t =
     (if CHR ''-'' \<in> set t \<or> CHR ''_'' \<in> set t then None else RawURLDecode (map url_char t))"

section \<open>password.go\<close>

type_synonym id_key = "string \<Rightarrow> string \<Rightarrow> nat \<Rightarrow> nat \<Rightarrow> nat \<Rightarrow> nat \<Rightarrow> string"

definition argonTime :: nat where "argonTime = 1"
definition argonMemory :: nat where "argonMemory = 64 * 1024"
definition argonThreads :: nat where "argonThreads = 4"
definition argonKeyLen :: nat where "argonKeyLen = 32"
definition argonVersion :: nat where "argonVersion = 19"

definition password_Hash :: "id_key \<Rightarrow> string option \<Rightarrow> string \<Rightarrow> string option" where
  "password_Hash IDKey rnd plaintext =
     (case rnd of
        None \<Rightarrow> None
      | Some salt \<Rightarrow>
        (let key = IDKey plaintext salt argonTime argonMemory argonThreads argonKeyLen
         in Some (''$argon2id$v='' @ fmt_nat argonVersion @ ''$m='' @ fmt_nat argonMemory @ '',t='' @
              fmt_nat argonTime @ '',p='' @ fmt_nat argonThreads @ ''$'' @ RawStdEncode salt @ ''$'' @
              RawStdEncode key)))"

datatype password_error = errMalformed | UnsupportedVersion int

definition scan_params :: "string \<Rightarrow> (nat \<times> nat \<times> nat) option" where
  "scan_params s =
     Option.bind (scan_lit ''m='' s) (\<lambda>s. Option.bind (scan_uint 32 s) (\<lambda>(memory, s).
     Option.bind (scan_lit '',t='' s) (\<lambda>s. Option.bind (scan_uint 32 s) (\<lambda>(time, s).
     Option.bind (scan_lit '',p='' s) (\<lambda>s. Option.bind (scan_uint 8 s) (\<lambda>(threads, s).
       Some (memory, time, threads)))))))"

definition password_Verify :: "id_key \<Rightarrow> string \<Rightarrow> string \<Rightarrow> password_error + bool" where
  "password_Verify IDKey plaintext encoded =
     (case Split encoded (CHR ''$'') of
        [p0, p1, p2, p3, p4, p5] \<Rightarrow>
          if p1 \<noteq> ''argon2id'' then Inl errMalformed else
          (case Option.bind (scan_lit ''v='' p2) scan_int of
             None \<Rightarrow> Inl errMalformed
           | Some (version, _) \<Rightarrow>
             if version \<noteq> int argonVersion then Inl (UnsupportedVersion version) else
             (case scan_params p3 of
                None \<Rightarrow> Inl errMalformed
              | Some (memory, time, threads) \<Rightarrow>
                (case RawStdDecode p4 of
                   None \<Rightarrow> Inl errMalformed
                 | Some salt \<Rightarrow>
                   (case RawStdDecode p5 of
                      None \<Rightarrow> Inl errMalformed
                    | Some want \<Rightarrow>
                        Inr (IDKey plaintext salt time memory threads (length want) = want)))))
      | _ \<Rightarrow> Inl errMalformed)"

section \<open>Round trip\<close>

lemma std_alphabet: "\<forall>c \<in> set b64_alphabet. std_char c \<noteq> CHR ''-'' \<and> std_char c \<noteq> CHR ''_'' \<and>
    std_char c \<noteq> CHR ''$'' \<and> url_char (std_char c) = c"
  by (simp add: b64_alphabet_def std_char_def url_char_def)

lemma RawStd_roundtrip: "RawStdDecode (RawStdEncode s) = Some s"
proof -
  have a: "\<forall>c \<in> set (RawURLEncode s). c \<in> set b64_alphabet" using RawURLEncode_alphabet by blast
  then have "map url_char (RawStdEncode s) = RawURLEncode s"
    using std_alphabet by (simp add: RawStdEncode_def map_idI)
  moreover have "CHR ''-'' \<notin> set (RawStdEncode s) \<and> CHR ''_'' \<notin> set (RawStdEncode s)"
    using a std_alphabet by (fastforce simp: RawStdEncode_def)
  ultimately show ?thesis by (simp add: RawStdDecode_def RawURLDecode_Encode)
qed

lemma RawStd_no_dollar: "CHR ''$'' \<notin> set (RawStdEncode s)"
proof
  assume "CHR ''$'' \<in> set (RawStdEncode s)"
  then obtain c where "c \<in> set (RawURLEncode s)" "std_char c = CHR ''$''"
    by (auto simp: RawStdEncode_def)
  with std_alphabet RawURLEncode_alphabet [of s] show False by blast
qed

lemma digit_chars:
  "char_of (49::nat) = CHR ''1''" "char_of (51::nat) = CHR ''3''" "char_of (52::nat) = CHR ''4''"
  "char_of (53::nat) = CHR ''5''" "char_of (54::nat) = CHR ''6''" "char_of (57::nat) = CHR ''9''"
  by code_simp+

lemma phc_fields:
  "''$argon2id$v='' @ fmt_nat argonVersion @ ''$m='' @ fmt_nat argonMemory @ '',t='' @
      fmt_nat argonTime @ '',p='' @ fmt_nat argonThreads @ ''$'' = ''$argon2id$v=19$m=65536,t=1,p=4$''"
  "Option.bind (scan_lit ''v='' ''v=19'') scan_int = Some (19, [])"
  "scan_params ''m=65536,t=1,p=4'' = Some (65536, 1, 4)"
  by (simp_all add: fmt_nat.simps digit_chars argonVersion_def argonMemory_def argonTime_def argonThreads_def
      scan_lit_def scan_int_def scan_uint_def scan_digits_def skip_space_def is_digit_def scan_params_def)

lemma Hash_form:
  "password_Hash IDKey (Some salt) p =
     Some (''$argon2id$v=19$m=65536,t=1,p=4$'' @ RawStdEncode salt @ ''$'' @ RawStdEncode (IDKey p salt 1 65536 4 32))"
proof -
  have "password_Hash IDKey (Some salt) p =
     Some ((''$argon2id$v='' @ fmt_nat argonVersion @ ''$m='' @ fmt_nat argonMemory @ '',t='' @
      fmt_nat argonTime @ '',p='' @ fmt_nat argonThreads @ ''$'') @ RawStdEncode salt @ ''$'' @
      RawStdEncode (IDKey p salt 1 65536 4 32))"
    by (simp add: password_Hash_def argonTime_def argonMemory_def argonThreads_def argonKeyLen_def Let_def)
  then show ?thesis unfolding phc_fields(1) .
qed

lemma Verify_Hash:
  assumes "password_Hash IDKey (Some salt) p = Some h" and len: "length (IDKey p salt 1 65536 4 32) = 32"
  shows "password_Verify IDKey q h = Inr (IDKey q salt 1 65536 4 32 = IDKey p salt 1 65536 4 32)"
proof -
  let ?k = "IDKey p salt 1 65536 4 32"
  have h: "h = ''$argon2id$v=19$m=65536,t=1,p=4$'' @ RawStdEncode salt @ ''$'' @ RawStdEncode ?k"
    using assms(1) unfolding Hash_form by simp
  have sp: "Split h (CHR ''$'') = [[], ''argon2id'', ''v=19'', ''m=65536,t=1,p=4'', RawStdEncode salt, RawStdEncode ?k]"
    unfolding h by (simp add: Split_append Split_no_sep RawStd_no_dollar)
  show ?thesis
    using phc_fields len by (simp add: password_Verify_def sp RawStd_roundtrip argonVersion_def)
qed

text \<open>A password hash verifies the password it was made from and, for any other password, gives
  exactly the comparison of the derived keys under the stored salt; the PHC string is never
  reported as malformed.\<close>

theorem password_roundtrip:
  assumes "password_Hash IDKey rnd p = Some h"
    and "\<forall>p salt t m th. length (IDKey p salt t m th argonKeyLen) = argonKeyLen"
  shows "\<exists>salt. rnd = Some salt \<and> password_Verify IDKey p h = Inr True \<and>
    (\<forall>q. password_Verify IDKey q h =
       Inr (IDKey q salt argonTime argonMemory argonThreads argonKeyLen =
            IDKey p salt argonTime argonMemory argonThreads argonKeyLen))"
proof -
  obtain salt where salt: "rnd = Some salt"
    using assms(1) by (cases rnd) (auto simp: password_Hash_def)
  have "length (IDKey p salt 1 65536 4 32) = 32" using assms(2) by (simp add: argonKeyLen_def)
  from Verify_Hash [OF assms(1) [unfolded salt] this] show ?thesis
    by (simp add: salt argonTime_def argonMemory_def argonThreads_def argonKeyLen_def)
qed

definition ex_idkey :: id_key where
  "ex_idkey p salt t m th n = take n (p @ replicate n (CHR ''0''))"

theorem password_roundtrip_witness:
  "\<exists>h. password_Hash ex_idkey (Some ''salt'') ''secret'' = Some h \<and>
     password_Verify ex_idkey ''secret'' h = Inr True \<and> password_Verify ex_idkey ''guess'' h = Inr False"
proof -
  obtain h where h: "password_Hash ex_idkey (Some ''salt'') ''secret'' = Some h"
    by (simp add: password_Hash_def)
  have len: "\<forall>p salt t m th. length (ex_idkey p salt t m th argonKeyLen) = argonKeyLen"
    by (auto simp: ex_idkey_def)
  have "ex_idkey ''guess'' salt t m th argonKeyLen \<noteq> ex_idkey ''secret'' salt t m th argonKeyLen" for salt t m th
    by (simp add: ex_idkey_def argonKeyLen_def)
  with password_roundtrip [OF h len] h show ?thesis by auto
qed

end
