(* ===== verification/Identity_Server.thy ===== *)
theory Identity_Server
  imports Identity_Users Identity_Token Identity_Password
begin

text \<open>
  The Identity service's RPCs, \<open>services/backend/identity/internal/app/identity_server.go\<close>, over
  its ports: users, sessions and limiter (one Valkey store), the social token verifier and the
  token manager. \<open>RefreshToken\<close> is its two halves, the check of the presented token and the
  rotation, because other calls can be served between them; \<open>overlap_run\<close> runs such overlapping calls.
\<close>

section \<open>Server, world and context\<close>

record ext_identity =
  ei_Provider :: string
  ei_Subject :: string
  ei_Email :: string
  ei_EmailVerified :: bool

text \<open>\<open>isv_H\<close> is the hex form of SHA-256, \<open>isv_IDKey\<close> Argon2id, \<open>isv_lib\<close> the JWT library.\<close>

record ('u, 'k) identity_server =
  isv_users :: "'u users_ops"
  isv_sess :: "'k session_ops"
  isv_refreshTTL :: duration
  isv_H :: "string \<Rightarrow> string"
  isv_IDKey :: id_key
  isv_lib :: token_lib

record ('u, 'k) identity_world =
  iw_users :: 'u
  iw_sess :: 'k
  iw_mgr :: manager

text \<open>
  Clock readings of the handler (\<open>ic_now\<close>, \<open>ic_now2\<close>), of the store (\<open>ic_vk1\<close>, \<open>ic_vk2\<close>, \<open>ic_db\<close>) and
  of the token manager, random bytes for the secret, the token id and the salt, the new session id,
  and the answer of the social token verifier.
\<close>

record identity_ctx =
  ic_now :: time
  ic_now2 :: time
  ic_vk1 :: time
  ic_vk2 :: time
  ic_db :: time
  ic_tok_now :: time
  ic_secret :: "string option"
  ic_jti :: "string option"
  ic_salt :: "string option"
  ic_uuid :: string
  ic_md :: "md option"
  ic_oauth :: "string \<Rightarrow> string \<Rightarrow> ext_identity option"

section \<open>Helpers\<close>

definition randomSecret :: "string option \<Rightarrow> string option" where
  "randomSecret bytes = map_option RawURLEncode bytes"

definition hashSecret :: "(string \<Rightarrow> string) \<Rightarrow> string \<Rightarrow> string" where
  "hashSecret H secret = H secret"

fun xor_fold :: "8 word \<Rightarrow> string \<Rightarrow> string \<Rightarrow> 8 word" where
  "xor_fold v (a # as) (b # bs) = xor_fold (or v (xor (word_of_nat (of_char a)) (word_of_nat (of_char b)))) as bs"
| "xor_fold v _ _ = v"

definition constantTimeEqual :: "string \<Rightarrow> string \<Rightarrow> bool" where
  "constantTimeEqual a b = (if length a \<noteq> length b then False else xor_fold 0 a b = 0)"

definition splitRefresh :: "string \<Rightarrow> (string \<times> string) option" where
  "splitRefresh t =
     (case IndexByte t (CHR ''.'') of
        None \<Rightarrow> None
      | Some i \<Rightarrow> if i = 0 \<or> i = length t - 1 then None else Some (take i t, drop (i + 1) t))"

definition id_bearer :: "md option \<Rightarrow> string" where
  "id_bearer m =
     (case m of
        None \<Rightarrow> []
      | Some m \<Rightarrow>
          (case md_get m ''authorization'' of
             [] \<Rightarrow> []
           | h # _ \<Rightarrow>
               if length bearer_prefix < length h \<and> EqualFold (take (length bearer_prefix) h) bearer_prefix
               then drop (length bearer_prefix) h else h))"

record pb_user =
  pu_id :: string
  pu_email :: string
  pu_display_name :: string
  pu_status :: string
  pu_created_at :: "int option"

text \<open>The creation time is rendered to the second, or not at all when it is the zero time.\<close>

definition toProtoUser :: "user \<Rightarrow> pb_user" where
  "toProtoUser u =
     \<lparr>pu_id = us_ID u, pu_email = us_Email u, pu_display_name = us_DisplayName u, pu_status = us_Status u,
      pu_created_at = (if us_CreatedAt u = zero_time then None else Some (us_CreatedAt u div ns_per_sec))\<rparr>"

section \<open>Sessions and tokens\<close>

definition issuePair ::
  "('u, 'k) identity_server \<Rightarrow> identity_ctx \<Rightarrow> user \<Rightarrow> string \<Rightarrow> ('u, 'k) identity_world \<Rightarrow>
   (string status + string \<times> string \<times> int) \<times> ('u, 'k) identity_world" where
  "issuePair sv cx user device w =
     (case randomSecret (ic_secret cx) of
        None \<Rightarrow> (Inl (Status Internal ''could not create session''), w)
      | Some secret \<Rightarrow>
        (let now = ic_now cx;
             x = \<lparr>ss_ID = ic_uuid cx, ss_UserID = us_ID user, ss_RefreshHash = hashSecret (isv_H sv) secret,
                  ss_Device = device, ss_IssuedAt = now, ss_ExpiresAt = now + isv_refreshTTL sv\<rparr>
         in case so_Create (isv_sess sv) x (ic_vk1 cx) (iw_sess w) of
              (Inl e, k) \<Rightarrow> (Inl (Status Internal ''could not create session''), w\<lparr>iw_sess := k\<rparr>)
            | (Inr _, k) \<Rightarrow>
                (case Issue (isv_lib sv) (iw_mgr w) (ic_tok_now cx) (ic_jti cx) (us_ID user) (ic_uuid cx) of
                   None \<Rightarrow> (Inl (Status Internal ''could not issue token''), w\<lparr>iw_sess := k\<rparr>)
                 | Some (access, expiresIn) \<Rightarrow>
                     (Inr (access, ic_uuid cx @ ''.'' @ secret, expiresIn), w\<lparr>iw_sess := k\<rparr>))))"

section \<open>SignIn\<close>

datatype provider_enum = PROVIDER_GOOGLE | PROVIDER_APPLE | PROVIDER_EMAIL | PROVIDER_OTHER int

record signin_req =
  sr_provider :: provider_enum
  sr_id_token :: string
  sr_email :: string
  sr_password :: string
  sr_display_name :: string
  sr_device :: string

record signin_rsp =
  sp_access_token :: string
  sp_refresh_token :: string
  sp_expires_in :: int
  sp_user :: pb_user

definition sign_in_reply ::
  "user \<Rightarrow> (string status + string \<times> string \<times> int) \<times> 'w \<Rightarrow> (string status + signin_rsp) \<times> 'w" where
  "sign_in_reply user p =
     (case p of
        (Inl e, w) \<Rightarrow> (Inl e, w)
      | (Inr (access, refresh, expiresIn), w) \<Rightarrow>
          (Inr \<lparr>sp_access_token = access, sp_refresh_token = refresh, sp_expires_in = expiresIn,
                sp_user = toProtoUser user\<rparr>, w))"

definition signInSocial ::
  "('u, 'k) identity_server \<Rightarrow> identity_ctx \<Rightarrow> signin_req \<Rightarrow> ('u, 'k) identity_world \<Rightarrow>
   (string status + signin_rsp) \<times> ('u, 'k) identity_world" where
  "signInSocial sv cx rq w =
     (if sr_id_token rq = [] then (Inl (Status InvalidArgument ''id_token is required for social sign-in''), w)
      else
        let provider = (if sr_provider rq = PROVIDER_APPLE then ''apple'' else ''google'') in
        case ic_oauth cx provider (sr_id_token rq) of
          None \<Rightarrow> (Inl (Status Unauthenticated ''invalid id token''), w)
        | Some ext \<Rightarrow>
            (case uo_UpsertOAuthUser (isv_users sv) (ic_db cx) provider (ei_Subject ext) (ei_Email ext)
                    (sr_display_name rq) (iw_users w) of
               (Inl e, us) \<Rightarrow> (Inl (Status Internal ''could not resolve account''), w\<lparr>iw_users := us\<rparr>)
             | (Inr user, us) \<Rightarrow>
                 sign_in_reply user (issuePair sv cx user (sr_device rq) (w\<lparr>iw_users := us\<rparr>))))"

definition signInEmail ::
  "('u, 'k) identity_server \<Rightarrow> identity_ctx \<Rightarrow> signin_req \<Rightarrow> ('u, 'k) identity_world \<Rightarrow>
   (string status + signin_rsp) \<times> ('u, 'k) identity_world" where
  "signInEmail sv cx rq w =
     (let email = TrimSpace (sr_email rq) in
      if email = [] \<or> sr_password rq = []
      then (Inl (Status InvalidArgument ''email and password are required''), w) else
      let (al, k) = so_Allow (isv_sess sv) (''signin:'' @ ToLower email) (ic_vk1 cx) (iw_sess w);
          w1 = w\<lparr>iw_sess := k\<rparr> in
      case al of
        Inl e \<Rightarrow> (Inl (Status Internal ''rate limiter unavailable''), w1)
      | Inr allowed \<Rightarrow>
        if \<not> allowed then (Inl (Status ResourceExhausted ''too many attempts, try again later''), w1) else
        let (ge, us1) = uo_GetByEmail (isv_users sv) email (iw_users w1);
            w2 = w1\<lparr>iw_users := us1\<rparr> in
        case ge of
          Inl e \<Rightarrow> (Inl (Status Internal ''lookup failed''), w2)
        | Inr None \<Rightarrow>
            (case password_Hash (isv_IDKey sv) (ic_salt cx) (sr_password rq) of
               None \<Rightarrow> (Inl (Status Internal ''could not create account''), w2)
             | Some hash \<Rightarrow>
                 (case uo_CreateEmailUser (isv_users sv) (ic_db cx) email (sr_display_name rq) hash us1 of
                    (Inl e, us2) \<Rightarrow> (Inl (Status Internal ''could not create account''), w2\<lparr>iw_users := us2\<rparr>)
                  | (Inr user, us2) \<Rightarrow>
                      sign_in_reply user (issuePair sv cx user (sr_device rq) (w2\<lparr>iw_users := us2\<rparr>))))
        | Inr (Some existing) \<Rightarrow>
            (case uo_GetPasswordHash (isv_users sv) (us_ID existing) us1 of
               (Inl e, us2) \<Rightarrow> (Inl (Status Internal ''lookup failed''), w2\<lparr>iw_users := us2\<rparr>)
             | (Inr None, us2) \<Rightarrow> (Inl (Status Unauthenticated ''invalid credentials''), w2\<lparr>iw_users := us2\<rparr>)
             | (Inr (Some hash), us2) \<Rightarrow>
                 (if password_Verify (isv_IDKey sv) (sr_password rq) hash \<noteq> Inr True
                  then (Inl (Status Unauthenticated ''invalid credentials''), w2\<lparr>iw_users := us2\<rparr>)
                  else sign_in_reply existing
                         (issuePair sv cx existing (sr_device rq) (w2\<lparr>iw_users := us2\<rparr>)))))"

definition SignIn ::
  "('u, 'k) identity_server \<Rightarrow> identity_ctx \<Rightarrow> signin_req \<Rightarrow> ('u, 'k) identity_world \<Rightarrow>
   (string status + signin_rsp) \<times> ('u, 'k) identity_world" where
  "SignIn sv cx rq w =
     (case sr_provider rq of
        PROVIDER_GOOGLE \<Rightarrow> signInSocial sv cx rq w
      | PROVIDER_APPLE \<Rightarrow> signInSocial sv cx rq w
      | PROVIDER_EMAIL \<Rightarrow> signInEmail sv cx rq w
      | PROVIDER_OTHER n \<Rightarrow> (Inl (Status InvalidArgument ''unsupported provider''), w))"

section \<open>RefreshToken\<close>

text \<open>The first half: look the session up and check the presented secret and the expiry.\<close>

definition refresh_check ::
  "('u, 'k) identity_server \<Rightarrow> identity_ctx \<Rightarrow> string \<Rightarrow> ('u, 'k) identity_world \<Rightarrow>
   (string status + string \<times> session) \<times> ('u, 'k) identity_world" where
  "refresh_check sv cx tok w =
     (case splitRefresh tok of
        None \<Rightarrow> (Inl (Status Unauthenticated ''invalid refresh token''), w)
      | Some (sid, secret) \<Rightarrow>
        (let (g, k) = so_Get (isv_sess sv) sid (ic_vk1 cx) (iw_sess w);
             w1 = w\<lparr>iw_sess := k\<rparr> in
         case g of
           Inl e \<Rightarrow> (Inl (Status Internal ''session lookup failed''), w1)
         | Inr None \<Rightarrow> (Inl (Status Unauthenticated ''invalid refresh token''), w1)
         | Inr (Some x) \<Rightarrow>
             if \<not> constantTimeEqual (hashSecret (isv_H sv) secret) (ss_RefreshHash x)
             then (Inl (Status Unauthenticated ''refresh token reuse detected''),
                   w1\<lparr>iw_sess := snd (so_Delete (isv_sess sv) sid (ic_vk2 cx) k)\<rparr>)
             else if ss_ExpiresAt x < ic_now cx
             then (Inl (Status Unauthenticated ''session expired''),
                   w1\<lparr>iw_sess := snd (so_Delete (isv_sess sv) sid (ic_vk2 cx) k)\<rparr>)
             else (Inr (sid, x), w1)))"

record refresh_rsp =
  rp_access_token :: string
  rp_refresh_token :: string
  rp_expires_in :: int

text \<open>The second half: write the session back with a new secret and issue a new access token.\<close>

definition refresh_rotate ::
  "('u, 'k) identity_server \<Rightarrow> identity_ctx \<Rightarrow> string \<times> session \<Rightarrow> ('u, 'k) identity_world \<Rightarrow>
   (string status + refresh_rsp) \<times> ('u, 'k) identity_world" where
  "refresh_rotate sv cx sx w =
     (case randomSecret (ic_secret cx) of
        None \<Rightarrow> (Inl (Status Internal ''could not rotate token''), w)
      | Some newSecret \<Rightarrow>
        (let sid = fst sx;
             x1 = (snd sx)\<lparr>ss_RefreshHash := hashSecret (isv_H sv) newSecret, ss_IssuedAt := ic_now2 cx\<rparr>;
             (u, k) = so_Update (isv_sess sv) x1 (ic_vk2 cx) (iw_sess w);
             w1 = w\<lparr>iw_sess := k\<rparr> in
         case u of
           Inl e \<Rightarrow> (Inl (Status Internal ''could not rotate token''), w1)
         | Inr _ \<Rightarrow>
             (case Issue (isv_lib sv) (iw_mgr w1) (ic_tok_now cx) (ic_jti cx) (ss_UserID x1) sid of
                None \<Rightarrow> (Inl (Status Internal ''could not issue token''), w1)
              | Some (access, expiresIn) \<Rightarrow>
                  (Inr \<lparr>rp_access_token = access, rp_refresh_token = sid @ ''.'' @ newSecret,
                        rp_expires_in = expiresIn\<rparr>, w1))))"

definition RefreshToken ::
  "('u, 'k) identity_server \<Rightarrow> identity_ctx \<Rightarrow> string \<Rightarrow> ('u, 'k) identity_world \<Rightarrow>
   (string status + refresh_rsp) \<times> ('u, 'k) identity_world" where
  "RefreshToken sv cx tok w =
     (case refresh_check sv cx tok w of
        (Inl e, w1) \<Rightarrow> (Inl e, w1)
      | (Inr sx, w1) \<Rightarrow> refresh_rotate sv cx sx w1)"

section \<open>Revoke, GetMe, ValidateToken, GetJWKS\<close>

definition Revoke ::
  "('u, 'k) identity_server \<Rightarrow> identity_ctx \<Rightarrow> string \<Rightarrow> string \<Rightarrow> ('u, 'k) identity_world \<Rightarrow>
   (string status + unit) \<times> ('u, 'k) identity_world" where
  "Revoke sv cx session_id refresh_token w =
     (let del = (\<lambda>sid. case so_Delete (isv_sess sv) sid (ic_vk1 cx) (iw_sess w) of
                         (Inl e, k) \<Rightarrow> (Inl (Status Internal ''revoke failed''), w\<lparr>iw_sess := k\<rparr>)
                       | (Inr _, k) \<Rightarrow> (Inr (), w\<lparr>iw_sess := k\<rparr>))
      in if session_id \<noteq> [] then del session_id
         else if refresh_token \<noteq> [] then
           (case splitRefresh refresh_token of
              None \<Rightarrow> (Inl (Status InvalidArgument ''malformed refresh token''), w)
            | Some (sid, _) \<Rightarrow> del sid)
         else (Inl (Status InvalidArgument ''provide refresh_token or session_id''), w))"

definition GetMe ::
  "('u, 'k) identity_server \<Rightarrow> identity_ctx \<Rightarrow> ('u, 'k) identity_world \<Rightarrow>
   (string status + pb_user) \<times> ('u, 'k) identity_world" where
  "GetMe sv cx w =
     (let raw = id_bearer (ic_md cx) in
      if raw = [] then (Inl (Status Unauthenticated ''missing bearer token''), w) else
      case TokenVerify (isv_lib sv) (iw_mgr w) (ic_tok_now cx) raw of
        None \<Rightarrow> (Inl (Status Unauthenticated ''invalid token''), w)
      | Some claims \<Rightarrow>
          (case uo_GetByID (isv_users sv) (tc_Subject claims) (iw_users w) of
             (Inl e, us) \<Rightarrow> (Inl (Status Unauthenticated ''unknown subject''), w\<lparr>iw_users := us\<rparr>)
           | (Inr user, us) \<Rightarrow> (Inr (toProtoUser user), w\<lparr>iw_users := us\<rparr>)))"

record validate_rsp =
  vr_valid :: bool
  vr_subject :: string
  vr_claims :: "token_claims option"

text \<open>The claims are rendered with \<open>iat\<close> and \<open>exp\<close> in whole seconds.\<close>

definition ValidateToken ::
  "('u, 'k) identity_server \<Rightarrow> identity_ctx \<Rightarrow> string \<Rightarrow> ('u, 'k) identity_world \<Rightarrow> validate_rsp" where
  "ValidateToken sv cx access w =
     (case TokenVerify (isv_lib sv) (iw_mgr w) (ic_tok_now cx) access of
        None \<Rightarrow> \<lparr>vr_valid = False, vr_subject = [], vr_claims = None\<rparr>
      | Some c \<Rightarrow>
          \<lparr>vr_valid = True, vr_subject = tc_Subject c,
           vr_claims = Some (c\<lparr>tc_IssuedAt := tc_IssuedAt c div ns_per_sec,
                               tc_ExpiresAt := tc_ExpiresAt c div ns_per_sec\<rparr>)\<rparr>)"

definition GetJWKS :: "('u, 'k) identity_world \<Rightarrow> token_jwk list" where
  "GetJWKS w = JWKS (iw_mgr w)"

section \<open>Sequences of calls\<close>

datatype identity_call =
    CallSignIn identity_ctx signin_req
  | CallRefresh identity_ctx string
  | CallRevoke identity_ctx string string
  | CallGetMe identity_ctx

datatype identity_outcome =
    OutSignIn "string status + signin_rsp"
  | OutRefresh "string status + refresh_rsp"
  | OutRevoke "string status + unit"
  | OutGetMe "string status + pb_user"

fun identity_step ::
  "('u, 'k) identity_server \<Rightarrow> identity_call \<Rightarrow> ('u, 'k) identity_world \<Rightarrow>
   identity_outcome \<times> ('u, 'k) identity_world" where
  "identity_step sv (CallSignIn cx rq) w = (let (r, w') = SignIn sv cx rq w in (OutSignIn r, w'))"
| "identity_step sv (CallRefresh cx tok) w = (let (r, w') = RefreshToken sv cx tok w in (OutRefresh r, w'))"
| "identity_step sv (CallRevoke cx i tok) w = (let (r, w') = Revoke sv cx i tok w in (OutRevoke r, w'))"
| "identity_step sv (CallGetMe cx) w = (let (r, w') = GetMe sv cx w in (OutGetMe r, w'))"

text \<open>Calls overlap: \<open>Begin\<close> is the reading half of a RefreshToken call, which then is in flight with the session
  it has read, and \<open>Finish\<close> the writing half of the i-th call in flight. Other calls, and refreshes that
  nothing comes between, are \<open>Whole\<close>. A step tells the token and the answer of a refresh that ends in it.\<close>

datatype identity_event = Begin identity_ctx string | Finish nat identity_ctx | Whole identity_call

type_synonym in_flight = "(string \<times> string \<times> session) list"

fun overlap_step ::
  "('u, 'k) identity_server \<Rightarrow> identity_event \<Rightarrow> in_flight \<times> ('u, 'k) identity_world \<Rightarrow>
   (string \<times> (string status + refresh_rsp)) option \<times> in_flight \<times> ('u, 'k) identity_world" where
  "overlap_step sv (Begin cx tok) (hs, w) =
     (case refresh_check sv cx tok w of
        (Inl e, w') \<Rightarrow> (Some (tok, Inl e), hs, w')
      | (Inr sx, w') \<Rightarrow> (None, hs @ [(tok, sx)], w'))"
| "overlap_step sv (Finish i cx) (hs, w) =
     (if i < length hs then
        (case refresh_rotate sv cx (snd (hs ! i)) w of (r, w') \<Rightarrow> (Some (fst (hs ! i), r), take i hs @ drop (Suc i) hs, w'))
      else (None, hs, w))"
| "overlap_step sv (Whole c) (hs, w) =
     (case identity_step sv c w of
        (r, w') \<Rightarrow> (case (c, r) of (CallRefresh cx tok, OutRefresh x) \<Rightarrow> Some (tok, x) | _ \<Rightarrow> None, hs, w'))"

fun overlap_run ::
  "('u, 'k) identity_server \<Rightarrow> identity_event list \<Rightarrow> in_flight \<times> ('u, 'k) identity_world \<Rightarrow>
   (string \<times> (string status + refresh_rsp)) option list \<times> in_flight \<times> ('u, 'k) identity_world" where
  "overlap_run sv [] st = ([], st)"
| "overlap_run sv (e # es) st =
     (let (r, st1) = overlap_step sv e st; (rs, st2) = overlap_run sv es st1 in (r # rs, st2))"

text \<open>A refresh with the token starts in a step.\<close>

fun starts :: "string \<Rightarrow> identity_event \<Rightarrow> bool" where
  "starts tok (Begin cx t) = (t = tok)"
| "starts tok (Whole (CallRefresh cx t)) = (t = tok)"
| "starts tok _ = False"

fun call_secret :: "identity_call \<Rightarrow> string option" where
  "call_secret (CallSignIn cx rq) = randomSecret (ic_secret cx)"
| "call_secret (CallRefresh cx tok) = randomSecret (ic_secret cx)"
| "call_secret _ = None"

fun event_secret :: "identity_event \<Rightarrow> string option" where
  "event_secret (Begin cx tok) = None"
| "event_secret (Finish i cx) = randomSecret (ic_secret cx)"
| "event_secret (Whole c) = call_secret c"

text \<open>No session named \<open>sid\<close> has or will have the refresh hash \<open>h\<close>, unless it is written.\<close>

definition spent :: "(time \<Rightarrow> string \<Rightarrow> session option) \<Rightarrow> string \<Rightarrow> string \<Rightarrow> bool" where
  "spent f sid h \<longleftrightarrow> (\<forall>t x. f t sid = Some x \<longrightarrow> ss_RefreshHash x \<noteq> h)"

lemma char_byte_eq: "(word_of_nat (of_char a) :: 8 word) = word_of_nat (of_char b) \<longleftrightarrow> a = b"
  by (simp add: word_of_nat_eq_iff take_bit_eq_mod)

lemma xor_zero_iff: "xor a b = 0 \<longleftrightarrow> a = (b :: 8 word)"
proof -
  have "a = b" if "xor a b = 0"
  proof -
    have "xor (xor a b) b = a" by (simp add: xor.assoc)
    with that show ?thesis by simp
  qed
  then show ?thesis by auto
qed

lemma xor_fold_zero: "length a = length b \<Longrightarrow> xor_fold v a b = 0 \<longleftrightarrow> v = 0 \<and> a = b"
  by (induction v a b rule: xor_fold.induct) (auto simp: or_eq_0_iff xor_zero_iff char_byte_eq)

lemma constantTimeEqual_iff: "constantTimeEqual a b \<longleftrightarrow> a = b"
  by (auto simp: constantTimeEqual_def xor_fold_zero)

lemma spent_less:
  "spent f sid h \<Longrightarrow> f' = f \<or> f' = (\<lambda>t j. if j = i then None else f t j) \<Longrightarrow> spent f' sid h"
  by (elim disjE) (simp_all add: spent_def)

lemma splitRefresh_join:
  "CHR ''.'' \<notin> set sid \<Longrightarrow> sid \<noteq> [] \<Longrightarrow> secret \<noteq> [] \<Longrightarrow>
   splitRefresh (sid @ ''.'' @ secret) = Some (sid, secret)"
  by (simp add: splitRefresh_def IndexByte_append)

lemma users_frame [simp]:
  "iw_sess (w\<lparr>iw_users := us\<rparr>) = iw_sess w" "iw_mgr (w\<lparr>iw_sess := k\<rparr>) = iw_mgr w"
  by simp_all

text \<open>Runs of overlapping calls. A call in flight has a session with the id in its token.\<close>

definition held_ok :: "in_flight \<Rightarrow> bool" where
  "held_ok hs \<longleftrightarrow> (\<forall>(tok, i, x) \<in> set hs. ss_ID x = i \<and> (\<exists>secret. splitRefresh tok = Some (i, secret)))"

lemma held_removed: "held_ok hs \<Longrightarrow> held_ok (take i hs @ drop (Suc i) hs)"
  using set_take_subset [of i hs] set_drop_subset [of "Suc i" hs] unfolding held_ok_def set_append by blast

context session_store
begin

lemma spent_written:
  assumes "f' = (\<lambda>t i. if i = ss_ID x then (if t < e then Some x else None) else f t i)"
    and "spent f sid h" and "ss_RefreshHash x \<noteq> h"
  shows "spent f' sid h"
  using assms by (auto simp: spent_def)

lemma spent_update:
  assumes "so_Update ops x t s = (r, s')" and "spent (sess s) sid h" and "ss_RefreshHash x \<noteq> h"
  shows "spent (sess s') sid h"
proof (cases r)
  case (Inl e)
  with assms update_err show ?thesis by simp
next
  case (Inr u)
  from update_ok [OF assms(1) [unfolded Inr]] obtain e where
    "sess s' = (\<lambda>t' i. if i = ss_ID x then (if t' < e then Some x else None) else sess s t' i)" by blast
  from spent_written [OF this assms(2,3)] show ?thesis .
qed

lemma spent_create:
  assumes "so_Create ops x t s = (r, s')" and "spent (sess s) sid h" and "ss_RefreshHash x \<noteq> h"
  shows "spent (sess s') sid h"
proof (cases r)
  case (Inl e)
  with assms create_err show ?thesis by simp
next
  case (Inr u)
  from create_ok [OF assms(1) [unfolded Inr]] obtain e where
    "sess s' = (\<lambda>t' i. if i = ss_ID x then (if t' < e then Some x else None) else sess s t' i)" by blast
  from spent_written [OF this assms(2,3)] show ?thesis .
qed

lemma spent_delete:
  "so_Delete ops i t s = (r, s') \<Longrightarrow> spent (sess s) sid h \<Longrightarrow> spent (sess s') sid h"
proof (cases r)
  case (Inl e)
  assume "so_Delete ops i t s = (r, s')" "spent (sess s) sid h"
  with Inl delete_err show ?thesis by simp
next
  case (Inr u)
  assume d: "so_Delete ops i t s = (r, s')" and sp: "spent (sess s) sid h"
  from delete_ok [OF d [unfolded Inr]] sp show ?thesis by (simp add: spent_def)
qed

lemma issuePair_spent:
  assumes sv: "isv_sess sv = ops" and run: "issuePair sv cx u d w = (r, w')"
    and sp: "spent (sess (iw_sess w)) sid h"
    and fresh: "\<And>x. randomSecret (ic_secret cx) = Some x \<Longrightarrow> isv_H sv x \<noteq> h"
  shows "spent (sess (iw_sess w')) sid h"
proof (cases "randomSecret (ic_secret cx)")
  case None
  with run sp show ?thesis by (simp add: issuePair_def)
next
  case (Some x)
  let ?x = "\<lparr>ss_ID = ic_uuid cx, ss_UserID = us_ID u, ss_RefreshHash = hashSecret (isv_H sv) x,
                  ss_Device = d, ss_IssuedAt = ic_now cx, ss_ExpiresAt = ic_now cx + isv_refreshTTL sv\<rparr>"
  obtain c k where c: "so_Create ops ?x (ic_vk1 cx) (iw_sess w) = (c, k)" by fastforce
  with run Some sv have "iw_sess w' = k"
    by (auto simp: issuePair_def Let_def split: sum.splits option.splits)
  with spent_create [OF c sp] fresh [OF Some] show ?thesis by (simp add: hashSecret_def)
qed

lemma sign_in_reply_w: "sign_in_reply u p = (r, w') \<Longrightarrow> snd p = w'"
  by (auto simp: sign_in_reply_def split: prod.splits sum.splits)

lemma SignIn_spent:
  assumes sv: "isv_sess sv = ops" and run: "SignIn sv cx rq w = (r, w')"
    and sp: "spent (sess (iw_sess w)) sid h"
    and fresh: "\<And>x. randomSecret (ic_secret cx) = Some x \<Longrightarrow> isv_H sv x \<noteq> h"
  shows "spent (sess (iw_sess w')) sid h"
proof -
  have ip: "spent (sess (iw_sess (snd (issuePair sv cx u d w1)))) sid h"
    if "spent (sess (iw_sess w1)) sid h" for u d w1
    using issuePair_spent [OF sv _ that fresh] by (cases "issuePair sv cx u d w1") auto
  have soc: "spent (sess (iw_sess w')) sid h" if "signInSocial sv cx rq w = (r, w')"
    using that sp ip
    by (auto simp: signInSocial_def Let_def split: if_splits option.splits prod.splits sum.splits
        dest!: sign_in_reply_w)
  obtain al k where al: "so_Allow ops (''signin:'' @ ToLower (TrimSpace (sr_email rq))) (ic_vk1 cx) (iw_sess w) = (al, k)"
    by fastforce
  have k: "spent (sess k) sid h" using allow_frame [OF al] sp by simp
  have em: "spent (sess (iw_sess w')) sid h" if "signInEmail sv cx rq w = (r, w')"
    using that sp ip al k sv
    by (auto simp: signInEmail_def Let_def split: if_splits option.splits prod.splits sum.splits
        dest!: sign_in_reply_w)
  show ?thesis
    using run soc em sp by (auto simp: SignIn_def split: provider_enum.splits)
qed

text \<open>What the check does: it answers a session only when the presented secret is the session's.\<close>

lemma refresh_check_cases:
  assumes sv: "isv_sess sv = ops" and run: "refresh_check sv cx tok w = (r, w')"
  shows "iw_users w' = iw_users w \<and> iw_mgr w' = iw_mgr w \<and>
    (case r of
       Inr (sid, x) \<Rightarrow> (\<exists>secret. splitRefresh tok = Some (sid, secret) \<and>
         sess (iw_sess w) (ic_vk1 cx) sid = Some x \<and> ss_RefreshHash x = isv_H sv secret \<and>
         ic_now cx \<le> ss_ExpiresAt x \<and> sess (iw_sess w') = sess (iw_sess w))
     | Inl e \<Rightarrow> sess (iw_sess w') = sess (iw_sess w) \<or>
         (\<exists>sid secret x. splitRefresh tok = Some (sid, secret) \<and>
           sess (iw_sess w) (ic_vk1 cx) sid = Some x \<and>
           (ss_RefreshHash x \<noteq> isv_H sv secret \<or> ss_ExpiresAt x < ic_now cx) \<and>
           sess (iw_sess w') = (\<lambda>t j. if j = sid then None else sess (iw_sess w) t j)))"
proof (cases "splitRefresh tok")
  case None
  with run show ?thesis by (auto simp: refresh_check_def)
next
  case (Some ss)
  obtain sid secret where ss: "ss = (sid, secret)" by (cases ss)
  obtain g k where g: "so_Get ops sid (ic_vk1 cx) (iw_sess w) = (g, k)" by fastforce
  have k: "sess k = sess (iw_sess w)" using get_frame [OF g] .
  obtain d k2 where d: "so_Delete ops sid (ic_vk2 cx) k = (d, k2)" by fastforce
  have k2: "sess k2 = sess (iw_sess w) \<or> sess k2 = (\<lambda>t j. if j = sid then None else sess (iw_sess w) t j)"
  proof (cases d)
    case (Inl e)
    with delete_err d k show ?thesis by simp
  next
    case (Inr u)
    from delete_ok [OF d [unfolded Inr]] show ?thesis unfolding k by simp
  qed
  show ?thesis
  proof (cases g)
    case (Inl e)
    with run Some ss g k sv show ?thesis by (auto simp: refresh_check_def Let_def)
  next
    case (Inr xo)
    show ?thesis
    proof (cases xo)
      case None
      with run Some ss g k sv Inr show ?thesis by (auto simp: refresh_check_def Let_def)
    next
      case (Some x)
      have x: "sess (iw_sess w) (ic_vk1 cx) sid = Some x" using get_ok [of sid "ic_vk1 cx"] g Inr Some by simp
      show ?thesis
      proof (cases "ss_RefreshHash x = isv_H sv secret \<and> ic_now cx \<le> ss_ExpiresAt x")
        case True
        with run \<open>splitRefresh tok = Some ss\<close> ss g k sv Inr Some x show ?thesis
          by (auto simp: refresh_check_def Let_def constantTimeEqual_iff hashSecret_def)
      next
        case False
        then have "(\<exists>e. r = Inl e) \<and> iw_sess w' = k2 \<and> iw_users w' = iw_users w \<and> iw_mgr w' = iw_mgr w"
          using run \<open>splitRefresh tok = Some ss\<close> ss g d sv Inr Some
          by (auto simp: refresh_check_def Let_def constantTimeEqual_iff hashSecret_def split: if_splits)
        with k2 x False \<open>splitRefresh tok = Some ss\<close> ss show ?thesis by (auto simp: not_le)
      qed
    qed
  qed
qed

lemma refresh_rotate_cases:
  assumes sv: "isv_sess sv = ops" and run: "refresh_rotate sv cx (sid, x) w = (r, w')" and id: "ss_ID x = sid"
  shows "iw_users w' = iw_users w \<and> iw_mgr w' = iw_mgr w \<and>
    (sess (iw_sess w') = sess (iw_sess w) \<and> (\<exists>e. r = Inl e) \<or>
     (\<exists>s e. randomSecret (ic_secret cx) = Some s \<and> ic_vk2 cx < e \<and>
        sess (iw_sess w') = (\<lambda>t i. if i = sid
          then (if t < e then Some (x\<lparr>ss_RefreshHash := isv_H sv s, ss_IssuedAt := ic_now2 cx\<rparr>) else None)
          else sess (iw_sess w) t i) \<and>
        (case r of
           Inl _ \<Rightarrow> True
         | Inr rp \<Rightarrow> rp_refresh_token rp = sid @ ''.'' @ s \<and>
             Issue (isv_lib sv) (iw_mgr w) (ic_tok_now cx) (ic_jti cx) (ss_UserID x) sid =
               Some (rp_access_token rp, rp_expires_in rp))))"
proof (cases "randomSecret (ic_secret cx)")
  case None
  with run show ?thesis by (auto simp: refresh_rotate_def)
next
  case (Some s)
  let ?x = "x\<lparr>ss_RefreshHash := isv_H sv s, ss_IssuedAt := ic_now2 cx\<rparr>"
  obtain u k where u: "so_Update ops ?x (ic_vk2 cx) (iw_sess w) = (u, k)" by fastforce
  show ?thesis
  proof (cases u)
    case (Inl e)
    with run Some u sv update_err [OF u [unfolded Inl]] show ?thesis
      by (auto simp: refresh_rotate_def hashSecret_def Let_def)
  next
    case (Inr v)
    from update_ok [OF u [unfolded Inr]] obtain e where e: "ic_vk2 cx < e"
      "sess k = (\<lambda>t' i. if i = sid then (if t' < e then Some ?x else None) else sess (iw_sess w) t' i)"
      using id by auto
    from run Some u sv Inr have "iw_users w' = iw_users w \<and> iw_mgr w' = iw_mgr w \<and> iw_sess w' = k \<and>
      (case r of
           Inl _ \<Rightarrow> True
         | Inr rp \<Rightarrow> rp_refresh_token rp = sid @ ''.'' @ s \<and>
             Issue (isv_lib sv) (iw_mgr w) (ic_tok_now cx) (ic_jti cx) (ss_UserID x) sid =
               Some (rp_access_token rp, rp_expires_in rp))"
      by (auto simp: refresh_rotate_def hashSecret_def Let_def split: option.splits)
    with e Some show ?thesis by blast
  qed
qed

lemma check_spent:
  assumes sv: "isv_sess sv = ops" and c: "refresh_check sv cx tok w = (c, w1)" and sp: "spent (sess (iw_sess w)) sid h"
  shows "spent (sess (iw_sess w1)) sid h"
proof -
  have "\<exists>i. sess (iw_sess w1) = sess (iw_sess w) \<or>
        sess (iw_sess w1) = (\<lambda>t j. if j = i then None else sess (iw_sess w) t j)"
    using refresh_check_cases [OF sv c] by (cases c) auto
  then show ?thesis using spent_less [OF sp] by blast
qed

lemma rotate_spent:
  assumes sv: "isv_sess sv = ops" and rot: "refresh_rotate sv cx (i, x) w = (r, w')" and id: "ss_ID x = i"
    and sp: "spent (sess (iw_sess w)) sid h"
    and fresh: "\<And>x. randomSecret (ic_secret cx) = Some x \<Longrightarrow> isv_H sv x \<noteq> h"
  shows "spent (sess (iw_sess w')) sid h"
proof -
  from refresh_rotate_cases [OF sv rot id]
  consider "sess (iw_sess w') = sess (iw_sess w)"
    | s e where "randomSecret (ic_secret cx) = Some s"
      "sess (iw_sess w') = (\<lambda>t j. if j = i
        then (if t < e then Some (x\<lparr>ss_RefreshHash := isv_H sv s, ss_IssuedAt := ic_now2 cx\<rparr>) else None)
        else sess (iw_sess w) t j)" by blast
  then show ?thesis
  proof cases
    case 1
    with sp show ?thesis by simp
  next
    case (2 s e)
    show ?thesis
      by (rule spent_written [of _ "x\<lparr>ss_RefreshHash := isv_H sv s, ss_IssuedAt := ic_now2 cx\<rparr>" e])
        (use 2 sp fresh [OF 2(1)] id in simp_all)
  qed
qed

text \<open>A rotation that succeeds spends every token of its session that the new secret differs from.\<close>

lemma rotate_spends:
  assumes sv: "isv_sess sv = ops" and rot: "refresh_rotate sv cx (i, x) w = (Inr rp, w')" and id: "ss_ID x = i"
    and fresh: "\<And>x. randomSecret (ic_secret cx) = Some x \<Longrightarrow> isv_H sv x \<noteq> h"
  shows "spent (sess (iw_sess w')) i h"
proof -
  from refresh_rotate_cases [OF sv rot id] obtain s e where "randomSecret (ic_secret cx) = Some s"
    "sess (iw_sess w') = (\<lambda>t j. if j = i
        then (if t < e then Some (x\<lparr>ss_RefreshHash := isv_H sv s, ss_IssuedAt := ic_now2 cx\<rparr>) else None)
        else sess (iw_sess w) t j)" by auto
  with fresh show ?thesis by (simp add: spent_def)
qed

lemma check_refused:
  assumes sv: "isv_sess sv = ops" and c: "refresh_check sv cx tok w = (r, w1)"
    and split: "splitRefresh tok = Some (sid, secret)" and sp: "spent (sess (iw_sess w)) sid (isv_H sv secret)"
  shows "\<exists>e. r = Inl e"
  using refresh_check_cases [OF sv c] split sp by (cases r) (auto simp: spent_def)

lemma refresh_step_spent:
  assumes sv: "isv_sess sv = ops" and run: "RefreshToken sv cx tok w = (r, w')"
    and sp: "spent (sess (iw_sess w)) sid h"
    and fresh: "\<And>x. randomSecret (ic_secret cx) = Some x \<Longrightarrow> isv_H sv x \<noteq> h"
  shows "spent (sess (iw_sess w')) sid h"
proof -
  obtain c w1 where c: "refresh_check sv cx tok w = (c, w1)" by fastforce
  note sp1 = check_spent [OF sv c sp]
  show ?thesis
  proof (cases c)
    case (Inl e)
    with run c sp1 show ?thesis by (simp add: RefreshToken_def)
  next
    case (Inr sx)
    obtain i x where sx: "sx = (i, x)" by (cases sx)
    with refresh_check_cases [OF sv c] Inr have x: "sess (iw_sess w) (ic_vk1 cx) i = Some x" by auto
    have rot: "refresh_rotate sv cx (i, x) w1 = (r, w')" using run c Inr sx by (simp add: RefreshToken_def)
    show ?thesis by (rule rotate_spent [OF sv rot sess_id [OF x] sp1 fresh])
  qed
qed

lemma Revoke_sess:
  assumes sv: "isv_sess sv = ops" and run: "Revoke sv cx i tok w = (r, w')"
  shows "iw_users w' = iw_users w \<and>
    (sess (iw_sess w') = sess (iw_sess w) \<and> (\<exists>e. r = Inl e) \<or>
     (\<exists>sid. (i = sid \<and> i \<noteq> [] \<or> i = [] \<and> (\<exists>s. splitRefresh tok = Some (sid, s))) \<and> r = Inr () \<and>
        sess (iw_sess w') = (\<lambda>t j. if j = sid then None else sess (iw_sess w) t j)))"
proof -
  let ?del = "\<lambda>sid. case so_Delete ops sid (ic_vk1 cx) (iw_sess w) of
      (Inl e, k) \<Rightarrow> (Inl (Status Internal ''revoke failed''), w\<lparr>iw_sess := k\<rparr>)
    | (Inr _, k) \<Rightarrow> (Inr (), w\<lparr>iw_sess := k\<rparr>)"
  have del: "iw_users w' = iw_users w \<and> (sess (iw_sess w') = sess (iw_sess w) \<and> (\<exists>e. r = Inl e) \<or>
      r = Inr () \<and> sess (iw_sess w') = (\<lambda>t j. if j = sid then None else sess (iw_sess w) t j))"
    if d: "?del sid = (r, w')" for sid
  proof -
    obtain u k where u: "so_Delete ops sid (ic_vk1 cx) (iw_sess w) = (u, k)" by fastforce
    show ?thesis
    proof (cases u)
      case (Inl e)
      with d u delete_err [OF u [unfolded Inl]] show ?thesis by auto
    next
      case (Inr v)
      with d u delete_ok [OF u [unfolded Inr]] show ?thesis by auto
    qed
  qed
  consider "i \<noteq> []" "?del i = (r, w')"
    | sid s where "i = []" "splitRefresh tok = Some (sid, s)" "?del sid = (r, w')"
    | e where "r = Inl e" "w' = w"
    using run sv by (auto simp: Revoke_def split: if_splits option.splits)
  then show ?thesis
  proof cases
    case 1
    with del [OF 1(2)] show ?thesis by blast
  next
    case (2 sid s)
    with del [OF 2(3)] show ?thesis by blast
  qed auto
qed

lemma step_spent:
  assumes sv: "isv_sess sv = ops" and run: "identity_step sv c w = (out, w')"
    and sp: "spent (sess (iw_sess w)) sid h"
    and fresh: "\<And>x. call_secret c = Some x \<Longrightarrow> isv_H sv x \<noteq> h"
  shows "spent (sess (iw_sess w')) sid h"
proof (cases c)
  case (CallSignIn cx rq)
  obtain r w1 where r: "SignIn sv cx rq w = (r, w1)" by fastforce
  have "spent (sess (iw_sess w1)) sid h"
    by (rule SignIn_spent [OF sv r sp]) (use fresh CallSignIn in simp)
  with run CallSignIn r show ?thesis by simp
next
  case (CallRefresh cx tok)
  obtain r w1 where r: "RefreshToken sv cx tok w = (r, w1)" by fastforce
  have "spent (sess (iw_sess w1)) sid h"
    by (rule refresh_step_spent [OF sv r sp]) (use fresh CallRefresh in simp)
  with run CallRefresh r show ?thesis by simp
next
  case (CallRevoke cx i tok)
  obtain r w1 where r: "Revoke sv cx i tok w = (r, w1)" by fastforce
  have "\<exists>i. sess (iw_sess w1) = sess (iw_sess w) \<or>
        sess (iw_sess w1) = (\<lambda>t j. if j = i then None else sess (iw_sess w) t j)"
    using Revoke_sess [OF sv r] by blast
  with run CallRevoke r spent_less [OF sp] show ?thesis by auto
next
  case (CallGetMe cx)
  obtain r w1 where r: "GetMe sv cx w = (r, w1)" by fastforce
  then have "iw_sess w1 = iw_sess w"
    by (auto simp: GetMe_def Let_def split: if_splits option.splits prod.splits sum.splits)
  with run CallGetMe r sp show ?thesis by simp
qed

lemma refresh_ok:
  assumes sv: "isv_sess sv = ops" and run: "RefreshToken sv cx tok w = (Inr rp, w')"
    and split: "splitRefresh tok = Some (sid, secret)"
  shows "\<exists>x s e. sess (iw_sess w) (ic_vk1 cx) sid = Some x \<and> ss_RefreshHash x = isv_H sv secret \<and>
    ic_now cx \<le> ss_ExpiresAt x \<and> randomSecret (ic_secret cx) = Some s \<and> ic_vk2 cx < e \<and>
    rp_refresh_token rp = sid @ ''.'' @ s \<and>
    Issue (isv_lib sv) (iw_mgr w) (ic_tok_now cx) (ic_jti cx) (ss_UserID x) sid =
      Some (rp_access_token rp, rp_expires_in rp) \<and> iw_users w' = iw_users w \<and> iw_mgr w' = iw_mgr w \<and>
    sess (iw_sess w') = (\<lambda>t i. if i = sid
      then (if t < e then Some (x\<lparr>ss_RefreshHash := isv_H sv s, ss_IssuedAt := ic_now2 cx\<rparr>) else None)
      else sess (iw_sess w) t i)"
proof -
  obtain c w1 where c: "refresh_check sv cx tok w = (c, w1)" by fastforce
  with run obtain i x where ix: "c = Inr (i, x)" and rot: "refresh_rotate sv cx (i, x) w1 = (Inr rp, w')"
    by (auto simp: RefreshToken_def split: sum.splits)
  from refresh_check_cases [OF sv c [unfolded ix]] split have
    cc: "i = sid" "sess (iw_sess w) (ic_vk1 cx) sid = Some x" "ss_RefreshHash x = isv_H sv secret"
      "ic_now cx \<le> ss_ExpiresAt x" "sess (iw_sess w1) = sess (iw_sess w)" "iw_users w1 = iw_users w"
      "iw_mgr w1 = iw_mgr w" by auto
  from refresh_rotate_cases [OF sv rot [unfolded cc(1)] sess_id [OF cc(2)], unfolded cc(5-7)]
  have "iw_users w' = iw_users w \<and> iw_mgr w' = iw_mgr w \<and>
     (\<exists>s e. randomSecret (ic_secret cx) = Some s \<and> ic_vk2 cx < e \<and>
        sess (iw_sess w') = (\<lambda>t i. if i = sid
          then (if t < e then Some (x\<lparr>ss_RefreshHash := isv_H sv s, ss_IssuedAt := ic_now2 cx\<rparr>) else None)
          else sess (iw_sess w) t i) \<and>
        rp_refresh_token rp = sid @ ''.'' @ s \<and>
        Issue (isv_lib sv) (iw_mgr w) (ic_tok_now cx) (ic_jti cx) (ss_UserID x) sid =
           Some (rp_access_token rp, rp_expires_in rp))" by auto
  with cc(2-4) show ?thesis by blast
qed

lemma overlap_step_cases:
  assumes sv: "isv_sess sv = ops" and run: "overlap_step sv e (hs, w) = (out, hs', w')" and ok: "held_ok hs"
    and fresh: "\<And>x. event_secret e = Some x \<Longrightarrow> isv_H sv x \<noteq> isv_H sv secret"
    and split: "splitRefresh tok = Some (sid, secret)"
  shows "held_ok hs' \<and>
    (spent (sess (iw_sess w)) sid (isv_H sv secret) \<longrightarrow> spent (sess (iw_sess w')) sid (isv_H sv secret) \<and>
       (starts tok e \<longrightarrow> (\<exists>st. out = Some (tok, Inl st)))) \<and>
    (\<forall>rp. out = Some (tok, Inr rp) \<longrightarrow> spent (sess (iw_sess w')) sid (isv_H sv secret))"
proof (cases e)
  case (Begin cx t)
  obtain c w1 where c: "refresh_check sv cx t w = (c, w1)" by fastforce
  note sp = check_spent [OF sv c]
  show ?thesis
  proof (cases c)
    case (Inl st)
    then have "out = Some (t, Inl st)" "hs' = hs" "w' = w1" using run by (simp_all add: Begin c)
    then show ?thesis using ok sp by (simp add: Begin)
  next
    case (Inr sx)
    obtain i x where sx: "sx = (i, x)" by (cases sx)
    from refresh_check_cases [OF sv c] Inr sx have x: "sess (iw_sess w) (ic_vk1 cx) i = Some x"
      "\<exists>s. splitRefresh t = Some (i, s)" by auto
    have o: "out = None" "hs' = hs @ [(t, i, x)]" "w' = w1" using run by (simp_all add: Begin c Inr sx)
    have "held_ok hs'" using ok x(2) sess_id [OF x(1)] by (simp add: held_ok_def o(2))
    moreover have "\<not> spent (sess (iw_sess w)) sid (isv_H sv secret)" if "t = tok"
      using check_refused [OF sv c [unfolded that Inr] split] by blast
    ultimately show ?thesis using o sp by (auto simp: Begin)
  qed
next
  case (Finish i cx)
  show ?thesis
  proof (cases "i < length hs")
    case False
    then have "out = None" "hs' = hs" "w' = w" using run by (simp_all add: Finish)
    then show ?thesis using ok by (simp add: Finish)
  next
    case True
    obtain t j x where h: "hs ! i = (t, j, x)" by (cases "hs ! i")
    from True have "(t, j, x) \<in> set hs" using nth_mem [OF True] h by simp
    with ok have j: "ss_ID x = j" "\<exists>s. splitRefresh t = Some (j, s)" by (auto simp: held_ok_def)
    obtain r w1 where r: "refresh_rotate sv cx (j, x) w = (r, w1)" by fastforce
    have o: "out = Some (t, r)" "hs' = take i hs @ drop (Suc i) hs" "w' = w1" using run by (simp_all add: Finish True h r)
    have fr: "\<And>x. randomSecret (ic_secret cx) = Some x \<Longrightarrow> isv_H sv x \<noteq> isv_H sv secret" using fresh by (simp add: Finish)
    have "spent (sess (iw_sess w')) sid (isv_H sv secret)" if "out = Some (tok, Inr rp)" for rp
    proof -
      from that o(1) have "t = tok" "r = Inr rp" by simp_all
      with j(2) split have "j = sid" by simp
      with rotate_spends [OF sv r [unfolded \<open>r = Inr rp\<close>] j(1) fr] o(3) show ?thesis by simp
    qed
    moreover have "spent (sess (iw_sess w)) sid (isv_H sv secret) \<Longrightarrow> spent (sess (iw_sess w')) sid (isv_H sv secret)"
      unfolding o(3) by (rule rotate_spent [OF sv r j(1) _ fr])
    ultimately show ?thesis using held_removed [OF ok] by (simp add: o(2) Finish)
  qed
next
  case (Whole c)
  obtain q w1 where q: "identity_step sv c w = (q, w1)" by fastforce
  have o: "hs' = hs" "w' = w1" "out = (case (c, q) of (CallRefresh cx tok, OutRefresh x) \<Rightarrow> Some (tok, x) | _ \<Rightarrow> None)"
    using run by (simp_all add: Whole q)
  have fr: "\<And>x. call_secret c = Some x \<Longrightarrow> isv_H sv x \<noteq> isv_H sv secret" using fresh by (simp add: Whole)
  note sp = step_spent [OF sv q _ fr]
  show ?thesis
  proof (cases "\<exists>cx. c = CallRefresh cx tok")
    case False
    then have "\<not> starts tok e" "out \<noteq> Some (tok, Inr rp)" for rp
      by (cases c; auto simp: Whole o(3) split: identity_outcome.splits)+
    then show ?thesis using ok sp o(1,2) by auto
  next
    case True
    then obtain cx where c: "c = CallRefresh cx tok" by blast
    obtain r where r: "RefreshToken sv cx tok w = (r, w1)" and qr: "q = OutRefresh r"
      using q by (auto simp: c split: prod.splits)
    have out: "out = Some (tok, r)" by (simp add: o(3) c qr)
    show ?thesis
    proof (cases r)
      case (Inl st)
      then show ?thesis using ok sp o(1,2) out by auto
    next
      case (Inr rp)
      from refresh_ok [OF sv r [unfolded Inr] split] obtain x s e where
        x: "sess (iw_sess w) (ic_vk1 cx) sid = Some x" "ss_RefreshHash x = isv_H sv secret"
        and s: "randomSecret (ic_secret cx) = Some s"
        and f: "sess (iw_sess w1) = (\<lambda>t i. if i = sid
          then (if t < e then Some (x\<lparr>ss_RefreshHash := isv_H sv s, ss_IssuedAt := ic_now2 cx\<rparr>) else None)
          else sess (iw_sess w) t i)" by blast
      have "isv_H sv s \<noteq> isv_H sv secret" using fr s by (simp add: c)
      then have "spent (sess (iw_sess w1)) sid (isv_H sv secret)" by (simp add: f spent_def)
      moreover have "\<not> spent (sess (iw_sess w)) sid (isv_H sv secret)" using x by (auto simp: spent_def)
      ultimately show ?thesis using ok o(1,2) by simp
    qed
  qed
qed

lemma overlap_single_use:
  assumes sv: "isv_sess sv = ops" and split: "splitRefresh tok = Some (sid, secret)"
  shows "overlap_run sv es (hs, w) = (outs, st) \<Longrightarrow> held_ok hs \<Longrightarrow>
    (\<forall>e \<in> set es. \<forall>x. event_secret e = Some x \<longrightarrow> isv_H sv x \<noteq> isv_H sv secret) \<Longrightarrow>
    j < length es \<Longrightarrow> starts tok (es ! j) \<Longrightarrow>
    spent (sess (iw_sess w)) sid (isv_H sv secret) \<or> (\<exists>i < j. \<exists>rp. outs ! i = Some (tok, Inr rp)) \<Longrightarrow>
    \<exists>e. outs ! j = Some (tok, Inl e)"
proof (induction es arbitrary: hs w outs j)
  case Nil
  then show ?case by simp
next
  case (Cons e es)
  obtain o1 hs1 w1 where s1: "overlap_step sv e (hs, w) = (o1, hs1, w1)" by (rule prod_cases3)
  obtain os st2 where run2: "overlap_run sv es (hs1, w1) = (os, st2)" by (cases "overlap_run sv es (hs1, w1)") auto
  have o: "outs = o1 # os" "st2 = st" using Cons.prems(1) by (simp_all add: s1 run2)
  note s2 = run2 [unfolded o(2)]
  have fr: "\<And>x. event_secret e = Some x \<Longrightarrow> isv_H sv x \<noteq> isv_H sv secret" using Cons.prems(3) by simp
  note st = overlap_step_cases [OF sv s1 Cons.prems(2) fr split]
  show ?case
  proof (cases j)
    case 0
    with Cons.prems(5,6) st show ?thesis by (simp add: o)
  next
    case (Suc k)
    from Cons.prems(6) have "spent (sess (iw_sess w1)) sid (isv_H sv secret) \<or> (\<exists>i < k. \<exists>rp. os ! i = Some (tok, Inr rp))"
    proof (elim disjE exE conjE)
      assume "spent (sess (iw_sess w)) sid (isv_H sv secret)"
      with st show ?thesis by blast
    next
      fix i rp assume i: "i < j" "outs ! i = Some (tok, Inr rp)"
      show ?thesis
      proof (cases i)
        case 0
        with i(2) st show ?thesis by (simp add: o)
      next
        case (Suc m)
        with i \<open>j = Suc k\<close> show ?thesis by (auto simp: o)
      qed
    qed
    moreover have "held_ok hs1" using st by blast
    ultimately have "\<exists>e. os ! k = Some (tok, Inl e)"
      using Cons.IH [OF s2, of k] Cons.prems(3-5) by (simp add: Suc)
    then show ?thesis by (simp add: o Suc)
  qed
qed

end

section \<open>The service on Valkey and Postgres\<close>

text \<open>C18: a refresh token is not used again. In any sequence of calls, which may overlap, at whatever times and
  with whatever failures of the stores: once a refresh with a token has succeeded, every refresh with the
  same token that starts later is refused. The premise is that no newly drawn secret hashes like the
  token's. (Refreshes that started before can still succeed.)\<close>

theorem refresh_token_single_use:
  assumes "isv_sess sv = idv_ops m window" and "splitRefresh tok = Some (sid, secret)"
    and "overlap_run sv es ([], w) = (outs, st)"
    and "\<forall>e \<in> set es. \<forall>x. event_secret e = Some x \<longrightarrow> isv_H sv x \<noteq> isv_H sv secret"
    and "outs ! i = Some (tok, Inr rp)" and "i < j" and "j < length es" and "starts tok (es ! j)"
  shows "\<exists>e. outs ! j = Some (tok, Inl e)"
  by (rule idv.overlap_single_use [OF assms(1-3) _ assms(4,7,8)]) (use assms(5,6) in \<open>auto simp: held_ok_def\<close>)

definition ex_lib2 :: token_lib where
  "ex_lib2 = \<lparr>tl_SignedString = (\<lambda>kid priv c. Some kid), tl_Parse = (\<lambda>kf iss aud now tok. None)\<rparr>"

definition ex_idsv :: "(id_pg, stored_session valkey) identity_server" where
  "ex_idsv = \<lparr>isv_users = idp_ops ex_uuid, isv_sess = idv_ops 5 (60 * ns_per_sec),
     isv_refreshTTL = 100 * ns_per_sec, isv_H = (\<lambda>x. x), isv_IDKey = ex_idkey, isv_lib = ex_lib2\<rparr>"

definition ex_idcx :: "string \<Rightarrow> identity_ctx" where
  "ex_idcx sec = \<lparr>ic_now = 0, ic_now2 = 0, ic_vk1 = 0, ic_vk2 = 0, ic_db = 0, ic_tok_now = 0,
     ic_secret = Some sec, ic_jti = Some ''j'', ic_salt = Some ''s'', ic_uuid = ''n'', ic_md = None,
     ic_oauth = (\<lambda>p t. Some \<lparr>ei_Provider = p, ei_Subject = ''g1'', ei_Email = ''m@x'', ei_EmailVerified = False\<rparr>)\<rparr>"

definition ex_idw :: "(id_pg, stored_session valkey) identity_world" where
  "ex_idw = \<lparr>iw_users = ex_idpg, iw_sess = \<lparr>vk_keys = Map.empty(sessionKey ''S'' \<mapsto>
      (Val \<lparr>st_UserID = ''a'', st_RefreshHash = RawURLEncode ''abc'', st_Device = [], st_IssuedAt = 0,
        st_ExpiresAt = 100 * ns_per_sec\<rparr>, None)), vk_faults = []\<rparr>, iw_mgr = ex_manager\<rparr>"

definition ex_rtok :: string where
  "ex_rtok = ''S'' @ ''.'' @ RawURLEncode ''abc''"

lemma ex_split [simp]: "splitRefresh ex_rtok = Some (''S'', RawURLEncode ''abc'')"
  unfolding ex_rtok_def by (rule splitRefresh_join) simp_all

lemma ex_idsv_sel [simp]:
  "isv_users ex_idsv = idp_ops ex_uuid" "isv_sess ex_idsv = idv_ops 5 (60 * ns_per_sec)"
  "isv_H ex_idsv = (\<lambda>x. x)" "isv_lib ex_idsv = ex_lib2" "isv_refreshTTL ex_idsv = 100 * ns_per_sec"
  "isv_IDKey ex_idsv = ex_idkey"
  by (simp_all add: ex_idsv_def)

lemma ex_check: "refresh_check ex_idsv (ex_idcx sec) ex_rtok ex_idw =
   (Inr (''S'', \<lparr>ss_ID = ''S'', ss_UserID = ''a'', ss_RefreshHash = RawURLEncode ''abc'', ss_Device = [],
      ss_IssuedAt = 0, ss_ExpiresAt = 100 * ns_per_sec\<rparr>), ex_idw)"
  by (simp add: refresh_check_def ex_idcx_def ex_idw_def idv_ops_def idv_Get_def vk_defs vk_live_def
      constantTimeEqual_iff hashSecret_def to_session_def ns_per_sec_def)

lemma ex_rotate: "\<exists>w'. refresh_rotate ex_idsv (ex_idcx sec) (''S'', \<lparr>ss_ID = ''S'', ss_UserID = ''a'',
      ss_RefreshHash = h, ss_Device = [], ss_IssuedAt = 0, ss_ExpiresAt = 100 * ns_per_sec\<rparr>) w =
   (Inr \<lparr>rp_access_token = kp_kid (mg_current (iw_mgr w)), rp_refresh_token = ''S'' @ ''.'' @ RawURLEncode sec,
      rp_expires_in = whole_seconds (mg_ttl (iw_mgr w))\<rparr>, w')"
  if "vk_faults (iw_sess w) = []"
  using that
  by (simp add: refresh_rotate_def randomSecret_def ex_idcx_def idv_ops_def idv_Update_def idv_put_def vk_defs
      Issue_def randomID_def ex_lib2_def ns_per_sec_def Let_def)

lemma ex_idw_faults [simp]: "vk_faults (iw_sess ex_idw) = []"
  by (simp add: ex_idw_def)

text \<open>Two refreshes with one token overlap; a third one starts after them.\<close>

definition ex_overlap :: "identity_event list" where
  "ex_overlap = [Begin (ex_idcx ''x'') ex_rtok, Begin (ex_idcx ''y'') ex_rtok, Finish 0 (ex_idcx ''x''),
     Finish 0 (ex_idcx ''y''), Whole (CallRefresh (ex_idcx ''z'') ex_rtok)]"

lemma ex_overlap_run: "\<exists>rp rp' r st. overlap_run ex_idsv ex_overlap ([], ex_idw) =
    ([None, None, Some (ex_rtok, Inr rp), Some (ex_rtok, Inr rp'), Some (ex_rtok, r)], st)"
proof -
  let ?x = "\<lparr>ss_ID = ''S'', ss_UserID = ''a'', ss_RefreshHash = RawURLEncode ''abc'', ss_Device = [],
      ss_IssuedAt = 0, ss_ExpiresAt = 100 * ns_per_sec\<rparr>"
  obtain rp w1 where 1: "refresh_rotate ex_idsv (ex_idcx ''x'') (''S'', ?x) ex_idw = (Inr rp, w1)"
    using ex_rotate [OF ex_idw_faults] by blast
  have "vk_faults (iw_sess w1) = []" using 1
    by (auto simp: refresh_rotate_def randomSecret_def ex_idcx_def idv_ops_def idv_Update_def idv_put_def vk_defs
      Issue_def randomID_def ex_lib2_def ns_per_sec_def Let_def ex_idw_def)
  then obtain rp' w2 where 2: "refresh_rotate ex_idsv (ex_idcx ''y'') (''S'', ?x) w1 = (Inr rp', w2)"
    using ex_rotate by blast
  obtain r w3 where 3: "RefreshToken ex_idsv (ex_idcx ''z'') ex_rtok w2 = (r, w3)" by fastforce
  show ?thesis by (simp add: ex_overlap_def ex_check 1 2 3)
qed

theorem refresh_token_single_use_witness:
  "\<exists>rp rp' e st. overlap_run ex_idsv ex_overlap ([], ex_idw) =
     ([None, None, Some (ex_rtok, Inr rp), Some (ex_rtok, Inr rp'), Some (ex_rtok, Inl e)], st)"
proof -
  from ex_overlap_run obtain rp rp' r st where run: "overlap_run ex_idsv ex_overlap ([], ex_idw) =
      ([None, None, Some (ex_rtok, Inr rp), Some (ex_rtok, Inr rp'), Some (ex_rtok, r)], st)" by (elim exE)
  have "RawURLEncode ''x'' \<noteq> RawURLEncode ''abc''" "RawURLEncode ''y'' \<noteq> RawURLEncode ''abc''"
    "RawURLEncode ''z'' \<noteq> RawURLEncode ''abc''"
    using RawURLEncode_inj by fastforce+
  then have "\<forall>e \<in> set ex_overlap. \<forall>x. event_secret e = Some x \<longrightarrow> isv_H ex_idsv x \<noteq> isv_H ex_idsv (RawURLEncode ''abc'')"
    by (auto simp: ex_overlap_def randomSecret_def ex_idcx_def)
  from refresh_token_single_use [OF ex_idsv_sel(2) ex_split run this, of 2 rp 4]
  obtain e where "r = Inl e" by (auto simp: ex_overlap_def)
  with run show ?thesis by blast
qed

text \<open>What a successful refresh does. The presented secret was the session's and the session had
  not expired; the session keeps its user, device and expiry and gets the hash of the new secret;
  the returned refresh token is the session id with that secret, and the access token is issued for
  the session's user; no other session changes.\<close>

theorem refresh_rotates:
  assumes "isv_sess sv = idv_ops m window" and "splitRefresh tok = Some (sid, secret)"
    and "RefreshToken sv cx tok w = (Inr rp, w')"
  shows "\<exists>x s e. idv_session (iw_sess w) (ic_vk1 cx) sid = Some x \<and> ss_RefreshHash x = isv_H sv secret \<and>
    ic_now cx \<le> ss_ExpiresAt x \<and> rp_refresh_token rp = sid @ ''.'' @ s \<and> ic_vk2 cx < e \<and>
    Issue (isv_lib sv) (iw_mgr w) (ic_tok_now cx) (ic_jti cx) (ss_UserID x) sid =
      Some (rp_access_token rp, rp_expires_in rp) \<and>
    (\<forall>t < e. idv_session (iw_sess w') t sid =
       Some (x\<lparr>ss_RefreshHash := isv_H sv s, ss_IssuedAt := ic_now2 cx\<rparr>)) \<and>
    (\<forall>t i. i \<noteq> sid \<longrightarrow> idv_session (iw_sess w') t i = idv_session (iw_sess w) t i)"
proof -
  from idv.refresh_ok [OF assms(1,3,2)] obtain x s e where
    *: "idv_session (iw_sess w) (ic_vk1 cx) sid = Some x" "ss_RefreshHash x = isv_H sv secret"
      "ic_now cx \<le> ss_ExpiresAt x" "ic_vk2 cx < e" "rp_refresh_token rp = sid @ ''.'' @ s"
      "Issue (isv_lib sv) (iw_mgr w) (ic_tok_now cx) (ic_jti cx) (ss_UserID x) sid =
        Some (rp_access_token rp, rp_expires_in rp)" and
    f: "idv_session (iw_sess w') = (\<lambda>t i. if i = sid
      then (if t < e then Some (x\<lparr>ss_RefreshHash := isv_H sv s, ss_IssuedAt := ic_now2 cx\<rparr>) else None)
      else idv_session (iw_sess w) t i)" by blast
  have "\<forall>t < e. idv_session (iw_sess w') t sid =
       Some (x\<lparr>ss_RefreshHash := isv_H sv s, ss_IssuedAt := ic_now2 cx\<rparr>)"
    "\<forall>t i. i \<noteq> sid \<longrightarrow> idv_session (iw_sess w') t i = idv_session (iw_sess w) t i"
    by (simp_all add: f)
  with * show ?thesis by blast
qed

lemma ex_refresh:
  "\<exists>rp w'. RefreshToken ex_idsv (ex_idcx sec) ex_rtok ex_idw = (Inr rp, w')"
  using ex_rotate [OF ex_idw_faults, of sec "RawURLEncode ''abc''"] by (auto simp: RefreshToken_def ex_check)

theorem refresh_rotates_witness:
  "\<exists>rp w' s. RefreshToken ex_idsv (ex_idcx ''x'') ex_rtok ex_idw = (Inr rp, w') \<and>
     rp_refresh_token rp = ''S'' @ ''.'' @ s \<and>
     map_option ss_RefreshHash (idv_session (iw_sess w') 0 ''S'') = Some s"
proof -
  obtain rp w' where r: "RefreshToken ex_idsv (ex_idcx ''x'') ex_rtok ex_idw = (Inr rp, w')"
    using ex_refresh by blast
  from refresh_rotates [OF ex_idsv_sel(2) ex_split r] obtain x s e where
    "rp_refresh_token rp = ''S'' @ ''.'' @ s" "(0::int) < e"
    "\<forall>t < e. idv_session (iw_sess w') t ''S'' = Some (x\<lparr>ss_RefreshHash := s, ss_IssuedAt := 0\<rparr>)"
    by (auto simp: ex_idcx_def)
  with r show ?thesis by (auto intro!: exI [of _ s])
qed

text \<open>Presenting a secret that is not the session's (a token already rotated, or a forged one)
  is refused and, unless Valkey fails, ends the session at once: nothing refreshes it afterwards.\<close>

theorem refresh_reuse_revokes:
  assumes "isv_sess sv = idv_ops m window" and "splitRefresh tok = Some (sid, secret)"
    and "idv_session (iw_sess w) (ic_vk1 cx) sid = Some x" and "ss_RefreshHash x \<noteq> isv_H sv secret"
    and "vk_faults (iw_sess w) = []" and "RefreshToken sv cx tok w = (r, w')"
  shows "r = Inl (Status Unauthenticated ''refresh token reuse detected'') \<and>
    (\<forall>t. idv_session (iw_sess w') t sid = None) \<and>
    (\<forall>t i. i \<noteq> sid \<longrightarrow> idv_session (iw_sess w') t i = idv_session (iw_sess w) t i)"
proof -
  obtain st where st: "vk_live (iw_sess w) (ic_vk1 cx) (sessionKey sid) = Some (Val st)" "x = to_session sid st"
    using assms(3) by (auto simp: idv_session_def split: option.splits vval.splits)
  have g: "so_Get (isv_sess sv) sid (ic_vk1 cx) (iw_sess w) = (Inr (Some x), (iw_sess w)\<lparr>vk_faults := []\<rparr>)"
    using st assms(1,5) by (simp add: idv_ops_def idv_Get_def vk_GET_def vk_tick_def vk_live_def)
  have d: "so_Delete (isv_sess sv) sid (ic_vk2 cx) ((iw_sess w)\<lparr>vk_faults := []\<rparr>) =
      (Inr (), (iw_sess w)\<lparr>vk_faults := [], vk_keys := (vk_keys (iw_sess w))(sessionKey sid := None)\<rparr>)"
    using assms(1) by (simp add: idv_ops_def idv_Delete_def vk_DEL_def vk_tick_def)
  have "r = Inl (Status Unauthenticated ''refresh token reuse detected'')"
    "iw_sess w' = (iw_sess w)\<lparr>vk_faults := [], vk_keys := (vk_keys (iw_sess w))(sessionKey sid := None)\<rparr>"
    using assms(2,4,6) g d by (auto simp: RefreshToken_def refresh_check_def constantTimeEqual_iff hashSecret_def)
  then show ?thesis by (simp add: idv_session_def vk_live_def)
qed

theorem refresh_reuse_revokes_witness:
  "\<exists>w'. RefreshToken ex_idsv (ex_idcx ''x'') (''S'' @ ''.'' @ ''old'') ex_idw =
      (Inl (Status Unauthenticated ''refresh token reuse detected''), w') \<and>
    (\<forall>t. idv_session (iw_sess w') t ''S'' = None)"
proof -
  obtain r w' where r: "RefreshToken ex_idsv (ex_idcx ''x'') (''S'' @ ''.'' @ ''old'') ex_idw = (r, w')" by fastforce
  have "splitRefresh (''S'' @ ''.'' @ ''old'') = Some (''S'', ''old'')" by (rule splitRefresh_join) simp_all
  moreover have "RawURLEncode ''abc'' \<noteq> ''old''"
    by (auto dest: arg_cong [where f = length] simp: RawURLEncode_def)
  ultimately show ?thesis
    using refresh_reuse_revokes [OF _ _ _ _ _ r, of 5 "60 * ns_per_sec" "''S''" "''old''"
      "to_session ''S'' \<lparr>st_UserID = ''a'', st_RefreshHash = RawURLEncode ''abc'', st_Device = [], st_IssuedAt = 0,
        st_ExpiresAt = 100 * ns_per_sec\<rparr>"] r
    by (simp add: idv_session_def vk_live_def ex_idw_def ex_idcx_def to_session_def)
qed

text \<open>C14: overlapping refreshes end the session. The check and the rotation of a refresh are two calls of
  the store, so two refreshes with one token that overlap (a client that sends its request twice) can both
  succeed, with different tokens, as the run of the witness does. When they do, only the token answered last is
  good: presenting the other one while the session lives is answered as the reuse of a stolen token, and the
  session of both is over. Valkey does not fail in this run, and the two new secrets have different hashes.\<close>

theorem overlapping_refreshes_end_session:
  assumes "isv_sess sv = idv_ops m window"
    and "refresh_check sv cx1 tok w = (Inr (sid, x1), w1)" and "refresh_check sv cx2 tok w1 = (Inr (sid, x2), w2)"
    and "refresh_rotate sv cx1 (sid, x1) w2 = (Inr rp1, w3)" and "refresh_rotate sv cx2 (sid, x2) w3 = (Inr rp2, w4)"
    and "\<forall>s1 s2. randomSecret (ic_secret cx1) = Some s1 \<longrightarrow> randomSecret (ic_secret cx2) = Some s2 \<longrightarrow>
      s1 \<noteq> [] \<and> isv_H sv s1 \<noteq> isv_H sv s2"
    and "vk_faults (iw_sess w4) = []" and "idv_session (iw_sess w4) (ic_vk1 cx3) sid \<noteq> None"
    and "RefreshToken sv cx3 (rp_refresh_token rp1) w4 = (r, w5)"
  shows "r = Inl (Status Unauthenticated ''refresh token reuse detected'') \<and>
    (\<forall>t. idv_session (iw_sess w4) t sid \<noteq> None \<longrightarrow> idv_session (iw_sess w5) t sid = None)"
proof -
  obtain secret where sid: "splitRefresh tok = Some (sid, secret)" and
    x1: "idv_session (iw_sess w) (ic_vk1 cx1) sid = Some x1" using idv.refresh_check_cases [OF assms(1,2)] by auto
  have x2: "idv_session (iw_sess w1) (ic_vk1 cx2) sid = Some x2" using idv.refresh_check_cases [OF assms(1,3)] by auto
  obtain s1 where s1: "randomSecret (ic_secret cx1) = Some s1" "rp_refresh_token rp1 = sid @ ''.'' @ s1"
    using idv.refresh_rotate_cases [OF assms(1,4) idv.sess_id [OF x1]] by auto
  obtain s2 e where s2: "randomSecret (ic_secret cx2) = Some s2"
    "idv_session (iw_sess w4) = (\<lambda>t i. if i = sid
      then (if t < e then Some (x2\<lparr>ss_RefreshHash := isv_H sv s2, ss_IssuedAt := ic_now2 cx2\<rparr>) else None)
      else idv_session (iw_sess w3) t i)"
    using idv.refresh_rotate_cases [OF assms(1,5) idv.sess_id [OF x2]] by auto
  have ne: "s1 \<noteq> []" "isv_H sv s1 \<noteq> isv_H sv s2" using assms(6) s1(1) s2(1) by blast+
  have "CHR ''.'' \<notin> set sid \<and> sid \<noteq> []"
    using sid IndexByte_Some [of tok "CHR ''.''"] by (auto simp: splitRefresh_def split: option.splits if_splits)
  then have sp: "splitRefresh (rp_refresh_token rp1) = Some (sid, s1)" unfolding s1(2) using ne(1) by (intro splitRefresh_join) auto
  have live: "idv_session (iw_sess w4) (ic_vk1 cx3) sid = Some (x2\<lparr>ss_RefreshHash := isv_H sv s2, ss_IssuedAt := ic_now2 cx2\<rparr>)"
    using assms(8) by (simp add: s2(2) split: if_splits)
  from refresh_reuse_revokes [OF assms(1) sp live _ assms(7,9)] ne(2) show ?thesis by simp
qed

theorem overlapping_refreshes_end_session_witness:
  "\<exists>x1 rp1 w3 rp2 w4 w5. refresh_check ex_idsv (ex_idcx ''x'') ex_rtok ex_idw = (Inr (''S'', x1), ex_idw) \<and>
     refresh_rotate ex_idsv (ex_idcx ''x'') (''S'', x1) ex_idw = (Inr rp1, w3) \<and>
     refresh_rotate ex_idsv (ex_idcx ''y'') (''S'', x1) w3 = (Inr rp2, w4) \<and> idv_session (iw_sess w4) 0 ''S'' \<noteq> None \<and>
     RefreshToken ex_idsv (ex_idcx ''z'') (rp_refresh_token rp1) w4 =
       (Inl (Status Unauthenticated ''refresh token reuse detected''), w5) \<and> idv_session (iw_sess w5) 0 ''S'' = None"
proof -
  let ?x = "\<lparr>ss_ID = ''S'', ss_UserID = ''a'', ss_RefreshHash = RawURLEncode ''abc'', ss_Device = [],
      ss_IssuedAt = 0, ss_ExpiresAt = 100 * ns_per_sec\<rparr>"
  have faults: "vk_faults (iw_sess w') = []" if "refresh_rotate ex_idsv (ex_idcx s) (''S'', ?x) w = (Inr rp, w')"
    "vk_faults (iw_sess w) = []" for s w rp w'
    using that
    by (auto simp: refresh_rotate_def randomSecret_def ex_idcx_def idv_ops_def idv_Update_def idv_put_def vk_defs
      Issue_def randomID_def ex_lib2_def ns_per_sec_def Let_def)
  obtain rp1 w3 where 1: "refresh_rotate ex_idsv (ex_idcx ''x'') (''S'', ?x) ex_idw = (Inr rp1, w3)"
    using ex_rotate [OF ex_idw_faults] by blast
  note f3 = faults [OF 1 ex_idw_faults]
  obtain rp2 w4 where 2: "refresh_rotate ex_idsv (ex_idcx ''y'') (''S'', ?x) w3 = (Inr rp2, w4)"
    using ex_rotate [OF f3] by blast
  have live: "idv_session (iw_sess w4) (ic_vk1 (ex_idcx ''z'')) ''S'' \<noteq> None"
    using idv.refresh_rotate_cases [OF ex_idsv_sel(2) 2] by (auto simp: ex_idcx_def)
  obtain r w5 where 3: "RefreshToken ex_idsv (ex_idcx ''z'') (rp_refresh_token rp1) w4 = (r, w5)" by fastforce
  have d: "\<forall>s1 s2. randomSecret (ic_secret (ex_idcx ''x'')) = Some s1 \<longrightarrow> randomSecret (ic_secret (ex_idcx ''y'')) = Some s2 \<longrightarrow>
      s1 \<noteq> [] \<and> isv_H ex_idsv s1 \<noteq> isv_H ex_idsv s2"
    by (simp add: ex_idcx_def randomSecret_def) code_simp
  from overlapping_refreshes_end_session [OF ex_idsv_sel(2) ex_check ex_check 1 2 d faults [OF 2 f3] live 3]
  have "r = Inl (Status Unauthenticated ''refresh token reuse detected'')" "idv_session (iw_sess w5) 0 ''S'' = None"
    using live by (auto simp: ex_idcx_def)
  with 1 2 3 live ex_check show ?thesis by (auto simp: ex_idcx_def)
qed

text \<open>Rotation is not atomic. When a session is revoked between the check and the rotation of a
  RefreshToken call, Revoke succeeds and yet the rotation writes the session back: it is alive, with
  the new secret the caller receives.\<close>

theorem revoke_lost_in_refresh:
  assumes "isv_sess sv = idv_ops m window"
    and "refresh_check sv cx tok w = (Inr (sid, x), w1)"
    and "Revoke sv cx2 sid [] w1 = (Inr (), w2)" and "sid \<noteq> []"
    and "refresh_rotate sv cx (sid, x) w2 = (Inr rp, w3)"
  shows "(\<forall>t. idv_session (iw_sess w2) t sid = None) \<and>
    (\<exists>s. rp_refresh_token rp = sid @ ''.'' @ s \<and>
      idv_session (iw_sess w3) (ic_vk2 cx) sid =
        Some (x\<lparr>ss_RefreshHash := isv_H sv s, ss_IssuedAt := ic_now2 cx\<rparr>))"
proof -
  from idv.refresh_check_cases [OF assms(1,2)] have x: "idv_session (iw_sess w) (ic_vk1 cx) sid = Some x" by auto
  from idv.Revoke_sess [OF assms(1,3)] assms(4)
  have "idv_session (iw_sess w2) = (\<lambda>t j. if j = sid then None else idv_session (iw_sess w1) t j)" by auto
  then have none: "\<forall>t. idv_session (iw_sess w2) t sid = None" by simp
  from idv.refresh_rotate_cases [OF assms(1,5) idv.sess_id [OF x]] obtain s e where
    "rp_refresh_token rp = sid @ ''.'' @ s" "ic_vk2 cx < e" and
    f: "idv_session (iw_sess w3) = (\<lambda>t i. if i = sid
          then (if t < e then Some (x\<lparr>ss_RefreshHash := isv_H sv s, ss_IssuedAt := ic_now2 cx\<rparr>) else None)
          else idv_session (iw_sess w2) t i)" by auto
  then have "idv_session (iw_sess w3) (ic_vk2 cx) sid =
      Some (x\<lparr>ss_RefreshHash := isv_H sv s, ss_IssuedAt := ic_now2 cx\<rparr>)" by (simp add: f)
  with none \<open>rp_refresh_token rp = sid @ ''.'' @ s\<close> show ?thesis by blast
qed

lemma ex_revoke: "\<exists>w2. Revoke ex_idsv (ex_idcx s) ''S'' [] ex_idw = (Inr (), w2) \<and> vk_faults (iw_sess w2) = []"
  by (simp add: Revoke_def ex_idcx_def ex_idw_def idv_ops_def idv_Delete_def vk_defs)

theorem revoke_lost_in_refresh_witness:
  "\<exists>x w2 rp w3. refresh_check ex_idsv (ex_idcx ''x'') ex_rtok ex_idw = (Inr (''S'', x), ex_idw) \<and>
     Revoke ex_idsv (ex_idcx ''y'') ''S'' [] ex_idw = (Inr (), w2) \<and>
     refresh_rotate ex_idsv (ex_idcx ''x'') (''S'', x) w2 = (Inr rp, w3) \<and>
     idv_session (iw_sess w3) 0 ''S'' \<noteq> None"
proof -
  obtain w2 where w2: "Revoke ex_idsv (ex_idcx ''y'') ''S'' [] ex_idw = (Inr (), w2)" "vk_faults (iw_sess w2) = []"
    using ex_revoke by blast
  obtain rp w3 where rp: "refresh_rotate ex_idsv (ex_idcx ''x'') (''S'', \<lparr>ss_ID = ''S'', ss_UserID = ''a'',
      ss_RefreshHash = RawURLEncode ''abc'', ss_Device = [], ss_IssuedAt = 0, ss_ExpiresAt = 100 * ns_per_sec\<rparr>) w2 =
      (Inr rp, w3)"
    using ex_rotate [OF w2(2)] by blast
  from revoke_lost_in_refresh [OF ex_idsv_sel(2) ex_check w2(1) _ rp] have "idv_session (iw_sess w3) 0 ''S'' \<noteq> None"
    by (auto simp: ex_idcx_def)
  with ex_check w2(1) rp show ?thesis by blast
qed

lemma sign_in_reply_ok:
  assumes "sign_in_reply u (issuePair sv cx u d w) = (Inr rp, w')"
  shows "sp_user rp = toProtoUser u \<and> iw_users w' = iw_users w \<and>
    Issue (isv_lib sv) (iw_mgr w) (ic_tok_now cx) (ic_jti cx) (us_ID u) (ic_uuid cx) =
      Some (sp_access_token rp, sp_expires_in rp)"
  using assms
  by (auto simp: sign_in_reply_def issuePair_def Let_def split: option.splits prod.splits sum.splits)

lemma GetByEmail_ok:
  "idp_GetByEmail e s = (Inr x, s') \<Longrightarrow> same_users s s' \<and> x = map_option scanUser (find (has_email e) (ip_users s))"
  using guarded_ok [of "\<lambda>s. case find (has_email e) (ip_users s) of
       None \<Rightarrow> (Inr None, s) | Some r \<Rightarrow> (Inr (Some (scanUser r)), s)" s x s']
  by (auto simp: idp_GetByEmail_def same_users_def split: option.splits)

lemma GetPasswordHash_ok:
  assumes "idp_GetPasswordHash up i s = (Inr (Some h), s')"
  shows "same_users s s' \<and> (\<exists>j c. up i = Some j \<and> c \<in> set (ip_creds s) \<and> cd_user_id c = j \<and> cd_password_hash c = h)"
proof -
  from guarded_ok [OF assms [unfolded idp_GetPasswordHash_def]] obtain t where
    t: "same_users s t" and k: "(case up i of None \<Rightarrow> (Inl UserOther, t)
     | Some i \<Rightarrow> (case find (\<lambda>c. cd_user_id c = i \<and> cd_type c = ''password'') (ip_creds t) of
            None \<Rightarrow> (Inr None, t) | Some c \<Rightarrow> (Inr (Some (cd_password_hash c)), t))) = (Inr (Some h), s')" by blast
  obtain j where j: "up i = Some j" using k by (cases "up i") auto
  obtain c where c: "find (\<lambda>c. cd_user_id c = j \<and> cd_type c = ''password'') (ip_creds t) = Some c"
    using k j by (cases "find (\<lambda>c. cd_user_id c = j \<and> cd_type c = ''password'') (ip_creds t)") auto
  with k j have "s' = t" "cd_password_hash c = h" by auto
  with t j find_SomeD [OF c] show ?thesis by (auto simp: same_users_def)
qed

text \<open>C28: a registered email signs in with its password only. When an account has the address
  (without regard to case), a successful email sign-in passed the limiter, its password verifies
  against the hash stored for that account, the tokens are issued for that account, and no user,
  credential or link changes.\<close>

theorem email_sign_in_needs_password:
  assumes "isv_users sv = idp_ops up" and "id_inv up (iw_users w)"
    and "found_by_email (iw_users w) (TrimSpace (sr_email rq)) = Some r" and "sr_provider rq = PROVIDER_EMAIL"
    and "SignIn sv cx rq w = (Inr rp, w')"
  shows "fst (so_Allow (isv_sess sv) (''signin:'' @ ToLower (TrimSpace (sr_email rq))) (ic_vk1 cx) (iw_sess w)) = Inr True \<and>
    pu_id (sp_user rp) = ur_id r \<and>
    (\<exists>c \<in> set (ip_creds (iw_users w)). cd_user_id c = ur_id r \<and>
       password_Verify (isv_IDKey sv) (sr_password rq) (cd_password_hash c) = Inr True) \<and>
    (\<exists>n. Issue (isv_lib sv) (iw_mgr w) (ic_tok_now cx) (ic_jti cx) (ur_id r) (ic_uuid cx) =
       Some (sp_access_token rp, n)) \<and>
    same_users (iw_users w) (iw_users w')"
proof -
  let ?e = "TrimSpace (sr_email rq)"
  have run: "signInEmail sv cx rq w = (Inr rp, w')" using assms(4,5) by (simp add: SignIn_def)
  have ne: "?e \<noteq> []" and f: "find (has_email ?e) (ip_users (iw_users w)) = Some r"
    using assms(3) by (auto simp: found_by_email_def split: if_splits)
  have pw: "sr_password rq \<noteq> []" using run ne by (auto simp: signInEmail_def Let_def split: if_splits)
  obtain al k where al: "so_Allow (isv_sess sv) (''signin:'' @ ToLower ?e) (ic_vk1 cx) (iw_sess w) = (al, k)"
    by fastforce
  have al': "al = Inr True" using run ne pw al by (auto simp: signInEmail_def Let_def split: sum.splits if_splits)
  obtain ge us1 where ge: "idp_GetByEmail ?e (iw_users w) = (ge, us1)" by fastforce
  obtain x where x: "ge = Inr x"
    using run ne pw al al' ge assms(1) by (cases ge) (auto simp: signInEmail_def Let_def idp_ops_def)
  from GetByEmail_ok [OF ge [unfolded x]] f have x': "x = Some (scanUser r)" and s1: "same_users (iw_users w) us1"
    by auto
  obtain gp us2 where gp: "idp_GetPasswordHash up (us_ID (scanUser r)) us1 = (gp, us2)" by fastforce
  have "(\<exists>h. gp = Inr (Some h) \<and> password_Verify (isv_IDKey sv) (sr_password rq) h = Inr True) \<and>
      sign_in_reply (scanUser r) (issuePair sv cx (scanUser r) (sr_device rq) (w\<lparr>iw_sess := k, iw_users := us2\<rparr>)) = (Inr rp, w')"
    using run ne pw al al' ge x x' gp assms(1)
    by (auto simp: signInEmail_def Let_def idp_ops_def split: sum.splits option.splits if_splits)
  then obtain h where h: "gp = Inr (Some h)" "password_Verify (isv_IDKey sv) (sr_password rq) h = Inr True"
    and rep: "sign_in_reply (scanUser r) (issuePair sv cx (scanUser r) (sr_device rq) (w\<lparr>iw_sess := k, iw_users := us2\<rparr>)) = (Inr rp, w')"
    by blast
  note hh = GetPasswordHash_ok [OF gp [unfolded h(1)]]
  have "up (ur_id r) = Some (ur_id r)" using assms(2) find_SomeD [OF f] by (auto simp: id_inv_def)
  with hh have c: "same_users us1 us2" "\<exists>c \<in> set (ip_creds us1). cd_user_id c = ur_id r \<and> cd_password_hash c = h"
    by (auto simp: scanUser_def)
  from sign_in_reply_ok [OF rep] al al' h(2) c s1 show ?thesis
    by (auto simp: scanUser_def toProtoUser_def same_users_def)
qed

definition ex_hash :: string where
  "ex_hash = the (password_Hash ex_idkey (Some ''s'') ''secret'')"

lemma ex_hash_verifies: "password_Verify ex_idkey ''secret'' ex_hash = Inr True"
proof -
  have "password_Hash ex_idkey (Some ''s'') ''secret'' = Some ex_hash"
    by (simp add: ex_hash_def password_Hash_def)
  from Verify_Hash [OF this, of "''secret''"] show ?thesis by (simp add: ex_idkey_def)
qed

definition ex_idw2 :: "(id_pg, stored_session valkey) identity_world" where
  "ex_idw2 = ex_idw\<lparr>iw_users := ex_idpg\<lparr>ip_creds :=
     [\<lparr>cd_user_id = ''a'', cd_type = ''password'', cd_password_hash = ex_hash\<rparr>]\<rparr>\<rparr>"

definition ex_sign_in :: "provider_enum \<Rightarrow> signin_req" where
  "ex_sign_in p = \<lparr>sr_provider = p, sr_id_token = ''t'', sr_email = ''m@x'', sr_password = ''secret'',
     sr_display_name = ''Z'', sr_device = []\<rparr>"

lemma ex_trim [simp]: "TrimSpace ''m@x'' = ''m@x''"
  unfolding TrimSpace_def by (simp add: trim_with.simps space_runes_def)

lemma ex_idw2_inv [simp]: "id_inv ex_uuid (iw_users ex_idw2)"
  by (simp add: ex_idw2_def id_inv_def ex_idpg_def ex_uuid_def)

lemma ex_sign_in_ok: "\<exists>rp w'. SignIn ex_idsv (ex_idcx ''x'') (ex_sign_in PROVIDER_EMAIL) ex_idw2 = (Inr rp, w')"
proof -
  obtain k where al: "idv_Allow 5 (60 * ns_per_sec) (''signin:'' @ ToLower ''m@x'') 0 (iw_sess ex_idw2) = (Inr True, k)"
      and kf: "vk_faults k = []"
  proof -
    have "vk_keys (iw_sess ex_idw2) (rateKey key) = None" "vk_faults (iw_sess ex_idw2) = []" for key
      by (simp_all add: ex_idw2_def ex_idw_def)
    then have "\<exists>k. idv_Allow 5 (60 * ns_per_sec) (''signin:'' @ ToLower ''m@x'') 0 (iw_sess ex_idw2) = (Inr True, k) \<and> vk_faults k = []"
      by (simp add: idv_Allow_def vk_defs vk_live_def ns_per_sec_def)
    with that show thesis by blast
  qed
  show ?thesis
    using al kf
    by (simp add: SignIn_def signInEmail_def ex_sign_in_def idv_ops_def idp_ops_def ex_idcx_def
        idp_GetByEmail_def idp_GetPasswordHash_def guarded_def ip_tick_def ex_idw2_def ex_idpg_def has_email_def
        ex_uuid_def scanUser_def ex_hash_verifies issuePair_def randomSecret_def idv_Create_def idv_put_def
        vk_SETEX_def vk_tick_def Issue_def randomID_def ex_lib2_def sign_in_reply_def ns_per_sec_def Let_def)
qed

theorem email_sign_in_needs_password_witness:
  "\<exists>rp w'. SignIn ex_idsv (ex_idcx ''x'') (ex_sign_in PROVIDER_EMAIL) ex_idw2 = (Inr rp, w') \<and>
     pu_id (sp_user rp) = ''a''"
proof -
  obtain rp w' where r: "SignIn ex_idsv (ex_idcx ''x'') (ex_sign_in PROVIDER_EMAIL) ex_idw2 = (Inr rp, w')"
    using ex_sign_in_ok by blast
  have "found_by_email (iw_users ex_idw2) (TrimSpace (sr_email (ex_sign_in PROVIDER_EMAIL))) =
      Some (hd (ip_users ex_idpg))"
    by (simp add: ex_sign_in_def found_by_email_def ex_idw2_def ex_idpg_def has_email_def)
  from email_sign_in_needs_password [OF ex_idsv_sel(1) ex_idw2_inv this _ r] r show ?thesis
    by (auto simp: ex_sign_in_def ex_idpg_def)
qed

text \<open>A social sign-in links by email without looking at \<open>EmailVerified\<close>. When the provider's
  token is for an identity not linked yet whose email belongs to an existing account, the caller is
  signed in as that account, with tokens issued for it, also when the provider says the email is
  not verified.\<close>

theorem social_sign_in_takes_account:
  assumes "isv_users sv = idp_ops up" and "id_inv up (iw_users w)" and "sr_provider rq = PROVIDER_GOOGLE"
    and "ic_oauth cx ''google'' (sr_id_token rq) = Some ext" and "\<not> ei_EmailVerified ext"
    and "linked_user (iw_users w) ''google'' (ei_Subject ext) = None"
    and "found_by_email (iw_users w) (ei_Email ext) = Some r" and "SignIn sv cx rq w = (Inr rp, w')"
  shows "pu_id (sp_user rp) = ur_id r \<and>
    (\<exists>n. Issue (isv_lib sv) (iw_mgr w) (ic_tok_now cx) (ic_jti cx) (ur_id r) (ic_uuid cx) =
       Some (sp_access_token rp, n)) \<and>
    linked_user (iw_users w') ''google'' (ei_Subject ext) = Some (ur_id r)"
proof -
  obtain u us where up: "idp_UpsertOAuthUser up (ic_db cx) ''google'' (ei_Subject ext) (ei_Email ext)
      (sr_display_name rq) (iw_users w) = (Inr u, us)"
    and rep: "sign_in_reply u (issuePair sv cx u (sr_device rq) (w\<lparr>iw_users := us\<rparr>)) = (Inr rp, w')"
    using assms(1,3,4,8)
    by (auto simp: SignIn_def signInSocial_def idp_ops_def split: if_splits prod.splits sum.splits)
  from Upsert_ok [OF assms(2) up] assms(6,7) have "us_ID u = ur_id r"
    "ip_links us = ip_links (iw_users w) @ [\<lparr>ol_user_id = ur_id r, ol_provider = ''google'', ol_subject = ei_Subject ext\<rparr>]"
    by auto
  with sign_in_reply_ok [OF rep] linked_user_append(1) [OF assms(6)] show ?thesis
    by (auto simp: toProtoUser_def)
qed

theorem social_sign_in_takes_account_witness:
  "\<exists>rp w'. SignIn ex_idsv (ex_idcx ''x'') (ex_sign_in PROVIDER_GOOGLE) ex_idw = (Inr rp, w') \<and>
     pu_id (sp_user rp) = ''a''"
proof -
  have "\<exists>rp w'. SignIn ex_idsv (ex_idcx ''x'') (ex_sign_in PROVIDER_GOOGLE) ex_idw = (Inr rp, w')"
    by (simp add: SignIn_def signInSocial_def ex_sign_in_def idv_ops_def idp_ops_def ex_idcx_def
        idp_UpsertOAuthUser_def BeginFunc_def guarded_def ip_tick_def idp_userIDByEmail_def has_email_def
        idp_getByID_def ex_idw_def ex_idpg_def ex_uuid_def scanUser_def issuePair_def randomSecret_def
        idv_Create_def idv_put_def vk_SETEX_def vk_tick_def Issue_def randomID_def ex_lib2_def
        sign_in_reply_def ns_per_sec_def Let_def)
  then obtain rp w' where r: "SignIn ex_idsv (ex_idcx ''x'') (ex_sign_in PROVIDER_GOOGLE) ex_idw = (Inr rp, w')"
    by blast
  have i: "id_inv ex_uuid (iw_users ex_idw)" by (simp add: ex_idw_def)
  have "found_by_email (iw_users ex_idw) ''m@x'' = Some (hd (ip_users ex_idpg))"
    "linked_user (iw_users ex_idw) ''google'' ''g1'' = None"
    by (simp_all add: found_by_email_def ex_idw_def ex_idpg_def has_email_def linked_user_def)
  with social_sign_in_takes_account [OF ex_idsv_sel(1) i _ _ _ _ _ r,
      of "\<lparr>ei_Provider = ''google'', ei_Subject = ''g1'', ei_Email = ''m@x'', ei_EmailVerified = False\<rparr>"
         "hd (ip_users ex_idpg)"] r
  show ?thesis by (auto simp: ex_sign_in_def ex_idcx_def ex_idpg_def)
qed

end
