(* ===== verification/Identity_OAuth.thy ===== *)
theory Identity_OAuth
  imports Identity_Server
begin

text \<open>
  The verification of Apple and Google id tokens,
  \<open>services/backend/identity/internal/oauth/provider.go\<close>: the provider's key set, cached for an
  hour, the key function and the options given to golang-jwt's \<open>ParseWithClaims\<close>, and the checks on the
  claims. The library is a parameter, with its documented contract as the hypothesis \<open>parses_safely\<close>;
  \<open>op_fetch\<close> is what the provider's JWKS endpoint would answer.
\<close>

section \<open>Data\<close>

datatype email_verified = EvBool bool | EvString string | EvOther

text \<open>The claims the source reads, and the expiry, which the library checks; an absent or ill-typed string
  claim reads as empty.\<close>

record oauth_claims =
  oc_exp :: "time option"
  oc_aud :: "string list option"
  oc_iss :: string
  oc_sub :: string
  oc_email :: string
  oc_email_verified :: email_verified

record jwks_key =
  jq_Kty :: string
  jq_Kid :: string
  jq_N :: string
  jq_E :: string

type_synonym rsa_keys = "(string \<times> public_key) list"

record provider_verifier =
  pv_GoogleClientIDs :: "string list"
  pv_AppleClientIDs :: "string list"
  pv_GoogleJWKSURL :: string
  pv_AppleJWKSURL :: string
  pv_GoogleIssuers :: "string list"
  pv_AppleIssuers :: "string list"
  pv_cacheTTL :: duration
  pv_cache :: "(string, rsa_keys \<times> time) gomap"

text \<open>The clock before the lookup and after a fetch, the clock of the parser, the endpoint's answer.\<close>

record oauth_call =
  op_now :: time
  op_now2 :: time
  op_parse_now :: time
  op_fetch :: "string \<Rightarrow> jwks_key list option"

text \<open>A token as the library reads it: \<open>alg\<close>, \<open>kid\<close> when it is a string, the claims, the text that is
  signed and the signature.\<close>

record id_token =
  it_alg :: string
  it_kid :: "string option"
  it_claims :: oauth_claims
  it_signed :: string
  it_sig :: string

record parser_options =
  po_ValidMethods :: "string list"
  po_ExpirationRequired :: bool
  po_Audience :: string

text \<open>The library: the reading of a token, the check of an RSA signature, and \<open>ParseWithClaims\<close> with its
  options, the key function and the clock.\<close>

record jwt_parser =
  jp_read :: "string \<Rightarrow> id_token option"
  jp_rsa :: "string \<Rightarrow> public_key \<Rightarrow> string \<Rightarrow> string \<Rightarrow> bool"
  jp_ParseWithClaims :: "parser_options \<Rightarrow> (id_token \<Rightarrow> public_key option) \<Rightarrow> time \<Rightarrow> string \<Rightarrow> oauth_claims option"

text \<open>What golang-jwt documents of a token it accepts: its method is among the valid ones, when such are
  given, and its signature verifies with the key that the key function answers; its expiry is present when
  that is required, and not reached when it is present; the audience asked for is among its audiences.\<close>

definition parses_safely :: "jwt_parser \<Rightarrow> bool" where
  "parses_safely L \<longleftrightarrow>
     (\<forall>opts kf now tok c. jp_ParseWithClaims L opts kf now tok = Some c \<longrightarrow>
        (\<exists>t key. jp_read L tok = Some t \<and> c = it_claims t \<and>
           (po_ValidMethods opts \<noteq> [] \<longrightarrow> it_alg t \<in> set (po_ValidMethods opts)) \<and>
           kf t = Some key \<and> (it_alg t \<in> {''RS256'', ''RS384'', ''RS512''} \<longrightarrow> jp_rsa L (it_alg t) key (it_signed t) (it_sig t)) \<and>
           (po_ExpirationRequired opts \<longrightarrow> oc_exp c \<noteq> None) \<and> (\<forall>x. oc_exp c = Some x \<longrightarrow> now < x) \<and>
           (po_Audience opts \<noteq> [] \<longrightarrow> (\<exists>as. oc_aud c = Some as \<and> po_Audience opts \<in> set as))))"

definition NewProviderVerifier :: "string list \<Rightarrow> string list \<Rightarrow> provider_verifier" where
  "NewProviderVerifier googleClientIDs appleClientIDs =
     \<lparr>pv_GoogleClientIDs = googleClientIDs, pv_AppleClientIDs = appleClientIDs,
      pv_GoogleJWKSURL = ''https://www.googleapis.com/oauth2/v3/certs'',
      pv_AppleJWKSURL = ''https://appleid.apple.com/auth/keys'',
      pv_GoogleIssuers = [''https://accounts.google.com'', ''accounts.google.com''],
      pv_AppleIssuers = [''https://appleid.apple.com''],
      pv_cacheTTL = 3600 * ns_per_sec, pv_cache = Map.empty\<rparr>"

section \<open>Keys\<close>

definition jwkToRSAPublicKey :: "string \<Rightarrow> string \<Rightarrow> public_key option" where
  "jwkToRSAPublicKey n e =
     (case RawURLDecode n of
        None \<Rightarrow> None
      | Some nBytes \<Rightarrow>
          (case RawURLDecode e of
             None \<Rightarrow> None
           | Some eBytes \<Rightarrow> Some (RSAKey nBytes (wrap64 (be_uint eBytes)))))"

text \<open>Unlike the services' own verifier, one unusable RSA key fails the whole set. The later of two
  keys with one kid wins (the list is read with \<open>map_of\<close>).\<close>

fun rsa_keys_of :: "jwks_key list \<Rightarrow> rsa_keys \<Rightarrow> rsa_keys option" where
  "rsa_keys_of [] out = Some out"
| "rsa_keys_of (k # ks) out =
     (if jq_Kty k \<noteq> ''RSA'' then rsa_keys_of ks out
      else case jwkToRSAPublicKey (jq_N k) (jq_E k) of
        None \<Rightarrow> None
      | Some pub \<Rightarrow> rsa_keys_of ks ((jq_Kid k, pub) # out))"

definition fetchJWKS :: "oauth_call \<Rightarrow> string \<Rightarrow> rsa_keys option" where
  "fetchJWKS oc url =
     (case op_fetch oc url of
        None \<Rightarrow> None
      | Some ks \<Rightarrow>
          (case rsa_keys_of ks [] of
             None \<Rightarrow> None
           | Some out \<Rightarrow> if out = [] then None else Some out))"

definition keysFor :: "oauth_call \<Rightarrow> string \<Rightarrow> provider_verifier \<Rightarrow> rsa_keys option \<times> provider_verifier" where
  "keysFor oc url v =
     (let cached = (case pv_cache v url of
                      Some (keys, fetchedAt) \<Rightarrow> if op_now oc - fetchedAt < pv_cacheTTL v then Some keys else None
                    | None \<Rightarrow> None)
      in case cached of
           Some keys \<Rightarrow> (Some keys, v)
         | None \<Rightarrow>
             (case fetchJWKS oc url of
                None \<Rightarrow> (None, v)
              | Some keys \<Rightarrow> (Some keys, v\<lparr>pv_cache := (pv_cache v)(url \<mapsto> (keys, op_now2 oc))\<rparr>)))"

section \<open>Verify\<close>

definition pick :: "string list \<Rightarrow> string" where
  "pick auds = (case auds of [] \<Rightarrow> [] | a # _ \<Rightarrow> a)"

definition audienceMatches :: "oauth_claims \<Rightarrow> string list \<Rightarrow> bool" where
  "audienceMatches c accepted =
     (case oc_aud c of None \<Rightarrow> False | Some aud \<Rightarrow> \<exists>a \<in> set aud. a \<in> set accepted)"

definition provider_config :: "provider_verifier \<Rightarrow> string \<Rightarrow> (string \<times> string list \<times> string list) option" where
  "provider_config v provider =
     (if provider = ''google'' then Some (pv_GoogleJWKSURL v, pv_GoogleClientIDs v, pv_GoogleIssuers v)
      else if provider = ''apple'' then Some (pv_AppleJWKSURL v, pv_AppleClientIDs v, pv_AppleIssuers v)
      else None)"

text \<open>The key function: an RSA method (\<open>*jwt.SigningMethodRSA\<close>), and a key known by the kid of the header.\<close>

definition id_keyfunc :: "rsa_keys \<Rightarrow> id_token \<Rightarrow> public_key option" where
  "id_keyfunc keys t =
     (if it_alg t \<notin> {''RS256'', ''RS384'', ''RS512''} then None
      else map_of keys (case it_kid t of None \<Rightarrow> [] | Some kid \<Rightarrow> kid))"

definition ProviderVerify ::
  "jwt_parser \<Rightarrow> oauth_call \<Rightarrow> string \<Rightarrow> string \<Rightarrow> provider_verifier \<Rightarrow> ext_identity option \<times> provider_verifier" where
  "ProviderVerify L oc provider idToken v =
     (case provider_config v provider of
        None \<Rightarrow> (None, v)
      | Some (url, audiences, issuers) \<Rightarrow>
          (case keysFor oc url v of
             (None, v') \<Rightarrow> (None, v')
           | (Some keys, v') \<Rightarrow>
               (case jp_ParseWithClaims L
                       \<lparr>po_ValidMethods = [''RS256''], po_ExpirationRequired = True, po_Audience = pick audiences\<rparr>
                       (id_keyfunc keys) (op_parse_now oc) idToken of
                  None \<Rightarrow> (None, v')
                | Some c \<Rightarrow>
                    if \<not> audienceMatches c audiences then (None, v')
                    else if oc_iss c \<notin> set issuers then (None, v')
                    else if oc_sub c = [] then (None, v')
                    else
                      (Some \<lparr>ei_Provider = provider, ei_Subject = oc_sub c, ei_Email = oc_email c,
                             ei_EmailVerified = (case oc_email_verified c of
                                EvBool b \<Rightarrow> b | EvString s \<Rightarrow> s = ''true'' | EvOther \<Rightarrow> False)\<rparr>, v'))))"

text \<open>Verifications one after the other: the call, the provider and the token of each.\<close>

fun provider_run ::
  "jwt_parser \<Rightarrow> (oauth_call \<times> string \<times> string) list \<Rightarrow> provider_verifier \<Rightarrow> ext_identity option list \<times> provider_verifier" where
  "provider_run L [] v = ([], v)"
| "provider_run L ((oc, provider, tok) # cs) v =
     (let (r, v1) = ProviderVerify L oc provider tok v; (rs, v2) = provider_run L cs v1 in (r # rs, v2))"

section \<open>What is accepted\<close>

lemma same_config: "v' = v\<lparr>pv_cache := c\<rparr> \<Longrightarrow> provider_config v' = provider_config v \<and> pv_cacheTTL v' = pv_cacheTTL v"
  by (simp add: provider_config_def fun_eq_iff)

text \<open>The cache only has key sets that an endpoint answered to one of the calls, with the time of the answer.\<close>

definition cached_from :: "oauth_call set \<Rightarrow> provider_verifier \<Rightarrow> bool" where
  "cached_from ocs v \<longleftrightarrow>
     (\<forall>url keys at. pv_cache v url = Some (keys, at) \<longrightarrow> (\<exists>oc \<in> ocs. fetchJWKS oc url = Some keys \<and> at = op_now2 oc))"

lemma keysFor_from:
  assumes "keysFor oc url v = (ks, v')" and "cached_from ocs v"
  shows "cached_from (insert oc ocs) v' \<and> (\<exists>c. v' = v\<lparr>pv_cache := c\<rparr>) \<and>
    (\<forall>keys. ks = Some keys \<longrightarrow> fetchJWKS oc url = Some keys \<or>
       (\<exists>o' \<in> ocs. fetchJWKS o' url = Some keys \<and> op_now oc - op_now2 o' < pv_cacheTTL v))"
proof -
  have old: "cached_from (insert oc ocs) v" using assms(2) unfolding cached_from_def by blast
  have same: "\<exists>c. v = v\<lparr>pv_cache := c\<rparr>" by (rule exI [of _ "pv_cache v"]) simp
  consider keys at where "pv_cache v url = Some (keys, at)" "op_now oc - at < pv_cacheTTL v"
    | "(case pv_cache v url of Some (keys, at) \<Rightarrow> if op_now oc - at < pv_cacheTTL v then Some keys else None | None \<Rightarrow> None) = None"
  proof (cases "pv_cache v url")
    case None
    then show ?thesis using that(2) by simp
  next
    case (Some y)
    then show ?thesis using that by (cases y; cases "op_now oc - snd y < pv_cacheTTL v") auto
  qed
  then show ?thesis
  proof cases
    case (1 keys at)
    then have r: "ks = Some keys" "v' = v" using assms(1) by (simp_all add: keysFor_def)
    from assms(2) 1(1) obtain o' where "o' \<in> ocs" "fetchJWKS o' url = Some keys" "at = op_now2 o'"
      unfolding cached_from_def by blast
    with 1(2) old same show ?thesis unfolding r by blast
  next
    case 2
    show ?thesis
    proof (cases "fetchJWKS oc url")
      case None
      with 2 have "ks = None" "v' = v" using assms(1) by (simp_all add: keysFor_def)
      with old same show ?thesis by blast
    next
      case (Some keys)
      with 2 have r: "ks = Some keys" "v' = v\<lparr>pv_cache := (pv_cache v)(url \<mapsto> (keys, op_now2 oc))\<rparr>"
        using assms(1) by (simp_all add: keysFor_def)
      have "cached_from (insert oc ocs) v'"
        using old Some unfolding r cached_from_def by (simp add: fun_upd_apply)
      moreover have "\<exists>c. v' = v\<lparr>pv_cache := c\<rparr>" unfolding r by blast
      ultimately show ?thesis using r(1) Some by blast
    qed
  qed
qed

text \<open>What an accepted id token is.\<close>

definition vouched :: "jwt_parser \<Rightarrow> provider_verifier \<Rightarrow> oauth_call set \<Rightarrow> oauth_call \<times> string \<times> string \<Rightarrow> ext_identity \<Rightarrow> bool" where
  "vouched L v ocs x ext \<longleftrightarrow> (case x of (oc, provider, tok) \<Rightarrow>
     (\<exists>url auds issuers keys t key exp as. provider_config v provider = Some (url, auds, issuers) \<and>
       (fetchJWKS oc url = Some keys \<or>
        (\<exists>o' \<in> ocs. fetchJWKS o' url = Some keys \<and> op_now oc - op_now2 o' < pv_cacheTTL v)) \<and>
       jp_read L tok = Some t \<and> it_alg t = ''RS256'' \<and>
       map_of keys (case it_kid t of None \<Rightarrow> [] | Some kid \<Rightarrow> kid) = Some key \<and>
       jp_rsa L ''RS256'' key (it_signed t) (it_sig t) \<and>
       oc_exp (it_claims t) = Some exp \<and> op_parse_now oc < exp \<and>
       oc_aud (it_claims t) = Some as \<and> set as \<inter> set auds \<noteq> {} \<and> oc_iss (it_claims t) \<in> set issuers \<and>
       ei_Provider ext = provider \<and> ei_Subject ext = oc_sub (it_claims t) \<and> ei_Subject ext \<noteq> [] \<and>
       ei_Email ext = oc_email (it_claims t) \<and>
       ei_EmailVerified ext = (oc_email_verified (it_claims t) \<in> {EvBool True, EvString ''true''})))"

lemma Verify_vouched:
  assumes safe: "parses_safely L" and run: "ProviderVerify L oc provider tok v = (r, v')" and cached: "cached_from ocs v"
  shows "cached_from (insert oc ocs) v' \<and> (\<exists>c. v' = v\<lparr>pv_cache := c\<rparr>) \<and>
    (\<forall>ext. r = Some ext \<longrightarrow> vouched L v ocs (oc, provider, tok) ext)"
proof (cases "provider_config v provider")
  case None
  then have "r = None \<and> v' = v" using run by (simp add: ProviderVerify_def)
  moreover have "cached_from (insert oc ocs) v" using cached unfolding cached_from_def by blast
  moreover have "v = v\<lparr>pv_cache := pv_cache v\<rparr>" by simp
  ultimately show ?thesis by blast
next
  case (Some cfg)
  obtain url auds issuers where cfg: "cfg = (url, auds, issuers)" by (rule prod_cases3)
  obtain ks v1 where ks: "keysFor oc url v = (ks, v1)" by fastforce
  note k = keysFor_from [OF ks cached]
  have v1: "v' = v1" using run by (auto simp: ProviderVerify_def Some cfg ks split: option.splits if_splits)
  have "vouched L v ocs (oc, provider, tok) ext" if r: "r = Some ext" for ext
  proof -
    let ?opts = "\<lparr>po_ValidMethods = [''RS256''], po_ExpirationRequired = True, po_Audience = pick auds\<rparr>"
    obtain keys where keys: "ks = Some keys" using run r by (cases ks) (auto simp: ProviderVerify_def Some cfg ks)
    obtain c where c: "jp_ParseWithClaims L ?opts (id_keyfunc keys) (op_parse_now oc) tok = Some c"
      using run r by (cases "jp_ParseWithClaims L ?opts (id_keyfunc keys) (op_parse_now oc) tok")
        (auto simp: ProviderVerify_def Some cfg ks keys)
    from run r have ck: "audienceMatches c auds" "oc_iss c \<in> set issuers" "oc_sub c \<noteq> []" and
      e: "ext = \<lparr>ei_Provider = provider, ei_Subject = oc_sub c, ei_Email = oc_email c,
         ei_EmailVerified = (case oc_email_verified c of EvBool b \<Rightarrow> b | EvString s \<Rightarrow> s = ''true'' | EvOther \<Rightarrow> False)\<rparr>"
      by (auto simp: ProviderVerify_def Some cfg ks keys c split: if_splits)
    from safe [unfolded parses_safely_def, rule_format, OF c] obtain t key where
      t: "jp_read L tok = Some t" "c = it_claims t" "it_alg t = ''RS256''" "id_keyfunc keys t = Some key"
        "jp_rsa L ''RS256'' key (it_signed t) (it_sig t)" "oc_exp c \<noteq> None" "\<forall>x. oc_exp c = Some x \<longrightarrow> op_parse_now oc < x"
      by auto
    obtain exp where exp: "oc_exp c = Some exp" "op_parse_now oc < exp" using t(6,7) by blast
    obtain as where as: "oc_aud c = Some as" "set as \<inter> set auds \<noteq> {}"
      using ck(1) by (auto simp: audienceMatches_def split: option.splits)
    have kid: "map_of keys (case it_kid t of None \<Rightarrow> [] | Some kid \<Rightarrow> kid) = Some key"
      using t(3,4) by (simp add: id_keyfunc_def)
    have ev: "ei_EmailVerified ext = (oc_email_verified c \<in> {EvBool True, EvString ''true''})"
      by (cases "oc_email_verified c") (auto simp: e)
    have fk: "fetchJWKS oc url = Some keys \<or>
        (\<exists>o' \<in> ocs. fetchJWKS o' url = Some keys \<and> op_now oc - op_now2 o' < pv_cacheTTL v)" using k keys by blast
    show ?thesis unfolding vouched_def prod.case
      by (intro exI conjI; (rule Some [unfolded cfg] | rule fk | rule t(1) | rule t(3) | rule kid | rule t(5) |
          rule exp [unfolded t(2)] | rule as [unfolded t(2)] | rule ck [unfolded t(2)] | rule ev [unfolded t(2)] |
          (simp add: e t(2) ck(3) [unfolded t(2)])))
  qed
  with k v1 show ?thesis by blast
qed

lemma vouched_mono: "vouched L v ocs x ext \<Longrightarrow> ocs \<subseteq> ocs' \<Longrightarrow> vouched L v ocs' x ext"
  unfolding vouched_def by (auto split: prod.splits) blast+

lemma vouched_config:
  assumes "v' = v\<lparr>pv_cache := c\<rparr>"
  shows "vouched L v' = vouched L v"
  using same_config [OF assms] by (simp add: vouched_def fun_eq_iff)

lemma provider_run_vouched:
  assumes "parses_safely L"
  shows "provider_run L cs v = (rs, v') \<Longrightarrow> cached_from ocs v \<Longrightarrow> k < length cs \<Longrightarrow> rs ! k = Some ext \<Longrightarrow>
    vouched L v (ocs \<union> fst ` set (take k cs)) (cs ! k) ext"
proof (induction cs arbitrary: v rs ocs k)
  case Nil
  then show ?case by simp
next
  case (Cons x cs)
  obtain oc provider tok where x: "x = (oc, provider, tok)" by (rule prod_cases3)
  obtain r v1 where 1: "ProviderVerify L oc provider tok v = (r, v1)" by fastforce
  obtain rs' v2 where run2: "provider_run L cs v1 = (rs', v2)" by fastforce
  have rs: "rs = r # rs'" "v2 = v'" using Cons.prems(1) by (simp_all add: x 1 run2)
  note 2 = run2 [unfolded rs(2)]
  note V = Verify_vouched [OF assms 1 Cons.prems(2)]
  show ?case
  proof (cases k)
    case 0
    with V Cons.prems(4) show ?thesis by (simp add: rs x)
  next
    case (Suc m)
    from V obtain c where c: "v1 = v\<lparr>pv_cache := c\<rparr>" by blast
    have "vouched L v1 (insert oc ocs \<union> fst ` set (take m cs)) (cs ! m) ext"
      using Cons.IH [OF 2 conjunct1 [OF V], of m] Cons.prems(3,4) by (simp add: rs Suc)
    moreover have "insert oc ocs \<union> fst ` set (take m cs) = ocs \<union> fst ` set (take k (x # cs))" by (auto simp: Suc x)
    ultimately show ?thesis by (simp add: vouched_config [OF c] Suc)
  qed
qed

text \<open>C34: an id token is accepted only for what the provider vouches for. Over any run of verifications by a
  new verifier, and given what golang-jwt documents of the tokens it accepts: an accepted token has an RS256
  signature that verifies with the RSA key of its kid in a key set that the JWKS endpoint of the provider
  asked for answered to this or an earlier call, the latter less than the cache's lifetime before; it has an
  expiry that is not reached, an audience among the configured client ids, one of the provider's issuers and
  a subject; and the identity is that subject, with the token's email, under that provider.\<close>

theorem provider_verify_sound:
  assumes "parses_safely L" and "v = NewProviderVerifier google apple" and "provider_run L cs v = (rs, v')"
    and "k < length cs" and "rs ! k = Some ext"
  shows "vouched L v (fst ` set (take k cs)) (cs ! k) ext"
proof -
  have "cached_from {} v" by (simp add: cached_from_def assms(2) NewProviderVerifier_def)
  from provider_run_vouched [OF assms(1,3) this assms(4,5)] show ?thesis by simp
qed

text \<open>A parser that keeps the contract: the token is its own signed text, and a signature is the modulus.\<close>

definition ex_oclaims :: "string list \<Rightarrow> oauth_claims" where
  "ex_oclaims auds = \<lparr>oc_exp = Some 9, oc_aud = Some auds, oc_iss = ''accounts.google.com'', oc_sub = ''g1'', oc_email = ''m@x'',
     oc_email_verified = EvBool True\<rparr>"

definition ex_token_of :: "string list \<Rightarrow> string \<Rightarrow> id_token" where
  "ex_token_of auds tok = \<lparr>it_alg = ''RS256'', it_kid = Some ''k'', it_claims = ex_oclaims auds, it_signed = [], it_sig = tok\<rparr>"

definition ex_parser :: "string list \<Rightarrow> jwt_parser" where
  "ex_parser auds = \<lparr>jp_read = (\<lambda>tok. Some (ex_token_of auds tok)),
     jp_rsa = (\<lambda>alg key inp sg. case key of RSAKey n e \<Rightarrow> sg = n | _ \<Rightarrow> False),
     jp_ParseWithClaims = (\<lambda>opts kf now tok. let t = ex_token_of auds tok in
       if (po_ValidMethods opts \<noteq> [] \<longrightarrow> it_alg t \<in> set (po_ValidMethods opts)) \<and> now < 9 \<and>
          (po_Audience opts \<noteq> [] \<longrightarrow> po_Audience opts \<in> set auds) \<and>
          (case kf t of Some (RSAKey n e) \<Rightarrow> it_sig t = n | _ \<Rightarrow> False)
       then Some (it_claims t) else None)\<rparr>"

lemma ex_parser_safe: "parses_safely (ex_parser auds)"
  unfolding parses_safely_def
proof (intro allI impI)
  fix opts kf now tok c
  assume a: "jp_ParseWithClaims (ex_parser auds) opts kf now tok = Some c"
  let ?t = "ex_token_of auds tok"
  from a have c: "c = it_claims ?t" "po_ValidMethods opts \<noteq> [] \<longrightarrow> it_alg ?t \<in> set (po_ValidMethods opts)" "now < 9"
    "po_Audience opts \<noteq> [] \<longrightarrow> po_Audience opts \<in> set auds" "case kf ?t of Some (RSAKey n e) \<Rightarrow> it_sig ?t = n | _ \<Rightarrow> False"
    by (simp_all add: ex_parser_def Let_def split: if_splits)
  from c(5) obtain n e where "kf ?t = Some (RSAKey n e)" "it_sig ?t = n" by (auto split: option.splits public_key.splits)
  then show "\<exists>t key. jp_read (ex_parser auds) tok = Some t \<and> c = it_claims t \<and>
           (po_ValidMethods opts \<noteq> [] \<longrightarrow> it_alg t \<in> set (po_ValidMethods opts)) \<and>
           kf t = Some key \<and> (it_alg t \<in> {''RS256'', ''RS384'', ''RS512''} \<longrightarrow> jp_rsa (ex_parser auds) (it_alg t) key (it_signed t) (it_sig t)) \<and>
           (po_ExpirationRequired opts \<longrightarrow> oc_exp c \<noteq> None) \<and> (\<forall>x. oc_exp c = Some x \<longrightarrow> now < x) \<and>
           (po_Audience opts \<noteq> [] \<longrightarrow> (\<exists>as. oc_aud c = Some as \<and> po_Audience opts \<in> set as))"
    using c(1-4) by (intro exI [of _ ?t] exI [of _ "RSAKey n e"]) (simp add: ex_parser_def ex_token_of_def ex_oclaims_def)
qed

text \<open>The endpoint answers a key to the first call; the second one uses the cache.\<close>

definition ex_oc :: "(string \<Rightarrow> jwks_key list option) \<Rightarrow> oauth_call" where
  "ex_oc f = \<lparr>op_now = 1, op_now2 = 1, op_parse_now = 1, op_fetch = f\<rparr>"

definition ex_calls :: "(oauth_call \<times> string \<times> string) list" where
  "ex_calls = [(ex_oc (\<lambda>u. Some [\<lparr>jq_Kty = ''RSA'', jq_Kid = ''k'', jq_N = ''AQAB'', jq_E = ''AQAB''\<rparr>]), ''google'', []),
     (ex_oc (\<lambda>u. None), ''google'', [CHR 0x01, CHR 0x00, CHR 0x01])]"

theorem provider_verify_sound_witness:
  "\<exists>ext v'. provider_run (ex_parser [''ios'']) ex_calls (NewProviderVerifier [''ios'', ''web''] []) = ([None, Some ext], v') \<and>
     ei_Subject ext = ''g1'' \<and>
     vouched (ex_parser [''ios'']) (NewProviderVerifier [''ios'', ''web''] []) {fst (ex_calls ! 0)} (ex_calls ! 1) ext"
proof -
  let ?v = "NewProviderVerifier [''ios'', ''web''] []"
  obtain rs v' where run: "provider_run (ex_parser [''ios'']) ex_calls ?v = (rs, v')" by fastforce
  have "map (map_option ei_Subject) (fst (provider_run (ex_parser [''ios'']) ex_calls ?v)) = [None, Some ''g1'']" by code_simp
  then have m: "map (map_option ei_Subject) rs = [None, Some ''g1'']" by (simp add: run)
  then obtain ext where rs: "rs = [None, Some ext]" "ei_Subject ext = ''g1''" by (auto simp: map_eq_Cons_conv)
  from provider_verify_sound [OF ex_parser_safe refl run, of 1 ext] rs run show ?thesis by (auto simp: ex_calls_def)
qed

text \<open>Only the first configured client id is accepted. The parser is given the first one as a
  required audience, so a token issued for another configured client id alone is refused although
  the multi-audience check after it would accept it.\<close>

theorem second_client_id_refused:
  assumes "provider_config v provider = Some (url, a1 # auds, issuers)" and "parses_safely L"
    and "jp_read L tok = Some t" and "oc_aud (it_claims t) = Some [a2]" and "a1 \<noteq> a2" and "a1 \<noteq> []"
  shows "fst (ProviderVerify L oc provider tok v) = None"
proof (cases "keysFor oc url v")
  case (Pair ks v')
  show ?thesis
  proof (cases ks)
    case None
    with Pair assms(1) show ?thesis by (simp add: ProviderVerify_def)
  next
    case (Some keys)
    let ?p = "jp_ParseWithClaims L \<lparr>po_ValidMethods = [''RS256''], po_ExpirationRequired = True, po_Audience = a1\<rparr>
      (id_keyfunc keys) (op_parse_now oc) tok"
    have "?p = None"
    proof (cases ?p)
      case (Some c)
      from assms(2) [unfolded parses_safely_def, rule_format, OF Some] assms(3-6) show ?thesis by auto
    qed
    with Pair Some assms(1) show ?thesis by (simp add: ProviderVerify_def pick_def)
  qed
qed

theorem second_client_id_refused_witness:
  "fst (ProviderVerify (ex_parser [''web'']) (fst (ex_calls ! 0)) ''google'' ''t'' (NewProviderVerifier [''ios'', ''web''] [])) = None \<and>
   audienceMatches (ex_oclaims [''web'']) [''ios'', ''web'']"
proof -
  have "fst (ProviderVerify (ex_parser [''web'']) (fst (ex_calls ! 0)) ''google'' ''t'' (NewProviderVerifier [''ios'', ''web''] [])) = None"
    by (rule second_client_id_refused [where ?a1.0 = "''ios''" and ?a2.0 = "''web''" and auds = "[''web'']"])
      (auto simp: provider_config_def NewProviderVerifier_def ex_parser_safe, auto simp: ex_parser_def ex_token_of_def ex_oclaims_def)
  then show ?thesis by (simp add: audienceMatches_def ex_oclaims_def)
qed

end
