(* ===== verification/Surprise_Store.thy ===== *)
theory Surprise_Store
  imports Valkey
begin

text \<open>
  The Surprise service's entities and storage ports
  (\<open>services/backend/surprise/internal/domain/types.go\<close>) as records of operations, the contract
  of the repository as the locale \<open>surprise_repo\<close>, and the two repositories the source has:
  Postgres (\<open>domain/postgres/postgres.go\<close>, on the tables of \<open>0001_init.sql\<close>) and the in-memory
  store (\<open>domain/memory/memory.go\<close>). Each statement sent to Postgres may fail, and a transaction
  that does not commit leaves the tables as they were. \<open>up\<close> is Postgres's parse of a uuid
  parameter: the canonical text, or none for a malformed one, which the statement rejects.
\<close>

section \<open>Entities (types.go)\<close>

datatype gen_status = StatusQueued | StatusRunning | StatusReady | StatusFailed | StatusText string

datatype tier = TierSonnet | TierOpus | TierText string

datatype moderation = ModerationApproved | ModerationRejected | ModerationPending | ModerationText string

text \<open>An embedding is a list of IEEE single-precision bit patterns: the services only move it.\<close>

type_synonym float32 = "32 word"

record gen_request =
  gr_ID :: string
  gr_UserID :: string
  gr_HolidayID :: string
  gr_BudgetBand :: string
  gr_PreferencesText :: string
  gr_PollID :: string
  gr_IdempotencyKey :: string
  gr_Status :: gen_status
  gr_Tier :: tier
  gr_Refinement :: string
  gr_CreatedAt :: time

record gift_idea =
  gi_ID :: string
  gi_RequestID :: string
  gi_Title :: string
  gi_WhyItFits :: string
  gi_RoughCost :: string
  gi_HowTo :: string
  gi_Rank :: int
  gi_Moderation :: moderation
  gi_Embedding :: "float32 list"
  gi_CreatedAt :: time

record status_info =
  in_Status :: gen_status
  in_Progress :: int

datatype surprise_error = SurpriseNotFound | SurpriseDuplicate | SurpriseOther

record 's gen_repo =
  rp_CreateRequest :: "gen_request \<Rightarrow> 's \<Rightarrow> (surprise_error + unit) \<times> 's"
  rp_GetRequest :: "string \<Rightarrow> 's \<Rightarrow> (surprise_error + gen_request) \<times> 's"
  rp_GetRequestByIdempotencyKey :: "string \<Rightarrow> 's \<Rightarrow> (surprise_error + gen_request) \<times> 's"
  rp_SetRequestStatus :: "string \<Rightarrow> gen_status \<Rightarrow> 's \<Rightarrow> (surprise_error + unit) \<times> 's"
  rp_MarkRefinement :: "string \<Rightarrow> string \<Rightarrow> 's \<Rightarrow> (surprise_error + unit) \<times> 's"
  rp_SaveIdeas :: "string \<Rightarrow> gift_idea list \<Rightarrow> 's \<Rightarrow> (surprise_error + unit) \<times> 's"
  rp_GetIdeas :: "string \<Rightarrow> 's \<Rightarrow> (surprise_error + gift_idea list) \<times> 's"
  rp_GetIdea :: "string \<Rightarrow> 's \<Rightarrow> (surprise_error + gift_idea) \<times> 's"
  rp_SaveIdeaForUser :: "string \<Rightarrow> string \<Rightarrow> 's \<Rightarrow> (surprise_error + unit) \<times> 's"

text \<open>
  Every cache operation takes the instant of each command it sends (two for
  \<open>SetIdempotencyIfAbsent\<close>, which yields (stored, id)).
\<close>

record 'c gen_cache =
  ca_SetStatus :: "string \<Rightarrow> status_info \<Rightarrow> duration \<Rightarrow> time \<Rightarrow> 'c \<Rightarrow> (surprise_error + unit) \<times> 'c"
  ca_GetStatus :: "string \<Rightarrow> time \<Rightarrow> 'c \<Rightarrow> (surprise_error + status_info) \<times> 'c"
  ca_SetIdempotencyIfAbsent ::
    "string \<Rightarrow> string \<Rightarrow> duration \<Rightarrow> time \<Rightarrow> time \<Rightarrow> 'c \<Rightarrow> (surprise_error + bool \<times> string) \<times> 'c"
  ca_GetLLMCache :: "string \<Rightarrow> time \<Rightarrow> 'c \<Rightarrow> (surprise_error + gift_idea list) \<times> 'c"
  ca_SetLLMCache :: "string \<Rightarrow> gift_idea list \<Rightarrow> duration \<Rightarrow> time \<Rightarrow> 'c \<Rightarrow> (surprise_error + unit) \<times> 'c"

section \<open>The contract of the repository\<close>

record gen_ledger =
  ld_requests :: "(string, gen_request) gomap"
  ld_ideas :: "string \<Rightarrow> gift_idea list"
  ld_idea :: "(string, gift_idea) gomap"
  ld_saved :: "(string \<times> string) set"

definition has_key :: "gen_ledger \<Rightarrow> string \<Rightarrow> bool" where
  "has_key l k \<longleftrightarrow> (\<exists>i r. ld_requests l i = Some r \<and> gr_IdempotencyKey r = k)"

text \<open>What a store keeps of an idea: not its storage id, its embedding or its creation time.\<close>

definition idea_core :: "gift_idea \<Rightarrow> gift_idea" where
  "idea_core x = x\<lparr>gi_ID := [], gi_Embedding := [], gi_CreatedAt := 0\<rparr>"

text \<open>\<open>healthy\<close> is a store none of whose statements will fail.\<close>

locale surprise_repo =
  fixes repo :: "'s gen_repo"
    and ledger :: "'s \<Rightarrow> gen_ledger"
    and inv :: "'s \<Rightarrow> bool"
    and canon :: "string \<Rightarrow> string option"
    and healthy :: "'s \<Rightarrow> bool"
  assumes create_ok: "inv s \<Longrightarrow> rp_CreateRequest repo r s = (Inr u, s') \<Longrightarrow>
      \<exists>i t. canon (gr_ID r) = Some i \<and> \<not> has_key (ledger s) (gr_IdempotencyKey r) \<and>
        ledger s' = (ledger s)\<lparr>ld_requests :=
          (ld_requests (ledger s))(i \<mapsto> r\<lparr>gr_ID := i, gr_CreatedAt := t\<rparr>)\<rparr>"
    and create_err: "inv s \<Longrightarrow> rp_CreateRequest repo r s = (Inl e, s') \<Longrightarrow> ledger s' = ledger s"
    and create_inv: "inv s \<Longrightarrow> rp_CreateRequest repo r s = (c, s') \<Longrightarrow>
      (\<And>i. canon (gr_ID r) = Some i \<Longrightarrow> ld_requests (ledger s) i = None) \<Longrightarrow> inv s'"
    and create_dup: "inv s \<Longrightarrow> healthy s \<Longrightarrow> has_key (ledger s) (gr_IdempotencyKey r) \<Longrightarrow>
      canon (gr_ID r) \<noteq> None \<Longrightarrow> rp_CreateRequest repo r s = (c, s') \<Longrightarrow>
      c = Inl SurpriseDuplicate \<and> healthy s'"
    and get_healthy: "healthy s \<Longrightarrow> rp_GetRequest repo i s = (g, s') \<Longrightarrow> healthy s'"
    and key_found: "inv s \<Longrightarrow> healthy s \<Longrightarrow> has_key (ledger s) k \<Longrightarrow>
      \<exists>r s'. rp_GetRequestByIdempotencyKey repo k s = (Inr r, s')"
    and get_read: "inv s \<Longrightarrow> rp_GetRequest repo i s = (g, s') \<Longrightarrow> ledger s' = ledger s \<and> inv s'"
    and get_ok: "inv s \<Longrightarrow> rp_GetRequest repo i s = (Inr r, s') \<Longrightarrow>
      canon i = Some (gr_ID r) \<and> ld_requests (ledger s) (gr_ID r) = Some r"
    and key_read: "inv s \<Longrightarrow> rp_GetRequestByIdempotencyKey repo k s = (g, s') \<Longrightarrow>
      ledger s' = ledger s \<and> inv s'"
    and key_ok: "inv s \<Longrightarrow> rp_GetRequestByIdempotencyKey repo k s = (Inr r, s') \<Longrightarrow>
      ld_requests (ledger s) (gr_ID r) = Some r \<and> gr_IdempotencyKey r = k"
    and key_miss: "inv s \<Longrightarrow> rp_GetRequestByIdempotencyKey repo k s = (Inl SurpriseNotFound, s') \<Longrightarrow>
      \<not> has_key (ledger s) k"
    and status_ok: "inv s \<Longrightarrow> rp_SetRequestStatus repo j st s = (Inr u, s') \<Longrightarrow>
      \<exists>i. canon j = Some i \<and> ledger s' = (ledger s)\<lparr>ld_requests := (ld_requests (ledger s))
        (i := map_option (\<lambda>r. r\<lparr>gr_Status := st\<rparr>) (ld_requests (ledger s) i))\<rparr>"
    and status_err: "inv s \<Longrightarrow> rp_SetRequestStatus repo j st s = (Inl e, s') \<Longrightarrow> ledger s' = ledger s"
    and status_inv: "inv s \<Longrightarrow> rp_SetRequestStatus repo j st s = (c, s') \<Longrightarrow> inv s'"
    and refine_ok: "inv s \<Longrightarrow> rp_MarkRefinement repo j tx s = (Inr u, s') \<Longrightarrow>
      \<exists>i. canon j = Some i \<and> ledger s' = (ledger s)\<lparr>ld_requests := (ld_requests (ledger s))
        (i := map_option (\<lambda>r. r\<lparr>gr_Refinement := tx, gr_Status := StatusQueued\<rparr>)
          (ld_requests (ledger s) i))\<rparr>"
    and refine_err: "inv s \<Longrightarrow> rp_MarkRefinement repo j tx s = (Inl e, s') \<Longrightarrow> ledger s' = ledger s"
    and refine_inv: "inv s \<Longrightarrow> rp_MarkRefinement repo j tx s = (c, s') \<Longrightarrow> inv s'"
    and ideas_ok: "inv s \<Longrightarrow> rp_SaveIdeas repo j xs s = (Inr u, s') \<Longrightarrow>
      ld_requests (ledger s') = ld_requests (ledger s) \<and> ld_saved (ledger s') \<subseteq> ld_saved (ledger s) \<and>
      (\<exists>i. canon j = Some i \<and> (\<forall>i'. i' \<noteq> i \<longrightarrow> ld_ideas (ledger s') i' = ld_ideas (ledger s) i') \<and>
        ((\<forall>x \<in> set xs. gi_RequestID x = i) \<longrightarrow>
          map idea_core (ld_ideas (ledger s') i) = map idea_core (sort_key gi_Rank xs)))"
    and ideas_err: "inv s \<Longrightarrow> rp_SaveIdeas repo j xs s = (Inl e, s') \<Longrightarrow> ledger s' = ledger s"
    and ideas_inv: "inv s \<Longrightarrow> rp_SaveIdeas repo j xs s = (c, s') \<Longrightarrow> inv s'"
    and list_read: "inv s \<Longrightarrow> rp_GetIdeas repo j s = (l, s') \<Longrightarrow> ledger s' = ledger s \<and> inv s'"
    and list_ok: "inv s \<Longrightarrow> rp_GetIdeas repo j s = (Inr xs, s') \<Longrightarrow>
      \<exists>i. canon j = Some i \<and> xs = ld_ideas (ledger s) i"
    and idea_read: "inv s \<Longrightarrow> rp_GetIdea repo x s = (d, s') \<Longrightarrow> ledger s' = ledger s \<and> inv s'"
    and idea_ok: "inv s \<Longrightarrow> rp_GetIdea repo x s = (Inr y, s') \<Longrightarrow>
      \<exists>i. canon x = Some i \<and> ld_idea (ledger s) i = Some y"
    and save_ok: "inv s \<Longrightarrow> rp_SaveIdeaForUser repo usr x s = (Inr u, s') \<Longrightarrow>
      \<exists>i. canon x = Some i \<and>
        ledger s' = (ledger s)\<lparr>ld_saved := insert (usr, i) (ld_saved (ledger s))\<rparr>"
    and save_err: "inv s \<Longrightarrow> rp_SaveIdeaForUser repo usr x s = (Inl e, s') \<Longrightarrow> ledger s' = ledger s"
    and save_inv: "inv s \<Longrightarrow> rp_SaveIdeaForUser repo usr x s = (c, s') \<Longrightarrow> inv s'"
    and ids_canon: "inv s \<Longrightarrow> ld_requests (ledger s) i = Some r \<Longrightarrow> gr_ID r = i \<and> canon i = Some i"
    and one_key: "inv s \<Longrightarrow> ld_requests (ledger s) i = Some r \<Longrightarrow> ld_requests (ledger s) i' = Some r' \<Longrightarrow>
      gr_IdempotencyKey r = gr_IdempotencyKey r' \<Longrightarrow> i = i'"

section \<open>The in-memory store (memory.go)\<close>

definition go_zero_time :: time where
  "go_zero_time = - 62135596800 * ns_per_sec"

text \<open>\<open>mm_now\<close> is the supply of clock readings \<open>time.Now\<close> draws from inside the store.\<close>

record mem_store =
  mm_requests :: "(string, gen_request) gomap"
  mm_idemByKey :: "(string, string) gomap"
  mm_ideas :: "(string, gift_idea list) gomap"
  mm_ideaByID :: "(string, gift_idea) gomap"
  mm_saved :: "(string, string set) gomap"
  mm_status :: "(string, status_info) gomap"
  mm_idemCache :: "(string, string) gomap"
  mm_llmCache :: "(string, gift_idea list) gomap"
  mm_now :: "time list"

definition mem_New :: "time list \<Rightarrow> mem_store" where
  "mem_New ts =
     \<lparr>mm_requests = (\<lambda>_. None), mm_idemByKey = (\<lambda>_. None), mm_ideas = (\<lambda>_. None),
      mm_ideaByID = (\<lambda>_. None), mm_saved = (\<lambda>_. None), mm_status = (\<lambda>_. None),
      mm_idemCache = (\<lambda>_. None), mm_llmCache = (\<lambda>_. None), mm_now = ts\<rparr>"

definition mem_CreateRequest :: "gen_request \<Rightarrow> mem_store \<Rightarrow> (surprise_error + unit) \<times> mem_store" where
  "mem_CreateRequest r s =
     (case mm_idemByKey s (gr_IdempotencyKey r) of
        Some _ \<Rightarrow> (Inl SurpriseDuplicate, s)
      | None \<Rightarrow>
          (let (cp, s1) = (if gr_CreatedAt r = go_zero_time
                           then (r\<lparr>gr_CreatedAt := (case mm_now s of [] \<Rightarrow> 0 | t # _ \<Rightarrow> t)\<rparr>,
                                 s\<lparr>mm_now := drop 1 (mm_now s)\<rparr>)
                           else (r, s))
           in (Inr (), s1\<lparr>mm_requests := (mm_requests s1)(gr_ID r \<mapsto> cp),
                 mm_idemByKey := (mm_idemByKey s1)(gr_IdempotencyKey r \<mapsto> gr_ID r)\<rparr>)))"

definition mem_GetRequest :: "string \<Rightarrow> mem_store \<Rightarrow> (surprise_error + gen_request) \<times> mem_store" where
  "mem_GetRequest i s =
     (case mm_requests s i of None \<Rightarrow> (Inl SurpriseNotFound, s) | Some r \<Rightarrow> (Inr r, s))"

text \<open>
  The source dereferences \<open>s.requests[id]\<close>, which \<open>mem_inv\<close> shows to be present; a nil one would
  panic (\<open>SurpriseOther\<close> here).
\<close>

definition mem_GetRequestByIdempotencyKey ::
  "string \<Rightarrow> mem_store \<Rightarrow> (surprise_error + gen_request) \<times> mem_store" where
  "mem_GetRequestByIdempotencyKey k s =
     (case mm_idemByKey s k of
        None \<Rightarrow> (Inl SurpriseNotFound, s)
      | Some i \<Rightarrow> (case mm_requests s i of None \<Rightarrow> (Inl SurpriseOther, s) | Some r \<Rightarrow> (Inr r, s)))"

definition mem_SetRequestStatus ::
  "string \<Rightarrow> gen_status \<Rightarrow> mem_store \<Rightarrow> (surprise_error + unit) \<times> mem_store" where
  "mem_SetRequestStatus i st s =
     (case mm_requests s i of
        None \<Rightarrow> (Inl SurpriseNotFound, s)
      | Some r \<Rightarrow> (Inr (), s\<lparr>mm_requests := (mm_requests s)(i \<mapsto> r\<lparr>gr_Status := st\<rparr>)\<rparr>))"

definition mem_MarkRefinement ::
  "string \<Rightarrow> string \<Rightarrow> mem_store \<Rightarrow> (surprise_error + unit) \<times> mem_store" where
  "mem_MarkRefinement i tx s =
     (case mm_requests s i of
        None \<Rightarrow> (Inl SurpriseNotFound, s)
      | Some r \<Rightarrow> (Inr (), s\<lparr>mm_requests :=
          (mm_requests s)(i \<mapsto> r\<lparr>gr_Refinement := tx, gr_Status := StatusQueued\<rparr>)\<rparr>))"

definition mem_SaveIdeas ::
  "string \<Rightarrow> gift_idea list \<Rightarrow> mem_store \<Rightarrow> (surprise_error + unit) \<times> mem_store" where
  "mem_SaveIdeas i xs s =
     (Inr (), s\<lparr>mm_ideas := (mm_ideas s)(i \<mapsto> xs),
        mm_ideaByID := foldl (\<lambda>m x. m(gi_ID x \<mapsto> x)) (mm_ideaByID s) xs\<rparr>)"

definition stored_ideas :: "mem_store \<Rightarrow> string \<Rightarrow> gift_idea list" where
  "stored_ideas s i = (case mm_ideas s i of None \<Rightarrow> [] | Some xs \<Rightarrow> xs)"

definition mem_GetIdeas :: "string \<Rightarrow> mem_store \<Rightarrow> (surprise_error + gift_idea list) \<times> mem_store" where
  "mem_GetIdeas i s = (Inr (sort_key gi_Rank (stored_ideas s i)), s)"

definition mem_GetIdea :: "string \<Rightarrow> mem_store \<Rightarrow> (surprise_error + gift_idea) \<times> mem_store" where
  "mem_GetIdea x s =
     (case mm_ideaByID s x of None \<Rightarrow> (Inl SurpriseNotFound, s) | Some y \<Rightarrow> (Inr y, s))"

definition saved_of :: "mem_store \<Rightarrow> string \<Rightarrow> string set" where
  "saved_of s usr = (case mm_saved s usr of None \<Rightarrow> {} | Some xs \<Rightarrow> xs)"

definition mem_SaveIdeaForUser ::
  "string \<Rightarrow> string \<Rightarrow> mem_store \<Rightarrow> (surprise_error + unit) \<times> mem_store" where
  "mem_SaveIdeaForUser usr x s =
     (Inr (), s\<lparr>mm_saved := (mm_saved s)(usr \<mapsto> insert x (saved_of s usr))\<rparr>)"

definition mem_SavedFor :: "string \<Rightarrow> string \<Rightarrow> mem_store \<Rightarrow> bool" where
  "mem_SavedFor usr x s \<longleftrightarrow> x \<in> saved_of s usr"

subsection \<open>Its cache half\<close>

definition mem_SetStatus ::
  "string \<Rightarrow> status_info \<Rightarrow> duration \<Rightarrow> time \<Rightarrow> mem_store \<Rightarrow> (surprise_error + unit) \<times> mem_store" where
  "mem_SetStatus i info ttl now s = (Inr (), s\<lparr>mm_status := (mm_status s)(i \<mapsto> info)\<rparr>)"

definition mem_GetStatus :: "string \<Rightarrow> time \<Rightarrow> mem_store \<Rightarrow> (surprise_error + status_info) \<times> mem_store" where
  "mem_GetStatus i now s =
     (case mm_status s i of None \<Rightarrow> (Inl SurpriseNotFound, s) | Some info \<Rightarrow> (Inr info, s))"

definition mem_SetIdempotencyIfAbsent ::
  "string \<Rightarrow> string \<Rightarrow> duration \<Rightarrow> time \<Rightarrow> time \<Rightarrow> mem_store \<Rightarrow>
   (surprise_error + bool \<times> string) \<times> mem_store" where
  "mem_SetIdempotencyIfAbsent k i ttl now now2 s =
     (case mm_idemCache s k of
        Some existing \<Rightarrow> (Inr (False, existing), s)
      | None \<Rightarrow> (Inr (True, i), s\<lparr>mm_idemCache := (mm_idemCache s)(k \<mapsto> i)\<rparr>))"

definition mem_GetLLMCache :: "string \<Rightarrow> time \<Rightarrow> mem_store \<Rightarrow> (surprise_error + gift_idea list) \<times> mem_store" where
  "mem_GetLLMCache h now s =
     (case mm_llmCache s h of None \<Rightarrow> (Inl SurpriseNotFound, s) | Some v \<Rightarrow> (Inr v, s))"

definition mem_SetLLMCache ::
  "string \<Rightarrow> gift_idea list \<Rightarrow> duration \<Rightarrow> time \<Rightarrow> mem_store \<Rightarrow> (surprise_error + unit) \<times> mem_store" where
  "mem_SetLLMCache h xs ttl now s = (Inr (), s\<lparr>mm_llmCache := (mm_llmCache s)(h \<mapsto> xs)\<rparr>)"

definition mem_repo :: "mem_store gen_repo" where
  "mem_repo =
     \<lparr>rp_CreateRequest = mem_CreateRequest, rp_GetRequest = mem_GetRequest,
      rp_GetRequestByIdempotencyKey = mem_GetRequestByIdempotencyKey,
      rp_SetRequestStatus = mem_SetRequestStatus, rp_MarkRefinement = mem_MarkRefinement,
      rp_SaveIdeas = mem_SaveIdeas, rp_GetIdeas = mem_GetIdeas, rp_GetIdea = mem_GetIdea,
      rp_SaveIdeaForUser = mem_SaveIdeaForUser\<rparr>"

definition mem_cache :: "mem_store gen_cache" where
  "mem_cache =
     \<lparr>ca_SetStatus = mem_SetStatus, ca_GetStatus = mem_GetStatus,
      ca_SetIdempotencyIfAbsent = mem_SetIdempotencyIfAbsent, ca_GetLLMCache = mem_GetLLMCache,
      ca_SetLLMCache = mem_SetLLMCache\<rparr>"

subsection \<open>It keeps the contract\<close>

definition mem_ledger :: "mem_store \<Rightarrow> gen_ledger" where
  "mem_ledger s =
     \<lparr>ld_requests = mm_requests s, ld_ideas = (\<lambda>i. sort_key gi_Rank (stored_ideas s i)),
      ld_idea = mm_ideaByID s, ld_saved = {(usr, x). x \<in> saved_of s usr}\<rparr>"

definition mem_inv :: "mem_store \<Rightarrow> bool" where
  "mem_inv s \<longleftrightarrow>
     (\<forall>i r. mm_requests s i = Some r \<longrightarrow> gr_ID r = i \<and> mm_idemByKey s (gr_IdempotencyKey r) = Some i) \<and>
     (\<forall>k i. mm_idemByKey s k = Some i \<longrightarrow>
        mm_requests s i \<noteq> None \<and> gr_IdempotencyKey (the (mm_requests s i)) = k)"

lemma mem_inv_req: "mem_inv s \<Longrightarrow> mm_requests s i = Some r \<Longrightarrow>
    gr_ID r = i \<and> mm_idemByKey s (gr_IdempotencyKey r) = Some i"
  by (simp add: mem_inv_def)

lemma mem_inv_key: "mem_inv s \<Longrightarrow> mm_idemByKey s k = Some i \<Longrightarrow>
    \<exists>r. mm_requests s i = Some r \<and> gr_IdempotencyKey r = k"
  by (force simp: mem_inv_def)

lemmas mem_ops =
  mem_CreateRequest_def mem_GetRequest_def mem_GetRequestByIdempotencyKey_def
  mem_SetRequestStatus_def mem_MarkRefinement_def mem_SaveIdeas_def mem_GetIdeas_def
  mem_GetIdea_def mem_SaveIdeaForUser_def

lemma mem_repo_sel [simp]:
  "rp_CreateRequest mem_repo = mem_CreateRequest" "rp_GetRequest mem_repo = mem_GetRequest"
  "rp_GetRequestByIdempotencyKey mem_repo = mem_GetRequestByIdempotencyKey"
  "rp_SetRequestStatus mem_repo = mem_SetRequestStatus" "rp_MarkRefinement mem_repo = mem_MarkRefinement"
  "rp_SaveIdeas mem_repo = mem_SaveIdeas" "rp_GetIdeas mem_repo = mem_GetIdeas"
  "rp_GetIdea mem_repo = mem_GetIdea" "rp_SaveIdeaForUser mem_repo = mem_SaveIdeaForUser"
  by (simp_all add: mem_repo_def)

lemma mem_key_iff: "mem_inv s \<Longrightarrow> has_key (mem_ledger s) k \<longleftrightarrow> mm_idemByKey s k \<noteq> None"
  unfolding mem_inv_def has_key_def mem_ledger_def by fastforce

lemma mem_create:
  assumes "mem_CreateRequest r s = (c, s')"
  shows "(\<exists>e. c = Inl e) \<and> s' = s \<or>
    c = Inr () \<and> mm_idemByKey s (gr_IdempotencyKey r) = None \<and>
    (\<exists>t. mm_requests s' = (mm_requests s)(gr_ID r \<mapsto> r\<lparr>gr_CreatedAt := t\<rparr>)) \<and>
    mm_idemByKey s' = (mm_idemByKey s)(gr_IdempotencyKey r \<mapsto> gr_ID r) \<and>
    mm_ideas s' = mm_ideas s \<and> mm_ideaByID s' = mm_ideaByID s \<and> mm_saved s' = mm_saved s"
proof (cases "mm_idemByKey s (gr_IdempotencyKey r)")
  case None
  have "\<exists>t. (mm_requests s)(gr_ID r \<mapsto> r) = (mm_requests s)(gr_ID r \<mapsto> r\<lparr>gr_CreatedAt := t\<rparr>)"
    by (rule exI [of _ "gr_CreatedAt r"]) simp
  with None assms show ?thesis
    by (cases "gr_CreatedAt r = go_zero_time") (auto simp: mem_CreateRequest_def Let_def)
next
  case (Some a)
  with assms show ?thesis by (auto simp: mem_CreateRequest_def)
qed

text \<open>What an operation other than \<open>CreateRequest\<close> does to the request it names.\<close>

lemma mem_update:
  "mem_SetRequestStatus i st s = (Inr u, s') \<Longrightarrow>
     mem_ledger s' = (mem_ledger s)\<lparr>ld_requests := (ld_requests (mem_ledger s))
       (i := map_option (\<lambda>r. r\<lparr>gr_Status := st\<rparr>) (ld_requests (mem_ledger s) i))\<rparr>"
  "mem_MarkRefinement i tx s = (Inr u, s') \<Longrightarrow>
     mem_ledger s' = (mem_ledger s)\<lparr>ld_requests := (ld_requests (mem_ledger s))
       (i := map_option (\<lambda>r. r\<lparr>gr_Refinement := tx, gr_Status := StatusQueued\<rparr>)
         (ld_requests (mem_ledger s) i))\<rparr>"
  by (auto simp: mem_ops mem_ledger_def stored_ideas_def saved_of_def split: option.splits)

lemma mem_update_inv:
  assumes "mem_inv s"
  shows "mem_SetRequestStatus i st s = (c, s') \<Longrightarrow> mem_inv s'"
    and "mem_MarkRefinement i tx s = (c, s') \<Longrightarrow> mem_inv s'"
    and "mem_SaveIdeas i xs s = (c, s') \<Longrightarrow> mem_inv s'"
    and "mem_SaveIdeaForUser a b s = (c, s') \<Longrightarrow> mem_inv s'"
  using assms mem_inv_key [OF assms]
  by (auto simp: mem_ops mem_inv_def split: option.splits if_splits) fastforce+

lemma mem_create_inv:
  assumes "mem_inv s" and "mem_CreateRequest r s = (c, s')" and "mm_requests s (gr_ID r) = None"
  shows "mem_inv s'"
proof (cases "s' = s")
  case False
  with mem_create [OF assms(2)] obtain t where
    n: "mm_idemByKey s (gr_IdempotencyKey r) = None" and
    q: "mm_requests s' = (mm_requests s)(gr_ID r \<mapsto> r\<lparr>gr_CreatedAt := t\<rparr>)" and
    k: "mm_idemByKey s' = (mm_idemByKey s)(gr_IdempotencyKey r \<mapsto> gr_ID r)"
    by blast
  have 1: "gr_ID r' = i \<and> mm_idemByKey s' (gr_IdempotencyKey r') = Some i"
    if "mm_requests s' i = Some r'" for i r'
    using that assms(1) n unfolding q k mem_inv_def by (cases "i = gr_ID r") force+
  have 2: "mm_requests s' i \<noteq> None \<and> gr_IdempotencyKey (the (mm_requests s' i)) = k'"
    if "mm_idemByKey s' k' = Some i" for i k'
    using that assms(1, 3) unfolding q k mem_inv_def by (cases "k' = gr_IdempotencyKey r") force+
  show ?thesis unfolding mem_inv_def using 1 2 by blast
qed (simp add: assms(1))

lemma mem_SaveIdeas_ledger:
  "mem_SaveIdeas i xs s = (c, s') \<Longrightarrow>
     ld_requests (mem_ledger s') = ld_requests (mem_ledger s) \<and>
     ld_saved (mem_ledger s') = ld_saved (mem_ledger s) \<and>
     ld_ideas (mem_ledger s') = (ld_ideas (mem_ledger s))(i := sort_key gi_Rank xs)"
  by (auto simp: mem_ops mem_ledger_def stored_ideas_def saved_of_def)

lemma mem_SaveIdeaForUser_ledger:
  "mem_SaveIdeaForUser usr x s = (c, s') \<Longrightarrow>
     mem_ledger s' = (mem_ledger s)\<lparr>ld_saved := insert (usr, x) (ld_saved (mem_ledger s))\<rparr>"
  by (auto simp: mem_ops mem_ledger_def stored_ideas_def saved_of_def split: if_splits)

interpretation memory: surprise_repo mem_repo mem_ledger mem_inv Some "\<lambda>_. True"
proof (unfold_locales, unfold mem_repo_sel)
  fix s r u s' assume "mem_inv s" and c: "mem_CreateRequest r s = (Inr u, s')"
  then have k: "\<not> has_key (mem_ledger s) (gr_IdempotencyKey r)"
    using mem_create [OF c] by (simp add: mem_key_iff)
  show "\<exists>i t. Some (gr_ID r) = Some i \<and> \<not> has_key (mem_ledger s) (gr_IdempotencyKey r) \<and>
      mem_ledger s' = (mem_ledger s)\<lparr>ld_requests :=
        (ld_requests (mem_ledger s))(i \<mapsto> r\<lparr>gr_ID := i, gr_CreatedAt := t\<rparr>)\<rparr>"
    using mem_create [OF c] k by (auto simp: mem_ledger_def stored_ideas_def saved_of_def)
next
  fix s r e s' assume "mem_CreateRequest r s = (Inl e, s')"
  then show "mem_ledger s' = mem_ledger s" using mem_create by blast
next
  fix s r c s' assume "mem_inv s" and "mem_CreateRequest r s = (c, s')"
    and "\<And>i. Some (gr_ID r) = Some i \<Longrightarrow> ld_requests (mem_ledger s) i = None"
  then show "mem_inv s'" by (intro mem_create_inv [of s r c s']) (auto simp: mem_ledger_def)
next
  fix s r c s' assume "mem_inv s" and "has_key (mem_ledger s) (gr_IdempotencyKey r)"
    and "mem_CreateRequest r s = (c, s')"
  then show "c = Inl SurpriseDuplicate \<and> True" by (auto simp: mem_key_iff mem_CreateRequest_def)
next
  fix s k assume v: "mem_inv s" and "has_key (mem_ledger s) k"
  then obtain i where i: "mm_idemByKey s k = Some i" by (auto simp: mem_key_iff)
  from mem_inv_key [OF v i] i show "\<exists>r s'. mem_GetRequestByIdempotencyKey k s = (Inr r, s')"
    by (auto simp: mem_GetRequestByIdempotencyKey_def)
next
  fix s j st u s' assume "mem_SetRequestStatus j st s = (Inr u, s')"
  then show "\<exists>i. Some j = Some i \<and> mem_ledger s' = (mem_ledger s)\<lparr>ld_requests := (ld_requests (mem_ledger s))
      (i := map_option (\<lambda>r. r\<lparr>gr_Status := st\<rparr>) (ld_requests (mem_ledger s) i))\<rparr>"
    using mem_update(1) by blast
next
  fix s j tx u s' assume "mem_MarkRefinement j tx s = (Inr u, s')"
  then show "\<exists>i. Some j = Some i \<and> mem_ledger s' = (mem_ledger s)\<lparr>ld_requests := (ld_requests (mem_ledger s))
      (i := map_option (\<lambda>r. r\<lparr>gr_Refinement := tx, gr_Status := StatusQueued\<rparr>)
        (ld_requests (mem_ledger s) i))\<rparr>"
    using mem_update(2) by blast
next
  fix s j xs u s' assume "mem_SaveIdeas j xs s = (Inr u, s')"
  from mem_SaveIdeas_ledger [OF this]
  show "ld_requests (mem_ledger s') = ld_requests (mem_ledger s) \<and>
      ld_saved (mem_ledger s') \<subseteq> ld_saved (mem_ledger s) \<and>
      (\<exists>i. Some j = Some i \<and> (\<forall>i'. i' \<noteq> i \<longrightarrow> ld_ideas (mem_ledger s') i' = ld_ideas (mem_ledger s) i') \<and>
        ((\<forall>x \<in> set xs. gi_RequestID x = i) \<longrightarrow>
          map idea_core (ld_ideas (mem_ledger s') i) = map idea_core (sort_key gi_Rank xs)))"
    by simp
next
  fix s usr x u s' assume "mem_SaveIdeaForUser usr x s = (Inr u, s')"
  then show "\<exists>i. Some x = Some i \<and>
      mem_ledger s' = (mem_ledger s)\<lparr>ld_saved := insert (usr, i) (ld_saved (mem_ledger s))\<rparr>"
    using mem_SaveIdeaForUser_ledger by blast
next
  fix s i r i' r' assume v: "mem_inv s" and "ld_requests (mem_ledger s) i = Some r"
    and "ld_requests (mem_ledger s) i' = Some r'" and "gr_IdempotencyKey r = gr_IdempotencyKey r'"
  then show "i = i'" using mem_inv_req [OF v, of i r] mem_inv_req [OF v, of i' r']
    by (simp add: mem_ledger_def)
next
  fix s j st c s' assume "mem_inv s" and "mem_SetRequestStatus j st s = (c, s')"
  then show "mem_inv s'" by (rule mem_update_inv(1))
next
  fix s j tx c s' assume "mem_inv s" and "mem_MarkRefinement j tx s = (c, s')"
  then show "mem_inv s'" by (rule mem_update_inv(2))
next
  fix s j xs c s' assume "mem_inv s" and "mem_SaveIdeas j xs s = (c, s')"
  then show "mem_inv s'" by (rule mem_update_inv(3))
next
  fix s usr x c s' assume "mem_inv s" and "mem_SaveIdeaForUser usr x s = (c, s')"
  then show "mem_inv s'" by (rule mem_update_inv(4))
next
  fix s k r s' assume v: "mem_inv s" and "mem_GetRequestByIdempotencyKey k s = (Inr r, s')"
  then obtain i where i: "mm_idemByKey s k = Some i" and r: "mm_requests s i = Some r"
    by (auto simp: mem_ops split: option.splits)
  from mem_inv_key [OF v i] mem_inv_req [OF v r] r
  show "ld_requests (mem_ledger s) (gr_ID r) = Some r \<and> gr_IdempotencyKey r = k"
    by (auto simp: mem_ledger_def)
next
  fix s k s' assume v: "mem_inv s" and "mem_GetRequestByIdempotencyKey k s = (Inl SurpriseNotFound, s')"
  then have "mm_idemByKey s k = None" by (auto simp: mem_ops split: option.splits)
  then show "\<not> has_key (mem_ledger s) k" by (simp add: mem_key_iff [OF v])
next
  fix s i r assume v: "mem_inv s" and "ld_requests (mem_ledger s) i = Some r"
  then show "gr_ID r = i \<and> Some i = Some i" using mem_inv_req [OF v] by (simp add: mem_ledger_def)
next
  fix s i r s' assume v: "mem_inv s" and "mem_GetRequest i s = (Inr r, s')"
  then have r: "mm_requests s i = Some r" by (auto simp: mem_ops split: option.splits)
  with mem_inv_req [OF v r]
  show "Some i = Some (gr_ID r) \<and> ld_requests (mem_ledger s) (gr_ID r) = Some r"
    by (simp add: mem_ledger_def)
qed (auto simp: mem_ops mem_ledger_def split: option.splits)

section \<open>Postgres (postgres.go)\<close>

record gen_row =
  gq_id :: string
  gq_user_id :: string
  gq_holiday_id :: string
  gq_budget_band :: string
  gq_preferences_text :: string
  gq_poll_id :: "string option"
  gq_idempotency_key :: string
  gq_status :: gen_status
  gq_model_tier :: tier
  gq_refinement :: string
  gq_created_at :: time

record idea_row =
  gx_id :: string
  gx_request_id :: string
  gx_title :: string
  gx_why_it_fits :: string
  gx_rough_cost :: string
  gx_how_to :: string
  gx_rank :: int
  gx_moderation_status :: moderation
  gx_embedding :: "float32 list option"
  gx_created_at :: time

text \<open>
  A row of \<open>saved_ideas\<close> is its unique pair (user, idea). \<open>gg_now\<close> and \<open>gg_uuids\<close> are the supplies of
  \<open>now()\<close> readings and of \<open>uuid.NewString\<close>.
\<close>

record gen_pg =
  gg_requests :: "gen_row list"
  gg_ideas :: "idea_row list"
  gg_saved :: "(string \<times> string) list"
  gg_now :: "time list"
  gg_uuids :: "string list"
  gg_faults :: "bool list"

definition gg_tick :: "gen_pg \<Rightarrow> bool \<times> gen_pg" where
  "gg_tick s = (let (f, fs) = next_fault (gg_faults s) in (f, s\<lparr>gg_faults := fs\<rparr>))"

definition gg_uuid :: "gen_pg \<Rightarrow> string \<times> gen_pg" where
  "gg_uuid s = (case gg_uuids s of [] \<Rightarrow> ([], s) | u # us \<Rightarrow> (u, s\<lparr>gg_uuids := us\<rparr>))"

definition gg_time :: "gen_pg \<Rightarrow> time \<times> gen_pg" where
  "gg_time s = (case gg_now s of [] \<Rightarrow> (0, s) | t # ts \<Rightarrow> (t, s\<lparr>gg_now := ts\<rparr>))"

definition nullIfEmpty :: "string \<Rightarrow> string option" where
  "nullIfEmpty s = (if s = [] then None else Some s)"

text \<open>
  \<open>vectorLiteral\<close>: an empty embedding is NULL. The column is \<open>vector(1536)\<close>, so any other length
  is rejected. (A NaN would be rejected too; no embedding the source computes holds one.)
\<close>

definition vectorLiteral :: "float32 list \<Rightarrow> float32 list option" where
  "vectorLiteral v = (if v = [] then None else Some v)"

definition vector_fits :: "float32 list option \<Rightarrow> bool" where
  "vector_fits v = (case v of None \<Rightarrow> True | Some xs \<Rightarrow> length xs = 1536)"

text \<open>An INSERT is refused on a malformed id, and as a duplicate on a taken id or key.\<close>

definition pg_CreateRequest ::
  "(string \<Rightarrow> string option) \<Rightarrow> gen_request \<Rightarrow> gen_pg \<Rightarrow> (surprise_error + unit) \<times> gen_pg" where
  "pg_CreateRequest up r s =
     (let (f, s1) = gg_tick s in
      if f then (Inl SurpriseOther, s1) else
      case up (gr_ID r) of
        None \<Rightarrow> (Inl SurpriseOther, s1)
      | Some i \<Rightarrow>
          if find (\<lambda>q. gq_id q = i \<or> gq_idempotency_key q = gr_IdempotencyKey r) (gg_requests s1) \<noteq> None
          then (Inl SurpriseDuplicate, s1) else
          let (t, s2) = gg_time s1;
              row = \<lparr>gq_id = i, gq_user_id = gr_UserID r, gq_holiday_id = gr_HolidayID r,
                gq_budget_band = gr_BudgetBand r, gq_preferences_text = gr_PreferencesText r,
                gq_poll_id = nullIfEmpty (gr_PollID r), gq_idempotency_key = gr_IdempotencyKey r,
                gq_status = gr_Status r, gq_model_tier = gr_Tier r, gq_refinement = gr_Refinement r,
                gq_created_at = t\<rparr>
          in (Inr (), s2\<lparr>gg_requests := gg_requests s2 @ [row]\<rparr>))"

definition row_to_request :: "gen_row \<Rightarrow> gen_request" where
  "row_to_request q =
     \<lparr>gr_ID = gq_id q, gr_UserID = gq_user_id q, gr_HolidayID = gq_holiday_id q,
      gr_BudgetBand = gq_budget_band q, gr_PreferencesText = gq_preferences_text q,
      gr_PollID = (case gq_poll_id q of None \<Rightarrow> [] | Some p \<Rightarrow> p),
      gr_IdempotencyKey = gq_idempotency_key q, gr_Status = gq_status q, gr_Tier = gq_model_tier q,
      gr_Refinement = gq_refinement q, gr_CreatedAt = gq_created_at q\<rparr>"

definition scanRequest :: "(gen_row \<Rightarrow> bool) \<Rightarrow> gen_pg \<Rightarrow> (surprise_error + gen_request) \<times> gen_pg" where
  "scanRequest wh s =
     (let (f, s1) = gg_tick s in
      if f then (Inl SurpriseOther, s1) else
      case find wh (gg_requests s1) of
        None \<Rightarrow> (Inl SurpriseNotFound, s1)
      | Some q \<Rightarrow> (Inr (row_to_request q), s1))"

definition pg_GetRequest ::
  "(string \<Rightarrow> string option) \<Rightarrow> string \<Rightarrow> gen_pg \<Rightarrow> (surprise_error + gen_request) \<times> gen_pg" where
  "pg_GetRequest up i s =
     (case up i of
        None \<Rightarrow> (let (f, s1) = gg_tick s in (Inl SurpriseOther, s1))
      | Some j \<Rightarrow> scanRequest (\<lambda>q. gq_id q = j) s)"

definition pg_GetRequestByIdempotencyKey ::
  "string \<Rightarrow> gen_pg \<Rightarrow> (surprise_error + gen_request) \<times> gen_pg" where
  "pg_GetRequestByIdempotencyKey k = scanRequest (\<lambda>q. gq_idempotency_key q = k)"

text \<open>An UPDATE that matches no row is no error.\<close>

definition update_request ::
  "(string \<Rightarrow> string option) \<Rightarrow> string \<Rightarrow> (gen_row \<Rightarrow> gen_row) \<Rightarrow> gen_pg \<Rightarrow>
   (surprise_error + unit) \<times> gen_pg" where
  "update_request up i g s =
     (let (f, s1) = gg_tick s in
      if f then (Inl SurpriseOther, s1) else
      case up i of
        None \<Rightarrow> (Inl SurpriseOther, s1)
      | Some j \<Rightarrow>
          (Inr (), s1\<lparr>gg_requests := map (\<lambda>q. if gq_id q = j then g q else q) (gg_requests s1)\<rparr>))"

definition pg_SetRequestStatus ::
  "(string \<Rightarrow> string option) \<Rightarrow> string \<Rightarrow> gen_status \<Rightarrow> gen_pg \<Rightarrow> (surprise_error + unit) \<times> gen_pg" where
  "pg_SetRequestStatus up i st = update_request up i (\<lambda>q. q\<lparr>gq_status := st\<rparr>)"

definition pg_MarkRefinement ::
  "(string \<Rightarrow> string option) \<Rightarrow> string \<Rightarrow> string \<Rightarrow> gen_pg \<Rightarrow> (surprise_error + unit) \<times> gen_pg" where
  "pg_MarkRefinement up i tx =
     update_request up i (\<lambda>q. q\<lparr>gq_refinement := tx, gq_status := StatusQueued\<rparr>)"

text \<open>
  One INSERT per idea. It is refused on a malformed or taken id, a rank that does not fit the
  column's 32 bits, an embedding of the wrong length, or a request that does not exist.
\<close>

fun insert_ideas ::
  "(string \<Rightarrow> string option) \<Rightarrow> string \<Rightarrow> time \<Rightarrow> gift_idea list \<Rightarrow> gen_pg \<Rightarrow>
   (surprise_error + unit) \<times> gen_pg" where
  "insert_ideas up j t [] s = (Inr (), s)"
| "insert_ideas up j t (x # xs) s =
     (let (u, s1) = (if gi_ID x = [] then gg_uuid s else (gi_ID x, s));
          (f, s2) = gg_tick s1 in
      if f then (Inl SurpriseOther, s2) else
      case up u of
        None \<Rightarrow> (Inl SurpriseOther, s2)
      | Some i \<Rightarrow>
          if find (\<lambda>y. gx_id y = i) (gg_ideas s2) \<noteq> None \<or> \<not> vector_fits (vectorLiteral (gi_Embedding x)) \<or>
            gi_Rank x < - (2 ^ 31) \<or> 2 ^ 31 \<le> gi_Rank x \<or>
            find (\<lambda>q. gq_id q = j) (gg_requests s2) = None
          then (Inl SurpriseOther, s2)
          else insert_ideas up j t xs
            (s2\<lparr>gg_ideas := gg_ideas s2 @
               [\<lparr>gx_id = i, gx_request_id = j, gx_title = gi_Title x, gx_why_it_fits = gi_WhyItFits x,
                 gx_rough_cost = gi_RoughCost x, gx_how_to = gi_HowTo x, gx_rank = gi_Rank x,
                 gx_moderation_status = gi_Moderation x,
                 gx_embedding = vectorLiteral (gi_Embedding x), gx_created_at = t\<rparr>]\<rparr>))"

definition same_gen :: "gen_pg \<Rightarrow> gen_pg \<Rightarrow> bool" where
  "same_gen s s' \<longleftrightarrow>
     gg_requests s' = gg_requests s \<and> gg_ideas s' = gg_ideas s \<and> gg_saved s' = gg_saved s"

definition rollback :: "gen_pg \<Rightarrow> gen_pg \<Rightarrow> gen_pg" where
  "rollback s s' = s'\<lparr>gg_requests := gg_requests s, gg_ideas := gg_ideas s, gg_saved := gg_saved s\<rparr>"

text \<open>
  Begin, the DELETE (which the foreign key of \<open>saved_ideas\<close> cascades to the favourites of the
  deleted ideas), the INSERTs and Commit; \<open>now()\<close> is the transaction's start.
\<close>

definition pg_SaveIdeas ::
  "(string \<Rightarrow> string option) \<Rightarrow> string \<Rightarrow> gift_idea list \<Rightarrow> gen_pg \<Rightarrow> (surprise_error + unit) \<times> gen_pg" where
  "pg_SaveIdeas up requestID xs s =
     (let (f1, s1) = gg_tick s in
      if f1 then (Inl SurpriseOther, s1) else
      let (t, s1) = gg_time s1;
          (f2, s2) = gg_tick s1 in
      if f2 then (Inl SurpriseOther, s2) else
      case up requestID of
        None \<Rightarrow> (Inl SurpriseOther, s2)
      | Some j \<Rightarrow>
          let gone = map gx_id (filter (\<lambda>y. gx_request_id y = j) (gg_ideas s2));
              s3 = s2\<lparr>gg_ideas := filter (\<lambda>y. gx_request_id y \<noteq> j) (gg_ideas s2),
                gg_saved := filter (\<lambda>p. snd p \<notin> set gone) (gg_saved s2)\<rparr>
          in (case insert_ideas up j t xs s3 of
                (Inl e, s4) \<Rightarrow> (Inl e, rollback s s4)
              | (Inr _, s4) \<Rightarrow>
                  let (f3, s5) = gg_tick s4 in
                  if f3 then (Inl SurpriseOther, rollback s s5) else (Inr (), s5)))"

text \<open>The SELECTs leave out the embedding.\<close>

definition row_to_idea :: "idea_row \<Rightarrow> gift_idea" where
  "row_to_idea y =
     \<lparr>gi_ID = gx_id y, gi_RequestID = gx_request_id y, gi_Title = gx_title y,
      gi_WhyItFits = gx_why_it_fits y, gi_RoughCost = gx_rough_cost y, gi_HowTo = gx_how_to y,
      gi_Rank = gx_rank y, gi_Moderation = gx_moderation_status y, gi_Embedding = [],
      gi_CreatedAt = gx_created_at y\<rparr>"

definition rows_of :: "gen_pg \<Rightarrow> string \<Rightarrow> gift_idea list" where
  "rows_of s j = map row_to_idea (sort_key gx_rank (filter (\<lambda>y. gx_request_id y = j) (gg_ideas s)))"

definition pg_GetIdeas ::
  "(string \<Rightarrow> string option) \<Rightarrow> string \<Rightarrow> gen_pg \<Rightarrow> (surprise_error + gift_idea list) \<times> gen_pg" where
  "pg_GetIdeas up requestID s =
     (let (f, s1) = gg_tick s in
      if f then (Inl SurpriseOther, s1) else
      case up requestID of
        None \<Rightarrow> (Inl SurpriseOther, s1)
      | Some j \<Rightarrow> (Inr (rows_of s1 j), s1))"

definition pg_GetIdea ::
  "(string \<Rightarrow> string option) \<Rightarrow> string \<Rightarrow> gen_pg \<Rightarrow> (surprise_error + gift_idea) \<times> gen_pg" where
  "pg_GetIdea up ideaID s =
     (let (f, s1) = gg_tick s in
      if f then (Inl SurpriseOther, s1) else
      case up ideaID of
        None \<Rightarrow> (Inl SurpriseOther, s1)
      | Some i \<Rightarrow>
          (case find (\<lambda>y. gx_id y = i) (gg_ideas s1) of
             None \<Rightarrow> (Inl SurpriseNotFound, s1)
           | Some y \<Rightarrow> (Inr (row_to_idea y), s1)))"

text \<open>ON CONFLICT DO NOTHING; the foreign key refuses an idea that does not exist.\<close>

definition pg_SaveIdeaForUser ::
  "(string \<Rightarrow> string option) \<Rightarrow> string \<Rightarrow> string \<Rightarrow> gen_pg \<Rightarrow> (surprise_error + unit) \<times> gen_pg" where
  "pg_SaveIdeaForUser up usr ideaID s =
     (let (_, s0) = gg_uuid s;
          (f, s1) = gg_tick s0 in
      if f then (Inl SurpriseOther, s1) else
      case up ideaID of
        None \<Rightarrow> (Inl SurpriseOther, s1)
      | Some i \<Rightarrow>
          if (usr, i) \<in> set (gg_saved s1) then (Inr (), s1)
          else if find (\<lambda>y. gx_id y = i) (gg_ideas s1) = None then (Inl SurpriseOther, s1)
          else (Inr (), s1\<lparr>gg_saved := gg_saved s1 @ [(usr, i)]\<rparr>))"

definition pg_gen_repo :: "(string \<Rightarrow> string option) \<Rightarrow> gen_pg gen_repo" where
  "pg_gen_repo up =
     \<lparr>rp_CreateRequest = pg_CreateRequest up, rp_GetRequest = pg_GetRequest up,
      rp_GetRequestByIdempotencyKey = pg_GetRequestByIdempotencyKey,
      rp_SetRequestStatus = pg_SetRequestStatus up, rp_MarkRefinement = pg_MarkRefinement up,
      rp_SaveIdeas = pg_SaveIdeas up, rp_GetIdeas = pg_GetIdeas up, rp_GetIdea = pg_GetIdea up,
      rp_SaveIdeaForUser = pg_SaveIdeaForUser up\<rparr>"

subsection \<open>It keeps the contract\<close>

definition gg_ledger :: "gen_pg \<Rightarrow> gen_ledger" where
  "gg_ledger s =
     \<lparr>ld_requests = (\<lambda>i. map_option row_to_request (find (\<lambda>q. gq_id q = i) (gg_requests s))),
      ld_ideas = rows_of s,
      ld_idea = (\<lambda>i. map_option row_to_idea (find (\<lambda>y. gx_id y = i) (gg_ideas s))),
      ld_saved = set (gg_saved s)\<rparr>"

definition gg_inv :: "(string \<Rightarrow> string option) \<Rightarrow> gen_pg \<Rightarrow> bool" where
  "gg_inv up s \<longleftrightarrow>
     uuid_parse_ok up \<and> (\<forall>q \<in> set (gg_requests s). up (gq_id q) = Some (gq_id q)) \<and>
     distinct (map gq_id (gg_requests s)) \<and> distinct (map gq_idempotency_key (gg_requests s))"

lemma gg_tick_same: "gg_tick s = (f, s') \<Longrightarrow> same_gen s s'"
  by (auto simp: gg_tick_def same_gen_def split: prod.splits)

lemma gg_uuid_same: "gg_uuid s = (u, s') \<Longrightarrow> same_gen s s'"
  by (auto simp: gg_uuid_def same_gen_def split: list.splits)

lemma gg_time_same: "gg_time s = (t, s') \<Longrightarrow> same_gen s s'"
  by (auto simp: gg_time_def same_gen_def split: list.splits)

lemma same_gen_trans: "same_gen s t \<Longrightarrow> same_gen t u \<Longrightarrow> same_gen s u"
  by (simp add: same_gen_def)

lemma same_gen_refl [simp]: "same_gen s s" "same_gen s (rollback s t)"
  by (simp_all add: same_gen_def rollback_def)

lemma same_gen_ledger: "same_gen s s' \<Longrightarrow> gg_ledger s' = gg_ledger s"
  by (simp add: same_gen_def gg_ledger_def rows_of_def fun_eq_iff)

lemma same_gen_inv: "same_gen s s' \<Longrightarrow> gg_inv up s' = gg_inv up s"
  by (simp add: same_gen_def gg_inv_def)

lemmas same_gen_keep = same_gen_ledger same_gen_inv

lemma pg_gen_sel [simp]:
  "rp_CreateRequest (pg_gen_repo up) = pg_CreateRequest up"
  "rp_GetRequest (pg_gen_repo up) = pg_GetRequest up"
  "rp_GetRequestByIdempotencyKey (pg_gen_repo up) = pg_GetRequestByIdempotencyKey"
  "rp_SetRequestStatus (pg_gen_repo up) = pg_SetRequestStatus up"
  "rp_MarkRefinement (pg_gen_repo up) = pg_MarkRefinement up"
  "rp_SaveIdeas (pg_gen_repo up) = pg_SaveIdeas up"
  "rp_GetIdeas (pg_gen_repo up) = pg_GetIdeas up" "rp_GetIdea (pg_gen_repo up) = pg_GetIdea up"
  "rp_SaveIdeaForUser (pg_gen_repo up) = pg_SaveIdeaForUser up"
  by (simp_all add: pg_gen_repo_def)

lemma row_to_request_sel [simp]:
  "gr_ID (row_to_request q) = gq_id q" "gr_IdempotencyKey (row_to_request q) = gq_idempotency_key q"
  by (simp_all add: row_to_request_def)

lemma gg_has_key: "has_key (gg_ledger s) k \<Longrightarrow> \<exists>q \<in> set (gg_requests s). gq_idempotency_key q = k"
  by (auto simp: has_key_def gg_ledger_def dest!: find_SomeD)

lemma gg_create_shape:
  assumes "pg_CreateRequest up r s = (c, s')"
  shows "(\<exists>e. c = Inl e) \<and> same_gen s s' \<or>
    (\<exists>i q t. c = Inr () \<and> up (gr_ID r) = Some i \<and> gq_id q = i \<and>
       row_to_request q = r\<lparr>gr_ID := i, gr_CreatedAt := t\<rparr> \<and>
       find (\<lambda>q. gq_id q = i \<or> gq_idempotency_key q = gr_IdempotencyKey r) (gg_requests s) = None \<and>
       gg_requests s' = gg_requests s @ [q] \<and> gg_ideas s' = gg_ideas s \<and> gg_saved s' = gg_saved s)"
proof -
  obtain f s1 where 1: "gg_tick s = (f, s1)" by fastforce
  obtain t s2 where 2: "gg_time s1 = (t, s2)" by fastforce
  have s1: "same_gen s s1" and s2: "same_gen s s2"
    using gg_tick_same [OF 1] gg_time_same [OF 2] same_gen_trans by blast+
  show ?thesis
  proof (cases "f \<or> up (gr_ID r) = None \<or>
      find (\<lambda>q. gq_id q = the (up (gr_ID r)) \<or> gq_idempotency_key q = gr_IdempotencyKey r) (gg_requests s1) \<noteq> None")
    case True
    then have "(\<exists>e. c = Inl e) \<and> s' = s1"
      using assms by (auto simp: pg_CreateRequest_def 1 2 Let_def split: option.splits if_splits)
    with s1 show ?thesis by blast
  next
    case False
    then obtain i where i: "up (gr_ID r) = Some i" by auto
    define q where "q = \<lparr>gq_id = i, gq_user_id = gr_UserID r, gq_holiday_id = gr_HolidayID r,
        gq_budget_band = gr_BudgetBand r, gq_preferences_text = gr_PreferencesText r,
        gq_poll_id = nullIfEmpty (gr_PollID r), gq_idempotency_key = gr_IdempotencyKey r,
        gq_status = gr_Status r, gq_model_tier = gr_Tier r, gq_refinement = gr_Refinement r,
        gq_created_at = t\<rparr>"
    have "row_to_request q = r\<lparr>gr_ID := i, gr_CreatedAt := t\<rparr>"
      by (cases r) (simp add: q_def row_to_request_def nullIfEmpty_def)
    moreover have "c = Inr () \<and> s' = s2\<lparr>gg_requests := gg_requests s2 @ [q]\<rparr>"
      using assms False i by (simp add: pg_CreateRequest_def 1 2 Let_def q_def)
    moreover have "find (\<lambda>q. gq_id q = i \<or> gq_idempotency_key q = gr_IdempotencyKey r) (gg_requests s) = None"
      using False i s1 by (simp add: same_gen_def)
    ultimately show ?thesis using i s2 by (intro disjI2 exI [of _ i] exI [of _ q] exI [of _ t])
        (simp add: same_gen_def q_def)
  qed
qed

lemma gg_update_shape:
  assumes "update_request up j g s = (c, s')"
  shows "(\<exists>e. c = Inl e) \<and> same_gen s s' \<or>
    (\<exists>i. c = Inr () \<and> up j = Some i \<and>
       gg_requests s' = map (\<lambda>q. if gq_id q = i then g q else q) (gg_requests s) \<and>
       gg_ideas s' = gg_ideas s \<and> gg_saved s' = gg_saved s)"
proof -
  obtain f s1 where 1: "gg_tick s = (f, s1)" by fastforce
  show ?thesis using assms gg_tick_same [OF 1]
    by (cases f; cases "up j") (auto simp: update_request_def 1 same_gen_def)
qed

lemma insert_ideas_ok:
  "insert_ideas up j t xs s = (Inr u, s') \<Longrightarrow>
   gg_requests s' = gg_requests s \<and> gg_saved s' = gg_saved s \<and>
   (\<exists>ys. gg_ideas s' = gg_ideas s @ ys \<and> (\<forall>y \<in> set ys. gx_request_id y = j) \<and>
     map (\<lambda>y. idea_core (row_to_idea y)) ys = map (\<lambda>x. idea_core (x\<lparr>gi_RequestID := j\<rparr>)) xs)"
proof (induction xs arbitrary: s)
  case Nil
  then show ?case by simp
next
  case (Cons x xs)
  obtain i s1 where 1: "(if gi_ID x = [] then gg_uuid s else (gi_ID x, s)) = (i, s1)" by fastforce
  obtain f s2 where 2: "gg_tick s1 = (f, s2)" by fastforce
  have "same_gen s s1" using 1 gg_uuid_same by (cases "gi_ID x = []") auto
  then have s2: "same_gen s s2" using gg_tick_same [OF 2] same_gen_trans by blast
  from Cons.prems obtain k where k: "up i = Some k"
    unfolding insert_ideas.simps 1 2 Let_def prod.case by (auto split: option.splits if_splits)
  let ?y = "\<lparr>gx_id = k, gx_request_id = j, gx_title = gi_Title x, gx_why_it_fits = gi_WhyItFits x,
     gx_rough_cost = gi_RoughCost x, gx_how_to = gi_HowTo x, gx_rank = gi_Rank x,
     gx_moderation_status = gi_Moderation x,
     gx_embedding = vectorLiteral (gi_Embedding x), gx_created_at = t\<rparr>"
  have "insert_ideas up j t xs (s2\<lparr>gg_ideas := gg_ideas s2 @ [?y]\<rparr>) = (Inr u, s')"
    using Cons.prems k unfolding insert_ideas.simps 1 2 Let_def prod.case by (auto split: if_splits)
  from Cons.IH [OF this] obtain ys where
    "gg_requests s' = gg_requests s2" "gg_saved s' = gg_saved s2"
    "gg_ideas s' = (gg_ideas s2 @ [?y]) @ ys" "\<forall>y \<in> set ys. gx_request_id y = j"
    "map (\<lambda>y. idea_core (row_to_idea y)) ys = map (\<lambda>x. idea_core (x\<lparr>gi_RequestID := j\<rparr>)) xs"
    by auto
  moreover have "idea_core (row_to_idea ?y) = idea_core (x\<lparr>gi_RequestID := j\<rparr>)"
    by (simp add: idea_core_def row_to_idea_def)
  ultimately show ?case using s2
    by (intro conjI exI [of _ "?y # ys"]) (simp_all add: same_gen_def)
qed

text \<open>The ideas of a request, and the favourites kept, after \<open>SaveIdeas\<close>.\<close>

lemma gg_save_shape:
  assumes "pg_SaveIdeas up j xs s = (c, s')"
  shows "(\<exists>e. c = Inl e) \<and> same_gen s s' \<or>
    (\<exists>i ys. c = Inr () \<and> up j = Some i \<and> gg_requests s' = gg_requests s \<and>
       gg_ideas s' = filter (\<lambda>y. gx_request_id y \<noteq> i) (gg_ideas s) @ ys \<and>
       (\<forall>y \<in> set ys. gx_request_id y = i) \<and>
       map (\<lambda>y. idea_core (row_to_idea y)) ys = map (\<lambda>x. idea_core (x\<lparr>gi_RequestID := i\<rparr>)) xs \<and>
       gg_saved s' = filter (\<lambda>p. snd p \<notin> gx_id ` {y \<in> set (gg_ideas s). gx_request_id y = i})
         (gg_saved s))"
proof -
  obtain f1 s0 where 1: "gg_tick s = (f1, s0)" by fastforce
  obtain t s1 where 2: "gg_time s0 = (t, s1)" by fastforce
  obtain f2 s2 where 3: "gg_tick s1 = (f2, s2)" by fastforce
  have e: "same_gen s s0" "same_gen s s2"
    using gg_tick_same [OF 1] gg_time_same [OF 2] gg_tick_same [OF 3] same_gen_trans by blast+
  show ?thesis
  proof (cases "f1 \<or> f2 \<or> up j = None")
    case True
    with assms e show ?thesis
      by (cases f1; cases f2; cases "up j") (auto simp: pg_SaveIdeas_def 1 2 3 Let_def)
  next
    case False
    then obtain i where i: "up j = Some i" by auto
    define s3 where "s3 = s2\<lparr>gg_ideas := filter (\<lambda>y. gx_request_id y \<noteq> i) (gg_ideas s2),
        gg_saved := filter (\<lambda>p. snd p \<notin> set (map gx_id (filter (\<lambda>y. gx_request_id y = i) (gg_ideas s2))))
          (gg_saved s2)\<rparr>"
    obtain d s4 where 4: "insert_ideas up i t xs s3 = (d, s4)" by fastforce
    obtain f5 s5 where 5: "gg_tick s4 = (f5, s5)" by fastforce
    have "pg_SaveIdeas up j xs s = (case insert_ideas up i t xs s3 of
          (Inl e, s4) \<Rightarrow> (Inl e, rollback s s4)
        | (Inr _, s4) \<Rightarrow> let (f3, s5) = gg_tick s4 in
            if f3 then (Inl SurpriseOther, rollback s s5) else (Inr (), s5))"
      using False i by (simp add: pg_SaveIdeas_def 1 2 3 Let_def s3_def)
    then have body: "(case d of Inl e \<Rightarrow> (Inl e, rollback s s4)
        | Inr x \<Rightarrow> if f5 then (Inl SurpriseOther, rollback s s5) else (Inr (), s5)) = (c, s')"
      using assms by (cases d; cases f5) (simp_all add: 4 5)
    show ?thesis
    proof (cases d)
      case (Inl a)
      with body show ?thesis by auto
    next
      case (Inr b)
      show ?thesis
      proof (cases f5)
        case True
        with body Inr show ?thesis by auto
      next
        case False
        from insert_ideas_ok [OF 4 [unfolded Inr]] gg_tick_same [OF 5] body i e Inr False show ?thesis
          by (auto simp: same_gen_def s3_def)
      qed
    qed
  qed
qed

lemma rows_of_append:
  assumes "\<forall>y \<in> set ys. gx_request_id y = i"
    and "gg_ideas s' = filter (\<lambda>y. gx_request_id y \<noteq> i) (gg_ideas s) @ ys"
  shows "rows_of s' i = map row_to_idea (sort_key gx_rank ys)"
    and "i' \<noteq> i \<Longrightarrow> rows_of s' i' = rows_of s i'"
proof -
  have 1: "filter (\<lambda>y. gx_request_id y = i) (gg_ideas s') = ys"
    using assms by (simp add: filter_empty_conv)
  show "rows_of s' i = map row_to_idea (sort_key gx_rank ys)" by (simp add: rows_of_def 1)
  have "filter (\<lambda>y. gx_request_id y = i' \<and> gx_request_id y \<noteq> i) xs = filter (\<lambda>y. gx_request_id y = i') xs"
    if "i' \<noteq> i" for xs :: "idea_row list"
    using that by (intro filter_cong) auto
  moreover have "filter (\<lambda>y. gx_request_id y = i') ys = []" if "i' \<noteq> i"
    using that assms(1) by (auto simp: filter_empty_conv)
  ultimately show "i' \<noteq> i \<Longrightarrow> rows_of s' i' = rows_of s i'"
    using assms(2) by (simp add: rows_of_def conj_commute)
qed

lemma gi_Rank_core [simp]: "gi_Rank (idea_core x) = gi_Rank x"
  by (simp add: idea_core_def)

lemma rows_of_core:
  assumes "\<forall>x \<in> set xs. gi_RequestID x = i"
    and "map (\<lambda>y. idea_core (row_to_idea y)) ys = map (\<lambda>x. idea_core (x\<lparr>gi_RequestID := i\<rparr>)) xs"
  shows "map idea_core (map row_to_idea (sort_key gx_rank ys)) = map idea_core (sort_key gi_Rank xs)"
proof -
  let ?h = "\<lambda>y. idea_core (row_to_idea y)"
  have r: "(\<lambda>y. gi_Rank (?h y)) = gx_rank" by (simp add: row_to_idea_def fun_eq_iff)
  have "map idea_core (map row_to_idea (sort_key gx_rank ys)) = map ?h (sort_key (\<lambda>y. gi_Rank (?h y)) ys)"
    unfolding r by simp
  also have "\<dots> = sort_key gi_Rank (map ?h ys)" by (rule map_sort_key)
  also have "map ?h ys = map idea_core xs"
    unfolding assms(2) using assms(1) by (intro map_cong) auto
  also have "sort_key gi_Rank (map idea_core xs) = map idea_core (sort_key (\<lambda>x. gi_Rank (idea_core x)) xs)"
    by (rule map_sort_key [symmetric])
  also have "\<dots> = map idea_core (sort_key gi_Rank xs)" by simp
  finally show ?thesis .
qed

lemma gg_reads_same:
  "pg_GetRequest up i s = (g1, s1) \<Longrightarrow> same_gen s s1"
  "pg_GetRequestByIdempotencyKey k s = (g2, s2) \<Longrightarrow> same_gen s s2"
  "pg_GetIdeas up j s = (g3, s3) \<Longrightarrow> same_gen s s3"
  "pg_GetIdea up x s = (g4, s4) \<Longrightarrow> same_gen s s4"
  by (auto simp: pg_GetRequest_def pg_GetRequestByIdempotencyKey_def scanRequest_def pg_GetIdeas_def
      pg_GetIdea_def Let_def split: prod.splits if_splits option.splits intro: gg_tick_same)

lemma gg_request_row:
  "gg_inv up s \<Longrightarrow> q \<in> set (gg_requests s) \<Longrightarrow> ld_requests (gg_ledger s) (gq_id q) = Some (row_to_request q)"
  by (simp add: gg_inv_def gg_ledger_def find_unique)

lemma gg_row_request:
  "ld_requests (gg_ledger s) i = Some r \<Longrightarrow> \<exists>q \<in> set (gg_requests s). gq_id q = i \<and> r = row_to_request q"
  by (auto simp: gg_ledger_def dest!: find_SomeD)

lemma gg_one_key:
  assumes "gg_inv up s" and "q \<in> set (gg_requests s)" and "q' \<in> set (gg_requests s)"
    and "gq_idempotency_key q = gq_idempotency_key q'"
  shows "q = q'"
  using assms by (auto simp: gg_inv_def distinct_map inj_on_def)

lemma gg_create_inv:
  assumes "gg_inv up s" and "pg_CreateRequest up r s = (c, s')"
  shows "gg_inv up s'"
proof (cases "same_gen s s'")
  case True
  with assms show ?thesis by (simp add: same_gen_inv)
next
  case False
  with gg_create_shape [OF assms(2)] obtain i q t where q: "up (gr_ID r) = Some i" "gq_id q = i"
    "row_to_request q = r\<lparr>gr_ID := i, gr_CreatedAt := t\<rparr>" "gg_requests s' = gg_requests s @ [q]"
    and n: "find (\<lambda>q. gq_id q = i \<or> gq_idempotency_key q = gr_IdempotencyKey r) (gg_requests s) = None"
    by blast
  have "gq_idempotency_key q = gr_IdempotencyKey r"
    using row_to_request_sel(2) [of q] q(3) by simp
  moreover have "\<forall>p \<in> set (gg_requests s). gq_id p \<noteq> i \<and> gq_idempotency_key p \<noteq> gr_IdempotencyKey r"
    using find_NoneD [OF n] by blast
  moreover have "up i = Some i" using assms(1) q(1) by (simp add: gg_inv_def uuid_parse_ok_def)
  ultimately show ?thesis using assms(1) q(2, 4) by (auto simp: gg_inv_def)
qed

lemma gg_create_ledger:
  assumes "gg_inv up s" and "pg_CreateRequest up r s = (Inr u, s')"
  shows "\<exists>i t. up (gr_ID r) = Some i \<and> \<not> has_key (gg_ledger s) (gr_IdempotencyKey r) \<and>
      gg_ledger s' = (gg_ledger s)\<lparr>ld_requests :=
        (ld_requests (gg_ledger s))(i \<mapsto> r\<lparr>gr_ID := i, gr_CreatedAt := t\<rparr>)\<rparr>"
proof -
  from gg_create_shape [OF assms(2)] obtain i q t where q: "up (gr_ID r) = Some i" "gq_id q = i"
    "row_to_request q = r\<lparr>gr_ID := i, gr_CreatedAt := t\<rparr>" "gg_requests s' = gg_requests s @ [q]"
    "gg_ideas s' = gg_ideas s" "gg_saved s' = gg_saved s"
    and n: "find (\<lambda>q. gq_id q = i \<or> gq_idempotency_key q = gr_IdempotencyKey r) (gg_requests s) = None"
    by blast
  have no: "\<forall>p \<in> set (gg_requests s). gq_id p \<noteq> i \<and> gq_idempotency_key p \<noteq> gr_IdempotencyKey r"
    using find_NoneD [OF n] by blast
  then have "\<not> has_key (gg_ledger s) (gr_IdempotencyKey r)" using gg_has_key by blast
  moreover have "find (\<lambda>q. gq_id q = i) (gg_requests s) = None"
    using no by (auto simp: find_None_iff)
  then have "ld_requests (gg_ledger s') = (ld_requests (gg_ledger s))(i \<mapsto> r\<lparr>gr_ID := i, gr_CreatedAt := t\<rparr>)"
    using q(2-4) by (auto simp: gg_ledger_def find_append fun_eq_iff split: option.splits)
  ultimately show ?thesis using q
    by (intro exI [of _ i] exI [of _ t]) (simp add: gg_ledger_def rows_of_def fun_eq_iff)
qed

lemma gg_update_ledger:
  assumes "update_request up j g s = (Inr u, s')" and "\<And>q. gq_id (g q) = gq_id q"
    and "\<And>q. row_to_request (g q) = h (row_to_request q)"
  shows "\<exists>i. up j = Some i \<and> gg_ledger s' = (gg_ledger s)\<lparr>ld_requests :=
    (ld_requests (gg_ledger s))(i := map_option h (ld_requests (gg_ledger s) i))\<rparr>"
proof -
  from gg_update_shape [OF assms(1)] obtain i where i: "up j = Some i"
    "gg_requests s' = map (\<lambda>q. if gq_id q = i then g q else q) (gg_requests s)"
    "gg_ideas s' = gg_ideas s" "gg_saved s' = gg_saved s"
    by auto
  have "find (\<lambda>q. gq_id q = k) (gg_requests s') =
      map_option (\<lambda>q. if gq_id q = i then g q else q) (find (\<lambda>q. gq_id q = k) (gg_requests s))" for k
    unfolding i(2) by (rule find_map_update) (simp add: assms(2))
  then have "ld_requests (gg_ledger s') k =
      ((ld_requests (gg_ledger s))(i := map_option h (ld_requests (gg_ledger s) i))) k" for k
    using assms(3) by (cases "find (\<lambda>q. gq_id q = k) (gg_requests s)")
      (auto simp: gg_ledger_def dest: find_SomeD)
  then have "ld_requests (gg_ledger s') =
      (ld_requests (gg_ledger s))(i := map_option h (ld_requests (gg_ledger s) i))"
    by (rule ext)
  with i show ?thesis
    by (intro exI [of _ i]) (simp add: gg_ledger_def rows_of_def fun_eq_iff)
qed

lemma gg_update_inv:
  assumes "gg_inv up s" and "update_request up j g s = (c, s')"
    and "\<And>q. gq_id (g q) = gq_id q \<and> gq_idempotency_key (g q) = gq_idempotency_key q"
  shows "gg_inv up s'"
proof (cases "same_gen s s'")
  case True
  with assms show ?thesis by (simp add: same_gen_inv)
next
  case False
  with gg_update_shape [OF assms(2)] obtain i where
    i: "gg_requests s' = map (\<lambda>q. if gq_id q = i then g q else q) (gg_requests s)"
    by auto
  have "map gq_id (gg_requests s') = map gq_id (gg_requests s)"
    "map gq_idempotency_key (gg_requests s') = map gq_idempotency_key (gg_requests s)"
    unfolding i using assms(3) by (simp_all add: comp_def)
  moreover have "\<forall>q \<in> set (gg_requests s'). up (gq_id q) = Some (gq_id q)"
    using assms(1, 3) unfolding i gg_inv_def by auto
  ultimately show ?thesis using assms(1) by (simp add: gg_inv_def)
qed

lemma gg_save_ledger:
  assumes "pg_SaveIdeas up j xs s = (Inr u, s')"
  shows "ld_requests (gg_ledger s') = ld_requests (gg_ledger s) \<and>
      ld_saved (gg_ledger s') \<subseteq> ld_saved (gg_ledger s) \<and>
      (\<exists>i. up j = Some i \<and> (\<forall>i'. i' \<noteq> i \<longrightarrow> ld_ideas (gg_ledger s') i' = ld_ideas (gg_ledger s) i') \<and>
        ((\<forall>x \<in> set xs. gi_RequestID x = i) \<longrightarrow>
          map idea_core (ld_ideas (gg_ledger s') i) = map idea_core (sort_key gi_Rank xs)))"
proof -
  from gg_save_shape [OF assms] obtain i ys where i: "up j = Some i" "gg_requests s' = gg_requests s"
    and a: "gg_ideas s' = filter (\<lambda>y. gx_request_id y \<noteq> i) (gg_ideas s) @ ys"
    and y: "\<forall>y \<in> set ys. gx_request_id y = i"
    and c: "map (\<lambda>y. idea_core (row_to_idea y)) ys = map (\<lambda>x. idea_core (x\<lparr>gi_RequestID := i\<rparr>)) xs"
    and f: "set (gg_saved s') \<subseteq> set (gg_saved s)"
    by auto
  have "map idea_core (rows_of s' i) = map idea_core (sort_key gi_Rank xs)"
    if "\<forall>x \<in> set xs. gi_RequestID x = i"
    unfolding rows_of_append(1) [OF y a] by (rule rows_of_core [OF that c])
  with i f rows_of_append(2) [OF y a] show ?thesis
    by (simp add: gg_ledger_def)
qed

lemma gg_get_ok:
  assumes "pg_GetRequest up j s = (Inr r, s')"
  shows "up j = Some (gr_ID r) \<and> ld_requests (gg_ledger s) (gr_ID r) = Some r"
proof -
  obtain f s1 where 1: "gg_tick s = (f, s1)" by fastforce
  from assms obtain i q where i: "up j = Some i" and q: "find (\<lambda>q. gq_id q = i) (gg_requests s1) = Some q"
    and "r = row_to_request q"
    by (cases f; cases "up j") (auto simp: pg_GetRequest_def scanRequest_def 1 split: option.splits)
  with find_SomeD [OF q] gg_tick_same [OF 1] show ?thesis
    by (auto simp: gg_ledger_def same_gen_def)
qed

lemma gg_key_result:
  assumes "gg_inv up s" and "pg_GetRequestByIdempotencyKey k s = (g, s')"
  shows "g = Inr r \<Longrightarrow> ld_requests (gg_ledger s) (gr_ID r) = Some r \<and> gr_IdempotencyKey r = k"
    and "g = Inl SurpriseNotFound \<Longrightarrow> \<not> has_key (gg_ledger s) k"
proof -
  obtain f s1 where 1: "gg_tick s = (f, s1)" by fastforce
  note r = assms(2) [unfolded pg_GetRequestByIdempotencyKey_def scanRequest_def 1 Let_def prod.case]
  show "ld_requests (gg_ledger s) (gr_ID r) = Some r \<and> gr_IdempotencyKey r = k" if "g = Inr r"
  proof -
    from that r obtain q where "find (\<lambda>q. gq_idempotency_key q = k) (gg_requests s1) = Some q"
      "r = row_to_request q"
      by (cases f) (auto split: option.splits)
    with find_SomeD gg_tick_same [OF 1] gg_request_row [OF assms(1)] show ?thesis
      by (fastforce simp: same_gen_def)
  qed
  show "\<not> has_key (gg_ledger s) k" if "g = Inl SurpriseNotFound"
  proof -
    from that r have "find (\<lambda>q. gq_idempotency_key q = k) (gg_requests s1) = None"
      by (cases f) (auto split: option.splits)
    with find_NoneD gg_tick_same [OF 1] gg_has_key show ?thesis
      by (fastforce simp: same_gen_def)
  qed
qed

lemma gg_list_ok:
  assumes "pg_GetIdeas up j s = (Inr xs, s')"
  shows "\<exists>i. up j = Some i \<and> xs = ld_ideas (gg_ledger s) i"
proof -
  obtain f s1 where 1: "gg_tick s = (f, s1)" by fastforce
  from assms gg_tick_same [OF 1] show ?thesis
    by (cases f; cases "up j") (auto simp: pg_GetIdeas_def 1 gg_ledger_def same_gen_def rows_of_def)
qed

lemma gg_idea_ok:
  assumes "pg_GetIdea up x s = (Inr y, s')"
  shows "\<exists>i. up x = Some i \<and> ld_idea (gg_ledger s) i = Some y"
proof -
  obtain f s1 where 1: "gg_tick s = (f, s1)" by fastforce
  from assms gg_tick_same [OF 1] show ?thesis
    by (cases f; cases "up x")
      (auto simp: pg_GetIdea_def 1 gg_ledger_def same_gen_def split: option.splits)
qed

lemma gg_favourite:
  assumes "pg_SaveIdeaForUser up usr x s = (c, s')"
  shows "(\<exists>e. c = Inl e) \<and> same_gen s s' \<or>
    (\<exists>i. c = Inr () \<and> up x = Some i \<and> gg_requests s' = gg_requests s \<and> gg_ideas s' = gg_ideas s \<and>
       set (gg_saved s') = insert (usr, i) (set (gg_saved s)))"
proof -
  obtain v s0 where 0: "gg_uuid s = (v, s0)" by fastforce
  obtain f s1 where 1: "gg_tick s0 = (f, s1)" by fastforce
  have e: "same_gen s s1" using gg_uuid_same [OF 0] gg_tick_same [OF 1] same_gen_trans by blast
  show ?thesis
  proof (cases "f \<or> up x = None")
    case True
    with assms e show ?thesis by (cases f) (auto simp: pg_SaveIdeaForUser_def 0 1 Let_def)
  next
    case False
    then obtain i where "up x = Some i" by auto
    with assms e False show ?thesis
      by (cases "(usr, i) \<in> set (gg_saved s1)"; cases "find (\<lambda>y. gx_id y = i) (gg_ideas s1)")
        (auto simp: pg_SaveIdeaForUser_def 0 1 Let_def same_gen_def)
  qed
qed

text \<open>A store whose schedule holds no failure.\<close>

definition gg_healthy :: "gen_pg \<Rightarrow> bool" where
  "gg_healthy s \<longleftrightarrow> True \<notin> set (gg_faults s)"

lemma gg_healthy_tick: "gg_healthy s \<Longrightarrow> gg_tick s = (f, s') \<Longrightarrow> \<not> f \<and> gg_healthy s' \<and> same_gen s s'"
  by (cases "gg_faults s") (auto simp: gg_healthy_def gg_tick_def same_gen_def)

lemma gg_healthy_key:
  assumes "gg_healthy s" and "has_key (gg_ledger s) k"
  shows "\<exists>r s'. pg_GetRequestByIdempotencyKey k s = (Inr r, s')"
proof -
  obtain f s1 where 1: "gg_tick s = (f, s1)" by fastforce
  note t = gg_healthy_tick [OF assms(1) 1]
  obtain q where "q \<in> set (gg_requests s)" "gq_idempotency_key q = k"
    using gg_has_key [OF assms(2)] by blast
  then have "find (\<lambda>q. gq_idempotency_key q = k) (gg_requests s1) \<noteq> None"
    using t by (auto simp: same_gen_def find_None_iff simp del: not_None_eq)
  with t show ?thesis
    by (auto simp: pg_GetRequestByIdempotencyKey_def scanRequest_def 1)
qed

lemma gg_healthy_dup:
  assumes "gg_healthy s" and "has_key (gg_ledger s) (gr_IdempotencyKey r)" and "up (gr_ID r) \<noteq> None"
    and "pg_CreateRequest up r s = (c, s')"
  shows "c = Inl SurpriseDuplicate \<and> gg_healthy s'"
proof -
  obtain f s1 where 1: "gg_tick s = (f, s1)" by fastforce
  note t = gg_healthy_tick [OF assms(1) 1]
  obtain i where i: "up (gr_ID r) = Some i" using assms(3) by blast
  obtain q where "q \<in> set (gg_requests s)" "gq_idempotency_key q = gr_IdempotencyKey r"
    using gg_has_key [OF assms(2)] by blast
  then have "find (\<lambda>q. gq_id q = i \<or> gq_idempotency_key q = gr_IdempotencyKey r) (gg_requests s1) \<noteq> None"
    using t by (auto simp: same_gen_def find_None_iff simp del: not_None_eq)
  with t assms(4) show ?thesis by (simp add: pg_CreateRequest_def 1 i)
qed

lemma gg_healthy_get:
  assumes "gg_healthy s" and "pg_GetRequest up i s = (g, s')"
  shows "gg_healthy s'"
proof -
  obtain f s1 where 1: "gg_tick s = (f, s1)" by fastforce
  from gg_healthy_tick [OF assms(1) 1] assms(2) show ?thesis
    by (cases "up i") (auto simp: pg_GetRequest_def scanRequest_def 1 split: option.splits)
qed

lemma gg_favourite_ledger:
  assumes "pg_SaveIdeaForUser up usr x s = (Inr u, s')"
  shows "\<exists>i. up x = Some i \<and>
    gg_ledger s' = (gg_ledger s)\<lparr>ld_saved := insert (usr, i) (ld_saved (gg_ledger s))\<rparr>"
  using gg_favourite [OF assms] by (auto simp: gg_ledger_def rows_of_def fun_eq_iff)

lemma gg_same_inv:
  "gg_inv up s \<Longrightarrow> gg_requests s' = gg_requests s \<Longrightarrow> gg_inv up s'"
  by (simp add: gg_inv_def)

lemma gg_err_same:
  "pg_CreateRequest up r s = (Inl e, s1) \<Longrightarrow> same_gen s s1"
  "update_request up j g s = (Inl e, s2) \<Longrightarrow> same_gen s s2"
  "pg_SaveIdeas up j xs s = (Inl e, s3) \<Longrightarrow> same_gen s s3"
  "pg_SaveIdeaForUser up usr x s = (Inl e, s4) \<Longrightarrow> same_gen s s4"
  using gg_create_shape [of up r s "Inl e" s1] gg_update_shape [of up j g s "Inl e" s2]
    gg_save_shape [of up j xs s "Inl e" s3] gg_favourite [of up usr x s "Inl e" s4]
  by simp_all

interpretation pg_gen: surprise_repo "pg_gen_repo up" gg_ledger "gg_inv up" up gg_healthy
proof (unfold_locales, unfold pg_gen_sel)
  fix s r u s' assume "gg_inv up s" and "pg_CreateRequest up r s = (Inr u, s')"
  then show "\<exists>i t. up (gr_ID r) = Some i \<and> \<not> has_key (gg_ledger s) (gr_IdempotencyKey r) \<and>
      gg_ledger s' = (gg_ledger s)\<lparr>ld_requests :=
        (ld_requests (gg_ledger s))(i \<mapsto> r\<lparr>gr_ID := i, gr_CreatedAt := t\<rparr>)\<rparr>"
    by (rule gg_create_ledger)
next
  fix s r e s' assume "pg_CreateRequest up r s = (Inl e, s')"
  then show "gg_ledger s' = gg_ledger s" using gg_err_same(1) same_gen_ledger by blast
next
  fix s r c s' assume "gg_inv up s" and "pg_CreateRequest up r s = (c, s')"
  then show "gg_inv up s'" by (rule gg_create_inv)
next
  fix s r c s' assume "gg_healthy s" and "has_key (gg_ledger s) (gr_IdempotencyKey r)"
    and "up (gr_ID r) \<noteq> None" and "pg_CreateRequest up r s = (c, s')"
  then show "c = Inl SurpriseDuplicate \<and> gg_healthy s'" by (rule gg_healthy_dup)
next
  fix s i g s' assume "gg_healthy s" and "pg_GetRequest up i s = (g, s')"
  then show "gg_healthy s'" by (rule gg_healthy_get)
next
  fix s k assume "gg_healthy s" and "has_key (gg_ledger s) k"
  then show "\<exists>r s'. pg_GetRequestByIdempotencyKey k s = (Inr r, s')" by (rule gg_healthy_key)
next
  fix s i g s' assume "gg_inv up s" and "pg_GetRequest up i s = (g, s')"
  then show "gg_ledger s' = gg_ledger s \<and> gg_inv up s'"
    using gg_reads_same(1) same_gen_ledger same_gen_inv by blast
next
  fix s i r s' assume "pg_GetRequest up i s = (Inr r, s')"
  then show "up i = Some (gr_ID r) \<and> ld_requests (gg_ledger s) (gr_ID r) = Some r"
    by (rule gg_get_ok)
next
  fix s k g s' assume "gg_inv up s" and "pg_GetRequestByIdempotencyKey k s = (g, s')"
  then show "gg_ledger s' = gg_ledger s \<and> gg_inv up s'"
    using gg_reads_same(2) same_gen_ledger same_gen_inv by blast
next
  fix s k r s' assume "gg_inv up s" and "pg_GetRequestByIdempotencyKey k s = (Inr r, s')"
  then show "ld_requests (gg_ledger s) (gr_ID r) = Some r \<and> gr_IdempotencyKey r = k"
    using gg_key_result(1) by blast
next
  fix s k s' assume "gg_inv up s" and "pg_GetRequestByIdempotencyKey k s = (Inl SurpriseNotFound, s')"
  then show "\<not> has_key (gg_ledger s) k" using gg_key_result(2) by blast
next
  fix s j st u s' assume "pg_SetRequestStatus up j st s = (Inr u, s')"
  then show "\<exists>i. up j = Some i \<and> gg_ledger s' = (gg_ledger s)\<lparr>ld_requests := (ld_requests (gg_ledger s))
      (i := map_option (\<lambda>r. r\<lparr>gr_Status := st\<rparr>) (ld_requests (gg_ledger s) i))\<rparr>"
    unfolding pg_SetRequestStatus_def by (rule gg_update_ledger) (simp_all add: row_to_request_def)
next
  fix s j st e s' assume "pg_SetRequestStatus up j st s = (Inl e, s')"
  then show "gg_ledger s' = gg_ledger s"
    unfolding pg_SetRequestStatus_def by (rule same_gen_ledger [OF gg_err_same(2)])
next
  fix s j st c s' assume "gg_inv up s" and "pg_SetRequestStatus up j st s = (c, s')"
  then show "gg_inv up s'" unfolding pg_SetRequestStatus_def by (rule gg_update_inv) simp
next
  fix s j tx u s' assume "pg_MarkRefinement up j tx s = (Inr u, s')"
  then show "\<exists>i. up j = Some i \<and> gg_ledger s' = (gg_ledger s)\<lparr>ld_requests := (ld_requests (gg_ledger s))
      (i := map_option (\<lambda>r. r\<lparr>gr_Refinement := tx, gr_Status := StatusQueued\<rparr>)
        (ld_requests (gg_ledger s) i))\<rparr>"
    unfolding pg_MarkRefinement_def by (rule gg_update_ledger) (simp_all add: row_to_request_def)
next
  fix s j tx e s' assume "pg_MarkRefinement up j tx s = (Inl e, s')"
  then show "gg_ledger s' = gg_ledger s"
    unfolding pg_MarkRefinement_def by (rule same_gen_ledger [OF gg_err_same(2)])
next
  fix s j tx c s' assume "gg_inv up s" and "pg_MarkRefinement up j tx s = (c, s')"
  then show "gg_inv up s'" unfolding pg_MarkRefinement_def by (rule gg_update_inv) simp
next
  fix s j xs u s' assume "pg_SaveIdeas up j xs s = (Inr u, s')"
  then show "ld_requests (gg_ledger s') = ld_requests (gg_ledger s) \<and>
      ld_saved (gg_ledger s') \<subseteq> ld_saved (gg_ledger s) \<and>
      (\<exists>i. up j = Some i \<and> (\<forall>i'. i' \<noteq> i \<longrightarrow> ld_ideas (gg_ledger s') i' = ld_ideas (gg_ledger s) i') \<and>
        ((\<forall>x \<in> set xs. gi_RequestID x = i) \<longrightarrow>
          map idea_core (ld_ideas (gg_ledger s') i) = map idea_core (sort_key gi_Rank xs)))"
    by (rule gg_save_ledger)
next
  fix s j xs e s' assume "pg_SaveIdeas up j xs s = (Inl e, s')"
  then show "gg_ledger s' = gg_ledger s" by (rule same_gen_ledger [OF gg_err_same(3)])
next
  fix s j xs c s' assume "gg_inv up s" and "pg_SaveIdeas up j xs s = (c, s')"
  then show "gg_inv up s'" using gg_save_shape gg_same_inv same_gen_inv by metis
next
  fix s j l s' assume "gg_inv up s" and "pg_GetIdeas up j s = (l, s')"
  then show "gg_ledger s' = gg_ledger s \<and> gg_inv up s'"
    using gg_reads_same(3) same_gen_ledger same_gen_inv by blast
next
  fix s j xs s' assume "pg_GetIdeas up j s = (Inr xs, s')"
  then show "\<exists>i. up j = Some i \<and> xs = ld_ideas (gg_ledger s) i" by (rule gg_list_ok)
next
  fix s x d s' assume "gg_inv up s" and "pg_GetIdea up x s = (d, s')"
  then show "gg_ledger s' = gg_ledger s \<and> gg_inv up s'"
    using gg_reads_same(4) same_gen_ledger same_gen_inv by blast
next
  fix s x y s' assume "pg_GetIdea up x s = (Inr y, s')"
  then show "\<exists>i. up x = Some i \<and> ld_idea (gg_ledger s) i = Some y" by (rule gg_idea_ok)
next
  fix s usr x u s' assume "pg_SaveIdeaForUser up usr x s = (Inr u, s')"
  then show "\<exists>i. up x = Some i \<and>
      gg_ledger s' = (gg_ledger s)\<lparr>ld_saved := insert (usr, i) (ld_saved (gg_ledger s))\<rparr>"
    by (rule gg_favourite_ledger)
next
  fix s usr x e s' assume "pg_SaveIdeaForUser up usr x s = (Inl e, s')"
  then show "gg_ledger s' = gg_ledger s" by (rule same_gen_ledger [OF gg_err_same(4)])
next
  fix s usr x c s' assume "gg_inv up s" and "pg_SaveIdeaForUser up usr x s = (c, s')"
  then show "gg_inv up s'" using gg_favourite gg_same_inv same_gen_inv by metis
next
  fix s i r assume v: "gg_inv up s" and "ld_requests (gg_ledger s) i = Some r"
  from gg_row_request [OF this(2)] v show "gr_ID r = i \<and> up i = Some i"
    by (auto simp: gg_inv_def)
next
  fix s i r i' r' assume v: "gg_inv up s" and 1: "ld_requests (gg_ledger s) i = Some r"
    and 2: "ld_requests (gg_ledger s) i' = Some r'" and k: "gr_IdempotencyKey r = gr_IdempotencyKey r'"
  obtain q q' where "q \<in> set (gg_requests s)" "gq_id q = i" "r = row_to_request q"
    "q' \<in> set (gg_requests s)" "gq_id q' = i'" "r' = row_to_request q'"
    using gg_row_request [OF 1] gg_row_request [OF 2] by blast
  with gg_one_key [OF v, of q q'] k show "i = i'" by simp
qed

end
