(* ===== verification/Surprise_Cache.thy ===== *)
theory Surprise_Cache
  imports Surprise_Store
begin

text \<open>
  The Surprise service's cache: the contract of the port \<open>domain.Cache\<close>
  (\<open>services/backend/surprise/internal/domain/types.go\<close>) as the locale \<open>surprise_cache\<close>, its
  Valkey implementation (\<open>domain/valkey/valkey.go\<close>), and the interpretation of the contract on
  Valkey and on the in-memory store.
\<close>

section \<open>The contract\<close>

text \<open>
  \<open>cv_slot c t k\<close>, \<open>cv_stat\<close> and \<open>cv_llm\<close> are what a key reads as at the instant \<open>t\<close>. A lifetime
  is kept to the whole second.
\<close>

record 'c cache_view =
  cv_slot :: "'c \<Rightarrow> time \<Rightarrow> string \<Rightarrow> string option"
  cv_stat :: "'c \<Rightarrow> time \<Rightarrow> string \<Rightarrow> status_info option"
  cv_llm :: "'c \<Rightarrow> time \<Rightarrow> string \<Rightarrow> gift_idea list option"

definition same_view :: "'c cache_view \<Rightarrow> 'c \<Rightarrow> 'c \<Rightarrow> bool" where
  "same_view v c c' \<longleftrightarrow>
     cv_slot v c' = cv_slot v c \<and> cv_stat v c' = cv_stat v c \<and> cv_llm v c' = cv_llm v c"

locale surprise_cache =
  fixes cache :: "'c gen_cache"
    and v :: "'c cache_view"
  assumes slot_stored: "ca_SetIdempotencyIfAbsent cache k i ttl now now2 c = (Inr (True, x), c') \<Longrightarrow>
      x = i \<and> cv_slot v c now k = None \<and>
      (\<forall>t. t \<le> now + ttl - ns_per_sec \<longrightarrow> cv_slot v c' t k = Some i) \<and>
      (\<forall>t y. cv_slot v c' t k = Some y \<longrightarrow> y = i) \<and>
      (\<forall>t k'. k' \<noteq> k \<longrightarrow> cv_slot v c' t k' = cv_slot v c t k') \<and>
      cv_stat v c' = cv_stat v c \<and> cv_llm v c' = cv_llm v c"
    and slot_kept: "ca_SetIdempotencyIfAbsent cache k i ttl now now2 c = (Inr (False, x), c') \<Longrightarrow>
      cv_slot v c now2 k = Some x \<and> cv_slot v c now k \<noteq> None \<and> same_view v c c'"
    and slot_err: "ca_SetIdempotencyIfAbsent cache k i ttl now now2 c = (Inl e, c') \<Longrightarrow> same_view v c c'"
    and stat_set: "ca_SetStatus cache j info ttl now c = (Inr u, c') \<Longrightarrow>
      (\<forall>t. t \<le> now + ttl - ns_per_sec \<longrightarrow> cv_stat v c' t j = Some info) \<and>
      (\<forall>t j'. j' \<noteq> j \<longrightarrow> cv_stat v c' t j' = cv_stat v c t j') \<and>
      cv_slot v c' = cv_slot v c \<and> cv_llm v c' = cv_llm v c"
    and stat_err: "ca_SetStatus cache j info ttl now c = (Inl e, c') \<Longrightarrow> same_view v c c'"
    and stat_get: "ca_GetStatus cache j now c = (g, c') \<Longrightarrow> same_view v c c'"
    and stat_ok: "ca_GetStatus cache j now c = (Inr info, c') \<Longrightarrow> cv_stat v c now j = Some info"
    and stat_miss: "ca_GetStatus cache j now c = (Inl SurpriseNotFound, c') \<Longrightarrow> cv_stat v c now j = None"
    and llm_set: "ca_SetLLMCache cache h xs ttl now c = (Inr u, c') \<Longrightarrow>
      (\<forall>t. t \<le> now + ttl - ns_per_sec \<longrightarrow> cv_llm v c' t h = Some xs) \<and>
      (\<forall>t h'. h' \<noteq> h \<longrightarrow> cv_llm v c' t h' = cv_llm v c t h') \<and>
      cv_slot v c' = cv_slot v c \<and> cv_stat v c' = cv_stat v c"
    and llm_err: "ca_SetLLMCache cache h xs ttl now c = (Inl e, c') \<Longrightarrow> same_view v c c'"
    and llm_get: "ca_GetLLMCache cache h now c = (l, c') \<Longrightarrow> same_view v c c'"
    and llm_ok: "ca_GetLLMCache cache h now c = (Inr xs, c') \<Longrightarrow> cv_llm v c now h = Some xs"
begin

text \<open>Only \<open>SetIdempotencyIfAbsent\<close> of a key changes that key's slot.\<close>

lemma slots_frame:
  "ca_SetStatus cache j info ttl now c = (r1, c1) \<Longrightarrow> cv_slot v c1 = cv_slot v c"
  "ca_GetStatus cache j now c = (r2, c2) \<Longrightarrow> cv_slot v c2 = cv_slot v c"
  "ca_SetLLMCache cache h xs ttl now c = (r3, c3) \<Longrightarrow> cv_slot v c3 = cv_slot v c"
  "ca_GetLLMCache cache h now c = (r4, c4) \<Longrightarrow> cv_slot v c4 = cv_slot v c"
  using stat_set stat_err stat_get llm_set llm_err llm_get
  by (cases r1; cases r3; fastforce simp: same_view_def)+

lemma slot_cases:
  assumes "ca_SetIdempotencyIfAbsent cache k i ttl now now2 c = (r, c')"
  shows "(\<exists>e. r = Inl e) \<and> same_view v c c' \<or>
    r = Inr (True, i) \<and> cv_slot v c now k = None \<and>
      (\<forall>t. t \<le> now + ttl - ns_per_sec \<longrightarrow> cv_slot v c' t k = Some i) \<and>
      (\<forall>t y. cv_slot v c' t k = Some y \<longrightarrow> y = i) \<and>
      (\<forall>t k'. k' \<noteq> k \<longrightarrow> cv_slot v c' t k' = cv_slot v c t k') \<or>
    (\<exists>x. r = Inr (False, x) \<and> cv_slot v c now2 k = Some x \<and> same_view v c c')"
proof (cases r)
  case (Inl e)
  with assms slot_err show ?thesis by blast
next
  case (Inr p)
  obtain b x where p: "p = (b, x)" by fastforce
  show ?thesis using assms slot_stored [of k i ttl now now2 c x c'] slot_kept [of k i ttl now now2 c x c']
    unfolding Inr p by (cases b) auto
qed

end

section \<open>Valkey (valkey.go)\<close>

datatype cache_val = StatusVal status_info | IdemVal string | IdeasVal "gift_idea list"

type_synonym gen_valkey = "cache_val valkey"

definition statusKey :: "string \<Rightarrow> string" where
  "statusKey i = ''surprise:status:'' @ i"

definition idemKey :: "string \<Rightarrow> string" where
  "idemKey k = ''surprise:idem:'' @ k"

definition llmKey :: "string \<Rightarrow> string" where
  "llmKey h = ''surprise:llmcache:'' @ h"

definition ttl_secs :: "duration \<Rightarrow> int" where
  "ttl_secs d = (if d div ns_per_sec < 1 then 1 else d div ns_per_sec)"

definition vk_result :: "vk_error + 'a \<Rightarrow> surprise_error + 'a" where
  "vk_result r = (case r of Inl _ \<Rightarrow> Inl SurpriseOther | Inr x \<Rightarrow> Inr x)"

definition spv_SetStatus ::
  "string \<Rightarrow> status_info \<Rightarrow> duration \<Rightarrow> time \<Rightarrow> gen_valkey \<Rightarrow> (surprise_error + unit) \<times> gen_valkey" where
  "spv_SetStatus i info ttl now s =
     (let (r, s') = vk_SETEX (statusKey i) (StatusVal info) (ttl_secs ttl) now s in (vk_result r, s'))"

definition spv_GetStatus ::
  "string \<Rightarrow> time \<Rightarrow> gen_valkey \<Rightarrow> (surprise_error + status_info) \<times> gen_valkey" where
  "spv_GetStatus i now s =
     (let (r, s') = vk_GET (statusKey i) now s in
      case r of
        Inl _ \<Rightarrow> (Inl SurpriseOther, s')
      | Inr None \<Rightarrow> (Inl SurpriseNotFound, s')
      | Inr (Some (StatusVal info)) \<Rightarrow> (Inr info, s')
      | Inr (Some _) \<Rightarrow> (Inl SurpriseOther, s'))"

text \<open>SET NX EX, then on a nil reply GET, whose own nil is returned as an error.\<close>

definition spv_SetIdempotencyIfAbsent ::
  "string \<Rightarrow> string \<Rightarrow> duration \<Rightarrow> time \<Rightarrow> time \<Rightarrow> gen_valkey \<Rightarrow>
   (surprise_error + bool \<times> string) \<times> gen_valkey" where
  "spv_SetIdempotencyIfAbsent k i ttl now now2 s =
     (let (r, s1) = vk_SETNXEX (idemKey k) (IdemVal i) (ttl_secs ttl) now s in
      case r of
        Inr True \<Rightarrow> (Inr (True, i), s1)
      | Inl _ \<Rightarrow> (Inl SurpriseOther, s1)
      | Inr False \<Rightarrow>
          (let (g, s2) = vk_GET (idemKey k) now2 s1 in
           case g of
             Inr (Some (IdemVal existing)) \<Rightarrow> (Inr (False, existing), s2)
           | _ \<Rightarrow> (Inl SurpriseOther, s2)))"

definition spv_GetLLMCache ::
  "string \<Rightarrow> time \<Rightarrow> gen_valkey \<Rightarrow> (surprise_error + gift_idea list) \<times> gen_valkey" where
  "spv_GetLLMCache h now s =
     (let (r, s') = vk_GET (llmKey h) now s in
      case r of
        Inl _ \<Rightarrow> (Inl SurpriseOther, s')
      | Inr None \<Rightarrow> (Inl SurpriseNotFound, s')
      | Inr (Some (IdeasVal xs)) \<Rightarrow> (Inr xs, s')
      | Inr (Some _) \<Rightarrow> (Inl SurpriseOther, s'))"

definition spv_SetLLMCache ::
  "string \<Rightarrow> gift_idea list \<Rightarrow> duration \<Rightarrow> time \<Rightarrow> gen_valkey \<Rightarrow> (surprise_error + unit) \<times> gen_valkey" where
  "spv_SetLLMCache h xs ttl now s =
     (let (r, s') = vk_SETEX (llmKey h) (IdeasVal xs) (ttl_secs ttl) now s in (vk_result r, s'))"

definition vk_cache :: "gen_valkey gen_cache" where
  "vk_cache =
     \<lparr>ca_SetStatus = spv_SetStatus, ca_GetStatus = spv_GetStatus,
      ca_SetIdempotencyIfAbsent = spv_SetIdempotencyIfAbsent, ca_GetLLMCache = spv_GetLLMCache,
      ca_SetLLMCache = spv_SetLLMCache\<rparr>"

section \<open>Valkey and the in-memory store keep the contract\<close>

definition vk_view :: "gen_valkey cache_view" where
  "vk_view =
     \<lparr>cv_slot = (\<lambda>s t k. case vk_live s t (idemKey k) of Some (Val (IdemVal i)) \<Rightarrow> Some i | _ \<Rightarrow> None),
      cv_stat = (\<lambda>s t j. case vk_live s t (statusKey j) of Some (Val (StatusVal x)) \<Rightarrow> Some x | _ \<Rightarrow> None),
      cv_llm = (\<lambda>s t h. case vk_live s t (llmKey h) of Some (Val (IdeasVal xs)) \<Rightarrow> Some xs | _ \<Rightarrow> None)\<rparr>"

definition mem_view :: "mem_store cache_view" where
  "mem_view =
     \<lparr>cv_slot = (\<lambda>s t. mm_idemCache s), cv_stat = (\<lambda>s t. mm_status s), cv_llm = (\<lambda>s t. mm_llmCache s)\<rparr>"

lemma gen_keys_distinct [simp]:
  "statusKey i \<noteq> idemKey k" "statusKey i \<noteq> llmKey h" "idemKey k \<noteq> llmKey h"
  "idemKey k \<noteq> statusKey i" "llmKey h \<noteq> statusKey i" "llmKey h \<noteq> idemKey k"
  "statusKey i = statusKey i' \<longleftrightarrow> i = i'" "idemKey k = idemKey k' \<longleftrightarrow> k = k'"
  "llmKey h = llmKey h' \<longleftrightarrow> h = h'"
  by (simp_all add: statusKey_def idemKey_def llmKey_def)

lemma secs_covers: "t \<le> now + ttl - ns_per_sec \<Longrightarrow> t < now + ttl_secs ttl * ns_per_sec"
  using div_mult_mod_eq [of ttl ns_per_sec] pos_mod_bound [of ns_per_sec ttl]
  by (auto simp: ttl_secs_def ns_per_sec_def)

lemma vk_put_view:
  assumes "vk_keys s' = (vk_keys s)(k \<mapsto> (Val x, Some (now + ttl_secs ttl * ns_per_sec)))"
  shows "vk_live s' t k' =
    (if k' = k then if t < now + ttl_secs ttl * ns_per_sec then Some (Val x) else None else vk_live s t k')"
  by (simp add: vk_live_def assms)

lemma vk_same_view: "vk_keys s' = vk_keys s \<Longrightarrow> same_view vk_view s s'"
  by (simp add: same_view_def vk_view_def vk_live_def fun_eq_iff)

lemma vk_cache_sel [simp]:
  "ca_SetStatus vk_cache = spv_SetStatus" "ca_GetStatus vk_cache = spv_GetStatus"
  "ca_SetIdempotencyIfAbsent vk_cache = spv_SetIdempotencyIfAbsent"
  "ca_GetLLMCache vk_cache = spv_GetLLMCache" "ca_SetLLMCache vk_cache = spv_SetLLMCache"
  by (simp_all add: vk_cache_def)

lemma spv_set_cases:
  "spv_SetStatus j info ttl now s = (Inr u, s') \<Longrightarrow>
     vk_keys s' = (vk_keys s)(statusKey j \<mapsto> (Val (StatusVal info), Some (now + ttl_secs ttl * ns_per_sec)))"
  "spv_SetStatus j info ttl now s = (Inl e, s') \<Longrightarrow> vk_keys s' = vk_keys s"
  "spv_SetLLMCache h xs ttl now s = (Inr u, s') \<Longrightarrow>
     vk_keys s' = (vk_keys s)(llmKey h \<mapsto> (Val (IdeasVal xs), Some (now + ttl_secs ttl * ns_per_sec)))"
  "spv_SetLLMCache h xs ttl now s = (Inl e, s') \<Longrightarrow> vk_keys s' = vk_keys s"
  by (auto simp: spv_SetStatus_def spv_SetLLMCache_def vk_result_def split: prod.splits sum.splits
      dest: vk_SETEX_ok vk_SETEX_err)

lemma spv_get_cases:
  "spv_GetStatus j now s = (g, s') \<Longrightarrow> vk_keys s' = vk_keys s \<and>
     (\<forall>info. g = Inr info \<longrightarrow> vk_live s now (statusKey j) = Some (Val (StatusVal info))) \<and>
     (g = Inl SurpriseNotFound \<longrightarrow> vk_live s now (statusKey j) = None)"
  "spv_GetLLMCache h now s = (l, s1) \<Longrightarrow> vk_keys s1 = vk_keys s \<and>
     (\<forall>xs. l = Inr xs \<longrightarrow> vk_live s now (llmKey h) = Some (Val (IdeasVal xs)))"
  by (auto simp: spv_GetStatus_def spv_GetLLMCache_def split: prod.splits sum.splits option.splits
      cache_val.splits dest: vk_GET_keys vk_GET_Some)

lemma spv_slot_cases:
  assumes "spv_SetIdempotencyIfAbsent k i ttl now now2 s = (r, s')"
  shows "r = Inr (True, i) \<and> vk_live s now (idemKey k) = None \<and>
      vk_keys s' = (vk_keys s)(idemKey k \<mapsto> (Val (IdemVal i), Some (now + ttl_secs ttl * ns_per_sec))) \<or>
    (\<exists>x. r = Inr (False, x) \<and> vk_live s now (idemKey k) \<noteq> None \<and>
       vk_live s now2 (idemKey k) = Some (Val (IdemVal x)) \<and> vk_keys s' = vk_keys s) \<or>
    (\<exists>e. r = Inl e \<and> vk_keys s' = vk_keys s)"
proof -
  obtain a s1 where 1: "vk_SETNXEX (idemKey k) (IdemVal i) (ttl_secs ttl) now s = (a, s1)" by fastforce
  obtain g s2 where 2: "vk_GET (idemKey k) now2 s1 = (g, s2)" by fastforce
  note d = assms [unfolded spv_SetIdempotencyIfAbsent_def 1 2 Let_def prod.case]
  show ?thesis
  proof (cases a)
    case (Inl e)
    with d vk_SETNXEX_err [OF 1 [unfolded Inl]] show ?thesis by auto
  next
    case (Inr b)
    show ?thesis
    proof (cases b)
      case True
      with d Inr vk_SETNXEX_stored [of "idemKey k" "IdemVal i" "ttl_secs ttl" now s s1] 1 show ?thesis by auto
    next
      case False
      with Inr 1 have k: "vk_live s now (idemKey k) \<noteq> None" "vk_keys s1 = vk_keys s"
        using vk_SETNXEX_kept [of "idemKey k" "IdemVal i" "ttl_secs ttl" now s s1] by auto
      have l: "vk_live s1 now2 (idemKey k) = vk_live s now2 (idemKey k)"
        by (rule vk_live_keys) (simp add: k(2))
      show ?thesis
      proof (cases "\<exists>x. g = Inr (Some (IdemVal x))")
        case True
        then obtain x where g: "g = Inr (Some (IdemVal x))" by blast
        from vk_GET_Some [OF 2 [unfolded g]] l
        have "vk_live s now2 (idemKey k) = Some (Val (IdemVal x))" by simp
        moreover have "r = Inr (False, x) \<and> s' = s2" using d Inr False g by auto
        ultimately show ?thesis using k vk_GET_keys [OF 2] by simp
      next
        case nv: False
        then have "r = Inl SurpriseOther \<and> s' = s2"
          using d Inr False by (auto split: sum.splits option.splits cache_val.splits)
        with k vk_GET_keys [OF 2] show ?thesis by simp
      qed
    qed
  qed
qed

interpretation vkc: surprise_cache vk_cache vk_view
proof (unfold_locales, unfold vk_cache_sel)
  fix k i ttl now now2 c x c' assume a: "spv_SetIdempotencyIfAbsent k i ttl now now2 c = (Inr (True, x), c')"
  from spv_slot_cases [OF a] have x: "x = i" and n: "vk_live c now (idemKey k) = None"
    and "vk_keys c' = (vk_keys c)(idemKey k \<mapsto> (Val (IdemVal i), Some (now + ttl_secs ttl * ns_per_sec)))"
    by auto
  note l = vk_put_view [OF this(3)]
  from x n show "x = i \<and> cv_slot vk_view c now k = None \<and>
      (\<forall>t. t \<le> now + ttl - ns_per_sec \<longrightarrow> cv_slot vk_view c' t k = Some i) \<and>
      (\<forall>t y. cv_slot vk_view c' t k = Some y \<longrightarrow> y = i) \<and>
      (\<forall>t k'. k' \<noteq> k \<longrightarrow> cv_slot vk_view c' t k' = cv_slot vk_view c t k') \<and>
      cv_stat vk_view c' = cv_stat vk_view c \<and> cv_llm vk_view c' = cv_llm vk_view c"
    by (simp add: vk_view_def l secs_covers)
next
  fix k i ttl now now2 c x c' assume a: "spv_SetIdempotencyIfAbsent k i ttl now now2 c = (Inr (False, x), c')"
  from spv_slot_cases [OF a] have n: "vk_live c now (idemKey k) \<noteq> None"
    and x: "vk_live c now2 (idemKey k) = Some (Val (IdemVal x))" and s: "vk_keys c' = vk_keys c"
    by auto
  from n x have "vk_live c now (idemKey k) = Some (Val (IdemVal x))"
    by (auto simp: vk_live_def split: option.splits if_splits)
  with x s show "cv_slot vk_view c now2 k = Some x \<and> cv_slot vk_view c now k \<noteq> None \<and> same_view vk_view c c'"
    by (simp add: vk_same_view) (simp add: vk_view_def)
next
  fix k i ttl now now2 c e c' assume a: "spv_SetIdempotencyIfAbsent k i ttl now now2 c = (Inl e, c')"
  from spv_slot_cases [OF a] show "same_view vk_view c c'" by (intro vk_same_view) simp
next
  fix j info ttl now c u c' assume "spv_SetStatus j info ttl now c = (Inr u, c')"
  note l = vk_put_view [OF spv_set_cases(1) [OF this]]
  show "(\<forall>t. t \<le> now + ttl - ns_per_sec \<longrightarrow> cv_stat vk_view c' t j = Some info) \<and>
      (\<forall>t j'. j' \<noteq> j \<longrightarrow> cv_stat vk_view c' t j' = cv_stat vk_view c t j') \<and>
      cv_slot vk_view c' = cv_slot vk_view c \<and> cv_llm vk_view c' = cv_llm vk_view c"
    by (simp add: vk_view_def l secs_covers)
next
  fix j info ttl now c e c' assume "spv_SetStatus j info ttl now c = (Inl e, c')"
  then show "same_view vk_view c c'" by (intro vk_same_view spv_set_cases(2))
next
  fix j now c g c' assume "spv_GetStatus j now c = (g, c')"
  then show "same_view vk_view c c'" using spv_get_cases(1) vk_same_view by blast
next
  fix j now c info c' assume "spv_GetStatus j now c = (Inr info, c')"
  then show "cv_stat vk_view c now j = Some info" using spv_get_cases(1) by (simp add: vk_view_def)
next
  fix j now c c' assume "spv_GetStatus j now c = (Inl SurpriseNotFound, c')"
  then show "cv_stat vk_view c now j = None" using spv_get_cases(1) by (simp add: vk_view_def)
next
  fix h xs ttl now c u c' assume "spv_SetLLMCache h xs ttl now c = (Inr u, c')"
  note l = vk_put_view [OF spv_set_cases(3) [OF this]]
  show "(\<forall>t. t \<le> now + ttl - ns_per_sec \<longrightarrow> cv_llm vk_view c' t h = Some xs) \<and>
      (\<forall>t h'. h' \<noteq> h \<longrightarrow> cv_llm vk_view c' t h' = cv_llm vk_view c t h') \<and>
      cv_slot vk_view c' = cv_slot vk_view c \<and> cv_stat vk_view c' = cv_stat vk_view c"
    by (simp add: vk_view_def l secs_covers)
next
  fix h xs ttl now c e c' assume "spv_SetLLMCache h xs ttl now c = (Inl e, c')"
  then show "same_view vk_view c c'" by (intro vk_same_view spv_set_cases(4))
next
  fix h now c l c' assume "spv_GetLLMCache h now c = (l, c')"
  then show "same_view vk_view c c'" using spv_get_cases(2) vk_same_view by blast
next
  fix h now c xs c' assume "spv_GetLLMCache h now c = (Inr xs, c')"
  then show "cv_llm vk_view c now h = Some xs" using spv_get_cases(2) by (simp add: vk_view_def)
qed

lemma mem_cache_sel [simp]:
  "ca_SetStatus mem_cache = mem_SetStatus" "ca_GetStatus mem_cache = mem_GetStatus"
  "ca_SetIdempotencyIfAbsent mem_cache = mem_SetIdempotencyIfAbsent"
  "ca_GetLLMCache mem_cache = mem_GetLLMCache" "ca_SetLLMCache mem_cache = mem_SetLLMCache"
  by (simp_all add: mem_cache_def)

interpretation memc: surprise_cache mem_cache mem_view
  by (unfold_locales, unfold mem_cache_sel)
    (auto simp: mem_view_def same_view_def mem_SetStatus_def mem_GetStatus_def
      mem_SetIdempotencyIfAbsent_def mem_GetLLMCache_def mem_SetLLMCache_def split: option.splits)

end
