(* ===== verification/Surprise_Server.thy ===== *)
theory Surprise_Server
  imports Surprise_Cache
begin

text \<open>
  The Surprise service's RPC handlers
  (\<open>services/backend/surprise/internal/app/surprise_server.go\<close>) and the event boundary they
  publish to (\<open>events/events.go\<close>). The ports the server is built from are fields of
  \<open>gen_server\<close>; what they keep is \<open>gen_world\<close>. A call's context (\<open>gen_ctx\<close>) carries the
  incoming metadata, the uuid the call draws and the instants it reads.
\<close>

section \<open>Events (events.go)\<close>

record generation_requested =
  ge_RequestID :: string
  ge_Tier :: tier

record ideas_ready =
  ev_RequestID :: string
  ev_UserID :: string
  ev_IdeaCount :: nat

text \<open>A publisher yields whether publishing failed.\<close>

record 'p gen_publisher =
  pu_GenerationRequested :: "generation_requested \<Rightarrow> 'p \<Rightarrow> bool \<times> 'p"
  pu_IdeasReady :: "ideas_ready \<Rightarrow> 'p \<Rightarrow> bool \<times> 'p"

text \<open>
  The in-memory \<open>Bus\<close>. With \<open>dispatch\<close> it runs the registered handler on the spot, so its state
  holds what the handler works on (\<open>bus_env\<close>); the handler yields whether it failed.
\<close>

record 'e bus =
  bus_handler :: "(generation_requested \<Rightarrow> 'e \<Rightarrow> bool \<times> 'e) option"
  bus_Jobs :: "generation_requested list"
  bus_Ready :: "ideas_ready list"
  bus_dispatch :: bool
  bus_env :: 'e

definition NewBus :: "bool \<Rightarrow> 'e \<Rightarrow> 'e bus" where
  "NewBus dispatch e =
     \<lparr>bus_handler = None, bus_Jobs = [], bus_Ready = [], bus_dispatch = dispatch, bus_env = e\<rparr>"

definition bus_PublishGenerationRequested :: "generation_requested \<Rightarrow> 'e bus \<Rightarrow> bool \<times> 'e bus" where
  "bus_PublishGenerationRequested job b =
     (let b1 = b\<lparr>bus_Jobs := bus_Jobs b @ [job]\<rparr> in
      case bus_handler b1 of
        Some h \<Rightarrow>
          if bus_dispatch b1
          then (let (f, e) = h job (bus_env b1) in (f, b1\<lparr>bus_env := e\<rparr>))
          else (False, b1)
      | None \<Rightarrow> (False, b1))"

definition bus_PublishIdeasReady :: "ideas_ready \<Rightarrow> 'e bus \<Rightarrow> bool \<times> 'e bus" where
  "bus_PublishIdeasReady evt b = (False, b\<lparr>bus_Ready := bus_Ready b @ [evt]\<rparr>)"

definition bus_ConsumeGenerationRequested ::
  "(generation_requested \<Rightarrow> 'e \<Rightarrow> bool \<times> 'e) \<Rightarrow> 'e bus \<Rightarrow> bool \<times> 'e bus" where
  "bus_ConsumeGenerationRequested h b = (False, b\<lparr>bus_handler := Some h\<rparr>)"

definition bus_publisher :: "'e bus gen_publisher" where
  "bus_publisher =
     \<lparr>pu_GenerationRequested = bus_PublishGenerationRequested, pu_IdeasReady = bus_PublishIdeasReady\<rparr>"

section \<open>Wire types and their conversions\<close>

datatype pb_gen_status = GS_UNSPECIFIED | GS_QUEUED | GS_RUNNING | GS_READY | GS_FAILED

datatype pb_tier = MT_UNSPECIFIED | MT_SONNET | MT_OPUS | MT_OTHER int

datatype pb_moderation = MS_UNSPECIFIED | MS_APPROVED | MS_REJECTED

record generation_rq =
  gn_user_id :: string
  gn_holiday_id :: string
  gn_budget_band :: string
  gn_preferences_text :: string
  gn_poll_id :: string
  gn_tier :: pb_tier
  gn_idempotency_key :: string

record generation_rp =
  gp_request_id :: string
  gp_status :: pb_gen_status

record status_rp =
  sp_status :: pb_gen_status
  sp_progress :: "32 word"

record pb_idea =
  pi_id :: string
  pi_request_id :: string
  pi_title :: string
  pi_why_it_fits :: string
  pi_rough_cost :: string
  pi_how_to :: string
  pi_rank :: "32 word"
  pi_moderation_status :: pb_moderation

fun tierFromProto :: "pb_tier \<Rightarrow> tier" where
  "tierFromProto MT_OPUS = TierOpus"
| "tierFromProto _ = TierSonnet"

fun statusToProto :: "gen_status \<Rightarrow> pb_gen_status" where
  "statusToProto StatusQueued = GS_QUEUED"
| "statusToProto StatusRunning = GS_RUNNING"
| "statusToProto StatusReady = GS_READY"
| "statusToProto StatusFailed = GS_FAILED"
| "statusToProto (StatusText s) = GS_UNSPECIFIED"

fun moderationToProto :: "moderation \<Rightarrow> pb_moderation" where
  "moderationToProto ModerationApproved = MS_APPROVED"
| "moderationToProto ModerationRejected = MS_REJECTED"
| "moderationToProto _ = MS_UNSPECIFIED"

definition ideaToProto :: "gift_idea \<Rightarrow> pb_idea" where
  "ideaToProto i =
     \<lparr>pi_id = gi_ID i, pi_request_id = gi_RequestID i, pi_title = gi_Title i,
      pi_why_it_fits = gi_WhyItFits i, pi_rough_cost = gi_RoughCost i, pi_how_to = gi_HowTo i,
      pi_rank = word_of_int (gi_Rank i), pi_moderation_status = moderationToProto (gi_Moderation i)\<rparr>"

section \<open>The server\<close>

text \<open>\<open>gw_out\<close> is what lies outside the service: the model and the other services it calls.\<close>

record ('s, 'c, 'p, 'm) gen_world =
  gw_repo :: 's
  gw_cache :: 'c
  gw_pub :: 'p
  gw_out :: 'm

record ('s, 'c, 'p) gen_server =
  gs_repo :: "'s gen_repo"
  gs_cache :: "'c gen_cache"
  gs_pub :: "'p gen_publisher"
  gs_StatusTTL :: duration
  gs_IdempotencyTTL :: duration

record gen_ctx =
  gc_md :: "md option"
  gc_uuid :: string
  gc_idem :: time
  gc_idem2 :: time
  gc_now :: time
  gc_stat :: time

definition gen_NewServer ::
  "'s gen_repo \<Rightarrow> 'c gen_cache \<Rightarrow> 'p gen_publisher \<Rightarrow> duration \<Rightarrow> duration \<Rightarrow> ('s, 'c, 'p) gen_server" where
  "gen_NewServer repo cache pub statusTTL idemTTL =
     \<lparr>gs_repo = repo, gs_cache = cache, gs_pub = pub,
      gs_StatusTTL = (if statusTTL = 0 then 3600 * ns_per_sec else statusTTL),
      gs_IdempotencyTTL = (if idemTTL = 0 then 24 * 3600 * ns_per_sec else idemTTL)\<rparr>"

text \<open>The calls on the ports, on the part of the world each works on.\<close>

definition on_repo ::
  "('s \<Rightarrow> 'r \<times> 's) \<Rightarrow> ('s, 'c, 'p, 'm) gen_world \<Rightarrow> 'r \<times> ('s, 'c, 'p, 'm) gen_world" where
  "on_repo f w = (let (r, s) = f (gw_repo w) in (r, w\<lparr>gw_repo := s\<rparr>))"

definition on_cache ::
  "('c \<Rightarrow> 'r \<times> 'c) \<Rightarrow> ('s, 'c, 'p, 'm) gen_world \<Rightarrow> 'r \<times> ('s, 'c, 'p, 'm) gen_world" where
  "on_cache f w = (let (r, c) = f (gw_cache w) in (r, w\<lparr>gw_cache := c\<rparr>))"

definition on_pub ::
  "('p \<Rightarrow> 'r \<times> 'p) \<Rightarrow> ('s, 'c, 'p, 'm) gen_world \<Rightarrow> 'r \<times> ('s, 'c, 'p, 'm) gen_world" where
  "on_pub f w = (let (r, p) = f (gw_pub w) in (r, w\<lparr>gw_pub := p\<rparr>))"

definition callerID :: "gen_ctx \<Rightarrow> string" where
  "callerID cx =
     (case gc_md cx of
        None \<Rightarrow> []
      | Some m \<Rightarrow> (case md_get m ''x-user-id'' of [] \<Rightarrow> [] | v # _ \<Rightarrow> v))"

definition requireOwner :: "gen_ctx \<Rightarrow> string \<Rightarrow> string status option" where
  "requireOwner cx owner =
     (if callerID cx = [] then None
      else if callerID cx \<noteq> owner
      then Some (Status PermissionDenied ''caller does not own this resource'')
      else None)"

definition existingResponse ::
  "('s, 'c, 'p) gen_server \<Rightarrow> string \<Rightarrow> string \<Rightarrow> ('s, 'c, 'p, 'm) gen_world \<Rightarrow>
   (string status + generation_rp) \<times> ('s, 'c, 'p, 'm) gen_world" where
  "existingResponse sv existingID key w =
     (let (g, w1) = (if existingID \<noteq> [] then on_repo (rp_GetRequest (gs_repo sv) existingID) w
                     else (Inl SurpriseNotFound, w)) in
      case g of
        Inr r \<Rightarrow> (Inr \<lparr>gp_request_id = gr_ID r, gp_status = statusToProto (gr_Status r)\<rparr>, w1)
      | Inl _ \<Rightarrow>
          (let (h, w2) = on_repo (rp_GetRequestByIdempotencyKey (gs_repo sv) key) w1 in
           case h of
             Inr r \<Rightarrow> (Inr \<lparr>gp_request_id = gr_ID r, gp_status = statusToProto (gr_Status r)\<rparr>, w2)
           | Inl _ \<Rightarrow> (Inr \<lparr>gp_request_id = existingID, gp_status = GS_QUEUED\<rparr>, w2)))"

text \<open>The part of \<open>RequestGeneration\<close> after the slot was won: persist, cache the status, enqueue.\<close>

definition new_generation ::
  "('s, 'c, 'p) gen_server \<Rightarrow> gen_ctx \<Rightarrow> generation_rq \<Rightarrow> ('s, 'c, 'p, 'm) gen_world \<Rightarrow>
   (string status + generation_rp) \<times> ('s, 'c, 'p, 'm) gen_world" where
  "new_generation sv cx rq w =
     (let tier = tierFromProto (gn_tier rq);
          r = \<lparr>gr_ID = gc_uuid cx, gr_UserID = gn_user_id rq, gr_HolidayID = gn_holiday_id rq,
            gr_BudgetBand = gn_budget_band rq, gr_PreferencesText = gn_preferences_text rq,
            gr_PollID = gn_poll_id rq, gr_IdempotencyKey = gn_idempotency_key rq,
            gr_Status = StatusQueued, gr_Tier = tier, gr_Refinement = [], gr_CreatedAt = gc_now cx\<rparr>;
          (c, w1) = on_repo (rp_CreateRequest (gs_repo sv) r) w in
      case c of
        Inl SurpriseDuplicate \<Rightarrow>
          (let (g, w2) = on_repo (rp_GetRequestByIdempotencyKey (gs_repo sv) (gn_idempotency_key rq)) w1 in
           case g of
             Inr ex \<Rightarrow> (Inr \<lparr>gp_request_id = gr_ID ex, gp_status = statusToProto (gr_Status ex)\<rparr>, w2)
           | Inl _ \<Rightarrow> (Inl (Status Internal ''persist request failed''), w2))
      | Inl _ \<Rightarrow> (Inl (Status Internal ''persist request failed''), w1)
      | Inr _ \<Rightarrow>
          (let (_, w2) = on_cache (ca_SetStatus (gs_cache sv) (gr_ID r)
                 \<lparr>in_Status = StatusQueued, in_Progress = 0\<rparr> (gs_StatusTTL sv) (gc_stat cx)) w1;
               (f, w3) = on_pub (pu_GenerationRequested (gs_pub sv)
                 \<lparr>ge_RequestID = gr_ID r, ge_Tier = tier\<rparr>) w2 in
           if f then (Inl (Status Internal ''enqueue job failed''), w3)
           else (Inr \<lparr>gp_request_id = gr_ID r, gp_status = GS_QUEUED\<rparr>, w3)))"

definition RequestGeneration ::
  "('s, 'c, 'p) gen_server \<Rightarrow> gen_ctx \<Rightarrow> generation_rq \<Rightarrow> ('s, 'c, 'p, 'm) gen_world \<Rightarrow>
   (string status + generation_rp) \<times> ('s, 'c, 'p, 'm) gen_world" where
  "RequestGeneration sv cx rq w =
     (if gn_user_id rq = [] then (Inl (Status InvalidArgument ''user_id is required''), w)
      else if gn_holiday_id rq = [] then (Inl (Status InvalidArgument ''holiday_id is required''), w)
      else if gn_budget_band rq = [] then (Inl (Status InvalidArgument ''budget_band is required''), w)
      else if gn_idempotency_key rq = []
      then (Inl (Status InvalidArgument ''idempotency_key is required''), w)
      else
        let (a, w1) = on_cache (ca_SetIdempotencyIfAbsent (gs_cache sv) (gn_idempotency_key rq)
              (gc_uuid cx) (gs_IdempotencyTTL sv) (gc_idem cx) (gc_idem2 cx)) w in
        case a of
          Inl _ \<Rightarrow> (Inl (Status Internal ''idempotency check failed''), w1)
        | Inr (stored, existingID) \<Rightarrow>
            if \<not> stored then existingResponse sv existingID (gn_idempotency_key rq) w1
            else new_generation sv cx rq w1)"

definition GetGenerationStatus ::
  "('s, 'c, 'p) gen_server \<Rightarrow> gen_ctx \<Rightarrow> string \<Rightarrow> ('s, 'c, 'p, 'm) gen_world \<Rightarrow>
   (string status + status_rp) \<times> ('s, 'c, 'p, 'm) gen_world" where
  "GetGenerationStatus sv cx requestID w =
     (if requestID = [] then (Inl (Status InvalidArgument ''request_id is required''), w)
      else
        let (g, w1) = on_repo (rp_GetRequest (gs_repo sv) requestID) w in
        case g of
          Inl _ \<Rightarrow> (Inl (Status NotFound ''request not found''), w1)
        | Inr r \<Rightarrow>
            (case requireOwner cx (gr_UserID r) of
               Some e \<Rightarrow> (Inl e, w1)
             | None \<Rightarrow>
                 (let (i, w2) = on_cache (ca_GetStatus (gs_cache sv) requestID (gc_stat cx)) w1 in
                  case i of
                    Inr info \<Rightarrow> (Inr \<lparr>sp_status = statusToProto (in_Status info),
                                  sp_progress = word_of_int (in_Progress info)\<rparr>, w2)
                  | Inl _ \<Rightarrow> (Inr \<lparr>sp_status = statusToProto (gr_Status r), sp_progress = 0\<rparr>, w2))))"

definition GetIdeas ::
  "('s, 'c, 'p) gen_server \<Rightarrow> gen_ctx \<Rightarrow> string \<Rightarrow> ('s, 'c, 'p, 'm) gen_world \<Rightarrow>
   (string status + pb_idea list) \<times> ('s, 'c, 'p, 'm) gen_world" where
  "GetIdeas sv cx requestID w =
     (if requestID = [] then (Inl (Status InvalidArgument ''request_id is required''), w)
      else
        let (g, w1) = on_repo (rp_GetRequest (gs_repo sv) requestID) w in
        case g of
          Inl _ \<Rightarrow> (Inl (Status NotFound ''request not found''), w1)
        | Inr r \<Rightarrow>
            (case requireOwner cx (gr_UserID r) of
               Some e \<Rightarrow> (Inl e, w1)
             | None \<Rightarrow>
                 (let (l, w2) = on_repo (rp_GetIdeas (gs_repo sv) requestID) w1 in
                  case l of
                    Inl _ \<Rightarrow> (Inl (Status Internal ''load ideas failed''), w2)
                  | Inr xs \<Rightarrow> (Inr (map ideaToProto xs), w2))))"

definition SaveIdea ::
  "('s, 'c, 'p) gen_server \<Rightarrow> gen_ctx \<Rightarrow> string \<Rightarrow> string \<Rightarrow> ('s, 'c, 'p, 'm) gen_world \<Rightarrow>
   (string status + bool) \<times> ('s, 'c, 'p, 'm) gen_world" where
  "SaveIdea sv cx userID ideaID w =
     (if userID = [] \<or> ideaID = []
      then (Inl (Status InvalidArgument ''user_id and idea_id are required''), w)
      else case requireOwner cx userID of
        Some e \<Rightarrow> (Inl e, w)
      | None \<Rightarrow>
          let (x, w1) = on_repo (rp_GetIdea (gs_repo sv) ideaID) w in
          (case x of
             Inl _ \<Rightarrow> (Inl (Status NotFound ''idea not found''), w1)
           | Inr idea \<Rightarrow>
               let (g, w2) = on_repo (rp_GetRequest (gs_repo sv) (gi_RequestID idea)) w1 in
               (case g of
                  Inl _ \<Rightarrow> (Inl (Status NotFound (''idea'' @ [CHR 0x27] @ ''s request not found'')), w2)
                | Inr owner \<Rightarrow>
                    if gr_UserID owner \<noteq> userID
                    then (Inl (Status PermissionDenied ''idea does not belong to caller''), w2)
                    else
                      let (d, w3) = on_repo (rp_SaveIdeaForUser (gs_repo sv) userID ideaID) w2 in
                      (case d of
                         Inl _ \<Rightarrow> (Inl (Status Internal ''save idea failed''), w3)
                       | Inr _ \<Rightarrow> (Inr True, w3)))))"

definition Refine ::
  "('s, 'c, 'p) gen_server \<Rightarrow> gen_ctx \<Rightarrow> string \<Rightarrow> string \<Rightarrow> ('s, 'c, 'p, 'm) gen_world \<Rightarrow>
   (string status + generation_rp) \<times> ('s, 'c, 'p, 'm) gen_world" where
  "Refine sv cx requestID refinement w =
     (if requestID = [] \<or> refinement = []
      then (Inl (Status InvalidArgument ''request_id and refinement are required''), w)
      else
        let (g, w1) = on_repo (rp_GetRequest (gs_repo sv) requestID) w in
        case g of
          Inl _ \<Rightarrow> (Inl (Status NotFound ''request not found''), w1)
        | Inr r \<Rightarrow>
            (case requireOwner cx (gr_UserID r) of
               Some e \<Rightarrow> (Inl e, w1)
             | None \<Rightarrow>
                 (let (d, w2) = on_repo (rp_MarkRefinement (gs_repo sv) (gr_ID r) refinement) w1 in
                  case d of
                    Inl _ \<Rightarrow> (Inl (Status Internal ''mark refinement failed''), w2)
                  | Inr _ \<Rightarrow>
                      let (_, w3) = on_cache (ca_SetStatus (gs_cache sv) (gr_ID r)
                            \<lparr>in_Status = StatusQueued, in_Progress = 0\<rparr> (gs_StatusTTL sv) (gc_stat cx)) w2;
                          (f, w4) = on_pub (pu_GenerationRequested (gs_pub sv)
                            \<lparr>ge_RequestID = gr_ID r, ge_Tier = gr_Tier r\<rparr>) w3 in
                      if f then (Inl (Status Internal ''enqueue refine job failed''), w4)
                      else (Inr \<lparr>gp_request_id = gr_ID r, gp_status = GS_QUEUED\<rparr>, w4))))"

section \<open>The service over any stores\<close>

text \<open>
  What a publisher promises: a message it reports as published was, and nothing else appears.
\<close>

locale gen_bus =
  fixes pub :: "'p gen_publisher"
    and jobs :: "'p \<Rightarrow> generation_requested list"
    and ready :: "'p \<Rightarrow> ideas_ready list"
  assumes job_published: "pu_GenerationRequested pub j p = (f, p') \<Longrightarrow>
      (jobs p' = jobs p @ [j] \<or> f \<and> jobs p' = jobs p) \<and> ready p' = ready p"
    and ready_published: "pu_IdeasReady pub e p = (g, p') \<Longrightarrow>
      jobs p' = jobs p \<and> (ready p' = ready p @ [e] \<or> g \<and> ready p' = ready p)"

interpretation membus: gen_bus bus_publisher bus_Jobs bus_Ready
  by unfold_locales
    (auto simp: bus_publisher_def bus_PublishGenerationRequested_def bus_PublishIdeasReady_def Let_def
      split: option.splits if_splits prod.splits)

locale gen_service =
  store: surprise_repo repo ledger inv canon healthy + ephemeral: surprise_cache cache v +
  gen_bus pub jobs ready
  for repo :: "'s gen_repo"
    and ledger :: "'s \<Rightarrow> gen_ledger"
    and inv :: "'s \<Rightarrow> bool"
    and canon :: "string \<Rightarrow> string option"
    and healthy :: "'s \<Rightarrow> bool"
    and cache :: "'c gen_cache"
    and v :: "'c cache_view"
    and pub :: "'p gen_publisher"
    and jobs :: "'p \<Rightarrow> generation_requested list"
    and ready :: "'p \<Rightarrow> ideas_ready list"

definition serves ::
  "('s, 'c, 'p) gen_server \<Rightarrow> 's gen_repo \<Rightarrow> 'c gen_cache \<Rightarrow> 'p gen_publisher \<Rightarrow> bool" where
  "serves sv repo cache pub \<longleftrightarrow> gs_repo sv = repo \<and> gs_cache sv = cache \<and> gs_pub sv = pub"

lemma serves_NewServer [simp]: "serves (gen_NewServer repo cache pub a b) repo cache pub"
  by (simp add: serves_def gen_NewServer_def)

text \<open>The reply that names a persisted request.\<close>

definition reply_of :: "gen_request \<Rightarrow> generation_rp" where
  "reply_of q = \<lparr>gp_request_id = gr_ID q, gp_status = statusToProto (gr_Status q)\<rparr>"

text \<open>A slot names a request only if that request carries the slot's key.\<close>

definition slots_agree ::
  "('c cache_view) \<Rightarrow> (string \<Rightarrow> string option) \<Rightarrow> 'c \<Rightarrow> gen_ledger \<Rightarrow> bool" where
  "slots_agree v canon c l \<longleftrightarrow>
     (\<forall>t k x i q. cv_slot v c t k = Some x \<longrightarrow> canon x = Some i \<longrightarrow> ld_requests l i = Some q \<longrightarrow>
        gr_IdempotencyKey q = k)"

text \<open>What \<open>uuid.NewString\<close> yields: a canonical uuid that neither store holds.\<close>

definition fresh_uuid ::
  "('c cache_view) \<Rightarrow> (string \<Rightarrow> string option) \<Rightarrow> 'c \<Rightarrow> gen_ledger \<Rightarrow> string \<Rightarrow> bool" where
  "fresh_uuid v canon c l u \<longleftrightarrow>
     u \<noteq> [] \<and> canon u = Some u \<and> ld_requests l u = None \<and>
     (\<forall>t k x. cv_slot v c t k = Some x \<longrightarrow> canon x \<noteq> Some u)"

text \<open>A sequence of submissions, each with its context, and their replies.\<close>

fun submissions ::
  "('s, 'c, 'p) gen_server \<Rightarrow> (gen_ctx \<times> generation_rq) list \<Rightarrow> ('s, 'c, 'p, 'm) gen_world \<Rightarrow>
   (string status + generation_rp) list \<times> ('s, 'c, 'p, 'm) gen_world" where
  "submissions sv [] w = ([], w)"
| "submissions sv ((cx, rq) # cs) w =
     (let (r, w1) = RequestGeneration sv cx rq w; (rs, w2) = submissions sv cs w1 in (r # rs, w2))"

lemma RequestGeneration_invalid:
  "gn_user_id rq = [] \<or> gn_holiday_id rq = [] \<or> gn_budget_band rq = [] \<or> gn_idempotency_key rq = [] \<Longrightarrow>
   \<exists>m. RequestGeneration sv cx rq w = (Inl (Status InvalidArgument m), w)"
  by (cases "gn_user_id rq = []"; cases "gn_holiday_id rq = []"; cases "gn_budget_band rq = []")
    (simp_all add: RequestGeneration_def)

lemma on_port_eq:
  "on_repo f w = (r, w1) \<longleftrightarrow> f (gw_repo w) = (r, gw_repo w1) \<and> w1 = w\<lparr>gw_repo := gw_repo w1\<rparr>"
  "on_cache g w = (x, w2) \<longleftrightarrow> g (gw_cache w) = (x, gw_cache w2) \<and> w2 = w\<lparr>gw_cache := gw_cache w2\<rparr>"
  "on_pub h w = (y, w3) \<longleftrightarrow> h (gw_pub w) = (y, gw_pub w3) \<and> w3 = w\<lparr>gw_pub := gw_pub w3\<rparr>"
  by (auto simp: on_repo_def on_cache_def on_pub_def split: prod.splits)

lemma on_repo_frame: "on_repo f w = (r, w1) \<Longrightarrow>
    f (gw_repo w) = (r, gw_repo w1) \<and> gw_cache w1 = gw_cache w \<and> gw_pub w1 = gw_pub w \<and> gw_out w1 = gw_out w"
  by (auto simp: on_repo_def split: prod.splits)

lemma on_cache_frame: "on_cache f w = (r, w1) \<Longrightarrow>
    f (gw_cache w) = (r, gw_cache w1) \<and> gw_repo w1 = gw_repo w \<and> gw_pub w1 = gw_pub w \<and> gw_out w1 = gw_out w"
  by (auto simp: on_cache_def split: prod.splits)

lemma on_pub_frame: "on_pub f w = (r, w1) \<Longrightarrow>
    f (gw_pub w) = (r, gw_pub w1) \<and> gw_repo w1 = gw_repo w \<and> gw_cache w1 = gw_cache w \<and> gw_out w1 = gw_out w"
  by (auto simp: on_pub_def split: prod.splits)

lemmas on_frame = on_repo_frame on_cache_frame on_pub_frame

context gen_service begin

lemma existing_effect:
  assumes sv: "serves sv repo cache pub" and v: "inv (gw_repo w)"
    and e: "existingResponse sv x k w = (r, w')"
  shows "ledger (gw_repo w') = ledger (gw_repo w) \<and> inv (gw_repo w') \<and> gw_cache w' = gw_cache w \<and>
    gw_pub w' = gw_pub w \<and> gw_out w' = gw_out w \<and>
    ((\<exists>q. r = Inr (reply_of q) \<and> ld_requests (ledger (gw_repo w)) (gr_ID q) = Some q \<and>
        (canon x = Some (gr_ID q) \<or> gr_IdempotencyKey q = k)) \<or>
     r = Inr \<lparr>gp_request_id = x, gp_status = GS_QUEUED\<rparr> \<and>
       \<not> (healthy (gw_repo w) \<and> has_key (ledger (gw_repo w)) k))"
proof -
  have s: "gs_repo sv = repo" using sv by (simp add: serves_def)
  obtain g w1 where 1: "(if x \<noteq> [] then on_repo (rp_GetRequest (gs_repo sv) x) w
      else (Inl SurpriseNotFound, w)) = (g, w1)" by fastforce
  have r1: "ledger (gw_repo w1) = ledger (gw_repo w) \<and> inv (gw_repo w1) \<and>
      (healthy (gw_repo w) \<longrightarrow> healthy (gw_repo w1)) \<and> gw_cache w1 = gw_cache w \<and>
      gw_pub w1 = gw_pub w \<and> gw_out w1 = gw_out w \<and>
      (\<forall>q. g = Inr q \<longrightarrow> canon x = Some (gr_ID q) \<and> ld_requests (ledger (gw_repo w)) (gr_ID q) = Some q)"
  proof (cases "x = []")
    case True
    with 1 v show ?thesis by auto
  next
    case False
    with 1 s have o: "on_repo (rp_GetRequest repo x) w = (g, w1)" by simp
    note f = on_repo_frame [OF o]
    with store.get_read [OF v] store.get_ok [OF v] store.get_healthy show ?thesis by blast
  qed
  show ?thesis
  proof (cases g)
    case (Inr q)
    with e 1 have "r = Inr (reply_of q) \<and> w' = w1"
      by (simp add: existingResponse_def reply_of_def)
    with r1 Inr show ?thesis by blast
  next
    case (Inl a)
    obtain h w2 where 2: "on_repo (rp_GetRequestByIdempotencyKey (gs_repo sv) k) w1 = (h, w2)" by fastforce
    have o: "rp_GetRequestByIdempotencyKey repo k (gw_repo w1) = (h, gw_repo w2)"
      and f: "gw_cache w2 = gw_cache w1 \<and> gw_pub w2 = gw_pub w1 \<and> gw_out w2 = gw_out w1"
      using on_repo_frame [OF 2] s by auto
    have r2: "ledger (gw_repo w2) = ledger (gw_repo w1) \<and> inv (gw_repo w2)"
      using store.key_read o r1 by blast
    have d: "(r, w') = (case h of Inr q \<Rightarrow> (Inr (reply_of q), w2)
        | Inl _ \<Rightarrow> (Inr \<lparr>gp_request_id = x, gp_status = GS_QUEUED\<rparr>, w2))"
      using e 1 Inl 2 by (cases h) (simp_all add: existingResponse_def reply_of_def)
    show ?thesis
    proof (cases h)
      case (Inr q)
      with store.key_ok [of "gw_repo w1" k q] o r1
      have "ld_requests (ledger (gw_repo w)) (gr_ID q) = Some q \<and> gr_IdempotencyKey q = k" by auto
      with d Inr r1 r2 f show ?thesis by auto
    next
      case nf: (Inl b)
      have "\<not> (healthy (gw_repo w) \<and> has_key (ledger (gw_repo w)) k)"
      proof
        assume "healthy (gw_repo w) \<and> has_key (ledger (gw_repo w)) k"
        with store.key_found [of "gw_repo w1" k] r1 o nf show False by auto
      qed
      with d nf r1 r2 f show ?thesis by auto
    qed
  qed
qed

text \<open>The request \<open>new_generation\<close> persists.\<close>

definition is_new :: "gen_ctx \<Rightarrow> generation_rq \<Rightarrow> gen_request \<Rightarrow> bool" where
  "is_new cx rq q \<longleftrightarrow>
     gr_ID q = gc_uuid cx \<and> gr_UserID q = gn_user_id rq \<and> gr_HolidayID q = gn_holiday_id rq \<and>
     gr_BudgetBand q = gn_budget_band rq \<and> gr_PreferencesText q = gn_preferences_text rq \<and>
     gr_PollID q = gn_poll_id rq \<and> gr_IdempotencyKey q = gn_idempotency_key rq \<and>
     gr_Status q = StatusQueued \<and> gr_Tier q = tierFromProto (gn_tier rq)"

lemma new_effect:
  assumes sv: "serves sv repo cache pub" and v: "inv (gw_repo w)"
    and u: "canon (gc_uuid cx) = Some (gc_uuid cx)"
    and n: "ld_requests (ledger (gw_repo w)) (gc_uuid cx) = None"
    and e: "new_generation sv cx rq w = (r, w')"
  shows "inv (gw_repo w') \<and> cv_slot v (gw_cache w') = cv_slot v (gw_cache w) \<and> gw_out w' = gw_out w \<and>
    (ledger (gw_repo w') = ledger (gw_repo w) \<and> jobs (gw_pub w') = jobs (gw_pub w) \<and>
       (r = Inl (Status Internal ''persist request failed'') \<and>
          \<not> (healthy (gw_repo w) \<and> has_key (ledger (gw_repo w)) (gn_idempotency_key rq)) \<or>
        (\<exists>q. r = Inr (reply_of q) \<and> ld_requests (ledger (gw_repo w)) (gr_ID q) = Some q \<and>
          gr_IdempotencyKey q = gn_idempotency_key rq)) \<or>
     (\<exists>q. is_new cx rq q \<and> \<not> has_key (ledger (gw_repo w)) (gn_idempotency_key rq) \<and>
        ledger (gw_repo w') = (ledger (gw_repo w))
          \<lparr>ld_requests := (ld_requests (ledger (gw_repo w)))(gc_uuid cx \<mapsto> q)\<rparr> \<and>
        (jobs (gw_pub w') = jobs (gw_pub w) @ [\<lparr>ge_RequestID = gc_uuid cx, ge_Tier = gr_Tier q\<rparr>] \<and>
           r = Inr \<lparr>gp_request_id = gc_uuid cx, gp_status = GS_QUEUED\<rparr> \<or>
         (jobs (gw_pub w') = jobs (gw_pub w) \<or>
            jobs (gw_pub w') = jobs (gw_pub w) @ [\<lparr>ge_RequestID = gc_uuid cx, ge_Tier = gr_Tier q\<rparr>]) \<and>
           r = Inl (Status Internal ''enqueue job failed''))))"
proof -
  have s: "gs_repo sv = repo" "gs_cache sv = cache" "gs_pub sv = pub"
    using sv by (simp_all add: serves_def)
  define q0 where "q0 = \<lparr>gr_ID = gc_uuid cx, gr_UserID = gn_user_id rq, gr_HolidayID = gn_holiday_id rq,
      gr_BudgetBand = gn_budget_band rq, gr_PreferencesText = gn_preferences_text rq,
      gr_PollID = gn_poll_id rq, gr_IdempotencyKey = gn_idempotency_key rq,
      gr_Status = StatusQueued, gr_Tier = tierFromProto (gn_tier rq), gr_Refinement = [],
      gr_CreatedAt = gc_now cx\<rparr>"
  have q0: "gr_ID q0 = gc_uuid cx" "gr_IdempotencyKey q0 = gn_idempotency_key rq"
    by (simp_all add: q0_def)
  obtain c w1 where 1: "on_repo (rp_CreateRequest (gs_repo sv) q0) w = (c, w1)" by fastforce
  have c1: "rp_CreateRequest repo q0 (gw_repo w) = (c, gw_repo w1)"
    and f1: "gw_cache w1 = gw_cache w" "gw_pub w1 = gw_pub w" "gw_out w1 = gw_out w"
    using on_repo_frame [OF 1] s by auto
  have v1: "inv (gw_repo w1)" using store.create_inv [OF v c1] u n q0 by simp
  note d = e [unfolded new_generation_def Let_def, folded q0_def, unfolded 1 prod.case]
  show ?thesis
  proof (cases c)
    case (Inl a)
    have l1: "ledger (gw_repo w1) = ledger (gw_repo w)"
      using store.create_err [OF v] c1 Inl by blast
    show ?thesis
    proof (cases "a = SurpriseDuplicate")
      case False
      then have "r = Inl (Status Internal ''persist request failed'') \<and> w' = w1"
        using d Inl by (cases a) auto
      moreover have "\<not> (healthy (gw_repo w) \<and> has_key (ledger (gw_repo w)) (gn_idempotency_key rq))"
        using store.create_dup [OF v _ _ _ c1] q0 u Inl False by auto
      ultimately show ?thesis using v1 l1 f1 by simp
    next
      case True
      obtain g w2 where 2: "on_repo (rp_GetRequestByIdempotencyKey (gs_repo sv) (gn_idempotency_key rq)) w1 = (g, w2)"
        by fastforce
      have c2: "rp_GetRequestByIdempotencyKey repo (gn_idempotency_key rq) (gw_repo w1) = (g, gw_repo w2)"
        and f2: "gw_cache w2 = gw_cache w1" "gw_pub w2 = gw_pub w1" "gw_out w2 = gw_out w1"
        using on_repo_frame [OF 2] s by auto
      have r2: "ledger (gw_repo w2) = ledger (gw_repo w1)" "inv (gw_repo w2)"
        using store.key_read [OF v1 c2] by auto
      show ?thesis
      proof (cases g)
        case (Inr q)
        with d True Inl 2 have "r = Inr (reply_of q) \<and> w' = w2" by (auto simp: reply_of_def)
        with store.key_ok [OF v1 c2 [unfolded Inr]] r2 l1 f1 f2 show ?thesis by auto
      next
        case no: (Inl b)
        with d True Inl 2 have "r = Inl (Status Internal ''persist request failed'') \<and> w' = w2" by auto
        moreover have "\<not> (healthy (gw_repo w) \<and> has_key (ledger (gw_repo w)) (gn_idempotency_key rq))"
        proof
          assume h: "healthy (gw_repo w) \<and> has_key (ledger (gw_repo w)) (gn_idempotency_key rq)"
          then have "healthy (gw_repo w1)" using store.create_dup [OF v _ _ _ c1] q0 u by auto
          with h l1 store.key_found [OF v1, of "gn_idempotency_key rq"] c2 no show False by auto
        qed
        ultimately show ?thesis using r2 l1 f1 f2 by simp
      qed
    qed
  next
    case (Inr x)
    obtain y w2 where 2: "on_cache (ca_SetStatus (gs_cache sv) (gr_ID q0)
        \<lparr>in_Status = StatusQueued, in_Progress = 0\<rparr> (gs_StatusTTL sv) (gc_stat cx)) w1 = (y, w2)"
      by fastforce
    obtain f w3 where 3: "on_pub (pu_GenerationRequested (gs_pub sv)
        \<lparr>ge_RequestID = gr_ID q0, ge_Tier = tierFromProto (gn_tier rq)\<rparr>) w2 = (f, w3)"
      by fastforce
    note f2 = on_cache_frame [OF 2] and f3 = on_pub_frame [OF 3]
    have sl: "cv_slot v (gw_cache w2) = cv_slot v (gw_cache w1)"
      using f2 s ephemeral.slots_frame(1) by auto
    obtain t where l1: "ledger (gw_repo w1) = (ledger (gw_repo w))\<lparr>ld_requests :=
        (ld_requests (ledger (gw_repo w)))(gc_uuid cx \<mapsto> q0\<lparr>gr_ID := gc_uuid cx, gr_CreatedAt := t\<rparr>)\<rparr>"
      and k: "\<not> has_key (ledger (gw_repo w)) (gn_idempotency_key rq)"
      using store.create_ok [OF v c1 [unfolded Inr]] q0 u by auto
    have j: "jobs (gw_pub w3) = jobs (gw_pub w) @
        [\<lparr>ge_RequestID = gc_uuid cx, ge_Tier = tierFromProto (gn_tier rq)\<rparr>] \<or>
        f \<and> jobs (gw_pub w3) = jobs (gw_pub w)"
      using job_published [of "\<lparr>ge_RequestID = gr_ID q0, ge_Tier = tierFromProto (gn_tier rq)\<rparr>" "gw_pub w" f "gw_pub w3"]
        f3 f2 f1 s q0 by auto
    have r: "(r, w') = (if f then (Inl (Status Internal ''enqueue job failed''), w3)
        else (Inr \<lparr>gp_request_id = gr_ID q0, gp_status = GS_QUEUED\<rparr>, w3))"
      using d Inr 2 3 by (simp add: q0_def)
    let ?q = "q0\<lparr>gr_ID := gc_uuid cx, gr_CreatedAt := t\<rparr>"
    have q: "is_new cx rq ?q" "gr_Tier ?q = tierFromProto (gn_tier rq)"
      by (simp_all add: is_new_def q0_def)
    have "w' = w3" and "r = (if f then Inl (Status Internal ''enqueue job failed'')
        else Inr \<lparr>gp_request_id = gc_uuid cx, gp_status = GS_QUEUED\<rparr>)"
      using r q0 by (auto split: if_splits)
    with j have p: "jobs (gw_pub w') = jobs (gw_pub w) @ [\<lparr>ge_RequestID = gc_uuid cx, ge_Tier = gr_Tier ?q\<rparr>] \<and>
           r = Inr \<lparr>gp_request_id = gc_uuid cx, gp_status = GS_QUEUED\<rparr> \<or>
         (jobs (gw_pub w') = jobs (gw_pub w) \<or>
            jobs (gw_pub w') = jobs (gw_pub w) @ [\<lparr>ge_RequestID = gc_uuid cx, ge_Tier = gr_Tier ?q\<rparr>]) \<and>
           r = Inl (Status Internal ''enqueue job failed'')"
      by (cases f) (auto simp: q(2))
    have "ledger (gw_repo w') = (ledger (gw_repo w))
        \<lparr>ld_requests := (ld_requests (ledger (gw_repo w)))(gc_uuid cx \<mapsto> ?q)\<rparr>"
      using l1 f2 f3 \<open>w' = w3\<close> by simp
    moreover have "inv (gw_repo w') \<and> cv_slot v (gw_cache w') = cv_slot v (gw_cache w) \<and> gw_out w' = gw_out w"
      using v1 f1 f2 f3 sl \<open>w' = w3\<close> by simp
    ultimately show ?thesis using q(1) k p by blast
  qed
qed

text \<open>Everything one submission may do.\<close>

lemma submit_effect:
  assumes sv: "serves sv repo cache pub" and v: "inv (gw_repo w)"
    and fr: "fresh_uuid v canon (gw_cache w) (ledger (gw_repo w)) (gc_uuid cx)"
    and e: "RequestGeneration sv cx rq w = (r, w')"
  shows "inv (gw_repo w') \<and>
    (\<forall>t k x. cv_slot v (gw_cache w') t k = Some x \<longrightarrow>
       cv_slot v (gw_cache w) t k = Some x \<or> k = gn_idempotency_key rq \<and> x = gc_uuid cx) \<and>
    (ledger (gw_repo w') = ledger (gw_repo w) \<and> jobs (gw_pub w') = jobs (gw_pub w) \<or>
     (\<exists>q. gr_ID q = gc_uuid cx \<and> gr_IdempotencyKey q = gn_idempotency_key rq \<and>
        \<not> has_key (ledger (gw_repo w)) (gn_idempotency_key rq) \<and>
        ledger (gw_repo w') = (ledger (gw_repo w))
          \<lparr>ld_requests := (ld_requests (ledger (gw_repo w)))(gc_uuid cx \<mapsto> q)\<rparr> \<and>
        (jobs (gw_pub w') = jobs (gw_pub w) \<or>
         jobs (gw_pub w') = jobs (gw_pub w) @ [\<lparr>ge_RequestID = gc_uuid cx, ge_Tier = gr_Tier q\<rparr>])))"
proof (cases "gn_user_id rq = [] \<or> gn_holiday_id rq = [] \<or> gn_budget_band rq = [] \<or> gn_idempotency_key rq = []")
  case True
  with e have "w' = w" by (auto simp: RequestGeneration_def split: if_splits)
  with v show ?thesis by simp
next
  case False
  have s: "gs_repo sv = repo" "gs_cache sv = cache" "gs_pub sv = pub"
    using sv by (simp_all add: serves_def)
  let ?k = "gn_idempotency_key rq"
  obtain a w1 where 1: "on_cache (ca_SetIdempotencyIfAbsent (gs_cache sv) ?k (gc_uuid cx)
      (gs_IdempotencyTTL sv) (gc_idem cx) (gc_idem2 cx)) w = (a, w1)" by fastforce
  note f1 = on_cache_frame [OF 1]
  have v1: "inv (gw_repo w1)" using f1 v by simp
  have c: "ca_SetIdempotencyIfAbsent cache ?k (gc_uuid cx) (gs_IdempotencyTTL sv) (gc_idem cx) (gc_idem2 cx)
      (gw_cache w) = (a, gw_cache w1)" using f1 s by simp
  have d: "(r, w') = (case a of
          Inl _ \<Rightarrow> (Inl (Status Internal ''idempotency check failed''), w1)
        | Inr (stored, x) \<Rightarrow>
            if \<not> stored then existingResponse sv x ?k w1 else new_generation sv cx rq w1)"
    using e False 1 by (simp add: RequestGeneration_def)
  from ephemeral.slot_cases [OF c] show ?thesis
  proof (elim disjE)
    assume "(\<exists>e. a = Inl e) \<and> same_view v (gw_cache w) (gw_cache w1)"
    with d f1 v show ?thesis by (auto simp: same_view_def)
  next
    assume a: "a = Inr (True, gc_uuid cx) \<and> cv_slot v (gw_cache w) (gc_idem cx) ?k = None \<and>
      (\<forall>t\<le>gc_idem cx + gs_IdempotencyTTL sv - ns_per_sec. cv_slot v (gw_cache w1) t ?k = Some (gc_uuid cx)) \<and>
      (\<forall>t y. cv_slot v (gw_cache w1) t ?k = Some y \<longrightarrow> y = gc_uuid cx) \<and>
      (\<forall>t k'. k' \<noteq> ?k \<longrightarrow> cv_slot v (gw_cache w1) t k' = cv_slot v (gw_cache w) t k')"
    with d have n: "new_generation sv cx rq w1 = (r, w')" by simp
    have sl: "cv_slot v (gw_cache w) t k = Some x \<or> k = ?k \<and> x = gc_uuid cx"
      if "cv_slot v (gw_cache w1) t k = Some x" for t k x
      using a that by (cases "k = ?k") auto
    from fr f1 have "canon (gc_uuid cx) = Some (gc_uuid cx)"
      "ld_requests (ledger (gw_repo w1)) (gc_uuid cx) = None"
      by (simp_all add: fresh_uuid_def)
    note g = new_effect [OF sv v1 this n]
    then have "cv_slot v (gw_cache w') = cv_slot v (gw_cache w1)" by blast
    with g sl f1 show ?thesis by (fastforce simp: is_new_def)
  next
    assume "\<exists>x. a = Inr (False, x) \<and> cv_slot v (gw_cache w) (gc_idem2 cx) ?k = Some x \<and>
      same_view v (gw_cache w) (gw_cache w1)"
    then obtain x where x: "a = Inr (False, x)" "same_view v (gw_cache w) (gw_cache w1)" by blast
    with d have n: "existingResponse sv x ?k w1 = (r, w')" by simp
    from existing_effect [OF sv v1 n] x f1 show ?thesis by (auto simp: same_view_def)
  qed
qed

lemma submit_keeps_agreement:
  assumes "slots_agree v canon (gw_cache w) (ledger (gw_repo w))"
    and sv: "serves sv repo cache pub" and v: "inv (gw_repo w)"
    and fr: "fresh_uuid v canon (gw_cache w) (ledger (gw_repo w)) (gc_uuid cx)"
    and e: "RequestGeneration sv cx rq w = (r, w')"
  shows "slots_agree v canon (gw_cache w') (ledger (gw_repo w'))"
    and "fresh_uuid v canon (gw_cache w) (ledger (gw_repo w)) u \<Longrightarrow> u \<noteq> gc_uuid cx \<Longrightarrow>
      fresh_uuid v canon (gw_cache w') (ledger (gw_repo w')) u"
proof -
  note eff = submit_effect [OF sv v fr e]
  have sl: "cv_slot v (gw_cache w) t k = Some x \<or> k = gn_idempotency_key rq \<and> x = gc_uuid cx"
    if "cv_slot v (gw_cache w') t k = Some x" for t k x
    using eff that by blast
  have rq: "ld_requests (ledger (gw_repo w)) i = Some q \<or>
      i = gc_uuid cx \<and> gr_IdempotencyKey q = gn_idempotency_key rq"
    if "ld_requests (ledger (gw_repo w')) i = Some q" for i q
    using eff that by (auto split: if_splits)
  show "slots_agree v canon (gw_cache w') (ledger (gw_repo w'))"
    unfolding slots_agree_def
  proof (intro allI impI)
    fix t k x i q
    assume 1: "cv_slot v (gw_cache w') t k = Some x" and 2: "canon x = Some i"
      and 3: "ld_requests (ledger (gw_repo w')) i = Some q"
    from fr have c: "canon (gc_uuid cx) = Some (gc_uuid cx)"
      "ld_requests (ledger (gw_repo w)) (gc_uuid cx) = None"
      "\<forall>t k x. cv_slot v (gw_cache w) t k = Some x \<longrightarrow> canon x \<noteq> Some (gc_uuid cx)"
      by (simp_all add: fresh_uuid_def)
    from sl [OF 1] show "gr_IdempotencyKey q = k"
    proof
      assume o: "cv_slot v (gw_cache w) t k = Some x"
      with c(3) 2 have "i \<noteq> gc_uuid cx" by auto
      with rq [OF 3] have "ld_requests (ledger (gw_repo w)) i = Some q" by simp
      with o 2 assms(1) show ?thesis by (simp add: slots_agree_def)
    next
      assume "k = gn_idempotency_key rq \<and> x = gc_uuid cx"
      with c 2 rq [OF 3] show ?thesis by auto
    qed
  qed
  show "fresh_uuid v canon (gw_cache w') (ledger (gw_repo w')) u"
    if u: "fresh_uuid v canon (gw_cache w) (ledger (gw_repo w)) u" "u \<noteq> gc_uuid cx"
  proof -
    have "ld_requests (ledger (gw_repo w')) u = None"
      using rq [of u] u by (cases "ld_requests (ledger (gw_repo w')) u") (auto simp: fresh_uuid_def)
    moreover have "\<forall>t k x. cv_slot v (gw_cache w') t k = Some x \<longrightarrow> canon x \<noteq> Some u"
      using sl u fr by (fastforce simp: fresh_uuid_def)
    ultimately show ?thesis using u by (simp add: fresh_uuid_def)
  qed
qed

text \<open>A key that has its request: a submission returns that request and enqueues nothing.\<close>

lemma resubmit_returns:
  assumes sv: "serves sv repo cache pub" and v: "inv (gw_repo w)" and h: "healthy (gw_repo w)"
    and ag: "slots_agree v canon (gw_cache w) (ledger (gw_repo w))"
    and fr: "fresh_uuid v canon (gw_cache w) (ledger (gw_repo w)) (gc_uuid cx)"
    and p: "ld_requests (ledger (gw_repo w)) i = Some q" "gr_IdempotencyKey q = gn_idempotency_key rq"
    and ne: "gn_user_id rq \<noteq> []" "gn_holiday_id rq \<noteq> []" "gn_budget_band rq \<noteq> []" "gn_idempotency_key rq \<noteq> []"
    and e: "RequestGeneration sv cx rq w = (r, w')"
  shows "ledger (gw_repo w') = ledger (gw_repo w) \<and> jobs (gw_pub w') = jobs (gw_pub w) \<and>
    (r = Inr (reply_of q) \<or> r = Inl (Status Internal ''idempotency check failed''))"
proof -
  have s: "gs_repo sv = repo" "gs_cache sv = cache" "gs_pub sv = pub"
    using sv by (simp_all add: serves_def)
  let ?k = "gn_idempotency_key rq"
  have hk: "has_key (ledger (gw_repo w)) ?k" using p by (auto simp: has_key_def)
  have same: "q' = q" if "ld_requests (ledger (gw_repo w)) (gr_ID q') = Some q'" "gr_IdempotencyKey q' = ?k" for q'
    using store.one_key [OF v that(1) p(1)] that p by simp
  obtain a w1 where 1: "on_cache (ca_SetIdempotencyIfAbsent (gs_cache sv) ?k (gc_uuid cx)
      (gs_IdempotencyTTL sv) (gc_idem cx) (gc_idem2 cx)) w = (a, w1)" by fastforce
  note f1 = on_cache_frame [OF 1]
  have v1: "inv (gw_repo w1)" using f1 v by simp
  have c: "ca_SetIdempotencyIfAbsent cache ?k (gc_uuid cx) (gs_IdempotencyTTL sv) (gc_idem cx) (gc_idem2 cx)
      (gw_cache w) = (a, gw_cache w1)" using f1 s by simp
  have d: "(r, w') = (case a of
          Inl _ \<Rightarrow> (Inl (Status Internal ''idempotency check failed''), w1)
        | Inr (stored, x) \<Rightarrow>
            if \<not> stored then existingResponse sv x ?k w1 else new_generation sv cx rq w1)"
    using e ne 1 by (simp add: RequestGeneration_def)
  from ephemeral.slot_cases [OF c] show ?thesis
  proof (elim disjE)
    assume "(\<exists>e. a = Inl e) \<and> same_view v (gw_cache w) (gw_cache w1)"
    with d f1 show ?thesis by auto
  next
    assume a: "a = Inr (True, gc_uuid cx) \<and> cv_slot v (gw_cache w) (gc_idem cx) ?k = None \<and>
      (\<forall>t\<le>gc_idem cx + gs_IdempotencyTTL sv - ns_per_sec. cv_slot v (gw_cache w1) t ?k = Some (gc_uuid cx)) \<and>
      (\<forall>t y. cv_slot v (gw_cache w1) t ?k = Some y \<longrightarrow> y = gc_uuid cx) \<and>
      (\<forall>t k'. k' \<noteq> ?k \<longrightarrow> cv_slot v (gw_cache w1) t k' = cv_slot v (gw_cache w) t k')"
    with d have n: "new_generation sv cx rq w1 = (r, w')" by simp
    from fr f1 have "canon (gc_uuid cx) = Some (gc_uuid cx)"
      "ld_requests (ledger (gw_repo w1)) (gc_uuid cx) = None"
      by (simp_all add: fresh_uuid_def)
    from new_effect [OF sv v1 this n] f1 h hk same show ?thesis by auto
  next
    assume "\<exists>x. a = Inr (False, x) \<and> cv_slot v (gw_cache w) (gc_idem2 cx) ?k = Some x \<and>
      same_view v (gw_cache w) (gw_cache w1)"
    then obtain x where x: "a = Inr (False, x)" "cv_slot v (gw_cache w) (gc_idem2 cx) ?k = Some x" by blast
    with d have n: "existingResponse sv x ?k w1 = (r, w')" by simp
    note ex = existing_effect [OF sv v1 n]
    then obtain q' where q': "r = Inr (reply_of q')" "ld_requests (ledger (gw_repo w)) (gr_ID q') = Some q'"
      "canon x = Some (gr_ID q') \<or> gr_IdempotencyKey q' = ?k"
      using f1 h hk by auto
    then have "gr_IdempotencyKey q' = ?k" using ag x(2) by (auto simp: slots_agree_def)
    with same q' ex f1 show ?thesis by auto
  qed
qed

text \<open>
  A submission that won the slot and failed to persist leaves the slot behind: until it expires,
  a submission of the same key is told QUEUED with the id of a request that does not exist.
\<close>

lemma lost_generation:
  assumes sv: "serves sv repo cache pub" and v: "inv (gw_repo w)"
    and fr: "fresh_uuid v canon (gw_cache w) (ledger (gw_repo w)) (gc_uuid cx)"
    and nk: "\<not> has_key (ledger (gw_repo w)) (gn_idempotency_key rq)"
    and e1: "RequestGeneration sv cx rq w = (Inl (Status Internal ''persist request failed''), w1)"
    and k: "gn_idempotency_key rq' = gn_idempotency_key rq"
    and t: "gc_idem cx' \<le> gc_idem cx + gs_IdempotencyTTL sv - ns_per_sec"
      "gc_idem2 cx' \<le> gc_idem cx + gs_IdempotencyTTL sv - ns_per_sec"
    and e2: "RequestGeneration sv cx' rq' w1 = (Inr rp, w2)"
  shows "rp = \<lparr>gp_request_id = gc_uuid cx, gp_status = GS_QUEUED\<rparr> \<and>
    ledger (gw_repo w2) = ledger (gw_repo w) \<and> jobs (gw_pub w2) = jobs (gw_pub w)"
proof -
  have s: "gs_repo sv = repo" "gs_cache sv = cache" "gs_pub sv = pub"
    using sv by (simp_all add: serves_def)
  let ?k = "gn_idempotency_key rq"
  have ne: "\<not> (gn_user_id rq = [] \<or> gn_holiday_id rq = [] \<or> gn_budget_band rq = [] \<or> ?k = [])"
    using e1 RequestGeneration_invalid [of rq sv cx w] by auto
  have ne': "\<not> (gn_user_id rq' = [] \<or> gn_holiday_id rq' = [] \<or> gn_budget_band rq' = [] \<or> ?k = [])"
    using e2 k RequestGeneration_invalid [of rq' sv cx' w1] by auto
  obtain a w0 where 1: "on_cache (ca_SetIdempotencyIfAbsent (gs_cache sv) ?k (gc_uuid cx)
      (gs_IdempotencyTTL sv) (gc_idem cx) (gc_idem2 cx)) w = (a, w0)" by fastforce
  note f1 = on_cache_frame [OF 1]
  have v0: "inv (gw_repo w0)" using f1 v by simp
  have c: "ca_SetIdempotencyIfAbsent cache ?k (gc_uuid cx) (gs_IdempotencyTTL sv) (gc_idem cx) (gc_idem2 cx)
      (gw_cache w) = (a, gw_cache w0)" using f1 s by simp
  have d: "(Inl (Status Internal ''persist request failed''), w1) = (case a of
          Inl _ \<Rightarrow> (Inl (Status Internal ''idempotency check failed''), w0)
        | Inr (stored, x) \<Rightarrow>
            if \<not> stored then existingResponse sv x ?k w0 else new_generation sv cx rq w0)"
    using e1 ne 1 by (simp add: RequestGeneration_def)
  have a: "a = Inr (True, gc_uuid cx)"
    and sl: "\<forall>t\<le>gc_idem cx + gs_IdempotencyTTL sv - ns_per_sec. cv_slot v (gw_cache w0) t ?k = Some (gc_uuid cx)"
  proof -
    have no: False if "\<exists>x. a = Inr (False, x)"
    proof -
      from that d obtain x where
        n: "existingResponse sv x ?k w0 = (Inl (Status Internal ''persist request failed''), w1)" by auto
      from existing_effect [OF sv v0 n] show False by auto
    qed
    moreover have False if "\<exists>e. a = Inl e" using that d by auto
    ultimately show "a = Inr (True, gc_uuid cx)"
      and "\<forall>t\<le>gc_idem cx + gs_IdempotencyTTL sv - ns_per_sec. cv_slot v (gw_cache w0) t ?k = Some (gc_uuid cx)"
      using ephemeral.slot_cases [OF c] by blast+
  qed
  with d have n: "new_generation sv cx rq w0 = (Inl (Status Internal ''persist request failed''), w1)" by simp
  from fr f1 have u: "canon (gc_uuid cx) = Some (gc_uuid cx)"
    "ld_requests (ledger (gw_repo w0)) (gc_uuid cx) = None"
    by (simp_all add: fresh_uuid_def)
  have p: "ledger (gw_repo w1) = ledger (gw_repo w) \<and> jobs (gw_pub w1) = jobs (gw_pub w) \<and>
      cv_slot v (gw_cache w1) = cv_slot v (gw_cache w0) \<and> inv (gw_repo w1)"
    using new_effect [OF sv v0 u n] f1 by auto
  obtain b w3 where 3: "on_cache (ca_SetIdempotencyIfAbsent (gs_cache sv) ?k (gc_uuid cx')
      (gs_IdempotencyTTL sv) (gc_idem cx') (gc_idem2 cx')) w1 = (b, w3)" by fastforce
  note f3 = on_cache_frame [OF 3]
  have v3: "inv (gw_repo w3)" using f3 p by simp
  have c': "ca_SetIdempotencyIfAbsent cache ?k (gc_uuid cx') (gs_IdempotencyTTL sv) (gc_idem cx') (gc_idem2 cx')
      (gw_cache w1) = (b, gw_cache w3)" using f3 s by simp
  have d': "(Inr rp, w2) = (case b of
          Inl _ \<Rightarrow> (Inl (Status Internal ''idempotency check failed''), w3)
        | Inr (stored, x) \<Rightarrow>
            if \<not> stored then existingResponse sv x ?k w3 else new_generation sv cx' rq' w3)"
    using e2 [unfolded RequestGeneration_def k] ne' 3 by simp
  have "b = Inr (False, gc_uuid cx)"
    using ephemeral.slot_cases [OF c'] sl t p d' by auto
  with d' have n': "existingResponse sv (gc_uuid cx) ?k w3 = (Inr rp, w2)" by simp
  have "\<not> (\<exists>q. ld_requests (ledger (gw_repo w)) (gr_ID q) = Some q \<and>
      (canon (gc_uuid cx) = Some (gr_ID q) \<or> gr_IdempotencyKey q = ?k))"
    using nk u f1 by (auto simp: has_key_def)
  with existing_effect [OF sv v3 n'] f3 p show ?thesis by auto
qed

text \<open>Over a run of submissions with distinct fresh uuids.\<close>

lemma submissions_effect:
  assumes sv: "serves sv repo cache pub"
  shows "inv (gw_repo w) \<Longrightarrow> slots_agree v canon (gw_cache w) (ledger (gw_repo w)) \<Longrightarrow>
    (\<forall>c \<in> set cs. fresh_uuid v canon (gw_cache w) (ledger (gw_repo w)) (gc_uuid (fst c))) \<Longrightarrow>
    distinct (map (\<lambda>c. gc_uuid (fst c)) cs) \<Longrightarrow> submissions sv cs w = (rs, w') \<Longrightarrow>
    inv (gw_repo w') \<and> slots_agree v canon (gw_cache w') (ledger (gw_repo w')) \<and>
    (\<forall>u. fresh_uuid v canon (gw_cache w) (ledger (gw_repo w)) u \<longrightarrow> u \<notin> set (map (\<lambda>c. gc_uuid (fst c)) cs) \<longrightarrow>
       fresh_uuid v canon (gw_cache w') (ledger (gw_repo w')) u) \<and>
    (\<forall>i q. ld_requests (ledger (gw_repo w)) i = Some q \<longrightarrow> ld_requests (ledger (gw_repo w')) i = Some q) \<and>
    (\<exists>new. jobs (gw_pub w') = jobs (gw_pub w) @ new \<and> distinct (map ge_RequestID new) \<and>
       (\<forall>j \<in> set new. ld_requests (ledger (gw_repo w)) (ge_RequestID j) = None \<and>
          ld_requests (ledger (gw_repo w')) (ge_RequestID j) \<noteq> None))"
proof (induction cs arbitrary: w rs)
  case Nil
  then show ?case by simp
next
  case (Cons c cs)
  obtain cx rq where c: "c = (cx, rq)" by fastforce
  obtain r w1 where 1: "RequestGeneration sv cx rq w = (r, w1)" by fastforce
  obtain rs2 w2 where 2: "submissions sv cs w1 = (rs2, w2)" by fastforce
  have w2: "w2 = w'" using Cons.prems(5) 1 2 c by simp
  have fr: "fresh_uuid v canon (gw_cache w) (ledger (gw_repo w)) (gc_uuid cx)"
    using Cons.prems(3) c by simp
  note eff = submit_effect [OF sv Cons.prems(1) fr 1]
  note keep = submit_keeps_agreement [OF Cons.prems(2) sv Cons.prems(1) fr 1]
  have i1: "inv (gw_repo w1)" using eff by simp
  have fr1: "\<forall>c \<in> set cs. fresh_uuid v canon (gw_cache w1) (ledger (gw_repo w1)) (gc_uuid (fst c))"
  proof
    fix d assume "d \<in> set cs"
    then show "fresh_uuid v canon (gw_cache w1) (ledger (gw_repo w1)) (gc_uuid (fst d))"
      using Cons.prems(3, 4) c by (intro keep(2)) force+
  qed
  have di: "distinct (map (\<lambda>c. gc_uuid (fst c)) cs)" using Cons.prems(4) by simp
  have IH: "inv (gw_repo w') \<and> slots_agree v canon (gw_cache w') (ledger (gw_repo w')) \<and>
    (\<forall>u. fresh_uuid v canon (gw_cache w1) (ledger (gw_repo w1)) u \<longrightarrow> u \<notin> set (map (\<lambda>c. gc_uuid (fst c)) cs) \<longrightarrow>
       fresh_uuid v canon (gw_cache w') (ledger (gw_repo w')) u) \<and>
    (\<forall>i q. ld_requests (ledger (gw_repo w1)) i = Some q \<longrightarrow> ld_requests (ledger (gw_repo w')) i = Some q) \<and>
    (\<exists>new. jobs (gw_pub w') = jobs (gw_pub w1) @ new \<and> distinct (map ge_RequestID new) \<and>
       (\<forall>j \<in> set new. ld_requests (ledger (gw_repo w1)) (ge_RequestID j) = None \<and>
          ld_requests (ledger (gw_repo w')) (ge_RequestID j) \<noteq> None))"
    by (rule Cons.IH [OF i1 keep(1) fr1 di 2 [unfolded w2]])
  then obtain new where new: "jobs (gw_pub w') = jobs (gw_pub w1) @ new" "distinct (map ge_RequestID new)"
    "\<forall>j \<in> set new. ld_requests (ledger (gw_repo w1)) (ge_RequestID j) = None \<and>
       ld_requests (ledger (gw_repo w')) (ge_RequestID j) \<noteq> None"
    by blast
  have un: "ld_requests (ledger (gw_repo w)) (gc_uuid cx) = None" using fr by (simp add: fresh_uuid_def)
  have grow: "\<forall>i q. ld_requests (ledger (gw_repo w)) i = Some q \<longrightarrow> ld_requests (ledger (gw_repo w1)) i = Some q"
    using eff un by auto
  have jobs1: "jobs (gw_pub w1) = jobs (gw_pub w) \<or>
      (\<exists>j. jobs (gw_pub w1) = jobs (gw_pub w) @ [j] \<and> ge_RequestID j = gc_uuid cx \<and>
         ld_requests (ledger (gw_repo w1)) (gc_uuid cx) \<noteq> None)"
    using eff by auto
  have old: "ld_requests (ledger (gw_repo w)) i = None" if "ld_requests (ledger (gw_repo w1)) i = None" for i
    using that grow by (cases "ld_requests (ledger (gw_repo w)) i") auto
  have "\<exists>new. jobs (gw_pub w') = jobs (gw_pub w) @ new \<and> distinct (map ge_RequestID new) \<and>
       (\<forall>j \<in> set new. ld_requests (ledger (gw_repo w)) (ge_RequestID j) = None \<and>
          ld_requests (ledger (gw_repo w')) (ge_RequestID j) \<noteq> None)"
    using jobs1
  proof
    assume "jobs (gw_pub w1) = jobs (gw_pub w)"
    with new old show ?thesis by (intro exI [of _ new]) auto
  next
    assume "\<exists>j. jobs (gw_pub w1) = jobs (gw_pub w) @ [j] \<and> ge_RequestID j = gc_uuid cx \<and>
         ld_requests (ledger (gw_repo w1)) (gc_uuid cx) \<noteq> None"
    then obtain j where j: "jobs (gw_pub w1) = jobs (gw_pub w) @ [j]" "ge_RequestID j = gc_uuid cx"
      "ld_requests (ledger (gw_repo w1)) (gc_uuid cx) \<noteq> None" by blast
    then have "ge_RequestID j \<notin> set (map ge_RequestID new)" using new(3) by auto
    moreover have "ld_requests (ledger (gw_repo w')) (gc_uuid cx) \<noteq> None" using j(3) IH by auto
    ultimately show ?thesis using new j old un by (intro exI [of _ "j # new"]) auto
  qed
  moreover have "\<forall>u. fresh_uuid v canon (gw_cache w) (ledger (gw_repo w)) u \<longrightarrow>
      u \<notin> set (map (\<lambda>c. gc_uuid (fst c)) (c # cs)) \<longrightarrow>
      fresh_uuid v canon (gw_cache w') (ledger (gw_repo w')) u"
    using keep(2) IH c by simp
  ultimately show ?case using IH grow by blast
qed

lemma ideas_owner:
  assumes sv: "serves sv repo cache pub" and v: "inv (gw_repo w)" and e: "GetIdeas sv cx j w = (Inr xs, w')"
  shows "ledger (gw_repo w') = ledger (gw_repo w) \<and>
    (\<exists>q. canon j = Some (gr_ID q) \<and> ld_requests (ledger (gw_repo w)) (gr_ID q) = Some q \<and>
       (callerID cx = [] \<or> callerID cx = gr_UserID q) \<and>
       xs = map ideaToProto (ld_ideas (ledger (gw_repo w)) (gr_ID q)))"
proof -
  have s: "gs_repo sv = repo" using sv by (simp add: serves_def)
  have ne: "j \<noteq> []" using e by (auto simp: GetIdeas_def)
  obtain g w1 where 1: "on_repo (rp_GetRequest (gs_repo sv) j) w = (g, w1)" by fastforce
  obtain l w2 where 2: "on_repo (rp_GetIdeas (gs_repo sv) j) w1 = (l, w2)" by fastforce
  note f1 = on_repo_frame [OF 1, unfolded s] and f2 = on_repo_frame [OF 2, unfolded s]
  obtain q where q: "g = Inr q" using e ne 1 by (cases g) (auto simp: GetIdeas_def)
  have o: "requireOwner cx (gr_UserID q) = None"
    using e ne 1 q by (cases "requireOwner cx (gr_UserID q)") (auto simp: GetIdeas_def)
  obtain ys where ys: "l = Inr ys" using e ne 1 2 q o by (cases l) (auto simp: GetIdeas_def)
  have x: "xs = map ideaToProto ys" "w' = w2" using e ne 1 2 q o ys by (auto simp: GetIdeas_def)
  have r1: "ledger (gw_repo w1) = ledger (gw_repo w)" "inv (gw_repo w1)"
    using store.get_read [OF v] f1 by auto
  have "canon j = Some (gr_ID q) \<and> ld_requests (ledger (gw_repo w)) (gr_ID q) = Some q"
    using store.get_ok [OF v] f1 q by blast
  moreover have "ledger (gw_repo w2) = ledger (gw_repo w1)"
    using store.list_read [OF r1(2)] f2 by blast
  moreover have "ys = ld_ideas (ledger (gw_repo w1)) (gr_ID q)"
    using store.list_ok [OF r1(2), of j ys "gw_repo w2"] f2 ys calculation(1) by auto
  moreover have "callerID cx = [] \<or> callerID cx = gr_UserID q"
    using o by (auto simp: requireOwner_def split: if_splits)
  ultimately show ?thesis using x r1 by auto
qed

lemma refine_effect:
  assumes sv: "serves sv repo cache pub" and v: "inv (gw_repo w)" and e: "Refine sv cx j tx w = (r, w')"
  shows "inv (gw_repo w') \<and> cv_slot v (gw_cache w') = cv_slot v (gw_cache w) \<and>
    (ledger (gw_repo w') = ledger (gw_repo w) \<and> jobs (gw_pub w') = jobs (gw_pub w) \<and> (\<exists>m. r = Inl m) \<or>
     (\<exists>q. canon j = Some (gr_ID q) \<and> ld_requests (ledger (gw_repo w)) (gr_ID q) = Some q \<and>
        (callerID cx = [] \<or> callerID cx = gr_UserID q) \<and>
        ledger (gw_repo w') = (ledger (gw_repo w))\<lparr>ld_requests := (ld_requests (ledger (gw_repo w)))
          (gr_ID q \<mapsto> q\<lparr>gr_Refinement := tx, gr_Status := StatusQueued\<rparr>)\<rparr> \<and>
        (r = Inr \<lparr>gp_request_id = gr_ID q, gp_status = GS_QUEUED\<rparr> \<and>
           jobs (gw_pub w') = jobs (gw_pub w) @ [\<lparr>ge_RequestID = gr_ID q, ge_Tier = gr_Tier q\<rparr>] \<or>
         r = Inl (Status Internal ''enqueue refine job failed''))))"
proof (cases "j = [] \<or> tx = []")
  case True
  with e v show ?thesis by (auto simp: Refine_def)
next
  case ne: False
  have s: "gs_repo sv = repo" "gs_cache sv = cache" "gs_pub sv = pub"
    using sv by (simp_all add: serves_def)
  obtain g w1 where 1: "on_repo (rp_GetRequest (gs_repo sv) j) w = (g, w1)" by fastforce
  note f1 = on_repo_frame [OF 1, unfolded s]
  have r1: "ledger (gw_repo w1) = ledger (gw_repo w)" "inv (gw_repo w1)"
    using store.get_read [OF v] f1 by auto
  show ?thesis
  proof (cases g)
    case (Inl a)
    with e ne 1 r1 f1 show ?thesis by (auto simp: Refine_def)
  next
    case g: (Inr q)
    have q: "canon j = Some (gr_ID q)" "ld_requests (ledger (gw_repo w)) (gr_ID q) = Some q"
      using store.get_ok [OF v] f1 g by auto
    show ?thesis
    proof (cases "requireOwner cx (gr_UserID q)")
      case (Some a)
      with e ne 1 r1 f1 g show ?thesis by (auto simp: Refine_def)
    next
      case o: None
      then have ow: "callerID cx = [] \<or> callerID cx = gr_UserID q"
        by (auto simp: requireOwner_def split: if_splits)
      obtain d w2 where 2: "on_repo (rp_MarkRefinement (gs_repo sv) (gr_ID q) tx) w1 = (d, w2)" by fastforce
      note f2 = on_repo_frame [OF 2, unfolded s]
      have v2: "inv (gw_repo w2)" using store.refine_inv [OF r1(2)] f2 by blast
      show ?thesis
      proof (cases d)
        case (Inl a)
        then have "ledger (gw_repo w2) = ledger (gw_repo w1)"
          using store.refine_err [OF r1(2)] f2 by blast
        with e ne 1 r1 f1 g o 2 Inl f2 v2 show ?thesis by (auto simp: Refine_def)
      next
        case d: (Inr u)
        have ci: "canon (gr_ID q) = Some (gr_ID q)" using store.ids_canon [OF v q(2)] by simp
        have l2: "ledger (gw_repo w2) = (ledger (gw_repo w))\<lparr>ld_requests := (ld_requests (ledger (gw_repo w)))
          (gr_ID q \<mapsto> q\<lparr>gr_Refinement := tx, gr_Status := StatusQueued\<rparr>)\<rparr>"
          using store.refine_ok [OF r1(2), of "gr_ID q" tx u "gw_repo w2"] f2 d ci q(2) r1(1) by auto
        obtain y w3 where 3: "on_cache (ca_SetStatus (gs_cache sv) (gr_ID q)
            \<lparr>in_Status = StatusQueued, in_Progress = 0\<rparr> (gs_StatusTTL sv) (gc_stat cx)) w2 = (y, w3)"
          by fastforce
        obtain f w4 where 4: "on_pub (pu_GenerationRequested (gs_pub sv)
            \<lparr>ge_RequestID = gr_ID q, ge_Tier = gr_Tier q\<rparr>) w3 = (f, w4)"
          by fastforce
        note f3 = on_cache_frame [OF 3, unfolded s] and f4 = on_pub_frame [OF 4, unfolded s]
        have sl: "cv_slot v (gw_cache w3) = cv_slot v (gw_cache w2)"
          using f3 ephemeral.slots_frame(1) by blast
        have w': "w' = w4" and r: "r = (if f then Inl (Status Internal ''enqueue refine job failed'')
            else Inr \<lparr>gp_request_id = gr_ID q, gp_status = GS_QUEUED\<rparr>)"
          using e ne 1 g o 2 d 3 4 by (auto simp: Refine_def split: if_splits)
        have "jobs (gw_pub w4) = jobs (gw_pub w3) @ [\<lparr>ge_RequestID = gr_ID q, ge_Tier = gr_Tier q\<rparr>] \<or> f"
          using job_published f4 by blast
        then have "r = Inr \<lparr>gp_request_id = gr_ID q, gp_status = GS_QUEUED\<rparr> \<and>
           jobs (gw_pub w') = jobs (gw_pub w) @ [\<lparr>ge_RequestID = gr_ID q, ge_Tier = gr_Tier q\<rparr>] \<or>
         r = Inl (Status Internal ''enqueue refine job failed'')"
          using r w' f1 f2 f3 by auto
        moreover have "inv (gw_repo w') \<and> cv_slot v (gw_cache w') = cv_slot v (gw_cache w) \<and>
            ledger (gw_repo w') = ledger (gw_repo w2)"
          using w' f1 f2 f3 f4 sl v2 by simp
        ultimately show ?thesis using q ow l2 by auto
      qed
    qed
  qed
qed

lemma save_idea_owner:
  assumes sv: "serves sv repo cache pub" and v: "inv (gw_repo w)" and e: "SaveIdea sv cx usr x w = (Inr b, w')"
  shows "\<exists>i y q. canon x = Some i \<and> ld_idea (ledger (gw_repo w)) i = Some y \<and>
    canon (gi_RequestID y) = Some (gr_ID q) \<and> ld_requests (ledger (gw_repo w)) (gr_ID q) = Some q \<and>
    gr_UserID q = usr \<and> (callerID cx = [] \<or> callerID cx = usr) \<and>
    ledger (gw_repo w') = (ledger (gw_repo w))\<lparr>ld_saved := insert (usr, i) (ld_saved (ledger (gw_repo w)))\<rparr>"
proof -
  have s: "gs_repo sv = repo" using sv by (simp add: serves_def)
  have ne: "usr \<noteq> []" "x \<noteq> []" using e by (auto simp: SaveIdea_def)
  have o: "requireOwner cx usr = None" using e ne by (cases "requireOwner cx usr") (auto simp: SaveIdea_def)
  obtain h w1 where 1: "on_repo (rp_GetIdea (gs_repo sv) x) w = (h, w1)" by fastforce
  note f1 = on_repo_frame [OF 1, unfolded s]
  have r1: "ledger (gw_repo w1) = ledger (gw_repo w)" "inv (gw_repo w1)"
    using store.idea_read [OF v] f1 by auto
  obtain y where h: "h = Inr y" using e ne o 1 by (cases h) (auto simp: SaveIdea_def)
  obtain i where i: "canon x = Some i" "ld_idea (ledger (gw_repo w)) i = Some y"
    using store.idea_ok [OF v] f1 h by blast
  obtain g w2 where 2: "on_repo (rp_GetRequest (gs_repo sv) (gi_RequestID y)) w1 = (g, w2)" by fastforce
  note f2 = on_repo_frame [OF 2, unfolded s]
  have r2: "ledger (gw_repo w2) = ledger (gw_repo w1)" "inv (gw_repo w2)"
    using store.get_read [OF r1(2)] f2 by auto
  obtain q where g: "g = Inr q" using e ne o 1 h 2 by (cases g) (auto simp: SaveIdea_def)
  have q: "canon (gi_RequestID y) = Some (gr_ID q)" "ld_requests (ledger (gw_repo w)) (gr_ID q) = Some q"
    using store.get_ok [OF r1(2)] f2 g r1(1) by auto
  have u: "gr_UserID q = usr" using e ne o 1 h 2 g by (auto simp: SaveIdea_def split: if_splits)
  obtain d w3 where 3: "on_repo (rp_SaveIdeaForUser (gs_repo sv) usr x) w2 = (d, w3)" by fastforce
  note f3 = on_repo_frame [OF 3, unfolded s]
  obtain z where d: "d = Inr z" using e ne o 1 h 2 g u 3 by (cases d) (auto simp: SaveIdea_def)
  have w': "w' = w3" using e ne o 1 h 2 g u 3 d by (auto simp: SaveIdea_def)
  have "ledger (gw_repo w3) = (ledger (gw_repo w2))\<lparr>ld_saved := insert (usr, i) (ld_saved (ledger (gw_repo w2)))\<rparr>"
    using store.save_ok [OF r2(2), of usr x z "gw_repo w3"] f3 d i(1) by auto
  moreover have "callerID cx = [] \<or> callerID cx = usr"
    using o by (auto simp: requireOwner_def split: if_splits)
  ultimately show ?thesis using i q u w' r1 r2 by (intro exI [of _ i] exI [of _ y] exI [of _ q]) simp
qed

end

interpretation pgs: gen_service "pg_gen_repo up" gg_ledger "gg_inv up" up gg_healthy vk_cache vk_view
  bus_publisher bus_Jobs bus_Ready
  by intro_locales

interpretation mems: gen_service mem_repo mem_ledger mem_inv Some "\<lambda>_. True" mem_cache mem_view
  bus_publisher bus_Jobs bus_Ready
  by intro_locales

section \<open>Properties on Postgres and Valkey\<close>

abbreviation ex_gen_ctx :: "string \<Rightarrow> time \<Rightarrow> gen_ctx" where
  "ex_gen_ctx u t \<equiv>
     \<lparr>gc_md = Some [(''x-user-id'', [''ann''])], gc_uuid = u, gc_idem = t, gc_idem2 = t, gc_now = t, gc_stat = t\<rparr>"

abbreviation ex_gen_rq :: generation_rq where
  "ex_gen_rq \<equiv>
     \<lparr>gn_user_id = ''ann'', gn_holiday_id = ''h1'', gn_budget_band = ''low'', gn_preferences_text = ''tea'',
      gn_poll_id = [], gn_tier = MT_UNSPECIFIED, gn_idempotency_key = ''k''\<rparr>"

definition ex_gen_server :: "(gen_pg, gen_valkey, unit bus) gen_server" where
  "ex_gen_server = gen_NewServer (pg_gen_repo Some) vk_cache bus_publisher 0 0"

definition ex_gen_world :: "bool list \<Rightarrow> (gen_pg, gen_valkey, unit bus, unit) gen_world" where
  "ex_gen_world fs =
     \<lparr>gw_repo = \<lparr>gg_requests = [], gg_ideas = [], gg_saved = [], gg_now = [7], gg_uuids = [], gg_faults = fs\<rparr>,
      gw_cache = \<lparr>vk_keys = (\<lambda>_. None), vk_faults = []\<rparr>, gw_pub = NewBus False (), gw_out = ()\<rparr>"

lemma empty_stores:
  assumes "gg_requests (gw_repo w) = []" and "vk_keys (gw_cache w) = (\<lambda>_. None)" and "uuid_parse_ok up"
  shows "gg_inv up (gw_repo w)"
    and "slots_agree vk_view up (gw_cache w) (gg_ledger (gw_repo w))"
    and "u \<noteq> [] \<Longrightarrow> up u = Some u \<Longrightarrow> fresh_uuid vk_view up (gw_cache w) (gg_ledger (gw_repo w)) u"
    and "\<not> has_key (gg_ledger (gw_repo w)) k"
  using assms
  by (simp_all add: gg_inv_def slots_agree_def fresh_uuid_def gg_ledger_def vk_view_def vk_live_def has_key_def)

lemma ex_gen_empty:
  "gg_requests (gw_repo (ex_gen_world fs)) = []" "vk_keys (gw_cache (ex_gen_world fs)) = (\<lambda>_. None)"
  "uuid_parse_ok Some" "serves ex_gen_server (pg_gen_repo Some) vk_cache bus_publisher"
  by (simp_all add: ex_gen_world_def uuid_parse_ok_def ex_gen_server_def)

text \<open>C2: However often clients submit an idempotency key, and whatever store, cache and broker
  failures occur in between, one key leads to at most one generation job, the job's request is
  persisted under that key, and a key that already had its request leads to none.\<close>

theorem surprise_one_job_per_key:
  assumes "gg_inv up (gw_repo w)" and "slots_agree vk_view up (gw_cache w) (gg_ledger (gw_repo w))"
    and "\<forall>c \<in> set cs. fresh_uuid vk_view up (gw_cache w) (gg_ledger (gw_repo w)) (gc_uuid (fst c))"
    and "distinct (map (\<lambda>c. gc_uuid (fst c)) cs)"
    and "serves sv (pg_gen_repo up) vk_cache bus_publisher" and "submissions sv cs w = (rs, w')"
  shows "\<exists>new. bus_Jobs (gw_pub w') = bus_Jobs (gw_pub w) @ new \<and>
    (\<forall>j \<in> set new. ld_requests (gg_ledger (gw_repo w')) (ge_RequestID j) \<noteq> None) \<and>
    (\<forall>k. length (filter (\<lambda>j. \<exists>q. ld_requests (gg_ledger (gw_repo w')) (ge_RequestID j) = Some q \<and>
        gr_IdempotencyKey q = k) new) \<le> (if has_key (gg_ledger (gw_repo w)) k then 0 else 1))"
proof -
  let ?l = "gg_ledger (gw_repo w)" and ?l' = "gg_ledger (gw_repo w')"
  note eff = pgs.submissions_effect [OF assms(5, 1-4, 6)]
  then obtain new where new: "bus_Jobs (gw_pub w') = bus_Jobs (gw_pub w) @ new" "distinct (map ge_RequestID new)"
    "\<forall>j \<in> set new. ld_requests ?l (ge_RequestID j) = None \<and> ld_requests ?l' (ge_RequestID j) \<noteq> None"
    by blast
  have v': "gg_inv up (gw_repo w')" and grow: "\<And>i q. ld_requests ?l i = Some q \<Longrightarrow> ld_requests ?l' i = Some q"
    using eff by blast+
  have "length (filter (\<lambda>j. \<exists>q. ld_requests ?l' (ge_RequestID j) = Some q \<and> gr_IdempotencyKey q = k) new)
      \<le> (if has_key ?l k then 0 else 1)" for k
  proof (cases "has_key ?l k")
    case True
    then obtain i q where i: "ld_requests ?l i = Some q" "gr_IdempotencyKey q = k"
      by (auto simp: has_key_def)
    have "gr_IdempotencyKey q' \<noteq> k" if "j \<in> set new" "ld_requests ?l' (ge_RequestID j) = Some q'" for j q'
      using pg_gen.one_key [OF v' grow [OF i(1)] that(2)] i new(3) that(1) by auto
    with True show ?thesis by (simp add: filter_empty_conv)
  next
    case False
    let ?xs = "filter (\<lambda>j. \<exists>q. ld_requests ?l' (ge_RequestID j) = Some q \<and> gr_IdempotencyKey q = k) new"
    have "ge_RequestID a = ge_RequestID b" if "a \<in> set ?xs" "b \<in> set ?xs" for a b
      using that pg_gen.one_key [OF v'] by (auto simp: has_key_def)
    then have "length ?xs \<le> 1"
      using new(2) by (intro all_same_key_le1 [of ge_RequestID]) (auto intro: distinct_map_filter)
    with False show ?thesis by simp
  qed
  with new show ?thesis by blast
qed

lemma surprise_one_job_per_key_witness:
  "let cs = [(ex_gen_ctx ''u1'' 5, ex_gen_rq), (ex_gen_ctx ''u2'' 9, ex_gen_rq)];
       w' = snd (submissions ex_gen_server cs (ex_gen_world [False])) in
   bus_Jobs (gw_pub w') = [\<lparr>ge_RequestID = ''u1'', ge_Tier = TierSonnet\<rparr>] \<and>
   (\<exists>new. bus_Jobs (gw_pub w') = bus_Jobs (gw_pub (ex_gen_world [False])) @ new \<and>
    (\<forall>j \<in> set new. ld_requests (gg_ledger (gw_repo w')) (ge_RequestID j) \<noteq> None) \<and>
    (\<forall>k. length (filter (\<lambda>j. \<exists>q. ld_requests (gg_ledger (gw_repo w')) (ge_RequestID j) = Some q \<and>
        gr_IdempotencyKey q = k) new) \<le> (if has_key (gg_ledger (gw_repo (ex_gen_world [False]))) k then 0 else 1)))"
proof -
  let ?w = "ex_gen_world [False]" and ?cs = "[(ex_gen_ctx ''u1'' 5, ex_gen_rq), (ex_gen_ctx ''u2'' 9, ex_gen_rq)]"
  have "bus_Jobs (gw_pub (snd (submissions ex_gen_server ?cs ?w))) = [\<lparr>ge_RequestID = ''u1'', ge_Tier = TierSonnet\<rparr>]"
    by code_simp
  moreover note surprise_one_job_per_key [of Some ?w ?cs ex_gen_server "fst (submissions ex_gen_server ?cs ?w)"
    "snd (submissions ex_gen_server ?cs ?w)"]
  ultimately show ?thesis
    unfolding Let_def using empty_stores [OF ex_gen_empty(1,2) [of "[False]"] ex_gen_empty(3)] ex_gen_empty(4) by simp
qed

text \<open>C22: After any run of submissions from empty stores, with any failures in them, a key whose
  request was persisted answers a further submission with that request's id and current status,
  enqueues nothing and changes no row, unless the cache itself fails; this holds whether the
  cache slot is still there, expired, or was won by an attempt that never persisted.\<close>

theorem surprise_resubmit_same_request:
  assumes "gg_requests (gw_repo w0) = []" and "vk_keys (gw_cache w0) = (\<lambda>_. None)" and "uuid_parse_ok up"
    and "\<forall>u \<in> set (gc_uuid cx # map (\<lambda>c. gc_uuid (fst c)) cs). u \<noteq> [] \<and> up u = Some u"
    and "distinct (gc_uuid cx # map (\<lambda>c. gc_uuid (fst c)) cs)"
    and "serves sv (pg_gen_repo up) vk_cache bus_publisher" and "submissions sv cs w0 = (rs, w)"
    and "gg_healthy (gw_repo w)"
    and "ld_requests (gg_ledger (gw_repo w)) i = Some q" and "gr_IdempotencyKey q = gn_idempotency_key rq"
    and "gn_user_id rq \<noteq> []" and "gn_holiday_id rq \<noteq> []" and "gn_budget_band rq \<noteq> []"
    and "gn_idempotency_key rq \<noteq> []" and "RequestGeneration sv cx rq w = (r, w')"
  shows "gg_ledger (gw_repo w') = gg_ledger (gw_repo w) \<and> bus_Jobs (gw_pub w') = bus_Jobs (gw_pub w) \<and>
    (r = Inr \<lparr>gp_request_id = gr_ID q, gp_status = statusToProto (gr_Status q)\<rparr> \<or>
     r = Inl (Status Internal ''idempotency check failed''))"
proof -
  note e = empty_stores [OF assms(1-3)]
  have fr: "\<forall>c \<in> set cs. fresh_uuid vk_view up (gw_cache w0) (gg_ledger (gw_repo w0)) (gc_uuid (fst c))"
    and fu: "fresh_uuid vk_view up (gw_cache w0) (gg_ledger (gw_repo w0)) (gc_uuid cx)"
    using assms(4) e(3) by auto
  have di: "distinct (map (\<lambda>c. gc_uuid (fst c)) cs)" using assms(5) by simp
  note eff = pgs.submissions_effect [OF assms(6) e(1, 2) fr di assms(7)]
  have "fresh_uuid vk_view up (gw_cache w) (gg_ledger (gw_repo w)) (gc_uuid cx)"
    using eff fu assms(5) by simp
  then show ?thesis
    using pgs.resubmit_returns [OF assms(6) _ assms(8) _ _ assms(9-15)] eff by (simp add: reply_of_def)
qed

text \<open>Here the first attempt fails to persist and leaves its slot, the slot expires, the second
  attempt persists, its slot expires too, and the third attempt wins the slot again.\<close>

lemma surprise_resubmit_same_request_witness:
  "fst (RequestGeneration ex_gen_server (ex_gen_ctx ''u3'' (200000 * ns_per_sec)) ex_gen_rq
     (snd (submissions ex_gen_server
        [(ex_gen_ctx ''u1'' 5, ex_gen_rq), (ex_gen_ctx ''u2'' (100000 * ns_per_sec), ex_gen_rq)]
        (ex_gen_world [True]))))
   = Inr \<lparr>gp_request_id = ''u2'', gp_status = GS_QUEUED\<rparr>"
proof -
  let ?wz = "ex_gen_world [True]"
  let ?cs = "[(ex_gen_ctx ''u1'' 5, ex_gen_rq), (ex_gen_ctx ''u2'' (100000 * ns_per_sec), ex_gen_rq)]"
  let ?w = "snd (submissions ex_gen_server ?cs ?wz)" and ?cx = "ex_gen_ctx ''u3'' (200000 * ns_per_sec)"
  let ?q = "\<lparr>gr_ID = ''u2'', gr_UserID = ''ann'', gr_HolidayID = ''h1'', gr_BudgetBand = ''low'',
      gr_PreferencesText = ''tea'', gr_PollID = [], gr_IdempotencyKey = ''k'', gr_Status = StatusQueued,
      gr_Tier = TierSonnet, gr_Refinement = [], gr_CreatedAt = 7\<rparr>"
  have 1: "gg_healthy (gw_repo ?w)" by code_simp
  have 2: "ld_requests (gg_ledger (gw_repo ?w)) ''u2'' = Some ?q" by code_simp
  have 3: "fst (RequestGeneration ex_gen_server ?cx ex_gen_rq ?w) \<noteq> Inl (Status Internal ''idempotency check failed'')"
    by code_simp
  have 4: "submissions ex_gen_server ?cs ?wz = (fst (submissions ex_gen_server ?cs ?wz), ?w)"
    by (rule prod.collapse [symmetric])
  have 5: "RequestGeneration ex_gen_server ?cx ex_gen_rq ?w =
      (fst (RequestGeneration ex_gen_server ?cx ex_gen_rq ?w), snd (RequestGeneration ex_gen_server ?cx ex_gen_rq ?w))"
    by (rule prod.collapse [symmetric])
  have 6: "\<forall>u \<in> set (gc_uuid ?cx # map (\<lambda>c. gc_uuid (fst c)) ?cs). u \<noteq> [] \<and> Some u = Some u"
    "distinct (gc_uuid ?cx # map (\<lambda>c. gc_uuid (fst c)) ?cs)" by simp_all
  from surprise_resubmit_same_request [OF ex_gen_empty(1,2,3) 6 ex_gen_empty(4) 4 1 2 _ _ _ _ _ 5]
  have "fst (RequestGeneration ex_gen_server ?cx ex_gen_rq ?w) =
      Inr \<lparr>gp_request_id = gr_ID ?q, gp_status = statusToProto (gr_Status ?q)\<rparr>"
    using 3 by (simp del: submissions.simps)
  then show ?thesis by (simp del: submissions.simps)
qed

text \<open>A submission that won the cache slot and then failed to persist leaves the slot behind:
  as long as the slot lives, a retry with the same key is answered OK and QUEUED with the id of
  a request that does not exist, and no job is ever enqueued for it.\<close>

theorem surprise_lost_generation:
  assumes "serves sv (pg_gen_repo up) vk_cache bus_publisher" and "gg_inv up (gw_repo w)"
    and "fresh_uuid vk_view up (gw_cache w) (gg_ledger (gw_repo w)) (gc_uuid cx)"
    and "\<not> has_key (gg_ledger (gw_repo w)) (gn_idempotency_key rq)"
    and "RequestGeneration sv cx rq w = (Inl (Status Internal ''persist request failed''), w1)"
    and "gn_idempotency_key rq' = gn_idempotency_key rq"
    and "gc_idem cx' \<le> gc_idem cx + gs_IdempotencyTTL sv - ns_per_sec"
    and "gc_idem2 cx' \<le> gc_idem cx + gs_IdempotencyTTL sv - ns_per_sec"
    and "RequestGeneration sv cx' rq' w1 = (Inr rp, w2)"
  shows "rp = \<lparr>gp_request_id = gc_uuid cx, gp_status = GS_QUEUED\<rparr> \<and>
    \<not> has_key (gg_ledger (gw_repo w2)) (gn_idempotency_key rq) \<and>
    ld_requests (gg_ledger (gw_repo w2)) (gc_uuid cx) = None \<and> bus_Jobs (gw_pub w2) = bus_Jobs (gw_pub w)"
  using pgs.lost_generation [OF assms] assms(3, 4) by (simp add: fresh_uuid_def)

lemma surprise_lost_generation_witness:
  "let w1 = snd (RequestGeneration ex_gen_server (ex_gen_ctx ''u1'' 5) ex_gen_rq (ex_gen_world [True]));
       rw = RequestGeneration ex_gen_server (ex_gen_ctx ''u2'' 9) ex_gen_rq w1 in
   fst rw = Inr \<lparr>gp_request_id = ''u1'', gp_status = GS_QUEUED\<rparr> \<and>
   ld_requests (gg_ledger (gw_repo (snd rw))) ''u1'' = None \<and> bus_Jobs (gw_pub (snd rw)) = []"
proof -
  let ?w = "ex_gen_world [True]" and ?cx = "ex_gen_ctx ''u1'' 5" and ?cx' = "ex_gen_ctx ''u2'' 9"
  let ?w1 = "snd (RequestGeneration ex_gen_server ?cx ex_gen_rq ?w)"
  let ?w2 = "snd (RequestGeneration ex_gen_server ?cx' ex_gen_rq ?w1)"
  have 1: "RequestGeneration ex_gen_server ?cx ex_gen_rq ?w = (Inl (Status Internal ''persist request failed''), ?w1)"
  proof -
    have "fst (RequestGeneration ex_gen_server ?cx ex_gen_rq ?w) = Inl (Status Internal ''persist request failed'')"
      by code_simp
    then show ?thesis by (simp add: prod_eq_iff)
  qed
  have 2: "fst (RequestGeneration ex_gen_server ?cx' ex_gen_rq ?w1) = Inr \<lparr>gp_request_id = ''u1'', gp_status = GS_QUEUED\<rparr>"
    by code_simp
  have t: "gs_IdempotencyTTL ex_gen_server = 24 * 3600 * ns_per_sec"
    by (simp add: ex_gen_server_def gen_NewServer_def)
  have j: "bus_Jobs (gw_pub ?w) = []" by (simp add: ex_gen_world_def NewBus_def)
  from 2 have 3: "RequestGeneration ex_gen_server ?cx' ex_gen_rq ?w1 =
      (Inr \<lparr>gp_request_id = ''u1'', gp_status = GS_QUEUED\<rparr>, ?w2)"
    by (simp add: prod_eq_iff)
  show ?thesis
    using surprise_lost_generation [of ex_gen_server Some ?w ?cx ex_gen_rq ?w1 ex_gen_rq ?cx'
        "\<lparr>gp_request_id = ''u1'', gp_status = GS_QUEUED\<rparr>" ?w2] 1 2 3 t j
      empty_stores [OF ex_gen_empty(1,2) [of "[True]"] ex_gen_empty(3)] ex_gen_empty(4)
    by (simp add: ns_per_sec_def)
qed

lemma ex_gen_submitted:
  "gg_inv Some (gw_repo (snd (RequestGeneration ex_gen_server (ex_gen_ctx ''u1'' 5) ex_gen_rq (ex_gen_world []))))"
  (is "gg_inv Some (gw_repo ?w)")
proof -
  have "gg_requests (gw_repo ?w) = [\<lparr>gq_id = ''u1'', gq_user_id = ''ann'', gq_holiday_id = ''h1'',
      gq_budget_band = ''low'', gq_preferences_text = ''tea'', gq_poll_id = None, gq_idempotency_key = ''k'',
      gq_status = StatusQueued, gq_model_tier = TierSonnet, gq_refinement = [], gq_created_at = 7\<rparr>]"
    by code_simp
  then show ?thesis by (simp add: gg_inv_def uuid_parse_ok_def)
qed

text \<open>C23: Only the owner reaches a request: a caller the gateway names reads the ideas of, refines
  and saves ideas of his own requests only. What is read is exactly the stored ranked list, a
  refinement re-queues exactly that request and its job, and a favourite is recorded for an idea
  of a request of that user. A refused refinement changes nothing.\<close>

theorem surprise_owner_scoped:
  assumes "serves sv (pg_gen_repo up) vk_cache bus_publisher" and "gg_inv up (gw_repo w)" and "callerID cx \<noteq> []"
  shows "(GetIdeas sv cx j w = (Inr xs, w1) \<longrightarrow>
      gg_ledger (gw_repo w1) = gg_ledger (gw_repo w) \<and>
      (\<exists>q. up j = Some (gr_ID q) \<and> ld_requests (gg_ledger (gw_repo w)) (gr_ID q) = Some q \<and>
         gr_UserID q = callerID cx \<and> xs = map ideaToProto (ld_ideas (gg_ledger (gw_repo w)) (gr_ID q)))) \<and>
    (Refine sv cx j tx w = (Inr rp, w2) \<longrightarrow>
      (\<exists>q. up j = Some (gr_ID q) \<and> ld_requests (gg_ledger (gw_repo w)) (gr_ID q) = Some q \<and>
         gr_UserID q = callerID cx \<and> rp = \<lparr>gp_request_id = gr_ID q, gp_status = GS_QUEUED\<rparr> \<and>
         gg_ledger (gw_repo w2) = (gg_ledger (gw_repo w))
           \<lparr>ld_requests := (ld_requests (gg_ledger (gw_repo w)))
             (gr_ID q \<mapsto> q\<lparr>gr_Refinement := tx, gr_Status := StatusQueued\<rparr>)\<rparr> \<and>
         bus_Jobs (gw_pub w2) = bus_Jobs (gw_pub w) @ [\<lparr>ge_RequestID = gr_ID q, ge_Tier = gr_Tier q\<rparr>])) \<and>
    (Refine sv cx j tx w = (Inl (Status PermissionDenied m), w3) \<longrightarrow>
      gg_ledger (gw_repo w3) = gg_ledger (gw_repo w) \<and> bus_Jobs (gw_pub w3) = bus_Jobs (gw_pub w)) \<and>
    (SaveIdea sv cx usr x w = (Inr b, w4) \<longrightarrow>
      usr = callerID cx \<and>
      (\<exists>i y q. up x = Some i \<and> ld_idea (gg_ledger (gw_repo w)) i = Some y \<and>
         up (gi_RequestID y) = Some (gr_ID q) \<and> ld_requests (gg_ledger (gw_repo w)) (gr_ID q) = Some q \<and>
         gr_UserID q = usr \<and>
         gg_ledger (gw_repo w4) = (gg_ledger (gw_repo w))
           \<lparr>ld_saved := insert (usr, i) (ld_saved (gg_ledger (gw_repo w)))\<rparr>))"
proof (intro conjI impI)
  assume "GetIdeas sv cx j w = (Inr xs, w1)"
  from pgs.ideas_owner [OF assms(1, 2) this] assms(3)
  show "gg_ledger (gw_repo w1) = gg_ledger (gw_repo w)"
    "\<exists>q. up j = Some (gr_ID q) \<and> ld_requests (gg_ledger (gw_repo w)) (gr_ID q) = Some q \<and>
         gr_UserID q = callerID cx \<and> xs = map ideaToProto (ld_ideas (gg_ledger (gw_repo w)) (gr_ID q))"
    by auto
next
  assume "Refine sv cx j tx w = (Inr rp, w2)"
  from pgs.refine_effect [OF assms(1, 2) this] assms(3)
  show "\<exists>q. up j = Some (gr_ID q) \<and> ld_requests (gg_ledger (gw_repo w)) (gr_ID q) = Some q \<and>
         gr_UserID q = callerID cx \<and> rp = \<lparr>gp_request_id = gr_ID q, gp_status = GS_QUEUED\<rparr> \<and>
         gg_ledger (gw_repo w2) = (gg_ledger (gw_repo w))
           \<lparr>ld_requests := (ld_requests (gg_ledger (gw_repo w)))
             (gr_ID q \<mapsto> q\<lparr>gr_Refinement := tx, gr_Status := StatusQueued\<rparr>)\<rparr> \<and>
         bus_Jobs (gw_pub w2) = bus_Jobs (gw_pub w) @ [\<lparr>ge_RequestID = gr_ID q, ge_Tier = gr_Tier q\<rparr>]"
    by auto
next
  assume "Refine sv cx j tx w = (Inl (Status PermissionDenied m), w3)"
  from pgs.refine_effect [OF assms(1, 2) this]
  show "gg_ledger (gw_repo w3) = gg_ledger (gw_repo w)" "bus_Jobs (gw_pub w3) = bus_Jobs (gw_pub w)"
    by auto
next
  assume "SaveIdea sv cx usr x w = (Inr b, w4)"
  from pgs.save_idea_owner [OF assms(1, 2) this] assms(3)
  show "usr = callerID cx"
    "\<exists>i y q. up x = Some i \<and> ld_idea (gg_ledger (gw_repo w)) i = Some y \<and>
         up (gi_RequestID y) = Some (gr_ID q) \<and> ld_requests (gg_ledger (gw_repo w)) (gr_ID q) = Some q \<and>
         gr_UserID q = usr \<and>
         gg_ledger (gw_repo w4) = (gg_ledger (gw_repo w))
           \<lparr>ld_saved := insert (usr, i) (ld_saved (gg_ledger (gw_repo w)))\<rparr>"
    by auto
qed

lemma surprise_owner_scoped_witness:
  "let w = snd (RequestGeneration ex_gen_server (ex_gen_ctx ''u1'' 5) ex_gen_rq (ex_gen_world []));
       rw = Refine ex_gen_server (ex_gen_ctx ''u2'' 9) ''u1'' ''cheaper'' w in
   fst rw = Inr \<lparr>gp_request_id = ''u1'', gp_status = GS_QUEUED\<rparr> \<and>
   (\<exists>q. gr_ID q = ''u1'' \<and> gr_UserID q = ''ann'' \<and>
      ld_requests (gg_ledger (gw_repo (snd rw))) ''u1'' =
        Some (q\<lparr>gr_Refinement := ''cheaper'', gr_Status := StatusQueued\<rparr>))"
proof -
  let ?w = "snd (RequestGeneration ex_gen_server (ex_gen_ctx ''u1'' 5) ex_gen_rq (ex_gen_world []))"
  let ?cx = "ex_gen_ctx ''u2'' 9"
  let ?rw = "Refine ex_gen_server ?cx ''u1'' ''cheaper'' ?w"
  have 1: "fst ?rw = Inr \<lparr>gp_request_id = ''u1'', gp_status = GS_QUEUED\<rparr>" by code_simp
  then have 2: "?rw = (Inr \<lparr>gp_request_id = ''u1'', gp_status = GS_QUEUED\<rparr>, snd ?rw)"
    by (simp add: prod_eq_iff)
  note 3 = ex_gen_submitted
  have 4: "callerID ?cx = ''ann''" by code_simp
  then have "callerID ?cx \<noteq> []" by simp
  from surprise_owner_scoped [OF ex_gen_empty(4) 3 this] 2 obtain q where
    "Some ''u1'' = Some (gr_ID q)" "gr_UserID q = callerID ?cx"
    "gg_ledger (gw_repo (snd ?rw)) = (gg_ledger (gw_repo ?w))
           \<lparr>ld_requests := (ld_requests (gg_ledger (gw_repo ?w)))
             (gr_ID q \<mapsto> q\<lparr>gr_Refinement := ''cheaper'', gr_Status := StatusQueued\<rparr>)\<rparr>"
    by blast
  then have "gr_ID q = ''u1'' \<and> gr_UserID q = ''ann'' \<and>
      ld_requests (gg_ledger (gw_repo (snd ?rw))) ''u1'' =
        Some (q\<lparr>gr_Refinement := ''cheaper'', gr_Status := StatusQueued\<rparr>)"
    using 4 by simp
  with 1 show ?thesis unfolding Let_def by blast
qed

end
