(* ===== verification/Surprise_Pipeline.thy ===== *)
theory Surprise_Pipeline
  imports Surprise_Server
begin

text \<open>
  The generation pipeline of the Surprise service
  (\<open>services/backend/surprise/internal/pipeline/pipeline.go\<close>, \<open>worker.go\<close>), the ports it calls
  (\<open>llm/llm.go\<close>, \<open>clients/clients.go\<close>) and its deterministic fake model. The model, the Poll and
  the Catalog services work on \<open>gw_out\<close>, the part of the world outside the service. A job's
  context gives the instant of its n-th cache command, and for the n-th idea kept the uuid and
  the clock reading it is stamped with.
\<close>

section \<open>The model and the other services (llm.go, clients.go)\<close>

datatype llm_tier = LlmSonnet | LlmOpus | LlmModeration | LlmTier string

record generate_params =
  gm_Holiday :: string
  gm_BudgetBand :: string
  gm_Preferences :: string
  gm_PollAnswers :: "string list"
  gm_Inspiration :: "string list"
  gm_Refinement :: string
  gm_N :: int
  gm_Tier :: llm_tier

record llm_idea =
  li_Title :: string
  li_WhyItFits :: string
  li_RoughCost :: string
  li_HowTo :: string

text \<open>Both callers of \<open>Embed\<close> drop its error, so only the vector is kept.\<close>

record 'm llm_client =
  ll_GenerateIdeas :: "generate_params \<Rightarrow> 'm \<Rightarrow> (unit + llm_idea list) \<times> 'm"
  ll_Moderate :: "string \<Rightarrow> 'm \<Rightarrow> (unit + bool) \<times> 'm"
  ll_Embed :: "string \<Rightarrow> 'm \<Rightarrow> float32 list \<times> 'm"

type_synonym 'm poll_port = "string \<Rightarrow> 'm \<Rightarrow> (unit + string list) \<times> 'm"

type_synonym 'm catalog_port =
  "string \<Rightarrow> float32 list \<Rightarrow> string \<Rightarrow> int \<Rightarrow> 'm \<Rightarrow> (unit + string list) \<times> 'm"

subsection \<open>FakeClient\<close>

record 'm fake_client =
  fk_Calls :: nat
  fk_more :: 'm

text \<open>The default behaviours; a \<open>GenerateFunc\<close> or \<open>ModerateFunc\<close> that is set replaces them.\<close>

definition fake_GenerateIdeas ::
  "(generate_params \<Rightarrow> 'm \<Rightarrow> (unit + llm_idea list) \<times> 'm) option \<Rightarrow> generate_params \<Rightarrow> 'm fake_client \<Rightarrow>
   (unit + llm_idea list) \<times> 'm fake_client" where
  "fake_GenerateIdeas generateFunc p f0 =
     (let f = f0\<lparr>fk_Calls := fk_Calls f0 + 1\<rparr> in
      case generateFunc of
        Some g \<Rightarrow> (let (r, m) = g p (fk_more f) in (r, f\<lparr>fk_more := m\<rparr>))
      | None \<Rightarrow>
          (let n = (if gm_N p \<le> 0 then 3 else gm_N p) in
           (Inr (map (\<lambda>i. \<lparr>li_Title = gm_Holiday p @ '' idea '' @ fmt_nat (i + 1),
                   li_WhyItFits = ''Fits '' @ gm_Holiday p @ '' within '' @ gm_BudgetBand p @ '': '' @ gm_Preferences p,
                   li_RoughCost = gm_BudgetBand p,
                   li_HowTo = ''Step-by-step plan #'' @ fmt_nat (i + 1)\<rparr>) [0..<nat n]), f)))"

definition fake_Moderate ::
  "(string \<Rightarrow> 'm \<Rightarrow> (unit + bool) \<times> 'm) option \<Rightarrow> string \<Rightarrow> 'm fake_client \<Rightarrow> (unit + bool) \<times> 'm fake_client" where
  "fake_Moderate moderateFunc tx f =
     (case moderateFunc of
        Some g \<Rightarrow> (let (r, m) = g tx (fk_more f) in (r, f\<lparr>fk_more := m\<rparr>))
      | None \<Rightarrow> (Inr (\<not> Contains (ToLower tx) ''unsafe''), f))"

subsection \<open>The gRPC clients\<close>

text \<open>A response is the list of its (question, answer) pairs.\<close>

definition pollClient_GetResponses ::
  "(string \<Rightarrow> 'm \<Rightarrow> (unit + (string \<times> string) list list) \<times> 'm) \<Rightarrow> 'm poll_port" where
  "pollClient_GetResponses stub pollID m =
     (let (r, m') = stub pollID m in
      case r of
        Inl e \<Rightarrow> (Inl e, m')
      | Inr rs \<Rightarrow> (Inr (concat (map (map (\<lambda>(q, a). q @ '': '' @ a)) rs)), m'))"

datatype search_query = QueryEmbedding "float32 list" | QueryText string

definition catalogClient_SearchInspiration ::
  "(search_query \<Rightarrow> string \<Rightarrow> 32 word \<Rightarrow> 'm \<Rightarrow> (unit + (string \<times> string) list) \<times> 'm) \<Rightarrow> 'm catalog_port" where
  "catalogClient_SearchInspiration stub queryText embedding budget topK m =
     (if embedding = [] \<and> queryText = [] then (Inr [], m)
      else
        let q = (if embedding \<noteq> [] then QueryEmbedding embedding else QueryText queryText);
            (r, m') = stub q budget (word_of_int topK) m in
        case r of
          Inl e \<Rightarrow> (Inl e, m')
        | Inr ss \<Rightarrow> (Inr (map (\<lambda>(t, b). t @ [CHR 0x20, CHR 0xE2, CHR 0x80, CHR 0x94, CHR 0x20] @ b) ss), m'))"

section \<open>Normalised inputs\<close>

text \<open>\<open>strings.Fields\<close>: the maximal runs of bytes that no white-space rune starts.\<close>

function fields_loop :: "string \<Rightarrow> string \<Rightarrow> string list" where
  "fields_loop cur s =
     (case find (\<lambda>p. p \<noteq> [] \<and> prefix p s) space_runes of
        Some p \<Rightarrow> (if cur = [] then [] else [rev cur]) @ fields_loop [] (drop (length p) s)
      | None \<Rightarrow>
          (case s of
             [] \<Rightarrow> (if cur = [] then [] else [rev cur])
           | x # xs \<Rightarrow> fields_loop (x # cur) xs))"
  by pat_completeness auto
termination
proof (relation "measure (\<lambda>(cur, s). length s)")
  show "wf (measure (\<lambda>(cur :: string, s :: string). length s))" by simp
next
  fix cur s :: string and p
  assume "find (\<lambda>p. p \<noteq> [] \<and> prefix p s) space_runes = Some p"
  then have "p \<noteq> []" "prefix p s" by (auto simp: find_Some_iff)
  then have "0 < length p" and "length p \<le> length s" by (simp_all add: prefix_length_le)
  then have "length (drop (length p) s) < length s" unfolding length_drop by linarith
  then show "(([], drop (length p) s), cur, s) \<in> measure (\<lambda>(cur, s). length s)" by simp
next
  fix cur s :: string and x xs
  assume "find (\<lambda>p. p \<noteq> [] \<and> prefix p s) space_runes = None" and "s = x # xs"
  then show "((x # cur, xs), cur, s) \<in> measure (\<lambda>(cur, s). length s)" by simp
qed

declare fields_loop.simps [simp del]

definition Fields :: "string \<Rightarrow> string list" where
  "Fields s = fields_loop [] s"

definition norm :: "string \<Rightarrow> string" where
  "norm s = Join (Fields (ToLower s)) '' ''"

fun tier_text :: "tier \<Rightarrow> string" where
  "tier_text TierSonnet = ''sonnet''"
| "tier_text TierOpus = ''opus''"
| "tier_text (TierText s) = s"

definition hash_parts :: "gen_request \<Rightarrow> int \<Rightarrow> string list" where
  "hash_parts req n =
     [norm (gr_HolidayID req), norm (gr_BudgetBand req), norm (gr_PreferencesText req),
      norm (gr_PollID req), norm (gr_Refinement req), tier_text (gr_Tier req), ''n='' @ fmt_int n]"

text \<open>\<open>H\<close> is the hex form of SHA-256.\<close>

definition hashInputs :: "(string \<Rightarrow> string) \<Rightarrow> gen_request \<Rightarrow> int \<Rightarrow> string" where
  "hashInputs H req n = H (Join (hash_parts req n) [CHR 0x1F])"

definition groundingQuery :: "gen_request \<Rightarrow> string" where
  "groundingQuery req =
     TrimSpace (gr_HolidayID req @ '' '' @ gr_BudgetBand req @ '' '' @ gr_PreferencesText req @ '' '' @
       gr_Refinement req)"

fun tierFor :: "tier \<Rightarrow> llm_tier" where
  "tierFor TierOpus = LlmOpus"
| "tierFor _ = LlmSonnet"

definition toCandidates :: "llm_idea list \<Rightarrow> gift_idea list" where
  "toCandidates = map (\<lambda>g.
     \<lparr>gi_ID = [], gi_RequestID = [], gi_Title = li_Title g, gi_WhyItFits = li_WhyItFits g,
      gi_RoughCost = li_RoughCost g, gi_HowTo = li_HowTo g, gi_Rank = 0,
      gi_Moderation = ModerationText [], gi_Embedding = [], gi_CreatedAt = go_zero_time\<rparr>)"

section \<open>The pipeline\<close>

record ('s, 'c, 'p, 'm) pipeline =
  pl_repo :: "'s gen_repo"
  pl_cache :: "'c gen_cache"
  pl_llm :: "'m llm_client"
  pl_poll :: "'m poll_port option"
  pl_catalog :: "'m catalog_port option"
  pl_pub :: "'p gen_publisher"
  pl_IdeasWanted :: int
  pl_StatusTTL :: duration
  pl_LLMCacheTTL :: duration
  pl_H :: "string \<Rightarrow> string"

record job_ctx =
  jc_at :: "nat \<Rightarrow> time"
  jc_uuid :: "nat \<Rightarrow> string"
  jc_now :: "nat \<Rightarrow> time"

definition pl_New ::
  "'s gen_repo \<Rightarrow> 'c gen_cache \<Rightarrow> 'm llm_client \<Rightarrow> 'm poll_port option \<Rightarrow> 'm catalog_port option \<Rightarrow>
   'p gen_publisher \<Rightarrow> int \<Rightarrow> duration \<Rightarrow> duration \<Rightarrow> (string \<Rightarrow> string) \<Rightarrow> ('s, 'c, 'p, 'm) pipeline" where
  "pl_New repo cache model poll catalog pub wanted statusTTL llmTTL H =
     \<lparr>pl_repo = repo, pl_cache = cache, pl_llm = model, pl_poll = poll, pl_catalog = catalog, pl_pub = pub,
      pl_IdeasWanted = (if wanted \<le> 0 then 5 else wanted), pl_StatusTTL = statusTTL,
      pl_LLMCacheTTL = llmTTL, pl_H = H\<rparr>"

definition on_out ::
  "('m \<Rightarrow> 'r \<times> 'm) \<Rightarrow> ('s, 'c, 'p, 'm) gen_world \<Rightarrow> 'r \<times> ('s, 'c, 'p, 'm) gen_world" where
  "on_out f w = (let (r, m) = f (gw_out w) in (r, w\<lparr>gw_out := m\<rparr>))"

definition setStatus ::
  "('s, 'c, 'p, 'm) pipeline \<Rightarrow> time \<Rightarrow> string \<Rightarrow> gen_status \<Rightarrow> int \<Rightarrow> ('s, 'c, 'p, 'm) gen_world \<Rightarrow>
   ('s, 'c, 'p, 'm) gen_world" where
  "setStatus pl t i st progress w =
     (let (_, w1) = on_cache (ca_SetStatus (pl_cache pl) i \<lparr>in_Status = st, in_Progress = progress\<rparr>
            (pl_StatusTTL pl) t) w in
      if st = StatusRunning then snd (on_repo (rp_SetRequestStatus (pl_repo pl) i st) w1) else w1)"

definition pl_fail ::
  "('s, 'c, 'p, 'm) pipeline \<Rightarrow> time \<Rightarrow> string \<Rightarrow> ('s, 'c, 'p, 'm) gen_world \<Rightarrow> ('s, 'c, 'p, 'm) gen_world" where
  "pl_fail pl t i w =
     snd (on_repo (rp_SetRequestStatus (pl_repo pl) i StatusFailed) (setStatus pl t i StatusFailed 0 w))"

definition cachedCandidates ::
  "('s, 'c, 'p, 'm) pipeline \<Rightarrow> time \<Rightarrow> string \<Rightarrow> ('s, 'c, 'p, 'm) gen_world \<Rightarrow>
   gift_idea list option \<times> ('s, 'c, 'p, 'm) gen_world" where
  "cachedCandidates pl t hash w =
     (let (r, w1) = on_cache (ca_GetLLMCache (pl_cache pl) hash t) w in
      case r of
        Inl _ \<Rightarrow> (None, w1)
      | Inr xs \<Rightarrow> (if xs = [] then None else Some xs, w1))"

definition gatherPoll ::
  "('s, 'c, 'p, 'm) pipeline \<Rightarrow> string \<Rightarrow> ('s, 'c, 'p, 'm) gen_world \<Rightarrow> string list \<times> ('s, 'c, 'p, 'm) gen_world" where
  "gatherPoll pl pollID w =
     (if pollID = [] then ([], w)
      else case pl_poll pl of
        None \<Rightarrow> ([], w)
      | Some port \<Rightarrow>
          (let (r, w1) = on_out (port pollID) w in
           case r of Inl _ \<Rightarrow> ([], w1) | Inr answers \<Rightarrow> (answers, w1)))"

definition gatherCatalog ::
  "('s, 'c, 'p, 'm) pipeline \<Rightarrow> gen_request \<Rightarrow> float32 list \<Rightarrow> ('s, 'c, 'p, 'm) gen_world \<Rightarrow>
   string list \<times> ('s, 'c, 'p, 'm) gen_world" where
  "gatherCatalog pl req embedding w =
     (case pl_catalog pl of
        None \<Rightarrow> ([], w)
      | Some port \<Rightarrow>
          (let (r, w1) = on_out (port (groundingQuery req) embedding (gr_BudgetBand req) (pl_IdeasWanted pl)) w in
           case r of Inl _ \<Rightarrow> ([], w1) | Inr snippets \<Rightarrow> (snippets, w1)))"

text \<open>\<open>moderateValidateRank\<close>: \<open>k\<close> ideas were kept so far, so the next rank is \<open>k + 1\<close>.\<close>

fun moderate_loop ::
  "('s, 'c, 'p, 'm) pipeline \<Rightarrow> job_ctx \<Rightarrow> gen_request \<Rightarrow> nat \<Rightarrow> gift_idea list \<Rightarrow>
   ('s, 'c, 'p, 'm) gen_world \<Rightarrow> gift_idea list \<times> ('s, 'c, 'p, 'm) gen_world" where
  "moderate_loop pl jc req k [] w = ([], w)"
| "moderate_loop pl jc req k (c # cs) w =
     (if TrimSpace (gi_Title c) = [] then moderate_loop pl jc req k cs w
      else
        let (a, w1) = on_out (ll_Moderate (pl_llm pl)
              (gi_Title c @ ''. '' @ gi_WhyItFits c @ ''. '' @ gi_HowTo c)) w in
        case a of
          Inl _ \<Rightarrow> moderate_loop pl jc req k cs w1
        | Inr approved \<Rightarrow>
            if \<not> approved then moderate_loop pl jc req k cs w1
            else
              let (emb, w2) = on_out (ll_Embed (pl_llm pl) (gi_Title c @ '' '' @ gi_WhyItFits c)) w1;
                  idea = \<lparr>gi_ID = jc_uuid jc k, gi_RequestID = gr_ID req, gi_Title = gi_Title c,
                    gi_WhyItFits = gi_WhyItFits c, gi_RoughCost = gi_RoughCost c, gi_HowTo = gi_HowTo c,
                    gi_Rank = int k + 1, gi_Moderation = ModerationApproved, gi_Embedding = emb,
                    gi_CreatedAt = jc_now jc k\<rparr>;
                  (rest, w3) = moderate_loop pl jc req (Suc k) cs w2 in
              (idea # rest, w3))"

definition moderateValidateRank ::
  "('s, 'c, 'p, 'm) pipeline \<Rightarrow> job_ctx \<Rightarrow> gen_request \<Rightarrow> gift_idea list \<Rightarrow>
   ('s, 'c, 'p, 'm) gen_world \<Rightarrow> gift_idea list \<times> ('s, 'c, 'p, 'm) gen_world" where
  "moderateValidateRank pl jc req candidates w = moderate_loop pl jc req 0 candidates w"

datatype run_error = RunLoad surprise_error | RunSave | RunSetReady | RunPublish

text \<open>Steps 4 and 5: the candidates, none when the model failed.\<close>

definition generate_candidates ::
  "('s, 'c, 'p, 'm) pipeline \<Rightarrow> job_ctx \<Rightarrow> gen_request \<Rightarrow> string \<Rightarrow> ('s, 'c, 'p, 'm) gen_world \<Rightarrow>
   gift_idea list option \<times> ('s, 'c, 'p, 'm) gen_world" where
  "generate_candidates pl jc req hash w =
     (let (pollAnswers, w1) = gatherPoll pl (gr_PollID req) w;
          (embedding, w2) = on_out (ll_Embed (pl_llm pl) (groundingQuery req)) w1;
          (inspiration, w3) = gatherCatalog pl req embedding w2;
          w4 = setStatus pl (jc_at jc 2) (gr_ID req) StatusRunning 40 w3;
          (gen, w5) = on_out (ll_GenerateIdeas (pl_llm pl)
            \<lparr>gm_Holiday = gr_HolidayID req, gm_BudgetBand = gr_BudgetBand req,
             gm_Preferences = gr_PreferencesText req, gm_PollAnswers = pollAnswers,
             gm_Inspiration = inspiration, gm_Refinement = gr_Refinement req,
             gm_N = pl_IdeasWanted pl, gm_Tier = tierFor (gr_Tier req)\<rparr>) w4 in
      case gen of
        Inl _ \<Rightarrow> (None, w5)
      | Inr g \<Rightarrow>
          (let candidates = toCandidates g;
               (_, w6) = on_cache (ca_SetLLMCache (pl_cache pl) hash candidates (pl_LLMCacheTTL pl) (jc_at jc 3)) w5
           in (Some candidates, w6)))"

text \<open>Steps 6 to 8.\<close>

definition finish_job ::
  "('s, 'c, 'p, 'm) pipeline \<Rightarrow> job_ctx \<Rightarrow> gen_request \<Rightarrow> gift_idea list \<Rightarrow> ('s, 'c, 'p, 'm) gen_world \<Rightarrow>
   run_error option \<times> ('s, 'c, 'p, 'm) gen_world" where
  "finish_job pl jc req candidates w0 =
     (let w = setStatus pl (jc_at jc 4) (gr_ID req) StatusRunning 70 w0;
          (ideas, w1) = moderateValidateRank pl jc req candidates w in
      if ideas = [] then (None, pl_fail pl (jc_at jc 5) (gr_ID req) w1)
      else
        let (a, w2) = on_repo (rp_SaveIdeas (pl_repo pl) (gr_ID req) ideas) w1 in
        case a of
          Inl _ \<Rightarrow> (Some RunSave, w2)
        | Inr _ \<Rightarrow>
            let w3 = setStatus pl (jc_at jc 6) (gr_ID req) StatusReady 100 w2;
                (b, w4) = on_repo (rp_SetRequestStatus (pl_repo pl) (gr_ID req) StatusReady) w3 in
            (case b of
               Inl _ \<Rightarrow> (Some RunSetReady, w4)
             | Inr _ \<Rightarrow>
                 let (f, w5) = on_pub (pu_IdeasReady (pl_pub pl)
                       \<lparr>ev_RequestID = gr_ID req, ev_UserID = gr_UserID req, ev_IdeaCount = length ideas\<rparr>) w4 in
                 (if f then Some RunPublish else None, w5)))"

definition pl_Run ::
  "('s, 'c, 'p, 'm) pipeline \<Rightarrow> job_ctx \<Rightarrow> generation_requested \<Rightarrow> ('s, 'c, 'p, 'm) gen_world \<Rightarrow>
   run_error option \<times> ('s, 'c, 'p, 'm) gen_world" where
  "pl_Run pl jc job w =
     (let (g, w1) = on_repo (rp_GetRequest (pl_repo pl) (ge_RequestID job)) w in
      case g of
        Inl e \<Rightarrow> (Some (RunLoad e), w1)
      | Inr req \<Rightarrow>
          let w2 = setStatus pl (jc_at jc 0) (gr_ID req) StatusRunning 10 w1;
              hash = hashInputs (pl_H pl) req (pl_IdeasWanted pl);
              (hit, w3) = cachedCandidates pl (jc_at jc 1) hash w2 in
          (case hit of
             Some candidates \<Rightarrow> finish_job pl jc req candidates w3
           | None \<Rightarrow>
               let (c, w4) = generate_candidates pl jc req hash w3 in
               (case c of
                  None \<Rightarrow> (None, pl_fail pl (jc_at jc 5) (gr_ID req) w4)
                | Some candidates \<Rightarrow> finish_job pl jc req candidates w4)))"

text \<open>The handler \<open>Worker.Start\<close> subscribes: whether the job is to be redelivered.\<close>

definition worker_handler ::
  "('s, 'c, 'p, 'm) pipeline \<Rightarrow> job_ctx \<Rightarrow> generation_requested \<Rightarrow> ('s, 'c, 'p, 'm) gen_world \<Rightarrow>
   bool \<times> ('s, 'c, 'p, 'm) gen_world" where
  "worker_handler pl jc job w = (let (r, w') = pl_Run pl jc job w in (r \<noteq> None, w'))"

section \<open>What a job does to the stores\<close>

lemma on_out_frame: "on_out f w = (r, w1) \<Longrightarrow>
    gw_repo w1 = gw_repo w \<and> gw_cache w1 = gw_cache w \<and> gw_pub w1 = gw_pub w"
  by (auto simp: on_out_def split: prod.splits)

text \<open>Two ledgers that differ at most in the status of the request \<open>i\<close>.\<close>

definition same_but_status :: "string \<Rightarrow> gen_ledger \<Rightarrow> gen_ledger \<Rightarrow> bool" where
  "same_but_status i l l' \<longleftrightarrow>
     ld_ideas l' = ld_ideas l \<and> ld_idea l' = ld_idea l \<and> ld_saved l' = ld_saved l \<and>
     (\<forall>k. k \<noteq> i \<longrightarrow> ld_requests l' k = ld_requests l k) \<and>
     map_option (\<lambda>r. r\<lparr>gr_Status := StatusQueued\<rparr>) (ld_requests l' i) =
       map_option (\<lambda>r. r\<lparr>gr_Status := StatusQueued\<rparr>) (ld_requests l i)"

lemma same_but_status_refl [simp]: "same_but_status i l l"
  by (simp add: same_but_status_def)

lemma same_but_status_trans:
  "same_but_status i l l1 \<Longrightarrow> same_but_status i l1 l2 \<Longrightarrow> same_but_status i l l2"
  by (simp add: same_but_status_def)

lemma same_but_status_set:
  "same_but_status i l (l\<lparr>ld_requests := (ld_requests l)
     (i := map_option (\<lambda>r. r\<lparr>gr_Status := st\<rparr>) (ld_requests l i))\<rparr>)"
  by (simp add: same_but_status_def option.map_comp comp_def)

lemma same_but_status_present:
  "same_but_status i l l' \<Longrightarrow> ld_requests l i = Some q \<Longrightarrow>
   \<exists>q'. ld_requests l' i = Some q' \<and> q'\<lparr>gr_Status := gr_Status q\<rparr> = q"
proof -
  assume a: "same_but_status i l l'" "ld_requests l i = Some q"
  then obtain q' where q': "ld_requests l' i = Some q'"
    "q'\<lparr>gr_Status := StatusQueued\<rparr> = q\<lparr>gr_Status := StatusQueued\<rparr>"
    by (auto simp: same_but_status_def)
  then have "(q'\<lparr>gr_Status := StatusQueued\<rparr>)\<lparr>gr_Status := gr_Status q\<rparr> =
      (q\<lparr>gr_Status := StatusQueued\<rparr>)\<lparr>gr_Status := gr_Status q\<rparr>" by simp
  then have "q'\<lparr>gr_Status := gr_Status q\<rparr> = q" by simp
  with q'(1) show ?thesis by blast
qed

text \<open>The ideas a job may store: ranked 1, 2, ... without a gap, approved, titled, of request \<open>i\<close>.\<close>

definition ranked_ideas :: "string \<Rightarrow> nat \<Rightarrow> gift_idea list \<Rightarrow> bool" where
  "ranked_ideas i k xs \<longleftrightarrow>
     map gi_Rank xs = map (\<lambda>j. int (k + j) + 1) [0..<length xs] \<and>
     (\<forall>x \<in> set xs. gi_Moderation x = ModerationApproved \<and> TrimSpace (gi_Title x) \<noteq> [] \<and> gi_RequestID x = i)"

lemma ranked_ideas_core: "ranked_ideas i k (map idea_core xs) \<longleftrightarrow> ranked_ideas i k xs"
  by (simp add: ranked_ideas_def idea_core_def comp_def)

lemma ranked_ideas_sorted: "ranked_ideas i k xs \<Longrightarrow> sort_key gi_Rank xs = xs"
  by (intro sort_key_id_if_sorted) (simp add: ranked_ideas_def sorted_iff_nth_mono)

lemma ranked_ideas_Cons:
  "gi_Rank x = int k + 1 \<Longrightarrow> gi_Moderation x = ModerationApproved \<Longrightarrow> TrimSpace (gi_Title x) \<noteq> [] \<Longrightarrow>
   gi_RequestID x = i \<Longrightarrow> ranked_ideas i (Suc k) xs \<Longrightarrow> ranked_ideas i k (x # xs)"
  by (auto simp: ranked_ideas_def map_Suc_upt [symmetric] upt_conv_Cons comp_def simp del: upt_Suc)

text \<open>
  What of a list of candidates passes moderation, with a model in the state \<open>m\<close>: each candidate with a
  title is put to it in turn, and one that is refused, or whose question fails, is left out.
\<close>

fun accepted :: "'m llm_client \<Rightarrow> gift_idea list \<Rightarrow> 'm \<Rightarrow> gift_idea list" where
  "accepted ll [] m = []"
| "accepted ll (c # cs) m =
     (if TrimSpace (gi_Title c) = [] then accepted ll cs m
      else case ll_Moderate ll (gi_Title c @ ''. '' @ gi_WhyItFits c @ ''. '' @ gi_HowTo c) m of
        (Inr True, m1) \<Rightarrow> c # accepted ll cs (snd (ll_Embed ll (gi_Title c @ '' '' @ gi_WhyItFits c) m1))
      | (_, m1) \<Rightarrow> accepted ll cs m1)"

definition idea_content :: "gift_idea \<Rightarrow> string \<times> string \<times> string \<times> string" where
  "idea_content x = (gi_Title x, gi_WhyItFits x, gi_RoughCost x, gi_HowTo x)"

lemma idea_content_core [simp]: "idea_content (idea_core x) = idea_content x"
  by (simp add: idea_content_def idea_core_def)

text \<open>The candidates of a job: those cached under the key of its inputs, or those the model generated.\<close>

definition offered :: "('s, 'c, 'p, 'm) pipeline \<Rightarrow> gen_request \<Rightarrow> gift_idea list \<Rightarrow> bool" where
  "offered pl q cs \<longleftrightarrow>
     (\<exists>t c c'. ca_GetLLMCache (pl_cache pl) (hashInputs (pl_H pl) q (pl_IdeasWanted pl)) t c = (Inr cs, c')) \<or>
     (\<exists>p m m' g. ll_GenerateIdeas (pl_llm pl) p m = (Inr g, m') \<and> cs = toCandidates g)"

text \<open>The ideas of the request \<open>q\<close> are such a list now, and the other requests are as before.\<close>

definition ideas_stored :: "gen_request \<Rightarrow> gen_ledger \<Rightarrow> gen_ledger \<Rightarrow> bool" where
  "ideas_stored q l l' \<longleftrightarrow>
     (\<forall>k. k \<noteq> gr_ID q \<longrightarrow> ld_requests l' k = ld_requests l k \<and> ld_ideas l' k = ld_ideas l k) \<and>
     (\<exists>q'. ld_requests l' (gr_ID q) = Some q' \<and> q'\<lparr>gr_Status := gr_Status q\<rparr> = q) \<and>
     ld_ideas l' (gr_ID q) \<noteq> [] \<and> ranked_ideas (gr_ID q) 0 (ld_ideas l' (gr_ID q))"

definition pl_serves ::
  "('s, 'c, 'p, 'm) pipeline \<Rightarrow> 's gen_repo \<Rightarrow> 'c gen_cache \<Rightarrow> 'p gen_publisher \<Rightarrow> bool" where
  "pl_serves pl repo cache pub \<longleftrightarrow> pl_repo pl = repo \<and> pl_cache pl = cache \<and> pl_pub pl = pub"

context gen_service begin

text \<open>A step that changes at most the status of the request \<open>i\<close>, and publishes nothing.\<close>

definition quiet :: "string \<Rightarrow> ('s, 'c, 'p, 'm) gen_world \<Rightarrow> ('s, 'c, 'p, 'm) gen_world \<Rightarrow> bool" where
  "quiet i w w' \<longleftrightarrow>
     (inv (gw_repo w) \<longrightarrow> inv (gw_repo w')) \<and> cv_slot v (gw_cache w') = cv_slot v (gw_cache w) \<and>
     gw_pub w' = gw_pub w \<and>
     (inv (gw_repo w) \<longrightarrow> same_but_status i (ledger (gw_repo w)) (ledger (gw_repo w')))"

lemma quiet_refl [simp]: "quiet i w w"
  by (simp add: quiet_def)

lemma quiet_trans: "quiet i w w1 \<Longrightarrow> quiet i w1 w2 \<Longrightarrow> quiet i w w2"
  by (auto simp: quiet_def intro: same_but_status_trans)

lemma quiet_out: "on_out f w = (r, w1) \<Longrightarrow> quiet i w w1"
  using on_out_frame [of f w r w1] by (simp add: quiet_def)

lemma quiet_cache:
  assumes "on_cache f w = (r, w1)"
    and "\<And>c r c'. f c = (r, c') \<Longrightarrow> cv_slot v c' = cv_slot v c"
  shows "quiet i w w1"
  using on_cache_frame [OF assms(1)] assms(2) by (simp add: quiet_def)

lemma quiet_status:
  assumes "on_repo (rp_SetRequestStatus repo i st) w = (r, w1)" and "canon i = Some i"
  shows "quiet i w w1"
proof (cases "inv (gw_repo w)")
  case True
  note f = on_repo_frame [OF assms(1)]
  have "same_but_status i (ledger (gw_repo w)) (ledger (gw_repo w1))"
  proof (cases r)
    case (Inl e)
    with store.status_err [OF True] f show ?thesis by auto
  next
    case (Inr u)
    with store.status_ok [OF True, of i st u "gw_repo w1"] f assms(2) same_but_status_set show ?thesis by auto
  qed
  with f store.status_inv [OF True] show ?thesis by (auto simp: quiet_def)
next
  case False
  with on_repo_frame [OF assms(1)] show ?thesis by (simp add: quiet_def)
qed

lemma setStatus_quiet:
  assumes "pl_serves pl repo cache pub" and "canon i = Some i"
  shows "quiet i w (setStatus pl t i st progress w)"
proof -
  obtain r w1 where 1: "on_cache (ca_SetStatus (pl_cache pl) i \<lparr>in_Status = st, in_Progress = progress\<rparr>
      (pl_StatusTTL pl) t) w = (r, w1)" by fastforce
  obtain x w2 where 2: "on_repo (rp_SetRequestStatus (pl_repo pl) i st) w1 = (x, w2)" by fastforce
  have c: "pl_cache pl = cache" "pl_repo pl = repo" using assms(1) by (simp_all add: pl_serves_def)
  have q1: "quiet i w w1" by (rule quiet_cache [OF 1]) (use c ephemeral.slots_frame(1) in auto)
  have q2: "quiet i w1 w2" by (rule quiet_status [OF 2 [unfolded c] assms(2)])
  have "setStatus pl t i st progress w = (if st = StatusRunning then w2 else w1)"
    using 2 unfolding setStatus_def 1 Let_def prod.case by (cases "st = StatusRunning") simp_all
  with q1 quiet_trans [OF q1 q2] show ?thesis by simp
qed

lemma fail_quiet:
  assumes "pl_serves pl repo cache pub" and "canon i = Some i"
  shows "quiet i w (pl_fail pl t i w)"
proof -
  let ?w1 = "setStatus pl t i StatusFailed 0 w"
  obtain x w2 where 2: "on_repo (rp_SetRequestStatus (pl_repo pl) i StatusFailed) ?w1 = (x, w2)" by fastforce
  have "pl_repo pl = repo" using assms(1) by (simp add: pl_serves_def)
  with quiet_trans [OF setStatus_quiet [OF assms] quiet_status [OF 2 [unfolded this] assms(2)]] 2
  show ?thesis by (simp add: pl_fail_def)
qed

lemma cached_quiet:
  assumes "pl_serves pl repo cache pub" and "cachedCandidates pl t h w = (r, w')"
  shows "quiet i w w'"
proof -
  obtain a w1 where 1: "on_cache (ca_GetLLMCache (pl_cache pl) h t) w = (a, w1)" by fastforce
  have c: "pl_cache pl = cache" using assms(1) by (simp add: pl_serves_def)
  have "quiet i w w1" by (rule quiet_cache [OF 1]) (use c ephemeral.slots_frame(4) in auto)
  moreover have "w' = w1" using assms(2) 1 by (cases a) (auto simp: cachedCandidates_def)
  ultimately show ?thesis by simp
qed

lemma gather_quiet:
  "gatherPoll pl p w = (r1, w1) \<Longrightarrow> quiet i w w1"
  "gatherCatalog pl req e w = (r2, w2) \<Longrightarrow> quiet i w w2"
  by (auto simp: gatherPoll_def gatherCatalog_def split: if_splits option.splits prod.splits sum.splits
      intro: quiet_out)

lemma generate_quiet:
  assumes "pl_serves pl repo cache pub" and "canon (gr_ID req) = Some (gr_ID req)"
    and "generate_candidates pl jc req h w = (r, w')"
  shows "quiet (gr_ID req) w w'"
proof -
  obtain a w1 where 1: "gatherPoll pl (gr_PollID req) w = (a, w1)" by fastforce
  obtain e w2 where 2: "on_out (ll_Embed (pl_llm pl) (groundingQuery req)) w1 = (e, w2)" by fastforce
  obtain b w3 where 3: "gatherCatalog pl req e w2 = (b, w3)" by fastforce
  define w4 where "w4 = setStatus pl (jc_at jc 2) (gr_ID req) StatusRunning 40 w3"
  let ?p = "\<lparr>gm_Holiday = gr_HolidayID req, gm_BudgetBand = gr_BudgetBand req,
             gm_Preferences = gr_PreferencesText req, gm_PollAnswers = a,
             gm_Inspiration = b, gm_Refinement = gr_Refinement req,
             gm_N = pl_IdeasWanted pl, gm_Tier = tierFor (gr_Tier req)\<rparr>"
  obtain g w5 where 5: "on_out (ll_GenerateIdeas (pl_llm pl) ?p) w4 = (g, w5)" by fastforce
  have "quiet (gr_ID req) w w3"
    by (rule quiet_trans [OF quiet_trans [OF gather_quiet(1) [OF 1] quiet_out [OF 2]] gather_quiet(2) [OF 3]])
  moreover have "quiet (gr_ID req) w3 w4" unfolding w4_def by (rule setStatus_quiet [OF assms(1,2)])
  ultimately have q: "quiet (gr_ID req) w w5" using quiet_trans quiet_out [OF 5] by blast
  show ?thesis
  proof (cases g)
    case (Inl x)
    with q assms(3) show ?thesis by (simp add: generate_candidates_def 1 2 3 w4_def [symmetric] 5)
  next
    case (Inr xs)
    obtain y w6 where 6: "on_cache (ca_SetLLMCache (pl_cache pl) h (toCandidates xs) (pl_LLMCacheTTL pl) (jc_at jc 3)) w5
        = (y, w6)" by fastforce
    have c: "pl_cache pl = cache" using assms(1) by (simp add: pl_serves_def)
    have "quiet (gr_ID req) w5 w6" by (rule quiet_cache [OF 6]) (use c ephemeral.slots_frame(3) in auto)
    with q have "quiet (gr_ID req) w w6" by (rule quiet_trans)
    with assms(3) Inr show ?thesis
      by (simp add: generate_candidates_def 1 2 3 w4_def [symmetric] 5 6)
  qed
qed

lemma moderate_loop_effect:
  "moderate_loop pl jc req k cs w = (xs, w') \<Longrightarrow>
   quiet i w w' \<and> ranked_ideas (gr_ID req) k xs \<and>
   map idea_content xs = map idea_content (accepted (pl_llm pl) cs (gw_out w))"
proof (induction cs arbitrary: k w xs w')
  case Nil
  then show ?case by (simp add: ranked_ideas_def)
next
  case (Cons c cs)
  show ?case
  proof (cases "TrimSpace (gi_Title c) = []")
    case True
    with Cons.prems Cons.IH show ?thesis by fastforce
  next
    case ne: False
    obtain a w1 where 1: "on_out (ll_Moderate (pl_llm pl)
        (gi_Title c @ ''. '' @ gi_WhyItFits c @ ''. '' @ gi_HowTo c)) w = (a, w1)" by fastforce
    note q1 = quiet_out [OF 1, of i]
    show ?thesis
    proof (cases "a = Inr True")
      case False
      with ne 1 Cons.prems have m: "moderate_loop pl jc req k cs w1 = (xs, w')"
        by (cases a) auto
      have "accepted (pl_llm pl) (c # cs) (gw_out w) = accepted (pl_llm pl) cs (gw_out w1)"
        using ne 1 False by (auto simp: on_out_def split: prod.splits sum.splits bool.splits)
      with Cons.IH [OF m] quiet_trans [OF q1] show ?thesis by auto
    next
      case True
      obtain e w2 where 2: "on_out (ll_Embed (pl_llm pl) (gi_Title c @ '' '' @ gi_WhyItFits c)) w1 = (e, w2)"
        by fastforce
      obtain ys w3 where 3: "moderate_loop pl jc req (Suc k) cs w2 = (ys, w3)" by fastforce
      let ?x = "\<lparr>gi_ID = jc_uuid jc k, gi_RequestID = gr_ID req, gi_Title = gi_Title c,
                    gi_WhyItFits = gi_WhyItFits c, gi_RoughCost = gi_RoughCost c, gi_HowTo = gi_HowTo c,
                    gi_Rank = int k + 1, gi_Moderation = ModerationApproved, gi_Embedding = e,
                    gi_CreatedAt = jc_now jc k\<rparr>"
      have x: "xs = ?x # ys" "w' = w3" using Cons.prems ne 1 True 2 3 by auto
      note IH = Cons.IH [OF 3]
      have "quiet i w w3" using q1 quiet_out [OF 2, of i] IH quiet_trans by blast
      moreover have "ranked_ideas (gr_ID req) k (?x # ys)"
        using IH ne by (intro ranked_ideas_Cons) auto
      moreover have "accepted (pl_llm pl) (c # cs) (gw_out w) = c # accepted (pl_llm pl) cs (gw_out w2)"
        using ne 1 True 2 by (auto simp: on_out_def split: prod.splits)
      ultimately show ?thesis using x IH by (simp add: idea_content_def)
    qed
  qed
qed

text \<open>How a job may end: it announces ideas that are stored, or changes at most a status.\<close>

definition job_stored ::
  "'m llm_client \<Rightarrow> gift_idea list \<Rightarrow> gen_request \<Rightarrow> ('s, 'c, 'p, 'm) gen_world \<Rightarrow> ('s, 'c, 'p, 'm) gen_world \<Rightarrow> bool" where
  "job_stored ll cs q w w' \<longleftrightarrow> ideas_stored q (ledger (gw_repo w)) (ledger (gw_repo w')) \<and>
     (\<exists>m. map idea_content (ld_ideas (ledger (gw_repo w')) (gr_ID q)) = map idea_content (accepted ll cs m))"

definition job_outcome ::
  "'m llm_client \<Rightarrow> gift_idea list \<Rightarrow> gen_request \<Rightarrow> ('s, 'c, 'p, 'm) gen_world \<Rightarrow> run_error option \<Rightarrow> ('s, 'c, 'p, 'm) gen_world \<Rightarrow> bool" where
  "job_outcome ll cs q w r w' \<longleftrightarrow>
     quiet (gr_ID q) w w' \<and> (r = None \<or> r = Some RunSave) \<or>
     job_stored ll cs q w w' \<and>
       (r = Some RunSetReady \<and> ready (gw_pub w') = ready (gw_pub w) \<or>
        (\<exists>q'. ld_requests (ledger (gw_repo w')) (gr_ID q) = Some q' \<and> gr_Status q' = StatusReady) \<and>
        (r = Some RunPublish \<or>
         r = None \<and> ready (gw_pub w') = ready (gw_pub w) @
           [\<lparr>ev_RequestID = gr_ID q, ev_UserID = gr_UserID q,
             ev_IdeaCount = length (ld_ideas (ledger (gw_repo w')) (gr_ID q))\<rparr>]))"

lemma finish_effect:
  assumes sv: "pl_serves pl repo cache pub" and iv: "inv (gw_repo w)"
    and q: "ld_requests (ledger (gw_repo w)) (gr_ID q) = Some q0" "q0\<lparr>gr_Status := gr_Status q\<rparr> = q"
    and f: "finish_job pl jc q cs w = (r, w')"
  shows "inv (gw_repo w') \<and> cv_slot v (gw_cache w') = cv_slot v (gw_cache w) \<and>
    jobs (gw_pub w') = jobs (gw_pub w) \<and>
    job_outcome (pl_llm pl) cs q w r w'"
proof -
  let ?i = "gr_ID q"
  have c: "pl_repo pl = repo" "pl_cache pl = cache" "pl_pub pl = pub" using sv by (simp_all add: pl_serves_def)
  have ci: "canon ?i = Some ?i" using store.ids_canon [OF iv q(1)] by simp
  define wa where "wa = setStatus pl (jc_at jc 4) ?i StatusRunning 70 w"
  have qa: "quiet ?i w wa" unfolding wa_def by (rule setStatus_quiet [OF sv ci])
  obtain xs w1 where 1: "moderate_loop pl jc q 0 cs wa = (xs, w1)" by fastforce
  note m = moderate_loop_effect [OF 1, of ?i]
  have q1: "quiet ?i w w1" using quiet_trans [OF qa] m by blast
  have v1: "inv (gw_repo w1)" using q1 iv by (simp add: quiet_def)
  show ?thesis
  proof (cases "xs = []")
    case True
    have "quiet ?i w (pl_fail pl (jc_at jc 5) ?i w1)"
      by (rule quiet_trans [OF q1 fail_quiet [OF sv ci]])
    moreover have "r = None \<and> w' = pl_fail pl (jc_at jc 5) ?i w1"
      using f True by (simp add: finish_job_def wa_def [symmetric] moderateValidateRank_def 1)
    ultimately show ?thesis using iv by (auto simp: quiet_def job_outcome_def)
  next
    case ne: False
    obtain a w2 where 2: "on_repo (rp_SaveIdeas (pl_repo pl) ?i xs) w1 = (a, w2)" by fastforce
    note f2 = on_repo_frame [OF 2, unfolded c]
    have v2: "inv (gw_repo w2)" using store.ideas_inv [OF v1] f2 by blast
    show ?thesis
    proof (cases a)
      case (Inl e)
      then have "ledger (gw_repo w2) = ledger (gw_repo w1)" using store.ideas_err [OF v1] f2 by blast
      then have "quiet ?i w1 w2" using f2 v2 by (simp add: quiet_def)
      with q1 have "quiet ?i w w2" by (rule quiet_trans)
      moreover have "r = Some RunSave \<and> w' = w2"
        using f ne Inl 2 by (simp add: finish_job_def wa_def [symmetric] moderateValidateRank_def 1)
      ultimately show ?thesis using iv by (auto simp: quiet_def job_outcome_def)
    next
      case a: (Inr u)
      define w3 where "w3 = setStatus pl (jc_at jc 6) ?i StatusReady 100 w2"
      have q3: "quiet ?i w2 w3" unfolding w3_def by (rule setStatus_quiet [OF sv ci])
      obtain b w4 where 4: "on_repo (rp_SetRequestStatus (pl_repo pl) ?i StatusReady) w3 = (b, w4)" by fastforce
      have q4: "quiet ?i w3 w4" by (rule quiet_status [OF 4 [unfolded c] ci])
      have q24: "quiet ?i w2 w4" by (rule quiet_trans [OF q3 q4])
      have v3: "inv (gw_repo w3)" using q3 v2 by (simp add: quiet_def)
      have v4: "inv (gw_repo w4)" using q24 v2 by (simp add: quiet_def)
      have id: "ld_requests (ledger (gw_repo w2)) = ld_requests (ledger (gw_repo w1)) \<and>
          (\<forall>k. k \<noteq> ?i \<longrightarrow> ld_ideas (ledger (gw_repo w2)) k = ld_ideas (ledger (gw_repo w1)) k) \<and>
          map idea_core (ld_ideas (ledger (gw_repo w2)) ?i) = map idea_core (sort_key gi_Rank xs)"
        using store.ideas_ok [OF v1, of ?i xs u "gw_repo w2"] f2 a ci m by (auto simp: ranked_ideas_def)
      have srt: "sort_key gi_Rank xs = xs" using m ranked_ideas_sorted by blast
      have same: "same_but_status ?i (ledger (gw_repo w)) (ledger (gw_repo w1))"
        "same_but_status ?i (ledger (gw_repo w2)) (ledger (gw_repo w4))"
        using q1 q24 iv v2 by (simp_all add: quiet_def)
      have core: "map idea_core (ld_ideas (ledger (gw_repo w4)) ?i) = map idea_core xs"
        using same(2) id srt by (simp add: same_but_status_def)
      have rk: "ranked_ideas ?i 0 (ld_ideas (ledger (gw_repo w4)) ?i)"
        using m ranked_ideas_core core by metis
      have acc: "map idea_content (ld_ideas (ledger (gw_repo w4)) ?i) = map idea_content (accepted (pl_llm pl) cs (gw_out wa))"
        using arg_cong [OF core, of "map idea_content"] m by (simp add: comp_def)
      have len: "length (ld_ideas (ledger (gw_repo w4)) ?i) = length xs"
        using core by (metis length_map)
      obtain p where p: "ld_requests (ledger (gw_repo w1)) ?i = Some p" "p\<lparr>gr_Status := gr_Status q0\<rparr> = q0"
        using same_but_status_present [OF same(1) q(1)] by blast
      obtain p' where p': "ld_requests (ledger (gw_repo w4)) ?i = Some p'" "p'\<lparr>gr_Status := gr_Status p\<rparr> = p"
        using same_but_status_present [OF same(2), of p] id p(1) by auto
      have "(p'\<lparr>gr_Status := gr_Status p\<rparr>)\<lparr>gr_Status := gr_Status q0\<rparr> = q0" using p(2) p'(2) by simp
      then have "p'\<lparr>gr_Status := gr_Status q0\<rparr> = q0" by simp
      then have "(p'\<lparr>gr_Status := gr_Status q0\<rparr>)\<lparr>gr_Status := gr_Status q\<rparr> = q" using q(2) by simp
      then have pq: "p'\<lparr>gr_Status := gr_Status q\<rparr> = q" by simp
      have other: "ld_requests (ledger (gw_repo w4)) k = ld_requests (ledger (gw_repo w)) k \<and>
          ld_ideas (ledger (gw_repo w4)) k = ld_ideas (ledger (gw_repo w)) k" if "k \<noteq> ?i" for k
        using same id that by (simp add: same_but_status_def)
      have "ld_ideas (ledger (gw_repo w4)) ?i \<noteq> []" using len ne by auto
      with other rk p'(1) pq have st: "job_stored (pl_llm pl) cs q w w4"
        using acc by (auto simp: job_stored_def ideas_stored_def)
      have fr: "cv_slot v (gw_cache w4) = cv_slot v (gw_cache w)" "gw_pub w4 = gw_pub w"
        using q1 q24 f2 by (simp_all add: quiet_def)
      show ?thesis
      proof (cases b)
        case (Inl e)
        have "r = Some RunSetReady \<and> w' = w4"
          using f ne a 2 4 Inl by (simp add: finish_job_def wa_def [symmetric] w3_def [symmetric]
              moderateValidateRank_def 1)
        with st fr v4 show ?thesis by (simp add: job_outcome_def)
      next
        case b: (Inr x)
        have rd: "gr_Status p' = StatusReady"
          using store.status_ok [OF v3, of ?i StatusReady x "gw_repo w4"] on_repo_frame [OF 4, unfolded c] b ci p'(1)
          by (cases "ld_requests (ledger (gw_repo w3)) ?i") auto
        obtain g w5 where 5: "on_pub (pu_IdeasReady (pl_pub pl)
            \<lparr>ev_RequestID = ?i, ev_UserID = gr_UserID q, ev_IdeaCount = length xs\<rparr>) w4 = (g, w5)" by fastforce
        note f5 = on_pub_frame [OF 5, unfolded c]
        have r5: "r = (if g then Some RunPublish else None)" "w' = w5"
          using f ne a 2 4 b 5 by (simp_all add: finish_job_def wa_def [symmetric] w3_def [symmetric]
              moderateValidateRank_def 1)
        have j5: "jobs (gw_pub w5) = jobs (gw_pub w4)" using ready_published f5 by blast
        have e5: "\<not> g \<Longrightarrow> ready (gw_pub w5) = ready (gw_pub w4) @
            [\<lparr>ev_RequestID = ?i, ev_UserID = gr_UserID q, ev_IdeaCount = length xs\<rparr>]"
          using ready_published f5 by blast
        have s5: "job_stored (pl_llm pl) cs q w w5" using st f5 by (simp add: job_stored_def ideas_stored_def)
        have l5: "ld_requests (ledger (gw_repo w5)) ?i = Some p'"
          "length (ld_ideas (ledger (gw_repo w5)) ?i) = length xs" using f5 p'(1) len by simp_all
        have "job_outcome (pl_llm pl) cs q w r w5"
          unfolding job_outcome_def by (cases g) (use s5 l5 rd r5(1) e5 fr(2) in simp_all)
        moreover have "inv (gw_repo w5)" "cv_slot v (gw_cache w5) = cv_slot v (gw_cache w)"
          using f5 v4 fr(1) by simp_all
        ultimately show ?thesis using j5 fr(2) r5(2) by simp
      qed
    qed
  qed
qed

lemma cached_offered:
  assumes "cachedCandidates pl t (hashInputs (pl_H pl) q (pl_IdeasWanted pl)) w = (Some cs, w')"
  shows "offered pl q cs"
proof -
  obtain a w1 where "on_cache (ca_GetLLMCache (pl_cache pl) (hashInputs (pl_H pl) q (pl_IdeasWanted pl)) t) w = (a, w1)"
    by fastforce
  with assms on_cache_frame [OF this] have "ca_GetLLMCache (pl_cache pl) (hashInputs (pl_H pl) q (pl_IdeasWanted pl)) t (gw_cache w) =
      (Inr cs, gw_cache w1)"
    by (auto simp: cachedCandidates_def split: sum.splits if_splits)
  then show ?thesis unfolding offered_def by blast
qed

lemma generate_offered:
  assumes "generate_candidates pl jc req h w = (Some cs, w')"
  shows "offered pl q cs"
proof -
  obtain a w1 where 1: "gatherPoll pl (gr_PollID req) w = (a, w1)" by fastforce
  obtain e w2 where 2: "on_out (ll_Embed (pl_llm pl) (groundingQuery req)) w1 = (e, w2)" by fastforce
  obtain b w3 where 3: "gatherCatalog pl req e w2 = (b, w3)" by fastforce
  define w4 where "w4 = setStatus pl (jc_at jc 2) (gr_ID req) StatusRunning 40 w3"
  let ?p = "\<lparr>gm_Holiday = gr_HolidayID req, gm_BudgetBand = gr_BudgetBand req,
             gm_Preferences = gr_PreferencesText req, gm_PollAnswers = a,
             gm_Inspiration = b, gm_Refinement = gr_Refinement req,
             gm_N = pl_IdeasWanted pl, gm_Tier = tierFor (gr_Tier req)\<rparr>"
  obtain g m where 5: "ll_GenerateIdeas (pl_llm pl) ?p (gw_out w4) = (g, m)" by fastforce
  then have "on_out (ll_GenerateIdeas (pl_llm pl) ?p) w4 = (g, w4\<lparr>gw_out := m\<rparr>)" by (simp add: on_out_def)
  then obtain xs where "g = Inr xs" "cs = toCandidates xs" using assms
    by (cases g) (auto simp: generate_candidates_def 1 2 3 w4_def [symmetric] Let_def split: prod.splits)
  with 5 show ?thesis unfolding offered_def by blast
qed

lemma run_effect:
  assumes sv: "pl_serves pl repo cache pub" and iv: "inv (gw_repo w)" and e: "pl_Run pl jc job w = (r, w')"
  shows "inv (gw_repo w') \<and> cv_slot v (gw_cache w') = cv_slot v (gw_cache w) \<and>
    jobs (gw_pub w') = jobs (gw_pub w) \<and>
    ((\<exists>x. r = Some (RunLoad x)) \<and> ledger (gw_repo w') = ledger (gw_repo w) \<and> gw_pub w' = gw_pub w \<or>
     (\<exists>q. canon (ge_RequestID job) = Some (gr_ID q) \<and>
        ld_requests (ledger (gw_repo w)) (gr_ID q) = Some q \<and>
        (quiet (gr_ID q) w w' \<and> r = None \<or> (\<exists>cs. offered pl q cs \<and> job_outcome (pl_llm pl) cs q w r w'))))"
proof -
  have c: "pl_repo pl = repo" "pl_cache pl = cache" using sv by (simp_all add: pl_serves_def)
  obtain g w1 where 1: "on_repo (rp_GetRequest (pl_repo pl) (ge_RequestID job)) w = (g, w1)" by fastforce
  note f1 = on_repo_frame [OF 1, unfolded c]
  have r1: "ledger (gw_repo w1) = ledger (gw_repo w)" "inv (gw_repo w1)"
    using store.get_read [OF iv] f1 by auto
  show ?thesis
  proof (cases g)
    case (Inl x)
    with e 1 have "r = Some (RunLoad x) \<and> w' = w1" by (simp add: pl_Run_def)
    with r1 f1 show ?thesis by auto
  next
    case g: (Inr q)
    have q: "canon (ge_RequestID job) = Some (gr_ID q)" "ld_requests (ledger (gw_repo w)) (gr_ID q) = Some q"
      using store.get_ok [OF iv] f1 g by auto
    let ?i = "gr_ID q"
    have ci: "canon ?i = Some ?i" using store.ids_canon [OF iv q(2)] by simp
    have w1: "quiet ?i w w1" using r1 f1 by (simp add: quiet_def)
    define w2 where "w2 = setStatus pl (jc_at jc 0) ?i StatusRunning 10 w1"
    have w2: "quiet ?i w w2" unfolding w2_def by (rule quiet_trans [OF w1 setStatus_quiet [OF sv ci]])
    let ?h = "hashInputs (pl_H pl) q (pl_IdeasWanted pl)"
    obtain hit w3 where 3: "cachedCandidates pl (jc_at jc 1) ?h w2 = (hit, w3)" by fastforce
    have w3: "quiet ?i w w3" by (rule quiet_trans [OF w2 cached_quiet [OF sv 3]])
    have fin: "inv (gw_repo w') \<and> cv_slot v (gw_cache w') = cv_slot v (gw_cache w) \<and>
        jobs (gw_pub w') = jobs (gw_pub w) \<and>
        job_outcome (pl_llm pl) cs q w r w'"
      if "quiet ?i w w4" and "finish_job pl jc q cs w4 = (r, w')" for cs w4
    proof -
      have v4: "inv (gw_repo w4)" and s4: "same_but_status ?i (ledger (gw_repo w)) (ledger (gw_repo w4))"
        using that(1) iv by (simp_all add: quiet_def)
      obtain q0 where q0: "ld_requests (ledger (gw_repo w4)) ?i = Some q0" "q0\<lparr>gr_Status := gr_Status q\<rparr> = q"
        using same_but_status_present [OF s4 q(2)] by blast
      note fe = finish_effect [OF sv v4 q0 that(2)]
      have "quiet ?i w4 w' \<Longrightarrow> quiet ?i w w'" using that(1) quiet_trans by blast
      moreover have "job_stored (pl_llm pl) cs q w4 w' \<Longrightarrow> job_stored (pl_llm pl) cs q w w'"
        using s4 by (simp add: job_stored_def ideas_stored_def same_but_status_def)
      moreover have "cv_slot v (gw_cache w4) = cv_slot v (gw_cache w)" "gw_pub w4 = gw_pub w"
        using that(1) by (simp_all add: quiet_def)
      ultimately show ?thesis using fe by (auto simp: job_outcome_def)
    qed
    show ?thesis
    proof (cases hit)
      case (Some cs)
      have "finish_job pl jc q cs w3 = (r, w')"
        using e 1 g 3 Some by (simp add: pl_Run_def w2_def [symmetric])
      from fin [OF w3 this] q cached_offered [OF 3 [unfolded Some]] show ?thesis by blast
    next
      case None
      obtain d w4 where 4: "generate_candidates pl jc q ?h w3 = (d, w4)" by fastforce
      have w4: "quiet ?i w w4" by (rule quiet_trans [OF w3 generate_quiet [OF sv ci 4]])
      show ?thesis
      proof (cases d)
        case None
        have "r = None \<and> w' = pl_fail pl (jc_at jc 5) ?i w4"
          using e 1 g 3 \<open>hit = None\<close> 4 None by (simp add: pl_Run_def w2_def [symmetric])
        moreover have "quiet ?i w (pl_fail pl (jc_at jc 5) ?i w4)"
          by (rule quiet_trans [OF w4 fail_quiet [OF sv ci]])
        ultimately have "r = None" "quiet ?i w w'" by simp_all
        then have "inv (gw_repo w')" "cv_slot v (gw_cache w') = cv_slot v (gw_cache w)" "gw_pub w' = gw_pub w"
          "r = None" "quiet ?i w w'" using iv by (simp_all add: quiet_def)
        with q show ?thesis by auto
      next
        case (Some cs)
        have "finish_job pl jc q cs w4 = (r, w')"
          using e 1 g 3 \<open>hit = None\<close> 4 Some by (simp add: pl_Run_def w2_def [symmetric])
        from fin [OF w4 this] q generate_offered [OF 4 [unfolded Some]] show ?thesis by blast
      qed
    qed
  qed
qed

end


section \<open>What a run promises, on the Postgres store, Valkey and the bus\<close>


text \<open>A run over the fake model, whose moderation rejects one of three ideas.\<close>

definition ex_pipeline :: "(gen_pg, gen_valkey, unit bus, unit) pipeline" where
  "ex_pipeline = pl_New (pg_gen_repo Some) vk_cache
     \<lparr>ll_GenerateIdeas = (\<lambda>p m. (Inr
        [\<lparr>li_Title = ''Tea'', li_WhyItFits = ''calm'', li_RoughCost = ''low'', li_HowTo = ''buy''\<rparr>,
         \<lparr>li_Title = '' '', li_WhyItFits = ''blank'', li_RoughCost = ''low'', li_HowTo = ''buy''\<rparr>,
         \<lparr>li_Title = ''Unsafe kit'', li_WhyItFits = ''no'', li_RoughCost = ''low'', li_HowTo = ''buy''\<rparr>,
         \<lparr>li_Title = ''Cup'', li_WhyItFits = ''warm'', li_RoughCost = ''low'', li_HowTo = ''buy''\<rparr>], m)),
      ll_Moderate = (\<lambda>tx m. (Inr (\<not> Contains (ToLower tx) ''unsafe''), m)), ll_Embed = (\<lambda>tx m. ([], m))\<rparr>
     None None bus_publisher 0 ns_per_sec ns_per_sec (\<lambda>s. s)"

definition ex_job_ctx :: job_ctx where
  "ex_job_ctx = \<lparr>jc_at = (\<lambda>n. 20 + int n), jc_uuid = (\<lambda>n. if n = 0 then ''i1'' else ''i2''), jc_now = (\<lambda>n. 20)\<rparr>"

definition ex_job :: generation_requested where
  "ex_job = \<lparr>ge_RequestID = ''u1'', ge_Tier = TierSonnet\<rparr>"


section \<open>Which requests share cached candidates\<close>

definition hash_fields :: "gen_request \<Rightarrow> string list" where
  "hash_fields q = [gr_HolidayID q, gr_BudgetBand q, gr_PreferencesText q, gr_PollID q, gr_Refinement q]"

lemma fields_loop_chars: "c \<in> set (concat (fields_loop cur s)) \<Longrightarrow> c \<in> set cur \<union> set s"
proof (induction cur s rule: fields_loop.induct)
  case (1 cur s)
  show ?case
  proof (cases "find (\<lambda>p. p \<noteq> [] \<and> prefix p s) space_runes")
    case None
    then show ?thesis
    proof (cases s)
      case Nil
      have "find (\<lambda>p. False) space_runes = None" by (simp add: find_None_iff)
      with 1(3) Nil show ?thesis by (simp add: fields_loop.simps [of cur "[]"] split: if_splits)
    next
      case (Cons x xs)
      with 1(3) None have "c \<in> set (concat (fields_loop (x # cur) xs))"
        by (simp add: fields_loop.simps [of cur "x # xs"])
      with 1(1) [OF None Cons] Cons show ?thesis by auto
    qed
  next
    case (Some p)
    with 1 show ?thesis
      by (auto simp: fields_loop.simps [of cur s] split: if_splits dest: in_set_dropD)
  qed
qed

lemma lower_char_sep [simp]: "lower_char c = CHR 0x1F \<longleftrightarrow> c = CHR 0x1F"
proof -
  have "lower_char c \<noteq> CHR 0x1F" if "65 \<le> (of_char c :: nat)" "(of_char c :: nat) \<le> 90"
  proof
    assume "lower_char c = CHR 0x1F"
    with that have "of_char (char_of (of_char c + 32 :: nat)) = (of_char (CHR 0x1F) :: nat)"
      by (simp add: lower_char_def)
    with that show False by (simp add: of_char_of)
  qed
  then show ?thesis by (auto simp: lower_char_def split: if_splits)
qed

lemma norm_no_sep: "CHR 0x1F \<notin> set s \<Longrightarrow> CHR 0x1F \<notin> set (norm s)"
proof
  assume n: "CHR 0x1F \<notin> set s" and i: "CHR 0x1F \<in> set (norm s)"
  have "CHR 0x1F \<in> set (concat (fields_loop [] (ToLower s)))"
    using i set_Join [of "fields_loop [] (ToLower s)" "'' ''"] by (auto simp: norm_def Fields_def)
  then have "CHR 0x1F \<in> set (ToLower s)" using fields_loop_chars by fastforce
  with n lower_char_sep show False unfolding ToLower_def by (metis imageE list.set_map)
qed

lemma fmt_int_no_sep: "CHR 0x1F \<notin> set (fmt_int n)"
  using fmt_int_chars [of "CHR 0x1F" n] by auto

lemma hash_parts_no_sep:
  assumes "CHR 0x1F \<notin> set (concat (hash_fields a)) \<union> set (tier_text (gr_Tier a))"
  shows "\<forall>x \<in> set (hash_parts a n). CHR 0x1F \<notin> set x"
  using assms fmt_int_no_sep [of n] by (simp add: hash_parts_def hash_fields_def norm_no_sep)

text \<open>Two requests reuse each other's cached candidates only when they ask for the same: for fields
  free of the separator byte, their hashes agree exactly when their holiday, budget, preferences,
  poll and refinement agree up to case and spacing and their tiers and idea counts are equal,
  unless the two inputs are a collision of the hash function itself.\<close>

theorem hash_shared_only_by_equal_inputs:
  assumes "CHR 0x1F \<notin> set (concat (hash_fields a)) \<union> set (tier_text (gr_Tier a))"
    and "CHR 0x1F \<notin> set (concat (hash_fields b)) \<union> set (tier_text (gr_Tier b))"
  shows "(hashInputs H a m = hashInputs H b n \<longleftrightarrow>
      map norm (hash_fields a) = map norm (hash_fields b) \<and>
      tier_text (gr_Tier a) = tier_text (gr_Tier b) \<and> m = n) \<or>
    (\<exists>x y. x \<noteq> y \<and> H x = H y)"
proof -
  have ne: "hash_parts q k \<noteq> []" for q k by (simp add: hash_parts_def)
  have "Join (hash_parts a m) [CHR 0x1F] = Join (hash_parts b n) [CHR 0x1F] \<longleftrightarrow> hash_parts a m = hash_parts b n"
    using Split_Join [OF ne hash_parts_no_sep [OF assms(1)]] Split_Join [OF ne hash_parts_no_sep [OF assms(2)]]
    by metis
  moreover have "hash_parts a m = hash_parts b n \<longleftrightarrow>
      map norm (hash_fields a) = map norm (hash_fields b) \<and>
      tier_text (gr_Tier a) = tier_text (gr_Tier b) \<and> m = n"
    by (simp add: hash_parts_def hash_fields_def fmt_int_inj)
  ultimately show ?thesis unfolding hashInputs_def by metis
qed

definition ex_hash_request :: "string \<Rightarrow> string \<Rightarrow> gen_request" where
  "ex_hash_request h b =
     \<lparr>gr_ID = ''u'', gr_UserID = ''ann'', gr_HolidayID = h, gr_BudgetBand = b, gr_PreferencesText = ''Green  Tea'',
      gr_PollID = [], gr_IdempotencyKey = ''k'', gr_Status = StatusQueued, gr_Tier = TierSonnet,
      gr_Refinement = [], gr_CreatedAt = 7\<rparr>"

lemma hash_shared_only_by_equal_inputs_witness:
  "hashInputs (\<lambda>s. s) (ex_hash_request ''Birthday '' ''low'') 5 =
     hashInputs (\<lambda>s. s) (ex_hash_request ''birthday'' ''LOW'') 5 \<and>
   hashInputs (\<lambda>s. s) (ex_hash_request ''birthday'' ''low'') 5 \<noteq>
     hashInputs (\<lambda>s. s) (ex_hash_request ''birthday'' ''high'') 5"
proof -
  have c: "CHR 0x1F \<notin> set (concat (hash_fields (ex_hash_request h b))) \<union>
      set (tier_text (gr_Tier (ex_hash_request h b)))"
    if "CHR 0x1F \<notin> set h" "CHR 0x1F \<notin> set b" for h b
    using that by (simp add: ex_hash_request_def hash_fields_def)
  have n: "\<not> (\<exists>x y :: string. x \<noteq> y \<and> (\<lambda>s. s) x = (\<lambda>s. s) y)" by simp
  have 1: "map norm (hash_fields (ex_hash_request ''Birthday '' ''low'')) =
      map norm (hash_fields (ex_hash_request ''birthday'' ''LOW''))" by code_simp
  have 2: "map norm (hash_fields (ex_hash_request ''birthday'' ''low'')) \<noteq>
      map norm (hash_fields (ex_hash_request ''birthday'' ''high''))" by code_simp
  have 3: "gr_Tier (ex_hash_request h b) = TierSonnet" for h b by (simp add: ex_hash_request_def)
  show ?thesis
    using hash_shared_only_by_equal_inputs [OF c c, of "''Birthday ''" "''low''" "''birthday''" "''LOW''"
        "\<lambda>s. s" 5 5]
      hash_shared_only_by_equal_inputs [OF c c, of "''birthday''" "''low''" "''birthday''" "''high''"
        "\<lambda>s. s" 5 5] n 1 2 3 by simp
qed

text \<open>With the separator byte in a field, different inputs do share a hash.\<close>

lemma hash_separator_ambiguous:
  "hashInputs H (ex_hash_request (''a'' @ [CHR 0x1F] @ ''b'') ''c'') n =
     hashInputs H (ex_hash_request ''a'' (''b'' @ [CHR 0x1F] @ ''c'')) n"
proof -
  have "norm (''a'' @ [CHR 0x1F] @ ''b'') @ [CHR 0x1F] @ norm ''c'' =
      norm ''a'' @ [CHR 0x1F] @ norm (''b'' @ [CHR 0x1F] @ ''c'')" by code_simp
  moreover have "Join (x # y # z # zs) c = (x @ c @ y) @ c @ Join (z # zs) c" for x y z c and zs :: "string list"
    by simp
  ultimately show ?thesis
    by (simp only: hashInputs_def hash_parts_def ex_hash_request_def gen_request.simps)
qed

section \<open>What regeneration does to favourites\<close>

text \<open>Storing a request's new ideas deletes its previous ones, and with them every user's favourite
  of one of those; the favourites of other requests' ideas and those requests' ideas are kept.\<close>

theorem regeneration_drops_favourites:
  assumes "pg_SaveIdeas up j xs s = (Inr (), s')"
  shows "\<exists>i. up j = Some i \<and>
    set (gg_saved s') = {p \<in> set (gg_saved s).
      \<forall>y \<in> set (gg_ideas s). gx_request_id y = i \<longrightarrow> snd p \<noteq> gx_id y} \<and>
    (\<forall>y \<in> set (gg_ideas s). gx_request_id y \<noteq> i \<longrightarrow> y \<in> set (gg_ideas s'))"
proof -
  from gg_save_shape [OF assms] obtain i ys where "up j = Some i"
    "gg_ideas s' = filter (\<lambda>y. gx_request_id y \<noteq> i) (gg_ideas s) @ ys"
    "gg_saved s' = filter (\<lambda>p. snd p \<notin> gx_id ` {y \<in> set (gg_ideas s). gx_request_id y = i}) (gg_saved s)"
    by auto
  then show ?thesis by auto
qed

text \<open>Ann saves both ideas of her request; its job is then delivered a second time.\<close>

definition ex_favourites :: gen_pg where
  "ex_favourites =
     gw_repo (snd (SaveIdea ex_gen_server (ex_gen_ctx ''u2'' 30) ''ann'' ''i1''
       (snd (pl_Run ex_pipeline ex_job_ctx ex_job
         (snd (RequestGeneration ex_gen_server (ex_gen_ctx ''u1'' 5) ex_gen_rq (ex_gen_world [])))))))"

lemma regeneration_drops_favourites_witness:
  "set (gg_saved ex_favourites) = {(''ann'', ''i1'')} \<and>
   set (gg_saved (snd (pg_SaveIdeas Some ''u1'' [] ex_favourites))) = {}"
proof -
  have 1: "set (gg_saved ex_favourites) = {(''ann'', ''i1'')}" by code_simp
  have 2: "map (\<lambda>y. (gx_request_id y, gx_id y)) (gg_ideas ex_favourites) = [(''u1'', ''i1''), (''u1'', ''i2'')]"
    by code_simp
  have 3: "fst (pg_SaveIdeas Some ''u1'' [] ex_favourites) = Inr ()" by code_simp
  then have "pg_SaveIdeas Some ''u1'' [] ex_favourites = (Inr (), snd (pg_SaveIdeas Some ''u1'' [] ex_favourites))"
    by (simp add: prod_eq_iff)
  from regeneration_drops_favourites [OF this] 1 2 show ?thesis by (auto simp: Cons_eq_map_conv)
qed

end
