(* ===== verification/Gift_Json.thy ===== *)
theory Gift_Json
  imports Gift_Prelude
begin

text \<open>
  Go's \<open>encoding/json\<close> as the services use it to decode. A text is read one level deep:
  \<open>json_value\<close> is the value with every nested value still a raw text, which is what
  \<open>json.RawMessage\<close> and the decoder's own descent work on. The reader accepts exactly RFC 8259
  texts with any bytes from 0x80 in strings, at most 10000 levels deep, and replaces invalid
  UTF-8 and lone surrogates by U+FFFD, as the package does.
\<close>

datatype json_value =
    JNull
  | JBool bool
  | JNum string
  | JStr string
  | JArr "string list"
  | JObj "(string \<times> string) list"

section \<open>UTF-8\<close>

definition byte :: "char \<Rightarrow> nat" where
  "byte c = of_char c"

definition utf8_encode :: "nat \<Rightarrow> string" where
  "utf8_encode r =
     (if r < 0x80 then [char_of r]
      else if r < 0x800 then [char_of (0xC0 + r div 64), char_of (0x80 + r mod 64)]
      else if r < 0x10000 then
        [char_of (0xE0 + r div 4096), char_of (0x80 + r div 64 mod 64), char_of (0x80 + r mod 64)]
      else
        [char_of (0xF0 + r div 262144), char_of (0x80 + r div 4096 mod 64),
         char_of (0x80 + r div 64 mod 64), char_of (0x80 + r mod 64)])"

definition rune_error :: string where
  "rune_error = [CHR 0xEF, CHR 0xBF, CHR 0xBD]"

definition cont_byte :: "char \<Rightarrow> bool" where
  "cont_byte c \<longleftrightarrow> 0x80 \<le> byte c \<and> byte c \<le> 0xBF"

text \<open>The length of the encoded rune a text starts with, 0 when it starts with none.\<close>

fun utf8_len :: "string \<Rightarrow> nat" where
  "utf8_len [] = 0"
| "utf8_len (a # s) =
     (let x = byte a in
      if x < 0x80 then 1
      else case s of
        [] \<Rightarrow> 0
      | b # s1 \<Rightarrow>
          if 0xC2 \<le> x \<and> x \<le> 0xDF then (if cont_byte b then 2 else 0)
          else if 0xE0 \<le> x \<and> x \<le> 0xEF then
            (if (if x = 0xE0 then 0xA0 \<le> byte b \<and> byte b \<le> 0xBF
                 else if x = 0xED then 0x80 \<le> byte b \<and> byte b \<le> 0x9F else cont_byte b)
             then (case s1 of c # _ \<Rightarrow> if cont_byte c then 3 else 0 | [] \<Rightarrow> 0) else 0)
          else if 0xF0 \<le> x \<and> x \<le> 0xF4 then
            (if (if x = 0xF0 then 0x90 \<le> byte b \<and> byte b \<le> 0xBF
                 else if x = 0xF4 then 0x80 \<le> byte b \<and> byte b \<le> 0x8F else cont_byte b)
             then (case s1 of c # d # _ \<Rightarrow> if cont_byte c \<and> cont_byte d then 4 else 0 | _ \<Rightarrow> 0) else 0)
          else 0)"

section \<open>Strings\<close>

definition hex_digit :: "char \<Rightarrow> nat option" where
  "hex_digit c =
     (let x = byte c in
      if 48 \<le> x \<and> x \<le> 57 then Some (x - 48)
      else if 97 \<le> x \<and> x \<le> 102 then Some (x - 87)
      else if 65 \<le> x \<and> x \<le> 70 then Some (x - 55) else None)"

text \<open>\<open>getu4\<close> after the backslash and the u.\<close>

fun hex4 :: "string \<Rightarrow> nat option" where
  "hex4 (a # b # c # d # s) =
     (case (hex_digit a, hex_digit b, hex_digit c, hex_digit d) of
        (Some p, Some q, Some r, Some t) \<Rightarrow> Some (p * 4096 + q * 256 + r * 16 + t)
      | _ \<Rightarrow> None)"
| "hex4 _ = None"

text \<open>The text of a string literal up to its closing quote, and what follows it.\<close>

fun json_string_body :: "string \<Rightarrow> (string \<times> string) option" where
  "json_string_body [] = None"
| "json_string_body (c # s) =
     (if c = CHR 0x22 then Some ([], s)
      else if c = CHR 0x5C then
        (case s of
           [] \<Rightarrow> None
         | e # s1 \<Rightarrow>
             if e \<in> set ''bfnrt/'' \<or> e = CHR 0x22 \<or> e = CHR 0x5C \<or> e = CHR ''u'' \<and> hex4 s1 \<noteq> None
             then map_option (\<lambda>(b, r). (c # e # b, r)) (json_string_body s1)
             else None)
      else if byte c < 0x20 then None
      else map_option (\<lambda>(b, r). (c # b, r)) (json_string_body s))"

definition surrogate :: "nat \<Rightarrow> bool" where
  "surrogate r \<longleftrightarrow> 0xD800 \<le> r \<and> r < 0xE000"

text \<open>The second half of an escaped surrogate pair.\<close>

definition low_half :: "string \<Rightarrow> nat option" where
  "low_half s =
     (if prefix [CHR 0x5C, CHR ''u''] s
      then (case hex4 (drop 2 s) of
              Some r \<Rightarrow> if 0xDC00 \<le> r \<and> r < 0xE000 then Some r else None
            | None \<Rightarrow> None)
      else None)"

definition simple_escape :: "char \<Rightarrow> char" where
  "simple_escape e =
     (if e = CHR ''b'' then CHR 0x08 else if e = CHR ''f'' then CHR 0x0C else if e = CHR ''n'' then CHR 0x0A
      else if e = CHR ''r'' then CHR 0x0D else if e = CHR ''t'' then CHR 0x09 else e)"

text \<open>\<open>unquote\<close> on a body the reader accepted.\<close>

function unquote :: "string \<Rightarrow> string" where
  "unquote s =
     (case s of
        [] \<Rightarrow> []
      | c # s1 \<Rightarrow>
          if c = CHR 0x5C then
            (case s1 of
               [] \<Rightarrow> []
             | e # s2 \<Rightarrow>
                 if e = CHR ''u'' then
                   (let r = (case hex4 s2 of Some r \<Rightarrow> r | None \<Rightarrow> 0); s3 = drop 4 s2 in
                    if surrogate r then
                      (case (if r < 0xDC00 then low_half s3 else None) of
                         Some r1 \<Rightarrow> utf8_encode ((r - 0xD800) * 1024 + (r1 - 0xDC00) + 0x10000) @ unquote (drop 6 s3)
                       | None \<Rightarrow> rune_error @ unquote s3)
                    else utf8_encode r @ unquote s3)
                 else simple_escape e # unquote s2)
          else (let n = utf8_len s in
                if n = 0 then rune_error @ unquote s1 else take n s @ unquote (drop n s)))"
  by pat_completeness auto
termination
  by (relation "measure length") (auto split: if_splits)

declare unquote.simps [simp del]

section \<open>Values\<close>

fun json_ws :: "string \<Rightarrow> string" where
  "json_ws [] = []"
| "json_ws (c # s) = (if c \<in> {CHR 0x20, CHR 0x09, CHR 0x0A, CHR 0x0D} then json_ws s else c # s)"

fun digits :: "string \<Rightarrow> string \<times> string" where
  "digits [] = ([], [])"
| "digits (c # s) =
     (if 48 \<le> byte c \<and> byte c \<le> 57 then (let (d, r) = digits s in (c # d, r)) else ([], c # s))"

text \<open>The rest after a number: sign, integer part without leading zeros, fraction, exponent.\<close>

definition json_number :: "string \<Rightarrow> string option" where
  "json_number s =
     (let s1 = (case s of c # r \<Rightarrow> if c = CHR ''-'' then r else s | [] \<Rightarrow> []);
          (d, s2) = digits s1 in
      if d = [] \<or> (hd d = CHR ''0'' \<and> 1 < length d) then
        (if d = [] then None else Some (drop 1 s1))
      else
        let fr = (case s2 of
                    c # r \<Rightarrow> if c = CHR ''.'' then (let (f, r1) = digits r in if f = [] then None else Some r1)
                             else Some s2
                  | [] \<Rightarrow> Some []) in
        case fr of
          None \<Rightarrow> None
        | Some s3 \<Rightarrow>
            (case s3 of
               c # r \<Rightarrow>
                 if c = CHR ''e'' \<or> c = CHR ''E'' then
                   (let r1 = (case r of x # q \<Rightarrow> if x = CHR ''+'' \<or> x = CHR ''-'' then q else r | [] \<Rightarrow> []);
                        (e, r2) = digits r1 in
                    if e = [] then None else Some r2)
                 else Some s3
             | [] \<Rightarrow> Some []))"

definition consumed_text :: "string \<Rightarrow> string \<Rightarrow> string" where
  "consumed_text s rest = take (length s - length rest) s"

definition literal :: "string \<Rightarrow> json_value \<Rightarrow> string \<Rightarrow> (json_value \<times> string) option" where
  "literal w v s = (if prefix w s then Some (v, drop (length w) s) else None)"

definition max_nesting :: int where
  "max_nesting = 10000"

text \<open>
  \<open>json_read n d s\<close> reads a value inside \<open>d\<close> open brackets; \<open>n\<close> bounds the number of calls. The list of elements (members) is read after the opening bracket.
\<close>

fun json_read :: "nat \<Rightarrow> int \<Rightarrow> string \<Rightarrow> (json_value \<times> string) option"
  and json_elems :: "nat \<Rightarrow> int \<Rightarrow> string \<Rightarrow> (string list \<times> string) option"
  and json_members :: "nat \<Rightarrow> int \<Rightarrow> string \<Rightarrow> ((string \<times> string) list \<times> string) option" where
  "json_read 0 d s = None"
| "json_read (Suc n) d s =
     (case s of
        [] \<Rightarrow> None
      | c # r \<Rightarrow>
          if c = CHR ''{'' then
            (if max_nesting \<le> d then None
             else if prefix ''}'' (json_ws r) then Some (JObj [], drop 1 (json_ws r))
             else map_option (\<lambda>(ms, q). (JObj ms, q)) (json_members n (d + 1) (json_ws r)))
          else if c = CHR ''['' then
            (if max_nesting \<le> d then None
             else if prefix '']'' (json_ws r) then Some (JArr [], drop 1 (json_ws r))
             else map_option (\<lambda>(es, q). (JArr es, q)) (json_elems n (d + 1) (json_ws r)))
          else if c = CHR 0x22 then map_option (\<lambda>(b, q). (JStr (unquote b), q)) (json_string_body r)
          else if c = CHR ''t'' then literal ''true'' (JBool True) s
          else if c = CHR ''f'' then literal ''false'' (JBool False) s
          else if c = CHR ''n'' then literal ''null'' JNull s
          else map_option (\<lambda>q. (JNum (consumed_text s q), q)) (json_number s))"
| "json_elems 0 d s = None"
| "json_elems (Suc n) d s =
     (case json_read n d s of
        None \<Rightarrow> None
      | Some (_, q) \<Rightarrow>
          (case json_ws q of
             [] \<Rightarrow> None
           | c # r \<Rightarrow>
               if c = CHR '']'' then Some ([consumed_text s q], r)
               else if c = CHR '','' then
                 map_option (\<lambda>(es, q'). (consumed_text s q # es, q')) (json_elems n d (json_ws r))
               else None))"
| "json_members 0 d s = None"
| "json_members (Suc n) d s =
     (if \<not> prefix [CHR 0x22] s then None
      else case json_string_body (drop 1 s) of
        None \<Rightarrow> None
      | Some (k, r) \<Rightarrow>
          (if \<not> prefix '':'' (json_ws r) then None
           else let v = json_ws (drop 1 (json_ws r)) in
             case json_read n d v of
               None \<Rightarrow> None
             | Some (_, q) \<Rightarrow>
                 (case json_ws q of
                    [] \<Rightarrow> None
                  | c # r' \<Rightarrow>
                      if c = CHR ''}'' then Some ([(unquote k, consumed_text v q)], r')
                      else if c = CHR '','' then
                        map_option (\<lambda>(ms, q'). ((unquote k, consumed_text v q) # ms, q'))
                          (json_members n d (json_ws r'))
                      else None)))"

text \<open>A whole text: \<open>checkValid\<close> and the value. Each call of the reader consumes a byte or is one of
  the two a nested value needs, so \<open>2 * length s + 2\<close> calls are enough.\<close>

definition json_parse :: "string \<Rightarrow> json_value option" where
  "json_parse s =
     (case json_read (2 * length s + 2) 0 (json_ws s) of
        Some (v, q) \<Rightarrow> (if json_ws q = [] then Some v else None)
      | None \<Rightarrow> None)"

section \<open>Decoding into structs\<close>

text \<open>
  The decoder matches a member to a field up to Unicode case folding; besides ASCII letters only
  U+017F and U+212A fold to ASCII. The last matching member wins, a null leaves a string as it
  is, and a value of another type makes the whole decoding fail.
\<close>

fun fold_name :: "string \<Rightarrow> string" where
  "fold_name [] = []"
| "fold_name (c # s) =
     (if prefix [CHR 0xC5, CHR 0xBF] (c # s) then CHR ''s'' # fold_name (drop 1 s)
      else if prefix [CHR 0xE2, CHR 0x84, CHR 0xAA] (c # s) then CHR ''k'' # fold_name (drop 2 s)
      else lower_char c # fold_name s)"

definition names :: "string \<Rightarrow> string \<times> string \<Rightarrow> bool" where
  "names f m \<longleftrightarrow> fold_name (fst m) = fold_name f"

fun string_field :: "string \<Rightarrow> (string \<times> string) list \<Rightarrow> string \<Rightarrow> string option" where
  "string_field f [] acc = Some acc"
| "string_field f (m # ms) acc =
     (if names f m then
        (case json_parse (snd m) of
           Some (JStr v) \<Rightarrow> string_field f ms v
         | Some JNull \<Rightarrow> string_field f ms acc
         | _ \<Rightarrow> None)
      else string_field f ms acc)"

text \<open>A \<open>json.RawMessage\<close> field; empty when the member is missing.\<close>

definition raw_field :: "string \<Rightarrow> (string \<times> string) list \<Rightarrow> string" where
  "raw_field f ms = (case find (names f) (rev ms) of Some m \<Rightarrow> snd m | None \<Rightarrow> [])"

text \<open>An \<open>int\<close> field: an integer literal of 64 bits, without fraction or exponent.\<close>

definition decimal :: "string \<Rightarrow> int" where
  "decimal ds = foldl (\<lambda>n c. n * 10 + int (byte c) - 48) 0 ds"

definition int_literal :: "string \<Rightarrow> int option" where
  "int_literal t =
     (let neg = prefix ''-'' t; ds = (if neg then drop 1 t else t);
          v = (if neg then - decimal ds else decimal ds) in
      if ds = [] \<or> (\<exists>c \<in> set ds. byte c < 48 \<or> 57 < byte c) then None
      else if v < - (2 ^ 63) \<or> 2 ^ 63 \<le> v then None
      else Some v)"

fun int_field :: "string \<Rightarrow> (string \<times> string) list \<Rightarrow> int \<Rightarrow> int option" where
  "int_field f [] acc = Some acc"
| "int_field f (m # ms) acc =
     (if names f m then
        (case json_parse (snd m) of
           Some (JNum t) \<Rightarrow> (case int_literal t of Some v \<Rightarrow> int_field f ms v | None \<Rightarrow> None)
         | Some JNull \<Rightarrow> int_field f ms acc
         | _ \<Rightarrow> None)
      else int_field f ms acc)"

end
