(* ===== verification/Surprise_LLM.thy ===== *)
theory Surprise_LLM
  imports Surprise_Pipeline Gift_Json "HOL-Library.List_Lexorder" "HOL-Library.Char_ord"
begin

text \<open>
  The Claude client of the Surprise service (\<open>services/backend/surprise/internal/llm/anthropic.go\<close>):
  the request it sends, the tolerant decoding of the ideas the model returns, and the description
  of a payload it logs when decoding fails. The HTTP exchange is a parameter, \<open>ac_http\<close>; a request
  is given to it before \<open>json.Marshal\<close>. An error is \<open>Inl ()\<close>: its text is only logged.
\<close>

section \<open>Configuration\<close>

record anthropic_config =
  an_BaseURL :: string
  an_APIKey :: string
  an_Version :: string
  an_SonnetModel :: string
  an_OpusModel :: string
  an_HaikuModel :: string
  an_EmbeddingModel :: string
  an_EmbeddingDim :: int
  an_MaxTokens :: int
  an_Timeout :: duration

definition default_text :: "string \<Rightarrow> string \<Rightarrow> string" where
  "default_text s d = (if s = [] then d else s)"

definition default_int :: "int \<Rightarrow> int \<Rightarrow> int" where
  "default_int n d = (if n = 0 then d else n)"

definition NewAnthropicClient :: "anthropic_config \<Rightarrow> anthropic_config" where
  "NewAnthropicClient cfg = cfg
     \<lparr>an_BaseURL := default_text (an_BaseURL cfg) ''https://api.anthropic.com'',
      an_Version := default_text (an_Version cfg) ''2023-06-01'',
      an_SonnetModel := default_text (an_SonnetModel cfg) ''claude-sonnet-5'',
      an_OpusModel := default_text (an_OpusModel cfg) ''claude-opus-4-8'',
      an_HaikuModel := default_text (an_HaikuModel cfg) ''claude-haiku-4-5'',
      an_EmbeddingDim := default_int (an_EmbeddingDim cfg) 1536,
      an_MaxTokens := default_int (an_MaxTokens cfg) 2048,
      an_Timeout := default_int (an_Timeout cfg) (30 * ns_per_sec)\<rparr>"

fun an_model :: "anthropic_config \<Rightarrow> llm_tier \<Rightarrow> string" where
  "an_model cfg LlmOpus = an_OpusModel cfg"
| "an_model cfg LlmModeration = an_HaikuModel cfg"
| "an_model cfg _ = an_SonnetModel cfg"

section \<open>The messages API\<close>

text \<open>A value of \<open>map[string]interface{}\<close>.\<close>

datatype schema = SText string | SBool bool | STexts "string list" | SMap "(string \<times> schema) list"

record message_param =
  mp_Role :: string
  mp_Content :: string

record tool_def =
  td_Name :: string
  td_Description :: string
  td_InputSchema :: schema

record tool_choice =
  tc_Type :: string
  tc_Name :: string

record messages_request =
  mq_Model :: string
  mq_MaxTokens :: int
  mq_System :: string
  mq_Messages :: "message_param list"
  mq_Tools :: "tool_def list"
  mq_ToolChoice :: "tool_choice option"

record http_request =
  hr_URL :: string
  hr_Headers :: "(string \<times> string) list"
  hr_Body :: messages_request

record content_block =
  cb_Type :: string
  cb_Text :: string
  cb_Name :: string
  cb_Input :: string

section \<open>Decoding ideas\<close>

definition zero_idea :: llm_idea where
  "zero_idea = \<lparr>li_Title = [], li_WhyItFits = [], li_RoughCost = [], li_HowTo = []\<rparr>"

definition decode_idea :: "string \<Rightarrow> llm_idea option" where
  "decode_idea raw =
     (case json_parse raw of
        Some JNull \<Rightarrow> Some zero_idea
      | Some (JObj ms) \<Rightarrow>
          (case (string_field ''title'' ms [], string_field ''why_it_fits'' ms [],
                 string_field ''rough_cost'' ms [], string_field ''how_to'' ms []) of
             (Some t, Some y, Some c, Some h) \<Rightarrow>
               Some \<lparr>li_Title = t, li_WhyItFits = y, li_RoughCost = c, li_HowTo = h\<rparr>
           | _ \<Rightarrow> None)
      | _ \<Rightarrow> None)"

definition decode_ideas :: "string \<Rightarrow> llm_idea list option" where
  "decode_ideas raw =
     (case json_parse raw of
        Some JNull \<Rightarrow> Some []
      | Some (JArr rs) \<Rightarrow> those (map decode_idea rs)
      | _ \<Rightarrow> None)"

definition decode_string :: "string \<Rightarrow> string option" where
  "decode_string raw =
     (case json_parse raw of Some JNull \<Rightarrow> Some [] | Some (JStr s) \<Rightarrow> Some s | _ \<Rightarrow> None)"

text \<open>The wrapper struct with the one field \<open>ideas\<close>.\<close>

definition decode_wrapper :: "string \<Rightarrow> string option" where
  "decode_wrapper raw =
     (case json_parse raw of
        Some JNull \<Rightarrow> Some []
      | Some (JObj ms) \<Rightarrow> Some (raw_field ''ideas'' ms)
      | _ \<Rightarrow> None)"

section \<open>The ideas field\<close>

definition isJSONObject :: "string \<Rightarrow> bool" where
  "isJSONObject raw = prefix ''{'' (TrimSpace raw)"

definition maxIdeasDecodeDepth :: nat where
  "maxIdeasDecodeDepth = 3"

definition single_idea :: "string \<Rightarrow> unit + llm_idea list" where
  "single_idea raw =
     (case decode_idea raw of
        Some x \<Rightarrow> (if x \<noteq> zero_idea then Inr [x] else Inl ())
      | None \<Rightarrow> Inl ())"

function decodeIdeasFieldDepth :: "string \<Rightarrow> nat \<Rightarrow> unit + llm_idea list" where
  "decodeIdeasFieldDepth raw depth =
     (if raw = [] \<or> raw = ''null'' then Inr []
      else case decode_ideas raw of
        Some xs \<Rightarrow> Inr xs
      | None \<Rightarrow>
          if depth < maxIdeasDecodeDepth then
            (case decode_string raw of
               Some s \<Rightarrow> decodeIdeasFieldDepth s (depth + 1)
             | None \<Rightarrow>
                 if isJSONObject raw then
                   (case decode_wrapper raw of
                      Some w \<Rightarrow> (if w \<noteq> [] then decodeIdeasFieldDepth w (depth + 1) else single_idea raw)
                    | None \<Rightarrow> single_idea raw)
                 else Inl ())
          else Inl ())"
  by pat_completeness auto
termination
  by (relation "measure (\<lambda>(raw, depth). maxIdeasDecodeDepth - depth)") auto

declare decodeIdeasFieldDepth.simps [simp del]

definition decodeIdeasField :: "string \<Rightarrow> unit + llm_idea list" where
  "decodeIdeasField raw = decodeIdeasFieldDepth raw 0"

text \<open>\<open>json.Unmarshal\<close> into \<open>emitIdeasInput\<close>, whose \<open>UnmarshalJSON\<close> this is.\<close>

definition unmarshal_emitIdeasInput :: "string \<Rightarrow> unit + llm_idea list" where
  "unmarshal_emitIdeasInput data =
     (case decode_wrapper data of None \<Rightarrow> Inl () | Some raw \<Rightarrow> decodeIdeasField raw)"

section \<open>The shape of a payload\<close>

definition jsonKind :: "string \<Rightarrow> string" where
  "jsonKind raw =
     (case TrimSpace raw of
        [] \<Rightarrow> ''empty''
      | c # _ \<Rightarrow>
          if c = CHR ''{'' then ''object'' else if c = CHR ''['' then ''array''
          else if c = CHR 0x22 then ''string'' else if c = CHR ''t'' \<or> c = CHR ''f'' then ''bool''
          else if c = CHR ''n'' then ''null'' else ''number'')"

text \<open>\<open>describeJSONShape\<close> on everything but a string.\<close>

definition describe_flat :: "string \<Rightarrow> string" where
  "describe_flat raw =
     (if jsonKind raw = ''object'' then
        (case json_parse raw of
           Some (JObj ms) \<Rightarrow> ''object{keys=['' @ Join (sort (remdups (map fst ms))) '' '' @ '']}''
         | _ \<Rightarrow> ''object(unparseable)'')
      else if jsonKind raw = ''array'' then
        (case json_parse raw of
           Some (JArr []) \<Rightarrow> ''array[len=0]''
         | Some (JArr (a # as)) \<Rightarrow>
             ''array[len='' @ fmt_nat (length (a # as)) @ '', elem='' @ jsonKind a @ '']''
         | _ \<Rightarrow> ''array(unparseable)'')
      else jsonKind raw)"

text \<open>The content of a string is described only when it is an object or an array, so the source's
  recursion ends there.\<close>

definition describeJSONShape :: "string \<Rightarrow> string" where
  "describeJSONShape raw =
     (if jsonKind raw = ''string'' then
        (case decode_string raw of
           Some s \<Rightarrow>
             (let inner = TrimSpace s in
              if jsonKind inner = ''object'' \<or> jsonKind inner = ''array''
              then ''string(len='' @ fmt_nat (length s) @ '')'' @ [CHR 0xE2, CHR 0x86, CHR 0x92] @ describe_flat inner
              else ''string(len='' @ fmt_nat (length (TrimSpace raw)) @ '')'')
         | None \<Rightarrow> ''string(len='' @ fmt_nat (length (TrimSpace raw)) @ '')'')
      else describe_flat raw)"

text \<open>Decoding into a map keeps the last member of each key.\<close>

definition describeIdeasShape :: "string \<Rightarrow> string" where
  "describeIdeasShape input =
     (case (case json_parse input of Some (JObj ms) \<Rightarrow> Some ms | Some JNull \<Rightarrow> Some [] | _ \<Rightarrow> None) of
        None \<Rightarrow> ''input='' @ describeJSONShape input
      | Some ms \<Rightarrow>
          (case map_of (rev ms) ''ideas'' of
             None \<Rightarrow> ''no '' @ [CHR 0x27] @ ''ideas'' @ [CHR 0x27] @ '' key; input='' @ describeJSONShape input
           | Some raw \<Rightarrow> describeJSONShape raw))"

section \<open>The HTTP exchange\<close>

record 'm anthropic_client =
  ac_cfg :: anthropic_config
  ac_http :: "http_request \<Rightarrow> 'm \<Rightarrow> (unit + int \<times> string) \<times> 'm"

definition decode_block :: "string \<Rightarrow> content_block option" where
  "decode_block raw =
     (case json_parse raw of
        Some JNull \<Rightarrow> Some \<lparr>cb_Type = [], cb_Text = [], cb_Name = [], cb_Input = []\<rparr>
      | Some (JObj ms) \<Rightarrow>
          (case (string_field ''type'' ms [], string_field ''text'' ms [], string_field ''name'' ms []) of
             (Some ty, Some tx, Some n) \<Rightarrow>
               Some \<lparr>cb_Type = ty, cb_Text = tx, cb_Name = n, cb_Input = raw_field ''input'' ms\<rparr>
           | _ \<Rightarrow> None)
      | _ \<Rightarrow> None)"

text \<open>\<open>json.Unmarshal\<close> into \<open>messagesResponse\<close>, of which only the content is used. (Of two content
  members the last counts here; the API sends one.)\<close>

definition decode_response :: "string \<Rightarrow> content_block list option" where
  "decode_response data =
     (case json_parse data of
        Some JNull \<Rightarrow> Some []
      | Some (JObj ms) \<Rightarrow>
          (case string_field ''stop_reason'' ms [] of
             None \<Rightarrow> None
           | Some _ \<Rightarrow>
               (let raw = raw_field ''content'' ms in
                if raw = [] then Some []
                else case json_parse raw of
                  Some JNull \<Rightarrow> Some []
                | Some (JArr rs) \<Rightarrow> those (map decode_block rs)
                | _ \<Rightarrow> None))
      | _ \<Rightarrow> None)"

definition an_do ::
  "'m anthropic_client \<Rightarrow> messages_request \<Rightarrow> 'm \<Rightarrow> (unit + content_block list) \<times> 'm" where
  "an_do c body m =
     (let (r, m1) = ac_http c
            \<lparr>hr_URL = an_BaseURL (ac_cfg c) @ ''/v1/messages'',
             hr_Headers = [(''content-type'', ''application/json''), (''x-api-key'', an_APIKey (ac_cfg c)),
               (''anthropic-version'', an_Version (ac_cfg c))],
             hr_Body = body\<rparr> m in
      (case r of
         Inl _ \<Rightarrow> Inl ()
       | Inr (status, data) \<Rightarrow>
           if status div 100 \<noteq> 2 then Inl ()
           else (case decode_response data of None \<Rightarrow> Inl () | Some out \<Rightarrow> Inr out), m1))"

section \<open>The three calls\<close>

definition system_prompt :: string where
  "system_prompt =
     ''You are PerfectGift'' @ [CHR 0x27] @ ''s surprise-idea generator. Produce several genuinely good, '' @
     ''budget-appropriate, non-generic surprise ideas for a partner. Ground every idea in the '' @
     ''provided holiday, budget, preferences, poll answers, and inspiration snippets. Always '' @
     ''return your answer by calling the emit_ideas tool.''"

abbreviation newline :: string where
  "newline \<equiv> [CHR 0x0A]"

definition user_prompt :: "generate_params \<Rightarrow> int \<Rightarrow> string" where
  "user_prompt p n =
     ''Holiday: '' @ gm_Holiday p @ newline @ ''Budget band: '' @ gm_BudgetBand p @ newline @
     ''Preferences: '' @ gm_Preferences p @ newline @
     (if gm_PollAnswers p \<noteq> []
      then ''Poll answers from the partner:'' @ newline @ ''- '' @
        Join (gm_PollAnswers p) (newline @ ''- '') @ newline else []) @
     (if gm_Inspiration p \<noteq> []
      then ''Curated inspiration seeds:'' @ newline @ ''- '' @
        Join (gm_Inspiration p) (newline @ ''- '') @ newline else []) @
     (if gm_Refinement p \<noteq> [] then ''Refinement request: '' @ gm_Refinement p @ newline else []) @
     ''Generate exactly '' @ fmt_int n @ '' ideas.''"

definition emit_ideas_tool :: tool_def where
  "emit_ideas_tool =
     \<lparr>td_Name = ''emit_ideas'', td_Description = ''Return the generated surprise ideas as typed objects.'',
      td_InputSchema = SMap
        [(''type'', SText ''object''),
         (''properties'', SMap
           [(''ideas'', SMap
             [(''type'', SText ''array''),
              (''items'', SMap
                [(''type'', SText ''object''),
                 (''properties'', SMap
                   [(''title'', SMap [(''type'', SText ''string'')]),
                    (''why_it_fits'', SMap [(''type'', SText ''string'')]),
                    (''rough_cost'', SMap [(''type'', SText ''string'')]),
                    (''how_to'', SMap [(''type'', SText ''string'')])]),
                 (''required'', STexts [''title'', ''why_it_fits'', ''rough_cost'', ''how_to'']),
                 (''additionalProperties'', SBool False)])])]),
         (''required'', STexts [''ideas'']),
         (''additionalProperties'', SBool False)]\<rparr>"

definition generate_request :: "anthropic_config \<Rightarrow> generate_params \<Rightarrow> messages_request" where
  "generate_request cfg p =
     (let n = (if gm_N p \<le> 0 then 5 else gm_N p) in
      \<lparr>mq_Model = an_model cfg (gm_Tier p), mq_MaxTokens = an_MaxTokens cfg, mq_System = system_prompt,
       mq_Messages = [\<lparr>mp_Role = ''user'', mp_Content = user_prompt p n\<rparr>],
       mq_Tools = [emit_ideas_tool],
       mq_ToolChoice = Some \<lparr>tc_Type = ''tool'', tc_Name = ''emit_ideas''\<rparr>\<rparr>)"

definition emitted :: "content_block list \<Rightarrow> unit + llm_idea list" where
  "emitted bs =
     (case find (\<lambda>b. cb_Type b = ''tool_use'' \<and> cb_Name b = ''emit_ideas'') bs of
        Some b \<Rightarrow> unmarshal_emitIdeasInput (cb_Input b)
      | None \<Rightarrow> Inl ())"

definition an_GenerateIdeas ::
  "'m anthropic_client \<Rightarrow> generate_params \<Rightarrow> 'm \<Rightarrow> (unit + llm_idea list) \<times> 'm" where
  "an_GenerateIdeas c p m =
     (let (r, m1) = an_do c (generate_request (ac_cfg c) p) m in
      (case r of Inl e \<Rightarrow> Inl e | Inr bs \<Rightarrow> emitted bs, m1))"

definition an_Moderate :: "'m anthropic_client \<Rightarrow> string \<Rightarrow> 'm \<Rightarrow> (unit + bool) \<times> 'm" where
  "an_Moderate c tx m =
     (let (r, m1) = an_do c
            \<lparr>mq_Model = an_model (ac_cfg c) LlmModeration, mq_MaxTokens = 8,
             mq_System = ''You are a content-safety classifier for a wholesome gift-planning app. '' @
               ''Reply with exactly one word: SAFE or UNSAFE.'',
             mq_Messages = [\<lparr>mp_Role = ''user'', mp_Content = tx\<rparr>], mq_Tools = [], mq_ToolChoice = None\<rparr> m in
      (case r of
         Inl e \<Rightarrow> Inl e
       | Inr bs \<Rightarrow>
           (case find (\<lambda>b. cb_Type b = ''text'') bs of
              Some b \<Rightarrow> Inr (\<not> Contains (ToUpper (cb_Text b)) ''UNSAFE'')
            | None \<Rightarrow> Inl ()), m1))"

text \<open>The vector \<open>Embed\<close> returns is floating-point arithmetic on the runes and stays a parameter.\<close>

definition anthropic_llm :: "(string \<Rightarrow> float32 list) \<Rightarrow> 'm anthropic_client \<Rightarrow> 'm llm_client" where
  "anthropic_llm vec c =
     \<lparr>ll_GenerateIdeas = an_GenerateIdeas c, ll_Moderate = an_Moderate c, ll_Embed = (\<lambda>tx m. (vec tx, m))\<rparr>"

section \<open>What the tolerant decoding accepts\<close>

lemma trim_with_keeps:
  assumes "\<forall>p \<in> set ps. c \<notin> set p"
  shows "\<exists>t. trim_with ps (s @ [c]) = t @ [c]"
proof (induction "length s" arbitrary: s rule: less_induct)
  case less
  show ?case
  proof (cases "find (\<lambda>p. p \<noteq> [] \<and> prefix p (s @ [c])) ps")
    case None
    then show ?thesis by (subst trim_with.simps) auto
  next
    case (Some p)
    then have "p \<in> set ps" by (metis find_Some_iff nth_mem)
    moreover have "p \<noteq> []" "prefix p (s @ [c])" using Some by (auto simp: find_Some_iff)
    ultimately have p: "p \<noteq> []" "prefix p (s @ [c])" "c \<notin> set p" using assms by auto
    then have "prefix p s" by (auto simp: prefix_snoc)
    then obtain s' where s': "s = p @ s'" by (auto simp: prefix_def)
    with p(1) have "length s' < length s" by simp
    from less [OF this] Some s' show ?thesis by (subst trim_with.simps) simp
  qed
qed

lemma json_ws_brace: "json_ws s = CHR ''{'' # r \<Longrightarrow> trim_with space_runes s = CHR ''{'' # r"
proof (induction s)
  case (Cons x s)
  show ?case
  proof (cases "x \<in> {CHR 0x20, CHR 0x09, CHR 0x0A, CHR 0x0D}")
    case True
    then have "find (\<lambda>p. p \<noteq> [] \<and> prefix p (x # s)) space_runes = Some [x]"
      by (elim insertE emptyE) (simp_all add: space_runes_def)
    moreover have "trim_with space_runes s = CHR ''{'' # r"
      using True Cons.prems by (intro Cons.IH) simp
    ultimately show ?thesis by (subst trim_with.simps) simp
  next
    case False
    with Cons.prems have x: "x = CHR ''{''" "s = r" by simp_all
    then have "find (\<lambda>p. p \<noteq> [] \<and> prefix p (x # s)) space_runes = None"
      by (simp add: space_runes_def)
    with x show ?thesis by (subst trim_with.simps) simp
  qed
qed simp

lemma json_read_object:
  assumes "json_read n d s = Some (JObj ms, q)"
  shows "\<exists>r. s = CHR ''{'' # r"
proof (cases s)
  case Nil
  with assms show ?thesis by (cases n) simp_all
next
  case (Cons c r)
  with assms show ?thesis
    by (cases n) (auto simp: literal_def split: if_splits)
qed

lemma object_text:
  assumes "json_parse raw = Some (JObj ms)"
  shows "isJSONObject raw"
proof -
  obtain r where "json_ws raw = CHR ''{'' # r"
  proof (cases "json_read (2 * length raw + 2) 0 (json_ws raw)")
    case None
    with assms show ?thesis by (simp add: json_parse_def)
  next
    case (Some vq)
    moreover obtain v q where "vq = (v, q)" by fastforce
    ultimately have "json_read (2 * length raw + 2) 0 (json_ws raw) = Some (JObj ms, q)"
      using assms by (simp add: json_parse_def split: if_splits)
    from json_read_object [OF this] that show ?thesis by blast
  qed
  then have t: "trim_with space_runes raw = CHR ''{'' # r" by (rule json_ws_brace)
  have "\<forall>p \<in> set (map rev space_runes). CHR ''{'' \<notin> set p"
    by (simp add: space_runes_def)
  from trim_with_keeps [OF this, of "rev r"] obtain u where
    "trim_with (map rev space_runes) (rev r @ [CHR ''{'']) = u @ [CHR ''{'']" ..
  then have "TrimSpace raw = CHR ''{'' # rev u" by (simp add: TrimSpace_def t)
  then show ?thesis by (simp add: isJSONObject_def)
qed

text \<open>
  \<open>layers n a b\<close>: the text \<open>b\<close> is \<open>a\<close> inside \<open>n\<close> layers, each a JSON string that holds the
  next layer's text or an object with it in its \<open>ideas\<close> member, in any order.
\<close>

inductive layers :: "nat \<Rightarrow> string \<Rightarrow> string \<Rightarrow> bool" where
  layers_none: "layers 0 a a"
| layers_string: "json_parse b = Some (JStr s) \<Longrightarrow> layers n a s \<Longrightarrow> layers (Suc n) a b"
| layers_object: "json_parse b = Some (JObj ms) \<Longrightarrow> raw_field ''ideas'' ms \<noteq> [] \<Longrightarrow>
    layers n a (raw_field ''ideas'' ms) \<Longrightarrow> layers (Suc n) a b"

inductive_cases layers_SucE: "layers (Suc n) a b"

lemma json_parse_null: "json_parse [] = None" "json_parse ''null'' = Some JNull"
  by code_simp+

text \<open>One level of a payload that is not an array.\<close>

lemma decode_peels:
  "json_parse b = Some (JStr s) \<Longrightarrow> d < maxIdeasDecodeDepth \<Longrightarrow>
     decodeIdeasFieldDepth b d = decodeIdeasFieldDepth s (d + 1)"
  "json_parse b = Some (JObj ms) \<Longrightarrow> raw_field ''ideas'' ms \<noteq> [] \<Longrightarrow> d < maxIdeasDecodeDepth \<Longrightarrow>
     decodeIdeasFieldDepth b d = decodeIdeasFieldDepth (raw_field ''ideas'' ms) (d + 1)"
  "json_parse b = Some (JObj ms) \<Longrightarrow> raw_field ''ideas'' ms = [] \<Longrightarrow> d < maxIdeasDecodeDepth \<Longrightarrow>
     decodeIdeasFieldDepth b d = single_idea b"
  by (subst decodeIdeasFieldDepth.simps,
      use json_parse_null in \<open>auto simp: decode_ideas_def decode_string_def decode_wrapper_def object_text\<close>)+

lemma decode_stops:
  "json_parse b = Some v \<Longrightarrow> (\<exists>s. v = JStr s) \<or> (\<exists>ms. v = JObj ms) \<Longrightarrow>
     decodeIdeasFieldDepth b maxIdeasDecodeDepth = Inl ()"
  by (subst decodeIdeasFieldDepth.simps, use json_parse_null in \<open>auto simp: decode_ideas_def\<close>)

lemma layers_depth:
  assumes "layers n a b" and "\<And>e. e \<le> maxIdeasDecodeDepth \<Longrightarrow> decodeIdeasFieldDepth a e = f e"
    and "d \<le> maxIdeasDecodeDepth"
  shows "decodeIdeasFieldDepth b d = (if n + d \<le> maxIdeasDecodeDepth then f (n + d) else Inl ())"
  using assms
proof (induction n a b arbitrary: d rule: layers.induct)
  case (layers_none a)
  then show ?case by simp
next
  case (layers_string b s n a)
  then show ?case using decode_peels(1) [of b s d] decode_stops [of b]
    by (cases "d < maxIdeasDecodeDepth") auto
next
  case (layers_object b ms n a)
  then show ?case using decode_peels(2) [of b ms d] decode_stops [of b]
    by (cases "d < maxIdeasDecodeDepth") auto
qed

text \<open>The ideas of a payload are found through up to three layers and no more: an array of ideas
  inside any mix of at most three string or object wrappers decodes to exactly its ideas, and a
  single non-empty idea object inside at most two to the list of it; with more wrappers the
  decoding ends with an error.\<close>

theorem ideas_found_in_layers:
  assumes "layers n a b"
  shows "(decode_ideas a = Some xs \<and> json_parse a = Some (JArr rs) \<longrightarrow>
      decodeIdeasField b = (if n \<le> 3 then Inr xs else Inl ())) \<and>
    (decode_idea a = Some x \<and> x \<noteq> zero_idea \<and> json_parse a = Some (JObj ms) \<and> raw_field ''ideas'' ms = [] \<longrightarrow>
      decodeIdeasField b = (if n \<le> 2 then Inr [x] else Inl ()))"
proof (intro conjI impI)
  assume a: "decode_ideas a = Some xs \<and> json_parse a = Some (JArr rs)"
  have "decodeIdeasFieldDepth a e = Inr xs" for e
    using a json_parse_null by (subst decodeIdeasFieldDepth.simps) auto
  from layers_depth [OF assms, of "\<lambda>_. Inr xs" 0] this
  show "decodeIdeasField b = (if n \<le> 3 then Inr xs else Inl ())"
    by (simp add: decodeIdeasField_def maxIdeasDecodeDepth_def)
next
  assume a: "decode_idea a = Some x \<and> x \<noteq> zero_idea \<and> json_parse a = Some (JObj ms) \<and> raw_field ''ideas'' ms = []"
  have "decodeIdeasFieldDepth a e = (if e < maxIdeasDecodeDepth then Inr [x] else Inl ())"
    if "e \<le> maxIdeasDecodeDepth" for e
  proof (cases "e < maxIdeasDecodeDepth")
    case True
    with a decode_peels(3) show ?thesis by (simp add: single_idea_def)
  next
    case False
    with that have "e = maxIdeasDecodeDepth" by simp
    with a decode_stops [of a] show ?thesis by simp
  qed
  from layers_depth [OF assms this, of 0]
  show "decodeIdeasField b = (if n \<le> 2 then Inr [x] else Inl ())"
    by (auto simp: decodeIdeasField_def maxIdeasDecodeDepth_def)
qed

text \<open>The wrapper, an array of one idea, the wrapper in a string, and that in a string again.\<close>

definition ex_array :: string where
  "ex_array = ''[{'' @ [CHR 0x22] @ ''title'' @ [CHR 0x22] @ '':'' @ [CHR 0x22] @ ''Tea'' @ [CHR 0x22] @ ''}]''"

definition ex_wrapper :: string where
  "ex_wrapper = ''{'' @ [CHR 0x22] @ ''ideas'' @ [CHR 0x22] @ '': '' @ ex_array @ ''}''"

definition ex_quote :: "string \<Rightarrow> string" where
  "ex_quote s = CHR 0x22 # concat (map (\<lambda>c. if c \<in> {CHR 0x22, CHR 0x5C} then [CHR 0x5C, c] else [c]) s) @ [CHR 0x22]"

lemma ideas_found_in_layers_witness:
  "decodeIdeasField (ex_quote (ex_quote ex_wrapper)) = Inr [zero_idea\<lparr>li_Title := ''Tea''\<rparr>] \<and>
   decodeIdeasField (ex_quote (ex_quote (ex_quote ex_wrapper))) = Inl ()"
proof -
  have a: "decode_ideas ex_array = Some [zero_idea\<lparr>li_Title := ''Tea''\<rparr>]"
    "json_parse ex_array = Some (JArr [drop 1 (take 16 ex_array)])" by code_simp+
  have w: "json_parse ex_wrapper = Some (JObj [(''ideas'', ex_array)])"
    "raw_field ''ideas'' [(''ideas'', ex_array)] = ex_array" "ex_array \<noteq> []" by code_simp+
  have q: "json_parse (ex_quote ex_wrapper) = Some (JStr ex_wrapper)"
    "json_parse (ex_quote (ex_quote ex_wrapper)) = Some (JStr (ex_quote ex_wrapper))"
    "json_parse (ex_quote (ex_quote (ex_quote ex_wrapper))) = Some (JStr (ex_quote (ex_quote ex_wrapper)))"
    by code_simp+
  have 1: "layers 1 ex_array ex_wrapper"
    using layers_object [OF w(1), of 0 ex_array] w(2,3) layers_none by simp
  have 3: "layers 3 ex_array (ex_quote (ex_quote ex_wrapper))"
    using layers_string [OF q(2) layers_string [OF q(1) 1]] by (simp add: numeral_3_eq_3)
  have 4: "layers 4 ex_array (ex_quote (ex_quote (ex_quote ex_wrapper)))"
    using layers_string [OF q(3) 3] by (simp add: eval_nat_numeral)
  show ?thesis
    using ideas_found_in_layers [OF 3] ideas_found_in_layers [OF 4] a by simp
qed

end
