(* ===== verification/Surprise_Resilience.thy ===== *)
theory Surprise_Resilience
  imports Gift_Prelude
begin

text \<open>
  The retry and circuit-breaker primitives around the model calls
  (\<open>services/backend/surprise/internal/resilience/resilience.go\<close>). \<open>Do\<close> takes the breaker's lock
  twice, before and after the guarded function, so a call is two atomic steps (\<open>bk_enter\<close> and
  \<open>bk_exit\<close>) and concurrent calls are interleavings of these (\<open>bk_run\<close>). \<open>Retry\<close> is a loop over
  the attempts that counts its calls and records the waits it asks for.
\<close>

section \<open>The circuit breaker\<close>

datatype bk_state = StateClosed | StateOpen | StateHalfOpen

record breaker =
  bk_maxFailures :: int
  bk_openDuration :: duration
  bk_failures :: int
  bk_state :: bk_state
  bk_openedAt :: time

definition NewBreaker :: "int \<Rightarrow> duration \<Rightarrow> breaker" where
  "NewBreaker maxFailures openDuration =
     \<lparr>bk_maxFailures = (if maxFailures < 1 then 1 else maxFailures), bk_openDuration = openDuration,
      bk_failures = 0, bk_state = StateClosed, bk_openedAt = 0\<rparr>"

definition bk_refresh :: "time \<Rightarrow> breaker \<Rightarrow> breaker" where
  "bk_refresh now b =
     (if bk_state b = StateOpen \<and> bk_openDuration b \<le> now - bk_openedAt b
      then b\<lparr>bk_state := StateHalfOpen\<rparr> else b)"

definition bk_State :: "time \<Rightarrow> breaker \<Rightarrow> bk_state \<times> breaker" where
  "bk_State now b = (let b1 = bk_refresh now b in (bk_state b1, b1))"

text \<open>The first critical section of \<open>Do\<close>: whether the call is admitted.\<close>

definition bk_enter :: "time \<Rightarrow> breaker \<Rightarrow> bool \<times> breaker" where
  "bk_enter now b = (let b1 = bk_refresh now b in (bk_state b1 \<noteq> StateOpen, b1))"

text \<open>The second one, with whether the function failed.\<close>

definition bk_exit :: "bool \<Rightarrow> time \<Rightarrow> breaker \<Rightarrow> breaker" where
  "bk_exit failed now b =
     (if failed then
        (let b1 = b\<lparr>bk_failures := bk_failures b + 1\<rparr> in
         if bk_maxFailures b1 \<le> bk_failures b1 \<or> bk_state b1 = StateHalfOpen
         then b1\<lparr>bk_state := StateOpen, bk_openedAt := now\<rparr> else b1)
      else b\<lparr>bk_failures := 0, bk_state := StateClosed\<rparr>)"

text \<open>\<open>Do\<close> of a function that runs alone: \<open>Inl\<close> when it was not called (\<open>ErrOpen\<close>).\<close>

definition bk_Do ::
  "('s \<Rightarrow> (bool \<times> 'r) \<times> 's) \<Rightarrow> time \<Rightarrow> time \<Rightarrow> breaker \<Rightarrow> 's \<Rightarrow> (unit + bool \<times> 'r) \<times> breaker \<times> 's" where
  "bk_Do fn t1 t2 b s =
     (let (admitted, b1) = bk_enter t1 b in
      if \<not> admitted then (Inl (), b1, s)
      else let ((failed, r), s1) = fn s in (Inr (failed, r), bk_exit failed t2 b1, s1))"

section \<open>Interleaved calls\<close>

datatype bk_event = Enter time | Exit time bool | Look time

fun ev_time :: "bk_event \<Rightarrow> time" where
  "ev_time (Enter t) = t"
| "ev_time (Exit t failed) = t"
| "ev_time (Look t) = t"

fun bk_run :: "bk_event list \<Rightarrow> breaker \<Rightarrow> bool list \<times> breaker" where
  "bk_run [] b = ([], b)"
| "bk_run (Enter t # es) b =
     (let (a, b1) = bk_enter t b; (as, b2) = bk_run es b1 in (a # as, b2))"
| "bk_run (Exit t failed # es) b = bk_run es (bk_exit failed t b)"
| "bk_run (Look t # es) b = bk_run es (snd (bk_State t b))"

text \<open>
  What the history says: the failures since the last success, and the instant of the last of
  them. A call is refused while there are at least \<open>maxFailures\<close> of them and the last is less
  than \<open>openDuration\<close> old.
\<close>

fun bk_history :: "bk_event list \<Rightarrow> int \<times> time \<Rightarrow> int \<times> time" where
  "bk_history [] h = h"
| "bk_history (Exit t True # es) (n, l) = bk_history es (n + 1, t)"
| "bk_history (Exit t False # es) (n, l) = bk_history es (0, l)"
| "bk_history (Enter t # es) h = bk_history es h"
| "bk_history (Look t # es) h = bk_history es h"

definition bk_refuses :: "breaker \<Rightarrow> int \<times> time \<Rightarrow> time \<Rightarrow> bool" where
  "bk_refuses b h t \<longleftrightarrow> bk_maxFailures b \<le> fst h \<and> t - snd h < bk_openDuration b"

fun bk_spec :: "bk_event list \<Rightarrow> breaker \<Rightarrow> int \<times> time \<Rightarrow> bool list" where
  "bk_spec [] b h = []"
| "bk_spec (Enter t # es) b h = (\<not> bk_refuses b h t) # bk_spec es b h"
| "bk_spec (e # es) b h = bk_spec es b (bk_history [e] h)"

text \<open>The breaker agrees with a history whose last event was at \<open>now\<close>.\<close>

definition bk_agrees :: "breaker \<Rightarrow> int \<times> time \<Rightarrow> time \<Rightarrow> bool" where
  "bk_agrees b h now \<longleftrightarrow>
     1 \<le> bk_maxFailures b \<and> bk_failures b = fst h \<and>
     (bk_state b = StateClosed \<longleftrightarrow> fst h < bk_maxFailures b) \<and>
     (bk_state b \<noteq> StateClosed \<longrightarrow> bk_openedAt b = snd h) \<and>
     (bk_state b = StateHalfOpen \<longrightarrow> bk_openDuration b \<le> now - snd h)"

lemma bk_refresh_agrees:
  assumes "bk_agrees b h now" and "now \<le> t"
  shows "bk_agrees (bk_refresh t b) h t \<and> bk_maxFailures (bk_refresh t b) = bk_maxFailures b \<and>
    bk_openDuration (bk_refresh t b) = bk_openDuration b \<and>
    (bk_state (bk_refresh t b) = StateOpen \<longleftrightarrow> bk_refuses b h t)"
  using assms by (cases "bk_state b") (auto simp: bk_agrees_def bk_refresh_def bk_refuses_def)

lemma bk_exit_agrees:
  assumes "bk_agrees b h now" and "now \<le> t"
  shows "bk_agrees (bk_exit failed t b) (bk_history [Exit t failed] h) t \<and>
    bk_maxFailures (bk_exit failed t b) = bk_maxFailures b \<and>
    bk_openDuration (bk_exit failed t b) = bk_openDuration b"
  using assms by (cases h; cases failed; cases "bk_state b")
    (auto simp: bk_agrees_def bk_exit_def Let_def)

lemma bk_spec_cong:
  "bk_maxFailures b' = bk_maxFailures b \<Longrightarrow> bk_openDuration b' = bk_openDuration b \<Longrightarrow>
   bk_spec es b' h = bk_spec es b h"
proof (induction es arbitrary: h)
  case (Cons e es)
  then show ?case by (cases e) (simp_all add: bk_refuses_def)
qed simp

lemma bk_run_spec:
  "bk_agrees b h now \<Longrightarrow> sorted (now # map ev_time es) \<Longrightarrow> fst (bk_run es b) = bk_spec es b h"
proof (induction es arbitrary: b h now)
  case Nil
  then show ?case by simp
next
  case (Cons e es)
  show ?case
  proof (cases e)
    case (Enter t)
    have r: "bk_agrees (bk_refresh t b) h t" "bk_maxFailures (bk_refresh t b) = bk_maxFailures b"
      "bk_openDuration (bk_refresh t b) = bk_openDuration b"
      "bk_state (bk_refresh t b) = StateOpen \<longleftrightarrow> bk_refuses b h t"
      using bk_refresh_agrees [OF Cons.prems(1), of t] Cons.prems(2) Enter by auto
    obtain as b2 where 1: "bk_run es (bk_refresh t b) = (as, b2)" by fastforce
    have "as = bk_spec es (bk_refresh t b) h"
      using Cons.IH [OF r(1)] Cons.prems(2) Enter 1 by simp
    then have "as = bk_spec es b h" using bk_spec_cong [OF r(2, 3)] by simp
    with r(4) 1 show ?thesis by (simp add: Enter bk_enter_def Let_def)
  next
    case (Exit t failed)
    note r = bk_exit_agrees [OF Cons.prems(1), of t failed]
    from Cons.prems(2) Exit have "now \<le> t" "sorted (t # map ev_time es)" by auto
    with r Cons.IH [of "bk_exit failed t b" "bk_history [Exit t failed] h" t]
    have "fst (bk_run es (bk_exit failed t b)) = bk_spec es (bk_exit failed t b) (bk_history [Exit t failed] h)"
      by blast
    also have "\<dots> = bk_spec es b (bk_history [Exit t failed] h)"
      by (rule bk_spec_cong) (use r \<open>now \<le> t\<close> in auto)
    finally show ?thesis by (simp add: Exit)
  next
    case (Look t)
    from Cons.prems(2) Look have t: "now \<le> t" "sorted (t # map ev_time es)" by auto
    note r = bk_refresh_agrees [OF Cons.prems(1) t(1)]
    with Cons.IH [of "bk_refresh t b" h t] t
    have "fst (bk_run es (bk_refresh t b)) = bk_spec es (bk_refresh t b) h" by blast
    also have "\<dots> = bk_spec es b h" by (rule bk_spec_cong) (use r in auto)
    finally show ?thesis by (cases h) (simp add: Look bk_State_def Let_def)
  qed
qed

lemma NewBreaker_agrees: "bk_agrees (NewBreaker m d) (0, l) now"
  by (auto simp: bk_agrees_def NewBreaker_def)

lemma bk_spec_append: "bk_spec (es @ fs) b h = bk_spec es b h @ bk_spec fs b (bk_history es h)"
proof (induction es arbitrary: h)
  case (Cons e es)
  obtain n l where h: "h = (n, l)" by fastforce
  show ?case
  proof (cases e)
    case (Exit t failed)
    with Cons h show ?thesis by (cases failed) simp_all
  qed (use Cons h in simp_all)
qed simp

lemma bk_spec_enters:
  "(\<And>t. t \<in> set ts \<Longrightarrow> \<not> bk_refuses b h t) \<Longrightarrow> bk_spec (map Enter ts) b h = replicate (length ts) True"
  by (induction ts) auto

text \<open>C24: Whatever calls are in flight at the same time and however they interleave, the breaker
  admits a call exactly when fewer than \<open>maxFailures\<close> calls have failed since the last success or
  the last failure is at least \<open>openDuration\<close> old.\<close>

theorem breaker_refines_history:
  assumes "sorted (map ev_time es)"
  shows "fst (bk_run es (NewBreaker m d)) = bk_spec es (NewBreaker m d) (0, l)"
proof (cases es)
  case Nil
  then show ?thesis by simp
next
  case (Cons e fs)
  with assms have "sorted (ev_time e # map ev_time es)" by simp
  then show ?thesis by (rule bk_run_spec [OF NewBreaker_agrees])
qed

lemma breaker_refines_history_witness:
  "fst (bk_run [Enter 1, Exit 2 True, Enter 3, Enter 3, Exit 4 True, Enter 5, Enter 14, Exit 15 False, Enter 16]
     (NewBreaker 2 10)) = [True, True, True, False, True, True]"
proof -
  let ?es = "[Enter 1, Exit 2 True, Enter 3, Enter 3, Exit 4 True, Enter 5, Enter 14, Exit 15 False, Enter 16]"
  have "sorted (map ev_time ?es)" by simp
  from breaker_refines_history [OF this, of 2 10 0] show ?thesis
    by (simp add: bk_refuses_def NewBreaker_def)
qed

text \<open>The half-open state is not limited to a single trial: once the last failure is
  \<open>openDuration\<close> old, any number of calls that start before the first of them ends are all
  admitted; and a success of a call admitted before the circuit opened closes it at once, so the
  very next call is admitted however recent the failures are.\<close>

theorem breaker_half_open_not_single:
  assumes "sorted (map ev_time es @ ts)" and "sorted (map ev_time es @ [t, t'])"
    and "\<forall>x \<in> set ts. snd (bk_history es (0, 0)) + d \<le> x"
  shows "fst (bk_run (es @ map Enter ts) (NewBreaker m d)) =
      fst (bk_run es (NewBreaker m d)) @ replicate (length ts) True \<and>
    fst (bk_run (es @ [Exit t False, Enter t']) (NewBreaker m d)) =
      fst (bk_run es (NewBreaker m d)) @ [True]"
proof -
  have run: "fst (bk_run fs (NewBreaker m d)) = bk_spec fs (NewBreaker m d) (0, 0)" if "sorted (map ev_time fs)" for fs
    using bk_run_spec [OF NewBreaker_agrees, of "if fs = [] then 0 else ev_time (hd fs)" fs m d 0] that
    by (cases fs) auto
  have e: "map ev_time (map Enter ts) = ts" by (induction ts) auto
  have 1: "fst (bk_run es (NewBreaker m d)) = bk_spec es (NewBreaker m d) (0, 0)"
    using assms(1) by (intro run) (simp add: sorted_append)
  have 2: "fst (bk_run (es @ map Enter ts) (NewBreaker m d)) = bk_spec (es @ map Enter ts) (NewBreaker m d) (0, 0)"
    using assms(1) e by (intro run) simp
  have 3: "fst (bk_run (es @ [Exit t False, Enter t']) (NewBreaker m d)) =
      bk_spec (es @ [Exit t False, Enter t']) (NewBreaker m d) (0, 0)"
    using assms(2) by (intro run) simp
  have "bk_spec (map Enter ts) (NewBreaker m d) (bk_history es (0, 0)) = replicate (length ts) True"
    using assms(3) by (intro bk_spec_enters) (auto simp: bk_refuses_def NewBreaker_def)
  moreover obtain n l where "bk_history es (0, 0) = (n, l)" by fastforce
  ultimately show ?thesis unfolding 2 3 bk_spec_append 1
    by (simp add: bk_refuses_def NewBreaker_def)
qed

lemma breaker_half_open_not_single_witness:
  "fst (bk_run ([Enter 0, Enter 0, Exit 1 True] @ map Enter [20, 20, 20]) (NewBreaker 1 10)) =
     [True, True, True, True, True] \<and>
   fst (bk_run ([Enter 0, Enter 0, Exit 1 True] @ [Exit 2 False, Enter 3]) (NewBreaker 1 10)) = [True, True, True]"
proof -
  let ?es = "[Enter 0, Enter 0, Exit 1 True]"
  have "sorted (map ev_time ?es @ [20, 20, 20])" "sorted (map ev_time ?es @ [2, 3])"
    "\<forall>x \<in> set [20, 20, 20]. snd (bk_history ?es (0, 0)) + 10 \<le> x"
    by simp_all
  from breaker_half_open_not_single [OF this, of 1] show ?thesis
    by (simp add: bk_enter_def bk_refresh_def bk_exit_def NewBreaker_def Let_def)
qed

section \<open>Retry\<close>

text \<open>
  An error of the retried function is transient, or wrapped by \<open>Permanent\<close>. \<open>cd i\<close> is
  \<open>ctx.Err()\<close> before attempt \<open>i\<close> and \<open>cw i\<close> what \<open>ctx.Done\<close> reports during the wait after it.
  The result is the error returned (none on success), the number of calls, the waits and the
  state.
\<close>

datatype 'e fn_err = Transient 'e | Permanent 'e

record retry_config =
  rc_MaxAttempts :: int
  rc_BaseBackoff :: duration

definition rc_backoff :: "retry_config \<Rightarrow> nat \<Rightarrow> duration" where
  "rc_backoff cfg i = wrap64 (rc_BaseBackoff cfg * 2 ^ i)"

function retry_loop ::
  "retry_config \<Rightarrow> nat \<Rightarrow> (nat \<Rightarrow> 'e option) \<Rightarrow> (nat \<Rightarrow> 'e option) \<Rightarrow>
   ('s \<Rightarrow> 'e fn_err option \<times> 's) \<Rightarrow> nat \<Rightarrow> 's \<Rightarrow> 'e option \<times> nat \<times> duration list \<times> 's" where
  "retry_loop cfg n cd cw fn i s =
     (if n \<le> i then (None, 0, [], s)
      else case cd i of
        Some e \<Rightarrow> (Some e, 0, [], s)
      | None \<Rightarrow>
          (let (r, s1) = fn s in
           case r of
             None \<Rightarrow> (None, 1, [], s1)
           | Some (Permanent e) \<Rightarrow> (Some e, 1, [], s1)
           | Some (Transient e) \<Rightarrow>
               if Suc i = n then (Some e, 1, [], s1)
               else case cw i of
                 Some e' \<Rightarrow> (Some e', 1, [rc_backoff cfg i], s1)
               | None \<Rightarrow>
                   (let (r', c, ws, s2) = retry_loop cfg n cd cw fn (Suc i) s1 in
                    (r', Suc c, rc_backoff cfg i # ws, s2))))"
  by pat_completeness auto
termination by (relation "measure (\<lambda>(cfg, n, cd, cw, fn, i, s). n - i)") auto

declare retry_loop.simps [simp del]

definition rc_attempts :: "retry_config \<Rightarrow> nat" where
  "rc_attempts cfg = nat (if rc_MaxAttempts cfg < 1 then 1 else rc_MaxAttempts cfg)"

definition Retry ::
  "retry_config \<Rightarrow> (nat \<Rightarrow> 'e option) \<Rightarrow> (nat \<Rightarrow> 'e option) \<Rightarrow> ('s \<Rightarrow> 'e fn_err option \<times> 's) \<Rightarrow> 's \<Rightarrow>
   'e option \<times> nat \<times> duration list \<times> 's" where
  "Retry cfg cd cw fn s = retry_loop cfg (rc_attempts cfg) cd cw fn 0 s"

text \<open>The state before the call number \<open>k\<close> of a function called over and over.\<close>

fun after_calls :: "('s \<Rightarrow> 'r \<times> 's) \<Rightarrow> nat \<Rightarrow> 's \<Rightarrow> 's" where
  "after_calls fn 0 s = s"
| "after_calls fn (Suc k) s = after_calls fn k (snd (fn s))"

text \<open>The outcome of a retry that made the calls 0 to \<open>k\<close>.\<close>

definition retry_ended ::
  "retry_config \<Rightarrow> nat \<Rightarrow> ('s \<Rightarrow> 'e fn_err option \<times> 's) \<Rightarrow> nat \<Rightarrow> 's \<Rightarrow> nat \<Rightarrow>
   'e option \<times> nat \<times> duration list \<times> 's \<Rightarrow> bool" where
  "retry_ended cfg n fn i s k res \<longleftrightarrow>
     (case res of (r, c, ws, s') \<Rightarrow>
        c = Suc k \<and> i + k < n \<and> s' = after_calls fn (Suc k) s \<and>
        ws = map (\<lambda>j. rc_backoff cfg (i + j)) [0..<k] \<and>
        (\<forall>j<k. \<exists>e. fst (fn (after_calls fn j s)) = Some (Transient e)) \<and>
        (case fst (fn (after_calls fn k s)) of
           None \<Rightarrow> r = None
         | Some (Permanent e) \<Rightarrow> r = Some e
         | Some (Transient e) \<Rightarrow> Suc (i + k) = n \<and> r = Some e))"

lemma retry_loop_outcome:
  assumes "\<And>j. cd j = None" and "\<And>j. cw j = None"
  shows "i < n \<Longrightarrow> \<exists>k. retry_ended cfg n fn i s k (retry_loop cfg n cd cw fn i s)"
proof (induction "n - i" arbitrary: i s)
  case 0
  then show ?case by simp
next
  case (Suc d)
  obtain r s1 where f: "fn s = (r, s1)" by fastforce
  show ?case
  proof (cases r)
    case None
    with Suc.prems f show ?thesis
      by (intro exI [of _ 0]) (simp add: retry_ended_def retry_loop.simps [of _ _ _ _ _ i] assms)
  next
    case (Some x)
    show ?thesis
    proof (cases "\<exists>e. x = Permanent e \<or> Suc i = n")
      case True
      with Suc.prems f Some show ?thesis
        by (intro exI [of _ 0], cases x)
          (auto simp: retry_ended_def retry_loop.simps [of _ _ _ _ _ i] assms)
    next
      case False
      then obtain e where x: "x = Transient e" and lt: "Suc i < n"
        using Suc.prems by (cases x) auto
      obtain k where k: "retry_ended cfg n fn (Suc i) s1 k (retry_loop cfg n cd cw fn (Suc i) s1)"
      proof -
        have "d = n - Suc i" using Suc.hyps(2) by simp
        from Suc.hyps(1) [OF this lt, of s1] that show ?thesis by blast
      qed
      obtain r' c ws s2 where l: "retry_loop cfg n cd cw fn (Suc i) s1 = (r', c, ws, s2)"
        by (metis prod_cases4)
      have "retry_loop cfg n cd cw fn i s = (r', Suc c, rc_backoff cfg i # ws, s2)"
        using Suc.prems f Some x lt l by (simp add: retry_loop.simps [of _ _ _ _ _ i] assms)
      moreover have "[0..<Suc k] = 0 # map Suc [0..<k]" by (simp add: map_Suc_upt upt_conv_Cons del: upt_Suc)
      moreover have "(\<forall>j<Suc k. \<exists>e. fst (fn (after_calls fn j s)) = Some (Transient e)) \<longleftrightarrow>
          (\<forall>j<k. \<exists>e. fst (fn (after_calls fn j s1)) = Some (Transient e))"
        using f Some x by (auto simp: less_Suc_eq_0_disj)
      ultimately have "retry_ended cfg n fn i s (Suc k) (retry_loop cfg n cd cw fn i s)"
        using k l f by (auto simp: retry_ended_def comp_def split: option.splits fn_err.splits)
      then show ?thesis by blast
    qed
  qed
qed

text \<open>The waits of a run that was not cut short add up to a geometric sum, if none overflows.\<close>

lemma backoff_sum:
  assumes "0 \<le> rc_BaseBackoff cfg" and "rc_BaseBackoff cfg * 2 ^ k < 2 ^ 63"
  shows "sum_list (map (rc_backoff cfg) [0..<k]) = rc_BaseBackoff cfg * (2 ^ k - 1)"
  using assms(2)
proof (induction k)
  case 0
  then show ?case by simp
next
  case (Suc k)
  have "rc_BaseBackoff cfg * 2 ^ k \<le> rc_BaseBackoff cfg * 2 ^ Suc k"
    using assms(1) by (intro mult_left_mono) auto
  with Suc.prems have l: "rc_BaseBackoff cfg * 2 ^ k < 2 ^ 63" by linarith
  have "0 \<le> rc_BaseBackoff cfg * 2 ^ k" using assms(1) by simp
  then have "rc_backoff cfg k = rc_BaseBackoff cfg * 2 ^ k"
    unfolding rc_backoff_def using l by (intro wrap64_id) auto
  with Suc.IH [OF l] show ?case by (simp add: algebra_simps)
qed

text \<open>Under a context that is not cancelled, a retry returns after at least one and at most
  \<open>MaxAttempts\<close> calls (one when it is below 1): it stops at the first success or permanent error
  and returns it, otherwise it makes all the attempts and returns the last error; the waits
  double from \<open>BaseBackoff\<close>, and their sum is \<open>BaseBackoff * (2^k - 1)\<close> while that fits 64 bits.\<close>

theorem retry_outcome:
  assumes "\<And>j. cd j = None" and "\<And>j. cw j = None" and "Retry cfg cd cw fn s = (r, c, ws, s')"
  shows "\<exists>k. c = Suc k \<and> k < rc_attempts cfg \<and> s' = after_calls fn (Suc k) s \<and>
    (\<forall>j<k. \<exists>e. fst (fn (after_calls fn j s)) = Some (Transient e)) \<and>
    (case fst (fn (after_calls fn k s)) of
       None \<Rightarrow> r = None
     | Some (Permanent e) \<Rightarrow> r = Some e
     | Some (Transient e) \<Rightarrow> Suc k = rc_attempts cfg \<and> r = Some e) \<and>
    ws = map (rc_backoff cfg) [0..<k] \<and>
    (0 \<le> rc_BaseBackoff cfg \<longrightarrow> rc_BaseBackoff cfg * 2 ^ k < 2 ^ 63 \<longrightarrow>
       sum_list ws = rc_BaseBackoff cfg * (2 ^ k - 1))"
proof -
  have "0 < rc_attempts cfg" by (simp add: rc_attempts_def)
  from retry_loop_outcome [where cd = cd and cw = cw and cfg = cfg and fn = fn and s = s, OF assms(1, 2) this]
  obtain k where "retry_ended cfg (rc_attempts cfg) fn 0 s k (Retry cfg cd cw fn s)"
    unfolding Retry_def by blast
  then show ?thesis using backoff_sum [of cfg k] assms(3)
    by (intro exI [of _ k]) (auto simp: retry_ended_def split: option.splits fn_err.splits)
qed

text \<open>A function that fails twice, then succeeds.\<close>

definition ex_flaky :: "nat \<Rightarrow> string fn_err option \<times> nat" where
  "ex_flaky n = ((if n < 2 then Some (Transient ''busy'') else None), Suc n)"

lemma retry_outcome_witness:
  "Retry \<lparr>rc_MaxAttempts = 5, rc_BaseBackoff = 100\<rparr> (\<lambda>_. None) (\<lambda>_. None) ex_flaky 0 = (None, 3, [100, 200], 3)"
proof -
  let ?cfg = "\<lparr>rc_MaxAttempts = 5, rc_BaseBackoff = 100\<rparr>"
  obtain r c ws s' where e: "Retry ?cfg (\<lambda>_. None) (\<lambda>_. None) ex_flaky 0 = (r, c, ws, s')"
    by (metis prod_cases4)
  have after: "after_calls ex_flaky k n = n + k" for k n
    by (induction k arbitrary: n) (simp_all add: ex_flaky_def)
  from retry_outcome [of "\<lambda>_. None" "\<lambda>_. None", OF refl refl e] obtain k where
    k: "c = Suc k" "s' = after_calls ex_flaky (Suc k) 0" "ws = map (rc_backoff ?cfg) [0..<k]"
    and tr: "\<forall>j<k. \<exists>e. fst (ex_flaky (after_calls ex_flaky j 0)) = Some (Transient e)"
    and o: "case fst (ex_flaky (after_calls ex_flaky k 0)) of None \<Rightarrow> r = None | Some (Permanent e) \<Rightarrow> r = Some e
      | Some (Transient e) \<Rightarrow> Suc k = rc_attempts ?cfg \<and> r = Some e"
    by blast
  have "\<not> 2 < k" using tr by (auto simp: after ex_flaky_def)
  moreover have "\<not> k < 2" using o by (auto simp: after ex_flaky_def rc_attempts_def)
  ultimately have "k = 2" by simp
  with o have "r = None" by (simp add: after ex_flaky_def)
  moreover have "rc_backoff ?cfg 0 = 100" "rc_backoff ?cfg (Suc 0) = 200"
    by (simp_all add: rc_backoff_def wrap64_id)
  ultimately show ?thesis using e k \<open>k = 2\<close> by (simp add: numeral_eq_Suc ex_flaky_def)
qed

section \<open>The resilient client (llm.go)\<close>

text \<open>
  \<open>Resilient\<close> retries a call through the breaker. Its state is the breaker, the supply of clock
  readings and what the inner client works on; \<open>rs_out\<close> is the variable the closure assigns.
\<close>

record ('m, 'r) rs_world =
  rs_breaker :: breaker
  rs_now :: "time list"
  rs_env :: 'm
  rs_out :: 'r

definition rs_clock :: "('m, 'r) rs_world \<Rightarrow> time \<times> ('m, 'r) rs_world" where
  "rs_clock w = (case rs_now w of [] \<Rightarrow> (0, w) | t # ts \<Rightarrow> (t, w\<lparr>rs_now := ts\<rparr>))"

definition rs_attempt ::
  "'e \<Rightarrow> ('m \<Rightarrow> ('e fn_err option \<times> 'r) \<times> 'm) \<Rightarrow> ('m, 'r) rs_world \<Rightarrow>
   'e fn_err option \<times> ('m, 'r) rs_world" where
  "rs_attempt errOpen inner w =
     (let (t1, w1) = rs_clock w;
          (t2, w2) = rs_clock w1;
          (res, b, m) = bk_Do (\<lambda>m. let ((e, out), m') = inner m in ((e \<noteq> None, (e, out)), m'))
            t1 t2 (rs_breaker w2) (rs_env w2) in
      case res of
        Inl _ \<Rightarrow> (Some (Transient errOpen), w2\<lparr>rs_breaker := b, rs_env := m\<rparr>)
      | Inr (_, (e, out)) \<Rightarrow> (e, w2\<lparr>rs_breaker := b, rs_env := m, rs_out := out\<rparr>))"

text \<open>\<open>Resilient.GenerateIdeas\<close> and \<open>Resilient.Moderate\<close>: the result variable and the error.\<close>

definition rs_call ::
  "retry_config \<Rightarrow> 'e \<Rightarrow> (nat \<Rightarrow> 'e option) \<Rightarrow> (nat \<Rightarrow> 'e option) \<Rightarrow> 'r \<Rightarrow>
   ('m \<Rightarrow> ('e fn_err option \<times> 'r) \<times> 'm) \<Rightarrow> ('m, 'r) rs_world \<Rightarrow>
   ('r \<times> 'e option) \<times> duration list \<times> ('m, 'r) rs_world" where
  "rs_call cfg errOpen cd cw zero inner w =
     (let (e, c, ws, w') = Retry cfg cd cw (rs_attempt errOpen inner) (w\<lparr>rs_out := zero\<rparr>)
      in ((rs_out w', e), ws, w'))"

text \<open>While the circuit stays open, an attempt leaves everything but the clock alone.\<close>

definition stays_open :: "('m, 'r) rs_world \<Rightarrow> bool" where
  "stays_open w \<longleftrightarrow>
     bk_state (rs_breaker w) = StateOpen \<and> 0 - bk_openedAt (rs_breaker w) < bk_openDuration (rs_breaker w) \<and>
     (\<forall>t \<in> set (rs_now w). t - bk_openedAt (rs_breaker w) < bk_openDuration (rs_breaker w))"

lemma open_attempt:
  assumes "stays_open w"
  shows "fst (rs_attempt errOpen inner w) = Some (Transient errOpen) \<and>
    stays_open (snd (rs_attempt errOpen inner w)) \<and>
    rs_env (snd (rs_attempt errOpen inner w)) = rs_env w \<and> rs_out (snd (rs_attempt errOpen inner w)) = rs_out w"
proof -
  obtain t1 w1 where 1: "rs_clock w = (t1, w1)" by fastforce
  obtain t2 w2 where 2: "rs_clock w1 = (t2, w2)" by fastforce
  have s: "rs_breaker w2 = rs_breaker w" "rs_env w2 = rs_env w" "rs_out w2 = rs_out w"
    "set (rs_now w2) \<subseteq> set (rs_now w)"
    and t: "t1 - bk_openedAt (rs_breaker w) < bk_openDuration (rs_breaker w)"
    using 1 2 assms by (auto simp: rs_clock_def stays_open_def split: list.splits)
  have "bk_enter t1 (rs_breaker w) = (False, rs_breaker w)"
    using assms t by (simp add: bk_enter_def bk_refresh_def stays_open_def)
  then show ?thesis using assms s 1 2
    by (auto simp: rs_attempt_def bk_Do_def stays_open_def)
qed

lemma open_after:
  "stays_open w \<Longrightarrow> stays_open (after_calls (rs_attempt errOpen inner) k w) \<and>
    rs_env (after_calls (rs_attempt errOpen inner) k w) = rs_env w \<and>
    rs_out (after_calls (rs_attempt errOpen inner) k w) = rs_out w"
proof (induction k arbitrary: w)
  case (Suc k)
  from open_attempt [OF Suc.prems, of errOpen inner] Suc.IH [of "snd (rs_attempt errOpen inner w)"]
  show ?case by simp
qed simp

text \<open>While the circuit is open the model is never called, but the caller does not fail fast:
  the open circuit counts as a transient error, so all the attempts are made with all the waits
  between them before \<open>ErrOpen\<close> is returned with no result.\<close>

theorem resilient_open_waits:
  assumes "stays_open w" and "rs_call cfg errOpen (\<lambda>_. None) (\<lambda>_. None) zero inner w = ((out, e), ws, w')"
  shows "e = Some errOpen \<and> out = zero \<and> rs_env w' = rs_env w \<and>
    ws = map (rc_backoff cfg) [0..<rc_attempts cfg - 1]"
proof -
  let ?fn = "rs_attempt errOpen inner" and ?s = "w\<lparr>rs_out := zero\<rparr>"
  have o: "stays_open ?s" using assms(1) by (simp add: stays_open_def)
  obtain r c ws' s' where rt: "Retry cfg (\<lambda>_. None) (\<lambda>_. None) ?fn ?s = (r, c, ws', s')"
    by (metis prod_cases4)
  have "0 < rc_attempts cfg" by (simp add: rc_attempts_def)
  from retry_loop_outcome [where cd = "\<lambda>_. None" and cw = "\<lambda>_. None" and cfg = cfg and fn = ?fn and s = ?s,
      OF refl refl this]
  obtain k where k: "retry_ended cfg (rc_attempts cfg) ?fn 0 ?s k (r, c, ws', s')"
    unfolding rt [unfolded Retry_def, symmetric] by blast
  have "fst (?fn (after_calls ?fn k ?s)) = Some (Transient errOpen)"
    using open_attempt [of "after_calls ?fn k ?s" errOpen inner] open_after [OF o, of errOpen inner k] by simp
  with k have "Suc k = rc_attempts cfg" "r = Some errOpen" "ws' = map (rc_backoff cfg) [0..<k]"
    and s': "s' = after_calls ?fn (Suc k) ?s"
    unfolding retry_ended_def by (simp_all del: after_calls.simps)
  moreover from this(1) have "k = rc_attempts cfg - 1" by simp
  moreover have "rs_env s' = rs_env w \<and> rs_out s' = zero"
    unfolding s' using open_after [OF o, of errOpen inner "Suc k"] by simp
  ultimately show ?thesis using assms(2) rt by (auto simp: rs_call_def)
qed

lemma resilient_open_waits_witness:
  "let b = \<lparr>bk_maxFailures = 1, bk_openDuration = 100, bk_failures = 1, bk_state = StateOpen, bk_openedAt = 50\<rparr>;
       w = \<lparr>rs_breaker = b, rs_now = [60, 61, 70, 71, 80, 81], rs_env = 0 :: nat, rs_out = [] :: string\<rparr>;
       res = rs_call \<lparr>rc_MaxAttempts = 3, rc_BaseBackoff = 5\<rparr> ''open'' (\<lambda>_. None) (\<lambda>_. None) []
         (\<lambda>m. ((None, ''idea''), Suc m)) w in
   fst res = ([], Some ''open'') \<and> fst (snd res) = [5, 10] \<and> rs_env (snd (snd res)) = 0"
proof -
  let ?b = "\<lparr>bk_maxFailures = 1, bk_openDuration = 100, bk_failures = 1, bk_state = StateOpen, bk_openedAt = 50\<rparr>"
  let ?w = "\<lparr>rs_breaker = ?b, rs_now = [60, 61, 70, 71, 80, 81], rs_env = 0 :: nat, rs_out = [] :: string\<rparr>"
  let ?cfg = "\<lparr>rc_MaxAttempts = 3, rc_BaseBackoff = 5\<rparr>"
  obtain out e ws w' where r: "rs_call ?cfg ''open'' (\<lambda>_. None) (\<lambda>_. None) []
      (\<lambda>m. ((None, ''idea''), Suc m)) ?w = ((out, e), ws, w')"
    by (metis prod_cases4 prod.collapse)
  have "stays_open ?w" by (simp add: stays_open_def)
  from resilient_open_waits [OF this r]
  have "e = Some ''open'' \<and> out = [] \<and> rs_env w' = 0 \<and> ws = map (rc_backoff ?cfg) [0..<rc_attempts ?cfg - 1]"
    by simp
  moreover have "map (rc_backoff ?cfg) [0..<rc_attempts ?cfg - 1] = [5, 10]"
    by (simp add: rc_attempts_def rc_backoff_def wrap64_id upt_rec)
  ultimately show ?thesis unfolding Let_def r by simp
qed

end
