(* ===== verification/Notify_Store.thy ===== *)
theory Notify_Store
  imports Gift_Prelude
begin

text \<open>
  The Notification service's devices and outbox: the types and the store port
  (\<open>services/backend/notification/internal/notify/types.go\<close>, \<open>store.go\<close>) and the Postgres
  store (\<open>domain/postgres/postgres.go\<close> on \<open>migrations/0001_init.sql\<close>), statement by statement.
  A jsonb payload is its decoded form, and a timestamptz keeps whole microseconds.
\<close>

section \<open>Types (types.go)\<close>

datatype platform = PlatformIOS | PlatformAndroid | PlatformText string

fun platform_Valid :: "platform \<Rightarrow> bool" where
  "platform_Valid (PlatformText s) = False"
| "platform_Valid _ = True"

datatype notif_type = TypePollCompleted | TypeIdeasReady

fun notif_type_text :: "notif_type \<Rightarrow> string" where
  "notif_type_text TypePollCompleted = ''poll_completed''"
| "notif_type_text TypeIdeasReady = ''ideas_ready''"

datatype outbox_status = OutPending | OutSent | OutFailed

datatype payload_value = PText string | PInt int

type_synonym payload = "(string \<times> payload_value) list"

record device =
  dv_ID :: string
  dv_UserID :: string
  dv_Platform :: platform
  dv_PushToken :: string
  dv_AppVersion :: string
  dv_RegisteredAt :: time
  dv_LastSeenAt :: time
  dv_Active :: bool

record outbox =
  ob_ID :: string
  ob_UserID :: string
  ob_Type :: notif_type
  ob_Payload :: payload
  ob_DedupeKey :: string
  ob_Status :: outbox_status
  ob_Attempts :: int
  ob_NextAttemptAt :: time
  ob_CreatedAt :: time
  ob_SentAt :: "time option"

section \<open>The store port (store.go)\<close>

text \<open>An error of the store is \<open>Inl ()\<close>: its text is only logged or wrapped.\<close>

record 's notify_store =
  ns_UpsertDevice :: "device \<Rightarrow> time \<Rightarrow> 's \<Rightarrow> (unit + device) \<times> 's"
  ns_DeactivateDeviceByToken :: "string \<Rightarrow> 's \<Rightarrow> (unit + unit) \<times> 's"
  ns_ActiveDevicesForUser :: "string \<Rightarrow> 's \<Rightarrow> (unit + device list) \<times> 's"
  ns_EnqueueOutbox :: "outbox \<Rightarrow> 's \<Rightarrow> (unit + bool) \<times> 's"
  ns_ClaimPending :: "time \<Rightarrow> duration \<Rightarrow> int \<Rightarrow> 's \<Rightarrow> (unit + outbox list) \<times> 's"
  ns_MarkSent :: "string \<Rightarrow> time \<Rightarrow> 's \<Rightarrow> (unit + unit) \<times> 's"
  ns_Reschedule :: "string \<Rightarrow> int \<Rightarrow> time \<Rightarrow> 's \<Rightarrow> (unit + unit) \<times> 's"
  ns_MarkFailed :: "string \<Rightarrow> 's \<Rightarrow> (unit + unit) \<times> 's"

section \<open>The Postgres store (postgres.go)\<close>

text \<open>The tables, in insertion order; the supply of \<open>gen_random_uuid\<close>; the schedule of failures.\<close>

record notify_pg =
  np_devices :: "device list"
  np_outbox :: "outbox list"
  np_uuids :: "string list"
  np_faults :: "bool list"

definition np_tick :: "notify_pg \<Rightarrow> bool \<times> notify_pg" where
  "np_tick s = (let (f, fs) = next_fault (np_faults s) in (f, s\<lparr>np_faults := fs\<rparr>))"

text \<open>An exhausted supply of uuids makes the statement fail.\<close>

definition np_uuid :: "notify_pg \<Rightarrow> string option \<times> notify_pg" where
  "np_uuid s =
     (case np_uuids s of [] \<Rightarrow> (None, s) | u # us \<Rightarrow> (Some u, s\<lparr>np_uuids := us\<rparr>))"

text \<open>A timestamptz parameter: microseconds, rounded down.\<close>

definition pg_time :: "time \<Rightarrow> time" where
  "pg_time t = t div 1000 * 1000"

text \<open>The conflict branch updates the one row with this platform and token.\<close>

definition refreshed :: "device \<Rightarrow> time \<Rightarrow> device \<Rightarrow> device" where
  "refreshed d now r =
     (if dv_Platform r = dv_Platform d \<and> dv_PushToken r = dv_PushToken d
      then r\<lparr>dv_UserID := dv_UserID d, dv_AppVersion := dv_AppVersion d, dv_LastSeenAt := pg_time now,
             dv_Active := True\<rparr>
      else r)"

definition np_UpsertDevice :: "device \<Rightarrow> time \<Rightarrow> notify_pg \<Rightarrow> (unit + device) \<times> notify_pg" where
  "np_UpsertDevice d now s =
     (let (f, s1) = np_tick s in
      if f then (Inl (), s1)
      else if \<not> platform_Valid (dv_Platform d) then (Inl (), s1)
      else case find (\<lambda>r. dv_Platform r = dv_Platform d \<and> dv_PushToken r = dv_PushToken d) (np_devices s1) of
        Some r \<Rightarrow>
          (Inr (d\<lparr>dv_ID := dv_ID r, dv_RegisteredAt := dv_RegisteredAt r, dv_LastSeenAt := pg_time now,
                 dv_Active := True\<rparr>),
           s1\<lparr>np_devices := map (refreshed d now) (np_devices s1)\<rparr>)
      | None \<Rightarrow>
          (case np_uuid s1 of
             (None, s2) \<Rightarrow> (Inl (), s2)
           | (Some u, s2) \<Rightarrow>
               (let r = d\<lparr>dv_ID := u, dv_RegisteredAt := pg_time now, dv_LastSeenAt := pg_time now,
                      dv_Active := True\<rparr> in
                if find (\<lambda>x. dv_ID x = u) (np_devices s2) \<noteq> None then (Inl (), s2)
                else (Inr r, s2\<lparr>np_devices := np_devices s2 @ [r]\<rparr>))))"

definition np_DeactivateDeviceByToken :: "string \<Rightarrow> notify_pg \<Rightarrow> (unit + unit) \<times> notify_pg" where
  "np_DeactivateDeviceByToken token s =
     (let (f, s1) = np_tick s in
      if f then (Inl (), s1)
      else (Inr (), s1\<lparr>np_devices :=
        map (\<lambda>r. if dv_PushToken r = token then r\<lparr>dv_Active := False\<rparr> else r) (np_devices s1)\<rparr>))"

definition np_ActiveDevicesForUser :: "string \<Rightarrow> notify_pg \<Rightarrow> (unit + device list) \<times> notify_pg" where
  "np_ActiveDevicesForUser userID s =
     (let (f, s1) = np_tick s in
      if f then (Inl (), s1)
      else (Inr (filter (\<lambda>r. dv_UserID r = userID \<and> dv_Active r) (np_devices s1)), s1))"

definition queued :: "string \<Rightarrow> outbox \<Rightarrow> outbox" where
  "queued u r = r\<lparr>ob_ID := u, ob_Status := OutPending, ob_Attempts := 0,
     ob_NextAttemptAt := pg_time (ob_NextAttemptAt r), ob_CreatedAt := pg_time (ob_CreatedAt r), ob_SentAt := None\<rparr>"

definition np_EnqueueOutbox :: "outbox \<Rightarrow> notify_pg \<Rightarrow> (unit + bool) \<times> notify_pg" where
  "np_EnqueueOutbox o1 s =
     (let (f, s1) = np_tick s in
      if f then (Inl (), s1)
      else if find (\<lambda>r. ob_DedupeKey r = ob_DedupeKey o1) (np_outbox s1) \<noteq> None then (Inr False, s1)
      else case np_uuid s1 of
        (None, s2) \<Rightarrow> (Inl (), s2)
      | (Some u, s2) \<Rightarrow>
          (if find (\<lambda>r. ob_ID r = u) (np_outbox s2) \<noteq> None then (Inl (), s2)
           else (Inr True, s2\<lparr>np_outbox := np_outbox s2 @ [queued u o1]\<rparr>)))"

text \<open>
  The rows the subquery selects. Postgres leaves the order of equal due times open; here it is
  the order of insertion.
\<close>

definition due_ids :: "time \<Rightarrow> int \<Rightarrow> outbox list \<Rightarrow> string list" where
  "due_ids now limit rows =
     map ob_ID (take (nat limit) (sort_key ob_NextAttemptAt
       (filter (\<lambda>r. ob_Status r = OutPending \<and> ob_NextAttemptAt r \<le> pg_time now) rows)))"

definition leased :: "string list \<Rightarrow> time \<Rightarrow> outbox \<Rightarrow> outbox" where
  "leased ids t r = (if ob_ID r \<in> set ids then r\<lparr>ob_NextAttemptAt := pg_time t\<rparr> else r)"

definition np_ClaimPending ::
  "time \<Rightarrow> duration \<Rightarrow> int \<Rightarrow> notify_pg \<Rightarrow> (unit + outbox list) \<times> notify_pg" where
  "np_ClaimPending now lease limit s =
     (let (f, s1) = np_tick s in
      if f then (Inl (), s1)
      else if limit < 0 then (Inl (), s1)
      else
        let ids = due_ids now limit (np_outbox s1);
            rows = map (leased ids (now + lease)) (np_outbox s1) in
        (Inr (filter (\<lambda>r. ob_ID r \<in> set ids) rows), s1\<lparr>np_outbox := rows\<rparr>))"

text \<open>\<open>execOne\<close>: the update of the row with an id; \<open>up\<close> reads a uuid.\<close>

definition execOne ::
  "(string \<Rightarrow> string option) \<Rightarrow> string \<Rightarrow> (outbox \<Rightarrow> outbox) \<Rightarrow> notify_pg \<Rightarrow> (unit + unit) \<times> notify_pg" where
  "execOne up j g s =
     (let (f, s1) = np_tick s in
      if f then (Inl (), s1)
      else case up j of
        None \<Rightarrow> (Inl (), s1)
      | Some i \<Rightarrow>
          (if find (\<lambda>r. ob_ID r = i) (np_outbox s1) = None then (Inl (), s1)
           else (Inr (), s1\<lparr>np_outbox := map (\<lambda>r. if ob_ID r = i then g r else r) (np_outbox s1)\<rparr>)))"

definition np_MarkSent ::
  "(string \<Rightarrow> string option) \<Rightarrow> string \<Rightarrow> time \<Rightarrow> notify_pg \<Rightarrow> (unit + unit) \<times> notify_pg" where
  "np_MarkSent up i sentAt = execOne up i (\<lambda>r. r\<lparr>ob_Status := OutSent, ob_SentAt := Some (pg_time sentAt)\<rparr>)"

definition np_Reschedule ::
  "(string \<Rightarrow> string option) \<Rightarrow> string \<Rightarrow> int \<Rightarrow> time \<Rightarrow> notify_pg \<Rightarrow> (unit + unit) \<times> notify_pg" where
  "np_Reschedule up i attempts t =
     execOne up i (\<lambda>r. r\<lparr>ob_Status := OutPending, ob_Attempts := attempts, ob_NextAttemptAt := pg_time t\<rparr>)"

definition np_MarkFailed ::
  "(string \<Rightarrow> string option) \<Rightarrow> string \<Rightarrow> notify_pg \<Rightarrow> (unit + unit) \<times> notify_pg" where
  "np_MarkFailed up i = execOne up i (\<lambda>r. r\<lparr>ob_Status := OutFailed\<rparr>)"

definition pg_notify :: "(string \<Rightarrow> string option) \<Rightarrow> notify_pg notify_store" where
  "pg_notify up =
     \<lparr>ns_UpsertDevice = np_UpsertDevice, ns_DeactivateDeviceByToken = np_DeactivateDeviceByToken,
      ns_ActiveDevicesForUser = np_ActiveDevicesForUser, ns_EnqueueOutbox = np_EnqueueOutbox,
      ns_ClaimPending = np_ClaimPending, ns_MarkSent = np_MarkSent up, ns_Reschedule = np_Reschedule up,
      ns_MarkFailed = np_MarkFailed up\<rparr>"

section \<open>The contract of the outbox\<close>

text \<open>
  What the consumer and the dispatcher rely on. \<open>outs\<close> is the outbox by row id, \<open>devs\<close> the
  registered devices, \<open>inv\<close> the store's invariant.
\<close>

definition has_dedupe :: "(string \<Rightarrow> outbox option) \<Rightarrow> string \<Rightarrow> bool" where
  "has_dedupe m k \<longleftrightarrow> (\<exists>i r. m i = Some r \<and> ob_DedupeKey r = k)"

definition upd_row :: "string \<Rightarrow> (outbox \<Rightarrow> outbox) \<Rightarrow> (string \<Rightarrow> outbox option) \<Rightarrow> string \<Rightarrow> outbox option" where
  "upd_row i g m = m(i := map_option g (m i))"

locale outbox_store =
  fixes store :: "'s notify_store"
    and outs :: "'s \<Rightarrow> string \<Rightarrow> outbox option"
    and devs :: "'s \<Rightarrow> device list"
    and inv :: "'s \<Rightarrow> bool"
  assumes row_id: "inv s \<Longrightarrow> outs s i = Some r \<Longrightarrow> ob_ID r = i"
    and one_row: "inv s \<Longrightarrow> outs s i = Some r \<Longrightarrow> outs s j = Some q \<Longrightarrow>
      ob_DedupeKey r = ob_DedupeKey q \<Longrightarrow> i = j"
    and enqueue_new: "inv s \<Longrightarrow> ns_EnqueueOutbox store x s = (Inr True, s') \<Longrightarrow>
      inv s' \<and> devs s' = devs s \<and> \<not> has_dedupe (outs s) (ob_DedupeKey x) \<and>
      (\<exists>u. outs s u = None \<and> outs s' = (outs s)(u \<mapsto> queued u x))"
    and enqueue_dup: "inv s \<Longrightarrow> ns_EnqueueOutbox store x s = (Inr False, s') \<Longrightarrow>
      inv s' \<and> devs s' = devs s \<and> has_dedupe (outs s) (ob_DedupeKey x) \<and> outs s' = outs s"
    and enqueue_err: "inv s \<Longrightarrow> ns_EnqueueOutbox store x s = (Inl e, s') \<Longrightarrow>
      inv s' \<and> devs s' = devs s \<and> outs s' = outs s"
    and claim_ok: "inv s \<Longrightarrow> ns_ClaimPending store now lease limit s = (Inr xs, s') \<Longrightarrow>
      inv s' \<and> devs s' = devs s \<and> distinct (map ob_ID xs) \<and> int (length xs) \<le> limit \<and>
      (\<forall>x \<in> set xs. \<exists>r. outs s (ob_ID x) = Some r \<and> ob_Status r = OutPending \<and>
         ob_NextAttemptAt r \<le> pg_time now \<and> x = r\<lparr>ob_NextAttemptAt := pg_time (now + lease)\<rparr>) \<and>
      (\<forall>i. outs s' i = (if i \<in> ob_ID ` set xs
         then map_option (\<lambda>r. r\<lparr>ob_NextAttemptAt := pg_time (now + lease)\<rparr>) (outs s i) else outs s i))"
    and claim_err: "inv s \<Longrightarrow> ns_ClaimPending store now lease limit s = (Inl e, s') \<Longrightarrow>
      inv s' \<and> devs s' = devs s \<and> outs s' = outs s"
    and sent_ok: "inv s \<Longrightarrow> outs s i \<noteq> None \<Longrightarrow> ns_MarkSent store i t s = (Inr u, s') \<Longrightarrow>
      inv s' \<and> devs s' = devs s \<and> outs s' = upd_row i (\<lambda>r. r\<lparr>ob_Status := OutSent, ob_SentAt := Some (pg_time t)\<rparr>) (outs s)"
    and sent_err: "inv s \<Longrightarrow> ns_MarkSent store i t s = (Inl e, s') \<Longrightarrow>
      inv s' \<and> devs s' = devs s \<and> outs s' = outs s"
    and retry_ok: "inv s \<Longrightarrow> outs s i \<noteq> None \<Longrightarrow> ns_Reschedule store i n t s = (Inr u, s') \<Longrightarrow>
      inv s' \<and> devs s' = devs s \<and> outs s' = upd_row i (\<lambda>r. r\<lparr>ob_Status := OutPending, ob_Attempts := n,
        ob_NextAttemptAt := pg_time t\<rparr>) (outs s)"
    and retry_err: "inv s \<Longrightarrow> ns_Reschedule store i n t s = (Inl e, s') \<Longrightarrow>
      inv s' \<and> devs s' = devs s \<and> outs s' = outs s"
    and failed_ok: "inv s \<Longrightarrow> outs s i \<noteq> None \<Longrightarrow> ns_MarkFailed store i s = (Inr u, s') \<Longrightarrow>
      inv s' \<and> devs s' = devs s \<and> outs s' = upd_row i (\<lambda>r. r\<lparr>ob_Status := OutFailed\<rparr>) (outs s)"
    and failed_err: "inv s \<Longrightarrow> ns_MarkFailed store i s = (Inl e, s') \<Longrightarrow>
      inv s' \<and> devs s' = devs s \<and> outs s' = outs s"
    and active_ok: "inv s \<Longrightarrow> ns_ActiveDevicesForUser store usr s = (Inr ds, s') \<Longrightarrow> inv s' \<and>
      outs s' = outs s \<and> devs s' = devs s \<and> ds = filter (\<lambda>d. dv_UserID d = usr \<and> dv_Active d) (devs s)"
    and active_err: "inv s \<Longrightarrow> ns_ActiveDevicesForUser store usr s = (Inl e, s') \<Longrightarrow> inv s' \<and>
      outs s' = outs s \<and> devs s' = devs s"
    and prune_ok: "inv s \<Longrightarrow> ns_DeactivateDeviceByToken store k s = (Inr u, s') \<Longrightarrow> inv s' \<and>
      outs s' = outs s \<and> devs s' = map (\<lambda>d. if dv_PushToken d = k then d\<lparr>dv_Active := False\<rparr> else d) (devs s)"
    and prune_err: "inv s \<Longrightarrow> ns_DeactivateDeviceByToken store k s = (Inl e, s') \<Longrightarrow> inv s' \<and>
      outs s' = outs s \<and> devs s' = devs s"

section \<open>The Postgres store meets the contract\<close>

definition np_outs :: "notify_pg \<Rightarrow> string \<Rightarrow> outbox option" where
  "np_outs s i = find (\<lambda>r. ob_ID r = i) (np_outbox s)"

definition np_inv :: "(string \<Rightarrow> string option) \<Rightarrow> notify_pg \<Rightarrow> bool" where
  "np_inv up s \<longleftrightarrow> distinct (map ob_ID (np_outbox s)) \<and> distinct (map ob_DedupeKey (np_outbox s)) \<and>
     (\<forall>r \<in> set (np_outbox s). up (ob_ID r) = Some (ob_ID r)) \<and> (\<forall>u \<in> set (np_uuids s). up u = Some u)"

lemma find_key:
  assumes "distinct (map f xs)"
  shows "find (\<lambda>r. f r = k) xs = Some x \<longleftrightarrow> x \<in> set xs \<and> f x = k"
  using assms by (induction xs) (auto simp: rev_image_eqI)

lemma find_key_None: "find (\<lambda>r. f r = k) xs = None \<longleftrightarrow> k \<notin> f ` set xs"
  by (auto simp: find_None_iff)

lemma find_map_same:
  assumes "\<And>r. f (g r) = f r"
  shows "find (\<lambda>r. f r = k) (map g xs) = map_option g (find (\<lambda>r. f r = k) xs)"
  using assms by (induction xs) auto

lemma np_tick_frame: "np_tick s = (f, s1) \<Longrightarrow>
    np_devices s1 = np_devices s \<and> np_outbox s1 = np_outbox s \<and> np_uuids s1 = np_uuids s"
  by (auto simp: np_tick_def split: prod.splits)

lemma np_uuid_frame: "np_uuid s = (u, s1) \<Longrightarrow>
    np_devices s1 = np_devices s \<and> np_outbox s1 = np_outbox s \<and> set (np_uuids s1) \<subseteq> set (np_uuids s) \<and>
    (\<forall>x. u = Some x \<longrightarrow> x \<in> set (np_uuids s))"
  by (auto simp: np_uuid_def split: list.splits)

lemma np_outs_Some: "np_inv up s \<Longrightarrow> np_outs s i = Some r \<longleftrightarrow> r \<in> set (np_outbox s) \<and> ob_ID r = i"
  by (simp add: np_inv_def np_outs_def find_key)

lemma np_has_dedupe:
  assumes "np_inv up s"
  shows "has_dedupe (np_outs s) k \<longleftrightarrow> find (\<lambda>r. ob_DedupeKey r = k) (np_outbox s) \<noteq> None"
  using np_outs_Some [OF assms] by (auto simp: has_dedupe_def find_None_iff)

lemma np_frame:
  assumes "np_inv up s" and "np_devices s1 = np_devices s" and "np_outbox s1 = np_outbox s"
    and "set (np_uuids s1) \<subseteq> set (np_uuids s)"
  shows "np_inv up s1 \<and> np_devices s1 = np_devices s \<and> np_outs s1 = np_outs s"
  using assms by (auto simp: np_inv_def np_outs_def)

text \<open>An update that keeps ids and keys.\<close>

lemma np_map:
  assumes "np_inv up s" and "np_outbox s1 = map g (np_outbox s)" and "np_devices s1 = np_devices s"
    and "np_uuids s1 = np_uuids s" and "\<And>r. ob_ID (g r) = ob_ID r" and "\<And>r. ob_DedupeKey (g r) = ob_DedupeKey r"
  shows "np_inv up s1 \<and> np_outs s1 = (\<lambda>i. map_option g (np_outs s i))"
proof
  show "np_inv up s1" using assms by (simp add: np_inv_def comp_def)
  show "np_outs s1 = (\<lambda>i. map_option g (np_outs s i))"
    using assms(2,5) by (simp add: np_outs_def find_map_same fun_eq_iff)
qed

lemma execOne_ok:
  assumes "np_inv up s" and "execOne up i g s = (Inr u, s')"
    and "\<And>r. ob_ID (g r) = ob_ID r" and "\<And>r. ob_DedupeKey (g r) = ob_DedupeKey r"
  shows "np_inv up s' \<and> np_devices s' = np_devices s \<and> (\<exists>j. up i = Some j \<and> np_outs s j \<noteq> None \<and>
    np_outs s' = upd_row j g (np_outs s))"
proof -
  obtain s1 where t: "np_tick s = (False, s1)"
    using assms(2) by (cases "np_tick s") (auto simp: execOne_def split: if_splits)
  with assms(2) obtain j where j: "up i = Some j"
    by (cases "up i") (auto simp: execOne_def)
  let ?h = "\<lambda>r. if ob_ID r = j then g r else r"
  have e: "np_outs s1 j \<noteq> None" "s' = s1\<lparr>np_outbox := map ?h (np_outbox s1)\<rparr>"
    using assms(2) t j by (simp_all add: execOne_def np_outs_def split: if_splits)
  note f = np_tick_frame [OF t]
  have "np_inv up s' \<and> np_outs s' = (\<lambda>k. map_option ?h (np_outs s k))"
    by (rule np_map [OF assms(1)]) (use e f assms(3,4) in simp_all)
  moreover have "(\<lambda>k. map_option ?h (np_outs s k)) = upd_row j g (np_outs s)"
  proof
    fix k
    show "map_option ?h (np_outs s k) = upd_row j g (np_outs s) k"
      using np_outs_Some [OF assms(1), of k "the (np_outs s k)"]
      by (cases "np_outs s k"; cases "k = j") (simp_all add: upd_row_def)
  qed
  moreover have "np_outs s j \<noteq> None" using e(1) f by (simp add: np_outs_def)
  ultimately show ?thesis using e(2) f j by simp
qed

lemma execOne_row:
  assumes "np_inv up s" and "np_outs s i \<noteq> None" and "execOne up i g s = (Inr u, s')"
    and "\<And>r. ob_ID (g r) = ob_ID r" and "\<And>r. ob_DedupeKey (g r) = ob_DedupeKey r"
  shows "np_inv up s' \<and> np_devices s' = np_devices s \<and> np_outs s' = upd_row i g (np_outs s)"
proof -
  from assms(2) obtain r where "np_outs s i = Some r" by blast
  then have "up i = Some i" using assms(1) np_outs_Some [OF assms(1)] by (auto simp: np_inv_def)
  with execOne_ok [OF assms(1,3-5)] show ?thesis by auto
qed

lemma execOne_err:
  assumes "np_inv up s" and "execOne up i g s = (Inl e, s')"
  shows "np_inv up s' \<and> np_devices s' = np_devices s \<and> np_outs s' = np_outs s"
proof -
  obtain f s1 where t: "np_tick s = (f, s1)" by fastforce
  with assms(2) have "s' = s1" by (auto simp: execOne_def split: if_splits option.splits)
  with np_tick_frame [OF t] show ?thesis by (intro np_frame [OF assms(1)]) auto
qed

lemma np_enqueue_new:
  assumes "np_inv up s" and "np_EnqueueOutbox x s = (Inr True, s')"
  shows "np_inv up s' \<and> np_devices s' = np_devices s \<and> \<not> has_dedupe (np_outs s) (ob_DedupeKey x) \<and>
    (\<exists>u. np_outs s u = None \<and> np_outs s' = (np_outs s)(u \<mapsto> queued u x))"
proof -
  obtain s1 where t: "np_tick s = (False, s1)"
    using assms(2) by (cases "np_tick s") (auto simp: np_EnqueueOutbox_def split: if_splits)
  note f = np_tick_frame [OF t]
  have k: "find (\<lambda>r. ob_DedupeKey r = ob_DedupeKey x) (np_outbox s1) = None"
    using assms(2) t by (simp add: np_EnqueueOutbox_def split: if_splits)
  obtain u s2 where 2: "np_uuid s1 = (Some u, s2)"
    using assms(2) t k by (cases "np_uuid s1"; cases "fst (np_uuid s1)") (auto simp: np_EnqueueOutbox_def)
  note g = np_uuid_frame [OF 2]
  have n: "find (\<lambda>r. ob_ID r = u) (np_outbox s2) = None"
    and s': "s' = s2\<lparr>np_outbox := np_outbox s2 @ [queued u x]\<rparr>"
    using assms(2) t k 2 by (simp_all add: np_EnqueueOutbox_def split: if_splits)
  have q: "ob_ID (queued u x) = u" "ob_DedupeKey (queued u x) = ob_DedupeKey x" by (simp_all add: queued_def)
  have "u \<notin> ob_ID ` set (np_outbox s)" "ob_DedupeKey x \<notin> ob_DedupeKey ` set (np_outbox s)"
    using n k f g find_key_None by metis+
  moreover have "up u = Some u" using assms(1) f g by (auto simp: np_inv_def)
  ultimately have "np_inv up s'" using assms(1) s' f g q by (auto simp: np_inv_def)
  moreover have "np_outs s' = (np_outs s)(u \<mapsto> queued u x)"
    using s' f g n q by (auto simp: np_outs_def fun_eq_iff find_append split: option.splits)
  moreover have "np_outs s u = None" using n f g by (simp add: np_outs_def)
  moreover have "\<not> has_dedupe (np_outs s) (ob_DedupeKey x)" using k f np_has_dedupe [OF assms(1)] by simp
  ultimately show ?thesis using s' f g by auto
qed

lemma np_enqueue_rest:
  assumes "np_inv up s" and "np_EnqueueOutbox x s = (r, s')" and "r \<noteq> Inr True"
  shows "np_inv up s' \<and> np_devices s' = np_devices s \<and> np_outs s' = np_outs s \<and>
    (r = Inr False \<longrightarrow> has_dedupe (np_outs s) (ob_DedupeKey x))"
proof -
  obtain f s1 where t: "np_tick s = (f, s1)" by fastforce
  note tf = np_tick_frame [OF t]
  show ?thesis
  proof (cases "f \<or> find (\<lambda>r. ob_DedupeKey r = ob_DedupeKey x) (np_outbox s1) \<noteq> None")
    case True
    with assms(2) t have "s' = s1" by (auto simp: np_EnqueueOutbox_def split: if_splits)
    moreover have "r = Inr False \<longrightarrow> find (\<lambda>r. ob_DedupeKey r = ob_DedupeKey x) (np_outbox s1) \<noteq> None"
      using assms(2) t True by (auto simp: np_EnqueueOutbox_def split: if_splits)
    ultimately show ?thesis using np_frame [OF assms(1), of s1] tf np_has_dedupe [OF assms(1)] by simp
  next
    case False
    obtain u s2 where 2: "np_uuid s1 = (u, s2)" by fastforce
    note g = np_uuid_frame [OF 2]
    have "s' = s2 \<and> r = Inl ()"
      using assms(2,3) t False 2 by (cases u) (auto simp: np_EnqueueOutbox_def split: if_splits)
    with np_frame [OF assms(1), of s2] tf g show ?thesis by auto
  qed
qed

lemma due_ids_sub: "i \<in> set (due_ids now limit rows) \<Longrightarrow>
    \<exists>r \<in> set rows. ob_ID r = i \<and> ob_Status r = OutPending \<and> ob_NextAttemptAt r \<le> pg_time now"
  by (fastforce simp: due_ids_def dest: in_set_takeD)

lemma due_ids_length: "0 \<le> limit \<Longrightarrow> int (length (due_ids now limit rows)) \<le> limit"
  by (simp add: due_ids_def)

lemma np_claim_ok:
  assumes "np_inv up s" and "np_ClaimPending now lease limit s = (Inr xs, s')"
  shows "np_inv up s' \<and> np_devices s' = np_devices s \<and> distinct (map ob_ID xs) \<and> int (length xs) \<le> limit \<and>
    (\<forall>x \<in> set xs. \<exists>r. np_outs s (ob_ID x) = Some r \<and> ob_Status r = OutPending \<and>
       ob_NextAttemptAt r \<le> pg_time now \<and> x = r\<lparr>ob_NextAttemptAt := pg_time (now + lease)\<rparr>) \<and>
    (\<forall>i. np_outs s' i = (if i \<in> ob_ID ` set xs
       then map_option (\<lambda>r. r\<lparr>ob_NextAttemptAt := pg_time (now + lease)\<rparr>) (np_outs s i) else np_outs s i))"
proof -
  obtain s1 where t: "np_tick s = (False, s1)"
    using assms(2) by (cases "np_tick s") (auto simp: np_ClaimPending_def split: if_splits)
  note f = np_tick_frame [OF t]
  define ids where "ids = due_ids now limit (np_outbox s)"
  let ?g = "leased ids (now + lease)"
  let ?h = "\<lambda>r. r\<lparr>ob_NextAttemptAt := pg_time (now + lease)\<rparr>"
  have lim: "0 \<le> limit" and s': "s' = s1\<lparr>np_outbox := map ?g (np_outbox s)\<rparr>"
    and xs: "xs = filter (\<lambda>r. ob_ID r \<in> set ids) (map ?g (np_outbox s))"
    using assms(2) t f by (simp_all add: np_ClaimPending_def ids_def Let_def split: if_splits)
  have gi: "ob_ID (?g r) = ob_ID r" "ob_DedupeKey (?g r) = ob_DedupeKey r" for r by (simp_all add: leased_def)
  have m: "np_inv up s' \<and> np_outs s' = (\<lambda>i. map_option ?g (np_outs s i))"
    by (rule np_map [OF assms(1)]) (use s' f gi in simp_all)
  have xs2: "xs = map ?g (filter (\<lambda>r. ob_ID r \<in> set ids) (np_outbox s))"
    using xs gi by (simp add: filter_map comp_def)
  have d: "distinct (map ob_ID (np_outbox s))" using assms(1) by (simp add: np_inv_def)
  have dx: "distinct (map ob_ID xs)" using d gi by (simp add: xs2 comp_def distinct_map_filter)
  have sub: "set ids \<subseteq> ob_ID ` set (np_outbox s)" using due_ids_sub unfolding ids_def by blast
  have ix: "ob_ID ` set xs = set ids"
  proof -
    have "ob_ID ` set xs = {i \<in> ob_ID ` set (np_outbox s). i \<in> set ids}"
      using gi unfolding xs2 by (auto simp: image_iff)
    with sub show ?thesis by blast
  qed
  have "length xs = card (ob_ID ` set xs)" using dx by (metis distinct_card length_map set_map)
  also have "\<dots> \<le> length ids" unfolding ix by (rule card_length)
  finally have len: "int (length xs) \<le> limit" using due_ids_length [OF lim, of now "np_outbox s"] by (simp add: ids_def)
  have rows: "\<exists>r. np_outs s (ob_ID x) = Some r \<and> ob_Status r = OutPending \<and> ob_NextAttemptAt r \<le> pg_time now \<and> x = ?h r"
    if "x \<in> set xs" for x
  proof -
    from that obtain r where r: "r \<in> set (np_outbox s)" "x = ?g r" "ob_ID r \<in> set ids" by (auto simp: xs2)
    then obtain q where q: "q \<in> set (np_outbox s)" "ob_ID q = ob_ID r" "ob_Status q = OutPending"
      "ob_NextAttemptAt q \<le> pg_time now" using due_ids_sub unfolding ids_def by blast
    have "q = r" using d q(1,2) r(1) by (meson inj_onD distinct_map)
    with r q np_outs_Some [OF assms(1)] show ?thesis by (auto simp: leased_def)
  qed
  have "np_outs s' i = (if i \<in> set ids then map_option ?h (np_outs s i) else np_outs s i)" for i
    using m np_outs_Some [OF assms(1), of i "the (np_outs s i)"]
    by (cases "np_outs s i") (simp_all add: leased_def)
  then show ?thesis using m dx len rows s' f unfolding ix by simp
qed

lemma np_claim_err:
  assumes "np_inv up s" and "np_ClaimPending now lease limit s = (Inl e, s')"
  shows "np_inv up s' \<and> np_devices s' = np_devices s \<and> np_outs s' = np_outs s"
proof -
  obtain f s1 where t: "np_tick s = (f, s1)" by fastforce
  with assms(2) have "s' = s1" by (auto simp: np_ClaimPending_def Let_def split: if_splits)
  with np_tick_frame [OF t] show ?thesis by (intro np_frame [OF assms(1)]) auto
qed

lemma np_active:
  assumes "np_inv up s" and "np_ActiveDevicesForUser usr s = (r, s')"
  shows "np_inv up s' \<and> np_outs s' = np_outs s \<and> np_devices s' = np_devices s \<and>
    (\<forall>ds. r = Inr ds \<longrightarrow> ds = filter (\<lambda>d. dv_UserID d = usr \<and> dv_Active d) (np_devices s))"
proof -
  obtain f s1 where t: "np_tick s = (f, s1)" by fastforce
  note g = np_tick_frame [OF t]
  from assms(2) t have "s' = s1" by (auto simp: np_ActiveDevicesForUser_def split: if_splits)
  with g np_frame [OF assms(1), of s1] assms(2) t show ?thesis
    by (auto simp: np_ActiveDevicesForUser_def split: if_splits)
qed

lemma np_prune:
  assumes "np_inv up s" and "np_DeactivateDeviceByToken k s = (r, s')"
  shows "np_inv up s' \<and> np_outs s' = np_outs s \<and> (r = Inl () \<longrightarrow> np_devices s' = np_devices s) \<and>
    (r = Inr () \<longrightarrow> np_devices s' =
      map (\<lambda>d. if dv_PushToken d = k then d\<lparr>dv_Active := False\<rparr> else d) (np_devices s))"
proof -
  obtain f s1 where t: "np_tick s = (f, s1)" by fastforce
  note g = np_tick_frame [OF t]
  with np_frame [OF assms(1), of s1] assms(2) t show ?thesis
    by (auto simp: np_DeactivateDeviceByToken_def np_inv_def np_outs_def split: if_splits)
qed

interpretation nst: outbox_store "pg_notify up" np_outs np_devices "np_inv up"
proof
  fix s i r assume "np_inv up s" "np_outs s i = Some r"
  then show "ob_ID r = i" by (simp add: np_outs_Some)
next
  fix s i r j q
  assume iv: "np_inv up s" and "np_outs s i = Some r" "np_outs s j = Some q" "ob_DedupeKey r = ob_DedupeKey q"
  then have "r \<in> set (np_outbox s)" "q \<in> set (np_outbox s)" "ob_ID r = i" "ob_ID q = j"
    by (simp_all add: np_outs_Some)
  moreover have "inj_on ob_DedupeKey (set (np_outbox s))" using iv by (simp add: np_inv_def distinct_map)
  ultimately show "i = j" using \<open>ob_DedupeKey r = ob_DedupeKey q\<close> by (metis inj_onD)
next
  fix s i t u s'
  assume "np_inv up s" "np_outs s i \<noteq> None" "ns_MarkSent (pg_notify up) i t s = (Inr u, s')"
  then show "np_inv up s' \<and> np_devices s' = np_devices s \<and>
      np_outs s' = upd_row i (\<lambda>r. r\<lparr>ob_Status := OutSent, ob_SentAt := Some (pg_time t)\<rparr>) (np_outs s)"
    by (intro execOne_row [of up s i _ u s']) (simp_all add: pg_notify_def np_MarkSent_def)
next
  fix s i n t u s'
  assume "np_inv up s" "np_outs s i \<noteq> None" "ns_Reschedule (pg_notify up) i n t s = (Inr u, s')"
  then show "np_inv up s' \<and> np_devices s' = np_devices s \<and>
      np_outs s' = upd_row i (\<lambda>r. r\<lparr>ob_Status := OutPending, ob_Attempts := n, ob_NextAttemptAt := pg_time t\<rparr>) (np_outs s)"
    by (intro execOne_row [of up s i _ u s']) (simp_all add: pg_notify_def np_Reschedule_def)
next
  fix s i u s'
  assume "np_inv up s" "np_outs s i \<noteq> None" "ns_MarkFailed (pg_notify up) i s = (Inr u, s')"
  then show "np_inv up s' \<and> np_devices s' = np_devices s \<and>
      np_outs s' = upd_row i (\<lambda>r. r\<lparr>ob_Status := OutFailed\<rparr>) (np_outs s)"
    by (intro execOne_row [of up s i _ u s']) (simp_all add: pg_notify_def np_MarkFailed_def)
qed (unfold pg_notify_def notify_store.simps np_MarkSent_def np_Reschedule_def np_MarkFailed_def,
    (drule (1) np_enqueue_new np_claim_ok np_claim_err execOne_err np_active np_prune, simp |
     drule (1) np_enqueue_rest, simp, simp)+)

end
