(* ===== verification/Notify_Events.thy ===== *)
theory Notify_Events
  imports Notify_Store Gift_Json
begin

text \<open>
  The Notification service's consumer: the events it decodes and the outbox rows it makes of them
  (\<open>services/backend/notification/internal/notify/types.go\<close>, \<open>consumer.go\<close>). An error is
  \<open>Inl ()\<close>: its text is only logged. \<open>time_ok\<close> tells which JSON values \<open>time.Time\<close> decodes;
  the completion time itself is not used further.
\<close>

section \<open>Decoding\<close>

record poll_completed_event =
  pe_PollID :: string
  pe_SurpriseRequestID :: string
  pe_OwnerUserID :: string

record ideas_ready_event =
  ie_RequestID :: string
  ie_UserID :: string
  ie_IdeaCount :: int

definition decode_poll_completed :: "(string \<Rightarrow> bool) \<Rightarrow> string \<Rightarrow> poll_completed_event option" where
  "decode_poll_completed time_ok data =
     (case json_parse data of
        Some JNull \<Rightarrow> Some \<lparr>pe_PollID = [], pe_SurpriseRequestID = [], pe_OwnerUserID = []\<rparr>
      | Some (JObj ms) \<Rightarrow>
          (case (string_field ''poll_id'' ms [], string_field ''surprise_request_id'' ms [],
                 string_field ''owner_user_id'' ms []) of
             (Some p, Some q, Some u) \<Rightarrow>
               (if \<forall>m \<in> set ms. names ''completed_at'' m \<longrightarrow> snd m = ''null'' \<or> time_ok (snd m)
                then Some \<lparr>pe_PollID = p, pe_SurpriseRequestID = q, pe_OwnerUserID = u\<rparr> else None)
           | _ \<Rightarrow> None)
      | _ \<Rightarrow> None)"

definition decode_ideas_ready :: "string \<Rightarrow> ideas_ready_event option" where
  "decode_ideas_ready data =
     (case json_parse data of
        Some JNull \<Rightarrow> Some \<lparr>ie_RequestID = [], ie_UserID = [], ie_IdeaCount = 0\<rparr>
      | Some (JObj ms) \<Rightarrow>
          (case (string_field ''request_id'' ms [], string_field ''user_id'' ms [], int_field ''idea_count'' ms 0) of
             (Some r, Some u, Some n) \<Rightarrow> Some \<lparr>ie_RequestID = r, ie_UserID = u, ie_IdeaCount = n\<rparr>
           | _ \<Rightarrow> None)
      | _ \<Rightarrow> None)"

section \<open>Outbox rows\<close>

abbreviation em_dash :: string where
  "em_dash \<equiv> [CHR 0xE2, CHR 0x80, CHR 0x94]"

definition new_outbox :: "string \<Rightarrow> notif_type \<Rightarrow> payload \<Rightarrow> string \<Rightarrow> time \<Rightarrow> outbox" where
  "new_outbox user ty payload key now =
     \<lparr>ob_ID = [], ob_UserID = user, ob_Type = ty, ob_Payload = payload, ob_DedupeKey = key,
      ob_Status = OutPending, ob_Attempts = 0, ob_NextAttemptAt = now, ob_CreatedAt = now, ob_SentAt = None\<rparr>"

definition poll_completed_outbox :: "time \<Rightarrow> poll_completed_event \<Rightarrow> outbox option" where
  "poll_completed_outbox now e =
     (if pe_PollID e = [] \<or> pe_OwnerUserID e = [] then None
      else Some (new_outbox (pe_OwnerUserID e) TypePollCompleted
        [(''title'', PText ''Your poll is done''),
         (''body'', PText (''Your partner finished the poll '' @ em_dash @ '' tap to sharpen your ideas.'')),
         (''poll_id'', PText (pe_PollID e)), (''surprise_request_id'', PText (pe_SurpriseRequestID e))]
        (''poll_completed:'' @ pe_PollID e @ '':'' @ pe_OwnerUserID e) now))"

definition ideas_ready_outbox :: "time \<Rightarrow> ideas_ready_event \<Rightarrow> outbox option" where
  "ideas_ready_outbox now e =
     (if ie_RequestID e = [] \<or> ie_UserID e = [] then None
      else Some (new_outbox (ie_UserID e) TypeIdeasReady
        [(''title'', PText ''Your surprise ideas are ready''),
         (''body'', PText (''We generated some ideas for your surprise '' @ em_dash @ '' tap to see them.'')),
         (''request_id'', PText (ie_RequestID e)), (''idea_count'', PInt (ie_IdeaCount e))]
        (''ideas_ready:'' @ ie_RequestID e @ '':'' @ ie_UserID e) now))"

section \<open>The consumer\<close>

definition notify_enqueue :: "'s notify_store \<Rightarrow> outbox \<Rightarrow> 's \<Rightarrow> (unit + unit) \<times> 's" where
  "notify_enqueue store x s =
     (let (r, s1) = ns_EnqueueOutbox store x s in
      (case r of Inl e \<Rightarrow> Inl e | Inr _ \<Rightarrow> Inr (), s1))"

definition HandlePollCompleted ::
  "'s notify_store \<Rightarrow> (string \<Rightarrow> bool) \<Rightarrow> time \<Rightarrow> string \<Rightarrow> 's \<Rightarrow> (unit + unit) \<times> 's" where
  "HandlePollCompleted store time_ok now data s =
     (case decode_poll_completed time_ok data of
        None \<Rightarrow> (Inl (), s)
      | Some e \<Rightarrow>
          (case poll_completed_outbox now e of
             None \<Rightarrow> (Inl (), s)
           | Some x \<Rightarrow> notify_enqueue store x s))"

definition HandleIdeasReady :: "'s notify_store \<Rightarrow> time \<Rightarrow> string \<Rightarrow> 's \<Rightarrow> (unit + unit) \<times> 's" where
  "HandleIdeasReady store now data s =
     (case decode_ideas_ready data of
        None \<Rightarrow> (Inl (), s)
      | Some e \<Rightarrow>
          (case ideas_ready_outbox now e of
             None \<Rightarrow> (Inl (), s)
           | Some x \<Rightarrow> notify_enqueue store x s))"

text \<open>\<open>Process\<close>: whether the message is acknowledged; otherwise it is to be redelivered.\<close>

definition notify_Process :: "(string \<Rightarrow> 's \<Rightarrow> (unit + unit) \<times> 's) \<Rightarrow> string \<Rightarrow> 's \<Rightarrow> bool \<times> 's" where
  "notify_Process handler data s = (let (r, s1) = handler data s in (r = Inr (), s1))"

text \<open>The two subscriptions, and any run of deliveries from them, each with its clock reading.\<close>

datatype bus_message = PollCompletedMsg string | IdeasReadyMsg string

fun deliver :: "'s notify_store \<Rightarrow> (string \<Rightarrow> bool) \<Rightarrow> time \<times> bus_message \<Rightarrow> 's \<Rightarrow> bool \<times> 's" where
  "deliver store time_ok (now, PollCompletedMsg data) s =
     notify_Process (HandlePollCompleted store time_ok now) data s"
| "deliver store time_ok (now, IdeasReadyMsg data) s = notify_Process (HandleIdeasReady store now) data s"

fun deliveries ::
  "'s notify_store \<Rightarrow> (string \<Rightarrow> bool) \<Rightarrow> (time \<times> bus_message) list \<Rightarrow> 's \<Rightarrow> bool list \<times> 's" where
  "deliveries store time_ok [] s = ([], s)"
| "deliveries store time_ok (d # ds) s =
     (let (a, s1) = deliver store time_ok d s; (as, s2) = deliveries store time_ok ds s1 in (a # as, s2))"

text \<open>The row a message asks for, none when it is malformed.\<close>

fun asked :: "(string \<Rightarrow> bool) \<Rightarrow> time \<times> bus_message \<Rightarrow> outbox option" where
  "asked time_ok (now, PollCompletedMsg data) =
     Option.bind (decode_poll_completed time_ok data) (poll_completed_outbox now)"
| "asked time_ok (now, IdeasReadyMsg data) = Option.bind (decode_ideas_ready data) (ideas_ready_outbox now)"

lemma deliver_asked:
  "deliver store time_ok d s =
     (case asked time_ok d of
        None \<Rightarrow> (False, s)
      | Some x \<Rightarrow> (let (r, s1) = ns_EnqueueOutbox store x s in (\<exists>b. r = Inr b, s1)))"
proof (cases d)
  case (Pair now m)
  then show ?thesis
    by (cases m) (auto simp: notify_Process_def HandlePollCompleted_def HandleIdeasReady_def notify_enqueue_def
        split: option.splits prod.splits sum.splits)
qed

lemma has_dedupe_mono:
  "(\<And>i r. m i = Some r \<longrightarrow> m' i = Some r) \<Longrightarrow> has_dedupe m k \<Longrightarrow> has_dedupe m' k"
  unfolding has_dedupe_def by metis

context outbox_store begin

lemma deliver_effect:
  assumes "inv s" and "deliver store time_ok d s = (a, s')"
  shows "inv s' \<and> devs s' = devs s \<and>
    (a \<longrightarrow> (\<exists>x. asked time_ok d = Some x \<and> has_dedupe (outs s') (ob_DedupeKey x))) \<and>
    (outs s' = outs s \<or> (\<exists>u x. asked time_ok d = Some x \<and> \<not> has_dedupe (outs s) (ob_DedupeKey x) \<and>
       outs s u = None \<and> outs s' = (outs s)(u \<mapsto> queued u x)))"
proof (cases "asked time_ok d")
  case None
  with assms show ?thesis by (simp add: deliver_asked)
next
  case (Some x)
  obtain r s1 where 1: "ns_EnqueueOutbox store x s = (r, s1)" by fastforce
  with assms(2) Some have e: "a = (\<exists>b. r = Inr b)" "s' = s1" by (simp_all add: deliver_asked)
  have k: "has_dedupe (m(u \<mapsto> queued u x)) (ob_DedupeKey x)" for m u
    by (auto simp: has_dedupe_def queued_def)
  show ?thesis
  proof (cases r)
    case (Inl y)
    with enqueue_err [OF assms(1)] 1 e show ?thesis by auto
  next
    case (Inr b)
    with enqueue_new [OF assms(1), of x s1] enqueue_dup [OF assms(1), of x s1] 1 e Some k
    show ?thesis by (cases b) auto
  qed
qed

lemma deliveries_effect:
  assumes "inv s" and "deliveries store time_ok ds s = (as, s')"
  shows "inv s' \<and> devs s' = devs s \<and> length as = length ds \<and>
    (\<forall>i r. outs s i = Some r \<longrightarrow> outs s' i = Some r) \<and>
    (\<forall>i r. outs s' i = Some r \<longrightarrow> outs s i = Some r \<or>
       (\<exists>d \<in> set ds. \<exists>x. asked time_ok d = Some x \<and> r = queued i x \<and> \<not> has_dedupe (outs s) (ob_DedupeKey x))) \<and>
    (\<forall>j < length ds. as ! j \<longrightarrow>
       (\<exists>x. asked time_ok (ds ! j) = Some x \<and> has_dedupe (outs s') (ob_DedupeKey x)))"
  using assms
proof (induction ds arbitrary: s as s')
  case Nil
  then show ?case by simp
next
  case (Cons d ds)
  obtain a s1 where 1: "deliver store time_ok d s = (a, s1)" by fastforce
  obtain bs s2 where 2: "deliveries store time_ok ds s1 = (bs, s2)" by fastforce
  have r: "as = a # bs" "s' = s2" using Cons.prems(2) 1 2 by auto
  note e = deliver_effect [OF Cons.prems(1) 1]
  then have "inv s1" by blast
  note IH = Cons.IH [OF this 2]
  have grow: "outs s i = Some r \<longrightarrow> outs s1 i = Some r" for i r using e by auto
  have keep: "has_dedupe (outs s) k \<Longrightarrow> has_dedupe (outs s1) k"
    "has_dedupe (outs s1) k \<Longrightarrow> has_dedupe (outs s2) k" for k
    using has_dedupe_mono [of "outs s" "outs s1" k] has_dedupe_mono [of "outs s1" "outs s2" k] grow IH by simp_all
  have "outs s i = Some r \<longrightarrow> outs s2 i = Some r" for i r using grow IH by blast
  moreover have "outs s2 i = Some r \<longrightarrow> outs s i = Some r \<or>
      (\<exists>d' \<in> set (d # ds). \<exists>x. asked time_ok d' = Some x \<and> r = queued i x \<and> \<not> has_dedupe (outs s) (ob_DedupeKey x))"
    for i r
  proof
    assume "outs s2 i = Some r"
    with IH consider "outs s1 i = Some r" | d' x where "d' \<in> set ds" "asked time_ok d' = Some x" "r = queued i x"
      "\<not> has_dedupe (outs s1) (ob_DedupeKey x)" by blast
    then show "outs s i = Some r \<or>
      (\<exists>d' \<in> set (d # ds). \<exists>x. asked time_ok d' = Some x \<and> r = queued i x \<and> \<not> has_dedupe (outs s) (ob_DedupeKey x))"
    proof cases
      case 1
      with e show ?thesis by (auto split: if_splits)
    next
      case 2
      with keep(1) show ?thesis by auto
    qed
  qed
  moreover have "(a # bs) ! j \<longrightarrow>
      (\<exists>x. asked time_ok ((d # ds) ! j) = Some x \<and> has_dedupe (outs s2) (ob_DedupeKey x))"
    if "j < length (d # ds)" for j
    using that e IH keep(2) by (cases j) auto
  ultimately show ?case using e IH r by auto
qed

end

section \<open>What the consumer promises on the Postgres store\<close>

text \<open>C15: However often the bus redelivers its messages and whatever statements fail, no key has more
  than one row; an acknowledged message has its row; a row that exists is never changed or
  removed; and a new row is the pending notification some delivered event asks for, for the user
  that event names.\<close>

theorem notify_recorded_once:
  assumes "np_inv up s" and "deliveries (pg_notify up) time_ok ds s = (as, s')"
  shows "(\<forall>k. length (filter (\<lambda>r. ob_DedupeKey r = k) (np_outbox s')) \<le> 1) \<and>
    set (np_outbox s) \<subseteq> set (np_outbox s') \<and>
    (\<forall>r \<in> set (np_outbox s'). r \<in> set (np_outbox s) \<or>
       (\<exists>d \<in> set ds. \<exists>x. asked time_ok d = Some x \<and> r = queued (ob_ID r) x)) \<and>
    length as = length ds \<and>
    (\<forall>j < length ds. as ! j \<longrightarrow> (\<exists>x. asked time_ok (ds ! j) = Some x \<and>
       (\<exists>r \<in> set (np_outbox s'). ob_DedupeKey r = ob_DedupeKey x)))"
proof -
  note e = nst.deliveries_effect [OF assms]
  then have iv: "np_inv up s'" by blast
  have "length (filter (\<lambda>r. ob_DedupeKey r = k) (np_outbox s')) \<le> 1" for k
    using iv by (intro all_same_key_le1 [of ob_DedupeKey]) (auto simp: np_inv_def intro: distinct_map_filter)
  moreover have "set (np_outbox s) \<subseteq> set (np_outbox s')"
    using e np_outs_Some [OF assms(1)] np_outs_Some [OF iv] by blast
  moreover have "r \<in> set (np_outbox s) \<or> (\<exists>d \<in> set ds. \<exists>x. asked time_ok d = Some x \<and> r = queued (ob_ID r) x)"
    if "r \<in> set (np_outbox s')" for r
    using that e np_outs_Some [OF assms(1), of "ob_ID r" r] np_outs_Some [OF iv, of "ob_ID r" r] by blast
  moreover have "has_dedupe (np_outs s') k \<longleftrightarrow> (\<exists>r \<in> set (np_outbox s'). ob_DedupeKey r = k)" for k
    using np_outs_Some [OF iv] by (auto simp: has_dedupe_def)
  ultimately show ?thesis using e by auto
qed

text \<open>The same IdeasReady event twice, then one without a user; the second statement fails.\<close>

definition ex_ready :: "string \<Rightarrow> string \<Rightarrow> string" where
  "ex_ready r u = concat [''{'', [CHR 0x22], ''request_id'', [CHR 0x22], '': '', [CHR 0x22], r, [CHR 0x22], '', '',
     [CHR 0x22], ''user_id'', [CHR 0x22], '': '', [CHR 0x22], u, [CHR 0x22], '', '',
     [CHR 0x22], ''idea_count'', [CHR 0x22], '': 3}'']"

definition ex_notify :: "bool list \<Rightarrow> notify_pg" where
  "ex_notify fs = \<lparr>np_devices = [], np_outbox = [], np_uuids = [''o1'', ''o2''], np_faults = fs\<rparr>"

lemma ex_notify_inv: "np_inv Some (ex_notify fs)"
  by (simp add: np_inv_def ex_notify_def)

definition ex_deliveries :: "(time \<times> bus_message) list" where
  "ex_deliveries = [(5000, IdeasReadyMsg (ex_ready ''q1'' ''ann'')), (6000, IdeasReadyMsg (ex_ready ''q1'' ''ann'')),
     (7000, IdeasReadyMsg (ex_ready ''q1'' ''ann'')), (8000, IdeasReadyMsg (ex_ready ''q1'' []))]"

lemma notify_recorded_once_witness:
  "let (as, s') = deliveries (pg_notify Some) (\<lambda>_. True) ex_deliveries (ex_notify [False, True]) in
   as = [True, False, True, False] \<and>
   (\<exists>x. asked (\<lambda>_. True) (ex_deliveries ! 2) = Some x \<and> (\<exists>r \<in> set (np_outbox s'). ob_DedupeKey r = ob_DedupeKey x)) \<and>
   length (filter (\<lambda>r. ob_DedupeKey r = ''ideas_ready:q1:ann'') (np_outbox s')) \<le> 1"
proof -
  obtain as s' where e: "deliveries (pg_notify Some) (\<lambda>_. True) ex_deliveries (ex_notify [False, True]) = (as, s')"
    by fastforce
  have "fst (deliveries (pg_notify Some) (\<lambda>_. True) ex_deliveries (ex_notify [False, True])) =
      [True, False, True, False]" by code_simp
  with e have as: "as = [True, False, True, False]" by simp
  note p = notify_recorded_once [OF ex_notify_inv e]
  have "(2 :: nat) < length ex_deliveries" "as ! 2" using as by (simp_all add: ex_deliveries_def)
  with p have "\<exists>x. asked (\<lambda>_. True) (ex_deliveries ! 2) = Some x \<and>
      (\<exists>r \<in> set (np_outbox s'). ob_DedupeKey r = ob_DedupeKey x)" by blast
  with p as show ?thesis unfolding e by simp
qed

text \<open>C40: A user is told only once about the ideas of a request. Once a notification for it is
  recorded, even if it was sent long ago, no later IdeasReady event of the same request adds one,
  although it is acknowledged; and every generation of a refined request announces itself with the
  same request id and user, so the ideas of a refinement are never notified.\<close>

theorem refined_ideas_not_notified:
  assumes "decode_ideas_ready data = Some e" and "ideas_ready_outbox now e = Some x"
    and "r \<in> set (np_outbox s)" and "ob_DedupeKey r = ''ideas_ready:'' @ ie_RequestID e @ '':'' @ ie_UserID e"
    and "HandleIdeasReady (pg_notify up) now data s = (c, s')"
  shows "np_outbox s' = np_outbox s \<and> (np_faults s = [] \<longrightarrow> c = Inr ())"
proof -
  have k: "ob_DedupeKey x = ob_DedupeKey r"
    using assms(2,4) by (auto simp: ideas_ready_outbox_def new_outbox_def split: if_splits)
  obtain f s1 where t: "np_tick s = (f, s1)" by fastforce
  note tf = np_tick_frame [OF t]
  then have "find (\<lambda>r. ob_DedupeKey r = ob_DedupeKey x) (np_outbox s1) \<noteq> None"
    using assms(3) k by (auto simp: find_None_iff)
  then have "np_EnqueueOutbox x s = (if f then Inl () else Inr False, s1)"
    by (simp add: np_EnqueueOutbox_def t)
  then have "c = (if f then Inl () else Inr ()) \<and> s' = s1"
    using assms(1,2,5) by (auto simp: HandleIdeasReady_def notify_enqueue_def pg_notify_def)
  moreover have "np_faults s = [] \<Longrightarrow> \<not> f" using t by (auto simp: np_tick_def)
  ultimately show ?thesis using tf by auto
qed

lemma refined_ideas_not_notified_witness:
  "let s1 = snd (HandleIdeasReady (pg_notify Some) 5000 (ex_ready ''q1'' ''ann'') (ex_notify []));
       s2 = snd (np_MarkSent Some ''o1'' 7000 s1);
       w = HandleIdeasReady (pg_notify Some) 9000 (ex_ready ''q1'' ''ann'') s2 in
   fst w = Inr () \<and> np_outbox (snd w) = np_outbox s2 \<and> map ob_Status (np_outbox s2) = [OutSent]"
proof -
  let ?s1 = "snd (HandleIdeasReady (pg_notify Some) 5000 (ex_ready ''q1'' ''ann'') (ex_notify []))"
  let ?s2 = "snd (np_MarkSent Some ''o1'' 7000 ?s1)" and ?e = "\<lparr>ie_RequestID = ''q1'', ie_UserID = ''ann'', ie_IdeaCount = 3\<rparr>"
  let ?w = "HandleIdeasReady (pg_notify Some) 9000 (ex_ready ''q1'' ''ann'') ?s2"
  have d: "decode_ideas_ready (ex_ready ''q1'' ''ann'') = Some ?e" by code_simp
  have o2: "map (\<lambda>r. (ob_DedupeKey r, ob_Status r)) (np_outbox ?s2) = [(''ideas_ready:q1:ann'', OutSent)]"
    by code_simp
  then obtain r where r: "np_outbox ?s2 = [r]" "ob_DedupeKey r = ''ideas_ready:q1:ann''" "ob_Status r = OutSent"
    by (auto simp: map_eq_Cons_conv)
  have f: "np_faults ?s2 = []" by code_simp
  obtain x where x: "ideas_ready_outbox 9000 ?e = Some x" by (simp add: ideas_ready_outbox_def)
  obtain c s' where w: "?w = (c, s')" by fastforce
  from refined_ideas_not_notified [OF d x _ _ w] r f
  have "np_outbox s' = np_outbox ?s2 \<and> c = Inr ()" by simp
  with w r show ?thesis unfolding Let_def by simp
qed

end
