(* ===== verification/Notify_Dispatch.thy ===== *)
theory Notify_Dispatch
  imports Notify_Store
begin

text \<open>
  The outbox dispatcher of the Notification service and the push port
  (\<open>services/backend/notification/internal/notify/dispatcher.go\<close>, \<open>push.go\<close>). The providers work
  on \<open>nw_push\<close>, the part of the world outside the service. \<open>now k\<close> is the clock reading that
  finalizes the k-th row of a sweep.
\<close>

section \<open>The push port (push.go)\<close>

datatype push_error = ErrInvalidToken | PushFailed

record push_message =
  pm_Type :: notif_type
  pm_Payload :: payload

type_synonym 'm pusher = "device \<Rightarrow> push_message \<Rightarrow> 'm \<Rightarrow> push_error option \<times> 'm"

definition router_Push :: "(platform \<Rightarrow> 'm pusher option) \<Rightarrow> 'm pusher" where
  "router_Push byPlatform d msg m =
     (case byPlatform (dv_Platform d) of
        None \<Rightarrow> (Some PushFailed, m)
      | Some p \<Rightarrow> p d msg m)"

section \<open>The dispatcher\<close>

record dispatcher_config =
  dc_Interval :: duration
  dc_Lease :: duration
  dc_Batch :: int
  dc_MaxAttempts :: int
  dc_BaseBackoff :: duration

definition withDefaults :: "dispatcher_config \<Rightarrow> dispatcher_config" where
  "withDefaults c = c
     \<lparr>dc_Interval := (if dc_Interval c \<le> 0 then ns_per_sec else dc_Interval c),
      dc_Lease := (if dc_Lease c \<le> 0 then 30 * ns_per_sec else dc_Lease c),
      dc_Batch := (if dc_Batch c \<le> 0 then 100 else dc_Batch c),
      dc_MaxAttempts := (if dc_MaxAttempts c \<le> 0 then 6 else dc_MaxAttempts c),
      dc_BaseBackoff := (if dc_BaseBackoff c \<le> 0 then 2 * ns_per_sec else dc_BaseBackoff c)\<rparr>"

record ('s, 'm) dispatcher =
  dp_store :: "'s notify_store"
  dp_pusher :: "'m pusher"
  dp_cfg :: dispatcher_config

definition NewDispatcher :: "'s notify_store \<Rightarrow> 'm pusher \<Rightarrow> dispatcher_config \<Rightarrow> ('s, 'm) dispatcher" where
  "NewDispatcher store pusher cfg = \<lparr>dp_store = store, dp_pusher = pusher, dp_cfg = withDefaults cfg\<rparr>"

record ('s, 'm) notify_world =
  nw_store :: 's
  nw_push :: 'm

definition backoff :: "dispatcher_config \<Rightarrow> int \<Rightarrow> duration" where
  "backoff c attempts =
     (let a = (if attempts < 1 then 1 else attempts);
          shift = (if 16 < a - 1 then 16 else a - 1) in
      wrap64 (dc_BaseBackoff c * 2 ^ nat shift))"

definition dispatch_retry ::
  "('s, 'm) dispatcher \<Rightarrow> time \<Rightarrow> outbox \<Rightarrow> ('s, 'm) notify_world \<Rightarrow> (unit + unit) \<times> ('s, 'm) notify_world" where
  "dispatch_retry d now ob w =
     (let attempts = ob_Attempts ob + 1;
          (r, s) = (if dc_MaxAttempts (dp_cfg d) \<le> attempts
            then ns_MarkFailed (dp_store d) (ob_ID ob) (nw_store w)
            else ns_Reschedule (dp_store d) (ob_ID ob) attempts (now + backoff (dp_cfg d) attempts) (nw_store w)) in
      (r, w\<lparr>nw_store := s\<rparr>))"

text \<open>The loop over the devices: whether one push failed transiently.\<close>

fun push_devices ::
  "('s, 'm) dispatcher \<Rightarrow> push_message \<Rightarrow> device list \<Rightarrow> ('s, 'm) notify_world \<Rightarrow>
   bool \<times> ('s, 'm) notify_world" where
  "push_devices d msg [] w = (False, w)"
| "push_devices d msg (v # vs) w =
     (let (e, m) = dp_pusher d v msg (nw_push w);
          w1 = w\<lparr>nw_push := m\<rparr> in
      case e of
        None \<Rightarrow> push_devices d msg vs w1
      | Some ErrInvalidToken \<Rightarrow>
          push_devices d msg vs
            (w1\<lparr>nw_store := snd (ns_DeactivateDeviceByToken (dp_store d) (dv_PushToken v) (nw_store w1))\<rparr>)
      | Some PushFailed \<Rightarrow> (True, snd (push_devices d msg vs w1)))"

definition dispatch ::
  "('s, 'm) dispatcher \<Rightarrow> time \<Rightarrow> outbox \<Rightarrow> ('s, 'm) notify_world \<Rightarrow> (unit + unit) \<times> ('s, 'm) notify_world" where
  "dispatch d now ob w =
     (let (r, s1) = ns_ActiveDevicesForUser (dp_store d) (ob_UserID ob) (nw_store w);
          w1 = w\<lparr>nw_store := s1\<rparr> in
      case r of
        Inl _ \<Rightarrow> dispatch_retry d now ob w1
      | Inr devices \<Rightarrow>
          (let (transient, w2) = push_devices d \<lparr>pm_Type = ob_Type ob, pm_Payload = ob_Payload ob\<rparr> devices w1 in
           if transient then dispatch_retry d now ob w2
           else
             let (u, s3) = ns_MarkSent (dp_store d) (ob_ID ob) now (nw_store w2) in
             (u, w2\<lparr>nw_store := s3\<rparr>)))"

text \<open>An error of one row is logged and the sweep goes on.\<close>

fun dispatch_rows ::
  "('s, 'm) dispatcher \<Rightarrow> (nat \<Rightarrow> time) \<Rightarrow> outbox list \<Rightarrow> ('s, 'm) notify_world \<Rightarrow> ('s, 'm) notify_world" where
  "dispatch_rows d now [] w = w"
| "dispatch_rows d now (x # xs) w = dispatch_rows d (\<lambda>k. now (Suc k)) xs (snd (dispatch d (now 0) x w))"

definition RunOnce ::
  "('s, 'm) dispatcher \<Rightarrow> time \<Rightarrow> (nat \<Rightarrow> time) \<Rightarrow> ('s, 'm) notify_world \<Rightarrow>
   (unit + nat) \<times> ('s, 'm) notify_world" where
  "RunOnce d claimed now w =
     (let (r, s1) = ns_ClaimPending (dp_store d) claimed (dc_Lease (dp_cfg d)) (dc_Batch (dp_cfg d)) (nw_store w);
          w1 = w\<lparr>nw_store := s1\<rparr> in
      case r of
        Inl _ \<Rightarrow> (Inl (), w1)
      | Inr rows \<Rightarrow> (Inr (length rows), dispatch_rows d now rows w1))"

text \<open>\<open>Run\<close>: a sweep at every tick until the context is cancelled; its error is logged.\<close>

fun dispatcher_Run ::
  "('s, 'm) dispatcher \<Rightarrow> (time \<times> (nat \<Rightarrow> time)) list \<Rightarrow> ('s, 'm) notify_world \<Rightarrow> ('s, 'm) notify_world" where
  "dispatcher_Run d [] w = w"
| "dispatcher_Run d ((claimed, now) # ts) w = dispatcher_Run d ts (snd (RunOnce d claimed now w))"

section \<open>What the dispatch of a row does\<close>

text \<open>What the providers answer for a list of devices.\<close>

fun push_answers :: "'m pusher \<Rightarrow> push_message \<Rightarrow> device list \<Rightarrow> 'm \<Rightarrow> push_error option list" where
  "push_answers p msg [] m = []"
| "push_answers p msg (v # vs) m = (let (e, m1) = p v msg m in e # push_answers p msg vs m1)"

definition same_devices :: "(device \<Rightarrow> bool) \<Rightarrow> device list \<Rightarrow> device list \<Rightarrow> bool" where
  "same_devices pruned ds ds' \<longleftrightarrow> length ds' = length ds \<and>
     (\<forall>k < length ds. ds' ! k = ds ! k \<or> pruned (ds ! k) \<and> ds' ! k = (ds ! k)\<lparr>dv_Active := False\<rparr>)"

lemma same_devices_refl [simp]: "same_devices p ds ds"
  by (simp add: same_devices_def)

lemma same_devices_mono: "same_devices p ds ds' \<Longrightarrow> (\<And>d. p d \<Longrightarrow> q d) \<Longrightarrow> same_devices q ds ds'"
  by (auto simp: same_devices_def)

lemma same_devices_trans:
  assumes "same_devices p ds ds'" and "same_devices p ds' ds''" and "\<And>d. p (d\<lparr>dv_Active := False\<rparr>) \<Longrightarrow> p d"
  shows "same_devices p ds ds''"
  unfolding same_devices_def
proof (intro conjI allI impI)
  show "length ds'' = length ds" using assms(1,2) by (simp add: same_devices_def)
next
  fix k assume k: "k < length ds"
  then have "ds' ! k = ds ! k \<or> p (ds ! k) \<and> ds' ! k = (ds ! k)\<lparr>dv_Active := False\<rparr>"
    "ds'' ! k = ds' ! k \<or> p (ds' ! k) \<and> ds'' ! k = (ds' ! k)\<lparr>dv_Active := False\<rparr>"
    using assms(1,2) by (auto simp: same_devices_def)
  then show "ds'' ! k = ds ! k \<or> p (ds ! k) \<and> ds'' ! k = (ds ! k)\<lparr>dv_Active := False\<rparr>"
    using assms(3) by auto
qed

text \<open>The devices a list of answers reports as dead, by token.\<close>

definition reported :: "device list \<Rightarrow> push_error option list \<Rightarrow> device \<Rightarrow> bool" where
  "reported vs es v \<longleftrightarrow>
     (\<exists>k < length vs. k < length es \<and> es ! k = Some ErrInvalidToken \<and> dv_PushToken (vs ! k) = dv_PushToken v)"

lemma reported_Cons:
  "reported vs es v \<Longrightarrow> reported (x # vs) (e # es) v"
  "e = Some ErrInvalidToken \<Longrightarrow> dv_PushToken x = dv_PushToken v \<Longrightarrow> reported (x # vs) (e # es) v"
  unfolding reported_def by force+

lemma reported_active: "reported vs es (v\<lparr>dv_Active := b\<rparr>) = reported vs es v"
  by (simp add: reported_def)

context outbox_store begin

lemma push_devices_effect:
  assumes "dp_store d = store" and "inv (nw_store w)" and "push_devices d msg vs w = (t, w')"
  shows "inv (nw_store w') \<and> outs (nw_store w') = outs (nw_store w) \<and>
    (t \<longleftrightarrow> Some PushFailed \<in> set (push_answers (dp_pusher d) msg vs (nw_push w))) \<and>
    same_devices (reported vs (push_answers (dp_pusher d) msg vs (nw_push w)))
      (devs (nw_store w)) (devs (nw_store w'))"
  using assms(2,3)
proof (induction vs arbitrary: w t w')
  case Nil
  then show ?case by simp
next
  case (Cons v vs)
  obtain e m where p: "dp_pusher d v msg (nw_push w) = (e, m)" by fastforce
  let ?as = "push_answers (dp_pusher d) msg vs m"
  have as: "push_answers (dp_pusher d) msg (v # vs) (nw_push w) = e # ?as" by (simp add: p)
  show ?case
  proof (cases "e = Some ErrInvalidToken")
    case True
    obtain r s1 where 1: "ns_DeactivateDeviceByToken store (dv_PushToken v) (nw_store w) = (r, s1)" by fastforce
    let ?w1 = "w\<lparr>nw_push := m, nw_store := s1\<rparr>"
    have s1: "inv s1 \<and> outs s1 = outs (nw_store w) \<and> same_devices (reported (v # vs) (e # ?as)) (devs (nw_store w)) (devs s1)"
    proof (cases r)
      case (Inl x)
      with prune_err [OF Cons.prems(1)] 1 show ?thesis by auto
    next
      case (Inr u)
      with prune_ok [OF Cons.prems(1)] 1 have
        "inv s1 \<and> outs s1 = outs (nw_store w) \<and> devs s1 =
          map (\<lambda>x. if dv_PushToken x = dv_PushToken v then x\<lparr>dv_Active := False\<rparr> else x) (devs (nw_store w))"
        by blast
      with True reported_Cons(2) show ?thesis by (auto simp: same_devices_def)
    qed
    have "push_devices d msg vs ?w1 = (t, w')"
      using Cons.prems(2) p True 1 assms(1) by simp
    from Cons.IH [OF _ this] s1 have IH: "inv (nw_store w')" "outs (nw_store w') = outs (nw_store w)"
      "t \<longleftrightarrow> Some PushFailed \<in> set ?as" "same_devices (reported vs ?as) (devs s1) (devs (nw_store w'))"
      by auto
    have "same_devices (reported (v # vs) (e # ?as)) (devs s1) (devs (nw_store w'))"
      by (rule same_devices_mono [OF IH(4)]) (rule reported_Cons(1))
    from same_devices_trans [OF _ this] s1
    have "same_devices (reported (v # vs) (e # ?as)) (devs (nw_store w)) (devs (nw_store w'))"
      by (simp add: reported_active)
    with IH True show ?thesis unfolding as by simp
  next
    case False
    let ?w1 = "w\<lparr>nw_push := m\<rparr>"
    obtain t1 w2 where 2: "push_devices d msg vs ?w1 = (t1, w2)" by fastforce
    have e: "w' = w2 \<and> (t \<longleftrightarrow> t1 \<or> e = Some PushFailed)"
      using Cons.prems(2) p False 2 by (cases e rule: option.exhaust; cases "the e") auto
    from Cons.IH [OF _ 2] Cons.prems(1) have IH: "inv (nw_store w2)" "outs (nw_store w2) = outs (nw_store w)"
      "t1 \<longleftrightarrow> Some PushFailed \<in> set ?as" "same_devices (reported vs ?as) (devs (nw_store w)) (devs (nw_store w2))"
      by auto
    have "same_devices (reported (v # vs) (e # ?as)) (devs (nw_store w)) (devs (nw_store w2))"
      by (rule same_devices_mono [OF IH(4)]) (rule reported_Cons(1))
    with IH e show ?thesis unfolding as by auto
  qed
qed

end

text \<open>How a row may be finalized.\<close>

definition row_sent :: "time \<Rightarrow> outbox \<Rightarrow> outbox" where
  "row_sent now r = r\<lparr>ob_Status := OutSent, ob_SentAt := Some (pg_time now)\<rparr>"

definition row_retry :: "dispatcher_config \<Rightarrow> time \<Rightarrow> outbox \<Rightarrow> outbox \<Rightarrow> outbox" where
  "row_retry c now x r =
     (if dc_MaxAttempts c \<le> ob_Attempts x + 1 then r\<lparr>ob_Status := OutFailed\<rparr>
      else r\<lparr>ob_Status := OutPending, ob_Attempts := ob_Attempts x + 1,
             ob_NextAttemptAt := pg_time (now + backoff c (ob_Attempts x + 1))\<rparr>)"

definition message_of :: "outbox \<Rightarrow> push_message" where
  "message_of x = \<lparr>pm_Type = ob_Type x, pm_Payload = ob_Payload x\<rparr>"

definition targets :: "outbox \<Rightarrow> device list \<Rightarrow> device list" where
  "targets x = filter (\<lambda>v. dv_UserID v = ob_UserID x \<and> dv_Active v)"

context outbox_store begin

lemma retry_effect:
  assumes "dp_store d = store" and "inv (nw_store w)" and "outs (nw_store w) (ob_ID x) \<noteq> None"
    and "dispatch_retry d now x w = (r, w')"
  shows "inv (nw_store w') \<and> devs (nw_store w') = devs (nw_store w) \<and> nw_push w' = nw_push w \<and>
    (r = Inl () \<and> outs (nw_store w') = outs (nw_store w) \<or>
     r = Inr () \<and> outs (nw_store w') = upd_row (ob_ID x) (row_retry (dp_cfg d) now x) (outs (nw_store w)))"
proof (cases "dc_MaxAttempts (dp_cfg d) \<le> ob_Attempts x + 1")
  case True
  obtain a s1 where 1: "ns_MarkFailed store (ob_ID x) (nw_store w) = (a, s1)" by fastforce
  with True assms(1,4) have "r = a \<and> w' = w\<lparr>nw_store := s1\<rparr>" by (simp add: dispatch_retry_def)
  moreover have "row_retry (dp_cfg d) now x = (\<lambda>r. r\<lparr>ob_Status := OutFailed\<rparr>)"
    using True by (simp add: row_retry_def fun_eq_iff)
  ultimately show ?thesis using failed_ok [OF assms(2,3)] failed_err [OF assms(2)] 1 by (cases a) auto
next
  case False
  obtain a s1 where 1: "ns_Reschedule store (ob_ID x) (ob_Attempts x + 1)
      (now + backoff (dp_cfg d) (ob_Attempts x + 1)) (nw_store w) = (a, s1)" by fastforce
  with False assms(1,4) have "r = a \<and> w' = w\<lparr>nw_store := s1\<rparr>" by (simp add: dispatch_retry_def Let_def)
  moreover have "row_retry (dp_cfg d) now x = (\<lambda>r. r\<lparr>ob_Status := OutPending, ob_Attempts := ob_Attempts x + 1,
      ob_NextAttemptAt := pg_time (now + backoff (dp_cfg d) (ob_Attempts x + 1))\<rparr>)"
    using False by (simp add: row_retry_def fun_eq_iff)
  ultimately show ?thesis using retry_ok [OF assms(2,3)] retry_err [OF assms(2)] 1 by (cases a) auto
qed

lemma dispatch_effect:
  assumes "dp_store d = store" and "inv (nw_store w)" and "outs (nw_store w) (ob_ID x) \<noteq> None"
    and "dispatch d now x w = (r, w')"
  shows "inv (nw_store w') \<and>
    (let vs = targets x (devs (nw_store w)); as = push_answers (dp_pusher d) (message_of x) vs (nw_push w) in
     same_devices (reported vs as) (devs (nw_store w)) (devs (nw_store w')) \<and>
     (r = Inl () \<and> outs (nw_store w') = outs (nw_store w) \<or>
      r = Inr () \<and> (Some PushFailed \<notin> set as \<and>
        outs (nw_store w') = upd_row (ob_ID x) (row_sent now) (outs (nw_store w)) \<or>
       outs (nw_store w') = upd_row (ob_ID x) (row_retry (dp_cfg d) now x) (outs (nw_store w)))))"
proof -
  let ?vs = "targets x (devs (nw_store w))"
  let ?as = "push_answers (dp_pusher d) (message_of x) ?vs (nw_push w)"
  obtain a s1 where 1: "ns_ActiveDevicesForUser store (ob_UserID x) (nw_store w) = (a, s1)" by fastforce
  show ?thesis
  proof (cases a)
    case (Inl e)
    note s1 = active_err [OF assms(2) 1 [unfolded Inl]]
    have e: "dispatch_retry d now x (w\<lparr>nw_store := s1\<rparr>) = (r, w')"
      using assms(1,4) 1 Inl by (simp add: dispatch_def)
    have "inv (nw_store (w\<lparr>nw_store := s1\<rparr>))" "outs (nw_store (w\<lparr>nw_store := s1\<rparr>)) (ob_ID x) \<noteq> None"
      using s1 assms(3) by simp_all
    from retry_effect [OF assms(1) this e] s1 show ?thesis by (auto simp: Let_def)
  next
    case (Inr ds)
    note s1 = active_ok [OF assms(2) 1 [unfolded Inr]]
    then have ds: "ds = ?vs" by (simp add: targets_def)
    let ?w1 = "w\<lparr>nw_store := s1\<rparr>"
    obtain t w2 where 2: "push_devices d (message_of x) ds ?w1 = (t, w2)" by fastforce
    have "inv (nw_store ?w1)" using s1 by simp
    note p = push_devices_effect [OF assms(1) this 2]
    have w2: "inv (nw_store w2)" "outs (nw_store w2) = outs (nw_store w)"
      "t \<longleftrightarrow> Some PushFailed \<in> set ?as" "same_devices (reported ?vs ?as) (devs (nw_store w)) (devs (nw_store w2))"
      using p s1 ds by simp_all
    show ?thesis
    proof (cases t)
      case True
      then have e: "dispatch_retry d now x w2 = (r, w')"
        using assms(1,4) 1 Inr 2 by (simp add: dispatch_def message_of_def)
      have "outs (nw_store w2) (ob_ID x) \<noteq> None" using assms(3) w2(2) by simp
      from retry_effect [OF assms(1) w2(1) this e] w2 show ?thesis by (auto simp: Let_def)
    next
      case False
      obtain u s3 where 3: "ns_MarkSent store (ob_ID x) now (nw_store w2) = (u, s3)" by fastforce
      have e: "r = u \<and> w' = w2\<lparr>nw_store := s3\<rparr>"
        using assms(1,4) 1 Inr 2 False 3 by (simp add: dispatch_def message_of_def)
      have "outs (nw_store w2) (ob_ID x) \<noteq> None" using assms(3) w2(2) by simp
      from sent_ok [OF w2(1) this] sent_err [OF w2(1)] 3 e w2 False show ?thesis
        by (cases u) (auto simp: Let_def row_sent_def [abs_def])
    qed
  qed
qed

end

context outbox_store begin

lemma rows_inv:
  assumes "dp_store d = store" and "inv (nw_store w)"
    and "\<forall>x \<in> set xs. outs (nw_store w) (ob_ID x) \<noteq> None"
  shows "inv (nw_store (dispatch_rows d now xs w))"
  using assms(2,3)
proof (induction xs arbitrary: w now)
  case Nil
  then show ?case by simp
next
  case (Cons x xs)
  obtain r w1 where 1: "dispatch d (now 0) x w = (r, w1)" by fastforce
  have "outs (nw_store w) (ob_ID x) \<noteq> None" using Cons.prems(2) by simp
  note e = dispatch_effect [OF assms(1) Cons.prems(1) this 1]
  have keep: "outs (nw_store w1) j \<noteq> None" if "outs (nw_store w) j \<noteq> None" for j
    using e that by (auto simp: Let_def upd_row_def)
  have "inv (nw_store w1)" using e by blast
  moreover have "\<forall>y \<in> set xs. outs (nw_store w1) (ob_ID y) \<noteq> None" using Cons.prems(2) keep by auto
  ultimately show ?case using Cons.IH 1 by simp
qed

lemma sweep_inv:
  assumes "dp_store d = store" and "inv (nw_store w)" and "RunOnce d t now w = (c, w')"
  shows "inv (nw_store w')"
proof -
  obtain a s1 where 1: "ns_ClaimPending store t (dc_Lease (dp_cfg d)) (dc_Batch (dp_cfg d)) (nw_store w) = (a, s1)"
    by fastforce
  show ?thesis
  proof (cases a)
    case (Inl e)
    with claim_err [OF assms(2)] 1 assms(1,3) show ?thesis by (auto simp: RunOnce_def)
  next
    case (Inr xs)
    note cl = claim_ok [OF assms(2) 1 [unfolded Inr]]
    have "\<forall>x \<in> set xs. outs s1 (ob_ID x) \<noteq> None" using cl by fastforce
    with cl rows_inv [OF assms(1), of "w\<lparr>nw_store := s1\<rparr>" xs now] show ?thesis
      using assms(1,3) 1 Inr by (simp add: RunOnce_def)
  qed
qed

lemma run_inv:
  "dp_store d = store \<Longrightarrow> inv (nw_store w) \<Longrightarrow> inv (nw_store (dispatcher_Run d ts w))"
proof (induction ts arbitrary: w)
  case Nil
  then show ?case by simp
next
  case (Cons c ts)
  obtain t now where c: "c = (t, now)" by fastforce
  obtain x w1 where 1: "RunOnce d t now w = (x, w1)" by fastforce
  from sweep_inv [OF Cons.prems 1] Cons show ?case by (simp add: c 1)
qed

end

text \<open>A store none of whose statements fails, and a claim that leaves no due row out.\<close>

locale healthy_outbox = outbox_store +
  fixes ok :: "'a \<Rightarrow> bool"
  assumes ok_claim: "ok s \<Longrightarrow> inv s \<Longrightarrow> 0 \<le> limit \<Longrightarrow> ns_ClaimPending store now lease limit s = (r, s') \<Longrightarrow>
      ok s' \<and> (\<exists>xs. r = Inr xs \<and>
        (int (card {i. \<exists>q. outs s i = Some q \<and> ob_Status q = OutPending}) \<le> limit \<longrightarrow>
         (\<forall>i q. outs s i = Some q \<and> ob_Status q = OutPending \<and> ob_NextAttemptAt q \<le> pg_time now \<longrightarrow>
            i \<in> ob_ID ` set xs)))"
    and ok_active: "ok s \<Longrightarrow> ns_ActiveDevicesForUser store usr s = (a, s') \<Longrightarrow> ok s'"
    and ok_prune: "ok s \<Longrightarrow> ns_DeactivateDeviceByToken store k s = (u, s') \<Longrightarrow> ok s'"
    and ok_sent: "ok s \<Longrightarrow> inv s \<Longrightarrow> outs s i \<noteq> None \<Longrightarrow> ns_MarkSent store i t s = (u, s') \<Longrightarrow> ok s' \<and> u = Inr ()"
    and ok_retry: "ok s \<Longrightarrow> inv s \<Longrightarrow> outs s i \<noteq> None \<Longrightarrow> ns_Reschedule store i n t s = (u, s') \<Longrightarrow>
      ok s' \<and> u = Inr ()"
    and ok_failed: "ok s \<Longrightarrow> inv s \<Longrightarrow> outs s i \<noteq> None \<Longrightarrow> ns_MarkFailed store i s = (u, s') \<Longrightarrow>
      ok s' \<and> u = Inr ()"
    and finite_outs: "inv s \<Longrightarrow> finite {i. outs s i \<noteq> None}"
begin

lemma ok_push_devices:
  "dp_store d = store \<Longrightarrow> ok (nw_store w) \<Longrightarrow> push_devices d msg vs w = (t, w') \<Longrightarrow> ok (nw_store w')"
proof (induction vs arbitrary: w t w')
  case Nil
  then show ?case by simp
next
  case (Cons v vs)
  obtain e m where p: "dp_pusher d v msg (nw_push w) = (e, m)" by fastforce
  obtain u s1 where 1: "ns_DeactivateDeviceByToken store (dv_PushToken v) (nw_store w) = (u, s1)" by fastforce
  have s1: "ok s1" by (rule ok_prune [OF Cons.prems(2) 1])
  show ?case
  proof (cases "e = Some ErrInvalidToken")
    case True
    then have "push_devices d msg vs (w\<lparr>nw_push := m, nw_store := s1\<rparr>) = (t, w')"
      using Cons.prems(1,3) p 1 by simp
    from Cons.IH [OF Cons.prems(1) _ this] s1 show ?thesis by simp
  next
    case False
    obtain t1 w2 where 2: "push_devices d msg vs (w\<lparr>nw_push := m\<rparr>) = (t1, w2)" by fastforce
    have "w' = w2" using Cons.prems(3) p False 2 by (cases e rule: option.exhaust; cases "the e") auto
    with Cons.IH [OF Cons.prems(1) _ 2] Cons.prems(2) show ?thesis by simp
  qed
qed

lemma ok_dispatch:
  assumes "dp_store d = store" and "ok (nw_store w)" and "inv (nw_store w)"
    and "outs (nw_store w) (ob_ID x) \<noteq> None" and "dispatch d now x w = (r, w')"
  shows "ok (nw_store w') \<and> r = Inr ()"
proof -
  have ret: "ok (nw_store w'') \<and> q = Inr ()"
    if "ok (nw_store v)" "inv (nw_store v)" "outs (nw_store v) (ob_ID x) \<noteq> None" "dispatch_retry d now x v = (q, w'')"
    for v q w''
    using that(4) assms(1) ok_failed [OF that(1-3)] ok_retry [OF that(1-3)]
    by (auto simp: dispatch_retry_def Let_def split: prod.splits if_splits)
  obtain a s1 where 1: "ns_ActiveDevicesForUser store (ob_UserID x) (nw_store w) = (a, s1)" by fastforce
  have s1: "ok s1" "inv s1" "outs s1 = outs (nw_store w)"
    using ok_active [OF assms(2) 1] active_ok [OF assms(3)] active_err [OF assms(3)] 1 by (cases a; auto)+
  let ?w1 = "w\<lparr>nw_store := s1\<rparr>"
  show ?thesis
  proof (cases a)
    case (Inl e)
    then have "dispatch_retry d now x ?w1 = (r, w')" using assms(1,5) 1 by (simp add: dispatch_def)
    from ret [OF _ _ _ this] s1 assms(4) show ?thesis by simp
  next
    case (Inr ds)
    obtain t w2 where 2: "push_devices d (message_of x) ds ?w1 = (t, w2)" by fastforce
    have o2: "ok (nw_store w2)" by (rule ok_push_devices [OF assms(1) _ 2]) (simp add: s1)
    have i2: "inv (nw_store w2) \<and> outs (nw_store w2) = outs (nw_store w)"
      using push_devices_effect [OF assms(1) _ 2] s1 by simp
    show ?thesis
    proof (cases t)
      case True
      then have "dispatch_retry d now x w2 = (r, w')"
        using assms(1,5) 1 Inr 2 by (simp add: dispatch_def message_of_def)
      from ret [OF o2 _ _ this] i2 assms(4) show ?thesis by simp
    next
      case False
      obtain u s3 where 3: "ns_MarkSent store (ob_ID x) now (nw_store w2) = (u, s3)" by fastforce
      have e: "r = u \<and> w' = w2\<lparr>nw_store := s3\<rparr>"
        using assms(1,5) 1 Inr 2 False 3 by (simp add: dispatch_def message_of_def)
      with ok_sent [OF o2 _ _ 3] i2 assms(4) show ?thesis by simp
    qed
  qed
qed

end

definition pending_at :: "(string \<Rightarrow> outbox option) \<Rightarrow> string \<Rightarrow> outbox \<Rightarrow> bool" where
  "pending_at m i r \<longleftrightarrow> m i = Some r \<and> ob_Status r = OutPending"

lemma backoff_nonneg:
  assumes "0 \<le> dc_BaseBackoff c" and "dc_BaseBackoff c * 2 ^ 16 < 2 ^ 63"
  shows "0 \<le> backoff c a"
proof -
  define n where "n = nat (if 17 < (if a < 1 then 1 else a) then 16 else (if a < 1 then 1 else a) - 1)"
  have n: "backoff c a = wrap64 (dc_BaseBackoff c * 2 ^ n)" by (simp add: backoff_def Let_def n_def)
  have n16: "n \<le> 16" unfolding n_def by (simp split: if_split) linarith
  have le: "dc_BaseBackoff c * 2 ^ n \<le> dc_BaseBackoff c * 2 ^ 16"
    using n16 assms(1) by (intro mult_left_mono power_increasing) simp_all
  have pos: "0 \<le> dc_BaseBackoff c * 2 ^ n" using assms(1) by simp
  with le assms(2) have "wrap64 (dc_BaseBackoff c * 2 ^ n) = dc_BaseBackoff c * 2 ^ n"
    by (intro wrap64_id) linarith+
  with n pos show ?thesis by simp
qed

lemma pg_time_mono: "a \<le> b \<Longrightarrow> pg_time a \<le> pg_time b"
  unfolding pg_time_def by (intro mult_right_mono zdiv_mono1) simp_all

text \<open>Sweeps follow one another within \<open>G\<close>: a tick comes after the rows of the sweep before.\<close>

fun paced :: "duration \<Rightarrow> (time \<times> (nat \<Rightarrow> time)) list \<Rightarrow> bool" where
  "paced G ((t, now) # (t', now') # ts) \<longleftrightarrow>
     (\<forall>k. now k \<le> t') \<and> t' \<le> t + G \<and> paced G ((t', now') # ts)"
| "paced G ts \<longleftrightarrow> True"

lemma paced_map:
  assumes "\<And>i k. snd (f i) k \<le> fst (f (Suc i))" and "\<And>i. fst (f (Suc i)) \<le> fst (f i) + G"
  shows "paced G (map f [m..<m + n])"
proof (induction n arbitrary: m)
  case (Suc n)
  have l: "[m..<m + Suc n] = m # [Suc m..<Suc m + n]" by (simp add: upt_rec)
  show ?case
  proof (cases n)
    case 0
    then show ?thesis by (cases "f m") simp
  next
    case (Suc j)
    then have r: "[Suc m..<Suc m + n] = Suc m # [Suc (Suc m)..<Suc m + n]" by (simp add: upt_rec)
    obtain t now t' now' where f: "f m = (t, now)" "f (Suc m) = (t', now')" by fastforce
    have "paced G (map f (Suc m # [Suc (Suc m)..<Suc m + n]))" using Suc.IH [of "Suc m"] unfolding r .
    then show ?thesis unfolding l r using assms(1) [of m] assms(2) [of m] by (simp add: f)
  qed
qed simp

text \<open>The time within which a notification that was tried \<open>a\<close> times is tried for the last time: a retry is
  due after its backoff, and waits for the end of its sweep and for the next one.\<close>

definition retries_left :: "dispatcher_config \<Rightarrow> duration \<Rightarrow> int \<Rightarrow> duration" where
  "retries_left c G a = sum_list (map (\<lambda>j. backoff c j + 2 * G) [a + 1..dc_MaxAttempts c - 1])"

definition settle_by :: "dispatcher_config \<Rightarrow> duration \<Rightarrow> time \<Rightarrow> time" where
  "settle_by c G start = start + G + retries_left c G 0"

lemma retries_left_step: "a + 1 < dc_MaxAttempts c \<Longrightarrow>
    retries_left c G a = backoff c (a + 1) + 2 * G + retries_left c G (a + 1)"
  by (simp add: retries_left_def upto_rec1)

lemma retries_left_nonneg:
  assumes "0 \<le> dc_BaseBackoff c" and "dc_BaseBackoff c * 2 ^ 16 < 2 ^ 63" and "0 \<le> G"
  shows "0 \<le> retries_left c G a"
  unfolding retries_left_def
  by (rule sum_list_nonneg) (use backoff_nonneg [OF assms(1,2)] assms(3) in auto)

lemma retries_left_mono:
  assumes "0 \<le> dc_BaseBackoff c" and "dc_BaseBackoff c * 2 ^ 16 < 2 ^ 63" and "0 \<le> G" and "0 \<le> a"
  shows "retries_left c G a \<le> retries_left c G 0"
proof -
  have "retries_left c G (int n) \<le> retries_left c G 0" for n
  proof (induction n)
    case (Suc n)
    have "retries_left c G (int n + 1) \<le> retries_left c G (int n)"
    proof (cases "int n + 1 < dc_MaxAttempts c")
      case True
      then show ?thesis using retries_left_step [OF True, of G] backoff_nonneg [OF assms(1,2), of "int n + 1"] assms(3) by simp
    next
      case False
      then show ?thesis by (simp add: retries_left_def)
    qed
    with Suc show ?case by (simp add: add.commute)
  qed simp
  from this [of "nat a"] show ?thesis using assms(4) by simp
qed

text \<open>A row that can still be tried in time: when the sweep at \<open>t\<close> comes, it is due, or will be due soon enough.\<close>

definition in_time :: "dispatcher_config \<Rightarrow> duration \<Rightarrow> time \<Rightarrow> time \<Rightarrow> outbox \<Rightarrow> bool" where
  "in_time c G D t r \<longleftrightarrow>
     (\<exists>e. ob_NextAttemptAt r \<le> pg_time e \<and> t \<le> e + G \<and> e + G + retries_left c G (ob_Attempts r) \<le> D)"

context healthy_outbox begin

lemma rows_effect:
  assumes "dp_store d = store" and "ok (nw_store w)" and "inv (nw_store w)"
    and "distinct (map ob_ID xs)" and "\<forall>x \<in> set xs. outs (nw_store w) (ob_ID x) = Some x"
  shows "ok (nw_store (dispatch_rows d now xs w)) \<and> inv (nw_store (dispatch_rows d now xs w)) \<and>
    (\<forall>i. i \<notin> ob_ID ` set xs \<longrightarrow> outs (nw_store (dispatch_rows d now xs w)) i = outs (nw_store w) i) \<and>
    (\<forall>x \<in> set xs. \<exists>k. outs (nw_store (dispatch_rows d now xs w)) (ob_ID x) = Some (row_sent (now k) x) \<or>
       outs (nw_store (dispatch_rows d now xs w)) (ob_ID x) = Some (row_retry (dp_cfg d) (now k) x x))"
  using assms(2-5)
proof (induction xs arbitrary: w now)
  case Nil
  then show ?case by simp
next
  case (Cons x xs)
  obtain r w1 where 1: "dispatch d (now 0) x w = (r, w1)" by fastforce
  have ne: "outs (nw_store w) (ob_ID x) \<noteq> None" using Cons.prems(4) by simp
  note o1 = ok_dispatch [OF assms(1) Cons.prems(1,2) ne 1]
  note e1 = dispatch_effect [OF assms(1) Cons.prems(2) ne 1]
  let ?o = "outs (nw_store w)" and ?o1 = "outs (nw_store w1)"
  have x: "?o (ob_ID x) = Some x" using Cons.prems(4) by simp
  have "?o1 = upd_row (ob_ID x) (row_sent (now 0)) ?o \<or> ?o1 = upd_row (ob_ID x) (row_retry (dp_cfg d) (now 0) x) ?o"
    using e1 o1 unfolding Let_def by blast
  then obtain g where g: "?o1 = upd_row (ob_ID x) g ?o" "g = row_sent (now 0) \<or> g = row_retry (dp_cfg d) (now 0) x"
    by blast
  have nx: "ob_ID x \<notin> ob_ID ` set xs" using Cons.prems(3) by auto
  have rest: "\<forall>y \<in> set xs. ?o1 (ob_ID y) = Some y"
  proof
    fix y assume y: "y \<in> set xs"
    then have "ob_ID y \<in> ob_ID ` set xs" by (rule imageI)
    with nx have "ob_ID y \<noteq> ob_ID x" by metis
    moreover have "?o (ob_ID y) = Some y" using bspec [OF Cons.prems(4), of y] y by simp
    ultimately show "?o1 (ob_ID y) = Some y" by (simp add: g(1) upd_row_def)
  qed
  have "ok (nw_store w1)" "inv (nw_store w1)" "distinct (map ob_ID xs)"
    using o1 e1 Cons.prems(3) by (simp_all add: Let_def)
  note IH = Cons.IH [OF this rest, of "\<lambda>k. now (Suc k)"]
  let ?w2 = "dispatch_rows d (\<lambda>k. now (Suc k)) xs w1"
  have w2: "dispatch_rows d now (x # xs) w = ?w2" by (simp add: 1)
  have "outs (nw_store ?w2) (ob_ID x) = ?o1 (ob_ID x)" using IH nx by blast
  also have "\<dots> = Some (g x)" using x by (simp add: g(1) upd_row_def)
  finally have hd: "outs (nw_store ?w2) (ob_ID x) = Some (g x)" .
  have frame: "outs (nw_store ?w2) i = ?o i" if "i \<notin> ob_ID ` set (x # xs)" for i
    using that IH by (simp add: g(1) upd_row_def)
  have "\<exists>k. outs (nw_store ?w2) (ob_ID y) = Some (row_sent (now k) y) \<or>
      outs (nw_store ?w2) (ob_ID y) = Some (row_retry (dp_cfg d) (now k) y y)" if "y \<in> set (x # xs)" for y
  proof (cases "y = x")
    case True
    with hd g(2) show ?thesis by (intro exI [of _ 0]) auto
  next
    case False
    with that IH show ?thesis by auto
  qed
  with frame IH show ?case unfolding w2 by blast
qed

lemma sweep_effect:
  assumes "dp_store d = store" and "ok (nw_store w)" and "inv (nw_store w)" and "0 \<le> dc_Batch (dp_cfg d)"
    and "int (card {i. \<exists>r. pending_at (outs (nw_store w)) i r}) \<le> dc_Batch (dp_cfg d)"
    and "RunOnce d t now w = (c, w')"
  shows "ok (nw_store w') \<and> inv (nw_store w') \<and>
    (\<forall>i r. outs (nw_store w) i = Some r \<longrightarrow> ob_Status r \<noteq> OutPending \<longrightarrow> outs (nw_store w') i = Some r) \<and>
    (\<forall>i r'. pending_at (outs (nw_store w')) i r' \<longrightarrow>
       pending_at (outs (nw_store w)) i r' \<and> \<not> ob_NextAttemptAt r' \<le> pg_time t \<or>
       (\<exists>r k. pending_at (outs (nw_store w)) i r \<and> ob_Attempts r' = ob_Attempts r + 1 \<and>
          ob_Attempts r' < dc_MaxAttempts (dp_cfg d) \<and>
          ob_NextAttemptAt r' = pg_time (now k + backoff (dp_cfg d) (ob_Attempts r'))))"
proof -
  let ?o = "outs (nw_store w)"
  obtain a s1 where 1: "ns_ClaimPending store t (dc_Lease (dp_cfg d)) (dc_Batch (dp_cfg d)) (nw_store w) = (a, s1)"
    by fastforce
  from ok_claim [OF assms(2-4) 1] obtain xs where a: "ok s1" "a = Inr xs"
    and all: "\<And>i r. pending_at ?o i r \<Longrightarrow> ob_NextAttemptAt r \<le> pg_time t \<Longrightarrow> i \<in> ob_ID ` set xs"
    using assms(5) unfolding pending_at_def by fastforce
  note cl = claim_ok [OF assms(3) 1 [unfolded a(2)]]
  have lease: "outs s1 (ob_ID x) = Some x \<and> (\<exists>r. pending_at ?o (ob_ID x) r \<and> ob_Attempts x = ob_Attempts r)"
    if x: "x \<in> set xs" for x
  proof -
    from cl x obtain r where r: "?o (ob_ID x) = Some r" "ob_Status r = OutPending"
      "x = r\<lparr>ob_NextAttemptAt := pg_time (t + dc_Lease (dp_cfg d))\<rparr>" by blast
    have "outs s1 (ob_ID x) = map_option (\<lambda>r. r\<lparr>ob_NextAttemptAt := pg_time (t + dc_Lease (dp_cfg d))\<rparr>) (?o (ob_ID x))"
      using cl x by simp
    with r show ?thesis by (simp add: pending_at_def)
  qed
  let ?w1 = "w\<lparr>nw_store := s1\<rparr>"
  have w': "w' = dispatch_rows d now xs ?w1" using assms(1,6) 1 a by (simp add: RunOnce_def)
  have "\<forall>x \<in> set xs. outs (nw_store ?w1) (ob_ID x) = Some x" using lease by simp
  moreover have "ok (nw_store ?w1)" "inv (nw_store ?w1)" "distinct (map ob_ID xs)" using a cl by simp_all
  ultimately have re: "ok (nw_store w') \<and> inv (nw_store w') \<and>
      (\<forall>i. i \<notin> ob_ID ` set xs \<longrightarrow> outs (nw_store w') i = outs s1 i) \<and>
      (\<forall>x \<in> set xs. \<exists>k. outs (nw_store w') (ob_ID x) = Some (row_sent (now k) x) \<or>
         outs (nw_store w') (ob_ID x) = Some (row_retry (dp_cfg d) (now k) x x))"
    using rows_effect [OF assms(1), of ?w1 xs now] unfolding w' by simp
  have "outs (nw_store w') i = Some r" if "?o i = Some r" "ob_Status r \<noteq> OutPending" for i r
  proof -
    have "i \<notin> ob_ID ` set xs"
    proof
      assume "i \<in> ob_ID ` set xs"
      then obtain x where "x \<in> set xs" "i = ob_ID x" by auto
      with lease [of x] that show False by (auto simp: pending_at_def)
    qed
    with re cl that(1) show ?thesis by simp
  qed
  moreover have "pending_at ?o i r' \<and> \<not> ob_NextAttemptAt r' \<le> pg_time t \<or>
      (\<exists>r k. pending_at ?o i r \<and> ob_Attempts r' = ob_Attempts r + 1 \<and>
      ob_Attempts r' < dc_MaxAttempts (dp_cfg d) \<and>
      ob_NextAttemptAt r' = pg_time (now k + backoff (dp_cfg d) (ob_Attempts r')))"
    if p: "pending_at (outs (nw_store w')) i r'" for i r'
  proof (cases "i \<in> ob_ID ` set xs")
    case False
    then have "outs (nw_store w') i = ?o i" using re cl by simp
    with p all [of i r'] False show ?thesis by (auto simp: pending_at_def)
  next
    case True
    then obtain x where x: "x \<in> set xs" "i = ob_ID x" by auto
    with re obtain k where "outs (nw_store w') i = Some (row_sent (now k) x) \<or>
        outs (nw_store w') i = Some (row_retry (dp_cfg d) (now k) x x)" by blast
    with p have "r' = row_retry (dp_cfg d) (now k) x x" "\<not> dc_MaxAttempts (dp_cfg d) \<le> ob_Attempts x + 1"
      by (auto simp: pending_at_def row_sent_def row_retry_def split: if_splits)
    moreover from lease [OF x(1)] obtain r where "pending_at ?o i r" "ob_Attempts x = ob_Attempts r"
      using x(2) by blast
    ultimately show ?thesis by (intro disjI2 exI [of _ r] exI [of _ k]) (simp add: row_retry_def)
  qed
  ultimately show ?thesis using re by blast
qed

lemma run_effect:
  assumes "dp_store d = store" and "0 \<le> dc_Batch (dp_cfg d)"
    and "0 \<le> dc_BaseBackoff (dp_cfg d)" and "dc_BaseBackoff (dp_cfg d) * 2 ^ 16 < 2 ^ 63" and "0 < G"
  shows "ok (nw_store w) \<Longrightarrow> inv (nw_store w) \<Longrightarrow> paced G ts \<Longrightarrow> ts \<noteq> [] \<Longrightarrow> D \<le> fst (last ts) \<Longrightarrow>
    (\<forall>i r. pending_at (outs (nw_store w)) i r \<longrightarrow> in_time (dp_cfg d) G D (fst (hd ts)) r) \<Longrightarrow>
    int (card {i. \<exists>r. pending_at (outs (nw_store w)) i r}) \<le> dc_Batch (dp_cfg d) \<Longrightarrow>
    (\<forall>i r. outs (nw_store w) i = Some r \<longrightarrow> ob_Status r \<noteq> OutPending \<longrightarrow>
       outs (nw_store (dispatcher_Run d ts w)) i = Some r) \<and>
    (\<forall>i r. \<not> pending_at (outs (nw_store (dispatcher_Run d ts w))) i r)"
proof (induction ts arbitrary: w)
  case Nil
  then show ?case by simp
next
  case (Cons c ts)
  obtain t now where c: "c = (t, now)" by fastforce
  obtain x w1 where 1: "RunOnce d t now w = (x, w1)" by fastforce
  let ?o = "outs (nw_store w)" and ?o1 = "outs (nw_store w1)" and ?c = "dp_cfg d"
  note e = sweep_effect [OF assms(1) Cons.prems(1,2) assms(2) Cons.prems(7) 1]
  note nn = retries_left_nonneg [OF assms(3,4) less_imp_le [OF assms(5)]]
  have run: "dispatcher_Run d (c # ts) w = dispatcher_Run d ts w1" by (simp add: c 1)
  have tried: "\<exists>e k. t \<le> e + G \<and> ob_NextAttemptAt r' = pg_time (now k + backoff ?c (ob_Attempts r')) \<and>
      e + G + (backoff ?c (ob_Attempts r') + 2 * G + retries_left ?c G (ob_Attempts r')) \<le> D"
    if r: "pending_at ?o i r" "ob_Attempts r' = ob_Attempts r + 1" "ob_Attempts r' < dc_MaxAttempts ?c"
      "ob_NextAttemptAt r' = pg_time (now k + backoff ?c (ob_Attempts r'))" for i r r' k
  proof -
    have "in_time ?c G D t r" using Cons.prems(6) r(1) by (simp add: c)
    then obtain e where "t \<le> e + G" "e + G + retries_left ?c G (ob_Attempts r) \<le> D" by (auto simp: in_time_def)
    moreover have "retries_left ?c G (ob_Attempts r) =
        backoff ?c (ob_Attempts r') + 2 * G + retries_left ?c G (ob_Attempts r')"
      using retries_left_step [of "ob_Attempts r" ?c G] r(2,3) by simp
    ultimately show ?thesis using r(4) by (intro exI [of _ e] exI [of _ k]) simp
  qed
  have waits: "\<exists>e. ob_NextAttemptAt r \<le> pg_time e \<and> t < e \<and> e + G + retries_left ?c G (ob_Attempts r) \<le> D"
    if r: "pending_at ?o i r" "\<not> ob_NextAttemptAt r \<le> pg_time t" for i r
  proof -
    have "in_time ?c G D t r" using Cons.prems(6) r(1) by (simp add: c)
    then obtain e where e: "ob_NextAttemptAt r \<le> pg_time e" "e + G + retries_left ?c G (ob_Attempts r) \<le> D"
      by (auto simp: in_time_def)
    have "t < e" using pg_time_mono [of e t] e(1) r(2) by (meson leI order_trans)
    with e show ?thesis by blast
  qed
  show ?case
  proof (cases ts)
    case Nil
    have D: "D \<le> t" using Cons.prems(5) by (simp add: Nil c)
    have "\<not> pending_at ?o1 i r'" for i r'
    proof
      assume "pending_at ?o1 i r'"
      with e consider "pending_at ?o i r'" "\<not> ob_NextAttemptAt r' \<le> pg_time t"
        | r k where "pending_at ?o i r" "ob_Attempts r' = ob_Attempts r + 1" "ob_Attempts r' < dc_MaxAttempts ?c"
            "ob_NextAttemptAt r' = pg_time (now k + backoff ?c (ob_Attempts r'))" by blast
      then show False
      proof cases
        case 1
        from waits [OF this] obtain e where "t < e" "e + G + retries_left ?c G (ob_Attempts r') \<le> D" by blast
        with nn [of "ob_Attempts r'"] assms(5) D show False by linarith
      next
        case 2
        from tried [OF this] obtain e where "t \<le> e + G"
          "e + G + (backoff ?c (ob_Attempts r') + 2 * G + retries_left ?c G (ob_Attempts r')) \<le> D" by blast
        with nn [of "ob_Attempts r'"] backoff_nonneg [OF assms(3,4), of "ob_Attempts r'"] assms(5) D show False by linarith
      qed
    qed
    moreover have "dispatcher_Run d (c # ts) w = w1" using run by (simp add: Nil)
    ultimately show ?thesis using e by simp
  next
    case (Cons c' ts')
    obtain t' now' where c': "c' = (t', now')" by fastforce
    have p: "now k \<le> t'" "t' \<le> t + G" "paced G ts" for k using Cons.prems(3) by (simp_all add: c c' Cons)
    have "in_time ?c G D t' r'" if "pending_at ?o1 i r'" for i r'
    proof -
      from that e consider "pending_at ?o i r'" "\<not> ob_NextAttemptAt r' \<le> pg_time t"
        | r k where "pending_at ?o i r" "ob_Attempts r' = ob_Attempts r + 1" "ob_Attempts r' < dc_MaxAttempts ?c"
            "ob_NextAttemptAt r' = pg_time (now k + backoff ?c (ob_Attempts r'))" by blast
      then show ?thesis
      proof cases
        case 1
        from waits [OF this] obtain e where "ob_NextAttemptAt r' \<le> pg_time e" "t < e"
          "e + G + retries_left ?c G (ob_Attempts r') \<le> D" by blast
        moreover from this have "t' \<le> e + G" using p(2) by linarith
        ultimately show ?thesis unfolding in_time_def by blast
      next
        case 2
        from tried [OF this] obtain e k where e: "t \<le> e + G"
          "ob_NextAttemptAt r' = pg_time (now k + backoff ?c (ob_Attempts r'))"
          "e + G + (backoff ?c (ob_Attempts r') + 2 * G + retries_left ?c G (ob_Attempts r')) \<le> D" by blast
        let ?e = "t' + backoff ?c (ob_Attempts r')"
        have "ob_NextAttemptAt r' \<le> pg_time ?e" unfolding e(2) by (rule pg_time_mono) (use p(1) in simp)
        moreover have "t' \<le> ?e + G" using backoff_nonneg [OF assms(3,4), of "ob_Attempts r'"] assms(5) by simp
        moreover have "?e + G + retries_left ?c G (ob_Attempts r') \<le> D" using e(1,3) p(2) by linarith
        ultimately show ?thesis unfolding in_time_def by blast
      qed
    qed
    then have it: "\<forall>i r. pending_at ?o1 i r \<longrightarrow> in_time ?c G D (fst (hd ts)) r" by (simp add: Cons c')
    have was: "\<exists>r. pending_at ?o i r" if "pending_at ?o1 i r'" for i r' using that e by blast
    have "finite {i. \<exists>r. pending_at ?o i r}"
      by (rule finite_subset [OF _ finite_outs [OF Cons.prems(2)]]) (auto simp: pending_at_def)
    then have "card {i. \<exists>r. pending_at ?o1 i r} \<le> card {i. \<exists>r. pending_at ?o i r}"
      by (rule card_mono) (use was in blast)
    with Cons.prems(7) have card: "int (card {i. \<exists>r. pending_at ?o1 i r}) \<le> dc_Batch ?c" by linarith
    have l: "ts \<noteq> []" "D \<le> fst (last ts)" using Cons.prems(5) by (simp_all add: Cons)
    have "ok (nw_store w1)" "inv (nw_store w1)" using e by blast+
    from Cons.IH [OF this p(3) l it card] show ?thesis using e unfolding run by blast
  qed
qed

end

section \<open>The Postgres store without failures\<close>

lemma np_pending_set:
  assumes "np_inv up s"
  shows "{i. \<exists>q. np_outs s i = Some q \<and> ob_Status q = OutPending} =
    ob_ID ` set (filter (\<lambda>r. ob_Status r = OutPending) (np_outbox s))"
  using np_outs_Some [OF assms] by auto

lemma np_pending_card:
  assumes "np_inv up s"
  shows "card {i. \<exists>q. np_outs s i = Some q \<and> ob_Status q = OutPending} =
    length (filter (\<lambda>r. ob_Status r = OutPending) (np_outbox s))"
proof -
  have "distinct (map ob_ID (filter (\<lambda>r. ob_Status r = OutPending) (np_outbox s)))"
    using assms by (simp add: np_inv_def distinct_map_filter)
  then show ?thesis unfolding np_pending_set [OF assms] by (metis distinct_card length_map set_map)
qed

lemma np_tick_ok: "np_faults s = [] \<Longrightarrow> np_tick s = (False, s)"
  by (simp add: np_tick_def)

lemma np_claim_all:
  assumes "np_faults s = []" and "np_inv up s" and "0 \<le> limit" and "np_ClaimPending now lease limit s = (r, s')"
  shows "np_faults s' = [] \<and> (\<exists>xs. r = Inr xs \<and>
    (int (card {i. \<exists>q. np_outs s i = Some q \<and> ob_Status q = OutPending}) \<le> limit \<longrightarrow>
     (\<forall>i q. np_outs s i = Some q \<and> ob_Status q = OutPending \<and> ob_NextAttemptAt q \<le> pg_time now \<longrightarrow>
        i \<in> ob_ID ` set xs)))"
proof -
  define ids where "ids = due_ids now limit (np_outbox s)"
  let ?g = "leased ids (now + lease)"
  have e: "r = Inr (filter (\<lambda>r. ob_ID r \<in> set ids) (map ?g (np_outbox s)))" "np_faults s' = []"
    using assms(1,3,4) by (auto simp: np_ClaimPending_def np_tick_ok ids_def Let_def split: if_splits)
  have "i \<in> ob_ID ` set (filter (\<lambda>r. ob_ID r \<in> set ids) (map ?g (np_outbox s)))"
    if few: "int (card {i. \<exists>q. np_outs s i = Some q \<and> ob_Status q = OutPending}) \<le> limit"
      and q: "np_outs s i = Some q" "ob_Status q = OutPending" "ob_NextAttemptAt q \<le> pg_time now" for i q
  proof -
    let ?due = "filter (\<lambda>r. ob_Status r = OutPending \<and> ob_NextAttemptAt r \<le> pg_time now) (np_outbox s)"
    have "?due = filter (\<lambda>r. ob_NextAttemptAt r \<le> pg_time now) (filter (\<lambda>r. ob_Status r = OutPending) (np_outbox s))"
      by (simp add: conj_commute)
    then have "length ?due \<le> length (filter (\<lambda>r. ob_Status r = OutPending) (np_outbox s))"
      by (metis length_filter_le)
    then have "length ?due \<le> nat limit" using few np_pending_card [OF assms(2)] by simp
    then have "set ids = ob_ID ` set ?due" by (simp add: ids_def due_ids_def)
    then have "i \<in> set ids" using q np_outs_Some [OF assms(2)] by auto
    moreover have gq: "?g q \<in> set (map ?g (np_outbox s))" "ob_ID (?g q) = i"
      using q np_outs_Some [OF assms(2)] by (auto simp: leased_def)
    ultimately have "?g q \<in> set (filter (\<lambda>r. ob_ID r \<in> set ids) (map ?g (np_outbox s)))"
      by (simp only: set_filter mem_Collect_eq)
    with gq(2) show ?thesis by (rule image_eqI [OF sym])
  qed
  note all = this
  show ?thesis
    by (intro conjI exI [of _ "filter (\<lambda>r. ob_ID r \<in> set ids) (map ?g (np_outbox s))"] allI impI)
      (rule e, rule e, (rule all; elim conjE; assumption))
qed

lemma execOne_healthy:
  assumes "np_faults s = []" and "np_inv up s" and "np_outs s i \<noteq> None" and "execOne up i g s = (u, s')"
  shows "np_faults s' = [] \<and> u = Inr ()"
proof -
  obtain r where r: "np_outs s i = Some r" using assms(3) by blast
  then have "up i = Some i" using assms(2) np_outs_Some [OF assms(2)] by (auto simp: np_inv_def)
  with assms(4) r show ?thesis
    unfolding execOne_def np_outs_def by (clarsimp simp: np_tick_ok [OF assms(1)] assms(1))
qed

interpretation nhealthy: healthy_outbox "pg_notify up" np_outs np_devices "np_inv up" "\<lambda>s. np_faults s = []"
proof
  fix s assume iv: "np_inv up s"
  have "{i. np_outs s i \<noteq> None} \<subseteq> ob_ID ` set (np_outbox s)" using np_outs_Some [OF iv] by auto
  then show "finite {i. np_outs s i \<noteq> None}" by (rule finite_subset) simp
qed (unfold pg_notify_def notify_store.simps np_MarkSent_def np_Reschedule_def np_MarkFailed_def,
    (rule np_claim_all execOne_healthy; assumption |
     (auto simp: np_ActiveDevicesForUser_def np_DeactivateDeviceByToken_def np_tick_ok)[1])+)

section \<open>Every notification is settled\<close>

text \<open>C4: While no statement fails, no further events arrive and the pending notifications fit into one
  batch, every one of them is settled in bounded time, whatever the push providers answer: with sweeps at
  most \<open>G\<close> apart, all are sent or failed once a sweep starts at or after \<open>settle_by\<close>, which is the sum of
  the backoffs of a notification that always fails plus \<open>2 * G\<close> for each of them and \<open>G\<close>. Notifications that
  were settled before are unchanged. With the shipped numbers, six tries, 2 s of backoff and a sweep every
  second, that is 73 s.\<close>

theorem outbox_settles:
  assumes "d = NewDispatcher (pg_notify up) p cfg" and "np_inv up (nw_store w)" and "np_faults (nw_store w) = []"
    and "dc_BaseBackoff (dp_cfg d) * 2 ^ 16 < 2 ^ 63"
    and "\<forall>r \<in> set (np_outbox (nw_store w)). ob_Status r = OutPending \<longrightarrow>
      0 \<le> ob_Attempts r \<and> ob_NextAttemptAt r \<le> pg_time start"
    and "int (length (filter (\<lambda>r. ob_Status r = OutPending) (np_outbox (nw_store w)))) \<le> dc_Batch (dp_cfg d)"
    and "0 < G" and "paced G ts" and "ts \<noteq> []" and "fst (hd ts) \<le> start"
    and "settle_by (dp_cfg d) G start \<le> fst (last ts)"
  shows "(\<forall>r \<in> set (np_outbox (nw_store (dispatcher_Run d ts w))). ob_Status r \<noteq> OutPending) \<and>
    (\<forall>r \<in> set (np_outbox (nw_store w)). ob_Status r \<noteq> OutPending \<longrightarrow>
      r \<in> set (np_outbox (nw_store (dispatcher_Run d ts w))))"
proof -
  let ?s = "nw_store w" and ?s' = "nw_store (dispatcher_Run d ts w)"
  have st: "dp_store d = pg_notify up" by (simp add: assms(1) NewDispatcher_def)
  have pos: "0 \<le> dc_Batch (dp_cfg d)" "0 \<le> dc_BaseBackoff (dp_cfg d)"
    by (simp_all add: assms(1) NewDispatcher_def withDefaults_def ns_per_sec_def)
  have card: "int (card {i. \<exists>r. pending_at (np_outs ?s) i r}) \<le> dc_Batch (dp_cfg d)"
    using assms(6) np_pending_card [OF assms(2)] by (simp add: pending_at_def)
  have "in_time (dp_cfg d) G (settle_by (dp_cfg d) G start) (fst (hd ts)) r" if "pending_at (np_outs ?s) i r" for i r
  proof -
    have r: "0 \<le> ob_Attempts r" "ob_NextAttemptAt r \<le> pg_time start"
      using that assms(5) unfolding pending_at_def np_outs_Some [OF assms(2)] by blast+
    have "retries_left (dp_cfg d) G (ob_Attempts r) \<le> retries_left (dp_cfg d) G 0"
      using retries_left_mono [OF pos(2) assms(4) _ r(1)] assms(7) by simp
    with r(2) assms(7,10) show ?thesis unfolding in_time_def settle_by_def by (intro exI [of _ start]) simp
  qed
  then have due: "\<forall>i r. pending_at (np_outs ?s) i r \<longrightarrow>
      in_time (dp_cfg d) G (settle_by (dp_cfg d) G start) (fst (hd ts)) r" by blast
  note run = nhealthy.run_effect [OF st pos assms(4,7,3,2,8,9,11) due card]
  have "np_inv up ?s'"
    using nst.run_inv [OF st assms(2)] by blast
  note out' = np_outs_Some [OF this]
  have "ob_Status r \<noteq> OutPending" if "r \<in> set (np_outbox ?s')" for r
  proof
    assume "ob_Status r = OutPending"
    with that have "pending_at (np_outs ?s') (ob_ID r) r" unfolding pending_at_def out' by blast
    with run show False by blast
  qed
  moreover have "r \<in> set (np_outbox ?s')" if "r \<in> set (np_outbox ?s)" "ob_Status r \<noteq> OutPending" for r
  proof -
    have "np_outs ?s (ob_ID r) = Some r" unfolding np_outs_Some [OF assms(2)] using that(1) by simp
    with conjunct1 [OF run] that(2) have "np_outs ?s' (ob_ID r) = Some r" by blast
    then show ?thesis unfolding out' by simp
  qed
  ultimately show ?thesis by blast
qed

text \<open>A user with two devices, of which one always fails and the other one's token is dead.\<close>

definition ex_device :: "string \<Rightarrow> platform \<Rightarrow> device" where
  "ex_device k p = \<lparr>dv_ID = k, dv_UserID = ''ann'', dv_Platform = p, dv_PushToken = k, dv_AppVersion = [],
     dv_RegisteredAt = 0, dv_LastSeenAt = 0, dv_Active = True\<rparr>"

definition ex_row :: outbox where
  "ex_row = \<lparr>ob_ID = ''o1'', ob_UserID = ''ann'', ob_Type = TypeIdeasReady, ob_Payload = [], ob_DedupeKey = ''k'',
     ob_Status = OutPending, ob_Attempts = 0, ob_NextAttemptAt = 0, ob_CreatedAt = 0, ob_SentAt = None\<rparr>"

definition ex_outbox_world :: "(notify_pg, nat) notify_world" where
  "ex_outbox_world =
     \<lparr>nw_store = \<lparr>np_devices = [ex_device ''a'' PlatformIOS, ex_device ''b'' PlatformAndroid], np_outbox = [ex_row],
        np_uuids = [], np_faults = []\<rparr>, nw_push = 0\<rparr>"

text \<open>The defaults of the dispatcher, and a sweep every second.\<close>

definition ex_dispatcher :: "(notify_pg, nat) dispatcher" where
  "ex_dispatcher = NewDispatcher (pg_notify Some)
     (\<lambda>v _ n. (if dv_Platform v = PlatformIOS then Some PushFailed else Some ErrInvalidToken, Suc n))
     \<lparr>dc_Interval = 0, dc_Lease = 0, dc_Batch = 0, dc_MaxAttempts = 0, dc_BaseBackoff = 0\<rparr>"

definition ex_sweep :: "nat \<Rightarrow> time \<times> (nat \<Rightarrow> time)" where
  "ex_sweep i = (int i * ns_per_sec, \<lambda>_. int i * ns_per_sec + 1000)"

lemma outbox_settles_witness:
  "let s = nw_store (dispatcher_Run ex_dispatcher (map ex_sweep [0..<74]) ex_outbox_world) in
   settle_by (dp_cfg ex_dispatcher) ns_per_sec 0 = 73 * ns_per_sec \<and>
   (\<forall>r \<in> set (np_outbox s). ob_Status r \<noteq> OutPending) \<and> map ob_Status (np_outbox s) = [OutFailed] \<and>
   map dv_Active (np_devices s) = [True, False]"
proof -
  let ?ts = "map ex_sweep [0..<74]"
  have c: "dp_cfg ex_dispatcher = \<lparr>dc_Interval = ns_per_sec, dc_Lease = 30 * ns_per_sec, dc_Batch = 100,
      dc_MaxAttempts = 6, dc_BaseBackoff = 2 * ns_per_sec\<rparr>"
    by (simp add: ex_dispatcher_def NewDispatcher_def withDefaults_def)
  have inv: "np_inv Some (nw_store ex_outbox_world)" by (simp add: np_inv_def ex_outbox_world_def)
  have faults: "np_faults (nw_store ex_outbox_world) = []" by (simp add: ex_outbox_world_def)
  have "paced ns_per_sec (map ex_sweep [0..<0 + 74])"
    by (rule paced_map) (simp_all add: ex_sweep_def ns_per_sec_def algebra_simps)
  then have paced: "paced ns_per_sec ?ts" by simp
  have base: "dc_BaseBackoff (dp_cfg ex_dispatcher) * 2 ^ 16 < 2 ^ 63" by (simp add: c ns_per_sec_def)
  have due: "\<forall>r \<in> set (np_outbox (nw_store ex_outbox_world)). ob_Status r = OutPending \<longrightarrow>
      0 \<le> ob_Attempts r \<and> ob_NextAttemptAt r \<le> pg_time 0"
    by (simp add: ex_outbox_world_def ex_row_def pg_time_def)
  have few: "int (length (filter (\<lambda>r. ob_Status r = OutPending) (np_outbox (nw_store ex_outbox_world)))) \<le>
      dc_Batch (dp_cfg ex_dispatcher)"
    by (simp add: ex_outbox_world_def c)
  have by73: "settle_by (dp_cfg ex_dispatcher) ns_per_sec 0 = 73 * ns_per_sec" by code_simp
  have ends: "?ts \<noteq> []" "fst (hd ?ts) \<le> 0" "settle_by (dp_cfg ex_dispatcher) ns_per_sec 0 \<le> fst (last ?ts)"
    by (simp_all add: by73 ex_sweep_def last_map hd_map)
  have "\<forall>r \<in> set (np_outbox (nw_store (dispatcher_Run ex_dispatcher ?ts ex_outbox_world))).
      ob_Status r \<noteq> OutPending"
    by (rule conjunct1 [OF outbox_settles [OF ex_dispatcher_def inv faults base due few _ paced ends]])
      (simp add: ns_per_sec_def)
  moreover have "map ob_Status (np_outbox (nw_store (dispatcher_Run ex_dispatcher ?ts ex_outbox_world))) = [OutFailed]"
    by code_simp
  moreover have "map dv_Active (np_devices (nw_store (dispatcher_Run ex_dispatcher ?ts ex_outbox_world))) = [True, False]"
    by code_simp
  ultimately show ?thesis using by73 unfolding Let_def by blast
qed

end
