(* ===== verification/Notify_Workers.thy ===== *)
theory Notify_Workers
  imports Notify_Dispatch
begin

text \<open>
  Several workers of the Notification service on one outbox: the claim with its lease
  (\<open>ClaimPending\<close>) and the loop of \<open>RunOnce\<close> over the claimed rows, interleaved with each other, with
  the consumer's inserts and with crashes. A step is one claim or the dispatch of one row.
\<close>

section \<open>The workers\<close>

text \<open>
  \<open>fl_held v\<close> are the rows that worker \<open>v\<close> has claimed and not dispatched yet, as the claim returned
  them, so with the end of the lease in \<open>ob_NextAttemptAt\<close>.
\<close>

record ('s, 'm) fleet =
  fl_world :: "('s, 'm) notify_world"
  fl_held :: "nat \<Rightarrow> outbox list"
  fl_clock :: time

definition fleet_start :: "('s, 'm) notify_world \<Rightarrow> time \<Rightarrow> ('s, 'm) fleet" where
  "fleet_start w t = \<lparr>fl_world = w, fl_held = (\<lambda>_. []), fl_clock = t\<rparr>"

text \<open>With \<open>timely\<close>, a row is only finalized before its lease has ended.\<close>

inductive fleet_step :: "('s, 'm) dispatcher \<Rightarrow> bool \<Rightarrow> ('s, 'm) fleet \<Rightarrow> ('s, 'm) fleet \<Rightarrow> bool"
  for d :: "('s, 'm) dispatcher" and timely :: bool where
  claim: "fl_held f v = [] \<Longrightarrow> fl_clock f \<le> t \<Longrightarrow>
    ns_ClaimPending (dp_store d) t (dc_Lease (dp_cfg d)) (dc_Batch (dp_cfg d)) (nw_store (fl_world f)) = (Inr xs, s) \<Longrightarrow>
    fleet_step d timely f
      (f\<lparr>fl_world := (fl_world f)\<lparr>nw_store := s\<rparr>, fl_held := (fl_held f)(v := xs), fl_clock := t\<rparr>)"
| claim_error: "fl_held f v = [] \<Longrightarrow> fl_clock f \<le> t \<Longrightarrow>
    ns_ClaimPending (dp_store d) t (dc_Lease (dp_cfg d)) (dc_Batch (dp_cfg d)) (nw_store (fl_world f)) = (Inl e, s) \<Longrightarrow>
    fleet_step d timely f (f\<lparr>fl_world := (fl_world f)\<lparr>nw_store := s\<rparr>, fl_clock := t\<rparr>)"
| row: "fl_held f v = x # xs \<Longrightarrow> fl_clock f \<le> t \<Longrightarrow> timely \<longrightarrow> t < ob_NextAttemptAt x \<Longrightarrow>
    dispatch d t x (fl_world f) = (r, w) \<Longrightarrow>
    fleet_step d timely f (f\<lparr>fl_world := w, fl_held := (fl_held f)(v := xs), fl_clock := t\<rparr>)"
| crash: "fleet_step d timely f (f\<lparr>fl_held := (fl_held f)(v := [])\<rparr>)"
| enqueue: "ns_EnqueueOutbox (dp_store d) x (nw_store (fl_world f)) = (r, s) \<Longrightarrow>
    fleet_step d timely f (f\<lparr>fl_world := (fl_world f)\<lparr>nw_store := s\<rparr>\<rparr>)"

abbreviation fleet_run :: "('s, 'm) dispatcher \<Rightarrow> bool \<Rightarrow> ('s, 'm) fleet \<Rightarrow> ('s, 'm) fleet \<Rightarrow> bool" where
  "fleet_run d timely \<equiv> (fleet_step d timely)\<^sup>*\<^sup>*"

text \<open>A held row whose lease has not ended.\<close>

definition holds_lease :: "('s, 'm) fleet \<Rightarrow> nat \<Rightarrow> outbox \<Rightarrow> bool" where
  "holds_lease f v x \<longleftrightarrow> x \<in> set (fl_held f v) \<and> fl_clock f < ob_NextAttemptAt x"

lemma pg_time_le: "pg_time t \<le> t"
  using div_mult_mod_eq [of t 1000] pos_mod_sign [of 1000 t] by (simp add: pg_time_def)

section \<open>The lease excludes other workers\<close>

definition lease_inv :: "('s \<Rightarrow> bool) \<Rightarrow> ('s \<Rightarrow> string \<Rightarrow> outbox option) \<Rightarrow> ('s, 'm) fleet \<Rightarrow> bool" where
  "lease_inv iv outs f \<longleftrightarrow> iv (nw_store (fl_world f)) \<and>
     (\<forall>v. distinct (map ob_ID (fl_held f v))) \<and>
     (\<forall>v x. x \<in> set (fl_held f v) \<longrightarrow> ob_Status x = OutPending \<and> outs (nw_store (fl_world f)) (ob_ID x) \<noteq> None) \<and>
     (\<forall>v x. holds_lease f v x \<longrightarrow> outs (nw_store (fl_world f)) (ob_ID x) = Some x) \<and>
     (\<forall>v x u y. holds_lease f v x \<longrightarrow> holds_lease f u y \<longrightarrow> ob_ID x = ob_ID y \<longrightarrow> v = u)"

text \<open>Settled rows stay as they are.\<close>

definition settled_kept :: "(string \<Rightarrow> outbox option) \<Rightarrow> (string \<Rightarrow> outbox option) \<Rightarrow> bool" where
  "settled_kept m m' \<longleftrightarrow> (\<forall>i r. m i = Some r \<longrightarrow> ob_Status r \<noteq> OutPending \<longrightarrow> m' i = Some r)"

lemma lease_invI:
  assumes "iv (nw_store (fl_world f))" and "\<And>v. distinct (map ob_ID (fl_held f v))"
    and "\<And>v x. x \<in> set (fl_held f v) \<Longrightarrow> ob_Status x = OutPending \<and> outs (nw_store (fl_world f)) (ob_ID x) \<noteq> None"
    and "\<And>v x. holds_lease f v x \<Longrightarrow> outs (nw_store (fl_world f)) (ob_ID x) = Some x"
    and "\<And>v x u y. holds_lease f v x \<Longrightarrow> holds_lease f u y \<Longrightarrow> ob_ID x = ob_ID y \<Longrightarrow> v = u"
  shows "lease_inv iv outs f"
  using assms unfolding lease_inv_def by blast

lemma lease_invD:
  assumes "lease_inv iv outs f"
  shows "iv (nw_store (fl_world f))" and "distinct (map ob_ID (fl_held f v))"
    and "x \<in> set (fl_held f v) \<Longrightarrow> ob_Status x = OutPending \<and> outs (nw_store (fl_world f)) (ob_ID x) \<noteq> None"
    and "holds_lease f v x \<Longrightarrow> outs (nw_store (fl_world f)) (ob_ID x) = Some x"
    and "holds_lease f v x \<Longrightarrow> holds_lease f u y \<Longrightarrow> ob_ID x = ob_ID y \<Longrightarrow> v = u"
  using assms unfolding lease_inv_def by blast+

text \<open>Fewer held rows, a later clock and the same rows in the store keep the invariant.\<close>

lemma lease_inv_less:
  assumes "lease_inv iv outs f" and "iv (nw_store w)" and "fl_clock f \<le> t"
    and "\<And>v. distinct (map ob_ID (h v)) \<and> set (h v) \<subseteq> set (fl_held f v)"
    and "\<And>v x. x \<in> set (h v) \<Longrightarrow> outs (nw_store w) (ob_ID x) \<noteq> None"
    and "\<And>v x. x \<in> set (h v) \<Longrightarrow> holds_lease f v x \<Longrightarrow> outs (nw_store w) (ob_ID x) = outs (nw_store (fl_world f)) (ob_ID x)"
  shows "lease_inv iv outs (f\<lparr>fl_world := w, fl_held := h, fl_clock := t\<rparr>)" (is "lease_inv iv outs ?f")
proof (rule lease_invI)
  have live: "x \<in> set (h v) \<and> holds_lease f v x" if "holds_lease ?f v x" for v x
    using that assms(3,4) by (auto simp: holds_lease_def)
  show "outs (nw_store (fl_world ?f)) (ob_ID x) = Some x" if "holds_lease ?f v x" for v x
    using live [OF that] assms(6) lease_invD(4) [OF assms(1)] by fastforce
  show "v = u" if "holds_lease ?f v x" "holds_lease ?f u y" "ob_ID x = ob_ID y" for v x u y
    using live that lease_invD(5) [OF assms(1)] by blast
  show "ob_Status x = OutPending \<and> outs (nw_store (fl_world ?f)) (ob_ID x) \<noteq> None" if "x \<in> set (fl_held ?f v)" for v x
    using that assms(4,5) lease_invD(3) [OF assms(1)] by fastforce
qed (use assms(2,4) in auto)

context outbox_store begin

lemma lease_claim:
  assumes "lease_inv inv outs f" and "fl_clock f \<le> t" and "fl_held f v = []"
    and "ns_ClaimPending store t lease limit (nw_store (fl_world f)) = (Inr xs, s)"
  shows "lease_inv inv outs (f\<lparr>fl_world := (fl_world f)\<lparr>nw_store := s\<rparr>, fl_held := (fl_held f)(v := xs), fl_clock := t\<rparr>)"
    (is "lease_inv inv outs ?f") and "settled_kept (outs (nw_store (fl_world f))) (outs s)"
proof -
  let ?g = "\<lambda>r. r\<lparr>ob_NextAttemptAt := pg_time (t + lease)\<rparr>"
  note c = claim_ok [OF lease_invD(1) [OF assms(1)] assms(4)]
  have rows: "\<exists>r. outs (nw_store (fl_world f)) (ob_ID x) = Some r \<and> ob_Status r = OutPending \<and>
      ob_NextAttemptAt r \<le> pg_time t \<and> x = ?g r" if "x \<in> set xs" for x
    using c that by blast
  have new: "outs s (ob_ID x) = Some x \<and> ob_Status x = OutPending" if x: "x \<in> set xs" for x
  proof -
    obtain r where r: "outs (nw_store (fl_world f)) (ob_ID x) = Some r" "ob_Status r = OutPending" "x = ?g r"
      using rows [OF x] by blast
    have "outs s (ob_ID x) = map_option ?g (outs (nw_store (fl_world f)) (ob_ID x))" using c x by simp
    with r(1) have "outs s (ob_ID x) = Some (?g r)" by simp
    with r(2,3) show ?thesis by simp
  qed
  have rest: "outs s i = outs (nw_store (fl_world f)) i" if "i \<notin> ob_ID ` set xs" for i
    using c that by simp
  have free: "ob_ID y \<notin> ob_ID ` set xs" if "holds_lease f u y" "t < ob_NextAttemptAt y" for u y
  proof
    assume "ob_ID y \<in> ob_ID ` set xs"
    then obtain x where "x \<in> set xs" "ob_ID y = ob_ID x" by blast
    with rows obtain r where "outs (nw_store (fl_world f)) (ob_ID y) = Some r" "ob_NextAttemptAt r \<le> pg_time t" by metis
    with lease_invD(4) [OF assms(1) that(1)] that(2) pg_time_le [of t] show False by simp
  qed
  have live: "if u = v then y \<in> set xs else holds_lease f u y \<and> ob_ID y \<notin> ob_ID ` set xs" if "holds_lease ?f u y" for u y
    using that free [of u y] assms(2) by (auto simp: holds_lease_def split: if_splits)
  show "lease_inv inv outs ?f"
  proof (rule lease_invI)
    show "distinct (map ob_ID (fl_held ?f u))" for u
      using c lease_invD(2) [OF assms(1)] by simp
    show "outs (nw_store (fl_world ?f)) (ob_ID y) = Some y" if "holds_lease ?f u y" for u y
      using live [OF that] new rest lease_invD(4) [OF assms(1)] by (auto split: if_splits)
    show "ob_Status y = OutPending \<and> outs (nw_store (fl_world ?f)) (ob_ID y) \<noteq> None" if "y \<in> set (fl_held ?f u)" for u y
    proof (cases "u = v")
      case True
      with that new show ?thesis by simp
    next
      case False
      with that have "y \<in> set (fl_held f u)" by simp
      from lease_invD(3) [OF assms(1) this] c show ?thesis by simp
    qed
    show "u = u'" if "holds_lease ?f u y" "holds_lease ?f u' y'" "ob_ID y = ob_ID y'" for u y u' y'
      using live [OF that(1)] live [OF that(2)] that(3) lease_invD(5) [OF assms(1)]
      by (metis image_eqI)
  qed (use c in simp)
  show "settled_kept (outs (nw_store (fl_world f))) (outs s)"
    unfolding settled_kept_def
  proof (intro allI impI)
    fix i r assume r: "outs (nw_store (fl_world f)) i = Some r" "ob_Status r \<noteq> OutPending"
    have "i \<notin> ob_ID ` set xs" using rows r by fastforce
    with r rest show "outs s i = Some r" by simp
  qed
qed

lemma lease_row:
  assumes "dp_store d = store" and "lease_inv inv outs f" and "fl_clock f \<le> t" and "fl_held f v = x # xs"
    and "t < ob_NextAttemptAt x" and "dispatch d t x (fl_world f) = (r, w)"
  shows "lease_inv inv outs (f\<lparr>fl_world := w, fl_held := (fl_held f)(v := xs), fl_clock := t\<rparr>)"
    and "settled_kept (outs (nw_store (fl_world f))) (outs (nw_store w))"
proof -
  let ?o = "outs (nw_store (fl_world f))"
  have live: "holds_lease f v x" using assms(3-5) by (simp add: holds_lease_def)
  have x: "?o (ob_ID x) = Some x" "ob_Status x = OutPending"
    using lease_invD(3) [OF assms(2), of x v] lease_invD(4) [OF assms(2) live] assms(4) by simp_all
  have e: "inv (nw_store w) \<and> (\<exists>g. outs (nw_store w) = upd_row (ob_ID x) g ?o)"
  proof -
    have "outs (nw_store w) = ?o \<Longrightarrow> outs (nw_store w) = upd_row (ob_ID x) (\<lambda>r. r) ?o"
      by (simp add: upd_row_def option.map_ident)
    with dispatch_effect [OF assms(1) lease_invD(1) [OF assms(2)] _ assms(6)] x(1) show ?thesis
      unfolding Let_def by blast
  qed
  then have other: "i \<noteq> ob_ID x \<Longrightarrow> outs (nw_store w) i = ?o i" and dom: "?o i \<noteq> None \<Longrightarrow> outs (nw_store w) i \<noteq> None" for i
    by (auto simp: upd_row_def)
  show "lease_inv inv outs (f\<lparr>fl_world := w, fl_held := (fl_held f)(v := xs), fl_clock := t\<rparr>)"
  proof (rule lease_inv_less [OF assms(2) conjunct1 [OF e] assms(3)])
    show "distinct (map ob_ID (((fl_held f)(v := xs)) u)) \<and> set (((fl_held f)(v := xs)) u) \<subseteq> set (fl_held f u)" for u
      using lease_invD(2) [OF assms(2), of v] lease_invD(2) [OF assms(2), of u] assms(4) by auto
    fix u y assume y: "y \<in> set (((fl_held f)(v := xs)) u)"
    then have "y \<in> set (fl_held f u)" using assms(4) by (auto split: if_splits)
    from lease_invD(3) [OF assms(2) this] show "outs (nw_store w) (ob_ID y) \<noteq> None" using dom by blast
    assume h: "holds_lease f u y"
    have "ob_ID y \<noteq> ob_ID x"
    proof (cases "u = v")
      case True
      with y have "y \<in> set xs" by simp
      with lease_invD(2) [OF assms(2), of v] assms(4) show ?thesis by (auto simp: rev_image_eqI)
    next
      case False
      with lease_invD(5) [OF assms(2) h live] show ?thesis by blast
    qed
    then show "outs (nw_store w) (ob_ID y) = ?o (ob_ID y)" by (rule other)
  qed
  show "settled_kept ?o (outs (nw_store w))"
    unfolding settled_kept_def using other x by (metis option.inject)
qed

lemma fleet_step_inv:
  assumes "fleet_step d True f f'" and "dp_store d = store" and "lease_inv inv outs f"
  shows "lease_inv inv outs f' \<and> settled_kept (outs (nw_store (fl_world f))) (outs (nw_store (fl_world f')))"
  using assms(1)
proof cases
  case (claim v t xs s)
  from lease_claim [OF assms(3) claim(3,2)] claim(4) show ?thesis by (simp add: claim(1) assms(2))
next
  case (claim_error v t e s)
  note c = claim_err [OF lease_invD(1) [OF assms(3)] claim_error(4) [unfolded assms(2)]]
  have "lease_inv inv outs (f\<lparr>fl_world := (fl_world f)\<lparr>nw_store := s\<rparr>, fl_held := fl_held f, fl_clock := t\<rparr>)"
    by (rule lease_inv_less [OF assms(3) _ claim_error(3)])
      (use c lease_invD(2,3) [OF assms(3)] in auto)
  then show ?thesis using c by (simp add: claim_error(1) settled_kept_def)
next
  case (row v x xs t r w)
  from lease_row [OF assms(2,3) row(3,2) _ row(5)] row(4) show ?thesis by (simp add: row(1))
next
  case (crash v)
  have "lease_inv inv outs (f\<lparr>fl_world := fl_world f, fl_held := (fl_held f)(v := []), fl_clock := fl_clock f\<rparr>)"
    by (rule lease_inv_less [OF assms(3)]) (use lease_invD(1-3) [OF assms(3)] in \<open>auto split: if_splits\<close>)
  then show ?thesis by (simp add: crash settled_kept_def)
next
  case (enqueue x r s)
  let ?o = "outs (nw_store (fl_world f))"
  have e: "inv s \<and> (\<forall>i. ?o i \<noteq> None \<longrightarrow> outs s i = ?o i)"
  proof (cases r)
    case (Inl a)
    from enqueue_err [OF lease_invD(1) [OF assms(3)] enqueue(2) [unfolded assms(2) Inl]] show ?thesis by simp
  next
    case (Inr b)
    note q = enqueue(2) [unfolded assms(2) Inr]
    show ?thesis
    proof (cases b)
      case True
      then have "b = True" by simp
      from enqueue_new [OF lease_invD(1) [OF assms(3)] q [unfolded this]] show ?thesis
        by (metis fun_upd_other)
    next
      case False
      then have "b = False" by simp
      from enqueue_dup [OF lease_invD(1) [OF assms(3)] q [unfolded this]] show ?thesis by simp
    qed
  qed
  have "lease_inv inv outs (f\<lparr>fl_world := (fl_world f)\<lparr>nw_store := s\<rparr>, fl_held := fl_held f, fl_clock := fl_clock f\<rparr>)"
    by (rule lease_inv_less [OF assms(3)]) (use e lease_invD(2,3) [OF assms(3)] in auto)
  then show ?thesis using e by (simp add: enqueue(1) settled_kept_def)
qed

lemma fleet_run_inv:
  assumes "fleet_run d True f f'" and "dp_store d = store" and "lease_inv inv outs f"
  shows "lease_inv inv outs f' \<and> settled_kept (outs (nw_store (fl_world f))) (outs (nw_store (fl_world f')))"
  using assms(1)
proof (induction rule: rtranclp_induct)
  case base
  show ?case using assms(3) by (simp add: settled_kept_def)
next
  case (step g h)
  from fleet_step_inv [OF step.hyps(2) assms(2) conjunct1 [OF step.IH]] step.IH
  show ?case unfolding settled_kept_def by blast
qed

lemma lease_start: "inv (nw_store w) \<Longrightarrow> lease_inv inv outs (fleet_start w t)"
  by (rule lease_invI) (auto simp: fleet_start_def holds_lease_def)

end

section \<open>The properties\<close>

text \<open>C5: as long as workers finalize rows before their lease ends, whatever claims, crashes,
  inserts, store failures and push answers are interleaved: two workers never hold an unexpired lease
  of the same row, a row held with a lease is in the store exactly as claimed and pending, and a row
  that was sent or failed never changes again.\<close>

theorem lease_exclusive:
  assumes "dp_store d = pg_notify up" and "np_inv up (nw_store w)"
    and "fleet_run d True (fleet_start w t) f" and "fleet_run d True f f'"
  shows "(\<forall>v x u y. holds_lease f v x \<longrightarrow> holds_lease f u y \<longrightarrow> ob_ID x = ob_ID y \<longrightarrow> v = u \<and> x = y) \<and>
    (\<forall>v x. holds_lease f v x \<longrightarrow> ob_Status x = OutPending \<and> np_outs (nw_store (fl_world f)) (ob_ID x) = Some x) \<and>
    (\<forall>i r. np_outs (nw_store (fl_world f)) i = Some r \<longrightarrow> ob_Status r \<noteq> OutPending \<longrightarrow>
      np_outs (nw_store (fl_world f')) i = Some r)"
proof -
  have 1: "lease_inv (np_inv up) np_outs f"
    using nst.fleet_run_inv [OF assms(3,1) nst.lease_start [OF assms(2)]] by blast
  have 2: "settled_kept (np_outs (nw_store (fl_world f))) (np_outs (nw_store (fl_world f')))"
    using nst.fleet_run_inv [OF assms(4,1) 1] by blast
  have p: "ob_Status x = OutPending \<and> np_outs (nw_store (fl_world f)) (ob_ID x) = Some x"
    if h: "holds_lease f v x" for v x
  proof -
    have "x \<in> set (fl_held f v)" using h by (simp add: holds_lease_def)
    from lease_invD(3) [OF 1 this] lease_invD(4) [OF 1 h] show ?thesis by simp
  qed
  have "v = u \<and> x = y" if "holds_lease f v x" "holds_lease f u y" "ob_ID x = ob_ID y" for v x u y
    using lease_invD(5) [OF 1 that] p [OF that(1)] p [OF that(2)] that(3) by (metis option.inject)
  with p 2 show ?thesis unfolding settled_kept_def by (intro conjI allI impI) simp_all
qed

text \<open>The fleet after worker 0 has claimed the row of the example.\<close>

definition ex_claimed :: outbox where
  "ex_claimed = ex_row\<lparr>ob_NextAttemptAt := 30 * ns_per_sec\<rparr>"

definition ex_fleet :: "(notify_pg, nat) fleet" where
  "ex_fleet =
     \<lparr>fl_world = ex_outbox_world\<lparr>nw_store := (nw_store ex_outbox_world)\<lparr>np_outbox := [ex_claimed]\<rparr>\<rparr>,
      fl_held = (\<lambda>_. [])(0 := [ex_claimed]), fl_clock = 0\<rparr>"

lemma ex_dispatcher_sel [simp]:
  "dp_store ex_dispatcher = pg_notify Some"
  "dp_cfg ex_dispatcher = \<lparr>dc_Interval = ns_per_sec, dc_Lease = 30 * ns_per_sec, dc_Batch = 100,
     dc_MaxAttempts = 6, dc_BaseBackoff = 2 * ns_per_sec\<rparr>"
  by (simp_all add: ex_dispatcher_def NewDispatcher_def withDefaults_def)

lemma ex_claim:
  assumes "dp_store d = dp_store ex_dispatcher" and "dp_cfg d = dp_cfg ex_dispatcher"
  shows "fleet_step d timely (fleet_start ex_outbox_world 0) ex_fleet"
proof -
  have c: "ns_ClaimPending (dp_store d) 0 (dc_Lease (dp_cfg d)) (dc_Batch (dp_cfg d))
      (nw_store (fl_world (fleet_start ex_outbox_world 0))) = (Inr [ex_claimed], (nw_store ex_outbox_world)\<lparr>np_outbox := [ex_claimed]\<rparr>)"
    by (simp add: assms fleet_start_def pg_notify_def np_ClaimPending_def np_tick_def ex_outbox_world_def due_ids_def
        ex_row_def pg_time_def leased_def ex_claimed_def ns_per_sec_def Let_def)
  have "fl_held (fleet_start ex_outbox_world 0) 0 = []" "fl_clock (fleet_start ex_outbox_world 0) \<le> 0"
    by (simp_all add: fleet_start_def)
  from fleet_step.claim [OF this c] show ?thesis by (simp add: fleet_start_def ex_fleet_def)
qed

text \<open>The row is dispatched at second one.\<close>

lemma lease_exclusive_witness:
  "holds_lease ex_fleet 0 ex_claimed \<and> np_outs (nw_store (fl_world ex_fleet)) (ob_ID ex_claimed) = Some ex_claimed"
proof -
  obtain r w where d: "dispatch ex_dispatcher ns_per_sec ex_claimed (fl_world ex_fleet) = (r, w)" by fastforce
  have "fleet_step ex_dispatcher True ex_fleet (ex_fleet\<lparr>fl_world := w, fl_held := (fl_held ex_fleet)(0 := []), fl_clock := ns_per_sec\<rparr>)"
    by (rule fleet_step.row [OF _ _ _ d]) (simp_all add: ex_fleet_def ex_claimed_def ns_per_sec_def)
  note run = r_into_rtranclp [of "fleet_step ex_dispatcher True", OF ex_claim [OF refl refl]] r_into_rtranclp [of "fleet_step ex_dispatcher True", OF this]
  have h: "holds_lease ex_fleet 0 ex_claimed"
    by (simp add: holds_lease_def ex_fleet_def ex_claimed_def ns_per_sec_def)
  have inv: "np_inv Some (nw_store ex_outbox_world)" by (simp add: np_inv_def ex_outbox_world_def)
  from lease_exclusive [OF ex_dispatcher_sel(1) inv run] h show ?thesis by blast
qed

text \<open>Finalizing a row after the lease has ended is not guarded: when another worker has taken
  the row over and sent it, a late worker whose push fails once more sets it back to pending, due
  again, so the notification is sent a second time.\<close>

theorem stale_retry_resends:
  assumes "dp_store d = pg_notify up" and "np_inv up (nw_store (fl_world f))" and "np_faults (nw_store (fl_world f)) = []"
    and "fl_held f v = x # xs" and "fl_clock f \<le> t"
    and "np_outs (nw_store (fl_world f)) (ob_ID x) = Some r" and "ob_Status r = OutSent"
    and "ob_Attempts x + 1 < dc_MaxAttempts (dp_cfg d)"
    and "Some PushFailed \<in> set (push_answers (dp_pusher d) (message_of x)
      (targets x (np_devices (nw_store (fl_world f)))) (nw_push (fl_world f)))"
  shows "\<exists>f'. fleet_step d False f f' \<and> np_outs (nw_store (fl_world f')) (ob_ID x) =
    Some (r\<lparr>ob_Status := OutPending, ob_Attempts := ob_Attempts x + 1,
      ob_NextAttemptAt := pg_time (t + backoff (dp_cfg d) (ob_Attempts x + 1))\<rparr>)"
proof -
  obtain u w where d: "dispatch d t x (fl_world f) = (u, w)" by fastforce
  have x: "np_outs (nw_store (fl_world f)) (ob_ID x) \<noteq> None" using assms(6) by simp
  have "u = Inr ()" using nhealthy.ok_dispatch [OF assms(1,3,2) x d] by blast
  then have "np_outs (nw_store w) = upd_row (ob_ID x) (row_retry (dp_cfg d) t x) (np_outs (nw_store (fl_world f)))"
    using nst.dispatch_effect [OF assms(1,2) x d] assms(9) by (simp add: Let_def)
  moreover have "fleet_step d False f (f\<lparr>fl_world := w, fl_held := (fl_held f)(v := xs), fl_clock := t\<rparr>)"
    by (rule fleet_step.row [OF assms(4,5) _ d]) simp
  ultimately show ?thesis using assms(6,8)
    by (intro exI [of _ "f\<lparr>fl_world := w, fl_held := (fl_held f)(v := xs), fl_clock := t\<rparr>"])
      (simp add: upd_row_def row_retry_def)
qed

text \<open>
  Worker 0 claims the row; after its lease worker 1 claims and sends it; then worker 0 dispatches it
  and the provider fails.
\<close>

definition ex_late :: "(notify_pg, nat) dispatcher" where
  "ex_late = ex_dispatcher\<lparr>dp_pusher := (\<lambda>v _ n. (if n < 2 then None else Some PushFailed, Suc n))\<rparr>"

definition ex_taken :: outbox where
  "ex_taken = ex_row\<lparr>ob_NextAttemptAt := 60 * ns_per_sec\<rparr>"

definition ex_sent :: outbox where
  "ex_sent = ex_taken\<lparr>ob_Status := OutSent, ob_SentAt := Some (31 * ns_per_sec)\<rparr>"

definition ex_fleet2 :: "(notify_pg, nat) fleet" where
  "ex_fleet2 = ex_fleet
     \<lparr>fl_world := ex_outbox_world\<lparr>nw_store := (nw_store ex_outbox_world)\<lparr>np_outbox := [ex_taken]\<rparr>\<rparr>,
      fl_held := (fl_held ex_fleet)(1 := [ex_taken]), fl_clock := 30 * ns_per_sec\<rparr>"

definition ex_fleet3 :: "(notify_pg, nat) fleet" where
  "ex_fleet3 = ex_fleet2
     \<lparr>fl_world := \<lparr>nw_store = (nw_store ex_outbox_world)\<lparr>np_outbox := [ex_sent]\<rparr>, nw_push = 2\<rparr>,
      fl_held := (fl_held ex_fleet2)(1 := []), fl_clock := 31 * ns_per_sec\<rparr>"

lemma ex_late_sel [simp]:
  "dp_store ex_late = pg_notify Some" "dp_cfg ex_late = dp_cfg ex_dispatcher"
  "dp_pusher ex_late = (\<lambda>v _ n. (if n < 2 then None else Some PushFailed, Suc n))"
  by (simp_all add: ex_late_def)

lemma ex_late_run: "fleet_run ex_late False (fleet_start ex_outbox_world 0) ex_fleet3"
proof -
  have c: "ns_ClaimPending (dp_store ex_late) (30 * ns_per_sec) (dc_Lease (dp_cfg ex_late)) (dc_Batch (dp_cfg ex_late))
      (nw_store (fl_world ex_fleet)) = (Inr [ex_taken], (nw_store ex_outbox_world)\<lparr>np_outbox := [ex_taken]\<rparr>)"
    by (simp add: pg_notify_def np_ClaimPending_def np_tick_def ex_outbox_world_def due_ids_def ex_fleet_def
        ex_row_def pg_time_def leased_def ex_claimed_def ex_taken_def ns_per_sec_def Let_def)
  have "fl_held ex_fleet 1 = []" "fl_clock ex_fleet \<le> 30 * ns_per_sec"
    by (simp_all add: ex_fleet_def ns_per_sec_def)
  note 1 = fleet_step.claim [of ex_fleet 1, OF this c, where timely = False]
  have "ex_fleet\<lparr>fl_world := (fl_world ex_fleet)\<lparr>nw_store := (nw_store ex_outbox_world)\<lparr>np_outbox := [ex_taken]\<rparr>\<rparr>,
      fl_held := (fl_held ex_fleet)(1 := [ex_taken]), fl_clock := 30 * ns_per_sec\<rparr> = ex_fleet2"
    by (simp add: ex_fleet2_def ex_fleet_def)
  note 1 = 1 [unfolded this]
  have d: "dispatch ex_late (31 * ns_per_sec) ex_taken (fl_world ex_fleet2) =
      (Inr (), \<lparr>nw_store = (nw_store ex_outbox_world)\<lparr>np_outbox := [ex_sent]\<rparr>, nw_push = 2\<rparr>)"
    by (simp add: dispatch_def pg_notify_def np_ActiveDevicesForUser_def np_tick_def ex_fleet2_def ex_outbox_world_def
        np_MarkSent_def execOne_def ex_device_def ex_sent_def ex_taken_def ex_row_def pg_time_def ns_per_sec_def)
  have "fl_held ex_fleet2 1 = ex_taken # []" "fl_clock ex_fleet2 \<le> 31 * ns_per_sec"
    by (simp_all add: ex_fleet2_def ns_per_sec_def)
  note 2 = fleet_step.row [of ex_fleet2 1, OF this _ d, where timely = False]
  have "ex_fleet2\<lparr>fl_world := \<lparr>nw_store = (nw_store ex_outbox_world)\<lparr>np_outbox := [ex_sent]\<rparr>, nw_push = 2\<rparr>,
      fl_held := (fl_held ex_fleet2)(1 := []), fl_clock := 31 * ns_per_sec\<rparr> = ex_fleet3"
    by (simp add: ex_fleet3_def)
  with 2 have 2: "fleet_step ex_late False ex_fleet2 ex_fleet3" by simp
  show ?thesis
    using ex_claim [of ex_late False] 1 2 by (simp add: rtranclp.rtrancl_into_rtrancl)
qed

lemma stale_retry_resends_witness:
  "\<exists>f'. fleet_run ex_late False (fleet_start ex_outbox_world 0) ex_fleet3 \<and>
     np_outs (nw_store (fl_world ex_fleet3)) ''o1'' = Some ex_sent \<and> fleet_step ex_late False ex_fleet3 f' \<and>
     map_option ob_Status (np_outs (nw_store (fl_world f')) ''o1'') = Some OutPending"
proof -
  have 1: "dp_store ex_late = pg_notify Some" "np_inv Some (nw_store (fl_world ex_fleet3))"
    "np_faults (nw_store (fl_world ex_fleet3)) = []"
    by (simp_all add: np_inv_def ex_fleet3_def ex_outbox_world_def)
  have 2: "fl_held ex_fleet3 0 = [ex_claimed]" "fl_clock ex_fleet3 \<le> 32 * ns_per_sec"
    by (simp_all add: ex_fleet3_def ex_fleet2_def ex_fleet_def ns_per_sec_def)
  have 3: "np_outs (nw_store (fl_world ex_fleet3)) (ob_ID ex_claimed) = Some ex_sent" "ob_Status ex_sent = OutSent"
    "ob_Attempts ex_claimed + 1 < dc_MaxAttempts (dp_cfg ex_late)" "ob_ID ex_claimed = ''o1''"
    by (simp_all add: np_outs_def ex_fleet3_def ex_sent_def ex_taken_def ex_claimed_def ex_row_def)
  have 4: "Some PushFailed \<in> set (push_answers (dp_pusher ex_late) (message_of ex_claimed)
      (targets ex_claimed (np_devices (nw_store (fl_world ex_fleet3)))) (nw_push (fl_world ex_fleet3)))"
    by (simp add: targets_def ex_fleet3_def ex_outbox_world_def ex_device_def ex_claimed_def ex_row_def)
  from stale_retry_resends [OF 1 2 3(1-3) 4] ex_late_run 3(1,4) show ?thesis by auto
qed

end
