(* ===== verification/Gift_Json_Write.thy ===== *)
theory Gift_Json_Write
  imports Gift_Json "HOL-Library.List_Lexorder" "HOL-Library.Char_ord"
begin

text \<open>
  Go's \<open>encoding/json\<close> as the services use it to encode: \<open>json.Marshal\<close> on structs, maps, strings
  and integers, with its HTML-safe escaping, and that the reader reads back what it writes.
\<close>

section \<open>Strings\<close>

definition hex_char :: "nat \<Rightarrow> char" where
  "hex_char n = char_of (if n < 10 then 48 + n else 87 + n)"

definition escape_char :: "char \<Rightarrow> string" where
  "escape_char c =
     (if c = CHR 0x22 \<or> c = CHR 0x5C then [CHR 0x5C, c]
      else if c = CHR 0x08 then [CHR 0x5C, CHR ''b''] else if c = CHR 0x0C then [CHR 0x5C, CHR ''f'']
      else if c = CHR 0x0A then [CHR 0x5C, CHR ''n''] else if c = CHR 0x0D then [CHR 0x5C, CHR ''r'']
      else if c = CHR 0x09 then [CHR 0x5C, CHR ''t'']
      else if byte c < 0x20 \<or> c \<in> set ''<>&'' then
        CHR 0x5C # ''u00'' @ [hex_char (byte c div 16), hex_char (byte c mod 16)]
      else [c])"

text \<open>U+2028 and U+2029 are escaped too.\<close>

definition escape_rune :: "string \<Rightarrow> string" where
  "escape_rune t =
     (if t = [CHR 0xE2, CHR 0x80, CHR 0xA8] then CHR 0x5C # ''u2028''
      else if t = [CHR 0xE2, CHR 0x80, CHR 0xA9] then CHR 0x5C # ''u2029'' else t)"

text \<open>\<open>appendString\<close> without the quotes.\<close>

function json_escape :: "string \<Rightarrow> string" where
  "json_escape s =
     (case s of
        [] \<Rightarrow> []
      | c # s1 \<Rightarrow>
          if byte c < 0x80 then escape_char c @ json_escape s1
          else
            let n = utf8_len s in
            if n = 0 then CHR 0x5C # ''ufffd'' @ json_escape s1
            else escape_rune (take n s) @ json_escape (drop n s))"
  by pat_completeness auto
termination
  by (relation "measure length") auto

text \<open>A text with every byte that does not start an encoded rune replaced by U+FFFD.\<close>

function coerce_utf8 :: "string \<Rightarrow> string" where
  "coerce_utf8 s =
     (case s of
        [] \<Rightarrow> []
      | c # s1 \<Rightarrow>
          (let n = utf8_len s in
           if n = 0 then rune_error @ coerce_utf8 s1 else take n s @ coerce_utf8 (drop n s)))"
  by pat_completeness auto
termination
  by (relation "measure length") auto

declare json_escape.simps [simp del] coerce_utf8.simps [simp del]

section \<open>Values\<close>

text \<open>
  A value given to \<open>json.Marshal\<close>: a struct's fields are in the order of their declaration, a map's
  are put in the order of the keys by \<open>go_map\<close>. \<open>JTBad\<close> is a value \<open>json.Marshal\<close> refuses (a
  channel, a function). Floating-point numbers are not modelled.
\<close>

datatype json_tree =
    JTNull
  | JTBool bool
  | JTInt int
  | JTStr string
  | JTArr "json_tree list"
  | JTObj "(string \<times> json_tree) list"
  | JTBad

definition go_map :: "(string \<times> json_tree) list \<Rightarrow> json_tree" where
  "go_map ms = JTObj (sort_key fst ms)"

definition quoted :: "string \<Rightarrow> string" where
  "quoted s = CHR 0x22 # json_escape s @ [CHR 0x22]"

fun json_text :: "json_tree \<Rightarrow> string"
  and elems_text :: "json_tree list \<Rightarrow> string"
  and members_text :: "(string \<times> json_tree) list \<Rightarrow> string" where
  "json_text JTNull = ''null''"
| "json_text (JTBool b) = (if b then ''true'' else ''false'')"
| "json_text (JTInt i) = fmt_int i"
| "json_text (JTStr s) = quoted s"
| "json_text (JTArr vs) = CHR ''['' # elems_text vs"
| "json_text (JTObj ms) = CHR ''{'' # members_text ms"
| "json_text JTBad = []"
| "elems_text [] = '']''"
| "elems_text (v # vs) = json_text v @ (if vs = [] then '']'' else CHR '','' # elems_text vs)"
| "members_text [] = ''}''"
| "members_text (m # ms) =
     quoted (fst m) @ CHR '':'' # json_text (snd m) @ (if ms = [] then ''}'' else CHR '','' # members_text ms)"

text \<open>Whether there is nothing \<open>json.Marshal\<close> refuses, and how deep the value is nested.\<close>

fun json_ok :: "json_tree \<Rightarrow> bool" where
  "json_ok (JTArr vs) = (\<forall>v \<in> set vs. json_ok v)"
| "json_ok (JTObj ms) = (\<forall>m \<in> set ms. json_ok (snd m))"
| "json_ok JTBad = False"
| "json_ok _ = True"

fun json_depth :: "json_tree \<Rightarrow> nat" where
  "json_depth (JTArr vs) = Suc (Max (insert 0 (json_depth ` set vs)))"
| "json_depth (JTObj ms) = Suc (Max (insert 0 ((\<lambda>m. json_depth (snd m)) ` set ms)))"
| "json_depth _ = 0"

definition json_Marshal :: "json_tree \<Rightarrow> string option" where
  "json_Marshal v = (if json_ok v then Some (json_text v) else None)"

text \<open>What the reader sees of a value.\<close>

fun json_view :: "json_tree \<Rightarrow> json_value" where
  "json_view JTNull = JNull"
| "json_view (JTBool b) = JBool b"
| "json_view (JTInt i) = JNum (fmt_int i)"
| "json_view (JTStr s) = JStr (coerce_utf8 s)"
| "json_view (JTArr vs) = JArr (map json_text vs)"
| "json_view (JTObj ms) = JObj (map (\<lambda>m. (coerce_utf8 (fst m), json_text (snd m))) ms)"
| "json_view JTBad = JNull"

section \<open>Strings are read back\<close>

lemma byte_char_of: "n < 256 \<Longrightarrow> byte (char_of n) = n"
  by (simp add: byte_def of_char_of)

lemma byte_inj: "byte c = byte d \<longleftrightarrow> c = d"
  by (simp add: byte_def)

lemma byte_less: "byte c < 256"
  using rangeI [of "of_char :: char \<Rightarrow> nat" c] unfolding range_nat_of_char byte_def by simp

lemma hex_digit_char: "n < 16 \<Longrightarrow> hex_digit (hex_char n) = Some n"
  by (simp add: hex_digit_def hex_char_def byte_char_of)

lemma hex4_byte:
  assumes "byte c < 256"
  shows "hex4 (CHR ''0'' # CHR ''0'' # hex_char (byte c div 16) # hex_char (byte c mod 16) # r) = Some (byte c)"
proof -
  have "hex_digit CHR ''0'' = Some 0" by (simp add: hex_digit_def byte_def)
  moreover have "byte c div 16 * 16 + byte c mod 16 = byte c" by simp
  ultimately show ?thesis using assms by (simp add: hex_digit_char less_mult_imp_div_less)
qed

lemma utf8_len_take:
  assumes "0 < utf8_len s"
  shows "utf8_len (take (utf8_len s) s @ r) = utf8_len s" and "utf8_len s \<le> length s"
proof -
  have "utf8_len (take (utf8_len s) s @ r) = utf8_len s \<and> utf8_len s \<le> length s"
    using assms
    by (cases s rule: utf8_len.cases) (auto simp: Let_def split: list.splits if_splits)
  then show "utf8_len (take (utf8_len s) s @ r) = utf8_len s" and "utf8_len s \<le> length s" by blast+
qed


lemma json_escape_Nil [simp]: "json_escape [] = []"
  by (simp add: json_escape.simps)

lemma coerce_utf8_Nil [simp]: "coerce_utf8 [] = []"
  by (simp add: coerce_utf8.simps)

lemma json_string_rune:
  assumes "\<forall>c \<in> set t. 0x80 \<le> byte c"
  shows "json_string_body (t @ r) = map_option (\<lambda>(b, q). (t @ b, q)) (json_string_body r)"
  using assms
proof (induction t)
  case Nil
  show ?case by (simp add: option.map_ident)
next
  case (Cons c t)
  then have "c \<noteq> CHR 0x22" "c \<noteq> CHR 0x5C" "\<not> byte c < 0x20" by (auto simp: byte_def)
  with Cons show ?case by (cases "json_string_body r") auto
qed

text \<open>An encoded rune is one ASCII byte or bytes from 0x80.\<close>

lemma utf8_high:
  assumes "0x80 \<le> byte a" and "0 < utf8_len (a # s)"
  shows "\<forall>c \<in> set (take (utf8_len (a # s)) (a # s)). 0x80 \<le> byte c"
proof -
  have two: "\<not> 0x80 \<le> byte b \<Longrightarrow> \<not> cont_byte b" for b by (simp add: cont_byte_def)
  obtain b s1 where s: "s = b # s1" using assms by (cases s) (auto simp: Let_def)
  have b: "0x80 \<le> byte b" using assms s by (auto simp: Let_def cont_byte_def split: if_splits)
  show ?thesis
  proof (cases s1)
    case Nil
    with assms s b show ?thesis by (simp add: take_Cons')
  next
    case (Cons c s2)
    show ?thesis
    proof (cases "utf8_len (a # s) \<le> 2")
      case True
      then have "set (take (utf8_len (a # s)) (a # s)) \<subseteq> {a, b}" by (auto simp: s take_Cons' split: if_splits)
      with assms(1) b show ?thesis by blast
    next
      case False
      then have c: "0x80 \<le> byte c"
        using assms s Cons two [of c] by (auto simp: Let_def split: if_splits list.splits)
      show ?thesis
      proof (cases "utf8_len (a # s) = 4")
        case True
        then obtain d s3 where "s2 = d # s3" "0x80 \<le> byte d"
          using assms s Cons two by (cases s2) (auto simp: Let_def split: if_splits)
        with True assms(1) b c s Cons show ?thesis by simp
      next
        case no4: False
        have "utf8_len (a # s) \<le> 4" by (simp add: Let_def split: list.splits)
        with no4 False have "utf8_len (a # s) = 3" by simp
        with assms(1) b c s Cons show ?thesis by (simp add: numeral_3_eq_3 del: utf8_len.simps)
      qed
    qed
  qed
qed

lemma escape_body:
  assumes "byte c < 0x80"
  shows "json_string_body (escape_char c @ r) = map_option (\<lambda>(b, q). (escape_char c @ b, q)) (json_string_body r)"
proof (cases "byte c < 0x20 \<or> c \<in> set ''<>&''")
  case True
  have "hex4 (CHR ''0'' # CHR ''0'' # hex_char (byte c div 16) # hex_char (byte c mod 16) # r) \<noteq> None"
    using hex4_byte byte_less by simp
  moreover have h: "hex_char n \<noteq> CHR 0x22" "hex_char n \<noteq> CHR 0x5C" "\<not> byte (hex_char n) < 0x20" if "n < 16" for n
    using that byte_inj [of "hex_char n" "CHR 0x22"] byte_inj [of "hex_char n" "CHR 0x5C"]
    by (auto simp: hex_char_def byte_char_of) (auto simp: byte_def)
  moreover have "byte c div 16 < 16" "byte c mod 16 < 16" using byte_less [of c] by auto
  moreover have "byte CHR ''0'' = 48" by (simp add: byte_def)
  ultimately show ?thesis using True
    by (cases "json_string_body r") (auto simp: escape_char_def)
next
  case False
  then show ?thesis by (cases "json_string_body r") (auto simp: escape_char_def)
qed

declare utf8_len.simps [simp del]

lemma json_escape_Cons:
  "byte c < 0x80 \<Longrightarrow> json_escape (c # s) = escape_char c @ json_escape s"
  "\<not> byte c < 0x80 \<Longrightarrow> utf8_len (c # s) = 0 \<Longrightarrow> json_escape (c # s) = CHR 0x5C # ''ufffd'' @ json_escape s"
  "\<not> byte c < 0x80 \<Longrightarrow> utf8_len (c # s) \<noteq> 0 \<Longrightarrow> json_escape (c # s) =
     escape_rune (take (utf8_len (c # s)) (c # s)) @ json_escape (drop (utf8_len (c # s)) (c # s))"
  by (simp_all add: json_escape.simps [of "c # s"] Let_def)

lemma hex4_constants:
  "hex4 (''fffd'' @ x) = Some 0xFFFD" "hex4 (''2028'' @ x) = Some 0x2028" "hex4 (''2029'' @ x) = Some 0x2029"
  by (simp_all add: hex_digit_def byte_def)

lemma json_string_u:
  assumes "hex4 (a # b # c # d # r) \<noteq> None" and "\<forall>x \<in> {a, b, c, d}. x \<noteq> CHR 0x22 \<and> x \<noteq> CHR 0x5C \<and> \<not> byte x < 0x20"
  shows "json_string_body (CHR 0x5C # CHR ''u'' # a # b # c # d # r) =
    map_option (\<lambda>(x, q). (CHR 0x5C # CHR ''u'' # a # b # c # d # x, q)) (json_string_body r)"
  using assms by (cases "json_string_body r") (auto simp del: hex4.simps)

lemma escape_rune_body:
  assumes "\<forall>c \<in> set t. 0x80 \<le> byte c"
  shows "json_string_body (escape_rune t @ r) = map_option (\<lambda>(b, q). (escape_rune t @ b, q)) (json_string_body r)"
  using json_string_rune [OF assms] hex4_constants(2,3) [of r]
  by (auto simp: escape_rune_def json_string_u byte_def simp del: hex4.simps json_string_body.simps)

lemma json_string_escape: "json_string_body (json_escape s @ CHR 0x22 # r) = Some (json_escape s, r)"
proof (induction s rule: json_escape.induct)
  case (1 s)
  show ?case
  proof (cases s)
    case Nil
    then show ?thesis by simp
  next
    case (Cons c s1)
    consider "byte c < 0x80" | "\<not> byte c < 0x80" "utf8_len s = 0" | "\<not> byte c < 0x80" "utf8_len s \<noteq> 0" by blast
    then show ?thesis
    proof cases
      case 1
      with "1.IH"(1) Cons show ?thesis by (simp add: json_escape_Cons escape_body)
    next
      case 2
      with "1.IH"(2) Cons hex4_constants(1) show ?thesis
        by (simp add: json_escape_Cons json_string_u byte_def del: hex4.simps json_string_body.simps)
    next
      case 3
      have "\<forall>b \<in> set (take (utf8_len s) s). 0x80 \<le> byte b"
        using utf8_high [of c s1] 3 Cons by simp
      with "1.IH"(3) [OF Cons 3(1) refl 3(2)] Cons 3 show ?thesis
        by (simp add: json_escape_Cons escape_rune_body del: json_string_body.simps)
    qed
  qed
qed

section \<open>Unquoting the escaped text\<close>

lemma unquote_Nil [simp]: "unquote [] = []"
  by (simp add: unquote.simps)

lemma unquote_simple: "e \<noteq> CHR ''u'' \<Longrightarrow> unquote (CHR 0x5C # e # r) = simple_escape e # unquote r"
  by (simp add: unquote.simps [of "CHR 0x5C # e # r"])

lemma unquote_u: "hex4 (a # b # c # d # r) = Some x \<Longrightarrow> \<not> surrogate x \<Longrightarrow>
    unquote (CHR 0x5C # CHR ''u'' # a # b # c # d # r) = utf8_encode x @ unquote r"
  by (simp add: unquote.simps [of "CHR 0x5C # CHR ''u'' # a # b # c # d # r"] del: hex4.simps)

lemma unquote_rune:
  assumes "c \<noteq> CHR 0x5C" and "utf8_len (c # s) = n" and "n \<noteq> 0"
  shows "unquote (take n (c # s) @ r) = take n (c # s) @ unquote r"
proof -
  have l: "utf8_len (take n (c # s) @ r) = n" "n \<le> length (c # s)"
    using utf8_len_take(1) [of "c # s" r] utf8_len_take(2) [of "c # s"] assms(2,3) by auto
  obtain m where n: "n = Suc m" using assms(3) by (cases n) auto
  have "unquote (take n (c # s) @ r) =
      take n (take n (c # s) @ r) @ unquote (drop n (take n (c # s) @ r))"
    using assms(1) l(1) n by (simp add: unquote.simps [of "c # take m s @ r"])
  also have "take n (take n (c # s) @ r) = take n (c # s)" using l(2) by (simp add: take_append)
  also have "drop n (take n (c # s) @ r) = r" using l(2) by simp
  finally show ?thesis .
qed

lemma utf8_len_ascii: "byte c < 0x80 \<Longrightarrow> utf8_len (c # s) = 1"
  by (simp add: utf8_len.simps)

lemma utf8_encode_ascii: "byte c < 0x80 \<Longrightarrow> utf8_encode (byte c) = [c]"
  by (simp add: utf8_encode_def byte_def)

lemma unquote_escape_char:
  assumes "byte c < 0x80"
  shows "unquote (escape_char c @ r) = c # unquote r"
proof -
  have h: "hex4 (CHR ''0'' # CHR ''0'' # hex_char (byte c div 16) # hex_char (byte c mod 16) # r) = Some (byte c)"
    using hex4_byte byte_less by simp
  have u: "unquote (CHR 0x5C # CHR ''u'' # CHR ''0'' # CHR ''0'' # hex_char (byte c div 16) # hex_char (byte c mod 16) # r) =
      c # unquote r"
    using unquote_u [OF h] assms by (simp add: surrogate_def utf8_encode_ascii)
  have p: "c \<noteq> CHR 0x5C \<Longrightarrow> unquote (c # r) = c # unquote r"
    using unquote_rune [where s = r and n = 1 and r = r] utf8_len_ascii [OF assms] by simp
  show ?thesis using u p
    by (auto simp: escape_char_def unquote_simple simple_escape_def)
qed

lemma utf8_encode_constants:
  "utf8_encode 0xFFFD = rune_error" "utf8_encode 0x2028 = [CHR 0xE2, CHR 0x80, CHR 0xA8]"
  "utf8_encode 0x2029 = [CHR 0xE2, CHR 0x80, CHR 0xA9]"
  by (simp_all add: utf8_encode_def rune_error_def char_of_eq_iff)

lemma coerce_utf8_Cons:
  "utf8_len (c # s) = 0 \<Longrightarrow> coerce_utf8 (c # s) = rune_error @ coerce_utf8 s"
  "utf8_len (c # s) \<noteq> 0 \<Longrightarrow> coerce_utf8 (c # s) =
     take (utf8_len (c # s)) (c # s) @ coerce_utf8 (drop (utf8_len (c # s)) (c # s))"
  by (simp_all add: coerce_utf8.simps [of "c # s"] Let_def)

lemma unquote_escape: "unquote (json_escape s) = coerce_utf8 s"
proof (induction s rule: json_escape.induct)
  case (1 s)
  show ?case
  proof (cases s)
    case Nil
    then show ?thesis by simp
  next
    case (Cons c s1)
    consider "byte c < 0x80" | "\<not> byte c < 0x80" "utf8_len s = 0" | "\<not> byte c < 0x80" "utf8_len s \<noteq> 0" by blast
    then show ?thesis
    proof cases
      case 1
      with "1.IH"(1) Cons show ?thesis
        by (simp add: json_escape_Cons unquote_escape_char coerce_utf8_Cons utf8_len_ascii)
    next
      case 2
      have "unquote (CHR 0x5C # ''ufffd'' @ json_escape s1) = rune_error @ unquote (json_escape s1)"
        using unquote_u [where a = "CHR ''f''" and b = "CHR ''f''" and c = "CHR ''f''" and d = "CHR ''d''" and r = "json_escape s1" and x = "0xFFFD"]
          hex4_constants(1) [of "json_escape s1"]
        by (simp add: surrogate_def utf8_encode_constants del: hex4.simps)
      with "1.IH"(2) Cons 2 show ?thesis by (simp add: json_escape_Cons coerce_utf8_Cons)
    next
      case 3
      let ?t = "take (utf8_len s) s" and ?r = "json_escape (drop (utf8_len s) s)"
      have c: "c \<noteq> CHR 0x5C" using 3 by (auto simp: byte_def)
      have t: "unquote (?t @ ?r) = ?t @ unquote ?r"
        using unquote_rune [OF c, of s1 "utf8_len s"] 3 Cons by simp
      have "unquote (escape_rune ?t @ ?r) = ?t @ unquote ?r"
        using t unquote_u [where a = "CHR ''2''" and b = "CHR ''0''" and c = "CHR ''2''" and d = "CHR ''8''" and r = ?r and x = "0x2028"]
          unquote_u [where a = "CHR ''2''" and b = "CHR ''0''" and c = "CHR ''2''" and d = "CHR ''9''" and r = ?r and x = "0x2029"] hex4_constants(2,3) [of ?r]
        by (auto simp: escape_rune_def surrogate_def utf8_encode_constants simp del: hex4.simps)
      with "1.IH"(3) [OF Cons 3(1) refl 3(2)] Cons 3 show ?thesis
        by (simp add: json_escape_Cons coerce_utf8_Cons)
    qed
  qed
qed

section \<open>Numbers are read back\<close>

definition number_ends :: "string \<Rightarrow> bool" where
  "number_ends r \<longleftrightarrow> r = [] \<or> hd r \<in> set '',]}''"

lemma digits_append:
  assumes "\<forall>c \<in> set ds. 48 \<le> byte c \<and> byte c \<le> 57" and "r = [] \<or> \<not> (48 \<le> byte (hd r) \<and> byte (hd r) \<le> 57)"
  shows "digits (ds @ r) = (ds, r)"
  using assms(1)
proof (induction ds)
  case Nil
  show ?case using assms(2) by (cases r) auto
qed (auto split: prod.splits)

lemma number_ends_digit: "number_ends r \<Longrightarrow> r = [] \<or> \<not> (48 \<le> byte (hd r) \<and> byte (hd r) \<le> 57)"
  by (auto simp: number_ends_def byte_def)

lemma fmt_nat_ne [simp]: "fmt_nat n \<noteq> []"
  by (cases "n < 10") (simp_all add: fmt_nat.simps [of n])

lemma fmt_nat_zero: "hd (fmt_nat n) = CHR ''0'' \<Longrightarrow> length (fmt_nat n) = 1"
proof (induction n rule: fmt_nat.induct)
  case (1 n)
  show ?case
  proof (cases "n < 10")
    case True
    then show ?thesis by (simp add: fmt_nat.simps [of n])
  next
    case False
    then have e: "fmt_nat n = fmt_nat (n div 10) @ [char_of (48 + n mod 10)]" by (simp add: fmt_nat.simps [of n])
    with "1.prems" have z: "hd (fmt_nat (n div 10)) = CHR ''0''" by simp
    with 1 False have "length (fmt_nat (n div 10)) = 1" by simp
    with z have "fmt_nat (n div 10) = ''0''" by (cases "fmt_nat (n div 10)") auto
    moreover have "fmt_nat 0 = ''0''" by (simp add: fmt_nat.simps char_of_eq_iff)
    ultimately have "n div 10 = 0" using fmt_nat_inj by metis
    with False show ?thesis by simp
  qed
qed

lemma json_number_nat:
  assumes "number_ends r"
  shows "json_number (fmt_nat n @ r) = Some r"
proof -
  have d: "\<forall>c \<in> set (fmt_nat n). 48 \<le> byte c \<and> byte c \<le> 57"
    using fmt_nat_digits by (auto simp: byte_def)
  note g = digits_append [OF d number_ends_digit [OF assms]]
  obtain c s where c: "fmt_nat n = c # s" by (cases "fmt_nat n") auto
  have "c \<noteq> CHR ''-''" using d c by (auto simp: byte_def)
  then show ?thesis
    using fmt_nat_zero [of n] g assms unfolding c
    by (cases r) (auto simp: json_number_def number_ends_def Let_def simp del: digits.simps)
qed

lemma json_number_int:
  assumes "number_ends r"
  shows "json_number (fmt_int i @ r) = Some r"
proof (cases "i < 0")
  case True
  have d: "\<forall>c \<in> set (fmt_nat (nat (- i))). 48 \<le> byte c \<and> byte c \<le> 57"
    using fmt_nat_digits by (auto simp: byte_def)
  note g = digits_append [OF d number_ends_digit [OF assms]]
  show ?thesis
    using True fmt_nat_zero [of "nat (- i)"] g assms
    by (cases r) (auto simp: fmt_int_def json_number_def number_ends_def Let_def)
next
  case False
  then show ?thesis using json_number_nat [OF assms] by (simp add: fmt_int_def)
qed

section \<open>Values are read back\<close>

lemma fmt_int_first: "fmt_int i \<noteq> [] \<and> (hd (fmt_int i) = CHR ''-'' \<or> 48 \<le> byte (hd (fmt_int i)) \<and> byte (hd (fmt_int i)) \<le> 57)"
  using fmt_nat_digits [OF hd_in_set [OF fmt_nat_ne]] by (auto simp: fmt_int_def byte_def)

lemma json_text_first:
  assumes "json_ok v"
  shows "json_ws (json_text v @ r) = json_text v @ r" and "json_text v \<noteq> []"
    and "\<not> prefix '']'' (json_text v @ r)"
proof -
  have "json_text v \<noteq> [] \<and> hd (json_text v) \<notin> {CHR 0x20, CHR 0x09, CHR 0x0A, CHR 0x0D, CHR '']''}"
  proof (cases v)
    case (JTInt i)
    then show ?thesis using fmt_int_first [of i] by (auto simp: byte_def)
  qed (use assms in \<open>simp_all add: quoted_def\<close>)
  then show "json_ws (json_text v @ r) = json_text v @ r" and "json_text v \<noteq> []"
    and "\<not> prefix '']'' (json_text v @ r)"
    by (cases "json_text v"; auto)+
qed

lemma consumed_append [simp]: "consumed_text (a @ r) r = a"
  by (simp add: consumed_text_def)

lemma json_read_int:
  assumes "number_ends r"
  shows "json_read (Suc n) d (fmt_int i @ r) = Some (JNum (fmt_int i), r)"
proof -
  obtain c s where c: "fmt_int i = c # s" "c = CHR ''-'' \<or> 48 \<le> byte c \<and> byte c \<le> 57"
    using fmt_int_first [of i] by (cases "fmt_int i") auto
  then have "c \<notin> {CHR ''{'', CHR ''['', CHR 0x22, CHR ''t'', CHR ''f'', CHR ''n''}" by (auto simp: byte_def)
  then show ?thesis
    using json_number_int [OF assms, of i] consumed_append [of "fmt_int i" r] by (simp add: c(1))
qed

lemma json_read_string: "json_read (Suc n) d (quoted s @ r) = Some (JStr (coerce_utf8 s), r)"
  by (simp add: quoted_def json_string_escape unquote_escape)

lemma json_ws_sep [simp]:
  "json_ws (CHR '','' # r) = CHR '','' # r" "json_ws (CHR '']'' # r) = CHR '']'' # r"
  "json_ws (CHR ''}'' # r) = CHR ''}'' # r" "json_ws (CHR '':'' # r) = CHR '':'' # r"
  by simp_all

lemma quoted_first [simp]: "json_ws (quoted s @ r) = quoted s @ r"
  by (simp add: quoted_def)

lemma elems_text_len: "2 \<le> length (elems_text (v # vs)) - length (json_text v) + 1"
  by simp

lemma json_elems_step:
  assumes "json_ok v" and "json_read n d (json_text v @ t) = Some (json_view v, t)"
  shows "t = CHR '']'' # r \<Longrightarrow> json_elems (Suc n) d (json_text v @ t) = Some ([json_text v], r)"
    and "t = CHR '','' # q \<Longrightarrow> json_elems n d (json_ws q) = Some (es, r) \<Longrightarrow>
      json_elems (Suc n) d (json_text v @ t) = Some (json_text v # es, r)"
  using assms(2) consumed_append [of "json_text v" t] by (auto simp del: consumed_append)

lemma json_members_step:
  assumes "json_ok v" and "json_read n d (json_text v @ t) = Some (json_view v, t)"
  shows "t = CHR ''}'' # r \<Longrightarrow>
      json_members (Suc n) d (quoted k @ CHR '':'' # json_text v @ t) = Some ([(coerce_utf8 k, json_text v)], r)"
    and "t = CHR '','' # q \<Longrightarrow> json_members n d (json_ws q) = Some (ms, r) \<Longrightarrow>
      json_members (Suc n) d (quoted k @ CHR '':'' # json_text v @ t) = Some ((coerce_utf8 k, json_text v) # ms, r)"
  using assms(2) consumed_append [of "json_text v" t] json_text_first(1) [OF assms(1), of t]
  by (auto simp: quoted_def json_string_escape unquote_escape simp del: consumed_append)

lemma depth_le:
  "v \<in> set vs \<Longrightarrow> json_depth v < json_depth (JTArr vs)"
  "m \<in> set ms \<Longrightarrow> json_depth (snd m) < json_depth (JTObj ms)"
  by (auto simp: less_Suc_eq_le intro: Max_ge)

lemma json_read_back:
  "json_ok v \<Longrightarrow> 2 * length (json_text v) \<le> n \<Longrightarrow> d + int (json_depth v) \<le> max_nesting \<Longrightarrow> number_ends r \<Longrightarrow>
   json_read (Suc n) d (json_text v @ r) = Some (json_view v, r)"
  "vs \<noteq> [] \<Longrightarrow> \<forall>v \<in> set vs. json_ok v \<and> d + int (json_depth v) \<le> max_nesting \<Longrightarrow> 2 * length (elems_text vs) \<le> n \<Longrightarrow>
   json_elems n d (elems_text vs @ r) = Some (map json_text vs, r)"
  "ms \<noteq> [] \<Longrightarrow> \<forall>m \<in> set ms. json_ok (snd m) \<and> d + int (json_depth (snd m)) \<le> max_nesting \<Longrightarrow>
   2 * length (members_text ms) \<le> n \<Longrightarrow>
   json_members n d (members_text ms @ r) = Some (map (\<lambda>m. (coerce_utf8 (fst m), json_text (snd m))) ms, r)"
proof (induction v and vs and ms arbitrary: n d r and n d r and n d r rule: json_text_elems_text_members_text.induct)
  case 1
  show ?case by (simp add: literal_def)
next
  case (2 b)
  show ?case by (simp add: literal_def)
next
  case (3 i)
  then show ?case by (simp add: json_read_int del: json_read.simps)
next
  case (4 s)
  show ?case by (simp add: json_read_string del: json_read.simps)
next
  case (5 vs)
  show ?case
  proof (cases vs)
    case Nil
    with 5(4) show ?thesis by (simp add: max_nesting_def)
  next
    case (Cons v us)
    have "\<forall>v \<in> set vs. json_ok v \<and> d + 1 + int (json_depth v) \<le> max_nesting"
      using 5(2,4) depth_le(1) [of _ vs] by fastforce
    moreover have "2 * length (elems_text vs) \<le> n" using 5(3) by simp
    ultimately have "json_elems n (d + 1) (elems_text vs @ r) = Some (map json_text vs, r)"
      by (intro 5(1)) (use Cons in auto)
    moreover have "json_ok v" using 5(2) Cons by simp
    then have "json_ws (elems_text vs @ r) = elems_text vs @ r" "\<not> prefix '']'' (elems_text vs @ r)"
      using json_text_first(1,3) [of v] Cons by simp_all
    moreover have "\<not> max_nesting \<le> d" using 5(4) by simp
    ultimately show ?thesis by simp
  qed
next
  case (6 ms)
  show ?case
  proof (cases ms)
    case Nil
    with 6(4) show ?thesis by (simp add: max_nesting_def)
  next
    case (Cons m us)
    have "\<forall>m \<in> set ms. json_ok (snd m) \<and> d + 1 + int (json_depth (snd m)) \<le> max_nesting"
      using 6(2,4) depth_le(2) [of _ ms] by fastforce
    moreover have "2 * length (members_text ms) \<le> n" using 6(3) by simp
    ultimately have "json_members n (d + 1) (members_text ms @ r) =
        Some (map (\<lambda>m. (coerce_utf8 (fst m), json_text (snd m))) ms, r)"
      by (intro 6(1)) (use Cons in auto)
    moreover have "json_ws (members_text ms @ r) = members_text ms @ r" "\<not> prefix ''}'' (members_text ms @ r)"
      using Cons by (simp_all add: quoted_def)
    moreover have "\<not> max_nesting \<le> d" using 6(4) by simp
    ultimately show ?thesis by simp
  qed
next
  case 7
  then show ?case by simp
next
  case 8
  then show ?case by simp
next
  case (9 v vs)
  define t where "t = (if vs = [] then '']'' else CHR '','' # elems_text vs) @ r"
  obtain m where m: "n = Suc (Suc m)" "2 * length (json_text v) \<le> m" "2 * length (elems_text vs) \<le> Suc m \<or> vs = []"
    using 9(5) by (cases n; cases "n - 1") (auto split: if_splits)
  have v: "json_read (Suc m) d (json_text v @ t) = Some (json_view v, t)"
    using 9(4) m(2) by (intro 9(1)) (auto simp: t_def number_ends_def)
  show ?case
  proof (cases "vs = []")
    case True
    then show ?thesis using json_elems_step(1) [OF _ v] 9(4) m(1) by (simp add: t_def)
  next
    case False
    then obtain u us where u: "vs = u # us" by (cases vs) auto
    have rest: "json_elems (Suc m) d (elems_text vs @ r) = Some (map json_text vs, r)"
      using False 9(4) m(3) by (intro 9(2)) auto
    have "json_ws (elems_text vs @ r) = elems_text vs @ r"
      using json_text_first(1) [of u] 9(4) u by simp
    with rest have "json_elems (Suc m) d (json_ws (elems_text vs @ r)) = Some (map json_text vs, r)" by simp
    from json_elems_step(2) [OF _ v _ this] False 9(4) m(1) show ?thesis by (simp add: t_def)
  qed
next
  case 10
  then show ?case by simp
next
  case (11 x ms)
  define t where "t = (if ms = [] then ''}'' else CHR '','' # members_text ms) @ r"
  obtain m where m: "n = Suc (Suc m)" "2 * length (json_text (snd x)) \<le> m"
    "2 * length (members_text ms) \<le> Suc m \<or> ms = []"
    using 11(5) by (cases n; cases "n - 1") (auto simp: quoted_def split: if_splits)
  have v: "json_read (Suc m) d (json_text (snd x) @ t) = Some (json_view (snd x), t)"
    using 11(4) m(2) by (intro 11(1)) (auto simp: t_def number_ends_def)
  show ?case
  proof (cases "ms = []")
    case True
    then show ?thesis using json_members_step(1) [OF _ v] 11(4) m(1) by (simp add: t_def)
  next
    case False
    then obtain y ys where y: "ms = y # ys" by (cases ms) auto
    have rest: "json_members (Suc m) d (members_text ms @ r) =
        Some (map (\<lambda>m. (coerce_utf8 (fst m), json_text (snd m))) ms, r)"
      using False 11(4) m(3) by (intro 11(2)) auto
    have "json_ws (members_text ms @ r) = members_text ms @ r" by (simp add: y)
    with rest have "json_members (Suc m) d (json_ws (members_text ms @ r)) =
        Some (map (\<lambda>m. (coerce_utf8 (fst m), json_text (snd m))) ms, r)" by simp
    from json_members_step(2) [OF _ v _ this] False 11(4) m(1) show ?thesis by (simp add: t_def)
  qed
qed

text \<open>What is marshalled is parsed back.\<close>

lemma json_parse_Marshal:
  assumes "json_Marshal v = Some s" and "int (json_depth v) \<le> max_nesting"
  shows "json_parse s = Some (json_view v)"
proof -
  have v: "json_ok v" "s = json_text v" using assms(1) by (simp_all add: json_Marshal_def split: if_splits)
  have "json_read (Suc (2 * length s + 1)) 0 (json_text v @ []) = Some (json_view v, [])"
    by (rule json_read_back(1)) (use v assms(2) in \<open>simp_all add: number_ends_def\<close>)
  moreover have "json_ws s = s" using json_text_first(1) [OF v(1), of "[]"] v(2) by simp
  ultimately show ?thesis by (simp add: json_parse_def v(2))
qed

end
