(* ===== verification/Gift_Json_Structs.thy ===== *)
theory Gift_Json_Structs
  imports Gift_Json_Write
begin

text \<open>
  Decoding by \<open>encoding/json\<close> into Go structs with fields of any type: a decoder takes the value the
  field holds and the text of a member and yields the new value, or none for a value the type does not
  take. Every member that names a field is decoded into it in turn, a null leaves strings, numbers and
  booleans as they are, and lists are decoded element by element into the list the field holds.
\<close>

type_synonym 'a json_dec = "'a \<Rightarrow> string \<Rightarrow> 'a option"

section \<open>Decoders\<close>

definition dec_string :: "string json_dec" where
  "dec_string acc t =
     (case json_parse t of Some (JStr v) \<Rightarrow> Some v | Some JNull \<Rightarrow> Some acc | _ \<Rightarrow> None)"

definition dec_bool :: "bool json_dec" where
  "dec_bool acc t =
     (case json_parse t of Some (JBool b) \<Rightarrow> Some b | Some JNull \<Rightarrow> Some acc | _ \<Rightarrow> None)"

text \<open>An integer of \<open>w\<close> bits.\<close>

definition dec_int :: "nat \<Rightarrow> int json_dec" where
  "dec_int w acc t =
     (case json_parse t of
        Some (JNum n) \<Rightarrow>
          (case int_literal n of
             Some v \<Rightarrow> if - (2 ^ (w - 1)) \<le> v \<and> v < 2 ^ (w - 1) then Some v else None
           | None \<Rightarrow> None)
      | Some JNull \<Rightarrow> Some acc
      | _ \<Rightarrow> None)"

text \<open>A slice: element \<open>i\<close> is decoded into the old element \<open>i\<close>, or into the zero value behind the end
  of the old list. Null is the nil slice.\<close>

fun dec_elems :: "'a json_dec \<Rightarrow> 'a \<Rightarrow> 'a list \<Rightarrow> string list \<Rightarrow> 'a list option" where
  "dec_elems dec z acc [] = Some []"
| "dec_elems dec z acc (t # ts) =
     (case dec (case acc of [] \<Rightarrow> z | a # _ \<Rightarrow> a) t of
        None \<Rightarrow> None
      | Some v \<Rightarrow> map_option ((#) v) (dec_elems dec z (drop 1 acc) ts))"

definition dec_list :: "'a json_dec \<Rightarrow> 'a \<Rightarrow> 'a list json_dec" where
  "dec_list dec z acc t =
     (case json_parse t of Some (JArr ts) \<Rightarrow> dec_elems dec z acc ts | Some JNull \<Rightarrow> Some [] | _ \<Rightarrow> None)"

text \<open>A field of a struct, given the members of the object.\<close>

fun field_into :: "string \<Rightarrow> 'a json_dec \<Rightarrow> (string \<times> string) list \<Rightarrow> 'a \<Rightarrow> 'a option" where
  "field_into f dec [] acc = Some acc"
| "field_into f dec (m # ms) acc =
     (if names f m then (case dec acc (snd m) of Some v \<Rightarrow> field_into f dec ms v | None \<Rightarrow> None)
      else field_into f dec ms acc)"

text \<open>A struct, given how its members are decoded.\<close>

definition dec_struct :: "('a \<Rightarrow> (string \<times> string) list \<Rightarrow> 'a option) \<Rightarrow> 'a json_dec" where
  "dec_struct members acc t =
     (case json_parse t of Some (JObj ms) \<Rightarrow> members acc ms | Some JNull \<Rightarrow> Some acc | _ \<Rightarrow> None)"

text \<open>\<open>DisallowUnknownFields\<close>: every member must name a field.\<close>

definition known_fields :: "string list \<Rightarrow> (string \<times> string) list \<Rightarrow> bool" where
  "known_fields fs ms \<longleftrightarrow> (\<forall>m \<in> set ms. \<exists>f \<in> set fs. names f m)"

text \<open>\<open>json.NewDecoder(r.Body).Decode\<close> reads one value and leaves what follows it.\<close>

definition json_first :: "string \<Rightarrow> json_value option" where
  "json_first s = map_option fst (json_read (2 * length s + 2) 0 (json_ws s))"

section \<open>What is marshalled is decoded back\<close>

definition utf8_text :: "string \<Rightarrow> bool" where
  "utf8_text s \<longleftrightarrow> coerce_utf8 s = s"

definition shallow :: "json_tree \<Rightarrow> bool" where
  "shallow v \<longleftrightarrow> json_ok v \<and> int (json_depth v) \<le> max_nesting"

lemma parse_text: "shallow v \<Longrightarrow> json_parse (json_text v) = Some (json_view v)"
  using json_parse_Marshal [of v "json_text v"] by (simp add: shallow_def json_Marshal_def)

lemma shallow_leaf [simp]:
  "shallow (JTStr s)" "shallow (JTBool b)" "shallow (JTInt i)" "shallow JTNull"
  by (simp_all add: shallow_def max_nesting_def)

lemma shallow_member: "shallow (JTObj ms) \<Longrightarrow> m \<in> set ms \<Longrightarrow> shallow (snd m)"
  using depth_le(2) [of m ms] by (auto simp: shallow_def)

lemma shallow_elem: "shallow (JTArr vs) \<Longrightarrow> v \<in> set vs \<Longrightarrow> shallow v"
  using depth_le(1) [of v vs] by (auto simp: shallow_def)

lemma dec_own_string: "utf8_text s \<Longrightarrow> dec_string a (json_text (JTStr s)) = Some s"
  by (simp add: dec_string_def parse_text utf8_text_def del: json_text.simps)

lemma dec_own_bool: "dec_bool a (json_text (JTBool b)) = Some b"
  by (simp add: dec_bool_def parse_text del: json_text.simps)

lemma dec_elems_own:
  assumes "\<forall>x \<in> set xs. \<forall>a. dec a (json_text (f x)) = Some x"
  shows "dec_elems dec z acc (map (\<lambda>x. json_text (f x)) xs) = Some xs"
  using assms by (induction xs arbitrary: acc) (auto simp del: json_text.simps split: list.splits)

lemma dec_own_list:
  assumes "shallow (JTArr (map f xs))" and "\<forall>x \<in> set xs. \<forall>a. dec a (json_text (f x)) = Some x"
  shows "dec_list dec z acc (json_text (JTArr (map f xs))) = Some xs"
  using dec_elems_own [OF assms(2)] by (simp add: dec_list_def parse_text [OF assms(1)] comp_def del: json_text.simps)

lemma dec_own_null_list: "dec_list dec z acc (json_text JTNull) = Some []"
  by (simp add: dec_list_def parse_text del: json_text.simps)

lemma depth_arr_le: "\<forall>v \<in> set vs. json_depth v \<le> n \<Longrightarrow> json_depth (JTArr vs) \<le> Suc n"
  by (auto simp: Max_le_iff)

lemma depth_obj_le: "\<forall>m \<in> set ms. json_depth (snd m) \<le> n \<Longrightarrow> json_depth (JTObj ms) \<le> Suc n"
  by (auto simp: Max_le_iff)

text \<open>A value that can be marshalled and is nested at most so deep.\<close>

definition flat :: "nat \<Rightarrow> json_tree \<Rightarrow> bool" where
  "flat n v \<longleftrightarrow> json_ok v \<and> json_depth v \<le> n"

lemma flat_shallow: "flat n v \<Longrightarrow> n \<le> 10 \<Longrightarrow> shallow v"
  by (simp add: flat_def shallow_def max_nesting_def)

lemma flat_leaf [simp]: "flat n (JTStr s)" "flat n (JTBool b)" "flat n (JTInt i)" "flat n JTNull"
  by (simp_all add: flat_def)

lemma flat_arr: "\<forall>v \<in> set vs. flat n v \<Longrightarrow> flat (Suc n) (JTArr vs)"
  using depth_arr_le [of vs n] by (simp add: flat_def del: json_depth.simps)

lemma flat_obj: "\<forall>m \<in> set ms. flat n (snd m) \<Longrightarrow> flat (Suc n) (JTObj ms)"
  using depth_obj_le [of ms n] by (simp add: flat_def del: json_depth.simps)

lemma flat_mono: "flat m v \<Longrightarrow> m \<le> n \<Longrightarrow> flat n v"
  by (auto simp: flat_def)

lemma dec_own_strings: "list_all utf8_text ts \<Longrightarrow> dec_list dec_string z acc (json_text (JTArr (map JTStr ts))) = Some ts"
  by (rule dec_own_list) (auto simp: dec_own_string list_all_iff shallow_def max_nesting_def Max_le_iff
    simp del: json_text.simps intro!: order.trans [OF _ zero_le_numeral])

text \<open>A stream that starts with a marshalled value.\<close>

lemma json_first_text:
  assumes "shallow v"
  shows "json_first (json_text v) = Some (json_view v)"
proof -
  have "json_read (Suc (2 * length (json_text v) + 1)) 0 (json_text v @ []) = Some (json_view v, [])"
    by (rule json_read_back(1)) (use assms in \<open>simp_all add: shallow_def number_ends_def\<close>)
  moreover have "json_ws (json_text v) = json_text v"
    using json_text_first(1) [of v "[]"] assms by (simp add: shallow_def)
  ultimately show ?thesis by (simp add: json_first_def)
qed

section \<open>Integers are decoded back\<close>

lemma decimal_append: "decimal (s @ [c]) = decimal s * 10 + int (byte c) - 48"
  by (simp add: decimal_def)

lemma decimal_fmt_nat: "decimal (fmt_nat n) = int n"
proof (induction n rule: fmt_nat.induct)
  case (1 n)
  show ?case
  proof (cases "n < 10")
    case True
    then show ?thesis by (subst fmt_nat.simps) (simp add: decimal_def byte_char_of)
  next
    case False
    then have "decimal (fmt_nat n) = decimal (fmt_nat (n div 10)) * 10 + int (48 + n mod 10) - 48"
      by (subst fmt_nat.simps) (simp add: decimal_append byte_char_of)
    moreover have "n = n div 10 * 10 + n mod 10" by simp
    then have "int n = int (n div 10) * 10 + int (n mod 10)" by linarith
    ultimately show ?thesis using 1 False by simp
  qed
qed

lemma int_literal_fmt_int:
  assumes "- (2 ^ 63) \<le> i" and "i < 2 ^ 63"
  shows "int_literal (fmt_int i) = Some i"
proof -
  have d: "\<not> (\<exists>c \<in> set (fmt_nat n). byte c < 48 \<or> 57 < byte c)" for n
    using fmt_nat_digits [of _ n] by (fastforce simp: byte_def)
  have m: "\<not> prefix ''-'' (fmt_nat n)" for n
  proof
    assume "prefix ''-'' (fmt_nat n)"
    then have "CHR ''-'' \<in> set (fmt_nat n)" by (cases "fmt_nat n") auto
    with fmt_nat_digits [of "CHR ''-''" n] show False by simp
  qed
  show ?thesis
  proof (cases "i < 0")
    case True
    then have "fmt_int i = CHR ''-'' # fmt_nat (nat (- i))" by (simp add: fmt_int_def)
    then show ?thesis using True d assms by (simp add: int_literal_def decimal_fmt_nat)
  next
    case False
    then have "fmt_int i = fmt_nat (nat i)" by (simp add: fmt_int_def)
    then show ?thesis using False d m assms by (simp add: int_literal_def decimal_fmt_nat)
  qed
qed

lemma dec_own_int:
  assumes "w \<le> 64" and "- (2 ^ (w - 1)) \<le> i" and "i < 2 ^ (w - 1)"
  shows "dec_int w a (json_text (JTInt i)) = Some i"
proof -
  have "(2 :: int) ^ (w - 1) \<le> 2 ^ 63" using assms(1) by (intro power_increasing) auto
  then have "int_literal (fmt_int i) = Some i" using assms(2,3) by (intro int_literal_fmt_int) linarith+
  then show ?thesis using assms(2,3) by (simp add: dec_int_def parse_text del: json_text.simps)
qed

end
