(* ===== verification/Notify_Push.thy ===== *)
theory Notify_Push
  imports Notify_Dispatch Gift_Json_Structs Base64
begin

text \<open>
  The push providers of the Notification service
  (\<open>services/backend/notification/internal/push/apns.go\<close>, \<open>fcm.go\<close>) and what their requests carry as
  authorization.

  Outside of the program are the HTTP exchange, the clock and the signing of a text with the loaded key:
  they work on a world \<open>'h\<close>. No answer stands for any error of building or sending a request. A jsonb
  payload is its decoded form, as in the store.
\<close>

section \<open>The outside\<close>

record http_call =
  hc_url :: string
  hc_headers :: "(string \<times> string) list"
  hc_body :: string

record 'h push_env =
  ev_do :: "http_call \<Rightarrow> 'h \<Rightarrow> (int \<times> string) option \<times> 'h"
  ev_now :: "'h \<Rightarrow> time \<times> 'h"
  ev_sign_es :: "string \<Rightarrow> 'h \<Rightarrow> string option \<times> 'h"
  ev_sign_rs :: "string \<Rightarrow> 'h \<Rightarrow> string option \<times> 'h"

section \<open>Payloads\<close>

text \<open>The errors of these decoders are dropped: a member of another type leaves its field as it is.\<close>

fun loose_string :: "string \<Rightarrow> (string \<times> string) list \<Rightarrow> string \<Rightarrow> string" where
  "loose_string f [] acc = acc"
| "loose_string f (m # ms) acc =
     loose_string f ms (if names f m then (case json_parse (snd m) of Some (JStr v) \<Rightarrow> v | _ \<Rightarrow> acc) else acc)"

fun payload_string :: "string \<Rightarrow> payload \<Rightarrow> string \<Rightarrow> string" where
  "payload_string f [] acc = acc"
| "payload_string f ((k, v) # ms) acc =
     payload_string f ms (if fold_name k = fold_name f then (case v of PText s \<Rightarrow> s | PInt _ \<Rightarrow> acc) else acc)"

definition titleBody :: "payload \<Rightarrow> string \<times> string" where
  "titleBody p =
     (let title = payload_string ''title'' p [] in
      (if title = [] then ''PerfectGift'' else title, payload_string ''body'' p []))"

definition notification_json :: "push_message \<Rightarrow> json_tree" where
  "notification_json msg =
     (let (title, body) = titleBody (pm_Payload msg) in go_map [(''title'', JTStr title), (''body'', JTStr body)])"

definition buildAPNsPayload :: "push_message \<Rightarrow> string" where
  "buildAPNsPayload msg = json_text (go_map
     [(''aps'', go_map [(''alert'', notification_json msg), (''sound'', JTStr ''default'')]),
      (''type'', JTStr (notif_type_text (pm_Type msg)))])"

definition b64json :: "json_tree \<Rightarrow> string" where
  "b64json v = RawURLEncode (json_text v)"

text \<open>A compact token over a header and claims.\<close>

definition signing_input :: "json_tree \<Rightarrow> json_tree \<Rightarrow> string" where
  "signing_input h c = b64json h @ ''.'' @ b64json c"

definition jws :: "string \<Rightarrow> string \<Rightarrow> string" where
  "jws inp sig = inp @ ''.'' @ RawURLEncode sig"

section \<open>APNs (apns.go)\<close>

record apns_config =
  ac_KeyID :: string
  ac_TeamID :: string
  ac_Topic :: string
  ac_Sandbox :: bool

definition apns_host :: "apns_config \<Rightarrow> string" where
  "apns_host c = (if ac_Sandbox c then ''https://api.sandbox.push.apple.com'' else ''https://api.push.apple.com'')"

text \<open>The cached tokens of both providers.\<close>

record 'h push_world =
  pw_jwt :: string
  pw_jwtIssAt :: time
  pw_token :: string
  pw_exp :: time
  pw_out :: 'h

definition now_of :: "'h push_env \<Rightarrow> 'h push_world \<Rightarrow> time \<times> 'h push_world" where
  "now_of E w = (let (t, h) = ev_now E (pw_out w) in (t, w\<lparr>pw_out := h\<rparr>))"

definition do_call :: "'h push_env \<Rightarrow> http_call \<Rightarrow> 'h push_world \<Rightarrow> (int \<times> string) option \<times> 'h push_world" where
  "do_call E c w = (let (a, h) = ev_do E c (pw_out w) in (a, w\<lparr>pw_out := h\<rparr>))"

definition sign_with ::
  "(string \<Rightarrow> 'h \<Rightarrow> string option \<times> 'h) \<Rightarrow> string \<Rightarrow> 'h push_world \<Rightarrow> string option \<times> 'h push_world" where
  "sign_with f inp w = (let (s, h) = f inp (pw_out w) in (s, w\<lparr>pw_out := h\<rparr>))"

definition apns_input :: "apns_config \<Rightarrow> time \<Rightarrow> string" where
  "apns_input c now = signing_input (go_map [(''alg'', JTStr ''ES256''), (''kid'', JTStr (ac_KeyID c))])
     (go_map [(''iss'', JTStr (ac_TeamID c)), (''iat'', JTInt (now div ns_per_sec))])"

text \<open>The clock is only read for a cached token that is not empty.\<close>

definition apns_token :: "'h push_env \<Rightarrow> apns_config \<Rightarrow> 'h push_world \<Rightarrow> string option \<times> 'h push_world" where
  "apns_token E c w =
     (let (fresh, w1) =
        (if pw_jwt w = [] then (False, w)
         else let (t, w1) = now_of E w in (t - pw_jwtIssAt w < 50 * 60 * ns_per_sec, w1)) in
      if fresh then (Some (pw_jwt w1), w1)
      else
        let (now, w2) = now_of E w1;
            (sig, w3) = sign_with (ev_sign_es E) (apns_input c now) w2 in
        case sig of
          None \<Rightarrow> (None, w3)
        | Some s \<Rightarrow> let jwt = jws (apns_input c now) s in (Some jwt, w3\<lparr>pw_jwt := jwt, pw_jwtIssAt := now\<rparr>))"

definition apnsBadToken :: "string \<Rightarrow> bool" where
  "apnsBadToken body =
     (let reason = (case json_first body of Some (JObj ms) \<Rightarrow> loose_string ''reason'' ms [] | _ \<Rightarrow> []) in
      reason = ''BadDeviceToken'' \<or> reason = ''Unregistered'')"

definition apns_call :: "apns_config \<Rightarrow> string \<Rightarrow> device \<Rightarrow> push_message \<Rightarrow> http_call" where
  "apns_call c jwt d msg =
     \<lparr>hc_url = apns_host c @ ''/3/device/'' @ dv_PushToken d,
      hc_headers = [(''authorization'', ''bearer '' @ jwt), (''apns-topic'', ac_Topic c), (''apns-push-type'', ''alert'')],
      hc_body = buildAPNsPayload msg\<rparr>"

definition apns_verdict :: "(int \<times> string) option \<Rightarrow> push_error option" where
  "apns_verdict a =
     (case a of
        None \<Rightarrow> Some PushFailed
      | Some (s, body) \<Rightarrow>
          (if s = 200 then None
           else if s = 410 then Some ErrInvalidToken
           else if s = 400 \<and> apnsBadToken body then Some ErrInvalidToken
           else Some PushFailed))"

definition apns_Push :: "'h push_env \<Rightarrow> apns_config \<Rightarrow> 'h push_world pusher" where
  "apns_Push E c d msg w =
     (let (jwt, w1) = apns_token E c w in
      case jwt of
        None \<Rightarrow> (Some PushFailed, w1)
      | Some j \<Rightarrow> let (a, w2) = do_call E (apns_call c j d msg) w1 in (apns_verdict a, w2))"

section \<open>FCM (fcm.go)\<close>

record service_account =
  sa_ClientEmail :: string
  sa_PrivateKey :: string
  sa_TokenURI :: string
  sa_ProjectID :: string

definition sa_fields :: "service_account \<Rightarrow> (string \<times> string) list \<Rightarrow> service_account option" where
  "sa_fields a ms =
     Option.bind (string_field ''client_email'' ms (sa_ClientEmail a)) (\<lambda>e.
     Option.bind (string_field ''private_key'' ms (sa_PrivateKey a)) (\<lambda>k.
     Option.bind (string_field ''token_uri'' ms (sa_TokenURI a)) (\<lambda>u.
     Option.bind (string_field ''project_id'' ms (sa_ProjectID a)) (\<lambda>p.
       Some \<lparr>sa_ClientEmail = e, sa_PrivateKey = k, sa_TokenURI = u, sa_ProjectID = p\<rparr>))))"

text \<open>The credentials file, if it can be read; \<open>rsa_key\<close> tells whether a text is a PEM block with an RSA
  key.\<close>

definition newServiceAccountTokenSource :: "(string \<Rightarrow> bool) \<Rightarrow> string option \<Rightarrow> service_account option" where
  "newServiceAccountTokenSource rsa_key file =
     Option.bind file (\<lambda>raw.
     Option.bind (case json_parse raw of
         Some (JObj ms) \<Rightarrow> sa_fields \<lparr>sa_ClientEmail = [], sa_PrivateKey = [], sa_TokenURI = [], sa_ProjectID = []\<rparr> ms
       | Some JNull \<Rightarrow> Some \<lparr>sa_ClientEmail = [], sa_PrivateKey = [], sa_TokenURI = [], sa_ProjectID = []\<rparr>
       | _ \<Rightarrow> None) (\<lambda>sa.
       if \<not> rsa_key (sa_PrivateKey sa) then None
       else Some (if sa_TokenURI sa = [] then sa\<lparr>sa_TokenURI := ''https://oauth2.googleapis.com/token''\<rparr> else sa)))"

record fcm =
  fc_projectID :: string
  fc_sa :: service_account

definition NewFCM :: "(string \<Rightarrow> bool) \<Rightarrow> string option \<Rightarrow> string \<Rightarrow> fcm option" where
  "NewFCM rsa_key file cfg_project =
     (case newServiceAccountTokenSource rsa_key file of
        None \<Rightarrow> None
      | Some sa \<Rightarrow>
          (let p = (if cfg_project \<noteq> [] then cfg_project else sa_ProjectID sa) in
           if p = [] then None else Some \<lparr>fc_projectID = p, fc_sa = sa\<rparr>))"

definition fcmScope :: string where
  "fcmScope = ''https://www.googleapis.com/auth/firebase.messaging''"

definition sa_input :: "service_account \<Rightarrow> time \<Rightarrow> string" where
  "sa_input sa now = signing_input (go_map [(''alg'', JTStr ''RS256''), (''typ'', JTStr ''JWT'')])
     (go_map [(''iss'', JTStr (sa_ClientEmail sa)), (''scope'', JTStr fcmScope), (''aud'', JTStr (sa_TokenURI sa)),
        (''iat'', JTInt (now div ns_per_sec)), (''exp'', JTInt ((now + 3600 * ns_per_sec) div ns_per_sec))])"

text \<open>\<open>form.Encode()\<close>: the keys in order. The assertion is made of characters that need no escape.\<close>

definition sa_call :: "service_account \<Rightarrow> string \<Rightarrow> http_call" where
  "sa_call sa assertion =
     \<lparr>hc_url = sa_TokenURI sa, hc_headers = [(''content-type'', ''application/x-www-form-urlencoded'')],
      hc_body = ''assertion='' @ assertion @ ''&grant_type=urn%3Aietf%3Aparams%3Aoauth%3Agrant-type%3Ajwt-bearer''\<rparr>"

text \<open>The token and its lifetime in the answer of the token endpoint.\<close>

definition token_answer :: "(int \<times> string) option \<Rightarrow> (string \<times> int) option" where
  "token_answer a =
     (case a of
        None \<Rightarrow> None
      | Some (s, body) \<Rightarrow>
          (if s \<noteq> 200 then None
           else case json_first body of
                  Some (JObj ms) \<Rightarrow>
                    (case (string_field ''access_token'' ms [], int_field ''expires_in'' ms 0) of
                       (Some t, Some n) \<Rightarrow> Some (t, n)
                     | _ \<Rightarrow> None)
                | Some JNull \<Rightarrow> Some ([], 0)
                | _ \<Rightarrow> None))"

definition sa_Token :: "'h push_env \<Rightarrow> service_account \<Rightarrow> 'h push_world \<Rightarrow> string option \<times> 'h push_world" where
  "sa_Token E sa w =
     (let (fresh, w1) =
        (if pw_token w = [] then (False, w)
         else let (t, w1) = now_of E w in (60 * ns_per_sec < pw_exp w - t, w1)) in
      if fresh then (Some (pw_token w1), w1)
      else
        let (now, w2) = now_of E w1;
            (sig, w3) = sign_with (ev_sign_rs E) (sa_input sa now) w2 in
        case sig of
          None \<Rightarrow> (None, w3)
        | Some s \<Rightarrow>
            (let (a, w4) = do_call E (sa_call sa (jws (sa_input sa now) s)) w3 in
             case token_answer a of
               None \<Rightarrow> (None, w4)
             | Some (t, n) \<Rightarrow> (Some t, w4\<lparr>pw_token := t, pw_exp := now + wrap64 (n * ns_per_sec)\<rparr>)))"

text \<open>The list of details is decoded into the elements read before, if there are any.\<close>

fun loose_codes :: "string list \<Rightarrow> string list \<Rightarrow> string list" where
  "loose_codes acc [] = []"
| "loose_codes acc (t # ts) =
     (let old = (case acc of [] \<Rightarrow> [] | a # _ \<Rightarrow> a) in
      (case json_parse t of Some (JObj ms) \<Rightarrow> loose_string ''errorCode'' ms old | _ \<Rightarrow> old) # loose_codes (drop 1 acc) ts)"

fun loose_details :: "(string \<times> string) list \<Rightarrow> string list \<Rightarrow> string list" where
  "loose_details [] acc = acc"
| "loose_details (m # ms) acc =
     loose_details ms
       (if names ''details'' m
        then (case json_parse (snd m) of Some (JArr ts) \<Rightarrow> loose_codes acc ts | Some JNull \<Rightarrow> [] | _ \<Rightarrow> acc)
        else acc)"

fun loose_error :: "(string \<times> string) list \<Rightarrow> string \<times> string list \<Rightarrow> string \<times> string list" where
  "loose_error [] acc = acc"
| "loose_error (m # ms) acc =
     loose_error ms
       (if names ''error'' m
        then (case json_parse (snd m) of
                Some (JObj es) \<Rightarrow> (loose_string ''status'' es (fst acc), loose_details es (snd acc))
              | _ \<Rightarrow> acc)
        else acc)"

definition fcmUnregistered :: "string \<Rightarrow> bool" where
  "fcmUnregistered body =
     (let (st, codes) = (case json_first body of Some (JObj ms) \<Rightarrow> loose_error ms ([], []) | _ \<Rightarrow> ([], [])) in
      st = ''NOT_FOUND'' \<or> ''UNREGISTERED'' \<in> set codes)"

definition fcm_call :: "fcm \<Rightarrow> string \<Rightarrow> device \<Rightarrow> push_message \<Rightarrow> http_call" where
  "fcm_call f tok d msg =
     \<lparr>hc_url = ''https://fcm.googleapis.com/v1/projects/'' @ fc_projectID f @ ''/messages:send'',
      hc_headers = [(''authorization'', ''Bearer '' @ tok), (''content-type'', ''application/json'')],
      hc_body = json_text (go_map [(''message'', go_map
        [(''token'', JTStr (dv_PushToken d)), (''notification'', notification_json msg),
         (''data'', go_map [(''type'', JTStr (notif_type_text (pm_Type msg)))])])])\<rparr>"

definition fcm_verdict :: "(int \<times> string) option \<Rightarrow> push_error option" where
  "fcm_verdict a =
     (case a of
        None \<Rightarrow> Some PushFailed
      | Some (s, body) \<Rightarrow>
          (if s = 200 then None
           else if s = 404 \<or> fcmUnregistered body then Some ErrInvalidToken
           else Some PushFailed))"

definition fcm_Push :: "'h push_env \<Rightarrow> fcm \<Rightarrow> 'h push_world pusher" where
  "fcm_Push E f d msg w =
     (let (tok, w1) = sa_Token E (fc_sa f) w in
      case tok of
        None \<Rightarrow> (Some PushFailed, w1)
      | Some t \<Rightarrow> let (a, w2) = do_call E (fcm_call f t d msg) w1 in (fcm_verdict a, w2))"

text \<open>The router of the service, and the pushes of a run.\<close>

definition providers ::
  "'h push_env \<Rightarrow> apns_config option \<Rightarrow> fcm option \<Rightarrow> platform \<Rightarrow> 'h push_world pusher option" where
  "providers E a f p =
     (case p of
        PlatformIOS \<Rightarrow> map_option (apns_Push E) a
      | PlatformAndroid \<Rightarrow> map_option (fcm_Push E) f
      | PlatformText _ \<Rightarrow> None)"

section \<open>A record of the requests\<close>

text \<open>The outside with the last reading of the clock and the requests so far: each with the reading it was
  sent after and the answer.\<close>

type_synonym logged_call = "time \<times> http_call \<times> (int \<times> string) option"

record 'h push_log =
  pl_out :: 'h
  pl_last :: time
  pl_log :: "logged_call list"

definition logged_do :: "'h push_env \<Rightarrow> http_call \<Rightarrow> 'h push_log \<Rightarrow> (int \<times> string) option \<times> 'h push_log" where
  "logged_do E c l = (let (a, h) = ev_do E c (pl_out l) in (a, l\<lparr>pl_out := h, pl_log := pl_log l @ [(pl_last l, c, a)]\<rparr>))"

definition logged_now :: "'h push_env \<Rightarrow> 'h push_log \<Rightarrow> time \<times> 'h push_log" where
  "logged_now E l = (let (t, h) = ev_now E (pl_out l) in (t, l\<lparr>pl_out := h, pl_last := t\<rparr>))"

definition logged_sign :: "(string \<Rightarrow> 'h \<Rightarrow> string option \<times> 'h) \<Rightarrow> string \<Rightarrow> 'h push_log \<Rightarrow> string option \<times> 'h push_log" where
  "logged_sign f s l = (let (r, h) = f s (pl_out l) in (r, l\<lparr>pl_out := h\<rparr>))"

definition logged :: "'h push_env \<Rightarrow> 'h push_log push_env" where
  "logged E =
     \<lparr>ev_do = logged_do E, ev_now = logged_now E, ev_sign_es = logged_sign (ev_sign_es E),
      ev_sign_rs = logged_sign (ev_sign_rs E)\<rparr>"

definition log_of :: "'h push_log push_world \<Rightarrow> logged_call list" where
  "log_of w = pl_log (pw_out w)"

definition last_of :: "'h push_log push_world \<Rightarrow> time" where
  "last_of w = pl_last (pw_out w)"

text \<open>A request of the token source that was answered with a token.\<close>

definition token_issued :: "service_account \<Rightarrow> logged_call list \<Rightarrow> string \<Rightarrow> int \<Rightarrow> time \<Rightarrow> bool" where
  "token_issued sa cs tok n issued \<longleftrightarrow>
     (\<exists>sig ans. (issued, sa_call sa (jws (sa_input sa issued) sig), ans) \<in> set cs \<and> token_answer ans = Some (tok, n))"

text \<open>
  What a request may be, given the requests before it: a notification to APNs with a token signed less than
  50 minutes before; a request for a token whose assertion was signed just then; a notification to FCM with
  a token that was issued just then, or that has more than a minute left.
\<close>

definition authorised ::
  "apns_config option \<Rightarrow> fcm option \<Rightarrow> (device \<times> push_message) list \<Rightarrow> logged_call list \<Rightarrow> logged_call \<Rightarrow> bool" where
  "authorised a f vs before x \<longleftrightarrow>
     (case x of (t, c, ans) \<Rightarrow>
       (\<exists>cfg d msg issued sig. a = Some cfg \<and> (d, msg) \<in> set vs \<and> dv_Platform d = PlatformIOS \<and>
          c = apns_call cfg (jws (apns_input cfg issued) sig) d msg \<and> t - issued < 50 * 60 * ns_per_sec)
     \<or> (\<exists>g sig. f = Some g \<and> c = sa_call (fc_sa g) (jws (sa_input (fc_sa g) t) sig))
     \<or> (\<exists>g d msg tok n issued. f = Some g \<and> (d, msg) \<in> set vs \<and> dv_Platform d = PlatformAndroid \<and>
          c = fcm_call g tok d msg \<and> token_issued (fc_sa g) before tok n issued \<and>
          (t = issued \<or> 60 * ns_per_sec < issued + wrap64 (n * ns_per_sec) - t)))"

text \<open>A provider called the token of this device dead.\<close>

definition called_dead :: "apns_config option \<Rightarrow> fcm option \<Rightarrow> device \<times> push_message \<Rightarrow> logged_call list \<Rightarrow> bool" where
  "called_dead a f v cs \<longleftrightarrow>
     (\<exists>t c ans. (t, c, ans) \<in> set cs \<and>
        ((\<exists>cfg j. a = Some cfg \<and> c = apns_call cfg j (fst v) (snd v) \<and> apns_verdict ans = Some ErrInvalidToken) \<or>
         (\<exists>g tok. f = Some g \<and> c = fcm_call g tok (fst v) (snd v) \<and> fcm_verdict ans = Some ErrInvalidToken)))"

fun push_run :: "'m pusher \<Rightarrow> (device \<times> push_message) list \<Rightarrow> 'm \<Rightarrow> push_error option list \<times> 'm" where
  "push_run p [] w = ([], w)"
| "push_run p ((d, msg) # vs) w = (let (e, w1) = p d msg w; (es, w2) = push_run p vs w1 in (e # es, w2))"

section \<open>What the caches hold\<close>

definition log_ok :: "apns_config option \<Rightarrow> fcm option \<Rightarrow> (device \<times> push_message) list \<Rightarrow> logged_call list \<Rightarrow> bool" where
  "log_ok a f vs cs \<longleftrightarrow> (\<forall>i < length cs. authorised a f vs (take i cs) (cs ! i))"

definition cache_ok :: "apns_config option \<Rightarrow> fcm option \<Rightarrow> 'h push_log push_world \<Rightarrow> bool" where
  "cache_ok a f w \<longleftrightarrow>
     (pw_jwt w = [] \<or> (\<exists>cfg sig. a = Some cfg \<and> pw_jwt w = jws (apns_input cfg (pw_jwtIssAt w)) sig)) \<and>
     (pw_token w = [] \<or> (\<exists>g n issued. f = Some g \<and> token_issued (fc_sa g) (log_of w) (pw_token w) n issued \<and>
        pw_exp w = issued + wrap64 (n * ns_per_sec)))"

lemma log_ok_snoc: "log_ok a f vs (cs @ [x]) \<longleftrightarrow> log_ok a f vs cs \<and> authorised a f vs cs x"
  by (auto simp: log_ok_def nth_append less_Suc_eq)

lemma token_issued_mono: "token_issued sa cs tok n t \<Longrightarrow> token_issued sa (cs @ ds) tok n t"
  by (auto simp: token_issued_def)

lemma log_world [simp]:
  "log_of (w\<lparr>pw_jwt := j\<rparr>) = log_of w" "log_of (w\<lparr>pw_jwtIssAt := t\<rparr>) = log_of w"
  "log_of (w\<lparr>pw_token := k\<rparr>) = log_of w" "log_of (w\<lparr>pw_exp := t\<rparr>) = log_of w"
  "last_of (w\<lparr>pw_jwt := j\<rparr>) = last_of w" "last_of (w\<lparr>pw_jwtIssAt := t\<rparr>) = last_of w"
  "last_of (w\<lparr>pw_token := k\<rparr>) = last_of w" "last_of (w\<lparr>pw_exp := t\<rparr>) = last_of w"
  by (simp_all add: log_of_def last_of_def)

text \<open>An operation of the outside leaves the caches.\<close>

definition same_cache :: "'h push_world \<Rightarrow> 'h push_world \<Rightarrow> bool" where
  "same_cache w w' \<longleftrightarrow> pw_jwt w' = pw_jwt w \<and> pw_jwtIssAt w' = pw_jwtIssAt w \<and> pw_token w' = pw_token w \<and> pw_exp w' = pw_exp w"

lemma now_logged: "now_of (logged E) w = (t, w') \<Longrightarrow> same_cache w w' \<and> log_of w' = log_of w \<and> last_of w' = t"
  by (auto simp: now_of_def logged_def logged_now_def same_cache_def log_of_def last_of_def split: prod.splits)

lemma do_logged: "do_call (logged E) c w = (ans, w') \<Longrightarrow>
    same_cache w w' \<and> log_of w' = log_of w @ [(last_of w, c, ans)] \<and> last_of w' = last_of w"
  by (auto simp: do_call_def logged_def logged_do_def same_cache_def log_of_def last_of_def split: prod.splits)

lemma sign_logged:
  "sign_with (ev_sign_es (logged E)) s w = (r, w') \<Longrightarrow> same_cache w w' \<and> log_of w' = log_of w \<and> last_of w' = last_of w"
  "sign_with (ev_sign_rs (logged E)) s w = (r, w') \<Longrightarrow> same_cache w w' \<and> log_of w' = log_of w \<and> last_of w' = last_of w"
  by (auto simp: sign_with_def logged_def logged_sign_def same_cache_def log_of_def last_of_def split: prod.splits)

lemma cache_ok_frame:
  "cache_ok a f w \<Longrightarrow> same_cache w w' \<Longrightarrow> log_of w' = log_of w @ ds \<Longrightarrow> cache_ok a f w'"
  by (auto simp: cache_ok_def same_cache_def intro: token_issued_mono)

lemma apns_token_logged:
  assumes "cache_ok a f w" and "a = Some cfg" and "apns_token (logged E) cfg w = (r, w')"
  shows "cache_ok a f w' \<and> log_of w' = log_of w \<and>
    (\<forall>j. r = Some j \<longrightarrow> (\<exists>issued sig. j = jws (apns_input cfg issued) sig \<and> last_of w' - issued < 50 * 60 * ns_per_sec))"
proof -
  obtain t w1 where 1: "now_of (logged E) w = (t, w1)" by fastforce
  note n1 = now_logged [OF 1]
  show ?thesis
  proof (cases "pw_jwt w \<noteq> [] \<and> t - pw_jwtIssAt w < 50 * 60 * ns_per_sec")
    case True
    with 1 assms(3) have "r = Some (pw_jwt w1)" "w' = w1" by (auto simp: apns_token_def)
    moreover have "cache_ok a f w1" using cache_ok_frame [OF assms(1), of w1 "[]"] n1 by simp
    moreover obtain sig where "pw_jwt w = jws (apns_input cfg (pw_jwtIssAt w)) sig"
      using True assms(1,2) by (auto simp: cache_ok_def)
    ultimately show ?thesis using n1 True by (auto simp: same_cache_def)
  next
    case False
    define u where "u = (if pw_jwt w = [] then w else w1)"
    have u: "same_cache w u" "log_of u = log_of w" using n1 by (auto simp: u_def same_cache_def)
    obtain now w2 where 2: "now_of (logged E) u = (now, w2)" by fastforce
    obtain s w3 where 3: "sign_with (ev_sign_es (logged E)) (apns_input cfg now) w2 = (s, w3)" by fastforce
    note n2 = now_logged [OF 2] and n3 = sign_logged(1) [OF 3]
    have "apns_token (logged E) cfg w = (case s of
        None \<Rightarrow> (None, w3)
      | Some x \<Rightarrow> (Some (jws (apns_input cfg now) x), w3\<lparr>pw_jwt := jws (apns_input cfg now) x, pw_jwtIssAt := now\<rparr>))"
      using False 1 2 3 by (cases "pw_jwt w = []"; cases s) (auto simp: apns_token_def u_def Let_def)
    moreover have c3: "cache_ok a f w3"
      using cache_ok_frame [OF assms(1), of w3 "[]"] u n2 n3 by (auto simp: same_cache_def)
    ultimately show ?thesis using assms(2,3) u n2 n3
      by (cases s) (auto simp: cache_ok_def ns_per_sec_def)
  qed
qed

lemma sa_Token_logged:
  assumes "cache_ok a f w" and "log_ok a f vs (log_of w)" and "f = Some g" and "sa_Token (logged E) (fc_sa g) w = (r, w')"
  shows "cache_ok a f w' \<and> log_ok a f vs (log_of w') \<and> (\<exists>ds. log_of w' = log_of w @ ds) \<and>
    (\<forall>tok. r = Some tok \<longrightarrow> (\<exists>n issued. token_issued (fc_sa g) (log_of w') tok n issued \<and>
       (last_of w' = issued \<or> 60 * ns_per_sec < issued + wrap64 (n * ns_per_sec) - last_of w')))"
proof -
  obtain t w1 where 1: "now_of (logged E) w = (t, w1)" by fastforce
  note n1 = now_logged [OF 1]
  show ?thesis
  proof (cases "pw_token w \<noteq> [] \<and> 60 * ns_per_sec < pw_exp w - t")
    case True
    with 1 assms(4) have "r = Some (pw_token w1)" "w' = w1" by (auto simp: sa_Token_def)
    moreover have "cache_ok a f w1" using cache_ok_frame [OF assms(1), of w1 "[]"] n1 by simp
    moreover obtain n issued where "token_issued (fc_sa g) (log_of w) (pw_token w) n issued"
      "pw_exp w = issued + wrap64 (n * ns_per_sec)"
      using True assms(1,3) by (auto simp: cache_ok_def)
    ultimately show ?thesis using n1 True assms(2) by (auto simp: same_cache_def)
  next
    case False
    define u where "u = (if pw_token w = [] then w else w1)"
    have u: "same_cache w u" "log_of u = log_of w" using n1 by (auto simp: u_def same_cache_def)
    obtain now w2 where 2: "now_of (logged E) u = (now, w2)" by fastforce
    obtain s w3 where 3: "sign_with (ev_sign_rs (logged E)) (sa_input (fc_sa g) now) w2 = (s, w3)" by fastforce
    note n2 = now_logged [OF 2] and n3 = sign_logged(2) [OF 3]
    have c3: "cache_ok a f w3" and l3: "log_of w3 = log_of w" "last_of w3 = now"
      using cache_ok_frame [OF assms(1), of w3 "[]"] u n2 n3 by (auto simp: same_cache_def)
    show ?thesis
    proof (cases s)
      case None
      have "r = None" "w' = w3" using assms(4) False 1 2 3 None
        by (cases "pw_token w = []"; auto simp: sa_Token_def u_def Let_def)+
      then show ?thesis using c3 l3 assms(2) by simp
    next
      case (Some x)
      let ?c = "sa_call (fc_sa g) (jws (sa_input (fc_sa g) now) x)"
      obtain ans w4 where 4: "do_call (logged E) ?c w3 = (ans, w4)" by fastforce
      note n4 = do_logged [OF 4]
      have c4: "cache_ok a f w4" and l4: "log_of w4 = log_of w @ [(now, ?c, ans)]" "last_of w4 = now"
        using cache_ok_frame [OF c3, of w4 "[(now, ?c, ans)]"] n4 l3 by auto
      have a4: "log_ok a f vs (log_of w4)"
        using assms(2,3) by (auto simp: l4 log_ok_snoc authorised_def)
      have res: "(r, w') = (case token_answer ans of
          None \<Rightarrow> (None, w4)
        | Some (t, n) \<Rightarrow> (Some t, w4\<lparr>pw_token := t, pw_exp := now + wrap64 (n * ns_per_sec)\<rparr>))"
        using assms(4) False 1 2 3 4 Some
        by (cases "pw_token w = []"; cases "token_answer ans") (auto simp: sa_Token_def u_def Let_def)
      show ?thesis
      proof (cases "token_answer ans")
        case None
        then show ?thesis using res c4 a4 l4 by simp
      next
        case (Some y)
        obtain k n where y: "y = (k, n)" by fastforce
        have i: "token_issued (fc_sa g) (log_of w4) k n now"
          using Some y by (auto simp: token_issued_def l4)
        then have "cache_ok a f (w4\<lparr>pw_token := k, pw_exp := now + wrap64 (n * ns_per_sec)\<rparr>)"
          using c4 assms(3) by (auto simp: cache_ok_def)
        then show ?thesis using res Some y a4 l4 i by auto
      qed
    qed
  qed
qed

text \<open>A push through the router.\<close>

lemma push_logged:
  assumes "cache_ok a f w" and "log_ok a f vs (log_of w)" and "(d, msg) \<in> set vs"
    and "router_Push (providers (logged E) a f) d msg w = (e, w')"
  shows "cache_ok a f w' \<and> log_ok a f vs (log_of w') \<and> (\<exists>ds. log_of w' = log_of w @ ds) \<and>
    (e = Some ErrInvalidToken \<longrightarrow> called_dead a f (d, msg) (log_of w'))"
proof (cases "providers (logged E) a f (dv_Platform d)")
  case None
  then have "e = Some PushFailed" "w' = w" using assms(4) by (simp_all add: router_Push_def)
  then show ?thesis using assms(1,2) by simp
next
  case (Some p)
  consider cfg where "dv_Platform d = PlatformIOS" "a = Some cfg" "p = apns_Push (logged E) cfg"
    | g where "dv_Platform d = PlatformAndroid" "f = Some g" "p = fcm_Push (logged E) g"
    using Some by (cases "dv_Platform d") (auto simp: providers_def)
  then show ?thesis
  proof cases
    case 1
    obtain j w1 where t: "apns_token (logged E) cfg w = (j, w1)" by fastforce
    note n1 = apns_token_logged [OF assms(1) 1(2) t]
    show ?thesis
    proof (cases j)
      case None
      then have "e = Some PushFailed" "w' = w1" using assms(4) Some 1 t by (simp_all add: router_Push_def apns_Push_def)
      then show ?thesis using n1 assms(2) by simp
    next
      case j: (Some k)
      obtain ans w2 where 2: "do_call (logged E) (apns_call cfg k d msg) w1 = (ans, w2)" by fastforce
      have w': "e = apns_verdict ans" "w' = w2" using assms(4) Some 1 t j 2 by (simp_all add: router_Push_def apns_Push_def)
      note n2 = do_logged [OF 2]
      obtain issued sig where "k = jws (apns_input cfg issued) sig" "last_of w1 - issued < 50 * 60 * ns_per_sec"
        using n1 j by auto
      then have "authorised a f vs (log_of w1) (last_of w1, apns_call cfg k d msg, ans)"
        using 1(1,2) assms(3) unfolding authorised_def by blast
      then have "log_ok a f vs (log_of w2)" using n1 n2 assms(2) by (simp add: log_ok_snoc)
      moreover have "cache_ok a f w2" using cache_ok_frame n1 n2 by blast
      moreover have "e = Some ErrInvalidToken \<longrightarrow> called_dead a f (d, msg) (log_of w2)"
        using n2 w' 1(2) by (fastforce simp: called_dead_def)
      ultimately show ?thesis using n1 n2 w' by simp
    qed
  next
    case 2
    obtain j w1 where t: "sa_Token (logged E) (fc_sa g) w = (j, w1)" by fastforce
    note n1 = sa_Token_logged [OF assms(1,2) 2(2) t]
    show ?thesis
    proof (cases j)
      case None
      then have "e = Some PushFailed" "w' = w1" using assms(4) Some 2 t by (simp_all add: router_Push_def fcm_Push_def)
      then show ?thesis using n1 by simp
    next
      case j: (Some k)
      obtain ans w2 where 3: "do_call (logged E) (fcm_call g k d msg) w1 = (ans, w2)" by fastforce
      have w': "e = fcm_verdict ans" "w' = w2" using assms(4) Some 2 t j 3 by (simp_all add: router_Push_def fcm_Push_def)
      note n3 = do_logged [OF 3]
      obtain n issued where i: "token_issued (fc_sa g) (log_of w1) k n issued"
        "last_of w1 = issued \<or> 60 * ns_per_sec < issued + wrap64 (n * ns_per_sec) - last_of w1"
        using n1 j by auto
      then have "authorised a f vs (log_of w1) (last_of w1, fcm_call g k d msg, ans)"
        using 2(1,2) assms(3) unfolding authorised_def by blast
      then have "log_ok a f vs (log_of w2)" using n1 n3 by (simp add: log_ok_snoc)
      moreover have "cache_ok a f w2" using cache_ok_frame n1 n3 by blast
      moreover have "e = Some ErrInvalidToken \<longrightarrow> called_dead a f (d, msg) (log_of w2)"
        using n3 w' 2(2) by (fastforce simp: called_dead_def)
      ultimately show ?thesis using n1 n3 w' by auto
    qed
  qed
qed

lemma called_dead_mono: "called_dead a f v cs \<Longrightarrow> called_dead a f v (cs @ ds)"
  by (simp only: called_dead_def set_append Un_iff) blast

lemma push_run_logged:
  assumes "set ws \<subseteq> set vs" and "cache_ok a f w" and "log_ok a f vs (log_of w)"
    and "push_run (router_Push (providers (logged E) a f)) ws w = (es, w')"
  shows "log_ok a f vs (log_of w') \<and> (\<exists>ds. log_of w' = log_of w @ ds) \<and> length es = length ws \<and>
    (\<forall>k < length ws. es ! k = Some ErrInvalidToken \<longrightarrow> called_dead a f (ws ! k) (log_of w'))"
  using assms
proof (induction ws arbitrary: w es)
  case Nil
  then show ?case by simp
next
  case (Cons v ws)
  obtain d msg where v: "v = (d, msg)" by fastforce
  obtain e w1 where 1: "router_Push (providers (logged E) a f) d msg w = (e, w1)" by fastforce
  obtain es' w2 where 2: "push_run (router_Push (providers (logged E) a f)) ws w1 = (es', w2)" by fastforce
  have o: "es = e # es'" "w2 = w'" using Cons.prems(4) by (auto simp: v 1 2)
  have "(d, msg) \<in> set vs" using Cons.prems(1) v by simp
  from push_logged [OF Cons.prems(2,3) this 1] obtain ds where
    n: "cache_ok a f w1" "log_ok a f vs (log_of w1)" "log_of w1 = log_of w @ ds"
      "e = Some ErrInvalidToken \<longrightarrow> called_dead a f v (log_of w1)" using v by auto
  from Cons.prems(1) have "set ws \<subseteq> set vs" by simp
  from Cons.IH [OF this n(1,2) 2 [unfolded o(2)]] obtain ds' where
    r: "log_ok a f vs (log_of w')" "log_of w' = log_of w1 @ ds'" "length es' = length ws"
      "\<forall>k < length ws. es' ! k = Some ErrInvalidToken \<longrightarrow> called_dead a f (ws ! k) (log_of w')" by auto
  have "e = Some ErrInvalidToken \<longrightarrow> called_dead a f v (log_of w')"
    using n(4) r(2) called_dead_mono by auto
  then show ?case using n(3) r by (simp add: o(1) All_less_Suc2)
qed

section \<open>Properties\<close>

text \<open>No token is cached and no request was made.\<close>

definition push_idle :: "'h push_log push_world \<Rightarrow> bool" where
  "push_idle w \<longleftrightarrow> pw_jwt w = [] \<and> pw_token w = [] \<and> log_of w = []"

text \<open>C12: over any pushes, whatever the providers and the token endpoint answer and whichever signing fails,
  every request made is a notification asked for, sent to the provider of its platform with a token that
  is fresh: one of APNs was signed less than 50 minutes before the clock was last read, one of FCM was
  issued by the token endpoint to this service account and was either issued just then or had more than a
  minute of its lifetime left. A device is only reported dead after its provider answered so to a
  notification to this very device.\<close>

theorem push_requests_fresh:
  assumes "push_idle w" and "push_run (router_Push (providers (logged E) a f)) vs w = (es, w')"
  shows "(\<forall>i < length (log_of w'). authorised a f vs (take i (log_of w')) (log_of w' ! i)) \<and>
    (\<forall>k < length vs. es ! k = Some ErrInvalidToken \<longrightarrow> called_dead a f (vs ! k) (log_of w'))"
proof -
  have "cache_ok a f w" "log_ok a f vs (log_of w)"
    using assms(1) by (simp_all add: push_idle_def cache_ok_def log_ok_def)
  from push_run_logged [OF order_refl this assms(2)] show ?thesis by (simp add: log_ok_def)
qed

text \<open>An outside whose clock advances by ten minutes with each reading; APNs calls the token \<open>gone\<close> dead
  and the token endpoint gives tokens for 15 minutes.\<close>

definition ex_answer :: "http_call \<Rightarrow> time \<Rightarrow> (int \<times> string) option \<times> time" where
  "ex_answer c t =
     (if prefix ''https://oauth2'' (hc_url c)
      then (Some (200, json_text (JTObj [(''access_token'', JTStr ''k''), (''expires_in'', JTInt 900)])), t)
      else if suffix ''gone'' (hc_url c) then (Some (400, json_text (JTObj [(''reason'', JTStr ''BadDeviceToken'')])), t)
      else (Some (200, []), t))"

definition ex_clock :: "time \<Rightarrow> time \<times> time" where
  "ex_clock t = (t, t + 600 * ns_per_sec)"

definition ex_sign :: "string \<Rightarrow> time \<Rightarrow> string option \<times> time" where
  "ex_sign s t = (Some ''sig'', t)"

definition ex_outside :: "time push_env" where
  "ex_outside = \<lparr>ev_do = ex_answer, ev_now = ex_clock, ev_sign_es = ex_sign, ev_sign_rs = ex_sign\<rparr>"

definition ex_apns :: apns_config where
  "ex_apns = \<lparr>ac_KeyID = ''kid'', ac_TeamID = ''team'', ac_Topic = ''app'', ac_Sandbox = False\<rparr>"

definition ex_credentials :: json_tree where
  "ex_credentials = JTObj [(''client_email'', JTStr ''svc''), (''private_key'', JTStr ''pem''), (''project_id'', JTStr ''gift'')]"

definition ex_fcm :: "fcm option" where
  "ex_fcm = NewFCM (\<lambda>k. k = ''pem'') (Some (json_text ex_credentials)) []"

definition ex_idle :: "time push_log push_world" where
  "ex_idle = \<lparr>pw_jwt = [], pw_jwtIssAt = 0, pw_token = [], pw_exp = 0, pw_out = \<lparr>pl_out = 0, pl_last = 0, pl_log = []\<rparr>\<rparr>"

definition ex_pushes :: "(device \<times> push_message) list" where
  "ex_pushes = map (\<lambda>(p, k). (ex_device k p, \<lparr>pm_Type = TypeIdeasReady, pm_Payload = [(''title'', PText ''Ready'')]\<rparr>))
     [(PlatformIOS, ''gone''), (PlatformAndroid, ''b'')]"

lemma ex_fcm_made: "ex_fcm = Some \<lparr>fc_projectID = ''gift'', fc_sa = \<lparr>sa_ClientEmail = ''svc'', sa_PrivateKey = ''pem'',
    sa_TokenURI = ''https://oauth2.googleapis.com/token'', sa_ProjectID = ''gift''\<rparr>\<rparr>"
  by code_simp

theorem push_requests_fresh_witness:
  "let (es, w') = push_run (router_Push (providers (logged ex_outside) (Some ex_apns) ex_fcm)) ex_pushes ex_idle in
   es = [Some ErrInvalidToken, None] \<and> length (log_of w') = 3 \<and>
   (\<forall>i < 3. authorised (Some ex_apns) ex_fcm ex_pushes (take i (log_of w')) (log_of w' ! i)) \<and>
   called_dead (Some ex_apns) ex_fcm (ex_pushes ! 0) (log_of w')"
proof -
  let ?r = "push_run (router_Push (providers (logged ex_outside) (Some ex_apns) ex_fcm)) ex_pushes ex_idle"
  obtain es w' where run: "?r = (es, w')" by fastforce
  have "map_prod id (\<lambda>w. length (log_of w)) ?r = ([Some ErrInvalidToken, None], 3)"
    unfolding ex_fcm_made by code_simp
  then have es: "es = [Some ErrInvalidToken, None]" and l: "length (log_of w') = 3" by (simp_all add: run)
  have "push_idle ex_idle" by (simp add: push_idle_def ex_idle_def log_of_def)
  from push_requests_fresh [OF this run] have
    a: "\<forall>i < 3. authorised (Some ex_apns) ex_fcm ex_pushes (take i (log_of w')) (log_of w' ! i)" and
    d: "\<forall>k < length ex_pushes. es ! k = Some ErrInvalidToken \<longrightarrow> called_dead (Some ex_apns) ex_fcm (ex_pushes ! k) (log_of w')"
    by (simp_all add: l)
  have "called_dead (Some ex_apns) ex_fcm (ex_pushes ! 0) (log_of w')"
    using d [rule_format, of 0] by (simp add: es ex_pushes_def)
  then show ?thesis using a es l by (simp only: run prod.case) simp
qed

end
