(* ===== verification/Gift_Time.thy ===== *)
theory Gift_Time
  imports Gift_Prelude "HOL-Library.List_Lexorder" "HOL-Library.Char_ord"
begin

text \<open>
  Package \<open>time\<close> as the log records use it: the UTC calendar, the layouts RFC 3339 with microseconds
  and \<open>RFC3339Nano\<close>, and that the first orders instants as texts, for the years 0 to 9999.
\<close>

section \<open>The calendar\<close>

text \<open>Days from 1 January of year 0 to 1 January of year \<open>y\<close> (year 0 is a leap year).\<close>

definition year_start :: "int \<Rightarrow> int" where
  "year_start y = 365 * y + (y + 3) div 4 - (y + 99) div 100 + (y + 399) div 400"

definition civil_year :: "int \<Rightarrow> int" where
  "civil_year d =
     (let y = d * 400 div 146097 in
      if year_start (y + 1) \<le> d then y + 1 else if year_start y \<le> d then y else y - 1)"

definition leap_year :: "int \<Rightarrow> bool" where
  "leap_year y \<longleftrightarrow> 4 dvd y \<and> (\<not> 100 dvd y \<or> 400 dvd y)"

definition month_starts :: "bool \<Rightarrow> int list" where
  "month_starts l = (let k = (if l then 1 else 0) in
     [0, 31, 59 + k, 90 + k, 120 + k, 151 + k, 181 + k, 212 + k, 243 + k, 273 + k, 304 + k, 334 + k])"

text \<open>Year, month and day of a day number.\<close>

definition civil :: "int \<Rightarrow> int \<times> int \<times> int" where
  "civil d =
     (let y = civil_year d; n = d - year_start y;
          m = length (filter (\<lambda>s. s \<le> n) (month_starts (leap_year y))) in
      (y, int m, n - month_starts (leap_year y) ! (m - 1) + 1))"

definition unix_epoch :: int where
  "unix_epoch = 719528"

section \<open>Layouts\<close>

text \<open>A number with leading zeros up to a width.\<close>

function fmt_pos :: "int \<Rightarrow> string" where
  "fmt_pos n = (if n < 10 then [char_of (48 + n)] else fmt_pos (n div 10) @ [char_of (48 + n mod 10)])"
  by auto
termination by (relation "measure nat") auto

declare fmt_pos.simps [simp del]

definition pad :: "nat \<Rightarrow> int \<Rightarrow> string" where
  "pad w n = replicate (w - length (fmt_pos n)) CHR ''0'' @ fmt_pos n"

definition fmt_date :: "int \<Rightarrow> string" where
  "fmt_date d = (case civil d of (y, m, k) \<Rightarrow> pad 4 y @ ''-'' @ pad 2 m @ ''-'' @ pad 2 k)"

definition ns_per_day :: int where
  "ns_per_day = 86400 * ns_per_sec"

definition fmt_clock :: "int \<Rightarrow> string" where
  "fmt_clock s = pad 2 (s div 3600) @ '':'' @ pad 2 (s div 60 mod 60) @ '':'' @ pad 2 (s mod 60)"

text \<open>Date and time to the second.\<close>

definition fmt_second :: "time \<Rightarrow> string" where
  "fmt_second t = fmt_date (t div ns_per_day + unix_epoch) @ ''T'' @ fmt_clock (t mod ns_per_day div ns_per_sec)"

text \<open>The layout \<open>2006-01-02T15:04:05.000000Z07:00\<close> of a UTC instant.\<close>

definition fmt_micro :: "time \<Rightarrow> string" where
  "fmt_micro t = fmt_second t @ ''.'' @ pad 6 (t mod ns_per_sec div 1000) @ ''Z''"

text \<open>The layout \<open>RFC3339Nano\<close>: trailing zeros of the fraction are dropped, and the dot with them.\<close>

definition fmt_nano :: "time \<Rightarrow> string" where
  "fmt_nano t =
     (let f = rev (dropWhile (\<lambda>c. c = CHR ''0'') (rev (pad 9 (t mod ns_per_sec)))) in
      fmt_second t @ (if f = [] then [] else CHR ''.'' # f) @ ''Z'')"

lemma time_examples:
  "fmt_micro 1783708493123456789 = ''2026-07-10T18:34:53.123456Z''"
  "fmt_nano 1783708493120000000 = ''2026-07-10T18:34:53.12Z''"
  "fmt_nano 951782400000000000 = ''2000-02-29T00:00:00Z''"
  by code_simp+

section \<open>Texts in the order of the instants\<close>

lemma less_append_same: "(p @ x :: string) < p @ y \<longleftrightarrow> x < y"
  by (induction p) auto

lemma less_append: "length x = length y \<Longrightarrow> (x :: string) < y \<Longrightarrow> x @ p < y @ q"
proof (induction x arbitrary: y)
  case (Cons a x)
  then obtain b z where y: "y = b # z" by (cases y) auto
  with Cons show ?case by auto
qed simp

lemma pad_1: "0 \<le> n \<Longrightarrow> n < 10 \<Longrightarrow> pad (Suc 0) n = [char_of (48 + n)]"
  by (simp add: pad_def fmt_pos.simps [of n])

lemma pad_Suc:
  assumes "1 \<le> w" and "0 \<le> n"
  shows "pad (Suc w) n = pad w (n div 10) @ [char_of (48 + n mod 10)]"
proof (cases "n < 10")
  case True
  have "pad w 0 = replicate w CHR ''0''"
  proof -
    have "char_of (48 :: int) = CHR ''0''" by (simp add: char_of_eq_iff)
    with assms(1) show ?thesis by (cases w) (simp_all add: pad_def fmt_pos.simps replicate_append_same)
  qed
  moreover have "n div 10 = 0" "n mod 10 = n" using True assms(2) by simp_all
  ultimately show ?thesis using True by (simp add: pad_def fmt_pos.simps [of n])
next
  case False
  then show ?thesis by (simp add: pad_def fmt_pos.simps [of n])
qed

lemma pad_length:
  assumes "1 \<le> w"
  shows "0 \<le> n \<Longrightarrow> n < 10 ^ w \<Longrightarrow> length (pad w n) = w"
  using assms
proof (induction w arbitrary: n rule: nat_induct_at_least)
  case base
  then show ?case by (simp add: pad_1)
next
  case (Suc w)
  have "n div 10 < 10 ^ w" using Suc.prems(2) by simp
  with Suc show ?case by (simp add: pad_Suc)
qed

lemma digit_less: "0 \<le> a \<Longrightarrow> a < b \<Longrightarrow> b < 10 \<Longrightarrow> char_of (48 + a) < (char_of (48 + b :: int) :: char)"
  by (simp add: less_char_def flip: nat_of_char)

lemma pad_mono:
  assumes "1 \<le> w"
  shows "0 \<le> m \<Longrightarrow> m < n \<Longrightarrow> n < 10 ^ w \<Longrightarrow> pad w m < pad w n"
  using assms
proof (induction w arbitrary: m n rule: nat_induct_at_least)
  case base
  then show ?case using digit_less [of m n] by (simp add: pad_1)
next
  case (Suc w)
  show ?case
  proof (cases "m div 10 = n div 10")
    case True
    have "m mod 10 < n mod 10" using Suc.prems True div_mult_mod_eq [of m 10] div_mult_mod_eq [of n 10] by linarith
    then have "char_of (48 + m mod 10) < (char_of (48 + n mod 10) :: char)" by (intro digit_less) simp_all
    then show ?thesis using Suc.prems Suc.hyps True by (simp add: pad_Suc less_append_same)
  next
    case False
    have b: "n div 10 < 10 ^ w" using Suc.prems by simp
    have "m div 10 < n div 10" using False Suc.prems(2) zdiv_mono1 [of m n 10] by simp
    then have "pad w (m div 10) < pad w (n div 10)" using Suc.IH Suc.prems b by simp
    moreover have "length (pad w (m div 10)) = length (pad w (n div 10))"
      using Suc.prems Suc.hyps b \<open>m div 10 < n div 10\<close> by (simp add: pad_length)
    ultimately show ?thesis using Suc.prems Suc.hyps by (simp add: pad_Suc less_append)
  qed
qed

lemma div_bounds: "0 < c \<Longrightarrow> c * (x div c) \<le> x \<and> x < c * (x div c) + (c :: int)"
  using mult_div_mod_eq [of c x] pos_mod_bound [of c x] pos_mod_sign [of c x] by linarith

lemma div_step: "0 < c \<Longrightarrow> x div c \<le> (x + 1) div c \<and> (x + 1) div c \<le> x div c + (1 :: int)"
proof -
  assume c: "0 < c"
  have "(x + 1) div c \<le> (x + c) div c" using c by (intro zdiv_mono1) simp_all
  moreover have "(x + c) div c = x div c + 1" using c by (intro div_add_self2) simp
  ultimately show ?thesis using c zdiv_mono1 [of x "x + 1" c] by simp
qed

lemma year_start_step: "year_start y + 364 \<le> year_start (y + 1)" "year_start (y + 1) \<le> year_start y + 367"
proof -
  have e: "y + 1 + 3 = y + 3 + 1" "y + 1 + 99 = y + 99 + 1" "y + 1 + 399 = y + 399 + 1" by simp_all
  have "(y + 3) div 4 \<le> (y + 3 + 1) div 4" "(y + 3 + 1) div 4 \<le> (y + 3) div 4 + 1"
    "(y + 99) div 100 \<le> (y + 99 + 1) div 100" "(y + 99 + 1) div 100 \<le> (y + 99) div 100 + 1"
    "(y + 399) div 400 \<le> (y + 399 + 1) div 400" "(y + 399 + 1) div 400 \<le> (y + 399) div 400 + 1"
    using div_step [of 4 "y + 3"] div_step [of 100 "y + 99"] div_step [of 400 "y + 399"] by simp_all
  then show "year_start y + 364 \<le> year_start (y + 1)" "year_start (y + 1) \<le> year_start y + 367"
    unfolding year_start_def e by simp_all
qed

lemma year_start_mono: "x \<le> y \<Longrightarrow> year_start x \<le> year_start y"
proof (induction y rule: int_ge_induct)
  case (step y)
  with year_start_step(1) [of y] show ?case by linarith
qed simp

lemma year_start_bounds: "146097 * y - 396 \<le> 400 * year_start y" "400 * year_start y \<le> 146097 * y + 699"
proof -
  note b = div_bounds [of 4 "y + 3"] div_bounds [of 100 "y + 99"] div_bounds [of 400 "y + 399"]
  show "146097 * y - 396 \<le> 400 * year_start y" using b unfolding year_start_def by simp
  show "400 * year_start y \<le> 146097 * y + 699" using b unfolding year_start_def by simp
qed

lemma civil_year: "year_start (civil_year d) \<le> d" "d < year_start (civil_year d + 1)"
proof -
  define y where "y = d * 400 div 146097"
  have "146097 * y \<le> d * 400" "d * 400 < 146097 * y + 146097"
    using div_bounds [of 146097 "d * 400"] by (simp_all add: y_def)
  moreover note year_start_bounds [of "y - 1"] year_start_bounds [of "y + 2"]
  ultimately have "year_start (y - 1) \<le> d" "d < year_start (y + 2)" by simp_all
  then show "year_start (civil_year d) \<le> d" "d < year_start (civil_year d + 1)"
    unfolding civil_year_def Let_def y_def [symmetric] by (auto simp: add.commute)
qed

lemma civil_year_mono: "d \<le> e \<Longrightarrow> civil_year d \<le> civil_year e"
  using civil_year(1) [of d] civil_year(2) [of e] year_start_mono [of "civil_year e + 1" "civil_year d"] by linarith

lemma starts_split:
  assumes "sorted (xs :: int list)" and "i < length xs"
  shows "i < length (filter (\<lambda>s. s \<le> n) xs) \<longleftrightarrow> xs ! i \<le> n"
  using assms
proof (induction xs arbitrary: i)
  case (Cons x xs)
  show ?case
  proof (cases "x \<le> n")
    case True
    with Cons show ?thesis by (cases i) auto
  next
    case False
    then have "filter (\<lambda>s. s \<le> n) (x # xs) = []" using Cons.prems(1) by (auto simp: filter_empty_conv)
    moreover have "x \<le> (x # xs) ! i" using Cons.prems by (cases i) auto
    ultimately show ?thesis using False by simp
  qed
qed simp

lemma month_starts_facts: "sorted (month_starts l)" "length (month_starts l) = 12" "month_starts l ! 0 = 0"
  by (simp_all add: month_starts_def Let_def)

text \<open>The month and day of a day of the year.\<close>

lemma month_day:
  fixes n :: int and l :: bool
  assumes "0 \<le> n" and "n < 367"
  defines "m \<equiv> length (filter (\<lambda>s. s \<le> n) (month_starts l))"
  shows "1 \<le> m" "m \<le> 12" "month_starts l ! (m - 1) \<le> n" "n - month_starts l ! (m - 1) < 99"
proof -
  note f = month_starts_facts [of l]
  have "0 < m" using starts_split [OF f(1), of 0 n] f(2,3) assms(1) by (simp add: m_def)
  then show 1: "1 \<le> m" by simp
  show 2: "m \<le> 12" using f(2) length_filter_le [of "\<lambda>s. s \<le> n" "month_starts l"] by (simp add: m_def)
  have i: "m - 1 < length (month_starts l)" using 1 2 f(2) by simp
  have "m - 1 < m" using 1 by simp
  then show "month_starts l ! (m - 1) \<le> n" using starts_split [OF f(1) i, of n] by (simp add: m_def)
  show "n - month_starts l ! (m - 1) < 99"
  proof (cases "m = 12")
    case True
    then show ?thesis using assms(2) by (simp add: month_starts_def Let_def)
  next
    case False
    then have "m < length (month_starts l)" using 2 f(2) by simp
    from starts_split [OF f(1) this, of n] have "n < month_starts l ! m" by (simp add: m_def [symmetric])
    moreover have "m = 1 \<or> m = 2 \<or> m = 3 \<or> m = 4 \<or> m = 5 \<or> m = 6 \<or> m = 7 \<or> m = 8 \<or> m = 9 \<or> m = 10 \<or> m = 11"
      using 1 2 False by arith
    then have "month_starts l ! m \<le> month_starts l ! (m - 1) + 31"
      by (elim disjE) (simp_all add: month_starts_def Let_def)
    ultimately show ?thesis by linarith
  qed
qed

lemma length_filter_mono:
  assumes "\<And>x. P x \<Longrightarrow> Q x"
  shows "length (filter P xs) \<le> length (filter Q xs)"
  using assms by (induction xs) (auto simp: le_SucI)

lemma fmt_date_less:
  assumes "0 \<le> d" and "d < e" and "e < year_start 10000"
  shows "fmt_date d < fmt_date e" and "length (fmt_date d) = 10"
proof -
  have day: "\<exists>y m k. civil x = (y, int m, k) \<and> y = civil_year x \<and> m = length (filter (\<lambda>s. s \<le> x - year_start y) (month_starts (leap_year y))) \<and>
      k = x - year_start y - month_starts (leap_year y) ! (m - 1) + 1 \<and> 0 \<le> y \<and> y < 10000 \<and> 1 \<le> m \<and> m \<le> 12 \<and> 1 \<le> k \<and> k < 100"
    if "0 \<le> x" "x < year_start 10000" for x
  proof -
    let ?y = "civil_year x" let ?n = "x - year_start ?y"
    let ?m = "length (filter (\<lambda>s. s \<le> ?n) (month_starts (leap_year ?y)))"
    have "year_start 0 = 0" by (simp add: year_start_def)
    then have "0 \<le> ?y" using civil_year(2) [of x] year_start_mono [of "?y + 1" 0] that(1) by linarith
    moreover have "?y < 10000" using civil_year(1) [of x] year_start_mono [of 10000 ?y] that(2) by linarith
    moreover have "0 \<le> ?n" "?n < 367" using civil_year [of x] year_start_step(2) [of ?y] by linarith+
    note month_day [OF this, of "leap_year ?y"]
    ultimately show ?thesis by (simp add: civil_def Let_def)
  qed
  obtain y m k where d: "civil d = (y, int m, k)" "y = civil_year d"
    "m = length (filter (\<lambda>s. s \<le> d - year_start y) (month_starts (leap_year y)))"
    "k = d - year_start y - month_starts (leap_year y) ! (m - 1) + 1" "0 \<le> y" "y < 10000" "1 \<le> m" "m \<le> 12" "1 \<le> k" "k < 100"
    using day [of d] assms by auto
  obtain y' m' k' where e: "civil e = (y', int m', k')" "y' = civil_year e"
    "m' = length (filter (\<lambda>s. s \<le> e - year_start y') (month_starts (leap_year y')))"
    "k' = e - year_start y' - month_starts (leap_year y') ! (m' - 1) + 1" "0 \<le> y'" "y' < 10000" "1 \<le> m'" "m' \<le> 12" "1 \<le> k'" "k' < 100"
    using day [of e] assms by auto
  have len: "length (pad 4 y) = 4" "length (pad 2 (int m)) = 2" "length (pad 2 k) = 2" "length (pad 4 y') = 4"
    "length (pad 2 (int m')) = 2" using d e by (simp_all add: pad_length)
  show "length (fmt_date d) = 10" using len by (simp add: fmt_date_def d(1))
  have "y \<le> y'" unfolding d(2) e(2) using assms(2) by (simp add: civil_year_mono)
  then consider "y < y'" | "y = y'" "m < m'" | "y = y'" "m = m'" "k < k'"
  proof -
    assume "y \<le> y'"
    moreover have "m \<le> m'" if "y = y'" unfolding d(3) e(3) that using assms(2) by (intro length_filter_mono) linarith
    moreover have "k < k'" if "y = y'" "m = m'" unfolding d(4) e(4) that using assms(2) by simp
    ultimately show thesis using that by linarith
  qed
  then have "pad 4 y @ ''-'' @ pad 2 (int m) @ ''-'' @ pad 2 k < pad 4 y' @ ''-'' @ pad 2 (int m') @ ''-'' @ pad 2 k'"
  proof cases
    case 1
    then have "pad 4 y < pad 4 y'" using d(5) e(6) by (intro pad_mono) simp_all
    then show ?thesis by (intro less_append) (simp_all add: len)
  next
    case 2
    then have "pad 2 (int m) < pad 2 (int m')" using e(8) by (intro pad_mono) simp_all
    then have "pad 2 (int m) @ ''-'' @ pad 2 k < pad 2 (int m') @ ''-'' @ pad 2 k'" by (intro less_append) (simp_all add: len)
    with 2 show ?thesis by (simp add: less_append_same)
  next
    case 3
    then have "pad 2 k < pad 2 k'" using d(9) e(10) by (intro pad_mono) simp_all
    with 3 show ?thesis by (simp add: less_append_same)
  qed
  then show "fmt_date d < fmt_date e" by (simp add: fmt_date_def d(1) e(1))
qed

lemma mod_less_same_div: "x div c = y div c \<Longrightarrow> x < y \<Longrightarrow> x mod c < y mod (c :: int)"
  by (metis add_less_cancel_left div_mult_mod_eq)

lemma fmt_clock_less:
  assumes "0 \<le> s" and "s < t" and "t < 86400"
  shows "fmt_clock s < fmt_clock t" and "length (fmt_clock s) = 8"
proof -
  have r: "0 \<le> x div 3600 \<and> x div 3600 < 100 \<and> 0 \<le> x div 60 mod 60 \<and> x div 60 mod 60 < 100 \<and> 0 \<le> x mod 60 \<and> x mod 60 < 100"
    if "0 \<le> x" "x < 86400" for x :: int
    using that pos_mod_bound [of 60 x] pos_mod_bound [of 60 "x div 60"] by (auto simp: pos_imp_zdiv_nonneg_iff)
  have s: "0 \<le> s" "s < 86400" "0 \<le> t" "t < 86400" using assms by simp_all
  note r = r [OF s(1,2)] r [OF s(3,4)]
  have len: "length (pad 2 (s div 3600)) = 2" "length (pad 2 (s div 60 mod 60)) = 2" "length (pad 2 (s mod 60)) = 2"
    "length (pad 2 (t div 3600)) = 2" "length (pad 2 (t div 60 mod 60)) = 2"
    using r by (simp_all add: pad_length)
  show "length (fmt_clock s) = 8" by (simp add: fmt_clock_def len)
  have h: "x div 3600 = x div 60 div 60" for x :: int by (simp add: zdiv_zmult2_eq)
  have le: "s div 3600 \<le> t div 3600" "s div 60 \<le> t div 60" using assms(2) by (simp_all add: zdiv_mono1)
  consider "s div 3600 < t div 3600" | "s div 3600 = t div 3600" "s div 60 mod 60 < t div 60 mod 60"
    | "s div 3600 = t div 3600" "s div 60 mod 60 = t div 60 mod 60" "s mod 60 < t mod 60"
  proof -
    assume a: "s div 3600 < t div 3600 \<Longrightarrow> thesis"
      "s div 3600 = t div 3600 \<Longrightarrow> s div 60 mod 60 < t div 60 mod 60 \<Longrightarrow> thesis"
      "s div 3600 = t div 3600 \<Longrightarrow> s div 60 mod 60 = t div 60 mod 60 \<Longrightarrow> s mod 60 < t mod 60 \<Longrightarrow> thesis"
    show thesis
    proof (cases "s div 3600 = t div 3600")
      case False
      with le(1) a(1) show thesis by simp
    next
      case True
      then have m: "s div 60 mod 60 \<le> t div 60 mod 60"
        using le(2) mod_less_same_div [of "s div 60" 60 "t div 60"] unfolding h by (cases "s div 60 = t div 60") simp_all
      show thesis
      proof (cases "s div 60 mod 60 = t div 60 mod 60")
        case False
        with m a(2) True show thesis by simp
      next
        case eq: True
        have "s div 60 div 60 = t div 60 div 60" using True unfolding h .
        with eq have q: "s div 60 = t div 60" by (metis div_mult_mod_eq)
        have "s mod 60 < t mod 60" by (rule mod_less_same_div [OF q assms(2)])
        with a(3) True eq show thesis by simp
      qed
    qed
  qed
  then show "fmt_clock s < fmt_clock t"
  proof cases
    case 1
    then have "pad 2 (s div 3600) < pad 2 (t div 3600)" using r by (intro pad_mono) simp_all
    then show ?thesis unfolding fmt_clock_def by (intro less_append) (simp_all add: len)
  next
    case 2
    have "pad 2 (s div 60 mod 60) < pad 2 (t div 60 mod 60)" using r 2(2) by (intro pad_mono) simp_all
    then have "pad 2 (s div 60 mod 60) @ '':'' @ pad 2 (s mod 60) < pad 2 (t div 60 mod 60) @ '':'' @ pad 2 (t mod 60)"
      by (intro less_append) (simp_all add: len)
    then show ?thesis unfolding fmt_clock_def 2(1) by (simp add: less_append_same)
  next
    case 3
    have "pad 2 (s mod 60) < pad 2 (t mod 60)" using r 3(3) by (intro pad_mono) simp_all
    then show ?thesis unfolding fmt_clock_def 3(1,2) by (simp add: less_append_same)
  qed
qed

text \<open>The instants from year 0 to year 9999.\<close>

definition civil_time :: "time \<Rightarrow> bool" where
  "civil_time t \<longleftrightarrow> 0 \<le> t div ns_per_day + unix_epoch \<and> t div ns_per_day + unix_epoch < year_start 10000"

lemma fmt_date_length:
  assumes "0 \<le> d" and "d < year_start 10000"
  shows "length (fmt_date d) = 10"
proof (cases "d + 1 = year_start 10000")
  case True
  then have "d = year_start 10000 - 1" by simp
  moreover have "length (fmt_date (year_start 10000 - 1)) = 10" by code_simp
  ultimately show ?thesis by simp
next
  case False
  with assms fmt_date_less(2) [of d "d + 1"] show ?thesis by simp
qed

lemma fmt_clock_length: "length (fmt_clock (x mod 86400)) = 8"
proof (cases "x mod 86400 = 86399")
  case True
  have "length (fmt_clock 86399) = 8" by code_simp
  with True show ?thesis by simp
next
  case False
  have "0 \<le> x mod 86400" "x mod 86400 < 86400" by simp_all
  with False fmt_clock_less(2) [of "x mod 86400" "x mod 86400 + 1"] show ?thesis by linarith
qed

lemma second_of_day: "x mod ns_per_day div ns_per_sec = x div ns_per_sec mod 86400"
proof -
  have "x mod (ns_per_sec * 86400) = ns_per_sec * (x div ns_per_sec mod 86400) + x mod ns_per_sec"
    by (rule zmod_zmult2_eq) simp
  then show ?thesis by (simp add: ns_per_day_def mult.commute ns_per_sec_def)
qed

lemma fmt_second_length: "civil_time t \<Longrightarrow> length (fmt_second t) = 19"
  by (simp add: fmt_second_def second_of_day fmt_clock_length fmt_date_length civil_time_def)

lemma fmt_second_less:
  assumes "civil_time s" and "civil_time t" and "s div ns_per_sec < t div ns_per_sec"
  shows "fmt_second s < fmt_second t"
proof -
  have day: "x div ns_per_day = x div ns_per_sec div 86400" for x
    by (simp add: ns_per_day_def ns_per_sec_def zdiv_zmult2_eq)
  let ?s = "s div ns_per_sec" and ?t = "t div ns_per_sec"
  have c: "0 \<le> ?s mod 86400" "?t mod 86400 < 86400" by simp_all
  have d: "0 \<le> s div ns_per_day + unix_epoch" "s div ns_per_day + unix_epoch < year_start 10000"
    "0 \<le> t div ns_per_day + unix_epoch" "t div ns_per_day + unix_epoch < year_start 10000"
    using assms(1,2) by (simp_all add: civil_time_def)
  have le: "s div ns_per_day \<le> t div ns_per_day" unfolding day using assms(3) by (simp add: zdiv_mono1)
  show ?thesis
  proof (cases "s div ns_per_day = t div ns_per_day")
    case True
    then have "?s mod 86400 < ?t mod 86400"
      using assms(3) unfolding day by (intro mod_less_same_div)
    with fmt_clock_less(1) [OF c(1) this c(2)] True show ?thesis
      by (simp add: fmt_second_def second_of_day less_append_same)
  next
    case False
    with le have "fmt_date (s div ns_per_day + unix_epoch) < fmt_date (t div ns_per_day + unix_epoch)"
      using fmt_date_less(1) [OF d(1) _ d(4)] by simp
    then show ?thesis unfolding fmt_second_def
      by (intro less_append) (simp_all add: fmt_date_length d)
  qed
qed

end
