(* ===== verification/Logkit.thy ===== *)
theory Logkit
  imports Gift_Json_Write Gift_Time
begin

text \<open>
  The logging client's records, options and handler (\<open>pkg/logkit/record.go\<close>, \<open>options.go\<close>,
  \<open>handler.go\<close>; each service carries a copy of the package). The line the handler also writes to
  stdout is the standard library's and is not modelled.
\<close>

section \<open>Records (record.go)\<close>

record log_record =
  lr_Ts :: string
  lr_Level :: string
  lr_Service :: string
  lr_Message :: string
  lr_TraceID :: string
  lr_SpanID :: string
  lr_Fields :: json_tree

definition formatTS :: "time \<Rightarrow> string" where
  "formatTS t = fmt_micro t"

text \<open>The levels of \<open>log/slog\<close>: Debug is -4, Info 0, Warn 4 and Error 8.\<close>

definition levelString :: "int \<Rightarrow> string" where
  "levelString l =
     (if l < 0 then ''DEBUG'' else if l < 4 then ''INFO'' else if l < 8 then ''WARN'' else ''ERROR'')"

definition record_tree :: "log_record \<Rightarrow> json_tree" where
  "record_tree r = JTObj
     [(''ts'', JTStr (lr_Ts r)), (''level'', JTStr (lr_Level r)), (''service'', JTStr (lr_Service r)),
      (''message'', JTStr (lr_Message r)), (''trace_id'', JTStr (lr_TraceID r)),
      (''span_id'', JTStr (lr_SpanID r)), (''fields'', lr_Fields r)]"

section \<open>Options (options.go)\<close>

record log_options =
  lo_ServerURL :: string
  lo_SpoolDir :: string
  lo_Level :: int
  lo_BatchSize :: int
  lo_FlushInterval :: duration
  lo_QueueSize :: int
  lo_HTTPTimeout :: duration
  lo_RetryInterval :: duration
  lo_SpoolMaxBytes :: int

definition DefaultOptions :: log_options where
  "DefaultOptions = \<lparr>lo_ServerURL = [], lo_SpoolDir = ''/var/log/spool'', lo_Level = 0, lo_BatchSize = 100,
     lo_FlushInterval = 2 * ns_per_sec, lo_QueueSize = 4096, lo_HTTPTimeout = 5 * ns_per_sec,
     lo_RetryInterval = 10 * ns_per_sec, lo_SpoolMaxBytes = 50 * 2 ^ 20\<rparr>"

text \<open>\<open>strconv.Atoi\<close> and \<open>strconv.ParseInt(v, 10, 64)\<close>.\<close>

definition Atoi :: "string \<Rightarrow> int option" where
  "Atoi s =
     (let ds = (if prefix ''+'' s \<or> prefix ''-'' s then drop 1 s else s);
          v = (if prefix ''-'' s then - decimal ds else decimal ds) in
      if ds = [] \<or> (\<exists>c \<in> set ds. byte c < 48 \<or> 57 < byte c) then None
      else if v < - (2 ^ 63) \<or> 2 ^ 63 \<le> v then None else Some v)"

definition envStr :: "(string \<Rightarrow> string) \<Rightarrow> string \<Rightarrow> string \<Rightarrow> string" where
  "envStr env k d = (if env k \<noteq> [] then env k else d)"

definition envInt :: "(string \<Rightarrow> string) \<Rightarrow> string \<Rightarrow> int \<Rightarrow> int" where
  "envInt env k d = (if env k \<noteq> [] then (case Atoi (env k) of Some n \<Rightarrow> n | None \<Rightarrow> d) else d)"

definition envDurMS :: "(string \<Rightarrow> string) \<Rightarrow> string \<Rightarrow> duration \<Rightarrow> duration" where
  "envDurMS env k d =
     (if env k \<noteq> [] then (case Atoi (env k) of Some n \<Rightarrow> wrap64 (n * 1000000) | None \<Rightarrow> d) else d)"

definition OptionsFromEnv :: "(string \<Rightarrow> string) \<Rightarrow> log_options" where
  "OptionsFromEnv env =
     \<lparr>lo_ServerURL = env ''LOG_SERVER_URL'',
      lo_SpoolDir = envStr env ''LOG_SPOOL_DIR'' (lo_SpoolDir DefaultOptions),
      lo_Level = 0,
      lo_BatchSize = envInt env ''LOG_BATCH_SIZE'' (lo_BatchSize DefaultOptions),
      lo_FlushInterval = envDurMS env ''LOG_FLUSH_MS'' (lo_FlushInterval DefaultOptions),
      lo_QueueSize = envInt env ''LOG_QUEUE_SIZE'' (lo_QueueSize DefaultOptions),
      lo_HTTPTimeout = envDurMS env ''LOG_HTTP_MS'' (lo_HTTPTimeout DefaultOptions),
      lo_RetryInterval = envDurMS env ''LOG_RETRY_MS'' (lo_RetryInterval DefaultOptions),
      lo_SpoolMaxBytes = envInt env ''LOG_SPOOL_MAX'' (lo_SpoolMaxBytes DefaultOptions)\<rparr>"

definition log_withDefaults :: "log_options \<Rightarrow> log_options" where
  "log_withDefaults o1 = o1
     \<lparr>lo_SpoolDir := (if lo_SpoolDir o1 = [] then lo_SpoolDir DefaultOptions else lo_SpoolDir o1),
      lo_BatchSize := (if lo_BatchSize o1 \<le> 0 then lo_BatchSize DefaultOptions else lo_BatchSize o1),
      lo_FlushInterval := (if lo_FlushInterval o1 \<le> 0 then lo_FlushInterval DefaultOptions else lo_FlushInterval o1),
      lo_QueueSize := (if lo_QueueSize o1 \<le> 0 then lo_QueueSize DefaultOptions else lo_QueueSize o1),
      lo_HTTPTimeout := (if lo_HTTPTimeout o1 \<le> 0 then lo_HTTPTimeout DefaultOptions else lo_HTTPTimeout o1),
      lo_RetryInterval := (if lo_RetryInterval o1 \<le> 0 then lo_RetryInterval DefaultOptions else lo_RetryInterval o1),
      lo_SpoolMaxBytes := (if lo_SpoolMaxBytes o1 \<le> 0 then lo_SpoolMaxBytes DefaultOptions else lo_SpoolMaxBytes o1)\<rparr>"

section \<open>Attributes and fields (handler.go)\<close>

text \<open>
  A resolved value of \<open>log/slog\<close>: a group, an error that is rendered by its text, or anything else as
  \<open>json.Marshal\<close> sees it. A value that is itself a \<open>map[string]any\<close> is not modelled.
\<close>

datatype slog_value = VAny json_tree | VError string | VGroup "(string \<times> slog_value) list"

type_synonym slog_attr = "string \<times> slog_value"

text \<open>The map under construction: its values are nested maps or finished values.\<close>

datatype field = FVal json_tree | FMap "(string \<times> field) list"

type_synonym fields = "(string \<times> field) list"

text \<open>\<open>m[k] = v\<close> on a Go map; the order of the list does not matter.\<close>

definition fput :: "string \<Rightarrow> 'a \<Rightarrow> (string \<times> 'a) list \<Rightarrow> (string \<times> 'a) list" where
  "fput k v m = filter (\<lambda>e. fst e \<noteq> k) m @ [(k, v)]"

definition child :: "string \<Rightarrow> fields \<Rightarrow> fields" where
  "child k m = (case map_of m k of Some (FMap sub) \<Rightarrow> sub | _ \<Rightarrow> [])"

text \<open>Changing the nested map at a path of groups, which is created when it is missing.\<close>

fun at_path :: "string list \<Rightarrow> (fields \<Rightarrow> fields) \<Rightarrow> fields \<Rightarrow> fields" where
  "at_path [] f m = f m"
| "at_path (g # gs) f m = fput g (FMap (at_path gs f (child g m))) m"

text \<open>\<open>putAttr\<close> without groups, and the loops over the members of a group.\<close>

fun put_value :: "string \<Rightarrow> slog_value \<Rightarrow> fields \<Rightarrow> fields"
  and put_values :: "slog_attr list \<Rightarrow> fields \<Rightarrow> fields" where
  "put_value k (VAny j) m = (if k = [] \<and> j = JTNull then m else fput k (FVal j) m)"
| "put_value k (VError e) m = fput k (FVal (JTStr e)) m"
| "put_value k (VGroup sub) m =
     (if sub = [] then m
      else if k = [] then put_values sub m
      else fput k (FMap (put_values sub (child k m))) m)"
| "put_values [] m = m"
| "put_values (a # as) m = put_values as (put_value (fst a) (snd a) m)"

definition putAttr :: "string list \<Rightarrow> slog_attr \<Rightarrow> fields \<Rightarrow> fields" where
  "putAttr groups a m =
     (if a = ([], VAny JTNull) then m else at_path groups (put_value (fst a) (snd a)) m)"

text \<open>The finished map, with its keys in the order in which they are marshalled.\<close>

fun field_tree :: "field \<Rightarrow> json_tree" where
  "field_tree (FVal j) = j"
| "field_tree (FMap ms) = go_map (map (\<lambda>e. (fst e, field_tree (snd e))) ms)"

section \<open>The handler (handler.go)\<close>

record log_handler =
  lh_service :: string
  lh_minLvl :: int
  lh_shipping :: bool
  lh_preset :: "(string list \<times> slog_attr) list"
  lh_groups :: "string list"
  lh_root :: bool

record slog_record =
  sr_Time :: time
  sr_Level :: int
  sr_Message :: string
  sr_Attrs :: "slog_attr list"

definition NewHandler :: "string \<Rightarrow> log_options \<Rightarrow> log_handler" where
  "NewHandler service opts =
     \<lparr>lh_service = service, lh_minLvl = lo_Level (log_withDefaults opts),
      lh_shipping = (lo_ServerURL (log_withDefaults opts) \<noteq> []), lh_preset = [], lh_groups = [], lh_root = True\<rparr>"

definition handler_Enabled :: "log_handler \<Rightarrow> int \<Rightarrow> bool" where
  "handler_Enabled h level \<longleftrightarrow> lh_minLvl h \<le> level"

definition WithAttrs :: "slog_attr list \<Rightarrow> log_handler \<Rightarrow> log_handler" where
  "WithAttrs as h =
     (if as = [] then h
      else h\<lparr>lh_preset := lh_preset h @ map (Pair (lh_groups h)) as, lh_root := False\<rparr>)"

definition WithGroup :: "string \<Rightarrow> log_handler \<Rightarrow> log_handler" where
  "WithGroup g h = (if g = [] then h else h\<lparr>lh_groups := lh_groups h @ [g], lh_root := False\<rparr>)"

definition buildFields :: "log_handler \<Rightarrow> slog_attr list \<Rightarrow> fields" where
  "buildFields h as =
     fold (\<lambda>a. putAttr (lh_groups h) a) as (fold (\<lambda>(gs, a). putAttr gs a) (lh_preset h) [])"

text \<open>\<open>Handle\<close>: the record it ships, if any. \<open>span\<close> is the span of the context when it is valid.\<close>

definition handler_Handle :: "log_handler \<Rightarrow> (string \<times> string) option \<Rightarrow> slog_record \<Rightarrow> log_record option" where
  "handler_Handle h span r =
     (let (traceID, spanID) = (case span of Some p \<Rightarrow> p | None \<Rightarrow> ([], [])) in
      if lh_shipping h then
        Some \<lparr>lr_Ts = formatTS (sr_Time r), lr_Level = levelString (sr_Level r), lr_Service = lh_service h,
              lr_Message = sr_Message r, lr_TraceID = traceID, lr_SpanID = spanID,
              lr_Fields = field_tree (FMap (buildFields h (sr_Attrs r)))\<rparr>
      else None)"

section \<open>Groups and preset attributes\<close>

text \<open>Attributes given to the handler are as good as attributes of every record.\<close>

lemma WithAttrs_as_attrs: "buildFields (WithAttrs as h) bs = buildFields h (as @ bs)"
proof -
  have "fold (\<lambda>(gs, a). putAttr gs a) (map (Pair g) as) m = fold (putAttr g) as m" for g m
    by (induction as arbitrary: m) auto
  then show ?thesis by (simp add: WithAttrs_def buildFields_def)
qed

lemma map_of_fput [simp]: "map_of (fput k v m) = (map_of m)(k \<mapsto> v)"
proof
  fix x
  have "map_of (filter (\<lambda>e. fst e \<noteq> k) m) x = (if x = k then None else map_of m x)"
    by (induction m) auto
  then show "map_of (fput k v m) x = ((map_of m)(k \<mapsto> v)) x"
    by (cases "map_of m x") (auto simp: fput_def map_add_def)
qed

lemma fput_fput [simp]: "fput k v (fput k w m) = fput k v m"
  by (simp add: fput_def)

lemma child_fput [simp]: "child k (fput k (FMap x) m) = x"
  by (simp add: child_def)

lemma at_path_at_path: "at_path gs f (at_path gs h m) = at_path gs (\<lambda>x. f (h x)) m"
  by (induction gs arbitrary: m) simp_all

lemma at_path_snoc: "at_path (gs @ [g]) f m = at_path gs (\<lambda>x. fput g (FMap (f (child g x))) x) m"
  by (induction gs arbitrary: m) simp_all

lemma putAttr_skip: "a = ([], VAny JTNull) \<Longrightarrow> putAttr gs a m = m"
  by (simp add: putAttr_def)

lemma putAttr_after:
  "putAttr gs a (at_path gs h m) = at_path gs (\<lambda>x. put_value (fst a) (snd a) (h x)) m"
  by (auto simp: putAttr_def at_path_at_path)

lemma fold_putAttr_after:
  "fold (putAttr gs) as (at_path gs h m) = at_path gs (\<lambda>x. put_values as (h x)) m"
proof (induction as arbitrary: h)
  case (Cons a as)
  have "fold (putAttr gs) (a # as) (at_path gs h m) =
      fold (putAttr gs) as (at_path gs (\<lambda>x. put_value (fst a) (snd a) (h x)) m)"
    by (simp add: putAttr_after)
  then show ?case by (simp add: Cons.IH)
qed simp

lemma fold_putAttr:
  "\<exists>a \<in> set as. a \<noteq> ([], VAny JTNull) \<Longrightarrow> fold (putAttr gs) as m = at_path gs (put_values as) m"
proof (induction as)
  case (Cons a as)
  show ?case
  proof (cases "a = ([], VAny JTNull)")
    case True
    with Cons show ?thesis by (simp add: putAttr_skip)
  next
    case False
    then have "putAttr gs a m = at_path gs (put_value (fst a) (snd a)) m" by (simp add: putAttr_def)
    then show ?thesis by (simp add: fold_putAttr_after)
  qed
qed simp

text \<open>Attributes below an open group are as good as one group attribute with them.\<close>

lemma WithGroup_as_group:
  assumes "g \<noteq> []" and "\<exists>a \<in> set as. a \<noteq> ([], VAny JTNull)"
  shows "buildFields (WithGroup g h) as = buildFields h [(g, VGroup as)]"
proof -
  let ?m = "fold (\<lambda>(gs, a). putAttr gs a) (lh_preset h) []"
  have "buildFields (WithGroup g h) as = fold (putAttr (lh_groups h @ [g])) as ?m"
    using assms(1) by (simp add: WithGroup_def buildFields_def)
  also have "\<dots> = at_path (lh_groups h) (\<lambda>x. fput g (FMap (put_values as (child g x))) x) ?m"
    by (simp add: fold_putAttr [OF assms(2)] at_path_snoc)
  also have "\<dots> = buildFields h [(g, VGroup as)]"
  proof -
    have "as \<noteq> []" using assms(2) by auto
    then have "put_value g (VGroup as) = (\<lambda>x. fput g (FMap (put_values as (child g x))) x)"
      using assms(1) by (simp add: fun_eq_iff)
    then show ?thesis by (simp add: buildFields_def putAttr_def)
  qed
  finally show ?thesis .
qed

end
