(* ===== verification/Logkit_Ship.thy ===== *)
theory Logkit_Ship
  imports Logkit "HOL-Library.Multiset"
begin

text \<open>
  The logging client's shipper (\<open>pkg/logkit/shipper.go\<close>): the bounded queue, the batches, the posts to
  the log server and the spool file with its cap, as bytes. \<open>num\<close> tells what a number decodes to in a
  \<open>map[string]any\<close> (a 64-bit float), as the value it is marshalled from again.
\<close>

section \<open>Decoding a record\<close>

text \<open>A value decoded into an \<open>any\<close>; nested texts are shorter, so the length is fuel enough.\<close>

fun any_value :: "(string \<Rightarrow> json_tree option) \<Rightarrow> nat \<Rightarrow> string \<Rightarrow> json_tree option" where
  "any_value num 0 raw = None"
| "any_value num (Suc n) raw =
     (case json_parse raw of
        None \<Rightarrow> None
      | Some JNull \<Rightarrow> Some JTNull
      | Some (JBool b) \<Rightarrow> Some (JTBool b)
      | Some (JStr s) \<Rightarrow> Some (JTStr s)
      | Some (JNum t) \<Rightarrow> num t
      | Some (JArr es) \<Rightarrow> map_option JTArr (those (map (any_value num n) es))
      | Some (JObj ms) \<Rightarrow>
          map_option (\<lambda>vs. go_map (fold (\<lambda>e. fput (fst e) (snd e)) (zip (map fst ms) vs) []))
            (those (map (\<lambda>m. any_value num n (snd m)) ms)))"

text \<open>The \<open>map[string]any\<close> field: a null empties it, a further member with its name adds to it.\<close>

fun fields_field :: "(string \<Rightarrow> json_tree option) \<Rightarrow> (string \<times> string) list \<Rightarrow> json_tree \<Rightarrow> json_tree option" where
  "fields_field num [] acc = Some acc"
| "fields_field num (m # ms) acc =
     (if names ''fields'' m then
        (case json_parse (snd m) of
           Some JNull \<Rightarrow> fields_field num ms JTNull
         | Some (JObj es) \<Rightarrow>
             (case those (map (\<lambda>e. any_value num (length (snd e)) (snd e)) es) of
                None \<Rightarrow> None
              | Some vs \<Rightarrow>
                  fields_field num ms (go_map (fold (\<lambda>e. fput (fst e) (snd e)) (zip (map fst es) vs)
                    (case acc of JTObj old \<Rightarrow> old | _ \<Rightarrow> []))))
         | _ \<Rightarrow> None)
      else fields_field num ms acc)"

definition empty_record :: log_record where
  "empty_record = \<lparr>lr_Ts = [], lr_Level = [], lr_Service = [], lr_Message = [], lr_TraceID = [], lr_SpanID = [],
     lr_Fields = JTNull\<rparr>"

text \<open>\<open>json.Unmarshal\<close> of a line of the spool.\<close>

definition record_of_line :: "(string \<Rightarrow> json_tree option) \<Rightarrow> string \<Rightarrow> log_record option" where
  "record_of_line num line =
     (case json_parse line of
        Some JNull \<Rightarrow> Some empty_record
      | Some (JObj ms) \<Rightarrow>
          (case (string_field ''ts'' ms [], string_field ''level'' ms [], string_field ''service'' ms [],
                 string_field ''message'' ms [], string_field ''trace_id'' ms [], string_field ''span_id'' ms [],
                 fields_field num ms JTNull) of
             (Some t, Some l, Some s, Some g, Some tr, Some sp, Some fs) \<Rightarrow>
               Some \<lparr>lr_Ts = t, lr_Level = l, lr_Service = s, lr_Message = g, lr_TraceID = tr, lr_SpanID = sp,
                     lr_Fields = fs\<rparr>
           | _ \<Rightarrow> None)
      | _ \<Rightarrow> None)"

section \<open>The shipper's state\<close>

text \<open>What a file operation does: it succeeds, fails, or transfers only so many bytes.\<close>

datatype file_result = FileOK | FileFails | FileShort nat

record 'm shipper =
  sp_queue :: "log_record list"
  sp_batch :: "log_record list"
  sp_dropped :: int
  sp_file :: "string option"
  sp_stopped :: bool
  sp_fs :: "file_result list"
  sp_net :: 'm

text \<open>The service's network: the status of a post, or none when the request failed.\<close>

type_synonym 'm log_http = "string \<Rightarrow> string \<Rightarrow> 'm \<Rightarrow> int option \<times> 'm"

record 'm ship_env =
  se_opts :: log_options
  se_http :: "'m log_http"
  se_num :: "string \<Rightarrow> json_tree option"

definition next_file :: "'m shipper \<Rightarrow> file_result \<times> 'm shipper" where
  "next_file s = (case sp_fs s of [] \<Rightarrow> (FileOK, s) | r # rs \<Rightarrow> (r, s\<lparr>sp_fs := rs\<rparr>))"

definition log_endpoint :: "log_options \<Rightarrow> string" where
  "log_endpoint o1 = TrimRight1 (lo_ServerURL o1) CHR ''/'' @ ''/api/ingest''"

definition ship_enqueue :: "'m ship_env \<Rightarrow> log_record \<Rightarrow> 'm shipper \<Rightarrow> 'm shipper" where
  "ship_enqueue se r s =
     (if int (length (sp_queue s)) < lo_QueueSize (se_opts se) then s\<lparr>sp_queue := sp_queue s @ [r]\<rparr>
      else s\<lparr>sp_dropped := sp_dropped s + 1\<rparr>)"

section \<open>The spool file\<close>

text \<open>The lines written for records; one that cannot be marshalled is left out.\<close>

fun spool_text :: "log_record list \<Rightarrow> string" where
  "spool_text [] = []"
| "spool_text (r # rs) =
     (case json_Marshal (record_tree r) of Some l \<Rightarrow> l @ [CHR 0x0A] | None \<Rightarrow> []) @ spool_text rs"

definition short_of :: "file_result \<Rightarrow> string \<Rightarrow> string" where
  "short_of r t = (case r of FileShort n \<Rightarrow> take n t | _ \<Rightarrow> t)"

text \<open>
  \<open>bufio.Scanner\<close> on lines with a buffer of 8 MB: it stops at a line that does not fit.
\<close>

definition max_line :: int where
  "max_line = 8 * 1024 * 1024"

definition drop_cr :: "string \<Rightarrow> string" where
  "drop_cr l = (if l \<noteq> [] \<and> last l = CHR 0x0D then butlast l else l)"

function scan_lines :: "string \<Rightarrow> string list" where
  "scan_lines d =
     (if d = [] then []
      else case IndexByte d CHR 0x0A of
        Some i \<Rightarrow> (if max_line \<le> int i then [] else drop_cr (take i d) # scan_lines (drop (Suc i) d))
      | None \<Rightarrow> (if max_line \<le> int (length d) then [] else [drop_cr d]))"
  by pat_completeness auto
termination
  by (relation "measure length") auto

declare scan_lines.simps [simp del]

definition records_of :: "(string \<Rightarrow> json_tree option) \<Rightarrow> string \<Rightarrow> log_record list" where
  "records_of num d = List.map_filter (record_of_line num) (filter (\<lambda>l. l \<noteq> []) (map TrimSpace (scan_lines d)))"

definition spoolRead :: "'m ship_env \<Rightarrow> 'm shipper \<Rightarrow> log_record list \<times> 'm shipper" where
  "spoolRead se s =
     (let (r, s1) = next_file s in
      (case sp_file s1 of
         None \<Rightarrow> []
       | Some d \<Rightarrow> (if r = FileFails then [] else records_of (se_num se) (short_of r d)), s1))"

text \<open>Writing a temporary file and renaming it; the errors of the write are not looked at.\<close>

definition spoolRewrite :: "log_record list \<Rightarrow> 'm shipper \<Rightarrow> 'm shipper" where
  "spoolRewrite recs s =
     (let (r, s1) = next_file s in
      if recs = [] then (if r = FileFails then s1 else s1\<lparr>sp_file := None\<rparr>)
      else if r = FileFails then s1
      else
        let (q, s2) = next_file s1 in
        if q = FileFails then s2 else s2\<lparr>sp_file := Some (short_of r (spool_text recs))\<rparr>)"

definition line_size :: "log_record \<Rightarrow> int" where
  "line_size r = (case json_Marshal (record_tree r) of Some l \<Rightarrow> int (length l) + 1 | None \<Rightarrow> 0)"

fun drop_oldest :: "int \<Rightarrow> int \<Rightarrow> log_record list \<Rightarrow> log_record list" where
  "drop_oldest cap bytes [] = []"
| "drop_oldest cap bytes (r # rs) = (if cap < bytes then drop_oldest cap (bytes - line_size r) rs else r # rs)"

definition enforceCap :: "'m ship_env \<Rightarrow> 'm shipper \<Rightarrow> 'm shipper" where
  "enforceCap se s =
     (let (r, s1) = next_file s; cap = lo_SpoolMaxBytes (se_opts se) in
      if r = FileFails \<or> (case sp_file s1 of None \<Rightarrow> True | Some d \<Rightarrow> int (length d) \<le> cap) then s1
      else
        let (recs, s2) = spoolRead se s1 in
        spoolRewrite (drop_oldest cap (sum_list (map line_size recs)) recs) s2)"

definition spoolAppend :: "'m ship_env \<Rightarrow> log_record list \<Rightarrow> 'm shipper \<Rightarrow> 'm shipper" where
  "spoolAppend se recs s =
     (if recs = [] then s
      else
        let (r, s1) = next_file s in
        if r = FileFails then s1\<lparr>sp_dropped := sp_dropped s1 + int (length recs)\<rparr>
        else enforceCap se (s1\<lparr>sp_file := Some
          ((case sp_file s1 of None \<Rightarrow> [] | Some d \<Rightarrow> d) @ short_of r (spool_text recs))\<rparr>))"

section \<open>Sending\<close>

definition ingest_body :: "log_record list \<Rightarrow> json_tree" where
  "ingest_body recs = JTObj [(''records'', JTArr (map record_tree recs))]"

definition ship_post :: "'m ship_env \<Rightarrow> log_record list \<Rightarrow> 'm shipper \<Rightarrow> bool \<times> 'm shipper" where
  "ship_post se recs s =
     (case json_Marshal (ingest_body recs) of
        None \<Rightarrow> (False, s)
      | Some body \<Rightarrow>
          (let (c, m) = se_http se (log_endpoint (se_opts se)) body (sp_net s) in
           ((case c of Some n \<Rightarrow> 200 \<le> n \<and> n < 300 | None \<Rightarrow> False), s\<lparr>sp_net := m\<rparr>)))"

text \<open>Posting in chunks up to the first that is not delivered; what is left.\<close>

function post_chunks :: "'m ship_env \<Rightarrow> log_record list \<Rightarrow> 'm shipper \<Rightarrow> log_record list \<times> 'm shipper" where
  "post_chunks se recs s =
     (if recs = [] \<or> lo_BatchSize (se_opts se) \<le> 0 then (recs, s)
      else
        let n = nat (lo_BatchSize (se_opts se)); (ok, s1) = ship_post se (take n recs) s in
        if ok then post_chunks se (drop n recs) s1 else (recs, s1))"
  by pat_completeness auto
termination
  by (relation "measure (\<lambda>(se, recs, s). length recs)") auto

declare post_chunks.simps [simp del]

definition ship_send :: "'m ship_env \<Rightarrow> log_record list \<Rightarrow> 'm shipper \<Rightarrow> 'm shipper" where
  "ship_send se recs s = (let (rest, s1) = post_chunks se recs s in if rest = [] then s1 else spoolAppend se rest s1)"

definition drainSpool :: "'m ship_env \<Rightarrow> 'm shipper \<Rightarrow> 'm shipper" where
  "drainSpool se s =
     (let (recs, s1) = spoolRead se s in
      if recs = [] then s1
      else
        let (rest, s2) = post_chunks se recs s1 in
        if length rest = length recs then s2 else spoolRewrite rest s2)"

section \<open>The loop\<close>

datatype ship_event = Logged log_record | Received | FlushTick | RetryTick | FlushRequest | Done

definition send_batch :: "'m ship_env \<Rightarrow> 'm shipper \<Rightarrow> 'm shipper" where
  "send_batch se s = (if sp_batch s = [] then s else (ship_send se (sp_batch s) s)\<lparr>sp_batch := []\<rparr>)"

definition drainQueue :: "'m shipper \<Rightarrow> 'm shipper" where
  "drainQueue s = s\<lparr>sp_batch := sp_batch s @ sp_queue s, sp_queue := []\<rparr>"

text \<open>A call of \<open>enqueue\<close>, or one turn of the loop, which no longer turns once it has stopped.\<close>

fun ship_step :: "'m ship_env \<Rightarrow> ship_event \<Rightarrow> 'm shipper \<Rightarrow> 'm shipper" where
  "ship_step se (Logged r) s = ship_enqueue se r s"
| "ship_step se Received s =
     (if sp_stopped s then s
      else case sp_queue s of
        [] \<Rightarrow> s
      | r # q \<Rightarrow>
          (let s1 = s\<lparr>sp_queue := q, sp_batch := sp_batch s @ [r]\<rparr> in
           if lo_BatchSize (se_opts se) \<le> int (length (sp_batch s1)) then send_batch se s1 else s1))"
| "ship_step se FlushTick s = (if sp_stopped s then s else send_batch se s)"
| "ship_step se RetryTick s = (if sp_stopped s then s else drainSpool se s)"
| "ship_step se FlushRequest s = (if sp_stopped s then s else drainSpool se (send_batch se (drainQueue s)))"
| "ship_step se Done s =
     (if sp_stopped s then s else (drainSpool se (send_batch se (drainQueue s)))\<lparr>sp_stopped := True\<rparr>)"

definition ship_run :: "'m ship_env \<Rightarrow> ship_event list \<Rightarrow> 'm shipper \<Rightarrow> 'm shipper" where
  "ship_run se = fold (ship_step se)"

fun logged_of :: "ship_event list \<Rightarrow> log_record list" where
  "logged_of [] = []"
| "logged_of (Logged r # es) = r # logged_of es"
| "logged_of (_ # es) = logged_of es"

lemma logged_of_append [simp]: "logged_of (xs @ ys) = logged_of xs @ logged_of ys"
  by (induction xs rule: logged_of.induct) simp_all

definition newShipper :: "string option \<Rightarrow> file_result list \<Rightarrow> 'm \<Rightarrow> 'm shipper" where
  "newShipper file fs m = \<lparr>sp_queue = [], sp_batch = [], sp_dropped = 0, sp_file = file, sp_stopped = False,
     sp_fs = fs, sp_net = m\<rparr>"

section \<open>Records survive the spool\<close>

text \<open>
  A value that a \<open>map[string]any\<close> gives back as it was: its texts are valid UTF-8, its integers exact
  in 64-bit floats, its maps in the order of their keys.
\<close>

fun plain_tree :: "json_tree \<Rightarrow> bool" where
  "plain_tree (JTStr s) \<longleftrightarrow> coerce_utf8 s = s"
| "plain_tree (JTInt i) \<longleftrightarrow> \<bar>i\<bar> \<le> 2 ^ 53"
| "plain_tree (JTArr vs) \<longleftrightarrow> (\<forall>v \<in> set vs. plain_tree v)"
| "plain_tree (JTObj ms) \<longleftrightarrow> sorted (map fst ms) \<and> distinct (map fst ms) \<and>
     (\<forall>m \<in> set ms. coerce_utf8 (fst m) = fst m \<and> plain_tree (snd m))"
| "plain_tree JTBad \<longleftrightarrow> False"
| "plain_tree _ \<longleftrightarrow> True"

definition exact_numbers :: "(string \<Rightarrow> json_tree option) \<Rightarrow> bool" where
  "exact_numbers num \<longleftrightarrow> (\<forall>i. \<bar>i\<bar> \<le> 2 ^ 53 \<longrightarrow> num (fmt_int i) = Some (JTInt i))"

definition plain_record :: "log_record \<Rightarrow> bool" where
  "plain_record r \<longleftrightarrow> (\<forall>s \<in> {lr_Ts r, lr_Level r, lr_Service r, lr_Message r, lr_TraceID r, lr_SpanID r}. coerce_utf8 s = s) \<and>
     (\<exists>ms. lr_Fields r = JTObj ms) \<and> plain_tree (lr_Fields r) \<and> int (json_depth (lr_Fields r)) + 3 \<le> max_nesting"

lemma escape_char_bytes:
  assumes "c \<in> set (escape_char b)"
  shows "0x20 \<le> byte c"
proof -
  have h: "0x20 \<le> byte (hex_char (byte d div 16))" "0x20 \<le> byte (hex_char (byte d mod 16))" for d
    using byte_less [of d] by (simp_all add: hex_char_def byte_char_of)
  have k: "byte CHR 0x22 = 34" "byte CHR 0x5C = 92" "byte CHR ''b'' = 98" "byte CHR ''f'' = 102" "byte CHR ''n'' = 110"
    "byte CHR ''r'' = 114" "byte CHR ''t'' = 116" "byte CHR ''u'' = 117" "byte CHR ''0'' = 48"
    by (simp_all add: byte_def)
  have "\<forall>c \<in> set (escape_char b). 0x20 \<le> byte c"
    unfolding escape_char_def by (simp only: set_append list.set k h not_less ball_simps de_Morgan_disj
      split: if_split) (simp add: k h)
  with assms show ?thesis by blast
qed

lemma json_escape_bytes: "c \<in> set (json_escape s) \<Longrightarrow> 0x20 \<le> byte c"
proof (induction s rule: json_escape.induct)
  case (1 s)
  show ?case
  proof (cases s)
    case Nil
    with 1(4) show ?thesis by simp
  next
    case (Cons b s1)
    consider "byte b < 0x80" | "\<not> byte b < 0x80" "utf8_len s = 0" | "\<not> byte b < 0x80" "utf8_len s \<noteq> 0" by blast
    then show ?thesis
    proof cases
      case 1
      then have "c \<in> set (escape_char b) \<or> c \<in> set (json_escape s1)"
        using "1.prems" Cons by (simp add: json_escape_Cons)
      with "1.IH"(1) [OF Cons 1] escape_char_bytes show ?thesis by blast
    next
      case 2
      then have "c \<in> set (CHR 0x5C # ''ufffd'') \<or> c \<in> set (json_escape s1)"
        using "1.prems" Cons by (simp add: json_escape_Cons)
      moreover have "x \<in> set (CHR 0x5C # ''ufffd'') \<Longrightarrow> 0x20 \<le> byte x" for x by (auto simp: byte_def)
      ultimately show ?thesis using "1.IH"(2) [OF Cons 2(1) refl 2(2)] by blast
    next
      case 3
      have "\<forall>x \<in> set (take (utf8_len s) s). 0x80 \<le> byte x" using utf8_high [of b s1] 3 Cons by simp
      then have r: "c \<in> set (escape_rune (take (utf8_len s) s)) \<Longrightarrow> 0x20 \<le> byte c"
        by (auto simp: escape_rune_def byte_def split: if_splits)
      have "c \<in> set (escape_rune (take (utf8_len s) s)) \<or> c \<in> set (json_escape (drop (utf8_len s) s))"
        using "1.prems" Cons 3 by (simp add: json_escape_Cons)
      with "1.IH"(3) [OF Cons 3(1) refl 3(2)] r show ?thesis by blast
    qed
  qed
qed

lemma fmt_int_bytes: "c \<in> set (fmt_int i) \<Longrightarrow> 0x20 \<le> byte c"
  using fmt_int_chars [of c i] by (auto simp: byte_def)

lemma json_text_bytes:
  "c \<in> set (json_text v) \<Longrightarrow> 0x20 \<le> byte c"
  "c \<in> set (elems_text vs) \<Longrightarrow> 0x20 \<le> byte c"
  "c \<in> set (members_text ms) \<Longrightarrow> 0x20 \<le> byte c"
proof (induction v and vs and ms rule: json_text_elems_text_members_text.induct)
  case (3 i)
  then show ?case by (simp add: fmt_int_bytes)
qed (auto simp: quoted_def byte_def split: if_splits dest: json_escape_bytes [unfolded byte_def])

lemma json_text_pos: "json_ok v \<Longrightarrow> 0 < length (json_text v)"
  using json_text_first(2) by blast

lemma length_elems_text: "v \<in> set vs \<Longrightarrow> length (json_text v) < length (elems_text vs)"
  by (induction vs) auto

lemma length_members_text: "m \<in> set ms \<Longrightarrow> length (json_text (snd m)) < length (members_text ms)"
  by (induction ms) auto

lemma depth_less_length: "json_ok v \<Longrightarrow> json_depth v < length (json_text v)"
proof (induction v rule: json_ok.induct)
  case (1 vs)
  have "json_depth v < length (elems_text vs)" if "v \<in> set vs" for v
    using 1 that length_elems_text [OF that] by fastforce
  moreover have "0 < length (elems_text vs)" by (cases vs) auto
  ultimately show ?case by simp
next
  case (2 ms)
  have "json_depth (snd m) < length (members_text ms)" if "m \<in> set ms" for m
    using 2 that length_members_text [OF that] by fastforce
  moreover have "0 < length (members_text ms)" by (cases ms) auto
  ultimately show ?case by simp
qed (use fmt_int_first in \<open>simp_all add: quoted_def\<close>)

lemma plain_ok: "plain_tree v \<Longrightarrow> json_ok v"
  by (induction v rule: json_ok.induct) auto

lemma plain_parse:
  assumes "plain_tree v" and "int (json_depth v) \<le> max_nesting"
  shows "json_parse (json_text v) = Some (json_view v)"
  by (rule json_parse_Marshal) (use assms plain_ok in \<open>auto simp: json_Marshal_def\<close>)

lemma fold_fput_new:
  "distinct (map fst xs) \<Longrightarrow> fst ` set xs \<inter> fst ` set acc = {} \<Longrightarrow>
   fold (\<lambda>e. fput (fst e) (snd e)) xs acc = acc @ xs"
proof (induction xs arbitrary: acc)
  case (Cons x xs)
  have "filter (\<lambda>e. fst e \<noteq> fst x) acc = acc"
    using Cons.prems(2) by (intro filter_True) (auto simp: rev_image_eqI)
  then have "fput (fst x) (snd x) acc = acc @ [x]" by (simp add: fput_def)
  moreover have "fold (\<lambda>e. fput (fst e) (snd e)) xs (acc @ [x]) = (acc @ [x]) @ xs"
    using Cons.prems by (intro Cons.IH) auto
  ultimately show ?case by simp
qed simp

lemma map_read_back:
  assumes "plain_tree (JTObj ms)"
  shows "go_map (fold (\<lambda>e. fput (fst e) (snd e)) (zip (map (\<lambda>m. coerce_utf8 (fst m)) ms) (map snd ms)) []) = JTObj ms"
proof -
  have k: "map (\<lambda>m. coerce_utf8 (fst m)) ms = map fst ms" using assms by simp
  have "fold (\<lambda>e. fput (fst e) (snd e)) ms [] = ms"
    using assms by (simp add: fold_fput_new)
  moreover have "sort_key fst ms = ms" using assms by (simp add: sorted_sort_id sort_key_id_if_sorted)
  ultimately show ?thesis by (simp add: k zip_map_fst_snd go_map_def)
qed

lemma those_map_Some: "\<forall>x \<in> set xs. f x = Some (g x) \<Longrightarrow> those (map f xs) = Some (map g xs)"
  by (induction xs) auto

lemma any_value_plain:
  "exact_numbers num \<Longrightarrow> plain_tree v \<Longrightarrow> json_depth v < n \<Longrightarrow> int (json_depth v) \<le> max_nesting \<Longrightarrow>
   any_value num n (json_text v) = Some v"
proof (induction v arbitrary: n rule: plain_tree.induct)
  case (3 vs)
  obtain k where n: "n = Suc k" using 3(4) by (cases n) auto
  have "any_value num k (json_text v) = Some v" if "v \<in> set vs" for v
    using 3 that depth_le(1) [OF that] n by (intro 3(1)) auto
  then have "those (map (\<lambda>v. any_value num k (json_text v)) vs) = Some (map (\<lambda>v. v) vs)"
    by (intro those_map_Some) blast
  with plain_parse [OF 3(3,5)] show ?case by (simp add: n comp_def)
next
  case (4 ms)
  obtain k where n: "n = Suc k" using 4(4) by (cases n) auto
  have "any_value num k (json_text (snd m)) = Some (snd m)" if "m \<in> set ms" for m
    using 4 that depth_le(2) [OF that] n by (intro 4(1)) auto
  then have "those (map (\<lambda>m. any_value num k (json_text (snd m))) ms) = Some (map snd ms)"
    by (intro those_map_Some) blast
  with plain_parse [OF 4(3,5)] map_read_back [OF 4(3)] show ?case by (simp add: n comp_def)
next
  case (1 s)
  then show ?case using plain_parse [OF 1(2)] by (cases n) simp_all
next
  case (2 i)
  then show ?case using plain_parse [OF 2(2)] by (cases n) (simp_all add: exact_numbers_def)
next
  case 5
  then show ?case by simp
next
  case "6_1"
  then show ?case using plain_parse [of JTNull] by (cases n) simp_all
next
  case "6_2"
  then show ?case by (cases n) (simp_all add: plain_parse del: json_text.simps)
qed

lemma fold_names:
  "fold_name ''ts'' = ''ts''" "fold_name ''level'' = ''level''" "fold_name ''service'' = ''service''"
  "fold_name ''message'' = ''message''" "fold_name ''trace_id'' = ''trace_id''" "fold_name ''span_id'' = ''span_id''"
  "fold_name ''fields'' = ''fields''"
  by code_simp+

text \<open>The members of a record's line.\<close>

definition record_members :: "log_record \<Rightarrow> (string \<times> string) list" where
  "record_members r =
     [(''ts'', json_text (JTStr (lr_Ts r))), (''level'', json_text (JTStr (lr_Level r))),
      (''service'', json_text (JTStr (lr_Service r))), (''message'', json_text (JTStr (lr_Message r))),
      (''trace_id'', json_text (JTStr (lr_TraceID r))), (''span_id'', json_text (JTStr (lr_SpanID r))),
      (''fields'', json_text (lr_Fields r))]"

lemma plain_record_ok:
  assumes "plain_record r"
  shows "json_ok (record_tree r)" and "json_depth (record_tree r) = Suc (json_depth (lr_Fields r))"
  using assms plain_ok [of "lr_Fields r"] by (auto simp: plain_record_def record_tree_def)

lemma record_parse:
  assumes "plain_record r"
  shows "json_parse (json_text (record_tree r)) = Some (JObj (record_members r))"
proof -
  have "json_parse (json_text (record_tree r)) = Some (json_view (record_tree r))"
    by (rule json_parse_Marshal) (use assms plain_record_ok in \<open>simp_all add: json_Marshal_def plain_record_def\<close>)
  moreover have c: "coerce_utf8 k = k" if "k \<in> {''ts'', ''level'', ''service'', ''message'', ''trace_id'', ''span_id'', ''fields''}" for k
    using that by (elim insertE emptyE) (simp, code_simp)+
  ultimately show ?thesis
    by (simp only: record_members_def record_tree_def json_view.simps c list.map fst_conv snd_conv insert_iff simp_thms)
qed

lemma record_strings:
  assumes "plain_record r"
  shows "string_field ''ts'' (record_members r) [] = Some (lr_Ts r)"
    "string_field ''level'' (record_members r) [] = Some (lr_Level r)"
    "string_field ''service'' (record_members r) [] = Some (lr_Service r)"
    "string_field ''message'' (record_members r) [] = Some (lr_Message r)"
    "string_field ''trace_id'' (record_members r) [] = Some (lr_TraceID r)"
    "string_field ''span_id'' (record_members r) [] = Some (lr_SpanID r)"
proof -
  have s: "json_parse (json_text (JTStr x)) = Some (JStr x)" if "coerce_utf8 x = x" for x
    using plain_parse [of "JTStr x"] that by (simp add: max_nesting_def)
  have u: "coerce_utf8 (lr_Ts r) = lr_Ts r" "coerce_utf8 (lr_Level r) = lr_Level r" "coerce_utf8 (lr_Service r) = lr_Service r"
    "coerce_utf8 (lr_Message r) = lr_Message r" "coerce_utf8 (lr_TraceID r) = lr_TraceID r" "coerce_utf8 (lr_SpanID r) = lr_SpanID r"
    using assms by (simp_all add: plain_record_def)
  show "string_field ''ts'' (record_members r) [] = Some (lr_Ts r)"
    "string_field ''level'' (record_members r) [] = Some (lr_Level r)"
    "string_field ''service'' (record_members r) [] = Some (lr_Service r)"
    "string_field ''message'' (record_members r) [] = Some (lr_Message r)"
    "string_field ''trace_id'' (record_members r) [] = Some (lr_TraceID r)"
    "string_field ''span_id'' (record_members r) [] = Some (lr_SpanID r)"
    by (simp_all add: record_members_def names_def fold_names s [OF u(1)] s [OF u(2)] s [OF u(3)] s [OF u(4)]
      s [OF u(5)] s [OF u(6)] del: json_text.simps fold_name.simps)
qed

lemma record_of_own_line:
  assumes "exact_numbers num" and "plain_record r"
  shows "record_of_line num (json_text (record_tree r)) = Some r"
proof -
  obtain ms where ms: "lr_Fields r = JTObj ms" using assms(2) by (auto simp: plain_record_def)
  have f: "plain_tree (JTObj ms)" "int (json_depth (JTObj ms)) + 3 \<le> max_nesting"
    using assms(2) ms by (simp_all add: plain_record_def)
  have e: "any_value num (length (json_text (snd m))) (json_text (snd m)) = Some (snd m)" if "m \<in> set ms" for m
  proof -
    have "plain_tree (snd m)" using f(1) that by simp
    moreover have "int (json_depth (snd m)) \<le> max_nesting" using depth_le(2) [OF that] f(2) by linarith
    ultimately show ?thesis using depth_less_length plain_ok by (intro any_value_plain [OF assms(1)]) blast+
  qed
  have fs: "those (map (\<lambda>e. any_value num (length (snd e)) (snd e)) (map (\<lambda>m. (coerce_utf8 (fst m), json_text (snd m))) ms)) =
      Some (map snd ms)"
    unfolding list.map_comp by (rule those_map_Some) (use e in \<open>simp add: comp_def\<close>)
  have p: "json_parse (json_text (JTObj ms)) = Some (json_view (JTObj ms))"
    using f by (intro plain_parse) auto
  have "fields_field num (record_members r) JTNull = fields_field num [(''fields'', json_text (JTObj ms))] JTNull"
    by (simp add: record_members_def ms names_def fold_names del: json_text.simps fold_name.simps)
  also have "\<dots> = (case those (map (\<lambda>e. any_value num (length (snd e)) (snd e))
        (map (\<lambda>m. (coerce_utf8 (fst m), json_text (snd m))) ms)) of
      None \<Rightarrow> None
    | Some vs \<Rightarrow> Some (go_map (fold (\<lambda>e. fput (fst e) (snd e))
        (zip (map fst (map (\<lambda>m. (coerce_utf8 (fst m), json_text (snd m))) ms)) vs) [])))"
    unfolding fields_field.simps names_def fst_conv snd_conv p json_view.simps by (simp split: option.split)
  also have "\<dots> = Some (lr_Fields r)"
    using map_read_back [OF f(1)] unfolding fs ms by (simp add: comp_def)
  finally show ?thesis
    by (simp add: record_of_line_def record_parse [OF assms(2)] record_strings [OF assms(2)])
qed

section \<open>The spool is read back\<close>

definition good_record :: "log_record \<Rightarrow> bool" where
  "good_record r \<longleftrightarrow> plain_record r \<and> lr_Ts r \<noteq> [] \<and> lr_Level r \<noteq> [] \<and> int (length (json_text (record_tree r))) < max_line"

lemma good_Marshal: "good_record r \<Longrightarrow> json_Marshal (record_tree r) = Some (json_text (record_tree r))"
  using plain_ok [of "lr_Fields r"] by (auto simp: good_record_def plain_record_def json_Marshal_def record_tree_def)

lemma members_text_end: "\<exists>x. members_text ms = x @ ''}''"
proof (induction ms)
  case (Cons m ms)
  then show ?case by (cases "ms = []") auto
qed simp

lemma record_line:
  "CHR 0x0A \<notin> set (json_text (record_tree r))" "drop_cr (json_text (record_tree r)) = json_text (record_tree r)"
  "TrimSpace (json_text (record_tree r)) = json_text (record_tree r)" "json_text (record_tree r) \<noteq> []"
proof -
  show "CHR 0x0A \<notin> set (json_text (record_tree r))"
    using json_text_bytes(1) [of "CHR 0x0A"] by (auto simp: byte_def)
  obtain x where x: "json_text (record_tree r) = CHR ''{'' # x @ ''}''"
    using members_text_end by (auto simp: record_tree_def simp del: members_text.simps)
  show "drop_cr (json_text (record_tree r)) = json_text (record_tree r)" "json_text (record_tree r) \<noteq> []"
    by (simp_all add: x drop_cr_def)
  show "TrimSpace (json_text (record_tree r)) = json_text (record_tree r)"
    unfolding x by (rule TrimSpace_keep) (simp_all add: space_runes_def)
qed

lemma spool_text_append: "spool_text (a @ b) = spool_text a @ spool_text b"
  by (induction a) simp_all

lemma records_of_spool:
  assumes "exact_numbers num"
  shows "\<forall>r \<in> set recs. good_record r \<Longrightarrow> records_of num (spool_text recs) = recs"
proof (induction recs)
  case Nil
  show ?case by (simp add: records_of_def scan_lines.simps map_filter_simps)
next
  case (Cons r rs)
  let ?l = "json_text (record_tree r)"
  have g: "good_record r" using Cons.prems by simp
  have t: "spool_text (r # rs) = ?l @ CHR 0x0A # spool_text rs" by (simp add: good_Marshal [OF g])
  have "\<not> max_line \<le> int (length ?l)" using g by (simp add: good_record_def)
  then have "scan_lines (spool_text (r # rs)) = ?l # scan_lines (spool_text rs)"
    unfolding t using record_line(1,2) [of r] IndexByte_append [OF record_line(1)]
    by (subst scan_lines.simps) simp
  moreover have "record_of_line num ?l = Some r"
    using record_of_own_line [OF assms] g by (simp add: good_record_def)
  ultimately show ?case
    using Cons record_line(3,4) [of r] by (simp add: records_of_def map_filter_simps)
qed

lemma line_size_good: "good_record r \<Longrightarrow> line_size r = int (length (json_text (record_tree r))) + 1"
  by (simp add: line_size_def good_Marshal)

lemma length_spool_text: "int (length (spool_text recs)) = sum_list (map line_size recs)"
  by (induction recs) (simp_all add: line_size_def split: option.split)

lemma line_size_nonneg: "0 \<le> line_size r"
  by (simp add: line_size_def split: option.split)

definition file_text :: "'m shipper \<Rightarrow> string" where
  "file_text s = (case sp_file s of None \<Rightarrow> [] | Some d \<Rightarrow> d)"

section \<open>Every record is accounted for\<close>

text \<open>Whether all these records together fit into the spool.\<close>

definition fits :: "'m ship_env \<Rightarrow> log_record list \<Rightarrow> bool" where
  "fits se enq \<longleftrightarrow> sum_list (map line_size enq) \<le> lo_SpoolMaxBytes (se_opts se)"

text \<open>
  With the server up, a flush leaves nothing behind; \<open>up\<close> is when it answers good records with a 2xx
  status and stays up.
\<close>

definition server_up :: "'m ship_env \<Rightarrow> ('m \<Rightarrow> bool) \<Rightarrow> bool" where
  "server_up se up \<longleftrightarrow> (\<forall>recs m. recs \<noteq> [] \<longrightarrow> (\<forall>r \<in> set recs. good_record r) \<longrightarrow> up m \<longrightarrow>
     (\<exists>c m'. se_http se (log_endpoint (se_opts se)) (json_text (ingest_body recs)) m = (Some c, m') \<and>
        200 \<le> c \<and> c < 300 \<and> up m'))"

definition delivered :: "int option \<Rightarrow> bool" where
  "delivered c \<longleftrightarrow> (case c of Some n \<Rightarrow> 200 \<le> n \<and> n < 300 | None \<Rightarrow> False)"

text \<open>
  What the shipper needs of the network and the server behind it: a post that is answered with a 2xx
  status has stored one row for each of its records, any other post all of them or none, and none
  where no reply is lost (\<open>certain\<close>).
\<close>

locale log_sink =
  fixes http :: "'m log_http"
    and stored :: "'m \<Rightarrow> 'r multiset"
    and row :: "log_record \<Rightarrow> 'r"
    and certain :: "'m \<Rightarrow> bool"
  assumes accepted: "recs \<noteq> [] \<Longrightarrow> \<forall>r \<in> set recs. good_record r \<Longrightarrow>
      http url (json_text (ingest_body recs)) m = (c, m') \<Longrightarrow> delivered c \<Longrightarrow>
      stored m' = stored m + image_mset row (mset recs)"
    and refused: "recs \<noteq> [] \<Longrightarrow> \<forall>r \<in> set recs. good_record r \<Longrightarrow>
      http url (json_text (ingest_body recs)) m = (c, m') \<Longrightarrow> \<not> delivered c \<Longrightarrow>
      stored m' = stored m \<or> \<not> certain m \<and> stored m' = stored m + image_mset row (mset recs)"
    and certain_stays: "http url body m = (c, m') \<Longrightarrow> certain m \<Longrightarrow> certain m'"
begin

text \<open>The records \<open>sent\<close> were stored, and besides them copies \<open>extra\<close> of what was posted in vain.\<close>

definition grown :: "log_record multiset \<Rightarrow> log_record multiset \<Rightarrow> log_record set \<Rightarrow> 'm \<Rightarrow> 'm \<Rightarrow> bool" where
  "grown sent extra posted m m' \<longleftrightarrow>
     stored m' = stored m + image_mset row sent + image_mset row extra \<and> set_mset extra \<subseteq> posted \<and>
     (certain m \<longrightarrow> extra = {#} \<and> certain m')"

lemma grown_refl: "grown {#} {#} posted m m"
  by (simp add: grown_def)

lemma grown_trans:
  "grown a x p m m1 \<Longrightarrow> grown b y p m1 m2 \<Longrightarrow> grown (a + b) (x + y) p m m2"
  by (auto simp: grown_def ac_simps)

lemma grown_mono: "grown a x p m m1 \<Longrightarrow> p \<subseteq> q \<Longrightarrow> grown a x q m m1"
  by (auto simp: grown_def)

lemma post_effect:
  assumes "se_http se = http" and "recs \<noteq> []" and "\<forall>r \<in> set recs. good_record r"
    and "ship_post se recs s = (ok, s')"
  shows "\<exists>m x. s' = s\<lparr>sp_net := m\<rparr> \<and> grown (if ok then mset recs else {#}) x (set recs) (sp_net s) m"
proof -
  have "json_ok (ingest_body recs)"
    using assms(3) good_Marshal by (fastforce simp: ingest_body_def json_Marshal_def split: if_splits)
  then have b: "json_Marshal (ingest_body recs) = Some (json_text (ingest_body recs))"
    by (simp add: json_Marshal_def)
  obtain c m where h: "http (log_endpoint (se_opts se)) (json_text (ingest_body recs)) (sp_net s) = (c, m)" by fastforce
  have s': "s' = s\<lparr>sp_net := m\<rparr>" "ok \<longleftrightarrow> delivered c"
    using assms(1,4) b h by (auto simp: ship_post_def delivered_def)
  have "\<exists>x. grown (if ok then mset recs else {#}) x (set recs) (sp_net s) m"
  proof (cases ok)
    case True
    then have "grown (mset recs) {#} (set recs) (sp_net s) m"
      using accepted [OF assms(2,3) h] certain_stays [OF h] s'(2) by (simp add: grown_def)
    with True show ?thesis by auto
  next
    case False
    with s'(2) have "\<not> delivered c" by simp
    from refused [OF assms(2,3) h this] show ?thesis
    proof (elim disjE)
      assume "stored m = stored (sp_net s)"
      then have "grown {#} {#} (set recs) (sp_net s) m" using certain_stays [OF h] by (simp add: grown_def)
      with False show ?thesis by auto
    next
      assume "\<not> certain (sp_net s) \<and> stored m = stored (sp_net s) + image_mset row (mset recs)"
      then have "grown {#} (mset recs) (set recs) (sp_net s) m" by (simp add: grown_def)
      with False show ?thesis by auto
    qed
  qed
  with s'(1) show ?thesis by blast
qed

lemma chunks_effect:
  "se_http se = http \<Longrightarrow> \<forall>r \<in> set recs. good_record r \<Longrightarrow> post_chunks se recs s = (rest, s') \<Longrightarrow>
   \<exists>sent m x. recs = sent @ rest \<and> s' = s\<lparr>sp_net := m\<rparr> \<and> grown (mset sent) x (set recs) (sp_net s) m"
proof (induction "length recs" arbitrary: recs s rule: less_induct)
  case less
  show ?case
  proof (cases "recs = [] \<or> lo_BatchSize (se_opts se) \<le> 0")
    case True
    with less.prems(3) have "rest = recs \<and> s' = s" by (auto simp: post_chunks.simps [of se recs s])
    then show ?thesis
      by (intro exI [of _ "[]"] exI [of _ "sp_net s"] exI [of _ "{#}"]) (simp add: grown_refl)
  next
    case False
    define n where "n = nat (lo_BatchSize (se_opts se))"
    obtain ok s1 where p: "ship_post se (take n recs) s = (ok, s1)" by fastforce
    have n: "0 < n" "take n recs \<noteq> []" using False by (auto simp: n_def)
    have "\<forall>r \<in> set (take n recs). good_record r" using less.prems(2) by (meson in_set_takeD)
    from post_effect [OF less.prems(1) n(2) this p] obtain m x where m: "s1 = s\<lparr>sp_net := m\<rparr>"
      "grown (if ok then mset (take n recs) else {#}) x (set (take n recs)) (sp_net s) m" by blast
    note g = grown_mono [OF m(2) set_take_subset]
    have e: "(rest, s') = (if ok then post_chunks se (drop n recs) s1 else (recs, s1))"
      using less.prems(3) False p by (cases ok) (simp_all add: post_chunks.simps [of se recs s] n_def Let_def)
    show ?thesis
    proof (cases ok)
      case False
      with e have "rest = recs" "s' = s1" by simp_all
      with m(1) g False show ?thesis by (intro exI [of _ "[]"] exI [of _ m] exI [of _ x]) simp
    next
      case True
      have "length (drop n recs) < length recs" using n by (cases recs) auto
      moreover have "\<forall>r \<in> set (drop n recs). good_record r" using less.prems(2) by (meson in_set_dropD)
      moreover have "post_chunks se (drop n recs) s1 = (rest, s')" using e True by simp
      ultimately obtain sent m2 y where i: "drop n recs = sent @ rest" "s' = s1\<lparr>sp_net := m2\<rparr>"
        "grown (mset sent) y (set (drop n recs)) (sp_net s1) m2" using less.hyps less.prems(1) by blast
      have "recs = (take n recs @ sent) @ rest" using i(1) by (metis append_take_drop_id append_assoc)
      moreover have "grown (mset (take n recs @ sent)) (x + y) (set recs) (sp_net s) m2"
        using grown_trans [OF g, of "mset sent" y m2] grown_mono [OF i(3) set_drop_subset] True m(1) by simp
      moreover have "s' = s\<lparr>sp_net := m2\<rparr>" using i(2) m(1) by simp
      ultimately show ?thesis by blast
    qed
  qed
qed

text \<open>
  After the records \<open>enq\<close> were logged, in a run that began with the network \<open>m0\<close>: each is in the
  queue, in the batch, in the spool, stored since, counted as dropped, or was evicted from a full spool.
\<close>

definition accounted :: "'m \<Rightarrow> 'm ship_env \<Rightarrow> log_record list \<Rightarrow> 'm shipper \<Rightarrow> bool" where
  "accounted m0 se enq s \<longleftrightarrow> sp_fs s = [] \<and> (\<exists>spooled acked dropped evicted extra. file_text s = spool_text spooled \<and>
     mset enq = mset (sp_queue s) + mset (sp_batch s) + mset spooled + acked + dropped + evicted \<and>
     sp_dropped s = int (size dropped) \<and> (fits se enq \<longrightarrow> evicted = {#}) \<and>
     grown acked extra (set enq) m0 (sp_net s))"

lemma accountedI:
  assumes "sp_fs s = []" and "file_text s = spool_text spooled"
    and "mset enq = mset (sp_queue s) + mset (sp_batch s) + mset spooled + acked + dropped + evicted"
    and "sp_dropped s = int (size dropped)" and "fits se enq \<longrightarrow> evicted = {#}"
    and "grown acked extra (set enq) m0 (sp_net s)"
  shows "accounted m0 se enq s"
  using assms unfolding accounted_def by blast

lemma accountedE:
  assumes "accounted m0 se enq s"
  obtains spooled acked dropped evicted extra where "sp_fs s = []" "file_text s = spool_text spooled"
    "mset enq = mset (sp_queue s) + mset (sp_batch s) + mset spooled + acked + dropped + evicted"
    "sp_dropped s = int (size dropped)" "fits se enq \<longrightarrow> evicted = {#}"
    "grown acked extra (set enq) m0 (sp_net s)"
  using assms unfolding accounted_def by blast

lemma started: "accounted m0 se old (newShipper (Some (spool_text old)) [] m0)"
  by (rule accountedI [where spooled = old and acked = "{#}" and dropped = "{#}" and evicted = "{#}" and extra = "{#}"])
    (simp_all add: newShipper_def file_text_def grown_refl)

lemma good_part:
  assumes "\<forall>r \<in> set enq. good_record r" and "mset part \<subseteq># mset enq"
  shows "\<forall>r \<in> set part. good_record r"
  using assms by (metis mset_subset_eqD set_mset_mset)

lemma fits_part:
  assumes "fits se enq" and "mset part \<subseteq># mset enq"
  shows "int (length (spool_text part)) \<le> lo_SpoolMaxBytes (se_opts se)"
proof -
  obtain rest where "mset enq = mset part + rest" using assms(2) by (auto simp: subset_mset.le_iff_add)
  moreover obtain zs where "rest = mset zs" by (metis ex_mset)
  ultimately have "mset (map line_size enq) = mset (map line_size (part @ zs))" by simp
  then have "sum_list (map line_size enq) = sum_list (map line_size (part @ zs))" by (metis sum_mset_sum_list)
  moreover have "0 \<le> sum_list (map line_size zs)" by (intro sum_list_nonneg) (auto simp: line_size_nonneg)
  ultimately show ?thesis using assms(1) by (simp add: fits_def length_spool_text)
qed

lemma next_file_ok: "sp_fs s = [] \<Longrightarrow> next_file s = (FileOK, s)"
  by (simp add: next_file_def)

lemma spool_read:
  assumes "exact_numbers (se_num se)" and "\<forall>r \<in> set sp. good_record r" and "sp_fs s = []" and "file_text s = spool_text sp"
  shows "spoolRead se s = (sp, s)"
proof (cases "sp_file s")
  case None
  then have "spool_text sp = []" using assms(4) by (simp add: file_text_def)
  then have "sp = []" using assms(2) good_Marshal by (cases sp) auto
  with None assms(3) show ?thesis by (simp add: spoolRead_def next_file_ok)
next
  case (Some d)
  with assms(3,4) records_of_spool [OF assms(1,2)] show ?thesis
    by (simp add: spoolRead_def next_file_ok file_text_def short_of_def)
qed

lemma drop_oldest_suffix: "\<exists>gone. recs = gone @ drop_oldest cap b recs"
proof (induction recs arbitrary: b)
  case (Cons r rs)
  from Cons [of "b - line_size r"] obtain gone where "rs = gone @ drop_oldest cap (b - line_size r) rs" ..
  then show ?case by (cases "cap < b") (auto intro: exI [of _ "r # gone"] exI [of _ "[]"])
qed simp

text \<open>Appending to the spool keeps the newest records; it evicts old ones only when the cap is exceeded.\<close>

lemma append_spool:
  assumes "exact_numbers (se_num se)" and "\<forall>r \<in> set (spooled @ recs). good_record r"
    and "sp_fs s = []" and "file_text s = spool_text spooled"
  shows "\<exists>d gone kept. spoolAppend se recs s = s\<lparr>sp_file := d\<rparr> \<and> spooled @ recs = gone @ kept \<and>
    file_text (spoolAppend se recs s) = spool_text kept \<and>
    (int (length (spool_text (spooled @ recs))) \<le> lo_SpoolMaxBytes (se_opts se) \<longrightarrow> gone = [])"
proof (cases "recs = []")
  case True
  with assms(4) show ?thesis
    by (intro exI [of _ "sp_file s"] exI [of _ "[]"] exI [of _ spooled]) (simp add: spoolAppend_def)
next
  case ne: False
  let ?s1 = "s\<lparr>sp_file := Some (spool_text (spooled @ recs))\<rparr>"
  have a: "spoolAppend se recs s = enforceCap se ?s1"
    using ne assms(3,4) by (simp add: spoolAppend_def next_file_ok short_of_def file_text_def spool_text_append)
  show ?thesis
  proof (cases "int (length (spool_text (spooled @ recs))) \<le> lo_SpoolMaxBytes (se_opts se)")
    case True
    then have "spoolAppend se recs s = ?s1" using assms(3) unfolding a by (simp add: enforceCap_def next_file_ok)
    then show ?thesis
      by (intro exI [of _ "Some (spool_text (spooled @ recs))"] exI [of _ "[]"] exI [of _ "spooled @ recs"])
        (simp add: file_text_def)
  next
    case False
    let ?k = "drop_oldest (lo_SpoolMaxBytes (se_opts se)) (sum_list (map line_size (spooled @ recs))) (spooled @ recs)"
    let ?d = "if ?k = [] then None else Some (spool_text ?k)"
    have "spoolRead se ?s1 = (spooled @ recs, ?s1)"
      using assms by (intro spool_read) (simp_all add: file_text_def)
    then have "enforceCap se ?s1 = spoolRewrite ?k ?s1"
      using False assms(3) by (simp add: enforceCap_def next_file_ok)
    also have "\<dots> = s\<lparr>sp_file := ?d\<rparr>" using assms(3) by (simp add: spoolRewrite_def next_file_ok short_of_def)
    finally have e: "spoolAppend se recs s = s\<lparr>sp_file := ?d\<rparr>" unfolding a .
    obtain gone where g: "spooled @ recs = gone @ ?k" using drop_oldest_suffix by blast
    have t: "file_text (s\<lparr>sp_file := ?d\<rparr>) = spool_text ?k" by (simp add: file_text_def)
    show ?thesis
      by (intro exI [of _ ?d] exI [of _ gone] exI [of _ ?k] conjI) (use e g t False in simp_all)
  qed
qed

lemma send_accounted:
  assumes "se_http se = http" and "exact_numbers (se_num se)" and "\<forall>r \<in> set enq. good_record r"
    and "accounted m0 se enq s"
  shows "accounted m0 se enq (send_batch se s)"
proof (cases "sp_batch s = []")
  case True
  with assms(4) show ?thesis by (simp add: send_batch_def)
next
  case False
  from assms(4) obtain sp ak dr ev ex where a: "sp_fs s = []" "file_text s = spool_text sp"
    "mset enq = mset (sp_queue s) + mset (sp_batch s) + mset sp + ak + dr + ev"
    "sp_dropped s = int (size dr)" "fits se enq \<longrightarrow> ev = {#}" "grown ak ex (set enq) m0 (sp_net s)"
    by (rule accountedE)
  have part: "mset (sp @ sp_batch s) \<subseteq># mset enq"
    unfolding a(3) by (simp add: subset_mset.le_iff_add)
  note good = good_part [OF assms(3) part]
  obtain rest s1 where p: "post_chunks se (sp_batch s) s = (rest, s1)" by fastforce
  from chunks_effect [OF assms(1) _ p] good obtain sent m x where c: "sp_batch s = sent @ rest" "s1 = s\<lparr>sp_net := m\<rparr>"
    "grown (mset sent) x (set (sp_batch s)) (sp_net s) m" by auto
  have sub: "set (sp_batch s) \<subseteq> set enq" using a(3) by (metis UnCI set_mset_mset set_mset_union subsetI)
  note g = grown_trans [OF a(6) grown_mono [OF c(3) sub]]
  have part': "mset (sp @ rest) \<subseteq># mset enq"
    using part by (rule subset_mset.order_trans [rotated]) (simp add: c(1))
  have s1: "sp_fs s1 = []" "file_text s1 = spool_text sp" using a c by (simp_all add: file_text_def)
  have gr: "\<forall>r \<in> set (sp @ rest). good_record r" using good c(1) by auto
  from append_spool [OF assms(2) gr s1] obtain d gone kept where d:
    "spoolAppend se rest s1 = s1\<lparr>sp_file := d\<rparr>" "sp @ rest = gone @ kept"
    "file_text (spoolAppend se rest s1) = spool_text kept"
    "int (length (spool_text (sp @ rest))) \<le> lo_SpoolMaxBytes (se_opts se) \<longrightarrow> gone = []" by blast
  have "ship_send se (sp_batch s) s = (if rest = [] then s1 else spoolAppend se rest s1)"
    by (simp add: ship_send_def p)
  then have b: "send_batch se s = (spoolAppend se rest s1)\<lparr>sp_batch := []\<rparr>"
    using False by (simp add: send_batch_def spoolAppend_def)
  have fr: "sp_queue (send_batch se s) = sp_queue s" "sp_batch (send_batch se s) = []" "sp_fs (send_batch se s) = []"
    "sp_dropped (send_batch se s) = sp_dropped s" "sp_net (send_batch se s) = m"
    unfolding b d(1) by (simp_all add: c(2) a(1))
  have "mset (sp @ rest) = mset gone + mset kept" unfolding d(2) by simp
  then have eq: "mset sp + mset rest = mset gone + mset kept" by simp
  show ?thesis
  proof (rule accountedI [where spooled = kept and acked = "ak + mset sent" and dropped = dr and
        evicted = "ev + mset gone" and extra = "ex + x"])
    show "file_text (send_batch se s) = spool_text kept"
      using d(3) by (simp add: b file_text_def)
    show "grown (ak + mset sent) (ex + x) (set enq) m0 (sp_net (send_batch se s))"
      using g by (simp add: fr)
    show "fits se enq \<longrightarrow> ev + mset gone = {#}"
      using a(5) d(4) fits_part [OF _ part'] by auto
    have "mset enq = mset (sp_queue s) + (mset sp + mset rest) + (ak + mset sent) + dr + ev"
      unfolding a(3) c(1) by (simp add: ac_simps)
    then show "mset enq = mset (sp_queue (send_batch se s)) + mset (sp_batch (send_batch se s)) + mset kept +
        (ak + mset sent) + dr + (ev + mset gone)"
      unfolding eq by (simp add: fr ac_simps)
  qed (use a in \<open>simp_all add: fr\<close>)
qed

lemma drain_accounted:
  assumes "se_http se = http" and "exact_numbers (se_num se)" and "\<forall>r \<in> set enq. good_record r"
    and "accounted m0 se enq s"
  shows "accounted m0 se enq (drainSpool se s)"
proof -
  from assms(4) obtain sp ak dr ev ex where a: "sp_fs s = []" "file_text s = spool_text sp"
    "mset enq = mset (sp_queue s) + mset (sp_batch s) + mset sp + ak + dr + ev"
    "sp_dropped s = int (size dr)" "fits se enq \<longrightarrow> ev = {#}" "grown ak ex (set enq) m0 (sp_net s)"
    by (rule accountedE)
  have part: "mset sp \<subseteq># mset enq" unfolding a(3) by (simp add: subset_mset.le_iff_add)
  note good = good_part [OF assms(3) part]
  note rd = spool_read [OF assms(2) good a(1,2)]
  obtain rest s1 where p: "post_chunks se sp s = (rest, s1)" by fastforce
  from chunks_effect [OF assms(1) good p] obtain sent m x where c: "sp = sent @ rest" "s1 = s\<lparr>sp_net := m\<rparr>"
    "grown (mset sent) x (set sp) (sp_net s) m" by blast
  have sub: "set sp \<subseteq> set enq" using a(3) by (metis UnCI set_mset_mset set_mset_union subsetI)
  note g = grown_trans [OF a(6) grown_mono [OF c(3) sub]]
  have "\<exists>d. drainSpool se s = s1\<lparr>sp_file := d\<rparr> \<and> file_text (drainSpool se s) = spool_text rest"
  proof (cases "sp = []")
    case True
    then have "post_chunks se sp s = ([], s)" by (simp add: post_chunks.simps)
    with True a(2) p rd show ?thesis by (intro exI [of _ "sp_file s1"]) (simp add: drainSpool_def)
  next
    case False
    show ?thesis
    proof (cases "length rest = length sp")
      case True
      then have "rest = sp" using c(1) by simp
      with True False rd p a(2) c(2) show ?thesis
        by (intro exI [of _ "sp_file s1"]) (simp add: drainSpool_def file_text_def)
    next
      case shorter: False
      have "sp_fs s1 = []" using a(1) c(2) by simp
      then have "spoolRewrite rest s1 = s1\<lparr>sp_file := if rest = [] then None else Some (spool_text rest)\<rparr>"
        by (simp add: spoolRewrite_def next_file_ok short_of_def)
      with shorter False rd p show ?thesis
        by (intro exI [of _ "if rest = [] then None else Some (spool_text rest)"]) (simp add: drainSpool_def file_text_def)
    qed
  qed
  then obtain d where d: "drainSpool se s = s1\<lparr>sp_file := d\<rparr>" "file_text (drainSpool se s) = spool_text rest" by blast
  show ?thesis
  proof (rule accountedI [where spooled = rest and acked = "ak + mset sent" and dropped = dr and evicted = ev and extra = "ex + x"])
    show "grown (ak + mset sent) (ex + x) (set enq) m0 (sp_net (drainSpool se s))"
      using g by (simp add: d c(2))
  qed (use a c d in \<open>simp_all add: ac_simps\<close>)
qed

lemma drainQueue_accounted: "accounted m0 se enq s \<Longrightarrow> accounted m0 se enq (drainQueue s)"
  by (simp add: accounted_def drainQueue_def file_text_def ac_simps)

lemma fits_append: "fits se (a @ b) \<Longrightarrow> fits se a"
  using sum_list_nonneg [of "map line_size b"] line_size_nonneg by (fastforce simp: fits_def)

lemma enqueue_accounted:
  assumes "accounted m0 se enq s"
  shows "accounted m0 se (enq @ [r]) (ship_enqueue se r s)"
proof -
  from assms obtain sp ak dr ev ex where a: "sp_fs s = []" "file_text s = spool_text sp"
    "mset enq = mset (sp_queue s) + mset (sp_batch s) + mset sp + ak + dr + ev"
    "sp_dropped s = int (size dr)" "fits se enq \<longrightarrow> ev = {#}" "grown ak ex (set enq) m0 (sp_net s)"
    by (rule accountedE)
  have f: "fits se (enq @ [r]) \<longrightarrow> ev = {#}" using a(5) fits_append by blast
  have g: "grown ak ex (set (enq @ [r])) m0 (sp_net s)" by (rule grown_mono [OF a(6)]) auto
  show ?thesis
  proof (cases "int (length (sp_queue s)) < lo_QueueSize (se_opts se)")
    case True
    then show ?thesis
      by (intro accountedI [where spooled = sp and acked = ak and dropped = dr and evicted = ev and extra = ex])
        (use a f g in \<open>simp_all add: ship_enqueue_def file_text_def\<close>)
  next
    case False
    then show ?thesis
      by (intro accountedI [where spooled = sp and acked = ak and dropped = "add_mset r dr" and evicted = ev and extra = ex])
        (use a f g in \<open>simp_all add: ship_enqueue_def file_text_def\<close>)
  qed
qed

lemma step_accounted:
  assumes "se_http se = http" and "exact_numbers (se_num se)" and "\<forall>r \<in> set enq. good_record r"
    and "accounted m0 se enq s" and "\<forall>r. e \<noteq> Logged r"
  shows "accounted m0 se enq (ship_step se e s)"
proof -
  note send = send_accounted [OF assms(1-3)] and drain = drain_accounted [OF assms(1-3)]
  have all: "accounted m0 se enq (drainSpool se (send_batch se (drainQueue s)))"
    by (intro drain send drainQueue_accounted assms(4))
  show ?thesis
  proof (cases e)
    case (Logged r)
    with assms(5) show ?thesis by blast
  next
    case Received
    show ?thesis
    proof (cases "sp_queue s")
      case Nil
      with Received assms(4) show ?thesis by simp
    next
      case (Cons r q)
      then have "accounted m0 se enq (s\<lparr>sp_queue := q, sp_batch := sp_batch s @ [r]\<rparr>)"
        using assms(4) by (simp add: accounted_def file_text_def ac_simps)
      from this send [OF this] Received Cons assms(4) show ?thesis by (simp add: Let_def)
    qed
  next
    case Done
    have "accounted m0 se enq (t\<lparr>sp_stopped := True\<rparr>)" if "accounted m0 se enq t" for t
      using that by (simp add: accounted_def file_text_def)
    with Done all assms(4) show ?thesis by simp
  qed (use assms(4) all send drain in simp_all)
qed

lemma run_accounted:
  assumes "se_http se = http" and "exact_numbers (se_num se)" and "accounted m0 se old s"
  shows "\<forall>r \<in> set (old @ logged_of es). good_record r \<Longrightarrow> accounted m0 se (old @ logged_of es) (ship_run se es s)"
proof (induction es rule: rev_induct)
  case Nil
  with assms(3) show ?case by (simp add: ship_run_def)
next
  case (snoc e es)
  have good: "\<forall>r \<in> set (old @ logged_of es). good_record r" using snoc.prems by auto
  note IH = snoc.IH [OF good]
  show ?case
  proof (cases "\<exists>r. e = Logged r")
    case True
    with enqueue_accounted [OF IH] show ?thesis by (auto simp: ship_run_def)
  next
    case False
    then have "logged_of (es @ [e]) = logged_of es" by (cases e) auto
    with step_accounted [OF assms(1,2) good IH] False show ?thesis by (simp add: ship_run_def)
  qed
qed

lemma chunks_all:
  "server_up se up \<Longrightarrow> 0 < lo_BatchSize (se_opts se) \<Longrightarrow> \<forall>r \<in> set recs. good_record r \<Longrightarrow> up (sp_net s) \<Longrightarrow>
   post_chunks se recs s = (rest, s') \<Longrightarrow> rest = [] \<and> up (sp_net s')"
proof (induction "length recs" arbitrary: recs s rule: less_induct)
  case less
  show ?case
  proof (cases "recs = []")
    case True
    with less.prems(4,5) show ?thesis by (simp add: post_chunks.simps)
  next
    case False
    let ?n = "nat (lo_BatchSize (se_opts se))"
    have ne: "take ?n recs \<noteq> []" using False less.prems(2) by simp
    have g: "\<forall>r \<in> set (take ?n recs). good_record r" using less.prems(3) by (meson in_set_takeD)
    then have "json_ok (ingest_body (take ?n recs))"
      using good_Marshal by (fastforce simp: ingest_body_def json_Marshal_def split: if_splits)
    then have b: "json_Marshal (ingest_body (take ?n recs)) = Some (json_text (ingest_body (take ?n recs)))"
      by (simp add: json_Marshal_def)
    obtain c m where m: "se_http se (log_endpoint (se_opts se)) (json_text (ingest_body (take ?n recs))) (sp_net s) = (Some c, m)"
      "200 \<le> c" "c < 300" "up m"
      using less.prems(1,4) ne g unfolding server_up_def by blast
    with b have p: "ship_post se (take ?n recs) s = (True, s\<lparr>sp_net := m\<rparr>)" by (simp add: ship_post_def)
    have "length (drop ?n recs) < length recs" using False less.prems(2) by (cases recs) auto
    moreover have "\<forall>r \<in> set (drop ?n recs). good_record r" using less.prems(3) by (meson in_set_dropD)
    moreover have "up (sp_net (s\<lparr>sp_net := m\<rparr>))" using m(4) by simp
    moreover have "post_chunks se (drop ?n recs) (s\<lparr>sp_net := m\<rparr>) = (rest, s')"
      using less.prems(2,5) p False by (simp add: post_chunks.simps [of se recs s])
    ultimately show ?thesis using less.hyps less.prems(1,2) by blast
  qed
qed

lemma send_all:
  assumes "se_http se = http" and "server_up se up" and "0 < lo_BatchSize (se_opts se)"
    and "\<forall>r \<in> set (sp_batch s). good_record r" and "up (sp_net s)"
  shows "sp_queue (send_batch se s) = sp_queue s" and "sp_batch (send_batch se s) = []" and "up (sp_net (send_batch se s))"
proof -
  obtain rest s1 where p: "post_chunks se (sp_batch s) s = (rest, s1)" by fastforce
  then have "rest = []" "up (sp_net s1)" using chunks_all [OF assms(2-5)] by auto
  moreover obtain m where "s1 = s\<lparr>sp_net := m\<rparr>" using chunks_effect [OF assms(1,4) p] by blast
  ultimately show "sp_queue (send_batch se s) = sp_queue s" and "sp_batch (send_batch se s) = []" and "up (sp_net (send_batch se s))"
    using p assms(5) by (simp_all add: send_batch_def ship_send_def)
qed

lemma flush_delivers:
  assumes "se_http se = http" and "exact_numbers (se_num se)" and "\<forall>r \<in> set enq. good_record r" and "accounted m0 se enq s"
    and "server_up se up" and "0 < lo_BatchSize (se_opts se)" and "\<not> sp_stopped s" and "up (sp_net s)"
  defines "s' \<equiv> ship_step se FlushRequest s"
  shows "sp_queue s' = [] \<and> sp_batch s' = [] \<and> file_text s' = [] \<and>
    (\<exists>acked dropped evicted extra. mset enq = acked + dropped + evicted \<and> sp_dropped s' = int (size dropped) \<and>
      (fits se enq \<longrightarrow> evicted = {#}) \<and> grown acked extra (set enq) m0 (sp_net s'))"
proof -
  let ?q = "drainQueue s" let ?b = "send_batch se ?q"
  have q: "accounted m0 se enq ?q" by (rule drainQueue_accounted [OF assms(4)])
  then obtain sp ak dr ev ex where "mset enq = mset (sp_queue ?q) + mset (sp_batch ?q) + mset sp + ak + dr + ev"
    by (rule accountedE)
  then have "mset (sp_batch ?q) \<subseteq># mset enq" by (simp add: subset_mset.le_iff_add)
  moreover have "up (sp_net ?q)" using assms(8) by (simp add: drainQueue_def)
  ultimately have b1: "sp_queue ?b = sp_queue ?q" "sp_batch ?b = []" "up (sp_net ?b)"
    using send_all [OF assms(1,5,6)] good_part [OF assms(3)] by blast+
  have b: "accounted m0 se enq ?b" by (rule send_accounted [OF assms(1-3) q])
  then obtain sp ak dr ev ex where a: "sp_fs ?b = []" "file_text ?b = spool_text sp"
    "mset enq = mset (sp_queue ?b) + mset (sp_batch ?b) + mset sp + ak + dr + ev"
    by (rule accountedE)
  then have "mset sp \<subseteq># mset enq" by (simp add: subset_mset.le_iff_add)
  note good = good_part [OF assms(3) this]
  note rd = spool_read [OF assms(2) good a(1,2)]
  obtain rest s1 where p: "post_chunks se sp ?b = (rest, s1)" by fastforce
  then have r: "rest = []" using chunks_all [OF assms(5,6) good b1(3)] by simp
  obtain m where m: "s1 = ?b\<lparr>sp_net := m\<rparr>" using chunks_effect [OF assms(1) good p] by blast
  have empty: "sp_queue (drainSpool se ?b) = [] \<and> sp_batch (drainSpool se ?b) = [] \<and> file_text (drainSpool se ?b) = []"
    using p r m rd a(1,2) b1
    by (cases "sp = []") (simp_all add: drainSpool_def spoolRewrite_def next_file_ok file_text_def drainQueue_def)
  have s': "s' = drainSpool se ?b" using assms(7) by (simp add: s'_def)
  have "accounted m0 se enq (drainSpool se ?b)" by (rule drain_accounted [OF assms(1-3) b])
  then obtain sp2 ak2 dr2 ev2 ex2 where e: "file_text (drainSpool se ?b) = spool_text sp2"
    "mset enq = mset (sp_queue (drainSpool se ?b)) + mset (sp_batch (drainSpool se ?b)) + mset sp2 + ak2 + dr2 + ev2"
    "sp_dropped (drainSpool se ?b) = int (size dr2)" "fits se enq \<longrightarrow> ev2 = {#}"
    "grown ak2 ex2 (set enq) m0 (sp_net (drainSpool se ?b))"
    by (rule accountedE)
  have "sp2 = []"
  proof -
    have "mset sp2 \<subseteq># mset enq" unfolding e(2) by (simp add: subset_mset.le_iff_add)
    then have "\<forall>r \<in> set sp2. good_record r" by (rule good_part [OF assms(3)])
    moreover have "spool_text sp2 = []" using e(1) empty by simp
    ultimately show ?thesis using good_Marshal by (cases sp2) auto
  qed
  with e(2) empty have "mset enq = ak2 + dr2 + ev2" by simp
  with e(3-5) empty show ?thesis unfolding s' by blast
qed

end

end
