(* ===== verification/Log_Server.thy ===== *)
theory Log_Server
  imports Logkit_Ship Gift_Json_Structs
begin

text \<open>
  The log server: its SQLite store, its REST handlers and its pruner
  (\<open>services/backend/log-server/internal/store\<close>, \<open>httpapi\<close>, \<open>app/app.go\<close>). A reply is its status with
  the value that is encoded; the database is the table in the order of the ids.
\<close>

section \<open>Records and the table (record.go, store.go)\<close>

record stored_record =
  st_TS :: string
  st_Level :: string
  st_Service :: string
  st_Message :: string
  st_TraceID :: string
  st_SpanID :: string
  st_Fields :: string

record log_row =
  lw_ID :: int
  lw_Record :: stored_record

record log_db =
  db_logs :: "log_row list"
  db_seq :: int
  db_faults :: "bool list"

definition db_tick :: "log_db \<Rightarrow> bool \<times> log_db" where
  "db_tick d = (let (f, fs) = next_fault (db_faults d) in (f, d\<lparr>db_faults := fs\<rparr>))"

section \<open>The store (store.go)\<close>

text \<open>The inserts of a transaction, which see the rows before them.\<close>

fun insert_rows :: "stored_record list \<Rightarrow> log_db \<Rightarrow> bool \<times> log_db" where
  "insert_rows [] d = (True, d)"
| "insert_rows (r # rs) d =
     (let (f, d1) = db_tick d;
          r1 = (if st_Fields r = [] then r\<lparr>st_Fields := ''{}''\<rparr> else r) in
      if f then (False, d1)
      else insert_rows rs (d1\<lparr>db_logs := db_logs d1 @ [\<lparr>lw_ID = db_seq d1 + 1, lw_Record = r1\<rparr>], db_seq := db_seq d1 + 1\<rparr>))"

text \<open>\<open>Insert\<close>: \<open>Inl ()\<close> for an error, after which the transaction is rolled back.\<close>

definition db_Insert :: "stored_record list \<Rightarrow> log_db \<Rightarrow> (unit + nat) \<times> log_db" where
  "db_Insert recs d =
     (if recs = [] then (Inr 0, d)
      else
        let (f1, d1) = db_tick d in
        if f1 then (Inl (), d1)
        else
          let (f2, d2) = db_tick d1 in
          if f2 then (Inl (), d2)
          else
            let (ok, d3) = insert_rows recs d2; (f4, d4) = db_tick d3 in
            if \<not> ok then (Inl (), d2\<lparr>db_faults := db_faults d3\<rparr>)
            else if f4 then (Inl (), d2\<lparr>db_faults := db_faults d4\<rparr>)
            else (Inr (length recs), d4))"

record log_query =
  lq_Service :: string
  lq_Level :: string
  lq_Q :: string
  lq_From :: string
  lq_To :: string
  lq_Limit :: int
  lq_After :: int

text \<open>\<open>likePattern\<close>; ranging over a string replaces invalid UTF-8.\<close>

definition like_char :: "char \<Rightarrow> string" where
  "like_char c =
     (if c = CHR 0x5C \<or> c = CHR ''%'' \<or> c = CHR ''_'' then [CHR 0x5C, c]
      else if c = CHR ''*'' then ''%'' else [c])"

definition likePattern :: "string \<Rightarrow> string" where
  "likePattern q =
     (let b = concat (map like_char (coerce_utf8 q)) in
      if CHR ''*'' \<in> set q then b else ''%'' @ b @ ''%'')"

text \<open>
  SQLite's LIKE with the escape character backslash: ASCII letters match in either case, an escaped
  character stands for itself, and a pattern of more than 50000 bytes is an error.
\<close>

function sql_like :: "string \<Rightarrow> string \<Rightarrow> bool" where
  "sql_like [] s = (s = [])"
| "sql_like (c # p) s =
     (if c = CHR ''%'' then (if s = [] then sql_like p s else sql_like p s \<or> sql_like (c # p) (tl s))
      else if s = [] then False
      else if c = CHR 0x5C then
        (if p = [] then False else lower_char (hd s) = lower_char (hd p) \<and> sql_like (tl p) (tl s))
      else if c = CHR ''_'' then sql_like p (tl s)
      else lower_char (hd s) = lower_char c \<and> sql_like p (tl s))"
  by pat_completeness auto
termination
  by (relation "measure (\<lambda>(p, s). length p + length s)") (auto simp: neq_Nil_conv)

definition matches :: "log_query \<Rightarrow> log_row \<Rightarrow> bool" where
  "matches q w \<longleftrightarrow>
     (lq_Service q \<noteq> [] \<longrightarrow> st_Service (lw_Record w) = lq_Service q) \<and>
     (lq_Level q \<noteq> [] \<longrightarrow> st_Level (lw_Record w) = lq_Level q) \<and>
     (lq_From q \<noteq> [] \<longrightarrow> lq_From q \<le> st_TS (lw_Record w)) \<and>
     (lq_To q \<noteq> [] \<longrightarrow> st_TS (lw_Record w) \<le> lq_To q) \<and>
     (0 < lq_After q \<longrightarrow> lq_After q < lw_ID w) \<and>
     (lq_Q q \<noteq> [] \<longrightarrow> sql_like (ToLower (likePattern (lq_Q q))) (ToLower (st_Message (lw_Record w))))"

definition query_limit :: "int \<Rightarrow> int" where
  "query_limit n = (let n1 = (if n \<le> 0 then 200 else n) in if 1000 < n1 then 1000 else n1)"

definition db_Query :: "log_query \<Rightarrow> log_db \<Rightarrow> (unit + log_row list) \<times> log_db" where
  "db_Query q d =
     (let (f, d1) = db_tick d in
      if f \<or> lq_Q q \<noteq> [] \<and> 50000 < int (length (likePattern (lq_Q q))) then (Inl (), d1)
      else (Inr (take (nat (query_limit (lq_Limit q)))
        (rev (sort_key lw_ID (filter (matches q) (db_logs d1))))), d1))"

definition db_Services :: "log_db \<Rightarrow> (unit + string list) \<times> log_db" where
  "db_Services d =
     (let (f, d1) = db_tick d in
      if f then (Inl (), d1)
      else (Inr (sorted_list_of_set (set (filter (\<lambda>s. s \<noteq> []) (map (st_Service \<circ> lw_Record) (db_logs d1))))), d1))"

definition db_Prune :: "time \<Rightarrow> log_db \<Rightarrow> (unit + nat) \<times> log_db" where
  "db_Prune cutoff d =
     (let (f, d1) = db_tick d;
          old = (\<lambda>w. st_TS (lw_Record w) \<noteq> [] \<and> st_TS (lw_Record w) < fmt_nano cutoff) in
      if f then (Inl (), d1)
      else (Inr (length (filter old (db_logs d1))), d1\<lparr>db_logs := filter (\<lambda>w. \<not> old w) (db_logs d1)\<rparr>))"

section \<open>The handlers (httpapi.go)\<close>

definition stored_of_members :: "(string \<times> string) list \<Rightarrow> stored_record option" where
  "stored_of_members ms =
     (case (string_field ''ts'' ms [], string_field ''level'' ms [], string_field ''service'' ms [],
            string_field ''message'' ms [], string_field ''trace_id'' ms [], string_field ''span_id'' ms []) of
        (Some t, Some l, Some s, Some g, Some tr, Some sp) \<Rightarrow>
          Some \<lparr>st_TS = t, st_Level = l, st_Service = s, st_Message = g, st_TraceID = tr, st_SpanID = sp,
                st_Fields = raw_field ''fields'' ms\<rparr>
      | _ \<Rightarrow> None)"

definition stored_of_text :: "string \<Rightarrow> stored_record option" where
  "stored_of_text t =
     (case json_parse t of
        Some JNull \<Rightarrow> stored_of_members []
      | Some (JObj ms) \<Rightarrow> stored_of_members ms
      | _ \<Rightarrow> None)"

text \<open>The request; of several members with the name the last one counts.\<close>

definition decode_ingest :: "string \<Rightarrow> stored_record list option" where
  "decode_ingest body =
     (case json_first body of
        Some JNull \<Rightarrow> Some []
      | Some (JObj ms) \<Rightarrow>
          (if raw_field ''records'' ms = [] then Some []
           else case json_parse (raw_field ''records'' ms) of
             Some JNull \<Rightarrow> Some []
           | Some (JArr es) \<Rightarrow> those (map stored_of_text es)
           | _ \<Rightarrow> None)
      | _ \<Rightarrow> None)"

datatype log_reply = Accepted nat | BadJSON | StoreError | LogRows "log_row list" | ServiceNames "string list"

fun http_status :: "log_reply \<Rightarrow> int" where
  "http_status BadJSON = 400"
| "http_status StoreError = 500"
| "http_status _ = 200"

definition ingest_defaults :: "time \<Rightarrow> stored_record \<Rightarrow> stored_record" where
  "ingest_defaults now r =
     r\<lparr>st_TS := (if st_TS r = [] then fmt_nano now else st_TS r),
       st_Level := (if st_Level r = [] then ''INFO'' else st_Level r)\<rparr>"

definition handleIngest :: "time \<Rightarrow> string \<Rightarrow> log_db \<Rightarrow> log_reply \<times> log_db" where
  "handleIngest now body d =
     (case decode_ingest body of
        None \<Rightarrow> (BadJSON, d)
      | Some recs \<Rightarrow>
          (let (r, d1) = db_Insert (map (ingest_defaults now) recs) d in
           (case r of Inl _ \<Rightarrow> StoreError | Inr n \<Rightarrow> Accepted n, d1)))"

definition handleLogs :: "(string \<Rightarrow> string) \<Rightarrow> log_db \<Rightarrow> log_reply \<times> log_db" where
  "handleLogs v d =
     (let num = (\<lambda>k. if v k = [] then 0 else case Atoi (v k) of Some n \<Rightarrow> n | None \<Rightarrow> 0);
          q = \<lparr>lq_Service = v ''service'', lq_Level = v ''level'', lq_Q = v ''q'', lq_From = v ''from'', lq_To = v ''to'',
               lq_Limit = num ''limit'', lq_After = num ''after''\<rparr>;
          (r, d1) = db_Query q d in
      (case r of Inl _ \<Rightarrow> StoreError | Inr rows \<Rightarrow> LogRows rows, d1))"

definition handleServices :: "log_db \<Rightarrow> log_reply \<times> log_db" where
  "handleServices d =
     (let (r, d1) = db_Services d in (case r of Inl _ \<Rightarrow> StoreError | Inr s \<Rightarrow> ServiceNames s, d1))"

section \<open>The pruner (app.go)\<close>

definition prune_sweep :: "duration \<Rightarrow> time \<Rightarrow> log_db \<Rightarrow> log_db" where
  "prune_sweep window now d = snd (db_Prune (now - window) d)"

text \<open>One sweep at the start and one at every tick.\<close>

definition runPruner :: "duration \<Rightarrow> time list \<Rightarrow> log_db \<Rightarrow> log_db" where
  "runPruner window = fold (prune_sweep window)"

section \<open>What a search finds\<close>

lemma sql_like_empty: "sql_like (c # p) [] \<longleftrightarrow> c = CHR ''%'' \<and> sql_like p []"
  by simp

lemma sql_like_plain:
  "c \<noteq> CHR ''%'' \<Longrightarrow> c \<noteq> CHR 0x5C \<Longrightarrow> c \<noteq> CHR ''_'' \<Longrightarrow>
   sql_like (c # p) (a # s) \<longleftrightarrow> lower_char a = lower_char c \<and> sql_like p s"
  by simp

lemma sql_like_escaped: "sql_like (CHR 0x5C # c # p) (a # s) \<longleftrightarrow> lower_char a = lower_char c \<and> sql_like p s"
  by simp

lemma sql_like_percent:
  "sql_like (CHR ''%'' # p) (a # s) \<longleftrightarrow> sql_like p (a # s) \<or> sql_like (CHR ''%'' # p) s"
  by simp

declare sql_like.simps(2) [simp del]

text \<open>A text made of the given pieces in order, with anything between one and the next.\<close>

fun wild :: "string list \<Rightarrow> string \<Rightarrow> bool" where
  "wild [] s \<longleftrightarrow> s = []"
| "wild [x] s \<longleftrightarrow> s = x"
| "wild (x # xs) s \<longleftrightarrow> (\<exists>g t. s = x @ g @ t \<and> wild xs t)"

lemma like_percent: "sql_like (CHR ''%'' # p) s \<longleftrightarrow> (\<exists>g t. s = g @ t \<and> sql_like p t)"
proof (induction s)
  case Nil
  show ?case by (simp add: sql_like_empty)
next
  case (Cons a s)
  have "sql_like (CHR ''%'' # p) (a # s) \<longleftrightarrow> sql_like p (a # s) \<or> (\<exists>g t. s = g @ t \<and> sql_like p t)"
    by (simp add: sql_like_percent Cons)
  also have "\<dots> \<longleftrightarrow> (\<exists>g t. a # s = g @ t \<and> sql_like p t)"
    by (auto simp: Cons_eq_append_conv)
  finally show ?case .
qed

abbreviation like_text :: "string \<Rightarrow> string" where
  "like_text y \<equiv> concat (map like_char y)"

abbreviation lowered :: "string \<Rightarrow> bool" where
  "lowered s \<equiv> \<forall>c \<in> set s. lower_char c = c"

lemma like_literal:
  "CHR ''*'' \<notin> set x \<Longrightarrow> lowered x \<Longrightarrow> lowered s \<Longrightarrow>
   sql_like (like_text x @ p) s \<longleftrightarrow> (\<exists>t. s = x @ t \<and> sql_like p t)"
proof (induction x arbitrary: s)
  case (Cons c x)
  have "sql_like (like_char c @ q) s \<longleftrightarrow> (\<exists>t. s = c # t \<and> sql_like q t)" for q
  proof (cases s)
    case Nil
    then show ?thesis using Cons.prems(1) by (auto simp: like_char_def sql_like_empty)
  next
    case (Cons a t)
    then have "lower_char a = a" "lower_char c = c" using \<open>lowered (c # x)\<close> \<open>lowered s\<close> by simp_all
    with Cons \<open>CHR ''*'' \<notin> set (c # x)\<close> show ?thesis
      by (simp add: like_char_def sql_like_escaped sql_like_plain eq_commute)
  qed
  moreover have "lowered t" if "s = c # t" for t using Cons.prems that by simp
  ultimately show ?case using Cons by auto
qed simp

lemma split_cases:
  obtains "c \<notin> set y" | x t where "y = x @ c # t" "c \<notin> set x"
  by (meson split_list_first)

lemma like_wild:
  "lowered y \<Longrightarrow> lowered s \<Longrightarrow> sql_like (like_text y) s \<longleftrightarrow> wild (Split y CHR ''*'') s"
proof (induction "length y" arbitrary: y s rule: less_induct)
  case less
  show ?case
  proof (cases rule: split_cases [of "CHR ''*''" y])
    case 1
    then show ?thesis using like_literal [OF 1 less.prems, of "[]"] by (simp add: Split_no_sep)
  next
    case (2 x t)
    have star: "like_char CHR ''*'' = ''%''" by (simp add: like_char_def)
    have x: "lowered x" "lowered t" using less.prems(1) 2(1) by auto
    obtain u us where u: "Split t CHR ''*'' = u # us" using Split_nonempty by (cases "Split t CHR ''*''") auto
    have "sql_like (like_text y) s \<longleftrightarrow> (\<exists>r. s = x @ r \<and> sql_like (CHR ''%'' # like_text t) r)"
      using like_literal [OF 2(2) x(1) less.prems(2), of "CHR ''%'' # like_text t"] by (simp add: 2(1) star)
    also have "\<dots> \<longleftrightarrow> (\<exists>g r. s = x @ g @ r \<and> sql_like (like_text t) r)"
      unfolding like_percent by auto
    also have "\<dots> \<longleftrightarrow> (\<exists>g r. s = x @ g @ r \<and> wild (Split t CHR ''*'') r)"
    proof -
      have "sql_like (like_text t) r \<longleftrightarrow> wild (Split t CHR ''*'') r" if "s = x @ g @ r" for g r
        using less.prems(2) that x(2) 2(1) by (intro less.hyps) auto
      then show ?thesis by blast
    qed
    also have "\<dots> \<longleftrightarrow> wild (Split y CHR ''*'') s"
      unfolding 2(1) Split_append [OF 2(2)] u by simp
    finally show ?thesis .
  qed
qed

lemma lower_char_idem [simp]: "lower_char (lower_char c) = lower_char c"
  using ToLower_idem [of "[c]"] by (simp add: ToLower_def)

lemma lowered_ToLower: "lowered (ToLower s)"
  by (auto simp: ToLower_def)

lemma lower_char_other:
  assumes "byte d < 65 \<or> 90 < byte d \<and> byte d < 97 \<or> 122 < byte d"
  shows "lower_char c = d \<longleftrightarrow> c = d"
proof (cases "65 \<le> byte c \<and> byte c \<le> 90")
  case True
  then have "byte (lower_char c) = byte c + 32" by (simp add: lower_char_def byte_def of_char_of)
  with True assms show ?thesis by auto
next
  case False
  then show ?thesis by (auto simp: lower_char_def byte_def)
qed

lemma lower_special:
  "lower_char c = CHR 0x5C \<longleftrightarrow> c = CHR 0x5C" "lower_char c = CHR ''%'' \<longleftrightarrow> c = CHR ''%''"
  "lower_char c = CHR ''_'' \<longleftrightarrow> c = CHR ''_''" "lower_char c = CHR ''*'' \<longleftrightarrow> c = CHR ''*''"
  by (simp_all add: lower_char_other byte_def)

lemma lower_like_text: "ToLower (like_text y) = like_text (ToLower y)"
proof -
  have "ToLower (like_char c) = like_char (lower_char c)" for c
    unfolding like_char_def ToLower_def by (simp add: lower_special split: if_split)
  then show ?thesis by (induction y) (simp_all add: ToLower_def)
qed

lemma set_coerce_utf8: "set (coerce_utf8 s) \<subseteq> set s \<union> set rune_error"
proof (induction s rule: coerce_utf8.induct)
  case (1 s)
  show ?case
  proof (cases s)
    case (Cons c s1)
    show ?thesis
    proof (cases "utf8_len s = 0")
      case True
      with 1(1) [OF Cons refl True] Cons show ?thesis by (auto simp: coerce_utf8_Cons)
    next
      case False
      then have "coerce_utf8 s = take (utf8_len s) s @ coerce_utf8 (drop (utf8_len s) s)"
        using coerce_utf8_Cons(2) [of c s1] Cons by simp
      with 1(2) [OF Cons refl False] show ?thesis by (auto dest: in_set_takeD in_set_dropD)
    qed
  qed simp
qed

definition found :: "string \<Rightarrow> string \<Rightarrow> bool" where
  "found q msg \<longleftrightarrow>
     (let y = ToLower (coerce_utf8 q); s = ToLower msg in
      if CHR ''*'' \<in> set q then wild (Split y CHR ''*'') s else \<exists>a b. s = a @ y @ b)"

lemma search_like: "sql_like (ToLower (likePattern q)) (ToLower msg) \<longleftrightarrow> found q msg"
proof (cases "CHR ''*'' \<in> set q")
  case True
  then show ?thesis
    by (simp add: likePattern_def found_def Let_def lower_like_text like_wild lowered_ToLower)
next
  case False
  then have no: "CHR ''*'' \<notin> set (ToLower (coerce_utf8 q))"
  proof -
    have "CHR ''*'' \<notin> set rune_error" by (simp add: rune_error_def)
    with False set_coerce_utf8 [of q] have "CHR ''*'' \<notin> set (coerce_utf8 q)" by blast
    then show ?thesis using lower_special(4) unfolding ToLower_def set_map by (metis imageE)
  qed
  have pc: "lower_char CHR ''%'' = CHR ''%''" by (simp add: lower_special)
  then have e: "ToLower (likePattern q) = CHR ''%'' # like_text (ToLower (coerce_utf8 q)) @ ''%''"
    using False lower_like_text [of "coerce_utf8 q"] by (simp add: likePattern_def Let_def) (simp add: ToLower_def)
  have tail: "sql_like ''%'' t" for t
    unfolding like_percent by (intro exI [of _ t] exI [of _ "[]"]) simp
  have lit: "sql_like (like_text (ToLower (coerce_utf8 q)) @ ''%'') t \<longleftrightarrow> (\<exists>b. t = ToLower (coerce_utf8 q) @ b)"
    if "lowered t" for t
    using like_literal [OF no lowered_ToLower that, of "''%''"] tail by simp
  have "sql_like (ToLower (likePattern q)) (ToLower msg) \<longleftrightarrow>
      (\<exists>g t. ToLower msg = g @ t \<and> sql_like (like_text (ToLower (coerce_utf8 q)) @ ''%'') t)"
    unfolding e like_percent ..
  also have "\<dots> \<longleftrightarrow> (\<exists>g t. ToLower msg = g @ t \<and> (\<exists>b. t = ToLower (coerce_utf8 q) @ b))"
  proof -
    have "lowered t" if "ToLower msg = g @ t" for g t
      using lowered_ToLower [of msg] unfolding that by simp
    note this = lit [OF this]
    then show ?thesis by (intro ex_cong1 conj_cong refl)
  qed
  also have "\<dots> \<longleftrightarrow> found q msg" using False unfolding found_def Let_def by (simp, blast)
  finally show ?thesis .
qed

section \<open>The table\<close>

definition db_inv :: "log_db \<Rightarrow> bool" where
  "db_inv d \<longleftrightarrow> sorted_wrt (<) (map lw_ID (db_logs d)) \<and> (\<forall>w \<in> set (db_logs d). lw_ID w \<le> db_seq d)"

definition filled :: "stored_record \<Rightarrow> stored_record" where
  "filled r = (if st_Fields r = [] then r\<lparr>st_Fields := ''{}''\<rparr> else r)"

lemma db_tick_frame [simp]: "db_tick d = (f, d1) \<Longrightarrow> db_logs d1 = db_logs d \<and> db_seq d1 = db_seq d"
  by (auto simp: db_tick_def split: prod.splits)

lemma insert_rows_effect:
  "insert_rows recs d = (ok, d') \<Longrightarrow> (db_inv d \<longrightarrow> db_inv d') \<and> (\<exists>ws. db_logs d' = db_logs d @ ws \<and>
     (ok \<longrightarrow> map lw_Record ws = map filled recs))"
proof (induction recs arbitrary: d)
  case (Cons r rs)
  obtain f d1 where t: "db_tick d = (f, d1)" by fastforce
  note g = db_tick_frame [OF t]
  let ?w = "\<lparr>lw_ID = db_seq d1 + 1, lw_Record = filled r\<rparr>"
  let ?d = "d1\<lparr>db_logs := db_logs d1 @ [?w], db_seq := db_seq d1 + 1\<rparr>"
  show ?case
  proof (cases f)
    case True
    with Cons.prems t g show ?thesis by (simp add: db_inv_def)
  next
    case False
    then have "insert_rows rs ?d = (ok, d')" using Cons.prems t by (simp add: filled_def)
    moreover have "db_inv d \<longrightarrow> db_inv ?d" using g by (fastforce simp: db_inv_def sorted_wrt_append)
    ultimately obtain ws where "db_inv d \<longrightarrow> db_inv d'" "db_logs d' = db_logs ?d @ ws"
      "ok \<longrightarrow> map lw_Record ws = map filled rs"
      using Cons.IH by blast
    then show ?thesis using g by (intro conjI exI [of _ "?w # ws"]) simp_all
  qed
qed simp

lemma db_Insert_effect:
  assumes "db_Insert recs d = (r, d')"
  shows "(db_inv d \<longrightarrow> db_inv d') \<and> (\<exists>ws. db_logs d' = db_logs d @ ws \<and>
    (case r of Inr n \<Rightarrow> n = length recs \<and> map lw_Record ws = map filled recs | Inl _ \<Rightarrow> ws = []))"
proof (cases "recs = []")
  case True
  with assms show ?thesis by (auto simp: db_Insert_def)
next
  case False
  obtain f1 d1 where t1: "db_tick d = (f1, d1)" by fastforce
  obtain f2 d2 where t2: "db_tick d1 = (f2, d2)" by fastforce
  obtain ok d3 where i: "insert_rows recs d2 = (ok, d3)" by fastforce
  obtain f4 d4 where t4: "db_tick d3 = (f4, d4)" by fastforce
  note g = db_tick_frame [OF t1] db_tick_frame [OF t2] db_tick_frame [OF t4]
  from insert_rows_effect [OF i] obtain ws where ws: "db_inv d2 \<longrightarrow> db_inv d3" "db_logs d3 = db_logs d2 @ ws"
    "ok \<longrightarrow> map lw_Record ws = map filled recs" by blast
  show ?thesis
  proof (cases "f1 \<or> f2 \<or> \<not> ok \<or> f4")
    case True
    then have "r = Inl () \<and> db_logs d' = db_logs d \<and> db_seq d' = db_seq d"
      using assms False t1 t2 i t4 g by (auto simp: db_Insert_def split: if_splits)
    then show ?thesis by (simp add: db_inv_def)
  next
    case no: False
    then have "r = Inr (length recs)" "d' = d4" using assms False t1 t2 i t4 by (simp_all add: db_Insert_def)
    with no ws g show ?thesis by (intro conjI exI [of _ ws]) (simp_all add: db_inv_def)
  qed
qed

section \<open>Ingest and the shipper\<close>

text \<open>The row of a shipped record.\<close>

definition row_of :: "log_record \<Rightarrow> stored_record" where
  "row_of r = \<lparr>st_TS = lr_Ts r, st_Level = lr_Level r, st_Service = lr_Service r, st_Message = lr_Message r,
     st_TraceID = lr_TraceID r, st_SpanID = lr_SpanID r, st_Fields = json_text (lr_Fields r)\<rparr>"

lemma stored_of_own:
  assumes "good_record r"
  shows "stored_of_text (json_text (record_tree r)) = Some (row_of r)"
proof -
  have p: "plain_record r" using assms by (simp add: good_record_def)
  have "raw_field ''fields'' (record_members r) = json_text (lr_Fields r)"
    by (simp add: raw_field_def record_members_def names_def fold_names del: json_text.simps fold_name.simps)
  then show ?thesis
    by (simp add: stored_of_text_def record_parse [OF p] stored_of_members_def record_strings [OF p] row_of_def)
qed

lemma depth_arr: "(\<And>v. v \<in> set vs \<Longrightarrow> json_depth v \<le> k) \<Longrightarrow> json_depth (JTArr vs) \<le> Suc k"
  by simp

lemma decode_own_body:
  assumes "recs \<noteq> []" and "\<forall>r \<in> set recs. good_record r"
  shows "decode_ingest (json_text (ingest_body recs)) = Some (map row_of recs)"
proof -
  let ?arr = "JTArr (map record_tree recs)"
  have pl: "plain_record r" if "r \<in> set recs" for r using assms(2) that by (simp add: good_record_def)
  have ok: "json_ok ?arr" using pl plain_record_ok(1) by auto
  have "int (json_depth (record_tree r)) \<le> max_nesting - 2" if "r \<in> set recs" for r
    using pl [OF that] plain_record_ok(2) [OF pl [OF that]] by (simp add: plain_record_def)
  then have "json_depth v \<le> nat (max_nesting - 2)" if "v \<in> set (map record_tree recs)" for v
    using that by fastforce
  from depth_arr [of "map record_tree recs", OF this] have d: "int (json_depth ?arr) \<le> max_nesting - 1" by (simp add: max_nesting_def)
  have b: "json_ok (ingest_body recs)" "int (json_depth (ingest_body recs)) \<le> max_nesting"
    using ok d by (simp_all add: ingest_body_def)
  have k: "coerce_utf8 ''records'' = ''records''" by code_simp
  have "json_read (Suc (2 * length (json_text (ingest_body recs)) + 1)) 0 (json_text (ingest_body recs) @ []) =
      Some (json_view (ingest_body recs), [])"
    by (rule json_read_back(1)) (use b in \<open>simp_all add: number_ends_def\<close>)
  then have 1: "json_first (json_text (ingest_body recs)) = Some (JObj [(''records'', json_text ?arr)])"
    using json_text_first(1) [OF b(1), of "[]"] k by (simp add: json_first_def ingest_body_def)
  have 2: "json_parse (json_text ?arr) = Some (JArr (map (\<lambda>r. json_text (record_tree r)) recs))"
    using json_parse_Marshal [of ?arr] ok d by (simp add: json_Marshal_def comp_def)
  have 3: "raw_field ''records'' [(''records'', json_text ?arr)] = json_text ?arr"
    by (simp add: raw_field_def names_def)
  have "those (map stored_of_text (map (\<lambda>r. json_text (record_tree r)) recs)) = Some (map row_of recs)"
    unfolding list.map_comp by (rule those_map_Some) (use assms(2) stored_of_own in \<open>simp add: comp_def\<close>)
  then show ?thesis using 1 2 3 json_text_pos [OF ok] by (simp add: decode_ingest_def del: json_text.simps)
qed

lemma row_of_stays: "good_record r \<Longrightarrow> filled (ingest_defaults now (row_of r)) = row_of r"
  using json_text_first(2) [OF plain_ok] by (auto simp: good_record_def plain_record_def filled_def ingest_defaults_def row_of_def)

text \<open>The way from a shipper to the server: what happens to each request, and the server's clock.\<close>

datatype link = LinkUp | LinkDown | ReplyLost

record log_net =
  ln_db :: log_db
  ln_links :: "link list"
  ln_clock :: "time list"

definition ingest_http :: "log_net log_http" where
  "ingest_http url body n =
     (let l = (case ln_links n of [] \<Rightarrow> LinkUp | l # _ \<Rightarrow> l);
          now = (case ln_clock n of [] \<Rightarrow> 0 | t # _ \<Rightarrow> t);
          n1 = n\<lparr>ln_links := drop 1 (ln_links n), ln_clock := drop 1 (ln_clock n)\<rparr> in
      if l = LinkDown then (None, n1)
      else
        let (r, d) = handleIngest now body (ln_db n1) in
        (if l = ReplyLost then None else Some (http_status r), n1\<lparr>ln_db := d\<rparr>))"

definition stored_rows :: "log_net \<Rightarrow> stored_record multiset" where
  "stored_rows n = mset (map lw_Record (db_logs (ln_db n)))"

lemma handleIngest_effect:
  assumes "handleIngest now body d = (r, d')"
  shows "\<exists>ws. db_logs d' = db_logs d @ ws \<and>
    (case r of Accepted n \<Rightarrow> (\<exists>recs. decode_ingest body = Some recs \<and>
        map lw_Record ws = map (\<lambda>x. filled (ingest_defaults now x)) recs) | _ \<Rightarrow> ws = [])"
proof (cases "decode_ingest body")
  case None
  with assms show ?thesis by (auto simp: handleIngest_def)
next
  case (Some recs)
  obtain u d1 where i: "db_Insert (map (ingest_defaults now) recs) d = (u, d1)" by fastforce
  with assms Some have e: "r = (case u of Inl _ \<Rightarrow> StoreError | Inr n \<Rightarrow> Accepted n)" "d' = d1"
    by (simp_all add: handleIngest_def)
  from db_Insert_effect [OF i] Some show ?thesis
    unfolding e by (cases u) (auto simp: comp_def)
qed

text \<open>A post of the shipper's: all its rows are stored, or none.\<close>

definition no_reply_lost :: "log_net \<Rightarrow> bool" where
  "no_reply_lost n \<longleftrightarrow> ReplyLost \<notin> set (ln_links n)"

lemma ingest_http_own:
  assumes "recs \<noteq> []" and "\<forall>r \<in> set recs. good_record r"
    and "ingest_http url (json_text (ingest_body recs)) n = (c, n')"
  shows "stored_rows n' = stored_rows n + image_mset row_of (mset recs) \<and> (delivered c \<or> \<not> no_reply_lost n) \<or>
    stored_rows n' = stored_rows n \<and> \<not> delivered c"
proof -
  define l where "l = (case ln_links n of [] \<Rightarrow> LinkUp | l # _ \<Rightarrow> l)"
  define now where "now = (case ln_clock n of [] \<Rightarrow> 0 | t # _ \<Rightarrow> t)"
  obtain r d where h: "handleIngest now (json_text (ingest_body recs)) (ln_db n) = (r, d)" by fastforce
  show ?thesis
  proof (cases "l = LinkDown")
    case True
    with assms(3) have "c = None" "ln_db n' = ln_db n"
      by (auto simp: ingest_http_def l_def [symmetric] now_def [symmetric] Let_def)
    then show ?thesis by (simp add: stored_rows_def delivered_def)
  next
    case False
    with assms(3) h have e: "c = (if l = ReplyLost then None else Some (http_status r))" "ln_db n' = d"
      by (auto simp: ingest_http_def l_def [symmetric] now_def [symmetric] Let_def)
    have lost: "\<not> no_reply_lost n" if "l = ReplyLost"
      using that by (cases "ln_links n") (auto simp: l_def no_reply_lost_def)
    from handleIngest_effect [OF h] obtain ws where ws: "db_logs d = db_logs (ln_db n) @ ws"
      "case r of Accepted n \<Rightarrow> (\<exists>xs. decode_ingest (json_text (ingest_body recs)) = Some xs \<and>
        map lw_Record ws = map (\<lambda>x. filled (ingest_defaults now x)) xs) | _ \<Rightarrow> ws = []" by blast
    show ?thesis
    proof (cases "\<exists>k. r = Accepted k")
      case True
      with ws(2) decode_own_body [OF assms(1,2)] have "map lw_Record ws = map (\<lambda>x. filled (ingest_defaults now x)) (map row_of recs)"
        by auto
      also have "\<dots> = map row_of recs" using assms(2) row_of_stays by simp
      finally have "stored_rows n' = stored_rows n + image_mset row_of (mset recs)"
        using ws(1) e(2) by (simp add: stored_rows_def)
      moreover have "delivered c \<or> \<not> no_reply_lost n" using True e(1) lost by (auto simp: delivered_def)
      ultimately show ?thesis by blast
    next
      case False
      with ws(2) have "ws = []" by (cases r) auto
      moreover have "\<not> delivered c"
        using False e(1) h by (auto simp: delivered_def handleIngest_def split: if_splits option.splits prod.splits sum.splits)
      ultimately show ?thesis using ws(1) e(2) by (simp add: stored_rows_def)
    qed
  qed
qed

interpretation logs: log_sink ingest_http stored_rows row_of no_reply_lost
proof
  fix recs url m c m'
  assume r: "recs \<noteq> []" "\<forall>r \<in> set recs. good_record r" "ingest_http url (json_text (ingest_body recs)) m = (c, m')"
  from ingest_http_own [OF r] show "delivered c \<Longrightarrow> stored_rows m' = stored_rows m + image_mset row_of (mset recs)"
    and "\<not> delivered c \<Longrightarrow> stored_rows m' = stored_rows m \<or>
      \<not> no_reply_lost m \<and> stored_rows m' = stored_rows m + image_mset row_of (mset recs)" by blast+
next
  fix url body m c m'
  assume "ingest_http url body m = (c, m')" "no_reply_lost m"
  then show "no_reply_lost m'"
    by (auto simp: ingest_http_def no_reply_lost_def Let_def split: if_splits prod.splits dest: in_set_dropD)
qed

section \<open>The server without failures\<close>

definition net_up :: "log_net \<Rightarrow> bool" where
  "net_up n \<longleftrightarrow> ln_links n = [] \<and> db_faults (ln_db n) = []"

lemma db_tick_ok: "db_faults d = [] \<Longrightarrow> db_tick d = (False, d)"
  by (simp add: db_tick_def)

lemma insert_rows_up: "db_faults d = [] \<Longrightarrow> insert_rows recs d = (ok, d') \<Longrightarrow> ok \<and> db_faults d' = []"
proof (induction recs arbitrary: d)
  case (Cons r rs)
  let ?d = "d\<lparr>db_logs := db_logs d @ [\<lparr>lw_ID = db_seq d + 1, lw_Record = filled r\<rparr>], db_seq := db_seq d + 1\<rparr>"
  have "insert_rows rs ?d = (ok, d')" using Cons.prems by (simp add: db_tick_ok filled_def)
  moreover have "db_faults ?d = []" using Cons.prems(1) by simp
  ultimately show ?case using Cons.IH by blast
qed simp

lemma db_Insert_up:
  assumes "db_faults d = []"
  shows "\<exists>d'. db_Insert recs d = (Inr (length recs), d') \<and> db_faults d' = []"
proof -
  obtain ok d' where i: "insert_rows recs d = (ok, d')" by fastforce
  from insert_rows_up [OF assms i] have "ok" "db_faults d' = []" by simp_all
  with i assms show ?thesis by (auto simp: db_Insert_def db_tick_ok)
qed

lemma ingest_up:
  assumes "recs \<noteq> []" and "\<forall>r \<in> set recs. good_record r" and "net_up n"
  shows "\<exists>n'. ingest_http url (json_text (ingest_body recs)) n = (Some 200, n') \<and> net_up n'"
proof -
  define now where "now = (case ln_clock n of [] \<Rightarrow> 0 | t # _ \<Rightarrow> t)"
  have f: "db_faults (ln_db n) = []" "ln_links n = []" using assms(3) by (simp_all add: net_up_def)
  obtain d where "db_Insert (map (ingest_defaults now) (map row_of recs)) (ln_db n) = (Inr (length recs), d)" "db_faults d = []"
    using db_Insert_up [OF f(1), of "map (ingest_defaults now) (map row_of recs)"] by auto
  then have "handleIngest now (json_text (ingest_body recs)) (ln_db n) = (Accepted (length recs), d)"
    using decode_own_body [OF assms(1,2)] by (simp add: handleIngest_def)
  with f \<open>db_faults d = []\<close> show ?thesis
    by (simp add: ingest_http_def now_def [symmetric] net_up_def)
qed

section \<open>The properties\<close>

text \<open>C6: from any spool left behind, over any run of log calls and turns of the shipper's loop, with any
  requests or replies lost and any failures of the database, every record is in exactly one place: in
  the queue, in the batch, in the spool, stored by the log server with all its fields, counted as
  dropped, or evicted from the spool; nothing is evicted if all the records together fit into the spool.
  The log server's table has grown by exactly the stored records and by further copies of logged
  records, of which there are none if no reply is lost. The records must be readable back and the
  spool's file must not fail.\<close>

theorem log_records_accounted:
  assumes "exact_numbers num" and "se = \<lparr>se_opts = log_withDefaults opts, se_http = ingest_http, se_num = num\<rparr>"
    and "\<forall>r \<in> set (old @ logged_of es). good_record r"
    and "s = ship_run se es (newShipper (Some (spool_text old)) [] n)"
  shows "\<exists>spooled acked dropped evicted extra. file_text s = spool_text spooled \<and>
    mset (old @ logged_of es) = mset (sp_queue s) + mset (sp_batch s) + mset spooled + acked + dropped + evicted \<and>
    sp_dropped s = int (size dropped) \<and>
    (sum_list (map line_size (old @ logged_of es)) \<le> lo_SpoolMaxBytes (se_opts se) \<longrightarrow> evicted = {#}) \<and>
    stored_rows (sp_net s) = stored_rows n + image_mset row_of acked + image_mset row_of extra \<and>
    set_mset extra \<subseteq> set (old @ logged_of es) \<and> (ReplyLost \<notin> set (ln_links n) \<longrightarrow> extra = {#})"
proof -
  have se: "se_http se = ingest_http" "exact_numbers (se_num se)" using assms(1,2) by simp_all
  from logs.run_accounted [OF se logs.started assms(3)] show ?thesis
    unfolding assms(4) logs.accounted_def logs.grown_def fits_def no_reply_lost_def by blast
qed

text \<open>C7: once the log server can be reached and its database works, a flush leaves nothing in the
  queue, the batch and the spool: every record logged up to then is stored, with all its fields, except
  those counted as dropped and those evicted from the spool; nothing is evicted if all the records
  together fit into the spool. If no reply was ever lost, each is stored once and nothing else is.\<close>

theorem log_flush_delivers:
  assumes "exact_numbers num" and "se = \<lparr>se_opts = log_withDefaults opts, se_http = ingest_http, se_num = num\<rparr>"
    and "\<forall>r \<in> set (old @ logged_of es). good_record r"
    and "s = ship_run se es (newShipper (Some (spool_text old)) [] n)" and "\<not> sp_stopped s" and "net_up (sp_net s)"
    and "s' = ship_run se [FlushRequest] s"
  shows "sp_queue s' = [] \<and> sp_batch s' = [] \<and> file_text s' = [] \<and>
    (\<exists>acked dropped evicted extra. mset (old @ logged_of es) = acked + dropped + evicted \<and> sp_dropped s' = int (size dropped) \<and>
      (sum_list (map line_size (old @ logged_of es)) \<le> lo_SpoolMaxBytes (se_opts se) \<longrightarrow> evicted = {#}) \<and>
      stored_rows (sp_net s') = stored_rows n + image_mset row_of acked + image_mset row_of extra \<and>
      set_mset extra \<subseteq> set (old @ logged_of es) \<and> (ReplyLost \<notin> set (ln_links n) \<longrightarrow> extra = {#}))"
proof -
  have se: "se_http se = ingest_http" "exact_numbers (se_num se)" using assms(1,2) by simp_all
  from logs.run_accounted [OF se logs.started assms(3)]
  have a: "logs.accounted n se (old @ logged_of es) s" by (simp add: assms(4))
  have up: "server_up se net_up"
    unfolding server_up_def se(1)
  proof (intro allI impI)
    fix recs m assume "recs \<noteq> []" "\<forall>r \<in> set recs. good_record r" "net_up m"
    from ingest_up [OF this, of "log_endpoint (se_opts se)"] obtain m' where
      "ingest_http (log_endpoint (se_opts se)) (json_text (ingest_body recs)) m = (Some 200, m')" "net_up m'" by blast
    then show "\<exists>c m'. ingest_http (log_endpoint (se_opts se)) (json_text (ingest_body recs)) m = (Some c, m') \<and>
        200 \<le> c \<and> c < 300 \<and> net_up m'" by (intro exI [of _ 200] exI [of _ m']) simp
  qed
  have b: "0 < lo_BatchSize (se_opts se)"
    by (simp add: assms(2) log_withDefaults_def DefaultOptions_def)
  have "s' = ship_step se FlushRequest s" by (simp add: assms(7) ship_run_def)
  with logs.flush_delivers [OF se assms(3) a up b assms(5,6)] show ?thesis
    unfolding logs.grown_def fits_def no_reply_lost_def by (simp only:) blast
qed

text \<open>Two records: the first one meets a server that is down, then the server is back.\<close>

definition ex_num :: "string \<Rightarrow> json_tree option" where
  "ex_num t = map_option JTInt (int_literal t)"

definition ex_log_record :: "string \<Rightarrow> log_record" where
  "ex_log_record msg = \<lparr>lr_Ts = ''t'', lr_Level = ''INFO'', lr_Service = ''poll'', lr_Message = msg, lr_TraceID = [],
     lr_SpanID = [], lr_Fields = JTObj [(''n'', JTInt 1)]\<rparr>"

definition ex_log_env :: "log_net ship_env" where
  "ex_log_env = \<lparr>se_opts = log_withDefaults DefaultOptions, se_http = ingest_http, se_num = ex_num\<rparr>"

definition ex_net :: log_net where
  "ex_net = \<lparr>ln_db = \<lparr>db_logs = [], db_seq = 0, db_faults = []\<rparr>, ln_links = [LinkDown], ln_clock = []\<rparr>"

definition ex_log_events :: "ship_event list" where
  "ex_log_events = [Logged (ex_log_record ''a''), Received, FlushTick, Logged (ex_log_record ''b'')]"

lemma ex_num_exact: "exact_numbers ex_num"
  by (auto simp: exact_numbers_def ex_num_def int_literal_fmt_int)

lemma ex_good: "\<forall>r \<in> set ([] @ logged_of ex_log_events). good_record r"
proof -
  have "good_record (ex_log_record ''a'')" "good_record (ex_log_record ''b'')"
    unfolding good_record_def plain_record_def by (simp_all add: ex_log_record_def max_nesting_def; code_simp)+
  then show ?thesis by (simp add: ex_log_events_def)
qed

definition ex_shipper :: "log_net shipper" where
  "ex_shipper = ship_run ex_log_env ex_log_events (newShipper (Some (spool_text [])) [] ex_net)"

lemma log_records_accounted_witness:
  "length (sp_queue ex_shipper) = 1 \<and> file_text ex_shipper \<noteq> [] \<and>
   (\<exists>spooled acked dropped. file_text ex_shipper = spool_text spooled \<and>
      mset (logged_of ex_log_events) = mset (sp_queue ex_shipper) + mset (sp_batch ex_shipper) + mset spooled + acked + dropped \<and>
      sp_dropped ex_shipper = int (size dropped) \<and>
      stored_rows (sp_net ex_shipper) = stored_rows ex_net + image_mset row_of acked)"
proof -
  have "length (sp_queue ex_shipper) = 1" by code_simp
  moreover have "file_text ex_shipper \<noteq> []" by code_simp
  moreover have "sum_list (map line_size ([] @ logged_of ex_log_events)) \<le> lo_SpoolMaxBytes (se_opts ex_log_env)"
    by code_simp
  moreover have "ReplyLost \<notin> set (ln_links ex_net)" by (simp add: ex_net_def)
  moreover note log_records_accounted [OF ex_num_exact ex_log_env_def ex_good ex_shipper_def]
  ultimately show ?thesis by (auto simp del: spool_text.simps)
qed

lemma log_flush_delivers_witness:
  "let s' = ship_run ex_log_env [FlushRequest] ex_shipper in
   file_text s' = [] \<and> length (db_logs (ln_db (sp_net s'))) = 2"
proof -
  have "\<not> sp_stopped ex_shipper" by code_simp
  moreover have "net_up (sp_net ex_shipper)" by code_simp
  ultimately have "file_text (ship_run ex_log_env [FlushRequest] ex_shipper) = []"
    using log_flush_delivers [OF ex_num_exact ex_log_env_def ex_good ex_shipper_def _ _ refl] by blast
  moreover have "length (db_logs (ln_db (sp_net (ship_run ex_log_env [FlushRequest] ex_shipper)))) = 2"
    by code_simp
  ultimately show ?thesis unfolding Let_def by blast
qed

text \<open>C38: a query answers with the newest rows that match, newest first and at most as many as its
  limit allows; no matching row newer than an answered one is left out, and the limit is used up before
  any is. The search matches a message that contains its text in either case of the ASCII letters, or,
  where the text has asterisks, one that consists of the pieces between them with anything in between.\<close>

theorem query_newest_matching:
  assumes "db_inv d" and "db_Query q d = (Inr rows, d')"
  shows "set rows \<subseteq> {w \<in> set (db_logs d). matches q w} \<and> sorted_wrt (>) (map lw_ID rows) \<and>
    int (length rows) \<le> query_limit (lq_Limit q) \<and>
    (\<forall>w \<in> set (db_logs d). matches q w \<longrightarrow> w \<in> set rows \<or>
       int (length rows) = query_limit (lq_Limit q) \<and> (\<forall>v \<in> set rows. lw_ID w < lw_ID v)) \<and>
    (\<forall>w. lq_Q q \<noteq> [] \<longrightarrow>
       (matches q w \<longleftrightarrow> matches (q\<lparr>lq_Q := []\<rparr>) w \<and> found (lq_Q q) (st_Message (lw_Record w))))"
proof -
  let ?m = "filter (matches q) (db_logs d)" and ?k = "nat (query_limit (lq_Limit q))"
  obtain f d1 where t: "db_tick d = (f, d1)" by fastforce
  have l: "0 \<le> query_limit (lq_Limit q)" by (simp add: query_limit_def Let_def)
  have srt: "sorted_wrt (<) (map lw_ID ?m)"
    using assms(1) unfolding db_inv_def sorted_wrt_map by (blast intro: sorted_wrt_filter)
  then have "sort_key lw_ID ?m = ?m"
    by (intro sort_key_id_if_sorted) (simp add: strict_sorted_iff)
  then have r: "rows = take ?k (rev ?m)"
    using assms(2) t db_tick_frame [OF t] by (auto simp: db_Query_def split: if_splits)
  have desc: "sorted_wrt (>) (map lw_ID (rev ?m))"
    using srt by (simp add: rev_map [symmetric] sorted_wrt_rev)
  have "sorted_wrt (>) (map lw_ID rows)" using desc by (simp add: r take_map [symmetric] sorted_wrt_take)
  moreover have "set rows \<subseteq> {w \<in> set (db_logs d). matches q w}"
    unfolding r using set_take_subset [of ?k "rev ?m"] by auto
  moreover have "int (length rows) \<le> query_limit (lq_Limit q)" using l by (simp add: r)
  moreover have "w \<in> set rows \<or> int (length rows) = query_limit (lq_Limit q) \<and> (\<forall>v \<in> set rows. lw_ID w < lw_ID v)"
    if w: "w \<in> set (db_logs d)" "matches q w" for w
  proof (cases "w \<in> set (drop ?k (rev ?m))")
    case True
    then have "?k < length (rev ?m)" by (cases "?k < length (rev ?m)") auto
    moreover have "sorted_wrt (>) (map lw_ID (take ?k (rev ?m) @ drop ?k (rev ?m)))" using desc by simp
    then have "\<forall>v \<in> set (take ?k (rev ?m)). lw_ID w < lw_ID v"
      using True unfolding map_append sorted_wrt_append by auto
    ultimately show ?thesis using l by (simp add: r)
  next
    case False
    have "w \<in> set (take ?k (rev ?m) @ drop ?k (rev ?m))" using w by simp
    with False show ?thesis by (simp only: r set_append) blast
  qed
  moreover have "matches q w \<longleftrightarrow> matches (q\<lparr>lq_Q := []\<rparr>) w \<and> found (lq_Q q) (st_Message (lw_Record w))"
    if "lq_Q q \<noteq> []" for w
    using that search_like by (auto simp: matches_def)
  ultimately show ?thesis by blast
qed

definition ex_db :: log_db where
  "ex_db = \<lparr>db_logs = map (\<lambda>i. \<lparr>lw_ID = i, lw_Record = row_of (ex_log_record (if i = 2 then ''Server UP'' else ''up the server''))\<rparr>) [1, 2, 3],
     db_seq = 3, db_faults = []\<rparr>"

definition ex_query :: log_query where
  "ex_query = \<lparr>lq_Service = ''poll'', lq_Level = [], lq_Q = ''up*ver'', lq_From = [], lq_To = [], lq_Limit = 1, lq_After = 0\<rparr>"

lemma query_newest_matching_witness:
  "\<exists>rows d'. db_Query ex_query ex_db = (Inr rows, d') \<and> map lw_ID rows = [3] \<and> sorted_wrt (>) (map lw_ID rows)"
proof -
  have inv: "db_inv ex_db" by (simp add: db_inv_def ex_db_def)
  obtain r d' where q: "db_Query ex_query ex_db = (r, d')" by fastforce
  have "(case fst (db_Query ex_query ex_db) of Inr rows \<Rightarrow> map lw_ID rows = [3] | Inl _ \<Rightarrow> False)" by code_simp
  then obtain rows where rows: "r = Inr rows" "map lw_ID rows = [3]" using q by (cases r) auto
  note c = query_newest_matching [OF inv q [unfolded rows(1)]]
  show ?thesis using q rows conjunct1 [OF conjunct2 [OF c]] by (intro exI [of _ rows] exI [of _ d']) simp
qed

text \<open>A sweep removes every shipped record of an earlier second than the cutoff and keeps every one
  of a later second and every row without a time; it removes nothing else and counts what it removes.
  Within the second of the cutoff the order of the texts is not the order of the instants.\<close>

theorem prune_to_the_second:
  assumes "db_Prune cutoff d = (Inr n, d')" and "civil_time cutoff"
  shows "length (db_logs d) = length (db_logs d') + n \<and> set (db_logs d') \<subseteq> set (db_logs d) \<and>
    (\<forall>w \<in> set (db_logs d). st_TS (lw_Record w) = [] \<longrightarrow> w \<in> set (db_logs d')) \<and>
    (\<forall>w \<in> set (db_logs d). \<forall>t. civil_time t \<longrightarrow> st_TS (lw_Record w) = formatTS t \<longrightarrow>
       (t div ns_per_sec < cutoff div ns_per_sec \<longrightarrow> w \<notin> set (db_logs d')) \<and>
       (cutoff div ns_per_sec < t div ns_per_sec \<longrightarrow> w \<in> set (db_logs d')))"
proof -
  let ?old = "\<lambda>w. st_TS (lw_Record w) \<noteq> [] \<and> st_TS (lw_Record w) < fmt_nano cutoff"
  obtain f d1 where t: "db_tick d = (f, d1)" by fastforce
  have e: "db_logs d' = filter (\<lambda>w. \<not> ?old w) (db_logs d)" "n = length (filter ?old (db_logs d))"
    using assms(1) t db_tick_frame [OF t] by (auto simp: db_Prune_def split: if_splits)
  obtain q where q: "fmt_nano cutoff = fmt_second cutoff @ q" by (auto simp: fmt_nano_def Let_def)
  have p: "fmt_micro s = fmt_second s @ ''.'' @ pad 6 (s mod ns_per_sec div 1000) @ ''Z''" for s
    by (simp add: fmt_micro_def)
  have before: "fmt_micro s < fmt_nano cutoff \<and> fmt_micro s \<noteq> []"
    if "civil_time s" "s div ns_per_sec < cutoff div ns_per_sec" for s
    using fmt_second_less [OF that(1) assms(2) that(2)] fmt_second_length assms(2) that(1)
    unfolding q p by (simp add: less_append)
  have after: "\<not> fmt_micro s < fmt_nano cutoff"
    if "civil_time s" "cutoff div ns_per_sec < s div ns_per_sec" for s
  proof -
    have "fmt_nano cutoff < fmt_micro s"
      using fmt_second_less [OF assms(2) that] fmt_second_length assms(2) that(1)
      unfolding q p by (simp add: less_append)
    then show ?thesis by (rule less_not_sym)
  qed
  have "length (db_logs d) = length (db_logs d') + n"
    using sum_length_filter_compl [of ?old "db_logs d"] e by simp
  then show ?thesis using before after by (auto simp: e(1) formatTS_def)
qed

definition ex_old_db :: log_db where
  "ex_old_db = \<lparr>db_logs = map (\<lambda>t. \<lparr>lw_ID = t, lw_Record = row_of ((ex_log_record ''a'')\<lparr>lr_Ts := formatTS (t * 500000000)\<rparr>)\<rparr>) [1, 4, 5, 8],
     db_seq = 8, db_faults = []\<rparr>"

lemma ex_old_texts:
  "fmt_nano (2 * ns_per_sec) = ''1970-01-01T00:00:02Z''"
  "formatTS 500000000 = ''1970-01-01T00:00:00.500000Z''"
  "formatTS 2000000000 = ''1970-01-01T00:00:02.000000Z''"
  "formatTS 2500000000 = ''1970-01-01T00:00:02.500000Z''"
  "formatTS 4000000000 = ''1970-01-01T00:00:04.000000Z''"
  by code_simp+

text \<open>The record at 2.5 seconds is newer than the cutoff of two seconds and is removed as well.\<close>

lemma prune_to_the_second_witness:
  "\<exists>n d'. db_Prune (2 * ns_per_sec) ex_old_db = (Inr n, d') \<and> length (db_logs ex_old_db) = length (db_logs d') + n \<and>
     map lw_ID (db_logs d') = [8]"
proof -
  obtain r d' where q: "db_Prune (2 * ns_per_sec) ex_old_db = (r, d')" by fastforce
  have f: "db_faults ex_old_db = []" by (simp add: ex_old_db_def)
  have "filter (\<lambda>w. \<not> (st_TS (lw_Record w) \<noteq> [] \<and> st_TS (lw_Record w) < fmt_nano (2 * ns_per_sec))) (db_logs ex_old_db) =
      [last (db_logs ex_old_db)]" and l: "lw_ID (last (db_logs ex_old_db)) = 8"
    unfolding ex_old_texts by (simp_all add: ex_old_db_def row_of_def ex_old_texts less_char_def)
  then have m: "map lw_ID (db_logs d') = [8]" and n: "\<exists>n. r = Inr n"
    using q f by (auto simp: db_Prune_def db_tick_ok Let_def)
  from n obtain n where n: "r = Inr n" ..
  have "civil_time (2 * ns_per_sec)" by code_simp
  from prune_to_the_second [OF q [unfolded n] this] have "length (db_logs ex_old_db) = length (db_logs d') + n" by blast
  with m q n show ?thesis by (intro exI [of _ n] exI [of _ d']) simp
qed

end
