(* ===== verification/Catalog_Store.thy ===== *)
theory Catalog_Store
  imports Valkey Gift_Json_Structs
begin

text \<open>
  The Catalog service's data: the domain types (\<open>services/backend/catalog/internal/domain/model/model.go\<close>),
  the reference tables and the inspiration corpus on Postgres with pgvector (\<open>domain/postgres/postgres.go\<close>,
  \<open>migrations/0001_init.sql\<close>), and the cache of reference reads on Valkey (\<open>domain/valkey/valkey.go\<close>),
  which holds JSON texts.
\<close>

section \<open>Domain types (model.go)\<close>

text \<open>\<open>ho_Tags\<close> and the like do not tell a nil slice from an empty one.\<close>

record holiday =
  ho_ID :: string
  ho_Name :: string
  ho_DateRule :: string
  ho_Region :: string
  ho_Tags :: "string list"
  ho_Active :: bool

record category =
  ct_ID :: string
  ct_Name :: string
  ct_Kind :: string
  ct_ParentID :: string

record budget_band =
  bb_ID :: string
  bb_Label :: string
  bb_MinCents :: int
  bb_MaxCents :: int
  bb_Currency :: string

record inspiration =
  ins_ID :: string
  ins_Title :: string
  ins_Body :: string
  ins_CategoryID :: string
  ins_BudgetBandID :: string
  ins_Tags :: "string list"
  ins_CuratedBy :: string
  ins_Active :: bool

record 'd snippet =
  sni_ID :: string
  sni_Title :: string
  sni_Body :: string
  sni_CategoryID :: string
  sni_BudgetBandID :: string
  sni_Tags :: "string list"
  sni_Score :: 'd

record holiday_filter =
  hf_Region :: string
  hf_Active :: "bool option"
  hf_OnOrAfter :: string

record search_filter =
  sf_CategoryID :: string
  sf_BudgetBandID :: string

section \<open>Tables (0001_init.sql)\<close>

text \<open>Columns of type jsonb hold their text; \<open>category_id\<close> and \<open>budget_band_id\<close> may be NULL.\<close>

record holiday_row =
  hr_id :: string
  hr_name :: string
  hr_date_rule :: string
  hr_region :: string
  hr_tags :: string
  hr_active :: bool

record category_row =
  cr_id :: string
  cr_name :: string
  cr_kind :: string
  cr_parent_id :: "string option"

record 'v inspiration_row =
  ir_id :: string
  ir_title :: string
  ir_body :: string
  ir_category_id :: "string option"
  ir_budget_band_id :: "string option"
  ir_tags :: string
  ir_embedding :: 'v
  ir_curated_by :: string
  ir_curated_at :: time
  ir_active :: bool

text \<open>\<open>cpg_uuids\<close> is what \<open>gen_random_uuid()\<close> draws from.\<close>

record 'v catalog_pg =
  cpg_holidays :: "holiday_row list"
  cpg_categories :: "category_row list"
  cpg_bands :: "budget_band list"
  cpg_inspiration :: "'v inspiration_row list"
  cpg_uuids :: "string list"
  cpg_faults :: "bool list"

text \<open>
  What the code takes from the driver and from Postgres with pgvector: \<open>cf_uuid\<close> parses a uuid,
  \<open>cf_collate\<close> is the sort key of a text in the collation of the database, \<open>cf_float\<close> is
  \<open>strconv.FormatFloat(x, 'f', -1, 32)\<close>, \<open>cf_vector\<close> parses a vector and \<open>cf_dim\<close> is its dimension,
  \<open>cf_dist\<close> is the cosine distance \<open><=>\<close> and \<open>cf_similarity\<close> is 1 minus it. \<open>cf_scan\<close> says which of
  the matching rows the plan yields, in which order: all of them for a sequential scan, some for a scan
  of the approximate index \<open>hnsw\<close>.
\<close>

record ('f, 'v, 'd) catalog_funs =
  cf_uuid :: "string \<Rightarrow> string option"
  cf_collate :: "string \<Rightarrow> string"
  cf_float :: "'f \<Rightarrow> string"
  cf_vector :: "string \<Rightarrow> 'v option"
  cf_dim :: "'v \<Rightarrow> int"
  cf_dist :: "'v \<Rightarrow> 'v \<Rightarrow> 'd"
  cf_similarity :: "'d \<Rightarrow> 'd"
  cf_scan :: "'v \<Rightarrow> 'v inspiration_row list \<Rightarrow> 'v inspiration_row list"

definition corpus_dimension :: int where
  "corpus_dimension = 1536"

definition cpg_tick :: "'v catalog_pg \<Rightarrow> bool \<times> 'v catalog_pg" where
  "cpg_tick s = (let (f, fs) = next_fault (cpg_faults s) in (f, s\<lparr>cpg_faults := fs\<rparr>))"

section \<open>Reads of reference data (postgres.go)\<close>

text \<open>A list that cannot be decoded fails the whole read.\<close>

definition decodeTags :: "string \<Rightarrow> string list option" where
  "decodeTags raw = (if raw = [] then Some [] else dec_list dec_string [] [] raw)"

definition holiday_of_row :: "holiday_row \<Rightarrow> holiday option" where
  "holiday_of_row r =
     map_option (\<lambda>tags. \<lparr>ho_ID = hr_id r, ho_Name = hr_name r, ho_DateRule = hr_date_rule r,
       ho_Region = hr_region r, ho_Tags = tags, ho_Active = hr_active r\<rparr>) (decodeTags (hr_tags r))"

definition holidays_query ::
  "('f, 'v, 'd) catalog_funs \<Rightarrow> holiday_filter \<Rightarrow> holiday_row list \<Rightarrow> holiday list option" where
  "holidays_query cf f rows =
     those (map holiday_of_row
       (sort_key (\<lambda>r. cf_collate cf (hr_name r))
         (filter (\<lambda>r. (hf_Region f = [] \<or> hr_region r = hf_Region f) \<and>
            (hf_Active f = None \<or> hf_Active f = Some (hr_active r))) rows)))"

definition cpg_ListHolidays ::
  "('f, 'v, 'd) catalog_funs \<Rightarrow> holiday_filter \<Rightarrow> 'v catalog_pg \<Rightarrow> (unit + holiday list) \<times> 'v catalog_pg" where
  "cpg_ListHolidays cf f s0 =
     guarded cpg_tick () (\<lambda>s. (case holidays_query cf f (cpg_holidays s) of None \<Rightarrow> Inl () | Some hs \<Rightarrow> Inr hs, s)) s0"

definition category_of_row :: "category_row \<Rightarrow> category" where
  "category_of_row r = \<lparr>ct_ID = cr_id r, ct_Name = cr_name r, ct_Kind = cr_kind r,
     ct_ParentID = (case cr_parent_id r of None \<Rightarrow> [] | Some p \<Rightarrow> p)\<rparr>"

definition categories_query :: "('f, 'v, 'd) catalog_funs \<Rightarrow> string \<Rightarrow> category_row list \<Rightarrow> category list" where
  "categories_query cf kind rows =
     map category_of_row (sort_key (\<lambda>r. cf_collate cf (cr_name r)) (filter (\<lambda>r. kind = [] \<or> cr_kind r = kind) rows))"

definition cpg_GetCategories ::
  "('f, 'v, 'd) catalog_funs \<Rightarrow> string \<Rightarrow> 'v catalog_pg \<Rightarrow>
   (unit + category list \<times> budget_band list) \<times> 'v catalog_pg" where
  "cpg_GetCategories cf kind s0 =
     guarded cpg_tick () (\<lambda>s1. guarded cpg_tick () (\<lambda>s2.
       (Inr (categories_query cf kind (cpg_categories s1), sort_key bb_MinCents (cpg_bands s2)), s2)) s1) s0"

section \<open>The corpus (postgres.go)\<close>

definition VectorLiteral :: "('f, 'v, 'd) catalog_funs \<Rightarrow> 'f list \<Rightarrow> string" where
  "VectorLiteral cf v = CHR ''['' # Join (map (cf_float cf) v) '','' @ '']''"

text \<open>\<open>$n = '' OR column = $n::uuid\<close>: an empty parameter does not filter, a malformed one fails.\<close>

definition uuid_filter :: "('f, 'v, 'd) catalog_funs \<Rightarrow> string \<Rightarrow> string option option" where
  "uuid_filter cf p = (if p = [] then Some None else map_option Some (cf_uuid cf p))"

definition wanted_rows :: "string option \<Rightarrow> string option \<Rightarrow> 'v inspiration_row list \<Rightarrow> 'v inspiration_row list" where
  "wanted_rows cat band rows =
     filter (\<lambda>r. ir_active r \<and> (cat = None \<or> ir_category_id r = cat) \<and>
       (band = None \<or> ir_budget_band_id r = band)) rows"

definition snippet_of_row ::
  "('f, 'v, 'd) catalog_funs \<Rightarrow> 'v \<Rightarrow> 'v inspiration_row \<Rightarrow> 'd snippet option" where
  "snippet_of_row cf q r =
     map_option (\<lambda>tags. \<lparr>sni_ID = ir_id r, sni_Title = ir_title r, sni_Body = ir_body r,
       sni_CategoryID = (case ir_category_id r of None \<Rightarrow> [] | Some c \<Rightarrow> c),
       sni_BudgetBandID = (case ir_budget_band_id r of None \<Rightarrow> [] | Some b \<Rightarrow> b), sni_Tags = tags,
       sni_Score = cf_similarity cf (cf_dist cf (ir_embedding r) q)\<rparr>) (decodeTags (ir_tags r))"

text \<open>The rows in the order of the distance to the query, at most \<open>topK\<close> of them.\<close>

definition nearest_rows ::
  "('f, 'v, 'd :: linorder) catalog_funs \<Rightarrow> 'v \<Rightarrow> int \<Rightarrow> 'v inspiration_row list \<Rightarrow> 'v inspiration_row list" where
  "nearest_rows cf q k rows = take (nat k) (sort_key (\<lambda>r. cf_dist cf (ir_embedding r) q) (cf_scan cf q rows))"

definition cpg_SearchInspiration ::
  "('f, 'v, 'd :: linorder) catalog_funs \<Rightarrow> 'f list \<Rightarrow> search_filter \<Rightarrow> int \<Rightarrow> 'v catalog_pg \<Rightarrow>
   (unit + 'd snippet list) \<times> 'v catalog_pg" where
  "cpg_SearchInspiration cf emb f topK s0 =
     guarded cpg_tick () (\<lambda>s.
       (case (cf_vector cf (VectorLiteral cf emb), uuid_filter cf (sf_CategoryID f), uuid_filter cf (sf_BudgetBandID f)) of
          (Some q, Some cat, Some band) \<Rightarrow>
            (let rows = wanted_rows cat band (cpg_inspiration s) in
             if rows \<noteq> [] \<and> cf_dim cf q \<noteq> corpus_dimension then Inl ()
             else case those (map (snippet_of_row cf q) (nearest_rows cf q topK rows)) of
               None \<Rightarrow> Inl ()
             | Some sns \<Rightarrow> Inr sns)
        | _ \<Rightarrow> Inl (), s)) s0"

text \<open>\<open>json.Marshal(nonNilTags(tags))\<close>, cast to jsonb.\<close>

definition tags_text :: "string list \<Rightarrow> string" where
  "tags_text ts = json_text (JTArr (map JTStr ts))"

text \<open>What a text column and a jsonb string refuse.\<close>

definition no_nul :: "string \<Rightarrow> bool" where
  "no_nul s \<longleftrightarrow> CHR 0x00 \<notin> set s"

definition cpg_uuid :: "'v catalog_pg \<Rightarrow> string \<times> 'v catalog_pg" where
  "cpg_uuid s = (case cpg_uuids s of [] \<Rightarrow> ([], s) | u # us \<Rightarrow> (u, s\<lparr>cpg_uuids := us\<rparr>))"

text \<open>\<open>INSERT \<dots> ON CONFLICT (id) DO UPDATE\<close>.\<close>

definition put_row :: "'v inspiration_row \<Rightarrow> 'v inspiration_row list \<Rightarrow> 'v inspiration_row list" where
  "put_row r rows =
     (if \<exists>x \<in> set rows. ir_id x = ir_id r then map (\<lambda>x. if ir_id x = ir_id r then r else x) rows
      else rows @ [r])"

text \<open>The row of the statement, once its id is known; none when a parameter is refused.\<close>

definition upsert_row ::
  "('f, 'v, 'd) catalog_funs \<Rightarrow> inspiration \<Rightarrow> 'f list \<Rightarrow> time \<Rightarrow>
   (string option \<times> (string \<Rightarrow> 'v inspiration_row)) option" where
  "upsert_row cf x emb now =
     (case (uuid_filter cf (ins_ID x), uuid_filter cf (ins_CategoryID x), uuid_filter cf (ins_BudgetBandID x),
            cf_vector cf (VectorLiteral cf emb)) of
        (Some i, Some cat, Some band, Some v) \<Rightarrow>
          (if cf_dim cf v \<noteq> corpus_dimension \<or>
              \<not> list_all no_nul (ins_Title x # ins_Body x # ins_CuratedBy x # ins_Tags x) then None
           else Some (i, \<lambda>rid.
             \<lparr>ir_id = rid, ir_title = ins_Title x, ir_body = ins_Body x, ir_category_id = cat,
              ir_budget_band_id = band, ir_tags = tags_text (ins_Tags x), ir_embedding = v,
              ir_curated_by = ins_CuratedBy x, ir_curated_at = now, ir_active = ins_Active x\<rparr>))
      | _ \<Rightarrow> None)"

definition cpg_UpsertInspiration ::
  "('f, 'v, 'd) catalog_funs \<Rightarrow> inspiration \<Rightarrow> 'f list \<Rightarrow> time \<Rightarrow> 'v catalog_pg \<Rightarrow> (unit + string) \<times> 'v catalog_pg" where
  "cpg_UpsertInspiration cf x emb now s0 =
     guarded cpg_tick () (\<lambda>s.
       (case upsert_row cf x emb now of
          None \<Rightarrow> (Inl (), s)
        | Some (i, row) \<Rightarrow>
            (let (rid, s1) = (case i of None \<Rightarrow> cpg_uuid s | Some rid \<Rightarrow> (rid, s)) in
             (Inr rid, s1\<lparr>cpg_inspiration := put_row (row rid) (cpg_inspiration s1)\<rparr>)))) s0"

end
