(* ===== verification/Catalog_Server.thy ===== *)
theory Catalog_Server
  imports Catalog_Store
begin

text \<open>
  The Catalog service's RPCs (\<open>services/backend/catalog/internal/app/catalog_server.go\<close>, \<open>mapping.go\<close>),
  its cache of reference reads (\<open>domain/valkey/valkey.go\<close>), and the embedders
  (\<open>internal/embedding\<close>). A gRPC error is its code; the message is not modelled.
\<close>

section \<open>The cache (valkey.go)\<close>

text \<open>The cache holds the marshalled texts.\<close>

type_synonym ref_cache = "string valkey"

definition refPrefix :: string where
  "refPrefix = ''catalog:ref:''"

text \<open>\<open>GetJSON\<close> with the decoder of its destination: a hit, a miss, or an error.\<close>

definition GetJSON :: "string \<Rightarrow> (string \<Rightarrow> 'a option) \<Rightarrow> time \<Rightarrow> ref_cache \<Rightarrow> (unit + 'a option) \<times> ref_cache" where
  "GetJSON key dec now c =
     (let (r, c1) = vk_GET (refPrefix @ key) now c in
      (case r of
         Inl _ \<Rightarrow> Inl ()
       | Inr None \<Rightarrow> Inr None
       | Inr (Some t) \<Rightarrow> (case dec t of None \<Rightarrow> Inl () | Some x \<Rightarrow> Inr (Some x)), c1))"

definition SetJSON :: "string \<Rightarrow> json_tree \<Rightarrow> duration \<Rightarrow> time \<Rightarrow> ref_cache \<Rightarrow> (unit + unit) \<times> ref_cache" where
  "SetJSON key v ttl now c =
     (case json_Marshal v of
        None \<Rightarrow> (Inl (), c)
      | Some payload \<Rightarrow>
          (let (r, c1) = vk_SETEX (refPrefix @ key) payload (ttl div ns_per_sec) now c in
           (case r of Inl _ \<Rightarrow> Inl () | Inr u \<Rightarrow> Inr u, c1)))"

text \<open>
  SCAN with a MATCH of the prefix and DEL of what it returns, until the cursor is 0. A page of the
  scan is the keys it returns; \<open>pages\<close> are those of this call. A failing command ends the loop.
\<close>

fun Invalidate :: "string list list \<Rightarrow> ref_cache \<Rightarrow> (unit + unit) \<times> ref_cache" where
  "Invalidate [] c = (Inr (), c)"
| "Invalidate (keys # pages) c =
     (let (f, c1) = vk_tick c in
      if f then (Inl (), c1)
      else
        let ks = filter (prefix refPrefix) keys in
        if ks = [] then Invalidate pages c1
        else
          let (f2, c2) = vk_tick c1 in
          if f2 then (Inl (), c2)
          else Invalidate pages (c2\<lparr>vk_keys := (\<lambda>k. if k \<in> set ks then None else vk_keys c2 k)\<rparr>))"

section \<open>Payloads of the cache\<close>

text \<open>The Go field names are the member names; a nil slice of rows is null.\<close>

definition rows_tree :: "('a \<Rightarrow> json_tree) \<Rightarrow> 'a list \<Rightarrow> json_tree" where
  "rows_tree f xs = (if xs = [] then JTNull else JTArr (map f xs))"

definition holiday_tree :: "holiday \<Rightarrow> json_tree" where
  "holiday_tree h = JTObj [(''ID'', JTStr (ho_ID h)), (''Name'', JTStr (ho_Name h)), (''DateRule'', JTStr (ho_DateRule h)),
     (''Region'', JTStr (ho_Region h)), (''Tags'', JTArr (map JTStr (ho_Tags h))), (''Active'', JTBool (ho_Active h))]"

definition category_tree :: "category \<Rightarrow> json_tree" where
  "category_tree c = JTObj [(''ID'', JTStr (ct_ID c)), (''Name'', JTStr (ct_Name c)), (''Kind'', JTStr (ct_Kind c)),
     (''ParentID'', JTStr (ct_ParentID c))]"

definition band_tree :: "budget_band \<Rightarrow> json_tree" where
  "band_tree b = JTObj [(''ID'', JTStr (bb_ID b)), (''Label'', JTStr (bb_Label b)), (''MinCents'', JTInt (bb_MinCents b)),
     (''MaxCents'', JTInt (bb_MaxCents b)), (''Currency'', JTStr (bb_Currency b))]"

definition holiday_into :: "holiday \<Rightarrow> (string \<times> string) list \<Rightarrow> holiday option" where
  "holiday_into h ms =
     (case (field_into ''ID'' dec_string ms (ho_ID h), field_into ''Name'' dec_string ms (ho_Name h),
            field_into ''DateRule'' dec_string ms (ho_DateRule h), field_into ''Region'' dec_string ms (ho_Region h),
            field_into ''Tags'' (dec_list dec_string []) ms (ho_Tags h), field_into ''Active'' dec_bool ms (ho_Active h)) of
        (Some i, Some n, Some d, Some r, Some t, Some a) \<Rightarrow>
          Some \<lparr>ho_ID = i, ho_Name = n, ho_DateRule = d, ho_Region = r, ho_Tags = t, ho_Active = a\<rparr>
      | _ \<Rightarrow> None)"

definition category_into :: "category \<Rightarrow> (string \<times> string) list \<Rightarrow> category option" where
  "category_into c ms =
     (case (field_into ''ID'' dec_string ms (ct_ID c), field_into ''Name'' dec_string ms (ct_Name c),
            field_into ''Kind'' dec_string ms (ct_Kind c), field_into ''ParentID'' dec_string ms (ct_ParentID c)) of
        (Some i, Some n, Some k, Some p) \<Rightarrow> Some \<lparr>ct_ID = i, ct_Name = n, ct_Kind = k, ct_ParentID = p\<rparr>
      | _ \<Rightarrow> None)"

definition band_into :: "budget_band \<Rightarrow> (string \<times> string) list \<Rightarrow> budget_band option" where
  "band_into b ms =
     (case (field_into ''ID'' dec_string ms (bb_ID b), field_into ''Label'' dec_string ms (bb_Label b),
            field_into ''MinCents'' (dec_int 32) ms (bb_MinCents b), field_into ''MaxCents'' (dec_int 32) ms (bb_MaxCents b),
            field_into ''Currency'' dec_string ms (bb_Currency b)) of
        (Some i, Some l, Some n, Some x, Some u) \<Rightarrow>
          Some \<lparr>bb_ID = i, bb_Label = l, bb_MinCents = n, bb_MaxCents = x, bb_Currency = u\<rparr>
      | _ \<Rightarrow> None)"

definition zero_holiday :: holiday where
  "zero_holiday = \<lparr>ho_ID = [], ho_Name = [], ho_DateRule = [], ho_Region = [], ho_Tags = [], ho_Active = False\<rparr>"

definition zero_category :: category where
  "zero_category = \<lparr>ct_ID = [], ct_Name = [], ct_Kind = [], ct_ParentID = []\<rparr>"

definition zero_band :: budget_band where
  "zero_band = \<lparr>bb_ID = [], bb_Label = [], bb_MinCents = 0, bb_MaxCents = 0, bb_Currency = []\<rparr>"

definition holidays_of_text :: "string \<Rightarrow> holiday list option" where
  "holidays_of_text t = dec_list (dec_struct holiday_into) zero_holiday [] t"

definition payload_tree :: "category list \<times> budget_band list \<Rightarrow> json_tree" where
  "payload_tree p = JTObj [(''Categories'', rows_tree category_tree (fst p)), (''Bands'', rows_tree band_tree (snd p))]"

definition payload_into ::
  "category list \<times> budget_band list \<Rightarrow> (string \<times> string) list \<Rightarrow> (category list \<times> budget_band list) option" where
  "payload_into p ms =
     (case (field_into ''Categories'' (dec_list (dec_struct category_into) zero_category) ms (fst p),
            field_into ''Bands'' (dec_list (dec_struct band_into) zero_band) ms (snd p)) of
        (Some cs, Some bs) \<Rightarrow> Some (cs, bs)
      | _ \<Rightarrow> None)"

definition payload_of_text :: "string \<Rightarrow> (category list \<times> budget_band list) option" where
  "payload_of_text t = dec_struct payload_into ([], []) t"

section \<open>Embedders (internal/embedding)\<close>

text \<open>An embedder with a state of its own; \<open>em_Embed\<close> fails or yields one vector per text.\<close>

record ('f, 'e) embedder =
  em_Embed :: "string list \<Rightarrow> 'e \<Rightarrow> (unit + 'f list list) \<times> 'e"
  em_Model :: string
  em_Dimension :: int

text \<open>\<open>fake.go\<close>: \<open>vector dim text\<close> is the unit vector drawn from the generator seeded with the FNV-1a hash.\<close>

definition NewFake :: "(int \<Rightarrow> string \<Rightarrow> 'f list) \<Rightarrow> string \<Rightarrow> int \<Rightarrow> ('f, 'e) embedder" where
  "NewFake vector model dim =
     \<lparr>em_Embed = (\<lambda>texts e. (Inr (map (vector dim) texts), e)), em_Model = model, em_Dimension = dim\<rparr>"

text \<open>\<open>http.go\<close>: an endpoint takes the API key and the body and answers with a status and a body, or not
  at all; \<open>f32\<close> reads a number as a float32, none when it is out of range.\<close>

type_synonym 'e embed_http = "string \<Rightarrow> string \<Rightarrow> string \<Rightarrow> 'e \<Rightarrow> (int \<times> string) option \<times> 'e"

definition dec_f32 :: "(string \<Rightarrow> 'f option) \<Rightarrow> 'f json_dec" where
  "dec_f32 f32 acc t =
     (case json_parse t of Some (JNum n) \<Rightarrow> f32 n | Some JNull \<Rightarrow> Some acc | _ \<Rightarrow> None)"

definition embed_request :: "string \<Rightarrow> string list \<Rightarrow> json_tree" where
  "embed_request model texts = JTObj [(''model'', JTStr model), (''input'', JTArr (map JTStr texts))]"

text \<open>The vectors of the field \<open>data\<close> of the response; \<open>Decode\<close> reads one value.\<close>

definition embed_response :: "(string \<Rightarrow> 'f option) \<Rightarrow> 'f \<Rightarrow> string \<Rightarrow> 'f list list option" where
  "embed_response f32 zero body =
     (case json_first body of
        Some JNull \<Rightarrow> Some []
      | Some (JObj ms) \<Rightarrow>
          field_into ''data'' (dec_list (dec_struct (\<lambda>v m. field_into ''embedding'' (dec_list (dec_f32 f32) zero) m v)) []) ms []
      | _ \<Rightarrow> None)"

definition http_Embed ::
  "'e embed_http \<Rightarrow> (string \<Rightarrow> 'f option) \<Rightarrow> 'f \<Rightarrow> string \<Rightarrow> string \<Rightarrow> string \<Rightarrow> int \<Rightarrow> string list \<Rightarrow> 'e \<Rightarrow>
   (unit + 'f list list) \<times> 'e" where
  "http_Embed http f32 zero endpoint model key dim texts e =
     (if texts = [] then (Inr [], e)
      else
        let (r, e1) = http endpoint (if key = [] then [] else ''Bearer '' @ key) (json_text (embed_request model texts)) e in
        (case r of
           None \<Rightarrow> Inl ()
         | Some (code, body) \<Rightarrow>
             (if code \<noteq> 200 then Inl ()
              else case embed_response f32 zero body of
                None \<Rightarrow> Inl ()
              | Some vs \<Rightarrow>
                  (if length vs \<noteq> length texts \<or> (\<exists>v \<in> set vs. int (length v) \<noteq> dim) then Inl () else Inr vs)), e1))"

definition NewHTTPClient ::
  "'e embed_http \<Rightarrow> (string \<Rightarrow> 'f option) \<Rightarrow> 'f \<Rightarrow> string \<Rightarrow> string \<Rightarrow> string \<Rightarrow> int \<Rightarrow> ('f, 'e) embedder" where
  "NewHTTPClient http f32 zero endpoint model key dim =
     \<lparr>em_Embed = http_Embed http f32 zero endpoint model key dim, em_Model = model, em_Dimension = dim\<rparr>"

definition embedding_New ::
  "(int \<Rightarrow> string \<Rightarrow> 'f list) \<Rightarrow> 'e embed_http \<Rightarrow> (string \<Rightarrow> 'f option) \<Rightarrow> 'f \<Rightarrow>
   string \<Rightarrow> int \<Rightarrow> string \<Rightarrow> string \<Rightarrow> ('f, 'e) embedder option" where
  "embedding_New vector http f32 zero model dim endpoint key =
     (if dim \<le> 0 \<or> model = [] then None
      else if endpoint = [] then Some (NewFake vector model dim)
      else Some (NewHTTPClient http f32 zero endpoint model key dim))"

section \<open>Wire types and mappings (mapping.go)\<close>

datatype date_rule_pb = DATE_RULE_UNSPECIFIED | DATE_RULE_FIXED | DATE_RULE_RELATIVE

datatype category_kind_pb = CATEGORY_KIND_UNSPECIFIED | CATEGORY_KIND_GIFT | CATEGORY_KIND_DATE

record holiday_pb =
  hpb_id :: string
  hpb_name :: string
  hpb_date_rule :: date_rule_pb
  hpb_region :: string
  hpb_tags :: "string list"
  hpb_active :: bool

record category_pb =
  cpb_id :: string
  cpb_name :: string
  cpb_kind :: category_kind_pb
  cpb_parent_id :: string

definition dateRuleToProto :: "string \<Rightarrow> date_rule_pb" where
  "dateRuleToProto s =
     (if s = ''fixed'' then DATE_RULE_FIXED else if s = ''relative'' then DATE_RULE_RELATIVE else DATE_RULE_UNSPECIFIED)"

definition kindToProto :: "string \<Rightarrow> category_kind_pb" where
  "kindToProto s =
     (if s = ''gift'' then CATEGORY_KIND_GIFT else if s = ''date'' then CATEGORY_KIND_DATE else CATEGORY_KIND_UNSPECIFIED)"

definition kindFromProto :: "category_kind_pb \<Rightarrow> string" where
  "kindFromProto k =
     (case k of CATEGORY_KIND_GIFT \<Rightarrow> ''gift'' | CATEGORY_KIND_DATE \<Rightarrow> ''date'' | CATEGORY_KIND_UNSPECIFIED \<Rightarrow> [])"

definition holidayToProto :: "holiday \<Rightarrow> holiday_pb" where
  "holidayToProto h =
     \<lparr>hpb_id = ho_ID h, hpb_name = ho_Name h, hpb_date_rule = dateRuleToProto (ho_DateRule h),
      hpb_region = ho_Region h, hpb_tags = ho_Tags h, hpb_active = ho_Active h\<rparr>"

definition categoryToProto :: "category \<Rightarrow> category_pb" where
  "categoryToProto c =
     \<lparr>cpb_id = ct_ID c, cpb_name = ct_Name c, cpb_kind = kindToProto (ct_Kind c), cpb_parent_id = ct_ParentID c\<rparr>"

text \<open>A band and a snippet have the same fields on the wire.\<close>

definition bandToProto :: "budget_band \<Rightarrow> budget_band" where
  "bandToProto b = b"

definition snippetToProto :: "'d snippet \<Rightarrow> 'd snippet" where
  "snippetToProto s = s"

section \<open>The server (catalog_server.go)\<close>

record catalog_tuning =
  tu_ReferenceCacheTTL :: duration
  tu_DefaultTopK :: int
  tu_MaxTopK :: int

record ('f, 'v, 'd, 'e) catalog_server =
  cs_funs :: "('f, 'v, 'd) catalog_funs"
  cs_embedder :: "('f, 'e) embedder"
  cs_tune :: catalog_tuning

text \<open>\<open>cw_cache\<close> is \<open>None\<close> when the server runs without a cache.\<close>

record ('v, 'e) catalog_world =
  cw_pg :: "'v catalog_pg"
  cw_cache :: "ref_cache option"
  cw_em :: 'e

definition catalog_NewServer ::
  "('f, 'v, 'd) catalog_funs \<Rightarrow> ('f, 'e) embedder \<Rightarrow> catalog_tuning \<Rightarrow> ('f, 'v, 'd, 'e) catalog_server" where
  "catalog_NewServer cf em tu =
     \<lparr>cs_funs = cf, cs_embedder = em,
      cs_tune = \<lparr>tu_ReferenceCacheTTL = (if tu_ReferenceCacheTTL tu \<le> 0 then 3600 * ns_per_sec else tu_ReferenceCacheTTL tu),
                 tu_DefaultTopK = (if tu_DefaultTopK tu \<le> 0 then 8 else tu_DefaultTopK tu),
                 tu_MaxTopK = (if tu_MaxTopK tu \<le> 0 then 50 else tu_MaxTopK tu)\<rparr>\<rparr>"

text \<open>\<open>cacheGet\<close>: any error is a miss.\<close>

definition cacheGet ::
  "string \<Rightarrow> (string \<Rightarrow> 'a option) \<Rightarrow> time \<Rightarrow> ('v, 'e) catalog_world \<Rightarrow> 'a option \<times> ('v, 'e) catalog_world" where
  "cacheGet key dec now w =
     (case cw_cache w of
        None \<Rightarrow> (None, w)
      | Some c \<Rightarrow>
          (let (r, c1) = GetJSON key dec now c in
           (case r of Inl _ \<Rightarrow> None | Inr h \<Rightarrow> h, w\<lparr>cw_cache := Some c1\<rparr>)))"

definition cacheSet ::
  "('f, 'v, 'd, 'e) catalog_server \<Rightarrow> string \<Rightarrow> json_tree \<Rightarrow> time \<Rightarrow> ('v, 'e) catalog_world \<Rightarrow> ('v, 'e) catalog_world" where
  "cacheSet sv key v now w =
     (case cw_cache w of
        None \<Rightarrow> w
      | Some c \<Rightarrow> w\<lparr>cw_cache := Some (snd (SetJSON key v (tu_ReferenceCacheTTL (cs_tune sv)) now c))\<rparr>)"

definition activeKey :: "bool option \<Rightarrow> string" where
  "activeKey a = (case a of None \<Rightarrow> ''any'' | Some True \<Rightarrow> ''true'' | Some False \<Rightarrow> ''false'')"

definition holidays_key :: "holiday_filter \<Rightarrow> string" where
  "holidays_key f = ''holidays:'' @ hf_Region f @ '':'' @ activeKey (hf_Active f) @ '':'' @ hf_OnOrAfter f"

text \<open>The instants of a call: when it reads the cache, when it reads the store and when it writes the cache.\<close>

record catalog_ctx =
  cc_now :: time
  cc_read :: time
  cc_now2 :: time

definition ListHolidays ::
  "('f, 'v, 'd, 'e) catalog_server \<Rightarrow> catalog_ctx \<Rightarrow> holiday_filter \<Rightarrow> ('v, 'e) catalog_world \<Rightarrow>
   (grpc_code + holiday_pb list) \<times> ('v, 'e) catalog_world" where
  "ListHolidays sv cx f w =
     (let (hit, w1) = cacheGet (holidays_key f) holidays_of_text (cc_now cx) w in
      case hit of
        Some hs \<Rightarrow> (Inr (map holidayToProto hs), w1)
      | None \<Rightarrow>
          (let (r, p) = cpg_ListHolidays (cs_funs sv) f (cw_pg w1); w2 = w1\<lparr>cw_pg := p\<rparr> in
           case r of
             Inl _ \<Rightarrow> (Inl Internal, w2)
           | Inr hs \<Rightarrow>
               (Inr (map holidayToProto hs), cacheSet sv (holidays_key f) (rows_tree holiday_tree hs) (cc_now2 cx) w2)))"

definition categories_key :: "string \<Rightarrow> string" where
  "categories_key kind = ''categories:'' @ kind"

definition payloadToProto :: "category list \<times> budget_band list \<Rightarrow> category_pb list \<times> budget_band list" where
  "payloadToProto p = (map categoryToProto (fst p), map bandToProto (snd p))"

definition GetCategories ::
  "('f, 'v, 'd, 'e) catalog_server \<Rightarrow> catalog_ctx \<Rightarrow> category_kind_pb \<Rightarrow> ('v, 'e) catalog_world \<Rightarrow>
   (grpc_code + category_pb list \<times> budget_band list) \<times> ('v, 'e) catalog_world" where
  "GetCategories sv cx k w =
     (let kind = kindFromProto k; key = categories_key kind;
          (hit, w1) = cacheGet key payload_of_text (cc_now cx) w in
      case hit of
        Some p \<Rightarrow> (Inr (payloadToProto p), w1)
      | None \<Rightarrow>
          (let (r, pg) = cpg_GetCategories (cs_funs sv) kind (cw_pg w1); w2 = w1\<lparr>cw_pg := pg\<rparr> in
           case r of
             Inl _ \<Rightarrow> (Inl Internal, w2)
           | Inr p \<Rightarrow>
               (Inr (payloadToProto p), cacheSet sv key (payload_tree p) (cc_now2 cx) w2)))"

text \<open>\<open>top_k\<close> is an int32; filters are optional.\<close>

record 'f search_request =
  sq_query_text :: string
  sq_query_embedding :: "'f list"
  sq_top_k :: int
  sq_filters :: "search_filter option"

definition topK_of :: "catalog_tuning \<Rightarrow> int \<Rightarrow> int" where
  "topK_of tu k = (let k1 = (if k \<le> 0 then tu_DefaultTopK tu else k) in if tu_MaxTopK tu < k1 then tu_MaxTopK tu else k1)"

definition filter_of :: "search_filter option \<Rightarrow> search_filter" where
  "filter_of fp = (case fp of None \<Rightarrow> \<lparr>sf_CategoryID = [], sf_BudgetBandID = []\<rparr> | Some f \<Rightarrow> f)"

text \<open>The vector of a single text.\<close>

definition embed_one ::
  "('f, 'v, 'd, 'e) catalog_server \<Rightarrow> string \<Rightarrow> ('v, 'e) catalog_world \<Rightarrow> (grpc_code + 'f list) \<times> ('v, 'e) catalog_world" where
  "embed_one sv text w =
     (let (r, e) = em_Embed (cs_embedder sv) [text] (cw_em w); w1 = w\<lparr>cw_em := e\<rparr> in
      (case r of
         Inl _ \<Rightarrow> Inl Unavailable
       | Inr vs \<Rightarrow> (if length vs \<noteq> 1 then Inl Internal else Inr (hd vs)), w1))"

text \<open>The vector to search for: exactly one of the text and the embedding must be given.\<close>

definition query_vector ::
  "('f, 'v, 'd, 'e) catalog_server \<Rightarrow> 'f search_request \<Rightarrow> ('v, 'e) catalog_world \<Rightarrow>
   (grpc_code + 'f list) \<times> ('v, 'e) catalog_world" where
  "query_vector sv rq w =
     (let text = sq_query_text rq; given = sq_query_embedding rq in
      if text = [] \<and> given = [] then (Inl InvalidArgument, w)
      else if text \<noteq> [] \<and> given \<noteq> [] then (Inl InvalidArgument, w)
      else if given \<noteq> [] then
        (if int (length given) \<noteq> em_Dimension (cs_embedder sv) then Inl InvalidArgument else Inr given, w)
      else embed_one sv text w)"

definition SearchInspiration ::
  "('f, 'v, 'd :: linorder, 'e) catalog_server \<Rightarrow> 'f search_request \<Rightarrow> ('v, 'e) catalog_world \<Rightarrow>
   (grpc_code + 'd snippet list) \<times> ('v, 'e) catalog_world" where
  "SearchInspiration sv rq w =
     (let (q, w1) = query_vector sv rq w in
      case q of
        Inl c \<Rightarrow> (Inl c, w1)
      | Inr vec \<Rightarrow>
          (let (r, p) = cpg_SearchInspiration (cs_funs sv) vec (filter_of (sq_filters rq))
                          (topK_of (cs_tune sv) (sq_top_k rq)) (cw_pg w1);
               w2 = w1\<lparr>cw_pg := p\<rparr> in
           case r of Inl _ \<Rightarrow> (Inl Internal, w2) | Inr sns \<Rightarrow> (Inr (map snippetToProto sns), w2)))"

definition embedText :: "string \<Rightarrow> string \<Rightarrow> string" where
  "embedText title body = title @ [CHR 0x0A] @ body"

text \<open>\<open>pages\<close> is what the scan of the invalidation returns, \<open>now\<close> the clock of the database.\<close>

definition UpsertInspiration ::
  "('f, 'v, 'd, 'e) catalog_server \<Rightarrow> time \<Rightarrow> string list list \<Rightarrow> inspiration option \<Rightarrow> ('v, 'e) catalog_world \<Rightarrow>
   (grpc_code + string) \<times> ('v, 'e) catalog_world" where
  "UpsertInspiration sv now pages insp w =
     (case insp of
        None \<Rightarrow> (Inl InvalidArgument, w)
      | Some x \<Rightarrow>
          (if ins_Title x = [] \<or> ins_Body x = [] then (Inl InvalidArgument, w)
           else
             let (q, w1) = embed_one sv (embedText (ins_Title x) (ins_Body x)) w in
             case q of
               Inl c \<Rightarrow> (Inl c, w1)
             | Inr vec \<Rightarrow>
                 (let (r, p) = cpg_UpsertInspiration (cs_funs sv) x vec now (cw_pg w1); w2 = w1\<lparr>cw_pg := p\<rparr> in
                  case r of
                    Inl _ \<Rightarrow> (Inl Internal, w2)
                  | Inr i \<Rightarrow>
                      (Inr i, (case cw_cache w2 of
                         None \<Rightarrow> w2
                       | Some c \<Rightarrow> w2\<lparr>cw_cache := Some (snd (Invalidate pages c))\<rparr>)))))"

end
