(* ===== verification/Catalog_Spec.thy ===== *)
theory Catalog_Spec
  imports Catalog_Server "HOL-Library.Multiset"
begin

text \<open>
  What the Catalog service promises: an expiring cache as an interface and its interpretation on the
  reference cache, the cached payloads read back, the freshness of reference reads, and the ranking of
  the corpus search.
\<close>

section \<open>Expiring caches\<close>

text \<open>
  \<open>entry\<close> is what a key holds and when it expires. A lookup that is no hit yields nothing, whether the
  key is missing or the cache fails; a store may be lost.
\<close>

locale expiring_cache =
  fixes entry :: "'c \<Rightarrow> string \<Rightarrow> (string \<times> time option) option"
    and fetch :: "string \<Rightarrow> time \<Rightarrow> 'c \<Rightarrow> string option \<times> 'c"
    and store :: "string \<Rightarrow> string \<Rightarrow> duration \<Rightarrow> time \<Rightarrow> 'c \<Rightarrow> 'c"
  assumes fetch_hit: "fetch k now c = (Some t, c') \<Longrightarrow> \<exists>e. entry c k = Some (t, e) \<and> (\<forall>x. e = Some x \<longrightarrow> now < x)"
    and fetch_frame: "fetch k now c = (r, c') \<Longrightarrow> entry c' = entry c"
    and store_entry: "entry (store k t ttl now c) k' = Some (t', e) \<Longrightarrow>
      entry c k' = Some (t', e) \<or> k' = k \<and> t' = t \<and> (\<exists>x. e = Some x \<and> x \<le> now + ttl)"
begin

text \<open>What holds of all entries and of what is stored holds of every hit.\<close>

definition all_entries :: "(string \<Rightarrow> string \<Rightarrow> time option \<Rightarrow> bool) \<Rightarrow> 'c \<Rightarrow> bool" where
  "all_entries P c \<longleftrightarrow> (\<forall>k t e. entry c k = Some (t, e) \<longrightarrow> P k t e)"

lemma entries_fetch: "fetch k now c = (r, c') \<Longrightarrow> all_entries P c \<Longrightarrow> all_entries P c'"
  by (simp add: all_entries_def fetch_frame)

lemma entries_store:
  "all_entries P c \<Longrightarrow> (\<And>x. x \<le> now + ttl \<Longrightarrow> P k t (Some x)) \<Longrightarrow> all_entries P (store k t ttl now c)"
  unfolding all_entries_def using store_entry by blast

lemma entries_hit: "fetch k now c = (Some t, c') \<Longrightarrow> all_entries P c \<Longrightarrow> \<exists>e. P k t e \<and> (\<forall>x. e = Some x \<longrightarrow> now < x)"
  unfolding all_entries_def using fetch_hit by blast

lemma entries_mono: "all_entries P c \<Longrightarrow> (\<And>k t e. P k t e \<Longrightarrow> Q k t e) \<Longrightarrow> all_entries Q c"
  unfolding all_entries_def by blast

end

definition ref_entry :: "ref_cache \<Rightarrow> string \<Rightarrow> (string \<times> time option) option" where
  "ref_entry c k = (case vk_keys c (refPrefix @ k) of Some (Val t, e) \<Rightarrow> Some (t, e) | _ \<Rightarrow> None)"

definition ref_fetch :: "string \<Rightarrow> time \<Rightarrow> ref_cache \<Rightarrow> string option \<times> ref_cache" where
  "ref_fetch k now c =
     (let (r, c1) = GetJSON k Some now c in (case r of Inl _ \<Rightarrow> None | Inr h \<Rightarrow> h, c1))"

definition ref_store :: "string \<Rightarrow> string \<Rightarrow> duration \<Rightarrow> time \<Rightarrow> ref_cache \<Rightarrow> ref_cache" where
  "ref_store k t ttl now c = snd (vk_SETEX (refPrefix @ k) t (ttl div ns_per_sec) now c)"

lemma secs_le: "ttl div ns_per_sec * ns_per_sec \<le> ttl"
  using div_mult_mod_eq [of ttl ns_per_sec] pos_mod_sign [of ns_per_sec ttl] by (simp add: ns_per_sec_def)

lemma ref_fetch_GET:
  "ref_fetch k now c = (r, c') \<Longrightarrow> \<exists>g. vk_GET (refPrefix @ k) now c = (g, c') \<and> (\<forall>t. r = Some t \<longrightarrow> g = Inr (Some t))"
  by (auto simp: ref_fetch_def GetJSON_def split: prod.splits sum.splits option.splits)

lemma vk_live_Val: "vk_live c now k = Some (Val t) \<Longrightarrow>
    \<exists>e. vk_keys c k = Some (Val t, e) \<and> (\<forall>x. e = Some x \<longrightarrow> now < x)"
  by (auto simp: vk_live_def split: option.splits prod.splits if_splits)

interpretation refs: expiring_cache ref_entry ref_fetch ref_store
proof
  fix k now and c c' :: ref_cache and t
  assume "ref_fetch k now c = (Some t, c')"
  then obtain g where g: "vk_GET (refPrefix @ k) now c = (g, c')" "g = Inr (Some t)" using ref_fetch_GET by blast
  then have "vk_live c now (refPrefix @ k) = Some (Val t)" using vk_GET_Some by fastforce
  from vk_live_Val [OF this] show "\<exists>e. ref_entry c k = Some (t, e) \<and> (\<forall>x. e = Some x \<longrightarrow> now < x)"
    by (auto simp: ref_entry_def)
next
  fix k now and c c' :: ref_cache and r
  assume "ref_fetch k now c = (r, c')"
  then obtain g where "vk_GET (refPrefix @ k) now c = (g, c')" using ref_fetch_GET by blast
  then show "ref_entry c' = ref_entry c" by (auto simp: ref_entry_def vk_GET_keys fun_eq_iff)
next
  fix k t ttl now k' t' e and c :: ref_cache
  assume a: "ref_entry (ref_store k t ttl now c) k' = Some (t', e)"
  obtain r c' where s: "vk_SETEX (refPrefix @ k) t (ttl div ns_per_sec) now c = (r, c')" by fastforce
  have "vk_keys c' = vk_keys c \<or>
      vk_keys c' = (vk_keys c)(refPrefix @ k \<mapsto> (Val t, Some (now + ttl div ns_per_sec * ns_per_sec)))"
    using s by (auto simp: vk_SETEX_def vk_tick_def split: prod.splits if_splits)
  moreover have "vk_keys (ref_store k t ttl now c) = vk_keys c'" by (simp add: ref_store_def s)
  ultimately show "ref_entry c k' = Some (t', e) \<or> k' = k \<and> t' = t \<and> (\<exists>x. e = Some x \<and> x \<le> now + ttl)"
    using a secs_le [of ttl] by (auto simp: ref_entry_def split: if_splits)
qed

section \<open>Cached payloads are read back\<close>

definition utf8_holiday :: "holiday \<Rightarrow> bool" where
  "utf8_holiday h \<longleftrightarrow> utf8_text (ho_ID h) \<and> utf8_text (ho_Name h) \<and> utf8_text (ho_DateRule h) \<and>
     utf8_text (ho_Region h) \<and> list_all utf8_text (ho_Tags h)"

definition utf8_category :: "category \<Rightarrow> bool" where
  "utf8_category c \<longleftrightarrow> utf8_text (ct_ID c) \<and> utf8_text (ct_Name c) \<and> utf8_text (ct_Kind c) \<and> utf8_text (ct_ParentID c)"

definition int32 :: "int \<Rightarrow> bool" where
  "int32 i \<longleftrightarrow> - (2 ^ 31) \<le> i \<and> i < 2 ^ 31"

definition utf8_band :: "budget_band \<Rightarrow> bool" where
  "utf8_band b \<longleftrightarrow> utf8_text (bb_ID b) \<and> utf8_text (bb_Label b) \<and> utf8_text (bb_Currency b) \<and>
     int32 (bb_MinCents b) \<and> int32 (bb_MaxCents b)"

lemma payload_names:
  "fold_name ''ID'' = ''id''" "fold_name ''Name'' = ''name''" "fold_name ''DateRule'' = ''daterule''"
  "fold_name ''Region'' = ''region''" "fold_name ''Tags'' = ''tags''" "fold_name ''Active'' = ''active''"
  "fold_name ''Kind'' = ''kind''" "fold_name ''ParentID'' = ''parentid''" "fold_name ''Label'' = ''label''"
  "fold_name ''MinCents'' = ''mincents''" "fold_name ''MaxCents'' = ''maxcents''" "fold_name ''Currency'' = ''currency''"
  "fold_name ''Categories'' = ''categories''" "fold_name ''Bands'' = ''bands''"
  by code_simp+

lemma payload_keys:
  "coerce_utf8 ''ID'' = ''ID''" "coerce_utf8 ''Name'' = ''Name''" "coerce_utf8 ''DateRule'' = ''DateRule''"
  "coerce_utf8 ''Region'' = ''Region''" "coerce_utf8 ''Tags'' = ''Tags''" "coerce_utf8 ''Active'' = ''Active''"
  "coerce_utf8 ''Kind'' = ''Kind''" "coerce_utf8 ''ParentID'' = ''ParentID''" "coerce_utf8 ''Label'' = ''Label''"
  "coerce_utf8 ''MinCents'' = ''MinCents''" "coerce_utf8 ''MaxCents'' = ''MaxCents''" "coerce_utf8 ''Currency'' = ''Currency''"
  "coerce_utf8 ''Categories'' = ''Categories''" "coerce_utf8 ''Bands'' = ''Bands''"
  by code_simp+

lemma flat_holiday: "flat 2 (holiday_tree h)"
proof -
  have "flat (Suc 0) (JTArr (map JTStr (ho_Tags h)))" by (rule flat_arr) auto
  then have "flat (Suc (Suc 0)) (holiday_tree h)"
    unfolding holiday_tree_def by (intro flat_obj) auto
  then show ?thesis by (simp add: numeral_2_eq_2)
qed

lemma flat_category: "flat 1 (category_tree c)"
  unfolding category_tree_def One_nat_def by (rule flat_obj) auto

lemma flat_band: "flat 1 (band_tree b)"
  unfolding band_tree_def One_nat_def by (rule flat_obj) auto

lemma flat_rows: "\<forall>x. flat n (f x) \<Longrightarrow> flat (Suc n) (rows_tree f xs)"
  unfolding rows_tree_def using flat_arr [of "map f xs" n] by auto

lemmas field_eval = names_def payload_names dec_own_string dec_own_bool dec_own_strings

lemma dec_own_holiday:
  assumes "utf8_holiday h"
  shows "dec_struct holiday_into z (json_text (holiday_tree h)) = Some h"
  using assms parse_text [OF flat_shallow [OF flat_holiday [of h]]]
  by (simp add: dec_struct_def holiday_tree_def payload_keys holiday_into_def field_eval utf8_holiday_def
    del: json_text.simps fold_name.simps)

lemma dec_own_category:
  assumes "utf8_category c"
  shows "dec_struct category_into z (json_text (category_tree c)) = Some c"
  using assms parse_text [OF flat_shallow [OF flat_category [of c]]]
  by (simp add: dec_struct_def category_tree_def payload_keys category_into_def field_eval utf8_category_def
    del: json_text.simps fold_name.simps)

lemma dec_own_int32: "int32 i \<Longrightarrow> dec_int 32 a (json_text (JTInt i)) = Some i"
  by (rule dec_own_int) (simp_all add: int32_def)

lemma dec_own_band:
  assumes "utf8_band b"
  shows "dec_struct band_into z (json_text (band_tree b)) = Some b"
  using assms parse_text [OF flat_shallow [OF flat_band [of b]]]
  by (simp add: dec_struct_def band_tree_def payload_keys band_into_def field_eval utf8_band_def dec_own_int32
    del: json_text.simps fold_name.simps)

lemma dec_own_rows:
  assumes "\<forall>x. flat 2 (f x)" and "\<forall>x \<in> set xs. \<forall>a. dec a (json_text (f x)) = Some x"
  shows "dec_list dec z acc (json_text (rows_tree f xs)) = Some xs"
proof (cases "xs = []")
  case True
  then show ?thesis by (simp add: rows_tree_def dec_own_null_list del: json_text.simps)
next
  case False
  have "flat 3 (JTArr (map f xs))" using flat_arr [of "map f xs" 2] assms(1) by (simp add: eval_nat_numeral)
  then have "dec_list dec z acc (json_text (JTArr (map f xs))) = Some xs"
    using assms(2) by (intro dec_own_list flat_shallow) auto
  with False show ?thesis by (simp add: rows_tree_def)
qed

lemma holidays_read_back: "list_all utf8_holiday hs \<Longrightarrow> holidays_of_text (json_text (rows_tree holiday_tree hs)) = Some hs"
  unfolding holidays_of_text_def by (rule dec_own_rows) (auto simp: flat_holiday dec_own_holiday list_all_iff)

lemma payload_read_back:
  assumes "list_all utf8_category (fst p)" and "list_all utf8_band (snd p)"
  shows "payload_of_text (json_text (payload_tree p)) = Some p"
proof -
  have f: "flat 3 (rows_tree category_tree (fst p))" "flat 3 (rows_tree band_tree (snd p))"
    using flat_rows [of 2 category_tree] flat_rows [of 2 band_tree] flat_mono [OF flat_category, of 2] flat_mono [OF flat_band, of 2]
    by (simp_all add: eval_nat_numeral)
  have "flat (Suc 3) (payload_tree p)" unfolding payload_tree_def using f by (intro flat_obj) auto
  then have "json_parse (json_text (payload_tree p)) = Some (json_view (payload_tree p))"
    by (intro parse_text flat_shallow [where n = "Suc 3"]) auto
  moreover have "dec_list (dec_struct category_into) zero_category acc (json_text (rows_tree category_tree (fst p))) = Some (fst p)" for acc
    using assms(1) flat_mono [OF flat_category, of 2] by (intro dec_own_rows) (auto simp: dec_own_category list_all_iff)
  moreover have "dec_list (dec_struct band_into) zero_band acc (json_text (rows_tree band_tree (snd p))) = Some (snd p)" for acc
    using assms(2) flat_mono [OF flat_band, of 2] by (intro dec_own_rows) (auto simp: dec_own_band list_all_iff)
  ultimately show ?thesis
    by (simp add: payload_of_text_def dec_struct_def payload_tree_def payload_keys payload_into_def names_def payload_names
      del: json_text.simps fold_name.simps)
qed

section \<open>Runs of the service\<close>

datatype 'f catalog_event =
    CatList catalog_ctx holiday_filter
  | CatCats catalog_ctx category_kind_pb
  | CatSearch "'f search_request"
  | CatUpsert time "string list list" "inspiration option"
  | CatTables "holiday_row list" "category_row list" "budget_band list"

text \<open>\<open>CatTables\<close> is a change of the reference tables from outside the service.\<close>

fun catalog_step ::
  "('f, 'v, 'd :: linorder, 'e) catalog_server \<Rightarrow> 'f catalog_event \<Rightarrow> ('v, 'e) catalog_world \<Rightarrow> ('v, 'e) catalog_world" where
  "catalog_step sv (CatList cx f) w = snd (ListHolidays sv cx f w)"
| "catalog_step sv (CatCats cx k) w = snd (GetCategories sv cx k w)"
| "catalog_step sv (CatSearch rq) w = snd (SearchInspiration sv rq w)"
| "catalog_step sv (CatUpsert now pages x) w = snd (UpsertInspiration sv now pages x w)"
| "catalog_step sv (CatTables hs cs bs) w =
     w\<lparr>cw_pg := (cw_pg w)\<lparr>cpg_holidays := hs, cpg_categories := cs, cpg_bands := bs\<rparr>\<rparr>"

type_synonym ref_tables = "holiday_row list \<times> category_row list \<times> budget_band list"

definition tables_of :: "('v, 'e) catalog_world \<Rightarrow> ref_tables" where
  "tables_of w = (cpg_holidays (cw_pg w), cpg_categories (cw_pg w), cpg_bands (cw_pg w))"

text \<open>The reference tables at the instants of the reference reads of a run.\<close>

fun catalog_moments ::
  "('f, 'v, 'd :: linorder, 'e) catalog_server \<Rightarrow> 'f catalog_event list \<Rightarrow> ('v, 'e) catalog_world \<Rightarrow> (time \<times> ref_tables) list" where
  "catalog_moments sv [] w = []"
| "catalog_moments sv (e # es) w =
     (case e of CatList cx f \<Rightarrow> [(cc_read cx, tables_of w)] | CatCats cx k \<Rightarrow> [(cc_read cx, tables_of w)] | _ \<Rightarrow> []) @
     catalog_moments sv es (catalog_step sv e w)"

definition catalog_run ::
  "('f, 'v, 'd :: linorder, 'e) catalog_server \<Rightarrow> 'f catalog_event list \<Rightarrow> ('v, 'e) catalog_world \<Rightarrow> ('v, 'e) catalog_world" where
  "catalog_run sv es w = fold (catalog_step sv) es w"

text \<open>Texts of Postgres are UTF-8, the clock of a call does not go back, and the cache is written within \<open>D\<close>
  of the reading of the tables.\<close>

fun utf8_tables :: "ref_tables \<Rightarrow> bool" where
  "utf8_tables (hs, cs, bs) \<longleftrightarrow>
     (\<forall>r \<in> set hs. case holiday_of_row r of None \<Rightarrow> True | Some h \<Rightarrow> utf8_holiday h) \<and>
     list_all (\<lambda>c. utf8_category (category_of_row c)) cs \<and> list_all utf8_band bs"

definition within :: "duration \<Rightarrow> catalog_ctx \<Rightarrow> bool" where
  "within D cx \<longleftrightarrow> cc_now cx \<le> cc_read cx \<and> cc_read cx \<le> cc_now2 cx \<and> cc_now2 cx \<le> cc_read cx + D"

fun plain_event :: "duration \<Rightarrow> 'f catalog_event \<Rightarrow> bool" where
  "plain_event D (CatList cx f) \<longleftrightarrow> within D cx"
| "plain_event D (CatCats cx k) \<longleftrightarrow> within D cx"
| "plain_event D (CatTables hs cs bs) \<longleftrightarrow> utf8_tables (hs, cs, bs)"
| "plain_event D _ \<longleftrightarrow> True"

text \<open>The filters that the calls of a run ask for, and the filters whose date has no colon.\<close>

definition asked :: "'f catalog_event list \<Rightarrow> holiday_filter set" where
  "asked es = {f. \<exists>cx. CatList cx f \<in> set es}"

definition plain_date :: "holiday_filter \<Rightarrow> bool" where
  "plain_date f \<longleftrightarrow> CHR '':'' \<notin> set (hf_OnOrAfter f)"

definition reference_payload :: "('f, 'v, 'd) catalog_funs \<Rightarrow> string \<Rightarrow> ref_tables \<Rightarrow> category list \<times> budget_band list" where
  "reference_payload cf kind T = (categories_query cf kind (fst (snd T)), sort_key bb_MinCents (snd (snd T)))"

text \<open>An entry of the cache was right, for one of the filters \<open>F\<close> that has its key, at a moment at most \<open>ttl\<close>
  before it expires.\<close>

definition ref_ok ::
  "('f, 'v, 'd) catalog_funs \<Rightarrow> duration \<Rightarrow> (time \<times> ref_tables) set \<Rightarrow> holiday_filter set \<Rightarrow> string \<Rightarrow> string \<Rightarrow> time option \<Rightarrow> bool" where
  "ref_ok cf ttl M F k t e \<longleftrightarrow>
     (\<exists>m T x. (m, T) \<in> M \<and> utf8_tables T \<and> e = Some x \<and> x \<le> m + ttl \<and>
       ((\<exists>f hs. f \<in> F \<and> k = holidays_key f \<and> holidays_query cf f (fst T) = Some hs \<and>
           t = json_text (rows_tree holiday_tree hs)) \<or>
        (\<exists>kind. k = categories_key kind \<and> t = json_text (payload_tree (reference_payload cf kind T)))))"

text \<open>The tables had a property at a moment less than a lifetime before \<open>now\<close>.\<close>

definition fresh :: "(time \<times> ref_tables) set \<Rightarrow> time \<Rightarrow> duration \<Rightarrow> (ref_tables \<Rightarrow> bool) \<Rightarrow> bool" where
  "fresh M now ttl P \<longleftrightarrow> (\<exists>(m, T) \<in> M. now < m + ttl \<and> P T)"

lemma freshI: "(m, T) \<in> M \<Longrightarrow> now < m + ttl \<Longrightarrow> P T \<Longrightarrow> fresh M now ttl P"
  unfolding fresh_def by blast

lemma ref_ok_mono: "ref_ok cf ttl M F k t e \<Longrightarrow> M \<subseteq> M' \<Longrightarrow> F \<subseteq> F' \<Longrightarrow> ref_ok cf ttl M' F' k t e"
  unfolding ref_ok_def by blast

lemma last_sep: "c \<notin> set o1 \<Longrightarrow> c \<notin> set o2 \<Longrightarrow> x1 @ c # o1 = x2 @ c # o2 \<Longrightarrow> x1 = x2 \<and> o1 = o2"
proof -
  assume a: "c \<notin> set o1" "c \<notin> set o2" "x1 @ c # o1 = x2 @ c # o2"
  have t: "takeWhile (\<lambda>y. y \<noteq> c) (rev (x @ c # o')) = rev o'" if "c \<notin> set o'" for x o'
    using that by (auto simp: takeWhile_append)
  have "rev o1 = rev o2" using t [OF a(1), of x1] t [OF a(2), of x2] a(3) by simp
  with a(3) show ?thesis by simp
qed

lemma activeKey_inj: "activeKey a = activeKey b \<longleftrightarrow> a = b"
  by (auto simp: activeKey_def split: option.splits bool.splits)

lemma holidays_key_inj:
  assumes "holidays_key f = holidays_key g" and "plain_date f" and "plain_date g"
  shows "f = g"
proof -
  have "(hf_Region f @ '':'' @ activeKey (hf_Active f)) @ CHR '':'' # hf_OnOrAfter f =
      (hf_Region g @ '':'' @ activeKey (hf_Active g)) @ CHR '':'' # hf_OnOrAfter g"
    using assms(1) by (simp add: holidays_key_def)
  from last_sep [OF _ _ this] assms(2,3)
  have 1: "hf_Region f @ CHR '':'' # activeKey (hf_Active f) = hf_Region g @ CHR '':'' # activeKey (hf_Active g)"
    and 2: "hf_OnOrAfter f = hf_OnOrAfter g" by (auto simp: plain_date_def)
  have "CHR '':'' \<notin> set (activeKey a)" for a by (auto simp: activeKey_def split: option.splits bool.splits)
  from last_sep [OF this this 1] 2 show ?thesis by (simp add: activeKey_inj)
qed

lemma query_utf8: "holidays_query cf f H = Some hs \<Longrightarrow> utf8_tables (H, C, B) \<Longrightarrow> list_all utf8_holiday hs"
proof -
  assume q: "holidays_query cf f H = Some hs" and u: "utf8_tables (H, C, B)"
  have t: "those (map g rows) = Some xs \<Longrightarrow> \<forall>x \<in> set xs. \<exists>r \<in> set rows. g r = Some x" for g :: "holiday_row \<Rightarrow> holiday option" and rows xs
  proof (induction rows arbitrary: xs)
    case (Cons r rows)
    then obtain y ys where "g r = Some y" "those (map g rows) = Some ys" "xs = y # ys"
      by (auto split: option.splits)
    with Cons.IH [of ys] show ?case by auto
  qed simp
  from t [OF q [unfolded holidays_query_def]] u show ?thesis
    by (fastforce simp: list_all_iff split: option.splits)
qed

lemma payload_utf8:
  "utf8_tables T \<Longrightarrow> list_all utf8_category (fst (reference_payload cf kind T)) \<and> list_all utf8_band (snd (reference_payload cf kind T))"
  by (cases T) (auto simp: reference_payload_def categories_query_def list_all_iff)

section \<open>The reference reads use the cache through its interface\<close>

lemma GetJSON_fetch:
  assumes "GetJSON key dec now c = (r, c1)"
  shows "\<exists>t. ref_fetch key now c = (t, c1) \<and> (\<forall>x. r = Inr (Some x) \<longrightarrow> (\<exists>s. t = Some s \<and> dec s = Some x))"
  using assms by (auto simp: ref_fetch_def GetJSON_def split: prod.splits sum.splits option.splits)

definition cache_ok :: "(string \<Rightarrow> string \<Rightarrow> time option \<Rightarrow> bool) \<Rightarrow> ('v, 'e) catalog_world \<Rightarrow> bool" where
  "cache_ok P w \<longleftrightarrow> (\<forall>c. cw_cache w = Some c \<longrightarrow> refs.all_entries P c)"

lemma cacheGet_ok:
  assumes "cacheGet key dec now w = (hit, w1)" and "cache_ok P w"
  shows "cache_ok P w1 \<and> cw_pg w1 = cw_pg w \<and>
    (\<forall>x. hit = Some x \<longrightarrow> (\<exists>t e. P key t e \<and> dec t = Some x \<and> (\<forall>y. e = Some y \<longrightarrow> now < y)))"
proof (cases "cw_cache w")
  case None
  then show ?thesis using assms by (auto simp: cacheGet_def)
next
  case (Some c)
  obtain r c1 where g: "GetJSON key dec now c = (r, c1)" by fastforce
  obtain t where t: "ref_fetch key now c = (t, c1)" "\<forall>x. r = Inr (Some x) \<longrightarrow> (\<exists>s. t = Some s \<and> dec s = Some x)"
    using GetJSON_fetch [OF g] by metis
  have a: "refs.all_entries P c" using assms(2) Some by (simp add: cache_ok_def)
  have w1: "w1 = w\<lparr>cw_cache := Some c1\<rparr>" and h: "hit = (case r of Inl _ \<Rightarrow> None | Inr h \<Rightarrow> h)"
    using assms(1) by (auto simp: cacheGet_def Some g split: sum.splits)
  have "\<exists>t e. P key t e \<and> dec t = Some x \<and> (\<forall>y. e = Some y \<longrightarrow> now < y)" if "hit = Some x" for x
  proof -
    from h that have "r = Inr (Some x)" by (cases r) auto
    with t(2) obtain s where s: "t = Some s" "dec s = Some x" by blast
    from refs.entries_hit [OF t(1) [unfolded s(1)] a] s(2) show ?thesis by blast
  qed
  then show ?thesis using refs.entries_fetch [OF t(1) a] by (simp add: w1 cache_ok_def)
qed

lemma cacheSet_ok:
  assumes "cache_ok P w" and "json_ok v" and "\<forall>x. x \<le> now + tu_ReferenceCacheTTL (cs_tune sv) \<longrightarrow> P key (json_text v) (Some x)"
  shows "cache_ok P (cacheSet sv key v now w)" and "cw_pg (cacheSet sv key v now w) = cw_pg w"
proof -
  show "cache_ok P (cacheSet sv key v now w)"
  proof (cases "cw_cache w")
    case None
    then show ?thesis using assms(1) by (simp add: cacheSet_def)
  next
    case (Some c)
    let ?ttl = "tu_ReferenceCacheTTL (cs_tune sv)"
    have "snd (SetJSON key v ?ttl now c) = ref_store key (json_text v) ?ttl now c"
      using assms(2) by (simp add: SetJSON_def json_Marshal_def ref_store_def split: prod.split)
    moreover have "refs.all_entries P (ref_store key (json_text v) ?ttl now c)"
    proof (rule refs.entries_store)
      show "refs.all_entries P c" using assms(1) Some by (simp add: cache_ok_def)
    next
      fix x assume "x \<le> now + ?ttl"
      then show "P key (json_text v) (Some x)" using assms(3) by simp
    qed
    ultimately show ?thesis by (simp add: cacheSet_def cache_ok_def Some)
  qed
  show "cw_pg (cacheSet sv key v now w) = cw_pg w" by (simp add: cacheSet_def split: option.splits)
qed

lemma Invalidate_entries: "ref_entry (snd (Invalidate pages c)) k = Some x \<Longrightarrow> ref_entry c k = Some x"
proof (induction pages c rule: Invalidate.induct)
  case (1 c)
  then show ?case by simp
next
  case (2 keys pages c)
  obtain f c1 where t1: "vk_tick c = (f, c1)" by fastforce
  obtain f2 c2 where t2: "vk_tick c1 = (f2, c2)" by fastforce
  define ks where "ks = filter (prefix refPrefix) keys"
  define c3 where "c3 = c2\<lparr>vk_keys := (\<lambda>k. if k \<in> set ks then None else vk_keys c2 k)\<rparr>"
  have u: "Invalidate (keys # pages) c =
      (if f then (Inl (), c1) else if ks = [] then Invalidate pages c1
       else if f2 then (Inl (), c2) else Invalidate pages c3)"
    by (simp only: Invalidate.simps t1 t2 ks_def c3_def Let_def prod.case)
  have same: "ref_entry c2 k = ref_entry c k" "ref_entry c1 k = ref_entry c k"
    using vk_tick_eq [OF t1] vk_tick_eq [OF t2] by (simp_all add: ref_entry_def)
  have less: "ref_entry c3 k = Some x \<Longrightarrow> ref_entry c2 k = Some x"
    by (auto simp: ref_entry_def c3_def split: if_splits)
  have ih1: "\<not> f \<Longrightarrow> ks = [] \<Longrightarrow> ref_entry (snd (Invalidate pages c1)) k = Some x \<Longrightarrow> ref_entry c1 k = Some x"
    by (rule "2.IH"(1) [OF refl t1 [symmetric] _ ks_def])
  have ih2: "\<not> f \<Longrightarrow> ks \<noteq> [] \<Longrightarrow> \<not> f2 \<Longrightarrow> ref_entry (snd (Invalidate pages c3)) k = Some x \<Longrightarrow> ref_entry c3 k = Some x"
    unfolding c3_def by (rule "2.IH"(2) [OF refl t1 [symmetric] _ ks_def _ refl t2 [symmetric]])
  consider "f" | "\<not> f" "ks = []" | "\<not> f" "ks \<noteq> []" "f2" | "\<not> f" "ks \<noteq> []" "\<not> f2" by blast
  then show ?case
  proof cases
    case 1
    then show ?thesis using "2.prems" [unfolded u] same by simp
  next
    case 2
    then show ?thesis using "2.prems" [unfolded u] same ih1 by simp
  next
    case 3
    then show ?thesis using "2.prems" [unfolded u] same by simp
  next
    case 4
    then show ?thesis using "2.prems" [unfolded u] same ih2 less by simp
  qed
qed

lemma cpg_tick_tables: "cpg_tick s = (f, s') \<Longrightarrow>
    cpg_holidays s' = cpg_holidays s \<and> cpg_categories s' = cpg_categories s \<and> cpg_bands s' = cpg_bands s"
  by (auto simp: cpg_tick_def split: prod.splits)

lemma ListHolidays_store:
  assumes "cpg_ListHolidays cf f s = (r, s')"
  shows "cpg_holidays s' = cpg_holidays s \<and> cpg_categories s' = cpg_categories s \<and> cpg_bands s' = cpg_bands s \<and>
    (\<forall>hs. r = Inr hs \<longrightarrow> holidays_query cf f (cpg_holidays s) = Some hs)"
  using guarded_cases [OF assms [unfolded cpg_ListHolidays_def]]
  by (auto dest!: cpg_tick_tables split: option.splits)

lemma GetCategories_store:
  assumes "cpg_GetCategories cf kind s = (r, s')"
  shows "cpg_holidays s' = cpg_holidays s \<and> cpg_categories s' = cpg_categories s \<and> cpg_bands s' = cpg_bands s \<and>
    (\<forall>p. r = Inr p \<longrightarrow> p = (categories_query cf kind (cpg_categories s), sort_key bb_MinCents (cpg_bands s)))"
  using guarded_cases [OF assms [unfolded cpg_GetCategories_def]]
  by (auto dest!: cpg_tick_tables guarded_cases)

lemma tables_of_cong: "cw_pg w = cw_pg w' \<Longrightarrow> tables_of w = tables_of w'"
  by (simp add: tables_of_def)

lemma category_key_not_holidays: "categories_key k \<noteq> holidays_key f"
  by (simp add: holidays_key_def categories_key_def)

lemma categories_key_inj: "categories_key k = categories_key k' \<longleftrightarrow> k = k'"
  by (simp add: categories_key_def)

lemma ref_ok_holidays:
  assumes "ref_ok cf ttl M F (holidays_key f) t e"
  shows "\<exists>m T x g hs. (m, T) \<in> M \<and> utf8_tables T \<and> e = Some x \<and> x \<le> m + ttl \<and> g \<in> F \<and> holidays_key g = holidays_key f \<and>
    holidays_query cf g (fst T) = Some hs \<and> t = json_text (rows_tree holiday_tree hs)"
proof -
  from assms(1) [unfolded ref_ok_def] obtain m T x where mT: "(m, T) \<in> M" "utf8_tables T" "e = Some x" "x \<le> m + ttl"
    and d: "(\<exists>g hs. g \<in> F \<and> holidays_key f = holidays_key g \<and> holidays_query cf g (fst T) = Some hs \<and>
        t = json_text (rows_tree holiday_tree hs)) \<or>
      (\<exists>kind. holidays_key f = categories_key kind \<and> t = json_text (payload_tree (reference_payload cf kind T)))"
    by (elim exE conjE) rule
  from d obtain g hs where "g \<in> F" "holidays_key f = holidays_key g" "holidays_query cf g (fst T) = Some hs"
    "t = json_text (rows_tree holiday_tree hs)"
    using category_key_not_holidays by (metis (no_types, lifting))
  with mT show ?thesis by metis
qed

lemma ref_ok_payload:
  assumes "ref_ok cf ttl M F (categories_key kind) t e"
  shows "\<exists>m T x. (m, T) \<in> M \<and> utf8_tables T \<and> e = Some x \<and> x \<le> m + ttl \<and>
    t = json_text (payload_tree (reference_payload cf kind T))"
proof -
  from assms [unfolded ref_ok_def] obtain m T x where mT: "(m, T) \<in> M" "utf8_tables T" "e = Some x" "x \<le> m + ttl"
    and d: "(\<exists>g hs. g \<in> F \<and> categories_key kind = holidays_key g \<and> holidays_query cf g (fst T) = Some hs \<and>
        t = json_text (rows_tree holiday_tree hs)) \<or>
      (\<exists>kind'. categories_key kind = categories_key kind' \<and> t = json_text (payload_tree (reference_payload cf kind' T)))"
    by (elim exE conjE) rule
  from d have "t = json_text (payload_tree (reference_payload cf kind T))"
    using category_key_not_holidays categories_key_inj by (metis (no_types, lifting))
  with mT show ?thesis by blast
qed

text \<open>A reference read: what it answers was right at a moment less than a lifetime ago.\<close>

lemma ListHolidays_effect:
  assumes "ListHolidays sv cx f w = (r, w')" and "cache_ok (ref_ok (cs_funs sv) (tu_ReferenceCacheTTL (cs_tune sv) + D) M F) w"
    and "(cc_read cx, tables_of w) \<in> M" and "utf8_tables (tables_of w)" and "f \<in> F"
    and "within D cx" and "0 < tu_ReferenceCacheTTL (cs_tune sv)"
  shows "cache_ok (ref_ok (cs_funs sv) (tu_ReferenceCacheTTL (cs_tune sv) + D) M F) w' \<and> tables_of w' = tables_of w \<and>
    (\<forall>out. r = Inr out \<longrightarrow> fresh M (cc_now cx) (tu_ReferenceCacheTTL (cs_tune sv) + D)
       (\<lambda>T. \<exists>g \<in> F. holidays_key g = holidays_key f \<and> map_option (map holidayToProto) (holidays_query (cs_funs sv) g (fst T)) = Some out))"
proof -
  let ?cf = "cs_funs sv" and ?ttl = "tu_ReferenceCacheTTL (cs_tune sv) + D"
  obtain hit w1 where g: "cacheGet (holidays_key f) holidays_of_text (cc_now cx) w = (hit, w1)" by fastforce
  note h = cacheGet_ok [OF g assms(2)]
  show ?thesis
  proof (cases hit)
    case (Some hs)
    from h [THEN conjunct2, THEN conjunct2, rule_format, OF Some] obtain t e where
      te: "ref_ok ?cf ?ttl M F (holidays_key f) t e" "holidays_of_text t = Some hs" "\<forall>y. e = Some y \<longrightarrow> cc_now cx < y"
      by (elim exE conjE) rule
    from ref_ok_holidays [OF te(1)] te(3) obtain m T g hs' where
      m: "(m, T) \<in> M" "utf8_tables T" "cc_now cx < m + ?ttl" "holidays_query ?cf g (fst T) = Some hs'"
        "t = json_text (rows_tree holiday_tree hs')" "g \<in> F" "holidays_key g = holidays_key f"
      by (elim exE conjE) (simp add: order.strict_trans2)
    have "list_all utf8_holiday hs'" using query_utf8 [OF m(4)] m(2) by (cases T) auto
    then have hs: "hs' = hs" using holidays_read_back [of hs'] te(2) unfolding m(5) by simp
    have "fresh M (cc_now cx) ?ttl (\<lambda>T. \<exists>g \<in> F. holidays_key g = holidays_key f \<and>
        map_option (map holidayToProto) (holidays_query ?cf g (fst T)) = Some (map holidayToProto hs))"
      using m(4,6,7) by (intro freshI [OF m(1,3)] bexI [of _ g]) (simp_all add: hs)
    moreover have "r = Inr (map holidayToProto hs)" "w' = w1" using assms(1) by (simp_all add: ListHolidays_def g Some)
    ultimately show ?thesis using h tables_of_cong [of w1 w] by simp
  next
    case None
    obtain q p where l: "cpg_ListHolidays ?cf f (cw_pg w1) = (q, p)" by fastforce
    let ?w2 = "w1\<lparr>cw_pg := p\<rparr>"
    note s = ListHolidays_store [OF l]
    have T: "tables_of ?w2 = tables_of w" using s h by (simp add: tables_of_def)
    have ok: "cache_ok (ref_ok ?cf ?ttl M F) ?w2" using h by (simp add: cache_ok_def)
    show ?thesis
    proof (cases q)
      case (Inl e)
      then have "r = Inl Internal \<and> w' = ?w2" using assms(1) by (simp add: ListHolidays_def g None l)
      with ok T show ?thesis by simp
    next
      case (Inr hs)
      then have rw: "r = Inr (map holidayToProto hs)"
        "w' = cacheSet sv (holidays_key f) (rows_tree holiday_tree hs) (cc_now2 cx) ?w2"
        using assms(1) by (simp_all add: ListHolidays_def g None l)
      have q: "holidays_query ?cf f (fst (tables_of w)) = Some hs" using s Inr h by (simp add: tables_of_def)
      have "json_ok (rows_tree holiday_tree hs)" using flat_rows [of 2 holiday_tree hs] flat_holiday by (simp add: flat_def)
      moreover have "\<forall>x. x \<le> cc_now2 cx + tu_ReferenceCacheTTL (cs_tune sv) \<longrightarrow> ref_ok ?cf ?ttl M F (holidays_key f) (json_text (rows_tree holiday_tree hs)) (Some x)"
      proof (intro allI impI)
        fix x assume "x \<le> cc_now2 cx + tu_ReferenceCacheTTL (cs_tune sv)"
        then have "x \<le> cc_read cx + ?ttl" using assms(6) by (simp add: within_def)
        then show "ref_ok ?cf ?ttl M F (holidays_key f) (json_text (rows_tree holiday_tree hs)) (Some x)"
          unfolding ref_ok_def using assms(3,4,5) q by blast
      qed
      ultimately have "cache_ok (ref_ok ?cf ?ttl M F) w'" "cw_pg w' = p" using cacheSet_ok [OF ok] rw(2) by simp_all
      moreover have "fresh M (cc_now cx) ?ttl (\<lambda>T. \<exists>g \<in> F. holidays_key g = holidays_key f \<and>
          map_option (map holidayToProto) (holidays_query ?cf g (fst T)) = Some (map holidayToProto hs))"
        using q assms(5-7) by (intro freshI [OF assms(3)] bexI [of _ f]) (simp_all add: within_def)
      ultimately show ?thesis using rw(1) T tables_of_cong [of w' ?w2] by simp
    qed
  qed
qed

lemma GetCategories_effect:
  assumes "GetCategories sv cx k w = (r, w')" and "cache_ok (ref_ok (cs_funs sv) (tu_ReferenceCacheTTL (cs_tune sv) + D) M F) w"
    and "(cc_read cx, tables_of w) \<in> M" and "utf8_tables (tables_of w)"
    and "within D cx" and "0 < tu_ReferenceCacheTTL (cs_tune sv)"
  shows "cache_ok (ref_ok (cs_funs sv) (tu_ReferenceCacheTTL (cs_tune sv) + D) M F) w' \<and> tables_of w' = tables_of w \<and>
    (\<forall>out. r = Inr out \<longrightarrow> fresh M (cc_now cx) (tu_ReferenceCacheTTL (cs_tune sv) + D)
       (\<lambda>T. payloadToProto (reference_payload (cs_funs sv) (kindFromProto k) T) = out))"
proof -
  let ?cf = "cs_funs sv" and ?ttl = "tu_ReferenceCacheTTL (cs_tune sv) + D" and ?kind = "kindFromProto k"
  let ?key = "categories_key ?kind"
  obtain hit w1 where g: "cacheGet ?key payload_of_text (cc_now cx) w = (hit, w1)" by fastforce
  note h = cacheGet_ok [OF g assms(2)]
  show ?thesis
  proof (cases hit)
    case (Some p)
    from h [THEN conjunct2, THEN conjunct2, rule_format, OF Some] obtain t e where
      te: "ref_ok ?cf ?ttl M F ?key t e" "payload_of_text t = Some p" "\<forall>y. e = Some y \<longrightarrow> cc_now cx < y"
      by (elim exE conjE) rule
    from ref_ok_payload [OF te(1)] te(3) obtain m T where
      m: "(m, T) \<in> M" "utf8_tables T" "cc_now cx < m + ?ttl" "t = json_text (payload_tree (reference_payload ?cf ?kind T))"
      by (elim exE conjE) (simp add: order.strict_trans2)
    have "reference_payload ?cf ?kind T = p"
      using payload_read_back [of "reference_payload ?cf ?kind T"] payload_utf8 [OF m(2), of ?cf ?kind] te(2) unfolding m(4) by simp
    then have "fresh M (cc_now cx) ?ttl (\<lambda>T. payloadToProto (reference_payload ?cf ?kind T) = payloadToProto p)"
      by (intro freshI [OF m(1,3)]) simp
    moreover have "r = Inr (payloadToProto p)" "w' = w1"
      using assms(1) g Some by (simp_all add: GetCategories_def Let_def)
    ultimately show ?thesis using h tables_of_cong [of w1 w] by simp
  next
    case None
    obtain q pg where l: "cpg_GetCategories ?cf ?kind (cw_pg w1) = (q, pg)" by fastforce
    let ?w2 = "w1\<lparr>cw_pg := pg\<rparr>"
    note s = GetCategories_store [OF l]
    have T: "tables_of ?w2 = tables_of w" using s h by (simp add: tables_of_def)
    have ok: "cache_ok (ref_ok ?cf ?ttl M F) ?w2" using h by (simp add: cache_ok_def)
    show ?thesis
    proof (cases q)
      case (Inl e)
      then have "r = Inl Internal \<and> w' = ?w2" using assms(1) g None l by (simp add: GetCategories_def Let_def)
      with ok T show ?thesis by simp
    next
      case (Inr p)
      then have rw: "r = Inr (payloadToProto p)" "w' = cacheSet sv ?key (payload_tree p) (cc_now2 cx) ?w2"
        using assms(1) g None l by (simp_all add: GetCategories_def Let_def)
      have p: "p = reference_payload ?cf ?kind (tables_of w)"
        using s Inr h by (simp add: tables_of_def reference_payload_def)
      have "flat 3 (rows_tree category_tree (fst p))" "flat 3 (rows_tree band_tree (snd p))"
        using flat_rows [of 2 category_tree] flat_rows [of 2 band_tree] flat_mono [OF flat_category, of 2] flat_mono [OF flat_band, of 2]
        by (simp_all add: eval_nat_numeral)
      then have "json_ok (payload_tree p)" by (simp add: payload_tree_def flat_def)
      moreover have "\<forall>x. x \<le> cc_now2 cx + tu_ReferenceCacheTTL (cs_tune sv) \<longrightarrow> ref_ok ?cf ?ttl M F ?key (json_text (payload_tree p)) (Some x)"
      proof (intro allI impI)
        fix x assume "x \<le> cc_now2 cx + tu_ReferenceCacheTTL (cs_tune sv)"
        then have "x \<le> cc_read cx + ?ttl" using assms(5) by (simp add: within_def)
        then show "ref_ok ?cf ?ttl M F ?key (json_text (payload_tree p)) (Some x)"
          unfolding ref_ok_def p using assms(3,4) by blast
      qed
      ultimately have "cache_ok (ref_ok ?cf ?ttl M F) w'" "cw_pg w' = pg" using cacheSet_ok [OF ok] rw(2) by simp_all
      moreover have "fresh M (cc_now cx) ?ttl (\<lambda>T. payloadToProto (reference_payload ?cf ?kind T) = payloadToProto p)"
        using assms(5,6) p by (intro freshI [OF assms(3)]) (simp_all add: within_def)
      ultimately show ?thesis using rw(1) T tables_of_cong [of w' ?w2] by simp
    qed
  qed
qed

lemma embed_one_frame: "embed_one sv x w = (q, w1) \<Longrightarrow> cw_pg w1 = cw_pg w \<and> cw_cache w1 = cw_cache w"
  by (auto simp: embed_one_def Let_def split: prod.splits)

lemma cpg_SearchInspiration_frame:
  assumes "cpg_SearchInspiration cf emb f k s = (r, s')"
  shows "cpg_holidays s' = cpg_holidays s \<and> cpg_categories s' = cpg_categories s \<and> cpg_bands s' = cpg_bands s"
  using guarded_cases [OF assms [unfolded cpg_SearchInspiration_def]] by (auto dest: cpg_tick_tables)

lemma query_vector_frame: "query_vector sv rq w = (q, w1) \<Longrightarrow> cw_pg w1 = cw_pg w \<and> cw_cache w1 = cw_cache w"
  by (auto simp: query_vector_def Let_def dest: embed_one_frame split: if_splits)

text \<open>A search either fails before it reaches the store, or is a query of the store.\<close>

lemma SearchInspiration_cases:
  assumes "SearchInspiration sv rq w = (r, w')"
  obtains (refused) c where "query_vector sv rq w = (Inl c, w')" "r = Inl c"
  | (searched) vec w1 o' p where "query_vector sv rq w = (Inr vec, w1)"
      "cpg_SearchInspiration (cs_funs sv) vec (filter_of (sq_filters rq)) (topK_of (cs_tune sv) (sq_top_k rq)) (cw_pg w) = (o', p)"
      "w' = w1\<lparr>cw_pg := p\<rparr>" "r = (case o' of Inl _ \<Rightarrow> Inl Internal | Inr sns \<Rightarrow> Inr (map snippetToProto sns))"
proof -
  obtain q w1 where q: "query_vector sv rq w = (q, w1)" by fastforce
  show thesis
  proof (cases q)
    case (Inl c)
    then show thesis using assms q refused by (simp add: SearchInspiration_def)
  next
    case (Inr vec)
    obtain o' p where p: "cpg_SearchInspiration (cs_funs sv) vec (filter_of (sq_filters rq))
        (topK_of (cs_tune sv) (sq_top_k rq)) (cw_pg w) = (o', p)" by fastforce
    with assms query_vector_frame [OF q] have "w' = w1\<lparr>cw_pg := p\<rparr>"
      "r = (case o' of Inl _ \<Rightarrow> Inl Internal | Inr sns \<Rightarrow> Inr (map snippetToProto sns))"
      by (cases o'; simp add: SearchInspiration_def q Inr)+
    with searched q Inr p show thesis by blast
  qed
qed

lemma SearchInspiration_frame:
  assumes "SearchInspiration sv rq w = (r, w')"
  shows "cw_cache w' = cw_cache w \<and> tables_of w' = tables_of w"
  using assms
proof (cases rule: SearchInspiration_cases)
  case (refused c)
  then show ?thesis using query_vector_frame [OF refused(1)] by (simp add: tables_of_def)
next
  case (searched vec w1 o' p)
  then show ?thesis using query_vector_frame [OF searched(1)] cpg_SearchInspiration_frame [OF searched(2)]
    by (simp add: tables_of_def)
qed

lemma cpg_uuid_frame: "cpg_uuid s = (i, s') \<Longrightarrow> cpg_holidays s' = cpg_holidays s \<and> cpg_categories s' = cpg_categories s \<and>
    cpg_bands s' = cpg_bands s \<and> cpg_inspiration s' = cpg_inspiration s"
  by (auto simp: cpg_uuid_def split: list.splits)

lemma cpg_Upsert_cases:
  assumes "cpg_UpsertInspiration cf x emb now s = (r, s')"
  shows "cpg_holidays s' = cpg_holidays s \<and> cpg_categories s' = cpg_categories s \<and> cpg_bands s' = cpg_bands s \<and>
    (\<forall>rid. r = Inr rid \<longrightarrow> (\<exists>i row. upsert_row cf x emb now = Some (i, row) \<and>
       cpg_inspiration s' = put_row (row rid) (cpg_inspiration s)))"
proof -
  have tk: "cpg_tick s = (f, t) \<Longrightarrow> cpg_inspiration t = cpg_inspiration s" for f t
    by (auto simp: cpg_tick_def split: prod.splits)
  from guarded_cases [OF assms [unfolded cpg_UpsertInspiration_def]]
  consider "cpg_tick s = (True, s')" "r = Inl ()"
    | "cpg_tick s = (False, s')" "r = Inl ()"
    | t i row where "cpg_tick s = (False, t)" "upsert_row cf x emb now = Some (i, row)"
        "(let (rid, s1) = (case i of None \<Rightarrow> cpg_uuid t | Some rid \<Rightarrow> (rid, t)) in
             (Inr rid, s1\<lparr>cpg_inspiration := put_row (row rid) (cpg_inspiration s1)\<rparr>)) = (r, s')"
    by (cases "upsert_row cf x emb now") auto
  then show ?thesis
  proof cases
    case 1
    then show ?thesis using cpg_tick_tables by blast
  next
    case 2
    then show ?thesis using cpg_tick_tables by blast
  next
    case 3
    obtain rid s1 where s1: "(case i of None \<Rightarrow> cpg_uuid t | Some rid \<Rightarrow> (rid, t)) = (rid, s1)" by fastforce
    then have "cpg_holidays s1 = cpg_holidays t \<and> cpg_categories s1 = cpg_categories t \<and>
        cpg_bands s1 = cpg_bands t \<and> cpg_inspiration s1 = cpg_inspiration t"
      using cpg_uuid_frame by (cases i) auto
    then show ?thesis using 3 cpg_tick_tables [OF 3(1)] tk [OF 3(1)] by (auto simp: s1)
  qed
qed

lemma UpsertInspiration_frame:
  assumes "UpsertInspiration sv now pages x w = (r, w')" and "cache_ok P w"
  shows "cache_ok P w' \<and> tables_of w' = tables_of w"
proof (cases x)
  case None
  then show ?thesis using assms by (simp add: UpsertInspiration_def)
next
  case (Some y)
  obtain q w1 where q: "embed_one sv (embedText (ins_Title y) (ins_Body y)) w = (q, w1)" by fastforce
  have i: "refs.all_entries P c \<Longrightarrow> refs.all_entries P (snd (Invalidate pages c))" for c
    unfolding refs.all_entries_def using Invalidate_entries by blast
  show ?thesis
  proof (cases q)
    case (Inl c)
    then show ?thesis using assms embed_one_frame [OF q]
      by (auto simp: UpsertInspiration_def Some q cache_ok_def tables_of_def split: if_splits)
  next
    case (Inr vec)
    obtain o' p where p: "cpg_UpsertInspiration (cs_funs sv) y vec now (cw_pg w1) = (o', p)" by fastforce
    have t: "tables_of (w1\<lparr>cw_pg := p\<rparr>) = tables_of w" "cw_cache w1 = cw_cache w"
      using cpg_Upsert_cases [OF p] embed_one_frame [OF q] by (simp_all add: tables_of_def)
    have "w' = w \<or> cw_cache w' = cw_cache w \<and> tables_of w' = tables_of w \<or>
        (\<exists>c. cw_cache w = Some c \<and> cw_cache w' = Some (snd (Invalidate pages c)) \<and> tables_of w' = tables_of w)"
      using assms(1) t
      by (auto simp: UpsertInspiration_def Some q Inr p Let_def tables_of_def split: if_splits sum.splits option.splits)
    then show ?thesis using assms(2) i by (auto simp: cache_ok_def)
  qed
qed

section \<open>Reference reads are fresh\<close>

lemma NewServer_sel:
  assumes "sv = catalog_NewServer cf em tu"
  shows "cs_funs sv = cf" "cs_embedder sv = em" "0 < tu_ReferenceCacheTTL (cs_tune sv)"
    "0 < tu_DefaultTopK (cs_tune sv)" "0 < tu_MaxTopK (cs_tune sv)"
  by (simp_all add: assms catalog_NewServer_def ns_per_sec_def)

lemma catalog_moments_append:
  "catalog_moments sv (es @ es') w = catalog_moments sv es w @ catalog_moments sv es' (catalog_run sv es w)"
  by (induction es arbitrary: w) (simp_all add: catalog_run_def)

lemma cache_ok_mono: "cache_ok (ref_ok cf ttl M F) w \<Longrightarrow> M \<subseteq> M' \<Longrightarrow> F \<subseteq> F' \<Longrightarrow> cache_ok (ref_ok cf ttl M' F') w"
  unfolding cache_ok_def using refs.entries_mono ref_ok_mono by blast

lemma catalog_step_ok:
  assumes "cache_ok (ref_ok (cs_funs sv) (tu_ReferenceCacheTTL (cs_tune sv) + D) M F) w" and "utf8_tables (tables_of w)"
    and "plain_event D e" and "set (catalog_moments sv [e] w) \<subseteq> M" and "asked [e] \<subseteq> F" and "0 < tu_ReferenceCacheTTL (cs_tune sv)"
  shows "cache_ok (ref_ok (cs_funs sv) (tu_ReferenceCacheTTL (cs_tune sv) + D) M F) (catalog_step sv e w) \<and>
    utf8_tables (tables_of (catalog_step sv e w))"
proof (cases e)
  case (CatList cx f)
  obtain r w' where c: "ListHolidays sv cx f w = (r, w')" by fastforce
  from ListHolidays_effect [OF c assms(1)] assms(2-6) show ?thesis by (simp add: CatList c asked_def)
next
  case (CatCats cx k)
  obtain r w' where c: "GetCategories sv cx k w = (r, w')" by fastforce
  from GetCategories_effect [OF c assms(1)] assms(2-6) show ?thesis by (simp add: CatCats c)
next
  case (CatSearch rq)
  obtain r w' where c: "SearchInspiration sv rq w = (r, w')" by fastforce
  from SearchInspiration_frame [OF c] assms(1,2) show ?thesis by (simp add: CatSearch c cache_ok_def)
next
  case (CatUpsert now pages x)
  obtain r w' where c: "UpsertInspiration sv now pages x w = (r, w')" by fastforce
  from UpsertInspiration_frame [OF c assms(1)] assms(2) show ?thesis by (simp add: CatUpsert c)
next
  case (CatTables hs cs bs)
  then show ?thesis using assms(1,3) by (simp add: cache_ok_def tables_of_def)
qed

lemma catalog_run_ok:
  assumes "0 < tu_ReferenceCacheTTL (cs_tune sv)"
    and "\<forall>c. cw_cache w0 = Some c \<longrightarrow> vk_keys c = (\<lambda>_. None)" and "utf8_tables (tables_of w0)"
  shows "\<forall>e \<in> set es. plain_event D e \<Longrightarrow>
    cache_ok (ref_ok (cs_funs sv) (tu_ReferenceCacheTTL (cs_tune sv) + D) (set (catalog_moments sv es w0)) (asked es))
      (catalog_run sv es w0) \<and> utf8_tables (tables_of (catalog_run sv es w0))"
proof (induction es rule: rev_induct)
  case Nil
  show ?case using assms(2,3) by (simp add: catalog_run_def cache_ok_def refs.all_entries_def ref_entry_def)
next
  case (snoc e es)
  let ?w = "catalog_run sv es w0" and ?M = "set (catalog_moments sv (es @ [e]) w0)"
    and ?ttl = "tu_ReferenceCacheTTL (cs_tune sv) + D"
  have ih: "cache_ok (ref_ok (cs_funs sv) ?ttl (set (catalog_moments sv es w0)) (asked es)) ?w" "utf8_tables (tables_of ?w)"
    using snoc by simp_all
  have 1: "cache_ok (ref_ok (cs_funs sv) ?ttl ?M (asked (es @ [e]))) ?w"
    by (rule cache_ok_mono [OF ih(1)]) (auto simp: catalog_moments_append asked_def)
  have 2: "set (catalog_moments sv [e] ?w) \<subseteq> ?M" "asked [e] \<subseteq> asked (es @ [e])"
    by (auto simp: catalog_moments_append asked_def)
  have 3: "catalog_run sv (es @ [e]) w0 = catalog_step sv e ?w" by (simp add: catalog_run_def)
  show ?case unfolding 3 by (rule catalog_step_ok [OF 1 ih(2) _ 2 assms(1)]) (use snoc.prems in simp)
qed

text \<open>C11: reference reads are fresh. Over any run of the Catalog service, with any failures of the cache and
  the database and any changes of the reference tables, the categories a call answers with are exactly those
  that the tables gave at a moment of the last lifetime of the cache, and the holidays are exactly those they
  gave then for a filter that was asked for and has the cache key of the call's: for the call's own filter
  when no date asked for contains a colon. (Between reading the tables and writing the cache a call takes at
  most \<open>D\<close>, which adds to the lifetime.) A colon in a date, which is never validated, makes filters share
  a key.\<close>

theorem catalog_reads_fresh:
  assumes "sv = catalog_NewServer cf em tu"
    and "\<forall>c. cw_cache w0 = Some c \<longrightarrow> vk_keys c = (\<lambda>_. None)" and "utf8_tables (tables_of w0)"
    and "\<forall>e \<in> set es. plain_event D e" and "w = catalog_run sv es w0" and "within D cx"
  shows "(\<forall>f hs w'. ListHolidays sv cx f w = (Inr hs, w') \<longrightarrow>
      fresh (set (catalog_moments sv (es @ [CatList cx f]) w0)) (cc_now cx) (tu_ReferenceCacheTTL (cs_tune sv) + D)
        (\<lambda>T. \<exists>g \<in> insert f (asked es). holidays_key g = holidays_key f \<and>
           ((\<forall>h \<in> insert f (asked es). plain_date h) \<longrightarrow> g = f) \<and>
           map_option (map holidayToProto) (holidays_query cf g (fst T)) = Some hs)) \<and>
    (\<forall>k p w'. GetCategories sv cx k w = (Inr p, w') \<longrightarrow>
      fresh (set (catalog_moments sv (es @ [CatCats cx k]) w0)) (cc_now cx) (tu_ReferenceCacheTTL (cs_tune sv) + D)
        (\<lambda>T. payloadToProto (reference_payload cf (kindFromProto k) T) = p))"
proof -
  let ?ttl = "tu_ReferenceCacheTTL (cs_tune sv) + D"
  note sel = NewServer_sel [OF assms(1)]
  note ok = catalog_run_ok [OF sel(3) assms(2,3,4), folded assms(5)]
  have app: "set (catalog_moments sv (es @ [e]) w0) = set (catalog_moments sv es w0) \<union> set (catalog_moments sv [e] w)" for e
    by (simp only: catalog_moments_append set_append assms(5))
  have m: "cache_ok (ref_ok (cs_funs sv) ?ttl (set (catalog_moments sv (es @ [e]) w0)) (insert f (asked es))) w" for e f
    by (rule cache_ok_mono [OF ok [THEN conjunct1]]) (auto simp only: app)
  have now: "(cc_read cx, tables_of w) \<in> set (catalog_moments sv (es @ [CatList cx f]) w0)"
    "(cc_read cx, tables_of w) \<in> set (catalog_moments sv (es @ [CatCats cx k]) w0)" for f k
    unfolding app by simp_all
  show ?thesis
  proof (intro conjI allI impI)
    fix f hs w' assume c: "ListHolidays sv cx f w = (Inr hs, w')"
    from ListHolidays_effect [OF c m now(1) ok [THEN conjunct2] insertI1 assms(6) sel(3)]
    have "fresh (set (catalog_moments sv (es @ [CatList cx f]) w0)) (cc_now cx) ?ttl
        (\<lambda>T. \<exists>g \<in> insert f (asked es). holidays_key g = holidays_key f \<and>
           map_option (map holidayToProto) (holidays_query cf g (fst T)) = Some hs)"
      unfolding sel(1) by blast
    then show "fresh (set (catalog_moments sv (es @ [CatList cx f]) w0)) (cc_now cx) ?ttl
        (\<lambda>T. \<exists>g \<in> insert f (asked es). holidays_key g = holidays_key f \<and>
           ((\<forall>h \<in> insert f (asked es). plain_date h) \<longrightarrow> g = f) \<and>
           map_option (map holidayToProto) (holidays_query cf g (fst T)) = Some hs)"
      unfolding fresh_def using holidays_key_inj by fastforce
  next
    fix k p w' assume c: "GetCategories sv cx k w = (Inr p, w')"
    from GetCategories_effect [OF c m now(2) ok [THEN conjunct2] assms(6) sel(3)]
    show "fresh (set (catalog_moments sv (es @ [CatCats cx k]) w0)) (cc_now cx) ?ttl
        (\<lambda>T. payloadToProto (reference_payload cf (kindFromProto k) T) = p)"
      unfolding sel(1) by blast
  qed
qed

section \<open>The search is ranked\<close>

lemma take_sort_key:
  assumes "x \<in> set xs"
  shows "x \<in> set (take n (sort_key f xs)) \<or>
    length (take n (sort_key f xs)) = n \<and> (\<forall>y \<in> set (take n (sort_key f xs)). f y \<le> f x)"
proof (cases "x \<in> set (take n (sort_key f xs))")
  case False
  let ?s = "sort_key f xs"
  have "x \<in> set (take n ?s @ drop n ?s)" using assms by simp
  with False have d: "x \<in> set (drop n ?s)" by (simp only: set_append) blast
  then have "n < length ?s" by (cases "n < length ?s") auto
  moreover have "sorted (map f (take n ?s) @ map f (drop n ?s))"
    using sorted_sort_key [of f xs] by (simp only: map_append [symmetric] append_take_drop_id)
  ultimately show ?thesis using d by (simp add: sorted_append)
qed simp

lemma those_map_iff: "those (map f xs) = Some ys \<longleftrightarrow> list_all2 (\<lambda>x y. f x = Some y) xs ys"
  by (induction xs arbitrary: ys) (auto split: option.splits simp: list_all2_Cons1)

lemma snippet_fields: "snippet_of_row cf q r = Some sn \<Longrightarrow>
    sni_ID sn = ir_id r \<and> sni_Score sn = cf_similarity cf (cf_dist cf (ir_embedding r) q)"
  by (auto simp: snippet_of_row_def)

text \<open>What a successful query of the corpus answers.\<close>

lemma cpg_Search_ok:
  assumes "cpg_SearchInspiration cf emb f k s = (Inr sns, s')"
  shows "\<exists>q cat band. cf_vector cf (VectorLiteral cf emb) = Some q \<and> uuid_filter cf (sf_CategoryID f) = Some cat \<and>
    uuid_filter cf (sf_BudgetBandID f) = Some band \<and>
    list_all2 (\<lambda>r sn. snippet_of_row cf q r = Some sn) (nearest_rows cf q k (wanted_rows cat band (cpg_inspiration s))) sns"
proof -
  have tk: "cpg_tick s = (g, t) \<Longrightarrow> cpg_inspiration t = cpg_inspiration s" for g t
    by (auto simp: cpg_tick_def split: prod.splits)
  from guarded_cases [OF assms [unfolded cpg_SearchInspiration_def]] show ?thesis
    by (auto simp: Let_def those_map_iff tk split: option.splits if_splits)
qed

lemma nearest_rows_ranked:
  assumes "mset (cf_scan cf q W) \<subseteq># mset W"
  shows "mset (nearest_rows cf q k W) \<subseteq># mset W"
    and "sorted (map (\<lambda>r. cf_dist cf (ir_embedding r) q) (nearest_rows cf q k W))"
    and "int (length (nearest_rows cf q k W)) \<le> max 0 k"
    and "mset (cf_scan cf q W) = mset W \<Longrightarrow> r \<in> set W \<Longrightarrow> r \<in> set (nearest_rows cf q k W) \<or>
      length (nearest_rows cf q k W) = nat k \<and>
      (\<forall>x \<in> set (nearest_rows cf q k W). cf_dist cf (ir_embedding x) q \<le> cf_dist cf (ir_embedding r) q)"
proof -
  let ?s = "sort_key (\<lambda>r. cf_dist cf (ir_embedding r) q) (cf_scan cf q W)"
  have "mset (take (nat k) ?s) \<subseteq># mset ?s" by (metis append_take_drop_id mset_append mset_subset_eq_add_left)
  then show "mset (nearest_rows cf q k W) \<subseteq># mset W"
    unfolding nearest_rows_def using assms by (simp add: subset_mset.order_trans)
  show "sorted (map (\<lambda>r. cf_dist cf (ir_embedding r) q) (nearest_rows cf q k W))"
    unfolding nearest_rows_def take_map [symmetric] by (rule sorted_wrt_take) (rule sorted_sort_key)
  show "int (length (nearest_rows cf q k W)) \<le> max 0 k" by (simp add: nearest_rows_def)
  assume e: "mset (cf_scan cf q W) = mset W" and r: "r \<in> set W"
  have "r \<in> set (cf_scan cf q W)" using r mset_eq_setD [OF e] by simp
  from take_sort_key [OF this] show "r \<in> set (nearest_rows cf q k W) \<or>
      length (nearest_rows cf q k W) = nat k \<and>
      (\<forall>x \<in> set (nearest_rows cf q k W). cf_dist cf (ir_embedding x) q \<le> cf_dist cf (ir_embedding r) q)"
    unfolding nearest_rows_def .
qed

lemma topK_bounds:
  assumes "sv = catalog_NewServer cf em tu"
  shows "1 \<le> topK_of (cs_tune sv) k \<and> topK_of (cs_tune sv) k \<le> tu_MaxTopK (cs_tune sv)"
  using NewServer_sel(4,5) [OF assms] by (simp add: topK_of_def Let_def)

text \<open>C13: a successful search answers, nearest first, with snippets of distinct active rows of the
  corpus that pass the filters, at least one and at most \<open>MaxTopK\<close> being asked for. When the plan scans
  all matching rows, no row that is left out is nearer than an answered one, and none is left out before
  the limit is reached; a scan of the approximate index may leave out any.\<close>

theorem catalog_search_nearest:
  assumes "sv = catalog_NewServer cf em tu" and "\<forall>q W. mset (cf_scan cf q W) \<subseteq># mset W"
    and "SearchInspiration sv rq w = (Inr sns, w')"
  shows "\<exists>vec w1 q cat band rows. query_vector sv rq w = (Inr vec, w1) \<and> cf_vector cf (VectorLiteral cf vec) = Some q \<and>
    uuid_filter cf (sf_CategoryID (filter_of (sq_filters rq))) = Some cat \<and>
    uuid_filter cf (sf_BudgetBandID (filter_of (sq_filters rq))) = Some band \<and>
    list_all2 (\<lambda>r sn. snippet_of_row cf q r = Some sn) rows sns \<and>
    mset rows \<subseteq># mset (wanted_rows cat band (cpg_inspiration (cw_pg w))) \<and>
    sorted (map (\<lambda>r. cf_dist cf (ir_embedding r) q) rows) \<and>
    int (length rows) \<le> topK_of (cs_tune sv) (sq_top_k rq) \<and> 1 \<le> topK_of (cs_tune sv) (sq_top_k rq) \<and>
    topK_of (cs_tune sv) (sq_top_k rq) \<le> tu_MaxTopK (cs_tune sv) \<and>
    ((\<forall>W. mset (cf_scan cf q W) = mset W) \<longrightarrow> (\<forall>r \<in> set (wanted_rows cat band (cpg_inspiration (cw_pg w))).
       r \<in> set rows \<or> int (length rows) = topK_of (cs_tune sv) (sq_top_k rq) \<and>
         (\<forall>x \<in> set rows. cf_dist cf (ir_embedding x) q \<le> cf_dist cf (ir_embedding r) q)))"
  using assms(3)
proof (cases rule: SearchInspiration_cases)
  case (refused c)
  then show ?thesis by simp
next
  case (searched vec w1 o' p)
  let ?k = "topK_of (cs_tune sv) (sq_top_k rq)"
  note k = topK_bounds [OF assms(1), of "sq_top_k rq"]
  from searched(4) have o: "o' = Inr sns" by (cases o') (auto simp: snippetToProto_def [abs_def])
  from cpg_Search_ok [OF searched(2) [unfolded o NewServer_sel(1) [OF assms(1)]]]
  obtain q cat band where q: "cf_vector cf (VectorLiteral cf vec) = Some q"
    "uuid_filter cf (sf_CategoryID (filter_of (sq_filters rq))) = Some cat"
    "uuid_filter cf (sf_BudgetBandID (filter_of (sq_filters rq))) = Some band"
    "list_all2 (\<lambda>r sn. snippet_of_row cf q r = Some sn)
      (nearest_rows cf q ?k (wanted_rows cat band (cpg_inspiration (cw_pg w)))) sns"
    by blast
  note n = nearest_rows_ranked [OF spec [OF spec [OF assms(2)]], where W = "wanted_rows cat band (cpg_inspiration (cw_pg w))" and k = ?k and q = q]
  show ?thesis
  proof (intro exI conjI impI ballI)
    fix r assume e: "\<forall>W. mset (cf_scan cf q W) = mset W" and r: "r \<in> set (wanted_rows cat band (cpg_inspiration (cw_pg w)))"
    from n(4) [OF e [rule_format] r] k
    show "r \<in> set (nearest_rows cf q ?k (wanted_rows cat band (cpg_inspiration (cw_pg w)))) \<or>
        int (length (nearest_rows cf q ?k (wanted_rows cat band (cpg_inspiration (cw_pg w))))) = ?k \<and>
        (\<forall>x \<in> set (nearest_rows cf q ?k (wanted_rows cat band (cpg_inspiration (cw_pg w)))).
          cf_dist cf (ir_embedding x) q \<le> cf_dist cf (ir_embedding r) q)" by auto
  next
    show "int (length (nearest_rows cf q ?k (wanted_rows cat band (cpg_inspiration (cw_pg w))))) \<le> ?k"
      using n(3) k by simp
  qed (use searched(1) q n(1,2) k in blast)+
qed

section \<open>What was inserted is found\<close>

lemma put_row_has: "r \<in> set (put_row r rows)"
  by (auto simp: put_row_def)

lemma decodeTags_own: "list_all utf8_text ts \<Longrightarrow> decodeTags (tags_text ts) = Some ts"
proof -
  assume u: "list_all utf8_text ts"
  have "tags_text ts \<noteq> []" by (simp add: tags_text_def)
  with u show ?thesis by (simp add: decodeTags_def dec_own_strings tags_text_def del: json_text.simps)
qed

lemma upsert_row_shape:
  assumes "upsert_row cf x emb now = Some (i, row)"
  shows "\<exists>v. cf_vector cf (VectorLiteral cf emb) = Some v \<and> ir_id (row rid) = rid \<and> ir_active (row rid) = ins_Active x \<and>
    ir_embedding (row rid) = v \<and> ir_tags (row rid) = tags_text (ins_Tags x)"
  using assms by (auto simp: upsert_row_def split: option.splits if_splits)

text \<open>With an embedder that gives a text the same vector each time and an exact scan, searching for
  the text of an active inspiration that was just written finds it, unless the limit is used up by rows
  at the same least distance.\<close>

theorem catalog_upsert_found:
  assumes "sv = catalog_NewServer cf em tu" and "\<forall>q W. mset (cf_scan cf q W) = mset W"
    and "\<forall>t s. \<exists>s'. em_Embed em [t] s = (Inr [emb t], s')" and "\<forall>u v. cf_dist cf v v \<le> cf_dist cf u v"
    and "UpsertInspiration sv now pages (Some x) w = (Inr i, w1)" and "ins_Active x" and "list_all utf8_text (ins_Tags x)"
    and "rq = \<lparr>sq_query_text = embedText (ins_Title x) (ins_Body x), sq_query_embedding = [], sq_top_k = k, sq_filters = None\<rparr>"
    and "SearchInspiration sv rq w1 = (Inr sns, w2)"
  shows "i \<in> set (map sni_ID sns) \<or> int (length sns) = topK_of (cs_tune sv) k \<and>
    (\<exists>v. cf_vector cf (VectorLiteral cf (emb (sq_query_text rq))) = Some v \<and>
      (\<forall>s \<in> set sns. sni_Score s = cf_similarity cf (cf_dist cf v v)))"
proof -
  note sel = NewServer_sel [OF assms(1)]
  let ?t = "embedText (ins_Title x) (ins_Body x)"
  have e: "\<exists>w'. embed_one sv ?t u = (Inr (emb ?t), w') \<and> cw_pg w' = cw_pg u" for u :: "('b, 'd) catalog_world"
  proof -
    obtain s' where "em_Embed em [?t] (cw_em u) = (Inr [emb ?t], s')" using assms(3) by blast
    then show ?thesis by (simp add: embed_one_def sel(2))
  qed
  obtain wa where wa: "embed_one sv ?t w = (Inr (emb ?t), wa)" "cw_pg wa = cw_pg w" using e by blast
  obtain o' p where p: "cpg_UpsertInspiration cf x (emb ?t) now (cw_pg wa) = (o', p)" by fastforce
  have "ins_Title x \<noteq> [] \<and> ins_Body x \<noteq> []" using assms(5) by (auto simp: UpsertInspiration_def split: if_splits)
  then have o: "o' = Inr i" and pg: "cw_pg w1 = p"
    using assms(5) by (auto simp: UpsertInspiration_def wa(1) sel(1) p Let_def split: sum.splits option.splits)
  from cpg_Upsert_cases [OF p] o obtain j row where row: "upsert_row cf x (emb ?t) now = Some (j, row)"
    "cpg_inspiration p = put_row (row i) (cpg_inspiration (cw_pg wa))" by blast
  obtain v where v: "cf_vector cf (VectorLiteral cf (emb ?t)) = Some v" "ir_id (row i) = i" "ir_active (row i)"
    "ir_embedding (row i) = v" "ir_tags (row i) = tags_text (ins_Tags x)"
    using upsert_row_shape [OF row(1)] assms(6) by blast
  have in_w: "row i \<in> set (wanted_rows None None (cpg_inspiration (cw_pg w1)))"
    using v(3) put_row_has by (simp add: pg row(2) wanted_rows_def)
  obtain wb where wb: "embed_one sv ?t w1 = (Inr (emb ?t), wb)" using e by blast
  have "?t \<noteq> []" by (simp add: embedText_def)
  then have qv: "query_vector sv rq w1 = (Inr (emb ?t), wb)" using wb by (simp add: query_vector_def assms(8))
  from assms(9) show ?thesis
  proof (cases rule: SearchInspiration_cases)
    case (refused c)
    then show ?thesis by simp
  next
    case (searched vec w' o2 p2)
    have vec: "vec = emb ?t" using searched(1) qv by simp
    let ?k = "topK_of (cs_tune sv) k"
    from searched(4) have o2: "o2 = Inr sns" by (cases o2) (auto simp: snippetToProto_def [abs_def])
    have f: "filter_of (sq_filters rq) = \<lparr>sf_CategoryID = [], sf_BudgetBandID = []\<rparr>" "sq_top_k rq = k"
      by (simp_all add: assms(8) filter_of_def)
    from cpg_Search_ok [OF searched(2) [unfolded o2 sel(1) vec]]
    have sns: "list_all2 (\<lambda>r sn. snippet_of_row cf v r = Some sn)
        (nearest_rows cf v ?k (wanted_rows None None (cpg_inspiration (cw_pg w1)))) sns"
      by (simp add: f v(1) uuid_filter_def)
    let ?R = "nearest_rows cf v ?k (wanted_rows None None (cpg_inspiration (cw_pg w1)))"
    have "row i \<in> set ?R \<or> length ?R = nat ?k \<and> (\<forall>y \<in> set ?R. cf_dist cf (ir_embedding y) v \<le> cf_dist cf (ir_embedding (row i)) v)"
      using assms(2) in_w by (intro nearest_rows_ranked(4)) simp_all
    then show ?thesis
    proof
      assume "row i \<in> set ?R"
      then obtain n where n: "n < length ?R" "?R ! n = row i" by (auto simp: in_set_conv_nth)
      then have "snippet_of_row cf v (row i) = Some (sns ! n)" "n < length sns"
        using list_all2_nthD [OF sns n(1)] list_all2_lengthD [OF sns] by simp_all
      then show ?thesis using snippet_fields v(2) by (metis image_eqI list.set_map nth_mem)
    next
      assume a: "length ?R = nat ?k \<and> (\<forall>y \<in> set ?R. cf_dist cf (ir_embedding y) v \<le> cf_dist cf (ir_embedding (row i)) v)"
      have "sni_Score s = cf_similarity cf (cf_dist cf v v)" if s: "s \<in> set sns" for s
      proof -
        obtain n where n: "n < length sns" "sns ! n = s" using s by (auto simp: in_set_conv_nth)
        then have l: "n < length ?R" using list_all2_lengthD [OF sns] by simp
        have "cf_dist cf (ir_embedding (?R ! n)) v = cf_dist cf v v"
          using a assms(4) l v(4) by (intro antisym) (auto simp: nth_mem)
        with snippet_fields [OF list_all2_nthD [OF sns l]] n show ?thesis by simp
      qed
      moreover have "int (length sns) = ?k"
        using a list_all2_lengthD [OF sns] topK_bounds [OF assms(1), of k] by simp
      ultimately show ?thesis using v(1) by (auto simp: assms(8))
    qed
  qed
qed

section \<open>An example\<close>

text \<open>Vectors are their texts, at distance 0 from themselves and 1 from all others.\<close>

definition ex_catalog_funs :: "(int, string, int) catalog_funs" where
  "ex_catalog_funs = \<lparr>cf_uuid = Some, cf_collate = (\<lambda>s. s), cf_float = fmt_int, cf_vector = Some, cf_dim = (\<lambda>_. 1536),
     cf_dist = (\<lambda>u v. if u = v then 0 else 1), cf_similarity = (\<lambda>d. 1 - d), cf_scan = (\<lambda>_ rows. rows)\<rparr>"

definition ex_catalog :: "(int, string, int, unit) catalog_server" where
  "ex_catalog = catalog_NewServer ex_catalog_funs (NewFake (\<lambda>_ t. [int (length t)]) ''m'' 1)
     \<lparr>tu_ReferenceCacheTTL = 0, tu_DefaultTopK = 0, tu_MaxTopK = 0\<rparr>"

definition ex_catalog_world :: "(string, unit) catalog_world" where
  "ex_catalog_world =
     \<lparr>cw_pg = \<lparr>cpg_holidays = [\<lparr>hr_id = ''h1'', hr_name = ''Birthday'', hr_date_rule = ''relative'', hr_region = [],
                 hr_tags = ''[]'', hr_active = True\<rparr>],
               cpg_categories = [], cpg_bands = [], cpg_inspiration = [], cpg_uuids = [''u1'', ''u2''], cpg_faults = []\<rparr>,
      cw_cache = Some \<lparr>vk_keys = (\<lambda>_. None), vk_faults = []\<rparr>, cw_em = ()\<rparr>"

definition all_holidays :: holiday_filter where
  "all_holidays = \<lparr>hf_Region = [], hf_Active = None, hf_OnOrAfter = []\<rparr>"

definition ex_catalog_events :: "int catalog_event list" where
  "ex_catalog_events = [CatList \<lparr>cc_now = 0, cc_read = 1, cc_now2 = 3\<rparr> all_holidays, CatTables [] [] []]"

lemma ex_catalog_NewServer:
  "ex_catalog = catalog_NewServer ex_catalog_funs (NewFake (\<lambda>_ t. [int (length t)]) ''m'' 1)
     \<lparr>tu_ReferenceCacheTTL = 0, tu_DefaultTopK = 0, tu_MaxTopK = 0\<rparr>"
  by (simp add: ex_catalog_def)

text \<open>The row is gone from the table, and the cached listing is still served.\<close>

lemma catalog_reads_fresh_witness:
  "\<exists>hs w'. ListHolidays ex_catalog \<lparr>cc_now = 4, cc_read = 4, cc_now2 = 4\<rparr> all_holidays
       (catalog_run ex_catalog ex_catalog_events ex_catalog_world) = (Inr hs, w') \<and> map hpb_id hs = [''h1''] \<and>
     fresh (set (catalog_moments ex_catalog (ex_catalog_events @ [CatList \<lparr>cc_now = 4, cc_read = 4, cc_now2 = 4\<rparr> all_holidays]) ex_catalog_world))
       4 (tu_ReferenceCacheTTL (cs_tune ex_catalog) + 2)
       (\<lambda>T. map_option (map holidayToProto) (holidays_query ex_catalog_funs all_holidays (fst T)) = Some hs)"
proof -
  let ?w = "catalog_run ex_catalog ex_catalog_events ex_catalog_world" and ?cx = "\<lparr>cc_now = 4, cc_read = 4, cc_now2 = 4\<rparr>"
  have empty: "\<forall>c. cw_cache ex_catalog_world = Some c \<longrightarrow> vk_keys c = (\<lambda>_. None)" by (simp add: ex_catalog_world_def)
  have utf8: "utf8_tables (tables_of ex_catalog_world)" by code_simp
  have plain: "\<forall>e \<in> set ex_catalog_events. plain_event 2 e" by (simp add: ex_catalog_events_def within_def)
  have cx: "within 2 ?cx" by (simp add: within_def)
  have f: "insert all_holidays (asked ex_catalog_events) = {all_holidays}" by (auto simp: asked_def ex_catalog_events_def)
  have pd: "plain_date all_holidays" by code_simp
  obtain r w' where c: "ListHolidays ex_catalog ?cx all_holidays ?w = (r, w')" by fastforce
  have "(case fst (ListHolidays ex_catalog ?cx all_holidays ?w) of Inr hs \<Rightarrow> map hpb_id hs = [''h1''] | Inl _ \<Rightarrow> False)"
    by code_simp
  then obtain hs where hs: "r = Inr hs" "map hpb_id hs = [''h1'']" using c by (cases r) simp_all
  note t = catalog_reads_fresh [OF ex_catalog_NewServer empty utf8 plain refl cx]
  have "fresh (set (catalog_moments ex_catalog (ex_catalog_events @ [CatList ?cx all_holidays]) ex_catalog_world))
       (cc_now ?cx) (tu_ReferenceCacheTTL (cs_tune ex_catalog) + 2)
       (\<lambda>T. map_option (map holidayToProto) (holidays_query ex_catalog_funs all_holidays (fst T)) = Some hs)"
    using t [THEN conjunct1, rule_format, OF c [unfolded hs(1)], unfolded f] by (simp add: pd)
  with c hs show ?thesis by auto
qed

text \<open>Two filters with one key: the holidays of one region are answered for those of the other.\<close>

theorem holidays_key_collides:
  "let f = \<lparr>hf_Region = ''a'', hf_Active = None, hf_OnOrAfter = ''any:''\<rparr>;
       g = \<lparr>hf_Region = ''a:any'', hf_Active = None, hf_OnOrAfter = []\<rparr>;
       w = ex_catalog_world\<lparr>cw_pg := (cw_pg ex_catalog_world)\<lparr>cpg_holidays :=
             [\<lparr>hr_id = ''h1'', hr_name = ''Day'', hr_date_rule = ''relative'', hr_region = ''a'', hr_tags = ''[]'', hr_active = True\<rparr>]\<rparr>\<rparr>;
       cx = \<lparr>cc_now = 0, cc_read = 0, cc_now2 = 0\<rparr> in
   holidays_key f = holidays_key g \<and>
   map_sum id (map hpb_region) (fst (ListHolidays ex_catalog cx g w)) = Inr [] \<and>
   map_sum id (map hpb_region) (fst (ListHolidays ex_catalog cx g (snd (ListHolidays ex_catalog cx f w)))) = Inr [''a'']"
  by code_simp

definition ex_inspiration :: inspiration where
  "ex_inspiration = \<lparr>ins_ID = [], ins_Title = ''Tea'', ins_Body = ''At home'', ins_CategoryID = [], ins_BudgetBandID = [],
     ins_Tags = [''cozy''], ins_CuratedBy = ''ed'', ins_Active = True\<rparr>"

definition ex_written :: "(string, unit) catalog_world" where
  "ex_written = snd (UpsertInspiration ex_catalog 5 [] (Some ex_inspiration)
     (snd (UpsertInspiration ex_catalog 4 [] (Some (ex_inspiration\<lparr>ins_Title := ''Walk''\<rparr>)) ex_catalog_world)))"

definition ex_search :: "int search_request" where
  "ex_search = \<lparr>sq_query_text = embedText ''Tea'' ''At home'', sq_query_embedding = [], sq_top_k = 1, sq_filters = None\<rparr>"

lemma ex_scan: "mset (cf_scan ex_catalog_funs q W) = mset W"
  by (simp add: ex_catalog_funs_def)

lemma ex_search_run: "\<exists>sns w2. SearchInspiration ex_catalog ex_search ex_written = (Inr sns, w2) \<and> map sni_ID sns = [''u2'']"
proof -
  obtain r w2 where c: "SearchInspiration ex_catalog ex_search ex_written = (r, w2)" by fastforce
  have "(case fst (SearchInspiration ex_catalog ex_search ex_written) of Inr sns \<Rightarrow> map sni_ID sns = [''u2''] | Inl _ \<Rightarrow> False)"
    by code_simp
  with c show ?thesis by (cases r) simp_all
qed

lemma catalog_search_nearest_witness:
  "\<exists>sns w2 rows. SearchInspiration ex_catalog ex_search ex_written = (Inr sns, w2) \<and> map sni_ID sns = [''u2''] \<and>
     mset rows \<subseteq># mset (wanted_rows None None (cpg_inspiration (cw_pg ex_written))) \<and> length rows = 1"
proof -
  obtain sns w2 where s: "SearchInspiration ex_catalog ex_search ex_written = (Inr sns, w2)" "map sni_ID sns = [''u2'']"
    using ex_search_run by (elim exE conjE) rule
  have sub: "\<forall>q W. mset (cf_scan ex_catalog_funs q W) \<subseteq># mset W" by (simp add: ex_scan)
  from catalog_search_nearest [OF ex_catalog_NewServer sub s(1)] obtain q cat band rows where
    r: "uuid_filter ex_catalog_funs (sf_CategoryID (filter_of (sq_filters ex_search))) = Some cat"
      "uuid_filter ex_catalog_funs (sf_BudgetBandID (filter_of (sq_filters ex_search))) = Some band"
      "list_all2 (\<lambda>r sn. snippet_of_row ex_catalog_funs q r = Some sn) rows sns"
      "mset rows \<subseteq># mset (wanted_rows cat band (cpg_inspiration (cw_pg ex_written)))" by blast
  have "cat = None" "band = None" using r(1,2) by (simp_all add: ex_search_def filter_of_def uuid_filter_def)
  moreover have "length rows = 1" using list_all2_lengthD [OF r(3)] s(2) by (metis length_map One_nat_def length_Cons list.size(3))
  ultimately show ?thesis using s r(4) by (intro exI [of _ sns] exI [of _ w2] exI [of _ rows]) simp
qed

lemma catalog_upsert_found_witness:
  "\<exists>w sns w2. UpsertInspiration ex_catalog 5 [] (Some ex_inspiration) w = (Inr ''u2'', ex_written) \<and>
     SearchInspiration ex_catalog ex_search ex_written = (Inr sns, w2) \<and> ''u2'' \<in> set (map sni_ID sns)"
proof -
  define w where "w = snd (UpsertInspiration ex_catalog 4 [] (Some (ex_inspiration\<lparr>ins_Title := ''Walk''\<rparr>)) ex_catalog_world)"
  obtain r w1 where u: "UpsertInspiration ex_catalog 5 [] (Some ex_inspiration) w = (r, w1)" by fastforce
  have "fst (UpsertInspiration ex_catalog 5 [] (Some ex_inspiration)
      (snd (UpsertInspiration ex_catalog 4 [] (Some (ex_inspiration\<lparr>ins_Title := ''Walk''\<rparr>)) ex_catalog_world))) = Inr ''u2''"
    by code_simp
  then have r: "r = Inr ''u2''" using u by (simp add: w_def)
  have w1: "w1 = ex_written" using u by (simp add: ex_written_def w_def)
  obtain sns w2 where s: "SearchInspiration ex_catalog ex_search ex_written = (Inr sns, w2)" "map sni_ID sns = [''u2'']"
    using ex_search_run by (elim exE conjE) rule
  have em: "\<forall>t s. \<exists>s'. em_Embed (NewFake (\<lambda>_ t. [int (length t)]) ''m'' 1) [t] s = (Inr [[int (length t)]], s')"
    by (simp add: NewFake_def)
  have d: "\<forall>u v. cf_dist ex_catalog_funs v v \<le> cf_dist ex_catalog_funs u v" by (simp add: ex_catalog_funs_def)
  have act: "ins_Active ex_inspiration" "list_all utf8_text (ins_Tags ex_inspiration)" by code_simp+
  have rq: "ex_search = \<lparr>sq_query_text = embedText (ins_Title ex_inspiration) (ins_Body ex_inspiration),
      sq_query_embedding = [], sq_top_k = 1, sq_filters = None\<rparr>"
    by (simp add: ex_search_def ex_inspiration_def)
  have "\<forall>q W. mset (cf_scan ex_catalog_funs q W) = mset W" by (simp add: ex_scan)
  from catalog_upsert_found [OF ex_catalog_NewServer this em d u [unfolded r w1] act rq s(1)] u r w1 s
  show ?thesis by (metis list.set_intros(1))
qed

end
