(* ===== verification/Gateway_Limit.thy ===== *)
theory Gateway_Limit
  imports Rate_Limit
begin

text \<open>
  The gateway's in-process rate limiter (\<open>services/backend/api-gateway/internal/ratelimit/limiter.go\<close>)
  and its interpretation of the contract of fixed-window limiters, extended by what holds of a limiter
  whose windows simply expire: over any span as long as a window it admits fewer than twice the budget.
  A call holds the mutex throughout, so calls are steps of one after the other.
\<close>

section \<open>Limiters whose windows expire\<close>

locale expiring_limiter = rate_limiter +
  assumes used_range: "inv s \<Longrightarrow> 0 \<le> used k t s \<and> used k t s \<le> budget"
    and expires: "inv s \<Longrightarrow> t \<le> t' \<Longrightarrow> used k t' s \<noteq> 0 \<Longrightarrow> used k t' s = used k t s"
    and refused: "inv s \<Longrightarrow> allow k t s = (r, s') \<Longrightarrow> r \<noteq> Inr True \<Longrightarrow> used k' t' s' = used k' t' s"
begin

text \<open>What may still be admitted in a span that is no longer than a window.\<close>

definition allowance :: "int \<Rightarrow> int" where
  "allowance u = (if u = 0 then budget else 2 * budget - u)"

lemma span_allowance:
  assumes "inv s" and "limiter_run allow calls s = (rs, s')"
    and "sorted (map snd calls)" and "\<forall>c \<in> set calls. t0 \<le> snd c \<and> snd c \<le> t0 + d"
    and "\<forall>c \<in> set calls. t \<le> snd c" and "t0 \<le> t" and "d \<le> span"
  shows "admitted k calls rs \<le> max 0 (allowance (used k t s))"
  using assms
proof (induction calls arbitrary: s rs t)
  case Nil
  then show ?case by simp
next
  case (Cons c calls)
  obtain kc tc where c: "c = (kc, tc)" by (cases c)
  obtain r s1 where a: "allow kc tc s = (r, s1)" by (cases "allow kc tc s")
  obtain rs' where run: "limiter_run allow calls s1 = (rs', s')" and rs: "rs = r # rs'"
    using Cons.prems(2) by (auto simp: c a split: prod.splits)
  have t: "t \<le> tc" "tc \<le> t0 + d" "t0 \<le> tc" using Cons.prems(4-6) by (auto simp: c)
  have later: "\<forall>e \<in> set calls. tc \<le> snd e" using Cons.prems(3) by (auto simp: c)
  have srt: "sorted (map snd calls)" using Cons.prems(3) by simp
  have inv1: "inv s1" using inv_allow [OF Cons.prems(1) a] .
  have IH: "admitted k calls rs' \<le> max 0 (allowance (used k tc s1))"
    using Cons.prems(4,7) t(3) by (intro Cons.IH [OF inv1 run srt _ later]) auto
  have same: "used k tc s = 0 \<or> used k tc s = used k t s" using expires [OF Cons.prems(1) t(1), of k] by blast
  have range: "0 \<le> used k t s \<and> used k t s \<le> budget" "0 \<le> used k tc s \<and> used k tc s \<le> budget"
    using used_range [OF Cons.prems(1)] by blast+
  show ?case
  proof (cases "kc = k \<and> r = Inr True")
    case True
    then have ad: "used k tc s < budget" "used k tc s1 = used k tc s + 1"
      using admit [OF Cons.prems(1)] a by auto
    show ?thesis
    proof (cases "used k tc s = 0")
      case z: True
      have "holds k (tc + span) s1" using opens [OF Cons.prems(1) z] a True by blast
      moreover have "\<forall>e \<in> set calls. tc \<le> snd e \<and> snd e \<le> tc + span"
        using later Cons.prems(4,7) t(3) by fastforce
      ultimately have "admitted k calls rs' = 0 \<or> admitted k calls rs' + used k tc s1 \<le> budget"
        by (rule burst_within_budget [OF inv1 _ run srt])
      then show ?thesis using True ad z range by (auto simp: rs c allowance_def)
    next
      case False
      then show ?thesis using IH True ad same range by (auto simp: rs c allowance_def)
    qed
  next
    case False
    have "used k tc s1 = used k tc s"
      using refused [OF Cons.prems(1) a] frame [OF Cons.prems(1) a, of k tc] False by auto
    then show ?thesis using IH False same range by (auto simp: rs c allowance_def)
  qed
qed

text \<open>So the rate over a window's length is below twice the budget, from any state.\<close>

lemma rate_bound:
  assumes "inv s" and "limiter_run allow calls s = (rs, s')" and "sorted (map snd calls)"
    and "\<forall>c \<in> set calls. t0 \<le> snd c \<and> snd c \<le> t0 + span" and "0 < budget"
  shows "admitted k calls rs \<le> 2 * budget - 1"
proof -
  have "admitted k calls rs \<le> max 0 (allowance (used k t0 s))"
    using assms(4) by (intro span_allowance [OF assms(1,2,3), where d = span]) auto
  also have "\<dots> \<le> 2 * budget - 1" using used_range [OF assms(1), of k t0] assms(5) by (auto simp: allowance_def)
  finally show ?thesis .
qed

end

section \<open>The limiter (limiter.go)\<close>

record bucket =
  lb_count :: int
  lb_windowEnds :: time

record window =
  wn_limit :: int
  wn_window :: duration
  wn_buckets :: "(string, bucket) gomap"

definition NewWindow :: "int \<Rightarrow> duration \<Rightarrow> window" where
  "NewWindow limit d = \<lparr>wn_limit = limit, wn_window = d, wn_buckets = (\<lambda>_. None)\<rparr>"

definition window_Allow :: "string \<Rightarrow> time \<Rightarrow> window \<Rightarrow> bool \<times> window" where
  "window_Allow key now w =
     (if wn_limit w \<le> 0 then (True, w)
      else
        let fresh_bucket = w\<lparr>wn_buckets := (wn_buckets w)(key \<mapsto> \<lparr>lb_count = 1, lb_windowEnds = now + wn_window w\<rparr>)\<rparr> in
        case wn_buckets w key of
          None \<Rightarrow> (True, fresh_bucket)
        | Some b \<Rightarrow>
            (if lb_windowEnds b < now then (True, fresh_bucket)
             else if wn_limit w \<le> lb_count b then (False, w)
             else (True, w\<lparr>wn_buckets := (wn_buckets w)(key \<mapsto> b\<lparr>lb_count := lb_count b + 1\<rparr>)\<rparr>)))"

text \<open>The interface \<open>Limiter\<close>: an unconfigured budget is \<open>Noop\<close>.\<close>

datatype limiter = Noop | Window window

fun limiter_Allow :: "string \<Rightarrow> time \<Rightarrow> limiter \<Rightarrow> bool \<times> limiter" where
  "limiter_Allow key now Noop = (True, Noop)"
| "limiter_Allow key now (Window w) = (let (ok, w') = window_Allow key now w in (ok, Window w'))"

section \<open>The contract\<close>

definition window_call :: "string \<Rightarrow> time \<Rightarrow> window \<Rightarrow> (unit + bool) \<times> window" where
  "window_call k t w = (let (ok, w') = window_Allow k t w in (Inr ok, w'))"

definition window_used :: "string \<Rightarrow> time \<Rightarrow> window \<Rightarrow> int" where
  "window_used k t w =
     (case wn_buckets w k of None \<Rightarrow> 0 | Some b \<Rightarrow> if lb_windowEnds b < t then 0 else lb_count b)"

definition window_holds :: "string \<Rightarrow> time \<Rightarrow> window \<Rightarrow> bool" where
  "window_holds k d w \<longleftrightarrow> (\<exists>b. wn_buckets w k = Some b \<and> d \<le> lb_windowEnds b)"

definition window_inv :: "int \<Rightarrow> duration \<Rightarrow> window \<Rightarrow> bool" where
  "window_inv limit d w \<longleftrightarrow> 0 < limit \<and> 0 \<le> d \<and> wn_limit w = limit \<and> wn_window w = d \<and>
     (\<forall>k b. wn_buckets w k = Some b \<longrightarrow> 1 \<le> lb_count b \<and> lb_count b \<le> limit)"

lemma window_call_cases:
  assumes "window_inv limit d w" and "window_call k t w = (r, w')"
  obtains (opened) "r = Inr True" "window_used k t w = 0"
      "w' = w\<lparr>wn_buckets := (wn_buckets w)(k \<mapsto> \<lparr>lb_count = 1, lb_windowEnds = t + d\<rparr>)\<rparr>"
  | (full) b where "r = Inr False" "w' = w" "wn_buckets w k = Some b" "lb_count b = limit" "t \<le> lb_windowEnds b"
  | (counted) b where "r = Inr True" "wn_buckets w k = Some b" "t \<le> lb_windowEnds b" "lb_count b < limit"
      "w' = w\<lparr>wn_buckets := (wn_buckets w)(k \<mapsto> b\<lparr>lb_count := lb_count b + 1\<rparr>)\<rparr>"
proof (cases "wn_buckets w k")
  case None
  then show thesis using assms opened by (auto simp: window_call_def window_Allow_def window_inv_def window_used_def)
next
  case (Some b)
  have inv: "0 < limit" "wn_limit w = limit" "wn_window w = d" "lb_count b \<le> limit"
    using assms(1) Some by (auto simp: window_inv_def)
  consider "lb_windowEnds b < t" | "t \<le> lb_windowEnds b" "lb_count b = limit" | "t \<le> lb_windowEnds b" "lb_count b < limit"
    using inv(4) by linarith
  then show thesis
  proof cases
    case 1
    then show thesis using assms(2) opened inv Some by (simp add: window_call_def window_Allow_def window_used_def)
  next
    case 2
    then show thesis using assms(2) full inv Some by (simp add: window_call_def window_Allow_def)
  next
    case 3
    then show thesis using assms(2) counted inv Some by (simp add: window_call_def window_Allow_def)
  qed
qed

lemmas window_defs = window_used_def window_holds_def window_inv_def

interpretation gwin: expiring_limiter window_call window_used window_holds limit d "window_inv limit d" for limit d
proof
  fix w k t r w'
  assume i: "window_inv limit d w" and c: "window_call k t w = (r, w')"
  note [simp] = window_inv_def window_used_def
  have nn: "0 \<le> lb_count b" if "wn_buckets w k = Some b" for k b using i that by fastforce
  have pos: "lb_count b \<noteq> 0" if "wn_buckets w k = Some b" for k b using i that by fastforce
  show "window_inv limit d w'"
    by (cases rule: window_call_cases [OF i c]) (use i nn in auto)
  show "window_used k t w \<le> window_used k t w'"
    by (cases rule: window_call_cases [OF i c]) (use i in auto)
  show "window_used k' t' w' = window_used k' t' w" if "k' \<noteq> k" for k' t'
    by (cases rule: window_call_cases [OF i c]) (use that in auto)
  show "window_used k' t' w' = window_used k' t' w" if "r \<noteq> Inr True" for k' t'
    by (cases rule: window_call_cases [OF i c]) (use that in auto)
  show "window_holds k' e w'" if "window_holds k' e w" "t \<le> e" for k' e
    by (cases rule: window_call_cases [OF i c]) (use that pos in \<open>auto simp: window_holds_def split: if_splits option.splits\<close>)
next
  fix w k t w'
  assume i: "window_inv limit d w" and c: "window_call k t w = (Inr True, w')"
  note [simp] = window_inv_def window_used_def
  have pos: "lb_count b \<noteq> 0" if "wn_buckets w k = Some b" for k b using i that by fastforce
  show "window_used k t w < limit \<and> window_used k t w' = window_used k t w + 1"
    by (cases rule: window_call_cases [OF i c]) (use i in auto)
  show "window_holds k (t + d) w'" if "window_used k t w = 0"
    by (cases rule: window_call_cases [OF i c]) (use pos that in \<open>auto simp: window_holds_def split: if_splits\<close>)
next
  fix w k t
  assume "window_inv limit d w"
  then show "0 \<le> window_used k t w \<and> window_used k t w \<le> limit"
    by (fastforce simp: window_used_def window_inv_def split: option.splits)
qed (auto simp: window_defs split: option.splits)

section \<open>Keys do not influence one another\<close>

definition same_key :: "string \<Rightarrow> window \<Rightarrow> window \<Rightarrow> bool" where
  "same_key k v w \<longleftrightarrow> wn_limit v = wn_limit w \<and> wn_window v = wn_window w \<and> wn_buckets v k = wn_buckets w k"

lemma same_key_call:
  assumes "same_key k v w" and "window_call k t v = (r, v')" and "window_call k t w = (r', w')"
  shows "r' = r \<and> same_key k v' w'"
  using assms by (auto simp: same_key_def window_call_def window_Allow_def Let_def split: if_splits option.splits prod.splits)

lemma other_key_call: "window_call k' t w = (r, w') \<Longrightarrow> k' \<noteq> k \<Longrightarrow> same_key k w w'"
  by (auto simp: same_key_def window_call_def window_Allow_def Let_def split: if_splits option.splits)

definition answers_for :: "string \<Rightarrow> (string \<times> time) list \<Rightarrow> ('e + bool) list \<Rightarrow> ('e + bool) list" where
  "answers_for k calls rs = map snd (filter (\<lambda>(c, r). fst c = k) (zip calls rs))"

lemma keys_independent:
  assumes "same_key k v w" and "limiter_run window_call calls v = (rs, v')"
  shows "answers_for k calls rs = fst (limiter_run window_call (filter (\<lambda>c. fst c = k) calls) w)"
  using assms
proof (induction calls arbitrary: v w rs v')
  case Nil
  then show ?case by (simp add: answers_for_def)
next
  case (Cons c calls)
  obtain kc t where c: "c = (kc, t)" by (cases c)
  obtain r v1 where a: "window_call kc t v = (r, v1)" by fastforce
  obtain rs' v2 where run: "limiter_run window_call calls v1 = (rs', v2)" by fastforce
  have rs: "rs = r # rs'" using Cons.prems(2) by (simp add: c a run)
  show ?case
  proof (cases "kc = k")
    case True
    obtain r' w1 where b: "window_call k t w = (r', w1)" by fastforce
    from same_key_call [OF Cons.prems(1) a [unfolded True] b] have s: "r' = r" "same_key k v1 w1" by simp_all
    show ?thesis using Cons.IH [OF s(2) run] s(1) b by (simp add: c rs True answers_for_def split: prod.splits)
  next
    case False
    have "same_key k v1 w" using other_key_call [OF a False] Cons.prems(1) by (simp add: same_key_def)
    from Cons.IH [OF this run] False show ?thesis by (simp add: c rs answers_for_def)
  qed
qed

lemma limiter_run_append:
  "limiter_run allow (xs @ ys) s =
     (let (rs, s1) = limiter_run allow xs s; (rs', s2) = limiter_run allow ys s1 in (rs @ rs', s2))"
  by (induction xs arbitrary: s) (auto split: prod.splits)

text \<open>C27: after any calls, a limiter of the gateway admits over any span as long as its window at most
  one call less than twice its limit for a key, and what it answers for a key does not depend on the calls
  for other keys.\<close>

theorem gateway_window_rate:
  assumes "0 < limit" and "0 \<le> d" and "limiter_run window_call earlier (NewWindow limit d) = (rs0, w)"
    and "limiter_run window_call calls w = (rs, w')" and "sorted (map snd calls)"
    and "\<forall>c \<in> set calls. t0 \<le> snd c \<and> snd c \<le> t0 + d"
  shows "admitted k calls rs \<le> 2 * limit - 1 \<and>
    answers_for k calls rs = fst (limiter_run window_call (filter (\<lambda>c. fst c = k) calls) w)"
proof -
  have "window_inv limit d (NewWindow limit d)" using assms(1,2) by (simp add: NewWindow_def window_inv_def)
  then have "window_inv limit d w"
    using assms(3)
  proof (induction earlier arbitrary: rs0 w rule: rev_induct)
    case Nil
    then show ?case by simp
  next
    case (snoc c cs)
    then show ?case by (cases c) (auto simp: limiter_run_append split: prod.splits intro: gwin.inv_allow)
  qed
  then have "admitted k calls rs \<le> 2 * limit - 1" using gwin.rate_bound assms by blast
  moreover have "same_key k w w" by (simp add: same_key_def)
  ultimately show ?thesis using keys_independent assms(4) by blast
qed

text \<open>The bound is met: three calls in ten seconds with a limit of two in ten seconds.\<close>

lemma gateway_window_rate_witness:
  "let (rs0, w) = limiter_run window_call [(''ip:a'', 0)] (NewWindow 2 10);
       calls = [(''ip:a'', 10), (''ip:a'', 11), (''ip:b'', 11), (''ip:a'', 12), (''ip:a'', 13)];
       (rs, w') = limiter_run window_call calls w
   in admitted ''ip:a'' calls rs = 3 \<and> 3 \<le> 2 * (2 :: int) - 1 \<and>
      answers_for ''ip:a'' calls rs = [Inr True, Inr True, Inr True, Inr False]"
proof -
  let ?calls = "[(''ip:a'', 10), (''ip:a'', 11), (''ip:b'', 11), (''ip:a'', 12), (''ip:a'', 13)] :: (string \<times> time) list"
  obtain rs0 w where w: "limiter_run window_call [(''ip:a'', 0)] (NewWindow 2 10) = (rs0, w)" by fastforce
  obtain rs w' where rs: "limiter_run window_call ?calls w = (rs, w')" by fastforce
  have "admitted ''ip:a'' ?calls rs \<le> 2 * 2 - 1 \<and>
      answers_for ''ip:a'' ?calls rs = fst (limiter_run window_call (filter (\<lambda>c. fst c = ''ip:a'') ?calls) w)"
    by (rule gateway_window_rate [OF _ _ w rs, where ?t0.0 = 10]) simp_all
  note t = this
  have "fst (limiter_run window_call ?calls (snd (limiter_run window_call [(''ip:a'', 0)] (NewWindow 2 10)))) =
      [Inr True, Inr True, Inr True, Inr True, Inr False]" by code_simp
  then have v: "rs = [Inr True, Inr True, Inr True, Inr True, Inr False]" by (simp only: w rs fst_conv snd_conv)
  have "admitted ''ip:a'' ?calls rs = 3" "answers_for ''ip:a'' ?calls rs = [Inr True, Inr True, Inr True, Inr False]"
    by (simp_all add: v answers_for_def)
  moreover note t
  ultimately show ?thesis by (simp only: w rs Let_def prod.case)
qed

end
