(* ===== verification/Gateway_Rest.thy ===== *)
theory Gateway_Rest
  imports Gateway_Limit Jwt_Verifier Gift_Json_Structs
begin

text \<open>
  What the REST edge of the API gateway (\<open>services/backend/api-gateway/internal/transport/rest\<close>) does
  with any request: the error envelope (\<open>errors.go\<close>), bodies, bearer tokens, client addresses and the
  metadata sent downstream (\<open>http.go\<close>), the route table of \<open>net/http\<close> as \<open>router.go\<close> uses it, and the
  JWKS source of the verifier (\<open>auth/jwks_http.go\<close>).

  A request carries the path as \<open>URL.EscapedPath\<close> gives it, its headers under their canonical names,
  and the clock readings its handlers take: one for each limiter it meets and those of the verifier.
  Of a reply the status, the headers the code sets, and the body are kept. The text of a decoding error
  of \<open>encoding/json\<close> and what \<open>net/http\<close> itself writes are not modelled.
\<close>

section \<open>Requests and replies\<close>

record rest_request =
  rq_Method :: string
  rq_path :: string
  rq_RawQuery :: string
  rq_Header :: md
  rq_Body :: "string option"
  rq_RemoteAddr :: string
  rq_t_global :: time
  rq_t_ip :: time
  rq_t_route :: time
  rq_verify :: verify_call
  rq_subject :: string
  rq_values :: "(string \<times> string) list"

datatype rest_body = NoBody | PlainText | JSON json_tree

record reply =
  rp_status :: int
  rp_headers :: "(string \<times> string) list"
  rp_body :: rest_body

text \<open>\<open>r.Header.Get\<close>, \<open>r.PathValue\<close> and \<open>subjectFrom(r.Context())\<close>; what is missing is empty.\<close>

definition header_Get :: "string \<Rightarrow> rest_request \<Rightarrow> string" where
  "header_Get k r = (case md_get (rq_Header r) k of [] \<Rightarrow> [] | v # _ \<Rightarrow> v)"

definition PathValue :: "string \<Rightarrow> rest_request \<Rightarrow> string" where
  "PathValue k r = (case map_of (rq_values r) k of None \<Rightarrow> [] | Some v \<Rightarrow> v)"

definition subjectFrom :: "rest_request \<Rightarrow> string" where
  "subjectFrom r = rq_subject r"

section \<open>The error envelope (errors.go)\<close>

definition writeJSON :: "int \<Rightarrow> json_tree \<Rightarrow> reply" where
  "writeJSON s v = \<lparr>rp_status = s, rp_headers = [(''Content-Type'', ''application/json'')], rp_body = JSON v\<rparr>"

text \<open>Every caller passes nil details, which \<open>omitempty\<close> leaves out.\<close>

definition errorEnvelope :: "string \<Rightarrow> string \<Rightarrow> json_tree" where
  "errorEnvelope code message = JTObj [(''error'', JTObj [(''code'', JTStr code), (''message'', JTStr message)])]"

definition writeError :: "int \<Rightarrow> string \<Rightarrow> string \<Rightarrow> reply" where
  "writeError s code message = writeJSON s (errorEnvelope code message)"

fun mapGRPCCode :: "grpc_code \<Rightarrow> int \<times> string" where
  "mapGRPCCode OK = (200, ''ok'')"
| "mapGRPCCode InvalidArgument = (400, ''invalid_argument'')"
| "mapGRPCCode Unauthenticated = (401, ''unauthenticated'')"
| "mapGRPCCode PermissionDenied = (403, ''permission_denied'')"
| "mapGRPCCode NotFound = (404, ''not_found'')"
| "mapGRPCCode AlreadyExists = (409, ''already_exists'')"
| "mapGRPCCode Aborted = (409, ''aborted'')"
| "mapGRPCCode FailedPrecondition = (422, ''failed_precondition'')"
| "mapGRPCCode OutOfRange = (400, ''out_of_range'')"
| "mapGRPCCode ResourceExhausted = (429, ''rate_limited'')"
| "mapGRPCCode Canceled = (499, ''canceled'')"
| "mapGRPCCode Unavailable = (502, ''unavailable'')"
| "mapGRPCCode DeadlineExceeded = (504, ''deadline_exceeded'')"
| "mapGRPCCode Unimplemented = (501, ''unimplemented'')"
| "mapGRPCCode _ = (500, ''internal'')"

definition writeGRPCError :: "string status \<Rightarrow> reply" where
  "writeGRPCError st = (let (s, code) = mapGRPCCode (scode st) in writeError s code (sdetail st))"

section \<open>Tokens and addresses (http.go)\<close>

text \<open>\<open>strings.SplitN\<close> at a space into at most two parts. Both failures end in the same reply.\<close>

definition bearerToken :: "rest_request \<Rightarrow> string option" where
  "bearerToken r =
     (let h = header_Get ''Authorization'' r in
      if h = [] then None
      else case IndexByte h (CHR '' '') of
             None \<Rightarrow> None
           | Some i \<Rightarrow>
               (if \<not> EqualFold (take i h) ''Bearer'' \<or> drop (i + 1) h = [] then None else Some (drop (i + 1) h)))"

definition LastIndexByte :: "string \<Rightarrow> char \<Rightarrow> nat option" where
  "LastIndexByte s c = map_option (\<lambda>i. length s - 1 - i) (IndexByte (rev s) c)"

text \<open>The host of \<open>net.SplitHostPort\<close>, or its error.\<close>

definition SplitHostPort :: "string \<Rightarrow> string option" where
  "SplitHostPort hostport =
     (case LastIndexByte hostport (CHR '':'') of
        None \<Rightarrow> None
      | Some i \<Rightarrow>
        let result = (\<lambda>host j k. if CHR ''['' \<in> set (drop j hostport) \<or> CHR '']'' \<in> set (drop k hostport)
                                 then None else Some host) in
        if hostport ! 0 = CHR ''['' then
          (case IndexByte hostport (CHR '']'') of
             None \<Rightarrow> None
           | Some e \<Rightarrow> if e + 1 = i then result (drop 1 (take e hostport)) 1 (e + 1) else None)
        else if CHR '':'' \<in> set (take i hostport) then None
        else result (take i hostport) 0 0)"

definition gw_clientIP :: "rest_request \<Rightarrow> string" where
  "gw_clientIP r =
     (let xff = header_Get ''X-Forwarded-For'' r in
      if xff \<noteq> [] then
        (case IndexByte xff (CHR '','') of Some i \<Rightarrow> TrimSpace (take i xff) | None \<Rightarrow> TrimSpace xff)
      else case SplitHostPort (rq_RemoteAddr r) of None \<Rightarrow> rq_RemoteAddr r | Some host \<Rightarrow> host)"

text \<open>The metadata of a downstream call; \<open>None\<close> when there is none to attach.\<close>

definition reqCtx :: "rest_request \<Rightarrow> md option" where
  "reqCtx r =
     (let sub = subjectFrom r; h = header_Get ''Authorization'' r; xff = gw_clientIP r;
          m = (if sub \<noteq> [] then [(''x-user-id'', [sub])] else [])
            @ (if h \<noteq> [] then [(''authorization'', [h])] else [])
            @ (if xff \<noteq> [] then [(''x-forwarded-for'', [xff])] else []) in
      if m \<noteq> [] then Some m else None)"

section \<open>Bodies\<close>

text \<open>Structs are decoded with unknown fields refused, at every depth.\<close>

definition strict :: "string list \<Rightarrow> ('a \<Rightarrow> (string \<times> string) list \<Rightarrow> 'a option) \<Rightarrow> 'a \<Rightarrow> (string \<times> string) list \<Rightarrow> 'a option" where
  "strict fs members acc ms = (if known_fields fs ms then members acc ms else None)"

definition LimitReader :: "int \<Rightarrow> string \<Rightarrow> string" where
  "LimitReader n s = (if int (length s) \<le> n then s else take (nat n) s)"

text \<open>\<open>json_error\<close> is the text of the decoder's error. The decoder reads one value of the first 1 MiB.\<close>

definition decodeJSON ::
  "(string \<Rightarrow> string) \<Rightarrow> ('a \<Rightarrow> (string \<times> string) list \<Rightarrow> 'a option) \<Rightarrow> 'a \<Rightarrow> rest_request \<Rightarrow> reply + 'a" where
  "decodeJSON json_error members zero r =
     (case rq_Body r of
        None \<Rightarrow> Inl (writeError 400 ''invalid_argument'' ''request body is required'')
      | Some body \<Rightarrow>
          (case (case json_first (LimitReader 1048576 body) of
                   Some (JObj ms) \<Rightarrow> members zero ms
                 | Some JNull \<Rightarrow> Some zero
                 | _ \<Rightarrow> None) of
             None \<Rightarrow> Inl (writeError 400 ''invalid_argument'' (''invalid JSON body: '' @ json_error body))
           | Some v \<Rightarrow> Inr v))"

text \<open>Struct fields tagged \<open>omitempty\<close>.\<close>

definition omit_str :: "string \<Rightarrow> string \<Rightarrow> (string \<times> json_tree) list" where
  "omit_str k v = (if v = [] then [] else [(k, JTStr v)])"

definition omit_arr :: "string \<Rightarrow> json_tree list \<Rightarrow> (string \<times> json_tree) list" where
  "omit_arr k vs = (if vs = [] then [] else [(k, JTArr vs)])"

section \<open>URLs\<close>

text \<open>\<open>url.PathUnescape\<close>, and with \<open>form\<close> set \<open>url.QueryUnescape\<close>.\<close>

fun unescape :: "bool \<Rightarrow> string \<Rightarrow> string option" where
  "unescape form [] = Some []"
| "unescape form (c # s) =
     (if c = CHR ''%'' then
        (case s of
           a # b # t \<Rightarrow>
             (case (hex_digit a, hex_digit b) of
                (Some x, Some y) \<Rightarrow> map_option ((#) (char_of (16 * x + y))) (unescape form t)
              | _ \<Rightarrow> None)
         | _ \<Rightarrow> None)
      else map_option ((#) (if form \<and> c = CHR ''+'' then CHR '' '' else c)) (unescape form s))"

definition url_Path :: "rest_request \<Rightarrow> string" where
  "url_Path r = (case unescape False (rq_path r) of Some p \<Rightarrow> p | None \<Rightarrow> rq_path r)"

text \<open>\<open>URL.Query().Get\<close>: the first value of the key among the pairs that can be read.\<close>

definition query_pair :: "string \<Rightarrow> (string \<times> string) option" where
  "query_pair p =
     (if CHR '';'' \<in> set p \<or> p = [] then None
      else let (k, v) = (case IndexByte p (CHR ''='') of None \<Rightarrow> (p, []) | Some i \<Rightarrow> (take i p, drop (i + 1) p)) in
           case (unescape True k, unescape True v) of (Some k', Some v') \<Rightarrow> Some (k', v') | _ \<Rightarrow> None)"

definition query_Get :: "string \<Rightarrow> rest_request \<Rightarrow> string" where
  "query_Get k r =
     (case map_of (List.map_filter query_pair (Split (rq_RawQuery r) (CHR ''&''))) k of None \<Rightarrow> [] | Some v \<Rightarrow> v)"

text \<open>\<open>b, _ := strconv.ParseBool(v)\<close>: what cannot be read is false.\<close>

definition ParseBool :: "string \<Rightarrow> bool" where
  "ParseBool v \<longleftrightarrow> v \<in> {''1'', ''t'', ''T'', ''true'', ''TRUE'', ''True''}"

section \<open>The multiplexer\<close>

text \<open>
  \<open>http.ServeMux\<close> matches a path segment by segment, each unescaped on its own; a final slash is a
  segment by itself, which no wildcard takes. A GET route serves HEAD too. A path that is not in its
  clean form is redirected to that form, whatever the routes. The routes of one multiplexer below do
  not overlap, so their order does not matter.
\<close>

datatype seg = Lit string | Wild string

record 'h route =
  rt_method :: string
  rt_segs :: "seg list"
  rt_handler :: 'h

function mux_segments :: "string \<Rightarrow> string list" where
  "mux_segments s =
     (if s = [] then [] else if s = ''/'' then [''/'']
      else let t = drop 1 s; w = takeWhile (\<lambda>c. c \<noteq> CHR ''/'') t in
           (case unescape False w of Some u \<Rightarrow> u | None \<Rightarrow> w) # mux_segments (drop (length w) t))"
  by pat_completeness auto
termination by (relation "measure length") auto

declare mux_segments.simps [simp del]

fun match_segs :: "seg list \<Rightarrow> string list \<Rightarrow> (string \<times> string) list option" where
  "match_segs [] [] = Some []"
| "match_segs (Lit l # ps) (s # ss) = (if s = l then match_segs ps ss else None)"
| "match_segs (Wild n # ps) (s # ss) = (if s = ''/'' then None else map_option ((#) (n, s)) (match_segs ps ss))"
| "match_segs _ _ = None"

definition clean_path :: "string \<Rightarrow> bool" where
  "clean_path p \<longleftrightarrow> p \<noteq> [] \<and> hd p = CHR ''/'' \<and>
     (let cs = Split (drop 1 p) (CHR ''/'') in
      (\<forall>c \<in> set (butlast cs). c \<noteq> []) \<and> (\<forall>c \<in> set cs. c \<noteq> ''.'' \<and> c \<noteq> ''..''))"

definition method_match :: "string \<Rightarrow> string \<Rightarrow> bool" where
  "method_match m method \<longleftrightarrow> m = method \<or> (m = ''GET'' \<and> method = ''HEAD'')"

text \<open>The handler and the path values, or what the multiplexer answers itself. (\<open>OPTIONS *\<close> is answered
  by the server and does not get here.)\<close>

definition mux_find :: "'h route list \<Rightarrow> rest_request \<Rightarrow> reply + 'h \<times> (string \<times> string) list" where
  "mux_find routes r =
     (if rq_Method r \<noteq> ''CONNECT'' \<and> \<not> clean_path (rq_path r)
      then Inl (if rq_path r = ''*'' then \<lparr>rp_status = 400, rp_headers = [(''Connection'', ''close'')], rp_body = NoBody\<rparr>
                else \<lparr>rp_status = 301, rp_headers = [], rp_body = PlainText\<rparr>)
      else
        let ss = mux_segments (rq_path r);
            here = filter (\<lambda>t. match_segs (rt_segs t) ss \<noteq> None) routes in
        case find (\<lambda>t. method_match (rt_method t) (rq_Method r)) here of
          Some t \<Rightarrow> Inr (rt_handler t, the (match_segs (rt_segs t) ss))
        | None \<Rightarrow>
            (if here \<noteq> [] then
               let ms = map rt_method here @ (if ''GET'' \<in> set (map rt_method here) then [''HEAD''] else []) in
               Inl \<lparr>rp_status = 405, rp_headers = [(''Allow'', Join (sort (remdups ms)) '', '')], rp_body = PlainText\<rparr>
             else Inl \<lparr>rp_status = 404, rp_headers = [], rp_body = PlainText\<rparr>))"

section \<open>The JWKS source (auth/jwks\_http.go)\<close>

text \<open>What \<open>Fetch\<close> yields for the answer of the endpoint, none when there is no answer; a list of keys is
  decoded with the rules of \<open>encoding/json\<close>, from the first 1 MiB of the body.
  \<open>alg\<close> and \<open>use\<close> are decoded, and not looked at afterwards.\<close>

definition jwk_fields :: "jwk \<Rightarrow> (string \<times> string) list \<Rightarrow> jwk option" where
  "jwk_fields j ms =
     Option.bind (field_into ''kty'' dec_string ms (jk_Kty j)) (\<lambda>kty.
     Option.bind (field_into ''kid'' dec_string ms (jk_Kid j)) (\<lambda>kid.
     Option.bind (field_into ''alg'' dec_string ms []) (\<lambda>_.
     Option.bind (field_into ''use'' dec_string ms []) (\<lambda>_.
     Option.bind (field_into ''n'' dec_string ms (jk_N j)) (\<lambda>n.
     Option.bind (field_into ''e'' dec_string ms (jk_E j)) (\<lambda>e.
     Option.bind (field_into ''crv'' dec_string ms (jk_Crv j)) (\<lambda>crv.
     Option.bind (field_into ''x'' dec_string ms (jk_X j)) (\<lambda>x.
       Some \<lparr>jk_Kty = kty, jk_Kid = kid, jk_N = n, jk_E = e, jk_Crv = crv, jk_X = x\<rparr>))))))))"

definition empty_jwk :: jwk where
  "empty_jwk = \<lparr>jk_Kty = [], jk_Kid = [], jk_N = [], jk_E = [], jk_Crv = [], jk_X = []\<rparr>"

definition jwks_Fetch :: "(int \<times> string) option \<Rightarrow> jwk list option" where
  "jwks_Fetch answer =
     (case answer of
        None \<Rightarrow> None
      | Some (s, body) \<Rightarrow>
          (if s \<noteq> 200 then None
           else case json_parse (LimitReader 1048576 body) of
                  Some (JObj ms) \<Rightarrow> field_into ''keys'' (dec_list (dec_struct jwk_fields) empty_jwk) ms []
                | Some JNull \<Rightarrow> Some []
                | _ \<Rightarrow> None))"

end
