(* ===== verification/Notify_Server.thy ===== *)
theory Notify_Server
  imports Notify_Store
begin

text \<open>
  The RPC server of the Notification service
  (\<open>services/backend/notification/internal/app/notification_server.go\<close>): the registration of devices, and
  the registry it keeps in the store, stated as a map from platform and push token to the user who is
  notified there.
\<close>

section \<open>The server\<close>

text \<open>\<open>notification.v1\<close>: any platform but the two named is refused.\<close>

datatype pb_platform = PLATFORM_UNSPECIFIED | PLATFORM_IOS | PLATFORM_ANDROID

record device_rq =
  dq_user_id :: string
  dq_platform :: pb_platform
  dq_push_token :: string
  dq_app_version :: string

fun platformFromProto :: "pb_platform \<Rightarrow> platform option" where
  "platformFromProto PLATFORM_IOS = Some PlatformIOS"
| "platformFromProto PLATFORM_ANDROID = Some PlatformAndroid"
| "platformFromProto PLATFORM_UNSPECIFIED = None"

text \<open>The device that is stored: its id and times are for the store to fill in. The text of a store error is
  left out of the message.\<close>

definition new_device :: "device_rq \<Rightarrow> platform \<Rightarrow> device" where
  "new_device rq p =
     \<lparr>dv_ID = [], dv_UserID = dq_user_id rq, dv_Platform = p, dv_PushToken = dq_push_token rq,
      dv_AppVersion = dq_app_version rq, dv_RegisteredAt = 0, dv_LastSeenAt = 0, dv_Active = False\<rparr>"

definition RegisterDevice ::
  "'s notify_store \<Rightarrow> time \<Rightarrow> device_rq \<Rightarrow> 's \<Rightarrow> (string status + string) \<times> 's" where
  "RegisterDevice st now rq s =
     (if dq_user_id rq = [] then (Inl (Status InvalidArgument ''user_id is required''), s)
      else if dq_push_token rq = [] then (Inl (Status InvalidArgument ''push_token is required''), s)
      else case platformFromProto (dq_platform rq) of
        None \<Rightarrow> (Inl (Status InvalidArgument ''platform must be ios or android''), s)
      | Some p \<Rightarrow>
          (let (r, s') = ns_UpsertDevice st (new_device rq p) now s in
           case r of
             Inl _ \<Rightarrow> (Inl (Status Internal ''register device''), s')
           | Inr d \<Rightarrow> (Inr (dv_ID d), s')))"

definition UnregisterDevice :: "'s notify_store \<Rightarrow> string \<Rightarrow> 's \<Rightarrow> (string status + bool) \<times> 's" where
  "UnregisterDevice st token s =
     (if token = [] then (Inl (Status InvalidArgument ''push_token is required''), s)
      else
        let (r, s') = ns_DeactivateDeviceByToken st token s in
        case r of Inl _ \<Rightarrow> (Inl (Status Internal ''unregister device''), s') | Inr _ \<Rightarrow> (Inr True, s'))"

section \<open>The registry\<close>

text \<open>Who is notified at a device, and the changes to that: by the RPCs, and by the dispatcher, which
  deactivates tokens a provider calls dead.\<close>

type_synonym registry = "platform \<times> string \<Rightarrow> string option"

datatype device_event = Register time device_rq | Unregister string | Pruned string

fun registry_step :: "device_event \<Rightarrow> bool \<Rightarrow> registry \<Rightarrow> registry" where
  "registry_step (Register now rq) done m =
     (case platformFromProto (dq_platform rq) of
        Some p \<Rightarrow> if done then m((p, dq_push_token rq) \<mapsto> dq_user_id rq) else m
      | None \<Rightarrow> m)"
| "registry_step (Unregister t) done m = (if done then (\<lambda>k. if snd k = t then None else m k) else m)"
| "registry_step (Pruned t) done m = (if done then (\<lambda>k. if snd k = t then None else m k) else m)"

text \<open>An event at the service; the boolean says that it was done.\<close>

fun device_step :: "'s notify_store \<Rightarrow> device_event \<Rightarrow> 's \<Rightarrow> bool \<times> 's" where
  "device_step st (Register now rq) s = (let (r, s') = RegisterDevice st now rq s in (\<not> isl r, s'))"
| "device_step st (Unregister t) s = (let (r, s') = UnregisterDevice st t s in (\<not> isl r, s'))"
| "device_step st (Pruned t) s = (let (r, s') = ns_DeactivateDeviceByToken st t s in (\<not> isl r, s'))"

fun device_run :: "'s notify_store \<Rightarrow> device_event list \<Rightarrow> 's \<Rightarrow> bool list \<times> 's" where
  "device_run st [] s = ([], s)"
| "device_run st (v # vs) s = (let (b, s1) = device_step st v s; (bs, s2) = device_run st vs s1 in (b # bs, s2))"

fun registry_run :: "(device_event \<times> bool) list \<Rightarrow> registry \<Rightarrow> registry" where
  "registry_run [] m = m"
| "registry_run ((v, b) # vs) m = registry_run vs (registry_step v b m)"

section \<open>The contract\<close>

definition device_key :: "device \<Rightarrow> platform \<times> string" where
  "device_key d = (dv_Platform d, dv_PushToken d)"

locale device_store =
  fixes st :: "'s notify_store"
    and reg :: "'s \<Rightarrow> registry"
    and inv :: "'s \<Rightarrow> bool"
  assumes upsert: "inv s \<Longrightarrow> platform_Valid (dv_Platform d) \<Longrightarrow> ns_UpsertDevice st d now s = (r, s') \<Longrightarrow>
      inv s' \<and> reg s' = (if isl r then reg s else (reg s)(device_key d \<mapsto> dv_UserID d))"
    and deactivate: "inv s \<Longrightarrow> ns_DeactivateDeviceByToken st t s = (x, s') \<Longrightarrow>
      inv s' \<and> reg s' = (if isl x then reg s else (\<lambda>k. if snd k = t then None else reg s k))"
    and active: "inv s \<Longrightarrow> ns_ActiveDevicesForUser st u s = (y, s') \<Longrightarrow>
      inv s' \<and> reg s' = reg s \<and>
      (\<forall>ds. y = Inr ds \<longrightarrow> distinct (map device_key ds) \<and> set (map device_key ds) = {k. reg s k = Some u})"
begin

lemma step:
  assumes "inv s" and "device_step st v s = (b, s')"
  shows "inv s' \<and> reg s' = registry_step v b (reg s)"
proof (cases v)
  case (Register now rq)
  show ?thesis
  proof (cases "dq_user_id rq = [] \<or> dq_push_token rq = [] \<or> platformFromProto (dq_platform rq) = None")
    case True
    then show ?thesis using assms by (auto simp: Register RegisterDevice_def split: option.splits if_splits)
  next
    case False
    then obtain p where p: "platformFromProto (dq_platform rq) = Some p" by auto
    obtain r s1 where u: "ns_UpsertDevice st (new_device rq p) now s = (r, s1)" by fastforce
    have "platform_Valid p" using p by (cases "dq_platform rq") auto
    then have "platform_Valid (dv_Platform (new_device rq p))" by (simp add: new_device_def)
    from upsert [OF assms(1) this u] False p u assms(2) show ?thesis
      by (cases r) (auto simp: Register RegisterDevice_def new_device_def device_key_def)
  qed
next
  case (Unregister t)
  obtain x s1 where d: "ns_DeactivateDeviceByToken st t s = (x, s1)" by fastforce
  from deactivate [OF assms(1) d] d assms show ?thesis
    by (cases "t = []"; cases x) (auto simp: Unregister UnregisterDevice_def)
next
  case (Pruned t)
  obtain x s1 where d: "ns_DeactivateDeviceByToken st t s = (x, s1)" by fastforce
  from deactivate [OF assms(1) d] d assms(2) show ?thesis by (cases x) (auto simp: Pruned)
qed

lemma run:
  "inv s \<Longrightarrow> device_run st vs s = (bs, s') \<Longrightarrow> inv s' \<and> reg s' = registry_run (zip vs bs) (reg s)"
proof (induction vs arbitrary: s bs)
  case Nil
  then show ?case by simp
next
  case (Cons v vs)
  obtain b s1 where s1: "device_step st v s = (b, s1)" by fastforce
  obtain bs' s2 where s2: "device_run st vs s1 = (bs', s2)" by fastforce
  from Cons.prems(2) s1 s2 have o: "bs = b # bs'" "s2 = s'" by auto
  from step [OF Cons.prems(1) s1] have "inv s1" "reg s1 = registry_step v b (reg s)" by auto
  with Cons.IH [OF this(1) s2 [unfolded o(2)]] show ?case by (simp add: o(1))
qed

end

section \<open>Postgres\<close>

definition np_registry :: "notify_pg \<Rightarrow> registry" where
  "np_registry s k =
     (case find (\<lambda>r. device_key r = k) (np_devices s) of
        Some r \<Rightarrow> if dv_Active r then Some (dv_UserID r) else None
      | None \<Rightarrow> None)"

definition np_devices_inv :: "notify_pg \<Rightarrow> bool" where
  "np_devices_inv s \<longleftrightarrow> distinct (map device_key (np_devices s))"

text \<open>The registry of a table with one row for each platform and token.\<close>

lemma np_registry_Some:
  "np_devices_inv s \<Longrightarrow> np_registry s k = Some u \<longleftrightarrow>
     (\<exists>r \<in> set (np_devices s). device_key r = k \<and> dv_Active r \<and> dv_UserID r = u)"
  unfolding np_devices_inv_def
proof -
  assume d: "distinct (map device_key (np_devices s))"
  have "np_registry s k = Some u \<longleftrightarrow>
      (\<exists>r. find (\<lambda>r. device_key r = k) (np_devices s) = Some r \<and> dv_Active r \<and> dv_UserID r = u)"
    by (auto simp: np_registry_def split: option.split)
  then show ?thesis by (auto simp: find_key [OF d])
qed

lemma np_registry_frame:
  "np_devices s' = np_devices s \<Longrightarrow> np_registry s' = np_registry s \<and> np_devices_inv s' = np_devices_inv s"
  by (simp add: np_registry_def np_devices_inv_def fun_eq_iff)

lemma np_registry_map:
  assumes "np_devices s' = map g (np_devices s)" and "\<And>r. device_key (g r) = device_key r"
  shows "np_devices_inv s' = np_devices_inv s" and
    "np_registry s' k = (case find (\<lambda>r. device_key r = k) (np_devices s) of
       Some r \<Rightarrow> if dv_Active (g r) then Some (dv_UserID (g r)) else None | None \<Rightarrow> None)"
  using assms by (simp_all add: np_devices_inv_def np_registry_def comp_def find_map_same split: option.split)

lemma find_device: "find (\<lambda>r. dv_Platform r = dv_Platform d \<and> dv_PushToken r = dv_PushToken d) xs =
    find (\<lambda>r. device_key r = device_key d) xs"
  by (simp add: device_key_def)

lemma np_upsert_registry:
  assumes "np_devices_inv s" and "platform_Valid (dv_Platform d)" and "np_UpsertDevice d now s = (r, s')"
  shows "np_devices_inv s' \<and>
    np_registry s' = (if isl r then np_registry s else (np_registry s)(device_key d \<mapsto> dv_UserID d))"
proof -
  obtain f s1 where t: "np_tick s = (f, s1)" by fastforce
  note tf = np_tick_frame [OF t]
  show ?thesis
  proof (cases "f \<or> isl r")
    case True
    have "isl r \<and> np_devices s' = np_devices s"
      using True assms(2,3) t tf np_uuid_frame [of s1]
      by (auto simp: np_UpsertDevice_def Let_def split: option.splits if_splits prod.splits)
    then show ?thesis using np_registry_frame [of s' s] assms(1) by simp
  next
    case False
    show ?thesis
    proof (cases "find (\<lambda>r. device_key r = device_key d) (np_devices s)")
      case (Some x)
      have s': "np_devices s' = map (refreshed d now) (np_devices s)" and r: "\<not> isl r"
        using False assms(2,3) t tf Some by (auto simp: np_UpsertDevice_def find_device)
      have k: "device_key (refreshed d now r) = device_key r" for r by (simp add: device_key_def refreshed_def)
      have x: "device_key x = device_key d" using Some find_Some_iff by (metis (mono_tags, lifting))
      have "np_registry s' k = ((np_registry s)(device_key d \<mapsto> dv_UserID d)) k" for k
      proof (cases "k = device_key d")
        case True
        then show ?thesis using x Some
          by (simp add: np_registry_map(2) [OF s' k]) (simp add: refreshed_def device_key_def)
      next
        case other: False
        have "find (\<lambda>r. device_key r = k) (np_devices s) = Some y \<Longrightarrow> refreshed d now y = y" for y
          using other find_Some_iff [of "\<lambda>r. device_key r = k" "np_devices s" y]
          by (auto simp: refreshed_def device_key_def)
        then show ?thesis using other
          by (simp add: np_registry_map(2) [OF s' k]) (simp add: np_registry_def split: option.split)
      qed
      then show ?thesis using np_registry_map(1) [OF s' k] assms(1) r by (auto simp: fun_eq_iff)
    next
      case None
      obtain u s2 where 2: "np_uuid s1 = (u, s2)" by fastforce
      note g = np_uuid_frame [OF 2]
      have n: "find (\<lambda>r. dv_Platform r = dv_Platform d \<and> dv_PushToken r = dv_PushToken d) (np_devices s1) = None"
        using None tf by (simp only: find_device)
      obtain i where i: "u = Some i" "find (\<lambda>x. dv_ID x = i) (np_devices s2) = None"
        using False assms(2,3) t n 2 by (cases u) (auto simp: np_UpsertDevice_def Let_def split: if_splits)
      define x where "x = d\<lparr>dv_ID := i, dv_RegisteredAt := pg_time now, dv_LastSeenAt := pg_time now, dv_Active := True\<rparr>"
      have "(r, s') = (Inr x, s2\<lparr>np_devices := np_devices s2 @ [x]\<rparr>)"
        using False assms(2,3) t n 2 i by (simp add: np_UpsertDevice_def Let_def x_def)
      then have s': "np_devices s' = np_devices s @ [x]" and r: "\<not> isl r" using g tf by simp_all
      have x: "device_key x = device_key d" "dv_UserID x = dv_UserID d" "dv_Active x"
        by (simp_all add: x_def device_key_def)
      have "device_key d \<notin> device_key ` set (np_devices s)" using None by (simp add: find_key_None)
      then have "np_devices_inv s'" using assms(1) s' x by (simp add: np_devices_inv_def)
      moreover have "np_registry s' = (np_registry s)(device_key d \<mapsto> dv_UserID d)"
        using s' x None by (auto simp: np_registry_def fun_eq_iff find_append split: option.split)
      ultimately show ?thesis using r by simp
    qed
  qed
qed

lemma np_deactivate_registry:
  assumes "np_devices_inv s" and "np_DeactivateDeviceByToken t s = (r, s')"
  shows "np_devices_inv s' \<and>
    np_registry s' = (if isl r then np_registry s else (\<lambda>k. if snd k = t then None else np_registry s k))"
proof -
  obtain f s1 where k: "np_tick s = (f, s1)" by fastforce
  note tf = np_tick_frame [OF k]
  show ?thesis
  proof (cases f)
    case True
    then have "isl r" "np_devices s' = np_devices s" using assms(2) k tf
      by (auto simp: np_DeactivateDeviceByToken_def)
    then show ?thesis using np_registry_frame [of s' s] assms(1) by simp
  next
    case False
    let ?g = "\<lambda>r. if dv_PushToken r = t then r\<lparr>dv_Active := False\<rparr> else r"
    have s': "np_devices s' = map ?g (np_devices s)" and r: "\<not> isl r"
      using False assms(2) k tf by (auto simp: np_DeactivateDeviceByToken_def)
    have g: "device_key (?g r) = device_key r" for r by (simp add: device_key_def)
    have "np_registry s' k = (if snd k = t then None else np_registry s k)" for k
    proof (cases "find (\<lambda>r. device_key r = k) (np_devices s)")
      case None
      then show ?thesis by (simp only: np_registry_map(2) [OF s' g]) (simp add: np_registry_def)
    next
      case (Some y)
      then have "device_key y = k" using find_Some_iff by (metis (mono_tags, lifting))
      then have "snd k = dv_PushToken y" by (auto simp: device_key_def)
      with Some show ?thesis by (simp only: np_registry_map(2) [OF s' g]) (simp add: np_registry_def)
    qed
    then show ?thesis using np_registry_map(1) [OF s' g] assms(1) r by (auto simp: fun_eq_iff)
  qed
qed

lemma np_active_registry:
  assumes "np_devices_inv s" and "np_ActiveDevicesForUser u s = (r, s')"
  shows "np_devices_inv s' \<and> np_registry s' = np_registry s \<and>
    (\<forall>ds. r = Inr ds \<longrightarrow> distinct (map device_key ds) \<and> set (map device_key ds) = {k. np_registry s k = Some u})"
proof -
  obtain f s1 where k: "np_tick s = (f, s1)" by fastforce
  note tf = np_tick_frame [OF k]
  have s': "s' = s1" and r: "r = Inr ds \<Longrightarrow> ds = filter (\<lambda>r. dv_UserID r = u \<and> dv_Active r) (np_devices s)" for ds
    using assms(2) k tf by (auto simp: np_ActiveDevicesForUser_def split: if_splits)
  have "distinct (map device_key (filter P (np_devices s)))" for P
    using assms(1) by (simp add: np_devices_inv_def distinct_map_filter)
  moreover have "set (map device_key (filter (\<lambda>r. dv_UserID r = u \<and> dv_Active r) (np_devices s))) =
      {k. np_registry s k = Some u}"
    using np_registry_Some [OF assms(1)] by (auto simp del: split_paired_All split_paired_Ex) (metis (mono_tags, lifting) image_eqI mem_Collect_eq)
  ultimately show ?thesis using np_registry_frame [of s1 s] tf assms(1) s' r by auto
qed

interpretation devices: device_store "pg_notify up" np_registry np_devices_inv for up
proof
  fix s d now r s'
  assume "np_devices_inv s" "platform_Valid (dv_Platform d)" "ns_UpsertDevice (pg_notify up) d now s = (r, s')"
  then show "np_devices_inv s' \<and>
      np_registry s' = (if isl r then np_registry s else (np_registry s)(device_key d \<mapsto> dv_UserID d))"
    by (intro np_upsert_registry) (simp_all add: pg_notify_def)
next
  fix s t r s'
  assume "np_devices_inv s" "ns_DeactivateDeviceByToken (pg_notify up) t s = (r, s')"
  then show "np_devices_inv s' \<and>
      np_registry s' = (if isl r then np_registry s else (\<lambda>k. if snd k = t then None else np_registry s k))"
    by (intro np_deactivate_registry) (simp_all add: pg_notify_def)
next
  fix s u r s'
  assume "np_devices_inv s" "ns_ActiveDevicesForUser (pg_notify up) u s = (r, s')"
  then show "np_devices_inv s' \<and> np_registry s' = np_registry s \<and>
      (\<forall>ds. r = Inr ds \<longrightarrow> distinct (map device_key ds) \<and> set (map device_key ds) = {k. np_registry s k = Some u})"
    by (intro np_active_registry) (simp_all add: pg_notify_def)
qed

section \<open>Properties\<close>

definition no_devices :: "notify_pg \<Rightarrow> bool" where
  "no_devices s \<longleftrightarrow> np_devices s = []"

text \<open>C16: the registry of devices. Whatever the app registers and unregisters and the dispatcher prunes, and
  whichever of that fails, the devices at which a user is then notified are those whose last event that was
  done is a registration by this user, each of them once: a device is never notified for two users.\<close>

theorem device_registry_refines:
  assumes "no_devices s" and "device_run (pg_notify up) vs s = (bs, s')"
    and "ns_ActiveDevicesForUser (pg_notify up) u s' = (Inr ds, s'')"
  shows "distinct (map device_key ds) \<and>
    set (map device_key ds) = {k. registry_run (zip vs bs) (\<lambda>k. None) k = Some u}"
proof -
  have "np_devices_inv s" "np_registry s = (\<lambda>k. None)"
    using assms(1) by (simp_all add: no_devices_def np_devices_inv_def np_registry_def fun_eq_iff)
  with devices.run [OF _ assms(2)] have "np_devices_inv s'" "np_registry s' = registry_run (zip vs bs) (\<lambda>k. None)" by auto
  with devices.active [OF _ assms(3)] show ?thesis by auto
qed

text \<open>A phone changes hands, and the statement that would have unregistered another fails.\<close>

definition ex_registrations :: "device_event list" where
  "ex_registrations =
     [Register 0 \<lparr>dq_user_id = ''ann'', dq_platform = PLATFORM_IOS, dq_push_token = ''t1'', dq_app_version = []\<rparr>,
      Register 0 \<lparr>dq_user_id = ''ann'', dq_platform = PLATFORM_ANDROID, dq_push_token = ''t2'', dq_app_version = []\<rparr>,
      Register 0 \<lparr>dq_user_id = ''bob'', dq_platform = PLATFORM_IOS, dq_push_token = ''t1'', dq_app_version = []\<rparr>,
      Register 0 \<lparr>dq_user_id = ''bob'', dq_platform = PLATFORM_UNSPECIFIED, dq_push_token = ''t3'', dq_app_version = []\<rparr>,
      Unregister ''t2'']"

definition ex_registry :: notify_pg where
  "ex_registry = \<lparr>np_devices = [], np_outbox = [], np_uuids = [''d1'', ''d2'', ''d3''],
     np_faults = [False, False, False, True, False, False]\<rparr>"

theorem device_registry_refines_witness:
  "let (bs, s') = device_run (pg_notify Some) ex_registrations ex_registry;
       (r, _) = ns_ActiveDevicesForUser (pg_notify Some) ''ann'' s';
       (r', _) = ns_ActiveDevicesForUser (pg_notify Some) ''bob'' s' in
   bs = [True, True, True, False, False] \<and> (\<forall>ds. r = Inr ds \<longrightarrow> map dv_PushToken ds = [''t2'']) \<and>
   registry_run (zip ex_registrations bs) (\<lambda>k. None) (PlatformIOS, ''t1'') = Some ''bob'' \<and>
   (\<forall>ds. r = Inr ds \<longrightarrow> set (map device_key ds) = {k. registry_run (zip ex_registrations bs) (\<lambda>k. None) k = Some ''ann''})"
proof -
  obtain bs s' where run: "device_run (pg_notify Some) ex_registrations ex_registry = (bs, s')" by fastforce
  obtain r s1 where a: "ns_ActiveDevicesForUser (pg_notify Some) ''ann'' s' = (r, s1)" by fastforce
  have "fst (device_run (pg_notify Some) ex_registrations ex_registry) = [True, True, True, False, False]" by code_simp
  then have bs: "bs = [True, True, True, False, False]" by (simp add: run)
  have "map_sum id (map dv_PushToken) (fst (ns_ActiveDevicesForUser (pg_notify Some) ''ann''
      (snd (device_run (pg_notify Some) ex_registrations ex_registry)))) = Inr [''t2'']" by code_simp
  then have t: "map_sum id (map dv_PushToken) r = Inr [''t2'']" by (simp add: run a)
  have "registry_run (zip ex_registrations [True, True, True, False, False]) (\<lambda>k. None) (PlatformIOS, ''t1'') = Some ''bob''"
    by code_simp
  moreover have "r = Inr ds \<Longrightarrow> set (map device_key ds) = {k. registry_run (zip ex_registrations bs) (\<lambda>k. None) k = Some ''ann''}" for ds
    using a device_registry_refines [OF _ run, of "''ann''" ds s1] by (simp add: no_devices_def ex_registry_def)
  ultimately show ?thesis using t by (auto simp: run a bs)
qed

end
