(* ===== verification/Gateway_Handlers.thy ===== *)
theory Gateway_Handlers
  imports Gateway_Rest Poll_Server Identity_Server Surprise_Server Catalog_Server Notify_Server
begin

text \<open>
  The handlers, the middleware and the route table of the REST edge
  (\<open>services/backend/api-gateway/internal/transport/rest\<close>: \<open>auth_handlers.go\<close>, \<open>poll_handlers.go\<close>,
  \<open>generation_handlers.go\<close>, \<open>catalog_handlers.go\<close>, \<open>device_handlers.go\<close>, \<open>middleware.go\<close>,
  \<open>router.go\<close>).

  The five generated gRPC clients are the fields of \<open>clients\<close>: a call takes the outgoing metadata and
  the request and answers with a status or a response, changing the world \<open>'w\<close> behind it. A handler
  yields \<open>None\<close> when it panics.
\<close>

section \<open>The clients\<close>

text \<open>Times travel as text (\<open>tp_user\<close> is what \<open>GetUser\<close> yields, possibly nil).\<close>

record token_pair =
  tp_access_token :: string
  tp_refresh_token :: string
  tp_expires_in :: int
  tp_user :: "pb_user option"

record poll_created =
  pc_poll_id :: string
  pc_link_token :: string
  pc_link_url :: string
  pc_expires_at :: string

record poll_reply =
  py_id :: string
  py_answers :: "pb_answer list"
  py_submitted_at :: string

type_synonym ('q, 'a, 'w) rpc = "md option \<Rightarrow> 'q \<Rightarrow> 'w \<Rightarrow> (string status + 'a) \<times> 'w"

record 'w clients =
  dn_SignIn :: "(signin_req, token_pair, 'w) rpc"
  dn_RefreshToken :: "(string, refresh_rsp, 'w) rpc"
  dn_Revoke :: "(string \<times> string, unit, 'w) rpc"
  dn_GetMe :: "(unit, pb_user option, 'w) rpc"
  dn_CreatePoll :: "(create_req, poll_created, 'w) rpc"
  dn_GetPollByToken :: "(string, fetch_rsp, 'w) rpc"
  dn_SubmitResponse :: "(string \<times> pb_answer list, bool, 'w) rpc"
  dn_GetResponses :: "(string, poll_reply list, 'w) rpc"
  dn_RequestGeneration :: "(generation_rq, generation_rp, 'w) rpc"
  dn_GetGenerationStatus :: "(string, status_rp, 'w) rpc"
  dn_GetIdeas :: "(string, pb_idea list, 'w) rpc"
  dn_Refine :: "(string \<times> string, generation_rp, 'w) rpc"
  dn_SaveIdea :: "(string \<times> string, bool, 'w) rpc"
  dn_ListHolidays :: "(holiday_filter, holiday_pb list, 'w) rpc"
  dn_GetCategories :: "(category_kind_pb, category_pb list \<times> budget_band list, 'w) rpc"
  dn_RegisterDevice :: "(device_rq, string, 'w) rpc"

section \<open>The edge\<close>

record ('j, 'w) edge_options =
  op_clients :: "'w clients"
  op_lib :: "'j jwt_lib"
  op_CORSOrigins :: "string list"
  op_json_error :: "string \<Rightarrow> string"

text \<open>What a replica of the gateway holds, and the world behind its clients.\<close>

record 'w edge =
  ed_global :: limiter
  ed_ip :: limiter
  ed_user :: limiter
  ed_refresh :: limiter
  ed_verifier :: verifier
  ed_panics :: nat
  ed_down :: 'w

type_synonym 'w handler = "rest_request \<Rightarrow> 'w edge \<Rightarrow> reply option \<times> 'w edge"

text \<open>A call with the context of the request, and what every handler does with its outcome.\<close>

definition rpc_call ::
  "('q, 'a, 'w) rpc \<Rightarrow> 'q \<Rightarrow> rest_request \<Rightarrow> 'w edge \<Rightarrow> (string status + 'a) \<times> 'w edge" where
  "rpc_call f q r e = (let (a, w) = f (reqCtx r) q (ed_down e) in (a, e\<lparr>ed_down := w\<rparr>))"

definition answer :: "('a \<Rightarrow> reply) \<Rightarrow> (string status + 'a) \<times> 'w edge \<Rightarrow> reply option \<times> 'w edge" where
  "answer ok p = (case p of (Inl st, e) \<Rightarrow> (Some (writeGRPCError st), e) | (Inr a, e) \<Rightarrow> (Some (ok a), e))"

definition with_body ::
  "('j, 'w) edge_options \<Rightarrow> ('a \<Rightarrow> (string \<times> string) list \<Rightarrow> 'a option) \<Rightarrow> 'a \<Rightarrow> ('a \<Rightarrow> 'w handler) \<Rightarrow> 'w handler" where
  "with_body op members zero h r e =
     (case decodeJSON (op_json_error op) members zero r of Inl rp \<Rightarrow> (Some rp, e) | Inr v \<Rightarrow> h v r e)"

section \<open>Identity (auth\_handlers.go)\<close>

definition userToDTO :: "pb_user \<Rightarrow> json_tree" where
  "userToDTO u =
     JTObj ([(''id'', JTStr (pu_id u))] @ omit_str ''email'' (pu_email u)
       @ omit_str ''display_name'' (pu_display_name u) @ omit_str ''status'' (pu_status u))"

definition Provider_value :: "string \<Rightarrow> provider_enum" where
  "Provider_value s =
     (if s = ''PROVIDER_APPLE'' then PROVIDER_APPLE else if s = ''PROVIDER_GOOGLE'' then PROVIDER_GOOGLE
      else if s = ''PROVIDER_EMAIL'' then PROVIDER_EMAIL else PROVIDER_OTHER 0)"

record signInRequest =
  sb_provider :: string
  sb_id_token :: string
  sb_email :: string
  sb_password :: string

definition signIn_fields :: "signInRequest \<Rightarrow> (string \<times> string) list \<Rightarrow> signInRequest option" where
  "signIn_fields = strict [''provider'', ''id_token'', ''email'', ''password''] (\<lambda>b ms.
     Option.bind (field_into ''provider'' dec_string ms (sb_provider b)) (\<lambda>p.
     Option.bind (field_into ''id_token'' dec_string ms (sb_id_token b)) (\<lambda>i.
     Option.bind (field_into ''email'' dec_string ms (sb_email b)) (\<lambda>m.
     Option.bind (field_into ''password'' dec_string ms (sb_password b)) (\<lambda>w.
       Some \<lparr>sb_provider = p, sb_id_token = i, sb_email = m, sb_password = w\<rparr>)))))"

definition token_pair_json :: "token_pair \<Rightarrow> json_tree" where
  "token_pair_json t =
     JTObj ([(''access_token'', JTStr (tp_access_token t)), (''refresh_token'', JTStr (tp_refresh_token t)),
             (''expires_in'', JTInt (tp_expires_in t))]
       @ (case tp_user t of None \<Rightarrow> [] | Some u \<Rightarrow> [(''user'', userToDTO u)]))"

definition handleSignIn :: "('j, 'w) edge_options \<Rightarrow> 'w handler" where
  "handleSignIn op =
     with_body op signIn_fields \<lparr>sb_provider = [], sb_id_token = [], sb_email = [], sb_password = []\<rparr> (\<lambda>b r e.
       answer (\<lambda>t. writeJSON 200 (token_pair_json t))
         (rpc_call (dn_SignIn (op_clients op))
            \<lparr>sr_provider = Provider_value (sb_provider b), sr_id_token = sb_id_token b, sr_email = sb_email b,
             sr_password = sb_password b, sr_display_name = [], sr_device = []\<rparr> r e))"

text \<open>A body of one or two string fields.\<close>

definition one_field :: "string \<Rightarrow> string \<Rightarrow> (string \<times> string) list \<Rightarrow> string option" where
  "one_field f = strict [f] (\<lambda>b ms. field_into f dec_string ms b)"

definition two_fields ::
  "string \<Rightarrow> string \<Rightarrow> string \<times> string \<Rightarrow> (string \<times> string) list \<Rightarrow> (string \<times> string) option" where
  "two_fields f g = strict [f, g] (\<lambda>(a, b) ms.
     Option.bind (field_into f dec_string ms a) (\<lambda>a'. map_option (Pair a') (field_into g dec_string ms b)))"

definition handleRefresh :: "('j, 'w) edge_options \<Rightarrow> 'w handler" where
  "handleRefresh op =
     with_body op (one_field ''refresh_token'') [] (\<lambda>tok r e.
       answer (\<lambda>t. writeJSON 200 (token_pair_json
                 \<lparr>tp_access_token = rp_access_token t, tp_refresh_token = rp_refresh_token t,
                  tp_expires_in = rp_expires_in t, tp_user = None\<rparr>))
         (rpc_call (dn_RefreshToken (op_clients op)) tok r e))"

definition ok_json :: "bool \<Rightarrow> json_tree" where
  "ok_json b = JTObj [(''ok'', JTBool b)]"

definition handleRevoke :: "('j, 'w) edge_options \<Rightarrow> 'w handler" where
  "handleRevoke op =
     with_body op (two_fields ''refresh_token'' ''session_id'') ([], []) (\<lambda>b r e.
       answer (\<lambda>_. writeJSON 200 (ok_json True)) (rpc_call (dn_Revoke (op_clients op)) b r e))"

definition handleGetMe :: "('j, 'w) edge_options \<Rightarrow> 'w handler" where
  "handleGetMe op r e =
     answer (\<lambda>u. writeJSON 200 (JTObj [(''user'', case u of None \<Rightarrow> JTNull | Some u \<Rightarrow> userToDTO u)]))
       (rpc_call (dn_GetMe (op_clients op)) () r e)"

section \<open>Polls (poll\_handlers.go)\<close>

text \<open>\<open>optionDTO\<close> and \<open>answerDTO\<close> have the fields of the proto messages.\<close>

record questionDTO =
  qd_id :: string
  qd_prompt :: string
  qd_type :: string
  qd_options :: "pb_option list"
  qd_required :: bool

definition QuestionType_value :: "string \<Rightarrow> pb_question_type" where
  "QuestionType_value s =
     (if s = ''QUESTION_TYPE_TEXT'' then QT_TEXT else if s = ''QUESTION_TYPE_SINGLE_CHOICE'' then QT_SINGLE_CHOICE
      else if s = ''QUESTION_TYPE_MULTI_CHOICE'' then QT_MULTI_CHOICE else QT_UNSPECIFIED)"

fun QuestionType_String :: "pb_question_type \<Rightarrow> string" where
  "QuestionType_String QT_UNSPECIFIED = ''QUESTION_TYPE_UNSPECIFIED''"
| "QuestionType_String QT_TEXT = ''QUESTION_TYPE_TEXT''"
| "QuestionType_String QT_SINGLE_CHOICE = ''QUESTION_TYPE_SINGLE_CHOICE''"
| "QuestionType_String QT_MULTI_CHOICE = ''QUESTION_TYPE_MULTI_CHOICE''"
| "QuestionType_String (QT_OTHER i) = fmt_int i"

definition option_fields :: "pb_option \<Rightarrow> (string \<times> string) list \<Rightarrow> pb_option option" where
  "option_fields = strict [''id'', ''label''] (\<lambda>a ms.
     Option.bind (field_into ''id'' dec_string ms (pbo_id a)) (\<lambda>i.
     Option.bind (field_into ''label'' dec_string ms (pbo_label a)) (\<lambda>l.
       Some \<lparr>pbo_id = i, pbo_label = l\<rparr>)))"

definition zero_option :: pb_option where
  "zero_option = \<lparr>pbo_id = [], pbo_label = []\<rparr>"

definition question_fields :: "questionDTO \<Rightarrow> (string \<times> string) list \<Rightarrow> questionDTO option" where
  "question_fields = strict [''id'', ''prompt'', ''type'', ''options'', ''required''] (\<lambda>q ms.
     Option.bind (field_into ''id'' dec_string ms (qd_id q)) (\<lambda>i.
     Option.bind (field_into ''prompt'' dec_string ms (qd_prompt q)) (\<lambda>p.
     Option.bind (field_into ''type'' dec_string ms (qd_type q)) (\<lambda>t.
     Option.bind (field_into ''options'' (dec_list (dec_struct option_fields) zero_option) ms (qd_options q)) (\<lambda>os.
     Option.bind (field_into ''required'' dec_bool ms (qd_required q)) (\<lambda>rq.
       Some \<lparr>qd_id = i, qd_prompt = p, qd_type = t, qd_options = os, qd_required = rq\<rparr>))))))"

definition zero_question :: questionDTO where
  "zero_question = \<lparr>qd_id = [], qd_prompt = [], qd_type = [], qd_options = [], qd_required = False\<rparr>"

definition answer_fields :: "pb_answer \<Rightarrow> (string \<times> string) list \<Rightarrow> pb_answer option" where
  "answer_fields = strict [''question_id'', ''text'', ''choice_ids''] (\<lambda>a ms.
     Option.bind (field_into ''question_id'' dec_string ms (pba_question_id a)) (\<lambda>q.
     Option.bind (field_into ''text'' dec_string ms (pba_text a)) (\<lambda>t.
     Option.bind (field_into ''choice_ids'' (dec_list dec_string []) ms (pba_choice_ids a)) (\<lambda>cs.
       Some \<lparr>pba_question_id = q, pba_text = t, pba_choice_ids = cs\<rparr>))))"

definition zero_answer :: pb_answer where
  "zero_answer = \<lparr>pba_question_id = [], pba_text = [], pba_choice_ids = []\<rparr>"

definition questionToProto :: "questionDTO \<Rightarrow> pb_question" where
  "questionToProto q =
     \<lparr>pbq_id = qd_id q, pbq_prompt = qd_prompt q, pbq_type = QuestionType_value (qd_type q),
      pbq_options = qd_options q, pbq_required = qd_required q\<rparr>"

definition questionToDTO :: "pb_question \<Rightarrow> questionDTO" where
  "questionToDTO q =
     \<lparr>qd_id = pbq_id q, qd_prompt = pbq_prompt q, qd_type = QuestionType_String (pbq_type q),
      qd_options = pbq_options q, qd_required = pbq_required q\<rparr>"

definition option_json :: "pb_option \<Rightarrow> json_tree" where
  "option_json a = JTObj [(''id'', JTStr (pbo_id a)), (''label'', JTStr (pbo_label a))]"

definition question_json :: "questionDTO \<Rightarrow> json_tree" where
  "question_json q =
     JTObj ([(''id'', JTStr (qd_id q)), (''prompt'', JTStr (qd_prompt q))] @ omit_str ''type'' (qd_type q)
       @ omit_arr ''options'' (map option_json (qd_options q)) @ [(''required'', JTBool (qd_required q))])"

definition answer_json :: "pb_answer \<Rightarrow> json_tree" where
  "answer_json a =
     JTObj ([(''question_id'', JTStr (pba_question_id a))] @ omit_str ''text'' (pba_text a)
       @ omit_arr ''choice_ids'' (map JTStr (pba_choice_ids a)))"

record createPollRequest =
  cp_title :: string
  cp_questions :: "questionDTO list"
  cp_surprise_request_id :: string
  cp_ttl_seconds :: int

definition createPoll_fields :: "createPollRequest \<Rightarrow> (string \<times> string) list \<Rightarrow> createPollRequest option" where
  "createPoll_fields = strict [''title'', ''questions'', ''surprise_request_id'', ''ttl_seconds''] (\<lambda>b ms.
     Option.bind (field_into ''title'' dec_string ms (cp_title b)) (\<lambda>t.
     Option.bind (field_into ''questions'' (dec_list (dec_struct question_fields) zero_question) ms (cp_questions b)) (\<lambda>qs.
     Option.bind (field_into ''surprise_request_id'' dec_string ms (cp_surprise_request_id b)) (\<lambda>s.
     Option.bind (field_into ''ttl_seconds'' (dec_int 64) ms (cp_ttl_seconds b)) (\<lambda>l.
       Some \<lparr>cp_title = t, cp_questions = qs, cp_surprise_request_id = s, cp_ttl_seconds = l\<rparr>)))))"

definition handleCreatePoll :: "('j, 'w) edge_options \<Rightarrow> 'w handler" where
  "handleCreatePoll op =
     with_body op createPoll_fields \<lparr>cp_title = [], cp_questions = [], cp_surprise_request_id = [], cp_ttl_seconds = 0\<rparr> (\<lambda>b r e.
       answer (\<lambda>c. writeJSON 201 (JTObj [(''poll_id'', JTStr (pc_poll_id c)), (''link_token'', JTStr (pc_link_token c)),
                     (''link_url'', JTStr (pc_link_url c)), (''expires_at'', JTStr (pc_expires_at c))]))
         (rpc_call (dn_CreatePoll (op_clients op))
            \<lparr>cr_title = cp_title b, cr_surprise_request_id = cp_surprise_request_id b,
             cr_questions = map questionToProto (cp_questions b), cr_ttl_seconds = cp_ttl_seconds b\<rparr> r e))"

definition poll_reply_json :: "poll_reply \<Rightarrow> json_tree" where
  "poll_reply_json p =
     JTObj [(''id'', JTStr (py_id p)), (''answers'', JTArr (map answer_json (py_answers p))),
            (''submitted_at'', JTStr (py_submitted_at p))]"

definition handleGetResponses :: "('j, 'w) edge_options \<Rightarrow> 'w handler" where
  "handleGetResponses op r e =
     answer (\<lambda>rs. writeJSON 200 (JTObj [(''responses'', JTArr (map poll_reply_json rs))]))
       (rpc_call (dn_GetResponses (op_clients op)) (PathValue ''id'' r) r e)"

definition handleGetPollByToken :: "('j, 'w) edge_options \<Rightarrow> 'w handler" where
  "handleGetPollByToken op r e =
     answer (\<lambda>p. writeJSON 200 (JTObj [(''poll_id'', JTStr (fs_poll_id p)), (''title'', JTStr (fs_title p)),
                   (''questions'', JTArr (map (\<lambda>q. question_json (questionToDTO q)) (fs_questions p)))]))
       (rpc_call (dn_GetPollByToken (op_clients op)) (PathValue ''t'' r) r e)"

definition submit_fields :: "pb_answer list \<Rightarrow> (string \<times> string) list \<Rightarrow> pb_answer list option" where
  "submit_fields = strict [''answers''] (\<lambda>as ms.
     field_into ''answers'' (dec_list (dec_struct answer_fields) zero_answer) ms as)"

definition handleSubmitResponse :: "('j, 'w) edge_options \<Rightarrow> 'w handler" where
  "handleSubmitResponse op =
     with_body op submit_fields [] (\<lambda>as r e.
       answer (\<lambda>ok. writeJSON 200 (ok_json ok))
         (rpc_call (dn_SubmitResponse (op_clients op)) (PathValue ''t'' r, as) r e))"

section \<open>Generations (generation\_handlers.go)\<close>

record requestGenerationRequest =
  gb_holiday_id :: string
  gb_budget_band :: string
  gb_preferences_text :: string
  gb_poll_id :: string
  gb_tier :: string

definition generation_fields ::
  "requestGenerationRequest \<Rightarrow> (string \<times> string) list \<Rightarrow> requestGenerationRequest option" where
  "generation_fields = strict [''holiday_id'', ''budget_band'', ''preferences_text'', ''poll_id'', ''tier''] (\<lambda>b ms.
     Option.bind (field_into ''holiday_id'' dec_string ms (gb_holiday_id b)) (\<lambda>h.
     Option.bind (field_into ''budget_band'' dec_string ms (gb_budget_band b)) (\<lambda>k.
     Option.bind (field_into ''preferences_text'' dec_string ms (gb_preferences_text b)) (\<lambda>p.
     Option.bind (field_into ''poll_id'' dec_string ms (gb_poll_id b)) (\<lambda>q.
     Option.bind (field_into ''tier'' dec_string ms (gb_tier b)) (\<lambda>t.
       Some \<lparr>gb_holiday_id = h, gb_budget_band = k, gb_preferences_text = p, gb_poll_id = q, gb_tier = t\<rparr>))))))"

definition ModelTier_value :: "string \<Rightarrow> pb_tier" where
  "ModelTier_value s =
     (if s = ''MODEL_TIER_SONNET'' then MT_SONNET else if s = ''MODEL_TIER_OPUS'' then MT_OPUS else MT_UNSPECIFIED)"

fun GenerationStatus_String :: "pb_gen_status \<Rightarrow> string" where
  "GenerationStatus_String GS_UNSPECIFIED = ''GENERATION_STATUS_UNSPECIFIED''"
| "GenerationStatus_String GS_QUEUED = ''GENERATION_STATUS_QUEUED''"
| "GenerationStatus_String GS_RUNNING = ''GENERATION_STATUS_RUNNING''"
| "GenerationStatus_String GS_READY = ''GENERATION_STATUS_READY''"
| "GenerationStatus_String GS_FAILED = ''GENERATION_STATUS_FAILED''"

text \<open>A \<open>map[string]string\<close>: encoded in the order of its keys.\<close>

definition accepted_json :: "generation_rp \<Rightarrow> json_tree" where
  "accepted_json g =
     go_map [(''request_id'', JTStr (gp_request_id g)), (''status'', JTStr (GenerationStatus_String (gp_status g)))]"

definition handleRequestGeneration :: "('j, 'w) edge_options \<Rightarrow> 'w handler" where
  "handleRequestGeneration op =
     with_body op generation_fields
       \<lparr>gb_holiday_id = [], gb_budget_band = [], gb_preferences_text = [], gb_poll_id = [], gb_tier = []\<rparr> (\<lambda>b r e.
       answer (\<lambda>g. writeJSON 202 (accepted_json g))
         (rpc_call (dn_RequestGeneration (op_clients op))
            \<lparr>gn_user_id = subjectFrom r, gn_holiday_id = gb_holiday_id b, gn_budget_band = gb_budget_band b,
             gn_preferences_text = gb_preferences_text b, gn_poll_id = gb_poll_id b,
             gn_tier = ModelTier_value (gb_tier b), gn_idempotency_key = header_Get ''Idempotency-Key'' r\<rparr> r e))"

text \<open>\<open>rank\<close> and \<open>progress\<close> are converted from uint32 to int32.\<close>

definition ideaToDTO :: "pb_idea \<Rightarrow> json_tree" where
  "ideaToDTO i =
     JTObj [(''id'', JTStr (pi_id i)), (''title'', JTStr (pi_title i)), (''why_it_fits'', JTStr (pi_why_it_fits i)),
            (''rough_cost'', JTStr (pi_rough_cost i)), (''how_to'', JTStr (pi_how_to i)), (''rank'', JTInt (sint (pi_rank i)))]"

definition generation_status_json :: "string \<Rightarrow> status_rp \<Rightarrow> pb_idea list \<Rightarrow> json_tree" where
  "generation_status_json requestID s ideas =
     JTObj ([(''request_id'', JTStr requestID), (''status'', JTStr (GenerationStatus_String (sp_status s))),
             (''progress'', JTInt (sint (sp_progress s)))] @ omit_arr ''ideas'' (map ideaToDTO ideas))"

definition handleGetGeneration :: "('j, 'w) edge_options \<Rightarrow> 'w handler" where
  "handleGetGeneration op r e =
     (let requestID = PathValue ''id'' r in
      case rpc_call (dn_GetGenerationStatus (op_clients op)) requestID r e of
        (Inl st, e1) \<Rightarrow> (Some (writeGRPCError st), e1)
      | (Inr s, e1) \<Rightarrow>
          (if sp_status s = GS_READY then
             answer (\<lambda>ideas. writeJSON 200 (generation_status_json requestID s ideas))
               (rpc_call (dn_GetIdeas (op_clients op)) requestID r e1)
           else (Some (writeJSON 200 (generation_status_json requestID s [])), e1)))"

definition handleRefine :: "('j, 'w) edge_options \<Rightarrow> 'w handler" where
  "handleRefine op =
     with_body op (one_field ''refinement'') [] (\<lambda>text r e.
       answer (\<lambda>g. writeJSON 202 (accepted_json g))
         (rpc_call (dn_Refine (op_clients op)) (PathValue ''id'' r, text) r e))"

definition handleSaveIdea :: "('j, 'w) edge_options \<Rightarrow> 'w handler" where
  "handleSaveIdea op r e =
     answer (\<lambda>ok. writeJSON 200 (ok_json ok))
       (rpc_call (dn_SaveIdea (op_clients op)) (subjectFrom r, PathValue ''id'' r) r e)"

section \<open>Reference data (catalog\_handlers.go)\<close>

fun DateRule_String :: "date_rule_pb \<Rightarrow> string" where
  "DateRule_String DATE_RULE_UNSPECIFIED = ''DATE_RULE_UNSPECIFIED''"
| "DateRule_String DATE_RULE_FIXED = ''DATE_RULE_FIXED''"
| "DateRule_String DATE_RULE_RELATIVE = ''DATE_RULE_RELATIVE''"

definition CategoryKind_value :: "string \<Rightarrow> category_kind_pb" where
  "CategoryKind_value s =
     (if s = ''CATEGORY_KIND_GIFT'' then CATEGORY_KIND_GIFT else if s = ''CATEGORY_KIND_DATE'' then CATEGORY_KIND_DATE
      else CATEGORY_KIND_UNSPECIFIED)"

fun CategoryKind_String :: "category_kind_pb \<Rightarrow> string" where
  "CategoryKind_String CATEGORY_KIND_UNSPECIFIED = ''CATEGORY_KIND_UNSPECIFIED''"
| "CategoryKind_String CATEGORY_KIND_GIFT = ''CATEGORY_KIND_GIFT''"
| "CategoryKind_String CATEGORY_KIND_DATE = ''CATEGORY_KIND_DATE''"

definition holiday_json :: "holiday_pb \<Rightarrow> json_tree" where
  "holiday_json h =
     JTObj ([(''id'', JTStr (hpb_id h)), (''name'', JTStr (hpb_name h))]
       @ omit_str ''date_rule'' (DateRule_String (hpb_date_rule h)) @ omit_str ''region'' (hpb_region h)
       @ omit_arr ''tags'' (map JTStr (hpb_tags h)) @ [(''active'', JTBool (hpb_active h))])"

definition handleListHolidays :: "('j, 'w) edge_options \<Rightarrow> 'w handler" where
  "handleListHolidays op r e =
     (let v = query_Get ''active'' r in
      answer (\<lambda>hs. writeJSON 200 (JTObj [(''holidays'', JTArr (map holiday_json hs))]))
        (rpc_call (dn_ListHolidays (op_clients op))
           \<lparr>hf_Region = query_Get ''region'' r, hf_Active = (if v \<noteq> [] then Some (ParseBool v) else None),
            hf_OnOrAfter = query_Get ''on_or_after'' r\<rparr> r e))"

definition category_json :: "category_pb \<Rightarrow> json_tree" where
  "category_json c =
     JTObj ([(''id'', JTStr (cpb_id c)), (''name'', JTStr (cpb_name c))]
       @ omit_str ''kind'' (CategoryKind_String (cpb_kind c)) @ omit_str ''parent_id'' (cpb_parent_id c))"

definition band_json :: "budget_band \<Rightarrow> json_tree" where
  "band_json b =
     JTObj ([(''id'', JTStr (bb_ID b)), (''label'', JTStr (bb_Label b)), (''min'', JTInt (bb_MinCents b)),
             (''max'', JTInt (bb_MaxCents b))] @ omit_str ''currency'' (bb_Currency b))"

definition handleGetCategories :: "('j, 'w) edge_options \<Rightarrow> 'w handler" where
  "handleGetCategories op r e =
     answer (\<lambda>(cs, bs). writeJSON 200 (go_map [(''categories'', JTArr (map category_json cs)),
                          (''budget_bands'', JTArr (map band_json bs))]))
       (rpc_call (dn_GetCategories (op_clients op)) (CategoryKind_value (query_Get ''kind'' r)) r e)"

section \<open>Devices (device\_handlers.go)\<close>

record registerDeviceRequest =
  db_platform :: string
  db_push_token :: string
  db_app_version :: string

definition device_fields :: "registerDeviceRequest \<Rightarrow> (string \<times> string) list \<Rightarrow> registerDeviceRequest option" where
  "device_fields = strict [''platform'', ''push_token'', ''app_version''] (\<lambda>b ms.
     Option.bind (field_into ''platform'' dec_string ms (db_platform b)) (\<lambda>p.
     Option.bind (field_into ''push_token'' dec_string ms (db_push_token b)) (\<lambda>t.
     Option.bind (field_into ''app_version'' dec_string ms (db_app_version b)) (\<lambda>v.
       Some \<lparr>db_platform = p, db_push_token = t, db_app_version = v\<rparr>))))"

definition Platform_value :: "string \<Rightarrow> pb_platform" where
  "Platform_value s =
     (if s = ''PLATFORM_IOS'' then PLATFORM_IOS else if s = ''PLATFORM_ANDROID'' then PLATFORM_ANDROID
      else PLATFORM_UNSPECIFIED)"

definition handleRegisterDevice :: "('j, 'w) edge_options \<Rightarrow> 'w handler" where
  "handleRegisterDevice op =
     with_body op device_fields \<lparr>db_platform = [], db_push_token = [], db_app_version = []\<rparr> (\<lambda>b r e.
       answer (\<lambda>i. writeJSON 201 (JTObj [(''device_id'', JTStr i)]))
         (rpc_call (dn_RegisterDevice (op_clients op))
            \<lparr>dq_user_id = subjectFrom r, dq_platform = Platform_value (db_platform b),
             dq_push_token = db_push_token b, dq_app_version = db_app_version b\<rparr> r e))"

section \<open>Middleware (middleware.go)\<close>

definition requireJWT :: "('j, 'w) edge_options \<Rightarrow> 'w handler \<Rightarrow> 'w handler" where
  "requireJWT op nxt r e =
     (case bearerToken r of
        None \<Rightarrow> (Some (writeError 401 ''unauthenticated'' ''missing or malformed bearer token''), e)
      | Some token \<Rightarrow>
          (case Verify (op_lib op) (rq_verify r) token (ed_verifier e) of
             None \<Rightarrow> (None, e)
           | Some (Inl _, v) \<Rightarrow> (Some (writeError 401 ''unauthenticated'' ''invalid token''), e\<lparr>ed_verifier := v\<rparr>)
           | Some (Inr c, v) \<Rightarrow>
               (let e1 = e\<lparr>ed_verifier := v\<rparr>;
                    (ok, l) = limiter_Allow (''user:'' @ cl_Subject c) (rq_t_route r) (ed_user e1);
                    e2 = e1\<lparr>ed_user := l\<rparr> in
                if \<not> ok then (Some (writeError 429 ''rate_limited'' ''per-user rate limit exceeded''), e2)
                else nxt (r\<lparr>rq_subject := cl_Subject c\<rparr>) e2)))"

definition limitRefresh :: "'w handler \<Rightarrow> 'w handler" where
  "limitRefresh nxt r e =
     (let (ok, l) = limiter_Allow (''refresh:'' @ gw_clientIP r) (rq_t_route r) (ed_refresh e);
          e1 = e\<lparr>ed_refresh := l\<rparr> in
      if \<not> ok then (Some (writeError 429 ''rate_limited'' ''refresh rate limit exceeded''), e1) else nxt r e1)"

definition globalLimitMW :: "'w handler \<Rightarrow> 'w handler" where
  "globalLimitMW nxt r e =
     (let (ok, l) = limiter_Allow ''global'' (rq_t_global r) (ed_global e); e1 = e\<lparr>ed_global := l\<rparr> in
      if \<not> ok then (Some (writeError 429 ''rate_limited'' ''global rate limit exceeded''), e1)
      else
        let (ok, l) = limiter_Allow (''ip:'' @ gw_clientIP r) (rq_t_ip r) (ed_ip e1); e2 = e1\<lparr>ed_ip := l\<rparr> in
        if \<not> ok then (Some (writeError 429 ''rate_limited'' ''per-IP rate limit exceeded''), e2) else nxt r e2)"

text \<open>A recovered panic is logged with \<open>slog.Error\<close>: \<open>ed_panics\<close> counts these records.\<close>

definition recoverMW :: "'w handler \<Rightarrow> rest_request \<Rightarrow> 'w edge \<Rightarrow> reply \<times> 'w edge" where
  "recoverMW nxt r e =
     (case nxt r e of
        (None, e1) \<Rightarrow> (writeError 500 ''internal'' ''internal server error'', e1\<lparr>ed_panics := Suc (ed_panics e1)\<rparr>)
      | (Some rp, e1) \<Rightarrow> (rp, e1))"

definition originAllowed :: "('j, 'w) edge_options \<Rightarrow> string \<Rightarrow> bool" where
  "originAllowed op origin \<longleftrightarrow> ''*'' \<in> set (op_CORSOrigins op) \<or> origin \<in> set (op_CORSOrigins op)"

text \<open>The handlers it wraps do not panic.\<close>

definition cors :: "('j, 'w) edge_options \<Rightarrow> 'w handler \<Rightarrow> 'w handler" where
  "cors op nxt r e =
     (let origin = header_Get ''Origin'' r;
          hs = (if origin \<noteq> [] \<and> originAllowed op origin
                then [(''Access-Control-Allow-Origin'', origin), (''Vary'', ''Origin''),
                      (''Access-Control-Allow-Methods'', ''GET, POST, OPTIONS''),
                      (''Access-Control-Allow-Headers'', ''Content-Type''), (''Access-Control-Max-Age'', ''600'')]
                else []) in
      map_prod (map_option (\<lambda>rp. rp\<lparr>rp_headers := hs @ rp_headers rp\<rparr>)) id (nxt r e))"

definition handleCORSPreflight :: "'w handler" where
  "handleCORSPreflight r e = (Some \<lparr>rp_status = 204, rp_headers = [], rp_body = NoBody\<rparr>, e)"

section \<open>The route table (router.go)\<close>

definition healthz :: "'w handler" where
  "healthz r e = (Some (writeJSON 200 (JTObj [(''status'', JTStr ''ok'')])), e)"

definition at :: "string \<Rightarrow> seg list \<Rightarrow> 'w handler \<Rightarrow> 'w handler route" where
  "at m ss h = \<lparr>rt_method = m, rt_segs = ss, rt_handler = h\<rparr>"

definition main_routes :: "('j, 'w) edge_options \<Rightarrow> 'w handler route list" where
  "main_routes op =
     [at ''POST'' [Lit ''v1'', Lit ''auth'', Lit ''signin''] (handleSignIn op),
      at ''POST'' [Lit ''v1'', Lit ''auth'', Lit ''refresh''] (limitRefresh (handleRefresh op)),
      at ''POST'' [Lit ''v1'', Lit ''auth'', Lit ''revoke''] (requireJWT op (handleRevoke op)),
      at ''GET'' [Lit ''v1'', Lit ''me''] (requireJWT op (handleGetMe op)),
      at ''POST'' [Lit ''v1'', Lit ''polls''] (requireJWT op (handleCreatePoll op)),
      at ''GET'' [Lit ''v1'', Lit ''polls'', Wild ''id'', Lit ''responses''] (requireJWT op (handleGetResponses op)),
      at ''POST'' [Lit ''v1'', Lit ''generations''] (requireJWT op (handleRequestGeneration op)),
      at ''GET'' [Lit ''v1'', Lit ''generations'', Wild ''id''] (requireJWT op (handleGetGeneration op)),
      at ''POST'' [Lit ''v1'', Lit ''generations'', Wild ''id'', Lit ''refine''] (requireJWT op (handleRefine op)),
      at ''POST'' [Lit ''v1'', Lit ''ideas'', Wild ''id'', Lit ''save''] (requireJWT op (handleSaveIdea op)),
      at ''GET'' [Lit ''v1'', Lit ''holidays''] (requireJWT op (handleListHolidays op)),
      at ''GET'' [Lit ''v1'', Lit ''categories''] (requireJWT op (handleGetCategories op)),
      at ''POST'' [Lit ''v1'', Lit ''devices''] (requireJWT op (handleRegisterDevice op)),
      at ''GET'' [Lit ''healthz''] healthz]"

definition token_path :: "seg list" where
  "token_path = [Lit ''v1'', Lit ''polls'', Lit ''token'', Wild ''t'']"

definition token_routes :: "('j, 'w) edge_options \<Rightarrow> 'w handler route list" where
  "token_routes op =
     [at ''GET'' token_path (cors op (handleGetPollByToken op)),
      at ''OPTIONS'' token_path (cors op handleCORSPreflight),
      at ''POST'' (token_path @ [Lit ''responses'']) (cors op (handleSubmitResponse op)),
      at ''OPTIONS'' (token_path @ [Lit ''responses'']) (cors op handleCORSPreflight)]"

definition mux_ServeHTTP :: "'w handler route list \<Rightarrow> 'w handler" where
  "mux_ServeHTTP routes r e =
     (case mux_find routes r of Inl rp \<Rightarrow> (Some rp, e) | Inr (h, vs) \<Rightarrow> h (r\<lparr>rq_values := vs\<rparr>) e)"

definition routeRoot :: "('j, 'w) edge_options \<Rightarrow> 'w handler" where
  "routeRoot op r e =
     (if HasPrefix (url_Path r) ''/v1/polls/token/'' then mux_ServeHTTP (token_routes op) r e
      else mux_ServeHTTP (main_routes op) r e)"

text \<open>\<open>Handler\<close>: a request arrives without a subject and without path values.\<close>

definition gw_serve :: "('j, 'w) edge_options \<Rightarrow> rest_request \<Rightarrow> 'w edge \<Rightarrow> reply \<times> 'w edge" where
  "gw_serve op r e = recoverMW (globalLimitMW (routeRoot op)) (r\<lparr>rq_subject := [], rq_values := []\<rparr>) e"

fun gw_run :: "('j, 'w) edge_options \<Rightarrow> rest_request list \<Rightarrow> 'w edge \<Rightarrow> reply list \<times> 'w edge" where
  "gw_run op [] e = ([], e)"
| "gw_run op (r # rs) e =
     (let (rp, e1) = gw_serve op r e; (rps, e2) = gw_run op rs e1 in (rp # rps, e2))"

end
