(* ===== verification/Gateway_Spec.thy ===== *)
theory Gateway_Spec
  imports Gateway_Handlers
begin

text \<open>
  What the REST edge guarantees: which calls it makes on whose behalf, what its replies look like, whom
  its limits hold, and what its clients can count on together with the services behind it.
\<close>

section \<open>How handlers move the world behind the clients\<close>

text \<open>One request: what the limited multiplexer did, and the reply for it.\<close>

lemma serve_cases:
  assumes "gw_serve op r e = (rp, e')"
  shows "\<exists>a e1. globalLimitMW (routeRoot op) (r\<lparr>rq_subject := [], rq_values := []\<rparr>) e = (a, e1) \<and>
    rp = (case a of None \<Rightarrow> writeError 500 ''internal'' ''internal server error'' | Some x \<Rightarrow> x) \<and>
    e' = (if a = None then e1\<lparr>ed_panics := Suc (ed_panics e1)\<rparr> else e1)"
  using assms by (auto simp: gw_serve_def recoverMW_def split: prod.splits option.splits)

text \<open>\<open>moves R h\<close>: whatever request and verifier the handler meets, it takes the world to one that \<open>R\<close>
  allows.\<close>

definition moves :: "(rest_request \<Rightarrow> verifier \<Rightarrow> 'w \<Rightarrow> 'w \<Rightarrow> bool) \<Rightarrow> 'w handler \<Rightarrow> bool" where
  "moves R h \<longleftrightarrow> (\<forall>r e rp e'. h r e = (rp, e') \<longrightarrow> R r (ed_verifier e) (ed_down e) (ed_down e'))"

lemma movesI: "(\<And>r e rp e'. h r e = (rp, e') \<Longrightarrow> R r (ed_verifier e) (ed_down e) (ed_down e')) \<Longrightarrow> moves R h"
  by (simp add: moves_def)

lemma movesD: "moves R h \<Longrightarrow> h r e = (rp, e') \<Longrightarrow> R r (ed_verifier e) (ed_down e) (ed_down e')"
  by (simp add: moves_def)

lemma moves_weaken: "moves P h \<Longrightarrow> (\<And>r v w w'. P r v w w' \<Longrightarrow> R r v w w') \<Longrightarrow> moves R h"
  by (simp add: moves_def)

named_theorems moves_intros \<open>what handlers do to the world\<close>

lemma answer_down: "answer ok p = (rp, e') \<Longrightarrow> e' = snd p"
  by (auto simp: answer_def split: prod.splits sum.splits)

lemma rpc_call_down: "rpc_call f q r e = (a, e') \<Longrightarrow> ed_down e' = snd (f (reqCtx r) q (ed_down e))"
  by (auto simp: rpc_call_def split: prod.splits)

lemma moves_answer [moves_intros]:
  assumes "\<And>r v w. R r v w (snd (f (reqCtx r) (q r) w))"
  shows "moves R (\<lambda>r e. answer (ok r) (rpc_call f (q r) r e))"
proof (rule movesI)
  fix r e rp e'
  assume h: "answer (ok r) (rpc_call f (q r) r e) = (rp, e')"
  obtain a e1 where c: "rpc_call f (q r) r e = (a, e1)" by fastforce
  then have "e' = e1" using answer_down [OF h] by simp
  then show "R r (ed_verifier e) (ed_down e) (ed_down e')" using rpc_call_down [OF c] assms by simp
qed

lemma mux_find_route:
  "mux_find routes r = Inr (h, vs) \<Longrightarrow>
   \<exists>t \<in> set routes. h = rt_handler t \<and> method_match (rt_method t) (rq_Method r) \<and>
     match_segs (rt_segs t) (mux_segments (rq_path r)) = Some vs"
  unfolding mux_find_def Let_def by (simp split: if_splits option.splits; drule find_SomeD; auto)

locale edge_relation =
  fixes R :: "rest_request \<Rightarrow> verifier \<Rightarrow> 'w \<Rightarrow> 'w \<Rightarrow> bool"
  assumes stays: "R r v w w"
    and trans: "R r v w w' \<Longrightarrow> R r v w' w'' \<Longrightarrow> R r v w w''"
    and any_values: "R (r\<lparr>rq_values := vs\<rparr>) v w w' \<Longrightarrow> R r v w w'"
begin

lemma with_body: "(\<And>b. moves R (h b)) \<Longrightarrow> moves R (with_body op m z h)"
  using stays by (auto simp: moves_def with_body_def split: sum.splits)

lemma no_call: "(\<And>r e. snd (h r e) = e) \<Longrightarrow> moves R h"
  by (rule movesI) (metis snd_conv stays)

lemma limitRefresh: "moves R h \<Longrightarrow> moves R (limitRefresh h)"
  using stays by (fastforce simp: moves_def limitRefresh_def Let_def split: prod.splits if_splits)

lemma globalLimitMW: "moves R h \<Longrightarrow> moves R (globalLimitMW h)"
  using stays by (fastforce simp: moves_def globalLimitMW_def Let_def split: prod.splits if_splits)

lemma cors: "moves R h \<Longrightarrow> moves R (cors op h)"
  by (fastforce simp: moves_def cors_def Let_def map_prod_def split: prod.splits)

lemma generation:
  assumes "\<And>r v w. R r v w (snd (dn_GetGenerationStatus (op_clients op) (reqCtx r) (PathValue ''id'' r) w))"
    and "\<And>r v w. R r v w (snd (dn_GetIdeas (op_clients op) (reqCtx r) (PathValue ''id'' r) w))"
  shows "moves R (handleGetGeneration op)"
proof (rule movesI)
  fix r rp e e'
  assume h: "handleGetGeneration op r e = (rp, e')"
  let ?i = "PathValue ''id'' r"
  obtain a e1 where st: "rpc_call (dn_GetGenerationStatus (op_clients op)) ?i r e = (a, e1)" by fastforce
  obtain b e2 where id: "rpc_call (dn_GetIdeas (op_clients op)) ?i r e1 = (b, e2)" by fastforce
  have "R r (ed_verifier e) (ed_down e) (ed_down e1)" "R r (ed_verifier e) (ed_down e1) (ed_down e2)"
    using assms by (simp_all add: rpc_call_down [OF st] rpc_call_down [OF id])
  moreover have "e' = e1 \<or> e' = e2"
    using h answer_down by (fastforce simp: handleGetGeneration_def Let_def st id split: sum.splits if_splits)
  ultimately show "R r (ed_verifier e) (ed_down e) (ed_down e')" using trans by blast
qed

text \<open>A handler behind \<open>requireJWT\<close> works for the subject of a verified token.\<close>

lemma requireJWT:
  assumes "moves P h"
    and "\<And>r v token c v' u w w'. bearerToken r = Some token \<Longrightarrow>
      Verify (op_lib op) (rq_verify r) token v = Some (Inr c, v') \<Longrightarrow>
      P (r\<lparr>rq_subject := cl_Subject c\<rparr>) u w w' \<Longrightarrow> R r v w w'"
  shows "moves R (requireJWT op h)"
proof (rule movesI)
  fix r rp e e'
  assume h: "requireJWT op h r e = (rp, e')"
  consider (stopped) "ed_down e' = ed_down e"
    | (passed) token c v e2 where "bearerToken r = Some token"
        "Verify (op_lib op) (rq_verify r) token (ed_verifier e) = Some (Inr c, v)"
        "h (r\<lparr>rq_subject := cl_Subject c\<rparr>) e2 = (rp, e')" "ed_down e2 = ed_down e"
    using h by (fastforce simp: requireJWT_def Let_def split: option.splits sum.splits prod.splits if_splits)
  then show "R r (ed_verifier e) (ed_down e) (ed_down e')"
  proof cases
    case stopped
    then show ?thesis using stays by simp
  next
    case passed
    from movesD [OF assms(1) passed(3)] passed(4) assms(2) [OF passed(1,2)] show ?thesis by simp
  qed
qed

lemma mux:
  assumes "\<forall>t \<in> set routes. moves R (rt_handler t)"
  shows "moves R (mux_ServeHTTP routes)"
proof (rule movesI)
  fix r rp e e'
  assume h: "mux_ServeHTTP routes r e = (rp, e')"
  show "R r (ed_verifier e) (ed_down e) (ed_down e')"
  proof (cases "mux_find routes r")
    case (Inl a)
    then show ?thesis using h stays by (simp add: mux_ServeHTTP_def)
  next
    case (Inr p)
    obtain g vs where p: "p = (g, vs)" by (cases p)
    from mux_find_route [OF Inr [unfolded p]] assms have "moves R g" by auto
    from movesD [OF this, of "r\<lparr>rq_values := vs\<rparr>" e rp e'] h any_values
    show ?thesis by (simp add: mux_ServeHTTP_def Inr p)
  qed
qed

lemma root:
  assumes "\<forall>t \<in> set (main_routes op). moves R (rt_handler t)" and "\<forall>t \<in> set (token_routes op). moves R (rt_handler t)"
  shows "moves R (globalLimitMW (routeRoot op))"
proof (rule globalLimitMW)
  show "moves R (routeRoot op)"
    using movesD [OF mux [OF assms(1)]] movesD [OF mux [OF assms(2)]]
    by (auto intro!: movesI simp: routeRoot_def split: if_splits)
qed

lemma serve:
  assumes "moves R (globalLimitMW (routeRoot op))" and "gw_serve op r e = (rp, e')"
  shows "R (r\<lparr>rq_subject := [], rq_values := []\<rparr>) (ed_verifier e) (ed_down e) (ed_down e')"
proof -
  from serve_cases [OF assms(2)] obtain a e1 where
    "globalLimitMW (routeRoot op) (r\<lparr>rq_subject := [], rq_values := []\<rparr>) e = (a, e1)" "ed_down e' = ed_down e1" by auto
  from movesD [OF assms(1) this(1)] this(2) show ?thesis by simp
qed

end

lemma request_update [simp]:
  "header_Get k (r\<lparr>rq_values := vs\<rparr>) = header_Get k r" "header_Get k (r\<lparr>rq_subject := s\<rparr>) = header_Get k r"
  "bearerToken (r\<lparr>rq_values := vs\<rparr>) = bearerToken r" "bearerToken (r\<lparr>rq_subject := s\<rparr>) = bearerToken r"
  "gw_clientIP (r\<lparr>rq_values := vs\<rparr>) = gw_clientIP r" "gw_clientIP (r\<lparr>rq_subject := s\<rparr>) = gw_clientIP r"
  "url_Path (r\<lparr>rq_values := vs\<rparr>) = url_Path r" "url_Path (r\<lparr>rq_subject := s\<rparr>) = url_Path r"
  by (simp_all add: header_Get_def bearerToken_def gw_clientIP_def url_Path_def Let_def split: option.split)

lemma reqCtx_values [simp]: "reqCtx (r\<lparr>rq_values := vs\<rparr>) = reqCtx r"
  by (simp add: reqCtx_def subjectFrom_def)

section \<open>Recording the calls to the services\<close>

text \<open>Clients that keep a log of what was sent: the metadata and the request.\<close>

datatype rpc_request =
    ToSignIn signin_req | ToRefreshToken string | ToRevoke "string \<times> string" | ToGetMe
  | ToCreatePoll create_req | ToGetPollByToken string | ToSubmitResponse "string \<times> pb_answer list"
  | ToGetResponses string | ToRequestGeneration generation_rq | ToGetGenerationStatus string
  | ToGetIdeas string | ToRefine "string \<times> string" | ToSaveIdea "string \<times> string"
  | ToListHolidays holiday_filter | ToGetCategories category_kind_pb | ToRegisterDevice device_rq

type_synonym sent = "md option \<times> rpc_request"

definition recorded :: "('q \<Rightarrow> rpc_request) \<Rightarrow> ('q, 'a, 'w) rpc \<Rightarrow> ('q, 'a, 'w \<times> sent list) rpc" where
  "recorded c f m q w = (let (a, v) = f m q (fst w) in (a, (v, snd w @ [(m, c q)])))"

definition recording :: "'w clients \<Rightarrow> ('w \<times> sent list) clients" where
  "recording c =
     \<lparr>dn_SignIn = recorded ToSignIn (dn_SignIn c), dn_RefreshToken = recorded ToRefreshToken (dn_RefreshToken c),
      dn_Revoke = recorded ToRevoke (dn_Revoke c), dn_GetMe = recorded (\<lambda>_. ToGetMe) (dn_GetMe c),
      dn_CreatePoll = recorded ToCreatePoll (dn_CreatePoll c),
      dn_GetPollByToken = recorded ToGetPollByToken (dn_GetPollByToken c),
      dn_SubmitResponse = recorded ToSubmitResponse (dn_SubmitResponse c),
      dn_GetResponses = recorded ToGetResponses (dn_GetResponses c),
      dn_RequestGeneration = recorded ToRequestGeneration (dn_RequestGeneration c),
      dn_GetGenerationStatus = recorded ToGetGenerationStatus (dn_GetGenerationStatus c),
      dn_GetIdeas = recorded ToGetIdeas (dn_GetIdeas c), dn_Refine = recorded ToRefine (dn_Refine c),
      dn_SaveIdea = recorded ToSaveIdea (dn_SaveIdea c),
      dn_ListHolidays = recorded ToListHolidays (dn_ListHolidays c),
      dn_GetCategories = recorded ToGetCategories (dn_GetCategories c),
      dn_RegisterDevice = recorded ToRegisterDevice (dn_RegisterDevice c)\<rparr>"

text \<open>The calls that need no user, and the user a request names.\<close>

fun for_anyone :: "rpc_request \<Rightarrow> bool" where
  "for_anyone (ToSignIn _) = True"
| "for_anyone (ToRefreshToken _) = True"
| "for_anyone (ToGetPollByToken _) = True"
| "for_anyone (ToSubmitResponse _) = True"
| "for_anyone _ = False"

fun names_user :: "rpc_request \<Rightarrow> string option" where
  "names_user (ToRequestGeneration q) = Some (gn_user_id q)"
| "names_user (ToSaveIdea q) = Some (fst q)"
| "names_user (ToRegisterDevice q) = Some (dq_user_id q)"
| "names_user _ = None"

section \<open>What is sent, and for whom\<close>

definition logged :: "(rest_request \<Rightarrow> verifier \<Rightarrow> sent \<Rightarrow> bool) \<Rightarrow>
    rest_request \<Rightarrow> verifier \<Rightarrow> 'w \<times> sent list \<Rightarrow> 'w \<times> sent list \<Rightarrow> bool" where
  "logged P r v w w' \<longleftrightarrow> (\<exists>new. snd w' = snd w @ new \<and> (\<forall>x \<in> set new. P r v x))"

lemma logged_call: "P r v (m, c q) \<Longrightarrow> logged P r v w (snd (recorded c f m q w))"
  by (simp add: logged_def recorded_def split: prod.splits)

text \<open>A handler's calls carry the metadata of its request and name its subject.\<close>

definition own_call :: "bool \<Rightarrow> rest_request \<Rightarrow> verifier \<Rightarrow> sent \<Rightarrow> bool" where
  "own_call anyone r v x \<longleftrightarrow> fst x = reqCtx r \<and> for_anyone (snd x) = anyone \<and>
     (\<forall>u. names_user (snd x) = Some u \<longrightarrow> u = subjectFrom r)"

text \<open>What the edge lets through: what is open to anyone, and calls for the subject of a verified token.\<close>

definition edge_call :: "'j jwt_lib \<Rightarrow> rest_request \<Rightarrow> verifier \<Rightarrow> sent \<Rightarrow> bool" where
  "edge_call L r v x \<longleftrightarrow>
     (if for_anyone (snd x) then fst x = reqCtx r
      else \<exists>token c v'. bearerToken r = Some token \<and> Verify L (rq_verify r) token v = Some (Inr c, v') \<and>
        fst x = reqCtx (r\<lparr>rq_subject := cl_Subject c\<rparr>) \<and> (\<forall>u. names_user (snd x) = Some u \<longrightarrow> u = cl_Subject c))"

lemma own_call_values: "own_call b (r\<lparr>rq_values := vs\<rparr>) v x = own_call b r v x"
  by (simp add: own_call_def subjectFrom_def)

lemma edge_call_values: "edge_call L (r\<lparr>rq_values := vs\<rparr>) v x = edge_call L r v x"
proof -
  have "reqCtx (r\<lparr>rq_values := vs, rq_subject := s\<rparr>) = reqCtx (r\<lparr>rq_subject := s\<rparr>)" for s
    by (simp add: reqCtx_def subjectFrom_def)
  then show ?thesis by (simp add: edge_call_def)
qed

interpretation own: edge_relation "logged (own_call b)" for b
  by unfold_locales (auto simp: logged_def own_call_values intro: exI [of _ "[]"])

interpretation sent: edge_relation "logged (edge_call L)" for L
  by unfold_locales (auto simp: logged_def edge_call_values intro: exI [of _ "[]"])

lemmas own_intros = own.with_body moves_answer logged_call

lemma sends_open:
  assumes "op_clients op = recording c"
  shows "moves (logged (own_call True)) (handleSignIn op)" "moves (logged (own_call True)) (handleRefresh op)"
    "moves (logged (own_call True)) (handleGetPollByToken op)" "moves (logged (own_call True)) (handleSubmitResponse op)"
  unfolding handleSignIn_def handleRefresh_def handleGetPollByToken_def [abs_def] handleSubmitResponse_def
  by (simp_all add: assms recording_def, (intro own_intros; simp add: own_call_def)+)

lemma sends_own:
  assumes "op_clients op = recording c"
  shows "moves (logged (own_call False)) (handleRevoke op)" "moves (logged (own_call False)) (handleGetMe op)"
    "moves (logged (own_call False)) (handleCreatePoll op)" "moves (logged (own_call False)) (handleGetResponses op)"
    "moves (logged (own_call False)) (handleRequestGeneration op)" "moves (logged (own_call False)) (handleRefine op)"
    "moves (logged (own_call False)) (handleSaveIdea op)" "moves (logged (own_call False)) (handleListHolidays op)"
    "moves (logged (own_call False)) (handleGetCategories op)" "moves (logged (own_call False)) (handleRegisterDevice op)"
  unfolding handleRevoke_def handleGetMe_def [abs_def] handleCreatePoll_def handleGetResponses_def [abs_def]
    handleRequestGeneration_def handleRefine_def handleSaveIdea_def [abs_def] handleListHolidays_def [abs_def]
    handleGetCategories_def [abs_def] handleRegisterDevice_def Let_def
  by (simp_all add: assms recording_def, (intro own_intros; simp add: own_call_def)+)

lemma sends_generation:
  assumes "op_clients op = recording c"
  shows "moves (logged (own_call False)) (handleGetGeneration op)"
  by (rule own.generation) (simp_all add: assms recording_def logged_call own_call_def)

lemma sends_edge:
  assumes "op_clients op = recording c"
  shows "moves (logged (edge_call (op_lib op))) (globalLimitMW (routeRoot op))"
proof -
  have anyone: "moves (logged (edge_call (op_lib op))) h" if "moves (logged (own_call True)) h" for h :: "('a \<times> sent list) handler"
    by (rule moves_weaken [OF that]) (auto simp: logged_def own_call_def edge_call_def)
  have user: "moves (logged (edge_call (op_lib op))) (requireJWT op h)"
    if "moves (logged (own_call False)) h" for h :: "('a \<times> sent list) handler"
    by (rule sent.requireJWT [OF that]) (fastforce simp: logged_def own_call_def edge_call_def subjectFrom_def)
  have quiet: "moves (logged (edge_call (op_lib op))) healthz" "moves (logged (edge_call (op_lib op))) handleCORSPreflight"
    by (rule sent.no_call, simp add: healthz_def handleCORSPreflight_def)+
  show ?thesis
    by (rule sent.root) (simp_all add: main_routes_def token_routes_def at_def user anyone quiet sent.cors sent.limitRefresh
      sends_open [OF assms] sends_own [OF assms] sends_generation [OF assms])
qed

section \<open>Who the services are told is calling\<close>

definition sent_user :: "md option \<Rightarrow> string list" where
  "sent_user m = (case m of None \<Rightarrow> [] | Some m \<Rightarrow> md_get m ''x-user-id'')"

lemma sent_user_reqCtx: "sent_user (reqCtx r) = (if subjectFrom r = [] then [] else [subjectFrom r])"
  by (auto simp: sent_user_def reqCtx_def md_get_def Let_def)

lemma Verify_subject: "Verify L vc token v = Some (Inr c, v') \<Longrightarrow> cl_Subject c \<noteq> []"
  by (drule Verify_cases) (auto simp: validateClaims_iff claims_hold_def dest!: sym [of "Inr c"])

text \<open>C1: the services only act for a user whose token the gateway has verified. Whatever the request and
  the state, every call the gateway makes is either one of the four calls open to anyone, and then names
  no user in its metadata, whatever headers the client sent; or the request carried a bearer token which
  \<open>Verify\<close> accepted, and the user named in the metadata, and in the message where it names one, is the
  subject of that token and nobody else.\<close>

theorem gateway_acts_for_subject:
  assumes "op_clients op = recording c" and "gw_serve op r e = (rp, e')"
  shows "\<exists>new. snd (ed_down e') = snd (ed_down e) @ new \<and>
    (\<forall>(m, q) \<in> set new.
       (for_anyone q \<and> sent_user m = []) \<or>
       (\<not> for_anyone q \<and>
        (\<exists>token cl v. bearerToken r = Some token \<and>
           Verify (op_lib op) (rq_verify r) token (ed_verifier e) = Some (Inr cl, v) \<and>
           sent_user m = [cl_Subject cl] \<and> (\<forall>u. names_user q = Some u \<longrightarrow> u = cl_Subject cl))))"
proof -
  from sent.serve [OF sends_edge [OF assms(1)] assms(2)] obtain new where
    new: "snd (ed_down e') = snd (ed_down e) @ new"
      "\<forall>x \<in> set new. edge_call (op_lib op) (r\<lparr>rq_subject := [], rq_values := []\<rparr>) (ed_verifier e) x"
    by (auto simp: logged_def)
  have "(for_anyone q \<and> sent_user m = []) \<or> (\<not> for_anyone q \<and>
        (\<exists>token cl v. bearerToken r = Some token \<and>
           Verify (op_lib op) (rq_verify r) token (ed_verifier e) = Some (Inr cl, v) \<and>
           sent_user m = [cl_Subject cl] \<and> (\<forall>u. names_user q = Some u \<longrightarrow> u = cl_Subject cl)))"
    if "edge_call (op_lib op) (r\<lparr>rq_subject := [], rq_values := []\<rparr>) (ed_verifier e) (m, q)" for m q
    using that Verify_subject
    by (fastforce simp: edge_call_def sent_user_reqCtx subjectFrom_def split: if_splits)
  with new show ?thesis by blast
qed

section \<open>The types of replies\<close>

text \<open>Types of JSON values: an object has the fields given, of the types given, no others, and all those
  marked.\<close>

datatype schema = SString | SEnum "string list" | SInteger | SBoolean | SNullable schema | SArray schema | SObject "(string \<times> bool \<times> schema) list"

fun conforms :: "schema \<Rightarrow> json_tree \<Rightarrow> bool" where
  "conforms SString v = (case v of JTStr _ \<Rightarrow> True | _ \<Rightarrow> False)"
| "conforms (SEnum xs) v = (case v of JTStr x \<Rightarrow> x \<in> set xs | _ \<Rightarrow> False)"
| "conforms SInteger v = (case v of JTInt _ \<Rightarrow> True | _ \<Rightarrow> False)"
| "conforms SBoolean v = (case v of JTBool _ \<Rightarrow> True | _ \<Rightarrow> False)"
| "conforms (SNullable s) v = (v = JTNull \<or> conforms s v)"
| "conforms (SArray s) v = (case v of JTArr vs \<Rightarrow> \<forall>x \<in> set vs. conforms s x | _ \<Rightarrow> False)"
| "conforms (SObject fs) v =
     (case v of
        JTObj ms \<Rightarrow> (\<forall>m \<in> set ms. \<exists>f \<in> set fs. fst f = fst m \<and> conforms (snd (snd f)) (snd m)) \<and>
                   (\<forall>f \<in> set fs. fst (snd f) \<longrightarrow> fst f \<in> fst ` set ms)
      | _ \<Rightarrow> False)"

definition always :: "string \<Rightarrow> schema \<Rightarrow> string \<times> bool \<times> schema" where
  "always k s = (k, True, s)"

definition optional :: "string \<Rightarrow> schema \<Rightarrow> string \<times> bool \<times> schema" where
  "optional k s = (k, False, s)"

text \<open>The types of what the handlers send: a field is marked when the struct has it without \<open>omitempty\<close>,
  and the value of an enum is its name in the wire types. \<open>openapi.yaml\<close> has the same operations, statuses
  and fields but for three things: it describes \<open>Question\<close> and \<open>Answer\<close> by other fields, and it gives the
  status of a generation the values \<open>queued\<close>, \<open>running\<close>, \<open>ready\<close> and \<open>failed\<close>, none of which is ever sent.\<close>

definition gen_status_names :: "string list" where
  "gen_status_names = [''GENERATION_STATUS_UNSPECIFIED'', ''GENERATION_STATUS_QUEUED'', ''GENERATION_STATUS_RUNNING'',
     ''GENERATION_STATUS_READY'', ''GENERATION_STATUS_FAILED'']"

lemma gen_status_named [simp]: "GenerationStatus_String g \<in> set gen_status_names"
  by (cases g) (simp_all add: gen_status_names_def)

definition date_rule_names :: "string list" where
  "date_rule_names = [''DATE_RULE_UNSPECIFIED'', ''DATE_RULE_FIXED'', ''DATE_RULE_RELATIVE'']"

definition category_kind_names :: "string list" where
  "category_kind_names = [''CATEGORY_KIND_UNSPECIFIED'', ''CATEGORY_KIND_GIFT'', ''CATEGORY_KIND_DATE'']"

lemma enum_named [simp]:
  "DateRule_String d \<in> set date_rule_names" "CategoryKind_String k \<in> set category_kind_names"
  by (cases d; simp add: date_rule_names_def) (cases k; simp add: category_kind_names_def)

lemma gen_status_undocumented: "set gen_status_names \<inter> {''queued'', ''running'', ''ready'', ''failed''} = {}"
  by (simp add: gen_status_names_def)

definition User_schema :: schema where
  "User_schema = SObject [always ''id'' SString, optional ''email'' SString, optional ''display_name'' SString,
     optional ''status'' SString]"

definition TokenPair_schema :: schema where
  "TokenPair_schema = SObject [always ''access_token'' SString, always ''refresh_token'' SString,
     always ''expires_in'' SInteger, optional ''user'' User_schema]"

definition Question_schema :: schema where
  "Question_schema = SObject [always ''id'' SString, always ''prompt'' SString, optional ''type'' SString,
     optional ''options'' (SArray (SObject [always ''id'' SString, always ''label'' SString])), always ''required'' SBoolean]"

definition Answer_schema :: schema where
  "Answer_schema = SObject [always ''question_id'' SString, optional ''text'' SString, optional ''choice_ids'' (SArray SString)]"

definition OK_schema :: schema where
  "OK_schema = SObject [always ''ok'' SBoolean]"

definition GenerationAccepted_schema :: schema where
  "GenerationAccepted_schema = SObject [always ''request_id'' SString, always ''status'' (SEnum gen_status_names)]"

definition Idea_schema :: schema where
  "Idea_schema = SObject [always ''id'' SString, always ''title'' SString, always ''why_it_fits'' SString,
     always ''rough_cost'' SString, always ''how_to'' SString, always ''rank'' SInteger]"

definition Holiday_schema :: schema where
  "Holiday_schema = SObject [always ''id'' SString, always ''name'' SString, optional ''date_rule'' (SEnum date_rule_names),
     optional ''region'' SString, optional ''tags'' (SArray SString), always ''active'' SBoolean]"

definition Category_schema :: schema where
  "Category_schema = SObject [always ''id'' SString, always ''name'' SString, optional ''kind'' (SEnum category_kind_names),
     optional ''parent_id'' SString]"

definition BudgetBand_schema :: schema where
  "BudgetBand_schema = SObject [always ''id'' SString, always ''label'' SString, always ''min'' SInteger,
     always ''max'' SInteger, optional ''currency'' SString]"

lemmas schema_defs = always_def optional_def User_schema_def TokenPair_schema_def Question_schema_def Answer_schema_def
  OK_schema_def GenerationAccepted_schema_def Idea_schema_def Holiday_schema_def Category_schema_def BudgetBand_schema_def

text \<open>The operations: method, path, the status of success and its schema.\<close>

definition api :: "(string \<times> seg list \<times> int \<times> schema) list" where
  "api =
     [(''POST'', [Lit ''v1'', Lit ''auth'', Lit ''signin''], 200, TokenPair_schema),
      (''POST'', [Lit ''v1'', Lit ''auth'', Lit ''refresh''], 200, TokenPair_schema),
      (''POST'', [Lit ''v1'', Lit ''auth'', Lit ''revoke''], 200, OK_schema),
      (''GET'', [Lit ''v1'', Lit ''me''], 200, SObject [always ''user'' (SNullable User_schema)]),
      (''POST'', [Lit ''v1'', Lit ''polls''], 201, SObject [always ''poll_id'' SString, always ''link_token'' SString,
         always ''link_url'' SString, always ''expires_at'' SString]),
      (''GET'', [Lit ''v1'', Lit ''polls'', Wild ''id'', Lit ''responses''], 200,
         SObject [always ''responses'' (SArray (SObject [always ''id'' SString, always ''answers'' (SArray Answer_schema),
           always ''submitted_at'' SString]))]),
      (''GET'', token_path, 200, SObject [always ''poll_id'' SString, always ''title'' SString,
         always ''questions'' (SArray Question_schema)]),
      (''POST'', token_path @ [Lit ''responses''], 200, OK_schema),
      (''POST'', [Lit ''v1'', Lit ''generations''], 202, GenerationAccepted_schema),
      (''GET'', [Lit ''v1'', Lit ''generations'', Wild ''id''], 200, SObject [always ''request_id'' SString,
         always ''status'' (SEnum gen_status_names), always ''progress'' SInteger, optional ''ideas'' (SArray Idea_schema)]),
      (''POST'', [Lit ''v1'', Lit ''generations'', Wild ''id'', Lit ''refine''], 202, GenerationAccepted_schema),
      (''POST'', [Lit ''v1'', Lit ''ideas'', Wild ''id'', Lit ''save''], 200, OK_schema),
      (''GET'', [Lit ''v1'', Lit ''holidays''], 200, SObject [always ''holidays'' (SArray Holiday_schema)]),
      (''GET'', [Lit ''v1'', Lit ''categories''], 200, SObject [always ''categories'' (SArray Category_schema),
         always ''budget_bands'' (SArray BudgetBand_schema)]),
      (''POST'', [Lit ''v1'', Lit ''devices''], 201, SObject [always ''device_id'' SString]),
      (''GET'', [Lit ''healthz''], 200, SObject [always ''status'' SString])]"

text \<open>An error: the envelope, with a status that goes with its code.\<close>

definition is_error :: "reply \<Rightarrow> bool" where
  "is_error rp \<longleftrightarrow> (\<exists>g msg. rp_status rp = fst (mapGRPCCode g) \<and>
     rp_body rp = JSON (errorEnvelope (snd (mapGRPCCode g)) msg))"

definition typed :: "int \<Rightarrow> schema \<Rightarrow> reply \<Rightarrow> bool" where
  "typed s t rp \<longleftrightarrow> is_error rp \<or> (rp_status rp = s \<and> (\<exists>v. rp_body rp = JSON v \<and> conforms t v))"

definition preflight :: "reply \<Rightarrow> bool" where
  "preflight rp \<longleftrightarrow> rp_status rp = 204 \<and> rp_body rp = NoBody"

text \<open>What the multiplexer answers itself is text, not an envelope.\<close>

definition by_mux :: "reply \<Rightarrow> bool" where
  "by_mux rp \<longleftrightarrow> rp_status rp \<in> {301, 404, 405} \<and> rp_body rp = PlainText \<or> rp_status rp = 400 \<and> rp_body rp = NoBody"

definition replies :: "(reply \<Rightarrow> bool) \<Rightarrow> 'w handler \<Rightarrow> bool" where
  "replies P h \<longleftrightarrow> (\<forall>r e rp e'. h r e = (Some rp, e') \<longrightarrow> P rp)"

lemma repliesD: "replies P h \<Longrightarrow> h r e = (Some rp, e') \<Longrightarrow> P rp"
  by (auto simp: replies_def)

lemma is_errorI: "mapGRPCCode g = (s, code) \<Longrightarrow> is_error (writeError s code msg)"
  unfolding is_error_def by (rule exI [of _ g], rule exI [of _ msg]) (simp add: writeError_def writeJSON_def)

lemma errors [simp]:
  "is_error (writeGRPCError st)" "is_error (writeError 400 ''invalid_argument'' msg)"
  "is_error (writeError 401 ''unauthenticated'' msg)" "is_error (writeError 429 ''rate_limited'' msg)"
  "is_error (writeError 500 ''internal'' msg)"
  using is_errorI [of "scode st"] is_errorI [of InvalidArgument] is_errorI [of Unauthenticated]
    is_errorI [of ResourceExhausted] is_errorI [of Internal]
  by (auto simp: writeGRPCError_def split: prod.splits)

lemma typed_error [simp]: "is_error rp \<Longrightarrow> typed s t rp"
  by (simp add: typed_def)

lemma typed_JSON [simp]: "typed s t (writeJSON s v) = (conforms t v \<or> is_error (writeJSON s v))"
  by (auto simp: typed_def writeJSON_def)

lemma conforms_go_map [simp]: "conforms (SObject fs) (go_map ms) = conforms (SObject fs) (JTObj ms)"
  by (simp add: go_map_def)

section \<open>What each handler replies\<close>

lemma replies_answer:
  "(\<And>r a. P (ok r a)) \<Longrightarrow> (\<And>st. P (writeGRPCError st)) \<Longrightarrow> replies P (\<lambda>r e. answer (ok r) (rpc_call f (q r) r e))"
  by (auto simp: replies_def answer_def split: prod.splits sum.splits)

lemma replies_with_body:
  assumes "\<And>b. replies (typed s t) (h b)"
  shows "replies (typed s t) (with_body op m z h)"
  using assms by (auto simp: replies_def with_body_def decodeJSON_def split: option.splits sum.splits json_value.splits)

lemma replies_requireJWT:
  assumes "replies (typed s t) h"
  shows "replies (typed s t) (requireJWT op h)"
  unfolding replies_def
proof (intro allI impI)
  fix r e rp e'
  assume "requireJWT op h r e = (Some rp, e')"
  then consider "is_error rp" | r' e2 where "h r' e2 = (Some rp, e')"
    by (auto simp: requireJWT_def Let_def split: option.splits sum.splits prod.splits if_splits)
  then show "typed s t rp" using repliesD [OF assms] by cases simp_all
qed

lemma replies_limitRefresh: "replies (typed s t) h \<Longrightarrow> replies (typed s t) (limitRefresh h)"
  by (fastforce simp: replies_def limitRefresh_def Let_def split: prod.splits if_splits)

lemma headers_only [simp]:
  "typed s t (rp\<lparr>rp_headers := hs\<rparr>) = typed s t rp" "preflight (rp\<lparr>rp_headers := hs\<rparr>) = preflight rp"
  by (simp_all add: typed_def is_error_def preflight_def)

lemma replies_cors:
  assumes "replies P h" and "\<And>rp hs. P (rp\<lparr>rp_headers := hs\<rparr>) = P rp"
  shows "replies P (cors op h)"
  unfolding replies_def
proof (intro allI impI)
  fix r e rp e'
  assume "cors op h r e = (Some rp, e')"
  then obtain rp0 hs where "h r e = (Some rp0, e')" "rp = rp0\<lparr>rp_headers := hs\<rparr>"
    by (auto simp: cors_def Let_def map_prod_def split: prod.splits)
  then show "P rp" using assms(2) repliesD [OF assms(1)] by simp
qed

lemma field_simps_json [simp]:
  "set (omit_str k v) = (if v = [] then {} else {(k, JTStr v)})"
  "set (omit_arr k vs) = (if vs = [] then {} else {(k, JTArr vs)})"
  by (simp_all add: omit_str_def omit_arr_def)

lemmas json_shapes = ok_json_def userToDTO_def token_pair_json_def option_json_def question_json_def answer_json_def
  poll_reply_json_def accepted_json_def ideaToDTO_def generation_status_json_def holiday_json_def category_json_def band_json_def

lemma conforms_parts [simp]:
  "conforms User_schema (userToDTO u)" "conforms TokenPair_schema (token_pair_json p)" "conforms OK_schema (ok_json b)"
  "conforms Question_schema (question_json q)" "conforms Answer_schema (answer_json a)" "conforms Idea_schema (ideaToDTO i)"
  "conforms Holiday_schema (holiday_json h)" "conforms Category_schema (category_json c)"
  "conforms BudgetBand_schema (band_json d)" "conforms GenerationAccepted_schema (accepted_json g)"
  by (cases "tp_user p"; simp add: json_shapes schema_defs go_map_def)+

lemma replies_auth:
  "replies (typed 200 TokenPair_schema) (handleSignIn op)" "replies (typed 200 TokenPair_schema) (handleRefresh op)"
  "replies (typed 200 OK_schema) (handleRevoke op)"
  "replies (typed 200 (SObject [always ''user'' (SNullable User_schema)])) (handleGetMe op)"
  unfolding handleSignIn_def handleRefresh_def handleRevoke_def handleGetMe_def [abs_def]
  by (intro replies_with_body replies_answer; simp add: always_def split: option.split)+

lemma replies_polls:
  "replies (typed 201 (SObject [always ''poll_id'' SString, always ''link_token'' SString,
     always ''link_url'' SString, always ''expires_at'' SString])) (handleCreatePoll op)"
  "replies (typed 200 (SObject [always ''responses'' (SArray (SObject [always ''id'' SString,
     always ''answers'' (SArray Answer_schema), always ''submitted_at'' SString]))])) (handleGetResponses op)"
  "replies (typed 200 (SObject [always ''poll_id'' SString, always ''title'' SString,
     always ''questions'' (SArray Question_schema)])) (handleGetPollByToken op)"
  "replies (typed 200 OK_schema) (handleSubmitResponse op)"
  unfolding handleCreatePoll_def handleGetResponses_def [abs_def] handleGetPollByToken_def [abs_def] handleSubmitResponse_def
  by (intro replies_with_body replies_answer; simp add: always_def poll_reply_json_def)+

lemma replies_generations:
  "replies (typed 202 GenerationAccepted_schema) (handleRequestGeneration op)"
  "replies (typed 202 GenerationAccepted_schema) (handleRefine op)"
  "replies (typed 200 OK_schema) (handleSaveIdea op)"
  unfolding handleRequestGeneration_def handleRefine_def handleSaveIdea_def [abs_def]
  by (intro replies_with_body replies_answer; simp)+

lemma replies_generation:
  "replies (typed 200 (SObject [always ''request_id'' SString, always ''status'' (SEnum gen_status_names), always ''progress'' SInteger,
     optional ''ideas'' (SArray Idea_schema)])) (handleGetGeneration op)"
proof -
  have "conforms (SObject [always ''request_id'' SString, always ''status'' (SEnum gen_status_names), always ''progress'' SInteger,
     optional ''ideas'' (SArray Idea_schema)]) (generation_status_json i s ideas)" for i s ideas
    by (simp add: generation_status_json_def always_def optional_def)
  then show ?thesis
    by (auto simp del: conforms.simps simp: replies_def handleGetGeneration_def answer_def Let_def
        split: prod.splits sum.splits if_splits)
qed

lemma replies_reference:
  "replies (typed 200 (SObject [always ''holidays'' (SArray Holiday_schema)])) (handleListHolidays op)"
  "replies (typed 200 (SObject [always ''categories'' (SArray Category_schema),
     always ''budget_bands'' (SArray BudgetBand_schema)])) (handleGetCategories op)"
  "replies (typed 201 (SObject [always ''device_id'' SString])) (handleRegisterDevice op)"
  "replies (typed 200 (SObject [always ''status'' SString])) healthz"
  unfolding handleListHolidays_def [abs_def] handleGetCategories_def [abs_def] handleRegisterDevice_def Let_def
  by (intro replies_with_body replies_answer; simp add: always_def go_map_def split: prod.split)+
    (simp add: replies_def healthz_def always_def)

lemma replies_preflight: "replies preflight (cors op handleCORSPreflight)"
  by (rule replies_cors) (auto simp: replies_def handleCORSPreflight_def preflight_def)

text \<open>A route replies what the operation of the same method and path documents, or it is a preflight.\<close>

definition route_typed :: "'w handler route \<Rightarrow> bool" where
  "route_typed t \<longleftrightarrow>
     (\<exists>s sch. (rt_method t, rt_segs t, s, sch) \<in> set api \<and> replies (typed s sch) (rt_handler t)) \<or>
     (rt_method t = ''OPTIONS'' \<and> replies preflight (rt_handler t))"

lemmas replies_all = replies_auth replies_polls replies_generations replies_generation replies_reference

lemma routes_typed: "\<forall>t \<in> set (main_routes op) \<union> set (token_routes op). route_typed t"
proof -
  have t: "route_typed (at m ss h)" if "replies (typed s sch) h" "(m, ss, s, sch) \<in> set api" for m ss h s sch
    using that by (auto simp: route_typed_def at_def)
  have p: "route_typed (at ''OPTIONS'' ss (cors op handleCORSPreflight))" for ss
    by (simp add: route_typed_def at_def replies_preflight)
  have c: "replies (typed s sch) (cors op h)" if "replies (typed s sch) h" for s sch h
    using replies_cors [OF that] by simp
  note mem = api_def list.set insert_iff refl simp_thms
  have "\<forall>r \<in> set (main_routes op). route_typed r"
    unfolding main_routes_def list.set ball_simps
    by (intro conjI TrueI) ((rule t, (rule replies_requireJWT replies_limitRefresh replies_all)+, simp only: mem)+)
  moreover have "\<forall>r \<in> set (token_routes op). route_typed r"
    unfolding token_routes_def list.set ball_simps
    by (intro conjI TrueI) ((rule p | (rule t, (rule c replies_all)+, simp only: mem))+)
  ultimately show ?thesis by blast
qed

lemma mux_reply:
  assumes "\<forall>t \<in> set routes. route_typed t" and "mux_ServeHTTP routes r e = (Some rp, e')"
  shows "by_mux rp \<or> is_error rp \<or> (rq_Method r = ''OPTIONS'' \<and> preflight rp) \<or>
    (\<exists>(m, ss, s, sch) \<in> set api. method_match m (rq_Method r) \<and> match_segs ss (mux_segments (rq_path r)) \<noteq> None \<and>
       rp_status rp = s \<and> (\<exists>v. rp_body rp = JSON v \<and> conforms sch v))"
proof (cases "mux_find routes r")
  case (Inl a)
  then have "by_mux a" by (auto simp: mux_find_def by_mux_def Let_def split: if_splits option.splits)
  then show ?thesis using assms(2) Inl by (simp add: mux_ServeHTTP_def)
next
  case (Inr p)
  then obtain t vs where t: "t \<in> set routes" "p = (rt_handler t, vs)" "method_match (rt_method t) (rq_Method r)"
    "match_segs (rt_segs t) (mux_segments (rq_path r)) = Some vs"
    using mux_find_route [of routes r "fst p" "snd p"] by (cases p) auto
  have h: "rt_handler t (r\<lparr>rq_values := vs\<rparr>) e = (Some rp, e')" using assms(2) by (simp add: mux_ServeHTTP_def Inr t(2))
  from assms(1) t(1) have "route_typed t" by blast
  then consider s sch where "(rt_method t, rt_segs t, s, sch) \<in> set api" "replies (typed s sch) (rt_handler t)"
    | "rt_method t = ''OPTIONS''" "replies preflight (rt_handler t)"
    unfolding route_typed_def by blast
  then show ?thesis
  proof cases
    case 1
    from repliesD [OF 1(2) h] have "is_error rp \<or> rp_status rp = s \<and> (\<exists>v. rp_body rp = JSON v \<and> conforms sch v)"
      by (simp add: typed_def del: conforms.simps)
    with 1(1) t(3,4) show ?thesis by (simp del: conforms.simps) blast
  next
    case 2
    with repliesD [OF 2(2) h] t(3) show ?thesis by (simp add: method_match_def)
  qed
qed

text \<open>C8: replies are typed. Whatever request comes in, whatever the services answer and even if a handler
  panics, the gateway's reply is one of these: a success of an operation that the request's method and path
  address, with its status and a body of its type, fields and enum values included; an error envelope
  whose code and status belong together; an empty preflight reply; or the multiplexer's own redirect, 404
  or 405 in plain text or empty 400, which is not an envelope. The types are those of the handlers' structs; in particular a
  generation has one of the five \<open>GENERATION_STATUS_\<close> names and never a status that \<open>openapi.yaml\<close> lists.\<close>

theorem gateway_reply_typed:
  assumes "gw_serve op r e = (rp, e')"
  shows "(\<exists>(m, ss, s, sch) \<in> set api. method_match m (rq_Method r) \<and> match_segs ss (mux_segments (rq_path r)) \<noteq> None \<and>
       rp_status rp = s \<and> (\<exists>v. rp_body rp = JSON v \<and> conforms sch v)) \<or>
    is_error rp \<or> (rq_Method r = ''OPTIONS'' \<and> preflight rp) \<or> by_mux rp"
proof -
  let ?r = "r\<lparr>rq_subject := [], rq_values := []\<rparr>"
  obtain a e1 where a: "globalLimitMW (routeRoot op) ?r e = (a, e1)" and rp: "rp = (case a of None \<Rightarrow>
      writeError 500 ''internal'' ''internal server error'' | Some rp \<Rightarrow> rp)"
    using serve_cases [OF assms] by blast
  show ?thesis
  proof (cases a)
    case None
    then show ?thesis using rp by simp
  next
    case (Some x)
    then have x: "x = rp" using rp by simp
    from a have "is_error rp \<or> (\<exists>e2. routeRoot op ?r e2 = (Some rp, e1))"
      unfolding Some x by (auto simp: globalLimitMW_def Let_def split: prod.splits if_splits)
    then consider "is_error rp" | e2 routes where "mux_ServeHTTP routes ?r e2 = (Some rp, e1)"
        "routes = main_routes op \<or> routes = token_routes op"
      by (auto simp: routeRoot_def split: if_splits)
    then show ?thesis
    proof cases
      case 1
      then show ?thesis by blast
    next
      case 2
      have "\<forall>t \<in> set routes. route_typed t" using 2(2) routes_typed by blast
      from mux_reply [OF this 2(1)] show ?thesis by (simp del: conforms.simps) blast
    qed
  qed
qed

section \<open>Examples\<close>

text \<open>No service answers.\<close>

definition no_service :: "('q, 'a, 'w) rpc" where
  "no_service m q w = (Inl (Status Unavailable ''no service''), w)"

definition idle :: "'w clients" where
  "idle =
     \<lparr>dn_SignIn = no_service, dn_RefreshToken = no_service, dn_Revoke = no_service, dn_GetMe = no_service,
      dn_CreatePoll = no_service, dn_GetPollByToken = no_service, dn_SubmitResponse = no_service,
      dn_GetResponses = no_service, dn_RequestGeneration = no_service, dn_GetGenerationStatus = no_service,
      dn_GetIdeas = no_service, dn_Refine = no_service, dn_SaveIdea = no_service, dn_ListHolidays = no_service,
      dn_GetCategories = no_service, dn_RegisterDevice = no_service\<rparr>"

definition ex_options :: "'w clients \<Rightarrow> (string, 'w) edge_options" where
  "ex_options c = \<lparr>op_clients = c, op_lib = ex_lib, op_CORSOrigins = [''https://w''], op_json_error = (\<lambda>_. ''...'')\<rparr>"

definition ex_edge :: "'w \<Rightarrow> 'w edge" where
  "ex_edge w = \<lparr>ed_global = Noop, ed_ip = Noop, ed_user = Noop, ed_refresh = Noop, ed_verifier = ex_verifier, ed_panics = 0, ed_down = w\<rparr>"

definition ex_request :: "string \<Rightarrow> string \<Rightarrow> md \<Rightarrow> string option \<Rightarrow> rest_request" where
  "ex_request method path hs body =
     \<lparr>rq_Method = method, rq_path = path, rq_RawQuery = [], rq_Header = hs, rq_Body = body,
      rq_RemoteAddr = ''10.0.0.9:4711'', rq_t_global = 0, rq_t_ip = 0, rq_t_route = 0, rq_verify = ex_call 0 None,
      rq_subject = [], rq_values = []\<rparr>"

text \<open>A user saves an idea and claims, in a header, to be somebody else.\<close>

definition ex_save :: rest_request where
  "ex_save = ex_request ''POST'' ''/v1/ideas/7/save''
     [(''Authorization'', [''Bearer '' @ compact_jwt ''h'' ''p'' ''s'']), (''X-User-Id'', [''mallory''])] None"

definition ex_saves :: "unit clients" where
  "ex_saves = idle\<lparr>dn_SaveIdea := (\<lambda>m q w. (Inr True, w))\<rparr>"

definition ex_saved :: "(reply \<times> (unit \<times> sent list) edge)" where
  "ex_saved = gw_serve (ex_options (recording ex_saves)) ex_save (ex_edge ((), []))"

lemma ex_saved_log:
  "snd (ed_down (snd ex_saved)) = [(Some [(''x-user-id'', [''u'']),
     (''authorization'', [''Bearer '' @ compact_jwt ''h'' ''p'' ''s'']), (''x-forwarded-for'', [''10.0.0.9''])],
     ToSaveIdea (''u'', ''7''))]"
  by code_simp

lemma ex_saved_reply: "rp_status (fst ex_saved) = 200 \<and> rp_body (fst ex_saved) = JSON (ok_json True)"
  by code_simp

theorem gateway_acts_for_subject_witness:
  "\<exists>m q. snd (ed_down (snd ex_saved)) = [(m, q)] \<and> sent_user m = [''u'']"
proof -
  obtain rp e' where s: "gw_serve (ex_options (recording ex_saves)) ex_save (ex_edge ((), [])) = (rp, e')" by fastforce
  then have e': "e' = snd ex_saved" by (simp add: ex_saved_def)
  have "op_clients (ex_options (recording ex_saves)) = recording ex_saves" by (simp add: ex_options_def)
  from gateway_acts_for_subject [OF this s] obtain new where new: "snd (ed_down e') = snd (ed_down (ex_edge ((), []))) @ new"
    "\<forall>(m, q) \<in> set new. for_anyone q \<or> (\<exists>c. sent_user m = [c] \<and> (\<forall>u. names_user q = Some u \<longrightarrow> u = c))"
    by fastforce
  have "snd (ed_down (ex_edge ((), [])) :: unit \<times> sent list) = []" by (simp add: ex_edge_def)
  moreover obtain m q where mq: "snd (ed_down (snd ex_saved)) = [(m, q)]" "q = ToSaveIdea (''u'', ''7'')"
    using ex_saved_log by blast
  ultimately have "new = [(m, q)]" using new(1) by (simp add: e')
  then show ?thesis using new(2) mq by auto
qed

theorem gateway_reply_typed_witness:
  "rp_status (fst ex_saved) = 200 \<and>
   ((\<exists>(m, ss, s, sch) \<in> set api. method_match m ''POST'' \<and> match_segs ss (mux_segments ''/v1/ideas/7/save'') \<noteq> None \<and>
       s = 200 \<and> conforms sch (ok_json True)) \<or> is_error (fst ex_saved) \<or> by_mux (fst ex_saved))"
proof -
  obtain rp e' where s: "gw_serve (ex_options (recording ex_saves)) ex_save (ex_edge ((), [])) = (rp, e')" by fastforce
  then have rp: "rp = fst ex_saved" by (simp add: ex_saved_def)
  have r: "rq_Method ex_save = ''POST''" "rq_path ex_save = ''/v1/ideas/7/save''" by (simp_all add: ex_save_def ex_request_def)
  have st: "rp_status rp = 200" "rp_body rp = JSON (ok_json True)" using ex_saved_reply by (simp_all add: rp)
  from gateway_reply_typed [OF s] st r show ?thesis
    unfolding rp by (auto simp del: conforms.simps)
qed

end
