(* ===== verification/Gateway_Poll.thy ===== *)
theory Gateway_Poll
  imports Gateway_Spec Gift_Time
begin

text \<open>
  The gateway in front of the Poll service: the generated client of \<open>poll.v1\<close>, a transport that may lose
  calls and replies, and the server of \<open>services/backend/poll\<close> behind it. What subjects and owners see
  over HTTP is derived from the contract of the service.
\<close>

section \<open>The Poll service as a client sees it\<close>

text \<open>
  What happens to a call: it is served in a context whose metadata is what the gateway sent, it never
  reaches the service, or it is served and the reply does not arrive within the deadline of the call.
  \<open>sd_calls\<close> says so for the calls to come; when it is used up, calls are no longer served.
\<close>

datatype delivery = Served poll_ctx | Lost | ReplyLost poll_ctx

record ('s, 'r, 'p) poll_side =
  sd_world :: "('s, 'r, 'p) poll_world"
  sd_calls :: "delivery list"

definition poll_rpc ::
  "(poll_detail \<Rightarrow> string) \<Rightarrow>
   (poll_ctx \<Rightarrow> 'q \<Rightarrow> ('s, 'r, 'p) poll_world \<Rightarrow> (poll_detail status + 'a) \<times> ('s, 'r, 'p) poll_world) \<Rightarrow> ('a \<Rightarrow> 'b) \<Rightarrow>
   ('q, 'b, 'v \<times> ('s, 'r, 'p) poll_side) rpc" where
  "poll_rpc text f view m q w =
     (let sd = snd w; wire = (\<lambda>a. case a of Inl st \<Rightarrow> Inl (Status (scode st) (text (sdetail st))) | Inr x \<Rightarrow> Inr (view x)) in
      case sd_calls sd of
        [] \<Rightarrow> (Inl (Status Unavailable ''unavailable''), w)
      | Lost # ds \<Rightarrow> (Inl (Status Unavailable ''unavailable''), (fst w, sd\<lparr>sd_calls := ds\<rparr>))
      | Served cx # ds \<Rightarrow>
          (let (a, pw) = f (cx\<lparr>cx_md := m\<rparr>) q (sd_world sd) in (wire a, (fst w, \<lparr>sd_world = pw, sd_calls = ds\<rparr>)))
      | ReplyLost cx # ds \<Rightarrow>
          (let (a, pw) = f (cx\<lparr>cx_md := m\<rparr>) q (sd_world sd) in
           (Inl (Status DeadlineExceeded ''deadline exceeded''), (fst w, \<lparr>sd_world = pw, sd_calls = ds\<rparr>))))"

text \<open>Times are rendered to the second, in UTC.\<close>

definition rfc3339 :: "int \<Rightarrow> string" where
  "rfc3339 s = fmt_second (s * ns_per_sec) @ ''Z''"

definition created_view :: "create_rsp \<Rightarrow> poll_created" where
  "created_view k =
     \<lparr>pc_poll_id = cs_poll_id k, pc_link_token = cs_link_token k, pc_link_url = cs_link_url k,
      pc_expires_at = rfc3339 (cs_expires_at k)\<rparr>"

definition replies_view :: "pb_response list \<Rightarrow> poll_reply list" where
  "replies_view = map (\<lambda>r. \<lparr>py_id = pbr_id r, py_answers = pbr_answers r, py_submitted_at = rfc3339 (pbr_submitted_at r)\<rparr>)"

text \<open>A call to another service leaves the Poll service alone.\<close>

definition elsewhere :: "('q, 'a, 'v) rpc \<Rightarrow> ('q, 'a, 'v \<times> 'x) rpc" where
  "elsewhere f m q w = (let (a, v) = f m q (fst w) in (a, (v, snd w)))"

definition with_poll ::
  "(poll_detail \<Rightarrow> string) \<Rightarrow> ('s, 'r, 'p) poll_server \<Rightarrow> 'v clients \<Rightarrow> ('v \<times> ('s, 'r, 'p) poll_side) clients" where
  "with_poll text sv c =
     \<lparr>dn_SignIn = elsewhere (dn_SignIn c), dn_RefreshToken = elsewhere (dn_RefreshToken c),
      dn_Revoke = elsewhere (dn_Revoke c), dn_GetMe = elsewhere (dn_GetMe c),
      dn_CreatePoll = poll_rpc text (CreatePoll sv) created_view,
      dn_GetPollByToken = poll_rpc text (GetPollByToken sv) id,
      dn_SubmitResponse = poll_rpc text (\<lambda>cx q. SubmitResponse sv cx (fst q) (snd q)) (\<lambda>_. True),
      dn_GetResponses = poll_rpc text (GetResponses sv) replies_view,
      dn_RequestGeneration = elsewhere (dn_RequestGeneration c),
      dn_GetGenerationStatus = elsewhere (dn_GetGenerationStatus c), dn_GetIdeas = elsewhere (dn_GetIdeas c),
      dn_Refine = elsewhere (dn_Refine c), dn_SaveIdea = elsewhere (dn_SaveIdea c),
      dn_ListHolidays = elsewhere (dn_ListHolidays c), dn_GetCategories = elsewhere (dn_GetCategories c),
      dn_RegisterDevice = elsewhere (dn_RegisterDevice c)\<rparr>"

section \<open>A request is a sequence of calls of the service\<close>

definition poll_calls ::
  "('s, 'r, 'p) poll_server \<Rightarrow> rest_request \<Rightarrow> verifier \<Rightarrow> 'v \<times> ('s, 'r, 'p) poll_side \<Rightarrow> 'v \<times> ('s, 'r, 'p) poll_side \<Rightarrow> bool" where
  "poll_calls sv r v w w' \<longleftrightarrow>
     (\<exists>cs outs. poll_run sv cs (sd_world (snd w)) = (outs, sd_world (snd w')))"

lemma poll_run_append:
  "poll_run sv (cs @ ds) w =
     (let (os, w1) = poll_run sv cs w; (ps, w2) = poll_run sv ds w1 in (os @ ps, w2))"
  by (induction cs arbitrary: w) (auto split: prod.splits)

lemma poll_run_length: "poll_run sv cs w = (outs, w') \<Longrightarrow> length outs = length cs"
  by (induction cs arbitrary: w outs) (auto split: prod.splits)

lemma no_poll_calls: "sd_world (snd w') = sd_world (snd w) \<Longrightarrow> poll_calls sv r v w w'"
  unfolding poll_calls_def by (rule exI [of _ "[]"]) simp

lemma one_poll_call:
  "poll_step sv c (sd_world (snd w)) = (out, sd_world (snd w')) \<Longrightarrow> poll_calls sv r v w w'"
  unfolding poll_calls_def by (rule exI [of _ "[c]"]) simp

interpretation served: edge_relation "poll_calls sv" for sv
proof
  show "poll_calls sv r v w w" for r v w by (rule no_poll_calls) simp
  show "poll_calls sv r v w w''" if ww: "poll_calls sv r v w w'" "poll_calls sv r v w' w''" for r v w w' w''
  proof -
    from ww obtain cs os ds ps where "poll_run sv cs (sd_world (snd w)) = (os, sd_world (snd w'))"
      "poll_run sv ds (sd_world (snd w')) = (ps, sd_world (snd w''))" by (auto simp: poll_calls_def)
    then have "poll_run sv (cs @ ds) (sd_world (snd w)) = (os @ ps, sd_world (snd w''))"
      by (simp add: poll_run_append)
    then show ?thesis unfolding poll_calls_def by blast
  qed
qed (simp add: poll_calls_def)

text \<open>The outcome of a call, and the step of the service it is.\<close>

lemma poll_rpc_cases:
  assumes "poll_rpc text f view m q w = (a, w')"
  obtains (unserved) "\<exists>st. a = Inl st" "sd_world (snd w') = sd_world (snd w)"
    | (served) cx b where "f (cx\<lparr>cx_md := m\<rparr>) q (sd_world (snd w)) = (b, sd_world (snd w'))"
        "\<And>x. a = Inr x \<Longrightarrow> \<exists>y. b = Inr y"
  using assms
  by (fastforce simp: poll_rpc_def Let_def split: list.splits delivery.splits prod.splits sum.splits)

lemma elsewhere_quiet: "poll_calls sv r v w (snd (elsewhere f m q w))"
  by (rule no_poll_calls) (simp add: elsewhere_def split: prod.splits)

lemma poll_rpc_calls:
  assumes "\<And>cx w. \<exists>c out. poll_step sv c w = (out, snd (f cx q w))"
  shows "poll_calls sv r v w (snd (poll_rpc text f view m q w))"
proof -
  obtain a w' where a: "poll_rpc text f view m q w = (a, w')"
    by (rule prod.exhaust, rule that, assumption)
  then show ?thesis
  proof (cases rule: poll_rpc_cases)
    case unserved
    then show ?thesis using no_poll_calls a by fastforce
  next
    case (served cx b)
    obtain c out where "poll_step sv c (sd_world (snd w)) = (out, snd (f (cx\<lparr>cx_md := m\<rparr>) q (sd_world (snd w))))"
      using assms by blast
    then show ?thesis using one_poll_call served(1) a by fastforce
  qed
qed

lemma steps:
  "\<exists>c out. poll_step sv c w = (out, snd (CreatePoll sv cx rq w))"
  "\<exists>c out. poll_step sv c w = (out, snd (GetPollByToken sv cx raw w))"
  "\<exists>c out. poll_step sv c w = (out, snd (SubmitResponse sv cx raw as w))"
  "\<exists>c out. poll_step sv c w = (out, snd (GetResponses sv cx pid w))"
  by (rule exI [of _ "CallCreate cx rq"], simp split: prod.split)
    (rule exI [of _ "CallFetch cx raw"], simp split: prod.split,
     rule exI [of _ "CallSubmit cx raw as"], simp split: prod.split,
     rule exI [of _ "CallResponses cx pid"], simp split: prod.split)

lemma handlers_call:
  assumes "op_clients op = with_poll text sv c"
  shows "\<forall>t \<in> set (main_routes op) \<union> set (token_routes op). moves (poll_calls sv) (rt_handler t)"
proof -
  note [simp] = assms with_poll_def
  note rules = served.with_body moves_answer elsewhere_quiet poll_rpc_calls steps
  have jwt: "moves (poll_calls sv) (requireJWT op h)" if "moves (poll_calls sv) h"
    for h :: "('a \<times> ('b, 'c, 'd) poll_side) handler"
    by (rule served.requireJWT [OF that]) (simp add: poll_calls_def)
  have "moves (poll_calls sv) (handleSignIn op)" "moves (poll_calls sv) (handleRefresh op)"
    "moves (poll_calls sv) (handleRevoke op)" "moves (poll_calls sv) (handleGetMe op)"
    "moves (poll_calls sv) (handleCreatePoll op)" "moves (poll_calls sv) (handleGetResponses op)"
    "moves (poll_calls sv) (handleGetPollByToken op)" "moves (poll_calls sv) (handleSubmitResponse op)"
    "moves (poll_calls sv) (handleRequestGeneration op)" "moves (poll_calls sv) (handleRefine op)"
    "moves (poll_calls sv) (handleSaveIdea op)" "moves (poll_calls sv) (handleListHolidays op)"
    "moves (poll_calls sv) (handleGetCategories op)" "moves (poll_calls sv) (handleRegisterDevice op)"
    unfolding handleSignIn_def handleRefresh_def handleRevoke_def handleGetMe_def [abs_def] handleCreatePoll_def
      handleGetResponses_def [abs_def] handleGetPollByToken_def [abs_def] handleSubmitResponse_def
      handleRequestGeneration_def handleRefine_def handleSaveIdea_def [abs_def] handleListHolidays_def [abs_def]
      handleGetCategories_def [abs_def] handleRegisterDevice_def Let_def
    by (simp_all, (intro rules)+)
  moreover have "moves (poll_calls sv) (handleGetGeneration op)"
    by (rule served.generation) (simp_all add: elsewhere_quiet)
  moreover have "moves (poll_calls sv) (healthz :: ('a \<times> ('b, 'c, 'd) poll_side) handler)"
    "moves (poll_calls sv) (handleCORSPreflight :: ('a \<times> ('b, 'c, 'd) poll_side) handler)"
    by (rule served.no_call, simp add: healthz_def handleCORSPreflight_def)+
  ultimately show ?thesis
    by (auto simp: main_routes_def token_routes_def at_def jwt served.limitRefresh served.cors)
qed

section \<open>Submissions over HTTP\<close>

text \<open>A request whose path, however it is escaped, addresses the responses of the link with token \<open>tok\<close>.\<close>

definition submits_to :: "string \<Rightarrow> rest_request \<Rightarrow> bool" where
  "submits_to tok r \<longleftrightarrow> rq_Method r = ''POST'' \<and> HasPrefix (url_Path r) ''/v1/polls/token/'' \<and>
     match_segs (token_path @ [Lit ''responses'']) (mux_segments (rq_path r)) = Some [(''t'', tok)]"

definition http_submitted :: "string \<Rightarrow> rest_request \<times> reply \<Rightarrow> bool" where
  "http_submitted tok x \<longleftrightarrow> submits_to tok (fst x) \<and> rp_status (snd x) = 200 \<and> rp_body (snd x) = JSON (ok_json True)"

lemma error_not_ok [simp]: "JTObj [(''error'', v)] \<noteq> ok_json b" "errorEnvelope code msg \<noteq> ok_json b"
  by (simp_all add: ok_json_def errorEnvelope_def)

lemma error_body [simp]: "rp_body (writeError s code msg) = JSON (errorEnvelope code msg)"
  by (simp add: writeError_def writeJSON_def)

lemma grpc_error_body [simp]: "rp_body (writeGRPCError st) \<noteq> JSON (ok_json b)"
  by (simp add: writeGRPCError_def split: prod.split)

lemma decodeJSON_error: "decodeJSON je m z r = Inl x \<Longrightarrow> \<exists>s code msg. x = writeError s code msg"
  by (auto simp: decodeJSON_def split: option.splits)

lemma globalLimitMW_cases:
  "globalLimitMW h r e = (Some rp, e') \<Longrightarrow>
   (\<exists>s code msg. rp = writeError s code msg) \<or> (\<exists>e2. ed_down e2 = ed_down e \<and> h r e2 = (Some rp, e'))"
  by (auto simp: globalLimitMW_def Let_def split: prod.splits if_splits)

text \<open>
  How a submission ends: without an effect and not answered ok; or as a call of the service, answered ok if
  the service accepted it, or answered 504 if it did and its reply was lost.
\<close>

definition submission_ends ::
  "('s, 'r, 'p) poll_server \<Rightarrow> (reply + pb_answer list) \<Rightarrow> string \<Rightarrow> reply \<Rightarrow>
   ('s, 'r, 'p) poll_world \<Rightarrow> ('s, 'r, 'p) poll_world \<Rightarrow> bool" where
  "submission_ends sv body tok rp w w' \<longleftrightarrow>
     w' = w \<and> rp_body rp \<noteq> JSON (ok_json True) \<or>
     (\<exists>cx as x. body = Inr as \<and> SubmitResponse sv cx tok as w = (x, w') \<and>
        (if rp_body rp = JSON (ok_json True) then rp_status rp = 200 \<and> x = Inr () else x = Inr () \<longrightarrow> rp_status rp = 504))"

lemma submission_ends_headers [simp]:
  "submission_ends sv body tok (rp\<lparr>rp_headers := hs\<rparr>) w w' = submission_ends sv body tok rp w w'"
  by (simp add: submission_ends_def)

lemma submission_unserved: "sd_world (snd w') = sd_world (snd w) \<Longrightarrow> rp_body rp \<noteq> JSON (ok_json True) \<Longrightarrow>
    submission_ends sv body tok rp (sd_world (snd w)) (sd_world (snd w'))"
  by (simp add: submission_ends_def)

lemma submission_called:
  assumes "poll_rpc text (\<lambda>cx q. SubmitResponse sv cx (fst q) (snd q)) (\<lambda>_. True) m (tok, as) w = (b, w')"
    and "rp = (case b of Inl st \<Rightarrow> writeGRPCError st | Inr k \<Rightarrow> writeJSON 200 (ok_json k))"
  shows "submission_ends sv (Inr as) tok rp (sd_world (snd w)) (sd_world (snd w'))"
proof (cases "sd_calls (snd w)")
  case Nil
  with assms show ?thesis by (intro submission_unserved) (auto simp: poll_rpc_def)
next
  case (Cons d ds)
  show ?thesis
  proof (cases d)
    case (Served cx)
    obtain a pw where a: "SubmitResponse sv (cx\<lparr>cx_md := m\<rparr>) tok as (sd_world (snd w)) = (a, pw)"
      by (rule prod.exhaust, rule that, assumption)
    have w': "sd_world (snd w') = pw" using assms(1) a Cons Served by (auto simp: poll_rpc_def)
    have rp: "if rp_body rp = JSON (ok_json True) then rp_status rp = 200 \<and> a = Inr () else a = Inr () \<longrightarrow> rp_status rp = 504"
    proof (cases a)
      case (Inl st)
      then have "rp = writeGRPCError (Status (scode st) (text (sdetail st)))"
        using assms a Cons Served by (auto simp: poll_rpc_def)
      then show ?thesis by (simp add: Inl)
    next
      case (Inr u)
      then have "rp = writeJSON 200 (ok_json True)" using assms a Cons Served by (auto simp: poll_rpc_def)
      then show ?thesis by (simp add: Inr writeJSON_def)
    qed
    show ?thesis unfolding submission_ends_def w'
      by (rule disjI2) (use a rp in \<open>intro exI [of _ "cx\<lparr>cx_md := m\<rparr>"] exI [of _ as] exI [of _ a] conjI; simp\<close>)
  next
    case Lost
    with assms Cons show ?thesis by (intro submission_unserved) (auto simp: poll_rpc_def)
  next
    case (ReplyLost cx)
    obtain a pw where a: "SubmitResponse sv (cx\<lparr>cx_md := m\<rparr>) tok as (sd_world (snd w)) = (a, pw)"
      by (rule prod.exhaust, rule that, assumption)
    have w': "sd_world (snd w') = pw" using assms(1) a Cons ReplyLost by (auto simp: poll_rpc_def)
    have "rp = writeGRPCError (Status DeadlineExceeded ''deadline exceeded'')"
      using assms a Cons ReplyLost by (auto simp: poll_rpc_def)
    then have rp: "rp_status rp = 504" "rp_body rp \<noteq> JSON (ok_json True)"
      by (simp_all add: writeGRPCError_def writeError_def writeJSON_def)
    show ?thesis unfolding submission_ends_def w'
      by (rule disjI2) (use a rp in \<open>intro exI [of _ "cx\<lparr>cx_md := m\<rparr>"] exI [of _ as] exI [of _ a] conjI; simp\<close>)
  qed
qed

lemma submission_handled:
  assumes op: "op_clients op = with_poll text sv c" and h: "handleSubmitResponse op r e = (Some rp, e')"
  shows "submission_ends sv (decodeJSON (op_json_error op) submit_fields [] r) (PathValue ''t'' r) rp
    (sd_world (snd (ed_down e))) (sd_world (snd (ed_down e')))"
proof (cases "decodeJSON (op_json_error op) submit_fields [] r")
  case (Inl x)
  then obtain st code msg where x: "x = writeError st code msg" using decodeJSON_error by meson
  have "rp = x" "e' = e" using h by (simp_all add: handleSubmitResponse_def with_body_def Inl)
  with x show ?thesis by (intro submission_unserved) simp_all
next
  case (Inr as)
  have a: "answer (\<lambda>ok. writeJSON 200 (ok_json ok)) (rpc_call (dn_SubmitResponse (op_clients op)) (PathValue ''t'' r, as) r e) =
      (Some rp, e')"
    using h by (simp add: handleSubmitResponse_def with_body_def Inr)
  let ?f = "\<lambda>cx q. SubmitResponse sv cx (fst q) (snd q)"
  obtain b w' where b: "poll_rpc text ?f (\<lambda>_. True) (reqCtx r) (PathValue ''t'' r, as) (ed_down e) = (b, w')"
    by (rule prod.exhaust, rule that, assumption)
  have f: "dn_SubmitResponse (op_clients op) = poll_rpc text ?f (\<lambda>_. True)" by (simp only: op with_poll_def clients.select_convs)
  have rc: "rpc_call (dn_SubmitResponse (op_clients op)) (PathValue ''t'' r, as) r e = (b, e\<lparr>ed_down := w'\<rparr>)"
    by (simp only: rpc_call_def f b Let_def prod.case)
  have "ed_down e' = w'" "rp = (case b of Inl st \<Rightarrow> writeGRPCError st | Inr k \<Rightarrow> writeJSON 200 (ok_json k))"
    using a by (cases b; auto simp: rc answer_def)+
  with submission_called [OF b] show ?thesis by (simp add: Inr)
qed

lemma submission_served:
  assumes op: "op_clients op = with_poll text sv c"
    and s: "gw_serve op r e = (rp, e')" and sub: "submits_to tok r"
  shows "submission_ends sv (decodeJSON (op_json_error op) submit_fields [] r) tok rp
    (sd_world (snd (ed_down e))) (sd_world (snd (ed_down e')))"
proof -
  let ?r = "r\<lparr>rq_subject := [], rq_values := []\<rparr>" and ?ends = "submission_ends sv (decodeJSON (op_json_error op) submit_fields [] r) tok"
  have r: "rq_Method r = ''POST''" "HasPrefix (url_Path r) ''/v1/polls/token/''"
    "match_segs (token_path @ [Lit ''responses'']) (mux_segments (rq_path r)) = Some [(''t'', tok)]"
    using sub by (auto simp: submits_to_def)
  have mux: "\<exists>rp. a = Some rp \<and> ?ends rp (sd_world (snd (ed_down e2))) (sd_world (snd (ed_down e3)))"
    if m: "mux_ServeHTTP (token_routes op) ?r e2 = (a, e3)" for a e2 e3
  proof (cases "mux_find (token_routes op) ?r")
    case (Inl x)
    then have "by_mux x" by (auto simp: mux_find_def by_mux_def Let_def split: if_splits option.splits)
    then have "rp_body x \<noteq> JSON (ok_json True)" by (auto simp: by_mux_def)
    with m Inl show ?thesis by (auto simp: mux_ServeHTTP_def submission_ends_def)
  next
    case (Inr p)
    obtain g vs where p: "p = (g, vs)" by (cases p)
    from mux_find_route [OF Inr [unfolded p]] r(1) have "g = cors op (handleSubmitResponse op)"
      and "match_segs (token_path @ [Lit ''responses'']) (mux_segments (rq_path r)) = Some vs"
      by (auto simp: token_routes_def at_def method_match_def)
    with r(3) have "vs = [(''t'', tok)]" and "cors op (handleSubmitResponse op) (?r\<lparr>rq_values := vs\<rparr>) e2 = (a, e3)"
      using m by (simp_all add: mux_ServeHTTP_def Inr p)
    then obtain a0 hs where h: "handleSubmitResponse op (r\<lparr>rq_subject := [], rq_values := [(''t'', tok)]\<rparr>) e2 = (a0, e3)"
      and a: "a = map_option (\<lambda>rp0. rp0\<lparr>rp_headers := hs rp0\<rparr>) a0"
      by (auto simp: cors_def Let_def map_prod_def split: prod.splits)
    have "a0 \<noteq> None" using h by (auto simp: handleSubmitResponse_def with_body_def answer_def split: sum.splits prod.splits)
    then obtain rp0 where rp0: "a0 = Some rp0" by blast
    have "decodeJSON (op_json_error op) submit_fields [] (r\<lparr>rq_subject := [], rq_values := [(''t'', tok)]\<rparr>) =
        decodeJSON (op_json_error op) submit_fields [] r" by (simp add: decodeJSON_def)
    with submission_handled [OF op h [unfolded rp0]] have "?ends rp0 (sd_world (snd (ed_down e2))) (sd_world (snd (ed_down e3)))"
      by (simp add: PathValue_def)
    then show ?thesis by (simp add: a rp0)
  qed
  obtain a e1 where g: "globalLimitMW (routeRoot op) ?r e = (a, e1)" and rp: "rp = (case a of None \<Rightarrow>
      writeError 500 ''internal'' ''internal server error'' | Some rp \<Rightarrow> rp)" and d: "ed_down e' = ed_down e1"
    using serve_cases [OF s] by auto
  from g have "(\<exists>s code msg. a = Some (writeError s code msg) \<and> ed_down e1 = ed_down e) \<or>
      (\<exists>e2. ed_down e2 = ed_down e \<and> routeRoot op ?r e2 = (a, e1))"
    by (auto simp: globalLimitMW_def Let_def split: prod.splits if_splits)
  then show ?thesis
  proof (elim disjE exE conjE)
    fix s code msg assume "a = Some (writeError s code msg)" "ed_down e1 = ed_down e"
    then show ?thesis using rp d by (intro submission_unserved) simp_all
  next
    fix e2 assume e2: "ed_down e2 = ed_down e" "routeRoot op ?r e2 = (a, e1)"
    from e2(2) r(2) have "mux_ServeHTTP (token_routes op) ?r e2 = (a, e1)" by (simp add: routeRoot_def)
    from mux [OF this] rp e2(1) d show ?thesis by auto
  qed
qed

lemma accepted_step:
  assumes op: "op_clients op = with_poll text sv c"
    and s: "gw_serve op r e = (rp, e')" and sub: "http_submitted tok (r, rp)"
  shows "\<exists>cx as. decodeJSON (op_json_error op) submit_fields [] r = Inr as \<and>
    poll_step sv (CallSubmit cx tok as) (sd_world (snd (ed_down e))) = (OutSubmit (Inr ()), sd_world (snd (ed_down e')))"
proof -
  have "submits_to tok r" "rp_body rp = JSON (ok_json True)" using sub by (simp_all add: http_submitted_def)
  then obtain cx as where "decodeJSON (op_json_error op) submit_fields [] r = Inr as"
    "SubmitResponse sv cx tok as (sd_world (snd (ed_down e))) = (Inr (), sd_world (snd (ed_down e')))"
    using submission_served [OF op s \<open>submits_to tok r\<close>] unfolding submission_ends_def by auto
  then show ?thesis by (intro exI [of _ cx] exI [of _ as]) simp
qed

lemma gw_run_calls:
  assumes "op_clients op = with_poll text sv c" and "gw_run op rs e = (rps, e')"
  shows "\<exists>cs outs. poll_run sv cs (sd_world (snd (ed_down e))) = (outs, sd_world (snd (ed_down e'))) \<and>
    length (filter (http_submitted tok) (zip rs rps)) \<le> length (filter (submitted (sv_H sv) (sv_H sv tok)) (zip cs outs))"
  using assms(2)
proof (induction rs arbitrary: e rps)
  case Nil
  show ?case by (rule exI [of _ "[]"], rule exI [of _ "[]"]) (use Nil in simp)
next
  case (Cons r rs)
  obtain rp e1 where s: "gw_serve op r e = (rp, e1)" by (rule prod.exhaust, rule that, assumption)
  obtain rps' e2 where run: "gw_run op rs e1 = (rps', e2)" by (rule prod.exhaust, rule that, assumption)
  have rps: "rps = rp # rps'" "e2 = e'" using Cons.prems by (simp_all add: s run)
  let ?hit = "submitted (sv_H sv) (sv_H sv tok)"
  obtain cs os where first: "poll_run sv cs (sd_world (snd (ed_down e))) = (os, sd_world (snd (ed_down e1)))"
    and one: "http_submitted tok (r, rp) \<longrightarrow> 1 \<le> length (filter ?hit (zip cs os))"
  proof (cases "http_submitted tok (r, rp)")
    case True
    from accepted_step [OF assms(1) s this] obtain cx as where
      "poll_step sv (CallSubmit cx tok as) (sd_world (snd (ed_down e))) = (OutSubmit (Inr ()), sd_world (snd (ed_down e1)))"
      by blast
    then show thesis by (intro that [of "[CallSubmit cx tok as]" "[OutSubmit (Inr ())]"]) simp_all
  next
    case False
    have "moves (poll_calls sv) (globalLimitMW (routeRoot op))"
      by (rule served.root) (use handlers_call [OF assms(1)] in blast)+
    from served.serve [OF this s] that False show thesis unfolding poll_calls_def by blast
  qed
  from Cons.IH [OF run [unfolded rps(2)]] obtain ds ps where
    rest: "poll_run sv ds (sd_world (snd (ed_down e1))) = (ps, sd_world (snd (ed_down e')))"
    and IH: "length (filter (http_submitted tok) (zip rs rps')) \<le> length (filter ?hit (zip ds ps))" by blast
  have "poll_run sv (cs @ ds) (sd_world (snd (ed_down e))) = (os @ ps, sd_world (snd (ed_down e')))"
    using first rest by (simp add: poll_run_append)
  moreover have "zip (cs @ ds) (os @ ps) = zip cs os @ zip ds ps" using poll_run_length [OF first] by simp
  ultimately show ?case using one IH
    by (intro exI [of _ "cs @ ds"] exI [of _ "os @ ps"]) (auto simp: rps(1))
qed

text \<open>C9: over HTTP a link records at most one submission. Whatever requests the gateway serves in whatever
  order, however the paths are escaped, with whatever losses between the gateway and the service and whatever
  failures behind it, at most one of them is told that a submission through the link was recorded.\<close>

theorem gateway_submitted_once:
  assumes "op_clients op = with_poll text sv c" and "sv_repo sv = pg_repo up"
    and "pg_inv up (pw_repo (sd_world (snd (ed_down e))))" and "gw_run op rs e = (rps, e')"
  shows "length (filter (http_submitted tok) (zip rs rps)) \<le> 1"
proof -
  from gw_run_calls [OF assms(1,4), of tok] obtain cs outs where
    "poll_run sv cs (sd_world (snd (ed_down e))) = (outs, sd_world (snd (ed_down e')))"
    "length (filter (http_submitted tok) (zip rs rps)) \<le> length (filter (submitted (sv_H sv) (sv_H sv tok)) (zip cs outs))"
    by blast
  with pg.submitted_at_most_once [OF assms(3,2) this(1), of "sv_H sv tok"] show ?thesis by linarith
qed



section \<open>Examples\<close>

text \<open>How a submission is served when no limit is set.\<close>

lemma match_five:
  assumes "match_segs (token_path @ [Lit ''responses'']) ss = Some vs"
  shows "\<exists>t. ss = [''v1'', ''polls'', ''token'', t, ''responses''] \<and> t \<noteq> ''/'' \<and> vs = [(''t'', t)]"
proof -
  have len: "match_segs ps ss = Some vs \<Longrightarrow> length ss = length ps" for ps ss vs
    by (induction ps ss arbitrary: vs rule: match_segs.induct) (auto split: if_splits)
  from len [OF assms] obtain a b c d e where "ss = [a, b, c, d, e]"
    by (auto simp: token_path_def length_Suc_conv)
  with assms show ?thesis by (auto simp: token_path_def split: if_splits)
qed

lemma find_submission:
  assumes "submits_to tok r" and "clean_path (rq_path r)"
  shows "mux_find (token_routes op) r = Inr (cors op (handleSubmitResponse op), [(''t'', tok)])"
proof -
  from assms(1) have m: "match_segs (token_path @ [Lit ''responses'']) (mux_segments (rq_path r)) = Some [(''t'', tok)]"
    and p: "rq_Method r = ''POST''" by (auto simp: submits_to_def)
  from match_five [OF m] have ss: "mux_segments (rq_path r) = [''v1'', ''polls'', ''token'', tok, ''responses'']" "tok \<noteq> ''/''"
    by auto
  show ?thesis using assms(2) p ss
    by (simp add: mux_find_def Let_def token_routes_def at_def token_path_def method_match_def)
qed

lemma serve_submission:
  assumes "submits_to tok r" and "clean_path (rq_path r)" and "ed_global e = Noop" and "ed_ip e = Noop"
    and "rq_subject r = []" and "rq_values r = []"
    and "decodeJSON (op_json_error op) submit_fields [] (r\<lparr>rq_values := [(''t'', tok)]\<rparr>) = Inr as"
    and "dn_SubmitResponse (op_clients op) (reqCtx r) (tok, as) (ed_down e) = (Inr True, w)"
  shows "\<exists>rp. gw_serve op r e = (rp, e\<lparr>ed_down := w\<rparr>) \<and> http_submitted tok (r, rp)"
proof -
  have r: "r\<lparr>rq_subject := [], rq_values := []\<rparr> = r" using assms(5,6) by simp
  have e: "e\<lparr>ed_ip := Noop\<rparr> = e" using assms(4) by simp
  have e2: "e\<lparr>ed_global := Noop\<rparr> = e" using assms(3) by simp
  have pre: "HasPrefix (url_Path r) ''/v1/polls/token/''" using assms(1) by (simp add: submits_to_def)
  have h: "handleSubmitResponse op (r\<lparr>rq_values := [(''t'', tok)]\<rparr>) e = (Some (writeJSON 200 (ok_json True)), e\<lparr>ed_down := w\<rparr>)"
    using assms(8) by (simp add: handleSubmitResponse_def with_body_def assms(7) PathValue_def rpc_call_def answer_def)
  have "globalLimitMW (routeRoot op) r e = routeRoot op r e"
    unfolding globalLimitMW_def assms(3,4) limiter_Allow.simps by (simp only: e Let_def prod.case not_True_eq_False if_False edge.simps assms(3,4) limiter_Allow.simps e2)
  then obtain hs where "gw_serve op r e = ((writeJSON 200 (ok_json True))\<lparr>rp_headers := hs\<rparr>, e\<lparr>ed_down := w\<rparr>)"
    by (simp add: gw_serve_def r recoverMW_def routeRoot_def pre mux_ServeHTTP_def find_submission [OF assms(1,2)]
      cors_def Let_def h)
  then show ?thesis using assms(1) by (simp add: http_submitted_def writeJSON_def)
qed

text \<open>The same answer is posted twice, the second time with the path escaped differently.\<close>

definition ex_side :: "unit \<times> (poll_pg, unit valkey, poll_completed list) poll_side" where
  "ex_side = ((), \<lparr>sd_world = ex_created 100, sd_calls = [Served (ex_ctx 1), Served (ex_ctx 2)]\<rparr>)"

definition ex_poll_options :: "(string, unit \<times> (poll_pg, unit valkey, poll_completed list) poll_side) edge_options" where
  "ex_poll_options = ex_options (with_poll (\<lambda>_. []) ex_server idle)"

definition ex_post :: "string \<Rightarrow> rest_request" where
  "ex_post path = ex_request ''POST'' path [] (Some (json_text (JTObj [(''answers'', JTArr (map answer_json ex_answers))])))"

definition ex_requests :: "rest_request list" where
  "ex_requests = [ex_post (''/v1/polls/token/'' @ ex_token @ ''/responses''),
     ex_post (''/v1/polls/token/'' @ ex_token @ ''/%72esponses'')]"

lemma ex_requests_submit: "map (submits_to ex_token) ex_requests = [True, True]"
  by code_simp

lemma ex_first_clean: "clean_path (rq_path (ex_requests ! 0))"
  by code_simp

lemma ex_first_body:
  "map_sum (\<lambda>_. ()) id (decodeJSON (\<lambda>_. ''...'') submit_fields [] ((ex_requests ! 0)\<lparr>rq_values := [(''t'', ex_token)]\<rparr>)) = Inr ex_answers"
  by code_simp

lemma ex_first_call:
  "fst (poll_rpc (\<lambda>_. []) (\<lambda>cx q. SubmitResponse ex_server cx (fst q) (snd q)) (\<lambda>_. True) (reqCtx (ex_requests ! 0))
     (ex_token, ex_answers) ex_side) = Inr True"
  by code_simp

lemma fst_first: "fst x = a \<Longrightarrow> \<exists>w. x = (a, w)"
  by (cases x) simp

lemma ex_first:
  "\<exists>rp e'. gw_serve ex_poll_options (ex_requests ! 0) (ex_edge ex_side) = (rp, e') \<and> http_submitted ex_token (ex_requests ! 0, rp)"
proof -
  obtain w where w: "poll_rpc (\<lambda>_. []) (\<lambda>cx q. SubmitResponse ex_server cx (fst q) (snd q)) (\<lambda>_. True) (reqCtx (ex_requests ! 0))
     (ex_token, ex_answers) ex_side = (Inr True, w)"
    using fst_first [OF ex_first_call] by blast
  have sub: "submits_to ex_token (ex_requests ! 0)" using ex_requests_submit by (simp add: ex_requests_def)
  have body: "decodeJSON (op_json_error ex_poll_options) submit_fields [] ((ex_requests ! 0)\<lparr>rq_values := [(''t'', ex_token)]\<rparr>) = Inr ex_answers"
    using ex_first_body by (auto simp: ex_poll_options_def ex_options_def map_sum_def split: sum.splits)
  have call: "dn_SubmitResponse (op_clients ex_poll_options) (reqCtx (ex_requests ! 0)) (ex_token, ex_answers)
      (ed_down (ex_edge ex_side)) = (Inr True, w)"
    using w by (simp add: ex_poll_options_def ex_options_def with_poll_def ex_edge_def)
  have e: "ed_global (ex_edge ex_side) = Noop" "ed_ip (ex_edge ex_side) = Noop"
    "rq_subject (ex_requests ! 0) = []" "rq_values (ex_requests ! 0) = []"
    by (simp_all add: ex_edge_def ex_requests_def ex_post_def ex_request_def)
  from serve_submission [OF sub ex_first_clean e body call] show ?thesis by blast
qed

lemma gw_run_first: "gw_run op (r # rs) e = (rps, e') \<Longrightarrow> gw_serve op r e = (rp, e1) \<Longrightarrow> \<exists>rps'. rps = rp # rps'"
  by (cases "gw_run op rs e1") auto

lemma ex_options_poll: "op_clients ex_poll_options = with_poll (\<lambda>_. []) ex_server idle"
  by (simp add: ex_poll_options_def ex_options_def)

lemma ex_side_inv: "pg_inv ex_up (pw_repo (sd_world (snd (ed_down (ex_edge ex_side)))))"
  by (simp add: ex_edge_def ex_side_def)

theorem gateway_submitted_once_witness:
  "length (filter (http_submitted ex_token) (zip ex_requests (fst (gw_run ex_poll_options ex_requests (ex_edge ex_side))))) = 1"
proof -
  obtain rps e' where run: "gw_run ex_poll_options ex_requests (ex_edge ex_side) = (rps, e')"
    by (rule prod.exhaust, rule that, assumption)
  obtain rp e1 where first: "gw_serve ex_poll_options (ex_requests ! 0) (ex_edge ex_side) = (rp, e1)"
    and hit: "http_submitted ex_token (ex_requests ! 0, rp)" using ex_first by blast
  obtain q where q: "ex_requests = ex_requests ! 0 # q" by (simp add: ex_requests_def)
  obtain rps' where rps: "rps = rp # rps'" using gw_run_first [OF _ first] run q by metis
  have "1 \<le> length (filter (http_submitted ex_token) (zip ex_requests rps))"
    by (subst q) (simp add: rps hit)
  moreover have "length (filter (http_submitted ex_token) (zip ex_requests rps)) \<le> 1"
    by (rule gateway_submitted_once [OF ex_options_poll _ ex_side_inv run]) simp
  ultimately show ?thesis by (simp add: run)
qed


end
