(* ===== verification/Gateway_Clients.thy ===== *)
theory Gateway_Clients
  imports Gateway_Spec
begin

text \<open>
  What the clients of the gateway can rely on, and what they cannot: a poll read through its link can be
  sent back as the questions of a new poll; bodies written as \<open>openapi.yaml\<close> documents them are refused;
  the limits per address do not hold whoever writes the header they go by.
\<close>

section \<open>Questions survive the way out and in\<close>

definition utf8_option :: "pb_option \<Rightarrow> bool" where
  "utf8_option a \<longleftrightarrow> utf8_text (pbo_id a) \<and> utf8_text (pbo_label a)"

text \<open>Texts in UTF-8 and a question type that has a name.\<close>

definition plain_question :: "pb_question \<Rightarrow> bool" where
  "plain_question q \<longleftrightarrow> utf8_text (pbq_id q) \<and> utf8_text (pbq_prompt q) \<and> list_all utf8_option (pbq_options q) \<and>
     (\<forall>i. pbq_type q \<noteq> QT_OTHER i)"

lemma rest_names:
  "fold_name ''id'' = ''id''" "fold_name ''label'' = ''label''" "fold_name ''prompt'' = ''prompt''"
  "fold_name ''type'' = ''type''" "fold_name ''options'' = ''options''" "fold_name ''required'' = ''required''"
  "fold_name ''title'' = ''title''" "fold_name ''questions'' = ''questions''"
  "fold_name ''surprise_request_id'' = ''surprise_request_id''" "fold_name ''ttl_seconds'' = ''ttl_seconds''"
  "fold_name ''text'' = ''text''" "fold_name ''kind'' = ''kind''" "fold_name ''question_id'' = ''question_id''"
  "fold_name ''choice_ids'' = ''choice_ids''" "fold_name ''value'' = ''value''" "fold_name ''values'' = ''values''"
  "fold_name ''answers'' = ''answers''"
  by code_simp+

lemma rest_keys:
  "coerce_utf8 ''id'' = ''id''" "coerce_utf8 ''label'' = ''label''" "coerce_utf8 ''prompt'' = ''prompt''"
  "coerce_utf8 ''type'' = ''type''" "coerce_utf8 ''options'' = ''options''" "coerce_utf8 ''required'' = ''required''"
  "coerce_utf8 ''title'' = ''title''" "coerce_utf8 ''questions'' = ''questions''"
  "coerce_utf8 ''surprise_request_id'' = ''surprise_request_id''" "coerce_utf8 ''ttl_seconds'' = ''ttl_seconds''"
  "coerce_utf8 ''text'' = ''text''" "coerce_utf8 ''kind'' = ''kind''" "coerce_utf8 ''question_id'' = ''question_id''"
  "coerce_utf8 ''choice_ids'' = ''choice_ids''" "coerce_utf8 ''value'' = ''value''" "coerce_utf8 ''values'' = ''values''"
  "coerce_utf8 ''answers'' = ''answers''"
  by code_simp+

lemma type_keys:
  "coerce_utf8 ''QUESTION_TYPE_UNSPECIFIED'' = ''QUESTION_TYPE_UNSPECIFIED''"
  "coerce_utf8 ''QUESTION_TYPE_TEXT'' = ''QUESTION_TYPE_TEXT''"
  "coerce_utf8 ''QUESTION_TYPE_SINGLE_CHOICE'' = ''QUESTION_TYPE_SINGLE_CHOICE''"
  "coerce_utf8 ''QUESTION_TYPE_MULTI_CHOICE'' = ''QUESTION_TYPE_MULTI_CHOICE''"
  by code_simp+

lemma type_text: "(\<And>i. t \<noteq> QT_OTHER i) \<Longrightarrow> utf8_text (QuestionType_String t) \<and> QuestionType_String t \<noteq> [] \<and>
    QuestionType_value (QuestionType_String t) = t"
  by (cases t) (auto simp: utf8_text_def QuestionType_value_def type_keys)

lemma dec_elems_fresh:
  assumes "\<forall>x \<in> set xs. dec z (json_text (f x)) = Some x"
  shows "dec_elems dec z [] (map (\<lambda>x. json_text (f x)) xs) = Some xs"
  using assms by (induction xs) (auto simp del: json_text.simps)

lemma dec_list_fresh:
  assumes "shallow (JTArr (map f xs))" and "\<forall>x \<in> set xs. dec z (json_text (f x)) = Some x"
  shows "dec_list dec z [] (json_text (JTArr (map f xs))) = Some xs"
  using dec_elems_fresh [where dec = dec and z = z and f = f, OF assms(2)]
  by (simp add: dec_list_def parse_text [OF assms(1)] comp_def del: json_text.simps)

lemmas rest_eval = names_def rest_names rest_keys dec_own_string dec_own_bool

lemma flat_option: "flat 1 (option_json a)"
  unfolding option_json_def One_nat_def by (rule flat_obj) auto

lemma flat_options: "flat 2 (JTArr (map option_json os))"
  using flat_arr [of "map option_json os" 1] flat_option by (auto simp: numeral_2_eq_2)

lemma flat_question: "flat 3 (question_json q)"
proof -
  have "flat (Suc 2) (question_json q)"
    unfolding question_json_def by (rule flat_obj) (auto simp: flat_options)
  then show ?thesis by simp
qed

lemma dec_own_option:
  assumes "utf8_option a"
  shows "dec_struct option_fields z (json_text (option_json a)) = Some a"
  using assms parse_text [OF flat_shallow [OF flat_option [of a]]]
  by (simp add: dec_struct_def option_json_def option_fields_def strict_def known_fields_def rest_eval utf8_option_def
    del: json_text.simps fold_name.simps)

lemma dec_own_question:
  assumes "plain_question q"
  shows "dec_struct question_fields zero_question (json_text (question_json (questionToDTO q))) = Some (questionToDTO q)"
proof -
  have t: "utf8_text (QuestionType_String (pbq_type q))" "QuestionType_String (pbq_type q) \<noteq> []"
    using assms type_text by (auto simp: plain_question_def)
  have os: "dec_list (dec_struct option_fields) zero_option [] (json_text (JTArr (map option_json (pbq_options q)))) = Some (pbq_options q)"
    using assms by (intro dec_list_fresh flat_shallow [OF flat_options]) (auto simp: plain_question_def list_all_iff dec_own_option)
  show ?thesis
    using assms t os parse_text [OF flat_shallow [OF flat_question [of "questionToDTO q"]]]
    by (cases "pbq_options q = []")
      (simp_all add: dec_struct_def question_json_def question_fields_def questionToDTO_def zero_question_def strict_def
        known_fields_def rest_eval omit_str_def omit_arr_def plain_question_def del: json_text.simps fold_name.simps)
qed

lemma questionToProto_DTO: "plain_question q \<Longrightarrow> questionToProto (questionToDTO q) = q"
  using type_text [of "pbq_type q"] by (simp add: questionToProto_def questionToDTO_def plain_question_def)

text \<open>A body of \<open>POST /v1/polls\<close> with the questions as \<open>GET /v1/polls/token/{t}\<close> renders them.\<close>

definition poll_body :: "string \<Rightarrow> pb_question list \<Rightarrow> string \<Rightarrow> int \<Rightarrow> json_tree" where
  "poll_body t qs s n =
     JTObj [(''title'', JTStr t), (''questions'', JTArr (map (\<lambda>q. question_json (questionToDTO q)) qs)),
            (''surprise_request_id'', JTStr s), (''ttl_seconds'', JTInt n)]"

definition zero_poll :: createPollRequest where
  "zero_poll = \<lparr>cp_title = [], cp_questions = [], cp_surprise_request_id = [], cp_ttl_seconds = 0\<rparr>"

lemma flat_body: "flat 5 (poll_body t qs s n)"
proof -
  have "flat (Suc 3) (JTArr (map (\<lambda>q. question_json (questionToDTO q)) qs))"
    by (rule flat_arr) (auto simp: flat_question)
  then have "flat (Suc (Suc 3)) (poll_body t qs s n)" unfolding poll_body_def by (intro flat_obj) auto
  then show ?thesis by (simp add: eval_nat_numeral)
qed

text \<open>C26: a poll read through its link can be sent back. When the questions of a reply of
  \<open>GET /v1/polls/token/{t}\<close> are put into the body of \<open>POST /v1/polls\<close>, with any title, request and lifetime,
  the gateway asks the Poll service for a poll with exactly these questions.\<close>

theorem poll_sent_back:
  assumes "list_all plain_question qs" and "utf8_text t" and "utf8_text s" and "- (2 ^ 63) \<le> n" and "n < 2 ^ 63"
    and "rq_Body r = Some (json_text (poll_body t qs s n))" and "int (length (json_text (poll_body t qs s n))) \<le> 1048576"
  shows "\<exists>ok. handleCreatePoll op r e = answer ok (rpc_call (dn_CreatePoll (op_clients op))
    \<lparr>cr_title = t, cr_surprise_request_id = s, cr_questions = qs, cr_ttl_seconds = n\<rparr> r e)"
proof -
  let ?qs = "JTArr (map (\<lambda>q. question_json (questionToDTO q)) qs)"
  have arr: "flat 4 ?qs"
    using flat_arr [of "map (\<lambda>q. question_json (questionToDTO q)) qs" 3] by (auto simp: flat_question)
  have "dec_elems (dec_struct question_fields) zero_question [] (map (\<lambda>q. json_text (question_json (questionToDTO q))) qs) =
      Some (map questionToDTO qs)"
    using assms(1) by (induction qs) (auto simp: dec_own_question simp del: json_text.simps)
  then have "dec_list (dec_struct question_fields) zero_question [] (json_text ?qs) = Some (map questionToDTO qs)"
    using parse_text [OF flat_shallow [OF arr]] by (simp add: dec_list_def comp_def del: json_text.simps)
  moreover have "json_first (json_text (poll_body t qs s n)) = Some (json_view (poll_body t qs s n))"
    by (rule json_first_text) (rule flat_shallow [OF flat_body], simp)
  moreover have "dec_int 64 0 (json_text (JTInt n)) = Some n" using assms(4,5) by (intro dec_own_int) auto
  ultimately have "decodeJSON (op_json_error op) createPoll_fields zero_poll r =
      Inr \<lparr>cp_title = t, cp_questions = map questionToDTO qs, cp_surprise_request_id = s, cp_ttl_seconds = n\<rparr>"
    using assms(2,3,6,7)
    by (simp add: decodeJSON_def LimitReader_def poll_body_def createPoll_fields_def zero_poll_def strict_def known_fields_def
      rest_eval del: json_text.simps fold_name.simps)
  moreover have "map questionToProto (map questionToDTO qs) = qs"
    using assms(1) by (induction qs) (auto simp: questionToProto_DTO)
  ultimately show ?thesis
    by (simp add: handleCreatePoll_def with_body_def zero_poll_def) blast
qed

section \<open>The bodies the documentation describes\<close>

text \<open>\<open>Question\<close> and \<open>Answer\<close> as in \<open>openapi.yaml\<close>, with any values.\<close>

definition documented_question :: "string \<Rightarrow> string \<Rightarrow> string \<Rightarrow> string list \<Rightarrow> json_tree" where
  "documented_question i tx kd os =
     JTObj [(''id'', JTStr i), (''text'', JTStr tx), (''kind'', JTStr kd), (''options'', JTArr (map JTStr os))]"

definition documented_answer :: "string \<Rightarrow> string \<Rightarrow> string list \<Rightarrow> json_tree" where
  "documented_answer q v vs =
     JTObj [(''question_id'', JTStr q), (''value'', JTStr v), (''values'', JTArr (map JTStr vs))]"

definition documented_poll :: "string \<Rightarrow> json_tree list \<Rightarrow> json_tree" where
  "documented_poll t qs = JTObj [(''title'', JTStr t), (''questions'', JTArr qs)]"

definition documented_submission :: "json_tree list \<Rightarrow> json_tree" where
  "documented_submission as = JTObj [(''answers'', JTArr as)]"

lemma flat_strings: "flat 1 (JTArr (map JTStr os))"
  unfolding One_nat_def by (rule flat_arr) auto

lemma flat_documented: "flat 2 (documented_question i tx kd os)" "flat 2 (documented_answer q v vs)"
  unfolding documented_question_def documented_answer_def numeral_2_eq_2
  by (rule flat_obj, use flat_strings in simp)+

lemma documented_refused:
  "dec_struct question_fields z (json_text (documented_question i tx kd os)) = None"
  "dec_struct answer_fields z' (json_text (documented_answer q v vs)) = None"
  using parse_text [OF flat_shallow [OF flat_documented(1) [of i tx kd os]]]
    parse_text [OF flat_shallow [OF flat_documented(2) [of q v vs]]]
  by (simp_all add: dec_struct_def documented_question_def documented_answer_def question_fields_def answer_fields_def
    strict_def known_fields_def rest_eval del: json_text.simps fold_name.simps)

lemma dec_list_refused:
  assumes "flat 2 x" and "\<forall>y \<in> set xs. flat 2 y" and "\<And>z. dec z (json_text x) = None"
  shows "dec_list dec z acc (json_text (JTArr (x # xs))) = None"
proof -
  have "flat (Suc 2) (JTArr (x # xs))" by (rule flat_arr) (use assms(1,2) in auto)
  then have "json_parse (json_text (JTArr (x # xs))) = Some (json_view (JTArr (x # xs)))"
    by (intro parse_text flat_shallow [where n = "Suc 2"]) auto
  then show ?thesis using assms(3) by (simp add: dec_list_def del: json_text.simps)
qed

text \<open>C37: the bodies of the published contract are refused. A \<open>POST /v1/polls\<close> whose first question is written
  as \<open>openapi.yaml\<close> documents questions, and a submission whose first answer is written as it documents
  answers, are answered with 400 and never reach the Poll service, whatever they contain.\<close>

theorem documented_bodies_refused:
  assumes "\<forall>x \<in> set qs. flat 2 x" and "\<forall>x \<in> set as. flat 2 x"
    and "rq_Body r = Some (json_text (documented_poll t (documented_question i tx kd os # qs)))"
    and "rq_Body r' = Some (json_text (documented_submission (documented_answer q v vs # as)))"
    and "int (length (the (rq_Body r))) \<le> 1048576" and "int (length (the (rq_Body r'))) \<le> 1048576"
  shows "(\<exists>msg. handleCreatePoll op r e = (Some (writeError 400 ''invalid_argument'' msg), e)) \<and>
    (\<exists>msg. handleSubmitResponse op r' e = (Some (writeError 400 ''invalid_argument'' msg), e))"
proof
  have bad: "dec_list (dec_struct question_fields) zero_question acc (json_text (JTArr (documented_question i tx kd os # qs))) = None"
    "dec_list (dec_struct answer_fields) zero_answer acc' (json_text (JTArr (documented_answer q v vs # as))) = None" for acc acc'
    using assms(1,2) by (intro dec_list_refused flat_documented documented_refused; simp)+
  have "flat (Suc 2) (JTArr (documented_question i tx kd os # qs))"
    by (rule flat_arr) (use assms(1) flat_documented in auto)
  moreover have "flat (Suc 2) (JTArr (documented_answer q v vs # as))"
    by (rule flat_arr) (use assms(2) flat_documented in auto)
  ultimately have "flat (Suc (Suc 2)) (documented_poll t (documented_question i tx kd os # qs))"
    "flat (Suc (Suc 2)) (documented_submission (documented_answer q v vs # as))"
    unfolding documented_poll_def documented_submission_def by (intro flat_obj; auto)+
  then have first: "json_first (json_text (documented_poll t (documented_question i tx kd os # qs))) =
      Some (json_view (documented_poll t (documented_question i tx kd os # qs)))"
    "json_first (json_text (documented_submission (documented_answer q v vs # as))) =
      Some (json_view (documented_submission (documented_answer q v vs # as)))"
    by (intro json_first_text flat_shallow [where n = "Suc (Suc 2)"]; simp)+
  show "\<exists>msg. handleCreatePoll op r e = (Some (writeError 400 ''invalid_argument'' msg), e)"
    using assms(5) first(1) bad(1)
    by (simp add: handleCreatePoll_def with_body_def decodeJSON_def assms(3) LimitReader_def documented_poll_def
      createPoll_fields_def strict_def known_fields_def rest_eval del: json_text.simps fold_name.simps json_view.simps(5)) (rule exI, rule refl)
  show "\<exists>msg. handleSubmitResponse op r' e = (Some (writeError 400 ''invalid_argument'' msg), e)"
    using assms(6) first(2) bad(2)
    by (simp add: handleSubmitResponse_def with_body_def decodeJSON_def assms(4) LimitReader_def documented_submission_def
      submit_fields_def strict_def known_fields_def rest_eval del: json_text.simps fold_name.simps json_view.simps(5)) (rule exI, rule refl)
qed

section \<open>Examples\<close>

definition ex_question :: pb_question where
  "ex_question = \<lparr>pbq_id = ''q1'', pbq_prompt = ''Sea or hills?'', pbq_type = QT_SINGLE_CHOICE,
     pbq_options = [\<lparr>pbo_id = ''a'', pbo_label = ''Sea''\<rparr>, \<lparr>pbo_id = ''b'', pbo_label = ''Hills''\<rparr>], pbq_required = True\<rparr>"

definition ex_new_polls :: "create_req option clients" where
  "ex_new_polls = idle\<lparr>dn_CreatePoll := (\<lambda>m q w. (Inr \<lparr>pc_poll_id = ''P'', pc_link_token = ''t'', pc_link_url = ''/p/t'',
     pc_expires_at = ''2026-01-01T00:00:00Z''\<rparr>, Some q))\<rparr>"

theorem poll_sent_back_witness:
  "map_option cr_questions (ed_down (snd (handleCreatePoll (ex_options ex_new_polls)
     (ex_request ''POST'' ''/v1/polls'' [] (Some (json_text (poll_body ''Weekend'' [ex_question] [] 0)))) (ex_edge None)))) =
   Some [ex_question]"
proof -
  let ?r = "ex_request ''POST'' ''/v1/polls'' [] (Some (json_text (poll_body ''Weekend'' [ex_question] [] 0)))"
  have u: "list_all plain_question [ex_question] \<and> utf8_text ''Weekend'' \<and> utf8_text []"
    by (simp add: plain_question_def ex_question_def utf8_option_def utf8_text_def, code_simp)
  have l: "int (length (json_text (poll_body ''Weekend'' [ex_question] [] 0))) \<le> 1048576" by code_simp
  from poll_sent_back [of "[ex_question]" "''Weekend''" "[]" 0 ?r "ex_options ex_new_polls" "ex_edge None"] u l obtain ok where
    "handleCreatePoll (ex_options ex_new_polls) ?r (ex_edge None) = answer ok (rpc_call (dn_CreatePoll (op_clients (ex_options ex_new_polls)))
      \<lparr>cr_title = ''Weekend'', cr_surprise_request_id = [], cr_questions = [ex_question], cr_ttl_seconds = 0\<rparr> ?r (ex_edge None))"
    by (auto simp: ex_request_def)
  then show ?thesis by (simp add: ex_options_def ex_new_polls_def rpc_call_def answer_def ex_edge_def)
qed

theorem documented_bodies_refused_witness:
  "map (\<lambda>h. map_option rp_status (fst h))
     [handleCreatePoll (ex_options ex_new_polls) (ex_request ''POST'' ''/v1/polls'' []
        (Some (json_text (documented_poll ''Weekend'' [documented_question ''q1'' ''Sea or hills?'' ''single'' [''Sea'', ''Hills'']])))) (ex_edge None),
      handleSubmitResponse (ex_options ex_new_polls) (ex_request ''POST'' ''/v1/polls/token/t/responses'' []
        (Some (json_text (documented_submission [documented_answer ''q1'' ''Sea'' []])))) (ex_edge None)] = [Some 400, Some 400]"
proof -
  let ?a = "documented_poll ''Weekend'' [documented_question ''q1'' ''Sea or hills?'' ''single'' [''Sea'', ''Hills'']]"
  let ?b = "documented_submission [documented_answer ''q1'' ''Sea'' []]"
  have l: "int (length (json_text ?a)) \<le> 1048576" "int (length (json_text ?b)) \<le> 1048576" by code_simp+
  have "(\<exists>msg. handleCreatePoll (ex_options ex_new_polls) (ex_request ''POST'' ''/v1/polls'' [] (Some (json_text ?a))) (ex_edge None) =
      (Some (writeError 400 ''invalid_argument'' msg), ex_edge None)) \<and>
    (\<exists>msg. handleSubmitResponse (ex_options ex_new_polls) (ex_request ''POST'' ''/v1/polls/token/t/responses'' [] (Some (json_text ?b))) (ex_edge None) =
      (Some (writeError 400 ''invalid_argument'' msg), ex_edge None))"
    by (rule documented_bodies_refused [where qs = "[]" and as = "[]"])
      (use l in \<open>simp_all add: ex_request_def del: json_text.simps\<close>)
  then show ?thesis by (auto simp: writeError_def writeJSON_def simp del: json_text.simps)
qed

section \<open>Who is limited by address\<close>

text \<open>\<open>unaware h\<close>: the handler neither reads nor changes the two limiters that go by the client's address.\<close>

definition unaware :: "'w handler \<Rightarrow> bool" where
  "unaware h \<longleftrightarrow> (\<forall>r e a b. h r (e\<lparr>ed_ip := a, ed_refresh := b\<rparr>) =
     (fst (h r e), (snd (h r e))\<lparr>ed_ip := a, ed_refresh := b\<rparr>))"

named_theorems unaware_intros

lemma unawareD: "unaware h \<Longrightarrow> h r (e\<lparr>ed_ip := a, ed_refresh := b\<rparr>) = (fst (h r e), (snd (h r e))\<lparr>ed_ip := a, ed_refresh := b\<rparr>)"
  by (simp add: unaware_def)

lemma rpc_unaware: "rpc_call f q r (e\<lparr>ed_ip := a, ed_refresh := b\<rparr>) =
    (fst (rpc_call f q r e), (snd (rpc_call f q r e))\<lparr>ed_ip := a, ed_refresh := b\<rparr>)"
  by (simp add: rpc_call_def split: prod.split)

lemma unaware_answer [unaware_intros]: "unaware (\<lambda>r e. answer (ok r) (rpc_call f (q r) r e))"
  unfolding unaware_def rpc_unaware by (auto simp: answer_def split: prod.split sum.split)

lemma unaware_with_body [unaware_intros]: "(\<And>v. unaware (h v)) \<Longrightarrow> unaware (with_body op m z h)"
  by (simp add: unaware_def with_body_def split: sum.split)

lemma unaware_generation [unaware_intros]: "unaware (handleGetGeneration op)"
  unfolding unaware_def handleGetGeneration_def Let_def rpc_unaware
  by (auto simp: answer_def rpc_unaware split: prod.split sum.split)

lemma unaware_jwt [unaware_intros]:
  assumes "unaware h"
  shows "unaware (requireJWT op h)"
  unfolding unaware_def
proof (intro allI)
  fix r and e :: "'a edge" and a b
  have o: "e\<lparr>ed_ip := a, ed_refresh := b, ed_verifier := v, ed_user := l\<rparr> =
      e\<lparr>ed_verifier := v, ed_user := l, ed_ip := a, ed_refresh := b\<rparr>" for v l by simp
  note u = unawareD [OF assms, where e = "e\<lparr>ed_verifier := v, ed_user := l\<rparr>" and a = a and b = b for v l]
  show "requireJWT op h r (e\<lparr>ed_ip := a, ed_refresh := b\<rparr>) =
      (fst (requireJWT op h r e), (snd (requireJWT op h r e))\<lparr>ed_ip := a, ed_refresh := b\<rparr>)"
    by (simp add: requireJWT_def Let_def o u split: option.split sum.split prod.split)
qed

lemma unaware_cors [unaware_intros]:
  assumes "unaware h"
  shows "unaware (cors op h)"
  using assms by (simp add: unaware_def cors_def Let_def map_prod_def split: prod.split)

lemma unaware_constant [unaware_intros]: "unaware healthz" "unaware handleCORSPreflight"
  by (simp_all add: unaware_def healthz_def handleCORSPreflight_def)

lemma unaware_handlers [unaware_intros]:
  "unaware (handleSignIn op)" "unaware (handleRefresh op)" "unaware (handleRevoke op)" "unaware (handleGetMe op)"
  "unaware (handleCreatePoll op)" "unaware (handleGetResponses op)" "unaware (handleGetPollByToken op)"
  "unaware (handleSubmitResponse op)" "unaware (handleRequestGeneration op)" "unaware (handleRefine op)"
  "unaware (handleSaveIdea op)" "unaware (handleListHolidays op)" "unaware (handleGetCategories op)" "unaware (handleRegisterDevice op)"
  unfolding handleSignIn_def handleRefresh_def handleRevoke_def handleGetMe_def [abs_def] handleCreatePoll_def
    handleGetResponses_def [abs_def] handleGetPollByToken_def [abs_def] handleSubmitResponse_def
    handleRequestGeneration_def handleRefine_def handleSaveIdea_def [abs_def] handleListHolidays_def [abs_def]
    handleGetCategories_def [abs_def] handleRegisterDevice_def Let_def
  by (intro unaware_intros)+

text \<open>An address that a limiter has no bucket for.\<close>

definition unused :: "string \<Rightarrow> limiter \<Rightarrow> bool" where
  "unused key l \<longleftrightarrow> (case l of Noop \<Rightarrow> True | Window w \<Rightarrow> wn_buckets w key = None)"

lemma unused_Allow:
  assumes "unused key l"
  shows "fst (limiter_Allow key now l)" "k \<noteq> key \<Longrightarrow> unused k (snd (limiter_Allow key now l)) = unused k l"
  using assms by (cases l; simp add: unused_def window_Allow_def Let_def)+

definition refresh_key :: "string \<Rightarrow> string" where
  "refresh_key ip = ''refresh:'' @ ip"

definition ip_key :: "string \<Rightarrow> string" where
  "ip_key ip = ''ip:'' @ ip"

lemma limitRefresh_key:
  "limitRefresh nxt r e =
     (let (ok, l) = limiter_Allow (refresh_key (gw_clientIP r)) (rq_t_route r) (ed_refresh e); e1 = e\<lparr>ed_refresh := l\<rparr> in
      if \<not> ok then (Some (writeError 429 ''rate_limited'' ''refresh rate limit exceeded''), e1) else nxt r e1)"
  by (simp only: limitRefresh_def refresh_key_def)

lemma refresh_key_eq [simp]: "refresh_key a = refresh_key b \<longleftrightarrow> a = b"
  by (simp add: refresh_key_def)

lemma ip_key_eq [simp]: "ip_key a = ip_key b \<longleftrightarrow> a = b"
  by (simp add: ip_key_def)

definition unlimited :: "'w edge \<Rightarrow> 'w edge" where
  "unlimited e = e\<lparr>ed_ip := Noop, ed_refresh := Noop\<rparr>"

definition same_refresh :: "rest_request \<Rightarrow> 'w edge \<Rightarrow> 'w edge \<Rightarrow> bool" where
  "same_refresh r e e' \<longleftrightarrow> (\<forall>ip. ip \<noteq> gw_clientIP r \<longrightarrow> unused (refresh_key ip) (ed_refresh e') = unused (refresh_key ip) (ed_refresh e))"

text \<open>For a client of an unused address the refresh limiter might as well not be there.\<close>

definition lax :: "'w handler \<Rightarrow> bool" where
  "lax h \<longleftrightarrow> (\<forall>r e rp e'. unused (refresh_key (gw_clientIP r)) (ed_refresh e) \<longrightarrow> h r e = (rp, e') \<longrightarrow>
     h r (unlimited e) = (rp, unlimited e') \<and> ed_ip e' = ed_ip e \<and> same_refresh r e e')"

lemma laxI:
  "(\<And>r e rp e'. unused (refresh_key (gw_clientIP r)) (ed_refresh e) \<Longrightarrow> h r e = (rp, e') \<Longrightarrow>
     h r (unlimited e) = (rp, unlimited e') \<and> ed_ip e' = ed_ip e \<and> same_refresh r e e') \<Longrightarrow> lax h"
  by (simp add: lax_def)

lemma laxD:
  "lax h \<Longrightarrow> unused (refresh_key (gw_clientIP r)) (ed_refresh e) \<Longrightarrow> h r e = (rp, e') \<Longrightarrow>
     h r (unlimited e) = (rp, unlimited e') \<and> ed_ip e' = ed_ip e \<and> same_refresh r e e'"
  by (simp add: lax_def)

lemma lax_unaware:
  assumes "unaware h"
  shows "lax h"
proof (rule laxI)
  fix r rp and e e' :: "'a edge"
  assume h: "h r e = (rp, e')"
  have "e\<lparr>ed_ip := ed_ip e, ed_refresh := ed_refresh e\<rparr> = e" by simp
  with unawareD [OF assms, where r = r and e = e and a = "ed_ip e" and b = "ed_refresh e"] h have "e' = e'\<lparr>ed_ip := ed_ip e, ed_refresh := ed_refresh e\<rparr>" by simp
  then have "ed_ip e' = ed_ip e" "ed_refresh e' = ed_refresh e"
    by (metis edge.select_convs(2) edge.surjective edge.update_convs(2) edge.update_convs(4),
      metis edge.select_convs(4) edge.surjective edge.update_convs(4))
  then show "h r (unlimited e) = (rp, unlimited e') \<and> ed_ip e' = ed_ip e \<and> same_refresh r e e'"
    using unawareD [OF assms, where r = r and e = e and a = Noop and b = Noop] h by (simp add: unlimited_def same_refresh_def)
qed

lemma lax_refresh:
  assumes "unaware h"
  shows "lax (limitRefresh h)"
proof (rule laxI)
  fix r rp and e e' :: "'a edge"
  assume u: "unused (refresh_key (gw_clientIP r)) (ed_refresh e)" and h: "limitRefresh h r e = (rp, e')"
  obtain l where l: "limiter_Allow (refresh_key (gw_clientIP r)) (rq_t_route r) (ed_refresh e) = (True, l)"
    using unused_Allow(1) [OF u, of "rq_t_route r"] by (metis prod.collapse)
  let ?e1 = "e\<lparr>ed_refresh := l\<rparr>"
  have h1: "h r ?e1 = (rp, e')" using h by (simp add: limitRefresh_key l)
  have "e\<lparr>ed_ip := ed_ip e, ed_refresh := l\<rparr> = ?e1" by simp
  then have "?e1\<lparr>ed_ip := ed_ip e, ed_refresh := l\<rparr> = ?e1" by simp
  with unawareD [OF assms, where r = r and e = ?e1 and a = "ed_ip e" and b = l] h1 have "e' = e'\<lparr>ed_ip := ed_ip e, ed_refresh := l\<rparr>" by simp
  then have keep: "ed_ip e' = ed_ip e" "ed_refresh e' = l"
    by (metis edge.select_convs(2) edge.surjective edge.update_convs(2) edge.update_convs(4),
      metis edge.select_convs(4) edge.surjective edge.update_convs(4))
  have "?e1\<lparr>ed_ip := Noop, ed_refresh := Noop\<rparr> = unlimited e" by (simp add: unlimited_def)
  with unawareD [OF assms, where r = r and e = ?e1 and a = Noop and b = Noop] h1 have "h r (unlimited e) = (rp, unlimited e')" by (simp add: unlimited_def)
  then have "limitRefresh h r (unlimited e) = (rp, unlimited e')" by (simp add: limitRefresh_key unlimited_def)
  moreover have "same_refresh r e e'"
    using unused_Allow(2) [OF u, of _ "rq_t_route r"] by (simp add: same_refresh_def keep l)
  ultimately show "limitRefresh h r (unlimited e) = (rp, unlimited e') \<and> ed_ip e' = ed_ip e \<and> same_refresh r e e'"
    using keep by simp
qed

lemma lax_mux:
  assumes "\<forall>t \<in> set routes. lax (rt_handler t)"
  shows "lax (mux_ServeHTTP routes)"
proof (rule laxI)
  fix r rp and e e' :: "'a edge"
  assume u: "unused (refresh_key (gw_clientIP r)) (ed_refresh e)" and h: "mux_ServeHTTP routes r e = (rp, e')"
  show "mux_ServeHTTP routes r (unlimited e) = (rp, unlimited e') \<and> ed_ip e' = ed_ip e \<and> same_refresh r e e'"
  proof (cases "mux_find routes r")
    case (Inl a)
    then show ?thesis using h by (auto simp: mux_ServeHTTP_def same_refresh_def)
  next
    case (Inr p)
    obtain g vs where p: "p = (g, vs)" by (cases p)
    from mux_find_route [OF Inr [unfolded p]] assms have "lax g" by auto
    from laxD [OF this, of "r\<lparr>rq_values := vs\<rparr>" e rp e'] u h
    show ?thesis by (simp add: mux_ServeHTTP_def Inr p same_refresh_def)
  qed
qed

lemma lax_root: "lax (routeRoot op)"
proof -
  have "lax (mux_ServeHTTP (main_routes op))"
    by (rule lax_mux) (simp add: main_routes_def at_def lax_refresh lax_unaware unaware_intros)
  moreover have "lax (mux_ServeHTTP (token_routes op))"
    by (rule lax_mux) (simp add: token_routes_def at_def lax_unaware unaware_intros)
  ultimately show ?thesis unfolding lax_def routeRoot_def by (metis (full_types))
qed

text \<open>The client writes this address into the header.\<close>

definition claims_address :: "string \<Rightarrow> rest_request \<Rightarrow> bool" where
  "claims_address ip r \<longleftrightarrow> header_Get ''X-Forwarded-For'' r = ip \<and> ip \<noteq> [] \<and> CHR '','' \<notin> set ip \<and> TrimSpace ip = ip"

lemma claimed_address: "claims_address ip r \<Longrightarrow> gw_clientIP r = ip"
  using IndexByte_None_iff [of ip "CHR '',''"] by (auto simp: claims_address_def gw_clientIP_def Let_def)

lemma globalLimitMW_key:
  "globalLimitMW nxt r e =
     (let (ok, l) = limiter_Allow ''global'' (rq_t_global r) (ed_global e); e1 = e\<lparr>ed_global := l\<rparr> in
      if \<not> ok then (Some (writeError 429 ''rate_limited'' ''global rate limit exceeded''), e1)
      else
        let (ok, l) = limiter_Allow (ip_key (gw_clientIP r)) (rq_t_ip r) (ed_ip e1); e2 = e1\<lparr>ed_ip := l\<rparr> in
        if \<not> ok then (Some (writeError 429 ''rate_limited'' ''per-IP rate limit exceeded''), e2) else nxt r e2)"
  by (simp only: globalLimitMW_def ip_key_def)

lemma evading_step:
  assumes "unused (ip_key (gw_clientIP r)) (ed_ip e)" and "unused (refresh_key (gw_clientIP r)) (ed_refresh e)"
    and "globalLimitMW (routeRoot op) r e = (rp, e')"
  shows "globalLimitMW (routeRoot op) r (unlimited e) = (rp, unlimited e') \<and> same_refresh r e e' \<and>
    (\<forall>ip. ip \<noteq> gw_clientIP r \<longrightarrow> unused (ip_key ip) (ed_ip e') = unused (ip_key ip) (ed_ip e))"
proof -
  obtain ok g where g: "limiter_Allow ''global'' (rq_t_global r) (ed_global e) = (ok, g)" by fastforce
  show ?thesis
  proof (cases ok)
    case False
    then show ?thesis using assms(3) by (auto simp: globalLimitMW_key g unlimited_def same_refresh_def)
  next
    case True
    obtain l where l: "limiter_Allow (ip_key (gw_clientIP r)) (rq_t_ip r) (ed_ip e) = (True, l)"
      using unused_Allow(1) [OF assms(1), of "rq_t_ip r"] by (metis prod.collapse)
    let ?e2 = "e\<lparr>ed_global := g, ed_ip := l\<rparr>"
    have r: "routeRoot op r ?e2 = (rp, e')" using assms(3) True by (simp add: globalLimitMW_key g l)
    from laxD [OF lax_root _ r] assms(2) have "routeRoot op r (unlimited ?e2) = (rp, unlimited e')" and "ed_ip e' = l"
      and "same_refresh r ?e2 e'" by simp_all
    moreover have "unlimited ?e2 = (unlimited e)\<lparr>ed_global := g, ed_ip := Noop\<rparr>" by (simp add: unlimited_def)
    moreover have "\<forall>ip. ip \<noteq> gw_clientIP r \<longrightarrow> unused (ip_key ip) l = unused (ip_key ip) (ed_ip e)"
      using unused_Allow(2) [OF assms(1), of _ "rq_t_ip r"] by (simp add: l)
    ultimately show ?thesis using True
      by (simp add: globalLimitMW_key g same_refresh_def) (simp add: unlimited_def g)
  qed
qed

text \<open>C25: the limits per address hold nobody back. A client that writes a fresh address into
  \<open>X-Forwarded-For\<close> of every request gets the very replies it would get from a gateway without the limit per
  address and without the strict limit on refreshing tokens, however many requests it sends and whatever
  else they are.\<close>

theorem gateway_address_limits_evaded:
  assumes "list_all2 claims_address ips rs" and "distinct ips"
    and "\<forall>ip \<in> set ips. unused (ip_key ip) (ed_ip e) \<and> unused (refresh_key ip) (ed_refresh e)"
    and "gw_run op rs e = (rps, e')"
  shows "gw_run op rs (unlimited e) = (rps, unlimited e')"
  using assms
proof (induction rs arbitrary: ips e rps rule: list.induct)
  case Nil
  then show ?case by simp
next
  case (Cons r rs)
  obtain ip ips' where ips: "ips = ip # ips'" "claims_address ip r" "list_all2 claims_address ips' rs"
    using Cons.prems(1) by (cases ips) auto
  let ?r = "r\<lparr>rq_subject := [], rq_values := []\<rparr>"
  obtain rp e1 where s: "gw_serve op r e = (rp, e1)" by fastforce
  obtain rps' e2 where run: "gw_run op rs e1 = (rps', e2)" by fastforce
  have o: "rps = rp # rps'" "e2 = e'" using Cons.prems(4) by (auto simp: s run)
  have ip: "gw_clientIP ?r = ip" using claimed_address [OF ips(2)] by simp
  obtain a e0 where a: "globalLimitMW (routeRoot op) ?r e = (a, e0)" and
    e1: "e1 = (if a = None then e0\<lparr>ed_panics := Suc (ed_panics e0)\<rparr> else e0)"
    using serve_cases [OF s] by blast
  have same: "ed_ip e1 = ed_ip e0" "ed_refresh e1 = ed_refresh e0" by (simp_all add: e1)
  have "unused (ip_key (gw_clientIP ?r)) (ed_ip e)" "unused (refresh_key (gw_clientIP ?r)) (ed_refresh e)"
    using Cons.prems(3) by (simp_all only: ip ips(1)) simp_all
  note st = evading_step [OF this a, unfolded ip]
  have "gw_serve op r (unlimited e) = (rp, unlimited e1)"
    using s st a by (auto simp: gw_serve_def recoverMW_def unlimited_def split: option.splits)
  moreover have "\<forall>j \<in> set ips'. unused (ip_key j) (ed_ip e1) \<and> unused (refresh_key j) (ed_refresh e1)"
  proof
    fix j
    assume j: "j \<in> set ips'"
    then have "j \<noteq> ip" using Cons.prems(2) ips(1) by auto
    moreover from j have "unused (ip_key j) (ed_ip e) \<and> unused (refresh_key j) (ed_refresh e)" using Cons.prems(3) ips(1) by simp
    moreover have "\<forall>k. k \<noteq> ip \<longrightarrow> unused (refresh_key k) (ed_refresh e1) = unused (refresh_key k) (ed_refresh e)"
      using st unfolding same_refresh_def ip same by blast
    moreover have "\<forall>k. k \<noteq> ip \<longrightarrow> unused (ip_key k) (ed_ip e1) = unused (ip_key k) (ed_ip e)"
      using st unfolding same by blast
    ultimately show "unused (ip_key j) (ed_ip e1) \<and> unused (refresh_key j) (ed_refresh e1)" by blast
  qed
  then have "gw_run op rs (unlimited e1) = (rps', unlimited e')"
    using Cons.IH [OF ips(3) _ _ run [unfolded o(2)]] Cons.prems(2) ips(1) by simp
  ultimately show ?case by (simp add: o(1))
qed

text \<open>One call per address and a minute is allowed; a client that claims three addresses gets three replies,
  an honest one of a single address does not.\<close>

definition ex_strict :: "unit edge" where
  "ex_strict = (ex_edge ())\<lparr>ed_ip := Window (NewWindow 1 (60 * ns_per_sec)), ed_refresh := Window (NewWindow 1 (60 * ns_per_sec))\<rparr>"

definition ex_refreshes :: "string list \<Rightarrow> rest_request list" where
  "ex_refreshes = map (\<lambda>ip. ex_request ''POST'' ''/v1/auth/refresh'' [(''X-Forwarded-For'', [ip])]
     (Some (json_text (JTObj [(''refresh_token'', JTStr ''guess'')]))))"

theorem gateway_address_limits_evaded_witness:
  "map rp_status (fst (gw_run (ex_options idle) (ex_refreshes [''1'', ''2'', ''3'']) ex_strict)) = [502, 502, 502] \<and>
   map rp_status (fst (gw_run (ex_options idle) (ex_refreshes [''1'', ''1'', ''1'']) ex_strict)) = [502, 429, 429]"
proof -
  obtain rps e' where run: "gw_run (ex_options idle) (ex_refreshes [''1'', ''2'', ''3'']) ex_strict = (rps, e')" by fastforce
  have "list_all2 claims_address [''1'', ''2'', ''3''] (ex_refreshes [''1'', ''2'', ''3''])"
    by (simp add: ex_refreshes_def claims_address_def header_Get_def md_get_def ex_request_def) code_simp
  from gateway_address_limits_evaded [OF this _ _ run]
  have "gw_run (ex_options idle) (ex_refreshes [''1'', ''2'', ''3'']) (unlimited ex_strict) = (rps, unlimited e')"
    by (simp add: ex_strict_def ex_edge_def NewWindow_def unused_def)
  moreover have "map rp_status (fst (gw_run (ex_options idle) (ex_refreshes [''1'', ''2'', ''3'']) (unlimited ex_strict))) = [502, 502, 502]"
    by code_simp
  moreover have "map rp_status (fst (gw_run (ex_options idle) (ex_refreshes [''1'', ''1'', ''1'']) ex_strict)) = [502, 429, 429]"
    by code_simp
  ultimately show ?thesis by (simp add: run)
qed

end
