(* ===== verification/Gateway_Access.thy ===== *)
theory Gateway_Access
  imports Gateway_Spec Logkit
begin

text \<open>
  The access log: the middleware and the interceptor of \<open>pkg/logkit/interceptor.go\<close> over the handler of
  \<open>Logkit\<close>, and the gateway with its budgets, its pages (\<open>infra/docs/docs.go\<close>) and its access log as
  \<open>services/backend/api-gateway/internal/app/app.go\<close> puts them together; the log has the record that
  \<open>recoverMW\<close> writes of a panic too.
\<close>

section \<open>The middleware\<close>

text \<open>The readings of the clock at the start, at the end and by \<open>slog\<close>, and the span of the context. The
  readings are monotonic, so a duration is not negative. A handler that panics is logged with the time
  \<open>ax_panic\<close>, with what was recovered and with the stack. \<open>ax_metrics\<close> is what the Prometheus
  handler answers to the request, should it get it.\<close>

record access_ctx =
  ax_start :: time
  ax_end :: time
  ax_log :: time
  ax_span :: "(string \<times> string) option"
  ax_panic :: time
  ax_recovered :: json_tree
  ax_stack :: string
  ax_metrics :: reply

text \<open>\<open>slog.Logger.Log\<close>: the record shipped, if any.\<close>

definition slog_Log :: "log_handler \<Rightarrow> (string \<times> string) option \<Rightarrow> slog_record \<Rightarrow> log_record option" where
  "slog_Log h span r = (if handler_Enabled h (sr_Level r) then handler_Handle h span r else None)"

definition duration_ms :: "access_ctx \<Rightarrow> slog_attr" where
  "duration_ms cx = (''duration_ms'', VAny (JTInt ((ax_end cx - ax_start cx) div 1000000)))"

definition http_level :: "int \<Rightarrow> int" where
  "http_level st = (if 500 \<le> st then 8 else if 400 \<le> st then 4 else 0)"

text \<open>The recorder of the status sees the first header written, and every reply of the gateway writes one.\<close>

definition HTTPMiddleware ::
  "log_handler \<Rightarrow> (rest_request \<Rightarrow> 's \<Rightarrow> reply \<times> 's) \<Rightarrow> access_ctx \<Rightarrow> rest_request \<Rightarrow> 's \<Rightarrow> reply \<times> log_record option \<times> 's" where
  "HTTPMiddleware h nxt cx r s =
     (let (rp, s') = nxt r s in
      (rp,
       slog_Log h (ax_span cx)
         \<lparr>sr_Time = ax_log cx, sr_Level = http_level (rp_status rp),
          sr_Message = ''http '' @ rq_Method r @ '' '' @ url_Path r,
          sr_Attrs = [(''http.method'', VAny (JTStr (rq_Method r))), (''http.path'', VAny (JTStr (url_Path r))),
                      (''http.status'', VAny (JTInt (rp_status rp))), duration_ms cx]\<rparr>,
       s'))"

fun code_String :: "grpc_code \<Rightarrow> string" where
  "code_String OK = ''OK''"
| "code_String Canceled = ''Canceled''"
| "code_String Unknown = ''Unknown''"
| "code_String InvalidArgument = ''InvalidArgument''"
| "code_String DeadlineExceeded = ''DeadlineExceeded''"
| "code_String NotFound = ''NotFound''"
| "code_String AlreadyExists = ''AlreadyExists''"
| "code_String PermissionDenied = ''PermissionDenied''"
| "code_String ResourceExhausted = ''ResourceExhausted''"
| "code_String FailedPrecondition = ''FailedPrecondition''"
| "code_String Aborted = ''Aborted''"
| "code_String OutOfRange = ''OutOfRange''"
| "code_String Unimplemented = ''Unimplemented''"
| "code_String Internal = ''Internal''"
| "code_String Unavailable = ''Unavailable''"
| "code_String DataLoss = ''DataLoss''"
| "code_String Unauthenticated = ''Unauthenticated''"

text \<open>The text of an error with a status.\<close>

definition status_Error :: "string status \<Rightarrow> string" where
  "status_Error e = ''rpc error: code = '' @ code_String (scode e) @ '' desc = '' @ sdetail e"

definition UnaryServerInterceptor ::
  "log_handler \<Rightarrow> string \<Rightarrow> ('q \<Rightarrow> 's \<Rightarrow> (string status + 'a) \<times> 's) \<Rightarrow> access_ctx \<Rightarrow> 'q \<Rightarrow> 's \<Rightarrow>
   (string status + 'a) \<times> log_record option \<times> 's" where
  "UnaryServerInterceptor h fullMethod handler cx req s =
     (let (r, s') = handler req s;
          code = (case r of Inl e \<Rightarrow> scode e | Inr _ \<Rightarrow> OK) in
      (r,
       slog_Log h (ax_span cx)
         \<lparr>sr_Time = ax_log cx, sr_Level = (if code \<noteq> OK then 4 else 0), sr_Message = ''grpc '' @ fullMethod,
          sr_Attrs = [(''rpc.method'', VAny (JTStr fullMethod)), (''rpc.code'', VAny (JTStr (code_String code))), duration_ms cx]
            @ (case r of Inl e \<Rightarrow> [(''error'', VAny (JTStr (status_Error e)))] | Inr _ \<Rightarrow> [])\<rparr>,
       s'))"

section \<open>The gateway (app.go)\<close>

definition minute_limiter :: "int \<Rightarrow> limiter" where
  "minute_limiter perMinute = (if perMinute \<le> 0 then Noop else Window (NewWindow perMinute (60 * ns_per_sec)))"

record gateway_budgets =
  gb_GlobalPerMin :: int
  gb_PerIPPerMin :: int
  gb_PerUserPerMin :: int
  gb_RefreshPerMin :: int

definition new_edge :: "gateway_budgets \<Rightarrow> verifier \<Rightarrow> 'w \<Rightarrow> 'w edge" where
  "new_edge b v w =
     \<lparr>ed_global = minute_limiter (gb_GlobalPerMin b), ed_ip = minute_limiter (gb_PerIPPerMin b),
      ed_user = minute_limiter (gb_PerUserPerMin b), ed_refresh = minute_limiter (gb_RefreshPerMin b),
      ed_verifier = v, ed_panics = 0, ed_down = w\<rparr>"

text \<open>\<open>docs.Handler\<close> behind \<open>StripPrefix\<close>, which wants the prefix in the escaped path too; the pages are
  embedded files.\<close>

definition docs_serve :: "rest_request \<Rightarrow> reply" where
  "docs_serve r =
     (if \<not> HasPrefix (rq_path r) ''/swagger'' then \<lparr>rp_status = 404, rp_headers = [], rp_body = PlainText\<rparr>
      else \<lparr>rp_status = 200,
             rp_headers = [(''Content-Type'', if mux_segments (drop 8 (rq_path r)) = [''openapi.yaml'']
                                             then ''application/yaml'' else ''text/html; charset=utf-8'')],
             rp_body = PlainText\<rparr>)"

text \<open>The multiplexer of \<open>Run\<close>: \<open>/metrics\<close>, \<open>/swagger/\<close> and, for every other path, the API. It redirects
  a path that is not clean, and \<open>/swagger\<close>, before the API and its budgets see the request. \<open>Some rp\<close> is
  an answer of its own; for \<open>None\<close> the API answers.\<close>

definition outer_mux :: "reply \<Rightarrow> rest_request \<Rightarrow> reply option" where
  "outer_mux metrics r =
     (if rq_Method r \<noteq> ''CONNECT'' \<and> \<not> clean_path (rq_path r)
      then Some (if rq_path r = ''*'' then \<lparr>rp_status = 400, rp_headers = [(''Connection'', ''close'')], rp_body = NoBody\<rparr>
                 else \<lparr>rp_status = 301, rp_headers = [], rp_body = PlainText\<rparr>)
      else case mux_segments (rq_path r) of
             [] \<Rightarrow> None
           | seg # segs \<Rightarrow>
               (if seg = ''metrics'' \<and> segs = [] then Some metrics
                else if seg = ''swagger'' then
                  Some (if segs = [] then \<lparr>rp_status = 301, rp_headers = [], rp_body = PlainText\<rparr> else docs_serve r)
                else None))"

definition edge_serve :: "('j, 'w) edge_options \<Rightarrow> reply \<Rightarrow> rest_request \<Rightarrow> 'w edge \<Rightarrow> reply \<times> 'w edge" where
  "edge_serve op metrics r e = (case outer_mux metrics r of Some rp \<Rightarrow> (rp, e) | None \<Rightarrow> gw_serve op r e)"

text \<open>The call of \<open>slog.Error\<close> in \<open>recoverMW\<close>: it has no context, so no span.\<close>

definition panic_record :: "access_ctx \<Rightarrow> slog_record" where
  "panic_record cx =
     \<lparr>sr_Time = ax_panic cx, sr_Level = 8, sr_Message = ''panic in handler'',
      sr_Attrs = [(''err'', VAny (ax_recovered cx)), (''stack'', VAny (JTStr (ax_stack cx)))]\<rparr>"

text \<open>Requests to the gateway, one after the other, with the records shipped: those of a recovered panic,
  then the one of the middleware around it.\<close>

definition shipped_records :: "log_record option \<Rightarrow> log_record list" where
  "shipped_records l = (case l of None \<Rightarrow> [] | Some x \<Rightarrow> [x])"

fun access_run ::
  "log_handler \<Rightarrow> ('j, 'w) edge_options \<Rightarrow> (access_ctx \<times> rest_request) list \<Rightarrow> 'w edge \<Rightarrow>
   reply list \<times> log_record list \<times> 'w edge" where
  "access_run h op [] e = ([], [], e)"
| "access_run h op ((cx, r) # rs) e =
     (let (rp, l, e1) = HTTPMiddleware h (edge_serve op (ax_metrics cx)) cx r e;
          recovered = (if ed_panics e < ed_panics e1 then slog_Log h None (panic_record cx) else None);
          (rps, ls, e2) = access_run h op rs e1 in
      (rp # rps, shipped_records recovered @ shipped_records l @ ls, e2))"

section \<open>What the log tells\<close>

text \<open>A member of a record's fields.\<close>

fun log_field :: "string \<Rightarrow> json_tree \<Rightarrow> json_tree option" where
  "log_field k (JTObj ms) = map_of ms k"
| "log_field k _ = None"

text \<open>A handler that ships everything from Info on, and has no attributes of its own.\<close>

definition plain_handler :: "log_handler \<Rightarrow> bool" where
  "plain_handler h \<longleftrightarrow> lh_minLvl h \<le> 0 \<and> lh_shipping h \<and> lh_preset h = [] \<and> lh_groups h = []"

lemma NewHandler_plain: "lo_ServerURL o1 \<noteq> [] \<Longrightarrow> lo_Level o1 \<le> 0 \<Longrightarrow> plain_handler (NewHandler svc o1)"
  by (simp add: plain_handler_def NewHandler_def log_withDefaults_def)

lemma map_of_sorted:
  assumes "distinct (map fst ms)"
  shows "map_of (sort_key fst ms) = map_of ms"
  using assms by (intro map_of_eqI) (auto simp: distinct_map dest: map_of_SomeD intro!: map_of_is_SomeI)

lemma distinct_fput: "distinct (map fst m) \<Longrightarrow> distinct (map fst (fput k v m))"
  by (auto simp: fput_def distinct_map_filter)

lemma fput_new: "k \<notin> fst ` set m \<Longrightarrow> fput k v m = m @ [(k, v)]"
  by (force simp: fput_def filter_id_conv)

lemma build_plain:
  assumes "plain_handler h" and "distinct (map fst kvs)" and "[] \<notin> fst ` set kvs"
  shows "buildFields h (map (\<lambda>(k, j). (k, VAny j)) kvs) = map (\<lambda>(k, j). (k, FVal j)) kvs"
  using assms(2,3)
proof (induction kvs rule: rev_induct)
  case Nil
  then show ?case using assms(1) by (simp add: buildFields_def plain_handler_def)
next
  case (snoc x kvs)
  obtain k j where x: "x = (k, j)" by fastforce
  have "k \<notin> fst ` set (map (\<lambda>(k, j). (k, FVal j)) kvs)" using snoc.prems(1) x by (auto simp: rev_image_eqI)
  then have "fput k (FVal j) (map (\<lambda>(k, j). (k, FVal j)) kvs) = map (\<lambda>(k, j). (k, FVal j)) (kvs @ [x])"
    by (simp add: fput_new x)
  moreover have "buildFields h (map (\<lambda>(k, j). (k, VAny j)) (kvs @ [x])) =
      fput k (FVal j) (buildFields h (map (\<lambda>(k, j). (k, VAny j)) kvs))"
    using snoc.prems(2) assms(1) x by (auto simp: buildFields_def putAttr_def plain_handler_def)
  ultimately show ?case using snoc by simp
qed

lemma fields_plain:
  assumes "plain_handler h" and "distinct (map fst kvs)" and "[] \<notin> fst ` set kvs"
  shows "log_field k (field_tree (FMap (buildFields h (map (\<lambda>(k, j). (k, VAny j)) kvs)))) = map_of kvs k"
proof -
  have "map (\<lambda>e. (fst e, field_tree (snd e))) (map (\<lambda>(k, j). (k, FVal j)) kvs) = kvs"
    by (induction kvs) auto
  then show ?thesis using map_of_sorted [OF assms(2)] by (simp add: build_plain [OF assms] go_map_def)
qed

text \<open>The members of a record of the middleware.\<close>

definition access_fields :: "access_ctx \<Rightarrow> rest_request \<Rightarrow> reply \<Rightarrow> (string \<times> json_tree) list" where
  "access_fields cx r rp =
     [(''http.method'', JTStr (rq_Method r)), (''http.path'', JTStr (url_Path r)), (''http.status'', JTInt (rp_status rp)),
      (''duration_ms'', JTInt ((ax_end cx - ax_start cx) div 1000000))]"

definition access_level :: "int \<Rightarrow> string" where
  "access_level st = (if 500 \<le> st then ''ERROR'' else if 400 \<le> st then ''WARN'' else ''INFO'')"

lemma access_level_of: "levelString (http_level st) = access_level st"
  by (simp add: access_level_def http_level_def levelString_def)

text \<open>A record tells of a request and its reply, and nothing else.\<close>

definition tells_of :: "log_handler \<Rightarrow> log_record \<Rightarrow> access_ctx \<times> rest_request \<Rightarrow> reply \<Rightarrow> bool" where
  "tells_of h l x rp \<longleftrightarrow>
     (case x of (cx, r) \<Rightarrow>
        lr_Ts l = formatTS (ax_log cx) \<and> lr_Level l = access_level (rp_status rp) \<and> lr_Service l = lh_service h \<and>
        lr_Message l = ''http '' @ rq_Method r @ '' '' @ url_Path r \<and>
        (lr_TraceID l, lr_SpanID l) = (case ax_span cx of Some p \<Rightarrow> p | None \<Rightarrow> ([], [])) \<and>
        (\<forall>k. log_field k (lr_Fields l) = map_of (access_fields cx r rp) k))"

text \<open>What one call of the logger ships when its attributes are plain and have distinct names.\<close>

lemma record_of:
  assumes "plain_handler h" and "0 \<le> sr_Level r" and "sr_Attrs r = map (\<lambda>(k, j). (k, VAny j)) kvs"
    and "distinct (map fst kvs)" and "[] \<notin> fst ` set kvs"
  shows "\<exists>l. slog_Log h span r = Some l \<and> lr_Ts l = formatTS (sr_Time r) \<and> lr_Level l = levelString (sr_Level r) \<and>
    lr_Service l = lh_service h \<and> lr_Message l = sr_Message r \<and>
    (lr_TraceID l, lr_SpanID l) = (case span of Some p \<Rightarrow> p | None \<Rightarrow> ([], [])) \<and>
    (\<forall>k. log_field k (lr_Fields l) = map_of kvs k)"
proof -
  define fs where "fs = field_tree (FMap (buildFields h (sr_Attrs r)))"
  have f: "log_field k fs = map_of kvs k" for k
    unfolding fs_def assms(3) by (rule fields_plain [OF assms(1,4,5)])
  have "handler_Enabled h (sr_Level r)" "lh_shipping h"
    using assms(1,2) by (simp_all add: handler_Enabled_def plain_handler_def)
  then have "slog_Log h span r = Some \<lparr>lr_Ts = formatTS (sr_Time r), lr_Level = levelString (sr_Level r),
      lr_Service = lh_service h, lr_Message = sr_Message r,
      lr_TraceID = fst (case span of Some p \<Rightarrow> p | None \<Rightarrow> ([], [])),
      lr_SpanID = snd (case span of Some p \<Rightarrow> p | None \<Rightarrow> ([], [])), lr_Fields = fs\<rparr>"
    by (simp add: slog_Log_def handler_Handle_def fs_def split: prod.split del: field_tree.simps)
  then show ?thesis using f by simp
qed

text \<open>A record of a panic.\<close>

definition tells_panic :: "log_handler \<Rightarrow> log_record \<Rightarrow> access_ctx \<Rightarrow> bool" where
  "tells_panic h l cx \<longleftrightarrow>
     lr_Ts l = formatTS (ax_panic cx) \<and> lr_Level l = ''ERROR'' \<and> lr_Service l = lh_service h \<and>
     lr_Message l = ''panic in handler'' \<and> lr_TraceID l = [] \<and> lr_SpanID l = [] \<and>
     (\<forall>k. log_field k (lr_Fields l) = map_of [(''err'', ax_recovered cx), (''stack'', JTStr (ax_stack cx))] k)"

lemma panic_recorded:
  assumes "plain_handler h" shows "\<exists>l. slog_Log h None (panic_record cx) = Some l \<and> tells_panic h l cx"
proof -
  obtain l where l: "slog_Log h None (panic_record cx) = Some l"
      "lr_Ts l = formatTS (sr_Time (panic_record cx))" "lr_Level l = levelString (sr_Level (panic_record cx))"
      "lr_Service l = lh_service h" "lr_Message l = sr_Message (panic_record cx)" "lr_TraceID l = []" "lr_SpanID l = []"
      "\<And>k. log_field k (lr_Fields l) = map_of [(''err'', ax_recovered cx), (''stack'', JTStr (ax_stack cx))] k"
    using record_of [OF assms, of "panic_record cx" "[(''err'', ax_recovered cx), (''stack'', JTStr (ax_stack cx))]" None]
    by (auto simp: panic_record_def)
  then have "tells_panic h l cx" by (simp add: tells_panic_def panic_record_def levelString_def del: map_of.simps)
  with l(1) show ?thesis by blast
qed

lemma middleware_record:
  assumes "plain_handler h" and "HTTPMiddleware h nxt cx r s = (rp, l, s')"
  shows "nxt r s = (rp, s') \<and> (\<exists>x. l = Some x \<and> tells_of h x (cx, r) rp)"
proof -
  have n: "nxt r s = (rp, s')" using assms(2) by (auto simp: HTTPMiddleware_def Let_def split: prod.splits)
  define rec where "rec = \<lparr>sr_Time = ax_log cx, sr_Level = http_level (rp_status rp),
      sr_Message = ''http '' @ rq_Method r @ '' '' @ url_Path r,
      sr_Attrs = [(''http.method'', VAny (JTStr (rq_Method r))), (''http.path'', VAny (JTStr (url_Path r))),
      (''http.status'', VAny (JTInt (rp_status rp))), duration_ms cx]\<rparr>"
  have l: "l = slog_Log h (ax_span cx) rec" using assms(2) n by (simp add: HTTPMiddleware_def rec_def)
  have "sr_Attrs rec = map (\<lambda>(k, j). (k, VAny j)) (access_fields cx r rp)"
    by (simp add: rec_def access_fields_def duration_ms_def)
  moreover have "0 \<le> sr_Level rec" by (simp add: rec_def http_level_def)
  ultimately obtain x where x: "slog_Log h (ax_span cx) rec = Some x" "lr_Ts x = formatTS (sr_Time rec)"
      "lr_Level x = levelString (sr_Level rec)" "lr_Service x = lh_service h" "lr_Message x = sr_Message rec"
      "(lr_TraceID x, lr_SpanID x) = (case ax_span cx of Some p \<Rightarrow> p | None \<Rightarrow> ([], []))"
      "\<And>k. log_field k (lr_Fields x) = map_of (access_fields cx r rp) k"
    using record_of [OF assms(1), of rec "access_fields cx r rp" "ax_span cx"] by (auto simp: access_fields_def)
  then have "tells_of h x (cx, r) rp" by (simp add: tells_of_def rec_def access_level_of)
  then show ?thesis using n l x(1) by blast
qed

text \<open>The run without the log: the replies, the edge, and which of the requests made a handler panic.\<close>

definition panics :: "('j, 'w) edge_options \<Rightarrow> access_ctx \<times> rest_request \<Rightarrow> 'w edge \<Rightarrow> bool" where
  "panics op x e \<longleftrightarrow> outer_mux (ax_metrics (fst x)) (snd x) = None \<and>
     fst (globalLimitMW (routeRoot op) (snd x\<lparr>rq_subject := [], rq_values := []\<rparr>) e) = None"

fun edge_run :: "('j, 'w) edge_options \<Rightarrow> (access_ctx \<times> rest_request) list \<Rightarrow> 'w edge \<Rightarrow>
  (reply \<times> bool) list \<times> 'w edge" where
  "edge_run op [] e = ([], e)"
| "edge_run op (x # xs) e =
     (let (rp, e1) = edge_serve op (ax_metrics (fst x)) (snd x) e; (rps, e2) = edge_run op xs e1 in
      ((rp, panics op x e) # rps, e2))"

text \<open>What a request should leave in the log.\<close>

definition leaves :: "log_handler \<Rightarrow> log_record list \<Rightarrow> access_ctx \<times> rest_request \<Rightarrow> reply \<times> bool \<Rightarrow> bool" where
  "leaves h ls x y \<longleftrightarrow>
     (\<exists>a. tells_of h a x (fst y) \<and>
        (if snd y then fst y = writeError 500 ''internal'' ''internal server error'' \<and> (\<exists>p. tells_panic h p (fst x) \<and> ls = [p, a])
         else ls = [a]))"

text \<open>No handler touches the count of panics: only \<open>recoverMW\<close> does.\<close>

definition keeps_panics :: "'w handler \<Rightarrow> bool" where
  "keeps_panics f \<longleftrightarrow> (\<forall>r e. ed_panics (snd (f r e)) = ed_panics e)"

named_theorems panics_intros \<open>handlers that leave the count alone\<close>

lemma panics_answer [panics_intros]: "keeps_panics (\<lambda>r e. answer (ok r) (rpc_call f (q r) r e))"
  by (auto simp: keeps_panics_def answer_def rpc_call_def split: prod.splits sum.splits)

lemma panics_with_body [panics_intros]: "(\<And>v. keeps_panics (h v)) \<Longrightarrow> keeps_panics (with_body op m z h)"
  by (simp add: keeps_panics_def with_body_def split: sum.split)

lemma panics_generation [panics_intros]: "keeps_panics (handleGetGeneration op)"
  unfolding keeps_panics_def handleGetGeneration_def Let_def
  by (auto simp: answer_def rpc_call_def split: prod.splits sum.splits)

lemma panics_middlewares [panics_intros]:
  assumes "keeps_panics h"
  shows "keeps_panics (requireJWT op h)" "keeps_panics (cors op h)" "keeps_panics (limitRefresh h)"
    "keeps_panics (globalLimitMW h)"
proof -
  have h: "ed_panics (snd (h r e)) = ed_panics e" for r e using assms by (simp add: keeps_panics_def)
  show "keeps_panics (requireJWT op h)" "keeps_panics (limitRefresh h)" "keeps_panics (globalLimitMW h)"
    by (simp_all add: keeps_panics_def requireJWT_def limitRefresh_def globalLimitMW_def Let_def h
        split: option.split sum.split prod.split)
  show "keeps_panics (cors op h)" by (simp add: keeps_panics_def cors_def Let_def h)
qed

lemma panics_constant [panics_intros]: "keeps_panics healthz" "keeps_panics handleCORSPreflight"
  by (simp_all add: keeps_panics_def healthz_def handleCORSPreflight_def)

lemma panics_handlers [panics_intros]:
  "keeps_panics (handleSignIn op)" "keeps_panics (handleRefresh op)" "keeps_panics (handleRevoke op)" "keeps_panics (handleGetMe op)"
  "keeps_panics (handleCreatePoll op)" "keeps_panics (handleGetResponses op)" "keeps_panics (handleGetPollByToken op)"
  "keeps_panics (handleSubmitResponse op)" "keeps_panics (handleRequestGeneration op)" "keeps_panics (handleRefine op)"
  "keeps_panics (handleSaveIdea op)" "keeps_panics (handleListHolidays op)" "keeps_panics (handleGetCategories op)"
  "keeps_panics (handleRegisterDevice op)"
  unfolding handleSignIn_def handleRefresh_def handleRevoke_def handleGetMe_def [abs_def] handleCreatePoll_def
    handleGetResponses_def [abs_def] handleGetPollByToken_def [abs_def] handleSubmitResponse_def
    handleRequestGeneration_def handleRefine_def handleSaveIdea_def [abs_def] handleListHolidays_def [abs_def]
    handleGetCategories_def [abs_def] handleRegisterDevice_def Let_def
  by (intro panics_intros)+

lemma panics_mux:
  assumes "\<forall>t \<in> set routes. keeps_panics (rt_handler t)" shows "keeps_panics (mux_ServeHTTP routes)"
  unfolding keeps_panics_def
proof (intro allI)
  fix r e
  show "ed_panics (snd (mux_ServeHTTP routes r e)) = ed_panics e"
  proof (cases "mux_find routes r")
    case (Inl a)
    then show ?thesis by (simp add: mux_ServeHTTP_def)
  next
    case (Inr p)
    obtain g vs where p: "p = (g, vs)" by (cases p)
    from mux_find_route [OF Inr [unfolded p]] assms have "keeps_panics g" by auto
    then show ?thesis by (simp add: mux_ServeHTTP_def Inr p keeps_panics_def)
  qed
qed

lemma panics_root: "keeps_panics (globalLimitMW (routeRoot op))"
proof -
  have "keeps_panics (mux_ServeHTTP (main_routes op))" "keeps_panics (mux_ServeHTTP (token_routes op))"
    by (rule panics_mux, simp add: main_routes_def token_routes_def at_def panics_intros)+
  then have "keeps_panics (routeRoot op)" by (simp add: keeps_panics_def routeRoot_def)
  then show ?thesis by (rule panics_intros)
qed

lemma serve_panics:
  assumes "edge_serve op (ax_metrics (fst x)) (snd x) e = (rp, e1)"
  shows "ed_panics e < ed_panics e1 \<longleftrightarrow> panics op x e"
    and "panics op x e \<Longrightarrow> rp = writeError 500 ''internal'' ''internal server error''"
proof -
  have "(ed_panics e < ed_panics e1 \<longleftrightarrow> panics op x e) \<and>
    (panics op x e \<longrightarrow> rp = writeError 500 ''internal'' ''internal server error'')"
  proof (cases "outer_mux (ax_metrics (fst x)) (snd x)")
    case (Some a)
    then show ?thesis using assms by (simp add: edge_serve_def panics_def)
  next
    case None
    then have "gw_serve op (snd x) e = (rp, e1)" using assms by (simp add: edge_serve_def)
    from serve_cases [OF this] obtain a e0 where
      a: "globalLimitMW (routeRoot op) (snd x\<lparr>rq_subject := [], rq_values := []\<rparr>) e = (a, e0)"
      "rp = (case a of None \<Rightarrow> writeError 500 ''internal'' ''internal server error'' | Some x \<Rightarrow> x)"
      "e1 = (if a = None then e0\<lparr>ed_panics := Suc (ed_panics e0)\<rparr> else e0)" by blast
    have "ed_panics e0 = ed_panics e" using panics_root [of op] a(1) unfolding keeps_panics_def by (metis snd_conv)
    then show ?thesis using a None by (simp add: panics_def)
  qed
  then show "ed_panics e < ed_panics e1 \<longleftrightarrow> panics op x e"
    and "panics op x e \<Longrightarrow> rp = writeError 500 ''internal'' ''internal server error''" by blast+
qed

lemma access_run_records:
  assumes "plain_handler h" and "access_run h op rs e = (rps, ls, e')"
  shows "\<exists>ys lss. edge_run op rs e = (ys, e') \<and> map fst ys = rps \<and> ls = concat lss \<and>
    list_all2 (\<lambda>(l, x) y. leaves h l x y) (zip lss rs) ys \<and> length lss = length rs"
  using assms(2)
proof (induction rs arbitrary: e rps ls)
  case Nil
  then show ?case by simp
next
  case (Cons x rs)
  obtain cx r where x: "x = (cx, r)" by fastforce
  obtain rp l e1 where 1: "HTTPMiddleware h (edge_serve op (ax_metrics cx)) cx r e = (rp, l, e1)" by (rule prod_cases3)
  obtain rps' ls' e2 where 2: "access_run h op rs e1 = (rps', ls', e2)" by (rule prod_cases3)
  from middleware_record [OF assms(1) 1] obtain a where
    n: "edge_serve op (ax_metrics cx) r e = (rp, e1)" "l = Some a" "tells_of h a x rp" by (auto simp: x)
  have n': "edge_serve op (ax_metrics (fst x)) (snd x) e = (rp, e1)" using n(1) by (simp add: x)
  obtain p where p: "slog_Log h None (panic_record cx) = Some p" "tells_panic h p cx"
    using panic_recorded [OF assms(1)] by blast
  let ?l = "if panics op x e then [p, a] else [a]"
  have o: "rps = rp # rps'" "ls = ?l @ ls'" "e2 = e'"
    using Cons.prems 1 2 n(2) p(1) serve_panics(1) [OF n'] by (cases "panics op x e"; simp add: x shipped_records_def)+
  have lv: "leaves h ?l x (rp, panics op x e)"
  proof (cases "panics op x e")
    case True
    from serve_panics(2) [OF n' this] n(3) p(2) show ?thesis by (auto simp: leaves_def True x)
  next
    case False
    with n(3) show ?thesis by (simp add: leaves_def)
  qed
  from Cons.IH [OF 2 [unfolded o(3)]] obtain ys lss where
    ih: "edge_run op rs e1 = (ys, e')" "map fst ys = rps'" "ls' = concat lss"
    "list_all2 (\<lambda>(l, x) y. leaves h l x y) (zip lss rs) ys" "length lss = length rs" by blast
  have "edge_run op (x # rs) e = ((rp, panics op x e) # ys, e')" by (simp add: n' ih(1))
  moreover have "ls = concat (?l # lss)" using o(2) ih(3) by simp
  ultimately show ?case using ih(2,4,5) lv o(1)
    by (intro exI [of _ "(rp, panics op x e) # ys"] exI [of _ "?l # lss"]) simp
qed

text \<open>C29: the access log of the gateway. With shipping on, the log is what the requests leave in it, one
  after the other: a request whose handler panics, which is answered 500, leaves a record of the panic and
  then its access record; any other request, those for \<open>/metrics\<close> and \<open>/swagger/\<close> and those that a
  multiplexer redirects included, leaves its access record and nothing else. The access record has the
  method, the path, the status of the reply and the duration and no other field, and its level is ERROR for
  a status from 500 on, WARN from 400 on and INFO otherwise. The log changes nothing: the replies are those
  of the gateway without it.\<close>

theorem access_log_complete:
  assumes "plain_handler h" and "access_run h op rs e = (rps, ls, e')"
  shows "\<exists>ys lss. edge_run op rs e = (ys, e') \<and> map fst ys = rps \<and> ls = concat lss \<and>
    length lss = length rs \<and> length ys = length rs \<and> (\<forall>i < length rs. leaves h (lss ! i) (rs ! i) (ys ! i))"
proof -
  obtain ys lss where l: "edge_run op rs e = (ys, e')" "map fst ys = rps" "ls = concat lss"
    "list_all2 (\<lambda>(l, x) y. leaves h l x y) (zip lss rs) ys" "length lss = length rs"
    using access_run_records [OF assms] by blast
  then have "length ys = length rs" by (auto dest: list_all2_lengthD)
  moreover have "leaves h (lss ! i) (rs ! i) (ys ! i)" if "i < length rs" for i
    using list_all2_nthD [OF l(4), of i] that l(5) by simp
  ultimately show ?thesis using l(1,2,3,5) by blast
qed

definition ex_handler :: log_handler where
  "ex_handler = NewHandler ''gateway'' (DefaultOptions\<lparr>lo_ServerURL := ''http://logs''\<rparr>)"

definition ex_visit :: "rest_request \<Rightarrow> access_ctx \<times> rest_request" where
  "ex_visit r = (\<lparr>ax_start = 0, ax_end = 7000000, ax_log = 7000000, ax_span = None, ax_panic = 5000000,
     ax_recovered = JTStr ''index out of range'', ax_stack = ''...'', ax_metrics = \<lparr>rp_status = 200, rp_headers = [], rp_body = PlainText\<rparr>\<rparr>, r)"

text \<open>A token for a key set with an exponent that is too long: the verifier panics.\<close>

definition ex_panic :: rest_request where
  "ex_panic = (ex_request ''GET'' ''/v1/me'' [(''Authorization'', [''Bearer '' @ compact_jwt ''h'' ''p'' ''s''])] None)
     \<lparr>rq_verify := ex_call (700 * ns_per_sec) (Some [\<lparr>jk_Kty = ''RSA'', jk_Kid = ''r'', jk_N = ''AQAB'',
        jk_E = ''AAAAAAAAAQAB'', jk_Crv = [], jk_X = []\<rparr>])\<rparr>"

definition ex_visits :: "(access_ctx \<times> rest_request) list" where
  "ex_visits = map ex_visit
     [ex_request ''GET'' ''/v1/polls/token/secret'' [] None, ex_request ''GET'' ''/metrics'' [] None, ex_panic,
      ex_request ''GET'' ''/swagger'' [] None]"

theorem access_log_complete_witness:
  "\<exists>ys lss. edge_run (ex_options idle) ex_visits (ex_edge ()) = (ys, snd (edge_run (ex_options idle) ex_visits (ex_edge ()))) \<and>
   map (\<lambda>(rp, p). (rp_status rp, p)) ys = [(502, False), (200, False), (500, True), (301, False)] \<and>
   map lr_Message (concat lss) = [''http GET /v1/polls/token/secret'', ''http GET /metrics'', ''panic in handler'',
     ''http GET /v1/me'', ''http GET /swagger''] \<and>
   (\<forall>i < 4. leaves ex_handler (lss ! i) (ex_visits ! i) (ys ! i))"
proof -
  obtain rps ls e' where run: "access_run ex_handler (ex_options idle) ex_visits (ex_edge ()) = (rps, ls, e')"
    by (rule prod_cases3)
  have "(\<lambda>(rps, ls, e'). map lr_Message ls) (access_run ex_handler (ex_options idle) ex_visits (ex_edge ())) =
      [''http GET /v1/polls/token/secret'', ''http GET /metrics'', ''panic in handler'', ''http GET /v1/me'', ''http GET /swagger'']"
    by code_simp
  then have m: "map lr_Message ls = [''http GET /v1/polls/token/secret'', ''http GET /metrics'', ''panic in handler'',
      ''http GET /v1/me'', ''http GET /swagger'']" by (simp only: run prod.case)
  have f: "map (\<lambda>(rp, p). (rp_status rp, p)) (fst (edge_run (ex_options idle) ex_visits (ex_edge ()))) =
      [(502, False), (200, False), (500, True), (301, False)]"
    by code_simp
  have "plain_handler ex_handler" unfolding ex_handler_def by (rule NewHandler_plain) (simp_all add: DefaultOptions_def)
  from access_log_complete [OF this run] obtain ys lss where
    o: "edge_run (ex_options idle) ex_visits (ex_edge ()) = (ys, e')" "ls = concat lss"
    "\<forall>i < length ex_visits. leaves ex_handler (lss ! i) (ex_visits ! i) (ys ! i)" by blast
  moreover have "length ex_visits = 4" by (simp add: ex_visits_def)
  ultimately show ?thesis using m f by (intro exI [of _ ys] exI [of _ lss]) simp
qed

text \<open>The link token of a poll is part of the path, so it is shipped to the log server in clear, of which the
  Poll service itself only stores a hash.\<close>

theorem link_token_logged:
  assumes "plain_handler h" and "access_run h op rs e = (rps, ls, e')" and "x \<in> set rs"
    and "url_Path (snd x) = ''/v1/polls/token/'' @ t @ rest"
  shows "\<exists>l \<in> set ls. lr_Message l = ''http '' @ rq_Method (snd x) @ '' /v1/polls/token/'' @ t @ rest"
proof -
  obtain ys lss where l: "ls = concat lss"
    "list_all2 (\<lambda>(l, x) y. leaves h l x y) (zip lss rs) ys" "length lss = length rs"
    using access_run_records [OF assms(1,2)] by blast
  obtain i where i: "i < length rs" "rs ! i = x" using assms(3) by (auto simp: in_set_conv_nth)
  have "leaves h (lss ! i) x (ys ! i)" using list_all2_nthD [OF l(2), of i] i l(3) by simp
  then obtain a where a: "tells_of h a x (fst (ys ! i))" "a \<in> set (lss ! i)" by (auto simp: leaves_def split: if_splits)
  then have "a \<in> set ls" using l(1,3) i(1) by auto
  with a(1) assms(4) show ?thesis by (intro bexI [of _ a]) (auto simp: tells_of_def split: prod.splits)
qed

end
