(* ===== verification/Event_Bus.thy ===== *)
theory Event_Bus
  imports Poll_Store Surprise_Pipeline Notify_Events Gift_Json_Structs Gift_Time
begin

text \<open>
  The events between the services: what they ask of NATS JetStream, as its documentation describes it, the
  adapters (\<open>services/backend/poll/internal/domain/events/nats.go\<close>,
  \<open>surprise/internal/events/nats.go\<close>, \<open>notification/internal/events/nats.go\<close>) and the services
  together on one broker, with the configuration files of the repository. Trace headers are left out.
\<close>

section \<open>JetStream\<close>

text \<open>
  A subject is a list of tokens, of which \<open>*\<close> stands for one and \<open>>\<close> for the rest. Two streams never share
  a subject. A message is kept by the stream of its subject under a sequence number; a durable consumer
  is given the messages that match its filter until it acknowledges them, and a work queue then forgets
  them. A request may be refused, or be served with its reply lost.
\<close>

fun tokens_overlap :: "string list \<Rightarrow> string list \<Rightarrow> bool" where
  "tokens_overlap [] [] = True"
| "tokens_overlap (a # as) (b # bs) =
     (a = ''>'' \<or> b = ''>'' \<or> ((a = b \<or> a = ''*'' \<or> b = ''*'') \<and> tokens_overlap as bs))"
| "tokens_overlap _ _ = False"

definition subjects_overlap :: "string \<Rightarrow> string \<Rightarrow> bool" where
  "subjects_overlap x y \<longleftrightarrow> tokens_overlap (Split x (CHR ''.'')) (Split y (CHR ''.''))"

datatype retention = LimitsPolicy | WorkQueuePolicy

record js_stream =
  js_Name :: string
  js_Subjects :: "string list"
  js_Retention :: retention
  js_Last :: nat
  js_Msgs :: "nat \<Rightarrow> (string \<times> string) option"

record js_consumer =
  cn_Stream :: string
  cn_Durable :: string
  cn_Filter :: string
  cn_Acked :: "nat list"

datatype broker_fault = Served | Refused | ReplyLost

record jetstream =
  js_streams :: "js_stream list"
  js_consumers :: "js_consumer list"
  js_faults :: "broker_fault list"

text \<open>Whether the client sees a failure, and the broker then. An operation that does not apply is refused.\<close>

definition request :: "(jetstream \<Rightarrow> jetstream option) \<Rightarrow> jetstream \<Rightarrow> bool \<times> jetstream" where
  "request f b =
     (let (x, b1) = (case js_faults b of [] \<Rightarrow> (Served, b) | x # xs \<Rightarrow> (x, b\<lparr>js_faults := xs\<rparr>)) in
      if x = Refused then (True, b1)
      else case f b1 of None \<Rightarrow> (True, b1) | Some b2 \<Rightarrow> (x = ReplyLost, b2))"

definition find_stream :: "string \<Rightarrow> jetstream \<Rightarrow> js_stream option" where
  "find_stream name b = find (\<lambda>s. js_Name s = name) (js_streams b)"

definition with_stream :: "string \<Rightarrow> (js_stream \<Rightarrow> js_stream) \<Rightarrow> jetstream \<Rightarrow> jetstream" where
  "with_stream name g b = b\<lparr>js_streams := map (\<lambda>s. if js_Name s = name then g s else s) (js_streams b)\<rparr>"

definition taken :: "string \<Rightarrow> string list \<Rightarrow> jetstream \<Rightarrow> bool" where
  "taken name subjects b \<longleftrightarrow>
     (\<exists>s \<in> set (js_streams b). js_Name s \<noteq> name \<and> (\<exists>x \<in> set subjects. \<exists>y \<in> set (js_Subjects s). subjects_overlap x y))"

text \<open>\<open>CreateOrUpdateStream\<close> with the default retention, which an update cannot change.\<close>

definition put_stream :: "string \<Rightarrow> string list \<Rightarrow> jetstream \<Rightarrow> jetstream option" where
  "put_stream name subjects b =
     (if taken name subjects b then None
      else case find_stream name b of
        None \<Rightarrow> Some (b\<lparr>js_streams := js_streams b @
          [\<lparr>js_Name = name, js_Subjects = subjects, js_Retention = LimitsPolicy, js_Last = 0, js_Msgs = (\<lambda>_. None)\<rparr>]\<rparr>)
      | Some s \<Rightarrow> (if js_Retention s = LimitsPolicy then Some (with_stream name (js_Subjects_update (\<lambda>_. subjects)) b) else None))"

text \<open>\<open>StreamInfo\<close>, and \<open>AddStream\<close> of a work queue, which accepts a stream that is there as it should be.\<close>

definition stream_info :: "string \<Rightarrow> jetstream \<Rightarrow> jetstream option" where
  "stream_info name b = (if find_stream name b = None then None else Some b)"

definition add_queue :: "string \<Rightarrow> string list \<Rightarrow> jetstream \<Rightarrow> jetstream option" where
  "add_queue name subjects b =
     (if taken name subjects b then None
      else case find_stream name b of
        None \<Rightarrow> Some (b\<lparr>js_streams := js_streams b @
          [\<lparr>js_Name = name, js_Subjects = subjects, js_Retention = WorkQueuePolicy, js_Last = 0, js_Msgs = (\<lambda>_. None)\<rparr>]\<rparr>)
      | Some s \<Rightarrow> (if js_Retention s = WorkQueuePolicy \<and> js_Subjects s = subjects then Some b else None))"

definition put_msg :: "string \<Rightarrow> string \<Rightarrow> js_stream \<Rightarrow> js_stream" where
  "put_msg subject data s =
     s\<lparr>js_Last := Suc (js_Last s), js_Msgs := (js_Msgs s)(Suc (js_Last s) \<mapsto> (subject, data))\<rparr>"

definition js_publish :: "string \<Rightarrow> string \<Rightarrow> jetstream \<Rightarrow> jetstream option" where
  "js_publish subject data b =
     (case find (\<lambda>s. \<exists>x \<in> set (js_Subjects s). subjects_overlap x subject) (js_streams b) of
        None \<Rightarrow> None
      | Some s \<Rightarrow> Some (with_stream (js_Name s) (put_msg subject data) b))"

text \<open>A durable consumer with explicit acknowledgement, created or bound.\<close>

definition is_consumer :: "string \<Rightarrow> string \<Rightarrow> js_consumer \<Rightarrow> bool" where
  "is_consumer name durable c \<longleftrightarrow> cn_Stream c = name \<and> cn_Durable c = durable"

definition put_consumer :: "string \<Rightarrow> string \<Rightarrow> string \<Rightarrow> jetstream \<Rightarrow> jetstream option" where
  "put_consumer name durable subject b =
     (case find_stream name b of
        None \<Rightarrow> None
      | Some s \<Rightarrow>
          (if js_Retention s = WorkQueuePolicy \<and>
              (\<exists>c \<in> set (js_consumers b). cn_Stream c = name \<and> cn_Durable c \<noteq> durable \<and> subjects_overlap (cn_Filter c) subject)
           then None
           else if find (is_consumer name durable) (js_consumers b) = None
           then Some (b\<lparr>js_consumers := js_consumers b @
             [\<lparr>cn_Stream = name, cn_Durable = durable, cn_Filter = subject, cn_Acked = []\<rparr>]\<rparr>)
           else Some (b\<lparr>js_consumers := map (\<lambda>c. if is_consumer name durable c then c\<lparr>cn_Filter := subject\<rparr> else c) (js_consumers b)\<rparr>)))"

text \<open>The older client does not change a consumer that is there with another filter; it refuses.\<close>

definition bind_consumer :: "string \<Rightarrow> string \<Rightarrow> string \<Rightarrow> jetstream \<Rightarrow> jetstream option" where
  "bind_consumer name durable subject b =
     (case find (is_consumer name durable) (js_consumers b) of
        None \<Rightarrow> put_consumer name durable subject b
      | Some c \<Rightarrow> (if cn_Filter c = subject then Some b else None))"

text \<open>The message a consumer may be given under this number, and its acknowledgement.\<close>

definition waiting :: "string \<Rightarrow> string \<Rightarrow> nat \<Rightarrow> jetstream \<Rightarrow> string option" where
  "waiting name durable n b =
     (case (find_stream name b, find (is_consumer name durable) (js_consumers b)) of
        (Some s, Some c) \<Rightarrow>
          (case js_Msgs s n of
             Some (subject, data) \<Rightarrow> if subjects_overlap (cn_Filter c) subject \<and> n \<notin> set (cn_Acked c) then Some data else None
           | None \<Rightarrow> None)
      | _ \<Rightarrow> None)"

definition js_ack :: "string \<Rightarrow> string \<Rightarrow> nat \<Rightarrow> jetstream \<Rightarrow> jetstream option" where
  "js_ack name durable n b =
     (let b1 = b\<lparr>js_consumers := map (\<lambda>c. if is_consumer name durable c then c\<lparr>cn_Acked := n # cn_Acked c\<rparr> else c) (js_consumers b)\<rparr> in
      Some (with_stream name (\<lambda>s. if js_Retention s = WorkQueuePolicy then s\<lparr>js_Msgs := (js_Msgs s)(n := None)\<rparr> else s) b1))"

section \<open>Poll (domain/events/nats.go)\<close>

record poll_nats =
  pn_Stream :: string
  pn_Subject :: string

definition NewPublisher :: "poll_nats \<Rightarrow> jetstream \<Rightarrow> bool \<times> jetstream" where
  "NewPublisher c = request (put_stream (pn_Stream c) [pn_Subject c])"

text \<open>The JSON of the event. A time outside of the years 0 to 9999 cannot be marshalled.\<close>

definition poll_completed_json :: "poll_completed \<Rightarrow> json_tree" where
  "poll_completed_json ev = JTObj
     ([(''poll_id'', JTStr (ev_PollID ev))]
      @ (if ev_SurpriseRequestID ev = [] then [] else [(''surprise_request_id'', JTStr (ev_SurpriseRequestID ev))])
      @ [(''owner_user_id'', JTStr (ev_OwnerUserID ev)), (''completed_at'', JTStr (fmt_nano (ev_CompletedAt ev)))])"

definition PublishPollCompleted :: "poll_nats \<Rightarrow> poll_completed \<Rightarrow> jetstream \<Rightarrow> bool \<times> jetstream" where
  "PublishPollCompleted c ev b =
     (if \<not> civil_time (ev_CompletedAt ev) then (True, b)
      else request (js_publish (pn_Subject c) (json_text (poll_completed_json ev))) b)"

section \<open>Surprise (events/nats.go)\<close>

record surprise_nats =
  sn_Stream :: string
  sn_RequestSubject :: string
  sn_ReadySubject :: string
  sn_DurableName :: string

definition NewNATSBus :: "surprise_nats \<Rightarrow> jetstream \<Rightarrow> bool \<times> jetstream" where
  "NewNATSBus c b =
     (let (missing, b1) = request (stream_info (sn_Stream c)) b in
      if missing then request (add_queue (sn_Stream c) [sn_RequestSubject c, sn_ReadySubject c]) b1 else (False, b1))"

definition generation_requested_json :: "generation_requested \<Rightarrow> json_tree" where
  "generation_requested_json j = JTObj [(''request_id'', JTStr (ge_RequestID j)), (''tier'', JTStr (tier_text (ge_Tier j)))]"

definition ideas_ready_json :: "ideas_ready \<Rightarrow> json_tree" where
  "ideas_ready_json e = JTObj
     [(''request_id'', JTStr (ev_RequestID e)), (''user_id'', JTStr (ev_UserID e)), (''idea_count'', JTInt (int (ev_IdeaCount e)))]"

definition nats_PublishGenerationRequested :: "surprise_nats \<Rightarrow> generation_requested \<Rightarrow> jetstream \<Rightarrow> bool \<times> jetstream" where
  "nats_PublishGenerationRequested c j = request (js_publish (sn_RequestSubject c) (json_text (generation_requested_json j)))"

definition nats_PublishIdeasReady :: "surprise_nats \<Rightarrow> ideas_ready \<Rightarrow> jetstream \<Rightarrow> bool \<times> jetstream" where
  "nats_PublishIdeasReady c e = request (js_publish (sn_ReadySubject c) (json_text (ideas_ready_json e)))"

definition nats_publisher :: "surprise_nats \<Rightarrow> jetstream gen_publisher" where
  "nats_publisher c =
     \<lparr>pu_GenerationRequested = nats_PublishGenerationRequested c, pu_IdeasReady = nats_PublishIdeasReady c\<rparr>"

text \<open>The worker's subscription. A job that cannot be decoded is terminated, a failed one is left for
  redelivery; the handler yields whether it failed.\<close>

definition tier_of_text :: "string \<Rightarrow> tier" where
  "tier_of_text s = (if s = ''sonnet'' then TierSonnet else if s = ''opus'' then TierOpus else TierText s)"

definition decode_job :: "string \<Rightarrow> generation_requested option" where
  "decode_job data =
     (case json_parse data of
        Some JNull \<Rightarrow> Some \<lparr>ge_RequestID = [], ge_Tier = TierText []\<rparr>
      | Some (JObj ms) \<Rightarrow>
          (case (string_field ''request_id'' ms [], string_field ''tier'' ms []) of
             (Some r, Some t) \<Rightarrow> Some \<lparr>ge_RequestID = r, ge_Tier = tier_of_text t\<rparr>
           | _ \<Rightarrow> None)
      | _ \<Rightarrow> None)"

definition nats_Subscribe :: "surprise_nats \<Rightarrow> jetstream \<Rightarrow> bool \<times> jetstream" where
  "nats_Subscribe c b =
     (case find (\<lambda>s. \<exists>x \<in> set (js_Subjects s). subjects_overlap x (sn_RequestSubject c)) (js_streams b) of
        None \<Rightarrow> (True, b)
      | Some s \<Rightarrow> request (bind_consumer (js_Name s) (sn_DurableName c) (sn_RequestSubject c)) b)"

definition nats_job ::
  "surprise_nats \<Rightarrow> string \<Rightarrow> (generation_requested \<Rightarrow> 'e \<Rightarrow> bool \<times> 'e) \<Rightarrow> nat \<Rightarrow> jetstream \<times> 'e \<Rightarrow> jetstream \<times> 'e" where
  "nats_job c name h n w =
     (case waiting name (sn_DurableName c) n (fst w) of
        None \<Rightarrow> w
      | Some data \<Rightarrow>
          (case decode_job data of
             None \<Rightarrow> (snd (request (js_ack name (sn_DurableName c) n) (fst w)), snd w)
           | Some j \<Rightarrow>
               (let (failed, e) = h j (snd w) in
                if failed then (fst w, e) else (snd (request (js_ack name (sn_DurableName c) n) (fst w)), e))))"

section \<open>Notification (events/nats.go)\<close>

record notify_nats =
  nn_Stream :: string
  nn_Durable :: string
  nn_PollCompletedSub :: string
  nn_IdeasReadySub :: string

definition nats_Connect :: "notify_nats \<Rightarrow> jetstream \<Rightarrow> bool \<times> jetstream" where
  "nats_Connect c = request (put_stream (nn_Stream c) [nn_PollCompletedSub c, nn_IdeasReadySub c])"

text \<open>The two subscriptions: of polls, or of ideas.\<close>

definition sub_durable :: "notify_nats \<Rightarrow> bool \<Rightarrow> string" where
  "sub_durable c polls = nn_Durable c @ (if polls then ''-poll-completed'' else ''-ideas-ready'')"

definition sub_subject :: "notify_nats \<Rightarrow> bool \<Rightarrow> string" where
  "sub_subject c polls = (if polls then nn_PollCompletedSub c else nn_IdeasReadySub c)"

definition nats_Consume :: "notify_nats \<Rightarrow> bool \<Rightarrow> jetstream \<Rightarrow> bool \<times> jetstream" where
  "nats_Consume c polls = request (put_consumer (nn_Stream c) (sub_durable c polls) (sub_subject c polls))"

text \<open>A message is handed to the consumer of the service; a negative acknowledgement leaves it waiting.\<close>

definition nats_message ::
  "notify_nats \<Rightarrow> 's notify_store \<Rightarrow> (string \<Rightarrow> bool) \<Rightarrow> bool \<Rightarrow> nat \<Rightarrow> time \<Rightarrow> jetstream \<times> 's \<Rightarrow> jetstream \<times> 's" where
  "nats_message c store time_ok polls n now w =
     (case waiting (nn_Stream c) (sub_durable c polls) n (fst w) of
        None \<Rightarrow> w
      | Some data \<Rightarrow>
          (let (acked, s) = deliver store time_ok (now, if polls then PollCompletedMsg data else IdeasReadyMsg data) (snd w) in
           (if acked then snd (request (js_ack (nn_Stream c) (sub_durable c polls) n) (fst w)) else fst w, s)))"

section \<open>The services on one broker\<close>

record bus_config =
  bc_poll :: poll_nats
  bc_surprise :: surprise_nats
  bc_notify :: notify_nats

text \<open>What happens: a service starts; an event is published; a subscription is given a message under a
  number, at an instant. The worker's handler is left open (whether it fails is part of the event).\<close>

datatype bus_event =
    PollStarts
  | SurpriseStarts
  | NotifyStarts
  | PollEvent poll_completed
  | JobEvent generation_requested
  | ReadyEvent ideas_ready
  | ToNotify bool nat time
  | ToWorker nat bool

fun bus_step ::
  "bus_config \<Rightarrow> 's notify_store \<Rightarrow> (string \<Rightarrow> bool) \<Rightarrow> bus_event \<Rightarrow> jetstream \<times> 's \<Rightarrow> bool \<times> jetstream \<times> 's" where
  "bus_step c st ok PollStarts (b, s) = (let (f, b1) = NewPublisher (bc_poll c) b in (f, b1, s))"
| "bus_step c st ok SurpriseStarts (b, s) =
     (let (f, b1) = NewNATSBus (bc_surprise c) b in
      if f then (True, b1, s) else let (g, b2) = nats_Subscribe (bc_surprise c) b1 in (g, b2, s))"
| "bus_step c st ok NotifyStarts (b, s) =
     (let (f, b1) = nats_Connect (bc_notify c) b in
      if f then (True, b1, s)
      else let (g, b2) = nats_Consume (bc_notify c) True b1; (h, b3) = nats_Consume (bc_notify c) False b2 in (g \<or> h, b3, s))"
| "bus_step c st ok (PollEvent ev) (b, s) = (let (f, b1) = PublishPollCompleted (bc_poll c) ev b in (f, b1, s))"
| "bus_step c st ok (JobEvent j) (b, s) = (let (f, b1) = nats_PublishGenerationRequested (bc_surprise c) j b in (f, b1, s))"
| "bus_step c st ok (ReadyEvent e) (b, s) = (let (f, b1) = nats_PublishIdeasReady (bc_surprise c) e b in (f, b1, s))"
| "bus_step c st ok (ToNotify polls n now) (b, s) = (False, nats_message (bc_notify c) st ok polls n now (b, s))"
| "bus_step c st ok (ToWorker n failed) (b, s) =
     (False, map_prod id (\<lambda>_. s) (nats_job (bc_surprise c) (sn_Stream (bc_surprise c)) (\<lambda>_ _. (failed, ())) n (b, ())))"

text \<open>A run, and for each event whether its client saw a failure.\<close>

fun bus_run ::
  "bus_config \<Rightarrow> 's notify_store \<Rightarrow> (string \<Rightarrow> bool) \<Rightarrow> bus_event list \<Rightarrow> jetstream \<times> 's \<Rightarrow> bool list \<times> jetstream \<times> 's" where
  "bus_run c st ok [] w = ([], w)"
| "bus_run c st ok (v # vs) w = (let (f, w1) = bus_step c st ok v w; (fs, w2) = bus_run c st ok vs w1 in (f # fs, w2))"

text \<open>\<open>configs/values\_docker.yaml\<close> of the three services; \<open>values\_local.yaml\<close> has the same names.\<close>

definition shipped :: bus_config where
  "shipped =
     \<lparr>bc_poll = \<lparr>pn_Stream = ''POLL'', pn_Subject = ''poll.completed''\<rparr>,
      bc_surprise = \<lparr>sn_Stream = ''SURPRISE'', sn_RequestSubject = ''surprise.generation.requested'',
        sn_ReadySubject = ''surprise.ideas.ready'', sn_DurableName = ''surprise-workers''\<rparr>,
      bc_notify = \<lparr>nn_Stream = ''EVENTS'', nn_Durable = ''notification-worker'',
        nn_PollCompletedSub = ''events.poll.completed'', nn_IdeasReadySub = ''events.surprise.ideas_ready''\<rparr>\<rparr>"

section \<open>Nobody listens\<close>

text \<open>No published subject is one the subscriptions ask for, and no durable name is used twice.\<close>

definition published :: "bus_config \<Rightarrow> string set" where
  "published c = {pn_Subject (bc_poll c), sn_RequestSubject (bc_surprise c), sn_ReadySubject (bc_surprise c)}"

definition deaf :: "bus_config \<Rightarrow> bool" where
  "deaf c \<longleftrightarrow> (\<forall>polls. \<forall>x \<in> published c. \<not> subjects_overlap (sub_subject (bc_notify c) polls) x) \<and>
     (\<forall>polls. sn_DurableName (bc_surprise c) \<noteq> sub_durable (bc_notify c) polls)"

lemma shipped_deaf: "deaf shipped"
  by (simp add: deaf_def all_bool_eq) code_simp

text \<open>The broker up to its schedule of failures.\<close>

definition same_broker :: "jetstream \<Rightarrow> jetstream \<Rightarrow> bool" where
  "same_broker b b' \<longleftrightarrow> js_streams b' = js_streams b \<and> js_consumers b' = js_consumers b"

lemma request_effect:
  assumes "request f b = (x, b')"
  obtains b1 where "same_broker b b1" and "f b1 = Some b' \<or> x \<and> b' = b1"
proof -
  define b1 where "b1 = (case js_faults b of [] \<Rightarrow> b | x # xs \<Rightarrow> b\<lparr>js_faults := xs\<rparr>)"
  have "same_broker b b1" by (simp add: b1_def same_broker_def split: list.split)
  moreover have "f b1 = Some b' \<or> x \<and> b' = b1"
    using assms by (cases "f b1"; cases "js_faults b") (auto simp: request_def b1_def split: if_splits option.splits)
  ultimately show thesis by (rule that)
qed

text \<open>A property of streams and consumers that an operation keeps is kept by the request.\<close>

lemma request_keeps:
  assumes "request f b = (x, b')" and "I (js_streams b) (js_consumers b)"
    and "\<And>b1 b2. I (js_streams b1) (js_consumers b1) \<Longrightarrow> f b1 = Some b2 \<Longrightarrow> I (js_streams b2) (js_consumers b2)"
  shows "I (js_streams b') (js_consumers b')"
proof (rule request_effect [OF assms(1)])
  fix b1
  assume "same_broker b b1" and e: "f b1 = Some b' \<or> x \<and> b' = b1"
  then have "I (js_streams b1) (js_consumers b1)" using assms(2) by (simp add: same_broker_def)
  with assms(3) e show ?thesis by blast
qed

text \<open>Only what is published is stored, and the subscriptions filter by their subjects.\<close>

definition quiet :: "bus_config \<Rightarrow> js_stream list \<Rightarrow> js_consumer list \<Rightarrow> bool" where
  "quiet c ss cs \<longleftrightarrow> (\<forall>s \<in> set ss. \<forall>n x d. js_Msgs s n = Some (x, d) \<longrightarrow> x \<in> published c) \<and>
     (\<forall>r \<in> set cs. \<forall>polls. cn_Durable r = sub_durable (bc_notify c) polls \<longrightarrow> cn_Filter r = sub_subject (bc_notify c) polls)"

lemma quiet_streams:
  "quiet c (js_streams b) cs \<Longrightarrow> put_stream name subjects b = Some b' \<Longrightarrow> quiet c (js_streams b') cs \<and> js_consumers b' = js_consumers b"
  "quiet c (js_streams b) cs \<Longrightarrow> add_queue name subjects b = Some b' \<Longrightarrow> quiet c (js_streams b') cs \<and> js_consumers b' = js_consumers b"
  "quiet c (js_streams b) cs \<Longrightarrow> stream_info name b = Some b' \<Longrightarrow> quiet c (js_streams b') cs \<and> js_consumers b' = js_consumers b"
  by (auto simp: put_stream_def add_queue_def stream_info_def quiet_def with_stream_def split: if_splits option.splits) blast+

lemma quiet_publish:
  "quiet c (js_streams b) cs \<Longrightarrow> x \<in> published c \<Longrightarrow> js_publish x data b = Some b' \<Longrightarrow>
   quiet c (js_streams b') cs \<and> js_consumers b' = js_consumers b"
  by (auto simp: js_publish_def quiet_def with_stream_def put_msg_def split: option.splits if_splits) blast+

lemma quiet_consumer:
  assumes "quiet c ss (js_consumers b)" and "put_consumer name durable x b = Some b'"
    and "\<forall>polls. durable = sub_durable (bc_notify c) polls \<longrightarrow> x = sub_subject (bc_notify c) polls"
  shows "quiet c ss (js_consumers b') \<and> js_streams b' = js_streams b"
  using assms by (auto simp: put_consumer_def quiet_def is_consumer_def split: if_splits option.splits)

lemma quiet_bind:
  assumes "quiet c ss (js_consumers b)" and "bind_consumer name durable x b = Some b'"
    and "\<forall>polls. durable = sub_durable (bc_notify c) polls \<longrightarrow> x = sub_subject (bc_notify c) polls"
  shows "quiet c ss (js_consumers b') \<and> js_streams b' = js_streams b"
proof (cases "find (is_consumer name durable) (js_consumers b)")
  case None
  with assms(2) have "put_consumer name durable x b = Some b'" by (simp add: bind_consumer_def)
  from quiet_consumer [OF assms(1) this assms(3)] show ?thesis .
next
  case (Some r)
  with assms(2) have "b' = b" by (simp add: bind_consumer_def split: if_splits)
  with assms(1) show ?thesis by simp
qed

lemma quiet_ack:
  "quiet c (js_streams b) (js_consumers b) \<Longrightarrow> js_ack name durable n b = Some b' \<Longrightarrow> quiet c (js_streams b') (js_consumers b')"
  by (auto simp: js_ack_def quiet_def with_stream_def Let_def split: if_splits) blast+

lemma quiet_waiting:
  assumes "deaf c" and "quiet c (js_streams b) (js_consumers b)"
  shows "waiting name (sub_durable (bc_notify c) polls) n b = None"
proof -
  have "cn_Filter r = sub_subject (bc_notify c) polls"
    if "find (is_consumer name (sub_durable (bc_notify c) polls)) (js_consumers b) = Some r" for r
    using that assms(2) by (auto simp: quiet_def is_consumer_def find_Some_iff)
  moreover have "x \<in> published c" if "find_stream name b = Some s" "js_Msgs s n = Some (x, d)" for s x d
    using that assms(2) by (fastforce simp: quiet_def find_stream_def find_Some_iff)
  ultimately show ?thesis using assms(1)
    by (auto simp: waiting_def deaf_def split: option.splits)
qed

lemma quiet_request:
  assumes "request f b = (x, b')" and "quiet c (js_streams b) (js_consumers b)"
    and "\<And>b1 b2. quiet c (js_streams b1) (js_consumers b1) \<Longrightarrow> f b1 = Some b2 \<Longrightarrow> quiet c (js_streams b2) (js_consumers b2)"
  shows "quiet c (js_streams b') (js_consumers b')"
  by (rule request_keeps [where I = "quiet c", OF assms])

text \<open>What the services ask of the broker keeps it quiet.\<close>

lemma quiet_asked:
  assumes "quiet c (js_streams b) (js_consumers b)"
  shows "NewPublisher pc b = (x, b') \<Longrightarrow> quiet c (js_streams b') (js_consumers b')"
    and "NewNATSBus sc b = (x, b') \<Longrightarrow> quiet c (js_streams b') (js_consumers b')"
    and "nats_Connect nc b = (x, b') \<Longrightarrow> quiet c (js_streams b') (js_consumers b')"
    and "nats_Consume (bc_notify c) polls b = (x, b') \<Longrightarrow> quiet c (js_streams b') (js_consumers b')"
    and "deaf c \<Longrightarrow> nats_Subscribe (bc_surprise c) b = (x, b') \<Longrightarrow> quiet c (js_streams b') (js_consumers b')"
    and "PublishPollCompleted (bc_poll c) ev b = (x, b') \<Longrightarrow> quiet c (js_streams b') (js_consumers b')"
    and "nats_PublishGenerationRequested (bc_surprise c) j b = (x, b') \<Longrightarrow> quiet c (js_streams b') (js_consumers b')"
    and "nats_PublishIdeasReady (bc_surprise c) e b = (x, b') \<Longrightarrow> quiet c (js_streams b') (js_consumers b')"
    and "request (js_ack name durable n) b = (x, b') \<Longrightarrow> quiet c (js_streams b') (js_consumers b')"
proof -
  show "quiet c (js_streams b') (js_consumers b')" if "NewPublisher pc b = (x, b')"
    by (rule quiet_request [OF that [unfolded NewPublisher_def] assms]) (metis quiet_streams(1))
  show "quiet c (js_streams b') (js_consumers b')" if n: "NewNATSBus sc b = (x, b')"
  proof -
    obtain m b1 where 1: "request (stream_info (sn_Stream sc)) b = (m, b1)" by fastforce
    have q: "quiet c (js_streams b1) (js_consumers b1)"
      by (rule quiet_request [OF 1 assms]) (metis quiet_streams(3))
    show ?thesis
    proof (cases m)
      case True
      with n 1 have "request (add_queue (sn_Stream sc) [sn_RequestSubject sc, sn_ReadySubject sc]) b1 = (x, b')"
        by (simp add: NewNATSBus_def)
      from quiet_request [OF this q] quiet_streams(2) show ?thesis by metis
    next
      case False
      with n 1 q show ?thesis by (simp add: NewNATSBus_def)
    qed
  qed
  show "quiet c (js_streams b') (js_consumers b')" if "nats_Connect nc b = (x, b')"
    by (rule quiet_request [OF that [unfolded nats_Connect_def] assms]) (metis quiet_streams(1))
  show "quiet c (js_streams b') (js_consumers b')" if "nats_Consume (bc_notify c) polls b = (x, b')"
  proof (rule quiet_request [OF that [unfolded nats_Consume_def] assms])
    fix b1 b2
    assume "quiet c (js_streams b1) (js_consumers b1)"
      "put_consumer (nn_Stream (bc_notify c)) (sub_durable (bc_notify c) polls) (sub_subject (bc_notify c) polls) b1 = Some b2"
    from quiet_consumer [OF this] show "quiet c (js_streams b2) (js_consumers b2)"
      by (auto simp: sub_durable_def)
  qed
  show "quiet c (js_streams b') (js_consumers b')" if d: "deaf c" and n: "nats_Subscribe (bc_surprise c) b = (x, b')"
  proof (cases "find (\<lambda>s. \<exists>x \<in> set (js_Subjects s). subjects_overlap x (sn_RequestSubject (bc_surprise c))) (js_streams b)")
    case None
    then show ?thesis using n assms by (simp add: nats_Subscribe_def)
  next
    case (Some s)
    with n have "request (bind_consumer (js_Name s) (sn_DurableName (bc_surprise c)) (sn_RequestSubject (bc_surprise c))) b = (x, b')"
      by (simp add: nats_Subscribe_def)
    then show ?thesis
    proof (rule quiet_request [OF _ assms])
      fix b1 b2
      assume "quiet c (js_streams b1) (js_consumers b1)"
        "bind_consumer (js_Name s) (sn_DurableName (bc_surprise c)) (sn_RequestSubject (bc_surprise c)) b1 = Some b2"
      from quiet_bind [OF this] show "quiet c (js_streams b2) (js_consumers b2)"
        using d by (simp add: deaf_def)
    qed
  qed
  have pub: "quiet c (js_streams b') (js_consumers b')" if "request (js_publish y data) b = (x, b')" "y \<in> published c" for y data
    by (rule quiet_request [OF that(1) assms]) (metis quiet_publish that(2))
  show "quiet c (js_streams b') (js_consumers b')" if "PublishPollCompleted (bc_poll c) ev b = (x, b')"
    using that assms pub [of "pn_Subject (bc_poll c)"] by (auto simp: PublishPollCompleted_def published_def split: if_splits)
  show "quiet c (js_streams b') (js_consumers b')" if "nats_PublishGenerationRequested (bc_surprise c) j b = (x, b')"
    using that pub [of "sn_RequestSubject (bc_surprise c)"] by (auto simp: nats_PublishGenerationRequested_def published_def)
  show "quiet c (js_streams b') (js_consumers b')" if "nats_PublishIdeasReady (bc_surprise c) e b = (x, b')"
    using that pub [of "sn_ReadySubject (bc_surprise c)"] by (auto simp: nats_PublishIdeasReady_def published_def)
  show "quiet c (js_streams b') (js_consumers b')" if "request (js_ack name durable n) b = (x, b')"
    by (rule quiet_request [OF that assms]) (rule quiet_ack)
qed

lemma quiet_step:
  assumes "deaf c" and "quiet c (js_streams b) (js_consumers b)" and "bus_step c st ok v (b, s) = (f, b', s')"
  shows "quiet c (js_streams b') (js_consumers b') \<and> s' = s"
proof (cases v)
  case PollStarts
  obtain x b1 where 1: "NewPublisher (bc_poll c) b = (x, b1)" by fastforce
  from quiet_asked(1) [OF assms(2) 1] assms(3) 1 show ?thesis by (simp add: PollStarts)
next
  case SurpriseStarts
  obtain x b1 where 1: "NewNATSBus (bc_surprise c) b = (x, b1)" by fastforce
  obtain y b2 where 2: "nats_Subscribe (bc_surprise c) b1 = (y, b2)" by fastforce
  note q = quiet_asked(2) [OF assms(2) 1]
  from quiet_asked(5) [OF q assms(1) 2] q assms(3) 1 2 show ?thesis
    by (auto simp: SurpriseStarts split: if_splits)
next
  case NotifyStarts
  obtain x b1 where 1: "nats_Connect (bc_notify c) b = (x, b1)" by fastforce
  obtain y b2 where 2: "nats_Consume (bc_notify c) True b1 = (y, b2)" by fastforce
  obtain z b3 where 3: "nats_Consume (bc_notify c) False b2 = (z, b3)" by fastforce
  note q = quiet_asked(3) [OF assms(2) 1]
  from quiet_asked(4) [OF quiet_asked(4) [OF q 2] 3] q assms(3) 1 2 3 show ?thesis
    by (auto simp: NotifyStarts split: if_splits)
next
  case (PollEvent ev)
  obtain x b1 where 1: "PublishPollCompleted (bc_poll c) ev b = (x, b1)" by fastforce
  from quiet_asked(6) [OF assms(2) 1] assms(3) 1 show ?thesis by (simp add: PollEvent)
next
  case (JobEvent j)
  obtain x b1 where 1: "nats_PublishGenerationRequested (bc_surprise c) j b = (x, b1)" by fastforce
  from quiet_asked(7) [OF assms(2) 1] assms(3) 1 show ?thesis by (simp add: JobEvent)
next
  case (ReadyEvent e)
  obtain x b1 where 1: "nats_PublishIdeasReady (bc_surprise c) e b = (x, b1)" by fastforce
  from quiet_asked(8) [OF assms(2) 1] assms(3) 1 show ?thesis by (simp add: ReadyEvent)
next
  case (ToNotify polls n now)
  with assms(3) quiet_waiting [OF assms(1,2)] have "b' = b" "s' = s" by (auto simp: nats_message_def)
  then show ?thesis using assms(2) by simp
next
  case (ToWorker n failed)
  obtain x b1 where 1: "request (js_ack (sn_Stream (bc_surprise c)) (sn_DurableName (bc_surprise c)) n) b = (x, b1)"
    by fastforce
  from quiet_asked(9) [OF assms(2) 1] assms(2,3) 1 show ?thesis
    by (cases failed) (auto simp: ToWorker nats_job_def split: option.splits)
qed

lemma quiet_run:
  "deaf c \<Longrightarrow> quiet c (js_streams b) (js_consumers b) \<Longrightarrow> bus_run c st ok vs (b, s) = (fs, b', s') \<Longrightarrow> s' = s"
proof (induction vs arbitrary: b s fs)
  case Nil
  then show ?case by simp
next
  case (Cons v vs)
  obtain f b1 s1 where 1: "bus_step c st ok v (b, s) = (f, b1, s1)" by (rule prod_cases3)
  obtain gs b2 s2 where 2: "bus_run c st ok vs (b1, s1) = (gs, b2, s2)" by (rule prod_cases3)
  note q = quiet_step [OF Cons.prems(1,2) 1]
  from Cons.IH [OF Cons.prems(1) conjunct1 [OF q], of s1 gs] 2 Cons.prems(3) 1 q show ?case by auto
qed

section \<open>The shipped configuration\<close>

definition new_broker :: "broker_fault list \<Rightarrow> jetstream" where
  "new_broker fs = \<lparr>js_streams = [], js_consumers = [], js_faults = fs\<rparr>"

text \<open>C36: with the configuration of the repository no event reaches the Notification service. Poll and
  Surprise publish under \<open>poll.completed\<close> and \<open>surprise.ideas.ready\<close>; the service subscribes to
  \<open>events.poll.completed\<close> and \<open>events.surprise.ideas_ready\<close>. Whatever is published and delivered, in
  whatever order the services start and whichever requests fail, its store stays as it was: nobody is
  ever notified.\<close>

theorem shipped_events_unheard:
  assumes "bus_run shipped st time_ok vs (new_broker fs, s) = (xs, b, s')"
  shows "s' = s"
proof -
  have "quiet shipped (js_streams (new_broker fs)) (js_consumers (new_broker fs))"
    by (simp add: quiet_def new_broker_def)
  from quiet_run [OF shipped_deaf this assms] show ?thesis .
qed

text \<open>Each service starts and publishes, and every message is offered to the subscription that wants it.\<close>

definition ex_bus_events :: "bus_config \<Rightarrow> bus_event list" where
  "ex_bus_events c =
     [PollStarts, SurpriseStarts, NotifyStarts,
      PollEvent \<lparr>ev_PollID = ''p1'', ev_SurpriseRequestID = [], ev_OwnerUserID = ''ann'', ev_CompletedAt = 0\<rparr>,
      ReadyEvent \<lparr>ev_RequestID = ''q1'', ev_UserID = ''ann'', ev_IdeaCount = 3\<rparr>,
      ToNotify True 1 0, ToNotify False 1 0]"

theorem shipped_events_unheard_witness:
  "let (xs, b, s) = bus_run shipped (pg_notify Some) (\<lambda>_. True) (ex_bus_events shipped) (new_broker [], ex_notify []) in
   list_all Not xs \<and> map js_Last (js_streams b) = [1, 1, 0] \<and> s = ex_notify []"
proof -
  obtain xs b s where run: "bus_run shipped (pg_notify Some) (\<lambda>_. True) (ex_bus_events shipped) (new_broker [], ex_notify []) = (xs, b, s)"
    by (rule prod_cases3)
  have "(\<lambda>(xs, b, s). (xs, map js_Last (js_streams b)))
      (bus_run shipped (pg_notify Some) (\<lambda>_. True) (ex_bus_events shipped) (new_broker [], ex_notify [])) =
      (replicate 7 False, [1, 1, 0])"
    by code_simp
  then have "xs = replicate 7 False" "map js_Last (js_streams b) = [1, 1, 0]" by (simp_all only: run prod.case prod.inject)
  with shipped_events_unheard [OF run] show ?thesis by (simp add: run list_all_iff)
qed

text \<open>
  With subjects and a stream that Poll and the Notification service agree on, the same run puts the
  notification of the poll into the outbox: the broker of this model does deliver.
\<close>

definition agreed_names :: bus_config where
  "agreed_names = shipped\<lparr>bc_poll := \<lparr>pn_Stream = ''EVENTS'', pn_Subject = ''events.poll.completed''\<rparr>\<rparr>"

lemma agreed_events_heard:
  "(\<lambda>(xs, b, s). (xs, map ob_DedupeKey (np_outbox s)))
     (bus_run agreed_names (pg_notify Some) (\<lambda>_. True) (ex_bus_events agreed_names) (new_broker [], ex_notify [])) =
   (replicate 7 False, [''poll_completed:p1:ann''])"
  by code_simp

end
