(* ===== verification/Identity_Migrate.thy ===== *)
theory Identity_Migrate
  imports Gift_Prelude "HOL-Library.List_Lexorder" "HOL-Library.Char_ord"
begin

text \<open>
  The runner of the migrations of Identity
  (\<open>services/backend/identity/internal/domain/postgres/migrate.go\<close>), which runs on every start. What a
  script does to the schema is a parameter; the table of applied versions is only written by the runner.
\<close>

section \<open>The database\<close>

text \<open>A statement succeeds, fails without effect, or takes effect while its reply is lost.\<close>

datatype sql_fault = Replied | Failed | Unanswered

record 'd mig_db =
  mg_schema :: bool
  mg_versions :: "string list option"
  mg_data :: 'd
  mg_faults :: "sql_fault list"

definition mg_tick :: "'d mig_db \<Rightarrow> sql_fault \<times> 'd mig_db" where
  "mg_tick s = (case mg_faults s of [] \<Rightarrow> (Replied, s) | x # xs \<Rightarrow> (x, s\<lparr>mg_faults := xs\<rparr>))"

text \<open>A statement of its own, with its effect if it applies: whether the client sees an error, and the
  database then.\<close>

definition mg_Exec :: "('d mig_db \<Rightarrow> 'd mig_db option) \<Rightarrow> 'd mig_db \<Rightarrow> bool \<times> 'd mig_db" where
  "mg_Exec f s =
     (let (x, s1) = mg_tick s in
      if x = Failed then (True, s1)
      else case f s1 of None \<Rightarrow> (True, s1) | Some s2 \<Rightarrow> (x = Unanswered, s2))"

text \<open>\<open>CREATE SCHEMA\<close> and \<open>CREATE TABLE\<close>, each \<open>IF NOT EXISTS\<close>.\<close>

definition create_schema :: "'d mig_db \<Rightarrow> 'd mig_db option" where
  "create_schema s = Some (s\<lparr>mg_schema := True\<rparr>)"

definition create_table :: "'d mig_db \<Rightarrow> 'd mig_db option" where
  "create_table s =
     (if \<not> mg_schema s then None
      else Some (case mg_versions s of None \<Rightarrow> s\<lparr>mg_versions := Some []\<rparr> | Some _ \<Rightarrow> s))"

definition select_version :: "string \<Rightarrow> 'd mig_db \<Rightarrow> (unit + bool) \<times> 'd mig_db" where
  "select_version name s =
     (let (x, s1) = mg_tick s in
      if x \<noteq> Replied then (Inl (), s1)
      else case mg_versions s1 of None \<Rightarrow> (Inl (), s1) | Some vs \<Rightarrow> (Inr (name \<in> set vs), s1))"

text \<open>The statements of the transaction work on its own copy, which the commit stores.\<close>

definition run_script :: "(string \<Rightarrow> 'd \<Rightarrow> 'd option) \<Rightarrow> string \<Rightarrow> 'd mig_db \<Rightarrow> 'd mig_db option" where
  "run_script sql text s = map_option (\<lambda>d. s\<lparr>mg_data := d\<rparr>) (sql text (mg_data s))"

definition insert_version :: "string \<Rightarrow> 'd mig_db \<Rightarrow> 'd mig_db option" where
  "insert_version name s =
     (case mg_versions s of
        None \<Rightarrow> None
      | Some vs \<Rightarrow> (if name \<in> set vs then None else Some (s\<lparr>mg_versions := Some (vs @ [name])\<rparr>)))"

definition mg_rollback :: "'d mig_db \<Rightarrow> 'd mig_db \<Rightarrow> 'd mig_db" where
  "mg_rollback s s1 = s\<lparr>mg_faults := mg_faults s1\<rparr>"

definition begin_func :: "(string \<Rightarrow> 'd \<Rightarrow> 'd option) \<Rightarrow> string \<times> string \<Rightarrow> 'd mig_db \<Rightarrow> bool \<times> 'd mig_db" where
  "begin_func sql file s =
     (let (f0, s0) = mg_Exec Some s in
      if f0 then (True, s0)
      else let (f1, s1) = mg_Exec (run_script sql (snd file)) s0 in
      if f1 then (True, mg_rollback s s1)
      else let (f2, s2) = mg_Exec (insert_version (fst file)) s1 in
      if f2 then (True, mg_rollback s s2)
      else let (x, s3) = mg_tick s2 in
      if x = Failed then (True, mg_rollback s s3) else (x = Unanswered, s3))"

section \<open>Migrate\<close>

fun mig_loop :: "(string \<Rightarrow> 'd \<Rightarrow> 'd option) \<Rightarrow> (string \<times> string) list \<Rightarrow> 'd mig_db \<Rightarrow> bool \<times> 'd mig_db" where
  "mig_loop sql [] s = (False, s)"
| "mig_loop sql (file # files) s =
     (case select_version (fst file) s of
        (Inl _, s1) \<Rightarrow> (True, s1)
      | (Inr exists, s1) \<Rightarrow>
          (if exists then mig_loop sql files s1
           else let (f, s2) = begin_func sql file s1 in
           if f then (True, s2) else mig_loop sql files s2))"

text \<open>The embedded files, by name and contents; reading them cannot fail. Whether an error is returned.\<close>

definition Migrate :: "(string \<Rightarrow> 'd \<Rightarrow> 'd option) \<Rightarrow> (string \<times> string) list \<Rightarrow> 'd mig_db \<Rightarrow> bool \<times> 'd mig_db" where
  "Migrate sql files s =
     (let (f1, s1) = mg_Exec create_schema s in
      if f1 then (True, s1)
      else let (f2, s2) = mg_Exec create_table s1 in
      if f2 then (True, s2) else mig_loop sql (sort_key fst files) s2)"

text \<open>The service is started again and again; whether each start reports an error.\<close>

fun boots :: "(string \<Rightarrow> 'd \<Rightarrow> 'd option) \<Rightarrow> (string \<times> string) list \<Rightarrow> nat \<Rightarrow> 'd mig_db \<Rightarrow> bool list \<times> 'd mig_db" where
  "boots sql files 0 s = ([], s)"
| "boots sql files (Suc n) s =
     (let (f, s1) = Migrate sql files s; (fs, s2) = boots sql files n s1 in (f # fs, s2))"

section \<open>Every script once\<close>

text \<open>The scripts in their order, each applied to what the one before left.\<close>

fun play :: "(string \<Rightarrow> 'd \<Rightarrow> 'd option) \<Rightarrow> (string \<times> string) list \<Rightarrow> 'd \<Rightarrow> 'd option" where
  "play sql [] d = Some d"
| "play sql (x # xs) d = (case sql (snd x) d of None \<Rightarrow> None | Some d1 \<Rightarrow> play sql xs d1)"

lemma play_snoc [simp]: "play sql (xs @ [x]) d = (case play sql xs d of None \<Rightarrow> None | Some d1 \<Rightarrow> sql (snd x) d1)"
  by (induction xs arbitrary: d) (auto split: option.splits)

text \<open>The database holds the first scripts, and knows which.\<close>

definition applied :: "'d mig_db \<Rightarrow> string list" where
  "applied s = (case mg_versions s of None \<Rightarrow> [] | Some vs \<Rightarrow> vs)"

definition holds_first :: "(string \<Rightarrow> 'd \<Rightarrow> 'd option) \<Rightarrow> (string \<times> string) list \<Rightarrow> 'd \<Rightarrow> nat \<Rightarrow> 'd mig_db \<Rightarrow> bool" where
  "holds_first sql xs d k s \<longleftrightarrow> k \<le> length xs \<and> applied s = map fst (take k xs) \<and> play sql (take k xs) d = Some (mg_data s)"

lemma tick_same: "mg_tick s = (x, s1) \<Longrightarrow> mg_versions s1 = mg_versions s \<and> mg_data s1 = mg_data s"
  by (auto simp: mg_tick_def split: list.splits)

lemma exec_cases:
  assumes "mg_Exec f s = (e, s')"
  obtains (skipped) "e" "mg_versions s' = mg_versions s" "mg_data s' = mg_data s"
    | (ran) s1 where "mg_versions s1 = mg_versions s" "mg_data s1 = mg_data s" "f s1 = Some s'"
proof -
  obtain x s1 where t: "mg_tick s = (x, s1)" by fastforce
  show ?thesis using assms that tick_same [OF t] by (auto simp: mg_Exec_def t split: if_splits option.splits)
qed

lemma holds_same: "mg_versions s' = mg_versions s \<Longrightarrow> mg_data s' = mg_data s \<Longrightarrow> holds_first sql xs d k s' = holds_first sql xs d k s"
  by (simp add: holds_first_def applied_def)

text \<open>A transaction applies the next script and records it, or does nothing.\<close>

lemma begin_func_step:
  assumes "distinct (map fst xs)" and "holds_first sql xs d k s" and "k < length xs" and "begin_func sql (xs ! k) s = (f, s')"
  shows "holds_first sql xs d (Suc k) s' \<or> f \<and> holds_first sql xs d k s'"
proof -
  obtain f0 s0 where 0: "mg_Exec Some s = (f0, s0)" by fastforce
  obtain f1 s1 where 1: "mg_Exec (run_script sql (snd (xs ! k))) s0 = (f1, s1)" by fastforce
  obtain f2 s2 where 2: "mg_Exec (insert_version (fst (xs ! k))) s1 = (f2, s2)" by fastforce
  obtain x s3 where 3: "mg_tick s2 = (x, s3)" by fastforce
  have s0: "mg_versions s0 = mg_versions s" "mg_data s0 = mg_data s" by (rule exec_cases [OF 0]; simp)+
  have undo: "holds_first sql xs d k (mg_rollback s t)" for t using assms(2) by (simp add: holds_first_def applied_def mg_rollback_def)
  show ?thesis
  proof (cases "f0 \<or> f1 \<or> f2 \<or> x = Failed")
    case True
    then show ?thesis using assms(2,4) undo s0 holds_same [of s0 s]
      by (auto simp: begin_func_def 0 1 2 3 split: if_splits)
  next
    case False
    then have s': "s' = s3" using assms(4) by (simp add: begin_func_def 0 1 2 3)
    from 1 False obtain t1 where t1: "mg_versions t1 = mg_versions s0" "mg_data t1 = mg_data s0"
      "run_script sql (snd (xs ! k)) t1 = Some s1" by (auto elim: exec_cases)
    from 2 False obtain t2 where t2: "mg_versions t2 = mg_versions s1" "mg_data t2 = mg_data s1"
      "insert_version (fst (xs ! k)) t2 = Some s2" by (auto elim: exec_cases)
    from t1 obtain d1 where d1: "sql (snd (xs ! k)) (mg_data s) = Some d1" "mg_data s1 = d1" "mg_versions s1 = mg_versions s"
      using s0 by (auto simp: run_script_def)
    from t2 d1 obtain vs where vs: "mg_versions s = Some vs" "mg_versions s2 = Some (vs @ [fst (xs ! k)])" "mg_data s2 = d1"
      by (auto simp: insert_version_def split: option.splits if_splits)
    have "holds_first sql xs d (Suc k) s3"
      using assms(2,3) tick_same [OF 3] vs d1 by (simp add: holds_first_def applied_def take_Suc_conv_app_nth)
    then show ?thesis by (simp add: s')
  qed
qed

lemma name_taken:
  assumes "distinct (map fst xs)" and "i < length xs" and "k \<le> length xs"
  shows "fst (xs ! i) \<in> set (map fst (take k xs)) \<longleftrightarrow> i < k"
proof -
  have "i < k" if "fst (xs ! i) \<in> set (map fst (take k xs))"
  proof -
    from that assms(3) obtain j where j: "j < k" "map fst xs ! j = map fst xs ! i"
      using assms(2) by (auto simp: in_set_conv_nth simp del: set_map)
    with assms nth_eq_iff_index_eq [OF assms(1), of j i] show ?thesis by simp
  qed
  moreover have "map fst (take k xs) ! i \<in> set (map fst (take k xs))" if "i < k"
    using that assms(3) by (intro nth_mem) simp
  ultimately show ?thesis using assms(2,3) by auto
qed

text \<open>Only what is missing is run: an applied script is found in the table.\<close>

lemma loop_prefix:
  assumes "distinct (map fst xs)" and "holds_first sql xs d k s" and "mig_loop sql (drop i xs) s = (f, s')" and "i \<le> k"
  shows "\<exists>k'. holds_first sql xs d k' s' \<and> (f \<or> k' = length xs)"
  using assms(2-)
proof (induction "length xs - i" arbitrary: i k s)
  case 0
  then have "length xs \<le> i" by simp
  with 0 show ?case by (auto simp: holds_first_def)
next
  case (Suc m)
  then have i: "i < length xs" by simp
  then have d: "drop i xs = xs ! i # drop (Suc i) xs" by (simp add: Cons_nth_drop_Suc)
  obtain y t where y: "select_version (fst (xs ! i)) s = (y, t)" by fastforce
  have t: "mg_versions t = mg_versions s" "mg_data t = mg_data s"
    using y tick_same by (auto simp: select_version_def split: prod.splits if_splits option.splits)
  have u: "holds_first sql xs d k t" using Suc.prems(1) holds_same [OF t] by simp
  show ?case
  proof (cases y)
    case (Inl a)
    with Suc.prems(2) y u show ?thesis by (auto simp: d)
  next
    case (Inr ex)
    from y Inr t(1) have "ex \<longleftrightarrow> fst (xs ! i) \<in> set (applied s)"
      by (auto simp: select_version_def applied_def split: prod.splits if_splits option.splits)
    then have ex: "ex \<longleftrightarrow> i < k"
      using Suc.prems(1) name_taken [OF assms(1) i] by (simp add: holds_first_def)
    show ?thesis
    proof (cases ex)
      case True
      with Suc.prems(2) y Inr have "mig_loop sql (drop (Suc i) xs) t = (f, s')" by (simp add: d)
      from Suc.hyps(1) [OF _ u this] Suc.hyps(2) ex True show ?thesis by simp
    next
      case False
      with ex Suc.prems(3) have k: "k = i" by simp
      obtain g t' where g: "begin_func sql (xs ! i) t = (g, t')" by fastforce
      from begin_func_step [OF assms(1) u _ g [folded k]] i k
      have n: "holds_first sql xs d (Suc i) t' \<or> g \<and> holds_first sql xs d i t'" by simp
      show ?thesis
      proof (cases g)
        case True
        with Suc.prems(2) y Inr False g n show ?thesis by (auto simp: d)
      next
        case g': False
        with Suc.prems(2) y Inr False g have "mig_loop sql (drop (Suc i) xs) t' = (f, s')" by (simp add: d)
        moreover from n g' have "holds_first sql xs d (Suc i) t'" by simp
        ultimately show ?thesis using Suc.hyps(1) [of "Suc i" "Suc i" t'] Suc.hyps(2) by simp
      qed
    qed
  qed
qed

lemma migrate_prefix:
  assumes "distinct (map fst files)" and "holds_first sql (sort_key fst files) d k s" and "Migrate sql files s = (f, s')"
  shows "\<exists>k'. holds_first sql (sort_key fst files) d k' s' \<and> (f \<or> k' = length files)"
proof -
  have dist: "distinct (map fst (sort_key fst files))" using assms(1) by (simp add: distinct_map)
  obtain f1 s1 where 1: "mg_Exec create_schema s = (f1, s1)" by fastforce
  obtain f2 s2 where 2: "mg_Exec create_table s1 = (f2, s2)" by fastforce
  have u1: "holds_first sql (sort_key fst files) d k s1"
    by (rule exec_cases [OF 1]) (use assms(2) in \<open>auto simp: create_schema_def holds_first_def applied_def\<close>)
  have u2: "holds_first sql (sort_key fst files) d k s2"
    by (rule exec_cases [OF 2]) (use u1 in \<open>auto simp: create_table_def holds_first_def applied_def split: if_splits option.splits\<close>)
  show ?thesis
  proof (cases "f1 \<or> f2")
    case True
    with assms(3) u1 u2 show ?thesis by (auto simp: Migrate_def 1 2 split: if_splits)
  next
    case False
    with assms(3) have "mig_loop sql (drop 0 (sort_key fst files)) s2 = (f, s')" by (simp add: Migrate_def 1 2)
    from loop_prefix [OF dist u2 this] show ?thesis by simp
  qed
qed

lemma boots_length: "boots sql files n s = (fs, s') \<Longrightarrow> length fs = n"
  by (induction n arbitrary: s fs) (auto split: prod.splits)

lemma boots_prefix:
  assumes "distinct (map fst files)" and "holds_first sql (sort_key fst files) d k s" and "boots sql files n s = (fs, s')"
  shows "\<exists>k'. holds_first sql (sort_key fst files) d k' s' \<and> (fs \<noteq> [] \<and> \<not> last fs \<longrightarrow> k' = length files)"
  using assms(2,3)
proof (induction n arbitrary: k s fs)
  case 0
  then show ?case by auto
next
  case (Suc n)
  obtain f s1 where 1: "Migrate sql files s = (f, s1)" by fastforce
  obtain gs s2 where 2: "boots sql files n s1 = (gs, s2)" by fastforce
  from migrate_prefix [OF assms(1) Suc.prems(1) 1] obtain k1 where k1: "holds_first sql (sort_key fst files) d k1 s1" "f \<or> k1 = length files"
    by blast
  have e: "fs = f # gs" "s2 = s'" using Suc.prems(2) 1 2 by simp_all
  from Suc.IH [OF k1(1) 2 [unfolded e(2)]] obtain k2 where
    k2: "holds_first sql (sort_key fst files) d k2 s'" "gs \<noteq> [] \<and> \<not> last gs \<longrightarrow> k2 = length files" by blast
  show ?case
  proof (cases "gs = []")
    case True
    then have "s1 = s'" using boots_length [OF 2] 2 e(2) by simp
    with k1 True e(1) show ?thesis by auto
  next
    case False
    with k2 e(1) show ?thesis by auto
  qed
qed

definition fresh_db :: "'d \<Rightarrow> sql_fault list \<Rightarrow> 'd mig_db" where
  "fresh_db d fs = \<lparr>mg_schema = False, mg_versions = None, mg_data = d, mg_faults = fs\<rparr>"

text \<open>C39: however often Identity starts and whichever statements fail or lose their reply, the database is what
  a prefix of the migrations in the order of their names makes of it, each applied once, and the version
  table lists exactly these. After a start without an error it is all of them.\<close>

theorem migrations_applied_once:
  assumes "distinct (map fst files)" and "boots sql files n (fresh_db d faults) = (fs, s)"
  shows "\<exists>k. holds_first sql (sort_key fst files) d k s \<and> (fs \<noteq> [] \<and> \<not> last fs \<longrightarrow> k = length files)"
proof -
  have "holds_first sql (sort_key fst files) d 0 (fresh_db d faults)" by (simp add: holds_first_def applied_def fresh_db_def)
  from boots_prefix [OF assms(1) this assms(2)] show ?thesis .
qed

text \<open>Three starts: the first loses the reply of the commit of the first script, the second fails at the second
  script, the third completes.\<close>

definition ex_sql :: "string \<Rightarrow> string list \<Rightarrow> string list option" where
  "ex_sql text d = (if text \<in> set d then None else Some (d @ [text]))"

definition ex_files :: "(string \<times> string) list" where
  "ex_files = [(''0002_x.sql'', ''b''), (''0001_init.sql'', ''a'')]"

definition ex_faults :: "sql_fault list" where
  "ex_faults = [Replied, Replied, Replied, Replied, Replied, Replied, Unanswered,
     Replied, Replied, Replied, Replied, Replied, Failed]"

theorem migrations_applied_once_witness:
  "let (fs, s) = boots ex_sql ex_files 3 (fresh_db [] ex_faults) in
   fs = [True, True, False] \<and> mg_data s = [''a'', ''b''] \<and> holds_first ex_sql (sort_key fst ex_files) [] 2 s"
proof -
  obtain fs s where run: "boots ex_sql ex_files 3 (fresh_db [] ex_faults) = (fs, s)" by fastforce
  have "(\<lambda>(fs, s). (fs, mg_data s)) (boots ex_sql ex_files 3 (fresh_db [] ex_faults)) = ([True, True, False], [''a'', ''b''])"
    by code_simp
  then have c: "fs = [True, True, False]" "mg_data s = [''a'', ''b'']" unfolding run by simp_all
  have "distinct (map fst ex_files)" by (simp add: ex_files_def)
  from migrations_applied_once [OF this run] have "holds_first ex_sql (sort_key fst ex_files) [] 2 s"
    by (auto simp: c ex_files_def numeral_2_eq_2)
  with c show ?thesis by (simp only: run prod.case Let_def)
qed

end
