(* ===== verification/Spec2Isabelle.thy ===== *)
theory Spec2Isabelle
  imports Poll_Server Identity_OAuth Surprise_LLM Surprise_Resilience Notify_Events Notify_Workers Notify_Push
    Log_Server Catalog_Spec Gateway_Poll Gateway_Clients Gateway_Access Event_Bus Identity_Migrate
begin

text \<open>
  A verification library of the PerfectGift backend (\<open>services/backend\<close> and \<open>pkg/logkit\<close>, in Go).

  \<^bold>\<open>The program.\<close> A REST gateway answers the apps and the poll page and calls five services over gRPC:
  Identity (users, passwords, social sign-in, sessions, access tokens), Poll (polls, link tokens, one
  submission per link), Surprise (generation requests, a pipeline around a language model, ideas), Catalog
  (reference data and a vector search) and Notification (devices, an outbox, push providers). Poll and
  Surprise publish events that Surprise and Notification consume; every service ships its log records to a
  log server. State is kept in Postgres, Valkey and SQLite.

  \<^bold>\<open>How it is modelled.\<close> A struct is a record, an enum a datatype, an RPC or a method a function that takes the
  state and returns its result with the next state; an error is a value of a sum or an option. Times and
  durations are integers of nanoseconds, with 64-bit wrap-around written out (\<open>wrap64\<close>) where input is not
  bounded; texts are lists of bytes. A store is a record of operations, as the port interfaces of the code
  are, and its Postgres or Valkey version a state of tables or keys with one definition per statement.
  Each such state carries a schedule of failures, so a theorem over all states covers an error of every
  statement. What is not under the repository is a parameter: hash functions, signature primitives,
  random bytes, clocks, HTTP exchanges, the language model, collations and distances of Postgres.

  \<^bold>\<open>Theories.\<close>
  \<^item> \<open>Gift_Prelude\<close>: time, wrap-around, strings and status codes shared by all parts. \<open>Gift_Json\<close>,
    \<open>Gift_Json_Write\<close>, \<open>Gift_Json_Structs\<close>: \<open>encoding/json\<close>, its reader, its writer and the decoding of
    structs, with the round trip of the two. \<open>Gift_Time\<close>: time layouts and their order. \<open>Base64\<close>: the URL
    alphabet. \<open>Valkey\<close>: the commands of Valkey. \<open>Rate_Limit\<close>: the contract of a fixed window.
  \<^item> Poll (\<open>poll/internal\<close>): \<open>Poll_Model\<close> (\<open>domain/model\<close>), \<open>Poll_Store\<close> (\<open>ports\<close>,
    \<open>domain/postgres\<close>), \<open>Poll_Valkey\<close> (\<open>domain/valkey\<close>), \<open>Jwt_Verifier\<close> (\<open>infra/auth\<close>, and the same
    code in the gateway), \<open>Poll_Server\<close> (\<open>app\<close>).
  \<^item> Identity (\<open>identity/internal\<close>): \<open>Identity_Store\<close> (\<open>domain/valkey\<close>), \<open>Identity_Users\<close>
    (\<open>domain/postgres\<close>), \<open>Identity_Token\<close> (\<open>token\<close>), \<open>Identity_Password\<close> (\<open>password\<close>),
    \<open>Identity_OAuth\<close> (\<open>oauth\<close>), \<open>Identity_Server\<close> (\<open>app\<close>), \<open>Identity_Migrate\<close>
    (\<open>domain/postgres/migrate.go\<close>).
  \<^item> Surprise (\<open>surprise/internal\<close>): \<open>Surprise_Store\<close> (\<open>domain\<close>, \<open>domain/memory\<close>,
    \<open>domain/postgres\<close>), \<open>Surprise_Cache\<close> (\<open>domain/valkey\<close>), \<open>Surprise_Server\<close> (\<open>app\<close>, \<open>events\<close>),
    \<open>Surprise_Resilience\<close> (\<open>resilience\<close>), \<open>Surprise_Pipeline\<close> (\<open>pipeline\<close>, \<open>clients\<close>),
    \<open>Surprise_LLM\<close> (\<open>llm\<close>).
  \<^item> Notification (\<open>notification/internal\<close>): \<open>Notify_Store\<close> (\<open>notify/types.go\<close>, \<open>store.go\<close>,
    \<open>domain/postgres\<close>), \<open>Notify_Server\<close> (\<open>app/notification_server.go\<close>), \<open>Notify_Events\<close>
    (\<open>notify/consumer.go\<close>), \<open>Notify_Dispatch\<close> (\<open>notify/dispatcher.go\<close>, \<open>push.go\<close>), \<open>Notify_Workers\<close>
    (several dispatchers on one outbox, as a step relation), \<open>Notify_Push\<close> (\<open>push\<close>).
  \<^item> Logs: \<open>Logkit\<close> and \<open>Logkit_Ship\<close> (\<open>pkg/logkit\<close>), \<open>Log_Server\<close> (\<open>log-server/internal\<close>).
  \<^item> Catalog (\<open>catalog/internal\<close>): \<open>Catalog_Store\<close> (\<open>domain\<close>, \<open>embedding\<close>), \<open>Catalog_Server\<close>
    (\<open>app\<close>, \<open>domain/valkey\<close>), \<open>Catalog_Spec\<close>.
  \<^item> Gateway (\<open>api-gateway/internal\<close>): \<open>Gateway_Limit\<close> (\<open>ratelimit\<close>), \<open>Gateway_Rest\<close>
    (\<open>transport/rest/errors.go\<close>, \<open>http.go\<close>, the multiplexer of the standard library,
    \<open>auth/jwks_http.go\<close>), \<open>Gateway_Handlers\<close> (the handlers, \<open>middleware.go\<close>, \<open>router.go\<close>),
    \<open>Gateway_Spec\<close>, \<open>Gateway_Poll\<close> (the edge in front of the model of Poll), \<open>Gateway_Clients\<close> (what
    a client may send) and \<open>Gateway_Access\<close> (\<open>pkg/logkit/interceptor.go\<close> around the edge, the budgets of
    \<open>app/app.go\<close>).
  \<^item> \<open>Event_Bus\<close>: NATS JetStream, the adapters of Poll, Surprise and Notification (\<open>events/nats.go\<close> of
    each), and the services on one broker with the configuration files of the repository.
\<close>

text \<open>
  \<^bold>\<open>Interfaces.\<close> A locale states what one part relies on in another; the part that provides it interprets it
  on its own definitions, and the properties are read off the interpretation.
  \<^item> \<open>poll_repo_contract\<close> (a ledger of polls), interpreted as \<open>pg\<close>; \<open>session_store\<close>, as \<open>idv\<close>.
  \<^item> \<open>rate_limiter\<close>, as \<open>poll_rl\<close> and \<open>idv_rl\<close>; its extension \<open>expiring_limiter\<close>, as \<open>gwin\<close>.
  \<^item> \<open>surprise_repo\<close>, as \<open>memory\<close> and \<open>pg_gen\<close>; \<open>surprise_cache\<close>, as \<open>memc\<close> and \<open>vkc\<close>; \<open>gen_bus\<close>, as
    \<open>membus\<close>; \<open>gen_service\<close>, which joins the three, as \<open>mems\<close> and \<open>pgs\<close>.
  \<^item> \<open>outbox_store\<close>, as \<open>nst\<close>; its extension \<open>healthy_outbox\<close> for a store that does not fail, as
    \<open>nhealthy\<close>; \<open>device_store\<close> (a map from device to user), as \<open>devices\<close>.
  \<^item> \<open>log_sink\<close> (a server that stores exactly the records it acknowledges, and copies only when a
    reply is lost), as \<open>logs\<close>; \<open>expiring_cache\<close>, as \<open>refs\<close>.
  \<^item> \<open>edge_relation\<close> (a relation on the world behind the gateway that every downstream call keeps), as
    \<open>own\<close> and \<open>sent\<close> on the recording clients and as \<open>served\<close> on the model of Poll.

  \<^bold>\<open>What is shown.\<close>
  \<^item> Composition: the gateway calls a service for a user only with the subject of an accepted token, answers
    with the types of its handlers' structs and enums, and in front of Poll a link is submitted once, with the
    answers of the body.
  \<^item> Poll: one submission per link under any calls and failures; submission, reading and creation refine an
    abstract ledger; responses are the owner's, and a foreign poll is answered like a missing one.
  \<^item> Identity: once a refresh token has been used, later refreshes with it are refused, while overlapping ones
    end the session; tokens verify until they expire, across one rotation of the keys; id tokens are accepted
    only for what the provider vouches for (given the contract of golang-jwt, \<open>parses_safely\<close>); an external
    identity never changes its user; a password is needed for an email; the migrations are applied in
    order, each once.
  \<^item> Surprise: one job per idempotency key; owners see what is theirs; a job stores exactly the candidates that
    moderation approved, ranked, or nothing; retries end, and the breaker refines a history of results.
  \<^item> Notification: an event is recorded once; while the store works a pending row is settled after the backoffs
    of its attempts (73 s with the shipped numbers); two workers do not hold a row at a time, the devices of
    a user are those registered last, and push requests carry fresh tokens.
  \<^item> Logs and Catalog: while the disk works every record is in one known place, and the server's table has
    nothing but the records offered; a flush delivers all but the dropped and evicted ones; queries answer with
    the newest rows; every request leaves one access record, and that of a panic before it; cached reference
    data is what the tables gave, within the lifetime of the cache, for the same cache key; a search is by
    distance.
  \<^item> Errors: what the code does where a comment, a document or its purpose says otherwise is stated as a theorem
    of its own (events that nobody hears, a refinement that is not notified, limits that a header
    evades, documented bodies that are refused, sessions ended by overlapping refreshes, filters that share a
    cache key, and others beside the definitions they concern).

  \<^bold>\<open>Bounds and fuel.\<close> The JSON reader takes \<open>2 * length + 2\<close> as fuel, more than the calls it can make on a
  text, and refuses a nesting of more than 10000 as the library does; a value decoded into an \<open>any\<close> takes the
  length of its text. The decoder of ideas follows at most three wrappers (the constant of the code). Bodies
  are read up to 1 MiB, answers of the JWKS endpoint too. All other recursion is structural or has a
  measure; the loops that wait (a retry, the worker, the dispatcher, the shipper) are functions of the list
  of what happens to them, and that they end is proved where the code promises it.

  \<^bold>\<open>Not modelled.\<close> The copies of \<open>logkit\<close> inside the services (byte for byte \<open>pkg/logkit\<close>); the second copy of
  the verifier and of the JWKS source (the same code); processes, wiring, configuration, telemetry,
  metrics and embedded documents (input and output around the modelled parts); generated code and
  the frontends. Of the Claude client the HTTP exchange is a parameter and the local embedding (floating
  point) is left out. Deadlines and cancellation appear as failures of the calls they end; goroutines as
  the order in which their steps are taken.

  \<^bold>\<open>Simplifications.\<close> The calls of one service run one after the other, except where a theorem is about
  interleaving: overlapping refreshes (\<open>overlap_run\<close>), the workers of the outbox (\<open>fleet_step\<close>, where all
  workers read one clock and the dispatch of a row is one step with one reading), the circuit breaker, the
  broker of events. A Postgres transaction that fails has not taken effect in Poll, Surprise and Identity's user
  tables; a commit whose reply is lost is modelled for the migrations, for the log server (\<open>ReplyLost\<close>) and for
  the calls of the gateway. \<open>window_Allow\<close> reads the clock inside the critical section, the code just before it,
  and \<open>gateway_window_rate\<close> is for readings in order. \<open>validateClaims\<close> compares unbounded times, so the wrap of
  \<open>time.Unix\<close> for expiries billions of years away is not there. A read of the categories sees the two
  tables at one instant. What the Prometheus handler answers is an input.
\<close>

end
